(* ===== verification/Prelude.thy ===== *)
theory Prelude
  imports Main "HOL-Library.Word"
begin

text \<open>
  Shared vocabulary of the development: the machine-integer types of the Go sources, the
  result monad that models a Go \<open>(value, error)\<close> pair, slices, the fixed-width big- and
  little-endian layouts of \<open>encoding/binary\<close>, and the generic list and word lemmas that
  the component theories use. Collections of rewrite rules are declared as
  \<^theory_text>\<open>named_theorems\<close>: \<open>wire_simps\<close> for the layouts, \<open>result_simps\<close> for the monad.
\<close>

unbundle bit_operations_syntax

named_theorems wire_simps
named_theorems result_simps

section \<open>Machine integers and byte sequences\<close>

type_synonym byte = "8 word"
type_synonym u8 = "8 word"
type_synonym u16 = "16 word"
type_synonym u32 = "32 word"
type_synonym u64 = "64 word"
type_synonym bytes = "8 word list"

text \<open>
  A Go \<open>string\<close> is an immutable byte sequence; it is modelled by HOL's \<^typ>\<open>string\<close>, whose
  characters have eight bits. \<open>[]byte(s)\<close> and \<open>string(b)\<close> are the two conversions below.
\<close>

definition byte_of_char :: "char \<Rightarrow> byte" where
  "byte_of_char c = word_of_nat (of_char c)"

definition char_of_byte :: "byte \<Rightarrow> char" where
  "char_of_byte b = char_of (unat b)"

definition bytes_of_string :: "string \<Rightarrow> bytes" where
  "bytes_of_string s = map byte_of_char s"

definition string_of_bytes :: "bytes \<Rightarrow> string" where
  "string_of_bytes b = map char_of_byte b"

lemma unat_byte_lt [simp]: "unat (b :: byte) < 256"
  using unsigned_less [of b, where ?'a = nat] by simp

lemma unat_byte_small: "n < 256 \<Longrightarrow> unat (word_of_nat n :: byte) = n"
  by (simp add: unat_of_nat)

lemma bit_byte_lt: "bit (b :: byte) n \<Longrightarrow> n < 8"
  using bit_imp_le_length [of b n] by simp

lemma bit_byte_ge [simp]: "8 \<le> n \<Longrightarrow> \<not> bit (b :: byte) n"
  using bit_byte_lt [of b n] by auto

lemma unat_ucast_up [simp]:
  "LENGTH('a::len) \<le> LENGTH('b::len) \<Longrightarrow> unat (ucast (w :: 'a word) :: 'b word) = unat w"
  by (simp add: unsigned_ucast_eq take_bit_nat_eq_self_iff)
     (meson le_less_trans less_le_trans linorder_not_le one_le_numeral power_increasing unsigned_less)

lemma of_char_lt_256: "(of_char c :: nat) < 256"
  by (cases c) (auto simp: of_char_def horner_sum_simps split: if_splits)

lemma unat_byte_of_char [simp]: "unat (byte_of_char c) = (of_char c :: nat)"
  using of_char_lt_256 [of c] by (simp add: byte_of_char_def unat_of_nat)

lemma char_of_byte_of_char [simp]: "char_of_byte (byte_of_char c) = c"
  by (simp add: char_of_byte_def)

lemma byte_of_char_of_byte [simp]: "byte_of_char (char_of_byte b) = b"
  by (simp add: char_of_byte_def byte_of_char_def)

lemma string_of_bytes_of_string [simp]: "string_of_bytes (bytes_of_string s) = s"
  by (simp add: string_of_bytes_def bytes_of_string_def o_def)

lemma bytes_of_string_of_bytes [simp]: "bytes_of_string (string_of_bytes b) = b"
  by (simp add: string_of_bytes_def bytes_of_string_def o_def)

lemma length_bytes_of_string [simp]: "length (bytes_of_string s) = length s"
  by (simp add: bytes_of_string_def)

lemma length_string_of_bytes [simp]: "length (string_of_bytes s) = length s"
  by (simp add: string_of_bytes_def)

section \<open>Results\<close>

text \<open>
  A Go function that returns \<open>(T, error)\<close> or may panic is a function into \<open>'e + 'a\<close>:
  \<open>Inl e\<close> is the early return of the error (or the panic), \<open>Inr x\<close> the normal result.
  \<open>bindE\<close> is the \<open>if err != nil { return err }\<close> idiom.
\<close>

definition bindE :: "'e + 'a \<Rightarrow> ('a \<Rightarrow> 'e + 'b) \<Rightarrow> 'e + 'b" where
  "bindE m f = (case m of Inl e \<Rightarrow> Inl e | Inr x \<Rightarrow> f x)"

definition guardE :: "'e \<Rightarrow> bool \<Rightarrow> 'e + unit" where
  "guardE e b = (if b then Inr () else Inl e)"

lemma bindE_simps [simp, result_simps]:
  "bindE (Inl e) f = Inl e"
  "bindE (Inr x) f = f x"
  by (simp_all add: bindE_def)

lemma bindE_Inr_conv [result_simps]:
  "bindE m f = Inr y \<longleftrightarrow> (\<exists>x. m = Inr x \<and> f x = Inr y)"
  by (cases m) auto

lemma bindE_Inl_conv [result_simps]:
  "bindE m f = Inl e \<longleftrightarrow> m = Inl e \<or> (\<exists>x. m = Inr x \<and> f x = Inl e)"
  by (cases m) auto

lemma bindE_assoc: "bindE (bindE m f) g = bindE m (\<lambda>x. bindE (f x) g)"
  by (cases m) auto

lemma bindE_cong [fundef_cong]:
  "m = m' \<Longrightarrow> (\<And>x. m' = Inr x \<Longrightarrow> f x = f' x) \<Longrightarrow> bindE m f = bindE m' f'"
  by (cases m') auto

lemma guardE_simps [simp, result_simps]:
  "guardE e b = Inr u \<longleftrightarrow> b"
  "guardE e b = Inl e' \<longleftrightarrow> \<not> b \<and> e' = e"
  by (auto simp: guardE_def)

section \<open>Slices\<close>

text \<open>\<open>slice a b xs\<close> is Go's \<open>xs[a:b]\<close>; callers establish \<open>a \<le> b \<le> len(xs)\<close>.\<close>

definition slice :: "nat \<Rightarrow> nat \<Rightarrow> 'a list \<Rightarrow> 'a list" where
  "slice a b xs = take (b - a) (drop a xs)"

lemma length_slice [simp]: "a \<le> b \<Longrightarrow> b \<le> length xs \<Longrightarrow> length (slice a b xs) = b - a"
  by (simp add: slice_def)

lemma slice_append_exact: "slice (length xs) (length xs + length ys) (xs @ ys @ zs) = ys"
  by (simp add: slice_def)

lemma slice_0 [simp]: "slice 0 b xs = take b xs"
  by (simp add: slice_def)

lemma slice_full: "slice a (length xs) xs = drop a xs"
  by (simp add: slice_def)

section \<open>Fixed-width layouts (encoding/binary)\<close>

definition be16 :: "u16 \<Rightarrow> bytes" where
  "be16 w = [ucast (drop_bit 8 w), ucast w]"

definition be32 :: "u32 \<Rightarrow> bytes" where
  "be32 w = [ucast (drop_bit 24 w), ucast (drop_bit 16 w), ucast (drop_bit 8 w), ucast w]"

definition be64 :: "u64 \<Rightarrow> bytes" where
  "be64 w = [ucast (drop_bit 56 w), ucast (drop_bit 48 w), ucast (drop_bit 40 w),
             ucast (drop_bit 32 w), ucast (drop_bit 24 w), ucast (drop_bit 16 w),
             ucast (drop_bit 8 w), ucast w]"

definition le32 :: "u32 \<Rightarrow> bytes" where
  "le32 w = rev (be32 w)"

definition le64 :: "u64 \<Rightarrow> bytes" where
  "le64 w = rev (be64 w)"

text \<open>
  The readers take the bytes from the front of the list. Go's \<open>Uint16\<close> and \<open>Uint32\<close> panic on
  a short slice; every use in the sources is behind a length check, and the value 0 the
  model gives to a short list is never read.
\<close>

fun uint16_be :: "bytes \<Rightarrow> u16" where
  "uint16_be (a # b # _) = push_bit 8 (ucast a) OR ucast b"
| "uint16_be _ = 0"

fun uint32_be :: "bytes \<Rightarrow> u32" where
  "uint32_be (a # b # c # d # _) =
     push_bit 24 (ucast a) OR push_bit 16 (ucast b) OR push_bit 8 (ucast c) OR ucast d"
| "uint32_be _ = 0"

definition uint32_le :: "bytes \<Rightarrow> u32" where
  "uint32_le b = uint32_be (rev (take 4 b))"

lemma length_layouts [simp]:
  "length (be16 a) = 2" "length (be32 b) = 4" "length (be64 c) = 8"
  "length (le32 b) = 4" "length (le64 c) = 8"
  by (simp_all add: be16_def be32_def be64_def le32_def le64_def)

lemma uint16_be_be16 [simp, wire_simps]: "uint16_be (be16 w @ r) = w"
  by (rule bit_word_eqI) (auto simp: be16_def bit_simps)

lemma uint16_be_be16' [simp, wire_simps]: "uint16_be (be16 w) = w"
  using uint16_be_be16 [of w "[]"] by simp

lemma uint32_be_be32 [simp, wire_simps]: "uint32_be (be32 w @ r) = w"
proof (rule bit_word_eqI)
  fix n assume "n < LENGTH(32)"
  then have "n < 8 \<or> (8 \<le> n \<and> n < 16) \<or> (16 \<le> n \<and> n < 24) \<or> (24 \<le> n \<and> n < 32)" by auto
  then show "bit (uint32_be (be32 w @ r)) n = bit w n"
    by (elim disjE) (auto simp: be32_def bit_simps)
qed

lemma uint32_be_be32' [simp, wire_simps]: "uint32_be (be32 w) = w"
  using uint32_be_be32 [of w "[]"] by simp

lemma uint32_le_le32 [simp, wire_simps]: "uint32_le (le32 w @ r) = w"
  by (simp add: uint32_le_def le32_def)

lemma be16_uint16_be: "be16 (uint16_be [a, b]) = [a, b]"
  by (auto simp: be16_def intro!: bit_word_eqI simp: bit_simps dest: bit_byte_lt)

lemma be32_uint32_be: "be32 (uint32_be [a, b, c, d]) = [a, b, c, d]"
  by (auto simp: be32_def intro!: bit_word_eqI simp: bit_simps dest: bit_byte_lt)

lemma be16_inject [simp]: "be16 a = be16 b \<longleftrightarrow> a = b"
  by (metis uint16_be_be16')

lemma be32_inject [simp]: "be32 a = be32 b \<longleftrightarrow> a = b"
  by (metis uint32_be_be32')

lemma unat_uint16_be: "unat (uint16_be (a # b # r)) = 256 * unat a + unat b"
proof -
  have "push_bit 8 (ucast a) OR ucast b = push_bit 8 (ucast a) + (ucast b :: u16)"
    by (rule disjunctive_add [symmetric]) (auto simp: bit_simps dest: bit_byte_lt)
  moreover have "unat a * 256 + unat b < 65536"
    using unat_byte_lt [of a] unat_byte_lt [of b] by linarith
  ultimately show ?thesis
    by (simp add: push_bit_eq_mult unat_word_ariths)
qed

lemma unat_word_of_nat_byte: "unat (word_of_nat n :: byte) = take_bit 8 n"
  by (simp add: unat_of_nat take_bit_eq_mod)

lemma bit_nat_bound: "v < 2 ^ n \<Longrightarrow> n \<le> k \<Longrightarrow> \<not> bit (v :: nat) k"
  by (metis bit_take_bit_iff not_le take_bit_nat_eq_self)

lemma join16:
  fixes v :: nat
  assumes v: "v < 2 ^ 16"
  shows "push_bit 8 (take_bit 8 (drop_bit 8 v)) OR take_bit 8 v = v"
proof (rule bit_eqI)
  fix k :: nat
  consider "k < 8" | "8 \<le> k" "k < 16" | "16 \<le> k" by linarith
  then show "bit (push_bit 8 (take_bit 8 (drop_bit 8 v)) OR take_bit 8 v) k = bit v k"
    by cases (auto simp: bit_simps bit_nat_bound [OF v])
qed

lemma be16_join: "push_bit 8 (ucast (ucast (drop_bit 8 w) :: byte)) OR ucast (ucast w :: byte) = (w :: u16)"
  using uint16_be_be16' [of w] by (simp add: be16_def)

lemma slice_two: "a + 2 \<le> length d \<Longrightarrow> slice a (a + 2) d = [d ! a, d ! (a + 1)]"
  by (simp add: slice_def numeral_2_eq_2 take_Suc_conv_app_nth)

lemma unat_uint16_or: "unat (uint16_be (a # b # r)) = push_bit 8 (unat a) OR unat b"
proof -
  have "push_bit 8 (unat a) OR unat b = push_bit 8 (unat a) + unat b"
    by (rule disjunctive_add [symmetric]) (use bit_nat_bound [of "unat b" 8] unat_byte_lt [of b] in \<open>auto simp: bit_simps\<close>)
  then show ?thesis unfolding unat_uint16_be by (simp add: push_bit_eq_mult)
qed

lemma slice_append_le: "b \<le> length xs \<Longrightarrow> slice a b (xs @ ys) = slice a b xs"
  by (simp add: slice_def)

section \<open>Sequence numbers\<close>

text \<open>
  A 16-bit sequence number is the low part of a packet counter that never wraps. Two counters less
  than half the range apart are ordered as their low parts say.
\<close>

lemma unat_seq: "unat (word_of_nat i :: u16) = i mod 65536"
  by (simp add: unat_of_nat)

lemma div_mod_near:
  fixes i j :: nat
  assumes "i \<le> j" "j < i + 32768"
  shows "j div 65536 = i div 65536 \<and> i mod 65536 \<le> j mod 65536 \<or>
    j div 65536 = i div 65536 + 1 \<and> j mod 65536 + 32768 < i mod 65536"
proof -
  define a b c d where "a = i div 65536" "b = i mod 65536" "c = j div 65536" "d = j mod 65536"
  have eq: "i = 65536 * a + b" "j = 65536 * c + d" "b < 65536" "d < 65536" by (simp_all add: a_b_c_d_def)
  consider "c < a" | "c = a" | "c = a + 1" | "a + 2 \<le> c" by linarith
  then have "c = a \<and> b \<le> d \<or> c = a + 1 \<and> d + 32768 < b"
    by cases (use assms eq in linarith)+
  then show ?thesis by (simp add: a_b_c_d_def)
qed

lemma near_cases:
  fixes s j :: nat
  assumes "j < s + 32768" "s < j + 32768"
  shows "j div 65536 = s div 65536 \<or>
    j div 65536 = s div 65536 + 1 \<and> j mod 65536 + 32768 < s mod 65536 \<or>
    s div 65536 = j div 65536 + 1 \<and> s mod 65536 + 32768 < j mod 65536"
  using div_mod_near [of s j] div_mod_near [of j s] assms by linarith

text \<open>Counters of arriving packets, each less than 32768 positions away from the newest so far.\<close>

fun near_max :: "nat \<Rightarrow> nat list \<Rightarrow> bool" where
  "near_max s [] = True"
| "near_max s (j # js) = (j < s + 32768 \<and> s < j + 32768 \<and> near_max (max s j) js)"

lemma near_max_append: "near_max s (xs @ ys) \<longleftrightarrow> near_max s xs \<and> near_max (foldl max s xs) ys"
  by (induction xs arbitrary: s) simp_all

section \<open>Codec interfaces\<close>

text \<open>
  The contract a wire codec offers its clients: decoding an encoded value followed by anything
  gives the value back and leaves what followed. Everything a sender and a receiver rely on
  follows: distinct values have distinct encodings, no encoding is a prefix of another, and a
  concatenation of encodings determines the sequence of values.
\<close>

fun decode_n :: "('b list \<Rightarrow> ('a \<times> 'b list) option) \<Rightarrow> nat \<Rightarrow> 'b list \<Rightarrow> ('a list \<times> 'b list) option" where
  "decode_n dec 0 bs = Some ([], bs)"
| "decode_n dec (Suc n) bs =
     (case dec bs of
        None \<Rightarrow> None
      | Some (x, r) \<Rightarrow> (case decode_n dec n r of None \<Rightarrow> None | Some (xs, r) \<Rightarrow> Some (x # xs, r)))"

locale prefix_codec =
  fixes enc :: "'a \<Rightarrow> 'b list" and dec :: "'b list \<Rightarrow> ('a \<times> 'b list) option" and valid :: "'a \<Rightarrow> bool"
  assumes dec_enc: "valid x \<Longrightarrow> dec (enc x @ r) = Some (x, r)"
begin

lemma prefix_free:
  assumes "valid x" "valid y" "enc x @ r = enc y @ s"
  shows "x = y \<and> r = s"
proof -
  have "Some (x, r) = Some (y, s)"
    using dec_enc [OF assms(1), of r] dec_enc [OF assms(2), of s] assms(3) by metis
  then show ?thesis by simp
qed

lemma enc_inject: "\<lbrakk>valid x; valid y\<rbrakk> \<Longrightarrow> enc x = enc y \<longleftrightarrow> x = y"
  using prefix_free [of x y "[]" "[]"] by auto

lemma decode_n_concat:
  "list_all valid xs \<Longrightarrow> decode_n dec (length xs) (concat (map enc xs) @ r) = Some (xs, r)"
  by (induction xs) (auto simp: dec_enc)

lemma concat_inject:
  "\<lbrakk>list_all valid xs; list_all valid ys; length xs = length ys;
    concat (map enc xs) @ r = concat (map enc ys) @ s\<rbrakk> \<Longrightarrow> xs = ys \<and> r = s"
proof (induction xs arbitrary: ys)
  case (Cons x xs)
  then obtain y ys' where ys: "ys = y # ys'" by (cases ys) auto
  with Cons.prems have "enc x @ concat (map enc xs) @ r = enc y @ concat (map enc ys') @ s"
    and v: "valid x" "valid y" by simp_all
  then have "x = y" "concat (map enc xs) @ r = concat (map enc ys') @ s"
    using prefix_free by blast+
  with Cons ys show ?case by simp
qed simp

end

text \<open>A textual form: printing followed by parsing is the identity on the valid values.\<close>

locale text_codec =
  fixes print :: "'a \<Rightarrow> 's" and parse :: "'s \<Rightarrow> 'a option" and valid :: "'a \<Rightarrow> bool"
  assumes parse_print: "valid x \<Longrightarrow> parse (print x) = Some x"
begin

lemma print_inject:
  assumes "valid x" "valid y" "print x = print y"
  shows "x = y"
  using parse_print [OF assms(1)] parse_print [OF assms(2)] assms(3) by (metis option.inject)

lemma print_inj_on: "inj_on print {x. valid x}"
  by (auto intro: inj_onI print_inject)

end

end
