(* ===== verification/Golib.thy ===== *)
theory Golib
  imports Prelude
begin

text \<open>
  The parts of Go's standard library the modelled packages call: decimal printing and parsing
  of \<open>strconv\<close> (with the value that accompanies an error, which one caller uses),
  \<open>strings.Split\<close> on a one-byte separator, and the unsigned LEB128 varints of
  \<open>encoding/binary\<close>. The lemmas are the round trips the codecs rest on.
\<close>

section \<open>strconv: decimal numbers\<close>

definition digit_char :: "nat \<Rightarrow> char" where
  "digit_char d = char_of (48 + d)"

definition is_digit :: "char \<Rightarrow> bool" where
  "is_digit c \<longleftrightarrow> 48 \<le> (of_char c :: nat) \<and> (of_char c :: nat) \<le> 57"

definition digit_val :: "char \<Rightarrow> nat" where
  "digit_val c = of_char c - 48"

text \<open>\<open>FormatUint(n, 10)\<close>.\<close>

fun format_uint :: "nat \<Rightarrow> string" where
  "format_uint n = (if n < 10 then [digit_char n] else format_uint (n div 10) @ [digit_char (n mod 10)])"

declare format_uint.simps [simp del]

text \<open>\<open>FormatInt(n, 10)\<close>, and \<open>Itoa\<close>.\<close>

definition format_int :: "int \<Rightarrow> string" where
  "format_int n = (if n < 0 then CHR ''-'' # format_uint (nat (- n)) else format_uint (nat n))"

definition format_bool :: "bool \<Rightarrow> string" where
  "format_bool b = (if b then ''true'' else ''false'')"

datatype num_error = ErrSyntax | ErrRange

text \<open>
  \<open>ParseUint(s, 10, bits)\<close> returns a value and an error: 0 with a syntax error, the largest
  value of the width with a range error. The loop stops at the first offending byte. The Go code
  detects a 64-bit overflow before it happens; since the maximum is below \<open>2^64\<close>, that test and
  the comparison with the maximum together are \<open>10 * n + d > max\<close> on natural numbers.
\<close>

fun parse_uint_loop :: "nat \<Rightarrow> string \<Rightarrow> nat \<Rightarrow> nat \<times> num_error option" where
  "parse_uint_loop m [] n = (n, None)"
| "parse_uint_loop m (c # cs) n =
     (if \<not> is_digit c then (0, Some ErrSyntax)
      else if m < 10 * n + digit_val c then (m, Some ErrRange)
      else parse_uint_loop m cs (10 * n + digit_val c))"

definition parse_uint :: "string \<Rightarrow> nat \<Rightarrow> nat \<times> num_error option" where
  "parse_uint s bits = (if s = [] then (0, Some ErrSyntax) else parse_uint_loop (2 ^ bits - 1) s 0)"

text \<open>\<open>ParseInt(s, 10, 64)\<close>: an optional sign, then \<open>ParseUint\<close>, then the signed range check.\<close>

definition parse_int64 :: "string \<Rightarrow> int \<times> num_error option" where
  "parse_int64 s =
     (case s of [] \<Rightarrow> (0, Some ErrSyntax)
      | c # cs \<Rightarrow>
        (let neg = (c = CHR ''-'');
             body = (if c = CHR ''+'' \<or> neg then cs else s);
             (un, err) = parse_uint body 64
         in if err = Some ErrSyntax then (0, Some ErrSyntax)
            else if \<not> neg \<and> 2 ^ 63 \<le> un then (2 ^ 63 - 1, Some ErrRange)
            else if neg \<and> 2 ^ 63 < un then (- (2 ^ 63), Some ErrRange)
            else (if neg then - int un else int un, None)))"

definition parse_bool :: "string \<Rightarrow> bool \<times> num_error option" where
  "parse_bool s =
     (if s \<in> set [''1'', ''t'', ''T'', ''true'', ''TRUE'', ''True''] then (True, None)
      else if s \<in> set [''0'', ''f'', ''F'', ''false'', ''FALSE'', ''False''] then (False, None)
      else (False, Some ErrSyntax))"

lemma of_char_digit_char [simp]: "d < 10 \<Longrightarrow> (of_char (digit_char d) :: nat) = 48 + d"
  by (simp add: digit_char_def)

lemma is_digit_digit_char [simp]: "d < 10 \<Longrightarrow> is_digit (digit_char d)"
  by (simp add: is_digit_def)

lemma digit_val_digit_char [simp]: "d < 10 \<Longrightarrow> digit_val (digit_char d) = d"
  by (simp add: digit_val_def)

lemma format_uint_not_Nil [simp]: "format_uint n \<noteq> []"
  by (subst format_uint.simps) simp

lemma format_uint_digits: "c \<in> set (format_uint n) \<Longrightarrow> is_digit c"
proof (induction n rule: format_uint.induct)
  case (1 n)
  then show ?case by (subst (asm) (2) format_uint.simps) (auto split: if_splits)
qed

text \<open>The number a digit string denotes, continuing from an accumulator.\<close>

definition digits_val :: "nat \<Rightarrow> string \<Rightarrow> nat" where
  "digits_val n s = foldl (\<lambda>a c. 10 * a + digit_val c) n s"

lemma digits_val_simps [simp]:
  "digits_val n [] = n"
  "digits_val n (c # s) = digits_val (10 * n + digit_val c) s"
  "digits_val n (s @ [c]) = 10 * digits_val n s + digit_val c"
  by (simp_all add: digits_val_def)

lemma digits_val_ge: "n \<le> digits_val n s"
proof (induction s arbitrary: n)
  case (Cons c s)
  have "n \<le> 10 * n + digit_val c" by simp
  also have "\<dots> \<le> digits_val (10 * n + digit_val c) s" by (rule Cons.IH)
  finally show ?case by simp
qed simp

lemma digits_val_format_uint [simp]: "digits_val 0 (format_uint n) = n"
proof (induction n rule: format_uint.induct)
  case (1 n)
  then show ?case by (subst format_uint.simps) auto
qed

lemma parse_uint_loop_digits:
  "\<lbrakk>\<forall>c\<in>set s. is_digit c; digits_val n s \<le> m\<rbrakk> \<Longrightarrow> parse_uint_loop m s n = (digits_val n s, None)"
proof (induction s arbitrary: n)
  case (Cons c s)
  have "10 * n + digit_val c \<le> m"
    using Cons.prems(2) digits_val_ge [of "10 * n + digit_val c" s] by simp
  then show ?case using Cons by auto
qed simp

lemma parse_format_uint:
  assumes "n < 2 ^ bits"
  shows "parse_uint (format_uint n) bits = (n, None)"
proof -
  have "n \<le> 2 ^ bits - 1" using assms by linarith
  then show ?thesis
    using parse_uint_loop_digits [of "format_uint n" 0 "2 ^ bits - 1"] format_uint_digits [of _ n]
    by (auto simp: parse_uint_def)
qed

lemma parse_uint_bound: "parse_uint s bits = (n, None) \<Longrightarrow> n < 2 ^ bits"
proof -
  have "parse_uint_loop m s k = (n, None) \<Longrightarrow> k \<le> m \<Longrightarrow> n \<le> m" for m k
    by (induction s arbitrary: k) (auto split: if_splits)
  from this [of "2 ^ bits - 1" 0] show "parse_uint s bits = (n, None) \<Longrightarrow> n < 2 ^ bits"
    by (auto simp: parse_uint_def split: if_splits intro: le_less_trans)
qed

lemma format_uint_hd: "format_uint n = c # s \<Longrightarrow> is_digit c"
  using format_uint_digits [of c n] by simp

lemma sign_not_digit [simp]: "\<not> is_digit CHR ''-''" "\<not> is_digit CHR ''+''"
  by (simp_all add: is_digit_def)

lemma parse_format_int64:
  assumes "- (2 ^ 63) \<le> n" "n < 2 ^ 63"
  shows "parse_int64 (format_int n) = (n, None)"
proof (cases "n < 0")
  case True
  have "nat (- n) < 2 ^ 64" using assms True by simp
  then have "parse_uint (format_uint (nat (- n))) 64 = (nat (- n), None)"
    by (rule parse_format_uint)
  then show ?thesis using True assms by (simp add: parse_int64_def format_int_def)
next
  case False
  have "nat n < 2 ^ 64" using assms False by simp
  then have p: "parse_uint (format_uint (nat n)) 64 = (nat n, None)"
    by (rule parse_format_uint)
  obtain c s where cs: "format_uint (nat n) = c # s"
    by (cases "format_uint (nat n)") auto
  then have "c \<noteq> CHR ''-''" "c \<noteq> CHR ''+''"
    using format_uint_hd [OF cs] by auto
  moreover have "\<not> 2 ^ 63 \<le> nat n" using assms False by simp
  ultimately show ?thesis using False p cs by (simp add: parse_int64_def format_int_def)
qed

lemma parse_format_bool: "parse_bool (format_bool b) = (b, None)"
  by (cases b) (simp_all add: parse_bool_def format_bool_def)

section \<open>strings.Split\<close>

fun split_on :: "char \<Rightarrow> string \<Rightarrow> string list" where
  "split_on c [] = [[]]"
| "split_on c (x # xs) =
     (if x = c then [] # split_on c xs
      else (case split_on c xs of [] \<Rightarrow> [[x]] | p # ps \<Rightarrow> (x # p) # ps))"

lemma split_on_not_Nil [simp]: "split_on c s \<noteq> []"
  by (induction s) (auto split: list.splits)

lemma split_on_notin: "c \<notin> set s \<Longrightarrow> split_on c s = [s]"
  by (induction s) auto

lemma split_on_append: "c \<notin> set s \<Longrightarrow> split_on c (s @ c # t) = s # split_on c t"
  by (induction s) (auto split: list.splits)

lemma split_on_single: "split_on c s = [t] \<Longrightarrow> t = s \<and> c \<notin> set s"
  by (induction s arbitrary: t) (auto split: if_splits list.splits)

text \<open>\<open>strings.Cut(s, sep)\<close>, the part before the first separator.\<close>

definition cut_before :: "char \<Rightarrow> string \<Rightarrow> string" where
  "cut_before c s = takeWhile (\<lambda>x. x \<noteq> c) s"

section \<open>Valid UTF-8\<close>

text \<open>\<open>utf8.Valid\<close>: the shortest forms only, no surrogates, nothing above U+10FFFF.\<close>

definition between :: "byte \<Rightarrow> byte \<Rightarrow> byte \<Rightarrow> bool" where
  "between lo hi b \<longleftrightarrow> lo \<le> b \<and> b \<le> hi"

fun utf8_valid :: "bytes \<Rightarrow> bool" where
  "utf8_valid [] = True"
| "utf8_valid (b # bs) =
     (if b < 0x80 then utf8_valid bs
      else if between 0xC2 0xDF b then
        (case bs of c1 # rest \<Rightarrow> between 0x80 0xBF c1 \<and> utf8_valid rest | _ \<Rightarrow> False)
      else if between 0xE0 0xEF b then
        (case bs of c1 # c2 # rest \<Rightarrow>
           between (if b = 0xE0 then 0xA0 else 0x80) (if b = 0xED then 0x9F else 0xBF) c1 \<and> between 0x80 0xBF c2 \<and> utf8_valid rest
         | _ \<Rightarrow> False)
      else if between 0xF0 0xF4 b then
        (case bs of c1 # c2 # c3 # rest \<Rightarrow>
           between (if b = 0xF0 then 0x90 else 0x80) (if b = 0xF4 then 0x8F else 0xBF) c1 \<and> between 0x80 0xBF c2 \<and>
           between 0x80 0xBF c3 \<and> utf8_valid rest
         | _ \<Rightarrow> False)
      else False)"

section \<open>Unsigned varints\<close>

function append_uvarint :: "bytes \<Rightarrow> u64 \<Rightarrow> bytes" where
  "append_uvarint buf x =
     (if 0x80 \<le> x then append_uvarint (buf @ [ucast x OR 0x80]) (drop_bit 7 x) else buf @ [ucast x])"
  by pat_completeness auto
termination
proof (relation "measure (\<lambda>(buf, x). unat x)")
  fix buf :: bytes and x :: u64
  assume "0x80 \<le> x"
  then have "128 \<le> unat x" by (simp add: word_le_nat_alt)
  then show "((buf @ [ucast x OR 0x80], drop_bit 7 x), (buf, x)) \<in> measure (\<lambda>(buf, x). unat x)"
    by (simp add: drop_bit_eq_div unat_div)
qed simp

declare append_uvarint.simps [simp del]

text \<open>
  \<open>Uvarint(buf)\<close> returns the value and the number of bytes read: 0 when the buffer ends first,
  negative on a 64-bit overflow.
\<close>

fun uvarint_loop :: "bytes \<Rightarrow> nat \<Rightarrow> u64 \<Rightarrow> u64 \<times> int" where
  "uvarint_loop [] i x = (0, 0)"
| "uvarint_loop (b # bs) i x =
     (if i = 10 then (0, - int (i + 1))
      else if b < 0x80 then
        (if i = 9 \<and> 1 < b then (0, - int (i + 1)) else (x OR push_bit (7 * i) (ucast b), int (i + 1)))
      else uvarint_loop bs (i + 1) (x OR push_bit (7 * i) (ucast (b AND 0x7f))))"

definition uvarint :: "bytes \<Rightarrow> u64 \<times> int" where
  "uvarint buf = uvarint_loop buf 0 0"

lemma unat_drop_bit_7: "0x80 \<le> x \<Longrightarrow> unat (drop_bit 7 x) < unat x" for x :: u64
proof -
  assume "0x80 \<le> x"
  then have "128 \<le> unat x" by (simp add: word_le_nat_alt)
  then show ?thesis by (simp add: drop_bit_eq_div unat_div)
qed

lemma append_uvarint_shift: "append_uvarint buf x = buf @ append_uvarint [] x"
proof (induction "unat x" arbitrary: buf x rule: less_induct)
  case less
  show ?case
  proof (cases "0x80 \<le> x")
    case True
    note IH = less [OF unat_drop_bit_7 [OF True]]
    from True IH [of "buf @ [ucast x OR 0x80]"] IH [of "[ucast x OR 0x80]"] show ?thesis
      by (simp add: append_uvarint.simps [of buf x] append_uvarint.simps [of "[]" x])
  next
    case False
    then show ?thesis by (simp add: append_uvarint.simps)
  qed
qed

lemma append_uvarint_step:
  "append_uvarint [] x =
     (if 0x80 \<le> x then (ucast x OR 0x80) # append_uvarint [] (drop_bit 7 x) else [ucast x])"
  using append_uvarint_shift [of "[ucast x OR 0x80]" "drop_bit 7 x"]
  by (simp add: append_uvarint.simps [of "[]" x])

lemma append_uvarint_not_Nil [simp]: "append_uvarint buf x \<noteq> []"
  by (simp add: append_uvarint_shift [of buf] append_uvarint_step)

lemma mask7: "(0x7f :: byte) = mask 7"
  by (simp add: mask_eq_exp_minus_1)

lemma bit_0x80: "bit (0x80 :: int) n \<longleftrightarrow> n = 7"
  using bit_exp_iff [of 7 n, where ?'a = int] by auto

lemma continuation_byte:
  fixes b :: byte
  shows "\<not> b OR 0x80 < 0x80" "(b OR 0x80) AND 0x7f = b AND 0x7f"
proof -
  show "\<not> b OR 0x80 < 0x80" using le_word_or1 [of "0x80" b] by simp
  show "(b OR 0x80) AND 0x7f = b AND 0x7f"
    unfolding mask7 by (rule bit_word_eqI) (auto simp: bit_simps bit_0x80)
qed

lemma low7_high: "push_bit k (ucast ((ucast x :: byte) AND 0x7f)) OR push_bit (7 + k) (drop_bit 7 x) = push_bit k x"
  for x :: u64
proof (rule bit_word_eqI)
  fix n assume n: "n < LENGTH(64)"
  show "bit (push_bit k (ucast ((ucast x :: byte) AND 0x7f)) OR push_bit (7 + k) (drop_bit 7 x)) n =
      bit (push_bit k x) n"
    unfolding mask7 using n by (cases "7 + k \<le> n") (auto simp: bit_simps)
qed

lemma uvarint_loop_append:
  assumes "i \<le> 9" "unat x < 2 ^ (64 - 7 * i)"
  shows "uvarint_loop (append_uvarint [] x @ r) i acc =
    (acc OR push_bit (7 * i) x, int (i + length (append_uvarint [] x)))"
  using assms
proof (induction "unat x" arbitrary: i acc x rule: less_induct)
  case less
  show ?case
  proof (cases "0x80 \<le> x")
    case True
    then have ge: "128 \<le> unat x" by (simp add: word_le_nat_alt)
    with less.prems have i: "i < 9" by (cases "i = 9") auto
    then have e: "64 - 7 * i = 7 + (64 - 7 * (i + 1))" by simp
    have "(2::nat) ^ (64 - 7 * i) = 128 * 2 ^ (64 - 7 * (i + 1))"
      by (subst e) (simp add: power_add)
    with less.prems have "unat (drop_bit 7 x) < 2 ^ (64 - 7 * (i + 1))"
      by (simp only: drop_bit_eq_div unat_div) (simp add: less_mult_imp_div_less mult.commute)
    with i less.hyps [OF unat_drop_bit_7 [OF True], of "i + 1"] show ?thesis
      using True low7_high [of "7 * i" x]
      by (simp add: append_uvarint_step [of x] continuation_byte or.assoc)
  next
    case False
    then have lt: "unat x < 128" by (simp add: word_le_nat_alt not_le)
    then have ub: "unat (ucast x :: byte) = unat x"
      by (simp add: unsigned_ucast_eq take_bit_nat_eq_self)
    then have x: "ucast (ucast x :: byte) = x"
      by (simp add: word_unat_eq_iff)
    have "(ucast x :: byte) < 0x80" using lt ub by (simp add: word_less_nat_alt)
    moreover have "\<not> (i = 9 \<and> 1 < (ucast x :: byte))"
      using less.prems ub by (auto simp: word_less_nat_alt)
    moreover have "i \<noteq> 10" using less.prems by simp
    ultimately show ?thesis using False x by (simp add: append_uvarint_step [of x])
  qed
qed

lemma uvarint_append_uvarint [simp]:
  "uvarint (append_uvarint [] x @ r) = (x, int (length (append_uvarint [] x)))"
  using uvarint_loop_append [of 0 x r 0] unsigned_less [of x, where ?'a = nat]
  by (simp add: uvarint_def)

lemma length_append_uvarint: "unat x < 2 ^ (7 * Suc k) \<Longrightarrow> length (append_uvarint [] x) \<le> Suc k"
proof (induction k arbitrary: x)
  case 0
  then have "\<not> 0x80 \<le> x" by (simp add: word_le_nat_alt)
  then show ?case by (simp add: append_uvarint_step)
next
  case (Suc k)
  have "unat (drop_bit 7 x) = unat x div 128" by (simp add: drop_bit_eq_div unat_div)
  moreover have "unat x div 128 < 2 ^ (7 * Suc k)"
    using Suc.prems by (intro less_mult_imp_div_less) (simp add: power_add mult.commute)
  ultimately show ?case using Suc.IH [of "drop_bit 7 x"] by (simp add: append_uvarint_step)
qed

lemma length_uvarint_le: "length (append_uvarint [] x) \<le> 10"
proof -
  have "unat x < 2 ^ (7 * Suc 9)" using unsigned_less [of x, where ?'a = nat] by simp
  then show ?thesis using length_append_uvarint [of x 9] by simp
qed

text \<open>Varints are a prefix codec: what follows one does not change how it is read.\<close>

definition next_varint :: "bytes \<Rightarrow> (u64 \<times> bytes) option" where
  "next_varint bs = (let (v, n) = uvarint bs in if n \<le> 0 then None else Some (v, drop (nat n) bs))"

interpretation varint: prefix_codec "append_uvarint []" next_varint "\<lambda>_. True"
  by unfold_locales (simp add: next_varint_def)

end
