(* ===== verification/Crypto.thy ===== *)
theory Crypto
  imports Prelude
begin

text \<open>
  The parts of Go's standard library the media code calls: \<^verbatim>\<open>crypto/sha1\<close>, \<^verbatim>\<open>crypto/sha256\<close>,
  \<^verbatim>\<open>crypto/hmac\<close>, \<^verbatim>\<open>crypto/hkdf\<close>, AES-128 of \<^verbatim>\<open>crypto/aes\<close>, the CTR and GCM modes of
  \<^verbatim>\<open>crypto/cipher\<close> and \<^verbatim>\<open>hash/crc32\<close>, written out after FIPS 180-4, RFC 2104, RFC 5869, FIPS 197,
  SP 800-38D and ISO 3309. All of it is executable. The theorems of the client theories need the
  output lengths and that a stream cipher applied twice is the identity; nothing is assumed about
  the strength of the algorithms.
\<close>

section \<open>SHA-1 and SHA-256\<close>

definition rotl32 :: "nat \<Rightarrow> u32 \<Rightarrow> u32" where
  "rotl32 n x = push_bit n x OR drop_bit (32 - n) x"

definition rotr32 :: "nat \<Rightarrow> u32 \<Rightarrow> u32" where
  "rotr32 n x = drop_bit n x OR push_bit (32 - n) x"

text \<open>Padding to whole 64-byte blocks, and the blocks as lists of sixteen words.\<close>

definition sha_pad :: "bytes \<Rightarrow> bytes" where
  "sha_pad m = m @ 0x80 # replicate ((119 - length m mod 64) mod 64) 0 @ be64 (word_of_nat (8 * length m))"

function chunks :: "nat \<Rightarrow> 'a list \<Rightarrow> 'a list list" where
  "chunks n xs = (if n = 0 \<or> xs = [] then [] else take n xs # chunks n (drop n xs))"
  by pat_completeness auto
termination by (relation "measure (\<lambda>(n, xs). length xs)") auto

declare chunks.simps [simp del]

definition words32 :: "bytes \<Rightarrow> u32 list" where
  "words32 b = map uint32_be (chunks 4 b)"

fun extend_schedule :: "(u32 list \<Rightarrow> u32) \<Rightarrow> nat \<Rightarrow> u32 list \<Rightarrow> u32 list" where
  "extend_schedule next 0 ws = ws"
| "extend_schedule next (Suc n) ws = extend_schedule next n (ws @ [next ws])"

definition sha1_next :: "u32 list \<Rightarrow> u32" where
  "sha1_next ws = (let t = length ws in
     rotl32 1 (ws ! (t - 3) XOR ws ! (t - 8) XOR ws ! (t - 14) XOR ws ! (t - 16)))"

type_synonym sha1_state = "u32 \<times> u32 \<times> u32 \<times> u32 \<times> u32"

definition sha1_round :: "nat \<Rightarrow> u32 \<Rightarrow> sha1_state \<Rightarrow> sha1_state" where
  "sha1_round t w s = (case s of (a, b, c, d, e) \<Rightarrow>
     let (f, k) =
       (if t < 20 then ((b AND c) OR (NOT b AND d), 0x5a827999)
        else if t < 40 then (b XOR c XOR d, 0x6ed9eba1)
        else if t < 60 then ((b AND c) OR (b AND d) OR (c AND d), 0x8f1bbcdc)
        else (b XOR c XOR d, 0xca62c1d6))
     in (rotl32 5 a + f + e + k + w, a, rotl32 30 b, c, d))"

definition sha1_block :: "sha1_state \<Rightarrow> bytes \<Rightarrow> sha1_state" where
  "sha1_block s block =
     (let ws = extend_schedule sha1_next 64 (words32 block);
          (a', b', c', d', e') = foldl (\<lambda>s (t, w). sha1_round t w s) s (zip [0..<80] ws);
          (a, b, c, d, e) = s
      in (a + a', b + b', c + c', d + d', e + e'))"

definition sha1 :: "bytes \<Rightarrow> bytes" where
  "sha1 m = (case foldl sha1_block (0x67452301, 0xefcdab89, 0x98badcfe, 0x10325476, 0xc3d2e1f0)
                    (chunks 64 (sha_pad m)) of
     (a, b, c, d, e) \<Rightarrow> be32 a @ be32 b @ be32 c @ be32 d @ be32 e)"

text \<open>
  The round constants of SHA-256: the first 32 bits of the fractional parts of the cube roots of
  the first 64 primes, those below 312.
\<close>

fun root_bits :: "nat \<Rightarrow> int \<Rightarrow> nat \<Rightarrow> int \<Rightarrow> int" where
  "root_bits k n 0 r = r"
| "root_bits k n (Suc b) r = root_bits k n b (if (r + 2 ^ b) ^ k \<le> n then r + 2 ^ b else r)"

definition primes_below :: "int \<Rightarrow> int list" where
  "primes_below m = filter (\<lambda>n. list_all (\<lambda>d. n mod d \<noteq> 0) [2..n - 1]) [2..m - 1]"

definition sha256_k :: "u32 list" where
  "sha256_k = map (\<lambda>p. word_of_int (root_bits 3 (p * 2 ^ 96) 36 0)) (primes_below 312)"

definition sha256_next :: "u32 list \<Rightarrow> u32" where
  "sha256_next ws = (let t = length ws; x = ws ! (t - 15); y = ws ! (t - 2) in
     (rotr32 17 y XOR rotr32 19 y XOR drop_bit 10 y) + ws ! (t - 7) +
     (rotr32 7 x XOR rotr32 18 x XOR drop_bit 3 x) + ws ! (t - 16))"

definition sha256_round :: "u32 list \<Rightarrow> u32 \<times> u32 \<Rightarrow> u32 list" where
  "sha256_round s kw =
     (case s of [a, b, c, d, e, f, g, h] \<Rightarrow>
        let t1 = h + (rotr32 6 e XOR rotr32 11 e XOR rotr32 25 e) + ((e AND f) XOR (NOT e AND g)) +
                 fst kw + snd kw;
            t2 = (rotr32 2 a XOR rotr32 13 a XOR rotr32 22 a) +
                 ((a AND b) XOR (a AND c) XOR (b AND c))
        in [t1 + t2, a, b, c, d + t1, e, f, g]
      | _ \<Rightarrow> s)"

definition sha256_block :: "u32 list \<Rightarrow> bytes \<Rightarrow> u32 list" where
  "sha256_block s block =
     (let ws = extend_schedule sha256_next 48 (words32 block)
      in map2 (+) s (foldl sha256_round s (zip sha256_k ws)))"

definition sha256_init :: "u32 list" where
  "sha256_init = [
    0x6a09e667, 0xbb67ae85, 0x3c6ef372, 0xa54ff53a, 0x510e527f, 0x9b05688c, 0x1f83d9ab, 0x5be0cd19]"

definition sha256 :: "bytes \<Rightarrow> bytes" where
  "sha256 m = concat (map be32 (foldl sha256_block sha256_init (chunks 64 (sha_pad m))))"

lemma length_sha1 [simp]: "length (sha1 m) = 20"
  by (simp add: sha1_def split: prod.split)

lemma length_sha256_round [simp]: "length (sha256_round s kw) = length s"
  by (auto simp: sha256_round_def Let_def split: list.split)

lemma length_foldl_sha256_round [simp]: "length (foldl sha256_round s kws) = length s"
  by (induction kws arbitrary: s) auto

lemma length_foldl_sha256_block [simp]: "length (foldl sha256_block s bs) = length s"
  by (induction bs arbitrary: s) (auto simp: sha256_block_def Let_def)

lemma length_concat_be32: "length (concat (map be32 ws)) = 4 * length ws"
  by (induction ws) auto

lemma length_sha256 [simp]: "length (sha256 m) = 32"
  by (simp add: sha256_def length_concat_be32 sha256_init_def)

section \<open>HMAC and HKDF\<close>

definition xor_bytes :: "bytes \<Rightarrow> bytes \<Rightarrow> bytes" where
  "xor_bytes = map2 (XOR)"

text \<open>Both hashes have 64-byte blocks.\<close>

definition hmac :: "(bytes \<Rightarrow> bytes) \<Rightarrow> bytes \<Rightarrow> bytes \<Rightarrow> bytes" where
  "hmac hash key m =
     (let k = (if 64 < length key then hash key else key);
          k = k @ replicate (64 - length k) 0
      in hash (map (\<lambda>b. b XOR 0x5c) k @ hash (map (\<lambda>b. b XOR 0x36) k @ m)))"

lemma length_hmac [simp]: "length (hmac sha1 k m) = 20" "length (hmac sha256 k m) = 32"
  by (simp_all add: hmac_def Let_def)

fun hkdf_expand :: "bytes \<Rightarrow> bytes \<Rightarrow> nat \<Rightarrow> nat \<Rightarrow> bytes \<Rightarrow> bytes" where
  "hkdf_expand prk info 0 i prev = []"
| "hkdf_expand prk info (Suc n) i prev =
     (let t = hmac sha256 prk (prev @ info @ [word_of_nat i]) in t @ hkdf_expand prk info n (i + 1) t)"

datatype crypto_error = HkdfTooLong | BadKeySize

text \<open>\<open>hkdf.Key(sha256.New, ikm, salt, info, length)\<close>.\<close>

definition hkdf_sha256 :: "bytes \<Rightarrow> bytes \<Rightarrow> bytes \<Rightarrow> nat \<Rightarrow> crypto_error + bytes" where
  "hkdf_sha256 ikm salt info len =
     (if 255 * 32 < len then Inl HkdfTooLong
      else
        let prk = hmac sha256 (if salt = [] then replicate 32 0 else salt) ikm
        in Inr (take len (hkdf_expand prk info ((len + 31) div 32) 1 [])))"

lemma length_hkdf_expand [simp]: "length (hkdf_expand prk info n i prev) = 32 * n"
  by (induction n arbitrary: i prev) (auto simp: Let_def)

lemma hkdf_sha256_length: "hkdf_sha256 ikm salt info len = Inr k \<Longrightarrow> length k = len"
  by (auto simp: hkdf_sha256_def Let_def split: if_splits)

lemma hkdf_sha256_total: "len \<le> 8160 \<Longrightarrow> \<exists>k. hkdf_sha256 ikm salt info len = Inr k"
  by (simp add: hkdf_sha256_def Let_def)

section \<open>AES-128\<close>

definition aes_sbox :: bytes where
  "aes_sbox = [
    0x63, 0x7c, 0x77, 0x7b, 0xf2, 0x6b, 0x6f, 0xc5, 0x30, 0x01, 0x67, 0x2b, 0xfe, 0xd7, 0xab, 0x76,
    0xca, 0x82, 0xc9, 0x7d, 0xfa, 0x59, 0x47, 0xf0, 0xad, 0xd4, 0xa2, 0xaf, 0x9c, 0xa4, 0x72, 0xc0,
    0xb7, 0xfd, 0x93, 0x26, 0x36, 0x3f, 0xf7, 0xcc, 0x34, 0xa5, 0xe5, 0xf1, 0x71, 0xd8, 0x31, 0x15,
    0x04, 0xc7, 0x23, 0xc3, 0x18, 0x96, 0x05, 0x9a, 0x07, 0x12, 0x80, 0xe2, 0xeb, 0x27, 0xb2, 0x75,
    0x09, 0x83, 0x2c, 0x1a, 0x1b, 0x6e, 0x5a, 0xa0, 0x52, 0x3b, 0xd6, 0xb3, 0x29, 0xe3, 0x2f, 0x84,
    0x53, 0xd1, 0x00, 0xed, 0x20, 0xfc, 0xb1, 0x5b, 0x6a, 0xcb, 0xbe, 0x39, 0x4a, 0x4c, 0x58, 0xcf,
    0xd0, 0xef, 0xaa, 0xfb, 0x43, 0x4d, 0x33, 0x85, 0x45, 0xf9, 0x02, 0x7f, 0x50, 0x3c, 0x9f, 0xa8,
    0x51, 0xa3, 0x40, 0x8f, 0x92, 0x9d, 0x38, 0xf5, 0xbc, 0xb6, 0xda, 0x21, 0x10, 0xff, 0xf3, 0xd2,
    0xcd, 0x0c, 0x13, 0xec, 0x5f, 0x97, 0x44, 0x17, 0xc4, 0xa7, 0x7e, 0x3d, 0x64, 0x5d, 0x19, 0x73,
    0x60, 0x81, 0x4f, 0xdc, 0x22, 0x2a, 0x90, 0x88, 0x46, 0xee, 0xb8, 0x14, 0xde, 0x5e, 0x0b, 0xdb,
    0xe0, 0x32, 0x3a, 0x0a, 0x49, 0x06, 0x24, 0x5c, 0xc2, 0xd3, 0xac, 0x62, 0x91, 0x95, 0xe4, 0x79,
    0xe7, 0xc8, 0x37, 0x6d, 0x8d, 0xd5, 0x4e, 0xa9, 0x6c, 0x56, 0xf4, 0xea, 0x65, 0x7a, 0xae, 0x08,
    0xba, 0x78, 0x25, 0x2e, 0x1c, 0xa6, 0xb4, 0xc6, 0xe8, 0xdd, 0x74, 0x1f, 0x4b, 0xbd, 0x8b, 0x8a,
    0x70, 0x3e, 0xb5, 0x66, 0x48, 0x03, 0xf6, 0x0e, 0x61, 0x35, 0x57, 0xb9, 0x86, 0xc1, 0x1d, 0x9e,
    0xe1, 0xf8, 0x98, 0x11, 0x69, 0xd9, 0x8e, 0x94, 0x9b, 0x1e, 0x87, 0xe9, 0xce, 0x55, 0x28, 0xdf,
    0x8c, 0xa1, 0x89, 0x0d, 0xbf, 0xe6, 0x42, 0x68, 0x41, 0x99, 0x2d, 0x0f, 0xb0, 0x54, 0xbb, 0x16]"

definition sub_byte :: "byte \<Rightarrow> byte" where
  "sub_byte b = aes_sbox ! unat b"

definition xtime :: "byte \<Rightarrow> byte" where
  "xtime b = (if bit b 7 then push_bit 1 b XOR 0x1b else push_bit 1 b)"

text \<open>The block is the list of its sixteen bytes, column by column.\<close>

definition shift_rows :: "bytes \<Rightarrow> bytes" where
  "shift_rows s = map (\<lambda>i. s ! i) [0, 5, 10, 15, 4, 9, 14, 3, 8, 13, 2, 7, 12, 1, 6, 11]"

fun mix_column :: "bytes \<Rightarrow> bytes" where
  "mix_column [a, b, c, d] =
     [xtime a XOR (xtime b XOR b) XOR c XOR d, a XOR xtime b XOR (xtime c XOR c) XOR d,
      a XOR b XOR xtime c XOR (xtime d XOR d), (xtime a XOR a) XOR b XOR c XOR xtime d]"
| "mix_column xs = xs"

definition mix_columns :: "bytes \<Rightarrow> bytes" where
  "mix_columns s = concat (map mix_column (chunks 4 s))"

definition add_round_key :: "bytes \<Rightarrow> bytes \<Rightarrow> bytes" where
  "add_round_key k s = map (\<lambda>i. s ! i XOR k ! i) [0..<16]"

fun next_round_key :: "byte \<Rightarrow> bytes \<Rightarrow> bytes" where
  "next_round_key rcon [k0, k1, k2, k3, k4, k5, k6, k7, k8, k9, ka, kb, kc, kd, ke, kf] =
     (let w0 = [k0 XOR sub_byte kd XOR rcon, k1 XOR sub_byte ke, k2 XOR sub_byte kf, k3 XOR sub_byte kc];
          w1 = map2 (XOR) [k4, k5, k6, k7] w0;
          w2 = map2 (XOR) [k8, k9, ka, kb] w1;
          w3 = map2 (XOR) [kc, kd, ke, kf] w2
      in w0 @ w1 @ w2 @ w3)"
| "next_round_key rcon k = k"

fun aes_rounds :: "byte list \<Rightarrow> bytes \<Rightarrow> bytes \<Rightarrow> bytes" where
  "aes_rounds [] k s = s"
| "aes_rounds [rcon] k s = add_round_key (next_round_key rcon k) (shift_rows (map sub_byte s))"
| "aes_rounds (rcon # rs) k s =
     (let k = next_round_key rcon k
      in aes_rounds rs k (add_round_key k (mix_columns (shift_rows (map sub_byte s)))))"

definition aes_encrypt_block :: "bytes \<Rightarrow> bytes \<Rightarrow> bytes" where
  "aes_encrypt_block key block =
     aes_rounds [0x01, 0x02, 0x04, 0x08, 0x10, 0x20, 0x40, 0x80, 0x1b, 0x36] key (add_round_key key block)"

lemma length_aes_encrypt_block [simp]: "length (aes_encrypt_block key block) = 16"
  by (simp add: aes_encrypt_block_def Let_def add_round_key_def)

section \<open>Stream modes\<close>

text \<open>
  A counter mode is a keystream of 16-byte blocks, one per counter value; the last block is cut
  to the data. \<open>aes.NewCipher\<close> accepts the 16-byte keys the callers pass; the model covers that
  size.
\<close>

function stream_crypt :: "(bytes \<Rightarrow> bytes) \<Rightarrow> (bytes \<Rightarrow> bytes) \<Rightarrow> bytes \<Rightarrow> bytes \<Rightarrow> bytes" where
  "stream_crypt enc incr ctr data =
     (if data = [] then []
      else xor_bytes (take 16 data) (enc ctr) @ stream_crypt enc incr (incr ctr) (drop 16 data))"
  by pat_completeness auto
termination by (relation "measure (\<lambda>(enc, incr, ctr, data). length data)") auto

declare stream_crypt.simps [simp del]

lemma length_xor_bytes [simp]: "length (xor_bytes a b) = min (length a) (length b)"
  by (simp add: xor_bytes_def)

lemma xor_bytes_twice: "length a \<le> length k \<Longrightarrow> xor_bytes (xor_bytes a k) k = a"
  by (induction a k rule: list_induct2') (auto simp: xor_bytes_def xor.assoc)

text \<open>
  What a keystream generator must offer: whole blocks. Then encryption keeps the length and is
  its own inverse.
\<close>

locale keystream =
  fixes enc :: "bytes \<Rightarrow> bytes" and incr :: "bytes \<Rightarrow> bytes"
  assumes block: "length (enc ctr) = 16"
begin

lemma length_stream [simp]: "length (stream_crypt enc incr ctr d) = length d"
proof (induction d arbitrary: ctr rule: length_induct)
  case (1 d)
  show ?case
  proof (cases "d = []")
    case False
    then have "length (stream_crypt enc incr (incr ctr) (drop 16 d)) = length (drop 16 d)"
      using 1 by simp
    with False block [of ctr] show ?thesis by (subst stream_crypt.simps) simp
  qed (simp add: stream_crypt.simps)
qed

lemma stream_twice [simp]: "stream_crypt enc incr ctr (stream_crypt enc incr ctr d) = d"
proof (induction d arbitrary: ctr rule: length_induct)
  case (1 d)
  show ?case
  proof (cases "d = []")
    case True
    then show ?thesis by (simp add: stream_crypt.simps)
  next
    case False
    let ?x = "xor_bytes (take 16 d) (enc ctr)" and ?y = "stream_crypt enc incr (incr ctr) (drop 16 d)"
    have lx: "length ?x = min (length d) 16" by (simp add: block)
    have ly: "?y = []" if "length d \<le> 16" using that by (simp add: stream_crypt.simps)
    have "length ?x \<noteq> 0" using lx False by simp
    then have split: "take 16 (?x @ ?y) = ?x" "drop 16 (?x @ ?y) = ?y" "?x @ ?y \<noteq> []"
      using lx ly by (cases "length d \<le> 16"; force)+
    have "stream_crypt enc incr (incr ctr) ?y = drop 16 d" using 1 False by simp
    moreover have "xor_bytes ?x (enc ctr) = take 16 d"
      by (rule xor_bytes_twice) (simp add: block)
    ultimately have "stream_crypt enc incr ctr (?x @ ?y) = d"
      by (subst stream_crypt.simps) (simp only: split if_False append_take_drop_id)
    with False show ?thesis by (simp add: stream_crypt.simps [of _ _ _ d])
  qed
qed

end

interpretation aes: keystream "aes_encrypt_block key" incr for key incr
  by unfold_locales simp

text \<open>\<open>cipher.NewCTR\<close>: the counter is a 128-bit big-endian number.\<close>

fun inc_le :: "bytes \<Rightarrow> bytes" where
  "inc_le [] = []"
| "inc_le (b # bs) = (if b = 0xff then 0 # inc_le bs else (b + 1) # bs)"

definition inc_be :: "bytes \<Rightarrow> bytes" where
  "inc_be bs = rev (inc_le (rev bs))"

definition aes_ctr :: "bytes \<Rightarrow> bytes \<Rightarrow> bytes \<Rightarrow> bytes" where
  "aes_ctr key iv d = stream_crypt (aes_encrypt_block key) inc_be iv d"

lemma length_aes_ctr [simp]: "length (aes_ctr key iv d) = length d"
  by (simp add: aes_ctr_def)

lemma aes_ctr_twice [simp]: "aes_ctr key iv (aes_ctr key iv d) = d"
  by (simp add: aes_ctr_def)

section \<open>GCM\<close>

definition word128 :: "bytes \<Rightarrow> 128 word" where
  "word128 bs = foldl (\<lambda>acc b. push_bit 8 acc OR ucast b) 0 bs"

definition bytes128 :: "128 word \<Rightarrow> bytes" where
  "bytes128 w = map (\<lambda>i. ucast (drop_bit (8 * (15 - i)) w)) [0..<16]"

definition gf_step :: "128 word \<Rightarrow> 128 word \<times> 128 word \<Rightarrow> nat \<Rightarrow> 128 word \<times> 128 word" where
  "gf_step x zv i = (case zv of (z, v) \<Rightarrow>
     (if bit x (127 - i) then z XOR v else z,
      if bit v 0 then drop_bit 1 v XOR push_bit 120 0xe1 else drop_bit 1 v))"

definition gf_mult :: "128 word \<Rightarrow> 128 word \<Rightarrow> 128 word" where
  "gf_mult x y = fst (foldl (gf_step x) (0, y) [0..<128])"

definition ghash :: "128 word \<Rightarrow> bytes \<Rightarrow> 128 word" where
  "ghash h d = foldl (\<lambda>y block. gf_mult (y XOR word128 block) h) 0 (chunks 16 d)"

definition pad16 :: "bytes \<Rightarrow> bytes" where
  "pad16 d = d @ replicate ((16 - length d mod 16) mod 16) 0"

definition inc32 :: "bytes \<Rightarrow> bytes" where
  "inc32 ctr = take 12 ctr @ inc_be (drop 12 ctr)"

text \<open>
  \<open>NewGCMWithNonceSize(block, 16)\<close> with no additional data: a nonce that is not 12 bytes long is
  hashed into the first counter block.
\<close>

definition gcm_j0 :: "bytes \<Rightarrow> bytes \<Rightarrow> bytes" where
  "gcm_j0 key nonce = bytes128 (ghash (word128 (aes_encrypt_block key (replicate 16 0)))
     (pad16 nonce @ replicate 8 0 @ be64 (word_of_nat (8 * length nonce))))"

definition gcm_tag :: "bytes \<Rightarrow> bytes \<Rightarrow> bytes \<Rightarrow> bytes" where
  "gcm_tag key j0 ct = xor_bytes (bytes128 (ghash (word128 (aes_encrypt_block key (replicate 16 0)))
     (pad16 ct @ be64 0 @ be64 (word_of_nat (8 * length ct))))) (aes_encrypt_block key j0)"

definition gcm_seal :: "bytes \<Rightarrow> bytes \<Rightarrow> bytes \<Rightarrow> bytes" where
  "gcm_seal key nonce plaintext =
     (let j0 = gcm_j0 key nonce;
          ct = stream_crypt (aes_encrypt_block key) inc32 (inc32 j0) plaintext
      in ct @ gcm_tag key j0 ct)"

definition gcm_open :: "bytes \<Rightarrow> bytes \<Rightarrow> bytes \<Rightarrow> bytes option" where
  "gcm_open key nonce d =
     (if length d < 16 then None
      else
        let ct = take (length d - 16) d;
            tag = drop (length d - 16) d;
            j0 = gcm_j0 key nonce
        in if tag = gcm_tag key j0 ct
           then Some (stream_crypt (aes_encrypt_block key) inc32 (inc32 j0) ct) else None)"

lemma length_gcm_tag [simp]: "length (gcm_tag key j0 ct) = 16"
  by (simp add: gcm_tag_def bytes128_def)

lemma length_gcm_seal [simp]: "length (gcm_seal key nonce p) = length p + 16"
  by (simp add: gcm_seal_def Let_def)

lemma gcm_open_seal: "gcm_open key nonce (gcm_seal key nonce p) = Some p"
  by (simp add: gcm_open_def gcm_seal_def Let_def)

lemma gcm_open_only_sealed: "gcm_open key nonce d = Some p \<longleftrightarrow> d = gcm_seal key nonce p"
proof
  assume o: "gcm_open key nonce d = Some p"
  let ?ct = "take (length d - 16) d"
  from o have "drop (length d - 16) d = gcm_tag key (gcm_j0 key nonce) ?ct"
    "p = stream_crypt (aes_encrypt_block key) inc32 (inc32 (gcm_j0 key nonce)) ?ct"
    by (auto simp: gcm_open_def Let_def split: if_splits)
  then show "d = gcm_seal key nonce p" by (simp add: gcm_seal_def Let_def) (metis append_take_drop_id)
qed (simp add: gcm_open_seal)

section \<open>CRC-32\<close>

fun crc_bits :: "nat \<Rightarrow> u32 \<Rightarrow> u32" where
  "crc_bits 0 c = c"
| "crc_bits (Suc n) c = crc_bits n (if bit c 0 then drop_bit 1 c XOR 0xedb88320 else drop_bit 1 c)"

definition crc32_ieee :: "bytes \<Rightarrow> u32" where
  "crc32_ieee d = NOT (foldl (\<lambda>c b. crc_bits 8 (c XOR ucast b)) (NOT 0) d)"

end
