(* ===== verification/Callutil.thy ===== *)
theory Callutil
  imports Golib Crypto
begin

text \<open>
  Helpers of the call stack (\<^verbatim>\<open>wa-core/callutil\<close>): the HKDF wrapper every media key schedule goes
  through, and the participant identifier that is its \<open>info\<close> input. Two devices of a call agree on
  their keys only if they format each other's identifier alike.
\<close>

section \<open>Definitions\<close>

definition HKDFSHA256 :: "bytes \<Rightarrow> bytes \<Rightarrow> bytes \<Rightarrow> nat \<Rightarrow> crypto_error + bytes" where
  "HKDFSHA256 salt ikm info len = hkdf_sha256 ikm salt info len"

text \<open>
  \<open>strings.TrimSpace\<close>: the UTF-8 encodings of the runes with the property White\_Space, removed
  from both ends as long as there are any.
\<close>

definition space_runes :: "bytes list" where
  "space_runes = [[0x09], [0x0a], [0x0b], [0x0c], [0x0d], [0x20], [0xc2, 0x85], [0xc2, 0xa0],
     [0xe1, 0x9a, 0x80], [0xe2, 0x80, 0x80], [0xe2, 0x80, 0x81], [0xe2, 0x80, 0x82],
     [0xe2, 0x80, 0x83], [0xe2, 0x80, 0x84], [0xe2, 0x80, 0x85], [0xe2, 0x80, 0x86],
     [0xe2, 0x80, 0x87], [0xe2, 0x80, 0x88], [0xe2, 0x80, 0x89], [0xe2, 0x80, 0x8a],
     [0xe2, 0x80, 0xa8], [0xe2, 0x80, 0xa9], [0xe2, 0x80, 0xaf], [0xe2, 0x81, 0x9f],
     [0xe3, 0x80, 0x80]]"

definition starts_with :: "bytes \<Rightarrow> bytes \<Rightarrow> bool" where
  "starts_with xs p \<longleftrightarrow> take (length p) xs = p"

lemma starts_with_shorter: "starts_with xs p \<Longrightarrow> p \<noteq> [] \<Longrightarrow> length xs - length p < length xs"
  by (cases xs) (auto simp: starts_with_def)

function trim_front :: "bytes list \<Rightarrow> bytes \<Rightarrow> bytes" where
  "trim_front runes xs =
     (case find (\<lambda>p. p \<noteq> [] \<and> starts_with xs p) runes of
        Some p \<Rightarrow> trim_front runes (drop (length p) xs)
      | None \<Rightarrow> xs)"
  by pat_completeness auto
termination
  by (relation "measure (\<lambda>(_, xs). length xs)") (auto simp: find_Some_iff intro!: starts_with_shorter)

declare trim_front.simps [simp del]

definition TrimSpace :: "bytes \<Rightarrow> bytes" where
  "TrimSpace xs = rev (trim_front (map rev space_runes) (rev (trim_front space_runes xs)))"

text \<open>\<open>strings.LastIndexByte\<close>, -1 when there is none.\<close>

definition LastIndexByte :: "string \<Rightarrow> char \<Rightarrow> int" where
  "LastIndexByte s c =
     (if c \<in> set s then int (length s) - 1 - int (length (takeWhile (\<lambda>x. x \<noteq> c) (rev s))) else -1)"

definition FormatParticipantID :: "string \<Rightarrow> string" where
  "FormatParticipantID jid =
     (let bare = cut_before CHR ''/'' jid;
          bare = string_of_bytes (TrimSpace (bytes_of_string bare));
          at = LastIndexByte bare CHR ''@''
      in if at \<le> 0 then bare
         else
           let user = take (nat at) bare;
               domain = drop (nat at + 1) bare
           in if domain = ''lid'' \<and> CHR '':'' \<notin> set user then user @ '':0@'' @ domain
              else bare)"

section \<open>Key material\<close>

lemma HKDFSHA256_length: "HKDFSHA256 salt ikm info len = Inr k \<Longrightarrow> length k = len"
  by (simp add: HKDFSHA256_def hkdf_sha256_length)

lemma HKDFSHA256_obtain:
  assumes "len \<le> 8160"
  obtains k where "HKDFSHA256 salt ikm info len = Inr k" "length k = len"
  using hkdf_sha256_total [OF assms, of ikm salt info] HKDFSHA256_length
  by (auto simp: HKDFSHA256_def)

section \<open>Participant identifiers\<close>

text \<open>A user part made of the characters that occur in WhatsApp user ids and device suffixes.\<close>

definition plain_user :: "string \<Rightarrow> bool" where
  "plain_user u \<longleftrightarrow> u \<noteq> [] \<and> list_all (\<lambda>c. is_digit c \<or> c = CHR ''.'' \<or> c = CHR ''-'' \<or> c = CHR '':'') u"

lemma trim_front_id:
  "x \<notin> set (concat runes) \<Longrightarrow> trim_front runes (x # xs) = x # xs"
proof -
  assume x: "x \<notin> set (concat runes)"
  have "find (\<lambda>p. p \<noteq> [] \<and> starts_with (x # xs) p) runes = None"
  proof (subst find_None_iff, intro notI, elim exE conjE)
    fix p assume p: "p \<in> set runes" "p \<noteq> []" "starts_with (x # xs) p"
    obtain y ys where "p = y # ys" using p(2) by (meson neq_Nil_conv)
    with p x show False by (auto simp: starts_with_def)
  qed
  then show ?thesis by (simp add: trim_front.simps)
qed

definition not_space :: "byte \<Rightarrow> bool" where
  "not_space b \<longleftrightarrow> b \<notin> set (concat space_runes)"

lemma TrimSpace_id:
  assumes "xs \<noteq> []" "not_space (hd xs)" "not_space (last xs)"
  shows "TrimSpace xs = xs"
proof -
  obtain x ys where xs: "xs = x # ys" using assms(1) by (cases xs) auto
  have front: "trim_front space_runes xs = xs"
    using assms(2) by (simp add: xs trim_front_id not_space_def)
  obtain l zs where r: "rev xs = l # zs" using assms(1) by (cases "rev xs") auto
  then have "l = last xs" by (metis last_rev list.sel(1) rev_rev_ident assms(1) hd_rev)
  then have "l \<notin> set (concat (map rev space_runes))" using assms(3) by (auto simp: not_space_def)
  then show ?thesis using trim_front_id [of l "map rev space_runes" zs] by (simp add: TrimSpace_def front r [symmetric])
qed

lemma LastIndexByte_append:
  "c \<notin> set d \<Longrightarrow> LastIndexByte (u @ c # d) c = int (length u)"
  by (simp add: LastIndexByte_def takeWhile_append)

lemma plain_char_not_space:
  "is_digit c \<or> c = CHR ''.'' \<or> c = CHR ''-'' \<or> c = CHR '':'' \<Longrightarrow> not_space (byte_of_char c)"
proof -
  assume c: "is_digit c \<or> c = CHR ''.'' \<or> c = CHR ''-'' \<or> c = CHR '':''"
  then have "33 \<le> (of_char c :: nat) \<and> (of_char c :: nat) < 128" by (auto simp: is_digit_def)
  then have "33 \<le> unat (byte_of_char c) \<and> unat (byte_of_char c) < 128" by simp
  moreover have "list_all (\<lambda>b. unat b < 33 \<or> 128 \<le> unat b) (concat space_runes)"
    by (simp add: space_runes_def)
  ultimately show ?thesis unfolding not_space_def list_all_iff by fastforce
qed

lemma cut_before_append: "c \<notin> set a \<Longrightarrow> cut_before c (a @ c # b) = a"
  by (simp add: cut_before_def takeWhile_append)

lemma cut_before_notin: "c \<notin> set a \<Longrightarrow> cut_before c a = a"
  by (induction a) (auto simp: cut_before_def)

lemma plain_user_chars:
  assumes "plain_user u"
  shows "CHR ''/'' \<notin> set u" "CHR ''@'' \<notin> set u"
  using assms by (auto simp: plain_user_def list_all_iff is_digit_def)

lemma TrimSpace_lid:
  assumes u: "plain_user u"
  shows "TrimSpace (bytes_of_string (u @ ''@lid'')) = bytes_of_string (u @ ''@lid'')"
proof -
  let ?b = "u @ ''@lid''"
  have "hd (bytes_of_string ?b) = byte_of_char (hd u)" "last (bytes_of_string ?b) = byte_of_char CHR ''d''"
    using u by (auto simp: bytes_of_string_def plain_user_def hd_append hd_map)
  moreover have "not_space (byte_of_char (hd u))"
    using u by (intro plain_char_not_space) (cases u, auto simp: plain_user_def)
  moreover have "not_space (byte_of_char CHR ''d'')"
    by (simp add: not_space_def space_runes_def byte_of_char_def)
  ultimately show ?thesis by (intro TrimSpace_id) (simp_all add: bytes_of_string_def)
qed

lemma FormatParticipantID_lid:
  assumes u: "plain_user u" and s: "s = [] \<or> s = CHR ''/'' # r"
  shows "FormatParticipantID (u @ ''@lid'' @ s) =
    (if CHR '':'' \<in> set u then u @ ''@lid'' else u @ '':0@lid'')"
proof -
  let ?b = "u @ ''@lid''"
  have "CHR ''/'' \<notin> set ?b" using plain_user_chars [OF u] by simp
  then have cut: "cut_before CHR ''/'' (u @ ''@lid'' @ s) = ?b"
    using s cut_before_append [of "CHR ''/''" ?b r] cut_before_notin [of "CHR ''/''" ?b] by auto
  note TrimSpace_lid [OF u]
  moreover have "LastIndexByte ?b CHR ''@'' = int (length u)"
    using LastIndexByte_append [of "CHR ''@''" "''lid''" u] by simp
  moreover have "u \<noteq> []" using u by (simp add: plain_user_def)
  ultimately show ?thesis unfolding FormatParticipantID_def cut by (simp add: Let_def)
qed

text \<open>
  The participant id of a hidden-user JID does not depend on how the device is written:
  with or without a resource, and with the implicit device 0 left out or spelled as \<open>:0\<close>, the
  same id results, so both ends of a call derive their keys from the same label; distinct
  users never share an id.
\<close>

lemma FormatParticipantID_canonical:
  assumes "plain_user u" "plain_user v" "CHR '':'' \<notin> set u" "CHR '':'' \<notin> set v"
  shows "FormatParticipantID (u @ ''@lid/'' @ r) = u @ '':0@lid'' \<and>
    FormatParticipantID (u @ ''@lid'') = FormatParticipantID (u @ '':0@lid'') \<and>
    (FormatParticipantID (u @ ''@lid'') = FormatParticipantID (v @ ''@lid'') \<longleftrightarrow> u = v)"
proof -
  have "plain_user (u @ '':0'')" using assms(1) by (simp add: plain_user_def is_digit_def)
  from FormatParticipantID_lid [OF this, of "[]" "[]"]
  show ?thesis
    using assms FormatParticipantID_lid [of u "''/'' @ r" r] FormatParticipantID_lid [of u "[]" "[]"]
      FormatParticipantID_lid [of v "[]" "[]"] by simp
qed

end
