(* ===== verification/E2e.thy ===== *)
theory E2e
  imports Callutil
begin

text \<open>
  End-to-end media encryption of a call (\<^verbatim>\<open>wa-core/srtp/e2e.go\<close>): the key schedule, the RTP and
  SRTCP transforms, and the rollover counters that extend the 16-bit sequence numbers on the
  sending and on the receiving side.
\<close>

section \<open>Key derivation\<close>

datatype srtp_error = ErrBadHbhKeyLen | ErrShortKey | ErrBadCallKeyLen | CryptoErr crypto_error

record E2eSrtpKeys =
  CipherKey :: bytes
  Salt :: bytes
  AuthKey :: bytes

text \<open>The fields are arrays of 16, 14 and 20 bytes.\<close>

definition wf_keys :: "E2eSrtpKeys \<Rightarrow> bool" where
  "wf_keys k \<longleftrightarrow> length (CipherKey k) = 16 \<and> length (Salt k) = 14 \<and> length (AuthKey k) = 20"

definition SrtcpAuthTagLen :: nat where "SrtcpAuthTagLen = 10"
definition SrtcpTrailerLen :: nat where "SrtcpTrailerLen = 4 + SrtcpAuthTagLen"
definition rtcpHeaderLen :: nat where "rtcpHeaderLen = 8"

text \<open>\<open>aes.NewCipher\<close>; every caller passes sixteen bytes, the size the model covers.\<close>

definition aes_NewCipher :: "bytes \<Rightarrow> srtp_error + bytes" where
  "aes_NewCipher key = (if length key = 16 then Inr key else Inl (CryptoErr BadKeySize))"

definition aesCmKdf :: "bytes \<Rightarrow> bytes \<Rightarrow> byte \<Rightarrow> nat \<Rightarrow> srtp_error + bytes" where
  "aesCmKdf masterKey masterSalt label len =
     (let iv = take 14 masterSalt @ [0, 0];
          iv = iv[7 := iv ! 7 XOR label]
      in bindE (aes_NewCipher masterKey) (\<lambda>block. Inr (aes_ctr block iv (replicate len 0))))"

definition deriveSessionKeysFromMasterLabels ::
  "bytes \<Rightarrow> byte \<Rightarrow> byte \<Rightarrow> byte \<Rightarrow> srtp_error + E2eSrtpKeys" where
  "deriveSessionKeysFromMasterLabels master cipherLabel authLabel saltLabel =
     (let masterKey = slice 0 16 master; masterSalt = slice 16 30 master
      in bindE (aesCmKdf masterKey masterSalt cipherLabel 16) (\<lambda>cipherKey.
         bindE (aesCmKdf masterKey masterSalt authLabel 20) (\<lambda>authKey.
         bindE (aesCmKdf masterKey masterSalt saltLabel 14) (\<lambda>salt.
           Inr \<lparr>CipherKey = cipherKey, Salt = salt, AuthKey = authKey\<rparr>))))"

definition deriveSessionKeysFromMaster :: "bytes \<Rightarrow> srtp_error + E2eSrtpKeys" where
  "deriveSessionKeysFromMaster master = deriveSessionKeysFromMasterLabels master 0x00 0x01 0x02"

definition liftCrypto :: "crypto_error + 'a \<Rightarrow> srtp_error + 'a" where
  "liftCrypto m = (case m of Inl e \<Rightarrow> Inl (CryptoErr e) | Inr x \<Rightarrow> Inr x)"

definition DeriveE2eKeys :: "bytes \<Rightarrow> string \<Rightarrow> srtp_error + E2eSrtpKeys" where
  "DeriveE2eKeys callKey participantLid =
     (if length callKey < 32 then Inl ErrShortKey
      else bindE (liftCrypto (HKDFSHA256 (replicate 32 0) (take 32 callKey) (bytes_of_string participantLid) 46))
             deriveSessionKeysFromMaster)"

definition DeriveE2eSrtcpKeys :: "bytes \<Rightarrow> string \<Rightarrow> srtp_error + E2eSrtpKeys" where
  "DeriveE2eSrtcpKeys callKey participantLid =
     (if length callKey < 32 then Inl ErrShortKey
      else bindE (liftCrypto (HKDFSHA256 (replicate 32 0) (take 32 callKey) (bytes_of_string participantLid) 46))
             (\<lambda>master. deriveSessionKeysFromMasterLabels master 0x03 0x04 0x05))"

definition DeriveE2eKeysFromRaw :: "bytes \<Rightarrow> string \<Rightarrow> srtp_error + E2eSrtpKeys" where
  "DeriveE2eKeysFromRaw rawE2e participantLid =
     (if length rawE2e < 32 then Inl ErrShortKey
      else bindE (liftCrypto (HKDFSHA256 (replicate 32 0) (take 32 rawE2e) (bytes_of_string participantLid) 46))
             deriveSessionKeysFromMaster)"

definition DeriveE2eSRTCPKeysFromRaw :: "bytes \<Rightarrow> string \<Rightarrow> srtp_error + E2eSrtpKeys" where
  "DeriveE2eSRTCPKeysFromRaw rawE2E participantLID =
     (if length rawE2E < 32 then Inl ErrShortKey
      else bindE (liftCrypto (HKDFSHA256 (replicate 32 0) (take 32 rawE2E) (bytes_of_string participantLID) 46))
             (\<lambda>master. deriveSessionKeysFromMasterLabels master 0x03 0x04 0x05))"

section \<open>Packet transforms\<close>

definition xor_at :: "nat \<Rightarrow> byte \<Rightarrow> bytes \<Rightarrow> bytes" where
  "xor_at i b xs = xs[i := xs ! i XOR b]"

text \<open>The salt is an array of 14 bytes in every call; a longer one would panic.\<close>

definition BuildE2eRtpIV :: "bytes \<Rightarrow> u32 \<Rightarrow> u32 \<Rightarrow> u16 \<Rightarrow> bytes" where
  "BuildE2eRtpIV salt ssrc roc seq =
     (let iv = replicate (14 - length salt) 0 @ salt @ [0, 0];
          iv = xor_at 4 (ucast (drop_bit 24 ssrc)) iv;
          iv = xor_at 5 (ucast (drop_bit 16 ssrc)) iv;
          iv = xor_at 6 (ucast (drop_bit 8 ssrc)) iv;
          iv = xor_at 7 (ucast ssrc) iv;
          packetIndex = (ucast roc :: u64) * 0x10000 + ucast seq;
          hi16 = (ucast (drop_bit 32 packetIndex AND 0xffff) :: u16);
          lo32 = (ucast (packetIndex AND 0xffffffff) :: u32);
          iv = xor_at 8 (ucast (drop_bit 8 hi16)) iv;
          iv = xor_at 9 (ucast hi16) iv;
          iv = xor_at 10 (ucast (drop_bit 24 lo32)) iv;
          iv = xor_at 11 (ucast (drop_bit 16 lo32)) iv;
          iv = xor_at 12 (ucast (drop_bit 8 lo32)) iv
      in xor_at 13 (ucast lo32) iv)"

definition CryptPayload :: "E2eSrtpKeys \<Rightarrow> u32 \<Rightarrow> u16 \<Rightarrow> u32 \<Rightarrow> bytes \<Rightarrow> srtp_error + bytes" where
  "CryptPayload keys ssrc seq roc payload =
     (let iv = BuildE2eRtpIV (Salt keys) ssrc roc seq
      in bindE (aes_NewCipher (CipherKey keys)) (\<lambda>block. Inr (aes_ctr block iv payload)))"

definition ProtectSrtcp :: "E2eSrtpKeys \<Rightarrow> u32 \<Rightarrow> u32 \<Rightarrow> bytes \<Rightarrow> srtp_error + bytes" where
  "ProtectSrtcp keys senderSsrc index rtcp =
     (let split = min (length rtcp) rtcpHeaderLen;
          out = take split rtcp
      in bindE (CryptPayload keys senderSsrc (ucast index) (drop_bit 16 index) (drop split rtcp)) (\<lambda>body.
         let out = out @ body;
             w = 0x80000000 OR index;
             out = out @ [ucast (drop_bit 24 w), ucast (drop_bit 16 w), ucast (drop_bit 8 w), ucast w]
         in Inr (out @ take SrtcpAuthTagLen (hmac sha1 (AuthKey keys) out))))"

definition UnprotectSrtcp :: "E2eSrtpKeys \<Rightarrow> u32 \<Rightarrow> bytes \<Rightarrow> (bytes \<times> u32) option" where
  "UnprotectSrtcp keys senderSsrc packet =
     (if length packet < rtcpHeaderLen + SrtcpTrailerLen then None
      else
        let tagStart = length packet - SrtcpAuthTagLen
        in if drop tagStart packet \<noteq> take SrtcpAuthTagLen (hmac sha1 (AuthKey keys) (take tagStart packet))
           then None
           else
             let indexStart = tagStart - 4;
                 index = push_bit 24 (ucast (packet ! indexStart)) OR
                         push_bit 16 (ucast (packet ! (indexStart + 1))) OR
                         push_bit 8 (ucast (packet ! (indexStart + 2))) OR
                         ucast (packet ! (indexStart + 3));
                 index = index AND 0x7fffffff
             in case CryptPayload keys senderSsrc (ucast index) (drop_bit 16 index)
                       (slice rtcpHeaderLen indexStart packet) of
                  Inl _ \<Rightarrow> None
                | Inr body \<Rightarrow> Some (take rtcpHeaderLen packet @ body, index))"

section \<open>Rollover counters\<close>

record RocTracker =
  roc :: u32
  lastSeq :: u16
  initialized :: bool

definition new_RocTracker :: RocTracker where
  "new_RocTracker = \<lparr>roc = 0, lastSeq = 0, initialized = False\<rparr>"

text \<open>The differences are 32-bit signed; both operands have 16 bits, so they do not wrap.\<close>

definition Advance :: "u16 \<Rightarrow> RocTracker \<Rightarrow> u32 \<times> RocTracker" where
  "Advance seq t =
     (if \<not> initialized t then (roc t, t\<lparr>lastSeq := seq, initialized := True\<rparr>)
      else
        let t = (if int (unat seq) - int (unat (lastSeq t)) < - 32768 then t\<lparr>roc := roc t + 1\<rparr> else t);
            t = t\<lparr>lastSeq := seq\<rparr>
        in (roc t, t))"

record RecvRocTracker =
  rroc :: u32
  sL :: u16
  rinitialized :: bool

definition new_RecvRocTracker :: RecvRocTracker where
  "new_RecvRocTracker = \<lparr>rroc = 0, sL = 0, rinitialized = False\<rparr>"

definition EstimateRoc :: "u16 \<Rightarrow> RecvRocTracker \<Rightarrow> u32" where
  "EstimateRoc seq t =
     (if \<not> rinitialized t then rroc t
      else if sL t < 0x8000 then
        (if 0x8000 < int (unat seq) - int (unat (sL t)) then rroc t - 1 else rroc t)
      else if 0x8000 < int (unat (sL t)) - int (unat seq) then rroc t + 1
      else rroc t)"

definition CommitRoc :: "u32 \<Rightarrow> u16 \<Rightarrow> RecvRocTracker \<Rightarrow> RecvRocTracker" where
  "CommitRoc v seq t =
     (if \<not> rinitialized t then t\<lparr>sL := seq, rinitialized := True\<rparr>
      else if v = rroc t then (if sL t < seq then t\<lparr>sL := seq\<rparr> else t)
      else if v = rroc t + 1 then t\<lparr>rroc := v, sL := seq\<rparr>
      else t)"

definition GuessRoc :: "u16 \<Rightarrow> RecvRocTracker \<Rightarrow> u32 \<times> RecvRocTracker" where
  "GuessRoc seq t = (let v = EstimateRoc seq t in (v, CommitRoc v seq t))"

section \<open>Keys have their sizes\<close>

lemma aesCmKdf_length: "aesCmKdf k s l n = Inr out \<Longrightarrow> length out = n"
  by (auto simp: aesCmKdf_def aes_NewCipher_def Let_def split: if_splits)

lemma aesCmKdf_total: "length k = 16 \<Longrightarrow> \<exists>out. aesCmKdf k s l n = Inr out"
  by (simp add: aesCmKdf_def aes_NewCipher_def Let_def)

lemma deriveSessionKeys_total:
  assumes "length master = 46"
  shows "\<exists>keys. deriveSessionKeysFromMasterLabels master a b c = Inr keys \<and> wf_keys keys"
proof -
  have "length (take 16 master) = 16" using assms by simp
  from aesCmKdf_total [OF this, of "slice 16 30 master"] obtain x y z where
    "aesCmKdf (take 16 master) (slice 16 30 master) a 16 = Inr x"
    "aesCmKdf (take 16 master) (slice 16 30 master) b 20 = Inr y"
    "aesCmKdf (take 16 master) (slice 16 30 master) c 14 = Inr z" by metis
  then show ?thesis
    by (simp add: deriveSessionKeysFromMasterLabels_def Let_def wf_keys_def aesCmKdf_length)
qed

text \<open>
  The four key derivations fail exactly on inputs shorter than 32 bytes, and otherwise give
  keys of the declared sizes; only the first 32 bytes of the input matter.
\<close>

lemma derive_keys_total:
  "(length callKey < 32 \<and> DeriveE2eKeys callKey lid = Inl ErrShortKey \<and>
      DeriveE2eSrtcpKeys callKey lid = Inl ErrShortKey) \<or>
   (32 \<le> length callKey \<and>
      (\<exists>keys. DeriveE2eKeys callKey lid = Inr keys \<and> wf_keys keys \<and>
         DeriveE2eKeys (callKey @ extra) lid = Inr keys \<and> DeriveE2eKeysFromRaw callKey lid = Inr keys) \<and>
      (\<exists>keys. DeriveE2eSrtcpKeys callKey lid = Inr keys \<and> wf_keys keys \<and>
         DeriveE2eSrtcpKeys (callKey @ extra) lid = Inr keys \<and> DeriveE2eSRTCPKeysFromRaw callKey lid = Inr keys))"
proof (cases "length callKey < 32")
  case True
  then show ?thesis by (simp add: DeriveE2eKeys_def DeriveE2eSrtcpKeys_def)
next
  case False
  obtain m where m: "HKDFSHA256 (replicate 32 0) (take 32 callKey) (bytes_of_string lid) 46 = Inr m" "length m = 46"
    using HKDFSHA256_obtain [of 46 "replicate 32 0" "take 32 callKey" "bytes_of_string lid"] by auto
  obtain k where k: "deriveSessionKeysFromMasterLabels m 0 1 2 = Inr k" "wf_keys k"
    using deriveSessionKeys_total [OF m(2)] by blast
  obtain c where c: "deriveSessionKeysFromMasterLabels m 3 4 5 = Inr c" "wf_keys c"
    using deriveSessionKeys_total [OF m(2)] by blast
  show ?thesis
    using False m(1) k c
    by (simp add: DeriveE2eKeys_def DeriveE2eSrtcpKeys_def DeriveE2eKeysFromRaw_def
        DeriveE2eSRTCPKeysFromRaw_def liftCrypto_def deriveSessionKeysFromMaster_def)
qed

section \<open>Payload encryption\<close>

lemma CryptPayload_ok: "wf_keys keys \<Longrightarrow>
    CryptPayload keys ssrc seq r p = Inr (aes_ctr (CipherKey keys) (BuildE2eRtpIV (Salt keys) ssrc r seq) p)"
  by (simp add: CryptPayload_def aes_NewCipher_def wf_keys_def)

lemma CryptPayload_twice:
  "wf_keys keys \<Longrightarrow> bindE (CryptPayload keys ssrc seq r p) (CryptPayload keys ssrc seq r) = Inr p"
  by (simp add: CryptPayload_ok)

text \<open>The packet index, and how it splits into the bytes of the IV.\<close>

definition packet_index :: "u32 \<Rightarrow> u16 \<Rightarrow> u64" where
  "packet_index r seq = push_bit 16 (ucast r) OR ucast seq"

lemma packet_index_add: "(ucast r :: u64) * 0x10000 + ucast seq = packet_index r seq"
proof -
  have "(ucast r :: u64) * 0x10000 = push_bit 16 (ucast r)" by (simp add: push_bit_eq_mult)
  moreover have "push_bit 16 (ucast r :: u64) + ucast seq = push_bit 16 (ucast r) OR ucast seq"
    by (rule disjunctive_add) (auto simp: bit_simps dest: bit_imp_le_length)
  ultimately show ?thesis by (simp add: packet_index_def)
qed

definition index_hi :: "u32 \<Rightarrow> u16 \<Rightarrow> u16" where
  "index_hi r seq = ucast (drop_bit 32 (packet_index r seq) AND 0xffff)"

definition index_lo :: "u32 \<Rightarrow> u16 \<Rightarrow> u32" where
  "index_lo r seq = ucast (packet_index r seq AND 0xffffffff)"

lemma masks_64: "(0xffff :: u64) = mask 16" "(0xffffffff :: u64) = mask 32"
  by (simp_all add: mask_eq_exp_minus_1)

lemma index_split:
  "r = push_bit 16 (ucast (index_hi r seq)) OR ucast (drop_bit 16 (index_lo r seq))"
  "seq = ucast (index_lo r seq)"
proof -
  show "r = push_bit 16 (ucast (index_hi r seq)) OR ucast (drop_bit 16 (index_lo r seq))"
    unfolding index_hi_def index_lo_def packet_index_def masks_64
  proof (rule bit_word_eqI)
    fix n assume "n < LENGTH(32)"
    then show "bit r n = bit (push_bit 16 (ucast (ucast (drop_bit 32 (push_bit 16 (ucast r) OR ucast seq :: u64) AND mask 16) :: u16)) OR
         ucast (drop_bit 16 (ucast ((push_bit 16 (ucast r) OR ucast seq :: u64) AND mask 32) :: u32)) :: u32) n"
      by (auto simp: bit_simps dest: bit_imp_le_length)
  qed
  show "seq = ucast (index_lo r seq)"
    unfolding index_lo_def packet_index_def masks_64
    by (rule bit_word_eqI) (auto simp: bit_simps)
qed

lemma index_inject: "index_hi r s = index_hi r' s' \<Longrightarrow> index_lo r s = index_lo r' s' \<Longrightarrow> r = r' \<and> s = s'"
  by (metis index_split)

lemma BuildE2eRtpIV_xor:
  assumes "length salt = 14"
  shows "BuildE2eRtpIV salt ssrc r seq =
    xor_bytes (salt @ [0, 0]) (replicate 4 0 @ be32 ssrc @ be16 (index_hi r seq) @ be32 (index_lo r seq) @ [0, 0])"
proof -
  obtain s0 s1 s2 s3 s4 s5 s6 s7 s8 s9 s10 s11 s12 s13 where
    "salt = [s0, s1, s2, s3, s4, s5, s6, s7, s8, s9, s10, s11, s12, s13]"
    using assms by (auto simp: length_Suc_conv numeral_eq_Suc)
  then show ?thesis
    by (simp add: BuildE2eRtpIV_def Let_def xor_at_def xor_bytes_def be32_def be16_def packet_index_add
        index_hi_def index_lo_def eval_nat_numeral)
qed

lemma xor_bytes_inject:
  "length a = length b \<Longrightarrow> length a = length k \<Longrightarrow> xor_bytes k a = xor_bytes k b \<Longrightarrow> a = b"
proof -
  assume len: "length a = length b" "length a = length k" and eq: "xor_bytes k a = xor_bytes k b"
  have "xor_bytes (xor_bytes k x) k = x" if "length x = length k" for x
  proof -
    have "xor_bytes k x = xor_bytes x k"
      unfolding xor_bytes_def using that by (induction k x rule: list_induct2') (auto simp: xor.commute)
    then show ?thesis using that xor_bytes_twice [of x k] by simp
  qed
  from this [of a] this [of b] len eq show "a = b" by metis
qed

text \<open>
  C29: under one salt, distinct (SSRC, rollover counter, sequence number) triples have distinct
  IVs, and the last two bytes of every IV are zero: within a packet of at most 65536 blocks the
  counter never leaves those two bytes, so no keystream block is used for two packets.
\<close>

theorem BuildE2eRtpIV_unique:
  assumes "length salt = 14"
  shows "(BuildE2eRtpIV salt ssrc r seq = BuildE2eRtpIV salt ssrc' r' seq' \<longleftrightarrow>
      ssrc = ssrc' \<and> r = r' \<and> seq = seq') \<and>
    length (BuildE2eRtpIV salt ssrc r seq) = 16 \<and> drop 14 (BuildE2eRtpIV salt ssrc r seq) = [0, 0]"
proof (intro conjI)
  show "BuildE2eRtpIV salt ssrc r seq = BuildE2eRtpIV salt ssrc' r' seq' \<longleftrightarrow>
      ssrc = ssrc' \<and> r = r' \<and> seq = seq'"
  proof
    assume "BuildE2eRtpIV salt ssrc r seq = BuildE2eRtpIV salt ssrc' r' seq'"
    then have "replicate 4 0 @ be32 ssrc @ be16 (index_hi r seq) @ be32 (index_lo r seq) @ [0, 0 :: byte] =
        replicate 4 0 @ be32 ssrc' @ be16 (index_hi r' seq') @ be32 (index_lo r' seq') @ [0, 0]"
      unfolding BuildE2eRtpIV_xor [OF assms] by (rule xor_bytes_inject [rotated 2]) (simp_all add: assms)
    then have "ssrc = ssrc'" "index_hi r seq = index_hi r' seq'" "index_lo r seq = index_lo r' seq'"
      by simp_all
    with index_inject show "ssrc = ssrc' \<and> r = r' \<and> seq = seq'" by blast
  qed simp
  show "length (BuildE2eRtpIV salt ssrc r seq) = 16" by (simp add: BuildE2eRtpIV_xor assms)
  show "drop 14 (BuildE2eRtpIV salt ssrc r seq) = [0, 0]"
    using assms by (simp add: BuildE2eRtpIV_xor xor_bytes_def drop_map drop_zip)
qed

theorem BuildE2eRtpIV_unique_witness:
  "length (replicate 14 (7 :: byte)) = 14 \<and>
   BuildE2eRtpIV (replicate 14 7) 1 2 3 \<noteq> BuildE2eRtpIV (replicate 14 7) 1 3 2 \<and>
   drop 14 (BuildE2eRtpIV (replicate 14 7) 1 2 3) = [0, 0]"
  using BuildE2eRtpIV_unique [of "replicate 14 7" 1 2 3 1 3 2] by simp

section \<open>SRTCP\<close>

lemma be32_list: "[ucast (drop_bit 24 w), ucast (drop_bit 16 w), ucast (drop_bit 8 w), ucast w] = be32 w"
  by (simp add: be32_def)

lemma ProtectSrtcp_eq:
  assumes "wf_keys keys" "8 \<le> length rtcp"
  shows "ProtectSrtcp keys ssrc index rtcp =
    (let out = take 8 rtcp @ aes_ctr (CipherKey keys) (BuildE2eRtpIV (Salt keys) ssrc (drop_bit 16 index) (ucast index)) (drop 8 rtcp) @
               be32 (0x80000000 OR index)
     in Inr (out @ take 10 (hmac sha1 (AuthKey keys) out)))"
  using assms by (simp add: ProtectSrtcp_def CryptPayload_ok Let_def rtcpHeaderLen_def SrtcpAuthTagLen_def be32_list)

lemma index_word: "(0x80000000 OR index) AND 0x7fffffff = index AND (0x7fffffff :: u32)"
proof -
  have m: "(0x7fffffff :: u32) = mask 31" by (simp add: mask_eq_exp_minus_1)
  have "bit (0x80000000 :: u32) n \<longleftrightarrow> n = 31" for n
    using bit_exp_iff [where ?'a = "32 word", of 31 n] by (auto dest: bit_imp_le_length)
  then show ?thesis unfolding m by (intro bit_word_eqI) (auto simp only: bit_and_iff bit_or_iff bit_mask_iff)
qed

lemma index_read:
  fixes w :: u32
  assumes "indexStart = length pre"
  shows "push_bit 24 (ucast ((pre @ be32 w @ t) ! indexStart)) OR
     push_bit 16 (ucast ((pre @ be32 w @ t) ! (indexStart + 1))) OR
     push_bit 8 (ucast ((pre @ be32 w @ t) ! (indexStart + 2))) OR
     ucast ((pre @ be32 w @ t) ! (indexStart + 3)) = w"
  using uint32_be_be32 [of w "[]"] assms by (simp add: be32_def nth_append)

text \<open>
  An RTCP packet with a whole header, protected under an index below \<open>2^31\<close>, comes out of
  \<open>UnprotectSrtcp\<close> with the same keys and SSRC unchanged, together with its index; the packet on
  the wire is 14 bytes longer.
\<close>

lemma UnprotectSrtcp_ProtectSrtcp:
  assumes keys: "wf_keys keys" and len: "8 \<le> length rtcp" and idx: "index < 0x80000000"
  shows "\<exists>packet. ProtectSrtcp keys ssrc index rtcp = Inr packet \<and> length packet = length rtcp + 14 \<and>
    UnprotectSrtcp keys ssrc packet = Some (rtcp, index)"
proof -
  let ?body = "aes_ctr (CipherKey keys) (BuildE2eRtpIV (Salt keys) ssrc (drop_bit 16 index) (ucast index)) (drop 8 rtcp)"
  let ?pre = "take 8 rtcp @ ?body"
  let ?out = "?pre @ be32 (0x80000000 OR index)"
  let ?tag = "take 10 (hmac sha1 (AuthKey keys) ?out)"
  let ?p = "?out @ ?tag"
  have pre: "length ?pre = length rtcp" using len by simp
  have p: "ProtectSrtcp keys ssrc index rtcp = Inr ?p"
    by (simp add: ProtectSrtcp_eq [OF keys len] Let_def)
  have lp: "length ?p = length rtcp + 14" using pre by simp
  have parts: "take (length rtcp + 4) ?p = ?out" "drop (length rtcp + 4) ?p = ?tag"
    "slice 8 (length rtcp) ?p = ?body" "take 8 ?p = take 8 rtcp"
    using pre len by (simp_all add: slice_def)
  have w: "index AND 0x7fffffff = index"
  proof -
    have "(0x7fffffff :: u32) = mask 31" by (simp add: mask_eq_exp_minus_1)
    moreover have "take_bit 31 index = index"
      using idx by (simp add: word_less_nat_alt word_unat_eq_iff unsigned_take_bit_eq take_bit_nat_eq_self)
    ultimately show ?thesis by (simp add: take_bit_eq_mask)
  qed
  have idx_eq: "(push_bit 24 (ucast (?p ! length rtcp)) OR push_bit 16 (ucast (?p ! (length rtcp + 1))) OR
     push_bit 8 (ucast (?p ! (length rtcp + 2))) OR ucast (?p ! (length rtcp + 3))) AND 0x7fffffff = index"
    using index_read [of "length rtcp" ?pre "0x80000000 OR index" ?tag] pre index_word [of index] w by simp
  have "UnprotectSrtcp keys ssrc ?p = Some (take 8 rtcp @ drop 8 rtcp, index)"
    using lp parts idx_eq len
    by (simp only: UnprotectSrtcp_def Let_def rtcpHeaderLen_def SrtcpTrailerLen_def SrtcpAuthTagLen_def
        CryptPayload_ok [OF keys]) (simp add: numeral_eq_Suc)
  then show ?thesis using p lp by auto
qed

text \<open>
  \<open>UnprotectSrtcp\<close> returns a packet only if its last ten bytes are the truncated HMAC-SHA1 of
  everything before them, header and index word included; anything shorter than 22 bytes is
  rejected, and what is returned is 14 bytes shorter and keeps the header bytes.
\<close>

lemma UnprotectSrtcp_authentic:
  assumes "wf_keys keys"
  defines "authentic p \<equiv> 22 \<le> length p \<and>
    drop (length p - 10) p = take 10 (hmac sha1 (AuthKey keys) (take (length p - 10) p))"
  shows "case UnprotectSrtcp keys ssrc packet of
      None \<Rightarrow> \<not> authentic packet
    | Some (rtcp, index) \<Rightarrow> authentic packet \<and> length rtcp = length packet - 14 \<and>
        take 8 rtcp = take 8 packet \<and> index < 0x80000000"
proof -
  have m: "w AND 0x7fffffff < (0x80000000 :: u32)" for w
  proof -
    have "w AND 0x7fffffff \<le> 0x7fffffff" by (rule word_and_le1)
    then show ?thesis by (rule le_less_trans) simp
  qed
  show ?thesis
    using assms m
    by (simp add: UnprotectSrtcp_def Let_def CryptPayload_ok rtcpHeaderLen_def SrtcpTrailerLen_def
        SrtcpAuthTagLen_def authentic_def)
qed

section \<open>Sending: the rollover counter\<close>

text \<open>
  The tracker follows a packet counter \<open>i\<close> when it holds the high part of \<open>i\<close> as its rollover
  counter and the low part as the last sequence number.
\<close>

definition tracks :: "RocTracker \<Rightarrow> nat \<Rightarrow> bool" where
  "tracks t i \<longleftrightarrow> initialized t \<and> roc t = word_of_nat (i div 65536) \<and> lastSeq t = word_of_nat i"

lemma Advance_first:
  assumes "i < 65536"
  shows "fst (Advance (word_of_nat i) new_RocTracker) = 0"
    "tracks (snd (Advance (word_of_nat i) new_RocTracker)) i"
  using assms by (simp_all add: Advance_def new_RocTracker_def tracks_def)

lemma Advance_tracks:
  assumes "tracks t i" "i \<le> j" "j < i + 32768"
  shows "fst (Advance (word_of_nat j) t) = word_of_nat (j div 65536)"
    "tracks (snd (Advance (word_of_nat j) t)) j"
  using assms(1) div_mod_near [OF assms(2,3)]
  by (auto simp: tracks_def Advance_def Let_def unat_seq)

fun run_Advance :: "nat list \<Rightarrow> RocTracker \<Rightarrow> u32 list" where
  "run_Advance [] t = []"
| "run_Advance (i # is) t = (let (r, t) = Advance (word_of_nat i) t in r # run_Advance is t)"

fun close_steps :: "nat \<Rightarrow> nat list \<Rightarrow> bool" where
  "close_steps i [] = True"
| "close_steps i (j # js) = (i \<le> j \<and> j < i + 32768 \<and> close_steps j js)"

text \<open>
  For packets sent in order, with fewer than 32768 sequence numbers skipped between two of
  them, the tracker returns for every packet the high bits of its true counter, across any
  number of wraps of the 16-bit sequence number.
\<close>

lemma Advance_counts:
  assumes "i < 65536" "close_steps i is"
  shows "run_Advance (i # is) new_RocTracker = map (\<lambda>j. word_of_nat (j div 65536)) (i # is)"
proof -
  have "tracks t i \<Longrightarrow> close_steps i is \<Longrightarrow> run_Advance is t = map (\<lambda>j. word_of_nat (j div 65536)) is" for t i
  proof (induction "is" arbitrary: t i)
    case (Cons j js)
    then have "fst (Advance (word_of_nat j) t) = word_of_nat (j div 65536)"
      "tracks (snd (Advance (word_of_nat j) t)) j" using Advance_tracks [of t i j] by simp_all
    with Cons show ?case by (simp add: split_beta)
  qed simp
  from this [OF Advance_first(2) [OF assms(1)] assms(2)] Advance_first(1) [OF assms(1)] assms(1)
  show ?thesis by (simp add: split_beta)
qed

section \<open>Receiving: the rollover estimate\<close>

definition rtracks :: "RecvRocTracker \<Rightarrow> nat \<Rightarrow> bool" where
  "rtracks t s \<longleftrightarrow> rinitialized t \<and> rroc t = word_of_nat (s div 65536) \<and> sL t = word_of_nat s"

lemma EstimateRoc_near:
  assumes "rtracks t s" "j < s + 32768" "s < j + 32768"
  shows "EstimateRoc (word_of_nat j) t = word_of_nat (j div 65536)"
proof -
  have t: "rinitialized t" "rroc t = word_of_nat (s div 65536)" "sL t = word_of_nat s"
    using assms(1) by (simp_all add: rtracks_def)
  have low: "sL t < 0x8000 \<longleftrightarrow> s mod 65536 < 32768" by (simp add: t word_less_nat_alt unat_seq)
  have same: "j div 65536 = s div 65536 \<Longrightarrow> j mod 65536 < s mod 65536 + 32768 \<and> s mod 65536 < j mod 65536 + 32768"
    using assms(2,3) div_mult_mod_eq [of j 65536] div_mult_mod_eq [of s 65536] by linarith
  have lt: "s mod 65536 < 65536" "j mod 65536 < 65536" by simp_all
  from near_cases [OF assms(2,3)] show ?thesis
  proof (elim disjE conjE)
    assume "j div 65536 = s div 65536"
    with same show ?thesis unfolding EstimateRoc_def low by (simp add: t unat_seq)
  next
    assume "j div 65536 = s div 65536 + 1" "j mod 65536 + 32768 < s mod 65536"
    then show ?thesis unfolding EstimateRoc_def low by (simp add: t unat_seq)
  next
    assume "s div 65536 = j div 65536 + 1" "s mod 65536 + 32768 < j mod 65536"
    then show ?thesis unfolding EstimateRoc_def low using lt by (simp add: t unat_seq)
  qed
qed

lemma GuessRoc_near:
  assumes t: "rtracks t s" and near: "j < s + 32768" "s < j + 32768"
  shows "fst (GuessRoc (word_of_nat j) t) = word_of_nat (j div 65536)"
    "rtracks (snd (GuessRoc (word_of_nat j) t)) (max s j)"
proof -
  note e = EstimateRoc_near [OF assms]
  show "fst (GuessRoc (word_of_nat j) t) = word_of_nat (j div 65536)" by (simp add: GuessRoc_def e Let_def)
  have f: "rinitialized t" "rroc t = word_of_nat (s div 65536)" "sL t = word_of_nat s"
    using t by (simp_all add: rtracks_def)
  have two: "(2 :: u32) \<noteq> 0" by simp
  from near_cases [OF near] show "rtracks (snd (GuessRoc (word_of_nat j) t)) (max s j)"
  proof (elim disjE conjE)
    assume d: "j div 65536 = s div 65536"
    then have "s < j \<longleftrightarrow> s mod 65536 < j mod 65536"
      using div_mult_mod_eq [of j 65536] div_mult_mod_eq [of s 65536] by linarith
    with d f show ?thesis
      by (auto simp: GuessRoc_def Let_def e CommitRoc_def rtracks_def word_less_nat_alt unat_seq max_def)
  next
    assume d: "j div 65536 = s div 65536 + 1" "j mod 65536 + 32768 < s mod 65536"
    then have "s < j" using div_mult_mod_eq [of j 65536] div_mult_mod_eq [of s 65536]
      mod_less_divisor [of 65536 s] by linarith
    with d f show ?thesis by (simp add: GuessRoc_def Let_def e CommitRoc_def rtracks_def max_def)
  next
    assume d: "s div 65536 = j div 65536 + 1" "s mod 65536 + 32768 < j mod 65536"
    then have "j < s" using div_mult_mod_eq [of j 65536] div_mult_mod_eq [of s 65536]
      mod_less_divisor [of 65536 j] by linarith
    with d f two show ?thesis
      by (simp add: GuessRoc_def Let_def e CommitRoc_def rtracks_def max_def add.assoc del: one_add_one)
  qed
qed

fun run_GuessRoc :: "nat list \<Rightarrow> RecvRocTracker \<Rightarrow> u32 list" where
  "run_GuessRoc [] t = []"
| "run_GuessRoc (i # is) t = (let (r, t) = GuessRoc (word_of_nat i) t in r # run_GuessRoc is t)"

text \<open>
  C30: whatever the order in which packets arrive, as long as each is less than 32768 positions
  away from the newest one seen so far, the receiver recovers the true rollover counter of
  every one of them, late and early packets around a wrap included.
\<close>

theorem GuessRoc_recovers:
  assumes "i < 65536" "near_max i is"
  shows "run_GuessRoc (i # is) new_RecvRocTracker = map (\<lambda>j. word_of_nat (j div 65536)) (i # is)"
proof -
  have first: "fst (GuessRoc (word_of_nat i) new_RecvRocTracker) = 0"
    "rtracks (snd (GuessRoc (word_of_nat i) new_RecvRocTracker)) i"
    using assms(1) by (simp_all add: GuessRoc_def Let_def EstimateRoc_def CommitRoc_def new_RecvRocTracker_def rtracks_def)
  have "rtracks t s \<Longrightarrow> near_max s is \<Longrightarrow> run_GuessRoc is t = map (\<lambda>j. word_of_nat (j div 65536)) is" for t s
  proof (induction "is" arbitrary: t s)
    case (Cons j js)
    then have "fst (GuessRoc (word_of_nat j) t) = word_of_nat (j div 65536)"
      "rtracks (snd (GuessRoc (word_of_nat j) t)) (max s j)" using GuessRoc_near [of t s j] by simp_all
    with Cons show ?case by (simp add: split_beta)
  qed simp
  from this [OF first(2) assms(2)] first(1) assms(1) show ?thesis by (simp add: split_beta)
qed

theorem GuessRoc_recovers_witness:
  "near_max 65530 [65540, 65535, 90000, 65536, 110000, 140000] \<and>
   run_GuessRoc [65530, 65540, 65535, 90000, 65536, 110000, 140000] new_RecvRocTracker = [0, 1, 0, 1, 1, 1, 2]"
  using GuessRoc_recovers [of 65530 "[65540, 65535, 90000, 65536, 110000, 140000]"] by simp

end
