(* ===== verification/Hbh.thy ===== *)
theory Hbh
  imports E2e
begin

text \<open>
  Hop-by-hop encryption between client and relay (\<^verbatim>\<open>wa-core/srtp/hbh.go\<close>): the two-stage key
  schedule, libsrtp's AES-ICM, whose counter carries only from the last byte into the one before
  it, and the payload transform; and the WARP integrity tag (\<^verbatim>\<open>wa-core/srtp/warp.go\<close>). The main
  result is that on every payload the relay protocol can carry the two-byte counter and the
  128-bit counter of standard CTR mode produce the same bytes.
\<close>

section \<open>Key schedule\<close>

record SrtpKeyingMaterial =
  MasterKey :: bytes
  MasterSalt :: bytes

record LibsrtpSessionKeys =
  SessionKey :: bytes
  SessionSalt :: bytes
  SessAuthKey :: bytes

definition labelRTPEncryption :: byte where "labelRTPEncryption = 0x00"
definition labelRTPAuth :: byte where "labelRTPAuth = 0x01"
definition labelRTPSalt :: byte where "labelRTPSalt = 0x02"

definition keyingFromCryptoKey :: "bytes \<Rightarrow> SrtpKeyingMaterial" where
  "keyingFromCryptoKey cryptoKey = \<lparr>MasterKey = slice 0 16 cryptoKey, MasterSalt = slice 16 30 cryptoKey\<rparr>"

definition deriveHbhSrtpKeyWithLabels :: "bytes \<Rightarrow> string \<Rightarrow> string \<Rightarrow> srtp_error + bytes" where
  "deriveHbhSrtpKeyWithLabels hbhKey saltLabel keyLabel =
     (if length hbhKey \<noteq> 30 then Inl ErrBadHbhKeyLen
      else
        let masterKey = slice 0 16 hbhKey; masterSalt = slice 16 30 hbhKey
        in bindE (liftCrypto (HKDFSHA256 (replicate 32 0) masterSalt (bytes_of_string saltLabel) 32)) (\<lambda>srtcpSalt.
           liftCrypto (HKDFSHA256 srtcpSalt masterKey (bytes_of_string keyLabel) 30)))"

definition DeriveHbhSrtpKeyUplink :: "bytes \<Rightarrow> srtp_error + bytes" where
  "DeriveHbhSrtpKeyUplink hbhKey =
     deriveHbhSrtpKeyWithLabels hbhKey ''uplink hbh srtcp salt'' ''uplink hbh srtcp key''"

definition DeriveHbhSrtpKeyDownlink :: "bytes \<Rightarrow> srtp_error + bytes" where
  "DeriveHbhSrtpKeyDownlink hbhKey =
     deriveHbhSrtpKeyWithLabels hbhKey ''downlink hbh srtcp salt'' ''downlink hbh srtcp key''"

definition KeyingFromHbhKeyUplink :: "bytes \<Rightarrow> srtp_error + SrtpKeyingMaterial" where
  "KeyingFromHbhKeyUplink hbhKey =
     bindE (DeriveHbhSrtpKeyUplink hbhKey) (\<lambda>k. Inr (keyingFromCryptoKey k))"

definition KeyingFromHbhKeyDownlink :: "bytes \<Rightarrow> srtp_error + SrtpKeyingMaterial" where
  "KeyingFromHbhKeyDownlink hbhKey =
     bindE (DeriveHbhSrtpKeyDownlink hbhKey) (\<lambda>k. Inr (keyingFromCryptoKey k))"

section \<open>AES-ICM\<close>

definition aesICMKey30 :: "bytes \<Rightarrow> bytes \<Rightarrow> bytes" where
  "aesICMKey30 aesKey salt = take 16 aesKey @ take 14 salt"

text \<open>The counter step of the loop: byte 15, with a single carry into byte 14.\<close>

definition icm_inc :: "bytes \<Rightarrow> bytes" where
  "icm_inc counter =
     (let counter = counter[15 := counter ! 15 + 1]
      in if counter ! 15 = 0 then counter[14 := counter ! 14 + 1] else counter)"

definition aesICMCrypt :: "bytes \<Rightarrow> bytes \<Rightarrow> bytes \<Rightarrow> srtp_error + bytes" where
  "aesICMCrypt key30 iv16 d =
     (let aesKey = take 16 key30;
          salt = slice 16 30 key30;
          counter = salt @ [0, 0];
          counter = map (\<lambda>i. counter ! i XOR iv16 ! i) [0..<16]
      in bindE (aes_NewCipher aesKey) (\<lambda>block.
           Inr (stream_crypt (aes_encrypt_block block) icm_inc counter d)))"

definition deriveSessionBytes :: "bytes \<Rightarrow> bytes \<Rightarrow> byte \<Rightarrow> nat \<Rightarrow> srtp_error + bytes" where
  "deriveSessionBytes masterKey masterSalt label len =
     aesICMCrypt (aesICMKey30 masterKey masterSalt) ((replicate 16 0)[7 := label]) (replicate len 0)"

definition ExpandLibsrtpSessionKeys :: "SrtpKeyingMaterial \<Rightarrow> srtp_error + LibsrtpSessionKeys" where
  "ExpandLibsrtpSessionKeys keying =
     bindE (deriveSessionBytes (MasterKey keying) (MasterSalt keying) labelRTPEncryption 16) (\<lambda>sessionKey.
     bindE (deriveSessionBytes (MasterKey keying) (MasterSalt keying) labelRTPSalt 14) (\<lambda>sessionSalt.
     bindE (deriveSessionBytes (MasterKey keying) (MasterSalt keying) labelRTPAuth 20) (\<lambda>authKey.
       Inr \<lparr>SessionKey = sessionKey, SessionSalt = sessionSalt, SessAuthKey = authKey\<rparr>)))"

definition BuildRtpICMNonce :: "u32 \<Rightarrow> u64 \<Rightarrow> bytes" where
  "BuildRtpICMNonce ssrc packetIndex = replicate 4 0 @ be32 ssrc @ be64 (push_bit 16 packetIndex)"

definition CryptRtpPayload :: "LibsrtpSessionKeys \<Rightarrow> u32 \<Rightarrow> u64 \<Rightarrow> bytes \<Rightarrow> srtp_error + bytes" where
  "CryptRtpPayload session ssrc packetIndex payload =
     aesICMCrypt (aesICMKey30 (SessionKey session) (SessionSalt session)) (BuildRtpICMNonce ssrc packetIndex) payload"

section \<open>WARP\<close>

definition WarpExtProfile :: u16 where "WarpExtProfile = 0xdebe"
definition WarpMITagLen :: nat where "WarpMITagLen = 4"
definition WarpPiggybackStartPacket :: int where "WarpPiggybackStartPacket = 2"
definition WarpAudioPiggybackExt :: bytes where "WarpAudioPiggybackExt = [0x30, 0x01, 0x00, 0x00]"

definition AudioPiggybackExtensionFor :: "int \<Rightarrow> bool \<Rightarrow> int \<Rightarrow> u32 option" where
  "AudioPiggybackExtensionFor packetIndex enabled startPacket =
     (if \<not> enabled \<or> packetIndex < startPacket then None
      else Some (uint32_be WarpAudioPiggybackExt))"

text \<open>The tag length is a length of at most 20 here; the verifier checks the one it is given.\<close>

definition ComputeWarpMITag :: "bytes \<Rightarrow> bytes \<Rightarrow> u32 \<Rightarrow> nat \<Rightarrow> bytes" where
  "ComputeWarpMITag authKey packetWithoutTag r tagLen =
     take tagLen (hmac sha1 authKey (packetWithoutTag @ be32 r))"

definition AppendWarpMITag :: "bytes \<Rightarrow> bytes \<Rightarrow> u32 \<Rightarrow> nat \<Rightarrow> bytes" where
  "AppendWarpMITag authKey packetWithoutTag r tagLen =
     packetWithoutTag @ ComputeWarpMITag authKey packetWithoutTag r tagLen"

definition VerifyWarpMITag :: "bytes \<Rightarrow> bytes \<Rightarrow> u32 \<Rightarrow> int \<Rightarrow> bytes \<Rightarrow> bool" where
  "VerifyWarpMITag authKey packetWithoutTag r tagLen receivedTag \<longleftrightarrow>
     (if tagLen \<le> 0 \<or> 20 < tagLen \<or> int (length receivedTag) \<noteq> tagLen then False
      else ComputeWarpMITag authKey packetWithoutTag r (nat tagLen) = receivedTag)"

text \<open>
  The verifier accepts the tag the sender appends, for every tag length from 1 to 20, and
  accepts no other tag of that length for the same packet and rollover counter.
\<close>

lemma VerifyWarpMITag_Append:
  assumes "0 < n" "n \<le> 20" "length t = n"
  shows "AppendWarpMITag key p r n = p @ t \<longleftrightarrow> VerifyWarpMITag key p r (int n) t"
  using assms by (auto simp: VerifyWarpMITag_def AppendWarpMITag_def)

section \<open>Sizes\<close>

lemma aesICMCrypt_ok:
  assumes "length key30 = 30"
  shows "aesICMCrypt key30 iv d = Inr (stream_crypt (aes_encrypt_block (take 16 key30)) icm_inc
     (map (\<lambda>i. (slice 16 30 key30 @ [0, 0]) ! i XOR iv ! i) [0..<16]) d)"
  using assms by (simp add: aesICMCrypt_def aes_NewCipher_def Let_def)

lemma length_aesICMKey30: "length k = 16 \<Longrightarrow> length s = 14 \<Longrightarrow> length (aesICMKey30 k s) = 30"
  by (simp add: aesICMKey30_def)

definition wf_session :: "LibsrtpSessionKeys \<Rightarrow> bool" where
  "wf_session s \<longleftrightarrow> length (SessionKey s) = 16 \<and> length (SessionSalt s) = 14 \<and> length (SessAuthKey s) = 20"

text \<open>
  From a 30-byte relay key the uplink and the downlink schedules always produce session
  keys of the right sizes, and payload encryption under them is total, keeps the length and
  undoes itself; any other key length is the documented error.
\<close>

lemma hbh_session_total:
  "if length hbhKey = 30
   then \<exists>m s. KeyingFromHbhKeyUplink hbhKey = Inr m \<and> ExpandLibsrtpSessionKeys m = Inr s \<and> wf_session s \<and>
      (\<forall>ssrc i p. \<exists>c. CryptRtpPayload s ssrc i p = Inr c \<and> length c = length p \<and> CryptRtpPayload s ssrc i c = Inr p)
   else KeyingFromHbhKeyUplink hbhKey = Inl ErrBadHbhKeyLen \<and> KeyingFromHbhKeyDownlink hbhKey = Inl ErrBadHbhKeyLen"
proof (cases "length hbhKey = 30")
  case False
  then show ?thesis
    by (simp add: KeyingFromHbhKeyUplink_def KeyingFromHbhKeyDownlink_def DeriveHbhSrtpKeyUplink_def
        DeriveHbhSrtpKeyDownlink_def deriveHbhSrtpKeyWithLabels_def)
next
  case True
  obtain a where a: "HKDFSHA256 (replicate 32 0) (slice 16 30 hbhKey) (bytes_of_string ''uplink hbh srtcp salt'') 32 = Inr a"
    using HKDFSHA256_obtain [of 32 "replicate 32 0" "slice 16 30 hbhKey"] by auto
  obtain k where k: "HKDFSHA256 a (take 16 hbhKey) (bytes_of_string ''uplink hbh srtcp key'') 30 = Inr k" "length k = 30"
    using HKDFSHA256_obtain [of 30 a "take 16 hbhKey"] by auto
  let ?m = "keyingFromCryptoKey k"
  have m: "KeyingFromHbhKeyUplink hbhKey = Inr ?m" "length (MasterKey ?m) = 16" "length (MasterSalt ?m) = 14"
    using True a k
    by (simp_all add: KeyingFromHbhKeyUplink_def DeriveHbhSrtpKeyUplink_def deriveHbhSrtpKeyWithLabels_def
        liftCrypto_def keyingFromCryptoKey_def Let_def)
  have bytes: "\<exists>out. deriveSessionBytes (MasterKey ?m) (MasterSalt ?m) l n = Inr out \<and> length out = n" for l n
    by (simp add: deriveSessionBytes_def aesICMCrypt_ok length_aesICMKey30 m)
  obtain x y z where "deriveSessionBytes (MasterKey ?m) (MasterSalt ?m) labelRTPEncryption 16 = Inr x \<and> length x = 16"
    "deriveSessionBytes (MasterKey ?m) (MasterSalt ?m) labelRTPSalt 14 = Inr y \<and> length y = 14"
    "deriveSessionBytes (MasterKey ?m) (MasterSalt ?m) labelRTPAuth 20 = Inr z \<and> length z = 20"
    using bytes by meson
  then obtain s where s: "ExpandLibsrtpSessionKeys ?m = Inr s" "wf_session s"
    by (simp add: ExpandLibsrtpSessionKeys_def wf_session_def)
  have "\<exists>c. CryptRtpPayload s ssrc i p = Inr c \<and> length c = length p \<and> CryptRtpPayload s ssrc i c = Inr p" for ssrc i p
    using s(2) by (simp add: CryptRtpPayload_def aesICMCrypt_ok length_aesICMKey30 wf_session_def)
  then show ?thesis using m(1) s True by auto
qed

section \<open>The counter\<close>

lemma byte_wrap: "(b + 1 = 0) = (b = (0xff :: byte))"
  using unat_byte_lt [of b] by (auto simp: word_unat_eq_iff unat_word_ariths mod_Suc)

lemma unat_byte_inc: "b \<noteq> (0xff :: byte) \<Longrightarrow> unat (b + 1) = unat b + 1"
  using unat_byte_lt [of b] by (auto simp: unat_word_ariths word_unat_eq_iff mod_Suc)

lemma icm_inc_pair:
  "length p = 14 \<Longrightarrow> icm_inc (p @ [h, l]) = (if l = 0xff then p @ [h + 1, 0] else p @ [h, l + 1])"
  using byte_wrap [of l] by (auto simp: icm_inc_def nth_append list_update_append)

lemma icm_inc_inc_be:
  assumes "length p = 14" "\<not> (h = 0xff \<and> l = 0xff)"
  shows "icm_inc (p @ [h, l]) = inc_be (p @ [h, l])"
    "\<exists>h' l'. icm_inc (p @ [h, l]) = p @ [h', l'] \<and> 256 * unat h' + unat l' = 256 * unat h + unat l + 1"
  using assms(2) by (auto simp: icm_inc_pair [OF assms(1)] inc_be_def unat_byte_inc)

lemma stream_icm_ctr:
  assumes "length p = 14" "length d \<le> 16 * (65536 - (256 * unat h + unat l))"
  shows "stream_crypt enc icm_inc (p @ [h, l]) d = stream_crypt enc inc_be (p @ [h, l]) d"
  using assms(2)
proof (induction d arbitrary: h l rule: length_induct)
  case (1 d)
  show ?case
  proof (cases "length d \<le> 16")
    case True
    then show ?thesis by (subst (1 2) stream_crypt.simps) (simp add: stream_crypt.simps [of _ _ _ "[]"])
  next
    case False
    have "\<not> (h = 0xff \<and> l = 0xff)" using 1(2) False by auto
    from icm_inc_inc_be [OF assms(1) this] obtain h' l' where
      hl: "icm_inc (p @ [h, l]) = p @ [h', l']" "inc_be (p @ [h, l]) = p @ [h', l']"
      "256 * unat h' + unat l' = 256 * unat h + unat l + 1" by auto
    have "stream_crypt enc icm_inc (p @ [h', l']) (drop 16 d) = stream_crypt enc inc_be (p @ [h', l']) (drop 16 d)"
      using 1 False hl(3) by auto
    then show ?thesis by (subst (1 2) stream_crypt.simps) (simp add: hl)
  qed
qed

lemma be64_shifted: "be64 (push_bit 16 i) = take 6 (be64 (push_bit 16 i)) @ [0, 0]"
proof -
  have "(ucast (drop_bit 8 (push_bit 16 i)) :: byte) = 0" "(ucast (push_bit 16 i :: u64) :: byte) = 0"
    by (auto intro!: bit_word_eqI simp: bit_simps)
  then show ?thesis by (simp add: be64_def)
qed

lemma xor_bytes_append: "length a = length b \<Longrightarrow> xor_bytes (a @ x) (b @ y) = xor_bytes a b @ xor_bytes x y"
  by (simp add: xor_bytes_def)

definition xor_salt :: "bytes \<Rightarrow> u32 \<Rightarrow> u64 \<Rightarrow> bytes" where
  "xor_salt salt ssrc i = xor_bytes salt (take 14 (BuildRtpICMNonce ssrc i))"

lemma icm_counter:
  assumes "length salt = 14"
  shows "map (\<lambda>i. (salt @ [0, 0]) ! i XOR BuildRtpICMNonce ssrc pidx ! i) [0..<16] = xor_salt salt ssrc pidx @ [0, 0]"
    "length (xor_salt salt ssrc pidx) = 14"
proof -
  let ?n = "replicate 4 0 @ be32 ssrc @ take 6 (be64 (push_bit 16 pidx)) :: bytes"
  have n: "BuildRtpICMNonce ssrc pidx = ?n @ [0, 0]"
    unfolding BuildRtpICMNonce_def by (subst be64_shifted) simp
  have l: "length ?n = 14" by simp
  have "map (\<lambda>i. (salt @ [0, 0]) ! i XOR (?n @ [0, 0]) ! i) [0..<16] = xor_bytes (salt @ [0, 0]) (?n @ [0, 0])"
    by (rule nth_equalityI) (simp_all add: assms l xor_bytes_def)
  also have "\<dots> = xor_bytes salt ?n @ [0, 0]"
    using xor_bytes_append [of salt ?n "[0, 0]" "[0, 0]"] assms l by (simp add: xor_bytes_def)
  finally show "map (\<lambda>i. (salt @ [0, 0]) ! i XOR BuildRtpICMNonce ssrc pidx ! i) [0..<16] = xor_salt salt ssrc pidx @ [0, 0]"
    unfolding n xor_salt_def by (simp add: l)
  show "length (xor_salt salt ssrc pidx) = 14" by (simp add: xor_salt_def n assms)
qed

text \<open>
  For payloads of up to one mebibyte, far above any datagram, the two-byte libsrtp counter
  gives exactly the AES-128-CTR encryption with the 128-bit counter: the single carry the
  comment in the code insists on never differs from the full one.
\<close>

lemma CryptRtpPayload_is_ctr:
  assumes "wf_session s" "length p \<le> 1048576"
  shows "CryptRtpPayload s ssrc i p =
    Inr (aes_ctr (SessionKey s) (xor_bytes (SessionSalt s @ [0, 0]) (BuildRtpICMNonce ssrc i)) p)"
proof -
  let ?salt = "SessionSalt s"
  have l: "length (SessionKey s) = 16" "length ?salt = 14" using assms(1) by (simp_all add: wf_session_def)
  have len16: "length (BuildRtpICMNonce ssrc i) = 16" by (simp add: BuildRtpICMNonce_def)
  have key: "take 16 (aesICMKey30 (SessionKey s) ?salt) = SessionKey s" "slice 16 30 (aesICMKey30 (SessionKey s) ?salt) = ?salt"
    using l by (simp_all add: aesICMKey30_def slice_def)
  have ctr: "xor_bytes (?salt @ [0, 0]) (BuildRtpICMNonce ssrc i) = xor_salt ?salt ssrc i @ [0, 0]"
    unfolding icm_counter(1) [OF l(2), symmetric]
    by (rule nth_equalityI) (simp_all add: l len16 xor_bytes_def)
  have "stream_crypt (aes_encrypt_block (SessionKey s)) icm_inc (xor_salt ?salt ssrc i @ [0, 0]) p =
      stream_crypt (aes_encrypt_block (SessionKey s)) inc_be (xor_salt ?salt ssrc i @ [0, 0]) p"
    using stream_icm_ctr [OF icm_counter(2) [OF l(2)], of p 0 0] assms(2) by simp
  then show ?thesis
    unfolding CryptRtpPayload_def aesICMCrypt_ok [OF length_aesICMKey30 [OF l]] key icm_counter(1) [OF l(2)] ctr
    by (simp add: aes_ctr_def)
qed

end
