(* ===== verification/Rtp.thy ===== *)
theory Rtp
  imports Hbh
begin

text \<open>
  RTP framing (\<^verbatim>\<open>wa-core/rtp/rtp.go\<close>): the Opus payload classifiers, the fixed header with
  WhatsApp's extension block, its parsers, and the two send-side sequencers. What is encoded is
  parsed back, the parsers never read past the packet, and each sequencer gives its packets
  exactly the numbers, timestamps, markers and extensions of an index-based specification.
\<close>

section \<open>Payload classes\<close>

definition RtpPayloadTypeOpus :: u8 where "RtpPayloadTypeOpus = 120"
definition RtpPayloadTypeH264 :: u8 where "RtpPayloadTypeH264 = 97"
definition WhatsappRtpExtensionProfile :: u16 where "WhatsappRtpExtensionProfile = 0xdebe"
definition WhatsappRtpHeaderSize :: nat where "WhatsappRtpHeaderSize = 16"
definition WhatsappRtpHeaderDtxSize :: nat where "WhatsappRtpHeaderDtxSize = 20"
definition WhatsappRtpExtensionDtxWord :: u32 where "WhatsappRtpExtensionDtxWord = 0x30010000"
definition rtpVersion :: u8 where "rtpVersion = 2"
definition srtpAuthTagLen :: nat where "srtpAuthTagLen = 10"
definition srtpAuthTagLenShort :: nat where "srtpAuthTagLenShort = 4"

definition OpusPrimingFrame1 :: bytes where
  "OpusPrimingFrame1 = [0x12, 0x36, 0x26, 0x2b, 0x4a, 0xc8, 0x2b, 0x09, 0xc9, 0x1f, 0x34, 0xc2, 0xd6, 0x7a, 0x01,
     0x73, 0x1b, 0x2e]"

definition OpusPrimingFrame2 :: bytes where
  "OpusPrimingFrame2 = [0x90, 0xb8, 0x14, 0x14, 0xc4]"

definition IsWhatsappOpusRtpPayload :: "u8 \<Rightarrow> bool" where
  "IsWhatsappOpusRtpPayload payloadType \<longleftrightarrow> payloadType = RtpPayloadTypeOpus \<or> payloadType = 121"

definition IsOpusDtxPayload :: "bytes \<Rightarrow> bool" where
  "IsOpusDtxPayload payload =
     (if length payload = 0 then False
      else if length payload = 1 then payload ! 0 = 0x10 \<or> payload ! 0 = 0x88 \<or> payload ! 0 = 0x90
      else if 15 < length payload then False
      else
        let b0 = payload ! 0
        in if b0 AND 0xf8 = 0x08 \<or> b0 = 0x0a then True
           else b0 AND 0xf0 = 0x30 \<and> length payload \<le> 6)"

definition IsOpusMlowSpeechPayload :: "bytes \<Rightarrow> bool" where
  "IsOpusMlowSpeechPayload payload =
     (if length payload < 18 then False
      else let b0 = payload ! 0 in b0 AND 0xf8 = 0x48 \<or> b0 AND 0xf8 = 0x50)"

definition IsOpusPrimingPayload :: "bytes \<Rightarrow> bool" where
  "IsOpusPrimingPayload payload \<longleftrightarrow> payload = OpusPrimingFrame1 \<or> payload = OpusPrimingFrame2"

definition EstimateSrtpRtpWireBytes :: "bytes \<Rightarrow> nat" where
  "EstimateSrtpRtpWireBytes opusPayload =
     (let dtx = IsOpusDtxPayload opusPayload;
          headerSize = (if dtx then WhatsappRtpHeaderDtxSize else WhatsappRtpHeaderSize);
          shortTag = (dtx \<and> headerSize = WhatsappRtpHeaderDtxSize \<or>
            \<not> dtx \<and> headerSize = WhatsappRtpHeaderSize \<and> (IsOpusPrimingPayload opusPayload \<or> length opusPayload \<le> 18));
          tagLen = (if shortTag then srtpAuthTagLenShort else srtpAuthTagLen)
      in headerSize + length opusPayload + tagLen)"

section \<open>Headers\<close>

text \<open>The 16-bit signed \<open>ShortOffset\<close> is kept as its bit pattern, which is what the wire carries.\<close>

record VideoRtpExtension =
  MediaFrameInfo :: u8
  FrameNumber :: "u16 option"
  InitialBandwidth :: u16
  ShortOffset :: u16
  TransportSequence :: u16

definition DisplayOrientation :: "VideoRtpExtension \<Rightarrow> nat" where
  "DisplayOrientation e = unat (MediaFrameInfo e AND 0x03)"

text \<open>The loop that appends zero bytes up to a multiple of four is written as its result.\<close>

definition pad_words :: "bytes \<Rightarrow> bytes" where
  "pad_words ext = ext @ replicate ((4 - length ext mod 4) mod 4) 0"

definition encode_video :: "VideoRtpExtension \<Rightarrow> bytes" where
  "encode_video e =
     (let frameInfoLength = (if FrameNumber e \<noteq> None then 3 else 1)
      in pad_words ([0x30 OR word_of_nat (frameInfoLength - 1), MediaFrameInfo e] @
           (case FrameNumber e of None \<Rightarrow> [] | Some n \<Rightarrow> be16 n) @
           [0x51] @ be16 (InitialBandwidth e) @ [0x61] @ be16 (ShortOffset e) @ [0x91] @ be16 (TransportSequence e)))"

record RtpHeader =
  Marker :: bool
  PayloadType :: u8
  SequenceNumber :: u16
  Timestamp :: u32
  Ssrc :: u32
  ExtensionWord :: "u32 option"
  VideoExtension :: "VideoRtpExtension option"

definition ByteSize :: "RtpHeader \<Rightarrow> nat" where
  "ByteSize h =
     (case VideoExtension h of
        Some v \<Rightarrow> WhatsappRtpHeaderSize + length (encode_video v)
      | None \<Rightarrow> if ExtensionWord h \<noteq> None then WhatsappRtpHeaderDtxSize else WhatsappRtpHeaderSize)"

definition RtpHeaderByteLength :: "bytes \<Rightarrow> nat option" where
  "RtpHeaderByteLength d =
     (if length d < 12 then None
      else if drop_bit 6 (d ! 0) AND 0x03 \<noteq> rtpVersion then None
      else
        let cc = unat (d ! 0 AND 0x0f);
            headerLen = 12 + cc * 4
        in if length d < headerLen then None
           else if drop_bit 4 (d ! 0) AND 1 = 1 then
             (if length d < headerLen + 4 then None
              else
                let extWords = push_bit 8 (unat (d ! (headerLen + 2))) OR unat (d ! (headerLen + 3));
                    headerLen = headerLen + (4 + extWords * 4)
                in if length d < headerLen then None else Some headerLen)
           else Some headerLen)"

definition RtpExtensionProfileAndData :: "bytes \<Rightarrow> (u16 \<times> bytes) option" where
  "RtpExtensionProfileAndData d =
     (if length d < 12 \<or> drop_bit 6 (d ! 0) AND 0x03 \<noteq> rtpVersion then None
      else
        let extensionOffset = 12 + unat (d ! 0 AND 0x0f) * 4
        in if length d < extensionOffset \<or> d ! 0 AND 0x10 = 0 then None
           else if length d < extensionOffset + 4 then None
           else
             let words = unat (uint16_be (slice (extensionOffset + 2) (extensionOffset + 4) d));
                 dataStart = extensionOffset + 4;
                 dataEnd = dataStart + words * 4
             in if length d < dataEnd then None
                else Some (uint16_be (slice extensionOffset (extensionOffset + 2) d), slice dataStart dataEnd d))"

text \<open>The element under way with \<open>hasFrameInfo\<close> and \<open>hasShortOffset\<close>; one case of the switch, then the loop.\<close>

type_synonym video_parse = "VideoRtpExtension \<times> bool \<times> bool"

fun video_field :: "u8 \<Rightarrow> bytes \<Rightarrow> video_parse \<Rightarrow> video_parse option" where
  "video_field ident val (parsed, hasFrameInfo, hasShortOffset) =
     (if ident = 3 then
        (if length val \<noteq> 1 \<and> length val \<noteq> 3 then None
         else Some (parsed\<lparr>MediaFrameInfo := val ! 0,
                FrameNumber := (if length val = 3 then Some (uint16_be (slice 1 3 val)) else FrameNumber parsed)\<rparr>,
              True, hasShortOffset))
      else if ident = 5 then
        (if length val \<noteq> 2 then None
         else Some (parsed\<lparr>InitialBandwidth := uint16_be val\<rparr>, hasFrameInfo, hasShortOffset))
      else if ident = 6 then
        (if length val \<noteq> 2 then None
         else Some (parsed\<lparr>ShortOffset := uint16_be val\<rparr>, hasFrameInfo, True))
      else if ident = 9 then
        (if length val \<noteq> 2 then None
         else Some (parsed\<lparr>TransportSequence := uint16_be val\<rparr>, hasFrameInfo, hasShortOffset))
      else Some (parsed, hasFrameInfo, hasShortOffset))"

function parse_video_loop :: "bytes \<Rightarrow> video_parse \<Rightarrow> video_parse option" where
  "parse_video_loop [] st = Some st"
| "parse_video_loop (header # ext) st =
     (if header = 0 then parse_video_loop ext st
      else
        let ident = drop_bit 4 header;
            len = unat (header AND 0x0f) + 1
        in if ident = 15 \<or> length ext < len then None
           else case video_field ident (take len ext) st of
                  None \<Rightarrow> None
                | Some st \<Rightarrow> parse_video_loop (drop len ext) st)"
  by pat_completeness auto
termination by (relation "measure (\<lambda>(ext, _). length ext)") auto

definition empty_video :: VideoRtpExtension where
  "empty_video = \<lparr>MediaFrameInfo = 0, FrameNumber = None, InitialBandwidth = 0, ShortOffset = 0, TransportSequence = 0\<rparr>"

definition ParseWhatsappVideoExtension :: "bytes \<Rightarrow> VideoRtpExtension option" where
  "ParseWhatsappVideoExtension d =
     (case RtpExtensionProfileAndData d of
        None \<Rightarrow> None
      | Some (profile, ext) \<Rightarrow>
          if profile \<noteq> WhatsappRtpExtensionProfile then None
          else case parse_video_loop ext (empty_video, False, False) of
                 None \<Rightarrow> None
               | Some (parsed, hasFrameInfo, hasShortOffset) \<Rightarrow>
                   if \<not> hasFrameInfo \<or> \<not> hasShortOffset then None else Some parsed)"

definition IsRtpVersion2 :: "bytes \<Rightarrow> bool" where
  "IsRtpVersion2 d \<longleftrightarrow> 12 \<le> length d \<and> drop_bit 6 (d ! 0) AND 0x03 = rtpVersion"

definition ParseRtpHeader :: "bytes \<Rightarrow> RtpHeader option" where
  "ParseRtpHeader d =
     (case RtpHeaderByteLength d of
        None \<Rightarrow> None
      | Some _ \<Rightarrow>
          Some \<lparr>Marker = (drop_bit 7 (d ! 1) AND 1 = 1), PayloadType = d ! 1 AND 0x7f,
            SequenceNumber = push_bit 8 (ucast (d ! 2)) OR ucast (d ! 3),
            Timestamp = uint32_be (slice 4 8 d), Ssrc = uint32_be (slice 8 12 d),
            ExtensionWord = None, VideoExtension = ParseWhatsappVideoExtension d\<rparr>)"

definition EncodeRtpHeader :: "RtpHeader \<Rightarrow> bytes" where
  "EncodeRtpHeader header =
     (let size' = ByteSize header;
          b0 = push_bit 6 rtpVersion;
          b0 = (if 12 < size' then b0 OR 0x10 else b0);
          b1 = PayloadType header AND 0x7f;
          b1 = (if Marker header then b1 OR 0x80 else b1);
          videoExtension = (case VideoExtension header of None \<Rightarrow> [] | Some v \<Rightarrow> encode_video v);
          extWords = (if VideoExtension header \<noteq> None then word_of_nat (length videoExtension div 4)
                      else if ExtensionWord header \<noteq> None then 1 else 0)
      in [b0, b1, ucast (drop_bit 8 (SequenceNumber header)), ucast (SequenceNumber header)] @
         be32 (Timestamp header) @ be32 (Ssrc header) @
         (if 16 \<le> size' then be16 WhatsappRtpExtensionProfile @ be16 extWords else []) @
         (if VideoExtension header \<noteq> None then videoExtension
          else case ExtensionWord header of
                 Some w \<Rightarrow> if 20 \<le> size' then be32 w else []
               | None \<Rightarrow> []))"

section \<open>Sequencers\<close>

record RtpStream =
  stream_ssrc :: u32
  stream_seq :: u16
  stream_timestamp :: u32
  samplesPerPacket :: u32
  speechStarted :: bool
  audioPacketIndex :: int
  warpPiggyback :: bool

definition NewRtpStream :: "u32 \<Rightarrow> u32 \<Rightarrow> bool \<Rightarrow> RtpStream" where
  "NewRtpStream ssrc samples piggyback =
     \<lparr>stream_ssrc = ssrc, stream_seq = 1, stream_timestamp = 0, samplesPerPacket = samples,
      speechStarted = False, audioPacketIndex = 0, warpPiggyback = piggyback\<rparr>"

definition resolveWarpExtension :: "bool \<Rightarrow> RtpStream \<Rightarrow> u32 option \<times> RtpStream" where
  "resolveWarpExtension dtx s =
     (if dtx then (Some WhatsappRtpExtensionDtxWord, s)
      else if \<not> warpPiggyback s then (None, s)
      else
        let idx = audioPacketIndex s
        in (AudioPiggybackExtensionFor idx True WarpPiggybackStartPacket, s\<lparr>audioPacketIndex := idx + 1\<rparr>))"

definition NextPacket :: "bytes \<Rightarrow> bool \<Rightarrow> RtpStream \<Rightarrow> RtpHeader \<times> RtpStream" where
  "NextPacket payload marker s =
     (let dtx = IsOpusDtxPayload payload;
          priming = IsOpusPrimingPayload payload;
          speech = (\<not> dtx \<and> \<not> priming);
          useMarker = (marker \<or> speech \<and> \<not> speechStarted s);
          s = (if speech then s\<lparr>speechStarted := True\<rparr> else s);
          (word, s') = resolveWarpExtension dtx s;
          header = \<lparr>Marker = useMarker, PayloadType = RtpPayloadTypeOpus, SequenceNumber = stream_seq s,
            Timestamp = stream_timestamp s, Ssrc = stream_ssrc s, ExtensionWord = word, VideoExtension = None\<rparr>
      in (header, s'\<lparr>stream_seq := stream_seq s' + 1, stream_timestamp := stream_timestamp s' + samplesPerPacket s'\<rparr>))"

definition NextPreSpeechPacket :: "RtpStream \<Rightarrow> RtpHeader \<times> RtpStream" where
  "NextPreSpeechPacket s =
     (let (word, s') = resolveWarpExtension False s;
          header = \<lparr>Marker = False, PayloadType = RtpPayloadTypeOpus, SequenceNumber = stream_seq s,
            Timestamp = stream_timestamp s, Ssrc = stream_ssrc s, ExtensionWord = word, VideoExtension = None\<rparr>
      in (header, s'\<lparr>stream_seq := stream_seq s' + 1, stream_timestamp := stream_timestamp s' + samplesPerPacket s'\<rparr>))"

record VideoRtpStream =
  video_ssrc :: u32
  video_seq :: u16
  video_timestamp :: u32
  lastSentTimestamp :: u32
  sent :: bool
  tsStride :: u32
  transportSequence :: u16
  frameNumber :: u16
  firstPacket :: bool

definition NewVideoRtpStream :: "u32 \<Rightarrow> u32 \<Rightarrow> VideoRtpStream" where
  "NewVideoRtpStream ssrc stride =
     \<lparr>video_ssrc = ssrc, video_seq = 1, video_timestamp = 0, lastSentTimestamp = 0, sent = False,
      tsStride = stride, transportSequence = 0, frameNumber = 1, firstPacket = True\<rparr>"

definition RtpTimestamp :: "VideoRtpStream \<Rightarrow> u32" where
  "RtpTimestamp s = (if sent s then lastSentTimestamp s else video_timestamp s)"

definition SetTimestampStride :: "u32 \<Rightarrow> VideoRtpStream \<Rightarrow> bool \<times> VideoRtpStream" where
  "SetTimestampStride stride s = (if stride = 0 then (False, s) else (True, s\<lparr>tsStride := stride\<rparr>))"

definition NextVideoPacket :: "bool \<Rightarrow> u8 \<Rightarrow> VideoRtpStream \<Rightarrow> RtpHeader \<times> VideoRtpStream" where
  "NextVideoPacket lastInAccessUnit mediaFrameInfo s =
     (let ext = \<lparr>MediaFrameInfo = mediaFrameInfo,
            FrameNumber = (if firstPacket s then Some (frameNumber s) else None),
            InitialBandwidth = 0, ShortOffset = 0, TransportSequence = transportSequence s\<rparr>;
          header = \<lparr>Marker = lastInAccessUnit, PayloadType = RtpPayloadTypeH264, SequenceNumber = video_seq s,
            Timestamp = video_timestamp s, Ssrc = video_ssrc s, ExtensionWord = None, VideoExtension = Some ext\<rparr>;
          s = s\<lparr>lastSentTimestamp := Timestamp header, sent := True, video_seq := video_seq s + 1,
                transportSequence := transportSequence s + 1\<rparr>;
          s = (if lastInAccessUnit
               then s\<lparr>video_timestamp := video_timestamp s + tsStride s, frameNumber := frameNumber s + 1, firstPacket := True\<rparr>
               else s\<lparr>firstPacket := False\<rparr>)
      in (header, s))"

section \<open>Encoding and parsing\<close>

lemma length_encode_video: "length (encode_video e) = (if FrameNumber e = None then 12 else 16)"
  by (auto simp: encode_video_def pad_words_def)

lemma parse_video_zeros [simp]: "parse_video_loop (replicate n 0) st = Some st"
  by (induction n) simp_all

lemma parse_encode_video: "parse_video_loop (encode_video e) (empty_video, False, False) = Some (e, True, True)"
  by (cases "FrameNumber e"; cases e)
    (simp_all add: encode_video_def pad_words_def be16_def empty_video_def Let_def slice_def be16_join)

text \<open>Both required fields take five bytes, so a lone extension word is never a video extension.\<close>

lemma video_field_flags:
  assumes "video_field i v (e, fi, so) = Some (e', fi', so')"
  shows "(fi' \<longrightarrow> fi \<or> (1 \<le> length v \<and> so' = so)) \<and> (so' \<longrightarrow> so \<or> (length v = 2 \<and> fi' = fi))"
  using assms by (auto split: if_splits)

lemma parse_video_bytes:
  assumes "parse_video_loop ext (e, fi, so) = Some (e', True, True)"
  shows "(if fi then 0 else 2) + (if so then 0 else 3) \<le> length ext"
  using assms
proof (induction ext "(e, fi, so)" arbitrary: e fi so rule: parse_video_loop.induct)
  case (2 header ext)
  show ?case
  proof (cases "header = 0")
    case True
    with 2 show ?thesis by fastforce
  next
    case False
    let ?len = "unat (header AND 0x0f) + 1"
    from 2(3) False obtain e1 fi1 so1 where
      f: "\<not> (drop_bit 4 header = 15 \<or> length ext < ?len)"
      "video_field (drop_bit 4 header) (take ?len ext) (e, fi, so) = Some (e1, fi1, so1)"
      "parse_video_loop (drop ?len ext) (e1, fi1, so1) = Some (e', True, True)"
      by (auto simp: Let_def split: if_splits option.splits)
    from 2(2) [OF False refl refl f(1) f(2) f(3)]
    have "(if fi1 then 0 else 2) + (if so1 then 0 else 3) + ?len \<le> length ext" using f(1) by (auto split: if_splits)
    moreover have "length (take ?len ext) = ?len" using f(1) by simp
    ultimately show ?thesis using video_field_flags [OF f(2)] by (auto split: if_splits)
  qed
qed simp

definition header_ext :: "RtpHeader \<Rightarrow> bytes" where
  "header_ext h = (case VideoExtension h of
     Some v \<Rightarrow> encode_video v
   | None \<Rightarrow> case ExtensionWord h of Some w \<Rightarrow> be32 w | None \<Rightarrow> [])"

lemma ByteSize_ext: "ByteSize h = 16 + length (header_ext h)"
  by (auto simp: ByteSize_def header_ext_def WhatsappRtpHeaderSize_def WhatsappRtpHeaderDtxSize_def split: option.split)

lemma header_ext_words: "length (header_ext h) \<in> {0, 4, 12, 16}"
  by (auto simp: header_ext_def length_encode_video split: option.split)

definition type_byte :: "RtpHeader \<Rightarrow> byte" where
  "type_byte h = (if Marker h then (PayloadType h AND 0x7f) OR 0x80 else PayloadType h AND 0x7f)"

lemma EncodeRtpHeader_shape:
  "EncodeRtpHeader h = 0x90 # type_byte h # ucast (drop_bit 8 (SequenceNumber h)) # ucast (SequenceNumber h) #
     be32 (Timestamp h) @ be32 (Ssrc h) @ be16 WhatsappRtpExtensionProfile @
     be16 (word_of_nat (length (header_ext h) div 4)) @ header_ext h"
proof -
  have "20 \<le> ByteSize h" if "VideoExtension h = None" "ExtensionWord h = Some w" for w
    using that by (simp add: ByteSize_def WhatsappRtpHeaderDtxSize_def)
  moreover have "16 \<le> ByteSize h" by (simp add: ByteSize_ext)
  ultimately show ?thesis
    by (auto simp: EncodeRtpHeader_def Let_def header_ext_def type_byte_def rtpVersion_def split: option.split)
qed

lemma encoded_extension:
  "RtpExtensionProfileAndData (EncodeRtpHeader h @ p) = Some (WhatsappRtpExtensionProfile, header_ext h)"
  "RtpHeaderByteLength (EncodeRtpHeader h @ p) = Some (ByteSize h)"
proof -
  let ?w = "word_of_nat (length (header_ext h) div 4) :: u16"
  have w: "unat ?w * 4 = length (header_ext h)" using header_ext_words [of h] by auto
  then have w': "unat (uint16_be (be16 ?w)) * 4 = length (header_ext h)" by simp
  have j: "push_bit 8 (unat (be16 ?w ! 0)) OR unat (be16 ?w ! 1) = unat ?w"
    using header_ext_words [of h] by (auto simp: be16_def)
  show "RtpExtensionProfileAndData (EncodeRtpHeader h @ p) = Some (WhatsappRtpExtensionProfile, header_ext h)"
    using w' unfolding EncodeRtpHeader_shape
    by (simp add: RtpExtensionProfileAndData_def Let_def rtpVersion_def slice_def)
  show "RtpHeaderByteLength (EncodeRtpHeader h @ p) = Some (ByteSize h)"
    using w j unfolding EncodeRtpHeader_shape ByteSize_ext
    by (simp add: RtpHeaderByteLength_def Let_def rtpVersion_def slice_def nth_append)
qed

lemma no_video_in_word: "ParseWhatsappVideoExtension (EncodeRtpHeader h @ p) = VideoExtension h"
proof (cases "VideoExtension h")
  case (Some v)
  then show ?thesis
    using parse_encode_video [of v] by (simp add: ParseWhatsappVideoExtension_def encoded_extension header_ext_def)
next
  case None
  then have "length (header_ext h) \<le> 4" by (simp add: header_ext_def split: option.split)
  then have "parse_video_loop (header_ext h) (empty_video, False, False) \<noteq> Some (e, True, True)" for e
    using parse_video_bytes [of "header_ext h" empty_video False False e] by auto
  with None show ?thesis
    by (auto simp: ParseWhatsappVideoExtension_def encoded_extension split: option.split)
qed

lemma type_byte_facts: "type_byte h AND 0x7f = PayloadType h AND 0x7f" "drop_bit 7 (type_byte h) AND 1 = 1 \<longleftrightarrow> Marker h"
proof -
  show "type_byte h AND 0x7f = PayloadType h AND 0x7f"
    by (simp add: type_byte_def bit.conj_disj_distrib2 and.assoc)
  have "drop_bit 7 (x AND 0x7f) AND 1 = (0 :: byte)" for x :: byte
    by (simp add: drop_bit_and)
  then show "drop_bit 7 (type_byte h) AND 1 = 1 \<longleftrightarrow> Marker h"
    by (simp add: type_byte_def drop_bit_or bit.conj_disj_distrib2)
qed

lemma payload_type_7bit: "(t :: byte) < 128 \<Longrightarrow> t AND 0x7f = t"
proof -
  assume "t < 128"
  then have "take_bit 7 t = t" 
    by (simp add: word_unat_eq_iff unsigned_take_bit_eq take_bit_eq_mod unat_mod word_less_nat_alt)
  then show ?thesis by (simp add: take_bit_eq_mask mask_eq_exp_minus_1)
qed

lemma encoded_header_any:
  "ParseRtpHeader (EncodeRtpHeader h @ p) = Some (h\<lparr>PayloadType := PayloadType h AND 0x7f, ExtensionWord := None\<rparr>) \<and>
    RtpHeaderByteLength (EncodeRtpHeader h @ p) = Some (length (EncodeRtpHeader h)) \<and>
    length (EncodeRtpHeader h) = ByteSize h"
proof (intro conjI)
  show len: "length (EncodeRtpHeader h) = ByteSize h" by (simp add: EncodeRtpHeader_shape ByteSize_ext)
  show "RtpHeaderByteLength (EncodeRtpHeader h @ p) = Some (length (EncodeRtpHeader h))"
    by (simp add: encoded_extension len)
  have "slice 4 8 (EncodeRtpHeader h @ p) = be32 (Timestamp h)" "slice 8 12 (EncodeRtpHeader h @ p) = be32 (Ssrc h)"
    by (simp_all add: EncodeRtpHeader_shape slice_def)
  moreover have "(EncodeRtpHeader h @ p) ! 1 = type_byte h"
    "(EncodeRtpHeader h @ p) ! 2 = ucast (drop_bit 8 (SequenceNumber h))"
    "(EncodeRtpHeader h @ p) ! 3 = ucast (SequenceNumber h)"
    by (simp_all add: EncodeRtpHeader_shape)
  ultimately have "ParseRtpHeader (EncodeRtpHeader h @ p) =
      Some \<lparr>Marker = Marker h, PayloadType = PayloadType h AND 0x7f, SequenceNumber = SequenceNumber h, Timestamp = Timestamp h,
        Ssrc = Ssrc h, ExtensionWord = None, VideoExtension = VideoExtension h\<rparr>"
    unfolding ParseRtpHeader_def encoded_extension no_video_in_word
    by (simp only: type_byte_facts be16_join uint32_be_be32' option.case)
  then show "ParseRtpHeader (EncodeRtpHeader h @ p) = Some (h\<lparr>PayloadType := PayloadType h AND 0x7f, ExtensionWord := None\<rparr>)"
    by (cases h) simp
qed

lemma encoded_header_parses:
  assumes "PayloadType h < 128"
  shows "ParseRtpHeader (EncodeRtpHeader h @ p) = Some (h\<lparr>ExtensionWord := None\<rparr>) \<and>
    RtpHeaderByteLength (EncodeRtpHeader h @ p) = Some (length (EncodeRtpHeader h)) \<and>
    length (EncodeRtpHeader h) = ByteSize h"
proof -
  have "h\<lparr>PayloadType := PayloadType h AND 0x7f, ExtensionWord := None\<rparr> = h\<lparr>ExtensionWord := None\<rparr>"
    using payload_type_7bit [OF assms] by (cases h) simp
  with encoded_header_any [of h p] show ?thesis by simp
qed

text \<open>
  C37: an encoded header followed by any payload is parsed back with its marker, sequence number, timestamp, SSRC, the low
  seven bits of its payload type and the whole video extension, and the payload is found right behind it. The audio extension
  word is not part of the parsed header: it is never mistaken for a video extension, and is read back as the extension data.
\<close>

theorem ParseRtpHeader_Encode:
  "ParseRtpHeader (EncodeRtpHeader h @ p) = Some (h\<lparr>PayloadType := PayloadType h AND 0x7f, ExtensionWord := None\<rparr>) \<and>
   RtpHeaderByteLength (EncodeRtpHeader h @ p) = Some (length (EncodeRtpHeader h)) \<and>
   length (EncodeRtpHeader h) = ByteSize h \<and>
   RtpExtensionProfileAndData (EncodeRtpHeader h @ p) = Some (WhatsappRtpExtensionProfile,
     case VideoExtension h of Some v \<Rightarrow> encode_video v | None \<Rightarrow> (case ExtensionWord h of Some w \<Rightarrow> be32 w | None \<Rightarrow> []))"
  using encoded_header_any [of h p] encoded_extension(1) [of h p] unfolding header_ext_def by blast

lemma extension_bit: "drop_bit 4 b AND 1 = 1 \<longleftrightarrow> b AND 0x10 \<noteq> 0" for b :: byte
  using and_exp_eq_0_iff_not_bit [of b 4]
  by (simp add: bit_iff_odd_drop_bit and_one_eq odd_iff_mod_2_eq_one)

text \<open>
  On arbitrary bytes the header length lies between 12 and the length of the packet, and it
  is found exactly when the header parses; an extension is reported only inside that length, its
  data ending where the header ends.
\<close>

lemma RtpHeaderByteLength_bounds:
  "case RtpHeaderByteLength d of
     None \<Rightarrow> ParseRtpHeader d = None \<and> RtpExtensionProfileAndData d = None
   | Some n \<Rightarrow> 12 \<le> n \<and> n \<le> length d \<and> ParseRtpHeader d \<noteq> None \<and>
       (case RtpExtensionProfileAndData d of
          None \<Rightarrow> n = 12 + unat (d ! 0 AND 0x0f) * 4
        | Some (profile, ext) \<Rightarrow> drop (n - length ext) (take n d) = ext \<and> 4 dvd length ext)"
proof -
  define a where a: "a = 12 + unat (d ! 0 AND 0x0f) * 4"
  have w: "unat (uint16_be (slice (a + 2) (a + 4) d)) = push_bit 8 (unat (d ! (a + 2))) OR unat (d ! (a + 3))"
    if "\<not> length d < a + 4"
  proof -
    have e: "a + 4 = a + 2 + 2" "a + 3 = a + 2 + 1" by simp_all
    show ?thesis unfolding e using that by (subst slice_two) (simp, rule unat_uint16_or)
  qed
  have le: "12 \<le> a" by (simp add: a)
  show ?thesis
  proof (cases "length d < a + 4")
    case True
    with le show ?thesis
      unfolding RtpHeaderByteLength_def RtpExtensionProfileAndData_def ParseRtpHeader_def Let_def a [symmetric]
      by (auto simp: extension_bit)
  next
    case False
    define n where n: "n = unat (uint16_be (slice (a + 2) (a + 4) d))"
    show ?thesis
      using False le
      unfolding RtpHeaderByteLength_def RtpExtensionProfileAndData_def ParseRtpHeader_def Let_def a [symmetric]
        w [OF False, symmetric] n [symmetric]
      by (auto simp: extension_bit slice_def drop_take)
  qed
qed

section \<open>What the sequencers promise\<close>

datatype audio_send = Speech bytes bool | PreSpeech

fun send_audio :: "audio_send \<Rightarrow> RtpStream \<Rightarrow> RtpHeader \<times> RtpStream" where
  "send_audio (Speech payload marker) s = NextPacket payload marker s"
| "send_audio PreSpeech s = NextPreSpeechPacket s"

fun run_audio :: "audio_send list \<Rightarrow> RtpStream \<Rightarrow> RtpHeader list" where
  "run_audio [] s = []"
| "run_audio (x # xs) s = (let (h, s) = send_audio x s in h # run_audio xs s)"

fun is_dtx :: "audio_send \<Rightarrow> bool" where
  "is_dtx (Speech p m) = IsOpusDtxPayload p"
| "is_dtx PreSpeech = False"

fun is_speech :: "audio_send \<Rightarrow> bool" where
  "is_speech (Speech p m) \<longleftrightarrow> \<not> IsOpusDtxPayload p \<and> \<not> IsOpusPrimingPayload p"
| "is_speech PreSpeech = False"

fun wants_marker :: "audio_send \<Rightarrow> bool" where
  "wants_marker (Speech p m) = m"
| "wants_marker PreSpeech = False"

text \<open>The header of a packet as a function of what was sent before it.\<close>

definition audio_spec :: "u32 \<Rightarrow> u32 \<Rightarrow> bool \<Rightarrow> audio_send list \<Rightarrow> audio_send \<Rightarrow> RtpHeader" where
  "audio_spec ssrc samples piggyback before x =
     \<lparr>Marker = (wants_marker x \<or> is_speech x \<and> \<not> list_ex is_speech before),
      PayloadType = 120, SequenceNumber = word_of_nat (length before + 1),
      Timestamp = word_of_nat (length before) * samples, Ssrc = ssrc,
      ExtensionWord = (if is_dtx x then Some 0x30010000
        else if piggyback \<and> 2 \<le> length (filter (\<lambda>y. \<not> is_dtx y) before) then Some 0x30010000 else None),
      VideoExtension = None\<rparr>"

definition audio_state :: "u32 \<Rightarrow> u32 \<Rightarrow> bool \<Rightarrow> audio_send list \<Rightarrow> RtpStream" where
  "audio_state ssrc samples piggyback before =
     \<lparr>stream_ssrc = ssrc, stream_seq = word_of_nat (length before + 1),
      stream_timestamp = word_of_nat (length before) * samples, samplesPerPacket = samples,
      speechStarted = list_ex is_speech before,
      audioPacketIndex = (if piggyback then int (length (filter (\<lambda>y. \<not> is_dtx y) before)) else 0),
      warpPiggyback = piggyback\<rparr>"

lemma piggyback_word: "uint32_be WarpAudioPiggybackExt = 0x30010000"
  by (simp add: WarpAudioPiggybackExt_def)

lemma send_audio_step:
  "send_audio x (audio_state ssrc n pb before) = (audio_spec ssrc n pb before x, audio_state ssrc n pb (before @ [x]))"
proof (cases x)
  case (Speech p m)
  then show ?thesis
    by (auto simp: NextPacket_def Let_def resolveWarpExtension_def AudioPiggybackExtensionFor_def audio_spec_def
        audio_state_def RtpPayloadTypeOpus_def WhatsappRtpExtensionDtxWord_def WarpPiggybackStartPacket_def piggyback_word
        algebra_simps)
next
  case PreSpeech
  then show ?thesis
    by (auto simp: NextPreSpeechPacket_def Let_def resolveWarpExtension_def AudioPiggybackExtensionFor_def audio_spec_def
        audio_state_def RtpPayloadTypeOpus_def WarpPiggybackStartPacket_def piggyback_word algebra_simps)
qed

text \<open>
  C38: the audio sequencer implements its specification for any mix of speech, comfort-noise,
  priming and pre-speech packets: the k-th packet has sequence number k + 1 and timestamp k times
  the samples per packet, both modulo their width; besides the requested markers exactly the
  first speech frame is marked; comfort noise always carries the extension word, other packets
  from the third such packet on when the piggyback is enabled.
\<close>

theorem run_audio_spec:
  "run_audio xs (NewRtpStream ssrc samples piggyback) =
     map (\<lambda>k. audio_spec ssrc samples piggyback (take k xs) (xs ! k)) [0..<length xs]"
proof -
  have "run_audio xs (audio_state ssrc samples piggyback before) =
      map (\<lambda>k. audio_spec ssrc samples piggyback (before @ take k xs) (xs ! k)) [0..<length xs]" for before
  proof (induction xs arbitrary: before)
    case (Cons x xs)
    show ?case
      by (simp add: send_audio_step Cons.IH upt_conv_Cons map_Suc_upt [symmetric] del: upt_Suc)
  qed simp
  moreover have "NewRtpStream ssrc samples piggyback = audio_state ssrc samples piggyback []"
    by (cases piggyback) (simp_all add: audio_state_def NewRtpStream_def)
  ultimately show ?thesis by simp
qed

text \<open>
  The wire-size estimate is the size of the header the sequencer produces for the payload,
  plus the payload, plus a tag of four or ten bytes, on a stream without piggyback; the short tag
  is used for comfort noise, priming frames and payloads of at most 18 bytes.
\<close>

lemma EstimateSrtpRtpWireBytes_header:
  assumes "\<not> warpPiggyback s"
  shows "EstimateSrtpRtpWireBytes p = length (EncodeRtpHeader (fst (NextPacket p m s))) + length p +
    (if IsOpusDtxPayload p \<or> IsOpusPrimingPayload p \<or> length p \<le> 18 then 4 else 10)"
  using assms
  by (auto simp: EstimateSrtpRtpWireBytes_def NextPacket_def resolveWarpExtension_def Let_def EncodeRtpHeader_shape
      header_ext_def WhatsappRtpHeaderSize_def WhatsappRtpHeaderDtxSize_def srtpAuthTagLen_def srtpAuthTagLenShort_def)

fun run_video :: "(bool \<times> u8) list \<Rightarrow> VideoRtpStream \<Rightarrow> RtpHeader list \<times> VideoRtpStream" where
  "run_video [] s = ([], s)"
| "run_video ((marker, info) # xs) s =
     (let (h, s) = NextVideoPacket marker info s; (hs, s) = run_video xs s in (h # hs, s))"

definition video_spec :: "u32 \<Rightarrow> u32 \<Rightarrow> (bool \<times> u8) list \<Rightarrow> bool \<times> u8 \<Rightarrow> RtpHeader" where
  "video_spec ssrc stride before x =
     (let frames = length (filter fst before)
      in \<lparr>Marker = fst x, PayloadType = 97, SequenceNumber = word_of_nat (length before + 1),
          Timestamp = word_of_nat frames * stride, Ssrc = ssrc, ExtensionWord = None,
          VideoExtension = Some \<lparr>MediaFrameInfo = snd x,
            FrameNumber = (if before = [] \<or> fst (last before) then Some (word_of_nat (frames + 1)) else None),
            InitialBandwidth = 0, ShortOffset = 0, TransportSequence = word_of_nat (length before)\<rparr>\<rparr>)"

definition video_state :: "u32 \<Rightarrow> u32 \<Rightarrow> (bool \<times> u8) list \<Rightarrow> VideoRtpStream" where
  "video_state ssrc stride before =
     (let frames = length (filter fst before)
      in \<lparr>video_ssrc = ssrc, video_seq = word_of_nat (length before + 1), video_timestamp = word_of_nat frames * stride,
          lastSentTimestamp = (if before = [] then 0 else word_of_nat (length (filter fst (butlast before))) * stride),
          sent = (before \<noteq> []), tsStride = stride, transportSequence = word_of_nat (length before),
          frameNumber = word_of_nat (frames + 1), firstPacket = (before = [] \<or> fst (last before))\<rparr>)"

lemma send_video_step:
  "NextVideoPacket (fst x) (snd x) (video_state ssrc stride before) =
     (video_spec ssrc stride before x, video_state ssrc stride (before @ [x]))"
  by (auto simp: NextVideoPacket_def Let_def video_spec_def video_state_def RtpPayloadTypeH264_def algebra_simps)

text \<open>
  The video sequencer implements its specification: consecutive sequence and transport
  numbers, one timestamp per access unit that advances by the stride after each marker, and the
  frame number, counted from 1, on the first packet of each unit only; the timestamp reported
  for sender reports is that of the last packet sent.
\<close>

lemma run_video_spec:
  "fst (run_video xs (NewVideoRtpStream ssrc stride)) =
     map (\<lambda>k. video_spec ssrc stride (take k xs) (xs ! k)) [0..<length xs] \<and>
   RtpTimestamp (snd (run_video xs (NewVideoRtpStream ssrc stride))) =
     (if xs = [] then 0 else Timestamp (last (fst (run_video xs (NewVideoRtpStream ssrc stride)))))"
proof -
  have run: "run_video xs (video_state ssrc stride before) =
      (map (\<lambda>k. video_spec ssrc stride (before @ take k xs) (xs ! k)) [0..<length xs],
       video_state ssrc stride (before @ xs))" for before
  proof (induction xs arbitrary: before)
    case (Cons x xs)
    show ?case
      using send_video_step [of x ssrc stride before]
      by (cases x) (simp add: Cons.IH upt_conv_Cons map_Suc_upt [symmetric] del: upt_Suc)
  qed simp
  have "NewVideoRtpStream ssrc stride = video_state ssrc stride []"
    by (simp add: NewVideoRtpStream_def video_state_def)
  with run [of "[]"] show ?thesis
    by (cases xs rule: rev_cases) (simp_all add: RtpTimestamp_def video_state_def video_spec_def Let_def nth_append)
qed

end
