(* ===== verification/Rtcp.thy ===== *)
theory Rtcp
  imports Prelude
begin

text \<open>
  RTCP (\<^verbatim>\<open>wa-core/rtp/rtcp.go\<close>): the classification of packets, the statistics of one received
  stream with its interval and cumulative loss, the report builders and the two scanners of
  compound packets. The mutex that serialises the methods of the statistics is not modelled: every
  method is one step on the state. The millisecond fraction of an NTP timestamp is computed by the
  source in floating point; the product is exact or at least 1/125 away from an integer while the
  rounding error is below \<open>2^-21\<close>, so the truncation is the integer division used here.
\<close>

section \<open>Packets\<close>

definition RtcpPtSr :: u8 where "RtcpPtSr = 200"
definition RtcpPtSdes :: u8 where "RtcpPtSdes = 202"
definition RtcpPtPsfb :: u8 where "RtcpPtPsfb = 206"
definition RtcpPtWaCompact :: u8 where "RtcpPtWaCompact = 208"
definition RtcpPtWaCompact2 :: u8 where "RtcpPtWaCompact2 = 209"
definition RtcpHeaderLen :: nat where "RtcpHeaderLen = 8"
definition ntpUnixOffsetSecs :: u64 where "ntpUnixOffsetSecs = 2208988800"
definition WhatsappRtcpCnameLen :: nat where "WhatsappRtcpCnameLen = 18"

definition IsRtcpPacket :: "bytes \<Rightarrow> bool" where
  "IsRtcpPacket d =
     (if length d < RtcpHeaderLen then False
      else if drop_bit 6 (d ! 0) AND 0x03 \<noteq> 2 then False
      else 192 \<le> d ! 1 \<and> d ! 1 \<le> 223)"

definition RtcpPayloadType :: "bytes \<Rightarrow> u8 option" where
  "RtcpPayloadType d = (if \<not> IsRtcpPacket d then None else Some (d ! 1))"

definition ParseRtcpSenderSsrc :: "bytes \<Rightarrow> u32 option" where
  "ParseRtcpSenderSsrc d =
     (if length d < 8 \<or> drop_bit 6 (d ! 0) AND 0x03 \<noteq> 2 then None else Some (uint32_be (slice 4 8 d)))"

record RtcpSenderStats =
  PacketsSent :: u32
  OctetsSent :: u32
  SenderRtpTimestamp :: u32

text \<open>The 32-bit \<open>CumulativeLost\<close> is signed; \<open>Report\<close> clamps it to 24 bits.\<close>

record RtcpReceptionReport =
  ReportSsrc :: u32
  FractionLost :: u8
  CumulativeLost :: int
  ExtendedHighestSequence :: u32
  Jitter :: u32
  LastSenderReport :: u32
  DelaySinceLastSenderReport :: u32

section \<open>Statistics of one stream\<close>

record RtcpReceptionStats =
  rs_ssrc :: u32
  hasSsrc :: bool
  baseSequence :: u16
  maxSequence :: u16
  sequenceCycles :: u32
  received :: u32
  expectedPrior :: u32
  receivedPrior :: u32
  rs_transit :: u32
  hasTransit :: bool
  jitterQ4 :: u64
  lastSenderReport :: u32
  lastSenderReportAtMs :: u64
  hasSenderReport :: bool

definition new_stats :: RtcpReceptionStats where
  "new_stats = \<lparr>rs_ssrc = 0, hasSsrc = False, baseSequence = 0, maxSequence = 0, sequenceCycles = 0, received = 0,
     expectedPrior = 0, receivedPrior = 0, rs_transit = 0, hasTransit = False, jitterQ4 = 0, lastSenderReport = 0,
     lastSenderReportAtMs = 0, hasSenderReport = False\<rparr>"

text \<open>The first half of \<open>Observe\<close>, on the sequence state, and the second, on the jitter.\<close>

definition observe_sequence :: "u32 \<Rightarrow> u16 \<Rightarrow> RtcpReceptionStats \<Rightarrow> RtcpReceptionStats" where
  "observe_sequence ssrc sequence s =
     (if \<not> hasSsrc s \<or> rs_ssrc s \<noteq> ssrc then
        s\<lparr>sequenceCycles := 0, expectedPrior := 0, receivedPrior := 0, hasTransit := False, jitterQ4 := 0,
          lastSenderReport := 0, hasSenderReport := False, rs_ssrc := ssrc, hasSsrc := True,
          baseSequence := sequence, maxSequence := sequence, received := 1\<rparr>
      else
        let delta = sequence - maxSequence s;
            s = (if delta \<noteq> 0 \<and> delta < 0x8000
                 then s\<lparr>sequenceCycles := (if sequence < maxSequence s then sequenceCycles s + push_bit 16 1 else sequenceCycles s),
                        maxSequence := sequence\<rparr>
                 else s)
        in s\<lparr>received := received s + 1\<rparr>)"

definition observe_jitter :: "u32 \<Rightarrow> u64 \<Rightarrow> u32 \<Rightarrow> RtcpReceptionStats \<Rightarrow> RtcpReceptionStats" where
  "observe_jitter rtpTimestamp arrivalMs clockRate s =
     (let arrivalRtp = ucast ((arrivalMs * ucast clockRate) div 1000);
          transit = arrivalRtp - rtpTimestamp;
          s = (if hasTransit s then
                 (let delta = sint (transit - rs_transit s);
                      distance = word_of_int (if delta < 0 then - delta else delta);
                      decay = drop_bit 4 (jitterQ4 s + 8);
                      q = jitterQ4 s + distance
                  in s\<lparr>jitterQ4 := (if decay \<le> q then q - decay else 0)\<rparr>)
               else s)
      in s\<lparr>rs_transit := transit, hasTransit := True\<rparr>)"

definition Observe :: "u32 \<Rightarrow> u16 \<Rightarrow> u32 \<Rightarrow> u64 \<Rightarrow> u32 \<Rightarrow> RtcpReceptionStats \<Rightarrow> RtcpReceptionStats" where
  "Observe ssrc sequence rtpTimestamp arrivalMs clockRate s =
     observe_jitter rtpTimestamp arrivalMs clockRate (observe_sequence ssrc sequence s)"

definition ObserveSenderReport :: "u32 \<Rightarrow> u32 \<Rightarrow> u32 \<Rightarrow> u64 \<Rightarrow> RtcpReceptionStats \<Rightarrow> RtcpReceptionStats" where
  "ObserveSenderReport senderSsrc ntpSeconds ntpFraction arrivalMs s =
     (if \<not> hasSsrc s \<or> rs_ssrc s \<noteq> senderSsrc then s
      else s\<lparr>lastSenderReport := push_bit 16 ntpSeconds OR drop_bit 16 ntpFraction,
             lastSenderReportAtMs := arrivalMs, hasSenderReport := True\<rparr>)"

definition Report :: "u64 \<Rightarrow> RtcpReceptionStats \<Rightarrow> RtcpReceptionReport option \<times> RtcpReceptionStats" where
  "Report nowMs s =
     (if \<not> hasSsrc s then (None, s)
      else
        let expected = sequenceCycles s + ucast (maxSequence s) - ucast (baseSequence s) + 1;
            expectedInterval = expected - expectedPrior s;
            receivedInterval = received s - receivedPrior s;
            lostInterval = uint expectedInterval - uint receivedInterval;
            fractionLost = (if expectedInterval \<noteq> 0 \<and> 0 < lostInterval
              then word_of_int (min ((lostInterval * 256) div uint expectedInterval) 255) else 0);
            s = s\<lparr>expectedPrior := expected, receivedPrior := received s\<rparr>;
            cumulativeLost = uint expected - uint (received s);
            cumulativeLost = (if cumulativeLost < - 0x800000 then - 0x800000
              else if 0x7fffff < cumulativeLost then 0x7fffff else cumulativeLost);
            dlsr = (if hasSenderReport s then
                (let elapsed = (if nowMs < lastSenderReportAtMs s then 0 else nowMs - lastSenderReportAtMs s)
                 in ucast (min ((elapsed * 65536) div 1000) 0xffffffff))
              else 0);
            jitter = min (drop_bit 4 (jitterQ4 s)) 0xffffffff
        in (Some \<lparr>ReportSsrc = rs_ssrc s, FractionLost = fractionLost, CumulativeLost = cumulativeLost,
              ExtendedHighestSequence = sequenceCycles s OR ucast (maxSequence s), Jitter = ucast jitter,
              LastSenderReport = lastSenderReport s, DelaySinceLastSenderReport = dlsr\<rparr>, s))"

section \<open>Builders\<close>

function ParseSenderReportTiming :: "bytes \<Rightarrow> (u32 \<times> u32 \<times> u32) option" where
  "ParseSenderReportTiming d =
     (if d = [] then None
      else if length d < 4 then None
      else
        let packetLen = (unat (uint16_be (slice 2 4 d)) + 1) * 4
        in if packetLen < 4 \<or> length d < packetLen then None
           else
             let packet = take packetLen d
             in if packet ! 1 = RtcpPtSr \<and> 28 \<le> length packet
                then Some (uint32_be (slice 4 8 packet), uint32_be (slice 8 12 packet), uint32_be (slice 12 16 packet))
                else ParseSenderReportTiming (drop packetLen d))"
  by pat_completeness auto
termination by (relation "measure length") auto

declare ParseSenderReportTiming.simps [simp del]

definition BuildCompactRtcp208 :: "u32 \<Rightarrow> u32 \<Rightarrow> bytes" where
  "BuildCompactRtcp208 localSsrc remoteSsrc = [0x81, RtcpPtWaCompact, 0, 2] @ be32 localSsrc @ be32 remoteSsrc"

definition BuildCompactRtcp209 :: "u32 \<Rightarrow> bytes" where
  "BuildCompactRtcp209 localSsrc = [0x81, RtcpPtWaCompact2, 0, 1] @ be32 localSsrc"

definition ntp_seconds :: "u64 \<Rightarrow> u32" where
  "ntp_seconds nowMs = ucast (nowMs div 1000 + ntpUnixOffsetSecs)"

definition ntp_fraction :: "u64 \<Rightarrow> u32" where
  "ntp_fraction nowMs = word_of_nat ((unat nowMs mod 1000 * 2 ^ 32) div 1000)"

definition BuildSenderReport :: "u32 \<Rightarrow> RtcpSenderStats \<Rightarrow> u64 \<Rightarrow> bytes" where
  "BuildSenderReport localSsrc stats nowMs =
     [0x80, RtcpPtSr, 0, 6] @ be32 localSsrc @ be32 (ntp_seconds nowMs) @ be32 (ntp_fraction nowMs) @
     be32 (SenderRtpTimestamp stats) @ be32 (PacketsSent stats) @ be32 (OctetsSent stats)"

definition hexChars :: string where "hexChars = ''0123456789abcdef''"

definition random_hex :: "bytes \<Rightarrow> bytes" where
  "random_hex entropy = map (\<lambda>nibble. let b = entropy ! (6 + nibble div 2)
     in byte_of_char (hexChars ! unat (if nibble mod 2 = 0 then drop_bit 4 b else b AND 0x0f))) [0..<11]"

definition BuildWhatsappRtcpCname :: "bytes \<Rightarrow> bytes" where
  "BuildWhatsappRtcpCname entropy =
     (let randomHex = random_hex entropy
      in take 5 randomHex @ bytes_of_string ''@pj'' @ drop 5 randomHex @ bytes_of_string ''.org'')"

definition BuildSourceDescription :: "u32 \<Rightarrow> bytes \<Rightarrow> bool \<Rightarrow> bytes" where
  "BuildSourceDescription localSsrc cname profileExtension =
     [if profileExtension then 0x81 OR 0x10 else 0x81, RtcpPtSdes] @ be16 7 @ be32 localSsrc @
     [1, word_of_nat WhatsappRtcpCnameLen] @ cname @ replicate 4 0"

definition appendReceptionReport :: "bytes \<Rightarrow> RtcpReceptionReport \<Rightarrow> bytes" where
  "appendReceptionReport out report =
     (let lost = word_of_int (CumulativeLost report) :: u32
      in out @ be32 (ReportSsrc report) @ [FractionLost report] @
         [ucast (drop_bit 16 lost), ucast (drop_bit 8 lost), ucast lost] @
         be32 (ExtendedHighestSequence report) @ be32 (Jitter report) @ be32 (LastSenderReport report) @
         be32 (DelaySinceLastSenderReport report))"

text \<open>\<open>PutUint16(out[2:4], \<dots>)\<close>: the length field is written over the finished packet.\<close>

definition put_length :: "bytes \<Rightarrow> bytes" where
  "put_length out = take 2 out @ be16 (word_of_nat (length out div 4 - 1)) @ drop 4 out"

definition BuildSenderReportWithSdesAndReception ::
    "u32 \<Rightarrow> RtcpSenderStats \<Rightarrow> u64 \<Rightarrow> bytes \<Rightarrow> RtcpReceptionReport option \<Rightarrow> bool \<Rightarrow> bytes" where
  "BuildSenderReportWithSdesAndReception localSsrc stats nowMs cname report profileExtension =
     (let sr = BuildSenderReport localSsrc stats nowMs;
          sr = (if profileExtension then sr[0 := sr ! 0 OR 0x10] else sr);
          sdes = BuildSourceDescription localSsrc cname profileExtension;
          out = (case report of
              None \<Rightarrow> sr
            | Some r \<Rightarrow> put_length (appendReceptionReport (sr[0 := sr ! 0 OR 1]) r @ replicate 24 0))
      in out @ sdes)"

definition BuildSenderReportWithSdes :: "u32 \<Rightarrow> RtcpSenderStats \<Rightarrow> u64 \<Rightarrow> bytes \<Rightarrow> bool \<Rightarrow> bytes" where
  "BuildSenderReportWithSdes localSsrc stats nowMs cname profileExtension =
     BuildSenderReportWithSdesAndReception localSsrc stats nowMs cname None profileExtension"

definition buildGroupSenderReportFromSenderSection :: "bytes \<Rightarrow> RtcpReceptionReport option \<Rightarrow> bytes \<Rightarrow> bytes" where
  "buildGroupSenderReportFromSenderSection sender report extension =
     (case report of
        None \<Rightarrow> sender
      | Some r \<Rightarrow>
          put_length (appendReceptionReport (sender[0 := (sender ! 0 AND 0xe0) OR 1]) r @ extension))"

definition BuildGroupSenderReport ::
    "u32 \<Rightarrow> RtcpSenderStats option \<Rightarrow> u64 \<Rightarrow> RtcpReceptionReport option \<Rightarrow> bytes \<Rightarrow> bytes" where
  "BuildGroupSenderReport localSSRC stats nowMs report extension =
     (let stats = (case stats of None \<Rightarrow> \<lparr>PacketsSent = 0, OctetsSent = 0, SenderRtpTimestamp = 0\<rparr> | Some st \<Rightarrow> st)
      in buildGroupSenderReportFromSenderSection (BuildSenderReport localSSRC stats nowMs) report extension)"

definition BuildPictureLossIndication :: "u32 \<Rightarrow> u32 \<Rightarrow> bool \<Rightarrow> bytes" where
  "BuildPictureLossIndication senderSSRC mediaSSRC profileExtension =
     [if profileExtension then 0x81 OR 0x10 else 0x81, RtcpPtPsfb] @ be16 2 @ be32 senderSSRC @ be32 mediaSSRC"

function fir_entry :: "bytes \<Rightarrow> u32 \<Rightarrow> bool" where
  "fir_entry fci ssrc =
     (if length fci < 8 then False else if uint32_be fci = ssrc then True else fir_entry (drop 8 fci) ssrc)"
  by pat_completeness auto
termination by (relation "measure (\<lambda>(fci, _). length fci)") auto

declare fir_entry.simps [simp del]

definition psfb_requests :: "bytes \<Rightarrow> u32 \<Rightarrow> bool" where
  "psfb_requests packet ssrc =
     (if packet ! 1 = RtcpPtPsfb \<and> 12 \<le> length packet then
        let rawFmt = packet ! 0 AND 0x1f;
            fmt = (if rawFmt AND 0x10 \<noteq> 0 then rawFmt AND 0x0f else rawFmt);
            mediaSsrc = uint32_be (slice 8 12 packet)
        in fmt = 1 \<and> mediaSsrc = ssrc \<or> fmt = 4 \<and> (mediaSsrc = ssrc \<or> fir_entry (drop 12 packet) ssrc)
      else False)"

function RtcpRequestsKeyframe :: "bytes \<Rightarrow> u32 \<Rightarrow> bool" where
  "RtcpRequestsKeyframe d ssrc =
     (if length d < 4 then False
      else if drop_bit 6 (d ! 0) AND 0x03 \<noteq> 2 then False
      else
        let packetLen = (unat (uint16_be (slice 2 4 d)) + 1) * 4
        in if packetLen < 8 \<or> length d < packetLen then False
           else if psfb_requests (take packetLen d) ssrc then True
           else RtcpRequestsKeyframe (drop packetLen d) ssrc)"
  by pat_completeness auto
termination by (relation "measure (\<lambda>(d, _). length d)") auto

declare RtcpRequestsKeyframe.simps [simp del]

section \<open>Compound packets\<close>

text \<open>
  One packet of a compound: version 2, at least eight bytes, and the length its header states.
  The two scanners go through a compound packet by packet; the interface is what they share.
\<close>

definition rtcp_packet :: "bytes \<Rightarrow> bool" where
  "rtcp_packet p \<longleftrightarrow> 8 \<le> length p \<and> length p = (unat (uint16_be (slice 2 4 p)) + 1) * 4 \<and> drop_bit 6 (p ! 0) AND 0x03 = 2"

locale compound_scanner =
  fixes scan :: "bytes \<Rightarrow> 'r" and hit :: "bytes \<Rightarrow> 'r option" and nothing :: 'r
  assumes scan_Nil: "scan [] = nothing"
    and scan_packet: "rtcp_packet p \<Longrightarrow> scan (p @ rest) = (case hit p of Some r \<Rightarrow> r | None \<Rightarrow> scan rest)"
begin

lemma scan_skip:
  assumes "list_all (\<lambda>p. rtcp_packet p \<and> hit p = None) ps"
  shows "scan (concat ps @ rest) = scan rest"
  using assms by (induction ps) (simp_all add: scan_packet)

lemma scan_finds:
  assumes "list_all (\<lambda>p. rtcp_packet p \<and> hit p = None) ps" "rtcp_packet p" "hit p = Some r"
  shows "scan (concat ps @ p @ rest) = r"
  using assms by (simp add: scan_skip scan_packet)

lemma scan_nothing: "list_all (\<lambda>p. rtcp_packet p \<and> hit p = None) ps \<Longrightarrow> scan (concat ps) = nothing"
  using scan_skip [of ps "[]"] by (simp add: scan_Nil)

end

definition timing_hit :: "bytes \<Rightarrow> (u32 \<times> u32 \<times> u32) option option" where
  "timing_hit p = (if p ! 1 = RtcpPtSr \<and> 28 \<le> length p
     then Some (Some (uint32_be (slice 4 8 p), uint32_be (slice 8 12 p), uint32_be (slice 12 16 p))) else None)"

interpretation timing: compound_scanner ParseSenderReportTiming timing_hit None
proof
  show "ParseSenderReportTiming [] = None" by (simp add: ParseSenderReportTiming.simps)
  fix p rest assume p: "rtcp_packet p"
  then have "4 \<le> length p" "slice 2 4 (p @ rest) = slice 2 4 p" by (simp_all add: rtcp_packet_def slice_append_le)
  with p show "ParseSenderReportTiming (p @ rest) =
      (case timing_hit p of Some r \<Rightarrow> r | None \<Rightarrow> ParseSenderReportTiming rest)"
    by (subst ParseSenderReportTiming.simps) (auto simp: Let_def rtcp_packet_def timing_hit_def)
qed

definition keyframe_hit :: "u32 \<Rightarrow> bytes \<Rightarrow> bool option" where
  "keyframe_hit ssrc p = (if psfb_requests p ssrc then Some True else None)"

interpretation keyframe: compound_scanner "\<lambda>d. RtcpRequestsKeyframe d ssrc" "keyframe_hit ssrc" False for ssrc
proof
  show "RtcpRequestsKeyframe [] ssrc = False" by (simp add: RtcpRequestsKeyframe.simps)
  fix p rest assume p: "rtcp_packet p"
  then have "4 \<le> length p" "slice 2 4 (p @ rest) = slice 2 4 p" "(p @ rest) ! 0 = p ! 0"
    by (simp_all add: rtcp_packet_def slice_append_le nth_append)
  with p show "RtcpRequestsKeyframe (p @ rest) ssrc =
      (case keyframe_hit ssrc p of Some r \<Rightarrow> r | None \<Rightarrow> RtcpRequestsKeyframe rest ssrc)"
    by (subst RtcpRequestsKeyframe.simps) (auto simp: Let_def rtcp_packet_def keyframe_hit_def)
qed

text \<open>The head of every packet the builders emit.\<close>

lemma packet_head:
  assumes "length r = 4 * unat n" "0 < unat n" "drop_bit 6 b0 AND 3 = 2"
  shows "rtcp_packet (b0 # t # be16 n @ r)" "t \<noteq> RtcpPtPsfb \<Longrightarrow> \<not> psfb_requests (b0 # t # be16 n @ r) v"
    "t \<noteq> RtcpPtSr \<Longrightarrow> timing_hit (b0 # t # be16 n @ r) = None"
  using assms by (simp_all add: rtcp_packet_def slice_def psfb_requests_def timing_hit_def)

lemma be16_small: "be16 6 = [0, 6]" "be16 2 = [0, 2]" "be16 1 = [0, 1]" "be16 7 = [0, 7]"
  by (simp_all add: be16_def)

definition sr_packet :: "bytes \<Rightarrow> u32 \<Rightarrow> u64 \<Rightarrow> bool" where
  "sr_packet p l now \<longleftrightarrow> (\<exists>b0 n r. p = b0 # RtcpPtSr # be16 n @ be32 l @ be32 (ntp_seconds now) @ be32 (ntp_fraction now) @ r \<and>
     length r + 12 = 4 * unat n \<and> 12 \<le> length r \<and> drop_bit 6 b0 AND 3 = 2)"

lemma sr_packet_facts:
  assumes "sr_packet p l now"
  shows "rtcp_packet p" "\<not> psfb_requests p v" "timing_hit p = Some (Some (l, ntp_seconds now, ntp_fraction now))"
proof -
  obtain b0 n r where p: "p = b0 # RtcpPtSr # be16 n @ be32 l @ be32 (ntp_seconds now) @ be32 (ntp_fraction now) @ r"
    "length r + 12 = 4 * unat n" "12 \<le> length r" "drop_bit 6 b0 AND 3 = 2" using assms by (auto simp: sr_packet_def)
  have n: "0 < unat n" using p(2) by (cases "unat n = 0") simp_all
  show "rtcp_packet p" unfolding p(1) using p(2-4) n by (intro packet_head(1)) simp_all
  show "\<not> psfb_requests p v" by (simp add: p(1) psfb_requests_def RtcpPtPsfb_def RtcpPtSr_def)
  show "timing_hit p = Some (Some (l, ntp_seconds now, ntp_fraction now))"
    using p(3) by (simp add: p(1) timing_hit_def slice_def)
qed

lemma sr_packet_put_length:
  assumes "drop_bit 6 b0 AND 3 = 2" "length r + 16 = 4 * k" "7 \<le> k" "k \<le> 65536"
  shows "sr_packet (put_length (b0 # RtcpPtSr # x # y # be32 l @ be32 (ntp_seconds now) @ be32 (ntp_fraction now) @ r)) l now"
    (is "sr_packet (put_length ?out) l now")
proof -
  have "length ?out = 4 * k" using assms(2) by simp
  then have "put_length ?out = b0 # RtcpPtSr # be16 (word_of_nat (k - 1)) @ be32 l @ be32 (ntp_seconds now) @ be32 (ntp_fraction now) @ r"
    by (simp add: put_length_def numeral_2_eq_2)
  moreover have "unat (word_of_nat (k - 1) :: u16) = k - 1" 
    unfolding unat_of_nat using assms(3,4) by (simp add: take_bit_eq_mod)
  ultimately show ?thesis using assms unfolding sr_packet_def by fastforce
qed

lemma sr_packet_builders:
  "sr_packet (BuildSenderReport l st now) l now"
  "sr_packet ((BuildSenderReport l st now)[0 := BuildSenderReport l st now ! 0 OR 0x10]) l now"
  by (auto simp: sr_packet_def BuildSenderReport_def RtcpPtSr_def be16_small intro!: exI [of _ "6 :: u16"])

lemma length_appendReceptionReport [simp]: "length (appendReceptionReport out r) = length out + 24"
  by (simp add: appendReceptionReport_def Let_def)

lemma sr_packet_reception:
  assumes "drop_bit 6 b0 AND 3 = 2" "length ext = 4 * j" "j \<le> 6"
  shows "sr_packet (put_length (appendReceptionReport ((BuildSenderReport l st now)[0 := b0]) r @ ext)) l now"
proof -
  let ?t = "be32 (SenderRtpTimestamp st) @ be32 (PacketsSent st) @ be32 (OctetsSent st)"
  have "appendReceptionReport ((BuildSenderReport l st now)[0 := b0]) r @ ext =
      b0 # RtcpPtSr # 0 # 6 # be32 l @ be32 (ntp_seconds now) @ be32 (ntp_fraction now) @ ?t @
      appendReceptionReport [] r @ ext"
    by (simp add: BuildSenderReport_def appendReceptionReport_def Let_def)
  with sr_packet_put_length [OF assms(1), of "?t @ appendReceptionReport [] r @ ext" "13 + j" 0 6 l now] assms(2,3)
  show ?thesis by simp
qed

text \<open>What \<open>BuildSenderReportWithSdesAndReception\<close> and \<open>BuildGroupSenderReport\<close> emit, as packets.\<close>

lemma compound_report:
  "\<exists>p. BuildSenderReportWithSdesAndReception l st now cname report pe = p @ BuildSourceDescription l cname pe \<and> sr_packet p l now"
proof (cases report)
  case None
  then show ?thesis
    using sr_packet_builders [of l st now] by (auto simp: BuildSenderReportWithSdesAndReception_def Let_def)
next
  case (Some r)
  let ?b = "if pe then 0x91 else 0x81 :: byte"
  have "sr_packet (put_length (appendReceptionReport ((BuildSenderReport l st now)[0 := ?b]) r @ replicate 24 0)) l now"
    by (rule sr_packet_reception [where j = 6]) simp_all
  moreover have "BuildSenderReportWithSdesAndReception l st now cname report pe =
      put_length (appendReceptionReport ((BuildSenderReport l st now)[0 := ?b]) r @ replicate 24 0) @ BuildSourceDescription l cname pe"
    using Some by (simp add: BuildSenderReportWithSdesAndReception_def Let_def BuildSenderReport_def)
  ultimately show ?thesis by blast
qed

lemma group_report:
  assumes "length ext = 8"
  shows "sr_packet (BuildGroupSenderReport l st now report ext) l now"
proof (cases report)
  case None
  then show ?thesis
    using sr_packet_builders(1)
    by (simp add: BuildGroupSenderReport_def buildGroupSenderReportFromSenderSection_def Let_def)
next
  case (Some r)
  then show ?thesis
    using sr_packet_reception [where ?b0.0 = "0x81" and ext = ext and j = 2 and l = l and now = now and r = r] assms
    by (simp add: BuildGroupSenderReport_def buildGroupSenderReportFromSenderSection_def Let_def)
      (simp add: BuildSenderReport_def)
qed

lemma sdes_packet:
  assumes "length cname = 18"
  shows "rtcp_packet (BuildSourceDescription l cname pe)" "\<not> psfb_requests (BuildSourceDescription l cname pe) v"
    "timing_hit (BuildSourceDescription l cname pe) = None"
  unfolding BuildSourceDescription_def append_Cons append_Nil
  by (rule packet_head; use assms in \<open>simp add: RtcpPtSdes_def RtcpPtPsfb_def RtcpPtSr_def\<close>)+

lemma compact_packets:
  "rtcp_packet (BuildCompactRtcp208 l m)" "timing_hit (BuildCompactRtcp208 l m) = None"
  "rtcp_packet (BuildCompactRtcp209 l)" "timing_hit (BuildCompactRtcp209 l) = None"
  using packet_head(1,3) [where r = "be32 l @ be32 m" and n = 2 and ?b0.0 = "0x81" and t = RtcpPtWaCompact]
    packet_head(1,3) [where r = "be32 l" and n = 1 and ?b0.0 = "0x81" and t = RtcpPtWaCompact2]
  by (simp_all add: BuildCompactRtcp208_def BuildCompactRtcp209_def RtcpPtSr_def RtcpPtWaCompact_def RtcpPtWaCompact2_def be16_small)

lemma pli_packet:
  "rtcp_packet (BuildPictureLossIndication s m pe)" "psfb_requests (BuildPictureLossIndication s m pe) v \<longleftrightarrow> m = v"
proof -
  show "rtcp_packet (BuildPictureLossIndication s m pe)"
    unfolding BuildPictureLossIndication_def append_Cons append_Nil by (rule packet_head(1)) simp_all
  show "psfb_requests (BuildPictureLossIndication s m pe) v \<longleftrightarrow> m = v"
    by (simp add: BuildPictureLossIndication_def psfb_requests_def Let_def slice_def be16_def)
qed

lemma timing_compound:
  "ParseSenderReportTiming (BuildSenderReportWithSdesAndReception l st now cname report pe @ rest) =
     Some (l, ntp_seconds now, ntp_fraction now)"
proof -
  obtain p where p: "BuildSenderReportWithSdesAndReception l st now cname report pe = p @ BuildSourceDescription l cname pe"
    "sr_packet p l now" using compound_report by blast
  show ?thesis using timing.scan_finds [of "[]" p] sr_packet_facts [OF p(2)] by (simp add: p(1))
qed

text \<open>
  Every report this side sends, with or without a reception block, in its one-to-one or its
  group form, and behind compact packets, is read by the peer's scanner as a sender report of
  this SSRC with the NTP time it was built at.
\<close>

lemma ParseSenderReportTiming_built:
  assumes "length ext = 8"
  shows "ParseSenderReportTiming (BuildSenderReportWithSdesAndReception l st now cname report pe @ rest) =
      Some (l, ntp_seconds now, ntp_fraction now) \<and>
    ParseSenderReportTiming (BuildCompactRtcp208 l m @ BuildCompactRtcp209 l @ BuildGroupSenderReport l gst now report ext @ rest) =
      Some (l, ntp_seconds now, ntp_fraction now)"
  using timing.scan_finds [of "[BuildCompactRtcp208 l m, BuildCompactRtcp209 l]" "BuildGroupSenderReport l gst now report ext"]
    sr_packet_facts [OF group_report [OF assms, of l gst now report]] compact_packets
  by (simp add: timing_compound)

text \<open>
  A compound of a report and a picture-loss indication asks for a keyframe of exactly the
  media stream it names, wherever the indication stands, and a report alone asks for none.
\<close>

lemma RtcpRequestsKeyframe_built:
  fixes l :: u32 and st :: RtcpSenderStats and now :: u64 and rep :: "RtcpReceptionReport option" and pe :: bool
  assumes "length cname = 18"
  defines "report \<equiv> BuildSenderReportWithSdesAndReception l st now cname rep pe"
  shows "(RtcpRequestsKeyframe (report @ BuildPictureLossIndication s m pe') v \<longleftrightarrow> v = m) \<and>
    (RtcpRequestsKeyframe (BuildPictureLossIndication s m pe' @ report) v \<longleftrightarrow> v = m) \<and> \<not> RtcpRequestsKeyframe report v"
proof -
  obtain p where p: "report = p @ BuildSourceDescription l cname pe" "sr_packet p l now"
    unfolding report_def using compound_report by blast
  have quiet: "list_all (\<lambda>p. rtcp_packet p \<and> keyframe_hit v p = None) [p, BuildSourceDescription l cname pe]"
    using sr_packet_facts [OF p(2)] sdes_packet [OF assms(1)] by (simp add: keyframe_hit_def)
  have r: "report = concat [p, BuildSourceDescription l cname pe]" by (simp add: p(1))
  show ?thesis
    unfolding r using keyframe.scan_skip [OF quiet] keyframe.scan_nothing [OF quiet] pli_packet
      keyframe.scan_packet [where p = "BuildPictureLossIndication s m pe'" and ssrc = v and rest = "[]"]
      keyframe.scan_packet [where p = "BuildPictureLossIndication s m pe'" and ssrc = v
        and rest = "concat [p, BuildSourceDescription l cname pe]"]
      keyframe.scan_Nil
    by (auto simp: keyframe_hit_def)
qed

section \<open>Loss accounting\<close>

text \<open>Packets of one stream: the counter whose low 16 bits are sent, the timestamp, the arrival time.\<close>

fun observe_all :: "u32 \<Rightarrow> u32 \<Rightarrow> (nat \<times> u32 \<times> u64) list \<Rightarrow> RtcpReceptionStats \<Rightarrow> RtcpReceptionStats" where
  "observe_all ssrc rate [] s = s"
| "observe_all ssrc rate ((i, ts, ms) # ps) s = observe_all ssrc rate ps (Observe ssrc (word_of_nat i) ts ms rate s)"

text \<open>The statistics stand for: first counter \<open>b\<close>, highest counter \<open>m\<close>, \<open>n\<close> packets in all.\<close>

definition counted :: "RtcpReceptionStats \<Rightarrow> u32 \<Rightarrow> nat \<Rightarrow> nat \<Rightarrow> nat \<Rightarrow> bool" where
  "counted s ssrc b m n \<longleftrightarrow> hasSsrc s \<and> rs_ssrc s = ssrc \<and> baseSequence s = word_of_nat b \<and> maxSequence s = word_of_nat m \<and>
     sequenceCycles s = word_of_nat (m div 65536 * 65536) \<and> received s = word_of_nat n"

abbreviation priors :: "RtcpReceptionStats \<Rightarrow> u32 \<times> u32" where
  "priors s \<equiv> (expectedPrior s, receivedPrior s)"

lemma observe_jitter_fields [simp]:
  "baseSequence (observe_jitter ts ms rate s) = baseSequence s" "maxSequence (observe_jitter ts ms rate s) = maxSequence s"
  "sequenceCycles (observe_jitter ts ms rate s) = sequenceCycles s" "received (observe_jitter ts ms rate s) = received s"
  "expectedPrior (observe_jitter ts ms rate s) = expectedPrior s" "receivedPrior (observe_jitter ts ms rate s) = receivedPrior s"
  "lastSenderReport (observe_jitter ts ms rate s) = lastSenderReport s"
  "lastSenderReportAtMs (observe_jitter ts ms rate s) = lastSenderReportAtMs s"
  "hasSenderReport (observe_jitter ts ms rate s) = hasSenderReport s"
  "hasSsrc (observe_jitter ts ms rate s) = hasSsrc s" "rs_ssrc (observe_jitter ts ms rate s) = rs_ssrc s"
  by (simp_all add: observe_jitter_def Let_def)

lemma Observe_first:
  assumes "b < 65536"
  shows "counted (Observe ssrc (word_of_nat b) ts ms rate new_stats) ssrc b b 1 \<and>
    priors (Observe ssrc (word_of_nat b) ts ms rate new_stats) = (0, 0)"
  using assms by (simp add: Observe_def observe_sequence_def new_stats_def counted_def)

lemma unat_u16_lt: "unat (w :: u16) < 65536"
  using unsigned_less [of w] by simp

lemma unat_seq_diff: "unat (word_of_nat j - word_of_nat m :: u16) = (j mod 65536 + 65536 - m mod 65536) mod 65536"
proof -
  have "unat (x - y) = (unat x + 65536 - unat y) mod 65536" for x y :: u16
    using unat_u16_lt [of x] unat_u16_lt [of y] by (auto simp: unat_sub_if' mod_if)
  then show ?thesis by (simp only: unat_seq)
qed

lemma seq_diff_near:
  fixes j m :: nat
  assumes near: "j < m + 32768" "m < j + 32768"
  shows "(j mod 65536 + 65536 - m mod 65536) mod 65536 = (if m \<le> j then j - m else 65536 - (m - j))"
proof -
  obtain a b where j: "j = 65536 * a + b" "b < 65536" by (rule that [of "j div 65536" "j mod 65536"]) simp_all
  obtain c d where m: "m = 65536 * c + d" "d < 65536" by (rule that [of "m div 65536" "m mod 65536"]) simp_all
  have r: "j mod 65536 = b" "m mod 65536 = d" "j div 65536 = a" "m div 65536 = c" using j m by simp_all
  have "(b + 65536 - d) mod 65536 = (if d \<le> b then b - d else b + 65536 - d)"
    using j(2) m(2) by (auto simp: mod_if)
  moreover have "a = c \<or> a = c + 1 \<and> b + 32768 < d \<or> c = a + 1 \<and> d + 32768 < b"
    using near_cases [OF near] by (simp add: r)
  ultimately show ?thesis unfolding r using j m by (elim disjE conjE) (simp_all add: add.commute)
qed

lemma Observe_near:
  assumes c: "counted s ssrc b m n" and near: "j < m + 32768" "m < j + 32768"
  shows "counted (Observe ssrc (word_of_nat j) ts ms rate s) ssrc b (max m j) (n + 1) \<and>
    priors (Observe ssrc (word_of_nat j) ts ms rate s) = priors s"
proof -
  have fwd: "(word_of_nat j - word_of_nat m :: u16) \<noteq> 0 \<and> (word_of_nat j - word_of_nat m :: u16) < 0x8000 \<longleftrightarrow> m < j"
    unfolding word_less_nat_alt word_unat_eq_iff unat_seq_diff seq_diff_near [OF near] using near by auto
  have wrap: "(word_of_nat j :: u16) < word_of_nat m \<longleftrightarrow> j mod 65536 < m mod 65536"
    by (simp add: word_less_nat_alt unat_seq)
  have "m < j \<Longrightarrow> j div 65536 = m div 65536 + (if j mod 65536 < m mod 65536 then 1 else 0)"
    using div_mod_near [of m j] near by auto
  with c fwd wrap show ?thesis
    by (auto simp: Observe_def observe_sequence_def counted_def Let_def max_def algebra_simps)
qed

lemma observe_all_counted:
  assumes "counted s ssrc b m n" "near_max m (map fst ps)"
  shows "counted (observe_all ssrc rate ps s) ssrc b (foldl max m (map fst ps)) (n + length ps) \<and>
    priors (observe_all ssrc rate ps s) = priors s"
  using assms
proof (induction ps arbitrary: s m n)
  case (Cons p ps)
  obtain j ts ms where p: "p = (j, ts, ms)" by (cases p)
  from Cons.prems p have "near_max (max m j) (map fst ps)" "j < m + 32768" "m < j + 32768" by simp_all
  with Observe_near [OF Cons.prems(1), of j ts ms rate] Cons.IH [of "Observe ssrc (word_of_nat j) ts ms rate s" "max m j" "n + 1"]
  show ?case by (simp add: p)
qed simp

definition loss_fraction :: "nat \<Rightarrow> nat \<Rightarrow> nat" where
  "loss_fraction expected got = (if got < expected then min (((expected - got) * 256) div expected) 255 else 0)"

definition clamp24 :: "int \<Rightarrow> int" where
  "clamp24 x = max (- 0x800000) (min 0x7fffff x)"

lemma ucast_seq: "ucast (word_of_nat m :: u16) = (word_of_nat (m mod 65536) :: u32)"
  by (simp add: word_unat_eq_iff unat_seq unsigned_ucast_eq unat_of_nat take_bit_eq_mod)

lemma extended_sequence:
  "word_of_nat (m div 65536 * 65536) + ucast (word_of_nat m :: u16) = (word_of_nat m :: u32)"
  "word_of_nat (m div 65536 * 65536) OR ucast (word_of_nat m :: u16) = (word_of_nat m :: u32)"
proof -
  show s: "word_of_nat (m div 65536 * 65536) + ucast (word_of_nat m :: u16) = (word_of_nat m :: u32)"
    unfolding ucast_seq of_nat_add [symmetric] by simp
  have "(word_of_nat (m div 65536 * 65536) :: u32) = push_bit 16 (word_of_nat (m div 65536))"
    by (simp add: push_bit_eq_mult)
  then have "word_of_nat (m div 65536 * 65536) OR ucast (word_of_nat m :: u16) =
      word_of_nat (m div 65536 * 65536) + (ucast (word_of_nat m :: u16) :: u32)"
    by (intro disjunctive_add [symmetric]) (auto simp: bit_push_bit_iff bit_ucast_iff dest: bit_imp_le_length)
  with s show "word_of_nat (m div 65536 * 65536) OR ucast (word_of_nat m :: u16) = (word_of_nat m :: u32)" by simp
qed

lemma uint_word_of_nat32: "k < 2 ^ 32 \<Longrightarrow> uint (word_of_nat k :: u32) = int k"
  by (simp add: unsigned_of_nat take_bit_eq_mod)

lemma fraction_nat:
  fixes e n :: nat
  shows "unat (if e \<noteq> 0 \<and> 0 < int e - int n then word_of_int (min (((int e - int n) * 256) div int e) 255) else 0 :: u8) =
    loss_fraction e n"
proof (cases "n < e")
  case True
  let ?k = "min (((e - n) * 256) div e) 255"
  have "min (((int e - int n) * 256) div int e) 255 = int ?k"
  proof -
    have d: "int e - int n = int (e - n)" using True by simp
    show ?thesis unfolding d by (simp add: zdiv_int of_nat_min)
  qed
  moreover have "unat (word_of_int (int ?k) :: u8) = ?k"
    by (simp add: unat_of_nat)
  ultimately show ?thesis using True by (simp add: loss_fraction_def)
qed (simp add: loss_fraction_def)

lemma Report_shape:
  assumes "hasSsrc s"
  defines "e \<equiv> sequenceCycles s + ucast (maxSequence s) - ucast (baseSequence s) + 1"
  defines "lost \<equiv> uint (e - expectedPrior s) - uint (received s - receivedPrior s)"
  shows "\<exists>r. Report now s = (Some r, s\<lparr>expectedPrior := e, receivedPrior := received s\<rparr>) \<and> ReportSsrc r = rs_ssrc s \<and>
    FractionLost r = (if e - expectedPrior s \<noteq> 0 \<and> 0 < lost
      then word_of_int (min ((lost * 256) div uint (e - expectedPrior s)) 255) else 0) \<and>
    CumulativeLost r = clamp24 (uint e - uint (received s)) \<and>
    ExtendedHighestSequence r = sequenceCycles s OR ucast (maxSequence s)"
proof -
  have "clamp24 x = (if x < - 0x800000 then - 0x800000 else if 0x7fffff < x then 0x7fffff else x)" for x
    by (simp add: clamp24_def max_def min_def)
  then show ?thesis
    unfolding Report_def Let_def e_def [symmetric] lost_def [symmetric] using assms(1) by simp
qed

lemma Report_counted:
  assumes c: "counted s ssrc b m n" and b: "b < 65536" "b \<le> m" "m < 2 ^ 32" "n < 2 ^ 32"
    and pr: "priors s = (word_of_nat e0, word_of_nat n0)" "e0 \<le> m - b + 1" "n0 \<le> n" "m - b + 1 < 2 ^ 32"
  shows "\<exists>r s'. Report now s = (Some r, s') \<and> ExtendedHighestSequence r = word_of_nat m \<and> ReportSsrc r = ssrc \<and>
    CumulativeLost r = clamp24 (int (m - b + 1) - int n) \<and>
    unat (FractionLost r) = loss_fraction (m - b + 1 - e0) (n - n0) \<and>
    counted s' ssrc b m n \<and> priors s' = (word_of_nat (m - b + 1), word_of_nat n)"
proof -
  let ?e = "sequenceCycles s + ucast (maxSequence s) - ucast (baseSequence s) + 1"
  note f = c [unfolded counted_def]
  have "?e = word_of_nat m - word_of_nat b + 1"
    using f b(1) extended_sequence(1) [of m] by (simp add: ucast_seq)
  then have e: "?e = word_of_nat (m - b + 1)" using b(2) by (simp add: of_nat_diff)
  have ei: "?e - expectedPrior s = word_of_nat (m - b + 1 - e0)" "received s - receivedPrior s = word_of_nat (n - n0)"
    using pr f unfolding e by (simp_all only: prod.inject of_nat_diff)
  have "uint (?e - expectedPrior s) = int (m - b + 1 - e0)" "uint (received s - receivedPrior s) = int (n - n0)"
    unfolding ei by (rule uint_word_of_nat32, use pr(4) b(4) in linarith)+
  moreover have "uint ?e = int (m - b + 1)" "uint (received s) = int n"
    unfolding e using f pr(4) b(4) by (auto intro!: uint_word_of_nat32 simp del: of_nat_add of_nat_Suc)
  ultimately have u: "uint (?e - expectedPrior s) = int (m - b + 1 - e0)" "uint (received s - receivedPrior s) = int (n - n0)"
    "uint ?e = int (m - b + 1)" "uint (received s) = int n" by blast+
  let ?lost = "uint (?e - expectedPrior s) - uint (received s - receivedPrior s)"
  let ?frac = "if ?e - expectedPrior s \<noteq> 0 \<and> 0 < ?lost
    then word_of_int (min ((?lost * 256) div uint (?e - expectedPrior s)) 255) else 0 :: u8"
  have frac: "unat ?frac = loss_fraction (m - b + 1 - e0) (n - n0)"
  proof -
    have z: "?e - expectedPrior s \<noteq> 0 \<longleftrightarrow> m - b + 1 - e0 \<noteq> 0" using u(1) by (metis of_nat_eq_0_iff uint_0_iff)
    show ?thesis unfolding z u by (rule fraction_nat)
  qed
  obtain r where r: "Report now s = (Some r, s\<lparr>expectedPrior := ?e, receivedPrior := received s\<rparr>)" "ReportSsrc r = rs_ssrc s"
    "FractionLost r = ?frac" "CumulativeLost r = clamp24 (uint ?e - uint (received s))"
    "ExtendedHighestSequence r = sequenceCycles s OR ucast (maxSequence s)"
    using Report_shape [of s now] f by blast
  have "unat (FractionLost r) = loss_fraction (m - b + 1 - e0) (n - n0)" unfolding r(3) by (rule frac)
  moreover have "ExtendedHighestSequence r = word_of_nat m" using f extended_sequence(2) [of m] by (simp add: r(5))
  moreover have "CumulativeLost r = clamp24 (int (m - b + 1) - int n)" unfolding r(4) u(3,4) ..
  moreover have "counted (s\<lparr>expectedPrior := ?e, receivedPrior := received s\<rparr>) ssrc b m n"
    "priors (s\<lparr>expectedPrior := ?e, receivedPrior := received s\<rparr>) = (word_of_nat (m - b + 1), word_of_nat n)"
    using f e by (simp_all add: counted_def)
  ultimately show ?thesis using r(1,2) f by blast
qed

lemma foldl_max_ge: "b \<le> foldl max b xs" for b :: nat
  by (induction xs arbitrary: b) (simp, metis foldl_Cons max.bounded_iff)

text \<open>
  C39: two consecutive reports on one stream. Packets may arrive in any order within half the
  sequence range, any number of wraps and losses included. Each report carries the true highest
  packet counter and the true cumulative loss, clamped to 24 bits; the loss fraction of the first
  covers all packets so far, that of the second exactly the interval since the first.
\<close>

theorem Report_loss:
  assumes "b < 65536" "near_max b (map fst ps @ map fst qs)" "length ps + length qs + 1 < 2 ^ 32"
    "foldl max b (map fst ps @ map fst qs) - b + 1 < 2 ^ 32" "foldl max b (map fst ps @ map fst qs) < 2 ^ 32"
  defines "m \<equiv> foldl max b (map fst ps)" and "m' \<equiv> foldl max b (map fst ps @ map fst qs)"
  shows "\<exists>r s r' s'. Report t (observe_all ssrc rate ((b, ts, ms) # ps) new_stats) = (Some r, s) \<and>
    Report t' (observe_all ssrc rate qs s) = (Some r', s') \<and>
    ExtendedHighestSequence r = word_of_nat m \<and> ExtendedHighestSequence r' = word_of_nat m' \<and>
    CumulativeLost r = clamp24 (int (m - b + 1) - int (length ps + 1)) \<and>
    CumulativeLost r' = clamp24 (int (m' - b + 1) - int (length ps + length qs + 1)) \<and>
    unat (FractionLost r) = loss_fraction (m - b + 1) (length ps + 1) \<and>
    unat (FractionLost r') = loss_fraction (m' - m) (length qs)"
proof -
  let ?s = "observe_all ssrc rate ((b, ts, ms) # ps) new_stats"
  have m': "m' = foldl max m (map fst qs)" by (simp add: m_def m'_def)
  have le: "b \<le> m" "m \<le> m'" unfolding m' by (simp_all add: m_def foldl_max_ge)
  have lt: "m' < 2 ^ 32" "m' - b + 1 < 2 ^ 32" using assms(4,5) by (simp_all add: m'_def)
  have near: "near_max b (map fst ps)" "near_max m (map fst qs)" using assms(2) by (simp_all add: near_max_append m_def)
  have s: "counted ?s ssrc b m (length ps + 1)" "priors ?s = (word_of_nat 0, word_of_nat 0)"
    using Observe_first [OF assms(1), of ssrc ts ms rate]
      observe_all_counted [of "Observe ssrc (word_of_nat b) ts ms rate new_stats" ssrc b b 1 ps rate] near(1)
    by (simp_all add: m_def)
  have pre: "m < 2 ^ 32" "length ps + 1 < 2 ^ 32" "m - b + 1 < 2 ^ 32" using le lt assms(3) by linarith+
  obtain r s1 where r: "Report t ?s = (Some r, s1)" "ExtendedHighestSequence r = word_of_nat m"
    "CumulativeLost r = clamp24 (int (m - b + 1) - int (length ps + 1))"
    "unat (FractionLost r) = loss_fraction (m - b + 1 - 0) (length ps + 1 - 0)"
    "counted s1 ssrc b m (length ps + 1)" "priors s1 = (word_of_nat (m - b + 1), word_of_nat (length ps + 1))"
    using Report_counted [OF s(1) assms(1) le(1) pre(1,2) s(2) _ _ pre(3), of t] by blast
  let ?s2 = "observe_all ssrc rate qs s1" and ?n = "length ps + 1 + length qs"
  have s2: "counted ?s2 ssrc b m' ?n" "priors ?s2 = (word_of_nat (m - b + 1), word_of_nat (length ps + 1))"
    using observe_all_counted [OF r(5) near(2), of rate] r(6) by (simp_all add: m')
  have "b \<le> m'" "?n < 2 ^ 32" "m - b + 1 \<le> m' - b + 1" "length ps + 1 \<le> ?n" using le assms(3) by linarith+
  from Report_counted [OF s2(1) assms(1) this(1) lt(1) this(2) s2(2) this(3,4) lt(2), of t']
  obtain r' s' where r': "Report t' ?s2 = (Some r', s')" "ExtendedHighestSequence r' = word_of_nat m'"
    "CumulativeLost r' = clamp24 (int (m' - b + 1) - int ?n)"
    "unat (FractionLost r') = loss_fraction (m' - b + 1 - (m - b + 1)) (?n - (length ps + 1))" by blast
  have "m' - b + 1 - (m - b + 1) = m' - m" "?n - (length ps + 1) = length qs" "?n = length ps + length qs + 1"
    using le by linarith+
  then show ?thesis using r(1-4) r' by (metis minus_nat.diff_0)
qed

theorem Report_loss_witness:
  "\<exists>r s r' s'. Report 0 (observe_all 7 48000 ((65534, 0, 0) # [(65535, 960, 20), (65538, 3840, 80), (65536, 1920, 90)]) new_stats) = (Some r, s) \<and>
     Report 5 (observe_all 7 48000 [(65539, 4800, 100), (65542, 7680, 160)] s) = (Some r', s') \<and>
     CumulativeLost r = 1 \<and> CumulativeLost r' = 3 \<and> unat (FractionLost r) = 51 \<and> unat (FractionLost r') = 128"
  using Report_loss [of 65534 "[(65535, 960, 20), (65538, 3840, 80), (65536, 1920, 90)]" "[(65539, 4800, 100), (65542, 7680, 160)]"
      0 7 48000 0 0 5]
  by (simp add: clamp24_def loss_fraction_def) blast

section \<open>Round-trip times\<close>

lemma Observe_sender_fields:
  assumes "hasSsrc s" "rs_ssrc s = ssrc"
  shows "lastSenderReport (Observe ssrc q ts ms rate s) = lastSenderReport s"
    "lastSenderReportAtMs (Observe ssrc q ts ms rate s) = lastSenderReportAtMs s"
    "hasSenderReport (Observe ssrc q ts ms rate s) = hasSenderReport s"
    "hasSsrc (Observe ssrc q ts ms rate s)" "rs_ssrc (Observe ssrc q ts ms rate s) = ssrc"
  using assms by (simp_all add: Observe_def observe_sequence_def Let_def)

lemma observe_all_sender_fields:
  assumes "hasSsrc s" "rs_ssrc s = ssrc"
  shows "lastSenderReport (observe_all ssrc rate ps s) = lastSenderReport s \<and>
    lastSenderReportAtMs (observe_all ssrc rate ps s) = lastSenderReportAtMs s \<and>
    hasSenderReport (observe_all ssrc rate ps s) = hasSenderReport s \<and> hasSsrc (observe_all ssrc rate ps s)"
  using assms
proof (induction ps arbitrary: s)
  case (Cons p ps)
  obtain j ts ms where p: "p = (j, ts, ms)" by (cases p)
  note f = Observe_sender_fields [OF Cons.prems, of "word_of_nat j" ts ms rate]
  from Cons.IH [OF f(4,5)] f show ?case by (simp add: p)
qed simp

lemma middle_bits:
  fixes sec frac :: u32
  shows "uint (push_bit 16 sec OR drop_bit 16 frac) = ((uint sec * 2 ^ 32 + uint frac) div 2 ^ 16) mod 2 ^ 32"
proof -
  have "push_bit 16 sec OR drop_bit 16 frac = push_bit 16 sec + drop_bit 16 frac"
    by (rule disjunctive_add [symmetric]) (auto simp: bit_simps dest: bit_imp_le_length)
  moreover have "uint (drop_bit 16 frac) = uint frac div 65536" by (simp add: drop_bit_eq_div uint_div)
  moreover have "(uint sec * 2 ^ 32 + uint frac) div 2 ^ 16 = uint sec * 65536 + uint frac div 65536" by simp
  ultimately show ?thesis
    by (simp add: push_bit_eq_mult uint_word_ariths mod_simps mult.commute)
qed

lemma Report_timing:
  assumes "hasSsrc s" "hasSenderReport s" "lastSenderReportAtMs s \<le> t'" "unat (t' - lastSenderReportAtMs s) < 65536000"
  shows "\<exists>r s'. Report t' s = (Some r, s') \<and> LastSenderReport r = lastSenderReport s \<and>
    unat (DelaySinceLastSenderReport r) = unat (t' - lastSenderReportAtMs s) * 65536 div 1000"
proof -
  let ?d = "t' - lastSenderReportAtMs s"
  let ?q = "min ((?d * 65536) div 1000) 0xffffffff"
  have scaled: "unat ((d * 65536) div 1000) = unat d * 65536 div 1000" if "unat d < 65536000" for d :: u64
    using that by (simp add: unat_div unat_word_ariths)
  note scaled [OF assms(4)]
  moreover from this have "unat ((?d * 65536) div 1000) < 2 ^ 32" using assms(4) by simp
  ultimately have "unat (ucast ?q :: u32) = unat ?d * 65536 div 1000"
    by (simp add: min_def word_le_nat_alt unsigned_ucast_eq take_bit_eq_mod)
  then show ?thesis using assms(1-3) by (simp add: Report_def Let_def not_less [symmetric])
qed

text \<open>
  The sender report a peer sends at time \<open>now\<close>, received at \<open>t\<close>, is echoed in the next
  reception report made at \<open>t'\<close>, whatever media packets come in between: the middle 32 bits of its
  64-bit NTP time, and the elapsed milliseconds in units of 1/65536 second, so that the peer can
  compute the round-trip time.
\<close>

lemma sender_report_echoed:
  assumes "hasSsrc s" "rs_ssrc s = l" "t \<le> t'" "unat (t' - t) < 65536000"
  shows "\<exists>sec frac r s'. ParseSenderReportTiming (BuildSenderReportWithSdesAndReception l st now cname rep pe) = Some (l, sec, frac) \<and>
    Report t' (observe_all l rate ps (ObserveSenderReport l sec frac t s)) = (Some r, s') \<and>
    uint (LastSenderReport r) = ((uint sec * 2 ^ 32 + uint frac) div 2 ^ 16) mod 2 ^ 32 \<and>
    unat (DelaySinceLastSenderReport r) = unat (t' - t) * 65536 div 1000"
proof -
  let ?sec = "ntp_seconds now" and ?frac = "ntp_fraction now"
  let ?s = "observe_all l rate ps (ObserveSenderReport l ?sec ?frac t s)"
  have f: "lastSenderReport ?s = push_bit 16 ?sec OR drop_bit 16 ?frac" "lastSenderReportAtMs ?s = t" "hasSenderReport ?s" "hasSsrc ?s"
    using observe_all_sender_fields [of "ObserveSenderReport l ?sec ?frac t s" l rate ps] assms(1,2)
    by (simp_all add: ObserveSenderReport_def)
  obtain r s' where r: "Report t' ?s = (Some r, s')" "LastSenderReport r = push_bit 16 ?sec OR drop_bit 16 ?frac"
    "unat (DelaySinceLastSenderReport r) = unat (t' - t) * 65536 div 1000"
    using Report_timing [of ?s t'] f assms(3,4) by auto
  have "uint (LastSenderReport r) = ((uint ?sec * 2 ^ 32 + uint ?frac) div 2 ^ 16) mod 2 ^ 32"
    unfolding r(2) by (rule middle_bits)
  with r timing_compound [where rest = "[]"] show ?thesis by fastforce
qed

end
