(* ===== verification/Ssrc.thy ===== *)
theory Ssrc
  imports Callutil
begin

text \<open>
  SSRC derivation and participant-id variants (\<^verbatim>\<open>wa-core/rtp/ssrc.go\<close>). A participant's stream
  SSRCs are derived from the call id and its id; the relay allocate request lists nine of them.
\<close>

section \<open>Definitions\<close>

definition WasmRelayStreamSlotWords :: "u32 list" where
  "WasmRelayStreamSlotWords = [0, 1, 4, 2, 3, 5, 7, 8, 6]"

definition VideoSlotWord :: u32 where "VideoSlotWord = 2"
definition AppDataSlotWord :: u32 where "AppDataSlotWord = 6"
definition HBHFECTXSlotWord :: u32 where "HBHFECTXSlotWord = 7"
definition HBHFECRXSlotWord :: u32 where "HBHFECRXSlotWord = 8"

definition DeriveWasmParticipantSsrc :: "string \<Rightarrow> string \<Rightarrow> u32 \<Rightarrow> crypto_error + u32" where
  "DeriveWasmParticipantSsrc callID lid slotWord =
     bindE (HKDFSHA256 (le32 slotWord) (bytes_of_string callID) (bytes_of_string lid) 4) (\<lambda>okm. Inr (uint32_le okm))"

fun derive_slots :: "string \<Rightarrow> string \<Rightarrow> u32 list \<Rightarrow> crypto_error + u32 list" where
  "derive_slots callID lid [] = Inr []"
| "derive_slots callID lid (slot # slots) =
     bindE (DeriveWasmParticipantSsrc callID lid slot) (\<lambda>ssrc.
       bindE (derive_slots callID lid slots) (\<lambda>ssrcs. Inr (ssrc # ssrcs)))"

definition DeriveWasmRelayStreamSsrcs :: "string \<Rightarrow> string \<Rightarrow> crypto_error + u32 list" where
  "DeriveWasmRelayStreamSsrcs callID lid = derive_slots callID lid WasmRelayStreamSlotWords"

definition FormatE2ESrtpParticipantID :: "string \<Rightarrow> string" where
  "FormatE2ESrtpParticipantID jid = FormatParticipantID jid"

text \<open>The closure \<open>push\<close>; the map \<open>seen\<close> holds exactly the elements of \<open>out\<close>.\<close>

definition trim :: "string \<Rightarrow> string" where
  "trim s = string_of_bytes (TrimSpace (bytes_of_string s))"

definition variant_push :: "string \<Rightarrow> string list \<Rightarrow> string list" where
  "variant_push s out = (let t = trim s in if t \<noteq> [] \<and> t \<notin> set out then out @ [t] else out)"

definition E2EParticipantIDVariants :: "string \<Rightarrow> string list" where
  "E2EParticipantIDVariants jid =
     (let bare = trim (cut_before CHR ''/'' jid);
          out = variant_push (FormatE2ESrtpParticipantID jid) (variant_push bare []);
          at = LastIndexByte bare CHR ''@''
      in if 0 < at then
           let user = take (nat at) bare;
               domain = drop (nat at + 1) bare
           in if domain = ''lid'' \<and> CHR '':'' \<in> set user then
                let base = cut_before CHR '':'' user
                in variant_push (base @ ''@'' @ domain) (variant_push (base @ '':0@'' @ domain) out)
              else out
         else out)"

section \<open>Stream identifiers\<close>

lemma DeriveWasmParticipantSsrc_total: "\<exists>ssrc. DeriveWasmParticipantSsrc callID lid slot = Inr ssrc"
proof -
  obtain k where "HKDFSHA256 (le32 slot) (bytes_of_string callID) (bytes_of_string lid) 4 = Inr k"
    by (rule HKDFSHA256_obtain [of 4]) simp_all
  then show ?thesis by (simp add: DeriveWasmParticipantSsrc_def)
qed

lemma derive_slots_total:
  "\<exists>ssrcs. derive_slots callID lid slots = Inr ssrcs \<and> map Inr ssrcs = map (DeriveWasmParticipantSsrc callID lid) slots"
proof (induction slots)
  case (Cons slot slots)
  obtain ssrc where "DeriveWasmParticipantSsrc callID lid slot = Inr ssrc" using DeriveWasmParticipantSsrc_total by blast
  with Cons show ?case by auto
qed simp

text \<open>
  The derivation of the nine relay streams never fails, and the streams are those the
  participants derive one by one: the audio SSRC (slot 0) comes first, the video SSRC stands
  fourth, the two error-correction SSRCs seventh and eighth and the app-data SSRC last; every slot
  word from 0 to 8 is used exactly once.
\<close>

lemma relay_streams:
  "\<exists>ssrcs. DeriveWasmRelayStreamSsrcs callID lid = Inr ssrcs \<and> length ssrcs = 9 \<and>
     Inr (ssrcs ! 0) = DeriveWasmParticipantSsrc callID lid 0 \<and>
     Inr (ssrcs ! 3) = DeriveWasmParticipantSsrc callID lid VideoSlotWord \<and>
     Inr (ssrcs ! 6) = DeriveWasmParticipantSsrc callID lid HBHFECTXSlotWord \<and>
     Inr (ssrcs ! 7) = DeriveWasmParticipantSsrc callID lid HBHFECRXSlotWord \<and>
     Inr (ssrcs ! 8) = DeriveWasmParticipantSsrc callID lid AppDataSlotWord \<and>
     sort WasmRelayStreamSlotWords = [0, 1, 2, 3, 4, 5, 6, 7, 8]"
proof -
  obtain ssrcs where d: "DeriveWasmRelayStreamSsrcs callID lid = Inr ssrcs"
    and m: "map Inr ssrcs = map (DeriveWasmParticipantSsrc callID lid) WasmRelayStreamSlotWords"
    unfolding DeriveWasmRelayStreamSsrcs_def using derive_slots_total by blast
  have l: "length ssrcs = 9" using arg_cong [OF m, of length] by (simp add: WasmRelayStreamSlotWords_def)
  have "length WasmRelayStreamSlotWords = 9" by (simp add: WasmRelayStreamSlotWords_def)
  then have nth: "Inr (ssrcs ! k) = DeriveWasmParticipantSsrc callID lid (WasmRelayStreamSlotWords ! k)" if "k < 9" for k
    using arg_cong [OF m, of "\<lambda>xs. xs ! k"] that l by simp
  show ?thesis
    using d l nth [of 0] nth [of 3] nth [of 6] nth [of 7] nth [of 8]
    by (simp add: WasmRelayStreamSlotWords_def VideoSlotWord_def AppDataSlotWord_def HBHFECTXSlotWord_def HBHFECRXSlotWord_def)
qed

section \<open>Participant ids to try\<close>

lemma variant_push_ok:
  "distinct out \<and> [] \<notin> set out \<Longrightarrow> distinct (variant_push s out) \<and> [] \<notin> set (variant_push s out)"
  by (auto simp: variant_push_def Let_def)

lemma trim_lid: "plain_user u \<Longrightarrow> trim (u @ ''@lid'') = u @ ''@lid''"
  by (simp add: trim_def TrimSpace_lid)

lemma E2EParticipantIDVariants_distinct:
  "distinct (E2EParticipantIDVariants jid) \<and> [] \<notin> set (E2EParticipantIDVariants jid)"
  unfolding E2EParticipantIDVariants_def Let_def by (auto simp: variant_push_ok)

text \<open>
  The ids the receiver tries are never empty and never repeated; for a hidden user's device
  they are its own id, the id of the first device and the bare id, in this order, and the id under
  which that user's first device derives its keys is always among them.
\<close>

lemma E2EParticipantIDVariants_lid:
  assumes "plain_user u" "plain_user d" "CHR '':'' \<notin> set u" "CHR '':'' \<notin> set d" "d \<noteq> ''0''"
  shows "E2EParticipantIDVariants (u @ '':'' @ d @ ''@lid'') = [u @ '':'' @ d @ ''@lid'', u @ '':0@lid'', u @ ''@lid''] \<and>
    FormatParticipantID (u @ ''@lid'') \<in> set (E2EParticipantIDVariants (u @ '':'' @ d @ ''@lid'')) \<and>
    distinct (E2EParticipantIDVariants jid) \<and> [] \<notin> set (E2EParticipantIDVariants jid)"
proof -
  let ?user = "u @ '':'' @ d"
  have pu: "plain_user ?user" "plain_user (u @ '':0'')" using assms(1,2) by (simp_all add: plain_user_def is_digit_def)
  have cut: "cut_before CHR ''/'' (u @ '':'' @ d @ ''@lid'') = ?user @ ''@lid''"
    using plain_user_chars [OF pu(1)] by (intro trans [OF cut_before_notin]) auto
  have fmt: "FormatE2ESrtpParticipantID (u @ '':'' @ d @ ''@lid'') = ?user @ ''@lid''"
    using FormatParticipantID_lid [OF pu(1), of "[]"] by (simp add: FormatE2ESrtpParticipantID_def)
  have at: "LastIndexByte (?user @ ''@lid'') CHR ''@'' = int (length ?user)"
    using LastIndexByte_append [of "CHR ''@''" "''lid''" ?user] by simp
  have base: "cut_before CHR '':'' ?user = u" using cut_before_append [OF assms(3), of d] by simp
  have t: "trim (?user @ ''@lid'') = ?user @ ''@lid''" "trim (u @ '':0@lid'') = u @ '':0@lid''" "trim (u @ ''@lid'') = u @ ''@lid''"
    using trim_lid [OF pu(1)] trim_lid [OF pu(2)] trim_lid [OF assms(1)] by simp_all
  have ne: "?user @ ''@lid'' \<noteq> u @ '':0@lid''" "?user @ ''@lid'' \<noteq> u @ ''@lid''" using assms(5) by auto
  have "E2EParticipantIDVariants (u @ '':'' @ d @ ''@lid'') = [?user @ ''@lid'', u @ '':0@lid'', u @ ''@lid'']"
  proof -
    have "take (nat (int (length w))) (w @ ''@lid'') = w \<and> drop (nat (int (length w)) + 1) (w @ ''@lid'') = ''lid''" for w :: string
      by simp
    from this [of ?user] have parts: "take (nat (int (length ?user))) (?user @ ''@lid'') = ?user"
      "drop (nat (int (length ?user)) + 1) (?user @ ''@lid'') = ''lid''" "0 < int (length ?user)" "CHR '':'' \<in> set ?user"
      by (blast, blast, simp_all)
    show ?thesis
      unfolding E2EParticipantIDVariants_def cut t(1) Let_def at fmt parts(1,2) base
      using parts(3,4) t ne by (simp add: variant_push_def Let_def)
  qed
  moreover have "FormatParticipantID (u @ ''@lid'') = u @ '':0@lid''"
    using FormatParticipantID_lid [OF assms(1), of "[]"] assms(3) by simp
  ultimately show ?thesis using E2EParticipantIDVariants_distinct [of jid] by simp
qed

end
