(* ===== verification/Pipeline.thy ===== *)
theory Pipeline
  imports Rtp Rtcp Ssrc
begin

text \<open>
  The media pipeline of a call (\<^verbatim>\<open>wa-core/call_crypto_session.go\<close>): it numbers outgoing frames with an RTP
  sequencer, encrypts them end to end, and tags them; on the way in it parses, authenticates and
  decrypts. It composes the sequencers of \<open>Rtp\<close>, the key schedule, transforms and rollover counters of \<open>E2e\<close> and the tags
  of \<open>Hbh\<close>. Each method holds the lock of its direction, so a method is one step; the atomic counters
  are updated inside it. Logging is left out.
\<close>

section \<open>Definitions\<close>

record MediaPipeline =
  sendKeys :: E2eSrtpKeys
  recvKeys :: E2eSrtpKeys
  warpMITagLen :: nat
  stream :: RtpStream
  sendRoc :: RocTracker
  recvRoc :: RecvRocTracker
  packetsSent :: u32
  octetsSent :: u32
  rtpTimestamp :: u32

definition installSendKeys :: "E2eSrtpKeys \<Rightarrow> MediaPipeline \<Rightarrow> MediaPipeline" where
  "installSendKeys keys p = p\<lparr>sendKeys := keys\<rparr>"

definition installRecvKeysPreservingROC :: "E2eSrtpKeys \<Rightarrow> MediaPipeline \<Rightarrow> MediaPipeline" where
  "installRecvKeysPreservingROC keys p = p\<lparr>recvKeys := keys\<rparr>"

definition installRecvKeys :: "E2eSrtpKeys \<Rightarrow> MediaPipeline \<Rightarrow> MediaPipeline" where
  "installRecvKeys keys p = p\<lparr>recvKeys := keys, recvRoc := new_RecvRocTracker\<rparr>"

definition RekeyRecv :: "bytes \<Rightarrow> string \<Rightarrow> MediaPipeline \<Rightarrow> srtp_error + MediaPipeline" where
  "RekeyRecv callKey peerJID p =
     bindE (DeriveE2eKeys callKey (FormatE2ESrtpParticipantID peerJID)) (\<lambda>keys. Inr (installRecvKeys keys p))"

definition RekeyRecvFromRaw :: "bytes \<Rightarrow> string \<Rightarrow> MediaPipeline \<Rightarrow> srtp_error + MediaPipeline" where
  "RekeyRecvFromRaw rawE2E peerJID p =
     bindE (DeriveE2eKeysFromRaw rawE2E (FormatE2ESrtpParticipantID peerJID)) (\<lambda>keys. Inr (installRecvKeys keys p))"

definition RekeySendFromRaw :: "bytes \<Rightarrow> string \<Rightarrow> MediaPipeline \<Rightarrow> srtp_error + MediaPipeline" where
  "RekeySendFromRaw rawE2E selfJID p =
     bindE (DeriveE2eKeysFromRaw rawE2E (FormatE2ESrtpParticipantID selfJID)) (\<lambda>keys. Inr (installSendKeys keys p))"

definition RekeyRecvFromRawPreservingROC :: "bytes \<Rightarrow> string \<Rightarrow> MediaPipeline \<Rightarrow> srtp_error + MediaPipeline" where
  "RekeyRecvFromRawPreservingROC rawE2E peerJID p =
     bindE (DeriveE2eKeysFromRaw rawE2E (FormatE2ESrtpParticipantID peerJID)) (\<lambda>keys.
       Inr (installRecvKeysPreservingROC keys p))"

definition NewMediaPipeline :: "bytes \<Rightarrow> string \<Rightarrow> string \<Rightarrow> u32 \<Rightarrow> u32 \<Rightarrow> srtp_error + MediaPipeline" where
  "NewMediaPipeline callKey selfJID peerJID ssrc samples =
     bindE (DeriveE2eKeys callKey (FormatE2ESrtpParticipantID selfJID)) (\<lambda>send.
     bindE (DeriveE2eKeys callKey (FormatE2ESrtpParticipantID peerJID)) (\<lambda>recv.
       Inr \<lparr>sendKeys = send, recvKeys = recv, warpMITagLen = WarpMITagLen, stream = NewRtpStream ssrc samples False,
            sendRoc = new_RocTracker, recvRoc = new_RecvRocTracker, packetsSent = 0, octetsSent = 0, rtpTimestamp = 0\<rparr>))"

text \<open>On a failed encryption the sequencer and the rollover counter have advanced, the counters have not.\<close>

definition ProtectRTP :: "RtpHeader \<Rightarrow> bytes \<Rightarrow> MediaPipeline \<Rightarrow> (srtp_error + bytes) \<times> MediaPipeline" where
  "ProtectRTP header payload p =
     (let (r, tracker) = Advance (SequenceNumber header) (sendRoc p);
          p = p\<lparr>sendRoc := tracker\<rparr>;
          packet = EncodeRtpHeader header
      in case CryptPayload (sendKeys p) (Ssrc header) (SequenceNumber header) r payload of
           Inl e \<Rightarrow> (Inl e, p)
         | Inr encrypted \<Rightarrow>
             (let out = AppendWarpMITag (AuthKey (sendKeys p)) (packet @ encrypted) r (warpMITagLen p)
              in (Inr out, p\<lparr>packetsSent := packetsSent p + 1,
                   octetsSent := octetsSent p + word_of_nat (length payload), rtpTimestamp := Timestamp header\<rparr>)))"

definition ProtectAudio :: "bytes \<Rightarrow> MediaPipeline \<Rightarrow> (srtp_error + bytes) \<times> MediaPipeline" where
  "ProtectAudio opusPayload p =
     (let (header, s) = NextPacket opusPayload False (stream p);
          p = p\<lparr>stream := s\<rparr>;
          (r, tracker) = Advance (SequenceNumber header) (sendRoc p);
          p = p\<lparr>sendRoc := tracker\<rparr>;
          packet = EncodeRtpHeader header
      in case CryptPayload (sendKeys p) (Ssrc header) (SequenceNumber header) r opusPayload of
           Inl e \<Rightarrow> (Inl e, p)
         | Inr encrypted \<Rightarrow>
             (let out = AppendWarpMITag (AuthKey (sendKeys p)) (packet @ encrypted) r (warpMITagLen p)
              in (Inr out, p\<lparr>packetsSent := packetsSent p + 1,
                   octetsSent := octetsSent p + word_of_nat (length opusPayload), rtpTimestamp := Timestamp header\<rparr>)))"

definition SenderStats :: "MediaPipeline \<Rightarrow> RtcpSenderStats" where
  "SenderStats p = \<lparr>PacketsSent = packetsSent p, OctetsSent = octetsSent p, SenderRtpTimestamp = rtpTimestamp p\<rparr>"

definition UnprotectAudio :: "bytes \<Rightarrow> MediaPipeline \<Rightarrow> (RtpHeader \<times> bytes) option \<times> MediaPipeline" where
  "UnprotectAudio packet p =
     (if length packet < 12 + warpMITagLen p then (None, p)
      else
        let withoutTag = take (length packet - warpMITagLen p) packet
        in case ParseRtpHeader withoutTag of
             None \<Rightarrow> (None, p)
           | Some header \<Rightarrow>
             (case RtpHeaderByteLength withoutTag of
                None \<Rightarrow> (None, p)
              | Some headerLen \<Rightarrow>
                  if length withoutTag \<le> headerLen then (None, p)
                  else
                    let r = EstimateRoc (SequenceNumber header) (recvRoc p);
                        tag = drop (length withoutTag) packet
                    in if \<not> VerifyWarpMITag (AuthKey (recvKeys p)) withoutTag r (int (warpMITagLen p)) tag then (None, p)
                       else
                         let p = p\<lparr>recvRoc := CommitRoc r (SequenceNumber header) (recvRoc p)\<rparr>
                         in case CryptPayload (recvKeys p) (Ssrc header) (SequenceNumber header) r (drop headerLen withoutTag) of
                              Inl _ \<Rightarrow> (None, p)
                            | Inr plain \<Rightarrow> (Some (header, plain), p)))"

section \<open>One packet\<close>

text \<open>The packet on the wire of a frame with header \<open>h\<close> and rollover counter \<open>r\<close>.\<close>

definition wire_packet :: "E2eSrtpKeys \<Rightarrow> RtpHeader \<Rightarrow> u32 \<Rightarrow> bytes \<Rightarrow> bytes" where
  "wire_packet keys h r payload =
     AppendWarpMITag (AuthKey keys)
       (EncodeRtpHeader h @ aes_ctr (CipherKey keys) (BuildE2eRtpIV (Salt keys) (Ssrc h) r (SequenceNumber h)) payload)
       r WarpMITagLen"

lemma ProtectRTP_wire:
  assumes "wf_keys (sendKeys p)" "warpMITagLen p = WarpMITagLen"
  shows "fst (ProtectRTP h payload p) = Inr (wire_packet (sendKeys p) h (fst (Advance (SequenceNumber h) (sendRoc p))) payload)"
    and "sendRoc (snd (ProtectRTP h payload p)) = snd (Advance (SequenceNumber h) (sendRoc p))"
    and "sendKeys (snd (ProtectRTP h payload p)) = sendKeys p" "stream (snd (ProtectRTP h payload p)) = stream p"
    and "warpMITagLen (snd (ProtectRTP h payload p)) = warpMITagLen p"
    and "packetsSent (snd (ProtectRTP h payload p)) = packetsSent p + 1"
    and "octetsSent (snd (ProtectRTP h payload p)) = octetsSent p + word_of_nat (length payload)"
    and "rtpTimestamp (snd (ProtectRTP h payload p)) = Timestamp h"
  using assms by (simp_all add: ProtectRTP_def CryptPayload_ok wire_packet_def split_beta Let_def)

lemma ProtectAudio_RTP:
  "ProtectAudio payload p =
     ProtectRTP (fst (NextPacket payload False (stream p))) payload (p\<lparr>stream := snd (NextPacket payload False (stream p))\<rparr>)"
  by (auto simp: ProtectAudio_def ProtectRTP_def split_beta Let_def split: sum.split)

lemma length_ComputeWarpMITag: "length (ComputeWarpMITag k d r WarpMITagLen) = 4"
  by (simp add: ComputeWarpMITag_def WarpMITagLen_def)

text \<open>A genuine packet is opened when the receiver estimates the rollover counter it was sent with.\<close>

lemma UnprotectAudio_wire:
  assumes "wf_keys (recvKeys p)" "warpMITagLen p = WarpMITagLen" "PayloadType h < 128" "payload \<noteq> []"
    "EstimateRoc (SequenceNumber h) (recvRoc p) = r"
  shows "UnprotectAudio (wire_packet (recvKeys p) h r payload) p =
    (Some (h\<lparr>ExtensionWord := None\<rparr>, payload), p\<lparr>recvRoc := CommitRoc r (SequenceNumber h) (recvRoc p)\<rparr>)"
proof -
  let ?enc = "aes_ctr (CipherKey (recvKeys p)) (BuildE2eRtpIV (Salt (recvKeys p)) (Ssrc h) r (SequenceNumber h)) payload"
  let ?body = "EncodeRtpHeader h @ ?enc"
  let ?tag = "ComputeWarpMITag (AuthKey (recvKeys p)) ?body r WarpMITagLen"
  have pkt: "wire_packet (recvKeys p) h r payload = ?body @ ?tag"
    by (simp add: wire_packet_def AppendWarpMITag_def)
  have tag: "length ?tag = 4" by (rule length_ComputeWarpMITag)
  note hdr = encoded_header_parses [OF assms(3)]
  have len: "16 \<le> length (EncodeRtpHeader h)" using hdr by (simp add: ByteSize_ext)
  have wt: "take (length (?body @ ?tag) - 4) (?body @ ?tag) = ?body" using tag by simp
  have "VerifyWarpMITag (AuthKey (recvKeys p)) ?body r 4 ?tag"
    using tag by (simp add: VerifyWarpMITag_def WarpMITagLen_def)
  moreover have "length ?enc = length payload" by simp
  ultimately show ?thesis
    unfolding pkt UnprotectAudio_def
    using assms hdr len tag wt by (simp add: WarpMITagLen_def CryptPayload_ok Let_def)
qed

text \<open>A packet without a payload is not a frame for the receiver.\<close>

lemma UnprotectAudio_empty:
  assumes "warpMITagLen p = WarpMITagLen" "PayloadType h < 128"
  shows "UnprotectAudio (wire_packet keys h r []) p = (None, p)"
proof -
  let ?tag = "ComputeWarpMITag (AuthKey keys) (EncodeRtpHeader h) r WarpMITagLen"
  have "aes_ctr (CipherKey keys) iv [] = []" for iv
    using length_aes_ctr [of "CipherKey keys" iv "[]"] by (metis length_0_conv list.size(3))
  then have pkt: "wire_packet keys h r [] = EncodeRtpHeader h @ ?tag" by (simp add: wire_packet_def AppendWarpMITag_def)
  have "take (length (EncodeRtpHeader h @ ?tag) - 4) (EncodeRtpHeader h @ ?tag) = EncodeRtpHeader h"
    using length_ComputeWarpMITag [of "AuthKey keys" "EncodeRtpHeader h" r] by simp
  then show ?thesis
    unfolding pkt UnprotectAudio_def using assms encoded_header_parses [OF assms(2), of "[]"]
    by (simp add: WarpMITagLen_def Let_def)
qed

text \<open>A packet whose tag does not verify is dropped without a trace.\<close>

definition forged :: "E2eSrtpKeys \<Rightarrow> bytes \<Rightarrow> bool" where
  "forged keys packet \<longleftrightarrow>
     (\<forall>r. \<not> VerifyWarpMITag (AuthKey keys) (take (length packet - 4) packet) r 4 (drop (length packet - 4) packet))"

lemma UnprotectAudio_forged:
  assumes "forged (recvKeys p) packet" "warpMITagLen p = WarpMITagLen"
  shows "UnprotectAudio packet p = (None, p)"
  using assms by (auto simp: UnprotectAudio_def forged_def WarpMITagLen_def Let_def split: option.split)

lemma UnprotectAudio_keeps:
  "recvKeys (snd (UnprotectAudio packet p)) = recvKeys p" "warpMITagLen (snd (UnprotectAudio packet p)) = warpMITagLen p"
  "sendKeys (snd (UnprotectAudio packet p)) = sendKeys p" "sendRoc (snd (UnprotectAudio packet p)) = sendRoc p"
  "stream (snd (UnprotectAudio packet p)) = stream p"
  by (auto simp: UnprotectAudio_def Let_def split: option.split sum.split)


section \<open>A stream of frames\<close>

fun protect_all :: "bytes list \<Rightarrow> MediaPipeline \<Rightarrow> (srtp_error + bytes) list \<times> MediaPipeline" where
  "protect_all [] p = ([], p)"
| "protect_all (x # xs) p = (let (out, p) = ProtectAudio x p; (outs, p) = protect_all xs p in (out # outs, p))"

fun unprotect_all :: "bytes list \<Rightarrow> MediaPipeline \<Rightarrow> (RtpHeader \<times> bytes) option list" where
  "unprotect_all [] p = []"
| "unprotect_all (x # xs) p = (let (out, p) = UnprotectAudio x p in out # unprotect_all xs p)"

text \<open>The header of the \<open>k\<close>-th frame, and its packet.\<close>

definition frame_header :: "u32 \<Rightarrow> u32 \<Rightarrow> bytes list \<Rightarrow> nat \<Rightarrow> RtpHeader" where
  "frame_header ssrc samples xs k =
     audio_spec ssrc samples False (map (\<lambda>x. Speech x False) (take k xs)) (Speech (xs ! k) False)"

definition frame_packet :: "E2eSrtpKeys \<Rightarrow> u32 \<Rightarrow> u32 \<Rightarrow> bytes list \<Rightarrow> nat \<Rightarrow> bytes" where
  "frame_packet keys ssrc samples xs k =
     wire_packet keys (frame_header ssrc samples xs k) (word_of_nat ((k + 1) div 65536)) (xs ! k)"

lemma frame_header_simps [simp]:
  "k < length xs \<Longrightarrow> SequenceNumber (frame_header ssrc n xs k) = word_of_nat (k + 1)"
  "PayloadType (frame_header ssrc n xs k) = 120"
  by (simp_all add: frame_header_def audio_spec_def)

text \<open>The sender after \<open>k\<close> frames.\<close>

definition sender_at :: "E2eSrtpKeys \<Rightarrow> u32 \<Rightarrow> u32 \<Rightarrow> bytes list \<Rightarrow> MediaPipeline \<Rightarrow> bool" where
  "sender_at keys ssrc samples before p \<longleftrightarrow>
     sendKeys p = keys \<and> warpMITagLen p = WarpMITagLen \<and>
     stream p = audio_state ssrc samples False (map (\<lambda>x. Speech x False) before) \<and>
     (if before = [] then sendRoc p = new_RocTracker else tracks (sendRoc p) (length before)) \<and>
     packetsSent p = word_of_nat (length before) \<and> octetsSent p = word_of_nat (length (concat before))"

lemma ProtectAudio_step:
  assumes "wf_keys keys" "sender_at keys ssrc n before p"
  shows "fst (ProtectAudio x p) = Inr (frame_packet keys ssrc n (before @ x # after) (length before))"
    and "sender_at keys ssrc n (before @ [x]) (snd (ProtectAudio x p))"
proof -
  let ?h = "frame_header ssrc n (before @ x # after) (length before)"
  have np: "NextPacket x False (stream p) = (?h, audio_state ssrc n False (map (\<lambda>x. Speech x False) (before @ [x])))"
    using send_audio_step [of "Speech x False" ssrc n False "map (\<lambda>x. Speech x False) before"] assms(2)
    by (simp add: sender_at_def frame_header_def nth_append)
  let ?p = "p\<lparr>stream := audio_state ssrc n False (map (\<lambda>x. Speech x False) (before @ [x]))\<rparr>"
  have adv: "fst (Advance (SequenceNumber ?h) (sendRoc p)) = word_of_nat ((length before + 1) div 65536)"
    "tracks (snd (Advance (SequenceNumber ?h) (sendRoc p))) (length before + 1)"
    using Advance_first [of 1] Advance_tracks [of "sendRoc p" "length before" "length before + 1"] assms(2)
    by (auto simp: sender_at_def split: if_splits)
  have keys: "wf_keys (sendKeys ?p)" "warpMITagLen ?p = WarpMITagLen" using assms by (simp_all add: sender_at_def)
  note w = ProtectRTP_wire [OF keys, of ?h x]
  show "fst (ProtectAudio x p) = Inr (frame_packet keys ssrc n (before @ x # after) (length before))"
    using w(1) adv assms(2) unfolding ProtectAudio_RTP np by (simp add: frame_packet_def nth_append sender_at_def)
  show "sender_at keys ssrc n (before @ [x]) (snd (ProtectAudio x p))"
    using w(2-) adv assms(2) unfolding ProtectAudio_RTP np by (simp add: sender_at_def)
qed

lemma protect_all_packets:
  assumes "wf_keys keys" "sender_at keys ssrc n before p"
  shows "fst (protect_all xs p) = map (\<lambda>k. Inr (frame_packet keys ssrc n (before @ xs) (length before + k))) [0..<length xs] \<and>
    sender_at keys ssrc n (before @ xs) (snd (protect_all xs p))"
  using assms(2)
proof (induction xs arbitrary: before p)
  case (Cons x xs)
  from Cons.IH [OF ProtectAudio_step(2) [OF assms(1) Cons.prems, of x]]
    ProtectAudio_step(1) [OF assms(1) Cons.prems, of x xs] show ?case
    by (simp add: split_beta upt_conv_Cons map_Suc_upt [symmetric] del: upt_Suc)
qed simp

text \<open>What reaches the receiver: packets of the stream in any order, repeated or missing, and others.\<close>

datatype arrival = Frame nat | Other bytes

fun arrival_bytes :: "(nat \<Rightarrow> bytes) \<Rightarrow> arrival \<Rightarrow> bytes" where
  "arrival_bytes pkt (Frame k) = pkt k"
| "arrival_bytes pkt (Other b) = b"

fun arrival_ok :: "E2eSrtpKeys \<Rightarrow> bytes list \<Rightarrow> arrival \<Rightarrow> bool" where
  "arrival_ok keys xs (Frame k) \<longleftrightarrow> k < length xs"
| "arrival_ok keys xs (Other b) \<longleftrightarrow> forged keys b"

fun arrival_result :: "u32 \<Rightarrow> u32 \<Rightarrow> bytes list \<Rightarrow> arrival \<Rightarrow> (RtpHeader \<times> bytes) option" where
  "arrival_result ssrc n xs (Frame k) =
     (if xs ! k = [] then None else Some ((frame_header ssrc n xs k)\<lparr>ExtensionWord := None\<rparr>, xs ! k))"
| "arrival_result ssrc n xs (Other b) = None"

fun frame_numbers :: "arrival list \<Rightarrow> nat list" where
  "frame_numbers [] = []"
| "frame_numbers (Frame k # as) = (k + 1) # frame_numbers as"
| "frame_numbers (Other b # as) = frame_numbers as"

text \<open>The arrivals without the frames that are empty.\<close>

fun has_payload :: "bytes list \<Rightarrow> arrival \<Rightarrow> bool" where
  "has_payload xs (Frame k) \<longleftrightarrow> xs ! k \<noteq> []"
| "has_payload xs (Other b) \<longleftrightarrow> True"

text \<open>The packet counters, starting at 1, arrive near each other, and the first of them before a wrap.\<close>

definition in_window :: "nat list \<Rightarrow> bool" where
  "in_window ns \<longleftrightarrow> (case ns of [] \<Rightarrow> True | i # is \<Rightarrow> i < 65536 \<and> near_max i is)"

definition receiver_at :: "E2eSrtpKeys \<Rightarrow> nat option \<Rightarrow> MediaPipeline \<Rightarrow> bool" where
  "receiver_at keys s p \<longleftrightarrow> recvKeys p = keys \<and> warpMITagLen p = WarpMITagLen \<and>
     (case s of None \<Rightarrow> recvRoc p = new_RecvRocTracker | Some s \<Rightarrow> rtracks (recvRoc p) s)"

definition window_from :: "nat option \<Rightarrow> nat list \<Rightarrow> bool" where
  "window_from s ns = (case s of None \<Rightarrow> in_window ns | Some s \<Rightarrow> near_max s ns)"

text \<open>A packet that carries counter \<open>i\<close> is opened, for any header and payload.\<close>

lemma UnprotectAudio_numbered:
  assumes "wf_keys keys" "receiver_at keys s p" "PayloadType h < 128" "SequenceNumber h = word_of_nat i" "x \<noteq> []"
    "window_from s (i # ns)"
  shows "fst (UnprotectAudio (wire_packet keys h (word_of_nat (i div 65536)) x) p) = Some (h\<lparr>ExtensionWord := None\<rparr>, x)"
    and "\<exists>s'. receiver_at keys (Some s') (snd (UnprotectAudio (wire_packet keys h (word_of_nat (i div 65536)) x) p)) \<and> near_max s' ns"
proof -
  let ?r = "word_of_nat (i div 65536) :: u32"
  have roc: "EstimateRoc (SequenceNumber h) (recvRoc p) = ?r \<and>
    (\<exists>s'. rtracks (CommitRoc ?r (SequenceNumber h) (recvRoc p)) s' \<and> near_max s' ns)"
  proof (cases s)
    case None
    with assms(2,6) show ?thesis unfolding assms(4)
      by (intro conjI exI [of _ i])
         (simp_all add: receiver_at_def window_from_def in_window_def EstimateRoc_def CommitRoc_def new_RecvRocTracker_def rtracks_def)
  next
    case (Some t)
    then have t: "rtracks (recvRoc p) t" "i < t + 32768" "t < i + 32768" "near_max (max t i) ns"
      using assms(2,6) by (simp_all add: receiver_at_def window_from_def)
    show ?thesis unfolding assms(4)
      using EstimateRoc_near [OF t(1-3)] GuessRoc_near(2) [OF t(1-3)] t(4) by (auto simp: GuessRoc_def Let_def)
  qed
  have k: "wf_keys (recvKeys p)" "warpMITagLen p = WarpMITagLen" and keys: "recvKeys p = keys"
    using assms(1,2) by (simp_all add: receiver_at_def)
  from UnprotectAudio_wire [OF k assms(3,5), of ?r] roc
  show "fst (UnprotectAudio (wire_packet keys h ?r x) p) = Some (h\<lparr>ExtensionWord := None\<rparr>, x)"
    "\<exists>s'. receiver_at keys (Some s') (snd (UnprotectAudio (wire_packet keys h ?r x) p)) \<and> near_max s' ns"
    using k(2) keys by (auto simp: receiver_at_def)
qed

lemma UnprotectAudio_frame:
  assumes "wf_keys keys" "receiver_at keys s p" "k < length xs" "xs ! k \<noteq> []" "window_from s ((k + 1) # ns)"
  shows "fst (UnprotectAudio (frame_packet keys ssrc n xs k) p) = arrival_result ssrc n xs (Frame k)"
    and "\<exists>s'. receiver_at keys (Some s') (snd (UnprotectAudio (frame_packet keys ssrc n xs k) p)) \<and> near_max s' ns"
  using UnprotectAudio_numbered [OF assms(1,2) _ _ assms(4,5), of "frame_header ssrc n xs k"] assms(3,4)
  by (simp_all add: frame_packet_def)

lemma unprotect_all_arrivals:
  assumes "wf_keys keys" "receiver_at keys s p" "\<forall>a\<in>set as. arrival_ok keys xs a"
    "window_from s (frame_numbers (filter (has_payload xs) as))"
  shows "unprotect_all (map (arrival_bytes (frame_packet keys ssrc n xs)) as) p = map (arrival_result ssrc n xs) as"
  using assms(2-)
proof (induction as arbitrary: s p)
  case (Cons a as)
  show ?case
  proof (cases a)
    case (Frame k)
    have kl: "k < length xs" using Cons.prems(2) Frame by simp
    show ?thesis
    proof (cases "xs ! k = []")
      case True
      have "UnprotectAudio (frame_packet keys ssrc n xs k) p = (None, p)"
        using UnprotectAudio_empty Cons.prems(1) by (simp add: frame_packet_def True receiver_at_def)
      with Cons.IH [OF Cons.prems(1)] Cons.prems(2,3) Frame True show ?thesis by simp
    next
      case False
      then have w: "window_from s ((k + 1) # frame_numbers (filter (has_payload xs) as))" using Cons.prems(3) Frame by simp
      have k: "k < length xs" "xs ! k \<noteq> []" using kl False by simp_all
      note u = UnprotectAudio_frame [OF assms(1) Cons.prems(1) k w, of ssrc n]
      from u(2) obtain s' where "receiver_at keys (Some s') (snd (UnprotectAudio (frame_packet keys ssrc n xs k) p))"
        "near_max s' (frame_numbers (filter (has_payload xs) as))" by blast
      with Cons.IH [of "Some s'"] Cons.prems(2) u(1) Frame show ?thesis by (simp add: split_beta window_from_def)
    qed
  next
    case (Other b)
    with Cons.prems have "UnprotectAudio b p = (None, p)"
      by (intro UnprotectAudio_forged) (simp_all add: receiver_at_def)
    with Other Cons show ?thesis by simp
  qed
qed simp


section \<open>A call\<close>

lemma NewMediaPipeline_total:
  assumes "32 \<le> length callKey"
  obtains p send recv where "NewMediaPipeline callKey self peer ssrc n = Inr p"
    "DeriveE2eKeys callKey (FormatE2ESrtpParticipantID self) = Inr send" "wf_keys send"
    "DeriveE2eKeys callKey (FormatE2ESrtpParticipantID peer) = Inr recv" "wf_keys recv"
    "sender_at send ssrc n [] p" "receiver_at recv None p"
proof -
  obtain send where s: "DeriveE2eKeys callKey (FormatE2ESrtpParticipantID self) = Inr send" "wf_keys send"
    using derive_keys_total [of callKey "FormatE2ESrtpParticipantID self" "[]"] assms by auto
  obtain recv where r: "DeriveE2eKeys callKey (FormatE2ESrtpParticipantID peer) = Inr recv" "wf_keys recv"
    using derive_keys_total [of callKey "FormatE2ESrtpParticipantID peer" "[]"] assms by auto
  have "NewMediaPipeline callKey self peer ssrc n =
     Inr \<lparr>sendKeys = send, recvKeys = recv, warpMITagLen = WarpMITagLen, stream = NewRtpStream ssrc n False,
       sendRoc = new_RocTracker, recvRoc = new_RecvRocTracker, packetsSent = 0, octetsSent = 0, rtpTimestamp = 0\<rparr>"
    by (simp add: NewMediaPipeline_def s r)
  from that [OF this s r] show thesis by (simp add: sender_at_def receiver_at_def audio_state_def NewRtpStream_def)
qed

text \<open>
  C18: two ends of a call, set up from the same call key with their names swapped: whatever
  frames one end protects, every packet of a non-empty frame that arrives is opened to exactly the
  frame that was sent and the header it was sent with (but for the audio extension word, which is not read back), each time it arrives:
  the pipeline itself has no replay check, so a repeated packet is opened again. This holds for packets lost, repeated or
  reordered within 32768 positions and across any number of wraps of the sequence number.
  The packet of an empty frame gives nothing, and packets whose tag does not verify give nothing; neither disturbs the others. The sender
  reports count the frames and their bytes.
\<close>

theorem media_delivered:
  assumes "32 \<le> length callKey"
    "NewMediaPipeline callKey a b ssrc n = Inr sender" "NewMediaPipeline callKey b a ssrc' n' = Inr receiver"
    "\<forall>x\<in>set as. arrival_ok (recvKeys receiver) xs x" "in_window (frame_numbers (filter (has_payload xs) as))"
  shows "\<exists>pkt. fst (protect_all xs sender) = map (\<lambda>k. Inr (pkt k)) [0..<length xs] \<and>
    unprotect_all (map (arrival_bytes pkt) as) receiver = map (arrival_result ssrc n xs) as \<and>
    PacketsSent (SenderStats (snd (protect_all xs sender))) = word_of_nat (length xs) \<and>
    OctetsSent (SenderStats (snd (protect_all xs sender))) = word_of_nat (length (concat xs))"
proof -
  obtain send where s: "DeriveE2eKeys callKey (FormatE2ESrtpParticipantID a) = Inr send" "wf_keys send"
    "sender_at send ssrc n [] sender"
    by (rule NewMediaPipeline_total [OF assms(1), of a b ssrc n]) (use assms(2) in auto)
  obtain recv where r: "DeriveE2eKeys callKey (FormatE2ESrtpParticipantID a) = Inr recv" "receiver_at recv None receiver"
    by (rule NewMediaPipeline_total [OF assms(1), of b a ssrc' n']) (use assms(3) in auto)
  have recv: "recv = send" "recvKeys receiver = send" using s(1) r by (auto simp: receiver_at_def)
  note sent = protect_all_packets [OF s(2,3), of xs]
  have "unprotect_all (map (arrival_bytes (frame_packet send ssrc n xs)) as) receiver = map (arrival_result ssrc n xs) as"
    by (rule unprotect_all_arrivals [OF s(2), of None])
       (use r recv assms(4,5) in \<open>simp_all add: window_from_def\<close>)
  with sent show ?thesis
    by (intro exI [of _ "frame_packet send ssrc n xs"]) (simp add: sender_at_def SenderStats_def)
qed

text \<open>Frames 3, 1, an empty one, 1 again, and a packet that is too short to be one.\<close>

lemma short_forged: "length b < 4 \<Longrightarrow> forged keys b"
  by (auto simp: forged_def VerifyWarpMITag_def)

theorem media_delivered_witness:
  "\<exists>sender receiver (pkt :: nat \<Rightarrow> bytes). NewMediaPipeline (replicate 32 7) ''a'' ''b'' 5 960 = Inr sender \<and>
     NewMediaPipeline (replicate 32 7) ''b'' ''a'' 6 960 = Inr receiver \<and>
     fst (protect_all [[1], [], [4]] sender) = [Inr (pkt 0), Inr (pkt 1), Inr (pkt 2)] \<and>
     map (map_option snd) (unprotect_all [pkt 2, pkt 0, pkt 1, [9], pkt 0] receiver) = [Some [4], Some [1], None, None, Some [1]]"
proof -
  have k: "32 \<le> length (replicate 32 (7 :: byte))" by simp
  obtain sender where s: "NewMediaPipeline (replicate 32 7) ''a'' ''b'' 5 960 = Inr sender"
    by (rule NewMediaPipeline_total [OF k])
  obtain receiver where r: "NewMediaPipeline (replicate 32 7) ''b'' ''a'' 6 960 = Inr receiver"
    by (rule NewMediaPipeline_total [OF k])
  have as: "\<forall>x\<in>set [Frame 2, Frame 0, Frame 1, Other [9], Frame 0]. arrival_ok (recvKeys receiver) [[1], [], [4]] x"
    "in_window (frame_numbers (filter (has_payload [[1], [], [4]]) [Frame 2, Frame 0, Frame 1, Other [9], Frame 0]))"
    by (simp_all add: in_window_def short_forged)
  have idx: "[0..<length [[1 :: byte], [], [4]]] = [0, 1, 2]" by (simp add: upt_rec)
  obtain pkt where "fst (protect_all [[1], [], [4]] sender) = map (\<lambda>k. Inr (pkt k)) [0..<length [[1 :: byte], [], [4]]]"
    "unprotect_all (map (arrival_bytes pkt) [Frame 2, Frame 0, Frame 1, Other [9], Frame 0]) receiver =
       map (arrival_result 5 960 [[1], [], [4]]) [Frame 2, Frame 0, Frame 1, Other [9], Frame 0]"
    using media_delivered [OF k s r as] by blast
  then have "fst (protect_all [[1], [], [4]] sender) = [Inr (pkt 0), Inr (pkt 1), Inr (pkt 2)]"
    "map (map_option snd) (unprotect_all [pkt 2, pkt 0, pkt 1, [9], pkt 0] receiver) = [Some [4], Some [1], None, None, Some [1]]"
    unfolding idx by simp_all
  with s r show ?thesis
    by - (rule exI [of _ sender], rule exI [of _ receiver], rule exI [of _ pkt], intro conjI)
qed

end
