(* ===== verification/AudioPath.thy ===== *)
theory AudioPath
  imports Prelude "HOL-Library.AList" "HOL-Library.Char_ord" "HOL-Library.List_Lexorder" "HOL-Library.Multiset"
begin

text \<open>
  The way of decoded audio to the listener: the playout buffer that turns timestamped frames into a
  continuous stream (\<^verbatim>\<open>wa-core/call_audio_playout.go\<close>), and the mixer of a group call with its framer
  (\<^verbatim>\<open>wa-core/call_group_audio_mixer.go\<close>). A sample is of any type with the operations the code uses on
  \<open>float32\<close>; no law of arithmetic is assumed of them, in particular addition need not be associative.
\<close>

section \<open>The playout buffer\<close>

definition SampleRate :: nat where "SampleRate = 16000"
definition FrameSamples :: nat where "FrameSamples = 960"
definition audioPlayoutPrefillSamples :: nat where "audioPlayoutPrefillSamples = 2 * FrameSamples"
definition audioPlayoutMaxGapSamples :: nat where "audioPlayoutMaxGapSamples = 2 * SampleRate"

record 's audioPlayoutBuffer =
  pending :: "(u32 \<times> 's list) option"
  prefill :: "'s list list"
  prefillSamples :: int
  started :: bool

definition newAudioPlayoutBuffer :: "'s audioPlayoutBuffer" where
  "newAudioPlayoutBuffer = \<lparr>pending = None, prefill = [], prefillSamples = 0, started = False\<rparr>"

text \<open>
  A sink is what it has been written and, for the next frame, whether it fails; \<open>None\<close> is the nil sink.
\<close>

record ('s, 'e) sink =
  written :: "'s list list"
  fails :: "'s list list \<Rightarrow> 's list \<Rightarrow> 'e option"

definition WriteFrame :: "'s list \<Rightarrow> ('s, 'e) sink \<Rightarrow> 'e option \<times> ('s, 'e) sink" where
  "WriteFrame frame s =
     (case fails s (written s) frame of Some e \<Rightarrow> (Some e, s) | None \<Rightarrow> (None, s\<lparr>written := written s @ [frame]\<rparr>))"

definition alignAudioFrame :: "'s :: zero list \<Rightarrow> nat \<Rightarrow> 's list" where
  "alignAudioFrame frame samples =
     (let maxSamples = max (length frame) FrameSamples;
          samples = (if maxSamples < samples then maxSamples else samples)
      in if samples = length frame then frame
         else take samples (frame @ replicate samples 0))"

definition playout_reset :: "u32 \<Rightarrow> 's list \<Rightarrow> 's audioPlayoutBuffer \<Rightarrow> 's audioPlayoutBuffer" where
  "playout_reset timestamp frame p =
     p\<lparr>pending := Some (timestamp, frame), prefill := [], prefillSamples := 0, started := False\<rparr>"

text \<open>The loop that drops the oldest frames of a prefill that is too long.\<close>

fun trim_prefill :: "'s list list \<Rightarrow> int \<Rightarrow> 's list list \<times> int" where
  "trim_prefill (x # y # xs) n =
     (if int audioPlayoutMaxGapSamples < n then trim_prefill (y # xs) (n - int (length x)) else (x # y # xs, n))"
| "trim_prefill xs n = (xs, n)"

text \<open>The loop that writes the prefill out; on an error the frames not written stay.\<close>

fun flush_prefill :: "'s list list \<Rightarrow> int \<Rightarrow> ('s, 'e) sink \<Rightarrow> 'e option \<times> 's list list \<times> int \<times> ('s, 'e) sink" where
  "flush_prefill [] n s = (None, [], n, s)"
| "flush_prefill (x # xs) n s =
     (case WriteFrame x s of
        (Some e, s) \<Rightarrow> (Some e, x # xs, n, s)
      | (None, s) \<Rightarrow> flush_prefill xs (n - int (length x)) s)"

text \<open>The result: whether playout started now, the error of the sink, the buffer and the sink.\<close>

definition playout_Push :: "u32 \<Rightarrow> 's :: zero list \<Rightarrow> ('s, 'e) sink option \<Rightarrow> 's audioPlayoutBuffer \<Rightarrow>
    (bool \<times> 'e option) \<times> 's audioPlayoutBuffer \<times> ('s, 'e) sink option" where
  "playout_Push timestamp frame sink p =
     (case pending p of
        None \<Rightarrow> ((False, None), p\<lparr>pending := Some (timestamp, frame)\<rparr>, sink)
      | Some (prev_timestamp, prev_pcm) \<Rightarrow>
          let delta = timestamp - prev_timestamp
          in if delta = 0 \<or> word_of_nat audioPlayoutMaxGapSamples < delta
             then ((False, None), playout_reset timestamp frame p, sink)
             else
               let ready = alignAudioFrame prev_pcm (unat delta);
                   p = p\<lparr>pending := Some (timestamp, frame)\<rparr>
               in case (started p, sink) of
                    (True, Some s) \<Rightarrow> (let (err, s) = WriteFrame ready s in ((False, err), p, Some s))
                  | _ \<Rightarrow>
                    (let p = (if started p then p\<lparr>started := False, prefill := [], prefillSamples := 0\<rparr> else p);
                         (pf, n) = trim_prefill (prefill p @ [ready]) (prefillSamples p + int (length ready));
                         p = p\<lparr>prefill := pf, prefillSamples := n\<rparr>
                     in case sink of
                          None \<Rightarrow> ((False, None), p, sink)
                        | Some s \<Rightarrow>
                            if prefillSamples p < int audioPlayoutPrefillSamples then ((False, None), p, sink)
                            else (case flush_prefill (prefill p) (prefillSamples p) s of
                                (Some e, pf, n, s) \<Rightarrow> ((False, Some e), p\<lparr>prefill := pf, prefillSamples := n\<rparr>, Some s)
                              | (None, pf, n, s) \<Rightarrow>
                                  ((True, None), p\<lparr>started := True, prefill := [], prefillSamples := n\<rparr>, Some s))))"

definition Flush :: "('s, 'e) sink option \<Rightarrow> 's audioPlayoutBuffer \<Rightarrow> 'e option \<times> 's audioPlayoutBuffer \<times> ('s, 'e) sink option" where
  "Flush sink p =
     (case (started p, pending p, sink) of
        (True, Some (_, pcm), Some s) \<Rightarrow> (let (err, s) = WriteFrame pcm s in (err, p\<lparr>pending := None\<rparr>, Some s))
      | _ \<Rightarrow> (None, p, sink))"

fun write_all :: "'s list list \<Rightarrow> ('s, 'e) sink \<Rightarrow> 'e option \<times> ('s, 'e) sink" where
  "write_all [] s = (None, s)"
| "write_all (x # xs) s = (case WriteFrame x s of (Some e, s) \<Rightarrow> (Some e, s) | (None, s) \<Rightarrow> write_all xs s)"

definition Drain :: "('s, 'e) sink option \<Rightarrow> 's audioPlayoutBuffer \<Rightarrow> 'e option \<times> 's audioPlayoutBuffer \<times> ('s, 'e) sink option" where
  "Drain sink p =
     (let frames = prefill p @ (case pending p of Some (_, pcm) \<Rightarrow> [pcm] | None \<Rightarrow> []);
          p = p\<lparr>pending := None, prefill := [], prefillSamples := 0, started := False\<rparr>
      in case sink of None \<Rightarrow> (None, p, None)
         | Some s \<Rightarrow> (let (err, s) = write_all frames s in (err, p, Some s)))"

section \<open>Playout in order\<close>

lemma length_alignAudioFrame:
  "length (alignAudioFrame frame n) = min n (max (length frame) 960)"
  by (auto simp: alignAudioFrame_def FrameSamples_def Let_def)

text \<open>Aligning keeps the samples in front; what is added is silence, never more than one frame.\<close>

lemma alignAudioFrame_samples:
  "alignAudioFrame frame n = take (min n (max (length frame) 960)) (frame @ replicate 960 0)"
  by (auto simp: alignAudioFrame_def FrameSamples_def Let_def min_def max_def)

text \<open>Pushing a list of timestamped frames into a sink that never fails.\<close>

fun push_all :: "(u32 \<times> 's :: zero list) list \<Rightarrow> ('s, 'e) sink option \<Rightarrow> 's audioPlayoutBuffer \<Rightarrow>
    's audioPlayoutBuffer \<times> ('s, 'e) sink option" where
  "push_all [] sink p = (p, sink)"
| "push_all ((t, frame) # xs) sink p = (let (_, p, sink) = playout_Push t frame sink p in push_all xs sink p)"

text \<open>The frames that are ready: each frame but the last, aligned to the timestamp of its successor.\<close>

fun ready_frames :: "(u32 \<times> 's :: zero list) list \<Rightarrow> 's list list" where
  "ready_frames ((t, frame) # (t', frame') # xs) = alignAudioFrame frame (unat (t' - t)) # ready_frames ((t', frame') # xs)"
| "ready_frames _ = []"

text \<open>A stream without long gaps: timestamps grow by at most two seconds, frames last less than two.\<close>

fun continuous :: "(u32 \<times> 's list) list \<Rightarrow> bool" where
  "continuous ((t, frame) # (t', frame') # xs) \<longleftrightarrow>
     t \<noteq> t' \<and> unat (t' - t) \<le> 32000 \<and> length frame \<le> 30000 \<and> continuous ((t', frame') # xs)"
| "continuous _ = True"

abbreviation never_fails :: "('s, 'e) sink \<Rightarrow> bool" where
  "never_fails s \<equiv> (\<forall>w x. fails s w x = None)"


lemma WriteFrame_ok: "never_fails s \<Longrightarrow> WriteFrame x s = (None, s\<lparr>written := written s @ [x]\<rparr>)"
  by (simp add: WriteFrame_def)

lemma flush_prefill_ok:
  "never_fails s \<Longrightarrow> flush_prefill xs n s = (None, [], n - int (length (concat xs)), s\<lparr>written := written s @ xs\<rparr>)"
proof (induction xs arbitrary: n s)
  case (Cons x xs)
  from Cons.prems show ?case
    by (simp add: WriteFrame_ok Cons.IH [of "s\<lparr>written := written s @ [x]\<rparr>"] algebra_simps)
qed simp

lemma trim_prefill_short: "n \<le> 32000 \<Longrightarrow> trim_prefill xs n = (xs, n)"
  by (induction xs n rule: trim_prefill.induct) (auto simp: audioPlayoutMaxGapSamples_def SampleRate_def)

text \<open>The buffer and the sink after the ready frames \<open>rs\<close>, with \<open>x\<close> pending.\<close>

definition playing :: "'s list list \<Rightarrow> u32 \<times> 's list \<Rightarrow> ('s, 'e) sink \<Rightarrow> 's audioPlayoutBuffer \<Rightarrow> bool" where
  "playing rs x s p \<longleftrightarrow> pending p = Some x \<and> never_fails s \<and>
     (if length (concat rs) < 1920
      then \<not> started p \<and> prefill p = rs \<and> prefillSamples p = int (length (concat rs)) \<and> written s = []
      else started p \<and> prefill p = [] \<and> written s = rs)"

lemma playout_Push_step:
  assumes "playing rs (t, frame) s p" "t \<noteq> t'" "unat (t' - t) \<le> 32000" "length frame \<le> 30000"
  shows "\<exists>res p' s'. playout_Push t' frame' (Some s) p = (res, p', Some s') \<and>
    playing (rs @ [alignAudioFrame frame (unat (t' - t))]) (t', frame') s' p'"
proof -
  let ?r = "alignAudioFrame frame (unat (t' - t))"
  have r: "length ?r \<le> 30000" using assms(4) by (simp add: length_alignAudioFrame)
  have gap: "\<not> (t' - t = 0 \<or> word_of_nat audioPlayoutMaxGapSamples < t' - t)"
    using assms(2,3) by (simp add: audioPlayoutMaxGapSamples_def SampleRate_def word_less_nat_alt)
  have pen: "pending p = Some (t, frame)" "never_fails s" using assms(1) by (simp_all add: playing_def)
  note push = playout_Push_def [of t' frame' "Some s" p, unfolded pen(1) option.case prod.case Let_def if_not_P [OF gap]]
  show ?thesis
  proof (cases "length (concat rs) < 1920")
    case True
    then have p: "\<not> started p" "prefill p = rs" "prefillSamples p = int (length (concat rs))" "written s = []"
      using assms(1) by (simp_all add: playing_def)
    have short: "trim_prefill (rs @ [?r]) (int (length (concat rs)) + int (length ?r)) =
      (rs @ [?r], int (length (concat rs)) + int (length ?r))"
      using True r by (intro trim_prefill_short) linarith
    show ?thesis
      using True p pen short unfolding push
      by (auto simp: flush_prefill_ok playing_def audioPlayoutPrefillSamples_def FrameSamples_def)
  next
    case False
    then have "started p" "prefill p = []" "written s = rs" using assms(1) by (simp_all add: playing_def)
    with False pen show ?thesis unfolding push by (auto simp: WriteFrame_ok playing_def)
  qed
qed

lemma push_all_playing:
  assumes "playing rs x s p" "continuous (x # xs)"
  shows "\<exists>p' s' y. push_all xs (Some s) p = (p', Some s') \<and> playing (rs @ ready_frames (x # xs)) y s' p'"
  using assms
proof (induction xs arbitrary: rs x s p)
  case (Cons y ys)
  obtain t frame t' frame' where xy: "x = (t, frame)" "y = (t', frame')" by fastforce
  have c: "t \<noteq> t'" "unat (t' - t) \<le> 32000" "length frame \<le> 30000" "continuous (y # ys)"
    using Cons.prems(2) xy by simp_all
  obtain res p' s' where step: "playout_Push t' frame' (Some s) p = (res, p', Some s')"
    "playing (rs @ [alignAudioFrame frame (unat (t' - t))]) y s' p'"
    using playout_Push_step [OF _ c(1-3)] Cons.prems(1) xy by blast
  from Cons.IH [OF step(2) c(4)] step(1) show ?case by (auto simp: xy)
qed (auto simp: ready_frames.simps)

text \<open>
  C26: for every stream of frames without gaps of more than two seconds, pushed with any
  timestamps across the wrap of the 32-bit clock, the sink is given exactly the frames but the
  last, in order, each cut or padded with silence to the time until its successor (by at most
  one frame), as soon as 120 ms are buffered, and nothing before.
\<close>

theorem playout_in_order:
  assumes "continuous xs" "never_fails s" "written s = []"
  shows "\<exists>p' s'. push_all xs (Some s) newAudioPlayoutBuffer = (p', Some s') \<and>
    written s' = (if length (concat (ready_frames xs)) < audioPlayoutPrefillSamples then [] else ready_frames xs)"
proof (cases xs)
  case Nil
  then show ?thesis using assms by (simp add: audioPlayoutPrefillSamples_def FrameSamples_def)
next
  case (Cons x ys)
  obtain t frame where x: "x = (t, frame)" by fastforce
  let ?p = "newAudioPlayoutBuffer\<lparr>pending := Some x\<rparr> :: 'a audioPlayoutBuffer"
  have "playing [] x s ?p" using assms by (simp add: playing_def newAudioPlayoutBuffer_def)
  from push_all_playing [OF this, of ys] assms(1) Cons obtain p' s' y where
    p: "push_all ys (Some s) ?p = (p', Some s')" "playing (ready_frames xs) y s' p'" by auto
  have "push_all xs (Some s) newAudioPlayoutBuffer = push_all ys (Some s) ?p"
    by (simp add: Cons x playout_Push_def newAudioPlayoutBuffer_def)
  with p show ?thesis
    by (auto simp: playing_def audioPlayoutPrefillSamples_def FrameSamples_def)
qed


theorem playout_in_order_witness:
  "\<exists>p' s'. push_all [(0xfffffc40, replicate 960 (1 :: int)), (0, [2]), (960, replicate 960 3), (1920, [])]
       (Some \<lparr>written = [], fails = (\<lambda>_ _. None :: unit option)\<rparr>) newAudioPlayoutBuffer = (p', Some s') \<and>
     written s' = [replicate 960 1, 2 # replicate 959 0, replicate 960 3]"
proof -
  let ?xs = "[(0xfffffc40, replicate 960 (1 :: int)), (0, [2]), (960, replicate 960 3), (1920, [])] :: (u32 \<times> int list) list"
  let ?s = "\<lparr>written = [], fails = (\<lambda>_ _. None :: unit option)\<rparr> :: (int, unit) sink"
  have c: "continuous ?xs" "never_fails ?s" "written ?s = []" by simp_all
  have r: "ready_frames ?xs = [replicate 960 1, 2 # replicate 959 0, replicate 960 3]"
    by (simp add: alignAudioFrame_samples take_Cons' min_def)
  show ?thesis using playout_in_order [OF c] unfolding r
    by (simp add: audioPlayoutPrefillSamples_def FrameSamples_def)
qed

section \<open>The mixer of a group call\<close>

definition participantAudioMixChunkSamples :: nat where
  "participantAudioMixChunkSamples = SampleRate div 100"

definition participantAudioMixerPrefillSamples :: nat where
  "participantAudioMixerPrefillSamples = 2 * FrameSamples"

definition participantAudioMixerMaxSamples :: nat where
  "participantAudioMixerMaxSamples = 4 * FrameSamples"

record 's participantAudioMixQueue =
  mq_pending :: "'s list"
  mq_started :: bool

text \<open>The map of streams is an association list with distinct keys, in any order.\<close>

record 's participantAudioMixer =
  streams :: "(string \<times> 's participantAudioMixQueue) list"
  allowed :: "string set"
  rosterApplied :: bool

definition newParticipantAudioMixer :: "'s participantAudioMixer" where
  "newParticipantAudioMixer = \<lparr>streams = [], allowed = {}, rosterApplied = False\<rparr>"

definition shouldStartParticipantMixing :: "string list \<Rightarrow> bool" where
  "shouldStartParticipantMixing activeParticipantIDs \<longleftrightarrow> 1 < length activeParticipantIDs"

text \<open>The queue after new samples: only the last 3840 samples are kept.\<close>

definition enqueue :: "'s list \<Rightarrow> 's participantAudioMixQueue \<Rightarrow> 's participantAudioMixQueue" where
  "enqueue pcm queue =
     (if participantAudioMixerMaxSamples \<le> length pcm
      then queue\<lparr>mq_pending := drop (length pcm - participantAudioMixerMaxSamples) pcm\<rparr>
      else
        let overflow = int (length (mq_pending queue)) + int (length pcm) - int participantAudioMixerMaxSamples;
            queue = (if 0 < overflow then queue\<lparr>mq_pending := drop (nat overflow) (mq_pending queue)\<rparr> else queue)
        in queue\<lparr>mq_pending := mq_pending queue @ pcm\<rparr>)"

definition mixer_Add :: "string \<Rightarrow> 's list \<Rightarrow> 's participantAudioMixer \<Rightarrow> bool \<times> 's participantAudioMixer" where
  "mixer_Add participantID pcm m =
     (if participantID = [] \<or> length pcm = 0 then (False, m)
      else if rosterApplied m \<and> participantID \<notin> allowed m then (False, m)
      else
        let queue = (case map_of (streams m) participantID of Some q \<Rightarrow> q | None \<Rightarrow> \<lparr>mq_pending = [], mq_started = False\<rparr>)
        in (True, m\<lparr>streams := AList.update participantID (enqueue pcm queue) (streams m)\<rparr>))"

definition mixer_Retain :: "string list \<Rightarrow> 's participantAudioMixer \<Rightarrow> 's participantAudioMixer" where
  "mixer_Retain participantIDs m =
     (let al = set (filter (\<lambda>i. i \<noteq> []) participantIDs)
      in m\<lparr>allowed := al, rosterApplied := True, streams := filter (\<lambda>(i, _). i \<in> al) (streams m)\<rparr>)"

text \<open>One participant's contribution to a chunk.\<close>

definition mix_queue :: "'s :: plus participantAudioMixQueue \<Rightarrow> 's list \<Rightarrow> ('s list \<times> bool) \<times> 's participantAudioMixQueue" where
  "mix_queue queue mixed =
     (if \<not> mq_started queue \<and> length (mq_pending queue) < participantAudioMixerPrefillSamples then ((mixed, False), queue)
      else
        let queue = queue\<lparr>mq_started := True\<rparr>
        in if length (mq_pending queue) < participantAudioMixChunkSamples then ((mixed, False), queue\<lparr>mq_started := False\<rparr>)
           else ((map2 (+) mixed (take participantAudioMixChunkSamples (mq_pending queue)), True),
                 queue\<lparr>mq_pending := drop participantAudioMixChunkSamples (mq_pending queue)\<rparr>))"

fun mix_all :: "string list \<Rightarrow> 's :: plus list \<Rightarrow> bool \<Rightarrow> (string \<times> 's participantAudioMixQueue) list \<Rightarrow>
    ('s list \<times> bool) \<times> (string \<times> 's participantAudioMixQueue) list" where
  "mix_all [] mixed contributed al = ((mixed, contributed), al)"
| "mix_all (i # is) mixed contributed al =
     (case map_of al i of
        None \<Rightarrow> mix_all is mixed contributed al
      | Some queue \<Rightarrow>
          (let ((mixed, c), queue) = mix_queue queue mixed
           in mix_all is mixed (contributed \<or> c) (AList.update i queue al)))"

definition clamp :: "'s :: {one, uminus, ord} \<Rightarrow> 's" where
  "clamp sample = (if 1 < sample then 1 else if sample < - 1 then - 1 else sample)"

definition MixChunk :: "'s :: {zero, one, plus, uminus, ord} participantAudioMixer \<Rightarrow> 's list option \<times> 's participantAudioMixer" where
  "MixChunk m =
     (let participantIDs = sort (map fst (streams m));
          ((mixed, contributed), al) = mix_all participantIDs (replicate participantAudioMixChunkSamples 0) False (streams m);
          m = m\<lparr>streams := al\<rparr>
      in if \<not> contributed then (None, m) else (Some (map clamp mixed), m))"

text \<open>The framer cuts the mixed chunks into frames of 960 samples.\<close>

definition framer_Push :: "'s list \<Rightarrow> 's list \<Rightarrow> 's list option \<times> 's list" where
  "framer_Push chunk buffered =
     (let buffered = buffered @ chunk
      in if length buffered < FrameSamples then (None, buffered)
         else (Some (take FrameSamples buffered), drop FrameSamples buffered))"

section \<open>The queues of the mixer\<close>

text \<open>A queue keeps the newest 3840 samples of what was added.\<close>

lemma enqueue_pending:
  assumes "length (mq_pending q) \<le> participantAudioMixerMaxSamples"
  shows "mq_pending (enqueue pcm q) =
    drop (length (mq_pending q @ pcm) - participantAudioMixerMaxSamples) (mq_pending q @ pcm)"
  using assms by (auto simp: enqueue_def Let_def nat_diff_distrib' nat_add_distrib)

datatype 's mixer_op = MAdd string "'s list" | MRetain "string list" | MMix

fun mixer_step :: "'s :: {zero, one, plus, uminus, ord} mixer_op \<Rightarrow> 's participantAudioMixer \<Rightarrow> 's participantAudioMixer" where
  "mixer_step (MAdd i pcm) m = snd (mixer_Add i pcm m)"
| "mixer_step (MRetain ids) m = mixer_Retain ids m"
| "mixer_step MMix m = snd (MixChunk m)"

definition wf_mixer :: "'s participantAudioMixer \<Rightarrow> bool" where
  "wf_mixer m \<longleftrightarrow> distinct (map fst (streams m)) \<and> list_all (\<lambda>(i, q). i \<noteq> [] \<and> length (mq_pending q) \<le> 3840) (streams m) \<and>
     (rosterApplied m \<longrightarrow> fst ` set (streams m) \<subseteq> allowed m)"


lemma enqueue_bounded:
  assumes "length (mq_pending q) \<le> 3840"
  shows "length (mq_pending (enqueue pcm q)) \<le> 3840"
  using assms enqueue_pending [of q pcm]
  by (auto simp: participantAudioMixerMaxSamples_def FrameSamples_def)

lemma mix_queue_bounded:
  "length (mq_pending (snd (mix_queue q mixed))) \<le> length (mq_pending q)"
  by (simp add: mix_queue_def Let_def)

lemma mix_queue_chunk:
  assumes "length mixed = participantAudioMixChunkSamples"
  shows "length (fst (fst (mix_queue q mixed))) = participantAudioMixChunkSamples"
  using assms by (simp add: mix_queue_def Let_def)

text \<open>The streams seen as a map: a pass changes no identifier and shortens queues only.\<close>

lemma mix_all_chunk:
  assumes "length mixed = participantAudioMixChunkSamples"
  shows "length (fst (fst (mix_all is mixed c al))) = participantAudioMixChunkSamples"
  using assms
proof (induction "is" mixed c al rule: mix_all.induct)
  case (2 i "is" mixed c al)
  show ?case
  proof (cases "map_of al i")
    case None
    with 2 show ?thesis by simp
  next
    case (Some q)
    obtain mixed' c' q' where mq: "mix_queue q mixed = ((mixed', c'), q')"
      by (metis prod.exhaust)
    then have "length mixed' = participantAudioMixChunkSamples"
      using mix_queue_chunk [of mixed q] 2(3) by simp
    with 2(2) Some mq show ?thesis by simp
  qed
qed simp

lemma mix_all_keys:
  "dom (map_of (snd (mix_all is mixed c al))) = dom (map_of al)"
  "distinct (map fst al) \<Longrightarrow> distinct (map fst (snd (mix_all is mixed c al)))"
  by (induction "is" mixed c al rule: mix_all.induct)
    (auto split: option.splits prod.splits simp: update_conv' distinct_update)

lemma mix_all_bounded:
  assumes "\<forall>i q. map_of al i = Some q \<longrightarrow> length (mq_pending q) \<le> 3840"
    and "map_of (snd (mix_all is mixed c al)) i = Some q"
  shows "length (mq_pending q) \<le> 3840"
  using assms
proof (induction "is" mixed c al rule: mix_all.induct)
  case (2 j "is" mixed c al)
  show ?case
  proof (cases "map_of al j")
    case None
    with 2 show ?thesis by simp
  next
    case (Some q')
    obtain mixed' c' q'' where mq: "mix_queue q' mixed = ((mixed', c'), q'')"
      by (metis prod.exhaust)
    have "length (mq_pending q'') \<le> 3840"
      using mix_queue_bounded [of q' mixed] mq 2(3) Some by fastforce
    with 2 Some mq show ?thesis by (auto simp: update_conv')
  qed
qed simp

lemma mix_all_map_of:
  assumes "map_of al = map_of al'"
  shows "fst (mix_all is mixed c al) = fst (mix_all is mixed c al') \<and>
    map_of (snd (mix_all is mixed c al)) = map_of (snd (mix_all is mixed c al'))"
  using assms
proof (induction "is" mixed c al arbitrary: al' rule: mix_all.induct)
  case (2 j "is" mixed c al)
  show ?case
  proof (cases "map_of al j")
    case None
    with 2 show ?thesis by simp
  next
    case (Some q')
    obtain mixed' c' q'' where mq: "mix_queue q' mixed = ((mixed', c'), q'')"
      by (metis prod.exhaust)
    have "map_of (AList.update j q'' al) = map_of (AList.update j q'' al')"
      using 2(3) by (simp add: update_conv')
    with 2 Some mq show ?thesis by (auto)
  qed
qed simp

text \<open>The invariant over the map: it does not speak of the order of the association list.\<close>

lemma wf_mixer_alt:
  "wf_mixer m \<longleftrightarrow> distinct (map fst (streams m)) \<and>
     (\<forall>i q. map_of (streams m) i = Some q \<longrightarrow> i \<noteq> [] \<and> length (mq_pending q) \<le> 3840) \<and>
     (rosterApplied m \<longrightarrow> dom (map_of (streams m)) \<subseteq> allowed m)"
  by (fastforce simp: wf_mixer_def list_all_iff dom_map_of_conv_image_fst)

lemma wf_new: "wf_mixer newParticipantAudioMixer"
  by (simp add: wf_mixer_def newParticipantAudioMixer_def)

lemma wf_Add:
  assumes "wf_mixer m"
  shows "wf_mixer (snd (mixer_Add i pcm m))"
  using assms enqueue_bounded
  by (auto simp del: map_of_eq_Some_iff
        simp: wf_mixer_alt mixer_Add_def Let_def update_conv' distinct_update split: option.splits if_splits)

lemma wf_Retain: "wf_mixer m \<Longrightarrow> wf_mixer (mixer_Retain ids m)"
  by (auto simp: wf_mixer_def mixer_Retain_def Let_def list_all_iff distinct_map_filter)

lemma wf_MixChunk:
  assumes "wf_mixer m"
  shows "wf_mixer (snd (MixChunk m))"
proof -
  let ?ids = "sort (map fst (streams m))"
  let ?r = "mix_all ?ids (replicate participantAudioMixChunkSamples 0) False (streams m)"
  have "snd (MixChunk m) = m\<lparr>streams := snd ?r\<rparr>"
    by (simp add: MixChunk_def Let_def case_prod_beta)
  moreover have "wf_mixer (m\<lparr>streams := snd ?r\<rparr>)"
    using assms mix_all_bounded [of "streams m" ?ids "replicate participantAudioMixChunkSamples 0" False]
      mix_all_keys(1) [of ?ids "replicate participantAudioMixChunkSamples 0" False "streams m"]
    by (fastforce simp: wf_mixer_alt mix_all_keys(2) simp del: map_of_eq_Some_iff)
  ultimately show ?thesis by simp
qed

lemma wf_mixer_step: "wf_mixer m \<Longrightarrow> wf_mixer (mixer_step op m)"
  by (cases op) (simp_all add: wf_Add wf_Retain wf_MixChunk)

lemma wf_mixer_run: "wf_mixer m \<Longrightarrow> wf_mixer (fold mixer_step ops m)"
  by (induction ops arbitrary: m) (simp_all add: wf_mixer_step)

lemma MixChunk_samples:
  fixes m :: "'s :: {zero, one, plus, uminus, ord} participantAudioMixer"
  assumes "fst (MixChunk m) = Some chunk" "\<not> (1 :: 's) < 1" "\<not> (- 1 :: 's) < - 1" "\<not> (1 :: 's) < - 1"
  shows "length chunk = 160 \<and> (\<forall>x \<in> set chunk. \<not> 1 < x \<and> \<not> x < - 1)"
proof -
  let ?r = "mix_all (sort (map fst (streams m))) (replicate participantAudioMixChunkSamples 0) False (streams m)"
  have "chunk = map clamp (fst (fst ?r))"
    using assms(1) by (simp add: MixChunk_def Let_def case_prod_beta split: if_splits)
  moreover have "length (fst (fst ?r)) = 160"
    using mix_all_chunk [of "replicate participantAudioMixChunkSamples 0"]
    by (simp add: participantAudioMixChunkSamples_def SampleRate_def)
  moreover have "\<not> 1 < clamp x \<and> \<not> clamp x < - 1" for x :: 's
    using assms(2-) by (simp add: clamp_def)
  ultimately show ?thesis by auto
qed

text \<open>
  C27: two mixers with the same participants and queues give the same chunk, whatever the order in
  which the runtime walks its map: the identifiers are sorted before the samples are added, and this is
  needed, because nothing is assumed of the addition of samples (the addition of floats is not
  associative). The queues after the chunk agree as well, so the whole output of a mixer is a function
  of what was added to it.\<close>

theorem MixChunk_deterministic:
  fixes m m' :: "'s :: {zero, one, plus, uminus, ord} participantAudioMixer"
  assumes "wf_mixer m" and "wf_mixer m'" and "map_of (streams m) = map_of (streams m')"
  shows "fst (MixChunk m) = fst (MixChunk m') \<and>
    map_of (streams (snd (MixChunk m))) = map_of (streams (snd (MixChunk m')))"
proof -
  have "set (map fst (streams m)) = set (map fst (streams m'))"
    using assms(3) by (metis dom_map_of_conv_image_fst image_set)
  with assms(1,2) have "sort (map fst (streams m)) = sort (map fst (streams m'))"
    by (intro sorted_distinct_set_unique) (auto simp: wf_mixer_def)
  with mix_all_map_of [OF assms(3)] show ?thesis
    by (simp add: MixChunk_def Let_def case_prod_beta)
qed

theorem MixChunk_deterministic_witness:
  "(let q = \<lparr>mq_pending = replicate 1920 (2 :: int), mq_started = True\<rparr>;
        r = \<lparr>mq_pending = replicate 1920 (- 1 :: int), mq_started = True\<rparr>;
        m = \<lparr>streams = [(''a'', q), (''b'', r)], allowed = {}, rosterApplied = False\<rparr>;
        m' = \<lparr>streams = [(''b'', r), (''a'', q)], allowed = {}, rosterApplied = False\<rparr>
    in wf_mixer m \<and> wf_mixer m' \<and> map_of (streams m) = map_of (streams m') \<and>
       fst (MixChunk m) = fst (MixChunk m') \<and>
       map_of (streams (snd (MixChunk m))) = map_of (streams (snd (MixChunk m'))))"
  unfolding Let_def
proof (intro conjI)
  let ?q = "\<lparr>mq_pending = replicate 1920 (2 :: int), mq_started = True\<rparr>"
  let ?r = "\<lparr>mq_pending = replicate 1920 (- 1 :: int), mq_started = True\<rparr>"
  let ?m = "\<lparr>streams = [(''a'', ?q), (''b'', ?r)], allowed = {}, rosterApplied = False\<rparr>"
  let ?m' = "\<lparr>streams = [(''b'', ?r), (''a'', ?q)], allowed = {}, rosterApplied = False\<rparr>"
  show a: "wf_mixer ?m" and b: "wf_mixer ?m'" by (simp_all add: wf_mixer_def)
  show c: "map_of (streams ?m) = map_of (streams ?m')" by (auto simp: fun_upd_twist)
  show "fst (MixChunk ?m) = fst (MixChunk ?m')"
    and "map_of (streams (snd (MixChunk ?m))) = map_of (streams (snd (MixChunk ?m')))"
    using MixChunk_deterministic [OF a b c] by simp_all
qed

text \<open>
  C28: for every sequence of additions, roster changes and chunks, no queue of the mixer is longer than
  four frames, an unknown or empty participant has no queue, and after a roster change only participants
  of the roster have one; every chunk the mixer gives next has 160 samples, none of which compares above 1 or below -1.
  The only facts used of the samples are three comparisons of constants, which hold of floats; a NaN, which
  compares with nothing, may pass, every other sample is within the bounds.\<close>

theorem mixer_bounded:
  fixes ops :: "('s :: {zero, one, plus, uminus, ord}) mixer_op list"
  assumes "\<not> (1 :: 's) < 1" "\<not> (- 1 :: 's) < - 1" "\<not> (1 :: 's) < - 1"
  shows "wf_mixer (fold mixer_step ops newParticipantAudioMixer) \<and>
    (\<forall>chunk. fst (MixChunk (fold mixer_step ops newParticipantAudioMixer)) = Some chunk \<longrightarrow>
       length chunk = 160 \<and> list_all (\<lambda>x. \<not> 1 < x \<and> \<not> x < - 1) chunk)"
  using wf_mixer_run [OF wf_new] MixChunk_samples [OF _ assms] by (fastforce simp: list_all_iff)

text \<open>Samples with a value that is no number: it compares with nothing and sums to itself.\<close>

datatype nan_sample = Num int | NaN

instantiation nan_sample :: "{zero, one, plus, uminus, ord}"
begin

definition zero_nan_sample :: nan_sample where "0 = Num 0"

definition one_nan_sample :: nan_sample where "1 = Num 1"

fun plus_nan_sample :: "nan_sample \<Rightarrow> nan_sample \<Rightarrow> nan_sample" where
  "Num a + Num b = Num (a + b)"
| "Num a + NaN = NaN"
| "NaN + b = NaN"

fun uminus_nan_sample :: "nan_sample \<Rightarrow> nan_sample" where
  "- Num a = Num (- a)"
| "- NaN = NaN"

fun less_nan_sample :: "nan_sample \<Rightarrow> nan_sample \<Rightarrow> bool" where
  "Num a < Num b \<longleftrightarrow> a < b"
| "Num a < NaN \<longleftrightarrow> False"
| "NaN < b \<longleftrightarrow> False"

fun less_eq_nan_sample :: "nan_sample \<Rightarrow> nan_sample \<Rightarrow> bool" where
  "Num a \<le> Num b \<longleftrightarrow> a \<le> b"
| "Num a \<le> NaN \<longleftrightarrow> False"
| "NaN \<le> b \<longleftrightarrow> False"

instance ..

end

text \<open>Two participants at full volume, one with a sample that is no number.\<close>

theorem mixer_bounded_witness:
  "let ops = [MAdd ''a'' (NaN # replicate 1919 (Num 1)), MAdd ''b'' (replicate 1920 (Num 1))]; chunk = NaN # replicate 159 (Num 1)
   in fst (MixChunk (fold mixer_step ops newParticipantAudioMixer)) = Some chunk \<and>
      length chunk = 160 \<and> list_all (\<lambda>x. \<not> 1 < x \<and> \<not> x < - 1) chunk"
proof -
  let ?ops = "[MAdd ''a'' (NaN # replicate 1919 (Num 1)), MAdd ''b'' (replicate 1920 (Num 1))]"
  have n: "replicate 160 (Num a) = Num a # replicate 159 (Num a)" for a
    using replicate_Suc [of 159 "Num a"] by simp
  have "fst (MixChunk (fold mixer_step ?ops newParticipantAudioMixer)) = Some (NaN # replicate 159 (Num 1))"
    by (simp add: MixChunk_def mixer_Add_def enqueue_def newParticipantAudioMixer_def mix_queue_def Let_def
      participantAudioMixerMaxSamples_def participantAudioMixChunkSamples_def participantAudioMixerPrefillSamples_def
      SampleRate_def FrameSamples_def clamp_def zip_replicate map_replicate n zero_nan_sample_def one_nan_sample_def)
  moreover have "\<not> (1 :: nan_sample) < 1" "\<not> (- 1 :: nan_sample) < - 1" "\<not> (1 :: nan_sample) < - 1"
    by (simp_all add: one_nan_sample_def)
  ultimately show ?thesis using mixer_bounded [of ?ops] unfolding Let_def by blast
qed

text \<open>The framer: frames of 960 samples, and no sample lost, repeated or moved.\<close>

fun framer_run :: "'s list list \<Rightarrow> 's list \<Rightarrow> 's list list \<times> 's list" where
  "framer_run [] b = ([], b)"
| "framer_run (c # cs) b =
     (let (f, b) = framer_Push c b; (fs, b) = framer_run cs b
      in (case f of None \<Rightarrow> fs | Some x \<Rightarrow> x # fs, b))"

lemma framer_keeps:
  "framer_run cs b = (fs, b') \<Longrightarrow> b @ concat cs = concat fs @ b' \<and> (\<forall>f \<in> set fs. length f = FrameSamples)"
proof (induction cs arbitrary: b fs b')
  case (Cons c cs)
  obtain f b1 where p: "framer_Push c b = (f, b1)" by (metis prod.exhaust)
  obtain gs b2 where g: "framer_run cs b1 = (gs, b2)" by (metis prod.exhaust)
  have "b @ c = (case f of None \<Rightarrow> [] | Some x \<Rightarrow> x) @ b1" and "\<forall>x. f = Some x \<longrightarrow> length x = FrameSamples"
    using p append_take_drop_id [of FrameSamples "b @ c"]
    by (auto simp: framer_Push_def Let_def simp del: take_append drop_append append_take_drop_id split: if_splits)
  with Cons.IH [OF g] Cons.prems p g show ?case
    by (auto split: option.splits) (metis append.assoc)+
qed simp

end
