(* ===== verification/Jid.thy ===== *)
theory Jid
  imports Golib
begin

text \<open>
  JIDs, the addresses of the protocol (\<^verbatim>\<open>wa-core/types/jid.go\<close>): the record, the known
  servers, the conversions to and from strings and SQL values, and the domain arithmetic of
  AD-JIDs. A function that returns a JID together with an error returns both here, because the
  JID that accompanies an error is observable: one caller reads its server.
\<close>

section \<open>Servers and the record\<close>

definition DefaultUserServer :: string where "DefaultUserServer = ''s.whatsapp.net''"
definition GroupServer :: string where "GroupServer = ''g.us''"
definition LegacyUserServer :: string where "LegacyUserServer = ''c.us''"
definition BroadcastServer :: string where "BroadcastServer = ''broadcast''"
definition HiddenUserServer :: string where "HiddenUserServer = ''lid''"
definition MessengerServer :: string where "MessengerServer = ''msgr''"
definition InteropServer :: string where "InteropServer = ''interop''"
definition NewsletterServer :: string where "NewsletterServer = ''newsletter''"
definition HostedServer :: string where "HostedServer = ''hosted''"
definition HostedLIDServer :: string where "HostedLIDServer = ''hosted.lid''"
definition BotServer :: string where "BotServer = ''bot''"

lemmas servers = DefaultUserServer_def GroupServer_def LegacyUserServer_def BroadcastServer_def
  HiddenUserServer_def MessengerServer_def InteropServer_def NewsletterServer_def HostedServer_def
  HostedLIDServer_def BotServer_def

definition WhatsAppDomain :: u8 where "WhatsAppDomain = 0"
definition LIDDomain :: u8 where "LIDDomain = 1"
definition HostedDomain :: u8 where "HostedDomain = 128"
definition HostedLIDDomain :: u8 where "HostedLIDDomain = 129"

lemmas domains = WhatsAppDomain_def LIDDomain_def HostedDomain_def HostedLIDDomain_def

record JID =
  User :: string
  RawAgent :: u8
  Device :: u16
  Integrator :: u16
  Server :: string

definition NewJID :: "string \<Rightarrow> string \<Rightarrow> JID" where
  "NewJID user server = \<lparr>User = user, RawAgent = 0, Device = 0, Integrator = 0, Server = server\<rparr>"

definition EmptyJID :: JID where
  "EmptyJID = NewJID [] []"

definition StatusBroadcastJID :: JID where
  "StatusBroadcastJID = NewJID ''status'' BroadcastServer"

section \<open>Agents, devices and classification\<close>

definition ActualAgent :: "JID \<Rightarrow> u8" where
  "ActualAgent jid =
     (if Server jid = DefaultUserServer then WhatsAppDomain
      else if Server jid = HiddenUserServer then LIDDomain
      else if Server jid = HostedServer then HostedDomain
      else if Server jid = HostedLIDServer then HostedLIDDomain
      else RawAgent jid)"

text \<open>\<open>UserInt\<close> drops the error: a syntax error reads as 0 and an overflow as the maximum.\<close>

definition UserInt :: "JID \<Rightarrow> u64" where
  "UserInt jid = word_of_nat (fst (parse_uint (User jid) 64))"

definition ToNonAD :: "JID \<Rightarrow> JID" where
  "ToNonAD jid = \<lparr>User = User jid, RawAgent = 0, Device = 0, Integrator = Integrator jid,
                  Server = Server jid\<rparr>"

definition SignalAddressUser :: "JID \<Rightarrow> string" where
  "SignalAddressUser jid =
     (let user = User jid; agent = ActualAgent jid
      in if agent \<noteq> 0 then user @ ''_'' @ format_uint (unat agent) else user)"

text \<open>The arguments of \<open>signalProtocol.NewSignalAddress\<close>: the name and the device id.\<close>

definition SignalAddress :: "JID \<Rightarrow> string \<times> u32" where
  "SignalAddress jid = (SignalAddressUser jid, ucast (Device jid))"

definition IsBroadcastList :: "JID \<Rightarrow> bool" where
  "IsBroadcastList jid \<longleftrightarrow> Server jid = BroadcastServer \<and> User jid \<noteq> User StatusBroadcastJID"

text \<open>The regular expression \<^verbatim>\<open>^1313555\d{4}$|^131655500\d{2}$\<close>.\<close>

definition digits_after :: "string \<Rightarrow> nat \<Rightarrow> string \<Rightarrow> bool" where
  "digits_after p n s \<longleftrightarrow>
     take (length p) s = p \<and> length s = length p + n \<and> list_all is_digit (drop (length p) s)"

definition botUserRegex :: "string \<Rightarrow> bool" where
  "botUserRegex s \<longleftrightarrow> digits_after ''1313555'' 4 s \<or> digits_after ''131655500'' 2 s"

definition IsBot :: "JID \<Rightarrow> bool" where
  "IsBot jid \<longleftrightarrow>
     (Server jid = DefaultUserServer \<and> botUserRegex (User jid) \<and> Device jid = 0) \<or>
     Server jid = BotServer"

definition NewADJID :: "string \<Rightarrow> u8 \<Rightarrow> u8 \<Rightarrow> JID" where
  "NewADJID user agent device =
     (let (server, agent') =
        (if agent = LIDDomain then (HiddenUserServer, 0)
         else if agent = HostedDomain then (HostedServer, 0)
         else if agent = HostedLIDDomain then (HostedLIDServer, 0)
         else if agent = WhatsAppDomain then (DefaultUserServer, agent)
         else ([], agent))
      in \<lparr>User = user, RawAgent = agent', Device = ucast device, Integrator = 0, Server = server\<rparr>)"

definition IsEmpty :: "JID \<Rightarrow> bool" where
  "IsEmpty jid \<longleftrightarrow> length (Server jid) = 0"

definition IsZero :: "JID \<Rightarrow> bool" where
  "IsZero jid = IsEmpty jid"

section \<open>Strings\<close>

datatype jid_error = TooManyDots | TooManyColons | BadAgent num_error | BadDevice num_error
  | UnsupportedScanType

definition ADString :: "JID \<Rightarrow> string" where
  "ADString jid = User jid @ ''.'' @ format_uint (unat (RawAgent jid)) @ '':'' @
     format_uint (unat (Device jid)) @ ''@'' @ Server jid"

definition String :: "JID \<Rightarrow> string" where
  "String jid =
     (if Server jid = [] then []
      else if 0 < RawAgent jid then
        User jid @ ''.'' @ format_uint (unat (RawAgent jid)) @ '':'' @
          format_uint (unat (Device jid)) @ ''@'' @ Server jid
      else if 0 < Device jid then
        User jid @ '':'' @ format_uint (unat (Device jid)) @ ''@'' @ Server jid
      else if 0 < length (User jid) then User jid @ ''@'' @ Server jid
      else Server jid)"

text \<open>The device suffix after a colon: the common tail of the two branches of \<open>ParseJID\<close>.\<close>

definition with_device :: "JID \<Rightarrow> string \<Rightarrow> JID \<times> jid_error option" where
  "with_device jid s =
     (case parse_uint s 16 of
        (_, Some e) \<Rightarrow> (jid, Some (BadDevice e))
      | (device, None) \<Rightarrow> (jid\<lparr>Device := word_of_nat device\<rparr>, None))"

definition ParseJID :: "string \<Rightarrow> JID \<times> jid_error option" where
  "ParseJID s =
     (let parts = split_on CHR ''@'' s
      in if length parts = 1 then (NewJID [] (parts ! 0), None)
         else
           let jid = NewJID (parts ! 0) (parts ! 1)
           in if CHR ''.'' \<in> set (User jid) then
                let dots = split_on CHR ''.'' (User jid)
                in if length dots \<noteq> 2 then (jid, Some TooManyDots)
                   else
                     let jid = jid\<lparr>User := dots ! 0\<rparr>;
                         ad = split_on CHR '':'' (dots ! 1)
                     in if 2 < length ad then (jid, Some TooManyColons)
                        else
                          (case parse_uint (ad ! 0) 8 of
                             (_, Some e) \<Rightarrow> (jid, Some (BadAgent e))
                           | (agent, None) \<Rightarrow>
                               let jid = jid\<lparr>RawAgent := word_of_nat agent\<rparr>
                               in if length ad = 2 then with_device jid (ad ! 1) else (jid, None))
              else if CHR '':'' \<in> set (User jid) then
                let colons = split_on CHR '':'' (User jid)
                in if length colons \<noteq> 2 then (jid, Some TooManyColons)
                   else with_device (jid\<lparr>User := colons ! 0\<rparr>) (colons ! 1)
              else (jid, None))"

definition MarshalText :: "JID \<Rightarrow> bytes" where
  "MarshalText jid = bytes_of_string (String jid)"

text \<open>\<open>UnmarshalText\<close> and \<open>Scan\<close> overwrite the receiver only when parsing succeeds.\<close>

definition UnmarshalText :: "JID \<Rightarrow> bytes \<Rightarrow> JID \<times> jid_error option" where
  "UnmarshalText jid val =
     (case ParseJID (string_of_bytes val) of
        (_, Some e) \<Rightarrow> (jid, Some e)
      | (out, None) \<Rightarrow> (out, None))"

datatype sql_value = SqlNil | SqlString string | SqlBytes bytes | SqlOther

definition Scan :: "JID \<Rightarrow> sql_value \<Rightarrow> JID \<times> jid_error option" where
  "Scan jid src =
     (case src of
        SqlNil \<Rightarrow> (jid, None)
      | _ \<Rightarrow>
        (case (case src of
                 SqlString s \<Rightarrow> ParseJID s
               | SqlBytes b \<Rightarrow> ParseJID (string_of_bytes b)
               | _ \<Rightarrow> (EmptyJID, Some UnsupportedScanType)) of
           (_, Some e) \<Rightarrow> (jid, Some e)
         | (out, None) \<Rightarrow> (out, None)))"

definition JIDValue :: "JID \<Rightarrow> sql_value" where
  "JIDValue jid = (if length (Server jid) = 0 then SqlNil else SqlString (String jid))"

section \<open>Round trips\<close>

lemma JID_eqI:
  "\<lbrakk>User a = User b; RawAgent a = RawAgent b; Device a = Device b; Integrator a = Integrator b;
    Server a = Server b\<rbrakk> \<Longrightarrow> (a :: JID) = b"
  by (cases a; cases b) simp

text \<open>
  The printable JIDs: \<open>String\<close> does not escape, so the separators must not occur in the user,
  the server must be present and free of \<open>@\<close>, and the integrator is not printed.
\<close>

definition printable_jid :: "JID \<Rightarrow> bool" where
  "printable_jid jid \<longleftrightarrow>
     Server jid \<noteq> [] \<and> CHR ''@'' \<notin> set (Server jid) \<and> Integrator jid = 0 \<and>
     CHR ''@'' \<notin> set (User jid) \<and> CHR ''.'' \<notin> set (User jid) \<and> CHR '':'' \<notin> set (User jid)"

lemma separators_not_in_uint [simp]:
  "CHR ''@'' \<notin> set (format_uint n)" "CHR ''.'' \<notin> set (format_uint n)" "CHR '':'' \<notin> set (format_uint n)"
  using format_uint_digits [of _ n] by (force simp: is_digit_def)+

lemma with_device_format [simp]:
  "with_device jid (format_uint (unat (d :: u16))) = (jid\<lparr>Device := d\<rparr>, None)"
  using unsigned_less [of d, where ?'a = nat]
  by (simp add: with_device_def parse_format_uint)

lemma parse_agent_format: "parse_uint (format_uint (unat (a :: u8))) 8 = (unat a, None)"
  by (rule parse_format_uint) simp

lemma split_three:
  "\<lbrakk>c \<notin> set s; c \<notin> set t\<rbrakk> \<Longrightarrow> split_on c (s @ c # t) = [s, t]"
  by (simp add: split_on_append split_on_notin)

lemma ParseJID_at:
  assumes "CHR ''@'' \<notin> set u" "CHR ''@'' \<notin> set srv"
  shows "split_on CHR ''@'' (u @ CHR ''@'' # srv) = [u, srv]"
  using assms by (rule split_three)

lemma ParseJID_String:
  assumes "printable_jid jid"
  shows "ParseJID (String jid) = (jid, None)"
proof -
  note p = assms [unfolded printable_jid_def]
  consider (ad) "0 < RawAgent jid" | (dev) "RawAgent jid = 0" "0 < Device jid"
    | (user) "RawAgent jid = 0" "Device jid = 0" "User jid \<noteq> []"
    | (server) "RawAgent jid = 0" "Device jid = 0" "User jid = []"
    by (cases "RawAgent jid = 0"; cases "Device jid = 0") (auto simp: word_gt_0)
  then show ?thesis
  proof cases
    case ad
    let ?u = "User jid @ CHR ''.'' # format_uint (unat (RawAgent jid)) @ CHR '':'' # format_uint (unat (Device jid))"
    have "split_on CHR ''@'' (?u @ CHR ''@'' # Server jid) = [?u, Server jid]"
      using p by (intro ParseJID_at) auto
    moreover have "split_on CHR ''.'' ?u =
        [User jid, format_uint (unat (RawAgent jid)) @ CHR '':'' # format_uint (unat (Device jid))]"
      using p by (intro split_three) auto
    ultimately show ?thesis
      using ad p by (simp add: ParseJID_def String_def NewJID_def split_three parse_agent_format
          Let_def JID_eqI)
  next
    case dev
    let ?u = "User jid @ CHR '':'' # format_uint (unat (Device jid))"
    have "split_on CHR ''@'' (?u @ CHR ''@'' # Server jid) = [?u, Server jid]"
      using p by (intro ParseJID_at) auto
    then show ?thesis
      using dev p by (simp add: ParseJID_def String_def NewJID_def split_three Let_def JID_eqI)
  next
    case user
    then show ?thesis
      using p by (simp add: ParseJID_def String_def NewJID_def split_three JID_eqI)
  next
    case server
    then show ?thesis
      using p by (simp add: ParseJID_def String_def NewJID_def split_on_notin JID_eqI)
  qed
qed

definition parse_jid_opt :: "string \<Rightarrow> JID option" where
  "parse_jid_opt s = (case ParseJID s of (jid, None) \<Rightarrow> Some jid | (_, Some _) \<Rightarrow> None)"

interpretation jidtext: text_codec String parse_jid_opt printable_jid
  by unfold_locales (simp add: parse_jid_opt_def ParseJID_String)

lemma UnmarshalText_MarshalText:
  "printable_jid jid \<Longrightarrow> UnmarshalText j0 (MarshalText jid) = (jid, None)"
  by (simp add: UnmarshalText_def MarshalText_def ParseJID_String)

lemma Scan_JIDValue:
  "printable_jid jid \<Longrightarrow> Scan j0 (JIDValue jid) = (jid, None)"
  by (auto simp: Scan_def JIDValue_def ParseJID_String printable_jid_def)

text \<open>
  A printable JID, agent and device included, survives every text form: printing and parsing,
  marshalling and unmarshalling as text, and storing and scanning as a database value, whatever
  the receiving variable held; distinct printable JIDs never print alike.
\<close>

lemma jid_round_trips:
  assumes "printable_jid jid" "printable_jid jid'"
  shows "ParseJID (String jid) = (jid, None) \<and> UnmarshalText j0 (MarshalText jid) = (jid, None) \<and>
    Scan j0 (JIDValue jid) = (jid, None) \<and> (String jid = String jid' \<longleftrightarrow> jid = jid')"
  using assms ParseJID_String UnmarshalText_MarshalText Scan_JIDValue by (metis prod.inject)

text \<open>What a successful parse guarantees of its result.\<close>

lemma split_on_elems: "p \<in> set (split_on c s) \<Longrightarrow> c \<notin> set p \<and> set p \<subseteq> set s"
proof (induction s arbitrary: p)
  case (Cons x s)
  obtain q qs where q: "split_on c s = q # qs" by (cases "split_on c s") auto
  show ?case
  proof (cases "x = c")
    case True
    with Cons show ?thesis by auto
  next
    case False
    with Cons.prems q have "p = x # q \<or> p \<in> set qs" by simp
    with Cons.IH [of q] Cons.IH [of p] q False show ?thesis by auto
  qed
qed simp

lemma with_device_fields:
  "with_device jid s = (j, e) \<Longrightarrow>
     User j = User jid \<and> Server j = Server jid \<and> Integrator j = Integrator jid \<and> RawAgent j = RawAgent jid"
  by (auto simp: with_device_def split: prod.splits option.splits)

lemma ParseJID_result:
  assumes "ParseJID s = (j, None)"
  shows "CHR ''@'' \<notin> set (User j) \<and> CHR ''@'' \<notin> set (Server j) \<and> CHR ''.'' \<notin> set (User j) \<and>
    Integrator j = 0"
proof -
  let ?p = "split_on CHR ''@'' s"
  have len: "0 < length ?p" by simp
  have at: "CHR ''@'' \<notin> set (?p ! i)" if "i < length ?p" for i
    using split_on_elems [of "?p ! i" "CHR ''@''" s] that by auto
  have in_parts: "set (split_on c (?p ! 0) ! i) \<subseteq> set (?p ! 0)" "c \<notin> set (split_on c (?p ! 0) ! i)"
    if "i < length (split_on c (?p ! 0))" for i c
    using split_on_elems [of "split_on c (?p ! 0) ! i" c "?p ! 0"] that by auto
  show ?thesis
  proof (cases "length ?p = 1")
    case True
    with assms at [of 0] show ?thesis by (auto simp: ParseJID_def NewJID_def)
  next
    case False
    with len have "1 < length ?p" by linarith
    note at01 = at [OF len] at [OF this]
    show ?thesis
    proof (cases "CHR ''.'' \<in> set (?p ! 0)")
      case True
      let ?d = "split_on CHR ''.'' (?p ! 0)"
      from assms False True have d2: "length ?d = 2"
        by (auto simp: ParseJID_def NewJID_def Let_def split: if_splits)
      with in_parts [of 0 "CHR ''.''"] at01
      have "CHR ''@'' \<notin> set (?d ! 0)" "CHR ''.'' \<notin> set (?d ! 0)" by auto
      with assms False True d2 at01 show ?thesis
        by (auto simp: ParseJID_def NewJID_def Let_def dest!: with_device_fields
            split: if_splits prod.splits option.splits)
    next
      case nodot: False
      let ?d = "split_on CHR '':'' (?p ! 0)"
      show ?thesis
      proof (cases "CHR '':'' \<in> set (?p ! 0)")
        case True
        with assms False nodot have d2: "length ?d = 2"
          by (auto simp: ParseJID_def NewJID_def Let_def split: if_splits)
        with in_parts [of 0 "CHR '':''"] at01 nodot
        have "CHR ''@'' \<notin> set (?d ! 0)" "CHR ''.'' \<notin> set (?d ! 0)" by auto
        with assms False nodot True d2 at01 show ?thesis
          by (auto simp: ParseJID_def NewJID_def Let_def dest!: with_device_fields)
      next
        case False
        with assms nodot at01 \<open>length ?p \<noteq> 1\<close> show ?thesis
          by (auto simp: ParseJID_def NewJID_def Let_def)
      qed
    qed
  qed
qed

lemma NewADJID_ActualAgent:
  assumes "Server jid \<in> {DefaultUserServer, HiddenUserServer, HostedServer, HostedLIDServer}"
  shows "NewADJID user (ActualAgent jid) d =
    \<lparr>User = user, RawAgent = 0, Device = ucast d, Integrator = 0, Server = Server jid\<rparr>"
  using assms by (auto simp: NewADJID_def ActualAgent_def domains servers)

lemma NewADJID_default [simp]: "Server (NewADJID u WhatsAppDomain d) = DefaultUserServer"
  by (simp add: NewADJID_def domains)

end
