(* ===== verification/Node.thy ===== *)
theory Node
  imports Jid "HOL-Library.AList"
begin

text \<open>
  XML elements (\<^verbatim>\<open>wa-core/binary/node.go\<close>): the element type, whose attribute values and content
  are Go values of dynamic type, and the accessors for children.
\<close>

section \<open>Elements\<close>

text \<open>
  \<open>gval\<close> is the set of dynamic types the binary encoder distinguishes; \<open>VOther t\<close> is a value of
  any other type, named \<open>t\<close>. The fixed-width integers are kept at their width. An \<open>Attrs\<close> map is
  an association list with distinct keys: its order stands for the unspecified order in which
  Go's \<open>range\<close> visits the map, and the theorems quantify over all such orders. The nil map and
  the empty map are both the empty list.
\<close>

datatype gval =
    VNil
  | VJID JID
  | VString string
  | VInt u64
  | VInt32 u32
  | VUint u64
  | VUint32 u32
  | VInt64 u64
  | VUint64 u64
  | VBool bool
  | VBytes bytes
  | VNodes "node list"
  | VOther string
and node = Node (Tag: string) (Attrs: "(string \<times> gval) list") (Content: gval)

type_synonym attrs = "(string \<times> gval) list"

definition GetChildren :: "node \<Rightarrow> node list" where
  "GetChildren n = (case Content n of VNodes children \<Rightarrow> children | _ \<Rightarrow> [])"

definition GetChildrenByTag :: "node \<Rightarrow> string \<Rightarrow> node list" where
  "GetChildrenByTag n tag = filter (\<lambda>child. Tag child = tag) (GetChildren n)"

text \<open>
  The nested search of \<open>GetOptionalChildByTag\<close>: on failure it returns the last element that did
  match, with the flag \<open>False\<close>.
\<close>

fun GetOptionalChildByTag :: "node \<Rightarrow> string list \<Rightarrow> node \<times> bool" where
  "GetOptionalChildByTag val [] = (val, True)"
| "GetOptionalChildByTag val (tag # tags) =
     (case find (\<lambda>child. Tag child = tag) (GetChildren val) of
        Some child \<Rightarrow> GetOptionalChildByTag child tags
      | None \<Rightarrow> (val, False))"

definition GetChildByTag :: "node \<Rightarrow> string list \<Rightarrow> node" where
  "GetChildByTag n tags = fst (GetOptionalChildByTag n tags)"

text \<open>
  The treatment of one string attribute in \<open>UnmarshalJSON\<close>: the parsed JID replaces the string
  when the condition holds. The condition is written as in the source, where \<open>&&\<close> binds tighter
  than \<open>||\<close>.
\<close>

definition json_string_attr :: "string \<Rightarrow> gval" where
  "json_string_attr s =
     (let (parsed, err) = ParseJID s
      in if (err = None \<and> Server parsed = DefaultUserServer) \<or> Server parsed = NewsletterServer \<or>
            Server parsed = GroupServer \<or> Server parsed = BroadcastServer
         then VJID parsed else VString s)"

section \<open>Children\<close>

text \<open>A path of tags through an element, each step to the first child with that tag.\<close>

inductive child_path :: "node \<Rightarrow> string list \<Rightarrow> node \<Rightarrow> bool" where
  here: "child_path n [] n"
| step: "\<lbrakk>GetChildren n = pre @ c # post; \<forall>p\<in>set pre. Tag p \<noteq> t; Tag c = t; child_path c ts m\<rbrakk> \<Longrightarrow>
     child_path n (t # ts) m"

inductive_cases child_path_NilE [elim!]: "child_path n [] m"
inductive_cases child_path_ConsE [elim]: "child_path n (t # ts) m"

lemma find_Some_split:
  "find P xs = Some x \<longleftrightarrow> (\<exists>pre post. xs = pre @ x # post \<and> P x \<and> (\<forall>p\<in>set pre. \<not> P p))"
proof (induction xs)
  case (Cons a xs)
  show ?case
  proof
    assume "find P (a # xs) = Some x"
    then show "\<exists>pre post. a # xs = pre @ x # post \<and> P x \<and> (\<forall>p\<in>set pre. \<not> P p)"
    proof (cases "P a")
      case True
      with \<open>find P (a # xs) = Some x\<close> show ?thesis
        by (auto intro: exI [of _ "[]"])
    next
      case False
      with \<open>find P (a # xs) = Some x\<close> Cons.IH obtain pre post
        where "xs = pre @ x # post" "P x" "\<forall>p\<in>set pre. \<not> P p" by auto
      with False show ?thesis by (intro exI [of _ "a # pre"] exI [of _ post]) auto
    qed
  next
    assume "\<exists>pre post. a # xs = pre @ x # post \<and> P x \<and> (\<forall>p\<in>set pre. \<not> P p)"
    then obtain pre post where "a # xs = pre @ x # post" "P x" "\<forall>p\<in>set pre. \<not> P p" by blast
    then show "find P (a # xs) = Some x"
      using Cons.IH by (cases pre) auto
  qed
qed simp

lemma GetOptionalChildByTag_iff:
  "GetOptionalChildByTag n tags = (m, True) \<longleftrightarrow> child_path n tags m"
proof (induction n tags rule: GetOptionalChildByTag.induct)
  case (1 n)
  then show ?case by (auto intro: child_path.here)
next
  case (2 n t ts)
  show ?case
  proof (cases "find (\<lambda>child. Tag child = t) (GetChildren n)")
    case None
    have "\<not> child_path n (t # ts) m"
    proof
      assume "child_path n (t # ts) m"
      then obtain pre c post where "GetChildren n = pre @ c # post" "Tag c = t"
        by (auto elim: child_path_ConsE)
      with None show False by (auto simp: find_None_iff)
    qed
    with None show ?thesis by simp
  next
    case (Some c)
    then obtain pre post where split: "GetChildren n = pre @ c # post" "Tag c = t" "\<forall>p\<in>set pre. Tag p \<noteq> t"
      using find_Some_split [of "\<lambda>child. Tag child = t" "GetChildren n" c] by auto
    have "child_path n (t # ts) m \<longleftrightarrow> child_path c ts m"
    proof
      assume "child_path n (t # ts) m"
      then obtain pre' c' post' where
        "GetChildren n = pre' @ c' # post'" "\<forall>p\<in>set pre'. Tag p \<noteq> t" "Tag c' = t" "child_path c' ts m"
        by (auto elim: child_path_ConsE)
      moreover from this have "find (\<lambda>child. Tag child = t) (GetChildren n) = Some c'"
        by (auto simp: find_Some_split)
      ultimately show "child_path c ts m" using Some by simp
    qed (use split child_path.step in blast)
    with Some 2 show ?thesis by simp
  qed
qed

end
