(* ===== verification/Encoder.thy ===== *)
theory Encoder
  imports Node Token
begin

text \<open>
  The binary XML encoder (\<^verbatim>\<open>wa-core/binary/encoder.go\<close>). A \<open>binaryEncoder\<close> is its output buffer;
  every method takes the buffer and returns the extended one. The Go methods panic on values
  they cannot encode; a panic is \<open>Inl\<close> of an \<open>enc_panic\<close>. Lengths and list sizes are natural
  numbers: every call passes the length of a string, slice or map, or an unsigned 16-bit field.
\<close>

section \<open>Definitions\<close>

type_synonym binaryEncoder = bytes

datatype enc_panic =
    LengthTooLarge nat
  | InvalidType string
  | TooManyBytesToPack nat
  | InvalidPackedType nat
  | InvalidNibble byte
  | InvalidHex byte

definition newEncoder :: binaryEncoder where
  "newEncoder = [0]"

definition getData :: "binaryEncoder \<Rightarrow> bytes" where
  "getData w = w"

definition pushByte :: "binaryEncoder \<Rightarrow> byte \<Rightarrow> binaryEncoder" where
  "pushByte w b = w @ [b]"

definition pushBytes :: "binaryEncoder \<Rightarrow> bytes \<Rightarrow> binaryEncoder" where
  "pushBytes w bs = w @ bs"

definition pushIntN :: "binaryEncoder \<Rightarrow> nat \<Rightarrow> nat \<Rightarrow> bool \<Rightarrow> binaryEncoder" where
  "pushIntN w value n littleEndian =
     foldl (\<lambda>w i. let curShift = (if littleEndian then i else n - i - 1)
                  in pushByte w (word_of_nat (drop_bit (curShift * 8) value AND 0xFF))) w [0..<n]"

definition pushInt20 :: "binaryEncoder \<Rightarrow> nat \<Rightarrow> binaryEncoder" where
  "pushInt20 w value =
     pushBytes w [word_of_nat (drop_bit 16 value AND 0x0F), word_of_nat (drop_bit 8 value AND 0xFF),
                  word_of_nat (value AND 0xFF)]"

definition pushInt8 :: "binaryEncoder \<Rightarrow> nat \<Rightarrow> binaryEncoder" where
  "pushInt8 w value = pushIntN w value 1 False"

definition pushInt16 :: "binaryEncoder \<Rightarrow> nat \<Rightarrow> binaryEncoder" where
  "pushInt16 w value = pushIntN w value 2 False"

definition pushInt32 :: "binaryEncoder \<Rightarrow> nat \<Rightarrow> binaryEncoder" where
  "pushInt32 w value = pushIntN w value 4 False"

definition pushString :: "binaryEncoder \<Rightarrow> string \<Rightarrow> binaryEncoder" where
  "pushString w value = pushBytes w (bytes_of_string value)"

definition MaxInt32 :: nat where
  "MaxInt32 = 2 ^ 31 - 1"

definition writeByteLength :: "binaryEncoder \<Rightarrow> nat \<Rightarrow> enc_panic + binaryEncoder" where
  "writeByteLength w len =
     (if len < 256 then Inr (pushInt8 (pushByte w (word_of_nat Binary8)) len)
      else if len < 2 ^ 20 then Inr (pushInt20 (pushByte w (word_of_nat Binary20)) len)
      else if len < MaxInt32 then Inr (pushInt32 (pushByte w (word_of_nat Binary32)) len)
      else Inl (LengthTooLarge len))"

definition writeBytes :: "binaryEncoder \<Rightarrow> bytes \<Rightarrow> enc_panic + binaryEncoder" where
  "writeBytes w value = bindE (writeByteLength w (length value)) (\<lambda>w. Inr (pushBytes w value))"

definition writeStringRaw :: "binaryEncoder \<Rightarrow> string \<Rightarrow> enc_panic + binaryEncoder" where
  "writeStringRaw w value = bindE (writeByteLength w (length value)) (\<lambda>w. Inr (pushString w value))"

definition writeListStart :: "binaryEncoder \<Rightarrow> nat \<Rightarrow> binaryEncoder" where
  "writeListStart w listSize =
     (if listSize = 0 then pushByte w (word_of_nat ListEmpty)
      else if listSize < 256 then pushInt8 (pushByte w (word_of_nat List8)) listSize
      else pushInt16 (pushByte w (word_of_nat List16)) listSize)"

text \<open>
  The validators range over the runes of the string. A byte of 0x80 or more is part of a rune of
  at least 0x80 or of an invalid sequence that decodes to the replacement character, neither of
  which is in the accepted ranges, so the check is the same byte by byte.
\<close>

definition validateNibble :: "string \<Rightarrow> bool" where
  "validateNibble value \<longleftrightarrow>
     length value \<le> PackedMax \<and>
     list_all (\<lambda>c. is_digit c \<or> c = CHR ''-'' \<or> c = CHR ''.'') value"

definition is_upper_hex :: "char \<Rightarrow> bool" where
  "is_upper_hex c \<longleftrightarrow> 65 \<le> (of_char c :: nat) \<and> (of_char c :: nat) \<le> 70"

definition validateHex :: "string \<Rightarrow> bool" where
  "validateHex value \<longleftrightarrow>
     length value \<le> PackedMax \<and> list_all (\<lambda>c. is_digit c \<or> is_upper_hex c) value"

definition packNibble :: "byte \<Rightarrow> enc_panic + byte" where
  "packNibble value =
     (if value = 0x2d then Inr 10
      else if value = 0x2e then Inr 11
      else if value = 0 then Inr 15
      else if 0x30 \<le> value \<and> value \<le> 0x39 then Inr (value - 0x30)
      else Inl (InvalidNibble value))"

definition packHex :: "byte \<Rightarrow> enc_panic + byte" where
  "packHex value =
     (if 0x30 \<le> value \<and> value \<le> 0x39 then Inr (value - 0x30)
      else if 0x41 \<le> value \<and> value \<le> 0x46 then Inr (10 + value - 0x41)
      else if value = 0 then Inr 15
      else Inl (InvalidHex value))"

definition packBytePair :: "(byte \<Rightarrow> enc_panic + byte) \<Rightarrow> byte \<Rightarrow> byte \<Rightarrow> enc_panic + byte" where
  "packBytePair packer part1 part2 =
     bindE (packer part1) (\<lambda>p1. bindE (packer part2) (\<lambda>p2. Inr (push_bit 4 p1 OR p2)))"

text \<open>The two loops of \<open>writePackedBytes\<close>: the pairs, then the padded last byte.\<close>

fun pack_pairs :: "(byte \<Rightarrow> enc_panic + byte) \<Rightarrow> binaryEncoder \<Rightarrow> bytes \<Rightarrow> enc_panic + binaryEncoder" where
  "pack_pairs packer w [] = Inr w"
| "pack_pairs packer w [a] = bindE (packBytePair packer a 0) (\<lambda>x. Inr (pushByte w x))"
| "pack_pairs packer w (a # b # rest) =
     bindE (packBytePair packer a b) (\<lambda>x. pack_pairs packer (pushByte w x) rest)"

text \<open>
  \<open>byte(math.Ceil(float64(len(value)) / 2.0))\<close> is exact on the lengths that pass the first check.
\<close>

definition writePackedBytes :: "binaryEncoder \<Rightarrow> string \<Rightarrow> nat \<Rightarrow> enc_panic + binaryEncoder" where
  "writePackedBytes w value dataType =
     (if PackedMax < length value then Inl (TooManyBytesToPack (length value))
      else
        let w = pushByte w (word_of_nat dataType);
            roundedLength = (word_of_nat ((length value + 1) div 2) :: byte);
            roundedLength = (if length value mod 2 \<noteq> 0 then roundedLength OR 128 else roundedLength);
            w = pushByte w roundedLength
        in if dataType = Nibble8 then pack_pairs packNibble w (bytes_of_string value)
           else if dataType = Hex8 then pack_pairs packHex w (bytes_of_string value)
           else Inl (InvalidPackedType dataType))"

definition writeString :: "binaryEncoder \<Rightarrow> string \<Rightarrow> enc_panic + binaryEncoder" where
  "writeString w data =
     (case IndexOfSingleToken data of
        Some tokenIndex \<Rightarrow> Inr (pushByte w tokenIndex)
      | None \<Rightarrow>
        (case IndexOfDoubleByteToken data of
           Some (dictIndex, tokenIndex) \<Rightarrow>
             Inr (pushByte (pushByte w (word_of_nat Dictionary0 + dictIndex)) tokenIndex)
         | None \<Rightarrow>
             if validateNibble data then writePackedBytes w data Nibble8
             else if validateHex data then writePackedBytes w data Hex8
             else writeStringRaw w data))"

text \<open>Calls of \<open>write\<close> on a value of static type \<open>string\<close> are calls of \<open>writeString\<close>.\<close>

definition writeJID :: "binaryEncoder \<Rightarrow> JID \<Rightarrow> enc_panic + binaryEncoder" where
  "writeJID w jid =
     (if ((Server jid = DefaultUserServer \<or> Server jid = HiddenUserServer) \<and> 0 < Device jid) \<or>
         Server jid = HostedServer \<or> Server jid = HostedLIDServer then
        let w = pushByte w (word_of_nat ADJID);
            w = pushByte w (ActualAgent jid);
            w = pushByte w (ucast (Device jid AND 0xFF))
        in writeString w (User jid)
      else if Server jid = MessengerServer then
        let w = pushByte w (word_of_nat FBJID)
        in bindE (writeString w (User jid)) (\<lambda>w.
           let w = pushInt16 w (unat (Device jid)) in writeString w (Server jid))
      else if Server jid = InteropServer then
        let w = pushByte w (word_of_nat InteropJID)
        in bindE (writeString w (User jid)) (\<lambda>w.
           let w = pushInt16 w (unat (Device jid));
               w = pushInt16 w (unat (Integrator jid))
           in writeString w (Server jid))
      else
        let w = pushByte w (word_of_nat JIDPair)
        in bindE (if length (User jid) = 0 then Inr (pushByte w (word_of_nat ListEmpty))
                  else writeString w (User jid)) (\<lambda>w.
           writeString w (Server jid)))"

definition skipped_attr :: "gval \<Rightarrow> bool" where
  "skipped_attr val \<longleftrightarrow> val = VString [] \<or> val = VNil"

fun countAttributes :: "attrs \<Rightarrow> nat" where
  "countAttributes [] = 0"
| "countAttributes ((_, val) # rest) =
     (if skipped_attr val then countAttributes rest else countAttributes rest + 1)"

definition tagSize :: nat where
  "tagSize = 1"

fun write_any :: "binaryEncoder \<Rightarrow> gval \<Rightarrow> enc_panic + binaryEncoder"
and writeNode :: "binaryEncoder \<Rightarrow> node \<Rightarrow> enc_panic + binaryEncoder"
and writeNodes :: "binaryEncoder \<Rightarrow> node list \<Rightarrow> enc_panic + binaryEncoder"
and writeAttributes :: "binaryEncoder \<Rightarrow> attrs \<Rightarrow> enc_panic + binaryEncoder" where
  "write_any w VNil = Inr (pushByte w (word_of_nat ListEmpty))"
| "write_any w (VJID jid) = writeJID w jid"
| "write_any w (VString s) = writeString w s"
| "write_any w (VInt i) = writeString w (format_int (sint i))"
| "write_any w (VInt32 i) = writeString w (format_int (sint i))"
| "write_any w (VUint i) = writeString w (format_uint (unat i))"
| "write_any w (VUint32 i) = writeString w (format_uint (unat i))"
| "write_any w (VInt64 i) = writeString w (format_int (sint i))"
| "write_any w (VUint64 i) = writeString w (format_uint (unat i))"
| "write_any w (VBool b) = writeString w (format_bool b)"
| "write_any w (VBytes bs) = writeBytes w bs"
| "write_any w (VNodes ns) = writeNodes (writeListStart w (length ns)) ns"
| "write_any w (VOther t) = Inl (InvalidType t)"
| "writeNode w (Node tag as content) =
     (if tag = ''0'' then Inr (pushByte (pushByte w (word_of_nat List8)) (word_of_nat ListEmpty))
      else
        let hasContent = (if content \<noteq> VNil then 1 else 0)
        in bindE (writeString (writeListStart w (2 * countAttributes as + tagSize + hasContent)) tag)
             (\<lambda>w. bindE (writeAttributes w as)
               (\<lambda>w. if content \<noteq> VNil then write_any w content else Inr w)))"
| "writeNodes w [] = Inr w"
| "writeNodes w (n # ns) = bindE (writeNode w n) (\<lambda>w. writeNodes w ns)"
| "writeAttributes w [] = Inr w"
| "writeAttributes w ((key, val) # rest) =
     (if skipped_attr val then writeAttributes w rest
      else bindE (writeString w key) (\<lambda>w. bindE (write_any w val) (\<lambda>w. writeAttributes w rest)))"

definition Marshal :: "node \<Rightarrow> enc_panic + bytes" where
  "Marshal n = bindE (writeNode newEncoder n) (\<lambda>w. Inr (getData w))"

end
