(* ===== verification/Decoder.thy ===== *)
theory Decoder
  imports Node Token
begin

text \<open>
  The binary XML decoder (\<^verbatim>\<open>wa-core/binary/decoder.go\<close>, with \<open>Unmarshal\<close> of \<open>node.go\<close> and
  \<open>Unpack\<close> of \<open>unpack.go\<close>). A \<open>binaryDecoder\<close> is the input and a read position; every method
  returns the value and the moved decoder, or an error. The methods are mutually recursive
  through \<open>read\<close>: each of them is written over the reader \<open>rd\<close> it calls, and \<open>read_any\<close> ties the
  knot with a bound on the nesting depth. The lemmas at the end show that one more than the
  number of unread bytes is enough, and that a larger bound never changes the result: the Go
  decoder terminates on every input, and the bound is not observable.
\<close>

section \<open>Definitions\<close>

record binaryDecoder =
  ddata :: bytes
  index :: nat

datatype dec_error =
    EOF
  | OddFlagWithoutData
  | UnpackByteUnknownTag nat
  | UnpackNibbleValue byte
  | UnpackHexValue byte
  | ReadListSizeUnknownTag nat nat
  | DoubleTokenBounds int int
  | ErrInvalidToken nat nat
  | ErrInvalidJIDType
  | ErrInvalidNode
  | ErrNonStringKey nat
  | LeftoverBytes node nat
  | ErrUnexpectedEOF
  | ZlibError
  | OutOfDepth

type_synonym 'a read_result = "dec_error + 'a \<times> binaryDecoder"

definition newDecoder :: "bytes \<Rightarrow> binaryDecoder" where
  "newDecoder d = \<lparr>ddata = d, index = 0\<rparr>"

definition checkEOS :: "binaryDecoder \<Rightarrow> nat \<Rightarrow> dec_error + unit" where
  "checkEOS r len = (if length (ddata r) < index r + len then Inl EOF else Inr ())"

definition readByte :: "binaryDecoder \<Rightarrow> byte read_result" where
  "readByte r = bindE (checkEOS r 1) (\<lambda>_. Inr (ddata r ! index r, r\<lparr>index := index r + 1\<rparr>))"

definition readIntN :: "binaryDecoder \<Rightarrow> nat \<Rightarrow> bool \<Rightarrow> nat read_result" where
  "readIntN r n littleEndian =
     bindE (checkEOS r n) (\<lambda>_.
       let ret = foldl (\<lambda>ret i.
             let curShift = (if littleEndian then i else n - i - 1)
             in ret OR push_bit (curShift * 8) (unat (ddata r ! (index r + i)))) 0 [0..<n]
       in Inr (ret, r\<lparr>index := index r + n\<rparr>))"

definition readInt8 :: "binaryDecoder \<Rightarrow> bool \<Rightarrow> nat read_result" where
  "readInt8 r littleEndian = readIntN r 1 littleEndian"

definition readInt16 :: "binaryDecoder \<Rightarrow> bool \<Rightarrow> nat read_result" where
  "readInt16 r littleEndian = readIntN r 2 littleEndian"

definition readInt20 :: "binaryDecoder \<Rightarrow> nat read_result" where
  "readInt20 r =
     bindE (checkEOS r 3) (\<lambda>_.
       let ret = push_bit 16 (unat (ddata r ! index r) AND 15) + push_bit 8 (unat (ddata r ! (index r + 1))) +
                 unat (ddata r ! (index r + 2))
       in Inr (ret, r\<lparr>index := index r + 3\<rparr>))"

definition readInt32 :: "binaryDecoder \<Rightarrow> bool \<Rightarrow> nat read_result" where
  "readInt32 r littleEndian = readIntN r 4 littleEndian"

definition unpackNibble :: "byte \<Rightarrow> dec_error + byte" where
  "unpackNibble value =
     (if value < 10 then Inr (0x30 + value)
      else if value = 10 then Inr 0x2d
      else if value = 11 then Inr 0x2e
      else if value = 15 then Inr 0
      else Inl (UnpackNibbleValue value))"

definition unpackHex :: "byte \<Rightarrow> dec_error + byte" where
  "unpackHex value =
     (if value < 10 then Inr (0x30 + value)
      else if value < 16 then Inr (0x41 + value - 10)
      else Inl (UnpackHexValue value))"

definition unpackByte :: "nat \<Rightarrow> byte \<Rightarrow> dec_error + byte" where
  "unpackByte tag value =
     (if tag = Nibble8 then unpackNibble value
      else if tag = Hex8 then unpackHex value
      else Inl (UnpackByteUnknownTag tag))"

text \<open>The loop of \<open>readPacked8\<close> over \<open>n\<close> packed bytes, appending to the string builder.\<close>

fun unpack_loop :: "nat \<Rightarrow> nat \<Rightarrow> binaryDecoder \<Rightarrow> bytes \<Rightarrow> bytes read_result" where
  "unpack_loop tag 0 r build = Inr (build, r)"
| "unpack_loop tag (Suc n) r build =
     bindE (readByte r) (\<lambda>(currByte, r).
     bindE (unpackByte tag (drop_bit 4 (currByte AND 0xF0))) (\<lambda>lower.
     bindE (unpackByte tag (currByte AND 0x0F)) (\<lambda>upper.
     unpack_loop tag n r (build @ [lower, upper]))))"

definition readPacked8 :: "nat \<Rightarrow> binaryDecoder \<Rightarrow> string read_result" where
  "readPacked8 tag r =
     bindE (readByte r) (\<lambda>(startByte, r).
     bindE (unpack_loop tag (unat (startByte AND 127)) r []) (\<lambda>(ret, r).
     if drop_bit 7 startByte \<noteq> 0 then
       (if length ret = 0 then Inl OddFlagWithoutData
        else Inr (string_of_bytes (take (length ret - 1) ret), r))
     else Inr (string_of_bytes ret, r)))"

definition readListSize :: "nat \<Rightarrow> binaryDecoder \<Rightarrow> nat read_result" where
  "readListSize tag r =
     (if tag = ListEmpty then Inr (0, r)
      else if tag = List8 then readInt8 r False
      else if tag = List16 then readInt16 r False
      else Inl (ReadListSizeUnknownTag tag (index r)))"

definition readRaw :: "nat \<Rightarrow> binaryDecoder \<Rightarrow> bytes read_result" where
  "readRaw len r =
     bindE (checkEOS r len) (\<lambda>_.
       Inr (slice (index r) (index r + len) (ddata r), r\<lparr>index := index r + len\<rparr>))"

definition readBytesOrString :: "nat \<Rightarrow> bool \<Rightarrow> binaryDecoder \<Rightarrow> gval read_result" where
  "readBytesOrString len asString r =
     bindE (readRaw len r) (\<lambda>(d, r).
       Inr (if asString then VString (string_of_bytes d) else VBytes d, r))"

type_synonym reader = "bool \<Rightarrow> binaryDecoder \<Rightarrow> gval read_result"

definition readJIDPair :: "reader \<Rightarrow> binaryDecoder \<Rightarrow> gval read_result" where
  "readJIDPair rd r =
     bindE (rd True r) (\<lambda>(user, r).
     bindE (rd True r) (\<lambda>(server, r).
     case server of
       VString serverStr \<Rightarrow>
         (case user of
            VNil \<Rightarrow> Inr (VJID (NewJID [] serverStr), r)
          | VString userStr \<Rightarrow> Inr (VJID (NewJID userStr serverStr), r)
          | _ \<Rightarrow> Inl ErrInvalidJIDType)
     | _ \<Rightarrow> Inl ErrInvalidJIDType))"

definition readInteropJID :: "reader \<Rightarrow> binaryDecoder \<Rightarrow> gval read_result" where
  "readInteropJID rd r =
     bindE (rd True r) (\<lambda>(user, r).
     bindE (readInt16 r False) (\<lambda>(device, r).
     bindE (readInt16 r False) (\<lambda>(integrator, r).
     bindE (rd True r) (\<lambda>(server, r).
     if server \<noteq> VString InteropServer then Inl ErrInvalidJIDType
     else
       (case user of
          VString userStr \<Rightarrow>
            Inr (VJID \<lparr>User = userStr, RawAgent = 0, Device = word_of_nat device,
                       Integrator = word_of_nat integrator, Server = InteropServer\<rparr>, r)
        | _ \<Rightarrow> Inl ErrInvalidJIDType)))))"

definition readFBJID :: "reader \<Rightarrow> binaryDecoder \<Rightarrow> gval read_result" where
  "readFBJID rd r =
     bindE (rd True r) (\<lambda>(user, r).
     bindE (readInt16 r False) (\<lambda>(device, r).
     bindE (rd True r) (\<lambda>(server, r).
     if server \<noteq> VString MessengerServer then Inl ErrInvalidJIDType
     else
       (case user of
          VString userStr \<Rightarrow>
            Inr (VJID \<lparr>User = userStr, RawAgent = 0, Device = word_of_nat device,
                       Integrator = 0, Server = MessengerServer\<rparr>, r)
        | _ \<Rightarrow> Inl ErrInvalidJIDType))))"

definition readADJID :: "reader \<Rightarrow> binaryDecoder \<Rightarrow> gval read_result" where
  "readADJID rd r =
     bindE (readByte r) (\<lambda>(agent, r).
     bindE (readByte r) (\<lambda>(device, r).
     bindE (rd True r) (\<lambda>(user, r).
     case user of
       VString userStr \<Rightarrow> Inr (VJID (NewADJID userStr agent device), r)
     | _ \<Rightarrow> Inl ErrInvalidJIDType)))"

text \<open>The loop of \<open>readAttributes\<close>: a repeated key overwrites, as in a Go map.\<close>

fun readAttributes :: "reader \<Rightarrow> nat \<Rightarrow> binaryDecoder \<Rightarrow> attrs \<Rightarrow> attrs read_result" where
  "readAttributes rd 0 r ret = Inr (ret, r)"
| "readAttributes rd (Suc n) r ret =
     bindE (rd True r) (\<lambda>(keyIfc, r).
     case keyIfc of
       VString key \<Rightarrow>
         bindE (rd True r) (\<lambda>(val, r). readAttributes rd n r (AList.update key val ret))
     | _ \<Rightarrow> Inl (ErrNonStringKey (index r)))"

definition readNode :: "reader \<Rightarrow> binaryDecoder \<Rightarrow> node read_result" where
  "readNode rd r =
     bindE (readInt8 r False) (\<lambda>(size, r).
     bindE (readListSize size r) (\<lambda>(listSize, r).
     bindE (rd True r) (\<lambda>(rawDesc, r).
     case rawDesc of
       VString tag \<Rightarrow>
         if listSize = 0 \<or> tag = [] then Inl ErrInvalidNode
         else
           bindE (readAttributes rd (drop_bit 1 (listSize - 1)) r []) (\<lambda>(as, r).
           if listSize mod 2 = 1 then Inr (Node tag as VNil, r)
           else bindE (rd False r) (\<lambda>(content, r). Inr (Node tag as content, r)))
     | _ \<Rightarrow> Inl ErrInvalidNode)))"

fun readNodes :: "reader \<Rightarrow> nat \<Rightarrow> binaryDecoder \<Rightarrow> node list read_result" where
  "readNodes rd 0 r = Inr ([], r)"
| "readNodes rd (Suc n) r =
     bindE (readNode rd r) (\<lambda>(x, r). bindE (readNodes rd n r) (\<lambda>(xs, r). Inr (x # xs, r)))"

definition readList :: "reader \<Rightarrow> nat \<Rightarrow> binaryDecoder \<Rightarrow> gval read_result" where
  "readList rd tag r =
     bindE (readListSize tag r) (\<lambda>(size, r).
     bindE (readNodes rd size r) (\<lambda>(ret, r). Inr (VNodes ret, r)))"

definition read_dispatch :: "reader \<Rightarrow> reader" where
  "read_dispatch rd asString r =
     bindE (readByte r) (\<lambda>(tagByte, r).
     let tag = unat tagByte in
     if tag = ListEmpty then Inr (VNil, r)
     else if tag = List8 \<or> tag = List16 then readList rd tag r
     else if tag = Binary8 then bindE (readInt8 r False) (\<lambda>(size, r). readBytesOrString size asString r)
     else if tag = Binary20 then bindE (readInt20 r) (\<lambda>(size, r). readBytesOrString size asString r)
     else if tag = Binary32 then bindE (readInt32 r False) (\<lambda>(size, r). readBytesOrString size asString r)
     else if tag = Dictionary0 \<or> tag = Dictionary1 \<or> tag = Dictionary2 \<or> tag = Dictionary3 then
       bindE (readInt8 r False) (\<lambda>(i, r).
         case GetDoubleToken (int tag - int Dictionary0) (int i) of
           Some s \<Rightarrow> Inr (VString s, r)
         | None \<Rightarrow> Inl (DoubleTokenBounds (int tag - int Dictionary0) (int i)))
     else if tag = FBJID then readFBJID rd r
     else if tag = InteropJID then readInteropJID rd r
     else if tag = JIDPair then readJIDPair rd r
     else if tag = ADJID then readADJID rd r
     else if tag = Nibble8 \<or> tag = Hex8 then bindE (readPacked8 tag r) (\<lambda>(s, r). Inr (VString s, r))
     else if 1 \<le> tag \<and> tag < length SingleByteTokens then Inr (VString (SingleByteTokens ! tag), r)
     else Inl (ErrInvalidToken tag (index r)))"

fun read_any :: "nat \<Rightarrow> reader" where
  "read_any 0 asString r = Inl OutOfDepth"
| "read_any (Suc depth) asString r = read_dispatch (read_any depth) asString r"

text \<open>The leftover error carries the decoded element, which the Go function returns beside it.\<close>

definition Unmarshal :: "bytes \<Rightarrow> dec_error + node" where
  "Unmarshal d =
     (let r = newDecoder d
      in bindE (readNode (read_any (length d + 1)) r) (\<lambda>(n, r).
           if index r \<noteq> length (ddata r) then Inl (LeftoverBytes n (length (ddata r) - index r))
           else Inr n))"

text \<open>
  \<open>Unpack\<close> strips the flag byte; a set bit 1 means the rest is zlib-compressed. Decompression
  is the library's: the argument \<open>inflate\<close>, \<open>None\<close> on a corrupt stream.
\<close>

definition Unpack :: "(bytes \<Rightarrow> bytes option) \<Rightarrow> bytes \<Rightarrow> dec_error + bytes" where
  "Unpack inflate d =
     (case d of
        [] \<Rightarrow> Inl ErrUnexpectedEOF
      | dataType # rest \<Rightarrow>
          if 0 < 2 AND dataType then
            (case inflate rest of None \<Rightarrow> Inl ZlibError | Some out \<Rightarrow> Inr out)
          else Inr rest)"

section \<open>Progress and depth\<close>

definition unread :: "binaryDecoder \<Rightarrow> nat" where
  "unread r = length (ddata r) - index r"

lemma checkEOS_Inr [simp]: "checkEOS r n = Inr u \<longleftrightarrow> index r + n \<le> length (ddata r)"
  by (auto simp: checkEOS_def)

lemma checkEOS_Inl [simp]: "checkEOS r n = Inl e \<longleftrightarrow> length (ddata r) < index r + n \<and> e = EOF"
  by (auto simp: checkEOS_def)

lemma readByte_unread: "readByte r = Inr (b, r') \<Longrightarrow> unread r' < unread r"
  by (auto simp: readByte_def unread_def result_simps)

lemma readIntN_unread: "readIntN r n le = Inr (v, r') \<Longrightarrow> unread r' \<le> unread r"
  by (auto simp: readIntN_def unread_def result_simps Let_def)

lemma readIntN_unread_less: "readIntN r n le = Inr (v, r') \<Longrightarrow> 0 < n \<Longrightarrow> unread r' < unread r"
  by (auto simp: readIntN_def unread_def result_simps Let_def)

lemma readInt_unread:
  "readInt8 r le = Inr (v, r') \<Longrightarrow> unread r' < unread r"
  "readInt16 r le = Inr (v, r') \<Longrightarrow> unread r' < unread r"
  "readInt32 r le = Inr (v, r') \<Longrightarrow> unread r' < unread r"
  by (auto simp: readInt8_def readInt16_def readInt32_def dest: readIntN_unread_less)

lemma readInt20_unread: "readInt20 r = Inr (v, r') \<Longrightarrow> unread r' < unread r"
  by (auto simp: readInt20_def unread_def result_simps Let_def)

lemma readRaw_unread: "readRaw n r = Inr (v, r') \<Longrightarrow> unread r' \<le> unread r"
  by (auto simp: readRaw_def unread_def result_simps)

lemma readBytesOrString_unread: "readBytesOrString n s r = Inr (v, r') \<Longrightarrow> unread r' \<le> unread r"
  by (auto simp: readBytesOrString_def result_simps dest: readRaw_unread)

lemma unpack_loop_unread: "unpack_loop tag n r b = Inr (v, r') \<Longrightarrow> unread r' \<le> unread r"
proof (induction tag n r b rule: unpack_loop.induct)
  case (2 tag n r b)
  then show ?case by (fastforce simp: result_simps dest: readByte_unread)
qed simp

lemma readPacked8_unread: "readPacked8 tag r = Inr (v, r') \<Longrightarrow> unread r' < unread r"
  by (fastforce simp: readPacked8_def result_simps split: if_splits
      dest!: readByte_unread unpack_loop_unread)

lemma readListSize_unread: "readListSize tag r = Inr (v, r') \<Longrightarrow> unread r' \<le> unread r"
  by (auto simp: readListSize_def split: if_splits dest: readInt_unread)

lemmas unread_lemmas = readByte_unread readInt_unread readInt20_unread readRaw_unread
  readBytesOrString_unread readPacked8_unread readListSize_unread

text \<open>Nothing below the recursive calls runs out of depth.\<close>

lemma leaf_no_depth_error [simp]:
  "readByte r \<noteq> Inl OutOfDepth" "readIntN r n le \<noteq> Inl OutOfDepth" "readInt8 r le \<noteq> Inl OutOfDepth"
  "readInt16 r le \<noteq> Inl OutOfDepth" "readInt32 r le \<noteq> Inl OutOfDepth" "readInt20 r \<noteq> Inl OutOfDepth"
  "readRaw n r \<noteq> Inl OutOfDepth" "readBytesOrString n s r \<noteq> Inl OutOfDepth"
  by (auto simp: readByte_def readIntN_def readInt8_def readInt16_def readInt32_def readInt20_def
      readRaw_def readBytesOrString_def result_simps Let_def)

lemma unpackByte_no_depth_error [simp]: "unpackByte tag b \<noteq> Inl OutOfDepth"
  by (auto simp: unpackByte_def unpackNibble_def unpackHex_def)

lemma unpack_loop_no_depth_error [simp]: "unpack_loop tag n r b \<noteq> Inl OutOfDepth"
  by (induction tag n r b rule: unpack_loop.induct) (auto simp: result_simps)

lemma leaf_no_depth_error2 [simp]:
  "readPacked8 tag r \<noteq> Inl OutOfDepth" "readListSize tag r \<noteq> Inl OutOfDepth"
  by (auto simp: readPacked8_def readListSize_def result_simps split: if_splits)

text \<open>
  Two computations of a read agree within \<open>n\<close> bytes: they are equal, they do not run out of depth,
  and a result leaves at most \<open>n\<close> bytes unread. One relation gives progress, the absence of depth
  errors and the independence of the bound, by one pass over each method.
\<close>

definition agrees :: "nat \<Rightarrow> 'a read_result \<Rightarrow> 'a read_result \<Rightarrow> bool" where
  "agrees n m m' \<longleftrightarrow> m = m' \<and> m \<noteq> Inl OutOfDepth \<and> (\<forall>v r'. m = Inr (v, r') \<longrightarrow> unread r' \<le> n)"

named_theorems agrees_intros

lemma agrees_Inl [agrees_intros]: "e \<noteq> OutOfDepth \<Longrightarrow> agrees n (Inl e) (Inl e)"
  by (simp add: agrees_def)

lemma agrees_Inr [agrees_intros]: "unread r \<le> n \<Longrightarrow> agrees n (Inr (v, r)) (Inr (v, r))"
  by (simp add: agrees_def)

lemma agrees_bind [agrees_intros]:
  assumes m: "agrees n m m'" and f: "\<And>v r. unread r \<le> n \<Longrightarrow> agrees n (f v r) (f' v r)"
  shows "agrees n (bindE m (\<lambda>(v, r). f v r)) (bindE m' (\<lambda>(v, r). f' v r))"
proof (cases m)
  case (Inl e)
  with m show ?thesis by (auto simp: agrees_def)
next
  case (Inr p)
  obtain v r where "p = (v, r)" by (cases p)
  with Inr m f [of r v] show ?thesis by (auto simp: agrees_def)
qed

lemma agrees_if [agrees_intros]:
  "\<lbrakk>c \<Longrightarrow> agrees n a a'; \<not> c \<Longrightarrow> agrees n b b'\<rbrakk> \<Longrightarrow>
     agrees n (if c then a else b) (if c then a' else b')"
  by simp

lemma agrees_option_case [agrees_intros]:
  "\<lbrakk>\<And>x. agrees n (f x) (f' x); agrees n a a'\<rbrakk> \<Longrightarrow>
     agrees n (case opt of Some x \<Rightarrow> f x | None \<Rightarrow> a) (case opt of Some x \<Rightarrow> f' x | None \<Rightarrow> a')"
  by (cases opt) simp_all

lemma agrees_weaken: "agrees n m m' \<Longrightarrow> n \<le> n' \<Longrightarrow> agrees n' m m'"
  by (fastforce simp: agrees_def)

lemma agrees_leaf [agrees_intros]:
  assumes "unread r \<le> n"
  shows "agrees n (readByte r) (readByte r)"
    "agrees n (readInt8 r le) (readInt8 r le)"
    "agrees n (readInt16 r le) (readInt16 r le)"
    "agrees n (readInt32 r le) (readInt32 r le)"
    "agrees n (readInt20 r) (readInt20 r)"
    "agrees n (readBytesOrString len s r) (readBytesOrString len s r)"
    "agrees n (readPacked8 tag r) (readPacked8 tag r)"
    "agrees n (readListSize tag r) (readListSize tag r)"
  using assms by (auto simp: agrees_def dest!: unread_lemmas)

lemma agrees_gval_case [agrees_intros]:
  assumes "\<And>s. v = VString s \<Longrightarrow> agrees n (f s) (f' s)" "e \<noteq> OutOfDepth"
  shows "agrees n (case v of VString s \<Rightarrow> f s | _ \<Rightarrow> Inl e) (case v of VString s \<Rightarrow> f' s | _ \<Rightarrow> Inl e)"
  using assms by (cases v) (auto intro: agrees_Inl)

text \<open>
  The contract between the methods and the readers they recurse through: below \<open>k\<close> unread bytes
  the two readers agree. The methods inherit it, and the dispatcher, which consumes a tag byte
  first, extends it by one byte.
\<close>

locale agreeing_readers =
  fixes rd rd' :: reader and k :: nat
  assumes rd_agrees: "\<lbrakk>unread r \<le> n; n < k\<rbrakk> \<Longrightarrow> agrees n (rd s r) (rd' s r)"
begin

lemma jid_readers_agree:
  assumes "unread r \<le> n" "n < k"
  shows "agrees n (readJIDPair rd r) (readJIDPair rd' r)"
    "agrees n (readInteropJID rd r) (readInteropJID rd' r)"
    "agrees n (readFBJID rd r) (readFBJID rd' r)"
    "agrees n (readADJID rd r) (readADJID rd' r)"
  using assms unfolding readJIDPair_def readInteropJID_def readFBJID_def readADJID_def
  by (auto intro!: agrees_intros rd_agrees split: gval.split)

lemma readAttributes_agree:
  "\<lbrakk>unread r \<le> n; n < k\<rbrakk> \<Longrightarrow> agrees n (readAttributes rd c r a) (readAttributes rd' c r a)"
  by (induction c arbitrary: r a) (auto intro!: agrees_intros rd_agrees)

lemma readNode_agrees:
  "\<lbrakk>unread r \<le> n; n < k\<rbrakk> \<Longrightarrow> agrees n (readNode rd r) (readNode rd' r)"
  unfolding readNode_def by (auto intro!: agrees_intros rd_agrees readAttributes_agree)

lemma readNodes_agree:
  "\<lbrakk>unread r \<le> n; n < k\<rbrakk> \<Longrightarrow> agrees n (readNodes rd c r) (readNodes rd' c r)"
  by (induction c arbitrary: r) (auto intro!: agrees_intros readNode_agrees)

lemma readList_agrees:
  "\<lbrakk>unread r \<le> n; n < k\<rbrakk> \<Longrightarrow> agrees n (readList rd tag r) (readList rd' tag r)"
  unfolding readList_def by (auto intro!: agrees_intros readNodes_agree)

lemma read_dispatch_agrees:
  assumes "unread r \<le> n" "n < Suc k"
  shows "agrees n (read_dispatch rd s r) (read_dispatch rd' s r)"
proof (cases "readByte r")
  case (Inl e)
  then show ?thesis using leaf_no_depth_error(1) [of r] by (auto simp: read_dispatch_def agrees_def)
next
  case (Inr br)
  obtain b r1 where br: "br = (b, r1)" by (cases br)
  with Inr readByte_unread [of r b r1] assms have less: "unread r1 \<le> n - 1" "n - 1 < k" by auto
  note intros = agrees_intros jid_readers_agree readList_agrees
  have "agrees (n - 1) (read_dispatch rd s r) (read_dispatch rd' s r)"
    unfolding read_dispatch_def Inr br bindE_simps prod.case Let_def
    by (intro intros) (use less in simp_all)
  then show ?thesis by (rule agrees_weaken) simp
qed

end

lemma read_any_agreeing: "agreeing_readers (read_any d) (read_any (d + e)) d"
proof (induction d)
  case 0
  show ?case by unfold_locales simp
next
  case (Suc d)
  show ?case
  proof unfold_locales
    fix r n s assume "unread r \<le> n" "n < Suc d"
    with agreeing_readers.read_dispatch_agrees [OF Suc.IH] 
    show "agrees n (read_any (Suc d) s r) (read_any (Suc d + e) s r)" by simp
  qed
qed

interpretation depth: agreeing_readers "read_any d" "read_any (d + e)" d for d e
  by (rule read_any_agreeing)

lemma read_any_depth:
  assumes "unread r < d" "d \<le> d'"
  shows "read_any d' s r = read_any d s r" "read_any d s r \<noteq> Inl OutOfDepth"
  using depth.rd_agrees [of r "unread r" d s "d' - d"] assms by (auto simp: agrees_def)

lemma readNode_depth:
  assumes "unread r < d" "d \<le> d'"
  shows "readNode (read_any d') r = readNode (read_any d) r" "readNode (read_any d) r \<noteq> Inl OutOfDepth"
  using depth.readNode_agrees [of r "unread r" d "d' - d"] assms by (auto simp: agrees_def)

text \<open>
  C36: decoding always terminates: the nesting depth of the recursion never exceeds the number of
  bytes, so the depth bound of the model is never reached on any input and a larger bound changes
  nothing.
\<close>

theorem Unmarshal_terminates:
  "Unmarshal d \<noteq> Inl OutOfDepth \<and>
   readNode (read_any (length d + 1 + extra)) (newDecoder d) = readNode (read_any (length d + 1)) (newDecoder d)"
proof -
  have "unread (newDecoder d) < length d + 1" by (simp add: unread_def newDecoder_def)
  from readNode_depth [OF this, of "length d + 1 + extra"] show ?thesis
    by (auto simp: Unmarshal_def Let_def result_simps split: if_splits)
qed

end
