(* ===== verification/Codec.thy ===== *)
theory Codec
  imports Encoder Decoder
begin

text \<open>
  The encoder and the decoder of the binary XML format are inverse to each other, up to the
  normalisation the format itself performs. The theory first shows what each encoder method
  appends, then that the decoder reads exactly those bytes back, for integers, packed strings,
  strings, JIDs, values and elements in turn.
\<close>

section \<open>Reading at a position\<close>

definition at :: "binaryDecoder \<Rightarrow> bytes \<Rightarrow> bool" where
  "at r xs \<longleftrightarrow> drop (index r) (ddata r) = xs"

definition adv :: "binaryDecoder \<Rightarrow> nat \<Rightarrow> binaryDecoder" where
  "adv r n = r\<lparr>index := index r + n\<rparr>"

lemma adv_0 [simp]: "adv r 0 = r"
  by (simp add: adv_def)

lemma adv_adv [simp]: "adv (adv r m) n = adv r (m + n)"
  by (simp add: adv_def add.assoc)

lemma at_adv: "at r (e @ xs) \<Longrightarrow> length e = n \<Longrightarrow> at (adv r n) xs"
proof -
  assume "at r (e @ xs)" "length e = n"
  then have "drop n (drop (index r) (ddata r)) = xs" by (simp add: at_def)
  then show ?thesis by (simp add: at_def adv_def add.commute)
qed

lemma at_adv_Cons: "at r (a # xs) \<Longrightarrow> at (adv r (Suc 0)) xs"
  using at_adv [of r "[a]" xs] by simp

lemma at_drop: "at r xs \<Longrightarrow> at (adv r n) (drop n xs)"
  by (simp add: at_def adv_def) (metis add.commute drop_drop)

lemma at_length: "at r (e @ xs) \<Longrightarrow> e \<noteq> [] \<Longrightarrow> index r + length e \<le> length (ddata r)"
proof -
  assume "at r (e @ xs)" "e \<noteq> []"
  then have "length (ddata r) - index r = length e + length xs" "0 < length e"
    unfolding at_def by (metis length_append length_drop, simp)
  then show ?thesis by linarith
qed

lemma at_nth: "at r (e @ xs) \<Longrightarrow> i < length e \<Longrightarrow> ddata r ! (index r + i) = e ! i"
proof -
  assume a: "at r (e @ xs)" and i: "i < length e"
  then have "index r + length e \<le> length (ddata r)" using at_length [OF a] by force
  then have "drop (index r) (ddata r) ! i = ddata r ! (index r + i)" using i by simp
  then show ?thesis using a i by (simp add: at_def nth_append)
qed

lemma checkEOS_at: "at r (e @ xs) \<Longrightarrow> length e = n \<Longrightarrow> 0 < n \<Longrightarrow> checkEOS r n = Inr ()"
  using at_length [of r e xs] by (auto simp: checkEOS_def)

lemma readByte_at: "at r (b # xs) \<Longrightarrow> readByte r = Inr (b, adv r 1)"
  using checkEOS_at [of r "[b]" xs 1] at_nth [of r "[b]" xs 0]
  by (simp add: readByte_def adv_def checkEOS_def)

lemma readIntN_at:
  assumes "at r (e @ xs)" "length e = n" "0 < n"
  shows "readIntN r n False =
    Inr (foldl (\<lambda>ret i. ret OR push_bit ((n - i - 1) * 8) (unat (e ! i))) 0 [0..<n], adv r n)"
proof -
  have "foldl (\<lambda>ret i. ret OR push_bit ((n - i - 1) * 8) (unat (ddata r ! (index r + i)))) 0 [0..<n] =
      foldl (\<lambda>ret i. ret OR push_bit ((n - i - 1) * 8) (unat (e ! i))) 0 [0..<n]"
    by (rule foldl_cong) (use assms at_nth [OF assms(1)] in auto)
  then show ?thesis using checkEOS_at [OF assms] by (simp add: readIntN_def adv_def Let_def checkEOS_def)
qed

lemma readInt8_at: "at r (a # xs) \<Longrightarrow> readInt8 r False = Inr (unat a, adv r 1)"
  using readIntN_at [of r "[a]" xs 1] by (simp add: readInt8_def)

lemma readInt16_at:
  "at r (a # b # xs) \<Longrightarrow> readInt16 r False = Inr (push_bit 8 (unat a) OR unat b, adv r 2)"
  using readIntN_at [of r "[a, b]" xs 2] by (simp add: readInt16_def upt_rec)

lemma readInt32_at:
  "at r (a # b # c # d # xs) \<Longrightarrow> readInt32 r False =
     Inr (push_bit 24 (unat a) OR push_bit 16 (unat b) OR push_bit 8 (unat c) OR unat d, adv r 4)"
  using readIntN_at [of r "[a, b, c, d]" xs 4] by (simp add: readInt32_def upt_rec or.assoc)

lemma readInt20_at:
  "at r (a # b # c # xs) \<Longrightarrow> readInt20 r =
     Inr (push_bit 16 (unat a AND 15) + push_bit 8 (unat b) + unat c, adv r 3)"
  using checkEOS_at [of r "[a, b, c]" xs 3] at_nth [of r "[a, b, c]" xs 0]
    at_nth [of r "[a, b, c]" xs 1] at_nth [of r "[a, b, c]" xs 2]
  by (simp add: readInt20_def adv_def Let_def checkEOS_def)

lemma readRaw_at: "at r (e @ xs) \<Longrightarrow> length e = n \<Longrightarrow> 0 < n \<Longrightarrow> readRaw n r = Inr (e, adv r n)"
  using checkEOS_at [of r e xs n] by (simp add: readRaw_def adv_def slice_def at_def checkEOS_def)

lemma readRaw_0: "index r \<le> length (ddata r) \<Longrightarrow> readRaw 0 r = Inr ([], r)"
  by (simp add: readRaw_def slice_def checkEOS_def)

section \<open>What the integer writers append\<close>

lemma pushIntN_append:
  "pushIntN w v n False = w @ map (\<lambda>i. word_of_nat (drop_bit ((n - i - 1) * 8) v AND 0xFF)) [0..<n]"
proof -
  have "foldl (\<lambda>w i. w @ [g i]) w is = w @ map g is" for g :: "nat \<Rightarrow> byte" and "is"
    by (induction "is" arbitrary: w) auto
  then show ?thesis by (simp add: pushIntN_def pushByte_def)
qed

lemma word_of_nat_and_255: "(word_of_nat (n AND 0xFF) :: byte) = word_of_nat n"
proof -
  have "(0xFF :: nat) = mask 8" by (simp add: mask_eq_exp_minus_1)
  then have "n AND 0xFF = take_bit 8 n" by (simp add: take_bit_eq_mask)
  then show ?thesis by (simp add: word_unat_eq_iff unat_of_nat take_bit_eq_mod)
qed

lemma pushInt8_append: "pushInt8 w v = w @ [word_of_nat v]"
  by (simp add: pushInt8_def pushIntN_append word_of_nat_and_255)

lemma pushInt16_append: "pushInt16 w v = w @ [word_of_nat (drop_bit 8 v), word_of_nat v]"
  by (simp add: pushInt16_def pushIntN_append word_of_nat_and_255 upt_rec)

lemma pushInt32_append:
  "pushInt32 w v = w @ [word_of_nat (drop_bit 24 v), word_of_nat (drop_bit 16 v),
     word_of_nat (drop_bit 8 v), word_of_nat v]"
  by (simp add: pushInt32_def pushIntN_append word_of_nat_and_255 upt_rec)

lemma join32:
  fixes v :: nat
  assumes v: "v < 2 ^ 32"
  shows "push_bit 24 (take_bit 8 (drop_bit 24 v)) OR push_bit 16 (take_bit 8 (drop_bit 16 v)) OR
     push_bit 8 (take_bit 8 (drop_bit 8 v)) OR take_bit 8 v = v"
proof (rule bit_eqI)
  fix k :: nat
  consider "k < 8" | "8 \<le> k" "k < 16" | "16 \<le> k" "k < 24" | "24 \<le> k" "k < 32" | "32 \<le> k" by linarith
  then show "bit (push_bit 24 (take_bit 8 (drop_bit 24 v)) OR push_bit 16 (take_bit 8 (drop_bit 16 v)) OR
     push_bit 8 (take_bit 8 (drop_bit 8 v)) OR take_bit 8 v) k = bit v k"
    by cases (auto simp: bit_simps bit_nat_bound [OF v])
qed

lemma and_15_nat: "(n :: nat) AND 15 = n mod 16"
  using take_bit_eq_mask [of 4 n] by (simp add: take_bit_eq_mod mask_eq_exp_minus_1)

lemma join20:
  fixes v :: nat
  assumes "v < 2 ^ 20"
  shows "push_bit 16 (unat (word_of_nat (drop_bit 16 v AND 0x0F) :: byte) AND 15) +
    push_bit 8 (unat (word_of_nat (drop_bit 8 v AND 0xFF) :: byte)) +
    unat (word_of_nat (v AND 0xFF) :: byte) = v"
proof -
  have hi: "v div 65536 < 16" using assms by simp
  have "v div 256 div 256 = v div 65536" by (simp add: div_mult2_eq [symmetric])
  then have "v div 65536 * 256 + v div 256 mod 256 = v div 256"
    using div_mult_mod_eq [of "v div 256" 256] by simp
  moreover have "v div 256 * 256 + v mod 256 = v" by simp
  ultimately have "v div 65536 * 65536 + v div 256 mod 256 * 256 + v mod 256 = v" by linarith
  with hi show ?thesis
    by (simp add: word_of_nat_and_255 unat_word_of_nat_byte and_15_nat drop_bit_eq_div
        push_bit_eq_mult take_bit_eq_mod)
qed

section \<open>Packed strings\<close>

lemma byte_lt_16_bit: "(p :: byte) < 16 \<Longrightarrow> bit p k \<Longrightarrow> k < 4"
proof -
  assume "p < 16" "bit p k"
  then have "unat p < 2 ^ 4" "bit (unat p) k"
    by (auto simp: word_less_nat_alt bit_unsigned_iff dest: bit_byte_lt)
  then show ?thesis using bit_nat_bound by (metis not_le)
qed

lemma nibbles_of_pair:
  fixes p q :: byte
  assumes p: "p < 16" and q: "q < 16"
  shows "drop_bit 4 ((push_bit 4 p OR q) AND 0xF0) = p" "(push_bit 4 p OR q) AND 0x0F = q"
    "(drop_bit 4 (push_bit 4 p) OR drop_bit 4 q) AND 15 = p"
proof -
  have f0: "(0xF0 :: byte) = push_bit 4 (mask 4)" and f: "(0x0F :: byte) = mask 4"
    by (simp_all add: mask_eq_exp_minus_1)
  show "drop_bit 4 ((push_bit 4 p OR q) AND 0xF0) = p"
    unfolding f0 by (rule bit_word_eqI) (auto simp: bit_simps dest: byte_lt_16_bit [OF p] byte_lt_16_bit [OF q])
  then show "(drop_bit 4 (push_bit 4 p) OR drop_bit 4 q) AND 15 = p" by simp
  show "(push_bit 4 p OR q) AND 0x0F = q"
    unfolding f by (rule bit_word_eqI) (auto simp: bit_simps dest: byte_lt_16_bit [OF p] byte_lt_16_bit [OF q])
qed

text \<open>
  What \<open>writePackedBytes\<close> and \<open>readPacked8\<close> need of the two alphabets: packing a valid byte gives a
  nibble that unpacks to it, and the padding nibble unpacks to something.
\<close>

locale nibble_packing =
  fixes pk :: "byte \<Rightarrow> enc_panic + byte" and tag :: nat and ok :: "byte \<Rightarrow> bool"
  assumes pack: "ok c \<Longrightarrow> \<exists>p. pk c = Inr p \<and> p < 16 \<and> unpackByte tag p = Inr c"
    and pad: "pk 0 = Inr 15" "\<exists>z. unpackByte tag 15 = Inr z"
begin

lemma pack_pairs_unpack_loop:
  "list_all ok bs \<Longrightarrow>
    \<exists>e. length e = (length bs + 1) div 2 \<and> (\<forall>w. pack_pairs pk w bs = Inr (w @ e)) \<and>
      (\<forall>r rest build. at r (e @ rest) \<longrightarrow>
         (\<exists>z. length z = length bs mod 2 \<and>
            unpack_loop tag (length e) r build = Inr (build @ bs @ z, adv r (length e))))"
proof (induction bs rule: induct_list012)
  case 1
  then show ?case by simp
next
  case (2 a)
  then obtain p where p: "pk a = Inr p" "p < 16" "unpackByte tag p = Inr a" using pack by auto
  obtain z where z: "unpackByte tag 15 = Inr z" using pad by auto
  define q where "q = (15 :: byte)"
  then have q: "pk 0 = Inr q" "q < 16" "unpackByte tag q = Inr z" using z pad by simp_all
  show ?case
    by (rule exI [of _ "[push_bit 4 p OR q]"])
       (auto simp: p q packBytePair_def pushByte_def readByte_at nibbles_of_pair [OF p(2) q(2)]
        intro: exI [of _ "[z]"])
next
  case (3 a b bs)
  then have oks: "ok a" "ok b" "list_all ok bs" by simp_all
  obtain p where p: "pk a = Inr p" "p < 16" "unpackByte tag p = Inr a" using pack [OF oks(1)] by blast
  obtain q where q: "pk b = Inr q" "q < 16" "unpackByte tag q = Inr b" using pack [OF oks(2)] by blast
  from "3.IH"(1) [OF oks(3)] obtain e where e: "length e = (length bs + 1) div 2" "\<And>w. pack_pairs pk w bs = Inr (w @ e)"
    "\<And>r rest build. at r (e @ rest) \<Longrightarrow> (\<exists>z. length z = length bs mod 2 \<and>
            unpack_loop tag (length e) r build = Inr (build @ bs @ z, adv r (length e)))"
    by blast
  show ?case
  proof (rule exI [of _ "(push_bit 4 p OR q) # e"], intro conjI allI impI)
    fix r rest build assume r: "at r (((push_bit 4 p OR q) # e) @ rest)"
    then have "at (adv r 1) (e @ rest)" using at_adv_Cons by simp
    from e(3) [OF this, of "build @ [a, b]"] r
    show "\<exists>z. length z = length (a # b # bs) mod 2 \<and>
       unpack_loop tag (length ((push_bit 4 p OR q) # e)) r build =
         Inr (build @ (a # b # bs) @ z, adv r (length ((push_bit 4 p OR q) # e)))"
      by (auto simp: readByte_at p q nibbles_of_pair [OF p(2) q(2)])
  qed (use e p q in \<open>auto simp: packBytePair_def pushByte_def\<close>)
qed

end

definition nibble_byte :: "byte \<Rightarrow> bool" where
  "nibble_byte b \<longleftrightarrow> b = 0x2d \<or> b = 0x2e \<or> (0x30 \<le> b \<and> b \<le> 0x39)"

definition hex_byte :: "byte \<Rightarrow> bool" where
  "hex_byte b \<longleftrightarrow> (0x30 \<le> b \<and> b \<le> 0x39) \<or> (0x41 \<le> b \<and> b \<le> 0x46)"

lemma byte_range: "lo \<le> (b :: byte) \<and> b \<le> hi \<Longrightarrow> b \<in> word_of_nat ` {unat lo..unat hi}"
  by (rule image_eqI [of _ _ "unat b"]) (auto simp: word_le_nat_alt)

lemma nibble_byte_cases:
  "nibble_byte b \<Longrightarrow> b \<in> {0x2d, 0x2e, 0x30, 0x31, 0x32, 0x33, 0x34, 0x35, 0x36, 0x37, 0x38, 0x39}"
  using byte_range [of "0x30" b "0x39"] by (auto simp: nibble_byte_def atLeastAtMost_upt upt_rec)

lemma hex_byte_cases:
  "hex_byte b \<Longrightarrow> b \<in> {0x30, 0x31, 0x32, 0x33, 0x34, 0x35, 0x36, 0x37, 0x38, 0x39,
     0x41, 0x42, 0x43, 0x44, 0x45, 0x46}"
  using byte_range [of "0x30" b "0x39"] byte_range [of "0x41" b "0x46"]
  by (auto simp: hex_byte_def atLeastAtMost_upt upt_rec)

definition packs_back :: "(byte \<Rightarrow> enc_panic + byte) \<Rightarrow> nat \<Rightarrow> byte \<Rightarrow> bool" where
  "packs_back pk tag c = (case pk c of Inl _ \<Rightarrow> False | Inr p \<Rightarrow> p < 16 \<and> unpackByte tag p = Inr c)"

lemma packs_backD: "packs_back pk tag c \<Longrightarrow> \<exists>p. pk c = Inr p \<and> p < 16 \<and> unpackByte tag p = Inr c"
  by (auto simp: packs_back_def split: sum.splits)

lemma packNibble_back: "nibble_byte b \<Longrightarrow> packs_back packNibble Nibble8 b"
  by (drule nibble_byte_cases, elim insertE emptyE; hypsubst)
     (simp_all add: packs_back_def packNibble_def unpackByte_def unpackNibble_def)

lemma packHex_back: "hex_byte b \<Longrightarrow> packs_back packHex Hex8 b"
  by (drule hex_byte_cases, elim insertE emptyE; hypsubst)
     (simp_all add: packs_back_def packHex_def unpackByte_def unpackHex_def type_tokens)

interpretation nibble: nibble_packing packNibble Nibble8 nibble_byte
  by unfold_locales (use packs_backD [OF packNibble_back] in
      \<open>auto simp: packNibble_def unpackByte_def unpackNibble_def\<close>)

interpretation hex: nibble_packing packHex Hex8 hex_byte
  by unfold_locales (use packs_backD [OF packHex_back] in
      \<open>auto simp: packHex_def unpackByte_def unpackHex_def type_tokens\<close>)

lemma nibble_byte_of_char: "is_digit c \<or> c = CHR ''-'' \<or> c = CHR ''.'' \<Longrightarrow> nibble_byte (byte_of_char c)"
proof (elim disjE)
  assume "is_digit c"
  then show ?thesis by (simp add: is_digit_def nibble_byte_def word_le_nat_alt)
qed (simp_all add: byte_of_char_def nibble_byte_def)

lemma validateNibble_bytes: "validateNibble s \<Longrightarrow> list_all nibble_byte (bytes_of_string s)"
  by (auto simp: validateNibble_def bytes_of_string_def list_all_iff intro!: nibble_byte_of_char)

lemma validateHex_bytes: "validateHex s \<Longrightarrow> list_all hex_byte (bytes_of_string s)"
  by (auto simp: validateHex_def bytes_of_string_def list_all_iff hex_byte_def is_digit_def
      is_upper_hex_def word_le_nat_alt)

text \<open>The length byte of a packed string, checked for each of its 65 values.\<close>

definition packed_length_ok :: "nat \<Rightarrow> bool" where
  "packed_length_ok k \<longleftrightarrow> (let b = (word_of_nat k :: byte) in
     unat (b AND 127) = k \<and> drop_bit 7 b = 0 \<and> unat ((b OR 128) AND 127) = k \<and>
     drop_bit 7 (b OR 128) \<noteq> 0)"

lemma packed_length_table: "list_all packed_length_ok [0..<65]"
  by code_simp

lemma packed_length_byte:
  assumes "k \<le> 64"
  shows "unat ((word_of_nat k :: byte) AND 127) = k" "drop_bit 7 (word_of_nat k :: byte) = 0"
    "unat ((word_of_nat k OR (128 :: byte)) AND 127) = k" "drop_bit 7 (word_of_nat k OR (128 :: byte)) \<noteq> 0"
proof -
  have "packed_length_ok k" using packed_length_table assms by (auto simp: list_all_iff)
  then show "unat ((word_of_nat k :: byte) AND 127) = k" "drop_bit 7 (word_of_nat k :: byte) = 0"
    "unat ((word_of_nat k OR (128 :: byte)) AND 127) = k" "drop_bit 7 (word_of_nat k OR (128 :: byte)) \<noteq> 0"
    unfolding packed_length_ok_def Let_def by blast+
qed

lemma writePackedBytes_reads:
  assumes len: "length s \<le> PackedMax"
    and alphabet: "tag = Nibble8 \<and> list_all nibble_byte (bytes_of_string s) \<or>
                   tag = Hex8 \<and> list_all hex_byte (bytes_of_string s)"
  obtains e where "\<And>w. writePackedBytes w s tag = Inr (w @ word_of_nat tag # e)"
    "\<And>r rest. at r (e @ rest) \<Longrightarrow> readPacked8 tag r = Inr (s, adv r (length e))"
proof -
  let ?bs = "bytes_of_string s" and ?pk = "if tag = Nibble8 then packNibble else packHex"
  have ne: "Hex8 \<noteq> Nibble8" by (simp add: type_tokens)
  have tag: "tag = Nibble8 \<or> tag = Hex8 \<and> tag \<noteq> Nibble8" using alphabet ne by auto
  have "\<exists>e. length e = (length ?bs + 1) div 2 \<and> (\<forall>w. pack_pairs ?pk w ?bs = Inr (w @ e)) \<and>
      (\<forall>r rest build. at r (e @ rest) \<longrightarrow> (\<exists>z. length z = length ?bs mod 2 \<and>
            unpack_loop tag (length e) r build = Inr (build @ ?bs @ z, adv r (length e))))"
    using alphabet ne nibble.pack_pairs_unpack_loop [of ?bs] hex.pack_pairs_unpack_loop [of ?bs]
    by (elim disjE conjE) simp_all
  then obtain e where e: "length e = (length s + 1) div 2" "\<And>w. pack_pairs ?pk w ?bs = Inr (w @ e)"
    "\<And>r rest build. at r (e @ rest) \<Longrightarrow> (\<exists>z. length z = length s mod 2 \<and>
            unpack_loop tag (length e) r build = Inr (build @ ?bs @ z, adv r (length e)))"
    unfolding length_bytes_of_string by blast
  let ?k = "(length s + 1) div 2"
  define lb where "lb = (if length s mod 2 \<noteq> 0 then word_of_nat ?k OR 128 else word_of_nat ?k :: byte)"
  have k: "?k \<le> 64" using len by (simp add: PackedMax_def)
  have lb: "unat (lb AND 127) = ?k" "drop_bit 7 lb \<noteq> 0 \<longleftrightarrow> length s mod 2 \<noteq> 0"
    unfolding lb_def using packed_length_byte [OF k] by simp_all
  show thesis
  proof (rule that [of "lb # e"])
    fix w
    have "writePackedBytes w s tag = pack_pairs ?pk (pushByte (pushByte w (word_of_nat tag)) lb) ?bs"
      using tag len by (auto simp: writePackedBytes_def Let_def lb_def)
    then show "writePackedBytes w s tag = Inr (w @ word_of_nat tag # lb # e)"
      by (simp add: e(2) pushByte_def)
  next
    fix r rest assume r: "at r ((lb # e) @ rest)"
    then have "at (adv r 1) (e @ rest)" using at_adv_Cons by simp
    from e(3) [OF this, of "[]"] obtain z where z: "length z = length s mod 2"
      "unpack_loop tag ?k (adv r 1) [] = Inr (?bs @ z, adv r (1 + length e))"
      by (auto simp: e(1))
    have "readByte r = Inr (lb, adv r 1)" using r by (simp add: readByte_at)
    with z lb show "readPacked8 tag r = Inr (s, adv r (length (lb # e)))"
      by (cases "length s mod 2 = 0")
         (auto simp: readPacked8_def length_Suc_conv)
  qed
qed

section \<open>Strings\<close>

text \<open>
  \<open>reads s e v\<close>: wherever the bytes \<open>e\<close> stand in the input, \<open>read(s)\<close> at any sufficient depth
  returns \<open>v\<close> and has consumed exactly \<open>e\<close>.
\<close>

definition reads :: "bool \<Rightarrow> bytes \<Rightarrow> gval \<Rightarrow> bool" where
  "reads s e v \<longleftrightarrow> (\<forall>r rest d. at r (e @ rest) \<longrightarrow> length (e @ rest) < d \<longrightarrow>
     read_any d s r = Inr (v, adv r (length e)))"

lemma readsI:
  assumes "\<And>r rest d. at r (e @ rest) \<Longrightarrow> length (e @ rest) \<le> d \<Longrightarrow>
     read_dispatch (read_any d) s r = Inr (v, adv r (length e))"
  shows "reads s e v"
  unfolding reads_def
proof (intro allI impI)
  fix r rest d assume *: "at r (e @ rest)" "length (e @ rest) < d"
  then obtain d' where "d = Suc d'" by (cases d) auto
  with assms [OF *(1), of d'] *(2) show "read_any d s r = Inr (v, adv r (length e))" by simp
qed

lemma readsD: "reads s e v \<Longrightarrow> at r (e @ rest) \<Longrightarrow> length (e @ rest) < d \<Longrightarrow>
   read_any d s r = Inr (v, adv r (length e))"
  by (simp add: reads_def)

lemma reads_nonempty: "reads s e v \<Longrightarrow> e \<noteq> []"
proof
  assume "reads s e v" "e = []"
  then have "read_any 1 s (newDecoder []) = Inr (v, newDecoder [])"
    using readsD [of s "[]" v "newDecoder []" "[]" 1] by (simp add: at_def newDecoder_def)
  then show False
    by (simp add: read_dispatch_def newDecoder_def readByte_def checkEOS_def)
qed

definition encodes :: "(bytes \<Rightarrow> enc_panic + bytes) \<Rightarrow> (bool \<Rightarrow> gval) \<Rightarrow> bool" where
  "encodes f v \<longleftrightarrow> (\<exists>e. (\<forall>w. f w = Inr (w @ e)) \<and> (\<forall>s. reads s e (v s)))"

lemma encodesI: "\<lbrakk>\<And>w. f w = Inr (w @ e); \<And>s. reads s e (v s)\<rbrakk> \<Longrightarrow> encodes f v"
  by (auto simp: encodes_def)

text \<open>Raw strings and byte slices.\<close>

definition raw_val :: "bytes \<Rightarrow> bool \<Rightarrow> gval" where
  "raw_val bs s = (if s then VString (string_of_bytes bs) else VBytes bs)"

lemma readBytesOrString_at:
  assumes "at r (bs @ rest)" "index r \<le> length (ddata r)"
  shows "readBytesOrString (length bs) s r = Inr (raw_val bs s, adv r (length bs))"
  using assms readRaw_at [of r bs rest "length bs"] readRaw_0 [of r]
  by (cases "bs = []") (auto simp: readBytesOrString_def raw_val_def)

lemma at_index_le: "at r (e @ rest) \<Longrightarrow> e \<noteq> [] \<Longrightarrow> length e = n \<Longrightarrow> index (adv r n) \<le> length (ddata (adv r n))"
  using at_length [of r e rest] by (simp add: adv_def)

lemma header_encodes:
  assumes f: "\<And>w. f w = Inr (w @ h @ bs)" and h: "h \<noteq> []"
    and rd: "\<And>rd s r rest. at r (h @ bs @ rest) \<Longrightarrow>
      read_dispatch rd s r = readBytesOrString (length bs) s (adv r (length h))"
  shows "encodes f (raw_val bs)"
proof (rule encodesI [of _ "h @ bs"])
  show "reads s (h @ bs) (raw_val bs s)" for s
  proof (rule readsI)
    fix r rest d assume "at r ((h @ bs) @ rest)"
    then have r: "at r (h @ bs @ rest)" by simp
    show "read_dispatch (read_any d) s r = Inr (raw_val bs s, adv r (length (h @ bs)))"
      using rd [OF r] readBytesOrString_at [OF at_adv [OF r refl] at_index_le [OF r h refl]] by simp
  qed
qed (rule f)

lemma byteLength_encodes:
  assumes "length bs < MaxInt32"
  shows "encodes (\<lambda>w. bindE (writeByteLength w (length bs)) (\<lambda>w. Inr (pushBytes w bs))) (raw_val bs)"
proof -
  let ?n = "length bs"
  note writes = writeByteLength_def pushInt8_append pushInt20_def pushInt32_append pushByte_def pushBytes_def
  note reading = read_dispatch_def readByte_at type_tokens
  consider "?n < 256" | "256 \<le> ?n" "?n < 2 ^ 20" | "2 ^ 20 \<le> ?n" "?n < MaxInt32" using assms by linarith
  then show ?thesis
  proof cases
    case 1
    let ?h = "[word_of_nat Binary8, word_of_nat ?n] :: bytes"
    show ?thesis
    proof (rule header_encodes [where h = ?h])
      fix rd s r rest assume r: "at r (?h @ bs @ rest)"
      show "read_dispatch rd s r = readBytesOrString ?n s (adv r (length ?h))"
        using r at_drop [OF r, of 1] 1 by (simp add: reading readInt8_at unat_byte_small)
    qed (use 1 in \<open>simp_all add: writes\<close>)
  next
    case 2
    let ?h = "[word_of_nat Binary20, word_of_nat (drop_bit 16 ?n AND 0x0F),
      word_of_nat (drop_bit 8 ?n AND 0xFF), word_of_nat (?n AND 0xFF)] :: bytes"
    show ?thesis
    proof (rule header_encodes [where h = ?h])
      fix rd s r rest assume r: "at r (?h @ bs @ rest)"
      have len: "length ?h = 4" by simp
      show "read_dispatch rd s r = readBytesOrString ?n s (adv r (length ?h))"
        unfolding len using r at_drop [OF r, of 1] join20 [OF 2(2)] by (simp add: reading readInt20_at)
    qed (use 2 in \<open>simp_all add: writes\<close>)
  next
    case 3
    let ?h = "[word_of_nat Binary32, word_of_nat (drop_bit 24 ?n), word_of_nat (drop_bit 16 ?n),
      word_of_nat (drop_bit 8 ?n), word_of_nat ?n] :: bytes"
    have n: "?n < 2 ^ 32" using 3 by (simp add: MaxInt32_def)
    show ?thesis
    proof (rule header_encodes [where h = ?h])
      fix rd s r rest assume r: "at r (?h @ bs @ rest)"
      have len: "length ?h = 5" by simp
      show "read_dispatch rd s r = readBytesOrString ?n s (adv r (length ?h))"
        unfolding len using r at_drop [OF r, of 1] join32 [OF n]
        by (simp add: reading readInt32_at unat_word_of_nat_byte)
    qed (use 3 in \<open>simp_all add: writes\<close>)
  qed
qed

text \<open>
  The value a written string reads back as: a token or a packed string is a string in both
  modes, a raw string is a byte slice where a string was not asked for.
\<close>

definition compact :: "string \<Rightarrow> bool" where
  "compact s \<longleftrightarrow> IndexOfSingleToken s \<noteq> None \<or> IndexOfDoubleByteToken s \<noteq> None \<or>
     validateNibble s \<or> validateHex s"

definition norm_string :: "string \<Rightarrow> bool \<Rightarrow> gval" where
  "norm_string s asString = (if compact s \<or> asString then VString s else VBytes (bytes_of_string s))"

lemma norm_string_True [simp]: "norm_string s True = VString s"
  by (simp add: norm_string_def)

lemma single_token_encodes:
  assumes "IndexOfSingleToken s = Some b"
  shows "encodes (\<lambda>w. Inr (pushByte w b)) (norm_string s)"
proof (rule encodesI [of _ "[b]"])
  have b: "0 < unat b" "unat b < 236" "SingleByteTokens ! unat b = s"
    using IndexOfSingleToken_Some [OF assms] by (simp_all add: length_SingleByteTokens)
  show "reads m [b] (norm_string s m)" for m
    by (rule readsI) (use assms b in \<open>simp add: read_dispatch_def readByte_at type_tokens Let_def
        length_SingleByteTokens norm_string_def compact_def\<close>)
qed (simp add: pushByte_def)

lemma double_token_encodes:
  assumes "IndexOfDoubleByteToken s = Some (a, b)"
  shows "encodes (\<lambda>w. Inr (pushByte (pushByte w (word_of_nat Dictionary0 + a)) b)) (norm_string s)"
proof (rule encodesI [of _ "[word_of_nat Dictionary0 + a, b]"])
  have a: "unat a < 4" and look: "GetDoubleToken (int (unat a)) (int (unat b)) = Some s"
    using IndexOfDoubleByteToken_Some [OF assms] by simp_all
  have t: "unat (word_of_nat Dictionary0 + a) = 236 + unat a"
    using a by (simp add: Dictionary0_def unat_word_ariths)
  then have ts: "236 \<le> unat (word_of_nat Dictionary0 + a)" "unat (word_of_nat Dictionary0 + a) < 240"
    "int (unat (word_of_nat Dictionary0 + a)) - int Dictionary0 = int (unat a)"
    using a by (simp_all add: Dictionary0_def)
  show "reads m [word_of_nat Dictionary0 + a, b] (norm_string s m)" for m
  proof (rule readsI)
    fix r rest d assume r: "at r ([word_of_nat Dictionary0 + a, b] @ rest)"
    show "read_dispatch (read_any d) m r =
        Inr (norm_string s m, adv r (length [word_of_nat Dictionary0 + a, b]))"
      using r at_drop [OF r, of 1] ts look assms
      by (auto simp: read_dispatch_def readByte_at readInt8_at Let_def norm_string_def compact_def
          type_tokens)
  qed
qed (simp add: pushByte_def)

lemma packed_encodes:
  assumes "length s \<le> PackedMax" "validateNibble s \<or> validateHex s"
    and alphabet: "tag = Nibble8 \<and> list_all nibble_byte (bytes_of_string s) \<or>
                   tag = Hex8 \<and> list_all hex_byte (bytes_of_string s)"
  shows "encodes (\<lambda>w. writePackedBytes w s tag) (norm_string s)"
proof -
  obtain e where e: "\<And>w. writePackedBytes w s tag = Inr (w @ word_of_nat tag # e)"
    "\<And>r rest. at r (e @ rest) \<Longrightarrow> readPacked8 tag r = Inr (s, adv r (length e))"
    using writePackedBytes_reads [OF assms(1) alphabet] by metis
  have tag: "unat (word_of_nat tag :: byte) = tag" "tag = Nibble8 \<or> tag = Hex8"
    using alphabet by (auto simp: type_tokens)
  show ?thesis
  proof (rule encodesI [OF e(1)], rule readsI)
    fix m r rest d assume r: "at r ((word_of_nat tag # e) @ rest)"
    then have "readPacked8 tag (adv r 1) = Inr (s, adv r (1 + length e))"
      using e(2) [of "adv r 1" rest] at_adv_Cons [of r "word_of_nat tag" "e @ rest"] by simp
    then show "read_dispatch (read_any d) m r = Inr (norm_string s m, adv r (length (word_of_nat tag # e)))"
      using r tag assms(2)
      by (auto simp: read_dispatch_def readByte_at Let_def norm_string_def compact_def type_tokens)
  qed
qed

lemma writeString_encodes:
  assumes "length s < MaxInt32"
  shows "encodes (\<lambda>w. writeString w s) (norm_string s)"
proof (cases "IndexOfSingleToken s")
  case (Some b)
  then show ?thesis using single_token_encodes [OF Some] by (simp add: writeString_def)
next
  case none: None
  show ?thesis
  proof (cases "IndexOfDoubleByteToken s")
    case (Some ab)
    then show ?thesis using double_token_encodes [of s "fst ab" "snd ab"] none
      by (simp add: writeString_def case_prod_beta)
  next
    case None
    have len: "validateNibble s \<or> validateHex s \<Longrightarrow> length s \<le> PackedMax"
      by (auto simp: validateNibble_def validateHex_def)
    consider "validateNibble s" | "\<not> validateNibble s" "validateHex s" | "\<not> compact s"
      using none None by (auto simp: compact_def)
    then show ?thesis
    proof cases
      case 1
      then show ?thesis
        using none None packed_encodes [of s Nibble8] len validateNibble_bytes by (simp add: writeString_def)
    next
      case 2
      then show ?thesis
        using none None packed_encodes [of s Hex8] len validateHex_bytes by (simp add: writeString_def)
    next
      case 3
      have "raw_val (bytes_of_string s) = norm_string s"
        using 3 by (simp add: raw_val_def norm_string_def fun_eq_iff)
      then show ?thesis
        using none None 3 byteLength_encodes [of "bytes_of_string s"] assms
        by (simp add: writeString_def writeStringRaw_def pushString_def compact_def)
    qed
  qed
qed

section \<open>JIDs\<close>

definition ad_jid :: "JID \<Rightarrow> bool" where
  "ad_jid jid \<longleftrightarrow> ((Server jid = DefaultUserServer \<or> Server jid = HiddenUserServer) \<and> 0 < Device jid) \<or>
     Server jid = HostedServer \<or> Server jid = HostedLIDServer"

text \<open>
  What the wire format keeps of a JID: the low byte of the device of an AD JID, the whole device
  of a messenger JID, device and integrator of an interop JID, nothing but user and server of
  any other; the raw agent never.
\<close>

definition norm_jid :: "JID \<Rightarrow> JID" where
  "norm_jid jid =
     \<lparr>User = User jid, RawAgent = 0,
      Device = (if ad_jid jid then Device jid AND 0xFF
                else if Server jid = MessengerServer \<or> Server jid = InteropServer then Device jid else 0),
      Integrator = (if Server jid = InteropServer then Integrator jid else 0),
      Server = Server jid\<rparr>"

lemma writeString_obtain:
  assumes "length s < MaxInt32"
  obtains e where "\<And>w. writeString w s = Inr (w @ e)" "\<And>m. reads m e (norm_string s m)"
  using writeString_encodes [OF assms] by (auto simp: encodes_def)

lemma readInt16_word:
  assumes "at r (word_of_nat (drop_bit 8 (unat w)) # word_of_nat (unat w) # xs)"
  shows "readInt16 r False = Inr (unat (w :: u16), adv r 2)"
proof -
  have "unat w < 2 ^ 16" using unsigned_less [of w, where ?'a = nat] by simp
  then show ?thesis
    using readInt16_at [OF assms] unfolding unat_word_of_nat_byte by (simp only: join16)
qed

text \<open>
  \<open>parses n p e v\<close>: with at most \<open>n\<close> bytes of input left, the method \<open>p\<close> reads \<open>v\<close> from the bytes
  \<open>e\<close> and consumes exactly them. The relation is closed under sequencing.
\<close>

definition parses :: "nat \<Rightarrow> (binaryDecoder \<Rightarrow> 'a read_result) \<Rightarrow> bytes \<Rightarrow> 'a \<Rightarrow> bool" where
  "parses n p e v \<longleftrightarrow> (\<forall>r rest. at r (e @ rest) \<longrightarrow> length (e @ rest) \<le> n \<longrightarrow>
     p r = Inr (v, adv r (length e)))"

lemma parses_return: "v = v' \<Longrightarrow> parses n (\<lambda>r. Inr (v, r)) [] v'"
  by (simp add: parses_def)

lemma parses_bind:
  assumes p: "parses n p e v" and q: "parses n (q v) e' v'"
  shows "parses n (\<lambda>r. bindE (p r) (\<lambda>(x, r). q x r)) (e @ e') v'"
  unfolding parses_def
proof (intro allI impI)
  fix r rest assume r: "at r ((e @ e') @ rest)" and n: "length ((e @ e') @ rest) \<le> n"
  have "p r = Inr (v, adv r (length e))" using p r n by (simp add: parses_def)
  moreover have "at (adv r (length e)) (e' @ rest)" using r by (intro at_adv [of r e]) auto
  then have "q v (adv r (length e)) = Inr (v', adv r (length e + length e'))"
    using q n by (simp add: parses_def)
  ultimately show "bindE (p r) (\<lambda>(x, r). q x r) = Inr (v', adv r (length (e @ e')))" by simp
qed

lemma parses_bind_last:
  assumes "parses n p e v" and "\<And>r. q v r = Inr (v', r)"
  shows "parses n (\<lambda>r. bindE (p r) (\<lambda>(x, r). q x r)) e v'"
  using parses_bind [OF assms(1), of q "[]" v'] assms(2) by (simp add: parses_def)

lemma parses_readByte: "parses n readByte [b] b"
  by (simp add: parses_def readByte_at)

lemma parses_readInt16:
  "parses n (\<lambda>r. readInt16 r False) [word_of_nat (drop_bit 8 (unat w)), word_of_nat (unat w)] (unat (w :: u16))"
  unfolding parses_def by (auto simp: readInt16_word numeral_2_eq_2 simp del: of_nat_unat)

lemma parses_read_any: "reads s e v \<Longrightarrow> n < d \<Longrightarrow> parses n (read_any d s) e v"
  by (simp add: parses_def reads_def)

lemma reads_via:
  assumes dispatch: "\<And>rd r xs. at r (b # xs) \<Longrightarrow> read_dispatch rd s r = p rd (adv r 1)"
    and p: "\<And>d n. n < d \<Longrightarrow> parses n (p (read_any d)) e v"
  shows "reads s (b # e) v"
proof (rule readsI)
  fix r rest d assume r: "at r ((b # e) @ rest)" and d: "length ((b # e) @ rest) \<le> d"
  then have "at (adv r 1) (e @ rest)" using at_adv_Cons by simp
  then have "p (read_any d) (adv r 1) = Inr (v, adv r (length (b # e)))"
    using p [of "length (e @ rest)" d] d by (simp add: parses_def)
  then show "read_dispatch (read_any d) s r = Inr (v, adv r (length (b # e)))"
    using dispatch [of r "e @ rest"] r by simp
qed

lemma dispatch_jid:
  "at r (word_of_nat ADJID # xs) \<Longrightarrow> read_dispatch rd m r = readADJID rd (adv r 1)"
  "at r (word_of_nat FBJID # xs) \<Longrightarrow> read_dispatch rd m r = readFBJID rd (adv r 1)"
  "at r (word_of_nat InteropJID # xs) \<Longrightarrow> read_dispatch rd m r = readInteropJID rd (adv r 1)"
  "at r (word_of_nat JIDPair # xs) \<Longrightarrow> read_dispatch rd m r = readJIDPair rd (adv r 1)"
  by (simp_all add: read_dispatch_def readByte_at type_tokens)

lemma readADJID_parses:
  assumes "reads True e (VString u)" "n < d"
  shows "parses n (readADJID (read_any d)) ([a] @ [dev] @ e) (VJID (NewADJID u a dev))"
  unfolding readADJID_def [abs_def]
  by (rule parses_bind, rule parses_readByte, rule parses_bind, rule parses_readByte,
      rule parses_bind_last, rule parses_read_any [OF assms]) simp

abbreviation int16_bytes :: "u16 \<Rightarrow> bytes" where
  "int16_bytes w \<equiv> [word_of_nat (drop_bit 8 (unat w)), word_of_nat (unat w)]"

lemma readFBJID_parses:
  assumes "reads True eu (VString u)" "reads True es (VString MessengerServer)" "n < d"
  shows "parses n (readFBJID (read_any d)) (eu @ int16_bytes dev @ es)
    (VJID \<lparr>User = u, RawAgent = 0, Device = dev, Integrator = 0, Server = MessengerServer\<rparr>)"
  unfolding readFBJID_def [abs_def]
  by (rule parses_bind, rule parses_read_any [OF assms(1,3)], rule parses_bind, rule parses_readInt16,
      rule parses_bind_last, rule parses_read_any [OF assms(2,3)]) simp

lemma readInteropJID_parses:
  assumes "reads True eu (VString u)" "reads True es (VString InteropServer)" "n < d"
  shows "parses n (readInteropJID (read_any d)) (eu @ int16_bytes dev @ int16_bytes intg @ es)
    (VJID \<lparr>User = u, RawAgent = 0, Device = dev, Integrator = intg, Server = InteropServer\<rparr>)"
  unfolding readInteropJID_def [abs_def]
  by (rule parses_bind, rule parses_read_any [OF assms(1,3)], rule parses_bind, rule parses_readInt16,
      rule parses_bind, rule parses_readInt16,
      rule parses_bind_last, rule parses_read_any [OF assms(2,3)]) simp

lemma readJIDPair_parses:
  assumes "reads True eu uv" "uv = VString u \<or> uv = VNil \<and> u = []" "reads True es (VString srv)" "n < d"
  shows "parses n (readJIDPair (read_any d)) (eu @ es) (VJID (NewJID u srv))"
  unfolding readJIDPair_def [abs_def]
  by (rule parses_bind, rule parses_read_any [OF assms(1,4)],
      rule parses_bind_last, rule parses_read_any [OF assms(3,4)]) (use assms(2) in auto)

lemma ListEmpty_reads: "reads s [word_of_nat ListEmpty] VNil"
  by (rule readsI) (simp add: read_dispatch_def readByte_at type_tokens)

lemma device_low_byte: "(ucast (ucast (w AND 0xFF) :: byte) :: u16) = w AND 0xFF"
proof -
  have m: "(0xFF :: u16) = mask 8" by (simp add: mask_eq_exp_minus_1)
  show ?thesis unfolding m by (rule bit_word_eqI) (auto simp: bit_simps)
qed

lemma NewADJID_norm:
  "ad_jid jid \<Longrightarrow> NewADJID (User jid) (ActualAgent jid) (ucast (Device jid AND 0xFF)) = norm_jid jid"
  by (subst NewADJID_ActualAgent) (auto simp: ad_jid_def norm_jid_def device_low_byte servers)

definition wf_jid :: "JID \<Rightarrow> bool" where
  "wf_jid jid \<longleftrightarrow> length (User jid) < MaxInt32 \<and> length (Server jid) < MaxInt32"

lemma writeJID_encodes:
  assumes "wf_jid jid"
  shows "encodes (\<lambda>w. writeJID w jid) (\<lambda>_. VJID (norm_jid jid))"
proof -
  obtain eu where eu: "\<And>w. writeString w (User jid) = Inr (w @ eu)" "reads True eu (VString (User jid))"
    using writeString_obtain [of "User jid"] assms unfolding wf_jid_def by (metis norm_string_True)
  obtain es where es: "\<And>w. writeString w (Server jid) = Inr (w @ es)" "reads True es (VString (Server jid))"
    using writeString_obtain [of "Server jid"] assms unfolding wf_jid_def by (metis norm_string_True)
  note writes = writeJID_def ad_jid_def Let_def eu es pushByte_def pushInt16_append
  consider "ad_jid jid" | "\<not> ad_jid jid" "Server jid = MessengerServer" | "\<not> ad_jid jid" "Server jid = InteropServer"
    | "\<not> ad_jid jid" "Server jid \<noteq> MessengerServer" "Server jid \<noteq> InteropServer" by blast
  then show ?thesis
  proof cases
    case 1
    let ?e = "[ActualAgent jid] @ [ucast (Device jid AND 0xFF)] @ eu"
    have "reads m (word_of_nat ADJID # ?e) (VJID (norm_jid jid))" for m
      unfolding NewADJID_norm [OF 1, symmetric]
      by (rule reads_via [OF dispatch_jid(1)], assumption, rule readADJID_parses [OF eu(2)])
    then show ?thesis using 1 by (intro encodesI) (auto simp: writes)
  next
    case 2
    let ?e = "eu @ int16_bytes (Device jid) @ es"
    have "reads m (word_of_nat FBJID # ?e) (VJID (norm_jid jid))" for m
      by (rule reads_via [OF dispatch_jid(2)])
         (use readFBJID_parses [OF eu(2)] es(2) 2 in \<open>simp_all add: norm_jid_def servers\<close>)
    then show ?thesis using 2 es(1) [unfolded 2(2)] by (intro encodesI) (auto simp: writes)
  next
    case 3
    let ?e = "eu @ int16_bytes (Device jid) @ int16_bytes (Integrator jid) @ es"
    have "reads m (word_of_nat InteropJID # ?e) (VJID (norm_jid jid))" for m
      by (rule reads_via [OF dispatch_jid(3)])
         (use readInteropJID_parses [OF eu(2)] es(2) 3 in \<open>simp_all add: norm_jid_def servers\<close>)
    moreover have "InteropServer \<noteq> MessengerServer" by (simp add: servers)
    ultimately show ?thesis using 3 es(1) [unfolded 3(2)] by (intro encodesI) (auto simp: writes)
  next
    case 4
    let ?eu = "if User jid = [] then [word_of_nat ListEmpty] else eu"
    let ?uv = "if User jid = [] then VNil else VString (User jid)"
    have "reads True ?eu ?uv" using eu(2) ListEmpty_reads by simp
    then have "reads m (word_of_nat JIDPair # ?eu @ es) (VJID (norm_jid jid))" for m
      by (intro reads_via [OF dispatch_jid(4)])
         (use readJIDPair_parses [of ?eu ?uv "User jid"] es(2) 4 in \<open>simp_all add: norm_jid_def NewJID_def\<close>)
    then show ?thesis
      using 4 by (intro encodesI [of _ "word_of_nat JIDPair # ?eu @ es"]) (auto simp: writes)
  qed
qed

section \<open>Values and elements\<close>

fun wf_val :: "gval \<Rightarrow> bool" and wf_node :: "node \<Rightarrow> bool" and wf_nodes :: "node list \<Rightarrow> bool"
and wf_attrs :: "attrs \<Rightarrow> bool" where
  "wf_val VNil = True"
| "wf_val (VJID jid) = wf_jid jid"
| "wf_val (VString s) = (length s < MaxInt32)"
| "wf_val (VInt i) = True"
| "wf_val (VInt32 i) = True"
| "wf_val (VUint i) = True"
| "wf_val (VUint32 i) = True"
| "wf_val (VInt64 i) = True"
| "wf_val (VUint64 i) = True"
| "wf_val (VBool b) = True"
| "wf_val (VBytes bs) = (length bs < MaxInt32)"
| "wf_val (VNodes ns) = (length ns < 65536 \<and> wf_nodes ns)"
| "wf_val (VOther t) = False"
| "wf_node (Node tag as content) =
     (tag \<noteq> [] \<and> tag \<noteq> ''0'' \<and> length tag < MaxInt32 \<and> distinct (map fst as) \<and>
      2 * countAttributes as + 2 < 65536 \<and> wf_attrs as \<and> wf_val content)"
| "wf_nodes [] = True"
| "wf_nodes (n # ns) = (wf_node n \<and> wf_nodes ns)"
| "wf_attrs [] = True"
| "wf_attrs ((key, val) # rest) = (length key < MaxInt32 \<and> wf_val val \<and> wf_attrs rest)"

text \<open>
  The element the other side sees: attributes that are empty or nil are dropped, numbers and
  booleans become strings, an empty list of children becomes nil, JIDs are normalised, and a
  string that does not compress comes back as bytes when it is content and bytes come back as a
  string when they are an attribute.
\<close>

fun norm_val :: "gval \<Rightarrow> bool \<Rightarrow> gval" and norm_node :: "node \<Rightarrow> node" and norm_nodes :: "node list \<Rightarrow> node list"
and norm_attrs :: "attrs \<Rightarrow> attrs" where
  "norm_val VNil m = VNil"
| "norm_val (VJID jid) m = VJID (norm_jid jid)"
| "norm_val (VString s) m = norm_string s m"
| "norm_val (VInt i) m = norm_string (format_int (sint i)) m"
| "norm_val (VInt32 i) m = norm_string (format_int (sint i)) m"
| "norm_val (VUint i) m = norm_string (format_uint (unat i)) m"
| "norm_val (VUint32 i) m = norm_string (format_uint (unat i)) m"
| "norm_val (VInt64 i) m = norm_string (format_int (sint i)) m"
| "norm_val (VUint64 i) m = norm_string (format_uint (unat i)) m"
| "norm_val (VBool b) m = norm_string (format_bool b) m"
| "norm_val (VBytes bs) m = raw_val bs m"
| "norm_val (VNodes ns) m = (if ns = [] then VNil else VNodes (norm_nodes ns))"
| "norm_val (VOther t) m = VOther t"
| "norm_node (Node tag as content) = Node tag (norm_attrs as) (norm_val content False)"
| "norm_nodes [] = []"
| "norm_nodes (n # ns) = norm_node n # norm_nodes ns"
| "norm_attrs [] = []"
| "norm_attrs ((key, val) # rest) =
     (if skipped_attr val then norm_attrs rest else (key, norm_val val True) # norm_attrs rest)"

lemma norm_nodes_map [simp]: "norm_nodes ns = map norm_node ns"
  by (induction ns) auto

lemma length_format_uint: "n < 10 ^ Suc k \<Longrightarrow> length (format_uint n) \<le> Suc k"
proof (induction k arbitrary: n)
  case 0
  then show ?case by (simp add: format_uint.simps)
next
  case (Suc k)
  then have "n div 10 < 10 ^ Suc k" by auto
  from Suc.IH [OF this] show ?case by (subst format_uint.simps) simp
qed

lemma short_number: "(n :: nat) < 10 ^ 20 \<Longrightarrow> validateNibble (format_uint n)"
  using length_format_uint [of n 19] format_uint_digits [of _ n]
  by (auto simp: validateNibble_def PackedMax_def list_all_iff)

lemma number_lengths:
  "length (format_uint (unat (a :: u64))) < MaxInt32" "length (format_uint (unat (b :: u32))) < MaxInt32"
  "length (format_int (sint (a :: u64))) < MaxInt32" "length (format_int (sint (b :: u32))) < MaxInt32"
  "length (format_bool c) < MaxInt32"
proof -
  have a: "unat a < 10 ^ 20" using unsigned_less [of a, where ?'a = nat] by simp
  have b: "unat b < 10 ^ 20" using unsigned_less [of b, where ?'a = nat] by simp
  have sa: "nat (sint a) < 10 ^ 20" "nat (- sint a) < 10 ^ 20"
    using sint_greater_eq [of a] sint_less [of a] by auto
  have sb: "nat (sint b) < 10 ^ 20" "nat (- sint b) < 10 ^ 20"
    using sint_greater_eq [of b] sint_less [of b] by auto
  note len = length_format_uint [where k = 19, simplified]
  show "length (format_uint (unat a)) < MaxInt32" "length (format_uint (unat b)) < MaxInt32"
    "length (format_int (sint a)) < MaxInt32" "length (format_int (sint b)) < MaxInt32"
    "length (format_bool c) < MaxInt32"
    using len [of "unat a"] len [of "unat b"] len [of "nat (sint a)"] len [of "nat (- sint a)"]
      len [of "nat (sint b)"] len [of "nat (- sint b)"] a b sa sb
    by (simp_all add: format_int_def format_bool_def MaxInt32_def)
qed

lemma writeListStart_append:
  assumes "0 < n" "n < 65536"
  obtains t h where "\<And>w. writeListStart w n = w @ word_of_nat t # h" "t = List8 \<or> t = List16"
    "\<And>k. parses k (readListSize t) h n"
proof (cases "n < 256")
  case True
  show thesis
  proof (rule that [of List8 "[word_of_nat n]"])
    show "parses k (readListSize List8) [word_of_nat n] n" for k
      using True by (auto simp: parses_def readListSize_def readInt8_at unat_byte_small type_tokens)
  qed (use assms True in \<open>simp_all add: writeListStart_def pushInt8_append pushByte_def\<close>)
next
  case False
  show thesis
  proof (rule that [of List16 "int16_bytes (word_of_nat n)"])
    have n: "unat (word_of_nat n :: u16) = n" using assms by (simp add: unat_of_nat)
    then show "parses k (readListSize List16) (int16_bytes (word_of_nat n)) n" for k
      using parses_readInt16 [of k "word_of_nat n"]
      by (simp add: parses_def readListSize_def type_tokens)
    show "writeListStart w n = w @ word_of_nat List16 # int16_bytes (word_of_nat n)" for w
      unfolding n using assms False by (simp add: writeListStart_def pushInt16_append pushByte_def)
  qed simp
qed

lemma AList_update_new: "k \<notin> fst ` set al \<Longrightarrow> AList.update k v al = al @ [(k, v)]"
  by (induction al) auto

lemma countAttributes_norm: "countAttributes as = length (norm_attrs as)"
  by (induction as) auto

definition encodes_node :: "node \<Rightarrow> bool" where
  "encodes_node n \<longleftrightarrow> (\<exists>e. (\<forall>w. writeNode w n = Inr (w @ e)) \<and>
     (\<forall>k d. k < d \<longrightarrow> parses k (readNode (read_any d)) e (norm_node n)))"

definition encodes_nodes :: "node list \<Rightarrow> bool" where
  "encodes_nodes ns \<longleftrightarrow> (\<exists>e. (\<forall>w. writeNodes w ns = Inr (w @ e)) \<and>
     (\<forall>k d. k < d \<longrightarrow> parses k (readNodes (read_any d) (length ns)) e (map norm_node ns)))"

definition encodes_attrs :: "attrs \<Rightarrow> bool" where
  "encodes_attrs as \<longleftrightarrow> (\<exists>e. (\<forall>w. writeAttributes w as = Inr (w @ e)) \<and>
     (\<forall>k d acc. k < d \<longrightarrow> fst ` set acc \<inter> fst ` set as = {} \<longrightarrow>
        parses k (\<lambda>r. readAttributes (read_any d) (countAttributes as) r acc) e (acc @ norm_attrs as)))"

lemma encodes_nodes_Nil: "encodes_nodes []"
  by (auto simp: encodes_nodes_def parses_def)

lemma encodes_nodes_Cons:
  assumes "encodes_node n" "encodes_nodes ns"
  shows "encodes_nodes (n # ns)"
proof -
  from assms(1) obtain e where e: "\<And>w. writeNode w n = Inr (w @ e)"
    "\<And>k d. k < d \<Longrightarrow> parses k (readNode (read_any d)) e (norm_node n)" unfolding encodes_node_def by blast
  from assms(2) obtain es where es: "\<And>w. writeNodes w ns = Inr (w @ es)"
    "\<And>k d. k < d \<Longrightarrow> parses k (readNodes (read_any d) (length ns)) es (map norm_node ns)"
    unfolding encodes_nodes_def by blast
  have "parses k (readNodes (read_any d) (length (n # ns))) (e @ es) (map norm_node (n # ns))"
    if "k < d" for k d
  proof -
    have "parses k (\<lambda>r. bindE (readNode (read_any d) r) (\<lambda>(x, r).
        bindE (readNodes (read_any d) (length ns) r) (\<lambda>(xs, r). Inr (x # xs, r)))) (e @ es)
        (norm_node n # map norm_node ns)"
      by (rule parses_bind, rule e(2) [OF that], rule parses_bind_last, rule es(2) [OF that]) simp
    then show ?thesis by (simp add: parses_def)
  qed
  then show ?thesis unfolding encodes_nodes_def by (intro exI [of _ "e @ es"]) (auto simp: e(1) es(1))
qed

lemma encodes_attrs_Nil: "encodes_attrs []"
  by (auto simp: encodes_attrs_def parses_def)

lemma encodes_attrs_skip:
  "skipped_attr v \<Longrightarrow> encodes_attrs as \<Longrightarrow> encodes_attrs ((key, v) # as)"
  by (simp add: encodes_attrs_def) (metis Int_insert_right)

lemma encodes_attrs_Cons:
  assumes key: "length key < MaxInt32" and v: "encodes (\<lambda>w. write_any w v) (norm_val v)"
    and as: "encodes_attrs as" "key \<notin> fst ` set as" and "\<not> skipped_attr v"
  shows "encodes_attrs ((key, v) # as)"
proof -
  obtain ek where ek: "\<And>w. writeString w key = Inr (w @ ek)" "reads True ek (VString key)"
    using writeString_obtain [OF key] by (metis norm_string_True)
  obtain ev where ev: "\<And>w. write_any w v = Inr (w @ ev)" "reads True ev (norm_val v True)"
    using v unfolding encodes_def by blast
  from as(1) obtain e where e: "\<And>w. writeAttributes w as = Inr (w @ e)"
    "\<And>k d acc. k < d \<Longrightarrow> fst ` set acc \<inter> fst ` set as = {} \<Longrightarrow>
        parses k (\<lambda>r. readAttributes (read_any d) (countAttributes as) r acc) e (acc @ norm_attrs as)"
    unfolding encodes_attrs_def by blast
  have "parses k (\<lambda>r. readAttributes (read_any d) (countAttributes ((key, v) # as)) r acc) (ek @ ev @ e)
      (acc @ norm_attrs ((key, v) # as))"
    if "k < d" and acc: "fst ` set acc \<inter> fst ` set ((key, v) # as) = {}" for k d acc
  proof -
    have up: "AList.update key (norm_val v True) acc = acc @ [(key, norm_val v True)]"
      using acc by (intro AList_update_new) auto
    have "parses k (\<lambda>r. bindE (read_any d True r) (\<lambda>(keyIfc, r).
        case keyIfc of VString key \<Rightarrow> bindE (read_any d True r)
            (\<lambda>(val, r). readAttributes (read_any d) (countAttributes as) r (AList.update key val acc))
        | _ \<Rightarrow> Inl (ErrNonStringKey (index r)))) (ek @ ev @ e) ((acc @ [(key, norm_val v True)]) @ norm_attrs as)"
      by (rule parses_bind, rule parses_read_any [OF ek(2) that(1)], unfold gval.case, rule parses_bind,
          rule parses_read_any [OF ev(2) that(1)], unfold up, rule e(2) [OF that(1)])
         (use acc as(2) in auto)
    then show ?thesis using \<open>\<not> skipped_attr v\<close> by simp
  qed
  then show ?thesis unfolding encodes_attrs_def
    by (intro exI [of _ "ek @ ev @ e"]) (use \<open>\<not> skipped_attr v\<close> in \<open>auto simp: ek(1) ev(1) e(1)\<close>)
qed

lemma parses_readInt8: "t < 256 \<Longrightarrow> parses k (\<lambda>r. readInt8 r False) [word_of_nat t] t"
  by (auto simp: parses_def readInt8_at unat_byte_small)

lemma listStart_obtain:
  assumes "0 < n" "n < 65536"
  obtains e where "\<And>w. writeListStart w n = w @ e"
    "\<And>k q e' v. parses k (q n) e' v \<Longrightarrow>
       parses k (\<lambda>r. bindE (readInt8 r False) (\<lambda>(size, r). bindE (readListSize size r) (\<lambda>(x, r). q x r))) (e @ e') v"
proof -
  obtain t h where t: "\<And>w. writeListStart w n = w @ word_of_nat t # h" "t = List8 \<or> t = List16"
    "\<And>k. parses k (readListSize t) h n" using writeListStart_append [OF assms] by metis
  have "t < 256" using t(2) by (auto simp: type_tokens)
  show thesis
  proof (rule that [of "[word_of_nat t] @ h"])
    fix k q e' v assume q: "parses k (q n) e' (v :: 'a)"
    show "parses k (\<lambda>r. bindE (readInt8 r False) (\<lambda>(size, r). bindE (readListSize size r) (\<lambda>(x, r). q x r)))
        (([word_of_nat t] @ h) @ e') v"
      unfolding append_assoc
      by (rule parses_bind, rule parses_readInt8 [OF \<open>t < 256\<close>], rule parses_bind, rule t(3), rule q)
  qed (simp add: t(1))
qed

lemma encodes_node_intro:
  assumes tag: "tag \<noteq> []" "tag \<noteq> ''0''" "length tag < MaxInt32"
    and size: "2 * countAttributes as + 2 < 65536"
    and as: "encodes_attrs as" and content: "encodes (\<lambda>w. write_any w content) (norm_val content)"
  shows "encodes_node (Node tag as content)"
proof -
  define hc :: nat where "hc = (if content \<noteq> VNil then 1 else 0)"
  let ?n = "2 * countAttributes as + tagSize + hc"
  have n: "0 < ?n" "?n < 65536" using size by (simp_all add: tagSize_def hc_def)
  obtain h where h: "\<And>w. writeListStart w ?n = w @ h"
    "\<And>k q e' v. parses k (q ?n) e' (v :: node) \<Longrightarrow> parses k (\<lambda>r. bindE (readInt8 r False) (\<lambda>(size, r).
       bindE (readListSize size r) (\<lambda>(x, r). q x r))) (h @ e') v"
    using listStart_obtain [OF n] by metis
  obtain et where et: "\<And>w. writeString w tag = Inr (w @ et)" "reads True et (VString tag)"
    using writeString_obtain [OF tag(3)] by (metis norm_string_True)
  from as obtain ea where ea: "\<And>w. writeAttributes w as = Inr (w @ ea)" and
    ea0: "\<And>k d acc. k < d \<Longrightarrow> fst ` set acc \<inter> fst ` set as = {} \<Longrightarrow>
        parses k (\<lambda>r. readAttributes (read_any d) (countAttributes as) r acc) ea (acc @ norm_attrs as)"
    unfolding encodes_attrs_def by blast
  have ea2: "k < d \<Longrightarrow>
      parses k (\<lambda>r. readAttributes (read_any d) (countAttributes as) r []) ea (norm_attrs as)" for k d
    using ea0 [of k d "[]"] by simp
  obtain ec where ec: "\<And>w. write_any w content = Inr (w @ ec)" "reads False ec (norm_val content False)"
    using content unfolding encodes_def by blast
  let ?ec = "if content \<noteq> VNil then ec else []"
  have half: "drop_bit (Suc 0) (?n - Suc 0) = countAttributes as" "?n \<noteq> 0" "?n mod 2 = 1 \<longleftrightarrow> content = VNil"
    by (simp_all add: drop_bit_eq_div tagSize_def hc_def)
  have "parses k (readNode (read_any d)) (h @ et @ ea @ ?ec) (norm_node (Node tag as content))"
    if kd: "k < d" for k d
    unfolding readNode_def [abs_def]
  proof (rule h(2), rule parses_bind, rule parses_read_any [OF et(2) kd])
    let ?tail = "\<lambda>as r. if ?n mod 2 = 1 then Inr (Node tag as VNil, r)
        else bindE (read_any d False r) (\<lambda>(content, r). Inr (Node tag as content, r))"
    have "parses k (?tail (norm_attrs as)) ?ec (norm_node (Node tag as content))"
    proof (cases "content = VNil")
      case True
      then show ?thesis unfolding half by (simp add: parses_def)
    next
      case False
      have "parses k (\<lambda>r. bindE (read_any d False r) (\<lambda>(content, r). Inr (Node tag (norm_attrs as) content, r))) ec
          (norm_node (Node tag as content))"
        by (rule parses_bind_last, rule parses_read_any [OF ec(2) kd]) simp
      with False show ?thesis unfolding half by simp
    qed
    from parses_bind [OF ea2 [OF kd], of ?tail, OF this]
    show "parses k (\<lambda>r. case VString tag of VString tag \<Rightarrow>
         if ?n = 0 \<or> tag = [] then Inl ErrInvalidNode
         else bindE (readAttributes (read_any d) (drop_bit 1 (?n - 1)) r []) (\<lambda>(as, r).
           if ?n mod 2 = 1 then Inr (Node tag as VNil, r)
           else bindE (read_any d False r) (\<lambda>(content, r). Inr (Node tag as content, r)))
       | _ \<Rightarrow> Inl ErrInvalidNode) (ea @ ?ec) (norm_node (Node tag as content))"
      using half(1,2) tag(1) by (simp only: gval.case One_nat_def if_False simp_thms)
  qed
  moreover have "writeNode w (Node tag as content) = Inr (w @ h @ et @ ea @ ?ec)" for w
    using tag(2) h(1) [unfolded hc_def] by (cases "content = VNil") (simp_all add: et(1) ea ec(1) Let_def)
  ultimately show ?thesis unfolding encodes_node_def by blast
qed

lemma write_nodes_encodes:
  assumes "encodes_nodes ns" "length ns < 65536"
  shows "encodes (\<lambda>w. write_any w (VNodes ns)) (norm_val (VNodes ns))"
proof (cases "ns = []")
  case True
  then show ?thesis using ListEmpty_reads
    by (intro encodesI [of _ "[word_of_nat ListEmpty]"]) (simp_all add: writeListStart_def pushByte_def)
next
  case False
  then obtain t h where t: "\<And>w. writeListStart w (length ns) = w @ word_of_nat t # h" "t = List8 \<or> t = List16"
    "\<And>k. parses k (readListSize t) h (length ns)" using writeListStart_append [of "length ns"] assms(2) by auto
  obtain e where e: "\<And>w. writeNodes w ns = Inr (w @ e)"
    "\<And>k d. k < d \<Longrightarrow> parses k (readNodes (read_any d) (length ns)) e (map norm_node ns)"
    using assms(1) unfolding encodes_nodes_def by blast
  have "reads m (word_of_nat t # h @ e) (VNodes (map norm_node ns))" for m
  proof (rule reads_via [where p = "\<lambda>rd. readList rd t"])
    show "read_dispatch rd m r = readList rd t (adv r 1)" if "at r (word_of_nat t # xs)" for rd r xs
      using that t(2) by (auto simp: read_dispatch_def readByte_at type_tokens)
    show "parses n (readList (read_any d) t) (h @ e) (VNodes (map norm_node ns))" if "n < d" for d n
      unfolding readList_def [abs_def]
      by (rule parses_bind, rule t(3), rule parses_bind_last, rule e(2) [OF that]) simp
  qed
  then show ?thesis using False by (intro encodesI [of _ "word_of_nat t # h @ e"]) (simp_all add: t(1) e(1))
qed

lemma norm_val_abs:
  "norm_val (VJID jid) = (\<lambda>_. VJID (norm_jid jid))" "norm_val (VString s) = norm_string s"
  "norm_val (VInt i) = norm_string (format_int (sint i))" "norm_val (VInt32 j) = norm_string (format_int (sint j))"
  "norm_val (VUint i) = norm_string (format_uint (unat i))" "norm_val (VUint32 j) = norm_string (format_uint (unat j))"
  "norm_val (VInt64 i) = norm_string (format_int (sint i))" "norm_val (VUint64 i) = norm_string (format_uint (unat i))"
  "norm_val (VBool b) = norm_string (format_bool b)"
  by (simp_all add: fun_eq_iff)

lemma encode_decode:
  shows "wf_val v \<Longrightarrow> encodes (\<lambda>w. write_any w v) (norm_val v)"
    and "wf_node n \<Longrightarrow> encodes_node n"
    and "wf_nodes ns \<Longrightarrow> encodes_nodes ns"
    and "wf_attrs as \<Longrightarrow> distinct (map fst as) \<Longrightarrow> encodes_attrs as"
proof (induction v and n and ns and as rule: wf_val_wf_node_wf_nodes_wf_attrs.induct)
  case 1
  then show ?case using ListEmpty_reads
    by (intro encodesI [of _ "[word_of_nat ListEmpty]"]) (simp_all add: pushByte_def)
next
  case (12 ns)
  then show ?case by (intro write_nodes_encodes) auto
next
  case (18 key val rest)
  then show ?case
    using encodes_attrs_skip [of val rest key] encodes_attrs_Cons [of key val rest] by (cases "skipped_attr val") auto
next
  case (11 bs)
  then show ?case using byteLength_encodes [of bs] by (simp add: writeBytes_def)
qed (simp_all add: writeJID_encodes writeString_encodes number_lengths norm_val_abs
      encodes_nodes_Nil encodes_nodes_Cons encodes_attrs_Nil encodes_node_intro)

section \<open>The round trip\<close>

lemma at_newDecoder: "at (newDecoder d) d"
  by (simp add: at_def newDecoder_def)

lemma Unmarshal_encoded:
  assumes "encodes_node n"
  obtains e where "\<And>w. writeNode w n = Inr (w @ e)" "Unmarshal e = Inr (norm_node n)"
proof -
  obtain e where e: "\<And>w. writeNode w n = Inr (w @ e)"
    "\<And>k d. k < d \<Longrightarrow> parses k (readNode (read_any d)) e (norm_node n)"
    using assms unfolding encodes_node_def by blast
  have "readNode (read_any (length e + 1)) (newDecoder e) = Inr (norm_node n, adv (newDecoder e) (length e))"
    using e(2) [of "length e" "length e + 1"] at_newDecoder [of e] by (force simp: parses_def)
  then have "Unmarshal e = Inr (norm_node n)"
    by (simp add: Unmarshal_def adv_def newDecoder_def Let_def)
  with e(1) show thesis using that by blast
qed

text \<open>
  C1: whatever well-formed element is marshalled, unpacking and unmarshalling the frame on the
  other side gives the element with its attributes in the same order, up to the normalisation
  of the format; no part of it is lost, reordered or misread, at any nesting depth.
\<close>

theorem Marshal_Unmarshal:
  assumes "wf_node n"
  shows "\<exists>d. Marshal n = Inr d \<and> bindE (Unpack inflate d) Unmarshal = Inr (norm_node n)"
proof -
  obtain e where e: "\<And>w. writeNode w n = Inr (w @ e)" "Unmarshal e = Inr (norm_node n)"
    using Unmarshal_encoded [OF encode_decode(2) [OF assms]] by metis
  then show ?thesis by (simp add: Marshal_def newEncoder_def getData_def Unpack_def)
qed

definition sample_node :: node where
  "sample_node = Node ''iq'' [(''id'', VString ''1.2''), (''to'', VJID (NewADJID ''123'' 0 5)), (''n'', VInt (- 3)),
     (''e'', VString [])] (VNodes [Node ''ping'' [(''x'', VBytes [1, 2])] VNil])"

lemma wf_sample_node: "wf_node sample_node"
  by (simp add: sample_node_def MaxInt32_def wf_jid_def NewADJID_def skipped_attr_def domains servers)

theorem Marshal_Unmarshal_witness:
  "wf_node sample_node \<and> (\<exists>d. Marshal sample_node = Inr d \<and>
     bindE (Unpack (\<lambda>_. None) d) Unmarshal = Inr (Node ''iq'' [(''id'', VString ''1.2''),
       (''to'', VJID (NewADJID ''123'' 0 5)), (''n'', VString ''-3'')]
       (VNodes [Node ''ping'' [(''x'', VString [CHR 0x01, CHR 0x02])] VNil])))"
proof -
  have chars: "char_of (51 :: nat) = CHR ''3''" "char_of (Suc 0) = CHR 0x01" "char_of (2 :: nat) = CHR 0x02"
    by code_simp+
  have "norm_node sample_node = Node ''iq'' [(''id'', VString ''1.2''),
       (''to'', VJID (NewADJID ''123'' 0 5)), (''n'', VString ''-3'')]
       (VNodes [Node ''ping'' [(''x'', VString [CHR 0x01, CHR 0x02])] VNil])"
    by (simp add: sample_node_def skipped_attr_def norm_jid_def ad_jid_def NewADJID_def domains servers
        format_int_def format_uint.simps digit_char_def raw_val_def string_of_bytes_def char_of_byte_def chars)
  then show ?thesis using Marshal_Unmarshal [OF wf_sample_node, of "\<lambda>_. None"] wf_sample_node by simp
qed

end
