(* ===== verification/AttrUtil.thy ===== *)
theory AttrUtil
  imports Codec
begin

text \<open>
  Attribute access (\<^verbatim>\<open>wa-core/binary/attrs.go\<close>): an \<open>AttrUtility\<close> reads typed attributes of an
  element and collects the errors. The contract every getter keeps is the locale \<open>attr_getter\<close>; it
  is interpreted on each of them, and it gives what callers rely on: after any batch of required
  reads, \<open>OK()\<close> tells whether all of them succeeded.
\<close>

section \<open>Definitions\<close>

datatype attr_error =
    MissingJID string
  | NotAJID string
  | MissingAttr string
  | NotAString string
  | BadInt string num_error
  | BadUint string num_error
  | BadBool string num_error

record AttrUtility =
  au_Attrs :: attrs
  Errors :: "attr_error list"

definition AttrGetter :: "node \<Rightarrow> AttrUtility" where
  "AttrGetter n = \<lparr>au_Attrs = Attrs n, Errors = []\<rparr>"

definition add_error :: "attr_error \<Rightarrow> AttrUtility \<Rightarrow> AttrUtility" where
  "add_error e au = au\<lparr>Errors := Errors au @ [e]\<rparr>"

type_synonym 'a getter = "string \<Rightarrow> bool \<Rightarrow> AttrUtility \<Rightarrow> ('a \<times> bool) \<times> AttrUtility"

definition GetJID :: "JID getter" where
  "GetJID key require au =
     (case map_of (au_Attrs au) key of
        None \<Rightarrow> ((EmptyJID, False), if require then add_error (MissingJID key) au else au)
      | Some (VJID jid) \<Rightarrow> ((jid, True), au)
      | Some _ \<Rightarrow> ((EmptyJID, False), add_error (NotAJID key) au))"

definition OptionalJID :: "string \<Rightarrow> AttrUtility \<Rightarrow> JID option \<times> AttrUtility" where
  "OptionalJID key au =
     (let ((jid, ok), au) = GetJID key False au in (if ok then Some jid else None, au))"

definition OptionalJIDOrEmpty :: "string \<Rightarrow> AttrUtility \<Rightarrow> JID \<times> AttrUtility" where
  "OptionalJIDOrEmpty key au =
     (let ((jid, ok), au) = GetJID key False au in (if ok then jid else EmptyJID, au))"

definition attr_JID :: "string \<Rightarrow> AttrUtility \<Rightarrow> JID \<times> AttrUtility" where
  "attr_JID key au = (let ((jid, _), au) = GetJID key True au in (jid, au))"

definition GetString :: "string getter" where
  "GetString key require au =
     (case map_of (au_Attrs au) key of
        None \<Rightarrow> (([], False), if require then add_error (MissingAttr key) au else au)
      | Some (VString s) \<Rightarrow> ((s, True), au)
      | Some _ \<Rightarrow> (([], False), add_error (NotAString key) au))"

definition GetInt64 :: "int getter" where
  "GetInt64 key require au =
     (let ((strVal, ok), au) = GetString key require au
      in if \<not> ok then ((0, False), au)
         else case parse_int64 strVal of
                (_, Some err) \<Rightarrow> ((0, False), add_error (BadInt key err) au)
              | (intVal, None) \<Rightarrow> ((intVal, True), au))"

definition GetUint64 :: "nat getter" where
  "GetUint64 key require au =
     (let ((strVal, ok), au) = GetString key require au
      in if \<not> ok then ((0, False), au)
         else case parse_uint strVal 64 of
                (_, Some err) \<Rightarrow> ((0, False), add_error (BadUint key err) au)
              | (intVal, None) \<Rightarrow> ((intVal, True), au))"

definition GetBool :: "bool getter" where
  "GetBool key require au =
     (let ((strVal, ok), au) = GetString key require au
      in if \<not> ok then ((False, False), au)
         else case parse_bool strVal of
                (_, Some err) \<Rightarrow> ((False, False), add_error (BadBool key err) au)
              | (boolVal, None) \<Rightarrow> ((boolVal, True), au))"

text \<open>A \<open>time.Time\<close>: the zero time, or seconds and nanoseconds since the epoch.\<close>

datatype gotime = ZeroTime | TUnix int int

definition time_UnixMilli :: "int \<Rightarrow> gotime" where
  "time_UnixMilli ms = TUnix (ms div 1000) (ms mod 1000 * 1000000)"

definition GetUnixTime :: "gotime getter" where
  "GetUnixTime key require au =
     (let ((intVal, ok), au) = GetInt64 key require au
      in if \<not> ok then ((ZeroTime, False), au)
         else if intVal = 0 then ((ZeroTime, True), au)
         else ((TUnix intVal 0, True), au))"

definition GetUnixMilli :: "gotime getter" where
  "GetUnixMilli key require au =
     (let ((intVal, ok), au) = GetInt64 key require au
      in if \<not> ok then ((ZeroTime, False), au)
         else if intVal = 0 then ((ZeroTime, True), au)
         else ((time_UnixMilli intVal, True), au))"

text \<open>The wrappers drop the flag: \<open>X(key)\<close> requires the attribute, \<open>OptionalX(key)\<close> does not.\<close>

definition value_of :: "('a \<times> bool) \<times> AttrUtility \<Rightarrow> 'a \<times> AttrUtility" where
  "value_of x = (let ((v, _), au) = x in (v, au))"

definition OptionalString :: "string \<Rightarrow> AttrUtility \<Rightarrow> string \<times> AttrUtility" where
  "OptionalString key au = value_of (GetString key False au)"

definition attr_String :: "string \<Rightarrow> AttrUtility \<Rightarrow> string \<times> AttrUtility" where
  "attr_String key au = value_of (GetString key True au)"

text \<open>\<open>int\<close> has 64 bits on the platforms the client is built for.\<close>

definition to_int :: "int \<Rightarrow> int" where
  "to_int val = (if 2 ^ 63 - 1 < val \<or> val < - (2 ^ 63) then 0 else val)"

definition OptionalInt :: "string \<Rightarrow> AttrUtility \<Rightarrow> int \<times> AttrUtility" where
  "OptionalInt key au = (let (val, au) = value_of (GetInt64 key False au) in (to_int val, au))"

definition attr_Int :: "string \<Rightarrow> AttrUtility \<Rightarrow> int \<times> AttrUtility" where
  "attr_Int key au = (let (val, au) = value_of (GetInt64 key True au) in (to_int val, au))"

definition attr_Int64 :: "string \<Rightarrow> AttrUtility \<Rightarrow> int \<times> AttrUtility" where
  "attr_Int64 key au = value_of (GetInt64 key True au)"

definition attr_Uint64 :: "string \<Rightarrow> AttrUtility \<Rightarrow> nat \<times> AttrUtility" where
  "attr_Uint64 key au = value_of (GetUint64 key True au)"

definition OptionalBool :: "string \<Rightarrow> AttrUtility \<Rightarrow> bool \<times> AttrUtility" where
  "OptionalBool key au = value_of (GetBool key False au)"

definition attr_Bool :: "string \<Rightarrow> AttrUtility \<Rightarrow> bool \<times> AttrUtility" where
  "attr_Bool key au = value_of (GetBool key True au)"

definition OptionalUnixTime :: "string \<Rightarrow> AttrUtility \<Rightarrow> gotime \<times> AttrUtility" where
  "OptionalUnixTime key au = value_of (GetUnixTime key False au)"

definition UnixTime :: "string \<Rightarrow> AttrUtility \<Rightarrow> gotime \<times> AttrUtility" where
  "UnixTime key au = value_of (GetUnixTime key True au)"

definition OptionalUnixMilli :: "string \<Rightarrow> AttrUtility \<Rightarrow> gotime \<times> AttrUtility" where
  "OptionalUnixMilli key au = value_of (GetUnixMilli key False au)"

definition UnixMilli :: "string \<Rightarrow> AttrUtility \<Rightarrow> gotime \<times> AttrUtility" where
  "UnixMilli key au = value_of (GetUnixMilli key True au)"

definition OK :: "AttrUtility \<Rightarrow> bool" where
  "OK au \<longleftrightarrow> length (Errors au) = 0"

definition attr_Error :: "AttrUtility \<Rightarrow> attr_error list option" where
  "attr_Error au = (if OK au then None else Some (Errors au))"

section \<open>The contract of a getter\<close>

text \<open>
  A getter leaves the attributes alone. When it succeeds it records nothing; when it fails it
  returns the fallback value, and it records exactly one error unless the attribute is missing
  and optional. Whether it succeeds depends on the attributes only.
\<close>

locale attr_getter =
  fixes get :: "'a getter" and fallback :: 'a
  assumes cases: "\<exists>v. get key req au = ((v, True), au) \<or>
      (v = fallback \<and> (\<exists>e. get key req au = ((v, False), add_error e au))) \<or>
      (v = fallback \<and> \<not> req \<and> map_of (au_Attrs au) key = None \<and> get key req au = ((v, False), au))"
    and same: "au_Attrs au = au_Attrs au' \<Longrightarrow> fst (get key req au) = fst (get key req au')"
    and optional: "map_of (au_Attrs au) key = None \<Longrightarrow> get key False au = ((fallback, False), au)"
begin

lemma attrs_kept [simp]: "au_Attrs (snd (get key req au)) = au_Attrs au"
  using cases [of key req au] by (auto simp: add_error_def)

lemma required_OK:
  "OK (snd (get key True au)) \<longleftrightarrow> OK au \<and> snd (fst (get key True au))"
  using cases [of key True au] by (auto simp: add_error_def OK_def)

lemma errors_grow: "\<exists>es. Errors (snd (get key req au)) = Errors au @ es \<and> length es \<le> 1"
  using cases [of key req au] by (auto simp: add_error_def)

lemma failed_value: "\<not> snd (fst (get key req au)) \<Longrightarrow> fst (fst (get key req au)) = fallback"
  using cases [of key req au] by auto

end

lemmas getter_defs = GetJID_def GetString_def GetInt64_def GetUint64_def GetBool_def GetUnixTime_def
  GetUnixMilli_def

interpretation jid_get: attr_getter GetJID EmptyJID
  by unfold_locales (auto simp: GetJID_def split: option.splits gval.splits)

interpretation string_get: attr_getter GetString "[]"
  by unfold_locales (auto simp: GetString_def split: option.splits gval.splits)

text \<open>The other getters parse what \<open>GetString\<close> returns; the contract is inherited.\<close>

locale parsing_getter =
  fixes parse :: "string \<Rightarrow> ('a \<times> num_error option)" and bad :: "string \<Rightarrow> num_error \<Rightarrow> attr_error"
    and fb :: 'a and get :: "'a getter"
  assumes get: "get key req au =
     (let ((strVal, ok), au) = GetString key req au
      in if \<not> ok then ((fb, False), au)
         else case parse strVal of
                (_, Some err) \<Rightarrow> ((fb, False), add_error (bad key err) au)
              | (v, None) \<Rightarrow> ((v, True), au))"

sublocale parsing_getter \<subseteq> attr_getter get fb
  by unfold_locales (auto simp: get GetString_def split: option.splits gval.splits prod.splits)

interpretation int_get: parsing_getter parse_int64 BadInt 0 GetInt64
  by unfold_locales (simp add: GetInt64_def)

interpretation uint_get: parsing_getter "\<lambda>s. parse_uint s 64" BadUint 0 GetUint64
  by unfold_locales (simp add: GetUint64_def)

interpretation bool_get: parsing_getter parse_bool BadBool False GetBool
  by unfold_locales (simp add: GetBool_def)

definition parse_time :: "(int \<Rightarrow> gotime) \<Rightarrow> string \<Rightarrow> gotime \<times> num_error option" where
  "parse_time f s = (case parse_int64 s of (_, Some e) \<Rightarrow> (ZeroTime, Some e)
     | (i, None) \<Rightarrow> (if i = 0 then ZeroTime else f i, None))"

interpretation time_get: parsing_getter "parse_time (\<lambda>i. TUnix i 0)" BadInt ZeroTime GetUnixTime
  by unfold_locales (auto simp: GetUnixTime_def GetInt64_def parse_time_def split: prod.splits option.splits)

interpretation milli_get: parsing_getter "parse_time time_UnixMilli" BadInt ZeroTime GetUnixMilli
  by unfold_locales (auto simp: GetUnixMilli_def GetInt64_def parse_time_def split: prod.splits option.splits)

section \<open>Batches of reads\<close>

datatype attr_read = RJID string | RString string | RInt64 string | RUint64 string | RBool string
  | RUnixTime string | RUnixMilli string

text \<open>One required read: whether it succeeded, and the new state.\<close>

fun required_read :: "attr_read \<Rightarrow> AttrUtility \<Rightarrow> bool \<times> AttrUtility" where
  "required_read (RJID k) au = (let ((_, ok), au) = GetJID k True au in (ok, au))"
| "required_read (RString k) au = (let ((_, ok), au) = GetString k True au in (ok, au))"
| "required_read (RInt64 k) au = (let ((_, ok), au) = GetInt64 k True au in (ok, au))"
| "required_read (RUint64 k) au = (let ((_, ok), au) = GetUint64 k True au in (ok, au))"
| "required_read (RBool k) au = (let ((_, ok), au) = GetBool k True au in (ok, au))"
| "required_read (RUnixTime k) au = (let ((_, ok), au) = GetUnixTime k True au in (ok, au))"
| "required_read (RUnixMilli k) au = (let ((_, ok), au) = GetUnixMilli k True au in (ok, au))"

fun run_reads :: "attr_read list \<Rightarrow> AttrUtility \<Rightarrow> AttrUtility" where
  "run_reads [] au = au"
| "run_reads (x # xs) au = run_reads xs (snd (required_read x au))"

lemma required_read_OK: "OK (snd (required_read x au)) \<longleftrightarrow> OK au \<and> fst (required_read x au)"
  using jid_get.required_OK string_get.required_OK int_get.required_OK uint_get.required_OK
    bool_get.required_OK time_get.required_OK milli_get.required_OK
  by (cases x) (auto simp: split_beta)

lemma required_read_attrs: "au_Attrs (snd (required_read x au)) = au_Attrs au"
  by (cases x) (auto simp: split_beta)

lemma required_read_same:
  "au_Attrs au = au_Attrs au' \<Longrightarrow> fst (required_read x au) = fst (required_read x au')"
  by (cases x) (simp_all add: split_beta jid_get.same [of au au'] string_get.same [of au au']
      int_get.same [of au au'] uint_get.same [of au au'] bool_get.same [of au au']
      time_get.same [of au au'] milli_get.same [of au au'])

text \<open>
  After any sequence of required reads of any types on a fresh getter, \<open>OK()\<close> holds exactly
  when each of those reads, taken alone on the element, succeeds: one failing read is never
  masked by a later one, and no read is made to fail by an earlier one.
\<close>

lemma reads_OK:
  "OK (run_reads xs (AttrGetter n)) \<longleftrightarrow> list_all (\<lambda>x. fst (required_read x (AttrGetter n))) xs"
proof -
  have "OK (run_reads xs au) \<longleftrightarrow> OK au \<and> (\<forall>x\<in>set xs. fst (required_read x au))" for au
  proof (induction xs arbitrary: au)
    case (Cons x xs)
    have "fst (required_read y (snd (required_read x au))) = fst (required_read y au)" for y
      by (rule required_read_same) (rule required_read_attrs)
    then show ?case using Cons.IH [of "snd (required_read x au)"] required_read_OK [of x au] by auto
  qed simp
  then show ?thesis by (simp add: AttrGetter_def OK_def list_all_iff)
qed

section \<open>Attributes across the wire\<close>

lemma map_of_norm_attrs:
  "map_of as key = Some v \<Longrightarrow> \<not> skipped_attr v \<Longrightarrow> distinct (map fst as) \<Longrightarrow>
     map_of (norm_attrs as) key = Some (norm_val v True)"
proof (induction as)
  case (Cons kv as)
  then show ?case by (cases kv) (auto split: if_splits dest: map_of_SomeD)
qed simp

lemma int_range64: "- (2 ^ 63) \<le> sint (i :: u64)" "sint (i :: u64) < 2 ^ 63"
  using sint_greater_eq [of i] sint_less [of i] by simp_all

lemma int_range32: "- (2 ^ 63) \<le> sint (i :: u32)" "sint (i :: u32) < 2 ^ 63"
  using sint_greater_eq [of i] sint_less [of i] by simp_all

lemma uint_range32: "unat (i :: u32) < 18446744073709551616"
  using unsigned_less [of i, where ?'a = nat] by simp

lemma map_of_skipped_attrs:
  "map_of as key = Some v \<Longrightarrow> skipped_attr v \<Longrightarrow> distinct (map fst as) \<Longrightarrow>
     map_of (norm_attrs as) key = None"
proof (induction as)
  case (Cons kv as)
  have "fst ` set (norm_attrs bs) \<subseteq> fst ` set bs" for bs
    by (induction bs) (force split: if_splits)+
  with Cons show ?case by (cases kv) (auto simp: map_of_eq_None_iff split: if_splits dest: map_of_SomeD)
qed simp

lemma wf_attr_val: "wf_attrs as \<Longrightarrow> map_of as key = Some v \<Longrightarrow> wf_val v"
  by (induction as) (auto split: if_splits)

text \<open>What the getter that fits the value returns for an attribute the sender set to it.\<close>

fun received_as :: "gval \<Rightarrow> string \<Rightarrow> AttrUtility \<Rightarrow> bool" where
  "received_as (VInt i) key au = (GetInt64 key True au = ((sint i, True), au))"
| "received_as (VInt32 i) key au = (GetInt64 key True au = ((sint i, True), au))"
| "received_as (VInt64 i) key au = (GetInt64 key True au = ((sint i, True), au))"
| "received_as (VUint i) key au = (GetUint64 key True au = ((unat i, True), au))"
| "received_as (VUint32 i) key au = (GetUint64 key True au = ((unat i, True), au))"
| "received_as (VUint64 i) key au = (GetUint64 key True au = ((unat i, True), au))"
| "received_as (VBool b) key au = (GetBool key True au = ((b, True), au))"
| "received_as (VString s) key au =
     (GetString key True au = (if s = [] then (([], False), add_error (MissingAttr key) au) else ((s, True), au)))"
| "received_as VNil key au = (GetString key True au = (([], False), add_error (MissingAttr key) au))"
| "received_as (VBytes bs) key au = (GetString key True au = ((string_of_bytes bs, True), au))"
| "received_as (VNodes ns) key au = (GetString key True au = (([], False), add_error (NotAString key) au))"
| "received_as (VJID jid) key au =
     (GetJID key True au =
        ((\<lparr>User = User jid, RawAgent = 0,
           Device = (if ad_jid jid then Device jid AND 0xFF
                     else if Server jid = MessengerServer \<or> Server jid = InteropServer then Device jid else 0),
           Integrator = (if Server jid = InteropServer then Integrator jid else 0),
           Server = Server jid\<rparr>, True), au))"
| "received_as (VOther t) key au = False"

text \<open>
  C2: for an attribute of any type an encodable element may have, what the receiver's getter returns
  from the decoded frame. A number of any width and sign and a boolean come back with their value from
  the getter of the type, a non-empty string as it is and bytes as the string of those bytes, without an
  error. A JID comes back as the wire carries it: its user and server, a device cut to its low byte on an AD
  JID, device and integrator only on the servers whose form has them, never the raw agent. An
  attribute set to the empty string or to nil is not sent: the required getter reports it missing.
  An attribute set to a list of elements is no string and is reported so.
\<close>

theorem sent_attribute_received:
  assumes "wf_node n" "map_of (Attrs n) key = Some v"
  shows "\<exists>d m. Marshal n = Inr d \<and> bindE (Unpack inflate d) Unmarshal = Inr m \<and> received_as v key (AttrGetter m)"
proof -
  obtain e where e: "\<And>w. writeNode w n = Inr (w @ e)" "Unmarshal e = Inr (norm_node n)"
    using Unmarshal_encoded [OF encode_decode(2) [OF assms(1)]] by metis
  obtain tag as content where n: "n = Node tag as content" by (cases n)
  let ?au = "AttrGetter (norm_node n)"
  have wf: "wf_val v" using wf_attr_val [of as key v] assms n by simp
  have look: "map_of (au_Attrs ?au) key = (if skipped_attr v then None else Some (norm_val v True))"
    using map_of_norm_attrs map_of_skipped_attrs assms n by (simp add: AttrGetter_def)
  have "received_as v key ?au"
    using look wf unsigned_less [where ?'a = nat and ?'b = 64]
    by (cases v) (simp_all add: skipped_attr_def getter_defs parse_format_int64 [OF int_range64]
        parse_format_int64 [OF int_range32] uint_range32 parse_format_uint parse_format_bool norm_jid_def raw_val_def)
  with e show ?thesis by (simp add: Marshal_def newEncoder_def getData_def Unpack_def)
qed

theorem sent_attribute_received_witness:
  "wf_node sample_node \<and> map_of (Attrs sample_node) ''n'' = Some (VInt (- 3)) \<and>
   (\<exists>d m. Marshal sample_node = Inr d \<and> bindE (Unpack (\<lambda>_. None) d) Unmarshal = Inr m \<and>
      GetInt64 ''n'' True (AttrGetter m) = ((- 3, True), AttrGetter m))"
proof -
  have a: "map_of (Attrs sample_node) ''n'' = Some (VInt (- 3))" by (simp add: sample_node_def)
  show ?thesis using sent_attribute_received [OF wf_sample_node a, of "\<lambda>_. None"] wf_sample_node a by simp
qed

end
