(* ===== verification/Stanza.thy ===== *)
theory Stanza
  imports AttrUtil "HOL-Library.Sublist"
begin

text \<open>
  Call signaling: the stanza builders of \<^verbatim>\<open>wa-core/signaling/stanza.go\<close>, the video stanzas of
  \<^verbatim>\<open>video.go\<close> and the participant actions of \<^verbatim>\<open>participant_state.go\<close> with their parsers. A nil slice
  or pointer parameter is \<open>None\<close>; the loggers, which are passed to most builders, are left out.
\<close>

section \<open>Outbound stanzas\<close>

definition CapabilityOffer :: bytes where
  "CapabilityOffer = [0x01, 0x05, 0xf7, 0x09, 0xe0, 0xbb, 0x13]"

definition CapabilityVideoOffer :: bytes where
  "CapabilityVideoOffer = [0x01, 0x05, 0xf7, 0x09, 0xe0, 0xfa, 0x13]"

definition CapabilityPreaccept :: bytes where
  "CapabilityPreaccept = [0x01, 0x05, 0xf7, 0x09, 0xe0, 0xbb, 0x07]"

definition EncodeLatency :: "u32 \<Rightarrow> string" where
  "EncodeLatency rttMs = format_uint (unat (0x02000000 + rttMs))"

record OfferDeviceKey =
  DeviceJid :: JID
  Ciphertext :: bytes
  EncType :: string

record OfferParams =
  of_CallID :: string
  of_To :: JID
  of_CallCreator :: JID
  of_DeviceKeys :: "OfferDeviceKey list"
  of_PrivacyToken :: "bytes option"
  of_Capability :: "bytes option"
  of_DeviceIdentity :: "bytes option"
  of_Video :: bool

definition set_attr :: "string \<Rightarrow> gval \<Rightarrow> attrs \<Rightarrow> attrs" where
  "set_attr k v as = AList.update k v as"

text \<open>Assigning an attribute, and appending a child, when an optional parameter is present.\<close>

definition opt_attr :: "string \<Rightarrow> string option \<Rightarrow> attrs \<Rightarrow> attrs" where
  "opt_attr k v as = (case v of None \<Rightarrow> as | Some s \<Rightarrow> set_attr k (VString s) as)"

definition opt_node :: "string \<Rightarrow> attrs \<Rightarrow> bytes option \<Rightarrow> node list" where
  "opt_node tag as content = (case content of None \<Rightarrow> [] | Some bs \<Rightarrow> [Node tag as (VBytes bs)])"

definition encNode :: "OfferDeviceKey \<Rightarrow> node" where
  "encNode dk = Node ''enc'' [(''v'', VString ''2''), (''type'', VString (EncType dk)), (''count'', VString ''0'')]
     (VBytes (Ciphertext dk))"

definition offerCapability :: "bool \<Rightarrow> bytes option \<Rightarrow> bytes option" where
  "offerCapability video capability =
     (if video \<and> capability = Some CapabilityOffer then Some CapabilityVideoOffer else capability)"

definition audioOpus :: "string \<Rightarrow> node" where
  "audioOpus rate = Node ''audio'' [(''enc'', VString ''opus''), (''rate'', VString rate)] VNil"

definition videoOfferNode :: node where
  "videoOfferNode = Node ''video'' [(''enc'', VString ''h.264''), (''dec'', VString ''H264''),
     (''screen_width'', VString ''1920''), (''screen_height'', VString ''1080''),
     (''device_orientation'', VString ''0'')] VNil"

definition videoAcceptNode :: node where
  "videoAcceptNode = Node ''video'' [(''dec'', VString ''H264''), (''device_orientation'', VString ''0'')] VNil"

definition videoPreacceptNode :: node where
  "videoPreacceptNode = Node ''video'' [(''dec'', VString ''H264''), (''device_orientation'', VString ''0''),
     (''screen_width'', VString ''0''), (''screen_height'', VString ''0'')] VNil"

definition offerAction :: "string \<Rightarrow> string \<Rightarrow> JID \<Rightarrow> node list \<Rightarrow> node" where
  "offerAction tag callID callCreator children =
     Node tag [(''call-id'', VString callID), (''call-creator'', VJID callCreator)] (VNodes children)"

definition destinationTo :: "JID list \<Rightarrow> node" where
  "destinationTo devices =
     Node ''destination'' [] (VNodes (map (\<lambda>jid. Node ''to'' [(''jid'', VJID jid)] VNil) devices))"

definition callWrap :: "JID \<Rightarrow> string option \<Rightarrow> node \<Rightarrow> node" where
  "callWrap to ident action = Node ''call'' (opt_attr ''id'' ident [(''to'', VJID to)]) (VNodes [action])"

definition device_enc :: "OfferDeviceKey \<Rightarrow> node" where
  "device_enc dk = Node ''to'' [(''jid'', VJID (DeviceJid dk))] (VNodes [encNode dk])"

text \<open>The key part of the offer: one \<open>destination\<close> for several devices, an inline \<open>enc\<close> for one.\<close>

definition offer_keys :: "OfferDeviceKey list \<Rightarrow> node list" where
  "offer_keys dks = (if 1 < length dks then [Node ''destination'' [] (VNodes (map device_enc dks))]
     else if length dks = 1 then [encNode (dks ! 0)] else [])"

definition BuildOffer :: "OfferParams \<Rightarrow> node" where
  "BuildOffer p =
     callWrap (of_To p) None (offerAction ''offer'' (of_CallID p) (of_CallCreator p)
       (opt_node ''privacy'' [] (of_PrivacyToken p) @
        [audioOpus ''8000'', audioOpus ''16000''] @
        (if of_Video p then [videoOfferNode] else []) @
        [Node ''net'' [(''medium'', VString ''3'')] VNil] @
        opt_node ''capability'' [(''ver'', VString ''1'')] (offerCapability (of_Video p) (of_Capability p)) @
        offer_keys (of_DeviceKeys p) @
        [Node ''encopt'' [(''keygen'', VString ''2'')] VNil] @
        opt_node ''device-identity'' [] (of_DeviceIdentity p)))"

record AcceptParams =
  ac_CallID :: string
  ac_To :: JID
  ac_CallCreator :: JID
  ac_AudioRates :: "string list"
  ac_RelayTe :: "bytes option"
  ac_Rte :: "bytes option"
  ac_VoipSettings :: "bytes option"
  ac_Capability :: "bytes option"
  ac_Metadata :: "attrs option"
  ac_Video :: bool

definition BuildAccept :: "AcceptParams \<Rightarrow> node" where
  "BuildAccept p =
     callWrap (ac_To p) None (offerAction ''accept'' (ac_CallID p) (ac_CallCreator p)
       (map audioOpus (ac_AudioRates p) @
        (if ac_Video p then [videoAcceptNode] else []) @
        opt_node ''te'' [(''priority'', VString ''2'')] (ac_RelayTe p) @
        [Node ''net'' [(''medium'', VString ''2'')] VNil] @
        [Node ''encopt'' [(''keygen'', VString ''2'')] VNil] @
        opt_node ''capability'' [(''ver'', VString ''1'')] (ac_Capability p) @
        (case ac_Metadata p of None \<Rightarrow> [] | Some as \<Rightarrow> [Node ''metadata'' as VNil]) @
        opt_node ''rte'' [] (ac_Rte p) @
        opt_node ''voip_settings'' [(''uncompressed'', VString ''1'')] (ac_VoipSettings p)))"

definition BuildPreaccept :: "string \<Rightarrow> JID \<Rightarrow> JID \<Rightarrow> string \<Rightarrow> string list \<Rightarrow> bool \<Rightarrow> node" where
  "BuildPreaccept callID to callCreator wrapperID audioRates video =
     callWrap to (Some wrapperID) (offerAction ''preaccept'' callID callCreator
       (map audioOpus audioRates @
        (if video then [videoPreacceptNode] else []) @
        [Node ''encopt'' [(''keygen'', VString ''2'')] VNil] @
        [Node ''capability'' [(''ver'', VString ''1'')]
           (VBytes (if video then CapabilityOffer else CapabilityPreaccept))]))"

record TransportParams =
  tr_CallID :: string
  tr_To :: JID
  tr_CallCreator :: JID
  tr_P2PCandRound :: "string option"
  tr_TransportMessageType :: "string option"
  tr_RelayTe :: "bytes option"

definition BuildTransport :: "TransportParams \<Rightarrow> node" where
  "BuildTransport p =
     (let as = opt_attr ''transport-message-type'' (tr_TransportMessageType p)
                 (opt_attr ''p2p-cand-round'' (tr_P2PCandRound p)
                   [(''call-id'', VString (tr_CallID p)), (''call-creator'', VJID (tr_CallCreator p))]);
          netAttrs = (if tr_TransportMessageType p \<noteq> Some ''9''
                      then set_attr ''protocol'' (VString ''0'') [(''medium'', VString ''2'')]
                      else [(''medium'', VString ''2'')])
      in callWrap (tr_To p) None (Node ''transport'' as
           (VNodes (opt_node ''te'' [(''priority'', VString ''1'')] (tr_RelayTe p) @ [Node ''net'' netAttrs VNil]))))"

record RelayLatencyParams =
  rl_CallID :: string
  rl_To :: JID
  rl_CallCreator :: JID
  rl_LatencyMs :: u32
  rl_RelayName :: string
  rl_AddressBytes :: bytes
  rl_Devices :: "JID list"

definition BuildRelayLatency :: "RelayLatencyParams \<Rightarrow> node" where
  "BuildRelayLatency p =
     callWrap (rl_To p) None (offerAction ''relaylatency'' (rl_CallID p) (rl_CallCreator p)
       ([Node ''te'' [(''latency'', VString (EncodeLatency (rl_LatencyMs p))),
           (''relay_name'', VString (rl_RelayName p))] (VBytes (rl_AddressBytes p))] @
        (if 0 < length (rl_Devices p) then [destinationTo (rl_Devices p)] else [])))"

definition BuildHeartbeat :: "string \<Rightarrow> JID \<Rightarrow> string \<Rightarrow> node" where
  "BuildHeartbeat callID callCreator wrapperID =
     (let action = Node ''heartbeat'' [(''call-id'', VString callID), (''call-creator'', VJID callCreator)] VNil
      in Node ''call'' [(''to'', VString (callID @ ''@call'')), (''id'', VString wrapperID)] (VNodes [action]))"

record TerminateParams =
  te_CallID :: string
  te_To :: JID
  te_CallCreator :: JID
  te_Reason :: "string option"
  te_TargetDevices :: "JID list"

definition BuildTerminate :: "TerminateParams \<Rightarrow> node" where
  "BuildTerminate p =
     callWrap (te_To p) None (Node ''terminate''
       (opt_attr ''reason'' (te_Reason p)
          [(''call-id'', VString (te_CallID p)), (''call-creator'', VJID (te_CallCreator p))])
       (VNodes (if 0 < length (te_TargetDevices p) then [destinationTo (te_TargetDevices p)] else [])))"

definition BuildMuteV2 :: "string \<Rightarrow> JID \<Rightarrow> JID \<Rightarrow> string \<Rightarrow> node" where
  "BuildMuteV2 callID to callCreator muteState =
     callWrap to None (Node ''mute_v2'' [(''call-id'', VString callID), (''call-creator'', VJID callCreator),
       (''mute-state'', VString muteState)] VNil)"

definition BuildReject :: "string \<Rightarrow> JID \<Rightarrow> JID \<Rightarrow> node" where
  "BuildReject callID to callCreator =
     callWrap to None (Node ''reject'' [(''call-id'', VString callID), (''call-creator'', VJID callCreator)] VNil)"

section \<open>Video stanzas\<close>

text \<open>The states of an in-call video transition.\<close>

definition VideoStateDisabled :: int where "VideoStateDisabled = 0"
definition VideoStateEnabled :: int where "VideoStateEnabled = 1"
definition VideoStateUpgradeRequest :: int where "VideoStateUpgradeRequest = 3"
definition VideoStateUpgradeAccept :: int where "VideoStateUpgradeAccept = 4"
definition VideoStateUpgradeReject :: int where "VideoStateUpgradeReject = 5"
definition VideoStateStopped :: int where "VideoStateStopped = 6"
definition VideoStateUpgradeCancel :: int where "VideoStateUpgradeCancel = 8"
definition VideoStateUpgradeRequestV2 :: int where "VideoStateUpgradeRequestV2 = 11"

record VideoStateParams =
  vs_CallID :: string
  vs_To :: JID
  vs_CallCreator :: JID
  vs_WrapperID :: string
  vs_State :: int
  vs_Dec :: string
  vs_DeviceOrientation :: "int option"

definition BuildVideoStateWithParams :: "VideoStateParams \<Rightarrow> node" where
  "BuildVideoStateWithParams params =
     (let as = [(''call-id'', VString (vs_CallID params)), (''call-creator'', VJID (vs_CallCreator params)),
                (''state'', VString (format_int (vs_State params)))];
          as = (if vs_Dec params \<noteq> [] then set_attr ''dec'' (VString (vs_Dec params)) as else as);
          as = (if vs_State params = VideoStateUpgradeRequestV2
                then set_attr ''voip_settings'' (VString ''video'') as else as);
          as = opt_attr ''device_orientation'' (map_option format_int (vs_DeviceOrientation params)) as
      in Node ''call'' [(''to'', VJID (vs_To params)), (''id'', VString (vs_WrapperID params))]
           (VNodes [Node ''video'' as VNil]))"

definition BuildVideoState :: "string \<Rightarrow> JID \<Rightarrow> JID \<Rightarrow> string \<Rightarrow> int \<Rightarrow> int \<Rightarrow> string \<Rightarrow> node" where
  "BuildVideoState callID to callCreator wrapperID state deviceOrientation dec =
     BuildVideoStateWithParams \<lparr>vs_CallID = callID, vs_To = to, vs_CallCreator = callCreator,
       vs_WrapperID = wrapperID, vs_State = state, vs_Dec = dec, vs_DeviceOrientation = Some deviceOrientation\<rparr>"

definition BuildVideoAck :: "node option \<Rightarrow> node option" where
  "BuildVideoAck original =
     (case original of None \<Rightarrow> None
      | Some n \<Rightarrow>
        (let ag = AttrGetter n;
             (ident, ag) = attr_String ''id'' ag;
             (from, ag) = attr_JID ''from'' ag
         in if ident = [] \<or> IsEmpty from then None
            else let as = [(''class'', VString ''call''), (''id'', VString ident), (''to'', VJID from),
                           (''type'', VString ''video'')];
                     (participant, ag) = attr_JID ''participant'' ag;
                     as = (if \<not> IsEmpty participant \<and> participant \<noteq> from
                           then set_attr ''participant'' (VJID participant) as else as);
                     (recipient, ag) = attr_JID ''recipient'' ag;
                     as = (if \<not> IsEmpty recipient then set_attr ''recipient'' (VJID recipient) as else as)
                 in Some (Node ''ack'' as VNil)))"

definition OfferHasVideo :: "node option \<Rightarrow> bool" where
  "OfferHasVideo offer =
     (case offer of None \<Rightarrow> False | Some n \<Rightarrow> list_ex (\<lambda>c. Tag c = ''video'') (GetChildren n))"

section \<open>Participant state\<close>

datatype sig_error =
    UnexpectedNode string
  | InvalidIdentity string
  | MissingChild string
  | InvalidValue string
  | BadNumber string num_error
  | BadAttrs string "attr_error list"
  | BadCount nat
  | Mismatch string

definition ScreenShareStarted :: int where "ScreenShareStarted = 1"
definition ScreenShareStopped :: int where "ScreenShareStopped = 2"

record ScreenShare =
  ss_State :: int
  ss_Version :: u32
  ss_ScreenShareID :: u32
  ss_HasScreenShareID :: bool

definition BuildRaiseHand :: "string \<Rightarrow> JID \<Rightarrow> JID \<Rightarrow> string \<Rightarrow> bool \<Rightarrow> node" where
  "BuildRaiseHand callID to creator requestID raised =
     callWrap to (Some requestID) (Node ''user_action''
       [(''call-id'', VString callID), (''call-creator'', VJID creator), (''action'', VString ''raise_hand'')]
       (VNodes [Node ''raise_hand'' [(''raise-hand-state'', VString (if raised then ''1'' else ''0''))] VNil]))"

definition ParseRaiseHand :: "node option \<Rightarrow> sig_error + bool" where
  "ParseRaiseHand no =
     (case no of None \<Rightarrow> Inl (UnexpectedNode ''raise hand'')
      | Some n \<Rightarrow>
        if Tag n \<noteq> ''user_action'' then Inl (UnexpectedNode ''raise hand'')
        else
          let (action, as) = attr_String ''action'' (AttrGetter n);
              (callID, as) = attr_String ''call-id'' as;
              (creator, as) = attr_JID ''call-creator'' as
          in if action \<noteq> ''raise_hand'' \<or> callID = [] \<or> IsEmpty creator then Inl (InvalidIdentity ''raise hand'')
             else case GetOptionalChildByTag n [''raise_hand''] of
                 (_, False) \<Rightarrow> Inl (MissingChild ''raise_hand'')
               | (child, True) \<Rightarrow>
                   (let (st, _) = attr_String ''raise-hand-state'' (AttrGetter child)
                    in if st = ''1'' then Inr True else if st = ''0'' then Inr False
                       else Inl (InvalidValue ''raise-hand-state'')))"

definition BuildScreenShare :: "string \<Rightarrow> JID \<Rightarrow> JID \<Rightarrow> string \<Rightarrow> int \<Rightarrow> u32 option \<Rightarrow> node" where
  "BuildScreenShare callID to creator requestID state screenShareID =
     callWrap to (Some requestID) (Node ''screen_share''
       (opt_attr ''screen_share_id'' (map_option (\<lambda>i. format_uint (unat i)) screenShareID)
          [(''call-id'', VString callID), (''call-creator'', VJID creator),
           (''screenshare_state'', VString (format_int state)), (''version'', VString ''2'')]) VNil)"

text \<open>
  \<open>strconv.Atoi\<close> is \<open>ParseInt(s, 10, 0)\<close>, with 64 bits; \<open>ParseUint(s, 10, 32)\<close> as a result.
\<close>

definition parse_u32 :: "string \<Rightarrow> string \<Rightarrow> sig_error + u32" where
  "parse_u32 name s = (case parse_uint s 32 of (_, Some e) \<Rightarrow> Inl (BadNumber name e) | (v, None) \<Rightarrow> Inr (word_of_nat v))"

definition check_attrs :: "string \<Rightarrow> AttrUtility \<Rightarrow> sig_error + unit" where
  "check_attrs what as = (case attr_Error as of None \<Rightarrow> Inr () | Some es \<Rightarrow> Inl (BadAttrs what es))"

definition ParseScreenShare :: "node option \<Rightarrow> sig_error + ScreenShare" where
  "ParseScreenShare no =
     (case no of None \<Rightarrow> Inl (UnexpectedNode ''screen share'')
      | Some n \<Rightarrow>
        if Tag n \<noteq> ''screen_share'' then Inl (UnexpectedNode ''screen share'')
        else
          let (rawState, as) = attr_String ''screenshare_state'' (AttrGetter n)
          in case parse_int64 rawState of
               (_, Some e) \<Rightarrow> Inl (BadNumber ''screenshare_state'' e)
             | (state, None) \<Rightarrow>
                 if state \<noteq> ScreenShareStarted \<and> state \<noteq> ScreenShareStopped
                 then Inl (InvalidValue ''screenshare_state'')
                 else
                   let (rawVersion, as) = attr_String ''version'' as
                   in bindE (parse_u32 ''version'' rawVersion) (\<lambda>version.
                      let result = \<lparr>ss_State = state, ss_Version = version, ss_ScreenShareID = 0,
                                    ss_HasScreenShareID = False\<rparr>;
                          (rawID, as) = OptionalString ''screen_share_id'' as
                      in bindE (if rawID \<noteq> []
                                then bindE (parse_u32 ''screen_share_id'' rawID) (\<lambda>i.
                                       Inr (result\<lparr>ss_ScreenShareID := i, ss_HasScreenShareID := True\<rparr>))
                                else Inr result) (\<lambda>result.
                         bindE (check_attrs ''screen share'' as) (\<lambda>_. Inr result))))"

definition BuildCallControlAck :: "node option \<Rightarrow> string \<Rightarrow> node option" where
  "BuildCallControlAck original childTag =
     (case original of None \<Rightarrow> None
      | Some n \<Rightarrow>
        if childTag = [] then None
        else
          let (ident, as) = attr_String ''id'' (AttrGetter n);
              (from, as) = attr_JID ''from'' as
          in if ident = [] \<or> IsEmpty from then None
             else let ackAttrs = [(''class'', VString ''call''), (''id'', VString ident), (''to'', VJID from),
                                  (''type'', VString childTag)];
                      (participant, as) = OptionalJIDOrEmpty ''participant'' as;
                      ackAttrs = (if \<not> IsEmpty participant \<and> participant \<noteq> from
                                  then set_attr ''participant'' (VJID participant) ackAttrs else ackAttrs);
                      (recipient, as) = OptionalJIDOrEmpty ''recipient'' as;
                      ackAttrs = (if \<not> IsEmpty recipient
                                  then set_attr ''recipient'' (VJID recipient) ackAttrs else ackAttrs)
                  in Some (Node ''ack'' ackAttrs VNil))"


section \<open>Reading attributes and children\<close>

lemmas attr_reads = attr_String_def attr_JID_def OptionalString_def OptionalJIDOrEmpty_def value_of_def
  GetString_def GetJID_def AttrGetter_def

lemmas attr_writes = set_attr_def opt_attr_def

lemma Tag_norm [simp]: "Tag (norm_node n) = Tag n"
  by (cases n) simp

lemma Tag_comp_norm [simp]: "Tag \<circ> norm_node = Tag"
  by (rule ext) simp

lemma GetChildren_norm [simp]: "GetChildren (norm_node n) = map norm_node (GetChildren n)"
proof (cases n)
  case (Node tag as content)
  then show ?thesis by (cases content) (simp_all add: GetChildren_def norm_string_def raw_val_def)
qed

lemma find_Tag_norm: "find (\<lambda>c. Tag c = t) (map norm_node ns) = map_option norm_node (find (\<lambda>c. Tag c = t) ns)"
  by (induction ns) auto

lemma child_norm:
  "GetOptionalChildByTag (norm_node n) [t] = map_prod norm_node (\<lambda>b. b) (GetOptionalChildByTag n [t])"
  by (simp add: find_Tag_norm split: option.split)

lemma check_attrs_OK [simp]: "Errors as = [] \<Longrightarrow> check_attrs what as = Inr ()"
  by (simp add: check_attrs_def attr_Error_def OK_def)

section \<open>Encodable stanzas\<close>

abbreviation short :: "'a list \<Rightarrow> bool" where
  "short xs \<equiv> length xs < MaxInt32"

abbreviation short_opt :: "'a list option \<Rightarrow> bool" where
  "short_opt x \<equiv> pred_option short x"

lemma wf_attrs_append [simp]: "wf_attrs (as @ bs) \<longleftrightarrow> wf_attrs as \<and> wf_attrs bs"
  by (induction as) auto

lemma wf_nodes_iff [simp]: "wf_nodes ns \<longleftrightarrow> (\<forall>n\<in>set ns. wf_node n)"
  by (induction ns) auto

lemma countAttributes_le: "countAttributes as \<le> length as"
  by (induction as rule: countAttributes.induct) auto

lemma wf_opt_node [simp]:
  assumes "tag \<noteq> []" "tag \<noteq> ''0''" "length tag < 1000" "distinct (map fst as)" "length as < 1000"
    "wf_attrs as"
  shows "list_all wf_node (opt_node tag as c) \<longleftrightarrow> short_opt c"
  using assms countAttributes_le [of as] by (cases c) (simp_all add: opt_node_def MaxInt32_def)

lemma length_opt_node [simp]: "length (opt_node tag as c) = (if c = None then 0 else 1)"
  by (simp add: opt_node_def split: option.split)

definition wf_key :: "OfferDeviceKey \<Rightarrow> bool" where
  "wf_key dk \<longleftrightarrow> wf_jid (DeviceJid dk) \<and> short (Ciphertext dk) \<and> short (EncType dk)"

lemma wf_encNode: "wf_key dk \<Longrightarrow> wf_node (encNode dk)"
  by (simp add: encNode_def wf_key_def MaxInt32_def)

lemma wf_device_enc: "wf_key dk \<Longrightarrow> wf_node (device_enc dk)"
  using wf_encNode [of dk] by (simp add: device_enc_def wf_key_def MaxInt32_def)

lemma wf_audioOpus: "short rate \<Longrightarrow> wf_node (audioOpus rate)"
  by (simp add: audioOpus_def MaxInt32_def)

lemma wf_video_nodes: "wf_node videoOfferNode" "wf_node videoAcceptNode" "wf_node videoPreacceptNode"
  by (simp_all add: videoOfferNode_def videoAcceptNode_def videoPreacceptNode_def MaxInt32_def)

lemma wf_destinationTo:
  "\<lbrakk>\<forall>j\<in>set devices. wf_jid j; length devices < 65536\<rbrakk> \<Longrightarrow> wf_node (destinationTo devices)"
  by (auto simp: destinationTo_def MaxInt32_def)

lemma wf_offer_keys:
  assumes "list_all wf_key dks" "length dks < 65536"
  shows "list_all wf_node (offer_keys dks)"
proof -
  have "\<forall>n\<in>set (map device_enc dks). wf_node n" using assms(1) wf_device_enc by (auto simp: list_all_iff)
  moreover have "wf_node (encNode (dks ! 0))" if "length dks = 1"
    using that assms(1) by (intro wf_encNode) (simp add: list_all_iff)
  ultimately show ?thesis using assms(2) by (auto simp: offer_keys_def MaxInt32_def)
qed

lemma length_offer_keys [simp]: "length (offer_keys dks) = (if dks = [] then 0 else 1)"
  by (cases dks) (auto simp: offer_keys_def)

definition wf_call :: "string \<Rightarrow> JID \<Rightarrow> JID \<Rightarrow> bool" where
  "wf_call callID to creator \<longleftrightarrow> short callID \<and> wf_jid to \<and> wf_jid creator"

lemma wf_callWrap:
  "\<lbrakk>wf_jid to; short_opt ident; wf_node action\<rbrakk> \<Longrightarrow> wf_node (callWrap to ident action)"
  by (cases ident) (simp_all add: callWrap_def attr_writes MaxInt32_def)

lemma wf_offerAction:
  "\<lbrakk>tag \<noteq> []; tag \<noteq> ''0''; length tag < 1000; short callID; wf_jid creator; length children < 65536;
    list_all wf_node children\<rbrakk> \<Longrightarrow> wf_node (offerAction tag callID creator children)"
  by (simp add: offerAction_def MaxInt32_def list_all_iff)

definition wf_offer :: "OfferParams \<Rightarrow> bool" where
  "wf_offer p \<longleftrightarrow> wf_call (of_CallID p) (of_To p) (of_CallCreator p) \<and> list_all wf_key (of_DeviceKeys p) \<and>
     length (of_DeviceKeys p) < 65536 \<and> short_opt (of_PrivacyToken p) \<and> short_opt (of_Capability p) \<and>
     short_opt (of_DeviceIdentity p)"

lemma short_offerCapability: "short_opt c \<Longrightarrow> short_opt (offerCapability v c)"
  by (simp add: offerCapability_def CapabilityVideoOffer_def MaxInt32_def)

lemma short_number_int:
  assumes "- (2 ^ 63) \<le> i" "i < 2 ^ 63"
  shows "short (format_int i)"
proof -
  have "sint (word_of_int i :: u64) = i"
    using assms by (simp add: sint_sbintrunc' signed_take_bit_int_eq_self)
  then show ?thesis using number_lengths(3) [of "word_of_int i"] by simp
qed

lemma wf_audio: "list_all short rates \<Longrightarrow> list_all wf_node (map audioOpus rates)"
  by (simp add: list_all_iff wf_audioOpus)

lemmas wf_stanza_simps = wf_call_def wf_audioOpus wf_audio wf_video_nodes wf_offer_keys
  MaxInt32_def

lemma wf_call_offer:
  "\<lbrakk>wf_call callID to creator; short_opt ident; list_all wf_node children; length children < 65536;
    tag \<noteq> []; tag \<noteq> ''0''; length tag < 1000\<rbrakk> \<Longrightarrow>
     wf_node (callWrap to ident (offerAction tag callID creator children))"
  by (intro wf_callWrap wf_offerAction) (simp_all add: wf_call_def)

lemma wf_BuildOffer: "wf_offer p \<Longrightarrow> wf_node (BuildOffer p)"
  unfolding BuildOffer_def
  by (rule wf_call_offer, insert short_offerCapability [of "of_Capability p" "of_Video p"])
     (simp_all add: wf_offer_def wf_stanza_simps)

definition wf_accept :: "AcceptParams \<Rightarrow> bool" where
  "wf_accept p \<longleftrightarrow> wf_call (ac_CallID p) (ac_To p) (ac_CallCreator p) \<and> list_all short (ac_AudioRates p) \<and>
     length (ac_AudioRates p) < 65000 \<and> short_opt (ac_RelayTe p) \<and> short_opt (ac_Rte p) \<and>
     short_opt (ac_VoipSettings p) \<and> short_opt (ac_Capability p) \<and>
     pred_option (\<lambda>as. distinct (map fst as) \<and> length as < 1000 \<and> wf_attrs as) (ac_Metadata p)"

lemma wf_BuildAccept:
  assumes "wf_accept p"
  shows "wf_node (BuildAccept p)"
  unfolding BuildAccept_def
  by (rule wf_call_offer; cases "ac_Metadata p")
     (use assms countAttributes_le [of "the (ac_Metadata p)"] in \<open>simp_all add: wf_accept_def wf_stanza_simps\<close>)

lemma wf_BuildPreaccept:
  assumes "wf_call callID to creator" "short wrapperID" "list_all short rates" "length rates < 65000"
  shows "wf_node (BuildPreaccept callID to creator wrapperID rates video)"
  unfolding BuildPreaccept_def
  by (rule wf_call_offer)
     (use assms in \<open>simp_all add: wf_stanza_simps CapabilityOffer_def CapabilityPreaccept_def\<close>)

definition wf_transport :: "TransportParams \<Rightarrow> bool" where
  "wf_transport p \<longleftrightarrow> wf_call (tr_CallID p) (tr_To p) (tr_CallCreator p) \<and> short_opt (tr_P2PCandRound p) \<and>
     short_opt (tr_TransportMessageType p) \<and> short_opt (tr_RelayTe p)"

lemma wf_BuildTransport: "wf_transport p \<Longrightarrow> wf_node (BuildTransport p)"
  unfolding BuildTransport_def Let_def
  by (rule wf_callWrap)
     (auto simp: wf_transport_def wf_call_def attr_writes opt_node_def MaxInt32_def
       split: option.split)

definition wf_latency :: "RelayLatencyParams \<Rightarrow> bool" where
  "wf_latency p \<longleftrightarrow> wf_call (rl_CallID p) (rl_To p) (rl_CallCreator p) \<and> short (rl_RelayName p) \<and>
     short (rl_AddressBytes p) \<and> list_all wf_jid (rl_Devices p) \<and> length (rl_Devices p) < 65536"

lemma wf_BuildRelayLatency: "wf_latency p \<Longrightarrow> wf_node (BuildRelayLatency p)"
  unfolding BuildRelayLatency_def
  by (rule wf_call_offer) (use number_lengths(2) [of "0x02000000 + rl_LatencyMs p"] in
      \<open>simp_all add: wf_latency_def wf_stanza_simps EncodeLatency_def wf_destinationTo list_all_iff\<close>)

lemma wf_BuildHeartbeat:
  "\<lbrakk>length callID + 5 < MaxInt32; wf_jid creator; short wrapperID\<rbrakk> \<Longrightarrow> wf_node (BuildHeartbeat callID creator wrapperID)"
  by (simp add: BuildHeartbeat_def MaxInt32_def)

definition wf_terminate :: "TerminateParams \<Rightarrow> bool" where
  "wf_terminate p \<longleftrightarrow> wf_call (te_CallID p) (te_To p) (te_CallCreator p) \<and> short_opt (te_Reason p) \<and>
     list_all wf_jid (te_TargetDevices p) \<and> length (te_TargetDevices p) < 65536"

lemma wf_BuildTerminate: "wf_terminate p \<Longrightarrow> wf_node (BuildTerminate p)"
  unfolding BuildTerminate_def
  by (rule wf_callWrap)
     (auto simp: wf_terminate_def wf_call_def attr_writes MaxInt32_def list_all_iff wf_destinationTo
       split: option.split)

lemma wf_BuildMuteV2: "wf_call callID to creator \<Longrightarrow> short st \<Longrightarrow> wf_node (BuildMuteV2 callID to creator st)"
  unfolding BuildMuteV2_def by (rule wf_callWrap) (simp_all add: wf_call_def MaxInt32_def)

lemma wf_BuildReject: "wf_call callID to creator \<Longrightarrow> wf_node (BuildReject callID to creator)"
  unfolding BuildReject_def by (rule wf_callWrap) (simp_all add: wf_call_def MaxInt32_def)

definition int_range :: "int \<Rightarrow> bool" where
  "int_range i \<longleftrightarrow> - (2 ^ 63) \<le> i \<and> i < 2 ^ 63"

definition wf_video_state :: "VideoStateParams \<Rightarrow> bool" where
  "wf_video_state p \<longleftrightarrow> wf_call (vs_CallID p) (vs_To p) (vs_CallCreator p) \<and> short (vs_WrapperID p) \<and>
     int_range (vs_State p) \<and> short (vs_Dec p) \<and> pred_option int_range (vs_DeviceOrientation p)"

lemma short_format_int: "int_range i \<Longrightarrow> short (format_int i)"
  unfolding int_range_def by (blast intro: short_number_int)

lemma wf_BuildVideoState: "wf_video_state p \<Longrightarrow> wf_node (BuildVideoStateWithParams p)"
  using short_format_int [of "vs_State p"]
    short_format_int [of "the (vs_DeviceOrientation p)"]
  by (cases "vs_DeviceOrientation p")
     (auto simp: BuildVideoStateWithParams_def wf_video_state_def wf_call_def attr_writes MaxInt32_def Let_def)

lemma wf_BuildRaiseHand:
  "wf_call callID to creator \<Longrightarrow> short requestID \<Longrightarrow> wf_node (BuildRaiseHand callID to creator requestID raised)"
  unfolding BuildRaiseHand_def by (rule wf_callWrap) (simp_all add: wf_call_def MaxInt32_def)

lemma wf_BuildScreenShare:
  "\<lbrakk>wf_call callID to creator; short requestID; int_range state\<rbrakk> \<Longrightarrow>
     wf_node (BuildScreenShare callID to creator requestID state sid)"
  unfolding BuildScreenShare_def
  using short_format_int [of state] number_lengths(2) [of "the sid"]
  by (intro wf_callWrap; cases sid) (simp_all add: wf_call_def attr_writes MaxInt32_def)


text \<open>The stanzas a client sends during a call, with the parameters of their builders.\<close>

datatype call_stanza =
    SOffer OfferParams
  | SAccept AcceptParams
  | SPreaccept string JID JID string "string list" bool
  | STransport TransportParams
  | SRelayLatency RelayLatencyParams
  | SHeartbeat string JID string
  | STerminate TerminateParams
  | SMuteV2 string JID JID string
  | SReject string JID JID
  | SVideoState VideoStateParams
  | SRaiseHand string JID JID string bool
  | SScreenShare string JID JID string int "u32 option"

fun build_stanza :: "call_stanza \<Rightarrow> node" where
  "build_stanza (SOffer p) = BuildOffer p"
| "build_stanza (SAccept p) = BuildAccept p"
| "build_stanza (SPreaccept c t cr w rates video) = BuildPreaccept c t cr w rates video"
| "build_stanza (STransport p) = BuildTransport p"
| "build_stanza (SRelayLatency p) = BuildRelayLatency p"
| "build_stanza (SHeartbeat c cr w) = BuildHeartbeat c cr w"
| "build_stanza (STerminate p) = BuildTerminate p"
| "build_stanza (SMuteV2 c t cr st) = BuildMuteV2 c t cr st"
| "build_stanza (SReject c t cr) = BuildReject c t cr"
| "build_stanza (SVideoState p) = BuildVideoStateWithParams p"
| "build_stanza (SRaiseHand c t cr r b) = BuildRaiseHand c t cr r b"
| "build_stanza (SScreenShare c t cr r st i) = BuildScreenShare c t cr r st i"

fun wf_stanza :: "call_stanza \<Rightarrow> bool" where
  "wf_stanza (SOffer p) = wf_offer p"
| "wf_stanza (SAccept p) = wf_accept p"
| "wf_stanza (SPreaccept c t cr w rates video) =
     (wf_call c t cr \<and> short w \<and> list_all short rates \<and> length rates < 65000)"
| "wf_stanza (STransport p) = wf_transport p"
| "wf_stanza (SRelayLatency p) = wf_latency p"
| "wf_stanza (SHeartbeat c cr w) = (length c + 5 < MaxInt32 \<and> wf_jid cr \<and> short w)"
| "wf_stanza (STerminate p) = wf_terminate p"
| "wf_stanza (SMuteV2 c t cr st) = (wf_call c t cr \<and> short st)"
| "wf_stanza (SReject c t cr) = wf_call c t cr"
| "wf_stanza (SVideoState p) = wf_video_state p"
| "wf_stanza (SRaiseHand c t cr r b) = (wf_call c t cr \<and> short r)"
| "wf_stanza (SScreenShare c t cr r st i) = (wf_call c t cr \<and> short r \<and> int_range st)"

text \<open>The kind of a stanza, and the call it is about: the id of the call and its creator.\<close>

fun action_tag :: "call_stanza \<Rightarrow> string" where
  "action_tag (SOffer p) = ''offer''"
| "action_tag (SAccept p) = ''accept''"
| "action_tag (SPreaccept c t cr w rates video) = ''preaccept''"
| "action_tag (STransport p) = ''transport''"
| "action_tag (SRelayLatency p) = ''relaylatency''"
| "action_tag (SHeartbeat c cr w) = ''heartbeat''"
| "action_tag (STerminate p) = ''terminate''"
| "action_tag (SMuteV2 c t cr st) = ''mute_v2''"
| "action_tag (SReject c t cr) = ''reject''"
| "action_tag (SVideoState p) = ''video''"
| "action_tag (SRaiseHand c t cr r b) = ''user_action''"
| "action_tag (SScreenShare c t cr r st i) = ''screen_share''"

fun stanza_call :: "call_stanza \<Rightarrow> string \<times> JID" where
  "stanza_call (SOffer p) = (of_CallID p, of_CallCreator p)"
| "stanza_call (SAccept p) = (ac_CallID p, ac_CallCreator p)"
| "stanza_call (SPreaccept c t cr w rates video) = (c, cr)"
| "stanza_call (STransport p) = (tr_CallID p, tr_CallCreator p)"
| "stanza_call (SRelayLatency p) = (rl_CallID p, rl_CallCreator p)"
| "stanza_call (SHeartbeat c cr w) = (c, cr)"
| "stanza_call (STerminate p) = (te_CallID p, te_CallCreator p)"
| "stanza_call (SMuteV2 c t cr st) = (c, cr)"
| "stanza_call (SReject c t cr) = (c, cr)"
| "stanza_call (SVideoState p) = (vs_CallID p, vs_CallCreator p)"
| "stanza_call (SRaiseHand c t cr r b) = (c, cr)"
| "stanza_call (SScreenShare c t cr r st i) = (c, cr)"

lemma wf_build_stanza: "wf_stanza s \<Longrightarrow> wf_node (build_stanza s)"
  by (cases s) (simp_all add: wf_BuildOffer wf_BuildAccept wf_BuildPreaccept wf_BuildTransport wf_BuildRelayLatency
      wf_BuildHeartbeat wf_BuildTerminate wf_BuildMuteV2 wf_BuildReject wf_BuildVideoState wf_BuildRaiseHand
      wf_BuildScreenShare)

lemmas build_defs = BuildOffer_def BuildAccept_def BuildPreaccept_def BuildTransport_def BuildRelayLatency_def
  BuildHeartbeat_def BuildTerminate_def BuildMuteV2_def BuildReject_def BuildVideoStateWithParams_def
  BuildRaiseHand_def BuildScreenShare_def callWrap_def offerAction_def

text \<open>Every stanza is a \<open>call\<close> with one action that starts with the identity of the call.\<close>

lemma build_stanza_shape:
  "\<exists>as more content. build_stanza s = Node ''call'' as (VNodes [Node (action_tag s)
     ((''call-id'', VString (fst (stanza_call s))) # (''call-creator'', VJID (snd (stanza_call s))) # more) content])"
  by (cases s) (simp_all add: build_defs attr_writes Let_def split: option.splits)

text \<open>Reading the identity of an action, as the receiver does for every stanza.\<close>

definition action_identity :: "node \<Rightarrow> (string \<times> JID) \<times> AttrUtility" where
  "action_identity action =
     (let (callID, as) = attr_String ''call-id'' (AttrGetter action);
          (creator, as) = attr_JID ''call-creator'' as
      in ((callID, creator), as))"

lemma wire:
  assumes "wf_node n"
  obtains d where "Marshal n = Inr d" "bindE (Unpack inflate d) Unmarshal = Inr (norm_node n)"
proof -
  obtain e where "\<And>w. writeNode w n = Inr (w @ e)" "Unmarshal e = Inr (norm_node n)"
    using Unmarshal_encoded [OF encode_decode(2) [OF assms]] by metis
  then show thesis by (intro that [of "0 # e"]) (simp_all add: Marshal_def newEncoder_def getData_def Unpack_def)
qed

text \<open>
  C12: every call stanza the client builds from well-formed parameters can be sent: it is
  encoded without a panic, and what the receiver decodes is a \<open>call\<close> element with exactly one
  action, of the stanza's kind, from which the identity of the call is read without an error.
\<close>

theorem call_stanza_received:
  assumes "wf_stanza s" "fst (stanza_call s) \<noteq> []"
  shows "\<exists>d m action. Marshal (build_stanza s) = Inr d \<and> bindE (Unpack inflate d) Unmarshal = Inr m \<and>
    Tag m = ''call'' \<and> GetChildren m = [action] \<and> Tag action = action_tag s \<and>
    action_identity action = ((fst (stanza_call s), norm_jid (snd (stanza_call s))), AttrGetter action)"
proof -
  obtain d where d: "Marshal (build_stanza s) = Inr d"
    "bindE (Unpack inflate d) Unmarshal = Inr (norm_node (build_stanza s))"
    by (rule wire [OF wf_build_stanza [OF assms(1)]])
  obtain as rest content where shape: "build_stanza s = Node ''call'' as (VNodes [Node (action_tag s)
     ((''call-id'', VString (fst (stanza_call s))) # (''call-creator'', VJID (snd (stanza_call s))) # rest) content])"
    using build_stanza_shape [of s] by blast
  show ?thesis using d assms(2)
    by (simp add: shape GetChildren_def action_identity_def attr_reads skipped_attr_def)
qed


definition sample_jid :: JID where
  "sample_jid = NewADJID ''4915112345'' 0 7"

definition sample_screen_share :: call_stanza where
  "sample_screen_share = SScreenShare ''c1'' (NewJID ''c1'' ''call'') sample_jid ''r'' 1 (Some 5)"

theorem call_stanza_received_witness:
  "wf_stanza sample_screen_share \<and> fst (stanza_call sample_screen_share) \<noteq> [] \<and>
   (\<exists>d m action. Marshal (build_stanza sample_screen_share) = Inr d \<and>
      bindE (Unpack (\<lambda>_. None) d) Unmarshal = Inr m \<and> Tag m = ''call'' \<and> GetChildren m = [action] \<and>
      Tag action = ''screen_share'' \<and>
      action_identity action = ((''c1'', norm_jid sample_jid), AttrGetter action))"
proof -
  have wf: "wf_stanza sample_screen_share" "fst (stanza_call sample_screen_share) \<noteq> []"
    by (simp_all add: sample_screen_share_def wf_call_def MaxInt32_def wf_jid_def sample_jid_def NewADJID_def
        NewJID_def domains servers int_range_def)
  then show ?thesis using call_stanza_received [OF wf, of "\<lambda>_. None"]
    by (simp add: sample_screen_share_def)
qed

section \<open>Offers\<close>

text \<open>The order of the children of an offer that the server demands.\<close>

definition offer_order :: "string list" where
  "offer_order = [''privacy'', ''audio'', ''audio'', ''video'', ''net'', ''capability'', ''destination'', ''enc'',
     ''encopt'', ''device-identity'']"

text \<open>What a receiving device finds in an offer: the ciphertext addressed to it.\<close>

definition enc_of :: "node \<Rightarrow> (string \<times> bytes) option" where
  "enc_of n = (case (map_of (Attrs n) ''type'', Content n) of
     (Some (VString ty), VBytes bs) \<Rightarrow> Some (ty, bs) | _ \<Rightarrow> None)"

definition key_for :: "node \<Rightarrow> JID \<Rightarrow> (string \<times> bytes) option" where
  "key_for offer device =
     (case find (\<lambda>c. Tag c = ''destination'') (GetChildren offer) of
           Some dest \<Rightarrow>
             (case find (\<lambda>to. map_of (Attrs to) ''jid'' = Some (VJID device)) (GetChildren dest) of
                Some to \<Rightarrow> Option.bind (find (\<lambda>c. Tag c = ''enc'') (GetChildren to)) enc_of
              | None \<Rightarrow> None)
         | None \<Rightarrow> Option.bind (find (\<lambda>c. Tag c = ''enc'') (GetChildren offer)) enc_of)"

lemma find_append: "find P (xs @ ys) = (case find P xs of None \<Rightarrow> find P ys | Some x \<Rightarrow> Some x)"
  by (induction xs) auto

lemma find_opt_node [simp]: "tag \<noteq> t \<Longrightarrow> find (\<lambda>c. Tag c = t) (opt_node tag as c) = None"
  by (simp add: opt_node_def split: option.split)

definition offer_children :: "OfferParams \<Rightarrow> node list" where
  "offer_children p = opt_node ''privacy'' [] (of_PrivacyToken p) @
     [audioOpus ''8000'', audioOpus ''16000''] @
     (if of_Video p then [videoOfferNode] else []) @
     [Node ''net'' [(''medium'', VString ''3'')] VNil] @
     opt_node ''capability'' [(''ver'', VString ''1'')] (offerCapability (of_Video p) (of_Capability p)) @
     offer_keys (of_DeviceKeys p) @
     [Node ''encopt'' [(''keygen'', VString ''2'')] VNil] @
     opt_node ''device-identity'' [] (of_DeviceIdentity p)"

lemma norm_BuildOffer:
  "\<exists>as. norm_node (BuildOffer p) = Node ''call'' as (VNodes [norm_node (offerAction ''offer'' (of_CallID p) (of_CallCreator p)
     (offer_children p))])"
  by (simp add: BuildOffer_def callWrap_def offer_children_def)

lemma GetChildren_offerAction [simp]: "GetChildren (offerAction tag c cr ns) = ns"
  by (simp add: offerAction_def GetChildren_def)

lemma Tag_children [simp]:
  "Tag (audioOpus r) = ''audio''" "Tag videoOfferNode = ''video''" "Tag (encNode dk) = ''enc''"
  by (simp_all add: audioOpus_def videoOfferNode_def encNode_def)

lemma Tags_opt_node [simp]: "map Tag (opt_node tag as c) = (if c = None then [] else [tag])"
  by (simp add: opt_node_def split: option.split)

lemma Tags_offer_keys:
  "map Tag (offer_keys dks) = (if dks = [] then [] else if length dks = 1 then [''enc''] else [''destination''])"
  by (cases dks) (auto simp: offer_keys_def)

lemma Tags_offer:
  "map Tag (offer_children p) =
     (if of_PrivacyToken p = None then [] else [''privacy'']) @ [''audio'', ''audio''] @
     (if of_Video p then [''video''] else []) @ [''net''] @
     (if offerCapability (of_Video p) (of_Capability p) = None then [] else [''capability'']) @
     map Tag (offer_keys (of_DeviceKeys p)) @ [''encopt''] @
     (if of_DeviceIdentity p = None then [] else [''device-identity''])"
  by (simp add: offer_children_def)

lemma offer_children_ordered: "subseq (map Tag (offer_children p)) offer_order"
  unfolding Tags_offer Tags_offer_keys offer_order_def by simp

lemma offer_video: "list_ex (\<lambda>c. Tag c = ''video'') (offer_children p) = of_Video p"
proof -
  have "list_ex (\<lambda>c. Tag c = ''video'') (offer_children p) \<longleftrightarrow> ''video'' \<in> set (map Tag (offer_children p))"
    by (force simp: list_ex_iff)
  also have "\<dots> = of_Video p" unfolding Tags_offer Tags_offer_keys by simp
  finally show ?thesis .
qed

lemma find_device_enc:
  assumes "dk \<in> set dks" "distinct (map (norm_jid \<circ> DeviceJid) dks)"
  shows "find (\<lambda>n. map_of (Attrs n) ''jid'' = Some (VJID (norm_jid (DeviceJid dk)))) (map (norm_node \<circ> device_enc) dks) =
    Some (norm_node (device_enc dk))"
  using assms
proof (induction dks)
  case (Cons x dks)
  then show ?case
    by (cases "dk = x") (auto simp: device_enc_def skipped_attr_def)
qed simp

lemma offer_key_nodes:
  "find (\<lambda>c. Tag c = ''destination'') (offer_children p) =
     (if 1 < length (of_DeviceKeys p) then Some (Node ''destination'' [] (VNodes (map device_enc (of_DeviceKeys p)))) else None)"
  "find (\<lambda>c. Tag c = ''enc'') (offer_children p) =
     (if length (of_DeviceKeys p) = 1 then Some (encNode (of_DeviceKeys p ! 0)) else None)"
  by (auto simp: offer_children_def offer_keys_def find_append)

lemma enc_of_encNode: "EncType dk \<noteq> [] \<Longrightarrow> enc_of (norm_node (encNode dk)) = Some (EncType dk, Ciphertext dk)"
  by (simp add: enc_of_def encNode_def skipped_attr_def raw_val_def)

lemma offer_key_found:
  assumes "dk \<in> set (of_DeviceKeys p)" "distinct (map (norm_jid \<circ> DeviceJid) (of_DeviceKeys p))" "EncType dk \<noteq> []"
  shows "key_for (norm_node (offerAction ''offer'' c cr (offer_children p))) (norm_jid (DeviceJid dk)) =
    Some (EncType dk, Ciphertext dk)"
proof (cases "length (of_DeviceKeys p) = 1")
  case True
  then have "of_DeviceKeys p ! 0 = dk" using assms(1) by (cases "of_DeviceKeys p") auto
  with True enc_of_encNode [OF assms(3)] show ?thesis by (simp add: key_for_def offer_key_nodes find_Tag_norm)
next
  case False
  then have len: "1 < length (of_DeviceKeys p)" using assms(1) by (cases "of_DeviceKeys p") auto
  let ?dest = "Node ''destination'' [] (VNodes (map device_enc (of_DeviceKeys p)))"
  have dest: "find (\<lambda>c. Tag c = ''destination'') (GetChildren (norm_node (offerAction ''offer'' c cr (offer_children p)))) =
    Some (norm_node ?dest)"
    using len by (simp add: offer_key_nodes find_Tag_norm)
  have kids: "GetChildren (norm_node ?dest) = map (norm_node \<circ> device_enc) (of_DeviceKeys p)"
    unfolding GetChildren_norm by (simp add: GetChildren_def)
  have inner: "find (\<lambda>c. Tag c = ''enc'') (GetChildren (norm_node (device_enc dk))) = Some (norm_node (encNode dk))"
    unfolding GetChildren_norm by (simp add: GetChildren_def device_enc_def)
  show ?thesis
    by (simp only: key_for_def dest option.case kids find_device_enc [OF assms(1,2)] inner Option.bind.simps
        enc_of_encNode [OF assms(3)])
qed

text \<open>
  C13: an offer built from well-formed parameters arrives with its children in the order the
  server demands, it advertises video exactly when it was built for a video call, and every
  device the caller encrypted the call key for finds its own ciphertext and type in it, whether
  the offer has one device (inline) or several (addressed).
\<close>

theorem offer_received:
  assumes "wf_offer p" "distinct (map (norm_jid \<circ> DeviceJid) (of_DeviceKeys p))"
    "\<forall>dk\<in>set (of_DeviceKeys p). EncType dk \<noteq> []"
  shows "\<exists>d m offer. Marshal (BuildOffer p) = Inr d \<and> bindE (Unpack inflate d) Unmarshal = Inr m \<and>
    GetChildren m = [offer] \<and> subseq (map Tag (GetChildren offer)) offer_order \<and>
    (OfferHasVideo (Some offer) \<longleftrightarrow> of_Video p) \<and>
    (\<forall>dk\<in>set (of_DeviceKeys p). key_for offer (norm_jid (DeviceJid dk)) = Some (EncType dk, Ciphertext dk))"
proof -
  let ?offer = "norm_node (offerAction ''offer'' (of_CallID p) (of_CallCreator p) (offer_children p))"
  obtain d where d: "Marshal (BuildOffer p) = Inr d"
    "bindE (Unpack inflate d) Unmarshal = Inr (norm_node (BuildOffer p))"
    by (rule wire [OF wf_BuildOffer [OF assms(1)]])
  have kids: "GetChildren (norm_node (BuildOffer p)) = [?offer]"
    using norm_BuildOffer [of p] by (auto simp: GetChildren_def)
  have tags: "map Tag (GetChildren ?offer) = map Tag (offer_children p)" by simp
  have video: "OfferHasVideo (Some ?offer) \<longleftrightarrow> of_Video p"
    using offer_video [of p] by (simp add: OfferHasVideo_def list_ex_iff)
  show ?thesis
    by (rule exI [of _ d], rule exI [of _ "norm_node (BuildOffer p)"], rule exI [of _ ?offer], intro conjI ballI d kids video)
       (use tags offer_children_ordered [of p] offer_key_found [of _ p] assms in simp_all)
qed

definition sample_offer :: OfferParams where
  "sample_offer = \<lparr>of_CallID = ''c1'', of_To = NewJID ''4915'' DefaultUserServer, of_CallCreator = sample_jid,
     of_DeviceKeys = [\<lparr>DeviceJid = NewADJID ''4915'' 0 1, Ciphertext = [1, 2], EncType = ''msg''\<rparr>,
       \<lparr>DeviceJid = NewADJID ''4915'' 0 2, Ciphertext = [3], EncType = ''pkmsg''\<rparr>],
     of_PrivacyToken = None, of_Capability = Some CapabilityOffer, of_DeviceIdentity = None, of_Video = True\<rparr>"

theorem offer_received_witness:
  "wf_offer sample_offer \<and>
   (\<exists>d m offer. Marshal (BuildOffer sample_offer) = Inr d \<and> bindE (Unpack (\<lambda>_. None) d) Unmarshal = Inr m \<and>
     GetChildren m = [offer] \<and> OfferHasVideo (Some offer) \<and>
     key_for offer (norm_jid (NewADJID ''4915'' 0 2)) = Some (''pkmsg'', [3]))"
proof -
  have wf: "wf_offer sample_offer" "distinct (map (norm_jid \<circ> DeviceJid) (of_DeviceKeys sample_offer))"
    "\<forall>dk\<in>set (of_DeviceKeys sample_offer). EncType dk \<noteq> []"
    by (simp_all add: sample_offer_def wf_offer_def wf_key_def wf_call_def MaxInt32_def wf_jid_def sample_jid_def
        NewADJID_def NewJID_def domains servers norm_jid_def ad_jid_def CapabilityOffer_def)
  obtain d m offer where "Marshal (BuildOffer sample_offer) = Inr d" "bindE (Unpack (\<lambda>_. None) d) Unmarshal = Inr m"
    "GetChildren m = [offer]" "OfferHasVideo (Some offer) \<longleftrightarrow> of_Video sample_offer"
    "\<forall>dk\<in>set (of_DeviceKeys sample_offer). key_for offer (norm_jid (DeviceJid dk)) = Some (EncType dk, Ciphertext dk)"
    using offer_received [OF wf, of "\<lambda>_. None"] by blast
  then show ?thesis using wf(1) by (auto simp: sample_offer_def)
qed


section \<open>Participant actions\<close>

lemma IsEmpty_norm_jid [simp]: "IsEmpty (norm_jid jid) = IsEmpty jid"
  by (simp add: IsEmpty_def norm_jid_def)

lemma raise_hand_parsed:
  assumes "callID \<noteq> []" "\<not> IsEmpty creator"
  shows "map (\<lambda>n. ParseRaiseHand (Some n)) (GetChildren (norm_node (BuildRaiseHand callID to creator requestID raised))) =
    [Inr raised]"
  using assms by (simp add: BuildRaiseHand_def callWrap_def GetChildren_def ParseRaiseHand_def attr_reads skipped_attr_def)

lemma format_int_not_Nil [simp]: "format_int i \<noteq> []"
  by (simp add: format_int_def)

lemma parse_u32_format [simp]: "parse_u32 name (format_uint (unat (w :: u32))) = Inr w"
  using parse_format_uint [of "unat w" 32] unsigned_less [of w, where ?'a = nat] by (simp add: parse_u32_def)

lemma parse_u32_two: "parse_u32 name ''2'' = Inr 2"
  by (simp add: parse_u32_def parse_uint_def is_digit_def digit_val_def)

lemma screen_share_parsed:
  assumes "state = ScreenShareStarted \<or> state = ScreenShareStopped"
  shows "map (\<lambda>n. ParseScreenShare (Some n)) (GetChildren (norm_node (BuildScreenShare callID to creator requestID state sid))) =
    [Inr \<lparr>ss_State = state, ss_Version = 2, ss_ScreenShareID = (case sid of None \<Rightarrow> 0 | Some i \<Rightarrow> i),
      ss_HasScreenShareID = (sid \<noteq> None)\<rparr>]"
proof -
  have "parse_int64 (format_int state) = (state, None)"
    using assms by (intro parse_format_int64) (auto simp: ScreenShareStarted_def ScreenShareStopped_def)
  then show ?thesis using assms
    by (cases sid) (auto simp: BuildScreenShare_def callWrap_def GetChildren_def ParseScreenShare_def attr_reads
        attr_writes skipped_attr_def parse_u32_two)
qed

text \<open>
  A participant's raised or lowered hand and the start or stop of a screen share, with or
  without its id, are what the receivers of the encoded stanza parse out of its action.
\<close>

lemma participant_actions_received:
  assumes "wf_call callID to creator" "short requestID" "callID \<noteq> []" "\<not> IsEmpty creator"
    "state = ScreenShareStarted \<or> state = ScreenShareStopped"
  shows "\<exists>d m d' m'. Marshal (BuildRaiseHand callID to creator requestID raised) = Inr d \<and>
    bindE (Unpack inflate d) Unmarshal = Inr m \<and>
    map (\<lambda>n. ParseRaiseHand (Some n)) (GetChildren m) = [Inr raised] \<and>
    Marshal (BuildScreenShare callID to creator requestID state sid) = Inr d' \<and>
    bindE (Unpack inflate d') Unmarshal = Inr m' \<and>
    map (\<lambda>n. ParseScreenShare (Some n)) (GetChildren m') =
      [Inr \<lparr>ss_State = state, ss_Version = 2, ss_ScreenShareID = (case sid of None \<Rightarrow> 0 | Some i \<Rightarrow> i),
        ss_HasScreenShareID = (sid \<noteq> None)\<rparr>]"
proof -
  have r: "int_range state" using assms(5) by (auto simp: int_range_def ScreenShareStarted_def ScreenShareStopped_def)
  obtain d where "Marshal (BuildRaiseHand callID to creator requestID raised) = Inr d"
    "bindE (Unpack inflate d) Unmarshal = Inr (norm_node (BuildRaiseHand callID to creator requestID raised))"
    by (rule wire [OF wf_BuildRaiseHand [OF assms(1,2)]])
  moreover obtain d' where "Marshal (BuildScreenShare callID to creator requestID state sid) = Inr d'"
    "bindE (Unpack inflate d') Unmarshal = Inr (norm_node (BuildScreenShare callID to creator requestID state sid))"
    by (rule wire [OF wf_BuildScreenShare [OF assms(1,2) r]])
  ultimately show ?thesis using raise_hand_parsed [OF assms(3,4)] screen_share_parsed [OF assms(5)] by blast
qed

section \<open>Acknowledgements\<close>

text \<open>The value of a JID attribute of an element: the empty JID when it is missing or no JID.\<close>

definition jid_attr :: "node \<Rightarrow> string \<Rightarrow> JID" where
  "jid_attr n k = (case map_of (Attrs n) k of Some (VJID j) \<Rightarrow> j | _ \<Rightarrow> EmptyJID)"

definition string_attr :: "node \<Rightarrow> string \<Rightarrow> string" where
  "string_attr n k = (case map_of (Attrs n) k of Some (VString s) \<Rightarrow> s | _ \<Rightarrow> [])"

lemma attr_JID_split: "au_Attrs au = Attrs n \<Longrightarrow> \<exists>au'. attr_JID k au = (jid_attr n k, au') \<and> au_Attrs au' = Attrs n"
  by (auto simp: attr_JID_def GetJID_def jid_attr_def add_error_def split: option.split gval.split)

lemma OptionalJIDOrEmpty_split:
  "au_Attrs au = Attrs n \<Longrightarrow> \<exists>au'. OptionalJIDOrEmpty k au = (jid_attr n k, au') \<and> au_Attrs au' = Attrs n"
  by (auto simp: OptionalJIDOrEmpty_def GetJID_def jid_attr_def add_error_def split: option.split gval.split)

lemma attr_String_split:
  "au_Attrs au = Attrs n \<Longrightarrow> \<exists>au'. attr_String k au = (string_attr n k, au') \<and> au_Attrs au' = Attrs n"
  by (auto simp: attr_String_def GetString_def string_attr_def add_error_def value_of_def split: option.split gval.split)

lemma AttrGetter_Attrs: "au_Attrs (AttrGetter n) = Attrs n"
  by (simp add: AttrGetter_def)

text \<open>
  An acknowledgement names the stanza it answers: it is addressed to the sender of the original
  with its id, repeats the participant when it is another JID, and the recipient, and is withheld
  exactly when the original has no id or no sender.
\<close>

definition ack_spec :: "node \<Rightarrow> string \<Rightarrow> node option" where
  "ack_spec n t =
     (let from = jid_attr n ''from''; participant = jid_attr n ''participant''; recipient = jid_attr n ''recipient''
      in if string_attr n ''id'' = [] \<or> IsEmpty from then None
         else Some (Node ''ack'' ([(''class'', VString ''call''), (''id'', VString (string_attr n ''id'')), (''to'', VJID from),
                (''type'', VString t)] @
                (if IsEmpty participant \<or> participant = from then [] else [(''participant'', VJID participant)]) @
                (if IsEmpty recipient then [] else [(''recipient'', VJID recipient)])) VNil))"

lemma BuildCallControlAck_spec:
  assumes "t \<noteq> []"
  shows "BuildCallControlAck (Some n) t = ack_spec n t"
proof -
  obtain au where 1: "attr_String ''id'' (AttrGetter n) = (string_attr n ''id'', au)" "au_Attrs au = Attrs n"
    using attr_String_split [OF AttrGetter_Attrs] by blast
  obtain au2 where 2: "attr_JID ''from'' au = (jid_attr n ''from'', au2)" "au_Attrs au2 = Attrs n"
    using attr_JID_split [OF 1(2)] by blast
  obtain au3 where 3: "OptionalJIDOrEmpty ''participant'' au2 = (jid_attr n ''participant'', au3)" "au_Attrs au3 = Attrs n"
    using OptionalJIDOrEmpty_split [OF 2(2)] by blast
  obtain au4 where "OptionalJIDOrEmpty ''recipient'' au3 = (jid_attr n ''recipient'', au4)"
    using OptionalJIDOrEmpty_split [OF 3(2)] by blast
  with 1 2 3 assms show ?thesis by (simp add: BuildCallControlAck_def ack_spec_def Let_def set_attr_def)
qed

lemma BuildVideoAck_spec: "BuildVideoAck (Some n) = ack_spec n ''video''"
proof -
  obtain au where 1: "attr_String ''id'' (AttrGetter n) = (string_attr n ''id'', au)" "au_Attrs au = Attrs n"
    using attr_String_split [OF AttrGetter_Attrs] by blast
  obtain au2 where 2: "attr_JID ''from'' au = (jid_attr n ''from'', au2)" "au_Attrs au2 = Attrs n"
    using attr_JID_split [OF 1(2)] by blast
  obtain au3 where 3: "attr_JID ''participant'' au2 = (jid_attr n ''participant'', au3)" "au_Attrs au3 = Attrs n"
    using attr_JID_split [OF 2(2)] by blast
  obtain au4 where "attr_JID ''recipient'' au3 = (jid_attr n ''recipient'', au4)"
    using attr_JID_split [OF 3(2)] by blast
  with 1 2 3 show ?thesis by (simp add: BuildVideoAck_def ack_spec_def Let_def set_attr_def)
qed

end
