(* ===== verification/GroupCall.thy ===== *)
theory GroupCall
  imports Stanza
begin

text \<open>
  Group-call signaling (\<^verbatim>\<open>wa-core/signaling/group.go\<close>): the envelope of a call stanza, the offers that start
  a group call or invite to one, the roster and relay snapshots the server sends, and the delivery
  of a new shared key to a device. A nil byte slice is \<open>None\<close>.
\<close>

section \<open>Data\<close>

record CallControlEnvelope =
  env_From :: JID
  env_Participant :: JID
  env_Recipient :: JID
  env_Timestamp :: gotime
  env_CallID :: string
  env_CallCreator :: JID
  env_Action :: node

record GroupCallDevice =
  gd_JID :: JID
  gd_Platform :: string
  gd_PID :: u32
  gd_HasPID :: bool
  gd_CapabilityVersion :: u32
  gd_Capability :: "bytes option"

record GroupCallParticipant =
  gp_JID :: JID
  gp_PN :: JID
  gp_State :: string
  gp_Type :: string
  gp_Devices :: "GroupCallDevice list"

record GroupCallRelayEndpoint =
  ep_RelayID :: u32
  ep_TokenID :: u32
  ep_AuthTokenID :: u32
  ep_RelayName :: string
  ep_DomainName :: string
  ep_RTT :: u32
  ep_IsFNA :: bool
  ep_Address :: "bytes option"
  ep_IPv4 :: string
  ep_Port :: u16

record GroupCallRelay =
  gr_TransactionID :: u32
  gr_SelfPID :: u32
  gr_HasSelfPID :: bool
  gr_UUID :: string
  gr_ParticipantUUID :: string
  gr_AttributePadding :: bool
  gr_WarpMITagLength :: u32
  gr_HasWarpMITagLength :: bool
  gr_Key :: "bytes option"
  gr_HBHKey :: "bytes option"
  gr_Tokens :: "bytes option list"
  gr_AuthTokens :: "bytes option list"
  gr_Endpoints :: "GroupCallRelayEndpoint list"

record GroupCallUpdate =
  gu_CallID :: string
  gu_CallCreator :: JID
  gu_GroupJID :: JID
  gu_TransactionID :: u32
  gu_Media :: string
  gu_ConnectedLimit :: u32
  gu_Joinable :: bool
  gu_AVUpgradable :: bool
  gu_RekeyRequested :: bool
  gu_Participants :: "GroupCallParticipant list"
  gu_Relay :: "GroupCallRelay option"

definition new_update :: "string \<Rightarrow> JID \<Rightarrow> GroupCallUpdate" where
  "new_update callID creator = \<lparr>gu_CallID = callID, gu_CallCreator = creator, gu_GroupJID = EmptyJID,
     gu_TransactionID = 0, gu_Media = [], gu_ConnectedLimit = 0, gu_Joinable = False, gu_AVUpgradable = False,
     gu_RekeyRequested = False, gu_Participants = [], gu_Relay = None\<rparr>"

record GroupCallEncRekey =
  ek_CallID :: string
  ek_CallCreator :: JID
  ek_TransactionID :: u32
  ek_KeyGeneration :: u32
  ek_EncryptionType :: string
  ek_EncryptionVersion :: u32
  ek_Ciphertext :: bytes

record InitialGroupOfferParams =
  io_CallID :: string
  io_CallCreator :: JID
  io_GroupJID :: JID
  io_Participants :: "GroupCallParticipant list"
  io_Video :: bool

record GroupInviteOfferParams =
  gi_CallID :: string
  gi_To :: JID
  gi_CallCreator :: JID
  gi_TargetDevices :: "JID list"
  gi_Participants :: "GroupCallParticipant list"
  gi_Video :: bool

record GroupEncRekeyParams =
  rk_CallID :: string
  rk_To :: JID
  rk_CallCreator :: JID
  rk_TransactionID :: u32
  rk_RequestID :: string
  rk_DeviceKey :: OfferDeviceKey

section \<open>Attribute helpers\<close>

text \<open>
  On an error the callers return it at once, so the state of the getter is given on success only.
\<close>

definition optionalUint32Attr :: "AttrUtility \<Rightarrow> string \<Rightarrow> sig_error + ((u32 \<times> bool) \<times> AttrUtility)" where
  "optionalUint32Attr as key =
     (let ((raw, ok), as) = GetString key False as
      in if \<not> ok then Inr ((0, False), as)
         else bindE (parse_u32 key raw) (\<lambda>v. Inr ((v, True), as)))"

definition requiredUint32Attr :: "AttrUtility \<Rightarrow> string \<Rightarrow> sig_error + (u32 \<times> AttrUtility)" where
  "requiredUint32Attr as key =
     bindE (optionalUint32Attr as key) (\<lambda>((v, ok), as).
       if \<not> ok then Inl (MissingChild key) else Inr (v, as))"

definition nodeBytes :: "node \<Rightarrow> bytes option" where
  "nodeBytes n = (case Content n of VBytes content \<Rightarrow> Some content
     | VString content \<Rightarrow> Some (bytes_of_string content) | _ \<Rightarrow> None)"

text \<open>Growing the token list with nil entries up to an index, then assigning there.\<close>

definition place :: "'a option list \<Rightarrow> nat \<Rightarrow> 'a \<Rightarrow> 'a option list" where
  "place tokens i v = (tokens @ replicate (Suc i - length tokens) None)[i := Some v]"

text \<open>The index of a token: its \<open>id\<close> attribute, or the next free position; \<open>None\<close> skips it.\<close>

definition token_index :: "bytes option list \<Rightarrow> node \<Rightarrow> nat option" where
  "token_index tokens child =
     (let (raw, _) = OptionalString ''id'' (AttrGetter child)
      in if raw \<noteq> []
         then case parse_int64 raw of
                (_, Some _) \<Rightarrow> None
              | (parsed, None) \<Rightarrow> if parsed < 0 \<or> 64 \<le> parsed then None else Some (nat parsed)
         else Some (length tokens))"

definition token_step :: "string \<Rightarrow> bytes option list \<Rightarrow> node \<Rightarrow> bytes option list" where
  "token_step tag tokens child =
     (if Tag child \<noteq> tag then tokens
      else case nodeBytes child of None \<Rightarrow> tokens
           | Some v \<Rightarrow> (case token_index tokens child of None \<Rightarrow> tokens | Some i \<Rightarrow> place tokens i v))"

definition parseIndexedTokens :: "node \<Rightarrow> string \<Rightarrow> bytes option list" where
  "parseIndexedTokens n tag = foldl (token_step tag) [] (GetChildren n)"

text \<open>The loop over the children with a tag, which stops at the first error.\<close>

fun parse_tagged :: "string \<Rightarrow> (node \<Rightarrow> sig_error + 'a) \<Rightarrow> node list \<Rightarrow> sig_error + 'a list" where
  "parse_tagged tag f [] = Inr []"
| "parse_tagged tag f (child # rest) =
     (if Tag child \<noteq> tag then parse_tagged tag f rest
      else bindE (f child) (\<lambda>x. bindE (parse_tagged tag f rest) (\<lambda>xs. Inr (x # xs))))"

section \<open>Envelopes\<close>

definition ParseCallControlEnvelope :: "node option \<Rightarrow> sig_error + CallControlEnvelope" where
  "ParseCallControlEnvelope no =
     (case no of None \<Rightarrow> Inl (UnexpectedNode ''call control envelope'')
      | Some n \<Rightarrow>
        if Tag n \<noteq> ''call'' then Inl (UnexpectedNode ''call control envelope'')
        else case GetChildren n of
          [child] \<Rightarrow>
            (let (from, as) = attr_JID ''from'' (AttrGetter n);
                 (participant, as) = OptionalJIDOrEmpty ''participant'' as;
                 (recipient, as) = OptionalJIDOrEmpty ''recipient'' as;
                 (timestamp, as) = OptionalUnixTime ''t'' as;
                 (callID, childAttrs) = attr_String ''call-id'' (AttrGetter child);
                 (creator, childAttrs) = attr_JID ''call-creator'' childAttrs
             in bindE (check_attrs ''call control routing'' as) (\<lambda>_.
                bindE (check_attrs ''call control identity'' childAttrs) (\<lambda>_.
                Inr \<lparr>env_From = from, env_Participant = participant, env_Recipient = recipient,
                     env_Timestamp = timestamp, env_CallID = callID, env_CallCreator = creator, env_Action = child\<rparr>)))
        | children \<Rightarrow> Inl (BadCount (length children)))"

section \<open>Building\<close>

definition BuildActiveGroupPreaccept :: "string \<Rightarrow> JID \<Rightarrow> string \<Rightarrow> bool \<Rightarrow> sig_error + node" where
  "BuildActiveGroupPreaccept callID callCreator requestID video =
     (if callID = [] \<or> IsEmpty callCreator \<or> requestID = [] then Inl (InvalidIdentity ''active group preaccept'')
      else Inr (BuildPreaccept callID (NewJID callID ''call'') callCreator requestID [''16000''] video))"

definition set_node_attr :: "string \<Rightarrow> gval \<Rightarrow> node \<Rightarrow> node" where
  "set_node_attr k v n = Node (Tag n) (set_attr k v (Attrs n)) (Content n)"

definition BuildActiveGroupAccept :: "string \<Rightarrow> JID \<Rightarrow> string \<Rightarrow> sig_error + node" where
  "BuildActiveGroupAccept callID callCreator requestID =
     (if callID = [] \<or> IsEmpty callCreator \<or> requestID = [] then Inl (InvalidIdentity ''active group accept'')
      else Inr (set_node_attr ''id'' (VString requestID)
        (BuildAccept \<lparr>ac_CallID = callID, ac_To = NewJID callID ''call'', ac_CallCreator = callCreator,
           ac_AudioRates = [''16000''], ac_RelayTe = None, ac_Rte = None, ac_VoipSettings = None,
           ac_Capability = None, ac_Metadata = None, ac_Video = False\<rparr>)))"

text \<open>One device of a participant in the roster of an offer.\<close>

definition group_device :: "JID \<Rightarrow> bool \<Rightarrow> GroupCallDevice \<Rightarrow> sig_error + node" where
  "group_device creator video device =
     (if IsEmpty (gd_JID device) then Inl (InvalidIdentity ''device'')
      else
        let content = (case gd_Capability device of None \<Rightarrow> []
              | Some v \<Rightarrow>
                  (let v = (if video \<and> gd_JID device = creator \<and> v = CapabilityOffer then CapabilityVideoOffer else v);
                       as = (if gd_CapabilityVersion device \<noteq> 0
                             then [(''ver'', VString (format_uint (unat (gd_CapabilityVersion device))))] else [])
                   in [Node ''capability'' as (VBytes v)]))
        in Inr (Node ''device'' [(''jid'', VJID (gd_JID device))] (VNodes content)))"

fun mapE :: "('a \<Rightarrow> 'e + 'b) \<Rightarrow> 'a list \<Rightarrow> 'e + 'b list" where
  "mapE f [] = Inr []"
| "mapE f (x # xs) = bindE (f x) (\<lambda>y. bindE (mapE f xs) (\<lambda>ys. Inr (y # ys)))"

definition group_user :: "JID \<Rightarrow> bool \<Rightarrow> GroupCallParticipant \<Rightarrow> sig_error + node" where
  "group_user creator video participant =
     (if IsEmpty (gp_JID participant) \<or> length (gp_Devices participant) = 0 then Inl (InvalidIdentity ''participant'')
      else
        let userAttrs = [(''jid'', VJID (gp_JID participant))];
            userAttrs = (if gp_State participant \<noteq> []
                         then set_attr ''state'' (VString (gp_State participant)) userAttrs else userAttrs)
        in bindE (mapE (group_device creator video) (gp_Devices participant)) (\<lambda>devices.
             Inr (Node ''user'' userAttrs (VNodes devices))))"

definition buildGroupUsers :: "GroupCallParticipant list \<Rightarrow> JID \<Rightarrow> bool \<Rightarrow> sig_error + node list" where
  "buildGroupUsers participants creator video = mapE (group_user creator video) participants"

definition BuildInitialGroupOffer :: "InitialGroupOfferParams \<Rightarrow> sig_error + node" where
  "BuildInitialGroupOffer params =
     (if io_CallID params = [] then Inl (InvalidIdentity ''call ID'')
      else if IsEmpty (io_CallCreator params) then Inl (InvalidIdentity ''call creator'')
      else if length (io_Participants params) < 3 then Inl (BadCount (length (io_Participants params)))
      else bindE (buildGroupUsers (io_Participants params) (io_CallCreator params) (io_Video params)) (\<lambda>users.
        let children = [audioOpus ''8000'', audioOpus ''16000''] @
              (if io_Video params then [videoOfferNode] else []) @
              [Node ''net'' [(''medium'', VString ''3'')] VNil, Node ''group_info'' [] (VNodes users)];
            offer = offerAction ''offer'' (io_CallID params) (io_CallCreator params) children;
            offer = (if \<not> IsEmpty (io_GroupJID params)
                     then set_node_attr ''group-jid'' (VJID (io_GroupJID params)) offer else offer)
        in Inr (callWrap (NewJID (io_CallID params) ''call'') None offer)))"

definition BuildGroupInviteOffer :: "GroupInviteOfferParams \<Rightarrow> sig_error + node" where
  "BuildGroupInviteOffer params =
     (if gi_CallID params = [] \<or> IsEmpty (gi_To params) \<or> IsEmpty (gi_CallCreator params)
      then Inl (InvalidIdentity ''group invite offer'')
      else if length (gi_TargetDevices params) = 0 \<or> length (gi_Participants params) = 0
      then Inl (MissingChild ''group invite offer'')
      else bindE (buildGroupUsers (gi_Participants params) EmptyJID False) (\<lambda>users.
        let children = [audioOpus ''16000''] @
              (if gi_Video params then [videoOfferNode] else []) @
              [Node ''net'' [(''medium'', VString ''2'')] VNil, destinationTo (gi_TargetDevices params),
               Node ''group_info'' [] (VNodes users)]
        in Inr (callWrap (gi_To params) None
             (offerAction ''offer'' (gi_CallID params) (gi_CallCreator params) children))))"

definition BuildGroupEncRekey :: "GroupEncRekeyParams \<Rightarrow> sig_error + node" where
  "BuildGroupEncRekey params =
     (if rk_CallID params = [] \<or> IsEmpty (rk_To params) \<or> IsEmpty (rk_CallCreator params) \<or>
         rk_TransactionID params = 0 \<or> rk_RequestID params = []
      then Inl (InvalidIdentity ''group rekey'')
      else if DeviceJid (rk_DeviceKey params) \<noteq> rk_To params \<or> length (Ciphertext (rk_DeviceKey params)) = 0
      then Inl (Mismatch ''group rekey'')
      else if EncType (rk_DeviceKey params) \<noteq> ''msg'' \<and> EncType (rk_DeviceKey params) \<noteq> ''pkmsg''
      then Inl (InvalidValue ''encryption type'')
      else Inr (callWrap (rk_To params) (Some (rk_RequestID params)) (Node ''enc_rekey''
        [(''call-id'', VString (rk_CallID params)), (''call-creator'', VJID (rk_CallCreator params)),
         (''transaction-id'', VString (format_uint (unat (rk_TransactionID params))))]
        (VNodes [Node ''encopt'' [(''keygen'', VString ''2'')] VNil,
           Node ''enc'' [(''v'', VString ''2''), (''type'', VString (EncType (rk_DeviceKey params))),
             (''count'', VString ''0'')] (VBytes (Ciphertext (rk_DeviceKey params)))]))))"

section \<open>Parsing\<close>

definition parseGroupDevice :: "node \<Rightarrow> sig_error + GroupCallDevice" where
  "parseGroupDevice n =
     (let (jid, as) = attr_JID ''jid'' (AttrGetter n);
          (platform, as) = OptionalString ''platform'' as
      in bindE (optionalUint32Attr as ''pid'') (\<lambda>((pid, hasPID), as).
         bindE (check_attrs ''group device'' as) (\<lambda>_.
         let device = \<lparr>gd_JID = jid, gd_Platform = platform, gd_PID = pid, gd_HasPID = hasPID,
                       gd_CapabilityVersion = 0, gd_Capability = None\<rparr>
         in case GetOptionalChildByTag n [''capability''] of
              (_, False) \<Rightarrow> Inr device
            | (capability, True) \<Rightarrow>
                bindE (optionalUint32Attr (AttrGetter capability) ''ver'') (\<lambda>((ver, _), _).
                  Inr (device\<lparr>gd_CapabilityVersion := ver, gd_Capability := nodeBytes capability\<rparr>)))))"

definition parseGroupParticipant :: "node \<Rightarrow> sig_error + GroupCallParticipant" where
  "parseGroupParticipant n =
     (let (jid, as) = attr_JID ''jid'' (AttrGetter n);
          (pn, as) = OptionalJIDOrEmpty ''user_pn'' as;
          (state, as) = attr_String ''state'' as;
          (ty, as) = OptionalString ''type'' as
      in bindE (check_attrs ''group participant'' as) (\<lambda>_.
         bindE (parse_tagged ''device'' parseGroupDevice (GetChildren n)) (\<lambda>devices.
           Inr \<lparr>gp_JID = jid, gp_PN = pn, gp_State = state, gp_Type = ty, gp_Devices = devices\<rparr>)))"

definition parseGroupInfo :: "node \<Rightarrow> GroupCallUpdate \<Rightarrow> sig_error + GroupCallUpdate" where
  "parseGroupInfo n update =
     (let (groupJID, as) = OptionalJIDOrEmpty ''group-jid'' (AttrGetter n);
          (media, as) = attr_String ''media'' as;
          (joinable, as) = OptionalString ''joinable'' as;
          (rekey, as) = OptionalString ''rekey'' as
      in bindE (requiredUint32Attr as ''transaction-id'') (\<lambda>(transactionID, as).
         bindE (requiredUint32Attr as ''connected-limit'') (\<lambda>(connectedLimit, as).
         bindE (check_attrs ''group_info'' as) (\<lambda>_.
         bindE (parse_tagged ''user'' parseGroupParticipant (GetChildren n)) (\<lambda>participants.
           Inr (update\<lparr>gu_GroupJID := groupJID, gu_Media := media, gu_Joinable := (joinable = ''1''),
             gu_RekeyRequested := (rekey = ''1''), gu_TransactionID := transactionID,
             gu_ConnectedLimit := connectedLimit, gu_Participants := gu_Participants update @ participants\<rparr>))))))"

definition ipv4_string :: "bytes \<Rightarrow> string" where
  "ipv4_string a = format_uint (unat (a ! 0)) @ ''.'' @ format_uint (unat (a ! 1)) @ ''.'' @
     format_uint (unat (a ! 2)) @ ''.'' @ format_uint (unat (a ! 3))"

definition parseGroupRelayEndpoint :: "node \<Rightarrow> sig_error + GroupCallRelayEndpoint" where
  "parseGroupRelayEndpoint n =
     (let (relayName, as) = attr_String ''relay_name'' (AttrGetter n);
          (domainName, as) = OptionalString ''domain_name'' as;
          (isFNA, as) = OptionalString ''is_fna'' as;
          addr = nodeBytes n;
          (ipv4, port) = (case addr of
             Some a \<Rightarrow> if length a = 4 + 2 then (ipv4_string (take 4 a), uint16_be (drop 4 a)) else ([], 0)
           | None \<Rightarrow> ([], 0))
      in bindE (optionalUint32Attr as ''relay_id'') (\<lambda>((relayID, _), as).
         bindE (optionalUint32Attr as ''token_id'') (\<lambda>((tokenID, _), as).
         bindE (optionalUint32Attr as ''auth_token_id'') (\<lambda>((authTokenID, _), as).
         bindE (optionalUint32Attr as ''c2r_rtt'') (\<lambda>((rtt, _), as).
         bindE (check_attrs ''group relay endpoint'' as) (\<lambda>_.
           Inr \<lparr>ep_RelayID = relayID, ep_TokenID = tokenID, ep_AuthTokenID = authTokenID, ep_RelayName = relayName,
             ep_DomainName = domainName, ep_RTT = rtt, ep_IsFNA = (isFNA = ''1''), ep_Address = addr,
             ep_IPv4 = ipv4, ep_Port = port\<rparr>))))))"

text \<open>One child of the relay element in the order of the loop; a later key replaces an earlier one.\<close>

fun relay_children :: "GroupCallRelay \<Rightarrow> node list \<Rightarrow> sig_error + GroupCallRelay" where
  "relay_children relay [] = Inr relay"
| "relay_children relay (child # rest) =
     (if Tag child = ''key'' then relay_children (relay\<lparr>gr_Key := nodeBytes child\<rparr>) rest
      else if Tag child = ''hbh_key'' then relay_children (relay\<lparr>gr_HBHKey := nodeBytes child\<rparr>) rest
      else if Tag child = ''te2''
      then bindE (parseGroupRelayEndpoint child) (\<lambda>endpoint.
             relay_children (relay\<lparr>gr_Endpoints := gr_Endpoints relay @ [endpoint]\<rparr>) rest)
      else relay_children relay rest)"

definition parseGroupRelay :: "node \<Rightarrow> sig_error + GroupCallRelay" where
  "parseGroupRelay n =
     (let (uuid, as) = attr_String ''uuid'' (AttrGetter n);
          (participantUUID, as) = attr_String ''participant_uuid'' as;
          (padding, as) = OptionalString ''attribute_padding'' as
      in bindE (optionalUint32Attr as ''transaction-id'') (\<lambda>((transactionID, _), as).
         bindE (optionalUint32Attr as ''self_pid'') (\<lambda>((selfPID, hasSelfPID), as).
         bindE (optionalUint32Attr as ''warp_mi_tag_len'') (\<lambda>((warp, hasWarp), as).
         bindE (check_attrs ''group relay'' as) (\<lambda>_.
           relay_children \<lparr>gr_TransactionID = transactionID, gr_SelfPID = selfPID, gr_HasSelfPID = hasSelfPID,
             gr_UUID = uuid, gr_ParticipantUUID = participantUUID, gr_AttributePadding = (padding = ''1''),
             gr_WarpMITagLength = warp, gr_HasWarpMITagLength = hasWarp, gr_Key = None, gr_HBHKey = None,
             gr_Tokens = parseIndexedTokens n ''token'', gr_AuthTokens = parseIndexedTokens n ''auth_token'',
             gr_Endpoints = []\<rparr> (GetChildren n))))))"

text \<open>The optional relay child of a snapshot.\<close>

definition with_relay :: "node \<Rightarrow> GroupCallUpdate \<Rightarrow> sig_error + GroupCallUpdate" where
  "with_relay n update =
     (case GetOptionalChildByTag n [''relay''] of
        (_, False) \<Rightarrow> Inr update
      | (relay, True) \<Rightarrow> bindE (parseGroupRelay relay) (\<lambda>parsed. Inr (update\<lparr>gu_Relay := Some parsed\<rparr>)))"

text \<open>
  The two snapshot parsers return a flag beside the result; it tells whether there was a
  \<open>group_info\<close>, and the second one sets it on errors after that point too.
\<close>

definition ParseGroupInviteSnapshot :: "node option \<Rightarrow> (sig_error + GroupCallUpdate option) \<times> bool" where
  "ParseGroupInviteSnapshot offer =
     (case offer of None \<Rightarrow> (Inl (UnexpectedNode ''group invite snapshot''), False)
      | Some n \<Rightarrow>
        if Tag n \<noteq> ''offer'' then (Inl (UnexpectedNode ''group invite snapshot''), False)
        else case GetOptionalChildByTag n [''group_info''] of
            (_, False) \<Rightarrow> (Inr None, False)
          | (groupInfo, True) \<Rightarrow>
              (let (callID, as) = attr_String ''call-id'' (AttrGetter n);
                   (creator, as) = attr_JID ''call-creator'' as;
                   res = bindE (check_attrs ''group invite identity'' as) (\<lambda>_.
                     let (innerID, groupAttrs) = OptionalString ''call-id'' (AttrGetter groupInfo);
                         (innerCreator, groupAttrs) = OptionalJIDOrEmpty ''call-creator'' groupAttrs
                     in if innerID \<noteq> [] \<and> innerID \<noteq> callID then Inl (Mismatch ''call ID'')
                        else if \<not> IsEmpty innerCreator \<and> innerCreator \<noteq> creator then Inl (Mismatch ''creator'')
                        else bindE (parseGroupInfo groupInfo (new_update callID creator)) (\<lambda>update.
                          let (joinable, as) = OptionalString ''joinable'' as
                          in Inr (update\<lparr>gu_Joinable := (joinable = ''1'')\<rparr>)))
               in case res of Inl e \<Rightarrow> (Inl e, False) | Inr u \<Rightarrow> (Inr (Some u), True)))"

definition ParseInitialGroupCallAck :: "node option \<Rightarrow> (sig_error + GroupCallUpdate option) \<times> bool" where
  "ParseInitialGroupCallAck no =
     (case no of None \<Rightarrow> (Inl (UnexpectedNode ''initial group ACK''), False)
      | Some n \<Rightarrow>
        if Tag n \<noteq> ''ack'' then (Inl (UnexpectedNode ''initial group ACK''), False)
        else case GetOptionalChildByTag n [''group_info''] of
            (_, False) \<Rightarrow> (Inr None, False)
          | (groupInfo, True) \<Rightarrow>
              (let (callID, as) = attr_String ''call-id'' (AttrGetter groupInfo);
                   (creator, as) = attr_JID ''call-creator'' as
               in (bindE (check_attrs ''initial group identity'' as) (\<lambda>_.
                   bindE (parseGroupInfo groupInfo (new_update callID creator)) (\<lambda>update.
                   bindE (with_relay n update) (\<lambda>update. Inr (Some update)))), True)))"

definition ParseGroupUpdate :: "node option \<Rightarrow> sig_error + GroupCallUpdate" where
  "ParseGroupUpdate no =
     (case no of None \<Rightarrow> Inl (UnexpectedNode ''group update'')
      | Some n \<Rightarrow>
        if Tag n \<noteq> ''group_update'' then Inl (UnexpectedNode ''group update'')
        else
          let (callID, as) = attr_String ''call-id'' (AttrGetter n);
              (creator, as) = attr_JID ''call-creator'' as
          in bindE (check_attrs ''group update identity'' as) (\<lambda>_.
             case GetOptionalChildByTag n [''group_info''] of
               (_, False) \<Rightarrow> Inl (MissingChild ''group_info'')
             | (groupInfo, True) \<Rightarrow>
                 bindE (parseGroupInfo groupInfo (new_update callID creator)) (\<lambda>update.
                   let update = (case GetOptionalChildByTag n [''av_upgrade''] of
                          (avUpgrade, True) \<Rightarrow>
                            update\<lparr>gu_AVUpgradable := (fst (OptionalString ''av-upgradable'' (AttrGetter avUpgrade)) = ''1'')\<rparr>
                        | (_, False) \<Rightarrow> update)
                   in with_relay n update)))"

definition ParseGroupCallEncRekey :: "node option \<Rightarrow> sig_error + GroupCallEncRekey" where
  "ParseGroupCallEncRekey no =
     (case no of None \<Rightarrow> Inl (UnexpectedNode ''group rekey'')
      | Some n \<Rightarrow>
        if Tag n \<noteq> ''enc_rekey'' then Inl (UnexpectedNode ''group rekey'')
        else
          let (callID, as) = attr_String ''call-id'' (AttrGetter n);
              (creator, as) = attr_JID ''call-creator'' as
          in bindE (requiredUint32Attr as ''transaction-id'') (\<lambda>(transactionID, _).
             let (encopt, hasEncopt) = GetOptionalChildByTag n [''encopt''];
                 (enc, hasEnc) = GetOptionalChildByTag n [''enc'']
             in if \<not> hasEncopt \<or> \<not> hasEnc then Inl (MissingChild ''encopt or enc'')
                else case requiredUint32Attr (AttrGetter encopt) ''keygen'' of
                    Inl _ \<Rightarrow> Inl (InvalidValue ''key generation'')
                  | Inr (keyGeneration, _) \<Rightarrow>
                      if keyGeneration \<noteq> 2 then Inl (InvalidValue ''key generation'')
                      else
                        let (encType, encAttrs) = attr_String ''type'' (AttrGetter enc)
                        in bindE (requiredUint32Attr encAttrs ''v'') (\<lambda>(encVersion, _).
                           if (encType \<noteq> ''msg'' \<and> encType \<noteq> ''pkmsg'') \<or> encVersion \<noteq> 2
                           then Inl (InvalidValue ''encryption'')
                           else case Content enc of
                               VBytes ciphertext \<Rightarrow>
                                 Inr \<lparr>ek_CallID = callID, ek_CallCreator = creator, ek_TransactionID = transactionID,
                                   ek_KeyGeneration = keyGeneration, ek_EncryptionType = encType,
                                   ek_EncryptionVersion = encVersion, ek_Ciphertext = ciphertext\<rparr>
                             | _ \<Rightarrow> Inl (InvalidValue ''ciphertext''))))"


section \<open>Key delivery\<close>

lemma optionalUint32Attr_present:
  "map_of (au_Attrs as) key = Some (VString s) \<Longrightarrow>
     optionalUint32Attr as key = bindE (parse_u32 key s) (\<lambda>v. Inr ((v, True), as))"
  by (simp add: optionalUint32Attr_def GetString_def)

lemma optionalUint32Attr_absent:
  "map_of (au_Attrs as) key = None \<Longrightarrow> optionalUint32Attr as key = Inr ((0, False), as)"
  by (simp add: optionalUint32Attr_def GetString_def)

lemma requiredUint32Attr_present:
  "map_of (au_Attrs as) key = Some (VString s) \<Longrightarrow>
     requiredUint32Attr as key = bindE (parse_u32 key s) (\<lambda>v. Inr (v, as))"
  by (cases "parse_u32 key s") (simp_all add: requiredUint32Attr_def optionalUint32Attr_present)

lemmas uint32_attrs = optionalUint32Attr_present optionalUint32Attr_absent requiredUint32Attr_present

text \<open>The rekey action a device finds in the decoded stanza.\<close>

lemma rekey_parsed:
  assumes "BuildGroupEncRekey p = Inr n"
  shows "map (\<lambda>a. ParseGroupCallEncRekey (Some a)) (GetChildren (norm_node n)) =
    [Inr \<lparr>ek_CallID = rk_CallID p, ek_CallCreator = norm_jid (rk_CallCreator p), ek_TransactionID = rk_TransactionID p,
      ek_KeyGeneration = 2, ek_EncryptionType = EncType (rk_DeviceKey p), ek_EncryptionVersion = 2,
      ek_Ciphertext = Ciphertext (rk_DeviceKey p)\<rparr>]"
proof -
  have n: "n = callWrap (rk_To p) (Some (rk_RequestID p)) (Node ''enc_rekey''
        [(''call-id'', VString (rk_CallID p)), (''call-creator'', VJID (rk_CallCreator p)),
         (''transaction-id'', VString (format_uint (unat (rk_TransactionID p))))]
        (VNodes [Node ''encopt'' [(''keygen'', VString ''2'')] VNil,
           Node ''enc'' [(''v'', VString ''2''), (''type'', VString (EncType (rk_DeviceKey p))),
             (''count'', VString ''0'')] (VBytes (Ciphertext (rk_DeviceKey p)))]))"
    "rk_CallID p \<noteq> []" "EncType (rk_DeviceKey p) = ''msg'' \<or> EncType (rk_DeviceKey p) = ''pkmsg''"
    using assms by (auto simp: BuildGroupEncRekey_def split: if_splits)
  then show ?thesis
    by (auto simp: callWrap_def GetChildren_def ParseGroupCallEncRekey_def attr_reads skipped_attr_def uint32_attrs
        parse_u32_two raw_val_def)
qed

text \<open>The routing of a rekey: to the device the key was encrypted for, and with a ciphertext.\<close>

lemma rekey_routing:
  "BuildGroupEncRekey p = Inr n \<Longrightarrow>
     map_of (Attrs n) ''to'' = Some (VJID (DeviceJid (rk_DeviceKey p))) \<and> Ciphertext (rk_DeviceKey p) \<noteq> [] \<and>
     rk_TransactionID p \<noteq> 0"
  by (auto simp: BuildGroupEncRekey_def callWrap_def attr_writes split: if_splits)

text \<open>
  C14: a shared-key epoch built for a device goes to the device its ciphertext was made for and
  is never empty, and that device parses out of the encoded stanza the call, the transaction, the
  encryption type and the ciphertext that were put in.
\<close>

theorem group_rekey_delivered:
  assumes "BuildGroupEncRekey p = Inr n" "wf_node n"
  shows "map_of (Attrs n) ''to'' = Some (VJID (DeviceJid (rk_DeviceKey p))) \<and> Ciphertext (rk_DeviceKey p) \<noteq> [] \<and>
    (\<exists>d m. Marshal n = Inr d \<and> bindE (Unpack inflate d) Unmarshal = Inr m \<and>
      map (\<lambda>a. ParseGroupCallEncRekey (Some a)) (GetChildren m) =
        [Inr \<lparr>ek_CallID = rk_CallID p, ek_CallCreator = norm_jid (rk_CallCreator p),
          ek_TransactionID = rk_TransactionID p, ek_KeyGeneration = 2, ek_EncryptionType = EncType (rk_DeviceKey p),
          ek_EncryptionVersion = 2, ek_Ciphertext = Ciphertext (rk_DeviceKey p)\<rparr>])"
  by (rule wire [OF assms(2)]) (use rekey_parsed [OF assms(1)] rekey_routing [OF assms(1)] in auto)

section \<open>Rosters\<close>

lemma parse_tagged_mapE:
  assumes "mapE f xs = Inr ns"
    "\<And>x n. \<lbrakk>x \<in> set xs; f x = Inr n\<rbrakk> \<Longrightarrow> Tag n = tag \<and> g (norm_node n) = Inr (h x)"
  shows "parse_tagged tag g (map norm_node ns) = Inr (map h xs)"
  using assms
proof (induction xs arbitrary: ns)
  case (Cons x xs)
  then obtain y ys where y: "f x = Inr y" "mapE f xs = Inr ys" "ns = y # ys"
    by (auto simp: bindE_Inr_conv)
  have "Tag y = tag" "g (norm_node y) = Inr (h x)" using Cons.prems(2) [of x y] y(1) by simp_all
  moreover have "parse_tagged tag g (map norm_node ys) = Inr (map h xs)"
    by (rule Cons.IH [OF y(2)]) (use Cons.prems(2) in auto)
  ultimately show ?case using y(3) by simp
qed simp

text \<open>
  What a parser sees of a device and of a participant of the roster that an offer is built with; a participant
  needs a state for it.
\<close>

definition sent_capability :: "JID \<Rightarrow> bool \<Rightarrow> GroupCallDevice \<Rightarrow> bytes option" where
  "sent_capability creator video d =
     (if video \<and> gd_JID d = creator \<and> gd_Capability d = Some CapabilityOffer then Some CapabilityVideoOffer
      else gd_Capability d)"

definition sent_device :: "JID \<Rightarrow> bool \<Rightarrow> GroupCallDevice \<Rightarrow> GroupCallDevice" where
  "sent_device creator video d = \<lparr>gd_JID = norm_jid (gd_JID d), gd_Platform = [], gd_PID = 0, gd_HasPID = False,
     gd_CapabilityVersion = (if gd_Capability d = None then 0 else gd_CapabilityVersion d),
     gd_Capability = sent_capability creator video d\<rparr>"

definition sent_participant :: "JID \<Rightarrow> bool \<Rightarrow> GroupCallParticipant \<Rightarrow> GroupCallParticipant" where
  "sent_participant creator video p = \<lparr>gp_JID = norm_jid (gp_JID p), gp_PN = EmptyJID, gp_State = gp_State p,
     gp_Type = [], gp_Devices = map (sent_device creator video) (gp_Devices p)\<rparr>"

lemma device_received:
  assumes "group_device creator video d = Inr n"
  shows "Tag n = ''device'' \<and> parseGroupDevice (norm_node n) = Inr (sent_device creator video d)"
proof (cases "gd_Capability d")
  case None
  with assms show ?thesis
    by (auto simp: group_device_def parseGroupDevice_def sent_device_def sent_capability_def attr_reads uint32_attrs
        skipped_attr_def GetChildren_def split: if_splits)
next
  case (Some c)
  with assms show ?thesis
    by (auto simp: group_device_def parseGroupDevice_def sent_device_def sent_capability_def attr_reads uint32_attrs
        skipped_attr_def GetChildren_def nodeBytes_def raw_val_def Let_def split: if_splits)
qed

lemma participant_received:
  assumes "group_user creator video p = Inr n" "gp_State p \<noteq> []"
  shows "Tag n = ''user'' \<and> parseGroupParticipant (norm_node n) = Inr (sent_participant creator video p)"
proof -
  obtain ds where ds: "mapE (group_device creator video) (gp_Devices p) = Inr ds"
    "n = Node ''user'' [(''jid'', VJID (gp_JID p)), (''state'', VString (gp_State p))] (VNodes ds)"
    using assms by (auto simp: group_user_def set_attr_def bindE_Inr_conv split: if_splits)
  have "parse_tagged ''device'' parseGroupDevice (map norm_node ds) = Inr (map (sent_device creator video) (gp_Devices p))"
    by (rule parse_tagged_mapE [OF ds(1)]) (rule device_received)
  with assms(2) show ?thesis unfolding ds(2) parseGroupParticipant_def GetChildren_norm
    by (simp add: attr_reads skipped_attr_def sent_participant_def GetChildren_def)
qed

lemma roster_received:
  assumes "buildGroupUsers ps creator video = Inr users" "\<forall>p\<in>set ps. gp_State p \<noteq> []"
  shows "parse_tagged ''user'' parseGroupParticipant (map norm_node users) = Inr (map (sent_participant creator video) ps)"
  using assms unfolding buildGroupUsers_def
  by (intro parse_tagged_mapE) (auto dest: participant_received)

definition sample_rekey :: GroupEncRekeyParams where
  "sample_rekey = \<lparr>rk_CallID = ''c1'', rk_To = sample_jid, rk_CallCreator = NewADJID ''1'' 0 1, rk_TransactionID = 3,
     rk_RequestID = ''r'', rk_DeviceKey = \<lparr>DeviceJid = sample_jid, Ciphertext = [1, 2, 3], EncType = ''msg''\<rparr>\<rparr>"

theorem group_rekey_delivered_witness:
  "\<exists>n d m. BuildGroupEncRekey sample_rekey = Inr n \<and> Marshal n = Inr d \<and>
     bindE (Unpack (\<lambda>_. None) d) Unmarshal = Inr m \<and>
     map (\<lambda>a. ParseGroupCallEncRekey (Some a)) (GetChildren m) =
       [Inr \<lparr>ek_CallID = ''c1'', ek_CallCreator = norm_jid (NewADJID ''1'' 0 1), ek_TransactionID = 3,
          ek_KeyGeneration = 2, ek_EncryptionType = ''msg'', ek_EncryptionVersion = 2, ek_Ciphertext = [1, 2, 3]\<rparr>]"
proof -
  obtain n where n: "BuildGroupEncRekey sample_rekey = Inr n" "wf_node n"
    by (simp add: sample_rekey_def sample_jid_def BuildGroupEncRekey_def callWrap_def attr_writes IsEmpty_def NewADJID_def
        domains servers MaxInt32_def wf_jid_def format_uint.simps skipped_attr_def)
  show ?thesis using group_rekey_delivered [OF n, of "\<lambda>_. None"] n(1) by (auto simp: sample_rekey_def)
qed

section \<open>Identity checks\<close>

lemma OptionalString_split:
  "au_Attrs au = Attrs n \<Longrightarrow> \<exists>au'. OptionalString k au = (string_attr n k, au') \<and> au_Attrs au' = Attrs n"
  by (auto simp: OptionalString_def GetString_def string_attr_def add_error_def value_of_def split: option.split gval.split)

lemma parseGroupInfo_keeps:
  "parseGroupInfo n u = Inr u' \<Longrightarrow>
     gu_CallID u' = gu_CallID u \<and> gu_CallCreator u' = gu_CallCreator u \<and> gu_Relay u' = gu_Relay u"
  by (auto simp: parseGroupInfo_def bindE_Inr_conv Let_def split: prod.splits)

lemma with_relay_keeps:
  "with_relay n u = Inr u' \<Longrightarrow> gu_CallID u' = gu_CallID u \<and> gu_CallCreator u' = gu_CallCreator u \<and>
     gu_Participants u' = gu_Participants u"
  by (auto simp: with_relay_def bindE_Inr_conv split: prod.splits bool.splits)

lemma new_update_simps [simp]:
  "gu_CallID (new_update c cr) = c" "gu_CallCreator (new_update c cr) = cr" "gu_Participants (new_update c cr) = []"
  by (simp_all add: new_update_def)

text \<open>
  An invite is accepted only when the call and the creator named inside its \<open>group_info\<close>, if any,
  are those of the offer itself.
\<close>

lemma ParseGroupInviteSnapshot_identity:
  assumes "ParseGroupInviteSnapshot (Some offer) = (Inr (Some u), ok)"
    "GetOptionalChildByTag offer [''group_info''] = (info, True)"
  shows "gu_CallID u = string_attr offer ''call-id'' \<and> gu_CallCreator u = jid_attr offer ''call-creator'' \<and>
    string_attr info ''call-id'' \<in> {[], gu_CallID u} \<and>
    (IsEmpty (jid_attr info ''call-creator'') \<or> jid_attr info ''call-creator'' = gu_CallCreator u)"
proof -
  obtain a1 where 1: "attr_String ''call-id'' (AttrGetter offer) = (string_attr offer ''call-id'', a1)" "au_Attrs a1 = Attrs offer"
    using attr_String_split [OF AttrGetter_Attrs] by blast
  obtain a2 where 2: "attr_JID ''call-creator'' a1 = (jid_attr offer ''call-creator'', a2)"
    using attr_JID_split [OF 1(2)] by blast
  obtain g1 where 3: "OptionalString ''call-id'' (AttrGetter info) = (string_attr info ''call-id'', g1)" "au_Attrs g1 = Attrs info"
    using OptionalString_split [OF AttrGetter_Attrs] by blast
  obtain g2 where 4: "OptionalJIDOrEmpty ''call-creator'' g1 = (jid_attr info ''call-creator'', g2)"
    using OptionalJIDOrEmpty_split [OF 3(2)] by blast
  obtain j a3 where 5: "OptionalString ''joinable'' a2 = (j, a3)" by fastforce
  show ?thesis using assms 1 2 3 4 5
    by (auto simp: ParseGroupInviteSnapshot_def bindE_Inr_conv Let_def
        split: if_splits sum.splits prod.splits option.splits dest!: parseGroupInfo_keeps)
qed

text \<open>A getter without errors at the end had none before; what it required was there.\<close>

lemma required_String:
  "attr_String k au = (v, au') \<Longrightarrow>
     au_Attrs au' = au_Attrs au \<and> (Errors au' = [] \<longrightarrow> Errors au = [] \<and> map_of (au_Attrs au) k = Some (VString v))"
  by (auto simp: attr_String_def GetString_def value_of_def add_error_def split: option.splits gval.splits)

lemma required_JID:
  "attr_JID k au = (v, au') \<Longrightarrow>
     au_Attrs au' = au_Attrs au \<and> (Errors au' = [] \<longrightarrow> Errors au = [] \<and> map_of (au_Attrs au) k = Some (VJID v))"
  by (auto simp: attr_JID_def GetJID_def add_error_def split: option.splits gval.splits)

lemma optional_reads:
  "OptionalString k au = (s, au') \<Longrightarrow> au_Attrs au' = au_Attrs au \<and> (Errors au' = [] \<longrightarrow> Errors au = [])"
  "OptionalJIDOrEmpty k au = (j, au') \<Longrightarrow> au_Attrs au' = au_Attrs au \<and> (Errors au' = [] \<longrightarrow> Errors au = [])"
  "optionalUint32Attr au k = Inr (u, au') \<Longrightarrow> au_Attrs au' = au_Attrs au \<and> (Errors au' = [] \<longrightarrow> Errors au = [])"
  by (auto simp: OptionalString_def OptionalJIDOrEmpty_def optionalUint32Attr_def GetString_def GetJID_def value_of_def
      add_error_def bindE_Inr_conv Let_def split: option.splits gval.splits if_splits)

lemma requiredUint32_reads:
  "requiredUint32Attr au k = Inr (u, au') \<Longrightarrow> au_Attrs au' = au_Attrs au \<and> (Errors au' = [] \<longrightarrow> Errors au = [])"
  by (auto simp: requiredUint32Attr_def bindE_Inr_conv split: if_splits dest: optional_reads)

lemma check_attrs_Inr: "check_attrs what as = Inr x \<Longrightarrow> Errors as = []"
  by (auto simp: check_attrs_def attr_Error_def OK_def split: if_splits)

lemmas read_dests = required_String required_JID optional_reads requiredUint32_reads check_attrs_Inr

lemma parse_tagged_ok:
  "parse_tagged tag f cs = Inr xs \<Longrightarrow> list_all2 (\<lambda>c x. f c = Inr x) (filter (\<lambda>c. Tag c = tag) cs) xs"
  by (induction cs arbitrary: xs) (auto simp: bindE_Inr_conv split: if_splits)

lemma parseGroupDevice_ok:
  assumes "parseGroupDevice n = Inr d"
  shows "map_of (Attrs n) ''jid'' = Some (VJID (gd_JID d))"
proof -
  obtain jid a1 where a1: "attr_JID ''jid'' (AttrGetter n) = (jid, a1)" by fastforce
  obtain pf a2 where a2: "OptionalString ''platform'' a1 = (pf, a2)" by fastforce
  obtain cap c where c: "GetOptionalChildByTag n [''capability''] = (cap, c)" by fastforce
  from assms obtain x a3 where x: "optionalUint32Attr a2 ''pid'' = Inr (x, a3)" "check_attrs ''group device'' a3 = Inr ()" "gd_JID d = jid"
    unfolding parseGroupDevice_def c by (cases c) (auto simp: a1 a2 bindE_Inr_conv Let_def)
  show ?thesis
    using required_JID [OF a1] optional_reads(1) [OF a2] optional_reads(3) [OF x(1)] check_attrs_Inr [OF x(2)] x(3)
    by (simp add: AttrGetter_Attrs)
qed

lemma parseGroupParticipant_ok:
  assumes "parseGroupParticipant n = Inr q"
  shows "map_of (Attrs n) ''jid'' = Some (VJID (gp_JID q)) \<and> map_of (Attrs n) ''state'' = Some (VString (gp_State q)) \<and>
    list_all2 (\<lambda>c d. map_of (Attrs c) ''jid'' = Some (VJID (gd_JID d)))
      (filter (\<lambda>c. Tag c = ''device'') (GetChildren n)) (gp_Devices q)"
proof -
  obtain jid a1 where a1: "attr_JID ''jid'' (AttrGetter n) = (jid, a1)" by fastforce
  obtain pn a2 where a2: "OptionalJIDOrEmpty ''user_pn'' a1 = (pn, a2)" by fastforce
  obtain st a3 where a3: "attr_String ''state'' a2 = (st, a3)" by fastforce
  obtain ty a4 where a4: "OptionalString ''type'' a3 = (ty, a4)" by fastforce
  from assms have q: "check_attrs ''group participant'' a4 = Inr ()" "gp_JID q = jid" "gp_State q = st"
    "parse_tagged ''device'' parseGroupDevice (GetChildren n) = Inr (gp_Devices q)"
    by (auto simp: parseGroupParticipant_def a1 a2 a3 a4 bindE_Inr_conv)
  have "list_all2 (\<lambda>c d. map_of (Attrs c) ''jid'' = Some (VJID (gd_JID d)))
      (filter (\<lambda>c. Tag c = ''device'') (GetChildren n)) (gp_Devices q)"
    by (rule list_all2_mono [OF parse_tagged_ok [OF q(4)]]) (rule parseGroupDevice_ok)
  then show ?thesis
    using required_JID [OF a1] optional_reads(2) [OF a2] required_String [OF a3] optional_reads(1) [OF a4]
      check_attrs_Inr [OF q(1)] q(2,3) by (simp add: AttrGetter_Attrs)
qed

lemma parseGroupInfo_ok:
  assumes "parseGroupInfo n u = Inr u'"
  shows "map_of (Attrs n) ''media'' = Some (VString (gu_Media u')) \<and>
    (\<exists>ps. gu_Participants u' = gu_Participants u @ ps \<and>
       list_all2 (\<lambda>c q. parseGroupParticipant c = Inr q) (filter (\<lambda>c. Tag c = ''user'') (GetChildren n)) ps)"
  using assms
  by (auto simp: parseGroupInfo_def bindE_Inr_conv Let_def AttrGetter_Attrs split: prod.splits
      dest!: read_dests parse_tagged_ok)

text \<open>
  C15: a group invite is taken only as a whole. If the parser accepts an offer as a group invite, the
  offer has a \<open>group_info\<close>; the call and the creator are those of the offer, and those named inside
  \<open>group_info\<close>, if any, agree with them; the roster has one participant per \<open>user\<close> child, in order, each with
  the JID and the state its element carries and one device per \<open>device\<close> child, in order, with
  the JID that carries. An element without its JID or state makes the parser refuse the whole invite.
\<close>
theorem group_invite_checked:
  assumes "ParseGroupInviteSnapshot (Some offer) = (Inr (Some u), ok)"
  shows "\<exists>info. Tag offer = ''offer'' \<and> ok \<and> GetOptionalChildByTag offer [''group_info''] = (info, True) \<and>
    map_of (Attrs offer) ''call-id'' = Some (VString (gu_CallID u)) \<and>
    map_of (Attrs offer) ''call-creator'' = Some (VJID (gu_CallCreator u)) \<and>
    string_attr info ''call-id'' \<in> {[], gu_CallID u} \<and>
    (IsEmpty (jid_attr info ''call-creator'') \<or> jid_attr info ''call-creator'' = gu_CallCreator u) \<and>
    map_of (Attrs info) ''media'' = Some (VString (gu_Media u)) \<and>
    list_all2 (\<lambda>c q. map_of (Attrs c) ''jid'' = Some (VJID (gp_JID q)) \<and>
        map_of (Attrs c) ''state'' = Some (VString (gp_State q)) \<and>
        list_all2 (\<lambda>e d. map_of (Attrs e) ''jid'' = Some (VJID (gd_JID d)))
          (filter (\<lambda>e. Tag e = ''device'') (GetChildren c)) (gp_Devices q))
      (filter (\<lambda>c. Tag c = ''user'') (GetChildren info)) (gu_Participants u)"
proof -
  obtain info where info: "Tag offer = ''offer''" "ok" "GetOptionalChildByTag offer [''group_info''] = (info, True)"
    using assms by (auto simp: ParseGroupInviteSnapshot_def Let_def split: if_splits prod.splits bool.splits sum.splits)
  obtain c a1 cr a2 where a: "attr_String ''call-id'' (AttrGetter offer) = (c, a1)" "attr_JID ''call-creator'' a1 = (cr, a2)"
    by fastforce
  obtain g a3 where g: "OptionalString ''joinable'' a2 = (g, a3)" by fastforce
  obtain u' j where u': "check_attrs ''group invite identity'' a2 = Inr ()"
    "parseGroupInfo info (new_update c cr) = Inr u'" "u = u'\<lparr>gu_Joinable := j\<rparr>"
    using assms info a by (auto simp: ParseGroupInviteSnapshot_def g bindE_Inr_conv Let_def split: if_splits prod.splits sum.splits)
  note keeps = parseGroupInfo_keeps [OF u'(2)] parseGroupInfo_ok [OF u'(2)]
  have "list_all2 (\<lambda>c q. parseGroupParticipant c = Inr q) (filter (\<lambda>c. Tag c = ''user'') (GetChildren info)) (gu_Participants u)"
    using keeps u'(3) by auto
  then have "list_all2 (\<lambda>c q. map_of (Attrs c) ''jid'' = Some (VJID (gp_JID q)) \<and>
        map_of (Attrs c) ''state'' = Some (VString (gp_State q)) \<and>
        list_all2 (\<lambda>e d. map_of (Attrs e) ''jid'' = Some (VJID (gd_JID d)))
          (filter (\<lambda>e. Tag e = ''device'') (GetChildren c)) (gp_Devices q))
      (filter (\<lambda>c. Tag c = ''user'') (GetChildren info)) (gu_Participants u)"
    by (rule list_all2_mono) (rule parseGroupParticipant_ok)
  moreover have "map_of (Attrs offer) ''call-id'' = Some (VString c) \<and> map_of (Attrs offer) ''call-creator'' = Some (VJID cr)"
    using required_String [OF a(1)] required_JID [OF a(2)] check_attrs_Inr [OF u'(1)] by (simp add: AttrGetter_Attrs)
  ultimately show ?thesis
    using info keeps u'(3) ParseGroupInviteSnapshot_identity [OF assms info(3)] by auto
qed

definition sample_invite :: node where
  "sample_invite = Node ''offer'' [(''call-id'', VString ''c1''), (''call-creator'', VJID sample_jid)] (VNodes
     [Node ''group_info'' [(''media'', VString ''audio''), (''transaction-id'', VString ''1''),
        (''connected-limit'', VString ''8'')] (VNodes
        [Node ''user'' [(''jid'', VJID sample_jid), (''state'', VString ''connected'')]
           (VNodes [Node ''device'' [(''jid'', VJID sample_jid)] VNil]),
         Node ''user'' [(''jid'', VJID sample_jid), (''state'', VString ''calling'')] VNil])])"

theorem group_invite_checked_witness:
  "\<exists>u. ParseGroupInviteSnapshot (Some sample_invite) = (Inr (Some u), True) \<and> gu_CallID u = ''c1'' \<and>
     gu_CallCreator u = sample_jid \<and> map gp_State (gu_Participants u) = [''connected'', ''calling'']"
proof -
  have num: "parse_u32 k (format_uint 1) = Inr 1" "parse_u32 k (format_uint 8) = Inr 8" for k
    by (simp_all add: parse_u32_def parse_format_uint)
  have digits: "format_uint 1 = ''1''" "format_uint 8 = ''8''" by (simp_all add: format_uint.simps digit_char_def) code_simp+
  obtain u where u: "ParseGroupInviteSnapshot (Some sample_invite) = (Inr (Some u), True)"
    by (simp add: sample_invite_def ParseGroupInviteSnapshot_def GetChildren_def attr_reads parseGroupInfo_def
        parseGroupParticipant_def parseGroupDevice_def optionalUint32Attr_def requiredUint32Attr_def num [unfolded digits]
        IsEmpty_def EmptyJID_def NewJID_def Let_def)
  from group_invite_checked [OF u] u show ?thesis
    by (auto simp: sample_invite_def GetChildren_def list_all2_Cons1)
qed

section \<open>Relay tokens\<close>

lemma length_place: "length (place ts i v) = max (length ts) (Suc i)"
  by (simp add: place_def)

lemma place_nth: "place ts i v ! j = (if j = i then Some v else if j < length ts then ts ! j else None)"
  if "j < max (length ts) (Suc i)"
  using that by (auto simp: place_def nth_list_update nth_append)

text \<open>A token that names its index is stored there and nowhere else; what was stored at other indices stays.\<close>

definition token_at :: "bytes option list \<Rightarrow> nat \<Rightarrow> bytes option" where
  "token_at ts i = (if i < length ts then ts ! i else None)"

lemma token_at_place: "token_at (place ts i v) j = (if j = i then Some v else token_at ts j)"
  using place_nth [of j ts i v] by (auto simp: token_at_def length_place)

text \<open>The explicit index of a token child, when it has a valid one.\<close>

definition explicit_index :: "string \<Rightarrow> node \<Rightarrow> nat option" where
  "explicit_index tag child =
     (if Tag child = tag \<and> nodeBytes child \<noteq> None \<and> string_attr child ''id'' \<noteq> [] then token_index [] child else None)"

lemma token_index_explicit:
  "string_attr child ''id'' \<noteq> [] \<Longrightarrow> token_index ts child = token_index [] child"
  using OptionalString_split [OF AttrGetter_Attrs, where k = "''id''" and n = child] by (auto simp: token_index_def)

lemma token_index_bound: "token_index [] child = Some i \<Longrightarrow> i < 64"
  by (auto simp: token_index_def Let_def split: if_splits prod.splits option.splits)

lemma token_step_explicit:
  assumes "Tag child = tag \<longrightarrow> string_attr child ''id'' \<noteq> []"
  shows "token_at (token_step tag ts child) j =
      (if explicit_index tag child = Some j then nodeBytes child else token_at ts j)"
    and "length ts \<le> 64 \<Longrightarrow> length (token_step tag ts child) \<le> 64"
proof -
  show "token_at (token_step tag ts child) j =
      (if explicit_index tag child = Some j then nodeBytes child else token_at ts j)"
    using assms token_index_explicit [of child ts]
    by (auto simp: token_step_def explicit_index_def token_at_place split: option.split)
  show "length ts \<le> 64 \<Longrightarrow> length (token_step tag ts child) \<le> 64"
    using assms token_index_explicit [of child ts] token_index_bound [of child]
    by (auto simp: token_step_def length_place split: option.split)
qed

text \<open>
  With explicit indices everywhere, the parsed list maps an index to the contents of the last child that
  names it, and it never has more than 64 entries.
\<close>

lemma parseIndexedTokens_last:
  assumes "\<forall>c\<in>set (GetChildren n). Tag c = tag \<longrightarrow> string_attr c ''id'' \<noteq> []"
  shows "token_at (parseIndexedTokens n tag) j =
      Option.bind (find (\<lambda>c. explicit_index tag c = Some j) (rev (GetChildren n))) nodeBytes"
    and "length (parseIndexedTokens n tag) \<le> 64"
proof -
  have "token_at (foldl (token_step tag) [] cs) j =
      Option.bind (find (\<lambda>c. explicit_index tag c = Some j) (rev cs)) nodeBytes \<and>
    length (foldl (token_step tag) [] cs) \<le> 64"
    if "\<forall>c\<in>set cs. Tag c = tag \<longrightarrow> string_attr c ''id'' \<noteq> []" for cs
    using that
  proof (induction cs rule: rev_induct)
    case (snoc c cs)
    then show ?case using token_step_explicit [of c tag "foldl (token_step tag) [] cs"] by auto
  qed (simp add: token_at_def)
  from this [OF assms] show "token_at (parseIndexedTokens n tag) j =
      Option.bind (find (\<lambda>c. explicit_index tag c = Some j) (rev (GetChildren n))) nodeBytes"
    "length (parseIndexedTokens n tag) \<le> 64"
    by (simp_all add: parseIndexedTokens_def)
qed

end
