(* ===== verification/GroupReceive.thy ===== *)
theory GroupReceive
  imports Pipeline AudioPath GroupCall "HOL-Library.AList"
begin

text \<open>
  The receive registry of a group call (\<^verbatim>\<open>wa-core/call_group_media_receive.go\<close>): which participants are active, the pipelines
  their media goes through, and the key epochs of the call, installed or waiting for the roster they belong to. Receivers are
  shared between six indexes; they live in a store and the indexes hold their addresses. A send pipeline or SRTCP sender is named by its position in the
  order of attachment. Every method runs under the registry's lock and is one step. Go maps are association lists, whose order
  is the iteration order; memory that is zeroed holds the zero key afterwards.
\<close>

section \<open>Updates in neutral form\<close>

record groupCallDevice =
  nd_JID :: JID
  nd_Platform :: string
  nd_PID :: u32
  nd_HasPID :: bool
  nd_CapabilityVersion :: u32
  nd_Capability :: "bytes option"

record groupCallParticipant =
  np_JID :: JID
  np_PN :: JID
  np_State :: string
  np_Type :: string
  np_Devices :: "groupCallDevice list"

record groupCallRelayEndpoint =
  ne_RelayID :: u32
  ne_TokenID :: u32
  ne_AuthTokenID :: u32
  ne_RelayName :: string
  ne_IsFNA :: bool
  ne_IPv4 :: string
  ne_Port :: u16

record groupCallRelay =
  nr_TransactionID :: u32
  nr_SelfPID :: u32
  nr_HasSelfPID :: bool
  nr_UUID :: string
  nr_ParticipantUUID :: string
  nr_AttributePadding :: bool
  nr_WarpMITagLength :: u32
  nr_HasWarpMITagLength :: bool
  nr_Key :: "bytes option"
  nr_HBHKey :: "bytes option"
  nr_Tokens :: "bytes option list"
  nr_AuthTokens :: "bytes option list"
  nr_Endpoints :: "groupCallRelayEndpoint list"

record groupCallUpdate =
  nu_CallID :: string
  nu_CallCreator :: JID
  nu_GroupJID :: JID
  nu_TransactionID :: u32
  nu_Media :: string
  nu_ConnectedLimit :: u32
  nu_Joinable :: bool
  nu_AVUpgradable :: bool
  nu_RekeyRequested :: bool
  nu_Participants :: "groupCallParticipant list"
  nu_Relay :: "groupCallRelay option"

text \<open>\<open>bytes.Clone\<close> keeps nil and content.\<close>

definition cloneByteSlices :: "bytes option list \<Rightarrow> bytes option list" where
  "cloneByteSlices values = map (\<lambda>v. v) values"

definition groupCallUpdateFromSignaling :: "GroupCallUpdate \<Rightarrow> groupCallUpdate" where
  "groupCallUpdateFromSignaling update =
     \<lparr>nu_CallID = gu_CallID update, nu_CallCreator = gu_CallCreator update, nu_GroupJID = gu_GroupJID update,
      nu_TransactionID = gu_TransactionID update, nu_Media = gu_Media update, nu_ConnectedLimit = gu_ConnectedLimit update,
      nu_Joinable = gu_Joinable update, nu_AVUpgradable = gu_AVUpgradable update, nu_RekeyRequested = gu_RekeyRequested update,
      nu_Participants = map (\<lambda>participant.
        \<lparr>np_JID = gp_JID participant, np_PN = gp_PN participant, np_State = gp_State participant, np_Type = gp_Type participant,
         np_Devices = map (\<lambda>device.
           \<lparr>nd_JID = gd_JID device, nd_Platform = gd_Platform device, nd_PID = gd_PID device, nd_HasPID = gd_HasPID device,
            nd_CapabilityVersion = gd_CapabilityVersion device, nd_Capability = gd_Capability device\<rparr>) (gp_Devices participant)\<rparr>)
        (gu_Participants update),
      nu_Relay = map_option (\<lambda>relay.
        \<lparr>nr_TransactionID = gr_TransactionID relay, nr_SelfPID = gr_SelfPID relay, nr_HasSelfPID = gr_HasSelfPID relay,
         nr_UUID = gr_UUID relay, nr_ParticipantUUID = gr_ParticipantUUID relay, nr_AttributePadding = gr_AttributePadding relay,
         nr_WarpMITagLength = gr_WarpMITagLength relay, nr_HasWarpMITagLength = gr_HasWarpMITagLength relay,
         nr_Key = gr_Key relay, nr_HBHKey = gr_HBHKey relay, nr_Tokens = cloneByteSlices (gr_Tokens relay),
         nr_AuthTokens = cloneByteSlices (gr_AuthTokens relay),
         nr_Endpoints = map (\<lambda>endpoint.
           \<lparr>ne_RelayID = ep_RelayID endpoint, ne_TokenID = ep_TokenID endpoint, ne_AuthTokenID = ep_AuthTokenID endpoint,
            ne_RelayName = ep_RelayName endpoint, ne_IsFNA = ep_IsFNA endpoint, ne_IPv4 = ep_IPv4 endpoint,
            ne_Port = ep_Port endpoint\<rparr>) (gr_Endpoints relay)\<rparr>) (gu_Relay update)\<rparr>"

section \<open>SRTCP ends\<close>

text \<open>The value \<open>E2eSrtpKeys{}\<close>: arrays of zeros.\<close>

definition zero_keys :: E2eSrtpKeys where
  "zero_keys = \<lparr>CipherKey = replicate 16 0, Salt = replicate 14 0, AuthKey = replicate 20 0\<rparr>"

record mediaSrtcpSender =
  ss_keys :: E2eSrtpKeys
  ss_ssrc :: u32
  ss_cname :: bytes
  ss_profile :: bool
  ss_index :: u32

record mediaSrtcpReceiver =
  sr_keys :: E2eSrtpKeys

definition newMediaSrtcpReceiver :: "bytes \<Rightarrow> string \<Rightarrow> srtp_error + mediaSrtcpReceiver" where
  "newMediaSrtcpReceiver callKey peerLID =
     bindE (DeriveE2eSrtcpKeys callKey (FormatE2ESrtpParticipantID peerLID)) (\<lambda>keys. Inr \<lparr>sr_keys = keys\<rparr>)"

definition sr_installKeys :: "E2eSrtpKeys \<Rightarrow> mediaSrtcpReceiver \<Rightarrow> mediaSrtcpReceiver" where
  "sr_installKeys keys r = r\<lparr>sr_keys := keys\<rparr>"

definition sr_rekey :: "bytes \<Rightarrow> string \<Rightarrow> mediaSrtcpReceiver \<Rightarrow> srtp_error + mediaSrtcpReceiver" where
  "sr_rekey callKey peerLID r =
     bindE (DeriveE2eSrtcpKeys callKey (FormatE2ESrtpParticipantID peerLID)) (\<lambda>keys. Inr (sr_installKeys keys r))"

definition sr_unprotect :: "u32 \<Rightarrow> bytes \<Rightarrow> mediaSrtcpReceiver \<Rightarrow> (bytes \<times> u32) option" where
  "sr_unprotect senderSSRC packet r = UnprotectSrtcp (sr_keys r) senderSSRC packet"

text \<open>The twelve random bytes are an argument.\<close>

definition newMediaSrtcpSender :: "bytes \<Rightarrow> bytes \<Rightarrow> string \<Rightarrow> u32 \<Rightarrow> bool \<Rightarrow> srtp_error + mediaSrtcpSender" where
  "newMediaSrtcpSender entropy callKey selfLID ssrc profile =
     bindE (DeriveE2eSrtcpKeys callKey (FormatE2ESrtpParticipantID selfLID)) (\<lambda>keys.
       Inr \<lparr>ss_keys = keys, ss_ssrc = ssrc, ss_cname = BuildWhatsappRtcpCname entropy, ss_profile = profile, ss_index = 1\<rparr>)"

definition ss_installKeys :: "E2eSrtpKeys \<Rightarrow> mediaSrtcpSender \<Rightarrow> mediaSrtcpSender" where
  "ss_installKeys keys s = s\<lparr>ss_keys := keys\<rparr>"

definition senderReport ::
  "RtcpSenderStats \<Rightarrow> u64 \<Rightarrow> RtcpReceptionReport option \<Rightarrow> mediaSrtcpSender \<Rightarrow> (srtp_error + bytes) \<times> mediaSrtcpSender" where
  "senderReport stats nowMs report s =
     (let plain = BuildSenderReportWithSdesAndReception (ss_ssrc s) stats nowMs (ss_cname s) report (ss_profile s)
      in case ProtectSrtcp (ss_keys s) (ss_ssrc s) (ss_index s) plain of
           Inl e \<Rightarrow> (Inl e, s)
         | Inr packet \<Rightarrow> (Inr packet, s\<lparr>ss_index := ss_index s + 1\<rparr>))"

definition groupSenderReport ::
  "RtcpSenderStats \<Rightarrow> u64 \<Rightarrow> RtcpReceptionReport option \<Rightarrow> mediaSrtcpSender \<Rightarrow> (srtp_error + bytes) \<times> mediaSrtcpSender" where
  "groupSenderReport stats nowMs report s =
     (let plain = BuildGroupSenderReport (ss_ssrc s) (Some stats) nowMs report (replicate 8 0)
      in case ProtectSrtcp (ss_keys s) (ss_ssrc s) (ss_index s) plain of
           Inl e \<Rightarrow> (Inl e, s)
         | Inr packet \<Rightarrow> (Inr packet, s\<lparr>ss_index := ss_index s + 1\<rparr>))"

definition pictureLossIndication :: "u32 \<Rightarrow> mediaSrtcpSender \<Rightarrow> (srtp_error + bytes) \<times> mediaSrtcpSender" where
  "pictureLossIndication mediaSSRC s =
     (case ProtectSrtcp (ss_keys s) (ss_ssrc s) (ss_index s) (BuildPictureLossIndication (ss_ssrc s) mediaSSRC (ss_profile s)) of
        Inl e \<Rightarrow> (Inl e, s)
      | Inr packet \<Rightarrow> (Inr packet, s\<lparr>ss_index := ss_index s + 1\<rparr>))"

section \<open>Receivers and the registry\<close>

datatype rcv_error = SsrcErr crypto_error | PipeErr srtp_error | BadPeer jid_error | NilPipe | NilApply | ApplyFailed
  | NoCommit | DuplicateDevice string | DuplicatePID u32 | DuplicateSSRC u32 | DuplicateVideoSSRC u32
  | DuplicateAppDataSSRC u32 | DuplicateStreamSSRC u32 | ConflictingEpoch u32 | BadEpochLen nat | NotInRoster

record 'd participantAudioReceiver =
  pr_userJID :: JID
  pr_deviceJID :: JID
  pr_participantID :: string
  pr_pid :: u32
  pr_hasPID :: bool
  pr_ssrc :: u32
  pr_streamSSRCs :: "u32 list"
  pr_videoSSRC :: u32
  pr_appDataSSRC :: u32
  pr_pipe :: MediaPipeline
  pr_videoPipe :: MediaPipeline
  pr_appDataPipe :: MediaPipeline
  pr_srtcp :: mediaSrtcpReceiver
  pr_decoder :: 'd

record installedGroupRawEpoch =
  ie_transactionID :: u32
  ie_rawKey :: bytes

record participantReceiverMetadata =
  md_receiver :: nat
  md_userJID :: JID
  md_deviceJID :: JID
  md_pid :: u32

record preparedGroupRawEpoch =
  ge_sendKeys :: E2eSrtpKeys
  ge_sendRTCPKeys :: E2eSrtpKeys
  ge_receiveKeys :: "(nat \<times> E2eSrtpKeys) list"
  ge_receiveRTCPKeys :: "(nat \<times> E2eSrtpKeys) list"

record preparedParticipantReceiveUpdate =
  pp_transactionID :: u32
  pp_byDeviceID :: "(string \<times> nat) list"
  pp_byPID :: "(u32 \<times> nat) list"
  pp_bySSRC :: "(u32 \<times> nat) list"
  pp_byVideoSSRC :: "(u32 \<times> nat) list"
  pp_byAppDataSSRC :: "(u32 \<times> nat) list"
  pp_bySRTCPSSRC :: "(u32 \<times> nat) list"
  pp_metadata :: "participantReceiverMetadata list"
  pp_newReceivers :: "nat list"
  pp_consumed :: "u32 list"
  pp_epoch :: "preparedGroupRawEpoch option"
  pp_epochTransactionID :: u32
  pp_epochRawKey :: bytes
  pp_replaceInstalledEpoch :: bool

record 'd participantReceiveRegistry =
  rg_callID :: string
  rg_callKey :: bytes
  rg_selfLID :: string
  rg_selfID :: string
  rg_fallbackID :: string
  rg_transactionID :: u32
  rg_rosterGeneration :: u64
  rg_hasGroupUpdate :: bool
  rg_decoderFactory :: 'd
  rg_byDeviceID :: "(string \<times> nat) list"
  rg_byPID :: "(u32 \<times> nat) list"
  rg_bySSRC :: "(u32 \<times> nat) list"
  rg_byVideoSSRC :: "(u32 \<times> nat) list"
  rg_byAppDataSSRC :: "(u32 \<times> nat) list"
  rg_bySRTCPSSRC :: "(u32 \<times> nat) list"
  rg_sendPipes :: "MediaPipeline list"
  rg_srtcpSenders :: "mediaSrtcpSender list"
  rg_pendingEpochs :: "(u32 \<times> bytes) list"
  rg_installedEpoch :: installedGroupRawEpoch
  rg_hasEpoch :: bool
  rg_store :: "'d participantAudioReceiver list"

definition newReceiver ::
  "'d participantReceiveRegistry \<Rightarrow> JID \<Rightarrow> JID \<Rightarrow> u32 \<Rightarrow> bool \<Rightarrow> rcv_error + 'd participantAudioReceiver" where
  "newReceiver r userJID deviceJID pid hasPID =
     (let participantID = FormatE2ESrtpParticipantID (String deviceJID) in
      bindE (map_sum SsrcErr id (DeriveWasmRelayStreamSsrcs (rg_callID r) participantID)) (\<lambda>streamSSRCs.
      let ssrc = streamSSRCs ! 0 in
      bindE (map_sum SsrcErr id (DeriveWasmParticipantSsrc (rg_callID r) participantID VideoSlotWord)) (\<lambda>videoSSRC.
      bindE (map_sum SsrcErr id (DeriveWasmParticipantSsrc (rg_callID r) participantID AppDataSlotWord)) (\<lambda>appDataSSRC.
      bindE (map_sum PipeErr id (NewMediaPipeline (rg_callKey r) (rg_selfLID r) (String deviceJID) ssrc (word_of_nat FrameSamples))) (\<lambda>pipe.
      bindE (map_sum PipeErr id (NewMediaPipeline (rg_callKey r) (rg_selfLID r) (String deviceJID) videoSSRC (word_of_nat FrameSamples))) (\<lambda>videoPipe.
      bindE (map_sum PipeErr id (NewMediaPipeline (rg_callKey r) (rg_selfLID r) (String deviceJID) appDataSSRC (word_of_nat FrameSamples))) (\<lambda>appDataPipe.
      bindE (map_sum PipeErr id (newMediaSrtcpReceiver (rg_callKey r) (String deviceJID))) (\<lambda>srtcp.
        Inr \<lparr>pr_userJID = userJID, pr_deviceJID = deviceJID, pr_participantID = participantID, pr_pid = pid, pr_hasPID = hasPID,
             pr_ssrc = ssrc, pr_streamSSRCs = streamSSRCs, pr_videoSSRC = videoSSRC, pr_appDataSSRC = appDataSSRC,
             pr_pipe = pipe, pr_videoPipe = videoPipe, pr_appDataPipe = appDataPipe, pr_srtcp = srtcp,
             pr_decoder = rg_decoderFactory r\<rparr>))))))))"

definition newParticipantReceiveRegistry ::
  "'d \<Rightarrow> string \<Rightarrow> bytes \<Rightarrow> string \<Rightarrow> string \<Rightarrow> rcv_error + 'd participantReceiveRegistry" where
  "newParticipantReceiveRegistry decoderFactory callID callKey selfLID peerLID =
     (let r = \<lparr>rg_callID = callID, rg_callKey = callKey, rg_selfLID = selfLID, rg_selfID = FormatE2ESrtpParticipantID selfLID,
            rg_fallbackID = [], rg_transactionID = 0, rg_rosterGeneration = 0, rg_hasGroupUpdate = False, rg_decoderFactory = decoderFactory,
            rg_byDeviceID = [], rg_byPID = [], rg_bySSRC = [], rg_byVideoSSRC = [], rg_byAppDataSSRC = [], rg_bySRTCPSSRC = [],
            rg_sendPipes = [], rg_srtcpSenders = [], rg_pendingEpochs = [],
            rg_installedEpoch = \<lparr>ie_transactionID = 0, ie_rawKey = []\<rparr>, rg_hasEpoch = False, rg_store = []\<rparr>
      in case ParseJID peerLID of
           (_, Some e) \<Rightarrow> Inl (BadPeer e)
         | (peerJID, None) \<Rightarrow>
             bindE (newReceiver r (ToNonAD peerJID) peerJID 0 False) (\<lambda>receiver.
               Inr (r\<lparr>rg_store := [receiver], rg_fallbackID := pr_participantID receiver,
                 rg_byDeviceID := [(pr_participantID receiver, 0)], rg_bySSRC := [(pr_ssrc receiver, 0)],
                 rg_byVideoSSRC := [(pr_videoSSRC receiver, 0)], rg_byAppDataSSRC := [(pr_appDataSSRC receiver, 0)],
                 rg_bySRTCPSSRC := fold (\<lambda>s. AList.update s 0) (pr_streamSSRCs receiver) []\<rparr>)))"

definition clearParticipantReceiverKeys :: "'d participantAudioReceiver \<Rightarrow> 'd participantAudioReceiver" where
  "clearParticipantReceiverKeys receiver =
     receiver\<lparr>pr_pipe := installRecvKeys zero_keys (installSendKeys zero_keys (pr_pipe receiver)),
       pr_videoPipe := installRecvKeys zero_keys (installSendKeys zero_keys (pr_videoPipe receiver)),
       pr_appDataPipe := installRecvKeys zero_keys (installSendKeys zero_keys (pr_appDataPipe receiver)),
       pr_srtcp := sr_installKeys zero_keys (pr_srtcp receiver)\<rparr>"

text \<open>Applying a change to the receivers at some addresses.\<close>

definition change_at :: "('d participantAudioReceiver \<Rightarrow> 'd participantAudioReceiver) \<Rightarrow> nat \<Rightarrow> 'd participantAudioReceiver list \<Rightarrow>
    'd participantAudioReceiver list" where
  "change_at f a st = st[a := f (st ! a)]"

section \<open>Preparing an update\<close>

fun derive_receive_keys :: "bytes \<Rightarrow> 'd participantAudioReceiver list \<Rightarrow> (string \<times> nat) list \<Rightarrow>
    preparedGroupRawEpoch \<Rightarrow> rcv_error + preparedGroupRawEpoch" where
  "derive_receive_keys rawKey st [] prepared = Inr prepared"
| "derive_receive_keys rawKey st ((_, a) # receivers) prepared =
     bindE (map_sum PipeErr id (DeriveE2eKeysFromRaw rawKey (pr_participantID (st ! a)))) (\<lambda>keys.
     bindE (map_sum PipeErr id (DeriveE2eSRTCPKeysFromRaw rawKey (pr_participantID (st ! a)))) (\<lambda>srtcpKeys.
       derive_receive_keys rawKey st receivers
         (prepared\<lparr>ge_receiveKeys := AList.update a keys (ge_receiveKeys prepared),
            ge_receiveRTCPKeys := AList.update a srtcpKeys (ge_receiveRTCPKeys prepared)\<rparr>)))"

definition prepareGroupRawEpochLocked :: "bytes \<Rightarrow> (string \<times> nat) list \<Rightarrow> 'd participantAudioReceiver list \<Rightarrow>
    'd participantReceiveRegistry \<Rightarrow> rcv_error + preparedGroupRawEpoch" where
  "prepareGroupRawEpochLocked rawKey receivers st r =
     bindE (map_sum PipeErr id (DeriveE2eKeysFromRaw rawKey (rg_selfID r))) (\<lambda>sendKeys.
     bindE (map_sum PipeErr id (DeriveE2eSRTCPKeysFromRaw rawKey (rg_selfID r))) (\<lambda>sendRTCPKeys.
       derive_receive_keys rawKey st receivers
         \<lparr>ge_sendKeys = sendKeys, ge_sendRTCPKeys = sendRTCPKeys, ge_receiveKeys = [], ge_receiveRTCPKeys = []\<rparr>))"

fun add_streams :: "u32 list \<Rightarrow> nat \<Rightarrow> (u32 \<times> nat) list \<Rightarrow> rcv_error + (u32 \<times> nat) list" where
  "add_streams [] a m = Inr m"
| "add_streams (s # ss) a m =
     (if map_of m s \<noteq> None then Inl (DuplicateStreamSSRC s) else add_streams ss a (AList.update s a m))"

record 'd prepare_state =
  ps_prepared :: preparedParticipantReceiveUpdate
  ps_remote :: bool
  ps_store :: "'d participantAudioReceiver list"

text \<open>The receiver of a device: the active one, or a new one.\<close>

definition find_receiver :: "'d participantReceiveRegistry \<Rightarrow> groupCallParticipant \<Rightarrow> groupCallDevice \<Rightarrow> string \<Rightarrow>
    'd prepare_state \<Rightarrow> rcv_error + (nat \<times> 'd prepare_state)" where
  "find_receiver r participant device participantID ps =
     (case map_of (rg_byDeviceID r) participantID of
        Some a \<Rightarrow> Inr (a, ps)
      | None \<Rightarrow>
          bindE (newReceiver r (np_JID participant) (nd_JID device) (nd_PID device) True) (\<lambda>receiver.
            let a = length (ps_store ps); p = ps_prepared ps
            in Inr (a, ps\<lparr>ps_store := ps_store ps @ [receiver], ps_prepared := p\<lparr>pp_newReceivers := pp_newReceivers p @ [a]\<rparr>\<rparr>)))"

text \<open>One device; the first component is the error the loop returns with.\<close>

definition prepare_device :: "'d participantReceiveRegistry \<Rightarrow> groupCallParticipant \<Rightarrow> groupCallDevice \<Rightarrow> 'd prepare_state \<Rightarrow>
    rcv_error option \<times> 'd prepare_state" where
  "prepare_device r participant device ps =
     (let participantID = FormatE2ESrtpParticipantID (String (nd_JID device)) in
      if \<not> nd_HasPID device then (None, ps)
      else if participantID = rg_selfID r then (None, ps)
      else
        let ps = ps\<lparr>ps_remote := True\<rparr> in
        if map_of (pp_byDeviceID (ps_prepared ps)) participantID \<noteq> None then (Some (DuplicateDevice participantID), ps)
        else case find_receiver r participant device participantID ps of
          Inl e \<Rightarrow> (Some e, ps)
        | Inr (a, ps) \<Rightarrow>
            let p = ps_prepared ps; receiver = ps_store ps ! a in
            if map_of (pp_byPID p) (nd_PID device) \<noteq> None then (Some (DuplicatePID (nd_PID device)), ps)
            else if map_of (pp_bySSRC p) (pr_ssrc receiver) \<noteq> None then (Some (DuplicateSSRC (pr_ssrc receiver)), ps)
            else if map_of (pp_byVideoSSRC p) (pr_videoSSRC receiver) \<noteq> None then (Some (DuplicateVideoSSRC (pr_videoSSRC receiver)), ps)
            else if map_of (pp_byAppDataSSRC p) (pr_appDataSSRC receiver) \<noteq> None then (Some (DuplicateAppDataSSRC (pr_appDataSSRC receiver)), ps)
            else case add_streams (pr_streamSSRCs receiver) a (pp_bySRTCPSSRC p) of
              Inl e \<Rightarrow> (Some e, ps)
            | Inr streamMap \<Rightarrow>
                (None, ps\<lparr>ps_prepared := p\<lparr>pp_bySRTCPSSRC := streamMap,
                  pp_byDeviceID := AList.update participantID a (pp_byDeviceID p),
                  pp_byPID := AList.update (nd_PID device) a (pp_byPID p),
                  pp_bySSRC := AList.update (pr_ssrc receiver) a (pp_bySSRC p),
                  pp_byVideoSSRC := AList.update (pr_videoSSRC receiver) a (pp_byVideoSSRC p),
                  pp_byAppDataSSRC := AList.update (pr_appDataSSRC receiver) a (pp_byAppDataSSRC p),
                  pp_metadata := pp_metadata p @ [\<lparr>md_receiver = a, md_userJID = np_JID participant, md_deviceJID = nd_JID device,
                    md_pid = nd_PID device\<rparr>]\<rparr>\<rparr>))"

fun prepare_devices :: "'d participantReceiveRegistry \<Rightarrow> groupCallParticipant \<Rightarrow> groupCallDevice list \<Rightarrow> 'd prepare_state \<Rightarrow>
    rcv_error option \<times> 'd prepare_state" where
  "prepare_devices r participant [] ps = (None, ps)"
| "prepare_devices r participant (device # devices) ps =
     (case prepare_device r participant device ps of
        (Some e, ps) \<Rightarrow> (Some e, ps)
      | (None, ps) \<Rightarrow> prepare_devices r participant devices ps)"

fun prepare_participants :: "'d participantReceiveRegistry \<Rightarrow> groupCallParticipant list \<Rightarrow> 'd prepare_state \<Rightarrow>
    rcv_error option \<times> 'd prepare_state" where
  "prepare_participants r [] ps = (None, ps)"
| "prepare_participants r (participant # participants) ps =
     (if np_State participant \<noteq> ''connected'' then prepare_participants r participants ps
      else case prepare_devices r participant (np_Devices participant) ps of
        (Some e, ps) \<Rightarrow> (Some e, ps)
      | (None, ps) \<Rightarrow> prepare_participants r participants ps)"

text \<open>Without a connected remote device the fallback receiver stays.\<close>

definition keep_fallback :: "'d participantReceiveRegistry \<Rightarrow> 'd prepare_state \<Rightarrow> 'd prepare_state" where
  "keep_fallback r ps =
     (if ps_remote ps then ps
      else case map_of (rg_byDeviceID r) (rg_fallbackID r) of
        None \<Rightarrow> ps
      | Some a \<Rightarrow>
          let p = ps_prepared ps; fallback = ps_store ps ! a
          in ps\<lparr>ps_prepared := p\<lparr>pp_byDeviceID := AList.update (rg_fallbackID r) a (pp_byDeviceID p),
               pp_bySSRC := AList.update (pr_ssrc fallback) a (pp_bySSRC p),
               pp_byVideoSSRC := AList.update (pr_videoSSRC fallback) a (pp_byVideoSSRC p),
               pp_byAppDataSSRC := AList.update (pr_appDataSSRC fallback) a (pp_byAppDataSSRC p),
               pp_bySRTCPSSRC := fold (\<lambda>s. AList.update s a) (pr_streamSSRCs fallback) (pp_bySRTCPSSRC p)\<rparr>\<rparr>)"

text \<open>The loop over the pending epochs: those of the roster or before are consumed, the newest of them is kept.\<close>

fun newest_pending :: "u32 \<Rightarrow> (u32 \<times> bytes) list \<Rightarrow> u32 list \<Rightarrow> (u32 \<times> bytes) option \<Rightarrow> u32 list \<times> (u32 \<times> bytes) option" where
  "newest_pending txid [] consumed newest = (consumed, newest)"
| "newest_pending txid ((t, rawKey) # epochs) consumed newest =
     (if txid < t then newest_pending txid epochs consumed newest
      else newest_pending txid epochs (consumed @ [t])
        (case newest of None \<Rightarrow> Some (t, rawKey) | Some (t', k') \<Rightarrow> if t' < t then Some (t, rawKey) else Some (t', k')))"

text \<open>
  The epoch selected: the installed one or a newer pending one, with the flag to replace it. A pending epoch of the installed
  transaction with another key is an error.
\<close>

definition select_epoch :: "'d participantReceiveRegistry \<Rightarrow> (u32 \<times> bytes) option \<Rightarrow> rcv_error + (u32 \<times> bytes) option \<times> bool" where
  "select_epoch r newest =
     (let installed = rg_installedEpoch r;
          selected = (if rg_hasEpoch r then Some (ie_transactionID installed, ie_rawKey installed) else None)
      in case newest of
           None \<Rightarrow> Inr (selected, False)
         | Some (t, rawKey) \<Rightarrow>
             if \<not> rg_hasEpoch r \<or> ie_transactionID installed < t then Inr (Some (t, rawKey), True)
             else if t = ie_transactionID installed \<and> rawKey \<noteq> ie_rawKey installed then Inl (ConflictingEpoch t)
             else Inr (selected, False))"

definition clear_new :: "preparedParticipantReceiveUpdate \<Rightarrow> 'd participantAudioReceiver list \<Rightarrow> 'd participantAudioReceiver list" where
  "clear_new p st = fold (change_at clearParticipantReceiverKeys) (pp_newReceivers p) st"

definition prepareGroupUpdateLocked :: "groupCallUpdate \<Rightarrow> 'd participantReceiveRegistry \<Rightarrow>
    (rcv_error + preparedParticipantReceiveUpdate) \<times> 'd participantAudioReceiver list" where
  "prepareGroupUpdateLocked update r =
     (let empty = \<lparr>pp_transactionID = nu_TransactionID update, pp_byDeviceID = [], pp_byPID = [], pp_bySSRC = [], pp_byVideoSSRC = [],
            pp_byAppDataSSRC = [], pp_bySRTCPSSRC = [], pp_metadata = [], pp_newReceivers = [], pp_consumed = [], pp_epoch = None,
            pp_epochTransactionID = 0, pp_epochRawKey = [], pp_replaceInstalledEpoch = False\<rparr>
      in case prepare_participants r (nu_Participants update) \<lparr>ps_prepared = empty, ps_remote = False, ps_store = rg_store r\<rparr> of
           (Some e, ps) \<Rightarrow> (Inl e, clear_new (ps_prepared ps) (ps_store ps))
         | (None, ps) \<Rightarrow>
             let ps = keep_fallback r ps;
                 (consumed, newest) = newest_pending (nu_TransactionID update) (rg_pendingEpochs r) [] None;
                 p = (ps_prepared ps)\<lparr>pp_consumed := consumed\<rparr>
             in case select_epoch r newest of
                  Inl e \<Rightarrow> (Inl e, clear_new p (ps_store ps))
                | Inr (None, replace) \<Rightarrow> (Inr (p\<lparr>pp_replaceInstalledEpoch := replace\<rparr>), ps_store ps)
                | Inr (Some (t, rawKey), replace) \<Rightarrow>
                    (case prepareGroupRawEpochLocked rawKey (pp_byDeviceID p) (ps_store ps) r of
                       Inl e \<Rightarrow> (Inl e, clear_new p (ps_store ps))
                     | Inr epoch \<Rightarrow>
                         (Inr (p\<lparr>pp_replaceInstalledEpoch := replace, pp_epoch := Some epoch, pp_epochTransactionID := t,
                            pp_epochRawKey := rawKey\<rparr>), ps_store ps)))"

section \<open>Committing an update\<close>

definition installPreparedGroupRawEpochLocked :: "preparedGroupRawEpoch \<Rightarrow> 'd participantReceiveRegistry \<Rightarrow> 'd participantReceiveRegistry" where
  "installPreparedGroupRawEpochLocked prepared r =
     r\<lparr>rg_sendPipes := map (installSendKeys (ge_sendKeys prepared)) (rg_sendPipes r),
       rg_srtcpSenders := map (ss_installKeys (ge_sendRTCPKeys prepared)) (rg_srtcpSenders r),
       rg_store := fold (\<lambda>(a, keys). change_at (\<lambda>receiver.
           receiver\<lparr>pr_pipe := installRecvKeysPreservingROC keys (pr_pipe receiver),
             pr_videoPipe := installRecvKeysPreservingROC keys (pr_videoPipe receiver),
             pr_appDataPipe := installRecvKeysPreservingROC keys (pr_appDataPipe receiver),
             pr_srtcp := sr_installKeys (case map_of (ge_receiveRTCPKeys prepared) a of None \<Rightarrow> zero_keys | Some k \<Rightarrow> k) (pr_srtcp receiver)\<rparr>) a)
         (ge_receiveKeys prepared) (rg_store r)\<rparr>"

definition set_metadata :: "participantReceiverMetadata \<Rightarrow> 'd participantAudioReceiver list \<Rightarrow> 'd participantAudioReceiver list" where
  "set_metadata m st = change_at (\<lambda>receiver. receiver\<lparr>pr_userJID := md_userJID m, pr_deviceJID := md_deviceJID m,
     pr_pid := md_pid m, pr_hasPID := True\<rparr>) (md_receiver m) st"

definition commitGroupUpdateLocked :: "preparedParticipantReceiveUpdate \<Rightarrow> 'd participantReceiveRegistry \<Rightarrow> 'd participantReceiveRegistry" where
  "commitGroupUpdateLocked prepared r =
     (let st = fold (\<lambda>(participantID, a) st. if map_of (pp_byDeviceID prepared) participantID \<noteq> Some a
            then change_at clearParticipantReceiverKeys a st else st) (rg_byDeviceID r) (rg_store r);
          st = fold set_metadata (pp_metadata prepared) st;
          r = r\<lparr>rg_store := st, rg_byDeviceID := pp_byDeviceID prepared, rg_byPID := pp_byPID prepared, rg_bySSRC := pp_bySSRC prepared,
            rg_byVideoSSRC := pp_byVideoSSRC prepared, rg_byAppDataSSRC := pp_byAppDataSSRC prepared,
            rg_bySRTCPSSRC := pp_bySRTCPSSRC prepared, rg_transactionID := pp_transactionID prepared,
            rg_rosterGeneration := rg_rosterGeneration r + 1, rg_hasGroupUpdate := True\<rparr>;
          r = (case pp_epoch prepared of
                 None \<Rightarrow> r
               | Some epoch \<Rightarrow>
                   let r = installPreparedGroupRawEpochLocked epoch r
                   in if pp_replaceInstalledEpoch prepared
                      then r\<lparr>rg_installedEpoch := \<lparr>ie_transactionID = pp_epochTransactionID prepared, ie_rawKey = pp_epochRawKey prepared\<rparr>,
                        rg_hasEpoch := True\<rparr>
                      else r)
      in r\<lparr>rg_pendingEpochs := fold AList.delete (pp_consumed prepared) (rg_pendingEpochs r)\<rparr>)"

text \<open>
  The callback runs under the lock and acts on the registry through \<open>commit\<close> only: it is the number of its calls
  to \<open>commit\<close> and whether it fails.
\<close>

definition ApplyGroupUpdateTransaction :: "groupCallUpdate \<Rightarrow> (nat \<times> bool) option \<Rightarrow> 'd participantReceiveRegistry \<Rightarrow>
    rcv_error option \<times> 'd participantReceiveRegistry" where
  "ApplyGroupUpdateTransaction update callback r =
     (case callback of
        None \<Rightarrow> (Some NilApply, r)
      | Some (commitCalls, failed) \<Rightarrow>
          if rg_hasGroupUpdate r \<and> nu_TransactionID update \<le> rg_transactionID r then (None, r)
          else case prepareGroupUpdateLocked update r of
            (Inl e, st) \<Rightarrow> (Some e, r\<lparr>rg_store := st\<rparr>)
          | (Inr prepared, st) \<Rightarrow>
              let committed = (0 < commitCalls);
                  r = r\<lparr>rg_store := st\<rparr>;
                  r = (if committed then commitGroupUpdateLocked prepared r else r);
                  r = (if committed then r else r\<lparr>rg_store := clear_new prepared (rg_store r)\<rparr>)
              in (if committed then None else Some (if failed then ApplyFailed else NoCommit), r))"

definition ApplyGroupUpdate :: "groupCallUpdate \<Rightarrow> 'd participantReceiveRegistry \<Rightarrow> rcv_error option \<times> 'd participantReceiveRegistry" where
  "ApplyGroupUpdate update r = ApplyGroupUpdateTransaction update (Some (1, False)) r"

definition reg_clear :: "'d participantReceiveRegistry \<Rightarrow> 'd participantReceiveRegistry" where
  "reg_clear r =
     r\<lparr>rg_store := fold (\<lambda>(_, a). change_at clearParticipantReceiverKeys a) (rg_byDeviceID r) (rg_store r), rg_callKey := [],
       rg_installedEpoch := \<lparr>ie_transactionID = 0, ie_rawKey = []\<rparr>, rg_hasEpoch := False, rg_pendingEpochs := [], rg_byDeviceID := [],
       rg_byPID := [], rg_bySSRC := [], rg_byVideoSSRC := [], rg_byAppDataSSRC := [], rg_bySRTCPSSRC := [],
       rg_sendPipes := [], rg_srtcpSenders := []\<rparr>"

definition HasCommittedGroupUpdate :: "'d participantReceiveRegistry \<Rightarrow> bool" where
  "HasCommittedGroupUpdate r = rg_hasGroupUpdate r"

section \<open>Key epochs and senders\<close>

definition attachSendPipeline :: "MediaPipeline option \<Rightarrow> 'd participantReceiveRegistry \<Rightarrow> rcv_error option \<times> 'd participantReceiveRegistry" where
  "attachSendPipeline sendPipe r =
     (case sendPipe of
        None \<Rightarrow> (Some NilPipe, r)
      | Some pipe \<Rightarrow>
          if rg_hasEpoch r then
            (case DeriveE2eKeysFromRaw (ie_rawKey (rg_installedEpoch r)) (rg_selfID r) of
               Inl e \<Rightarrow> (Some (PipeErr e), r)
             | Inr keys \<Rightarrow> (None, r\<lparr>rg_sendPipes := rg_sendPipes r @ [installSendKeys keys pipe]\<rparr>))
          else (None, r\<lparr>rg_sendPipes := rg_sendPipes r @ [pipe]\<rparr>))"

definition attachSRTCPSender :: "mediaSrtcpSender option \<Rightarrow> 'd participantReceiveRegistry \<Rightarrow> rcv_error option \<times> 'd participantReceiveRegistry" where
  "attachSRTCPSender sender r =
     (case sender of
        None \<Rightarrow> (Some NilPipe, r)
      | Some s \<Rightarrow>
          if rg_hasEpoch r then
            (case DeriveE2eSRTCPKeysFromRaw (ie_rawKey (rg_installedEpoch r)) (rg_selfID r) of
               Inl e \<Rightarrow> (Some (PipeErr e), r)
             | Inr keys \<Rightarrow> (None, r\<lparr>rg_srtcpSenders := rg_srtcpSenders r @ [ss_installKeys keys s]\<rparr>))
          else (None, r\<lparr>rg_srtcpSenders := rg_srtcpSenders r @ [s]\<rparr>))"

definition installGroupRawEpochLocked :: "bytes \<Rightarrow> 'd participantReceiveRegistry \<Rightarrow> rcv_error + 'd participantReceiveRegistry" where
  "installGroupRawEpochLocked rawKey r =
     bindE (prepareGroupRawEpochLocked rawKey (rg_byDeviceID r) (rg_store r) r) (\<lambda>prepared.
       Inr (installPreparedGroupRawEpochLocked prepared r))"

definition applyGroupRawEpochLocked :: "u32 \<Rightarrow> bytes \<Rightarrow> 'd participantReceiveRegistry \<Rightarrow> rcv_error option \<times> 'd participantReceiveRegistry" where
  "applyGroupRawEpochLocked transactionID rawKey r =
     (if rg_hasEpoch r \<and> transactionID < ie_transactionID (rg_installedEpoch r) then (None, r)
      else if rg_hasEpoch r \<and> transactionID = ie_transactionID (rg_installedEpoch r) then
        (if ie_rawKey (rg_installedEpoch r) = rawKey then (None, r) else (Some (ConflictingEpoch transactionID), r))
      else case installGroupRawEpochLocked rawKey r of
        Inl e \<Rightarrow> (Some e, r)
      | Inr r \<Rightarrow> (None, r\<lparr>rg_installedEpoch := \<lparr>ie_transactionID = transactionID, ie_rawKey = rawKey\<rparr>, rg_hasEpoch := True\<rparr>))"

definition ApplyGroupRawEpoch :: "u32 \<Rightarrow> bytes \<Rightarrow> 'd participantReceiveRegistry \<Rightarrow> rcv_error option \<times> 'd participantReceiveRegistry" where
  "ApplyGroupRawEpoch transactionID rawKey r =
     (if length rawKey \<noteq> 32 then (Some (BadEpochLen (length rawKey)), r)
      else if \<not> rg_hasGroupUpdate r \<or> rg_transactionID r < transactionID then
        (case map_of (rg_pendingEpochs r) transactionID of
           Some existing \<Rightarrow> if existing = rawKey then (None, r) else (Some (ConflictingEpoch transactionID), r)
         | None \<Rightarrow> (None, r\<lparr>rg_pendingEpochs := AList.update transactionID rawKey (rg_pendingEpochs r)\<rparr>))
      else applyGroupRawEpochLocked transactionID rawKey r)"

definition RekeyFallback :: "string \<Rightarrow> 'd participantReceiveRegistry \<Rightarrow> rcv_error option \<times> 'd participantReceiveRegistry" where
  "RekeyFallback peerLID r =
     (case ParseJID peerLID of
        (_, Some e) \<Rightarrow> (Some (BadPeer e), r)
      | (peerJID, None) \<Rightarrow>
          let participantID = FormatE2ESrtpParticipantID (String peerJID) in
          if rg_hasGroupUpdate r then
            (if map_of (rg_byDeviceID r) participantID \<noteq> None then (None, r\<lparr>rg_fallbackID := participantID\<rparr>) else (Some NotInRoster, r))
          else case newReceiver r (ToNonAD peerJID) peerJID 0 False of
            Inl e \<Rightarrow> (Some e, r)
          | Inr receiver \<Rightarrow>
              let a = length (rg_store r) in
              (None, r\<lparr>rg_store := rg_store r @ [receiver], rg_byDeviceID := [(participantID, a)], rg_bySSRC := [(pr_ssrc receiver, a)],
                rg_byVideoSSRC := [(pr_videoSSRC receiver, a)], rg_byAppDataSSRC := [(pr_appDataSSRC receiver, a)],
                rg_bySRTCPSSRC := fold (\<lambda>s. AList.update s a) (pr_streamSSRCs receiver) [], rg_byPID := [],
                rg_fallbackID := participantID, rg_rosterGeneration := rg_rosterGeneration r + 1\<rparr>))"

section \<open>Incoming media\<close>

record unprotectedParticipantMedia =
  um_ParticipantID :: string
  um_UserJID :: JID
  um_DeviceJID :: JID
  um_PID :: u32
  um_HasPID :: bool
  um_Header :: RtpHeader
  um_Payload :: bytes
  um_receiver :: nat

definition unprotectedMedia :: "nat \<Rightarrow> 'd participantAudioReceiver \<Rightarrow> RtpHeader \<Rightarrow> bytes \<Rightarrow> unprotectedParticipantMedia" where
  "unprotectedMedia a r header payload =
     \<lparr>um_ParticipantID = pr_participantID r, um_UserJID = pr_userJID r, um_DeviceJID = pr_deviceJID r, um_PID = pr_pid r,
      um_HasPID = pr_hasPID r, um_Header = header, um_Payload = payload, um_receiver = a\<rparr>"

definition UnprotectVideo :: "bytes \<Rightarrow> 'd participantReceiveRegistry \<Rightarrow> unprotectedParticipantMedia option \<times> 'd participantReceiveRegistry" where
  "UnprotectVideo packet r =
     (case ParseRtpHeader packet of
        None \<Rightarrow> (None, r)
      | Some header \<Rightarrow>
        (case map_of (rg_byVideoSSRC r) (Ssrc header) of
           None \<Rightarrow> (None, r)
         | Some a \<Rightarrow>
             let receiver = rg_store r ! a; (result, pipe) = UnprotectAudio packet (pr_videoPipe receiver);
                 r = r\<lparr>rg_store := (rg_store r)[a := receiver\<lparr>pr_videoPipe := pipe\<rparr>]\<rparr>
             in case result of
                  None \<Rightarrow> (None, r)
                | Some (authenticatedHeader, payload) \<Rightarrow> (Some (unprotectedMedia a receiver authenticatedHeader payload), r)))"

definition UnprotectAppData :: "bytes \<Rightarrow> 'd participantReceiveRegistry \<Rightarrow> unprotectedParticipantMedia option \<times> 'd participantReceiveRegistry" where
  "UnprotectAppData packet r =
     (case ParseRtpHeader packet of
        None \<Rightarrow> (None, r)
      | Some header \<Rightarrow>
        (case map_of (rg_byAppDataSSRC r) (Ssrc header) of
           None \<Rightarrow> (None, r)
         | Some a \<Rightarrow>
             let receiver = rg_store r ! a; (result, pipe) = UnprotectAudio packet (pr_appDataPipe receiver);
                 r = r\<lparr>rg_store := (rg_store r)[a := receiver\<lparr>pr_appDataPipe := pipe\<rparr>]\<rparr>
             in case result of
                  None \<Rightarrow> (None, r)
                | Some (authenticatedHeader, payload) \<Rightarrow> (Some (unprotectedMedia a receiver authenticatedHeader payload), r)))"

definition reg_UnprotectSRTCP :: "u32 \<Rightarrow> bytes \<Rightarrow> 'd participantReceiveRegistry \<Rightarrow> (bytes \<times> u32) option" where
  "reg_UnprotectSRTCP senderSSRC packet r =
     (case map_of (rg_bySRTCPSSRC r) senderSSRC of
        None \<Rightarrow> None
      | Some a \<Rightarrow> sr_unprotect senderSSRC packet (pr_srtcp (rg_store r ! a)))"

record 'p decodedParticipantAudio =
  da_ParticipantID :: string
  da_UserJID :: JID
  da_DeviceJID :: JID
  da_PID :: u32
  da_HasPID :: bool
  da_SSRC :: u32
  da_Timestamp :: u32
  da_PCM :: 'p

text \<open>The decoder is an argument: it takes a payload and its state.\<close>

definition DecodeAudio :: "(bytes \<Rightarrow> 'd \<Rightarrow> 'p \<times> 'd) \<Rightarrow> bytes \<Rightarrow> 'd participantReceiveRegistry \<Rightarrow>
    'p decodedParticipantAudio option \<times> 'd participantReceiveRegistry" where
  "DecodeAudio decode packet r =
     (case ParseRtpHeader packet of
        None \<Rightarrow> (None, r)
      | Some header \<Rightarrow>
        (case map_of (rg_bySSRC r) (Ssrc header) of
           None \<Rightarrow> (None, r)
         | Some a \<Rightarrow>
             let receiver = rg_store r ! a; (result, pipe) = UnprotectAudio packet (pr_pipe receiver);
                 receiver = receiver\<lparr>pr_pipe := pipe\<rparr>
             in case result of
                  None \<Rightarrow> (None, r\<lparr>rg_store := (rg_store r)[a := receiver]\<rparr>)
                | Some (authenticatedHeader, payload) \<Rightarrow>
                    let (pcm, d) = decode payload (pr_decoder receiver)
                    in (Some \<lparr>da_ParticipantID = pr_participantID receiver, da_UserJID = pr_userJID receiver,
                          da_DeviceJID = pr_deviceJID receiver, da_PID = pr_pid receiver, da_HasPID = pr_hasPID receiver,
                          da_SSRC = Ssrc authenticatedHeader, da_Timestamp = Timestamp authenticatedHeader, da_PCM = pcm\<rparr>,
                        r\<lparr>rg_store := (rg_store r)[a := receiver\<lparr>pr_decoder := d\<rparr>]\<rparr>)))"

definition ActiveParticipantIDs :: "'d participantReceiveRegistry \<Rightarrow> string list" where
  "ActiveParticipantIDs r = sort (map fst (rg_byDeviceID r))"

definition ActiveReceiverSnapshot :: "'d participantReceiveRegistry \<Rightarrow> u64 \<times> nat set" where
  "ActiveReceiverSnapshot r = (rg_rosterGeneration r, snd ` set (rg_byDeviceID r))"

definition ActiveAudioSSRCs :: "'d participantReceiveRegistry \<Rightarrow> u32 list" where
  "ActiveAudioSSRCs r = sort (map fst (rg_bySSRC r))"

definition ActiveVideoSSRCs :: "'d participantReceiveRegistry \<Rightarrow> u32 list" where
  "ActiveVideoSSRCs r = sort (map fst (rg_byVideoSSRC r))"

end
