(* ===== verification/GroupMedia.thy ===== *)
theory GroupMedia
  imports GroupReceive
begin

text \<open>
  What the receive registry keeps true: its indexes agree, every active participant is keyed with the current epoch, and the epochs
  installed and waiting are those of the rosters and keys received so far, in whatever order they came.
\<close>

section \<open>Receivers\<close>

definition ident :: "'d participantAudioReceiver \<Rightarrow> string \<times> u32 \<times> u32 list \<times> u32 \<times> u32" where
  "ident rcv = (pr_participantID rcv, pr_ssrc rcv, pr_streamSSRCs rcv, pr_videoSSRC rcv, pr_appDataSSRC rcv)"

definition pipes :: "'d participantAudioReceiver \<Rightarrow> MediaPipeline list" where
  "pipes rcv = [pr_pipe rcv, pr_videoPipe rcv, pr_appDataPipe rcv]"

definition derived :: "string \<Rightarrow> 'd participantAudioReceiver \<Rightarrow> bool" where
  "derived callID rcv \<longleftrightarrow>
     DeriveWasmRelayStreamSsrcs callID (pr_participantID rcv) = Inr (pr_streamSSRCs rcv) \<and> pr_ssrc rcv = pr_streamSSRCs rcv ! 0 \<and>
     DeriveWasmParticipantSsrc callID (pr_participantID rcv) VideoSlotWord = Inr (pr_videoSSRC rcv) \<and>
     DeriveWasmParticipantSsrc callID (pr_participantID rcv) AppDataSlotWord = Inr (pr_appDataSSRC rcv) \<and>
     (\<forall>p\<in>set (pipes rcv). warpMITagLen p = WarpMITagLen)"

definition keyed_by :: "(string \<Rightarrow> srtp_error + E2eSrtpKeys) \<Rightarrow> (string \<Rightarrow> srtp_error + E2eSrtpKeys) \<Rightarrow> 'd participantAudioReceiver \<Rightarrow> bool" where
  "keyed_by rtp rtcp rcv \<longleftrightarrow> (\<forall>p\<in>set (pipes rcv). rtp (pr_participantID rcv) = Inr (recvKeys p)) \<and>
     rtcp (pr_participantID rcv) = Inr (sr_keys (pr_srtcp rcv))"

lemma map_sum_Inr [simp]: "map_sum f id m = Inr x \<longleftrightarrow> m = Inr x"
  by (cases m) auto

lemma newReceiver_ok:
  assumes "newReceiver r u d pid has = Inr rcv"
  shows "derived (rg_callID r) rcv" and "pr_participantID rcv = FormatE2ESrtpParticipantID (String d)"
    and "keyed_by (DeriveE2eKeys (rg_callKey r)) (DeriveE2eSrtcpKeys (rg_callKey r)) rcv"
  using assms
  by (auto simp: newReceiver_def Let_def bindE_Inr_conv NewMediaPipeline_def newMediaSrtcpReceiver_def derived_def keyed_by_def pipes_def)

lemma newReceiver_total:
  assumes "32 \<le> length (rg_callKey r)"
  shows "\<exists>rcv. newReceiver r u d pid has = Inr rcv"
proof -
  let ?id = "FormatE2ESrtpParticipantID (String d)"
  obtain ss where "DeriveWasmRelayStreamSsrcs (rg_callID r) ?id = Inr ss" using relay_streams by blast
  moreover obtain v a where "DeriveWasmParticipantSsrc (rg_callID r) ?id VideoSlotWord = Inr v"
    "DeriveWasmParticipantSsrc (rg_callID r) ?id AppDataSlotWord = Inr a" using DeriveWasmParticipantSsrc_total by blast
  moreover have pipe: "\<exists>p. NewMediaPipeline (rg_callKey r) (rg_selfLID r) (String d) ssrc n = Inr p" for ssrc n
    by (rule NewMediaPipeline_total [OF assms, of "rg_selfLID r" "String d" ssrc n]) blast
  obtain p1 p2 p3 where "NewMediaPipeline (rg_callKey r) (rg_selfLID r) (String d) (ss ! 0) (word_of_nat FrameSamples) = Inr p1"
    "NewMediaPipeline (rg_callKey r) (rg_selfLID r) (String d) v (word_of_nat FrameSamples) = Inr p2"
    "NewMediaPipeline (rg_callKey r) (rg_selfLID r) (String d) a (word_of_nat FrameSamples) = Inr p3" using pipe by meson
  moreover obtain k where "DeriveE2eSrtcpKeys (rg_callKey r) ?id = Inr k"
    using derive_keys_total [of "rg_callKey r" ?id "[]"] assms by auto
  ultimately show ?thesis by (simp add: newReceiver_def newMediaSrtcpReceiver_def Let_def)
qed

section \<open>Changes to the store\<close>

lemma change_at_simps [simp]:
  "length (change_at f a st) = length st"
  "b \<noteq> a \<Longrightarrow> change_at f a st ! b = st ! b"
  "a < length st \<Longrightarrow> change_at f a st ! a = f (st ! a)"
  by (simp_all add: change_at_def)

lemma change_at_view: "(\<And>x. g (f x) = g x) \<Longrightarrow> map g (change_at f a st) = map g st"
  by (cases "a < length st") (simp_all add: change_at_def map_update list_update_same_conv list_update_beyond)

lemma fold_view: "(\<And>x st. map g (h x st) = map g st) \<Longrightarrow> map g (fold h xs st) = map g st"
  by (induction xs arbitrary: st) simp_all

lemma fold_if_other:
  assumes "\<forall>(i, a) \<in> set xs. P i a \<longrightarrow> a \<noteq> b"
  shows "fold (\<lambda>(i, a) st. if P i a then change_at f a st else st) xs st ! b = st ! b"
  using assms by (induction xs arbitrary: st) (auto split: prod.split)

lemma fold_change_at:
  assumes "distinct (map fst xs)" "b < length st"
  shows "fold (\<lambda>(a, k). change_at (f a k) a) xs st ! b = (case map_of xs b of None \<Rightarrow> st ! b | Some k \<Rightarrow> f b k (st ! b))"
  using assms
proof (induction xs arbitrary: st)
  case (Cons x xs)
  obtain a k where x: "x = (a, k)" by fastforce
  with Cons show ?case by (auto simp: map_of_eq_None_iff image_iff split: option.split)
qed simp

lemma ident_keeps [simp]:
  "ident (clearParticipantReceiverKeys x) = ident x" 
  "ident (x\<lparr>pr_userJID := u, pr_deviceJID := d, pr_pid := p, pr_hasPID := h\<rparr>) = ident x"
  "ident (x\<lparr>pr_pipe := p1, pr_videoPipe := p2, pr_appDataPipe := p3, pr_srtcp := s\<rparr>) = ident x"
  "ident (x\<lparr>pr_pipe := p1\<rparr>) = ident x" "ident (x\<lparr>pr_videoPipe := p1\<rparr>) = ident x" "ident (x\<lparr>pr_appDataPipe := p1\<rparr>) = ident x"
  "ident (x\<lparr>pr_decoder := dd\<rparr>) = ident x"
  by (simp_all add: ident_def clearParticipantReceiverKeys_def)

section \<open>Indexes\<close>

text \<open>An index lists the receivers at the addresses \<open>A\<close> under the names \<open>g\<close> gives them.\<close>

definition names :: "('d participantAudioReceiver \<Rightarrow> u32 set) \<Rightarrow> 'd participantAudioReceiver list \<Rightarrow> nat set \<Rightarrow> (u32 \<times> nat) list \<Rightarrow> bool" where
  "names g st A m \<longleftrightarrow> (\<forall>s a. map_of m s = Some a \<longleftrightarrow> a \<in> A \<and> s \<in> g (st ! a))"

lemma names_empty [simp]: "names g st {} []"
  by (simp add: names_def)

lemma names_view: "names g st A m \<Longrightarrow> (\<And>a. a \<in> A \<Longrightarrow> g (st' ! a) = g (st ! a)) \<Longrightarrow> names g st' A m"
  by (auto simp: names_def)

lemma names_add:
  assumes "names g st A m" "\<forall>s\<in>g (st ! a). map_of m s = None" "\<forall>s. map_of m' s = (if s \<in> g (st ! a) then Some a else map_of m s)"
  shows "names g st (insert a A) m'"
  unfolding names_def
proof (intro allI)
  fix s b
  show "map_of m' s = Some b \<longleftrightarrow> b \<in> insert a A \<and> s \<in> g (st ! b)"
    using assms unfolding names_def by (cases "s \<in> g (st ! a)") force+
qed

abbreviation "ssrcs_of \<equiv> \<lambda>rcv. {pr_ssrc rcv}"
abbreviation "videos_of \<equiv> \<lambda>rcv. {pr_videoSSRC rcv}"
abbreviation "apps_of \<equiv> \<lambda>rcv. {pr_appDataSSRC rcv}"
abbreviation "streams_of \<equiv> \<lambda>rcv. set (pr_streamSSRCs rcv)"

definition indexed :: "'d participantAudioReceiver list \<Rightarrow> (string \<times> nat) list \<Rightarrow> (u32 \<times> nat) list \<Rightarrow> (u32 \<times> nat) list \<Rightarrow>
    (u32 \<times> nat) list \<Rightarrow> (u32 \<times> nat) list \<Rightarrow> bool" where
  "indexed st dev ssrc vid app srtcp \<longleftrightarrow>
     distinct (map fst dev) \<and> (\<forall>(i, a) \<in> set dev. a < length st \<and> pr_participantID (st ! a) = i) \<and>
     names ssrcs_of st (snd ` set dev) ssrc \<and> names videos_of st (snd ` set dev) vid \<and> names apps_of st (snd ` set dev) app \<and>
     names streams_of st (snd ` set dev) srtcp"

lemma indexed_empty [simp]: "indexed st [] [] [] [] []"
  by (simp add: indexed_def)

lemma indexedD:
  assumes "indexed st dev ssrc vid app srtcp"
  shows "distinct (map fst dev)" "(i, a) \<in> set dev \<Longrightarrow> a < length st" "(i, a) \<in> set dev \<Longrightarrow> pr_participantID (st ! a) = i"
    "a \<in> snd ` set dev \<Longrightarrow> (pr_participantID (st ! a), a) \<in> set dev" "a \<in> snd ` set dev \<Longrightarrow> a < length st"
  using assms by (auto simp: indexed_def)

lemma indexed_view:
  fixes st st' :: "'d participantAudioReceiver list"
  assumes "indexed st dev ssrc vid app srtcp" "\<And>a. a \<in> snd ` set dev \<Longrightarrow> a < length st' \<and> ident (st' ! a) = ident (st ! a)"
  shows "indexed st' dev ssrc vid app srtcp"
proof -
  have eq: "pr_participantID (st' ! a) = pr_participantID (st ! a)" "pr_ssrc (st' ! a) = pr_ssrc (st ! a)"
    "pr_videoSSRC (st' ! a) = pr_videoSSRC (st ! a)" "pr_appDataSSRC (st' ! a) = pr_appDataSSRC (st ! a)"
    "pr_streamSSRCs (st' ! a) = pr_streamSSRCs (st ! a)" if "a \<in> snd ` set dev" for a
    using assms(2) [OF that] by (simp_all add: ident_def)
  have "a < length st' \<and> pr_participantID (st' ! a) = i" if "(i, a) \<in> set dev" for i a
    using assms(2) [of a] eq(1) [of a] indexedD(3) [OF assms(1) that] that by force
  then show ?thesis
    using assms(1) eq names_view [of ssrcs_of st "snd ` set dev" ssrc st'] names_view [of videos_of st "snd ` set dev" vid st']
      names_view [of apps_of st "snd ` set dev" app st'] names_view [of streams_of st "snd ` set dev" srtcp st']
    unfolding indexed_def by auto
qed

lemma indexed_same:
  fixes st st' :: "'d participantAudioReceiver list"
  assumes "indexed st dev ssrc vid app srtcp" "map ident st' = map ident st"
  shows "indexed st' dev ssrc vid app srtcp"
proof (rule indexed_view [OF assms(1)])
  fix a assume "a \<in> snd ` set dev"
  then have "a < length st" by (rule indexedD(5) [OF assms(1)])
  then show "a < length st' \<and> ident (st' ! a) = ident (st ! a)"
    using assms(2) by (metis length_map nth_map)
qed

lemma update_new: "map_of xs k = None \<Longrightarrow> AList.update k v xs = xs @ [(k, v)]"
  by (induction xs) (auto split: if_splits)

lemma map_of_update: "map_of (AList.update k v xs) k' = (if k' = k then Some v else map_of xs k')"
  by (simp add: AList.update_conv')

lemma indexed_add:
  assumes "indexed st dev ssrc vid app srtcp" "a < length st" "map_of dev (pr_participantID (st ! a)) = None"
    "map_of ssrc (pr_ssrc (st ! a)) = None" "map_of vid (pr_videoSSRC (st ! a)) = None" "map_of app (pr_appDataSSRC (st ! a)) = None"
    "\<forall>s\<in>set (pr_streamSSRCs (st ! a)). map_of srtcp s = None"
    "\<forall>s. map_of srtcp' s = (if s \<in> set (pr_streamSSRCs (st ! a)) then Some a else map_of srtcp s)"
  shows "indexed st (AList.update (pr_participantID (st ! a)) a dev) (AList.update (pr_ssrc (st ! a)) a ssrc)
    (AList.update (pr_videoSSRC (st ! a)) a vid) (AList.update (pr_appDataSSRC (st ! a)) a app) srtcp'"
proof -
  let ?dev = "AList.update (pr_participantID (st ! a)) a dev"
  have dev: "?dev = dev @ [(pr_participantID (st ! a), a)]" using assms(3) by (rule update_new)
  then have set: "snd ` set ?dev = insert a (snd ` set dev)" by simp
  have "distinct (map fst ?dev)" "\<forall>(i, b) \<in> set ?dev. b < length st \<and> pr_participantID (st ! b) = i"
    using assms(1-3) by (auto simp: dev indexed_def map_of_eq_None_iff)
  then show ?thesis
    using assms(1,4-) unfolding indexed_def set by (auto simp: map_of_update intro!: names_add)
qed


section \<open>Preparing an update\<close>

lemma add_streams_map:
  assumes "add_streams ss a m = Inr m'"
  shows "(\<forall>s\<in>set ss. map_of m s = None) \<and> (\<forall>s. map_of m' s = (if s \<in> set ss then Some a else map_of m s))"
  using assms
proof (induction ss arbitrary: m)
  case (Cons s ss)
  then have n: "map_of m s = None" and step: "add_streams ss a (AList.update s a m) = Inr m'" by (auto split: if_splits)
  from Cons.IH [OF step] n show ?case by (simp add: map_of_update) (metis option.distinct(1))
qed simp

lemma fold_update_map: "map_of (fold (\<lambda>s. AList.update s a) ss m) s = (if s \<in> set ss then Some a else map_of m s)"
  by (induction ss arbitrary: m) (auto simp: map_of_update)

definition call_keyed :: "'d participantReceiveRegistry \<Rightarrow> 'd participantAudioReceiver \<Rightarrow> bool" where
  "call_keyed r = keyed_by (DeriveE2eKeys (rg_callKey r)) (DeriveE2eSrtcpKeys (rg_callKey r))"

text \<open>
  What preparation keeps: the store of the registry grows only at its end, by receivers keyed with the call key, and the prepared
  indexes agree on receivers that are active or new.
\<close>

definition prep_ok :: "u32 \<Rightarrow> 'd participantReceiveRegistry \<Rightarrow> 'd prepare_state \<Rightarrow> bool" where
  "prep_ok t r ps \<longleftrightarrow>
     (let p = ps_prepared ps; st = ps_store ps; n = length (rg_store r) in
      pp_transactionID p = t \<and> pp_epoch p = None \<and>
      n \<le> length st \<and> take n st = rg_store r \<and> (\<forall>rcv\<in>set st. derived (rg_callID r) rcv) \<and> (\<forall>rcv\<in>set (drop n st). call_keyed r rcv) \<and>
      indexed st (pp_byDeviceID p) (pp_bySSRC p) (pp_byVideoSSRC p) (pp_byAppDataSSRC p) (pp_bySRTCPSSRC p) \<and>
      (\<forall>(i, a) \<in> set (pp_byDeviceID p). map_of (rg_byDeviceID r) i = Some a \<or> n \<le> a) \<and>
      (\<forall>a\<in>set (pp_newReceivers p). n \<le> a) \<and>
      (ps_remote ps \<or> pp_byDeviceID p = [] \<and> pp_bySSRC p = [] \<and> pp_byVideoSSRC p = [] \<and> pp_byAppDataSSRC p = [] \<and> pp_bySRTCPSSRC p = []))"

abbreviation "reg_indexed r \<equiv> indexed (rg_store r) (rg_byDeviceID r) (rg_bySSRC r) (rg_byVideoSSRC r) (rg_byAppDataSSRC r) (rg_bySRTCPSSRC r)"

lemma prep_ok_remote [simp]: "prep_ok t r ps \<Longrightarrow> prep_ok t r (ps\<lparr>ps_remote := True\<rparr>)"
  by (simp add: prep_ok_def Let_def)

lemma find_receiver_ok:
  assumes "prep_ok t r ps" "reg_indexed r" "ps_remote ps"
    "find_receiver r participant device (FormatE2ESrtpParticipantID (String (nd_JID device))) ps = Inr (a, ps')"
  shows "prep_ok t r ps'" and "a < length (ps_store ps')"
    and "pr_participantID (ps_store ps' ! a) = FormatE2ESrtpParticipantID (String (nd_JID device))"
    and "map_of (rg_byDeviceID r) (FormatE2ESrtpParticipantID (String (nd_JID device))) = Some a \<or> length (rg_store r) \<le> a"
    and "pp_byDeviceID (ps_prepared ps') = pp_byDeviceID (ps_prepared ps)" and "ps_remote ps'"
proof -
  let ?id = "FormatE2ESrtpParticipantID (String (nd_JID device))"
  have "prep_ok t r ps' \<and> a < length (ps_store ps') \<and> pr_participantID (ps_store ps' ! a) = ?id \<and>
    (map_of (rg_byDeviceID r) ?id = Some a \<or> length (rg_store r) \<le> a) \<and> pp_byDeviceID (ps_prepared ps') = pp_byDeviceID (ps_prepared ps) \<and> ps_remote ps'"
  proof (cases "map_of (rg_byDeviceID r) ?id")
    case None
    then obtain rcv where rcv: "newReceiver r (np_JID participant) (nd_JID device) (nd_PID device) True = Inr rcv"
      and a: "a = length (ps_store ps)" and ps': "ps' = ps\<lparr>ps_store := ps_store ps @ [rcv],
        ps_prepared := (ps_prepared ps)\<lparr>pp_newReceivers := pp_newReceivers (ps_prepared ps) @ [a]\<rparr>\<rparr>"
      using assms(4) by (auto simp: find_receiver_def bindE_Inr_conv Let_def)
    note ok = newReceiver_ok [OF rcv]
    have "indexed (ps_store ps @ [rcv]) (pp_byDeviceID (ps_prepared ps)) (pp_bySSRC (ps_prepared ps)) (pp_byVideoSSRC (ps_prepared ps))
        (pp_byAppDataSSRC (ps_prepared ps)) (pp_bySRTCPSSRC (ps_prepared ps))"
    proof (rule indexed_view)
      show "indexed (ps_store ps) (pp_byDeviceID (ps_prepared ps)) (pp_bySSRC (ps_prepared ps)) (pp_byVideoSSRC (ps_prepared ps))
          (pp_byAppDataSSRC (ps_prepared ps)) (pp_bySRTCPSSRC (ps_prepared ps))" using assms(1) by (simp add: prep_ok_def Let_def)
      from indexedD(5) [OF this] show "b < length (ps_store ps @ [rcv]) \<and> ident ((ps_store ps @ [rcv]) ! b) = ident (ps_store ps ! b)"
        if "b \<in> snd ` set (pp_byDeviceID (ps_prepared ps))" for b using that by (auto simp: nth_append less_Suc_eq)
    qed
    then show ?thesis
      using assms(1,3) ok unfolding ps' a by (auto simp: prep_ok_def Let_def call_keyed_def)
  next
    case (Some b)
    then have ab: "a = b" "ps' = ps" using assms(4) by (auto simp: find_receiver_def)
    have "(?id, b) \<in> set (rg_byDeviceID r)" using Some by (rule map_of_SomeD)
    then have b: "b < length (rg_store r)" "pr_participantID (rg_store r ! b) = ?id" using indexedD [OF assms(2)] by blast+
    have n: "length (rg_store r) \<le> length (ps_store ps)" "take (length (rg_store r)) (ps_store ps) = rg_store r"
      using assms(1) by (simp_all add: prep_ok_def Let_def)
    then have "ps_store ps ! b = rg_store r ! b" using b(1) by (metis nth_take)
    then show ?thesis using assms(1,3) b n(1) Some by (simp add: ab)
  qed
  then show "prep_ok t r ps'" "a < length (ps_store ps')" "pr_participantID (ps_store ps' ! a) = ?id"
    "map_of (rg_byDeviceID r) ?id = Some a \<or> length (rg_store r) \<le> a"
    "pp_byDeviceID (ps_prepared ps') = pp_byDeviceID (ps_prepared ps)" "ps_remote ps'" by blast+
qed

lemma prepare_device_ok:
  assumes "prep_ok t r ps" "reg_indexed r"
  shows "prep_ok t r (snd (prepare_device r participant device ps))"
proof -
  let ?id = "FormatE2ESrtpParticipantID (String (nd_JID device))" and ?ps = "ps\<lparr>ps_remote := True\<rparr>"
  have ps: "prep_ok t r ?ps" using assms(1) by simp
  show ?thesis
  proof (cases "\<not> nd_HasPID device \<or> ?id = rg_selfID r \<or> map_of (pp_byDeviceID (ps_prepared ps)) ?id \<noteq> None")
    case True
    then show ?thesis using assms(1) ps by (auto simp: prepare_device_def Let_def)
  next
    case False
    show ?thesis
    proof (cases "find_receiver r participant device ?id ?ps")
      case (Inl e)
      then show ?thesis using False ps by (simp add: prepare_device_def Let_def)
    next
      case (Inr x)
      obtain a ps' where x: "x = (a, ps')" by fastforce
      note f = find_receiver_ok [OF ps assms(2) _ Inr [unfolded x], simplified]
      let ?p = "ps_prepared ps'" and ?rcv = "ps_store ps' ! a"
      have dev: "map_of (pp_byDeviceID ?p) (pr_participantID ?rcv) = None" using False f(3,5) by simp
      show ?thesis
      proof (cases "map_of (pp_byPID ?p) (nd_PID device) \<noteq> None \<or> map_of (pp_bySSRC ?p) (pr_ssrc ?rcv) \<noteq> None \<or>
          map_of (pp_byVideoSSRC ?p) (pr_videoSSRC ?rcv) \<noteq> None \<or> map_of (pp_byAppDataSSRC ?p) (pr_appDataSSRC ?rcv) \<noteq> None")
        case True
        then show ?thesis using False Inr x f(1) by (auto simp: prepare_device_def Let_def)
      next
        case free: False
        show ?thesis
        proof (cases "add_streams (pr_streamSSRCs ?rcv) a (pp_bySRTCPSSRC ?p)")
          case (Inl e)
          then show ?thesis using False free Inr x f(1) by (auto simp: prepare_device_def Let_def)
        next
          case m: (Inr m)
          note s = add_streams_map [OF m]
          have idx: "indexed (ps_store ps') (pp_byDeviceID ?p) (pp_bySSRC ?p) (pp_byVideoSSRC ?p) (pp_byAppDataSSRC ?p) (pp_bySRTCPSSRC ?p)"
            using f(1) by (simp add: prep_ok_def Let_def)
          have new: "indexed (ps_store ps') (AList.update ?id a (pp_byDeviceID ?p)) (AList.update (pr_ssrc ?rcv) a (pp_bySSRC ?p))
              (AList.update (pr_videoSSRC ?rcv) a (pp_byVideoSSRC ?p)) (AList.update (pr_appDataSSRC ?rcv) a (pp_byAppDataSSRC ?p)) m"
            using indexed_add [OF idx f(2) dev _ _ _ conjunct1 [OF s] conjunct2 [OF s]] free f(3) by simp
          have "set (AList.update ?id a (pp_byDeviceID ?p)) = insert (?id, a) (set (pp_byDeviceID ?p))"
            using update_new [OF dev, of a] f(3) by simp
          then show ?thesis using False free Inr x m f(1,4,6) new by (auto simp: prepare_device_def prep_ok_def Let_def)
        qed
      qed
    qed
  qed
qed

lemma prepare_participants_ok:
  assumes "prep_ok t r ps" "reg_indexed r"
  shows "prep_ok t r (snd (prepare_participants r participants ps))"
proof -
  have dev: "prep_ok t r ps \<Longrightarrow> prep_ok t r (snd (prepare_devices r participant devices ps))" for participant devices ps
  proof (induction devices arbitrary: ps)
    case (Cons d ds)
    from prepare_device_ok [OF Cons.prems assms(2), of participant d] Cons.IH show ?case
      by (cases "prepare_device r participant d ps") (auto split: option.split)
  qed simp
  show ?thesis using assms(1)
  proof (induction participants arbitrary: ps)
    case (Cons x xs)
    from dev [OF Cons.prems, of x "np_Devices x"] Cons show ?case
      by (cases "prepare_devices r x (np_Devices x) ps") (auto split: option.split)
  qed simp
qed

lemma keep_fallback_ok:
  assumes "prep_ok t r ps" "reg_indexed r"
  shows "prep_ok t r ((keep_fallback r ps)\<lparr>ps_remote := True\<rparr>)"
proof (cases "ps_remote ps \<or> map_of (rg_byDeviceID r) (rg_fallbackID r) = None")
  case True
  then show ?thesis using assms(1) by (auto simp: keep_fallback_def)
next
  case False
  then obtain a where a: "map_of (rg_byDeviceID r) (rg_fallbackID r) = Some a" and rem: "\<not> ps_remote ps" by auto
  let ?p = "ps_prepared ps"
  have mem: "(rg_fallbackID r, a) \<in> set (rg_byDeviceID r)" using a by (rule map_of_SomeD)
  have lt: "a < length (rg_store r)" and pid: "pr_participantID (rg_store r ! a) = rg_fallbackID r" using indexedD [OF assms(2)] mem by blast+
  have n: "length (rg_store r) \<le> length (ps_store ps)" "take (length (rg_store r)) (ps_store ps) = rg_store r"
    and e: "pp_byDeviceID ?p = []" "pp_bySSRC ?p = []" "pp_byVideoSSRC ?p = []" "pp_byAppDataSSRC ?p = []" "pp_bySRTCPSSRC ?p = []"
    using assms(1) rem by (simp_all add: prep_ok_def Let_def)
  have st: "ps_store ps ! a = rg_store r ! a" using lt n by (metis nth_take)
  have "indexed (ps_store ps) (AList.update (rg_fallbackID r) a []) (AList.update (pr_ssrc (ps_store ps ! a)) a [])
      (AList.update (pr_videoSSRC (ps_store ps ! a)) a []) (AList.update (pr_appDataSSRC (ps_store ps ! a)) a [])
      (fold (\<lambda>s. AList.update s a) (pr_streamSSRCs (ps_store ps ! a)) [])"
    using indexed_add [OF indexed_empty, of a "ps_store ps"] lt n pid st by (simp add: fold_update_map)
  then show ?thesis using assms(1) a rem e unfolding keep_fallback_def by (auto simp: prep_ok_def Let_def)
qed


section \<open>Epochs\<close>

text \<open>What an epoch or a roster never changes of a receiver.\<close>

definition fixed :: "'d participantAudioReceiver \<Rightarrow> (string \<times> u32 \<times> u32 list \<times> u32 \<times> u32) \<times> nat list" where
  "fixed rcv = (ident rcv, map warpMITagLen (pipes rcv))"

lemma fixed_derived: "fixed x = fixed y \<Longrightarrow> derived c x = derived c y"
  by (simp add: fixed_def ident_def derived_def pipes_def)

lemma fixed_all:
  assumes "map fixed st' = map fixed st" "\<forall>x\<in>set st. derived c x"
  shows "\<forall>x\<in>set st'. derived c x"
proof
  fix x assume "x \<in> set st'"
  then have "fixed x \<in> set (map fixed st')" by simp
  then obtain y where "y \<in> set st" "fixed x = fixed y" using assms(1) by auto
  then show "derived c x" using assms(2) fixed_derived by blast
qed

lemma fixed_ident: "map fixed st' = map fixed st \<Longrightarrow> map ident st' = map ident st"
proof -
  assume "map fixed st' = map fixed st"
  then have "map fst (map fixed st') = map fst (map fixed st)" by (simp only:)
  then show ?thesis by (simp add: fixed_def comp_def)
qed

lemma fixed_keeps:
  "fixed (clearParticipantReceiverKeys x) = fixed x"
  "fixed (x\<lparr>pr_userJID := u, pr_deviceJID := d, pr_pid := p, pr_hasPID := h\<rparr>) = fixed x"
  "fixed (x\<lparr>pr_pipe := installRecvKeysPreservingROC k (pr_pipe x), pr_videoPipe := installRecvKeysPreservingROC k (pr_videoPipe x),
     pr_appDataPipe := installRecvKeysPreservingROC k (pr_appDataPipe x), pr_srtcp := s\<rparr>) = fixed x"
  by (simp_all add: fixed_def pipes_def clearParticipantReceiverKeys_def installRecvKeys_def installSendKeys_def
      installRecvKeysPreservingROC_def ident_def)

lemma derive_receive_keys_ok:
  assumes "derive_receive_keys raw st dev p = Inr ep"
  shows "ge_sendKeys ep = ge_sendKeys p \<and> ge_sendRTCPKeys ep = ge_sendRTCPKeys p \<and>
    (distinct (map fst (ge_receiveKeys p)) \<longrightarrow> distinct (map fst (ge_receiveKeys ep))) \<and>
    (\<forall>a\<in>snd ` set dev. map Inr [the (map_of (ge_receiveKeys ep) a), the (map_of (ge_receiveRTCPKeys ep) a)] =
       [DeriveE2eKeysFromRaw raw (pr_participantID (st ! a)), DeriveE2eSRTCPKeysFromRaw raw (pr_participantID (st ! a))] \<and>
       map_of (ge_receiveKeys ep) a \<noteq> None \<and> map_of (ge_receiveRTCPKeys ep) a \<noteq> None) \<and>
    (\<forall>a. a \<notin> snd ` set dev \<longrightarrow> map_of (ge_receiveKeys ep) a = map_of (ge_receiveKeys p) a \<and>
       map_of (ge_receiveRTCPKeys ep) a = map_of (ge_receiveRTCPKeys p) a)"
  using assms
proof (induction dev arbitrary: p)
  case (Cons x dev)
  obtain i a where x: "x = (i, a)" by fastforce
  obtain k kr where k: "DeriveE2eKeysFromRaw raw (pr_participantID (st ! a)) = Inr k"
      "DeriveE2eSRTCPKeysFromRaw raw (pr_participantID (st ! a)) = Inr kr"
    and step: "derive_receive_keys raw st dev (p\<lparr>ge_receiveKeys := AList.update a k (ge_receiveKeys p),
        ge_receiveRTCPKeys := AList.update a kr (ge_receiveRTCPKeys p)\<rparr>) = Inr ep"
    using Cons.prems by (auto simp: x bindE_Inr_conv)
  note IH = Cons.IH [OF step]
  have a: "map_of (ge_receiveKeys ep) a = Some k \<and> map_of (ge_receiveRTCPKeys ep) a = Some kr" if "a \<notin> snd ` set dev"
    using IH that by (simp add: map_of_update)
  have "map Inr [the (map_of (ge_receiveKeys ep) b), the (map_of (ge_receiveRTCPKeys ep) b)] =
       [DeriveE2eKeysFromRaw raw (pr_participantID (st ! b)), DeriveE2eSRTCPKeysFromRaw raw (pr_participantID (st ! b))] \<and>
       map_of (ge_receiveKeys ep) b \<noteq> None \<and> map_of (ge_receiveRTCPKeys ep) b \<noteq> None" if "b \<in> snd ` set (x # dev)" for b
  proof (cases "b \<in> snd ` set dev")
    case True
    then show ?thesis using IH by blast
  next
    case False
    then have "b = a" using that by (simp add: x)
    then show ?thesis using a False k by simp
  qed
  moreover have "map_of (ge_receiveKeys ep) b = map_of (ge_receiveKeys p) b \<and> map_of (ge_receiveRTCPKeys ep) b = map_of (ge_receiveRTCPKeys p) b"
    if "b \<notin> snd ` set (x # dev)" for b using IH that by (simp add: x map_of_update)
  moreover have "distinct (map fst (ge_receiveKeys p)) \<longrightarrow> distinct (map fst (ge_receiveKeys ep))" using IH by (simp add: AList.distinct_update)
  ultimately show ?case using IH by auto
qed simp

lemma prepare_epoch_total:
  assumes "32 \<le> length raw"
  shows "\<exists>ep. prepareGroupRawEpochLocked raw dev st r = Inr ep"
proof -
  have k: "\<exists>k. DeriveE2eKeysFromRaw raw i = Inr k" "\<exists>k. DeriveE2eSRTCPKeysFromRaw raw i = Inr k" for i
    using derive_keys_total [of raw i "[]"] assms by auto
  have "\<exists>ep. derive_receive_keys raw st dev p = Inr ep" for p
  proof (induction dev arbitrary: p)
    case (Cons x dev)
    then show ?case using k [of "pr_participantID (st ! snd x)"] by (cases x) auto
  qed simp
  then show ?thesis using k [of "rg_selfID r"] by (auto simp: prepareGroupRawEpochLocked_def)
qed

lemma install_epoch:
  assumes "prepareGroupRawEpochLocked raw dev st r0 = Inr ep" "map ident st = map ident (rg_store r)"
    "\<forall>a\<in>snd ` set dev. a < length (rg_store r)"
  defines "r' \<equiv> installPreparedGroupRawEpochLocked ep r"
  shows "map fixed (rg_store r') = map fixed (rg_store r)"
    and "a \<in> snd ` set dev \<Longrightarrow> keyed_by (DeriveE2eKeysFromRaw raw) (DeriveE2eSRTCPKeysFromRaw raw) (rg_store r' ! a)"
    and "p \<in> set (rg_sendPipes r') \<Longrightarrow> DeriveE2eKeysFromRaw raw (rg_selfID r0) = Inr (sendKeys p)"
    and "s \<in> set (rg_srtcpSenders r') \<Longrightarrow> DeriveE2eSRTCPKeysFromRaw raw (rg_selfID r0) = Inr (ss_keys s)"
proof -
  obtain k kr where k: "DeriveE2eKeysFromRaw raw (rg_selfID r0) = Inr k" "DeriveE2eSRTCPKeysFromRaw raw (rg_selfID r0) = Inr kr"
    and d: "derive_receive_keys raw st dev \<lparr>ge_sendKeys = k, ge_sendRTCPKeys = kr, ge_receiveKeys = [], ge_receiveRTCPKeys = []\<rparr> = Inr ep"
    using assms(1) by (auto simp: prepareGroupRawEpochLocked_def bindE_Inr_conv)
  note ep = derive_receive_keys_ok [OF d]
  show "DeriveE2eKeysFromRaw raw (rg_selfID r0) = Inr (sendKeys p)" if "p \<in> set (rg_sendPipes r')"
    using that k(1) ep by (auto simp: r'_def installPreparedGroupRawEpochLocked_def installSendKeys_def)
  show "DeriveE2eSRTCPKeysFromRaw raw (rg_selfID r0) = Inr (ss_keys s)" if "s \<in> set (rg_srtcpSenders r')"
    using that k(2) ep by (auto simp: r'_def installPreparedGroupRawEpochLocked_def ss_installKeys_def)
  show "map fixed (rg_store r') = map fixed (rg_store r)"
    by (simp add: r'_def installPreparedGroupRawEpochLocked_def split_beta fold_view change_at_view fixed_keeps)
  show "keyed_by (DeriveE2eKeysFromRaw raw) (DeriveE2eSRTCPKeysFromRaw raw) (rg_store r' ! a)" if a: "a \<in> snd ` set dev"
  proof -
    have lt: "a < length (rg_store r)" using assms(3) a by blast
    have "ident (st ! a) = ident (rg_store r ! a)" using lt assms(2) by (metis length_map nth_map)
    then have pid: "pr_participantID (st ! a) = pr_participantID (rg_store r ! a)" by (simp add: ident_def)
    have e: "map Inr [the (map_of (ge_receiveKeys ep) a), the (map_of (ge_receiveRTCPKeys ep) a)] =
       [DeriveE2eKeysFromRaw raw (pr_participantID (st ! a)), DeriveE2eSRTCPKeysFromRaw raw (pr_participantID (st ! a))]"
      "map_of (ge_receiveKeys ep) a \<noteq> None" "map_of (ge_receiveRTCPKeys ep) a \<noteq> None" using ep a by blast+
    then obtain ka kb where m: "map_of (ge_receiveKeys ep) a = Some ka" "map_of (ge_receiveRTCPKeys ep) a = Some kb" by blast
    then have ka: "DeriveE2eKeysFromRaw raw (pr_participantID (st ! a)) = Inr ka"
        "DeriveE2eSRTCPKeysFromRaw raw (pr_participantID (st ! a)) = Inr kb" using e(1) by simp_all
    have dist: "distinct (map fst (ge_receiveKeys ep))" using ep by simp
    show ?thesis
      unfolding r'_def installPreparedGroupRawEpochLocked_def
      by (simp add: fold_change_at [OF dist lt] m)
        (simp add: keyed_by_def pipes_def installRecvKeysPreservingROC_def sr_installKeys_def ka [unfolded pid])
  qed
qed


section \<open>The invariant\<close>

definition group_keys :: "'d participantReceiveRegistry \<Rightarrow> string \<Rightarrow> srtp_error + E2eSrtpKeys" where
  "group_keys r = (if rg_hasEpoch r then DeriveE2eKeysFromRaw (ie_rawKey (rg_installedEpoch r)) else DeriveE2eKeys (rg_callKey r))"

definition group_rtcp_keys :: "'d participantReceiveRegistry \<Rightarrow> string \<Rightarrow> srtp_error + E2eSrtpKeys" where
  "group_rtcp_keys r = (if rg_hasEpoch r then DeriveE2eSRTCPKeysFromRaw (ie_rawKey (rg_installedEpoch r)) else DeriveE2eSrtcpKeys (rg_callKey r))"

definition epochs_ok :: "'d participantReceiveRegistry \<Rightarrow> bool" where
  "epochs_ok r \<longleftrightarrow>
     (rg_hasEpoch r \<longrightarrow> rg_hasGroupUpdate r \<and> length (ie_rawKey (rg_installedEpoch r)) = 32 \<and>
        ie_transactionID (rg_installedEpoch r) \<le> rg_transactionID r) \<and>
     distinct (map fst (rg_pendingEpochs r)) \<and>
     (\<forall>(t, k) \<in> set (rg_pendingEpochs r). length k = 32 \<and> (rg_hasGroupUpdate r \<longrightarrow> rg_transactionID r < t))"

definition senders_ok :: "'d participantReceiveRegistry \<Rightarrow> bool" where
  "senders_ok r \<longleftrightarrow> (rg_hasEpoch r \<longrightarrow> (\<forall>p\<in>set (rg_sendPipes r). group_keys r (rg_selfID r) = Inr (sendKeys p)) \<and>
     (\<forall>s\<in>set (rg_srtcpSenders r). group_rtcp_keys r (rg_selfID r) = Inr (ss_keys s)))"

definition receivers_ok :: "'d participantReceiveRegistry \<Rightarrow> bool" where
  "receivers_ok r \<longleftrightarrow> reg_indexed r \<and> (\<forall>rcv\<in>set (rg_store r). derived (rg_callID r) rcv) \<and>
     (\<forall>a\<in>snd ` set (rg_byDeviceID r). keyed_by (group_keys r) (group_rtcp_keys r) (rg_store r ! a))"

definition reg_ok :: "'d participantReceiveRegistry \<Rightarrow> bool" where
  "reg_ok r \<longleftrightarrow> receivers_ok r \<and> epochs_ok r \<and> senders_ok r"

lemma newest_pending_ok:
  assumes "newest_pending txid al c n = (c', n')"
  shows "c' = c @ filter (\<lambda>t. t \<le> txid) (map fst al) \<and>
    (case n' of None \<Rightarrow> n = None \<and> (\<forall>(t, k) \<in> set al. txid < t)
     | Some (t, k) \<Rightarrow> (n = Some (t, k) \<or> (t, k) \<in> set al \<and> t \<le> txid) \<and> (\<forall>(t', k') \<in> set al. t' \<le> txid \<longrightarrow> t' \<le> t) \<and>
         (\<forall>t0 k0. n = Some (t0, k0) \<longrightarrow> t0 \<le> t))"
  using assms
proof (induction al arbitrary: c n)
  case Nil
  then show ?case by (auto split: option.split)
next
  case (Cons x al)
  obtain u raw where x: "x = (u, raw)" by fastforce
  let ?n = "case n of None \<Rightarrow> Some (u, raw) | Some (t', k') \<Rightarrow> if t' < u then Some (u, raw) else Some (t', k')"
  show ?case
  proof (cases "txid < u")
    case True
    then have "newest_pending txid al c n = (c', n')" using Cons.prems by (simp add: x)
    from Cons.IH [OF this] True show ?thesis by (auto simp: x split: option.splits)
  next
    case False
    then have "newest_pending txid al (c @ [u]) ?n = (c', n')" using Cons.prems by (simp add: x)
    from Cons.IH [OF this] False show ?thesis by (cases n) (auto simp: x not_less split: option.splits if_splits)
  qed
qed

lemma fold_delete: "fold AList.delete ks xs = filter (\<lambda>(k, v). k \<notin> set ks) xs"
  by (induction ks arbitrary: xs) (auto simp: AList.delete_eq intro!: filter_cong split: prod.split)

text \<open>What a prepared update contains.\<close>

lemma prepare_success:
  assumes "prepareGroupUpdateLocked u r = (Inr p, st)" "reg_indexed r" "\<forall>rcv\<in>set (rg_store r). derived (rg_callID r) rcv"
  obtains newest sel where "prep_ok (nu_TransactionID u) r \<lparr>ps_prepared = p\<lparr>pp_epoch := None\<rparr>, ps_remote = True, ps_store = st\<rparr>"
    "newest_pending (nu_TransactionID u) (rg_pendingEpochs r) [] None = (pp_consumed p, newest)"
    "select_epoch r newest = Inr (sel, pp_replaceInstalledEpoch p)"
    "(case sel of None \<Rightarrow> pp_epoch p = None
      | Some (t, raw) \<Rightarrow> pp_epochTransactionID p = t \<and> pp_epochRawKey p = raw \<and>
          (\<exists>ep. pp_epoch p = Some ep \<and> prepareGroupRawEpochLocked raw (pp_byDeviceID p) st r = Inr ep))"
proof -
  let ?e = "\<lparr>pp_transactionID = nu_TransactionID u, pp_byDeviceID = [], pp_byPID = [], pp_bySSRC = [], pp_byVideoSSRC = [],
    pp_byAppDataSSRC = [], pp_bySRTCPSSRC = [], pp_metadata = [], pp_newReceivers = [], pp_consumed = [], pp_epoch = None,
    pp_epochTransactionID = 0, pp_epochRawKey = [], pp_replaceInstalledEpoch = False\<rparr>"
  let ?s = "\<lparr>ps_prepared = ?e, ps_remote = False, ps_store = rg_store r\<rparr>"
  obtain ps where ps: "prepare_participants r (nu_Participants u) ?s = (None, ps)"
    using assms(1) by (cases "prepare_participants r (nu_Participants u) ?s") (auto simp: prepareGroupUpdateLocked_def split: option.splits)
  have "prep_ok (nu_TransactionID u) r ?s" using assms(3) by (simp add: prep_ok_def)
  from prepare_participants_ok [OF this assms(2), of "nu_Participants u"] have "prep_ok (nu_TransactionID u) r ps" by (simp add: ps)
  from keep_fallback_ok [OF this assms(2)] have ok: "prep_ok (nu_TransactionID u) r ((keep_fallback r ps)\<lparr>ps_remote := True\<rparr>)" .
  obtain c newest where c: "newest_pending (nu_TransactionID u) (rg_pendingEpochs r) [] None = (c, newest)" by fastforce
  obtain sel rep where sel: "select_epoch r newest = Inr (sel, rep)"
    using assms(1) ps c by (cases "select_epoch r newest") (auto simp: prepareGroupUpdateLocked_def Let_def)
  show thesis
  proof (cases sel)
    case None
    with assms(1) ps c sel have p: "p = (ps_prepared (keep_fallback r ps))\<lparr>pp_consumed := c, pp_replaceInstalledEpoch := rep\<rparr>"
      "st = ps_store (keep_fallback r ps)" by (auto simp: prepareGroupUpdateLocked_def Let_def)
    show thesis by (rule that [of newest sel]) (use ok c sel None in \<open>simp_all add: p prep_ok_def Let_def\<close>)
  next
    case (Some x)
    obtain t raw where x: "x = (t, raw)" by fastforce
    obtain ep where ep: "prepareGroupRawEpochLocked raw (pp_byDeviceID (ps_prepared (keep_fallback r ps))) (ps_store (keep_fallback r ps)) r = Inr ep"
      and p: "p = (ps_prepared (keep_fallback r ps))\<lparr>pp_consumed := c, pp_replaceInstalledEpoch := rep, pp_epoch := Some ep,
        pp_epochTransactionID := t, pp_epochRawKey := raw\<rparr>" "st = ps_store (keep_fallback r ps)"
      using assms(1) ps c sel by (auto simp: prepareGroupUpdateLocked_def Let_def Some x split: sum.splits)
    show thesis by (rule that [of newest sel]) (use ok c sel ep in \<open>simp_all add: Some x p prep_ok_def Let_def\<close>)
  qed
qed


lemma group_keys_cong:
  "rg_hasEpoch r' = rg_hasEpoch r \<Longrightarrow> rg_installedEpoch r' = rg_installedEpoch r \<Longrightarrow> rg_callKey r' = rg_callKey r \<Longrightarrow>
    group_keys r' = group_keys r \<and> group_rtcp_keys r' = group_rtcp_keys r"
  by (simp add: group_keys_def group_rtcp_keys_def)

lemma store_extends:
  assumes "reg_ok r" "length (rg_store r) \<le> length st" "\<And>a. a < length (rg_store r) \<Longrightarrow> st ! a = rg_store r ! a"
    "\<forall>rcv\<in>set st. derived (rg_callID r) rcv"
  shows "reg_ok (r\<lparr>rg_store := st\<rparr>)"
proof -
  let ?r = "r\<lparr>rg_store := st\<rparr>"
  have k: "group_keys ?r = group_keys r" "group_rtcp_keys ?r = group_rtcp_keys r" using group_keys_cong [of ?r r] by simp_all
  have idx: "reg_indexed r" using assms(1) by (simp add: reg_ok_def receivers_ok_def)
  have lt: "a < length (rg_store r)" if "a \<in> snd ` set (rg_byDeviceID r)" for a using indexedD(5) [OF idx that] .
  have "indexed st (rg_byDeviceID r) (rg_bySSRC r) (rg_byVideoSSRC r) (rg_byAppDataSSRC r) (rg_bySRTCPSSRC r)"
    by (rule indexed_view [OF idx]) (use lt assms(2,3) in fastforce)
  moreover have "keyed_by (group_keys r) (group_rtcp_keys r) (st ! a)" if "a \<in> snd ` set (rg_byDeviceID r)" for a
    using assms(1,3) lt [OF that] that by (auto simp: reg_ok_def receivers_ok_def)
  ultimately show ?thesis using assms(1,4) unfolding reg_ok_def receivers_ok_def epochs_ok_def senders_ok_def k by simp
qed

lemma clear_new_fixed: "map fixed (clear_new p st) = map fixed st"
  unfolding clear_new_def by (rule fold_view) (simp add: change_at_view fixed_keeps)

lemma clear_new_other:
  assumes "\<forall>a\<in>set (pp_newReceivers p). n \<le> a" "b < n"
  shows "clear_new p st ! b = st ! b"
proof -
  have "fold (change_at f) xs st ! b = st ! b" if "\<forall>a\<in>set xs. n \<le> a" for f and xs :: "nat list"
    using that by (induction xs arbitrary: st) (use assms(2) in auto)
  then show ?thesis using assms(1) by (simp add: clear_new_def)
qed

lemma rollback_ok:
  assumes "reg_ok r" "prep_ok t r ps"
  shows "reg_ok (r\<lparr>rg_store := clear_new (ps_prepared ps) (ps_store ps)\<rparr>)"
proof (rule store_extends [OF assms(1)])
  have p: "length (rg_store r) \<le> length (ps_store ps)" "take (length (rg_store r)) (ps_store ps) = rg_store r"
    "\<forall>rcv\<in>set (ps_store ps). derived (rg_callID r) rcv" "\<forall>a\<in>set (pp_newReceivers (ps_prepared ps)). length (rg_store r) \<le> a"
    using assms(2) by (simp_all add: prep_ok_def Let_def)
  show "length (rg_store r) \<le> length (clear_new (ps_prepared ps) (ps_store ps))"
    using p(1) arg_cong [OF clear_new_fixed [of "ps_prepared ps" "ps_store ps"], of length] by simp
  show "clear_new (ps_prepared ps) (ps_store ps) ! a = rg_store r ! a" if "a < length (rg_store r)" for a
    using clear_new_other [OF p(4) that] p(2) that by (metis nth_take)
  show "\<forall>rcv\<in>set (clear_new (ps_prepared ps) (ps_store ps)). derived (rg_callID r) rcv"
    by (rule fixed_all [OF clear_new_fixed p(3)])
qed

lemma prepare_failure:
  assumes "prepareGroupUpdateLocked u r = (Inl e, st)" "reg_ok r"
  shows "reg_ok (r\<lparr>rg_store := st\<rparr>)"
proof -
  let ?e = "\<lparr>pp_transactionID = nu_TransactionID u, pp_byDeviceID = [], pp_byPID = [], pp_bySSRC = [], pp_byVideoSSRC = [],
    pp_byAppDataSSRC = [], pp_bySRTCPSSRC = [], pp_metadata = [], pp_newReceivers = [], pp_consumed = [], pp_epoch = None,
    pp_epochTransactionID = 0, pp_epochRawKey = [], pp_replaceInstalledEpoch = False\<rparr>"
  let ?s = "\<lparr>ps_prepared = ?e, ps_remote = False, ps_store = rg_store r\<rparr>"
  have r: "reg_indexed r" "\<forall>rcv\<in>set (rg_store r). derived (rg_callID r) rcv" using assms(2) by (simp_all add: reg_ok_def receivers_ok_def)
  obtain err ps where ps: "prepare_participants r (nu_Participants u) ?s = (err, ps)" by fastforce
  have "prep_ok (nu_TransactionID u) r ?s" using r(2) by (simp add: prep_ok_def)
  from prepare_participants_ok [OF this r(1), of "nu_Participants u"] have ok: "prep_ok (nu_TransactionID u) r ps" by (simp add: ps)
  show ?thesis
  proof (cases err)
    case (Some x)
    then have "st = clear_new (ps_prepared ps) (ps_store ps)" using assms(1) ps by (auto simp: prepareGroupUpdateLocked_def Let_def)
    then show ?thesis using rollback_ok [OF assms(2) ok] by simp
  next
    case None
    let ?k = "keep_fallback r ps"
    obtain c newest where "newest_pending (nu_TransactionID u) (rg_pendingEpochs r) [] None = (c, newest)" by fastforce
    then have "st = clear_new ((ps_prepared ?k)\<lparr>pp_consumed := c\<rparr>) (ps_store ?k)"
      using assms(1) ps None by (auto simp: prepareGroupUpdateLocked_def Let_def split: sum.splits option.splits)
    then show ?thesis using rollback_ok [OF assms(2) keep_fallback_ok [OF ok r(1)]] by (simp add: clear_new_def)
  qed
qed

section \<open>Committing an update\<close>

definition media :: "'d participantAudioReceiver \<Rightarrow> _" where
  "media rcv = (fixed rcv, pipes rcv, pr_srtcp rcv)"

lemma media_keyed: "media x = media y \<Longrightarrow> keyed_by f g x = keyed_by f g y"
  by (simp add: media_def fixed_def ident_def keyed_by_def)

lemma metadata_media: "map media (fold set_metadata ms st) = map media st"
  by (rule fold_view) (simp add: set_metadata_def change_at_view media_def pipes_def fixed_keeps)

lemma media_fixed: "map media st' = map media st \<Longrightarrow> map fixed st' = map fixed st"
proof -
  assume "map media st' = map media st"
  then have "map fst (map media st') = map fst (map media st)" by (simp only:)
  then show ?thesis by (simp add: media_def comp_def)
qed

text \<open>The receivers of the new roster after the others were cleared and the metadata set.\<close>

lemma commit_store:
  fixes ms :: "participantReceiverMetadata list"
  assumes "prep_ok t r ps" "reg_indexed r"
  defines "dev \<equiv> pp_byDeviceID (ps_prepared ps)"
  defines "st' \<equiv> fold set_metadata ms (fold (\<lambda>(i, a) st. if map_of dev i \<noteq> Some a then change_at clearParticipantReceiverKeys a st else st)
    (rg_byDeviceID r) (ps_store ps))"
  shows "map fixed st' = map fixed (ps_store ps)" and "a \<in> snd ` set dev \<Longrightarrow> media (st' ! a) = media (ps_store ps ! a)"
proof -
  let ?st = "fold (\<lambda>(i, a) st. if map_of dev i \<noteq> Some a then change_at clearParticipantReceiverKeys a st else st) (rg_byDeviceID r) (ps_store ps)"
  have f: "map fixed ?st = map fixed (ps_store ps)"
    by (rule fold_view) (auto simp: change_at_view fixed_keeps split: prod.split)
  moreover have "map fixed (fold set_metadata ms ?st) = map fixed ?st" by (rule media_fixed) (rule metadata_media)
  ultimately show "map fixed st' = map fixed (ps_store ps)" by (simp only: st'_def)
  assume a: "a \<in> snd ` set dev"
  have p: "length (rg_store r) \<le> length (ps_store ps)" "take (length (rg_store r)) (ps_store ps) = rg_store r"
    and idx: "indexed (ps_store ps) dev (pp_bySSRC (ps_prepared ps)) (pp_byVideoSSRC (ps_prepared ps)) (pp_byAppDataSSRC (ps_prepared ps))
      (pp_bySRTCPSSRC (ps_prepared ps))"
    using assms(1) by (simp_all add: prep_ok_def Let_def dev_def)
  have other: "\<forall>(i, b) \<in> set (rg_byDeviceID r). map_of dev i \<noteq> Some b \<longrightarrow> b \<noteq> a"
  proof clarify
    fix i assume i: "(i, a) \<in> set (rg_byDeviceID r)" "map_of dev i \<noteq> Some a"
    have lt: "a < length (rg_store r)" "pr_participantID (rg_store r ! a) = i" using indexedD [OF assms(2)] i(1) by blast+
    then have "pr_participantID (ps_store ps ! a) = i" using p(2) by (metis nth_take)
    then have "(i, a) \<in> set dev" using indexedD(4) [OF idx a] by simp
    then show False using i(2) indexedD(1) [OF idx] by simp
  qed
  have "?st ! a = ps_store ps ! a" by (rule fold_if_other [OF other])
  moreover have "a < length ?st" using indexedD(5) [OF idx a] arg_cong [OF f, of length] by simp
  then have "media (st' ! a) = media (?st ! a)" unfolding st'_def using arg_cong [OF metadata_media [of ms ?st], of "\<lambda>xs. xs ! a"]
      arg_cong [OF metadata_media [of ms ?st], of length] by simp
  ultimately show "media (st' ! a) = media (ps_store ps ! a)" by simp
qed


lemma prepared_keyed:
  assumes "prep_ok t r ps" "a \<in> snd ` set (pp_byDeviceID (ps_prepared ps))" "reg_ok r" "\<not> rg_hasEpoch r"
  shows "keyed_by (DeriveE2eKeys (rg_callKey r)) (DeriveE2eSrtcpKeys (rg_callKey r)) (ps_store ps ! a)"
proof -
  have p: "length (rg_store r) \<le> length (ps_store ps)" "take (length (rg_store r)) (ps_store ps) = rg_store r"
      "\<forall>(i, a) \<in> set (pp_byDeviceID (ps_prepared ps)). map_of (rg_byDeviceID r) i = Some a \<or> length (rg_store r) \<le> a"
      "\<forall>rcv\<in>set (drop (length (rg_store r)) (ps_store ps)). call_keyed r rcv"
    and idx: "indexed (ps_store ps) (pp_byDeviceID (ps_prepared ps)) (pp_bySSRC (ps_prepared ps)) (pp_byVideoSSRC (ps_prepared ps))
      (pp_byAppDataSSRC (ps_prepared ps)) (pp_bySRTCPSSRC (ps_prepared ps))"
    using assms(1) by (simp_all add: prep_ok_def Let_def)
  obtain i where "(i, a) \<in> set (pp_byDeviceID (ps_prepared ps))" using assms(2) by auto
  with p(3) consider "map_of (rg_byDeviceID r) i = Some a" | "length (rg_store r) \<le> a" by blast
  then show ?thesis
  proof cases
    case 1
    then have m: "(i, a) \<in> set (rg_byDeviceID r)" by (rule map_of_SomeD)
    have r: "reg_indexed r" and "\<forall>a\<in>snd ` set (rg_byDeviceID r). keyed_by (group_keys r) (group_rtcp_keys r) (rg_store r ! a)"
      using assms(3) by (simp_all add: reg_ok_def receivers_ok_def)
    then have "keyed_by (group_keys r) (group_rtcp_keys r) (rg_store r ! a)" using m by force
    moreover have "ps_store ps ! a = rg_store r ! a" using indexedD(2) [OF r m] p(2) by (metis nth_take)
    ultimately show ?thesis using assms(4) by (simp add: group_keys_def group_rtcp_keys_def)
  next
    case 2
    then have "ps_store ps ! a \<in> set (drop (length (rg_store r)) (ps_store ps))"
      using indexedD(5) [OF idx assms(2)] by (auto simp: in_set_conv_nth intro!: exI [of _ "a - length (rg_store r)"])
    then show ?thesis using p(4) by (simp add: call_keyed_def)
  qed
qed

text \<open>The registry with the new roster, before an epoch is installed.\<close>

definition with_roster :: "preparedParticipantReceiveUpdate \<Rightarrow> 'd participantAudioReceiver list \<Rightarrow> 'd participantReceiveRegistry \<Rightarrow>
    'd participantReceiveRegistry" where
  "with_roster p st r = r\<lparr>rg_store := fold set_metadata (pp_metadata p)
      (fold (\<lambda>(i, a) st. if map_of (pp_byDeviceID p) i \<noteq> Some a then change_at clearParticipantReceiverKeys a st else st) (rg_byDeviceID r) st),
     rg_byDeviceID := pp_byDeviceID p, rg_byPID := pp_byPID p, rg_bySSRC := pp_bySSRC p, rg_byVideoSSRC := pp_byVideoSSRC p,
     rg_byAppDataSSRC := pp_byAppDataSSRC p, rg_bySRTCPSSRC := pp_bySRTCPSSRC p, rg_transactionID := pp_transactionID p,
     rg_rosterGeneration := rg_rosterGeneration r + 1, rg_hasGroupUpdate := True\<rparr>"

lemma commit_split:
  "commitGroupUpdateLocked p (r\<lparr>rg_store := st\<rparr>) =
     (let q = (case pp_epoch p of None \<Rightarrow> with_roster p st r
        | Some e \<Rightarrow> let q = installPreparedGroupRawEpochLocked e (with_roster p st r)
            in if pp_replaceInstalledEpoch p
               then q\<lparr>rg_installedEpoch := \<lparr>ie_transactionID = pp_epochTransactionID p, ie_rawKey = pp_epochRawKey p\<rparr>, rg_hasEpoch := True\<rparr> else q)
      in q\<lparr>rg_pendingEpochs := filter (\<lambda>(t, k). t \<notin> set (pp_consumed p)) (rg_pendingEpochs r)\<rparr>)"
  by (simp add: commitGroupUpdateLocked_def with_roster_def Let_def fold_delete installPreparedGroupRawEpochLocked_def split: option.split)

lemma with_pending:
  "receivers_ok (x\<lparr>rg_pendingEpochs := q\<rparr>) = receivers_ok x" "senders_ok (x\<lparr>rg_pendingEpochs := q\<rparr>) = senders_ok x"
  by (simp_all add: receivers_ok_def senders_ok_def group_keys_def group_rtcp_keys_def)

abbreviation "prepared_ok t p st r \<equiv> prep_ok t r \<lparr>ps_prepared = p\<lparr>pp_epoch := None\<rparr>, ps_remote = True, ps_store = st\<rparr>"

lemma with_roster_ok:
  assumes "prepared_ok t p st r" "reg_ok r"
  shows "reg_indexed (with_roster p st r)" and "\<forall>x\<in>set (rg_store (with_roster p st r)). derived (rg_callID r) x"
    and "map ident st = map ident (rg_store (with_roster p st r))"
    and "a \<in> snd ` set (pp_byDeviceID p) \<Longrightarrow> media (rg_store (with_roster p st r) ! a) = media (st ! a)"
proof -
  have r: "reg_indexed r" using assms(2) by (simp add: reg_ok_def receivers_ok_def)
  note cs = commit_store [OF assms(1) r, where ms = "pp_metadata p", simplified]
  have f: "map fixed (rg_store (with_roster p st r)) = map fixed st" using cs(1) by (simp add: with_roster_def)
  have idx: "indexed st (pp_byDeviceID p) (pp_bySSRC p) (pp_byVideoSSRC p) (pp_byAppDataSSRC p) (pp_bySRTCPSSRC p)"
    and der: "\<forall>rcv\<in>set st. derived (rg_callID r) rcv" using assms(1) by (simp_all add: prep_ok_def Let_def)
  show "reg_indexed (with_roster p st r)" using indexed_same [OF idx fixed_ident [OF f]] by (simp add: with_roster_def)
  show "\<forall>x\<in>set (rg_store (with_roster p st r)). derived (rg_callID r) x" by (rule fixed_all [OF f der])
  show "map ident st = map ident (rg_store (with_roster p st r))" using fixed_ident [OF f] by simp
  show "media (rg_store (with_roster p st r) ! a) = media (st ! a)" if "a \<in> snd ` set (pp_byDeviceID p)"
    using cs(2) that by (simp add: with_roster_def)
qed

lemma commit_without_epoch:
  assumes "prepared_ok t p st r" "reg_ok r" "\<not> rg_hasEpoch r"
  shows "receivers_ok (with_roster p st r)" "senders_ok (with_roster p st r)"
proof -
  note w = with_roster_ok [OF assms(1,2)]
  have k: "group_keys (with_roster p st r) = DeriveE2eKeys (rg_callKey r)" "group_rtcp_keys (with_roster p st r) = DeriveE2eSrtcpKeys (rg_callKey r)"
    using assms(3) by (simp_all add: group_keys_def group_rtcp_keys_def with_roster_def)
  have d: "rg_byDeviceID (with_roster p st r) = pp_byDeviceID p" "rg_callID (with_roster p st r) = rg_callID r" by (simp_all add: with_roster_def)
  have "keyed_by (DeriveE2eKeys (rg_callKey r)) (DeriveE2eSrtcpKeys (rg_callKey r)) (rg_store (with_roster p st r) ! a)"
    if a: "a \<in> snd ` set (pp_byDeviceID p)" for a
    using prepared_keyed [OF assms(1) _ assms(2,3)] a media_keyed [OF w(4) [OF a]] by simp
  then show "receivers_ok (with_roster p st r)" unfolding receivers_ok_def k using w(1,2) by (simp add: d)
  show "senders_ok (with_roster p st r)" using assms(3) by (simp add: senders_ok_def with_roster_def)
qed

lemma commit_with_epoch:
  assumes "prepared_ok t p st r" "reg_ok r" "prepareGroupRawEpochLocked raw (pp_byDeviceID p) st r = Inr e" "ie_rawKey i = raw"
  defines "y \<equiv> (installPreparedGroupRawEpochLocked e (with_roster p st r))\<lparr>rg_installedEpoch := i, rg_hasEpoch := True\<rparr>"
  shows "receivers_ok y" "senders_ok y"
proof -
  note w = with_roster_ok [OF assms(1,2)]
  have lt: "\<forall>a\<in>snd ` set (pp_byDeviceID p). a < length (rg_store (with_roster p st r))"
    using indexedD(5) [OF w(1)] by (simp add: with_roster_def)
  note n = install_epoch [OF assms(3) w(3) lt]
  have k: "group_keys y = DeriveE2eKeysFromRaw raw" "group_rtcp_keys y = DeriveE2eSRTCPKeysFromRaw raw"
    using assms(4) by (simp_all add: y_def group_keys_def group_rtcp_keys_def)
  have b: "rg_store y = rg_store (installPreparedGroupRawEpochLocked e (with_roster p st r))" "rg_callID y = rg_callID r" "rg_selfID y = rg_selfID r"
    "rg_byDeviceID y = pp_byDeviceID p" "rg_bySSRC y = pp_bySSRC p" "rg_byVideoSSRC y = pp_byVideoSSRC p" "rg_byAppDataSSRC y = pp_byAppDataSSRC p"
    "rg_bySRTCPSSRC y = pp_bySRTCPSSRC p" "rg_sendPipes y = rg_sendPipes (installPreparedGroupRawEpochLocked e (with_roster p st r))"
    "rg_srtcpSenders y = rg_srtcpSenders (installPreparedGroupRawEpochLocked e (with_roster p st r))"
    by (simp_all add: y_def with_roster_def installPreparedGroupRawEpochLocked_def)
  have "reg_indexed y" using indexed_same [OF w(1) fixed_ident [OF n(1)]] unfolding b by (simp add: with_roster_def)
  then show "receivers_ok y" unfolding receivers_ok_def k using fixed_all [OF n(1) w(2)] n(2) by (simp add: b)
  show "senders_ok y" unfolding senders_ok_def k using n(3,4) by (simp add: b)
qed

text \<open>The epoch selected: the installed one, if there is one, unless a newer one waits.\<close>

lemma select_ok:
  assumes "epochs_ok r" "newest_pending T (rg_pendingEpochs r) [] None = (c, newest)" "select_epoch r newest = Inr (sel, replace)"
  shows "newest = None \<Longrightarrow> \<not> replace \<and>
      sel = (if rg_hasEpoch r then Some (ie_transactionID (rg_installedEpoch r), ie_rawKey (rg_installedEpoch r)) else None)"
    and "newest = Some (t, raw) \<Longrightarrow> sel = Some (t, raw) \<and> replace \<and> (t, raw) \<in> set (rg_pendingEpochs r) \<and> t \<le> T \<and> length raw = 32"
proof -
  show "\<not> replace \<and> sel = (if rg_hasEpoch r then Some (ie_transactionID (rg_installedEpoch r), ie_rawKey (rg_installedEpoch r)) else None)"
    if "newest = None" using assms(3) that by (auto simp: select_epoch_def Let_def)
  assume nw: "newest = Some (t, raw)"
  have m: "(t, raw) \<in> set (rg_pendingEpochs r)" "t \<le> T" using newest_pending_ok [OF assms(2)] nw by auto
  then have "rg_hasEpoch r \<longrightarrow> ie_transactionID (rg_installedEpoch r) < t" "length raw = 32" using assms(1) by (fastforce simp: epochs_ok_def)+
  then show "sel = Some (t, raw) \<and> replace \<and> (t, raw) \<in> set (rg_pendingEpochs r) \<and> t \<le> T \<and> length raw = 32"
    using assms(3) nw m by (auto simp: select_epoch_def Let_def)
qed

lemma installed_same: "rg_hasEpoch x \<Longrightarrow> x\<lparr>rg_installedEpoch := rg_installedEpoch x, rg_hasEpoch := True\<rparr> = x"
  by (cases x) simp

text \<open>
  A committed update: the roster is in force, the pending epochs it reached are gone, and the epoch is the newest of them or the one before.
\<close>

lemma commit_ok:
  assumes "reg_ok r" "prepareGroupUpdateLocked u r = (Inr p, st)" "rg_hasGroupUpdate r \<longrightarrow> rg_transactionID r < nu_TransactionID u"
  defines "r' \<equiv> commitGroupUpdateLocked p (r\<lparr>rg_store := st\<rparr>)"
  shows "reg_ok r'" and "rg_transactionID r' = nu_TransactionID u" and "rg_hasGroupUpdate r'"
    and "rg_pendingEpochs r' = filter (\<lambda>(t, k). nu_TransactionID u < t) (rg_pendingEpochs r)"
    and "\<forall>(t, k) \<in> set (rg_pendingEpochs r). nu_TransactionID u < t \<Longrightarrow>
      rg_hasEpoch r' = rg_hasEpoch r \<and> rg_installedEpoch r' = rg_installedEpoch r"
    and "\<not> (\<forall>(t, k) \<in> set (rg_pendingEpochs r). nu_TransactionID u < t) \<Longrightarrow>
      rg_hasEpoch r' \<and> (ie_transactionID (rg_installedEpoch r'), ie_rawKey (rg_installedEpoch r')) \<in> set (rg_pendingEpochs r) \<and>
      ie_transactionID (rg_installedEpoch r') \<le> nu_TransactionID u \<and>
      (\<forall>(t, k) \<in> set (rg_pendingEpochs r). t \<le> nu_TransactionID u \<longrightarrow> t \<le> ie_transactionID (rg_installedEpoch r'))"
proof -
  let ?T = "nu_TransactionID u" and ?w = "with_roster p st r"
  have r: "reg_indexed r" "\<forall>rcv\<in>set (rg_store r). derived (rg_callID r) rcv" "epochs_ok r"
    using assms(1) by (simp_all add: reg_ok_def receivers_ok_def)
  obtain newest sel where ok: "prepared_ok ?T p st r"
    and np: "newest_pending ?T (rg_pendingEpochs r) [] None = (pp_consumed p, newest)"
    and sel: "select_epoch r newest = Inr (sel, pp_replaceInstalledEpoch p)"
    and ep: "case sel of None \<Rightarrow> pp_epoch p = None
      | Some (t, raw) \<Rightarrow> pp_epochTransactionID p = t \<and> pp_epochRawKey p = raw \<and>
          (\<exists>ep. pp_epoch p = Some ep \<and> prepareGroupRawEpochLocked raw (pp_byDeviceID p) st r = Inr ep)"
    by (rule prepare_success [OF assms(2) r(1,2)])
  note n = newest_pending_ok [OF np] and s = select_ok [OF r(3) np sel]
  have T: "pp_transactionID p = ?T" using ok by (simp add: prep_ok_def Let_def)
  then have tx: "rg_transactionID r' = ?T" and hg: "rg_hasGroupUpdate r'"
    by (simp_all add: r'_def commit_split Let_def with_roster_def installPreparedGroupRawEpochLocked_def split: option.split)
  have pend: "rg_pendingEpochs r' = filter (\<lambda>(t, k). ?T < t) (rg_pendingEpochs r)"
  proof -
    have "filter (\<lambda>(t, k). t \<notin> set (pp_consumed p)) (rg_pendingEpochs r) = filter (\<lambda>(t, k). ?T < t) (rg_pendingEpochs r)"
      using n by (intro filter_cong) (force simp: not_less)+
    then show ?thesis by (simp add: r'_def commit_split Let_def)
  qed
  then have pends: "distinct (map fst (rg_pendingEpochs r'))" "\<forall>(t, k) \<in> set (rg_pendingEpochs r'). length k = 32 \<and> ?T < t"
    using r(3) by (auto simp: epochs_ok_def distinct_map inj_on_def)
  have main: "receivers_ok r' \<and> senders_ok r' \<and> rg_hasEpoch r' = (sel \<noteq> None) \<and>
    (sel \<noteq> None \<longrightarrow> (ie_transactionID (rg_installedEpoch r'), ie_rawKey (rg_installedEpoch r')) = the sel) \<and>
    (newest = None \<longrightarrow> rg_installedEpoch r' = rg_installedEpoch r)"
  proof (cases sel)
    case None
    then have e: "newest = None" "\<not> rg_hasEpoch r" "pp_epoch p = None" using s ep by (cases newest, auto split: if_splits)+
    then show ?thesis using commit_without_epoch [OF ok assms(1) e(2)] None
      by (simp add: r'_def commit_split with_pending) (simp add: with_roster_def)
  next
    case (Some x)
    obtain t raw where x: "x = (t, raw)" by fastforce
    from ep obtain e where e: "pp_epoch p = Some e" "prepareGroupRawEpochLocked raw (pp_byDeviceID p) st r = Inr e"
      "pp_epochTransactionID p = t" "pp_epochRawKey p = raw" by (auto simp: Some x)
    let ?i = "if pp_replaceInstalledEpoch p then \<lparr>ie_transactionID = t, ie_rawKey = raw\<rparr> else rg_installedEpoch r"
    let ?y = "(installPreparedGroupRawEpochLocked e ?w)\<lparr>rg_installedEpoch := ?i, rg_hasEpoch := True\<rparr>"
    have inst: "ie_transactionID ?i = t \<and> ie_rawKey ?i = raw \<and> (newest = None \<longrightarrow> \<not> pp_replaceInstalledEpoch p) \<and>
      (pp_replaceInstalledEpoch p \<or> rg_hasEpoch r)"
      using s Some x by (cases newest) (auto split: if_splits)
    have "rg_hasEpoch (installPreparedGroupRawEpochLocked e ?w) = rg_hasEpoch r"
      "rg_installedEpoch (installPreparedGroupRawEpochLocked e ?w) = rg_installedEpoch r"
      by (simp_all add: with_roster_def installPreparedGroupRawEpochLocked_def)
    with inst installed_same [of "installPreparedGroupRawEpochLocked e ?w"]
    have "r' = ?y\<lparr>rg_pendingEpochs := rg_pendingEpochs r'\<rparr>"
      by (cases "pp_replaceInstalledEpoch p") (simp_all add: r'_def commit_split Let_def e)
    moreover obtain z where "z = rg_pendingEpochs r'" by blast
    ultimately have r': "r' = ?y\<lparr>rg_pendingEpochs := z\<rparr>" by (simp only:)
    show ?thesis using commit_with_epoch [OF ok assms(1) e(2), of ?i] inst unfolding r' by (simp add: with_pending Some x)
  qed
  have "epochs_ok r'"
  proof -
    have "length (ie_rawKey (rg_installedEpoch r')) = 32 \<and> ie_transactionID (rg_installedEpoch r') \<le> ?T" if "rg_hasEpoch r'"
      using that main s r(3) assms(3) by (cases newest) (auto simp: epochs_ok_def split: if_splits)
    then show ?thesis using tx hg pends by (auto simp: epochs_ok_def)
  qed
  then show "reg_ok r'" using main by (simp add: reg_ok_def)
  show "rg_transactionID r' = ?T" "rg_hasGroupUpdate r'" "rg_pendingEpochs r' = filter (\<lambda>(t, k). ?T < t) (rg_pendingEpochs r)" by fact+
  show "rg_hasEpoch r' = rg_hasEpoch r \<and> rg_installedEpoch r' = rg_installedEpoch r" if "\<forall>(t, k) \<in> set (rg_pendingEpochs r). ?T < t"
  proof -
    have "newest = None" using s(2) that by (cases newest) fastforce+
    then show ?thesis using main s(1) by auto
  qed
  show "rg_hasEpoch r' \<and> (ie_transactionID (rg_installedEpoch r'), ie_rawKey (rg_installedEpoch r')) \<in> set (rg_pendingEpochs r) \<and>
      ie_transactionID (rg_installedEpoch r') \<le> ?T \<and>
      (\<forall>(t, k) \<in> set (rg_pendingEpochs r). t \<le> ?T \<longrightarrow> t \<le> ie_transactionID (rg_installedEpoch r'))"
    if some: "\<not> (\<forall>(t, k) \<in> set (rg_pendingEpochs r). ?T < t)"
  proof -
    obtain t raw where nw: "newest = Some (t, raw)" using n some by (cases newest) auto
    from s(2) [OF nw] main have "rg_hasEpoch r'" "ie_transactionID (rg_installedEpoch r') = t" "ie_rawKey (rg_installedEpoch r') = raw" by auto
    then show ?thesis using s(2) [OF nw] n by (auto simp: nw)
  qed
qed

section \<open>Operations keep the invariant\<close>

lemma update_ok:
  assumes "reg_ok r"
  shows "reg_ok (snd (ApplyGroupUpdateTransaction u callback r))"
proof (cases "callback = None \<or> (rg_hasGroupUpdate r \<and> nu_TransactionID u \<le> rg_transactionID r)")
  case True
  then show ?thesis using assms by (auto simp: ApplyGroupUpdateTransaction_def split: option.split)
next
  case False
  then obtain n f where c: "callback = Some (n, f)" by auto
  have new: "rg_hasGroupUpdate r \<longrightarrow> rg_transactionID r < nu_TransactionID u" using False by auto
  obtain res st where res: "prepareGroupUpdateLocked u r = (res, st)" by fastforce
  show ?thesis
  proof (cases res)
    case (Inl e)
    then show ?thesis using False c res prepare_failure [OF _ assms] by (auto simp: ApplyGroupUpdateTransaction_def)
  next
    case (Inr p)
    have "reg_indexed r" "\<forall>rcv\<in>set (rg_store r). derived (rg_callID r) rcv" using assms by (simp_all add: reg_ok_def receivers_ok_def)
    from prepare_success [OF res [unfolded Inr] this]
    have "prep_ok (nu_TransactionID u) r \<lparr>ps_prepared = p\<lparr>pp_epoch := None\<rparr>, ps_remote = True, ps_store = st\<rparr>" .
    from rollback_ok [OF assms this] have "reg_ok (r\<lparr>rg_store := clear_new p st\<rparr>)" by (simp add: clear_new_def)
    then show ?thesis using False c res Inr commit_ok(1) [OF assms res [unfolded Inr] new]
      by (auto simp: ApplyGroupUpdateTransaction_def Let_def)
  qed
qed

lemma install_group_ok:
  assumes "reg_ok r" "installGroupRawEpochLocked k r = Inr r'" "length k = 32" "rg_hasGroupUpdate r" "t \<le> rg_transactionID r"
  shows "reg_ok (r'\<lparr>rg_installedEpoch := \<lparr>ie_transactionID = t, ie_rawKey = k\<rparr>, rg_hasEpoch := True\<rparr>)"
proof -
  obtain e where e: "prepareGroupRawEpochLocked k (rg_byDeviceID r) (rg_store r) r = Inr e" and r': "r' = installPreparedGroupRawEpochLocked e r"
    using assms(2) by (auto simp: installGroupRawEpochLocked_def bindE_Inr_conv)
  have r: "reg_indexed r" "\<forall>rcv\<in>set (rg_store r). derived (rg_callID r) rcv" "epochs_ok r"
    using assms(1) by (simp_all add: reg_ok_def receivers_ok_def)
  have lt: "\<forall>a\<in>snd ` set (rg_byDeviceID r). a < length (rg_store r)" using indexedD(5) [OF r(1)] by blast
  note i = install_epoch [OF e refl lt, folded r']
  let ?r = "r'\<lparr>rg_installedEpoch := \<lparr>ie_transactionID = t, ie_rawKey = k\<rparr>, rg_hasEpoch := True\<rparr>"
  have gk: "group_keys ?r = DeriveE2eKeysFromRaw k" "group_rtcp_keys ?r = DeriveE2eSRTCPKeysFromRaw k"
    by (simp_all add: group_keys_def group_rtcp_keys_def)
  have b: "rg_callID r' = rg_callID r" "rg_selfID r' = rg_selfID r" "rg_byDeviceID r' = rg_byDeviceID r" "rg_bySSRC r' = rg_bySSRC r"
    "rg_byVideoSSRC r' = rg_byVideoSSRC r" "rg_byAppDataSSRC r' = rg_byAppDataSSRC r" "rg_bySRTCPSSRC r' = rg_bySRTCPSSRC r"
    "rg_hasGroupUpdate r' = rg_hasGroupUpdate r" "rg_transactionID r' = rg_transactionID r" "rg_pendingEpochs r' = rg_pendingEpochs r"
    by (simp_all add: r' installPreparedGroupRawEpochLocked_def)
  have "receivers_ok ?r" unfolding receivers_ok_def gk
    using indexed_same [OF r(1) fixed_ident [OF i(1)]] fixed_all [OF i(1) r(2)] i(2) by (simp add: b)
  moreover have "epochs_ok ?r" using r(3) assms(3-) by (simp add: epochs_ok_def b)
  moreover have "senders_ok ?r" unfolding senders_ok_def gk using i(3,4) by (simp add: b)
  ultimately show ?thesis by (simp add: reg_ok_def)
qed

lemma epoch_ok:
  assumes "reg_ok r"
  shows "reg_ok (snd (ApplyGroupRawEpoch t k r))"
proof (cases "length k = 32 \<and> rg_hasGroupUpdate r \<and> \<not> rg_transactionID r < t")
  case True
  then have "reg_ok (snd (applyGroupRawEpochLocked t k r))"
    using assms install_group_ok [OF assms] by (auto simp: applyGroupRawEpochLocked_def not_less split: sum.split)
  then show ?thesis using True by (simp add: ApplyGroupRawEpoch_def)
next
  case False
  have "reg_ok (r\<lparr>rg_pendingEpochs := AList.update t k (rg_pendingEpochs r)\<rparr>)"
    if "length k = 32" "\<not> rg_hasGroupUpdate r \<or> rg_transactionID r < t" "map_of (rg_pendingEpochs r) t = None"
    using assms that update_new [OF that(3), of k]
    by (auto simp: reg_ok_def receivers_ok_def epochs_ok_def senders_ok_def group_keys_def group_rtcp_keys_def map_of_eq_None_iff)
  then show ?thesis using False assms by (auto simp: ApplyGroupRawEpoch_def split: option.split)
qed

lemma attach_ok:
  assumes "reg_ok r"
  shows "reg_ok (snd (attachSendPipeline p r))" "reg_ok (snd (attachSRTCPSender s r))"
  using assms
  by (auto simp: attachSendPipeline_def attachSRTCPSender_def reg_ok_def receivers_ok_def epochs_ok_def senders_ok_def group_keys_def
      group_rtcp_keys_def installSendKeys_def ss_installKeys_def split: option.split sum.split)

lemma single_indexed:
  assumes "a < length st"
  shows "indexed st [(pr_participantID (st ! a), a)] [(pr_ssrc (st ! a), a)] [(pr_videoSSRC (st ! a), a)] [(pr_appDataSSRC (st ! a), a)]
    (fold (\<lambda>s. AList.update s a) (pr_streamSSRCs (st ! a)) [])"
  using indexed_add [OF indexed_empty assms] by (simp add: fold_update_map)

lemma fresh_ok:
  assumes "newReceiver r u d pid has = Inr rcv" "\<forall>x\<in>set (rg_store r). derived (rg_callID r) x" "epochs_ok r" "\<not> rg_hasGroupUpdate r"
  shows "reg_ok (r\<lparr>rg_store := rg_store r @ [rcv], rg_byDeviceID := [(pr_participantID rcv, length (rg_store r))],
    rg_bySSRC := [(pr_ssrc rcv, length (rg_store r))], rg_byVideoSSRC := [(pr_videoSSRC rcv, length (rg_store r))],
    rg_byAppDataSSRC := [(pr_appDataSSRC rcv, length (rg_store r))],
    rg_bySRTCPSSRC := fold (\<lambda>s. AList.update s (length (rg_store r))) (pr_streamSSRCs rcv) [], rg_byPID := x, rg_fallbackID := f,
    rg_rosterGeneration := g\<rparr>)"
proof -
  have "\<not> rg_hasEpoch r" using assms(3,4) by (auto simp: epochs_ok_def)
  then show ?thesis
    using newReceiver_ok [OF assms(1)] assms(2-) single_indexed [of "length (rg_store r)" "rg_store r @ [rcv]"]
    by (simp add: reg_ok_def receivers_ok_def epochs_ok_def senders_ok_def group_keys_def group_rtcp_keys_def)
qed

lemma fallback_ok:
  assumes "reg_ok r"
  shows "reg_ok (snd (RekeyFallback peer r))"
proof -
  obtain jid e where p: "ParseJID peer = (jid, e)" by fastforce
  have r: "\<forall>x\<in>set (rg_store r). derived (rg_callID r) x" "epochs_ok r" using assms by (simp_all add: reg_ok_def receivers_ok_def)
  have id: "reg_ok (r\<lparr>rg_fallbackID := i\<rparr>)" for i
    using assms group_keys_cong [of "r\<lparr>rg_fallbackID := i\<rparr>" r] by (simp add: reg_ok_def receivers_ok_def epochs_ok_def senders_ok_def)
  show ?thesis
  proof (cases "e = None \<and> \<not> rg_hasGroupUpdate r")
    case True
    then show ?thesis
      using assms p fresh_ok [OF _ r, of "ToNonAD jid" jid 0 False] newReceiver_ok(2) [of r "ToNonAD jid" jid 0 False]
      by (cases "newReceiver r (ToNonAD jid) jid 0 False") (auto simp: RekeyFallback_def Let_def)
  next
    case False
    then show ?thesis using assms p id by (cases e) (auto simp: RekeyFallback_def Let_def)
  qed
qed

lemma start_ok:
  assumes "newParticipantReceiveRegistry d callID callKey self peer = Inr r"
  shows "reg_ok r"
proof -
  obtain jid where p: "ParseJID peer = (jid, None)"
    using assms by (cases "ParseJID peer") (auto simp: newParticipantReceiveRegistry_def Let_def split: option.splits)
  let ?r = "\<lparr>rg_callID = callID, rg_callKey = callKey, rg_selfLID = self, rg_selfID = FormatE2ESrtpParticipantID self,
      rg_fallbackID = [], rg_transactionID = 0, rg_rosterGeneration = 0, rg_hasGroupUpdate = False, rg_decoderFactory = d,
      rg_byDeviceID = [], rg_byPID = [], rg_bySSRC = [], rg_byVideoSSRC = [], rg_byAppDataSSRC = [], rg_bySRTCPSSRC = [],
      rg_sendPipes = [], rg_srtcpSenders = [], rg_pendingEpochs = [],
      rg_installedEpoch = \<lparr>ie_transactionID = 0, ie_rawKey = []\<rparr>, rg_hasEpoch = False, rg_store = []\<rparr>"
  obtain rcv where rcv: "newReceiver ?r (ToNonAD jid) jid 0 False = Inr rcv"
    and r: "r = ?r\<lparr>rg_store := [rcv], rg_fallbackID := pr_participantID rcv, rg_byDeviceID := [(pr_participantID rcv, 0)],
      rg_bySSRC := [(pr_ssrc rcv, 0)], rg_byVideoSSRC := [(pr_videoSSRC rcv, 0)], rg_byAppDataSSRC := [(pr_appDataSSRC rcv, 0)],
      rg_bySRTCPSSRC := fold (\<lambda>s. AList.update s 0) (pr_streamSSRCs rcv) []\<rparr>"
    using assms p by (auto simp: newParticipantReceiveRegistry_def Let_def bindE_Inr_conv)
  from fresh_ok [OF rcv, where x = "[]" and f = "pr_participantID rcv" and g = 0] show ?thesis by (simp add: r epochs_ok_def)
qed

text \<open>A packet changes the rollover state of one pipeline, and nothing the invariant is about.\<close>

lemma store_update_ok:
  assumes "reg_ok r" "fixed x = fixed (rg_store r ! a)" "map recvKeys (pipes x) = map recvKeys (pipes (rg_store r ! a))"
    "pr_srtcp x = pr_srtcp (rg_store r ! a)"
  shows "reg_ok (r\<lparr>rg_store := (rg_store r)[a := x]\<rparr>)"
proof -
  let ?st = "(rg_store r)[a := x]" and ?r = "r\<lparr>rg_store := (rg_store r)[a := x]\<rparr>"
  have k: "group_keys ?r = group_keys r" "group_rtcp_keys ?r = group_rtcp_keys r" using group_keys_cong [of ?r r] by simp_all
  have f: "map fixed ?st = map fixed (rg_store r)"
    using assms(2) by (cases "a < length (rg_store r)") (simp_all add: map_update list_update_same_conv list_update_beyond)
  have r: "reg_indexed r" "\<forall>rcv\<in>set (rg_store r). derived (rg_callID r) rcv" using assms(1) by (simp_all add: reg_ok_def receivers_ok_def)
  have "pr_participantID x = pr_participantID (rg_store r ! a)" using assms(2) by (simp add: fixed_def ident_def)
  then have "keyed_by g h (rg_store r ! a) \<Longrightarrow> keyed_by g h x" for g h using assms(3,4) by (auto simp: keyed_by_def pipes_def)
  then have "keyed_by (group_keys r) (group_rtcp_keys r) (?st ! b)" if "b \<in> snd ` set (rg_byDeviceID r)" for b
    using assms(1) that by (cases "b = a \<and> a < length (rg_store r)") (auto simp: reg_ok_def receivers_ok_def nth_list_update list_update_beyond)
  then show ?thesis
    using assms(1) indexed_same [OF r(1) fixed_ident [OF f]] fixed_all [OF f r(2)]
    unfolding reg_ok_def receivers_ok_def epochs_ok_def senders_ok_def k by simp
qed

lemma packet_ok:
  assumes "reg_ok r"
  shows "reg_ok (snd (DecodeAudio decode packet r))" "reg_ok (snd (UnprotectVideo packet r))" "reg_ok (snd (UnprotectAppData packet r))"
proof -
  note k = UnprotectAudio_keeps(1,2)
  show "reg_ok (snd (DecodeAudio decode packet r))"
    using assms store_update_ok [OF assms] k
    by (auto simp: DecodeAudio_def Let_def split_beta fixed_def ident_def pipes_def split: option.split)
  show "reg_ok (snd (UnprotectVideo packet r))" "reg_ok (snd (UnprotectAppData packet r))"
    using assms store_update_ok [OF assms] k
    by (auto simp: UnprotectVideo_def UnprotectAppData_def Let_def split_beta fixed_def ident_def pipes_def split: option.split)
qed

end
