(* ===== verification/GroupEpochs.thy ===== *)
theory GroupEpochs
  imports GroupMedia
begin

text \<open>
  The registry over a whole call: rosters, key epochs, senders and packets in any order.
\<close>

datatype reg_event = Roster groupCallUpdate "(nat \<times> bool) option" | Epoch u32 bytes | Fallback string
  | AttachPipe "MediaPipeline option" | AttachSrtcp "mediaSrtcpSender option" | AudioIn bytes | VideoIn bytes | AppDataIn bytes

fun reg_step :: "(bytes \<Rightarrow> 'd \<Rightarrow> 'p \<times> 'd) \<Rightarrow> reg_event \<Rightarrow> 'd participantReceiveRegistry \<Rightarrow> 'd participantReceiveRegistry" where
  "reg_step decode (Roster u callback) r = snd (ApplyGroupUpdateTransaction u callback r)"
| "reg_step decode (Epoch t k) r = snd (ApplyGroupRawEpoch t k r)"
| "reg_step decode (Fallback peer) r = snd (RekeyFallback peer r)"
| "reg_step decode (AttachPipe p) r = snd (attachSendPipeline p r)"
| "reg_step decode (AttachSrtcp s) r = snd (attachSRTCPSender s r)"
| "reg_step decode (AudioIn packet) r = snd (DecodeAudio decode packet r)"
| "reg_step decode (VideoIn packet) r = snd (UnprotectVideo packet r)"
| "reg_step decode (AppDataIn packet) r = snd (UnprotectAppData packet r)"

lemma reg_step_ok: "reg_ok r \<Longrightarrow> reg_ok (reg_step decode ev r)"
  by (cases ev) (simp_all add: update_ok epoch_ok fallback_ok attach_ok packet_ok)

lemma reg_run_ok: "reg_ok r \<Longrightarrow> reg_ok (fold (reg_step decode) evs r)"
  by (induction evs arbitrary: r) (simp_all add: reg_step_ok)

text \<open>The identity of the call never changes.\<close>

definition call_of :: "'d participantReceiveRegistry \<Rightarrow> string \<times> bytes \<times> string" where
  "call_of r = (rg_callID r, rg_callKey r, rg_selfID r)"

definition epochs_of :: "'d participantReceiveRegistry \<Rightarrow> u32 \<times> bool \<times> (u32 \<times> bytes) list \<times> installedGroupRawEpoch \<times> bool" where
  "epochs_of r = (rg_transactionID r, rg_hasGroupUpdate r, rg_pendingEpochs r, rg_installedEpoch r, rg_hasEpoch r)"

lemma call_commit: "call_of (commitGroupUpdateLocked p r) = call_of r"
  by (simp add: call_of_def commitGroupUpdateLocked_def installPreparedGroupRawEpochLocked_def Let_def split: option.split)

lemma call_step: "call_of (reg_step decode ev r) = call_of r"
proof (cases ev)
  case (Roster u callback)
  have s: "call_of (r\<lparr>rg_store := st\<rparr>) = call_of r" for r :: "'d participantReceiveRegistry" and st by (simp add: call_of_def)
  show ?thesis using Roster
    by (auto simp: ApplyGroupUpdateTransaction_def Let_def call_commit s split: option.split prod.split sum.split)
next
  case (Epoch t k)
  then show ?thesis
    by (auto simp: ApplyGroupRawEpoch_def applyGroupRawEpochLocked_def installGroupRawEpochLocked_def installPreparedGroupRawEpochLocked_def
        bindE_Inr_conv call_of_def split: option.split sum.split)
qed (auto simp: RekeyFallback_def attachSendPipeline_def attachSRTCPSender_def DecodeAudio_def UnprotectVideo_def UnprotectAppData_def
    Let_def call_of_def split: option.split prod.split sum.split)

lemma call_run: "call_of (fold (reg_step decode) evs r) = call_of r"
  by (induction evs arbitrary: r) (simp_all add: call_step)

lemma epochs_step: "epochs_of (reg_step decode ev r) = epochs_of r" if "\<forall>u c. ev \<noteq> Roster u c" "\<forall>t k. ev \<noteq> Epoch t k"
  using that
  by (cases ev) (auto simp: RekeyFallback_def attachSendPipeline_def attachSRTCPSender_def DecodeAudio_def UnprotectVideo_def UnprotectAppData_def
    Let_def epochs_of_def split: option.split prod.split sum.split)

section \<open>The specification of the epochs\<close>

text \<open>
  The abstract state is the set of epochs received and the transaction of the roster: an epoch is in force when a roster of its transaction or
  a later one was applied, and the newest of those is the current one.
\<close>

definition in_force :: "u32 set \<Rightarrow> 'd participantReceiveRegistry \<Rightarrow> u32 set" where
  "in_force E r = {t \<in> E. rg_hasGroupUpdate r \<and> t \<le> rg_transactionID r}"

definition follows :: "(u32 \<Rightarrow> bytes) \<Rightarrow> u32 set \<Rightarrow> 'd participantReceiveRegistry \<Rightarrow> bool" where
  "follows K E r \<longleftrightarrow>
     set (rg_pendingEpochs r) = (\<lambda>t. (t, K t)) ` (E - in_force E r) \<and> (rg_hasEpoch r \<longleftrightarrow> in_force E r \<noteq> {}) \<and>
     (rg_hasEpoch r \<longrightarrow> ie_rawKey (rg_installedEpoch r) = K (ie_transactionID (rg_installedEpoch r)) \<and>
        ie_transactionID (rg_installedEpoch r) \<in> in_force E r \<and> (\<forall>t \<in> in_force E r. t \<le> ie_transactionID (rg_installedEpoch r)))"

lemma follows_cong: "epochs_of r' = epochs_of r \<Longrightarrow> follows K E r' = follows K E r"
  by (simp add: follows_def in_force_def epochs_of_def)

lemma follows_epoch:
  assumes "follows K E r" "reg_ok r" "length (K t) = 32"
  shows "follows K (insert t E) (snd (ApplyGroupRawEpoch t (K t) r))"
proof (cases "rg_hasGroupUpdate r \<and> t \<le> rg_transactionID r")
  case True
  have inf: "in_force (insert t E) r = insert t (in_force E r)" using True by (auto simp: in_force_def)
  have pend: "insert t E - insert t (in_force E r) = E - in_force E r" using True by (auto simp: in_force_def)
  have locked: "ApplyGroupRawEpoch t (K t) r = applyGroupRawEpochLocked t (K t) r" using True assms(3) by (auto simp: ApplyGroupRawEpoch_def)
  show ?thesis
  proof (cases "rg_hasEpoch r \<and> t \<le> ie_transactionID (rg_installedEpoch r)")
    case old: True
    then have same: "snd (ApplyGroupRawEpoch t (K t) r) = r"
      using assms(1) unfolding locked by (auto simp: applyGroupRawEpochLocked_def follows_def)
    show ?thesis using old assms(1) unfolding same follows_def inf pend by auto
  next
    case new: False
    obtain r' where r': "installGroupRawEpochLocked (K t) r = Inr r'"
      using prepare_epoch_total [of "K t" "rg_byDeviceID r" "rg_store r" r] assms(3) by (auto simp: installGroupRawEpochLocked_def)
    let ?r = "r'\<lparr>rg_installedEpoch := \<lparr>ie_transactionID = t, ie_rawKey = K t\<rparr>, rg_hasEpoch := True\<rparr>"
    have eq: "snd (ApplyGroupRawEpoch t (K t) r) = ?r"
      using new r' unfolding locked by (auto simp: applyGroupRawEpochLocked_def)
    have k: "rg_pendingEpochs r' = rg_pendingEpochs r" "rg_hasGroupUpdate r' = rg_hasGroupUpdate r" "rg_transactionID r' = rg_transactionID r"
      using r' by (auto simp: installGroupRawEpochLocked_def bindE_Inr_conv installPreparedGroupRawEpochLocked_def)
    have inf': "in_force (insert t E) ?r = insert t (in_force E r)" using inf by (simp add: in_force_def k)
    have "u \<le> t" if "u \<in> in_force E r" for u using assms(1) that new by (fastforce simp: follows_def)
    then show ?thesis using assms(1) unfolding eq follows_def inf' pend by (auto simp: k)
  qed
next
  case False
  have inf: "in_force (insert t E) r = in_force E r" using False by (auto simp: in_force_def)
  show ?thesis
  proof (cases "map_of (rg_pendingEpochs r) t")
    case None
    let ?r = "r\<lparr>rg_pendingEpochs := AList.update t (K t) (rg_pendingEpochs r)\<rparr>"
    have eq: "snd (ApplyGroupRawEpoch t (K t) r) = ?r" using None False assms(3) by (auto simp: ApplyGroupRawEpoch_def)
    have "in_force (insert t E) ?r = in_force E r" using inf by (simp add: in_force_def)
    moreover have "t \<notin> in_force E r" using False by (auto simp: in_force_def)
    ultimately show ?thesis using assms(1) update_new [OF None, of "K t"] unfolding eq follows_def by auto
  next
    case (Some k)
    then have "(t, k) \<in> set (rg_pendingEpochs r)" by (rule map_of_SomeD)
    then have k: "k = K t" "t \<in> E" using assms(1) by (auto simp: follows_def)
    then have "snd (ApplyGroupRawEpoch t (K t) r) = r" using Some False assms(3) by (auto simp: ApplyGroupRawEpoch_def)
    then show ?thesis using assms(1) k(2) by (simp add: insert_absorb)
  qed
qed

lemma follows_commit:
  assumes "follows K E r" "reg_ok r" "prepareGroupUpdateLocked u r = (Inr p, st)" "rg_hasGroupUpdate r \<longrightarrow> rg_transactionID r < nu_TransactionID u"
  shows "follows K E (commitGroupUpdateLocked p (r\<lparr>rg_store := st\<rparr>))"
proof -
  let ?T = "nu_TransactionID u" and ?r = "commitGroupUpdateLocked p (r\<lparr>rg_store := st\<rparr>)"
  note c = commit_ok [OF assms(2,3,4)]
  have inf: "in_force E ?r = {t \<in> E. t \<le> ?T}" using c(2,3) by (simp add: in_force_def)
  have sub: "in_force E r \<subseteq> in_force E ?r" using assms(4) unfolding inf by (auto simp: in_force_def)
  have pend: "(t, k) \<in> set (rg_pendingEpochs r) \<longleftrightarrow> t \<in> E \<and> t \<notin> in_force E r \<and> k = K t" for t k
    using assms(1) by (auto simp: follows_def)
  have "set (rg_pendingEpochs ?r) = (\<lambda>t. (t, K t)) ` (E - in_force E ?r)"
    unfolding c(4) inf using sub by (auto simp: pend inf not_less not_le)
  moreover have "(rg_hasEpoch ?r \<longleftrightarrow> in_force E ?r \<noteq> {}) \<and>
     (rg_hasEpoch ?r \<longrightarrow> ie_rawKey (rg_installedEpoch ?r) = K (ie_transactionID (rg_installedEpoch ?r)) \<and>
        ie_transactionID (rg_installedEpoch ?r) \<in> in_force E ?r \<and> (\<forall>t \<in> in_force E ?r. t \<le> ie_transactionID (rg_installedEpoch ?r)))"
  proof (cases "\<forall>(t, k) \<in> set (rg_pendingEpochs r). ?T < t")
    case True
    have "t \<in> in_force E r" if "t \<in> E" "t \<le> ?T" for t
    proof (rule ccontr)
      assume "t \<notin> in_force E r"
      then have "(t, K t) \<in> set (rg_pendingEpochs r)" using that by (simp add: pend)
      then show False using True that(2) by auto
    qed
    then have "in_force E ?r = in_force E r" using sub by (auto simp: inf)
    then show ?thesis using c(5) [OF True] assms(1) by (simp add: follows_def)
  next
    case False
    note i = c(6) [OF False]
    let ?i = "ie_transactionID (rg_installedEpoch ?r)"
    have m: "?i \<in> E" "?i \<notin> in_force E r" "ie_rawKey (rg_installedEpoch ?r) = K ?i" using i by (simp_all add: pend)
    have "t \<le> ?i" if t: "t \<in> in_force E ?r" for t
    proof (cases "t \<in> in_force E r")
      case True
      then have "rg_hasGroupUpdate r" "t \<le> rg_transactionID r" by (auto simp: in_force_def)
      then show ?thesis using m(1,2) by (auto simp: in_force_def)
    next
      case False
      then have "(t, K t) \<in> set (rg_pendingEpochs r)" using t by (simp add: pend inf)
      then show ?thesis using i t by (auto simp: inf)
    qed
    moreover have "?i \<in> in_force E ?r" using m(1) i by (simp add: inf)
    ultimately show ?thesis using i m(3) by auto
  qed
  ultimately show ?thesis by (simp add: follows_def)
qed

lemma follows_roster:
  assumes "follows K E r" "reg_ok r"
  shows "follows K E (snd (ApplyGroupUpdateTransaction u callback r))"
proof (cases "callback = None \<or> (rg_hasGroupUpdate r \<and> nu_TransactionID u \<le> rg_transactionID r)")
  case True
  then show ?thesis using assms by (auto simp: ApplyGroupUpdateTransaction_def split: option.split)
next
  case False
  then obtain n f where c: "callback = Some (n, f)" by auto
  have new: "rg_hasGroupUpdate r \<longrightarrow> rg_transactionID r < nu_TransactionID u" using False by auto
  obtain res st where res: "prepareGroupUpdateLocked u r = (res, st)" by fastforce
  have s: "follows K E (r\<lparr>rg_store := st\<rparr>)" for st using assms(1) follows_cong [of "r\<lparr>rg_store := st\<rparr>" r] by (simp add: epochs_of_def)
  show ?thesis
    using False c res s follows_commit [OF assms _ new] by (cases res) (auto simp: ApplyGroupUpdateTransaction_def Let_def)
qed

lemma follows_run:
  assumes "follows K E r" "reg_ok r" "\<forall>t k. Epoch t k \<in> set evs \<longrightarrow> k = K t \<and> length k = 32"
  shows "follows K (E \<union> {t. \<exists>k. Epoch t k \<in> set evs}) (fold (reg_step decode) evs r)"
  using assms
proof (induction evs arbitrary: E r)
  case (Cons ev evs)
  let ?E = "E \<union> {t. \<exists>k. ev = Epoch t k}"
  have "follows K ?E (reg_step decode ev r)"
  proof (cases ev)
    case (Roster u c)
    then show ?thesis using follows_roster [OF Cons.prems(1,2)] by simp
  next
    case (Epoch t k)
    then have "k = K t" "length (K t) = 32" using Cons.prems(3) by force+
    with follows_epoch [OF Cons.prems(1,2), of t] show ?thesis by (simp add: Epoch)
  qed (use Cons.prems(1) follows_cong [OF epochs_step [of ev decode r]] in auto)
  from Cons.IH [OF this reg_step_ok [OF Cons.prems(2)]] Cons.prems(3)
  have "follows K (?E \<union> {t. \<exists>k. Epoch t k \<in> set evs}) (fold (reg_step decode) evs (reg_step decode ev r))" by simp
  moreover have "?E \<union> {t. \<exists>k. Epoch t k \<in> set evs} = E \<union> {t. \<exists>k. Epoch t k \<in> set (ev # evs)}" by auto
  ultimately show ?case by simp
qed simp


lemma follows_start:
  assumes "newParticipantReceiveRegistry d callID callKey self peer = Inr r"
  shows "follows K {} r" and "call_of r = (callID, callKey, FormatE2ESrtpParticipantID self)"
  using assms by (auto simp: newParticipantReceiveRegistry_def Let_def bindE_Inr_conv follows_def in_force_def call_of_def
    split: prod.splits option.splits)

lemma follows_Max:
  assumes "follows K E r" "in_force E r \<noteq> {}"
  shows "ie_transactionID (rg_installedEpoch r) = Max (in_force E r)" "ie_rawKey (rg_installedEpoch r) = K (Max (in_force E r))"
proof -
  have "rg_hasEpoch r" using assms by (simp add: follows_def)
  then have i: "ie_rawKey (rg_installedEpoch r) = K (ie_transactionID (rg_installedEpoch r))"
    "ie_transactionID (rg_installedEpoch r) \<in> in_force E r" "\<forall>t \<in> in_force E r. t \<le> ie_transactionID (rg_installedEpoch r)"
    using assms(1) by (simp_all add: follows_def)
  show m: "ie_transactionID (rg_installedEpoch r) = Max (in_force E r)" using i(2,3) by (intro Max_eqI [symmetric]) auto
  show "ie_rawKey (rg_installedEpoch r) = K (Max (in_force E r))" using i(1) unfolding m .
qed

section \<open>Properties\<close>

text \<open>
  C19: key epochs and rosters of a group call may arrive in any order, repeated, early or late, between packets, reconnects and new
  senders: at every moment the epoch in use is the newest one received whose transaction the roster has reached, or the call key when there is none, and
  every pipeline of every active participant, in all three media, and every attached sender is keyed with exactly that epoch and
  its own participant id. So two members who received the same rosters and keys use the same keys, whatever the order.
\<close>

theorem group_epochs_converge:
  assumes "newParticipantReceiveRegistry d callID callKey self peer = Inr r0"
    "\<forall>t k. Epoch t k \<in> set evs \<longrightarrow> k = K t \<and> length k = 32"
  shows "let r = fold (reg_step decode) evs r0;
      now = {t. (\<exists>k. Epoch t k \<in> set evs) \<and> rg_hasGroupUpdate r \<and> t \<le> rg_transactionID r};
      keys = (if now = {} then DeriveE2eKeys callKey else DeriveE2eKeysFromRaw (K (Max now)))
    in (rg_hasEpoch r \<longleftrightarrow> now \<noteq> {}) \<and> (now \<noteq> {} \<longrightarrow> ie_transactionID (rg_installedEpoch r) = Max now) \<and>
      (\<forall>(i, a) \<in> set (rg_byDeviceID r). \<forall>p \<in> set [pr_pipe (rg_store r ! a), pr_videoPipe (rg_store r ! a), pr_appDataPipe (rg_store r ! a)].
         keys i = Inr (recvKeys p)) \<and>
      (now \<noteq> {} \<longrightarrow> (\<forall>p \<in> set (rg_sendPipes r). keys (FormatE2ESrtpParticipantID self) = Inr (sendKeys p)))"
proof -
  define r where "r = fold (reg_step decode) evs r0"
  define E where "E = {t. \<exists>k. Epoch t k \<in> set evs}"
  have ok: "reg_ok r" unfolding r_def by (rule reg_run_ok [OF start_ok [OF assms(1)]])
  have f: "follows K E r" unfolding r_def E_def using follows_run [OF follows_start(1) [OF assms(1)] start_ok [OF assms(1)] assms(2)] by simp
  have c: "call_of r = (callID, callKey, FormatE2ESrtpParticipantID self)" unfolding r_def by (simp add: call_run follows_start(2) [OF assms(1)])
  have now: "{t. (\<exists>k. Epoch t k \<in> set evs) \<and> rg_hasGroupUpdate r \<and> t \<le> rg_transactionID r} = in_force E r" by (auto simp: in_force_def E_def)
  have h: "rg_hasEpoch r \<longleftrightarrow> in_force E r \<noteq> {}" using f by (simp add: follows_def)
  have keys: "(if in_force E r = {} then DeriveE2eKeys callKey else DeriveE2eKeysFromRaw (K (Max (in_force E r)))) = group_keys r"
    using h c follows_Max(2) [OF f] by (simp add: group_keys_def call_of_def)
  have idx: "reg_indexed r" and ks: "\<forall>a\<in>snd ` set (rg_byDeviceID r). keyed_by (group_keys r) (group_rtcp_keys r) (rg_store r ! a)"
    and send: "senders_ok r" using ok by (simp_all add: reg_ok_def receivers_ok_def)
  have "group_keys r i = Inr (recvKeys p)" if "(i, a) \<in> set (rg_byDeviceID r)" "p \<in> set (pipes (rg_store r ! a))" for i a p
    using ks that indexedD(3) [OF idx that(1)] by (force simp: keyed_by_def)
  moreover have "group_keys r (FormatE2ESrtpParticipantID self) = Inr (sendKeys p)" if "in_force E r \<noteq> {}" "p \<in> set (rg_sendPipes r)" for p
    using send that c h by (simp add: senders_ok_def call_of_def)
  ultimately show ?thesis
    unfolding Let_def r_def [symmetric] now keys using h follows_Max(1) [OF f] by (auto simp: pipes_def)
qed


lemma roster_empty:
  assumes "reg_ok r" "nu_Participants u = []" "rg_hasGroupUpdate r \<longrightarrow> rg_transactionID r < nu_TransactionID u"
  shows "rg_hasGroupUpdate (snd (ApplyGroupUpdateTransaction u (Some (1, False)) r)) \<and>
    rg_transactionID (snd (ApplyGroupUpdateTransaction u (Some (1, False)) r)) = nu_TransactionID u"
proof -
  have "\<exists>p st. prepareGroupUpdateLocked u r = (Inr p, st)"
  proof -
    obtain c newest where np: "newest_pending (nu_TransactionID u) (rg_pendingEpochs r) [] None = (c, newest)" by fastforce
    have e: "epochs_ok r" using assms(1) by (simp add: reg_ok_def)
    have "\<exists>sel rep. select_epoch r newest = Inr (sel, rep) \<and> (\<forall>t k. sel = Some (t, k) \<longrightarrow> length k = 32)"
    proof (cases newest)
      case None
      then show ?thesis using e by (auto simp: select_epoch_def Let_def epochs_ok_def)
    next
      case (Some x)
      then have "(fst x, snd x) \<in> set (rg_pendingEpochs r)" using newest_pending_ok [OF np] by (auto split: prod.splits)
      then have "length (snd x) = 32" "rg_hasEpoch r \<longrightarrow> ie_transactionID (rg_installedEpoch r) < fst x"
        using e by (fastforce simp: epochs_ok_def)+
      then show ?thesis by (cases x) (auto simp: Some select_epoch_def Let_def)
    qed
    then obtain sel rep where sel: "select_epoch r newest = Inr (sel, rep)" "\<And>t k. sel = Some (t, k) \<Longrightarrow> length k = 32" by blast
    show ?thesis
    proof (cases sel)
      case None
      then show ?thesis using np sel(1) assms(2) by (simp add: prepareGroupUpdateLocked_def Let_def)
    next
      case (Some x)
      then have "32 \<le> length (snd x)" using sel(2) [of "fst x" "snd x"] by simp
      then have "prepareGroupRawEpochLocked (snd x) dev st r \<noteq> Inl e" for dev st e
        using prepare_epoch_total [of "snd x" dev st r] by auto
      then show ?thesis using np sel(1) assms(2)
        by (cases x) (auto simp: prepareGroupUpdateLocked_def Let_def Some split: sum.split)
    qed
  qed
  then obtain p st where p: "prepareGroupUpdateLocked u r = (Inr p, st)" by blast
  from commit_ok(2,3) [OF assms(1) p assms(3)] show ?thesis using p assms(3) by (auto simp: ApplyGroupUpdateTransaction_def Let_def)
qed

section \<open>Attribution of media\<close>

lemma UnprotectAudio_accepts:
  assumes "UnprotectAudio packet p = (Some (h, x), p')" "warpMITagLen p = WarpMITagLen"
  shows "ParseRtpHeader (take (length packet - 4) packet) = Some h"
    and "\<exists>r. VerifyWarpMITag (AuthKey (recvKeys p)) (take (length packet - 4) packet) r 4 (drop (length packet - 4) packet)"
  using assms by (auto simp: UnprotectAudio_def WarpMITagLen_def Let_def split: if_splits option.splits sum.splits)

lemma ParseRtpHeader_prefix:
  assumes "ParseRtpHeader d = Some h" "ParseRtpHeader (take n d) = Some h'"
  shows "Ssrc h' = Ssrc h"
proof -
  have "12 \<le> length (take n d)" using assms(2) by (auto simp: ParseRtpHeader_def RtpHeaderByteLength_def split: option.splits if_splits)
  then have "slice 8 12 (take n d) = slice 8 12 d" by (simp add: slice_def take_drop)
  then show ?thesis using assms by (auto simp: ParseRtpHeader_def split: option.splits)
qed

lemma group_keys_wf: "group_keys r i = Inr k \<Longrightarrow> wf_keys k"
  using derive_keys_total [of "rg_callKey r" i "[]"] derive_keys_total [of "ie_rawKey (rg_installedEpoch r)" i "[]"]
  by (auto simp: group_keys_def DeriveE2eKeysFromRaw_def split: if_splits)


lemma active_receiver:
  assumes "reg_ok r" "(i, a) \<in> set (rg_byDeviceID r)"
  shows "pr_participantID (rg_store r ! a) = i" "DeriveWasmRelayStreamSsrcs (rg_callID r) i = Inr (pr_streamSSRCs (rg_store r ! a))"
    "pr_ssrc (rg_store r ! a) = pr_streamSSRCs (rg_store r ! a) ! 0" "warpMITagLen (pr_pipe (rg_store r ! a)) = WarpMITagLen"
    "group_keys r i = Inr (recvKeys (pr_pipe (rg_store r ! a)))"
proof -
  have idx: "reg_indexed r" and der: "\<forall>rcv\<in>set (rg_store r). derived (rg_callID r) rcv"
    and ks: "\<forall>a\<in>snd ` set (rg_byDeviceID r). keyed_by (group_keys r) (group_rtcp_keys r) (rg_store r ! a)"
    using assms(1) by (simp_all add: reg_ok_def receivers_ok_def)
  have a: "a < length (rg_store r)" "pr_participantID (rg_store r ! a) = i" using indexedD(2,3) [OF idx assms(2)] .
  have "derived (rg_callID r) (rg_store r ! a)" using der a(1) by simp
  moreover have "keyed_by (group_keys r) (group_rtcp_keys r) (rg_store r ! a)" using ks assms(2) by force
  ultimately show "pr_participantID (rg_store r ! a) = i" "DeriveWasmRelayStreamSsrcs (rg_callID r) i = Inr (pr_streamSSRCs (rg_store r ! a))"
    "pr_ssrc (rg_store r ! a) = pr_streamSSRCs (rg_store r ! a) ! 0" "warpMITagLen (pr_pipe (rg_store r ! a)) = WarpMITagLen"
    "group_keys r i = Inr (recvKeys (pr_pipe (rg_store r ! a)))" using a(2) by (auto simp: derived_def keyed_by_def pipes_def)
qed

lemma audio_index:
  assumes "reg_ok r"
  shows "map_of (rg_bySSRC r) s = Some a \<longleftrightarrow> (pr_participantID (rg_store r ! a), a) \<in> set (rg_byDeviceID r) \<and> s = pr_ssrc (rg_store r ! a)"
proof -
  have idx: "reg_indexed r" using assms by (simp add: reg_ok_def receivers_ok_def)
  then have "map_of (rg_bySSRC r) s = Some a \<longleftrightarrow> a \<in> snd ` set (rg_byDeviceID r) \<and> s = pr_ssrc (rg_store r ! a)"
    by (auto simp: indexed_def names_def)
  then show ?thesis using indexedD(4) [OF idx, of a] by force
qed

lemma audio_accepted:
  assumes "reg_ok r" "DecodeAudio decode packet r = (Some m, r')"
  shows "\<exists>a ssrcs keys roc. (da_ParticipantID m, a) \<in> set (rg_byDeviceID r) \<and>
    DeriveWasmRelayStreamSsrcs (rg_callID r) (da_ParticipantID m) = Inr ssrcs \<and> da_SSRC m = ssrcs ! 0 \<and>
    group_keys r (da_ParticipantID m) = Inr keys \<and>
    VerifyWarpMITag (AuthKey keys) (take (length packet - 4) packet) roc 4 (drop (length packet - 4) packet)"
proof -
  obtain h a where h: "ParseRtpHeader packet = Some h" "map_of (rg_bySSRC r) (Ssrc h) = Some a"
    using assms(2) by (auto simp: DecodeAudio_def split: option.splits)
  obtain h' x p where u: "UnprotectAudio packet (pr_pipe (rg_store r ! a)) = (Some (h', x), p)"
    and m: "da_ParticipantID m = pr_participantID (rg_store r ! a)" "da_SSRC m = Ssrc h'"
    using assms(2) h by (auto simp: DecodeAudio_def Let_def split: option.splits prod.splits)
  have mem: "(pr_participantID (rg_store r ! a), a) \<in> set (rg_byDeviceID r)" and s: "Ssrc h = pr_ssrc (rg_store r ! a)"
    using h(2) audio_index [OF assms(1)] by auto
  note f = active_receiver [OF assms(1) mem]
  note acc = UnprotectAudio_accepts [OF u f(4)]
  have "Ssrc h' = Ssrc h" by (rule ParseRtpHeader_prefix [OF h(1) acc(1)])
  then show ?thesis using mem f acc(2) m s by auto
qed

lemma audio_played:
  assumes "reg_ok r" "(i, a) \<in> set (rg_byDeviceID r)" "group_keys r i = Inr keys"
    "DeriveWasmRelayStreamSsrcs (rg_callID r) i = Inr (Ssrc h # ssrcs)" "PayloadType h < 128" "payload \<noteq> []"
  shows "map_option (\<lambda>m. (da_ParticipantID m, da_Timestamp m, da_PCM m))
      (fst (DecodeAudio decode (wire_packet keys h (EstimateRoc (SequenceNumber h) (recvRoc (pr_pipe (rg_store r ! a)))) payload) r)) =
    Some (i, Timestamp h, fst (decode payload (pr_decoder (rg_store r ! a))))"
proof -
  note f = active_receiver [OF assms(1,2)]
  let ?p = "pr_pipe (rg_store r ! a)"
  have "pr_streamSSRCs (rg_store r ! a) = Ssrc h # ssrcs" using f(2) assms(4) by simp
  then have ssrc: "Ssrc h = pr_ssrc (rg_store r ! a)" using f(3) by simp
  have keys: "recvKeys ?p = keys" using f(5) assms(3) by simp
  have "wf_keys (recvKeys ?p)" using group_keys_wf [OF assms(3)] keys by simp
  note u = UnprotectAudio_wire [OF this f(4) assms(5,6) refl]
  have "ParseRtpHeader (wire_packet keys h roc payload) = Some (h\<lparr>ExtensionWord := None\<rparr>)" for roc
    using encoded_header_parses [OF assms(5)] by (simp add: wire_packet_def AppendWarpMITag_def)
  moreover have "map_of (rg_bySSRC r) (Ssrc h) = Some a" using audio_index [OF assms(1)] assms(2) f(1) ssrc by simp
  ultimately show ?thesis using u keys f(1) by (simp add: DecodeAudio_def Let_def split_beta)
qed

text \<open>
  C20: in every state of a group call, audio is played for a participant only if the participant is in the current roster, the packet
  carries the SSRC derived from that participant's id, and its tag verifies under that participant's key of the current epoch; and
  a packet an active participant protects under that key is played as theirs, with the payload they sent.
\<close>

theorem group_audio_attributed:
  assumes "newParticipantReceiveRegistry d callID callKey self peer = Inr r0"
  shows "let r = fold (reg_step decode) evs r0 in
    (\<forall>packet m r'. DecodeAudio decode packet r = (Some m, r') \<longrightarrow>
      (\<exists>a ssrcs keys roc. (da_ParticipantID m, a) \<in> set (rg_byDeviceID r) \<and>
        DeriveWasmRelayStreamSsrcs callID (da_ParticipantID m) = Inr ssrcs \<and> da_SSRC m = ssrcs ! 0 \<and> group_keys r (da_ParticipantID m) = Inr keys \<and>
        VerifyWarpMITag (AuthKey keys) (take (length packet - 4) packet) roc 4 (drop (length packet - 4) packet))) \<and>
    (\<forall>(i, a) \<in> set (rg_byDeviceID r). \<forall>keys h payload. group_keys r i = Inr keys \<and> DeriveWasmRelayStreamSsrcs callID i = Inr (Ssrc h # ssrcs) \<and>
      PayloadType h < 128 \<and> payload \<noteq> [] \<longrightarrow>
      (let packet = wire_packet keys h (EstimateRoc (SequenceNumber h) (recvRoc (pr_pipe (rg_store r ! a)))) payload
       in map_option (\<lambda>m. (da_ParticipantID m, da_Timestamp m, da_PCM m)) (fst (DecodeAudio decode packet r)) =
         Some (i, Timestamp h, fst (decode payload (pr_decoder (rg_store r ! a))))))"
proof -
  define r where "r = fold (reg_step decode) evs r0"
  have ok: "reg_ok r" unfolding r_def by (rule reg_run_ok [OF start_ok [OF assms]])
  have c: "rg_callID r = callID" using call_run [of decode evs r0] follows_start(2) [OF assms] by (simp add: r_def call_of_def)
  show ?thesis unfolding Let_def r_def [symmetric] using audio_accepted [OF ok] audio_played [OF ok] unfolding c by blast
qed

section \<open>A call\<close>

lemma registry_total:
  assumes "32 \<le> length callKey" "ParseJID peer = (jid, None)"
  shows "\<exists>r. newParticipantReceiveRegistry d callID callKey self peer = Inr r"
  using newReceiver_total [of "\<lparr>rg_callID = callID, rg_callKey = callKey, rg_selfLID = self, rg_selfID = FormatE2ESrtpParticipantID self,
      rg_fallbackID = [], rg_transactionID = 0, rg_rosterGeneration = 0, rg_hasGroupUpdate = False, rg_decoderFactory = d,
      rg_byDeviceID = [], rg_byPID = [], rg_bySSRC = [], rg_byVideoSSRC = [], rg_byAppDataSSRC = [], rg_bySRTCPSSRC = [],
      rg_sendPipes = [], rg_srtcpSenders = [], rg_pendingEpochs = [],
      rg_installedEpoch = \<lparr>ie_transactionID = 0, ie_rawKey = []\<rparr>, rg_hasEpoch = False, rg_store = []\<rparr>" "ToNonAD jid" jid 0 False] assms
  by (auto simp: newParticipantReceiveRegistry_def)

text \<open>An epoch that comes before its roster and one that comes too late: the roster brings the first into force, the second is ignored.\<close>

definition empty_roster :: "u32 \<Rightarrow> groupCallUpdate" where
  "empty_roster t = \<lparr>nu_CallID = [], nu_CallCreator = EmptyJID, nu_GroupJID = EmptyJID, nu_TransactionID = t, nu_Media = [], nu_ConnectedLimit = 0,
     nu_Joinable = False, nu_AVUpgradable = False, nu_RekeyRequested = False, nu_Participants = [], nu_Relay = None\<rparr>"

lemma epoch_keeps_roster:
  "rg_hasGroupUpdate (snd (ApplyGroupRawEpoch t k r)) = rg_hasGroupUpdate r \<and> rg_transactionID (snd (ApplyGroupRawEpoch t k r)) = rg_transactionID r"
  by (auto simp: ApplyGroupRawEpoch_def applyGroupRawEpochLocked_def installGroupRawEpochLocked_def installPreparedGroupRawEpochLocked_def
      bindE_Inr_conv split: option.split sum.split)

lemma registry_start:
  assumes "newParticipantReceiveRegistry d callID callKey self peer = Inr r" "ParseJID peer = (jid, None)"
  shows "\<not> rg_hasGroupUpdate r" "(FormatE2ESrtpParticipantID (String jid), 0) \<in> set (rg_byDeviceID r)"
  using assms by (auto simp: newParticipantReceiveRegistry_def Let_def bindE_Inr_conv dest: newReceiver_ok(2))

abbreviation "example_jid \<equiv> \<lparr>User = ''2'', RawAgent = 0, Device = 1, Integrator = 0, Server = ''lid''\<rparr>"

lemma example_String: "String example_jid = ''2:1@lid''"
  by (simp add: String_def format_uint.simps digit_char_def char_of_def bit_0)

lemma example_peer: "ParseJID ''2:1@lid'' = (example_jid, None)" "FormatE2ESrtpParticipantID (String example_jid) = ''2:1@lid''"
proof -
  show "ParseJID ''2:1@lid'' = (example_jid, None)"
    using ParseJID_String [of example_jid] unfolding example_String by (simp add: printable_jid_def)
  show "FormatE2ESrtpParticipantID (String example_jid) = ''2:1@lid''"
    using FormatParticipantID_lid [of "''2:1''" "[]"] unfolding example_String
    by (simp add: FormatE2ESrtpParticipantID_def plain_user_def is_digit_def)
qed

theorem group_epochs_converge_witness:
  "\<exists>r0 r. newParticipantReceiveRegistry () ''call'' (replicate 32 7) ''1:1@lid'' ''2:1@lid'' = Inr r0 \<and>
     r = fold (reg_step (\<lambda>x u. (x, u))) [Epoch 5 (replicate 32 1), Roster (empty_roster 6) (Some (1, False)), Epoch 3 (replicate 32 2)] r0 \<and>
     rg_hasEpoch r \<and> ie_transactionID (rg_installedEpoch r) = 5"
proof -
  obtain r0 where r0: "newParticipantReceiveRegistry () ''call'' (replicate 32 7) ''1:1@lid'' ''2:1@lid'' = Inr r0"
    using registry_total [OF _ example_peer(1), of "replicate 32 7" "()" "''call''" "''1:1@lid''"] by auto
  let ?evs = "[Epoch 5 (replicate 32 1), Roster (empty_roster 6) (Some (1, False)), Epoch 3 (replicate 32 2)]"
  let ?r1 = "snd (ApplyGroupRawEpoch 5 (replicate 32 1) r0)" and ?r = "fold (reg_step (\<lambda>x u. (x, u))) ?evs r0"
  have "reg_ok ?r1" "\<not> rg_hasGroupUpdate ?r1"
    using epoch_ok [OF start_ok [OF r0]] registry_start(1) [OF r0 example_peer(1)] by (simp_all add: epoch_keeps_roster)
  then have "rg_hasGroupUpdate ?r" "rg_transactionID ?r = 6"
    using roster_empty [of ?r1 "empty_roster 6"] by (simp_all add: epoch_keeps_roster empty_roster_def)
  then have now: "{t. (\<exists>k. Epoch t k \<in> set ?evs) \<and> rg_hasGroupUpdate ?r \<and> t \<le> rg_transactionID ?r} = {3, 5}" by auto
  have K: "\<forall>t k. Epoch t k \<in> set ?evs \<longrightarrow> k = (\<lambda>t. replicate 32 (if t = 5 then 1 else 2)) t \<and> length k = 32" by auto
  have "rg_hasEpoch ?r \<and> ie_transactionID (rg_installedEpoch ?r) = Max {3, 5}"
    using group_epochs_converge [OF r0 K, of "\<lambda>x u. (x, u)"] unfolding Let_def now by auto
  moreover have "Max {3, 5 :: u32} = 5" by simp
  ultimately show ?thesis using r0 by auto
qed

theorem group_audio_attributed_witness:
  "\<exists>r0 h keys m. newParticipantReceiveRegistry () ''call'' (replicate 32 7) ''1:1@lid'' ''2:1@lid'' = Inr r0 \<and> group_keys r0 ''2:1@lid'' = Inr keys \<and>
     fst (DecodeAudio (\<lambda>x u. (x, u)) (wire_packet keys h (EstimateRoc (SequenceNumber h) (recvRoc (pr_pipe (rg_store r0 ! 0)))) [1, 2, 3]) r0) = Some m \<and>
     da_ParticipantID m = ''2:1@lid'' \<and> da_PCM m = [1, 2, 3]"
proof -
  obtain r0 where r0: "newParticipantReceiveRegistry () ''call'' (replicate 32 7) ''1:1@lid'' ''2:1@lid'' = Inr r0"
    using registry_total [OF _ example_peer(1), of "replicate 32 7" "()" "''call''" "''1:1@lid''"] by auto
  have mem: "(''2:1@lid'', 0) \<in> set (rg_byDeviceID r0)" using registry_start(2) [OF r0 example_peer(1)] by (simp add: example_peer(2))
  note f = active_receiver [OF start_ok [OF r0] mem]
  obtain s ss where ss: "DeriveWasmRelayStreamSsrcs ''call'' ''2:1@lid'' = Inr (s # ss)"
    using relay_streams [of "''call''" "''2:1@lid''"] by (metis length_0_conv list.exhaust zero_neq_numeral)
  let ?h = "\<lparr>Marker = False, PayloadType = 120, SequenceNumber = 1, Timestamp = 960, Ssrc = s, ExtensionWord = None, VideoExtension = None\<rparr>"
  let ?k = "recvKeys (pr_pipe (rg_store r0 ! 0))"
  from group_audio_attributed [OF r0, of "\<lambda>x u. (x, u)" "[]" ss] mem f(5) ss
  have "map_option (\<lambda>m. (da_ParticipantID m, da_Timestamp m, da_PCM m))
      (fst (DecodeAudio (\<lambda>x u. (x, u)) (wire_packet ?k ?h (EstimateRoc (SequenceNumber ?h) (recvRoc (pr_pipe (rg_store r0 ! 0)))) [1, 2, 3]) r0)) =
    Some (''2:1@lid'', 960, [1, 2, 3])"
    by (auto simp: Let_def dest!: bspec [of _ _ "(''2:1@lid'', 0)"] spec [of _ ?k] spec [of _ ?h] spec [of _ "[1, 2, 3]"])
  then obtain m where "fst (DecodeAudio (\<lambda>x u. (x, u)) (wire_packet ?k ?h (EstimateRoc (SequenceNumber ?h) (recvRoc (pr_pipe (rg_store r0 ! 0)))) [1, 2, 3]) r0) = Some m"
    "da_ParticipantID m = ''2:1@lid''" "da_PCM m = [1, 2, 3]" by auto
  with r0 f(5) show ?thesis by blast
qed

end
