(* ===== verification/AppData.thy ===== *)
theory AppData
  imports GroupEpochs
begin

text \<open>
  Call reactions over the application-data stream (\<^verbatim>\<open>wa-core/call_appdata.go\<close> and the branch of the receive loop in
  \<^verbatim>\<open>call_engine_media.go\<close> that handles them). A reaction is a nested protobuf message; the sender protects it ten times under
  consecutive RTP sequence numbers, the receiver opens it with the pipeline of its participant and keeps the newest transaction id.
  The protobuf wire library is outside the repository: its functions are the fields of a record and the laws of
  \<open>protowire_laws\<close> are what its documentation promises. The decoding loops are options, so that not
  returning would be \<open>None\<close>; a slice out of range is the error \<open>SlicePanic\<close>. The pauses between copies are left out.
\<close>

section \<open>The wire library\<close>

record protowire =
  VarintType :: int
  BytesType :: int
  AppendTag :: "bytes \<Rightarrow> int \<Rightarrow> int \<Rightarrow> bytes"
  AppendVarint :: "bytes \<Rightarrow> u64 \<Rightarrow> bytes"
  AppendBytes :: "bytes \<Rightarrow> bytes \<Rightarrow> bytes"
  ConsumeTag :: "bytes \<Rightarrow> int \<times> int \<times> int"
  ConsumeVarint :: "bytes \<Rightarrow> u64 \<times> int"
  ConsumeBytes :: "bytes \<Rightarrow> bytes \<times> int"
  ConsumeFieldValue :: "int \<Rightarrow> int \<Rightarrow> bytes \<Rightarrow> int"

datatype appdata_error = ParseError int | InvalidUtf8 | NoTransactionID | SlicePanic | Unavailable | ProtectFailed srtp_error | SendFailed

section \<open>Reactions\<close>

record appDataReaction =
  ar_transactionID :: u64
  ar_emoji :: string

definition encodeAppDataReaction :: "protowire \<Rightarrow> u64 \<Rightarrow> string \<Rightarrow> bytes" where
  "encodeAppDataReaction pw transactionID emoji =
     (let reaction = AppendTag pw [] 1 (VarintType pw);
          reaction = AppendVarint pw reaction transactionID;
          reaction = AppendTag pw reaction 2 (BytesType pw);
          reaction = AppendBytes pw reaction (bytes_of_string emoji);
          message = AppendTag pw [] 1 (BytesType pw);
          message = AppendBytes pw message reaction;
          payloads = AppendTag pw [] 1 (BytesType pw)
      in AppendBytes pw payloads message)"

text \<open>\<open>b[n:]\<close> for a non-negative \<open>n\<close>.\<close>

definition slice_from :: "int \<Rightarrow> bytes \<Rightarrow> bytes option" where
  "slice_from n b = (if int (length b) < n then None else Some (drop (nat n) b))"

text \<open>The switch on one field of a reaction: the reaction and the length of the value, negative on a parse error.\<close>

definition reaction_field :: "protowire \<Rightarrow> int \<Rightarrow> int \<Rightarrow> bytes \<Rightarrow> appDataReaction \<Rightarrow> appdata_error + appDataReaction \<times> int" where
  "reaction_field pw num typ message reaction =
     (if num = 1 \<and> typ = VarintType pw then
        let (v, n) = ConsumeVarint pw message in Inr (reaction\<lparr>ar_transactionID := v\<rparr>, n)
      else if num = 2 \<and> typ = BytesType pw then
        let (raw, n) = ConsumeBytes pw message in
        if 0 \<le> n then
          if \<not> utf8_valid raw then Inl InvalidUtf8 else Inr (reaction\<lparr>ar_emoji := string_of_bytes raw\<rparr>, n)
        else Inr (reaction, n)
      else Inr (reaction, ConsumeFieldValue pw num typ message))"

partial_function (option) reaction_loop :: "protowire \<Rightarrow> bytes \<Rightarrow> appDataReaction \<Rightarrow> (appdata_error + appDataReaction) option" where
  "reaction_loop pw message reaction =
     (if message = [] then Some (Inr reaction)
      else case ConsumeTag pw message of (num, typ, n) \<Rightarrow>
        if n < 0 then Some (Inl (ParseError n))
        else case slice_from n message of
          None \<Rightarrow> Some (Inl SlicePanic)
        | Some message \<Rightarrow>
          (case reaction_field pw num typ message reaction of
             Inl e \<Rightarrow> Some (Inl e)
           | Inr (reaction, n) \<Rightarrow>
               if n < 0 then Some (Inl (ParseError n))
               else case slice_from n message of
                 None \<Rightarrow> Some (Inl SlicePanic)
               | Some message \<Rightarrow> reaction_loop pw message reaction))"

definition decodeReactionInfo :: "protowire \<Rightarrow> bytes \<Rightarrow> (appdata_error + appDataReaction) option" where
  "decodeReactionInfo pw message =
     map_option (\<lambda>res. bindE res (\<lambda>reaction. if ar_transactionID reaction = 0 then Inl NoTransactionID else Inr reaction))
       (reaction_loop pw message \<lparr>ar_transactionID = 0, ar_emoji = []\<rparr>)"

partial_function (option) decodeAppDataMessage :: "protowire \<Rightarrow> bytes \<Rightarrow> (appdata_error + appDataReaction option) option" where
  "decodeAppDataMessage pw message =
     (if message = [] then Some (Inr None)
      else case ConsumeTag pw message of (num, typ, n) \<Rightarrow>
        if n < 0 then Some (Inl (ParseError n))
        else case slice_from n message of
          None \<Rightarrow> Some (Inl SlicePanic)
        | Some message \<Rightarrow>
          if num = 1 \<and> typ = BytesType pw then
            (case ConsumeBytes pw message of (reaction, n) \<Rightarrow>
               if n < 0 then Some (Inl (ParseError n))
               else map_option (map_sum id Some) (decodeReactionInfo pw reaction))
          else
            (let n = ConsumeFieldValue pw num typ message in
             if n < 0 then Some (Inl (ParseError n))
             else case slice_from n message of
               None \<Rightarrow> Some (Inl SlicePanic)
             | Some message \<Rightarrow> decodeAppDataMessage pw message))"

partial_function (option) reactions_loop :: "protowire \<Rightarrow> bytes \<Rightarrow> appDataReaction list \<Rightarrow> (appdata_error + appDataReaction list) option" where
  "reactions_loop pw payload reactions =
     (if payload = [] then Some (Inr reactions)
      else case ConsumeTag pw payload of (num, typ, n) \<Rightarrow>
        if n < 0 then Some (Inl (ParseError n))
        else case slice_from n payload of
          None \<Rightarrow> Some (Inl SlicePanic)
        | Some payload \<Rightarrow>
          if num = 1 \<and> typ = BytesType pw then
            (case ConsumeBytes pw payload of (message, n) \<Rightarrow>
               if n < 0 then Some (Inl (ParseError n))
               else case slice_from n payload of
                 None \<Rightarrow> Some (Inl SlicePanic)
               | Some payload \<Rightarrow>
                   Option.bind (decodeAppDataMessage pw message) (\<lambda>res.
                     case res of
                       Inl e \<Rightarrow> Some (Inl e)
                     | Inr None \<Rightarrow> reactions_loop pw payload reactions
                     | Inr (Some reaction) \<Rightarrow> reactions_loop pw payload (reactions @ [reaction])))
          else
            (let n = ConsumeFieldValue pw num typ payload in
             if n < 0 then Some (Inl (ParseError n))
             else case slice_from n payload of
               None \<Rightarrow> Some (Inl SlicePanic)
             | Some payload \<Rightarrow> reactions_loop pw payload reactions))"

definition decodeAppDataReactions :: "protowire \<Rightarrow> bytes \<Rightarrow> (appdata_error + appDataReaction list) option" where
  "decodeAppDataReactions pw payload = reactions_loop pw payload []"

section \<open>Receiving\<close>

record appDataReceiver =
  lastTransactionID :: u64

fun first_new :: "appDataReaction list \<Rightarrow> appDataReceiver \<Rightarrow> appDataReaction option \<times> appDataReceiver" where
  "first_new [] r = (None, r)"
| "first_new (reaction # reactions) r =
     (if ar_transactionID reaction \<le> lastTransactionID r then first_new reactions r
      else (Some reaction, r\<lparr>lastTransactionID := ar_transactionID reaction\<rparr>))"

definition receive :: "protowire \<Rightarrow> bytes \<Rightarrow> appDataReceiver \<Rightarrow> ((appdata_error + appDataReaction option) \<times> appDataReceiver) option" where
  "receive pw payload r =
     map_option (\<lambda>res. case res of
         Inl e \<Rightarrow> (Inl e, r)
       | Inr reactions \<Rightarrow> (let (reaction, r) = first_new reactions r in (Inr reaction, r)))
       (decodeAppDataReactions pw payload)"

record CallReaction =
  cr_Emoji :: string
  cr_ParticipantID :: string
  cr_Sender :: JID
  cr_Device :: JID
  cr_PID :: u32
  cr_HasPID :: bool
  cr_Removed :: bool

text \<open>What the handlers use of a call: its peer, and whether a reaction callback is set; \<open>None\<close> is a nil call.\<close>

record reaction_call =
  rc_Peer :: JID
  rc_onReaction :: bool

text \<open>The result, the values passed to the callback, and the receiver.\<close>

type_synonym handled = "(appdata_error + bool) \<times> CallReaction list \<times> appDataReceiver"

definition handle_received :: "reaction_call option \<Rightarrow> (appDataReaction \<Rightarrow> CallReaction) \<Rightarrow>
    (appdata_error + appDataReaction option) \<times> appDataReceiver \<Rightarrow> handled" where
  "handle_received call mk = (\<lambda>(res, receiver).
     case (res, call) of
       (Inl e, _) \<Rightarrow> (Inl e, [], receiver)
     | (Inr None, _) \<Rightarrow> (Inr False, [], receiver)
     | (Inr (Some reaction), None) \<Rightarrow> (Inr False, [], receiver)
     | (Inr (Some reaction), Some c) \<Rightarrow> (Inr True, if rc_onReaction c then [mk reaction] else [], receiver))"

definition handleAppDataReactionFrom :: "protowire \<Rightarrow> reaction_call option \<Rightarrow> appDataReceiver \<Rightarrow> JID \<Rightarrow> bytes \<Rightarrow> handled option" where
  "handleAppDataReactionFrom pw call receiver sender payload =
     map_option (handle_received call (\<lambda>reaction.
         \<lparr>cr_Emoji = ar_emoji reaction, cr_ParticipantID = [], cr_Sender = sender, cr_Device = EmptyJID, cr_PID = 0, cr_HasPID = False,
          cr_Removed = (ar_emoji reaction = [])\<rparr>))
       (receive pw payload receiver)"

definition handleAppDataReaction :: "protowire \<Rightarrow> reaction_call option \<Rightarrow> appDataReceiver \<Rightarrow> bytes \<Rightarrow> handled option" where
  "handleAppDataReaction pw call receiver payload =
     handleAppDataReactionFrom pw call receiver (case call of None \<Rightarrow> EmptyJID | Some c \<Rightarrow> rc_Peer c) payload"

definition handleGroupAppDataReaction :: "protowire \<Rightarrow> reaction_call option \<Rightarrow> appDataReceiver \<Rightarrow> unprotectedParticipantMedia \<Rightarrow> handled option" where
  "handleGroupAppDataReaction pw call receiver unprotected =
     map_option (handle_received call (\<lambda>reaction.
         \<lparr>cr_Emoji = ar_emoji reaction, cr_ParticipantID = um_ParticipantID unprotected, cr_Sender = um_UserJID unprotected,
          cr_Device = um_DeviceJID unprotected, cr_PID = um_PID unprotected, cr_HasPID = um_HasPID unprotected,
          cr_Removed = (ar_emoji reaction = [])\<rparr>))
       (receive pw (um_Payload unprotected) receiver)"

text \<open>
  The branch of the receive loop for a packet of the application-data payload type: the receivers are a map from the addresses of
  the participants, filled on demand, and forgotten when the roster drops the participant. The loop itself is in \<open>MediaLoop\<close>.
\<close>

definition forget_receivers :: "nat set \<Rightarrow> (nat \<times> appDataReceiver) list \<Rightarrow> (nat \<times> appDataReceiver) list" where
  "forget_receivers active appDataReceivers = filter (\<lambda>(a, _). a \<in> active) appDataReceivers"

definition app_data_packet :: "protowire \<Rightarrow> reaction_call option \<Rightarrow> bytes \<Rightarrow> 'd participantReceiveRegistry \<times> (nat \<times> appDataReceiver) list \<Rightarrow>
    (CallReaction list \<times> 'd participantReceiveRegistry \<times> (nat \<times> appDataReceiver) list) option" where
  "app_data_packet pw call pkt = (\<lambda>(audioReceivers, appDataReceivers).
     case UnprotectAppData pkt audioReceivers of
       (None, audioReceivers) \<Rightarrow> Some ([], audioReceivers, appDataReceivers)
     | (Some unprotected, audioReceivers) \<Rightarrow>
         let receiver = (case map_of appDataReceivers (um_receiver unprotected) of Some rcv \<Rightarrow> rcv | None \<Rightarrow> \<lparr>lastTransactionID = 0\<rparr>)
         in map_option (\<lambda>(_, reactions, receiver).
                (reactions, audioReceivers, AList.update (um_receiver unprotected) receiver appDataReceivers))
              (handleGroupAppDataReaction pw call receiver unprotected))"

section \<open>Sending\<close>

record appDataSender =
  as_pipe :: "MediaPipeline option"
  as_ssrc :: u32
  as_sendPacket :: "(bytes \<Rightarrow> bool) option"
  as_sequenceNumber :: u16
  as_timestamp :: u32
  as_transactionID :: u64

definition appDataRetransmitCount :: nat where "appDataRetransmitCount = 10"
definition appDataTimestampStep :: u32 where "appDataTimestampStep = 50"
definition RtpPayloadTypeAppData :: u8 where "RtpPayloadTypeAppData = 119"

definition newAppDataSender :: "MediaPipeline option \<Rightarrow> u32 \<Rightarrow> (bytes \<Rightarrow> bool) option \<Rightarrow> appDataSender" where
  "newAppDataSender pipe ssrc sendPacket =
     \<lparr>as_pipe = pipe, as_ssrc = ssrc, as_sendPacket = sendPacket, as_sequenceNumber = 0, as_timestamp = 0, as_transactionID = 0\<rparr>"

text \<open>The loop over the copies; the packets are those handed to \<open>sendPacket\<close>, whose answer is whether it succeeded.\<close>

fun send_copies :: "nat \<Rightarrow> bytes \<Rightarrow> (bytes \<Rightarrow> bool) \<Rightarrow> MediaPipeline \<Rightarrow> appDataSender \<Rightarrow> appdata_error option \<times> bytes list \<times> appDataSender" where
  "send_copies 0 payload send pipe s = (None, [], s)"
| "send_copies (Suc i) payload send pipe s =
     (let s = s\<lparr>as_sequenceNumber := as_sequenceNumber s + 1, as_timestamp := as_timestamp s + appDataTimestampStep\<rparr>;
          header = \<lparr>Marker = False, PayloadType = RtpPayloadTypeAppData, SequenceNumber = as_sequenceNumber s,
            Timestamp = as_timestamp s, Ssrc = as_ssrc s, ExtensionWord = None, VideoExtension = None\<rparr>;
          (out, pipe) = ProtectRTP header payload pipe;
          s = s\<lparr>as_pipe := Some pipe\<rparr>
      in case out of
           Inl e \<Rightarrow> (Some (ProtectFailed e), [], s)
         | Inr packet \<Rightarrow>
             if \<not> send packet then (Some SendFailed, [packet], s)
             else let (err, packets, s) = send_copies i payload send pipe s in (err, packet # packets, s))"

definition sendReaction :: "protowire \<Rightarrow> string \<Rightarrow> appDataSender \<Rightarrow> appdata_error option \<times> bytes list \<times> appDataSender" where
  "sendReaction pw emoji s =
     (if \<not> utf8_valid (bytes_of_string emoji) then (Some InvalidUtf8, [], s)
      else case (as_pipe s, as_sendPacket s) of
        (Some pipe, Some send) \<Rightarrow>
          let s = s\<lparr>as_transactionID := as_transactionID s + 1\<rparr>
          in send_copies appDataRetransmitCount (encodeAppDataReaction pw (as_transactionID s) emoji) send pipe s
      | _ \<Rightarrow> (Some Unavailable, [], s))"

definition sender_close :: "appDataSender \<Rightarrow> appDataSender" where
  "sender_close s = s\<lparr>as_sendPacket := None\<rparr>"

datatype mediaPayloadKind = mediaPayloadUnknown | mediaPayloadAudio | mediaPayloadVideo | mediaPayloadAppData

definition classifyMediaPayload :: "RtpHeader \<Rightarrow> mediaPayloadKind" where
  "classifyMediaPayload header =
     (if PayloadType header = RtpPayloadTypeAppData then mediaPayloadAppData
      else if PayloadType header = RtpPayloadTypeH264 then mediaPayloadVideo
      else if IsWhatsappOpusRtpPayload (PayloadType header) then mediaPayloadAudio
      else mediaPayloadUnknown)"

section \<open>Decoding ends\<close>

lemma loops_finish [simp]:
  "reaction_loop pw [] reaction = Some (Inr reaction)" "decodeAppDataMessage pw [] = Some (Inr None)"
  "reactions_loop pw [] reactions = Some (Inr reactions)"
  by (simp_all add: reaction_loop.simps decodeAppDataMessage.simps reactions_loop.simps)

text \<open>A decoding ends without a panic, and what it returns satisfies \<open>P\<close>.\<close>

definition returns :: "('a \<Rightarrow> bool) \<Rightarrow> (appdata_error + 'a) option \<Rightarrow> bool" where
  "returns P out \<longleftrightarrow> (case out of None \<Rightarrow> False | Some (Inl e) \<Rightarrow> e \<noteq> SlicePanic | Some (Inr x) \<Rightarrow> P x)"

lemma returns_simps [simp]:
  "\<not> returns P None" "returns P (Some (Inl e)) \<longleftrightarrow> e \<noteq> SlicePanic" "returns P (Some (Inr x)) \<longleftrightarrow> P x"
  by (simp_all add: returns_def)

abbreviation (input) valid_emoji :: "appDataReaction \<Rightarrow> bool" where
  "valid_emoji reaction \<equiv> utf8_valid (bytes_of_string (ar_emoji reaction))"

abbreviation (input) valid_reaction :: "appDataReaction \<Rightarrow> bool" where
  "valid_reaction reaction \<equiv> valid_emoji reaction \<and> ar_transactionID reaction \<noteq> 0"

section \<open>The laws of the wire library\<close>

text \<open>
  What is appended is read back with its length, whatever follows; a length is negative on an error and otherwise within the buffer, and
  a tag has at least one byte. Tags and numbers take at most ten bytes.
\<close>

locale protowire_laws =
  fixes pw :: protowire
  assumes types_differ: "VarintType pw \<noteq> BytesType pw"
    and tag_law: "1 \<le> num \<Longrightarrow> num < 2 ^ 29 \<Longrightarrow> ty \<in> {VarintType pw, BytesType pw} \<Longrightarrow>
      \<exists>t. t \<noteq> [] \<and> length t \<le> 10 \<and> (\<forall>b. AppendTag pw b num ty = b @ t) \<and> (\<forall>r. ConsumeTag pw (t @ r) = (num, ty, int (length t)))"
    and varint_law: "\<exists>t. length t \<le> 10 \<and> (\<forall>b. AppendVarint pw b v = b @ t) \<and> (\<forall>r. ConsumeVarint pw (t @ r) = (v, int (length t)))"
    and bytes_law: "length x < 2 ^ 62 \<Longrightarrow>
      \<exists>t. length t \<le> 10 + length x \<and> (\<forall>b. AppendBytes pw b x = b @ t) \<and> (\<forall>r. ConsumeBytes pw (t @ r) = (x, int (length t)))"
    and tag_length: "ConsumeTag pw b = (num, ty, n) \<Longrightarrow> n < 0 \<or> 1 \<le> n \<and> n \<le> int (length b)"
    and varint_length: "snd (ConsumeVarint pw b) \<le> int (length b)"
    and bytes_length: "snd (ConsumeBytes pw b) \<le> int (length b)"
    and value_length: "ConsumeFieldValue pw num ty b \<le> int (length b)"
begin

text \<open>The two steps of every decoding loop: a tag, then its value.\<close>

lemma next_tag:
  obtains (finished) "b = []" | (err) num ty n where "b \<noteq> []" "ConsumeTag pw b = (num, ty, n)" "n < 0"
    | (tag) num ty n b' where "b \<noteq> []" "ConsumeTag pw b = (num, ty, n)" "\<not> n < 0" "slice_from n b = Some b'" "length b' < length b"
proof -
  obtain num ty n where t: "ConsumeTag pw b = (num, ty, n)" by (metis prod_cases3)
  from tag_length [OF t] have "\<not> n < 0 \<Longrightarrow> \<exists>b'. slice_from n b = Some b' \<and> length b' < length b" by (auto simp: slice_from_def)
  with t that show thesis by (metis linorder_not_less)
qed

lemma next_value:
  assumes "n \<le> int (length b)"
  obtains (err) "n < 0" | (val) b' where "\<not> n < 0" "slice_from n b = Some b'" "length b' \<le> length b"
  using assms that by (cases "n < 0") (auto simp: slice_from_def)

lemma field_length:
  assumes "reaction_field pw num ty b reaction = Inr (reaction', n)"
  shows "n \<le> int (length b)" "valid_emoji reaction \<Longrightarrow> valid_emoji reaction'"
  using assms varint_length [of b] bytes_length [of b] value_length [of num ty b]
  by (auto simp: reaction_field_def split: if_splits prod.splits)

lemma field_panic: "reaction_field pw num ty b reaction = Inl e \<Longrightarrow> e \<noteq> SlicePanic"
  by (auto simp: reaction_field_def Let_def split: prod.splits if_splits)

lemma reaction_loop_returns: "valid_emoji reaction \<Longrightarrow> returns valid_emoji (reaction_loop pw b reaction)"
proof (induction b arbitrary: reaction rule: length_induct)
  case (1 b)
  show ?case
  proof (cases rule: next_tag [of b])
    case (tag num ty n b1)
    show ?thesis
    proof (cases "reaction_field pw num ty b1 reaction")
      case (Inl e)
      with tag field_panic [OF Inl] show ?thesis by (simp add: reaction_loop.simps [of pw b])
    next
      case (Inr p)
      then obtain reaction' n' where p: "reaction_field pw num ty b1 reaction = Inr (reaction', n')" by (cases p) simp
      note f = field_length [OF p]
      from f(1) show ?thesis
        by (cases rule: next_value) (use 1 tag p f(2) in \<open>simp_all add: reaction_loop.simps [of pw b]\<close>)
    qed
  qed (use 1 in \<open>simp_all add: reaction_loop.simps [of pw b]\<close>)
qed

lemma decodeReactionInfo_returns: "returns valid_reaction (decodeReactionInfo pw b)"
  using reaction_loop_returns [of "\<lparr>ar_transactionID = 0, ar_emoji = []\<rparr>" b]
  by (auto simp: decodeReactionInfo_def returns_def bytes_of_string_def split: option.splits sum.splits)

lemma decodeAppDataMessage_returns: "returns (\<lambda>r. \<forall>x. r = Some x \<longrightarrow> valid_reaction x) (decodeAppDataMessage pw b)"
proof (induction b rule: length_induct)
  case (1 b)
  show ?case
  proof (cases rule: next_tag [of b])
    case (tag num ty n b1)
    show ?thesis
    proof (cases "num = 1 \<and> ty = BytesType pw")
      case True
      with tag decodeReactionInfo_returns [of "fst (ConsumeBytes pw b1)"] show ?thesis
        by (auto simp: decodeAppDataMessage.simps [of pw b] returns_def split: prod.split option.splits sum.splits)
    next
      case False
      show ?thesis using value_length [of num ty b1]
        by (cases rule: next_value) (use 1 tag False in \<open>auto simp: decodeAppDataMessage.simps [of pw b]\<close>)
    qed
  qed (simp_all add: decodeAppDataMessage.simps [of pw b])
qed

lemma reactions_loop_returns: "list_all valid_reaction rs \<Longrightarrow> returns (list_all valid_reaction) (reactions_loop pw b rs)"
proof (induction b arbitrary: rs rule: length_induct)
  case (1 b)
  show ?case
  proof (cases rule: next_tag [of b])
    case (tag num ty n b1)
    show ?thesis
    proof (cases "num = 1 \<and> ty = BytesType pw")
      case True
      obtain x n' where x: "ConsumeBytes pw b1 = (x, n')" by fastforce
      have "n' \<le> int (length b1)" using bytes_length [of b1] x by simp
      then show ?thesis
      proof (cases rule: next_value)
        case (val b2)
        with 1 tag have IH: "list_all valid_reaction rs' \<Longrightarrow> returns (list_all valid_reaction) (reactions_loop pw b2 rs')" for rs' by simp
        obtain y where "decodeAppDataMessage pw x = Some y" using decodeAppDataMessage_returns [of x] by (auto simp: returns_def split: option.splits)
        with decodeAppDataMessage_returns [of x] tag True x val 1(2) IH show ?thesis
          by (cases y) (auto simp: reactions_loop.simps [of pw b] split: option.split)
      qed (use tag True x in \<open>simp add: reactions_loop.simps [of pw b]\<close>)
    next
      case False
      show ?thesis using value_length [of num ty b1]
        by (cases rule: next_value) (use 1 tag False in \<open>auto simp: reactions_loop.simps [of pw b]\<close>)
    qed
  qed (use 1 in \<open>simp_all add: reactions_loop.simps [of pw b]\<close>)
qed

lemma decode_returns: "returns (list_all valid_reaction) (decodeAppDataReactions pw payload)"
  using reactions_loop_returns [of "[]" payload] by (simp add: decodeAppDataReactions_def)


text \<open>Reading back what was written.\<close>

lemma field_read:
  assumes "ConsumeTag pw (t @ x @ r) = (num, ty, int (length t))" "t \<noteq> []"
    "reaction_field pw num ty (x @ r) reaction = Inr (reaction', int (length x))"
  shows "reaction_loop pw (t @ x @ r) reaction = reaction_loop pw r reaction'"
  using assms by (simp add: reaction_loop.simps [of pw "t @ x @ r"] slice_from_def)

lemma reaction_encode_decode:
  assumes "transactionID \<noteq> 0" "utf8_valid (bytes_of_string emoji)" "length emoji < 2 ^ 61"
  shows "decodeAppDataReactions pw (encodeAppDataReaction pw transactionID emoji) =
      Some (Inr [\<lparr>ar_transactionID = transactionID, ar_emoji = emoji\<rparr>])"
    and "encodeAppDataReaction pw transactionID emoji \<noteq> []"
    and "length (encodeAppDataReaction pw transactionID emoji) \<le> length emoji + 80"
proof -
  obtain t1 where t1: "t1 \<noteq> []" "length t1 \<le> 10" "\<And>b. AppendTag pw b 1 (VarintType pw) = b @ t1"
    "\<And>r. ConsumeTag pw (t1 @ r) = (1, VarintType pw, int (length t1))" using tag_law [of 1 "VarintType pw"] by auto
  obtain t2 where t2: "t2 \<noteq> []" "length t2 \<le> 10" "\<And>b. AppendTag pw b 2 (BytesType pw) = b @ t2"
    "\<And>r. ConsumeTag pw (t2 @ r) = (2, BytesType pw, int (length t2))" using tag_law [of 2 "BytesType pw"] by auto
  obtain t3 where t3: "t3 \<noteq> []" "length t3 \<le> 10" "\<And>b. AppendTag pw b 1 (BytesType pw) = b @ t3"
    "\<And>r. ConsumeTag pw (t3 @ r) = (1, BytesType pw, int (length t3))" using tag_law [of 1 "BytesType pw"] by auto
  obtain v where v: "length v \<le> 10" "\<And>b. AppendVarint pw b transactionID = b @ v"
    "\<And>r. ConsumeVarint pw (v @ r) = (transactionID, int (length v))" using varint_law by metis
  obtain e where e: "length e \<le> 10 + length emoji" "\<And>b. AppendBytes pw b (bytes_of_string emoji) = b @ e"
    "\<And>r. ConsumeBytes pw (e @ r) = (bytes_of_string emoji, int (length e))" using bytes_law [of "bytes_of_string emoji"] assms(3) by auto
  let ?reaction = "t1 @ v @ t2 @ e"
  obtain m where m: "length m \<le> 10 + length ?reaction" "\<And>b. AppendBytes pw b ?reaction = b @ m"
    "\<And>r. ConsumeBytes pw (m @ r) = (?reaction, int (length m))" using bytes_law [of ?reaction] t1(2) v(1) t2(2) e(1) assms(3) by auto
  let ?message = "t3 @ m"
  have "length ?message < 2 ^ 62" using m(1) t1(2) v(1) t2(2) t3(2) e(1) assms(3) by simp
  then obtain p where p: "\<And>b. AppendBytes pw b ?message = b @ p" "\<And>r. ConsumeBytes pw (p @ r) = (?message, int (length p))"
    "length p \<le> 10 + length ?message"
    using bytes_law [of ?message] by blast
  have enc: "encodeAppDataReaction pw transactionID emoji = t3 @ p"
    using t1 t2 t3 v e m p by (simp add: encodeAppDataReaction_def)
  let ?res = "\<lparr>ar_transactionID = transactionID, ar_emoji = emoji\<rparr>"
  have "reaction_loop pw ?reaction \<lparr>ar_transactionID = 0, ar_emoji = []\<rparr> = reaction_loop pw (t2 @ e @ []) \<lparr>ar_transactionID = transactionID, ar_emoji = []\<rparr>"
    using t1 v by (subst field_read) (auto simp: reaction_field_def)
  also have "\<dots> = Some (Inr ?res)"
    using t2 e(3) [of "[]"] assms(2) types_differ by (subst field_read) (auto simp: reaction_field_def)
  finally have "decodeReactionInfo pw ?reaction = Some (Inr ?res)" using assms(1) by (simp add: decodeReactionInfo_def)
  then have "decodeAppDataMessage pw ?message = Some (Inr (Some ?res))"
    using t3 m(3) [of "[]"] by (simp add: decodeAppDataMessage.simps [of pw ?message] slice_from_def)
  then show "decodeAppDataReactions pw (encodeAppDataReaction pw transactionID emoji) = Some (Inr [?res])"
    using t3 p(2) [of "[]"] unfolding enc by (simp add: decodeAppDataReactions_def reactions_loop.simps [of pw "t3 @ p"] slice_from_def)
  show "encodeAppDataReaction pw transactionID emoji \<noteq> []" using enc t3(1) by simp
  show "length (encodeAppDataReaction pw transactionID emoji) \<le> length emoji + 80"
    using p(3) m(1) t1(2) v(1) t2(2) t3(2) e(1) unfolding enc by simp
qed

lemma receive_reaction:
  assumes "transactionID \<noteq> 0" "utf8_valid (bytes_of_string emoji)" "length emoji < 2 ^ 61"
  shows "receive pw (encodeAppDataReaction pw transactionID emoji) r =
    Some (if lastTransactionID r < transactionID
          then (Inr (Some \<lparr>ar_transactionID = transactionID, ar_emoji = emoji\<rparr>), r\<lparr>lastTransactionID := transactionID\<rparr>) else (Inr None, r))"
  by (auto simp: receive_def reaction_encode_decode(1) [OF assms])

end

section \<open>The wire format\<close>

text \<open>The protobuf wire format without groups: it satisfies the laws.\<close>

definition wire_varint :: "bytes \<Rightarrow> u64 \<times> int" where
  "wire_varint b = (let (v, n) = uvarint b in if n \<le> 0 then (0, -1) else (v, n))"

definition wire_tag :: "bytes \<Rightarrow> int \<times> int \<times> int" where
  "wire_tag b = (let (v, n) = wire_varint b in
     if n < 0 then (0, 0, n) else if uint v div 8 < 1 \<or> 2 ^ 29 \<le> uint v div 8 then (0, 0, -2) else (uint v div 8, uint v mod 8, n))"

definition wire_bytes :: "bytes \<Rightarrow> bytes \<times> int" where
  "wire_bytes b = (let (v, n) = wire_varint b in
     if n < 0 then ([], n) else if length b < nat n + unat v then ([], -1) else (take (unat v) (drop (nat n) b), n + int (unat v)))"

definition wire_value :: "int \<Rightarrow> int \<Rightarrow> bytes \<Rightarrow> int" where
  "wire_value num ty b =
     (if ty = 0 then snd (wire_varint b) else if ty = 2 then snd (wire_bytes b)
      else if ty = 5 then if length b < 4 then -1 else 4 else if ty = 1 then if length b < 8 then -1 else 8 else -4)"

definition wire_format :: protowire where
  "wire_format = \<lparr>VarintType = 0, BytesType = 2,
     AppendTag = (\<lambda>b num ty. append_uvarint b (word_of_int (num * 8 + ty))),
     AppendVarint = append_uvarint,
     AppendBytes = (\<lambda>b x. append_uvarint b (word_of_nat (length x)) @ x),
     ConsumeTag = wire_tag, ConsumeVarint = wire_varint, ConsumeBytes = wire_bytes, ConsumeFieldValue = wire_value\<rparr>"

lemma uvarint_loop_length: "snd (uvarint_loop b i x) \<le> int (i + length b)"
  by (induction b i x rule: uvarint_loop.induct) auto

lemma wire_varint_length: "snd (wire_varint b) \<le> int (length b)" "snd (wire_varint b) < 0 \<or> 1 \<le> snd (wire_varint b)"
  using uvarint_loop_length [of b 0 0] by (auto simp: wire_varint_def uvarint_def split: prod.split)

lemma wire_varint_read: "wire_varint (append_uvarint [] v @ r) = (v, int (length (append_uvarint [] v)))"
  by (simp add: wire_varint_def)

interpretation wire: protowire_laws wire_format
proof
  show "VarintType wire_format \<noteq> BytesType wire_format" by (simp add: wire_format_def)
next
  fix num ty :: int
  assume a: "1 \<le> num" "num < 2 ^ 29" "ty \<in> {VarintType wire_format, BytesType wire_format}"
  let ?v = "word_of_int (num * 8 + ty) :: u64"
  have "uint ?v = num * 8 + ty" using a unfolding unsigned_of_int by (auto simp: wire_format_def take_bit_int_eq_self)
  moreover have "(num * 8 + ty) div 8 = num" "(num * 8 + ty) mod 8 = ty" using a by (auto simp: wire_format_def)
  ultimately have "wire_tag (append_uvarint [] ?v @ r) = (num, ty, int (length (append_uvarint [] ?v)))" for r
    using a by (simp add: wire_tag_def wire_varint_read)
  then show "\<exists>t. t \<noteq> [] \<and> length t \<le> 10 \<and> (\<forall>b. AppendTag wire_format b num ty = b @ t) \<and>
      (\<forall>r. ConsumeTag wire_format (t @ r) = (num, ty, int (length t)))"
    by (intro exI [of _ "append_uvarint [] ?v"]) (auto simp: wire_format_def length_uvarint_le intro: append_uvarint_shift)
next
  fix v :: u64
  show "\<exists>t. length t \<le> 10 \<and> (\<forall>b. AppendVarint wire_format b v = b @ t) \<and> (\<forall>r. ConsumeVarint wire_format (t @ r) = (v, int (length t)))"
    by (intro exI [of _ "append_uvarint [] v"]) (auto simp: wire_format_def length_uvarint_le wire_varint_read intro: append_uvarint_shift)
next
  fix x :: bytes
  assume "length x < 2 ^ 62"
  then have u: "unat (word_of_nat (length x) :: u64) = length x" by (simp add: unat_of_nat)
  let ?v = "append_uvarint [] (word_of_nat (length x))"
  have "wire_bytes (?v @ x @ r) = (x, int (length (?v @ x)))" for r
    by (simp add: wire_bytes_def wire_varint_read u)
  then show "\<exists>t. length t \<le> 10 + length x \<and> (\<forall>b. AppendBytes wire_format b x = b @ t) \<and>
      (\<forall>r. ConsumeBytes wire_format (t @ r) = (x, int (length t)))"
    by (intro exI [of _ "?v @ x"]) (auto simp: wire_format_def length_uvarint_le intro: append_uvarint_shift)
next
  fix b num ty n
  assume "ConsumeTag wire_format b = (num, ty, n)"
  then show "n < 0 \<or> 1 \<le> n \<and> n \<le> int (length b)"
    using wire_varint_length [of b] by (auto simp: wire_format_def wire_tag_def split: prod.splits if_splits)
next
  fix b num ty
  show "snd (ConsumeVarint wire_format b) \<le> int (length b)" using wire_varint_length by (simp add: wire_format_def)
  show bytes: "snd (ConsumeBytes wire_format b) \<le> int (length b)"
    using wire_varint_length [of b] by (auto simp: wire_format_def wire_bytes_def split: prod.splits) (subst uint_nat, linarith)
  show "ConsumeFieldValue wire_format num ty b \<le> int (length b)"
    using wire_varint_length [of b] bytes by (auto simp: wire_format_def wire_value_def)
qed

text \<open>
  C22: no payload, however malformed, makes the decoding of reactions run forever or panic: it ends with an error or with reactions
  that all have a transaction id and a text of valid UTF-8.
\<close>

theorem decode_safe:
  assumes "protowire_laws pw"
  shows "\<exists>y. decodeAppDataReactions pw payload = Some y \<and> y \<noteq> Inl SlicePanic \<and>
    (\<forall>rs. y = Inr rs \<longrightarrow> (\<forall>r \<in> set rs. ar_transactionID r \<noteq> 0 \<and> utf8_valid (bytes_of_string (ar_emoji r))))"
  using protowire_laws.decode_returns [OF assms, of payload]
  by (auto simp: returns_def list_all_iff split: option.splits sum.splits)

text \<open>A message shorter than its length field says.\<close>

theorem decode_safe_witness: "\<exists>y. decodeAppDataReactions wire_format [10, 5, 1] = Some y \<and> y \<noteq> Inl SlicePanic"
  using decode_safe [OF wire.protowire_laws_axioms, of "[10, 5, 1]"] by blast

end
