(* ===== verification/Fanout.thy ===== *)
theory Fanout
  imports Prelude "HOL-Library.AList"
begin

unbundle bit_operations_syntax

text \<open>
  One media channel over every relay of a call (\<^verbatim>\<open>wa-core/call_engine_relay_fanout.go\<close>): sending broadcasts to all
  relays, the readers of the relays merge into one bounded queue, and a filter drops the packets that arrive once
  per relay. The readers are concurrent, so the fanout is a step relation over its shared state; the
  relay channels, which live outside, give the outcome of every operation on them.
\<close>

section \<open>The replay filter\<close>

record replayRing =
  seen :: "u64 list"
  ring_seq :: "u16 list"
  primed :: bool

definition new_ring :: replayRing where
  "new_ring = \<lparr>seen = replicate (1024 div 64) 0, ring_seq = replicate 1024 0, primed = False\<rparr>"

type_synonym rtpReplayFilter = "(u32 \<times> replayRing) list"

definition newRtpReplayFilter :: rtpReplayFilter where
  "newRtpReplayFilter = []"

definition ring_duplicate :: "u16 \<Rightarrow> replayRing \<Rightarrow> bool \<times> replayRing" where
  "ring_duplicate s ring =
     (let slot = unat s mod 1024; word = slot div 64; bit_no = slot mod 64
      in if primed ring \<and> seen ring ! word AND push_bit bit_no 1 \<noteq> 0 \<and> ring_seq ring ! slot = s then (True, ring)
         else (False, \<lparr>seen = (seen ring)[word := seen ring ! word OR push_bit bit_no 1],
                       ring_seq = (ring_seq ring)[slot := s], primed = True\<rparr>))"

definition Duplicate :: "u32 \<Rightarrow> u16 \<Rightarrow> rtpReplayFilter \<Rightarrow> bool \<times> rtpReplayFilter" where
  "Duplicate ssrc s f =
     (let ring = (case map_of f ssrc of Some ring \<Rightarrow> ring | None \<Rightarrow> new_ring);
          (dup, ring) = ring_duplicate s ring
      in (dup, AList.update ssrc ring f))"

text \<open>The ring remembers, per slot, the last counter recorded there.\<close>

definition ring_holds :: "(nat \<Rightarrow> nat option) \<Rightarrow> replayRing \<Rightarrow> bool" where
  "ring_holds slots ring \<longleftrightarrow>
     length (seen ring) = 16 \<and> length (ring_seq ring) = 1024 \<and> (\<forall>i < 1024. (primed ring \<and> bit (seen ring ! (i div 64)) (i mod 64)) = (slots i \<noteq> None)) \<and>
     (\<forall>i < 1024. \<not> primed ring \<longrightarrow> \<not> bit (seen ring ! (i div 64)) (i mod 64)) \<and>
     (\<forall>i < 1024. \<forall>j. slots i = Some j \<longrightarrow> j mod 1024 = i \<and> ring_seq ring ! i = word_of_nat j)"

lemma ring_holds_new: "ring_holds (\<lambda>_. None) new_ring"
  by (auto simp: ring_holds_def new_ring_def)

lemma set_bit_test: "n < 64 \<Longrightarrow> bit (w OR push_bit n 1) m \<longleftrightarrow> bit w m \<or> m = n" for w :: u64
  by (auto simp: bit_or_iff bit_exp_iff)

lemma nat_mod_eq_near:
  assumes "i \<le> j" "j < i + 65536" "i mod 65536 = j mod 65536"
  shows "i = (j :: nat)"
proof -
  have "65536 dvd j - i" using assms(1,3) by (metis mod_eq_dvd_iff_nat)
  moreover have "j - i < 65536" using assms(1,2) by linarith
  ultimately have "j - i = 0" using nat_dvd_not_less by blast
  with assms(1) show ?thesis by simp
qed

lemma seq_slot: "unat (word_of_nat j :: u16) mod 1024 = j mod 1024"
  by (simp add: unat_of_nat mod_mod_cancel)

lemma slot_index: "i div 64 = k div 64 \<and> i mod 64 = k mod 64 \<longleftrightarrow> i = (k :: nat)"
  by (metis div_mult_mod_eq)

lemma ring_duplicate_spec:
  assumes "ring_holds slots ring" "\<forall>i. slots (j mod 1024) = Some i \<longrightarrow> i \<le> j \<and> j < i + 65536"
  shows "fst (ring_duplicate (word_of_nat j) ring) \<longleftrightarrow> slots (j mod 1024) = Some j"
    and "ring_holds (slots(j mod 1024 := Some j)) (snd (ring_duplicate (word_of_nat j) ring))"
proof -
  let ?k = "j mod 1024"
  have k: "?k < 1024" "?k div 64 < 16" by (simp, rule less_mult_imp_div_less) simp
  have same: "(word_of_nat i :: u16) = word_of_nat j \<longleftrightarrow> i = j" if "slots ?k = Some i" for i
  proof -
    have "i \<le> j" "j < i + 65536" using assms(2) that by auto
    then show ?thesis
      using nat_mod_eq_near [of i j] by (auto simp: word_of_nat_eq_iff take_bit_eq_mod)
  qed
  have h: "(primed ring \<and> bit (seen ring ! (?k div 64)) (?k mod 64)) = (slots ?k \<noteq> None)"
    "\<And>i. slots ?k = Some i \<Longrightarrow> ring_seq ring ! ?k = word_of_nat i"
    using assms(1) k(1) unfolding ring_holds_def by blast+
  have test: "fst (ring_duplicate (word_of_nat j) ring) \<longleftrightarrow>
      (primed ring \<and> bit (seen ring ! (?k div 64)) (?k mod 64)) \<and> ring_seq ring ! ?k = word_of_nat j"
    by (simp add: ring_duplicate_def seq_slot and_exp_eq_0_iff_not_bit Let_def)
  show dup: "fst (ring_duplicate (word_of_nat j) ring) \<longleftrightarrow> slots ?k = Some j"
    unfolding test h(1) using h(2) same by (cases "slots ?k") simp_all
  show "ring_holds (slots(?k := Some j)) (snd (ring_duplicate (word_of_nat j) ring))"
  proof (cases "slots ?k = Some j")
    case True
    then have "slots(?k := Some j) = slots" by auto
    with True dup assms(1) show ?thesis by (simp add: ring_duplicate_def Let_def split: if_splits)
  next
    case False
    with dup have "snd (ring_duplicate (word_of_nat j) ring) =
      \<lparr>seen = (seen ring)[?k div 64 := seen ring ! (?k div 64) OR push_bit (?k mod 64) 1],
       ring_seq = (ring_seq ring)[?k := word_of_nat j], primed = True\<rparr>"
      by (auto simp: ring_duplicate_def Let_def seq_slot split: if_splits)
    moreover have "bit ((seen ring)[?k div 64 := seen ring ! (?k div 64) OR push_bit (?k mod 64) 1] ! (i div 64)) (i mod 64) \<longleftrightarrow>
      bit (seen ring ! (i div 64)) (i mod 64) \<or> i = ?k" if "i < 1024" for i
      using that k assms(1) slot_index [of i ?k] set_bit_test [of "?k mod 64"]
      by (auto simp: ring_holds_def nth_list_update)
    ultimately show ?thesis using assms(1) k
      by (auto simp: ring_holds_def nth_list_update)
  qed
qed


text \<open>Packets of several streams, each with its stream and its full packet counter.\<close>

fun run_Duplicate :: "(u32 \<times> nat) list \<Rightarrow> rtpReplayFilter \<Rightarrow> bool list" where
  "run_Duplicate [] f = []"
| "run_Duplicate ((ssrc, j) # ps) f = (let (d, f) = Duplicate ssrc (word_of_nat j) f in d # run_Duplicate ps f)"

text \<open>
  The packets are spaced for the filter: within a stream none is 1024 or more positions older than an
  earlier arrival, and when earlier arrivals used its slot, one of them is fewer than 65536 positions back.
\<close>

definition same_slot :: "u32 \<times> nat \<Rightarrow> u32 \<times> nat \<Rightarrow> bool" where
  "same_slot p q \<longleftrightarrow> fst p = fst q \<and> snd p mod 1024 = snd q mod 1024"

fun spaced :: "(u32 \<times> nat) list \<Rightarrow> (u32 \<times> nat) list \<Rightarrow> bool" where
  "spaced prev [] = True"
| "spaced prev (p # ps) =
     ((\<forall>q\<in>set prev. fst q = fst p \<longrightarrow> snd q < snd p + 1024) \<and>
      (list_ex (same_slot p) prev \<longrightarrow> list_ex (\<lambda>q. same_slot p q \<and> snd p < snd q + 65536) prev) \<and>
      spaced (prev @ [p]) ps)"

text \<open>The last counter recorded in a slot, from the arrivals so far.\<close>

definition last_in_slot :: "(u32 \<times> nat) list \<Rightarrow> u32 \<Rightarrow> nat \<Rightarrow> nat option" where
  "last_in_slot prev ssrc i =
     map_option snd (find (\<lambda>q. fst q = ssrc \<and> snd q mod 1024 = i) (rev prev))"

lemma last_in_slot_snoc: "last_in_slot (prev @ [(ssrc, j)]) ssrc' =
    (if ssrc' = ssrc then (last_in_slot prev ssrc)(j mod 1024 := Some j) else last_in_slot prev ssrc')"
  by (auto simp: last_in_slot_def fun_eq_iff)

definition filter_holds :: "(u32 \<times> nat) list \<Rightarrow> rtpReplayFilter \<Rightarrow> bool" where
  "filter_holds prev f \<longleftrightarrow>
     (\<forall>ssrc. ring_holds (last_in_slot prev ssrc) (case map_of f ssrc of Some ring \<Rightarrow> ring | None \<Rightarrow> new_ring))"

text \<open>
  Under the spacing the arrivals of a slot never decrease, so the last one is the greatest.
\<close>

fun slots_grow :: "(u32 \<times> nat) list \<Rightarrow> bool" where
  "slots_grow [] = True"
| "slots_grow (p # ps) = ((\<forall>q\<in>set ps. same_slot p q \<longrightarrow> snd p \<le> snd q) \<and> slots_grow ps)"

lemma slots_grow_append:
  "slots_grow (ps @ qs) \<longleftrightarrow> slots_grow ps \<and> slots_grow qs \<and> (\<forall>p\<in>set ps. \<forall>q\<in>set qs. same_slot p q \<longrightarrow> snd p \<le> snd q)"
  by (induction ps) auto

lemma same_class_near: "i mod 1024 = j mod 1024 \<Longrightarrow> i < j + 1024 \<Longrightarrow> i \<le> (j :: nat)"
proof (rule ccontr)
  assume a: "i mod 1024 = j mod 1024" "i < j + 1024" "\<not> i \<le> j"
  then have "1024 dvd i - j" by (metis mod_eq_dvd_iff_nat nat_le_linear)
  moreover have "0 < i - j" "i - j < 1024" using a by linarith+
  ultimately show False using nat_dvd_not_less by blast
qed

lemma last_in_slot_greatest:
  assumes "slots_grow prev" "(ssrc, i) \<in> set prev"
  obtains m where "last_in_slot prev ssrc (i mod 1024) = Some m" "(ssrc, m) \<in> set prev" "i \<le> m" "m mod 1024 = i mod 1024"
  using assms
proof (induction prev arbitrary: thesis rule: rev_induct)
  case (snoc p prev)
  obtain s j where p: "p = (s, j)" by fastforce
  show ?case
  proof (cases "s = ssrc \<and> j mod 1024 = i mod 1024")
    case True
    with snoc.prems(2,3) p have "i \<le> j" by (auto simp: slots_grow_append same_slot_def)
    with True p snoc.prems(1) show ?thesis by (simp add: last_in_slot_def)
  next
    case False
    with snoc.prems(3) p have "(ssrc, i) \<in> set prev" by auto
    with snoc.IH snoc.prems(2) obtain m where "last_in_slot prev ssrc (i mod 1024) = Some m" "(ssrc, m) \<in> set prev"
      "i \<le> m" "m mod 1024 = i mod 1024" by (auto simp: slots_grow_append)
    with snoc.prems(1) [of m] False p show ?thesis by (auto simp: last_in_slot_def)
  qed
qed simp

lemma last_in_slot_SomeD:
  assumes "last_in_slot prev ssrc i = Some m"
  shows "(ssrc, m) \<in> set prev \<and> m mod 1024 = i"
proof -
  have *: "find P qs = Some q \<Longrightarrow> q \<in> set qs \<and> P q" for P and q :: "u32 \<times> nat" and qs
    by (induction qs) (auto split: if_splits)
  show ?thesis using assms * by (fastforce simp: last_in_slot_def)
qed

lemma Duplicate_step:
  assumes "filter_holds prev f" "slots_grow prev" "spaced prev ((ssrc, j) # ps)"
  shows "fst (Duplicate ssrc (word_of_nat j) f) \<longleftrightarrow> (ssrc, j) \<in> set prev"
    and "filter_holds (prev @ [(ssrc, j)]) (snd (Duplicate ssrc (word_of_nat j) f))"
    and "slots_grow (prev @ [(ssrc, j)])"
proof -
  let ?ring = "case map_of f ssrc of Some ring \<Rightarrow> ring | None \<Rightarrow> new_ring"
  have holds: "ring_holds (last_in_slot prev ssrc) ?ring" using assms(1) by (simp add: filter_holds_def)
  have old: "i \<le> j" if "(ssrc, i) \<in> set prev" "i mod 1024 = j mod 1024" for i
    using assms(3) that by (intro same_class_near) auto
  have near: "\<forall>m. last_in_slot prev ssrc (j mod 1024) = Some m \<longrightarrow> m \<le> j \<and> j < m + 65536"
  proof (intro allI impI)
    fix m assume m: "last_in_slot prev ssrc (j mod 1024) = Some m"
    note d = last_in_slot_SomeD [OF m]
    then have "list_ex (same_slot (ssrc, j)) prev" by (force simp: list_ex_iff same_slot_def)
    then obtain i where i: "(ssrc, i) \<in> set prev" "i mod 1024 = j mod 1024" "j < i + 65536"
      using assms(3) by (auto simp: list_ex_iff same_slot_def)
    obtain m' where "last_in_slot prev ssrc (i mod 1024) = Some m'" "i \<le> m'"
      by (rule last_in_slot_greatest [OF assms(2) i(1)])
    with m i d old show "m \<le> j \<and> j < m + 65536" by auto
  qed
  note spec = ring_duplicate_spec [OF holds near]
  have "last_in_slot prev ssrc (j mod 1024) = Some j \<longleftrightarrow> (ssrc, j) \<in> set prev"
  proof
    assume "(ssrc, j) \<in> set prev"
    then obtain m where "last_in_slot prev ssrc (j mod 1024) = Some m" "j \<le> m" "(ssrc, m) \<in> set prev" "m mod 1024 = j mod 1024"
      using last_in_slot_greatest [OF assms(2)] by blast
    with old [of m] show "last_in_slot prev ssrc (j mod 1024) = Some j" by simp
  qed (auto dest: last_in_slot_SomeD)
  with spec(1) show "fst (Duplicate ssrc (word_of_nat j) f) \<longleftrightarrow> (ssrc, j) \<in> set prev"
    by (simp add: Duplicate_def split_beta Let_def)
  show "filter_holds (prev @ [(ssrc, j)]) (snd (Duplicate ssrc (word_of_nat j) f))"
    using assms(1) spec(2) by (auto simp: filter_holds_def Duplicate_def split_beta Let_def last_in_slot_snoc update_conv')
  show "slots_grow (prev @ [(ssrc, j)])"
    using assms(2) old by (auto simp: slots_grow_append same_slot_def)
qed




section \<open>The fanout\<close>

text \<open>
  \<open>chans\<close> are the relay channels, \<open>readers\<close> the indices whose reader goroutine is running; \<open>fan_done\<close> tells
  that the channel \<open>done\<close> is closed.
\<close>

record 'c relayFanout =
  chans :: "'c list"
  allocs :: "bytes option list"
  names :: "string list"
  packets :: "bytes list"
  fan_done :: bool
  fan_closed :: bool
  live :: int
  readers :: "nat set"

definition fanoutBacklog :: nat where "fanoutBacklog = 256"

datatype 'e fan_error = FanoutClosed | ChanErr 'e

definition newRelayFanout :: "'c list \<Rightarrow> bytes option list \<Rightarrow> string list \<Rightarrow> 'c relayFanout" where
  "newRelayFanout cs as ns = \<lparr>chans = cs, allocs = as, names = ns, packets = [], fan_done = False, fan_closed = False,
     live = int (length cs), readers = {..<length cs}\<rparr>"

definition fan_Close :: "'c relayFanout \<Rightarrow> 'c relayFanout" where
  "fan_Close f = f\<lparr>fan_closed := True, fan_done := True\<rparr>"

text \<open>
  Writing to a channel may fail with an error of its own, \<open>err c d\<close>; the writes attempted are returned beside
  the result. The two loops differ in what they write to which channel.
\<close>

fun send_loop :: "('c \<Rightarrow> bytes \<Rightarrow> 'e option) \<Rightarrow> ('c \<times> bytes option) list \<Rightarrow> bool \<times> 'e option \<Rightarrow>
    ('c \<times> bytes) list \<times> bool \<times> 'e option" where
  "send_loop err [] st = ([], st)"
| "send_loop err ((c, None) # ws) st = send_loop err ws st"
| "send_loop err ((c, Some d) # ws) (sent, lastErr) =
     (let (log, st) = send_loop err ws (case err c d of Some e \<Rightarrow> (sent, Some e) | None \<Rightarrow> (True, lastErr))
      in ((c, d) # log, st))"

definition fan_Send :: "('c \<Rightarrow> bytes \<Rightarrow> 'e option) \<Rightarrow> bytes \<Rightarrow> 'c relayFanout \<Rightarrow> ('c \<times> bytes) list \<times> ('e fan_error + nat)" where
  "fan_Send err d f =
     (if fan_closed f then ([], Inl FanoutClosed)
      else
        let (log, sent, lastErr) = send_loop err (map (\<lambda>c. (c, Some d)) (chans f)) (False, None)
        in (log, if \<not> sent then Inl (case lastErr of None \<Rightarrow> FanoutClosed | Some e \<Rightarrow> ChanErr e) else Inr (length d)))"

definition ResendAllocates :: "('c \<Rightarrow> bytes \<Rightarrow> 'e option) \<Rightarrow> 'c relayFanout \<Rightarrow> ('c \<times> bytes) list \<times> ('e fan_error + unit)" where
  "ResendAllocates err f =
     (if fan_closed f then ([], Inl FanoutClosed)
      else
        let (log, sent, lastErr) =
              send_loop err (map (\<lambda>i. (chans f ! i, if length (allocs f) \<le> i then None else allocs f ! i)) [0..<length (chans f)])
                (False, None)
        in (log, case lastErr of Some e \<Rightarrow> if \<not> sent then Inl (ChanErr e) else Inr () | None \<Rightarrow> Inr ()))"

definition PrimarySend :: "('c \<Rightarrow> bytes \<Rightarrow> 'e option) \<Rightarrow> bytes \<Rightarrow> 'c relayFanout \<Rightarrow> ('c \<times> bytes) list \<times> ('e fan_error + nat)" where
  "PrimarySend err d f =
     (if fan_closed f \<or> length (chans f) = 0 then ([], Inl FanoutClosed)
      else ([(chans f ! 0, d)], case err (chans f ! 0) d of Some e \<Rightarrow> Inl (ChanErr e) | None \<Rightarrow> Inr (length d)))"

definition readerExited :: "nat \<Rightarrow> 'c relayFanout \<Rightarrow> 'c relayFanout" where
  "readerExited i f =
     (let f = f\<lparr>live := live f - 1, readers := readers f - {i}\<rparr>
      in if live f = 0 then fan_Close f else f)"

text \<open>
  What can happen: a reader gets a packet and merges it, drops it because the queue is full, or stops because the fanout
  is closed; a reader exits on an error of its channel; \<open>Recv\<close> takes a packet and copies it to the caller's buffer, of
  which the event has the size and the bytes copied, or reports the closure once the queue is empty; the call is closed. A \<open>Recv\<close> that
  finds neither blocks.
\<close>

datatype fan_event = Merged nat bytes | Dropped nat bytes | Quit nat bytes | Exited nat | Received nat bytes bytes | RecvClosed | Closed

inductive fan_step :: "'c relayFanout \<Rightarrow> fan_event \<Rightarrow> 'c relayFanout \<Rightarrow> bool" where
  merge: "\<lbrakk>i \<in> readers f; length (packets f) < fanoutBacklog\<rbrakk> \<Longrightarrow>
    fan_step f (Merged i pkt) (f\<lparr>packets := packets f @ [pkt]\<rparr>)"
| discard: "\<lbrakk>i \<in> readers f; length (packets f) = fanoutBacklog; \<not> fan_done f\<rbrakk> \<Longrightarrow> fan_step f (Dropped i pkt) f"
| quit: "\<lbrakk>i \<in> readers f; fan_done f\<rbrakk> \<Longrightarrow> fan_step f (Quit i pkt) (f\<lparr>readers := readers f - {i}\<rparr>)"
| exit: "i \<in> readers f \<Longrightarrow> fan_step f (Exited i) (readerExited i f)"
| receive: "packets f = pkt # rest \<Longrightarrow> fan_step f (Received n pkt (take n pkt)) (f\<lparr>packets := rest\<rparr>)"
| recv_closed: "\<lbrakk>packets f = []; fan_done f\<rbrakk> \<Longrightarrow> fan_step f RecvClosed f"
| close: "fan_step f Closed (fan_Close f)"

inductive fan_run :: "'c relayFanout \<Rightarrow> fan_event list \<Rightarrow> 'c relayFanout \<Rightarrow> bool" where
  none: "fan_run f [] f"
| some: "\<lbrakk>fan_run f es g; fan_step g e h\<rbrakk> \<Longrightarrow> fan_run f (es @ [e]) h"

inductive_simps fan_step_simps:
  "fan_step f (Merged i p) g" "fan_step f (Received n p c) g" "fan_step f RecvClosed g"

fun merged :: "fan_event list \<Rightarrow> bytes list" where
  "merged [] = []"
| "merged (Merged i p # es) = p # merged es"
| "merged (_ # es) = merged es"

fun received :: "fan_event list \<Rightarrow> bytes list" where
  "received [] = []"
| "received (Received n p c # es) = p # received es"
| "received (_ # es) = received es"

text \<open>The sizes of the buffers and what \<open>Recv\<close> left in them.\<close>

fun buffers :: "fan_event list \<Rightarrow> nat list" where
  "buffers [] = []"
| "buffers (Received n p c # es) = n # buffers es"
| "buffers (_ # es) = buffers es"

fun copied :: "fan_event list \<Rightarrow> bytes list" where
  "copied [] = []"
| "copied (Received n p c # es) = c # copied es"
| "copied (_ # es) = copied es"

lemma merged_snoc [simp]: "merged (es @ [e]) = merged es @ merged [e]"
  by (induction es rule: merged.induct) auto

lemma received_snoc [simp]: "received (es @ [e]) = received es @ received [e]"
  by (induction es rule: received.induct) auto

lemma buffers_snoc [simp]: "buffers (es @ [e]) = buffers es @ buffers [e]" "copied (es @ [e]) = copied es @ copied [e]"
  by (induction es rule: buffers.induct) auto

definition fan_inv :: "'c relayFanout \<Rightarrow> bool" where
  "fan_inv f \<longleftrightarrow> length (packets f) \<le> fanoutBacklog \<and> finite (readers f) \<and> (fan_done f \<longleftrightarrow> fan_closed f) \<and>
     (\<not> fan_done f \<longrightarrow> live f = int (card (readers f)) \<and> 0 < live f)"

lemma fan_inv_new: "cs \<noteq> [] \<Longrightarrow> fan_inv (newRelayFanout cs as ns)"
  by (simp add: fan_inv_def newRelayFanout_def)

lemma fan_step_inv:
  assumes "fan_step f e g" "fan_inv f"
  shows "fan_inv g"
  using assms
proof (cases rule: fan_step.cases)
  case (exit i)
  with assms(2) show ?thesis
    by (auto simp: fan_inv_def readerExited_def fan_Close_def Let_def card_Diff_singleton)
qed (auto simp: fan_inv_def fan_Close_def)

lemma fan_step_queue: "fan_step f e g \<Longrightarrow> packets f @ merged [e] = received [e] @ packets g"
  by (cases rule: fan_step.cases) (assumption, auto simp: readerExited_def fan_Close_def Let_def)

lemma fan_run_inv: "fan_run f es g \<Longrightarrow> fan_inv f \<Longrightarrow> fan_inv g \<and> packets f @ merged es = received es @ packets g"
proof (induction rule: fan_run.induct)
  case (some f es g e h)
  then have inv: "fan_inv g" "packets f @ merged es = received es @ packets g" by simp_all
  have "packets f @ merged es @ merged [e] = received es @ packets g @ merged [e]" using inv(2) by (metis append_assoc)
  also have "packets g @ merged [e] = received [e] @ packets h" by (rule fan_step_queue [OF some.hyps(2)])
  finally show ?case using fan_step_inv [OF some.hyps(2) inv(1)] by simp
qed simp

lemma fan_run_copied:
  "fan_run f es g \<Longrightarrow> copied es = map2 take (buffers es) (received es) \<and> length (buffers es) = length (received es)"
proof (induction rule: fan_run.induct)
  case (some f es g e h)
  from some.hyps(2) have "copied [e] = map2 take (buffers [e]) (received [e]) \<and> length (buffers [e]) = length (received [e])"
    by (cases rule: fan_step.cases) auto
  with some.IH show ?case by simp
qed simp

text \<open>
  C25: whatever the relays, their readers and the call do, in any interleaving: at most 256
  packets wait, what is received is in order what was merged, without loss or repetition, each packet cut to the size of the
  caller's buffer, and the receiver is never stuck on relays that are all gone: when no reader runs any more, \<open>Recv\<close> returns a
  packet that is left or reports the closure.
\<close>

theorem fanout_never_stuck:
  assumes "fan_run (newRelayFanout cs as ns) es f" "cs \<noteq> []"
  shows "length (packets f) \<le> 256 \<and> merged es = received es @ packets f \<and>
    copied es = map2 take (buffers es) (received es) \<and>
    (readers f = {} \<longrightarrow> (\<forall>n. \<exists>p c g. fan_step f (Received n p c) g) \<or> fan_step f RecvClosed f)"
proof -
  have inv: "fan_inv f" "merged es = received es @ packets f"
    using fan_run_inv [OF assms(1) fan_inv_new [OF assms(2)]] by (simp_all add: newRelayFanout_def)
  have "fan_done f" if "readers f = {}" using inv(1) that by (auto simp: fan_inv_def)
  then have "(\<forall>n. \<exists>p c g. fan_step f (Received n p c) g) \<or> fan_step f RecvClosed f" if "readers f = {}"
    using that by (cases "packets f") (auto simp: fan_step_simps)
  with inv fan_run_copied [OF assms(1)] show ?thesis by (simp add: fan_inv_def fanoutBacklog_def)
qed

theorem fanout_never_stuck_witness:
  "\<exists>f. fan_run (newRelayFanout [''r1'', ''r2''] [] []) [Merged 1 [7], Exited 0, Exited 1] f \<and> readers f = {} \<and>
     ((\<forall>n. \<exists>p c g. fan_step f (Received n p c) g) \<or> fan_step f RecvClosed f)"
proof -
  let ?f = "newRelayFanout [''r1'', ''r2''] [] []"
  let ?f1 = "?f\<lparr>packets := packets ?f @ [[7]]\<rparr>"
  let ?g = "readerExited 1 (readerExited 0 ?f1)"
  have "fan_step ?f (Merged 1 [7]) ?f1" by (rule merge) (auto simp: newRelayFanout_def fanoutBacklog_def)
  moreover have "fan_step ?f1 (Exited 0) (readerExited 0 ?f1)" by (rule exit) (auto simp: newRelayFanout_def)
  moreover have "fan_step (readerExited 0 ?f1) (Exited 1) ?g" by (rule exit) (auto simp: newRelayFanout_def readerExited_def)
  ultimately have r: "fan_run ?f ((([] @ [Merged 1 [7]]) @ [Exited 0]) @ [Exited 1]) ?g"
    by (blast intro: fan_run.intros)
  have "readers ?g = {}" by (auto simp: newRelayFanout_def readerExited_def fan_Close_def)
  moreover from fanout_never_stuck [OF r] this
  have "(\<forall>n. \<exists>p c g. fan_step ?g (Received n p c) g) \<or> fan_step ?g RecvClosed ?g" by simp
  ultimately show ?thesis using r by (intro exI [of _ ?g] conjI) simp_all
qed

text \<open>A broadcast is written to every relay and succeeds exactly when one of them accepts it.\<close>

lemma send_loop_spec:
  "send_loop err ws (sent, lastErr) =
     (List.map_filter (\<lambda>(c, d). map_option (Pair c) d) ws,
      sent \<or> list_ex (\<lambda>(c, d). d \<noteq> None \<and> err c (the d) = None) ws,
      fold (\<lambda>(c, d) l. case d of None \<Rightarrow> l | Some d \<Rightarrow> (case err c d of None \<Rightarrow> l | Some e \<Rightarrow> Some e)) ws lastErr)"
  by (induction ws arbitrary: sent lastErr rule: list.induct)
     (auto simp: split_beta split: option.splits)

lemma fan_Send_spec:
  assumes "\<not> fan_closed f"
  shows "fst (fan_Send err d f) = map (\<lambda>c. (c, d)) (chans f) \<and>
    (snd (fan_Send err d f) = Inr (length d) \<longleftrightarrow> (\<exists>c\<in>set (chans f). err c d = None))"
proof -
  have "List.map_filter (\<lambda>(c, d). map_option (Pair c) d) (map (\<lambda>c. (c, Some d)) cs) = map (\<lambda>c. (c, d)) cs" for cs :: "'a list"
    by (induction cs) simp_all
  then show ?thesis using assms by (auto simp: fan_Send_def send_loop_spec list_ex_iff)
qed

text \<open>Each relay gets its own allocate request and no other.\<close>

lemma ResendAllocates_own:
  assumes "(c, a) \<in> set (fst (ResendAllocates err f))"
  shows "\<exists>i < length (chans f). chans f ! i = c \<and> i < length (allocs f) \<and> allocs f ! i = Some a"
  using assms
  by (auto simp: ResendAllocates_def send_loop_spec map_filter_def split: if_splits) 

end
