(* ===== verification/Stun.thy ===== *)
theory Stun
  imports Golib Crypto
begin

text \<open>
  STUN framing of the relay connection (\<^verbatim>\<open>wa-core/stun/stun.go\<close>): the attribute codec, requests
  with message integrity and fingerprint, the allocate-request builders with their protobuf
  payloads, the consent ping, and the response parsers. Fixed-size arrays are lists; the
  transaction id has twelve bytes, the stream SSRCs are nine words. A nil integrity key is
  \<open>None\<close>.
\<close>

section \<open>Attributes and requests\<close>

definition stunMagic :: u32 where "stunMagic = 0x2112a442"
definition stunFingerprintXor :: u32 where "stunFingerprintXor = 0x5354554e"
definition stunXorPort :: u16 where "stunXorPort = 0x2112"
definition attrMessageIntegrity :: u16 where "attrMessageIntegrity = 0x0008"
definition attrFingerprint :: u16 where "attrFingerprint = 0x8028"
definition attrErrorCode :: u16 where "attrErrorCode = 0x0009"
definition attrRelayToken :: u16 where "attrRelayToken = 0x4000"
definition attrReceiverSubscriptions :: u16 where "attrReceiverSubscriptions = 0x4021"
definition attrStreamDescriptors :: u16 where "attrStreamDescriptors = 0x4024"
definition attrWasmRelayEndpoint :: u16 where "attrWasmRelayEndpoint = 0x0016"
definition attrSenderSubscriptionsV2 :: u16 where "attrSenderSubscriptionsV2 = 0x4025"
definition attrParticipantCount :: u16 where "attrParticipantCount = 0x805a"

definition MsgBindingRequest :: u16 where "MsgBindingRequest = 0x0001"
definition MsgAllocateRequest :: u16 where "MsgAllocateRequest = 0x0003"
definition MsgBindingSuccess :: u16 where "MsgBindingSuccess = 0x0101"
definition MsgAllocateSuccess :: u16 where "MsgAllocateSuccess = 0x0103"
definition MsgAllocateError :: u16 where "MsgAllocateError = 0x0113"
definition MsgWhatsappPing :: u16 where "MsgWhatsappPing = 0x0801"
definition MsgWhatsappPong :: u16 where "MsgWhatsappPong = 0x0802"

definition stunXorAddr :: bytes where "stunXorAddr = [0x21, 0x12, 0xa4, 0x42]"

definition wasmStreamDescriptorsTemplate :: bytes where
  "wasmStreamDescriptorsTemplate = [
    0x0a, 0x06, 0x18, 0xca, 0xbc, 0x85, 0xae, 0x04, 0x0a, 0x08, 0x10, 0x01, 0x18, 0xa5, 0xac, 0xaf,
    0xae, 0x0a, 0x0a, 0x08, 0x10, 0x02, 0x18, 0xd6, 0xa4, 0xe6, 0xf9, 0x0f, 0x0a, 0x08, 0x08, 0x01,
    0x18, 0xf7, 0xdd, 0x9e, 0xb6, 0x0a, 0x0a, 0x0a, 0x08, 0x01, 0x10, 0x01, 0x18, 0xab, 0xcc, 0xb1,
    0xf3, 0x0d, 0x0a, 0x0a, 0x08, 0x01, 0x10, 0x02, 0x18, 0xda, 0xda, 0xef, 0x8a, 0x05, 0x0a, 0x08,
    0x08, 0x02, 0x18, 0xc5, 0xe9, 0xec, 0x8e, 0x0b, 0x0a, 0x0a, 0x08, 0x02, 0x10, 0x01, 0x18, 0xfd,
    0xc2, 0xb1, 0xb6, 0x0f, 0x0a, 0x0a, 0x08, 0x02, 0x10, 0x02, 0x18, 0xb0, 0x97, 0xf7, 0xb2, 0x09]"

definition pad4 :: "nat \<Rightarrow> nat" where
  "pad4 n = (4 - n mod 4) mod 4"

definition stunAttr :: "u16 \<Rightarrow> bytes \<Rightarrow> bytes" where
  "stunAttr attrType val =
     be16 attrType @ be16 (word_of_nat (length val)) @ val @ replicate (pad4 (length val)) 0"

definition stunFingerprint :: "bytes \<Rightarrow> u32" where
  "stunFingerprint buf = crc32_ieee buf"

definition stunPseudoHeader :: "u16 \<Rightarrow> u16 \<Rightarrow> bytes \<Rightarrow> bytes" where
  "stunPseudoHeader msgType msgLen transactionID = be16 msgType @ be16 msgLen @ be32 stunMagic @ transactionID"

definition EncodeStunRequest :: "u16 \<Rightarrow> bytes \<Rightarrow> bytes \<Rightarrow> bytes option \<Rightarrow> bool \<Rightarrow> bytes" where
  "EncodeStunRequest msgType transactionID attrs integrityKey includeFingerprint =
     (let body = attrs;
          body = (case integrityKey of
                    None \<Rightarrow> body
                  | Some key \<Rightarrow>
                      let msgLen = word_of_nat (length body + 24);
                          header = stunPseudoHeader msgType msgLen transactionID;
                          mac = hmac sha1 key (header @ body)
                      in body @ stunAttr attrMessageIntegrity mac);
          body = (if includeFingerprint then
                    let msgLen = word_of_nat (length body + 8);
                        header = stunPseudoHeader msgType msgLen transactionID;
                        fp = stunFingerprint (header @ body) XOR stunFingerprintXor
                    in body @ stunAttr attrFingerprint (be32 fp)
                  else body)
      in be16 msgType @ be16 (word_of_nat (length body)) @ be32 stunMagic @ transactionID @ body)"

definition CreateNativeSenderSubscription :: "u32 \<Rightarrow> bytes" where
  "CreateNativeSenderSubscription ssrc = 1 # be32 ssrc"

text \<open>A part that is not a byte in decimal is skipped, as the source does with \<open>continue\<close>.\<close>

fun ipv4_octets :: "string list \<Rightarrow> bytes" where
  "ipv4_octets [] = []"
| "ipv4_octets (part # parts) =
     (case parse_uint part 8 of
        (_, Some err) \<Rightarrow> ipv4_octets parts
      | (n, None) \<Rightarrow> word_of_nat n # ipv4_octets parts)"

definition EncodeXorRelayEndpoint :: "string \<Rightarrow> u16 \<Rightarrow> bytes option" where
  "EncodeXorRelayEndpoint ipv4 port =
     (let octets = ipv4_octets (split_on CHR ''.'' ipv4)
      in if length octets \<noteq> 4 then None
         else Some (be16 (port XOR stunXorPort) @ map2 (XOR) octets stunXorAddr))"

definition createWasmRelayEndpointAttr :: "bytes \<Rightarrow> bytes" where
  "createWasmRelayEndpointAttr endpointXor = be16 1 @ endpointXor"

section \<open>Protobuf payloads\<close>

definition pbTag :: "bytes \<Rightarrow> u32 \<Rightarrow> u32 \<Rightarrow> bytes" where
  "pbTag out field wire = append_uvarint out (ucast (push_bit 3 field OR wire))"

text \<open>The argument is the 64-bit pattern of the signed number; \<open>n >> 63\<close> is its sign mask.\<close>

definition pbZigzag :: "u64 \<Rightarrow> u64" where
  "pbZigzag n = push_bit 1 n XOR signed_drop_bit 63 n"

definition pbLenDelim :: "bytes \<Rightarrow> u32 \<Rightarrow> bytes \<Rightarrow> bytes" where
  "pbLenDelim out field b = append_uvarint (pbTag out field 2) (word_of_nat (length b)) @ b"

definition wasmStreamDescriptorPlan :: "(u32 \<times> u32) list" where
  "wasmStreamDescriptorPlan = [(0, 0), (0, 1), (0, 2), (1, 0), (1, 1), (1, 2), (2, 0), (2, 1), (2, 2)]"

text \<open>The body of the first loop of \<open>createWasmStreamDescriptorsWithHBHFEC\<close>, and of the second.\<close>

definition stream_descriptor :: "bytes \<Rightarrow> (u32 \<times> u32) \<times> u32 \<Rightarrow> bytes" where
  "stream_descriptor out x = (case x of ((participant, layer), ssrc) \<Rightarrow>
     if ssrc = 0 then out
     else
       let inner = [];
           inner = (if participant \<noteq> 0 then append_uvarint (pbTag inner 1 0) (ucast participant) else inner);
           inner = (if layer \<noteq> 0 then append_uvarint (pbTag inner 2 0) (ucast layer) else inner);
           inner = append_uvarint (pbTag inner 3 0) (ucast ssrc)
       in pbLenDelim out 1 inner)"

definition fec_descriptor :: "bytes \<Rightarrow> nat \<times> u32 \<Rightarrow> bytes" where
  "fec_descriptor out x = (case x of (i, ssrc) \<Rightarrow>
     if ssrc = 0 then out
     else
       let inner = append_uvarint (pbTag [] 1 0) (word_of_nat (i + 3));
           inner = append_uvarint (pbTag inner 2 0) 3;
           inner = append_uvarint (pbTag inner 3 0) (ucast ssrc)
       in pbLenDelim out 1 inner)"

definition createWasmStreamDescriptorsWithHBHFEC :: "u32 list \<Rightarrow> u32 list \<Rightarrow> bytes" where
  "createWasmStreamDescriptorsWithHBHFEC ssrcs hbhFECSSRCs =
     (let out = foldl stream_descriptor [] (zip wasmStreamDescriptorPlan ssrcs)
      in foldl fec_descriptor out (List.enumerate 0 hbhFECSSRCs))"

definition CreateWasmStreamDescriptors :: "u32 list \<Rightarrow> bytes" where
  "CreateWasmStreamDescriptors ssrcs = createWasmStreamDescriptorsWithHBHFEC ssrcs [0, 0]"

definition normalizedParticipantPIDs :: "u32 list \<Rightarrow> u32 list" where
  "normalizedParticipantPIDs participantPIDs = remdups_adj (sort participantPIDs)"

definition createWasmSenderSubscription :: "u32 list \<Rightarrow> u32 list \<Rightarrow> bool \<Rightarrow> bytes" where
  "createWasmSenderSubscription ssrcs participantPIDs video =
     (let packedSSRCs = foldl (\<lambda>out ssrc. if ssrc \<noteq> 0 then append_uvarint out (ucast ssrc) else out) [] ssrcs;
          subscription = pbLenDelim [] 1 packedSSRCs;
          subscription = foldl (\<lambda>subscription pid.
              let participant = append_uvarint (pbTag [] 1 0) (ucast pid);
                  participant = (if video then append_uvarint (pbTag participant 2 0) 1 else participant)
              in pbLenDelim subscription 2 participant) subscription participantPIDs;
          wrapper = pbLenDelim [] 1 subscription
      in pbLenDelim [] 1 wrapper)"

definition createWasmGroupSenderSubscriptions :: "u32 list \<Rightarrow> u32 \<Rightarrow> u32 list \<Rightarrow> bytes" where
  "createWasmGroupSenderSubscriptions streamSsrcs appDataSSRC participantPIDs =
     createWasmSenderSubscription (slice 3 6 streamSsrcs) participantPIDs True @
     createWasmSenderSubscription (slice 6 9 streamSsrcs) [] False @
     createWasmSenderSubscription (slice 0 3 streamSsrcs) participantPIDs False @
     createWasmSenderSubscription [appDataSSRC] participantPIDs False"

definition createWasmGroupReceiverSubscriptions :: "u32 list \<Rightarrow> bytes" where
  "createWasmGroupReceiverSubscriptions participantPIDs =
     foldl (\<lambda>out pid. pbLenDelim out 2 (append_uvarint (pbTag [] 1 0) (ucast pid))) [] participantPIDs"

definition CreateVoipSenderSubscriptions :: "u32 \<Rightarrow> bytes" where
  "CreateVoipSenderSubscriptions ssrc =
     (let sender = append_uvarint (pbTag [] 3 0) (ucast ssrc);
          sender = append_uvarint (pbTag sender 5 0) 0;
          sender = append_uvarint (pbTag sender 6 0) 0
      in pbLenDelim [] 1 sender)"

definition CreateApkSenderSubscriptions :: "u32 \<Rightarrow> u32 option \<Rightarrow> bytes" where
  "CreateApkSenderSubscriptions ssrc pid =
     (let ssrcLayers = append_uvarint (pbTag [] 1 0) (pbZigzag (ucast ssrc));
          ssrcLayers = (case pid of
             None \<Rightarrow> ssrcLayers
           | Some p \<Rightarrow>
               let m = append_uvarint (pbTag [] 1 0) (pbZigzag (ucast p));
                   m = pbLenDelim m 2 (bytes_of_string ''audio'')
               in pbLenDelim ssrcLayers 2 m)
      in pbLenDelim [] 1 (pbLenDelim [] 1 ssrcLayers))"

definition CreateApkStreamDescriptors :: "u32 \<Rightarrow> bytes" where
  "CreateApkStreamDescriptors ssrc =
     (let sd = pbLenDelim [] 1 (bytes_of_string ''audio'');
          sd = pbLenDelim sd 2 (bytes_of_string ''OPUS'');
          sd = append_uvarint (pbTag sd 3 0) (pbZigzag (ucast ssrc));
          sd = append_uvarint (pbTag sd 4 0) 0
      in pbLenDelim [] 1 sd)"

section \<open>Allocate requests\<close>

definition buildWasmStunAllocateRequest :: "bytes \<Rightarrow> bytes \<Rightarrow> bytes \<Rightarrow> bytes \<Rightarrow> bytes option \<Rightarrow> bytes" where
  "buildWasmStunAllocateRequest transactionID relayToken endpointXor streamDescriptors integrityKey =
     (let attrs = stunAttr attrRelayToken relayToken;
          attrs = attrs @ stunAttr attrStreamDescriptors streamDescriptors;
          attrs = attrs @ stunAttr attrWasmRelayEndpoint (createWasmRelayEndpointAttr endpointXor)
      in EncodeStunRequest MsgAllocateRequest transactionID attrs integrityKey False)"

definition BuildWasmStunAllocateRequest :: "bytes \<Rightarrow> bytes \<Rightarrow> bytes \<Rightarrow> bytes option \<Rightarrow> bytes" where
  "BuildWasmStunAllocateRequest transactionID relayToken endpointXor integrityKey =
     buildWasmStunAllocateRequest transactionID relayToken endpointXor wasmStreamDescriptorsTemplate integrityKey"

definition BuildWasmStunAllocateRequestWithStreamSsrcs ::
  "bytes \<Rightarrow> bytes \<Rightarrow> bytes \<Rightarrow> u32 list \<Rightarrow> bytes option \<Rightarrow> bytes" where
  "BuildWasmStunAllocateRequestWithStreamSsrcs transactionID relayToken endpointXor streamSsrcs integrityKey =
     buildWasmStunAllocateRequest transactionID relayToken endpointXor
       (CreateWasmStreamDescriptors streamSsrcs) integrityKey"

definition BuildWasmStunAllocateRequestWithGroupSubscriptionsAndHBHFEC ::
  "bytes \<Rightarrow> bytes \<Rightarrow> bytes \<Rightarrow> u32 list \<Rightarrow> u32 \<Rightarrow> u32 list \<Rightarrow> u32 list \<Rightarrow> bytes option \<Rightarrow> bytes" where
  "BuildWasmStunAllocateRequestWithGroupSubscriptionsAndHBHFEC transactionID relayToken endpointXor
      streamSsrcs appDataSSRC hbhFECSSRCs participantPIDs integrityKey =
     (let pids = normalizedParticipantPIDs participantPIDs
      in if length pids = 0 then
           BuildWasmStunAllocateRequestWithStreamSsrcs transactionID relayToken endpointXor streamSsrcs integrityKey
         else
           let streamDescriptors =
                 (if 1 < length pids then createWasmStreamDescriptorsWithHBHFEC streamSsrcs hbhFECSSRCs
                  else CreateWasmStreamDescriptors streamSsrcs);
               attrs = stunAttr attrRelayToken relayToken;
               attrs = attrs @ stunAttr attrSenderSubscriptionsV2
                 (createWasmGroupSenderSubscriptions streamSsrcs appDataSSRC pids);
               attrs = attrs @ stunAttr attrReceiverSubscriptions (createWasmGroupReceiverSubscriptions pids);
               attrs = attrs @ stunAttr attrStreamDescriptors streamDescriptors;
               participantCount = append_uvarint [] (word_of_nat (length pids));
               attrs = attrs @ stunAttr attrParticipantCount participantCount;
               attrs = attrs @ stunAttr attrWasmRelayEndpoint (createWasmRelayEndpointAttr endpointXor)
           in EncodeStunRequest MsgAllocateRequest transactionID attrs integrityKey False)"

definition BuildWasmStunAllocateRequestWithGroupSubscriptions ::
  "bytes \<Rightarrow> bytes \<Rightarrow> bytes \<Rightarrow> u32 list \<Rightarrow> u32 \<Rightarrow> u32 list \<Rightarrow> bytes option \<Rightarrow> bytes" where
  "BuildWasmStunAllocateRequestWithGroupSubscriptions transactionID relayToken endpointXor
      streamSsrcs appDataSSRC participantPIDs integrityKey =
     BuildWasmStunAllocateRequestWithGroupSubscriptionsAndHBHFEC transactionID relayToken endpointXor
       streamSsrcs appDataSSRC [0, 0] participantPIDs integrityKey"

definition BuildAndroidStunAllocateRequest ::
  "bytes \<Rightarrow> bytes \<Rightarrow> u32 \<Rightarrow> u32 option \<Rightarrow> bytes option \<Rightarrow> bool \<Rightarrow> bytes" where
  "BuildAndroidStunAllocateRequest transactionID relayToken ssrc pid integrityKey includeFingerprint =
     (let attrs = stunAttr attrRelayToken relayToken;
          attrs = attrs @ stunAttr attrSenderSubscriptionsV2 (CreateApkSenderSubscriptions ssrc pid);
          attrs = attrs @ stunAttr attrStreamDescriptors (CreateApkStreamDescriptors ssrc)
      in EncodeStunRequest MsgAllocateRequest transactionID attrs integrityKey includeFingerprint)"

definition BuildWhatsappPing :: "bytes \<Rightarrow> bytes" where
  "BuildWhatsappPing transactionID = be16 MsgWhatsappPing @ [0, 0] @ be32 stunMagic @ transactionID"

section \<open>Responses\<close>

definition IsStunPacket :: "bytes \<Rightarrow> bool" where
  "IsStunPacket d \<longleftrightarrow> 2 \<le> length d \<and> d ! 0 AND 0xc0 = 0x00"

definition StunMessageType :: "bytes \<Rightarrow> u16 option" where
  "StunMessageType d =
     (if length d < 2 then None
      else Some (push_bit 8 (ucast (d ! 0 AND 0x3f)) OR ucast (d ! 1)))"

definition StunTransactionID :: "bytes \<Rightarrow> bytes option" where
  "StunTransactionID d = (if length d < 20 then None else Some (slice 8 20 d))"

definition IsAllocateOrBindingSuccess :: "bytes \<Rightarrow> bool" where
  "IsAllocateOrBindingSuccess d \<longleftrightarrow>
     (if \<not> IsStunPacket d \<or> length d < 20 then False
      else case StunMessageType d of
             None \<Rightarrow> False
           | Some mt \<Rightarrow> mt = MsgAllocateSuccess \<or> mt = MsgBindingSuccess)"

definition IsAllocateError :: "bytes \<Rightarrow> bool" where
  "IsAllocateError d \<longleftrightarrow>
     (if \<not> IsStunPacket d then False
      else case StunMessageType d of None \<Rightarrow> False | Some mt \<Rightarrow> mt = MsgAllocateError)"

definition IsWhatsappPong :: "bytes \<Rightarrow> bytes \<Rightarrow> bool" where
  "IsWhatsappPong d transactionID \<longleftrightarrow>
     (if \<not> IsStunPacket d then False
      else case StunMessageType d of
             None \<Rightarrow> False
           | Some mt \<Rightarrow>
               if mt \<noteq> MsgWhatsappPong then False
               else if length transactionID = 0 then True
               else (case StunTransactionID d of None \<Rightarrow> False | Some tx \<Rightarrow> tx = transactionID))"

record StunAttribute =
  AttrType :: u16
  Value :: bytes

text \<open>The loop of \<open>ParseStunAttributes\<close> on what is left of the packet from \<open>off\<close> on.\<close>

function parse_attr_loop :: "bytes \<Rightarrow> StunAttribute list" where
  "parse_attr_loop (a # b # c # d # rest) =
     (let attrType = push_bit 8 (ucast a) OR ucast b;
          len = push_bit 8 (unat c) OR unat d
      in if length rest < len then []
         else \<lparr>AttrType = attrType, Value = take len rest\<rparr> # parse_attr_loop (drop (len + pad4 len) rest))"
| "parse_attr_loop [] = []"
| "parse_attr_loop [a] = []"
| "parse_attr_loop [a, b] = []"
| "parse_attr_loop [a, b, c] = []"
  by pat_completeness auto
termination by (relation "measure length") auto

definition ParseStunAttributes :: "bytes \<Rightarrow> StunAttribute list" where
  "ParseStunAttributes d =
     (if \<not> IsStunPacket d \<or> length d < 20 then [] else parse_attr_loop (drop 20 d))"

text \<open>The loop of \<open>ParseStunErrorCode\<close> between \<open>off\<close> and \<open>end\<close>.\<close>

function error_code_loop :: "bytes \<Rightarrow> nat \<Rightarrow> nat \<Rightarrow> u16 option" where
  "error_code_loop d e off =
     (if e < off + 4 then None
      else
        let attrType = push_bit 8 (ucast (d ! off)) OR ucast (d ! (off + 1));
            len = push_bit 8 (unat (d ! (off + 2))) OR unat (d ! (off + 3))
        in if attrType = attrErrorCode \<and> 4 \<le> len \<and> off + 8 \<le> length d
           then Some (ucast (d ! (off + 6)) * 100 + ucast (d ! (off + 7)))
           else error_code_loop d e (off + (4 + len + pad4 len)))"
  by pat_completeness auto
termination by (relation "measure (\<lambda>(d, e, off). e - off)") auto

declare error_code_loop.simps [simp del]

definition ParseStunErrorCode :: "bytes \<Rightarrow> u16 option" where
  "ParseStunErrorCode d =
     (if length d < 20 then None
      else case StunMessageType d of
             None \<Rightarrow> None
           | Some t \<Rightarrow>
               if t \<noteq> MsgAllocateError \<and> t \<noteq> 0x0111 then None
               else
                 let bodyLen = push_bit 8 (unat (d ! 2)) OR unat (d ! 3);
                     e = min (20 + bodyLen) (length d)
                 in error_code_loop d e 20)"

section \<open>The attribute codec\<close>

lemma nat_or_add: "b < 256 \<Longrightarrow> push_bit 8 (a :: nat) OR b = 256 * a + b"
proof -
  assume "b < 256"
  then have "b = take_bit 8 b" by (simp add: take_bit_nat_eq_self)
  then have "push_bit 8 a OR b = push_bit 8 a + b"
    by (intro disjunctive_add [symmetric]) (metis bit_push_bit_iff bit_take_bit_iff not_less)
  then show ?thesis by (simp add: push_bit_eq_mult mult.commute)
qed

definition next_attr :: "bytes \<Rightarrow> ((u16 \<times> bytes) \<times> bytes) option" where
  "next_attr bs = (case bs of
     a # b # c # d # rest \<Rightarrow>
       let len = push_bit 8 (unat c) OR unat d
       in if length rest < len then None
          else Some ((push_bit 8 (ucast a) OR ucast b, take len rest), drop (len + pad4 len) rest)
   | _ \<Rightarrow> None)"

lemma parse_attr_loop_next:
  "parse_attr_loop bs = (case next_attr bs of
     None \<Rightarrow> [] | Some ((t, v), rest) \<Rightarrow> \<lparr>AttrType = t, Value = v\<rparr> # parse_attr_loop rest)"
  by (cases bs rule: parse_attr_loop.cases) (simp_all add: next_attr_def Let_def)

definition attr_ok :: "u16 \<times> bytes \<Rightarrow> bool" where
  "attr_ok tv \<longleftrightarrow> length (snd tv) < 65536"

abbreviation encode_attr :: "u16 \<times> bytes \<Rightarrow> bytes" where
  "encode_attr tv \<equiv> stunAttr (fst tv) (snd tv)"

abbreviation to_attr :: "u16 \<times> bytes \<Rightarrow> StunAttribute" where
  "to_attr tv \<equiv> \<lparr>AttrType = fst tv, Value = snd tv\<rparr>"

lemma be16_bytes: obtains a b where "be16 w = [a, b]" "push_bit 8 (ucast a) OR ucast b = w"
    "push_bit 8 (unat a) OR unat b = unat w"
proof (rule that)
  let ?a = "ucast (drop_bit 8 w) :: byte" and ?b = "ucast w :: byte"
  show "be16 w = [?a, ?b]" by (simp add: be16_def)
  then show w: "push_bit 8 (ucast ?a) OR ucast ?b = w" using uint16_be_be16' [of w] by simp
  have "unat (uint16_be [?a, ?b]) = unat w" using w by simp
  then show "push_bit 8 (unat ?a) OR unat ?b = unat w"
    by (simp only: unat_uint16_be nat_or_add [OF unat_byte_lt])
qed

lemma unat_len16: "n < 65536 \<Longrightarrow> unat (word_of_nat n :: u16) = n"
  by (simp add: unat_of_nat)

interpretation attr: prefix_codec encode_attr next_attr attr_ok
proof unfold_locales
  fix tv r assume ok: "attr_ok tv"
  obtain t v where tv: "tv = (t, v)" by (cases tv)
  obtain a b where t: "be16 t = [a, b]" "push_bit 8 (ucast a) OR ucast b = t" by (rule be16_bytes)
  obtain c d where l: "be16 (word_of_nat (length v)) = [c, d]"
    "push_bit 8 (unat c) OR unat d = unat (word_of_nat (length v) :: u16)" by (rule be16_bytes)
  have "unat (word_of_nat (length v) :: u16) = length v" using ok tv by (simp add: attr_ok_def unat_len16)
  then show "next_attr (encode_attr tv @ r) = Some (tv, r)"
    using t l tv by (simp add: stunAttr_def next_attr_def Let_def)
qed

lemma parse_attr_loop_encoded:
  "list_all attr_ok as \<Longrightarrow> parse_attr_loop (concat (map encode_attr as)) = map to_attr as"
proof (induction "as")
  case (Cons tv as)
  then show ?case
    using attr.dec_enc [of tv "concat (map encode_attr as)"]
    by (subst parse_attr_loop_next) (simp add: split_beta)
qed simp

section \<open>Requests\<close>

definition encode_body :: "u16 \<Rightarrow> bytes \<Rightarrow> bytes \<Rightarrow> bytes option \<Rightarrow> bool \<Rightarrow> bytes" where
  "encode_body ty tid attrs key fp = drop 20 (EncodeStunRequest ty tid attrs key fp)"

lemma length_stunAttr: "length (stunAttr t v) = 4 + length v + pad4 (length v)"
  by (simp add: stunAttr_def)

lemma request_header:
  assumes "length tid = 12"
  shows "EncodeStunRequest ty tid attrs key fp = stunPseudoHeader ty (word_of_nat (length (encode_body ty tid attrs key fp))) tid @
    encode_body ty tid attrs key fp"
  using assms by (simp add: EncodeStunRequest_def encode_body_def stunPseudoHeader_def Let_def)

lemma length_pseudo: "length tid = 12 \<Longrightarrow> length (stunPseudoHeader ty l tid) = 20"
  by (simp add: stunPseudoHeader_def)

definition integrity_attrs :: "u16 \<Rightarrow> bytes \<Rightarrow> bytes \<Rightarrow> bytes option \<Rightarrow> (u16 \<times> bytes) list" where
  "integrity_attrs ty tid attrs key = (case key of None \<Rightarrow> []
     | Some k \<Rightarrow> [(attrMessageIntegrity, hmac sha1 k (stunPseudoHeader ty (word_of_nat (length attrs + 24)) tid @ attrs))])"

definition fingerprint_attrs :: "u16 \<Rightarrow> bytes \<Rightarrow> bytes \<Rightarrow> bool \<Rightarrow> (u16 \<times> bytes) list" where
  "fingerprint_attrs ty tid body fp = (if fp then
     [(attrFingerprint, be32 (crc32_ieee (stunPseudoHeader ty (word_of_nat (length body + 8)) tid @ body) XOR stunFingerprintXor))]
     else [])"

lemma encode_body_eq:
  assumes "length tid = 12"
  shows "encode_body ty tid attrs key fp =
    (let body = attrs @ concat (map encode_attr (integrity_attrs ty tid attrs key))
     in body @ concat (map encode_attr (fingerprint_attrs ty tid body fp)))"
  using assms
  by (cases key) (simp_all add: encode_body_def EncodeStunRequest_def integrity_attrs_def fingerprint_attrs_def
      Let_def stunFingerprint_def)

lemma stun_type_bits:
  fixes ty :: u16
  assumes "ty < 0x4000" "be16 ty = [a, b]" "push_bit 8 (ucast a) OR ucast b = ty"
  shows "a AND 0xc0 = 0" "a AND 0x3f = a"
proof -
  have "unat ty = 256 * unat a + unat b" using unat_uint16_be [of a b "[]"] assms(3) by simp
  then have a: "unat a < 64" using assms(1) by (simp add: word_less_nat_alt)
  have m: "(0x3f :: byte) = mask 6" by (simp add: mask_eq_exp_minus_1)
  have "take_bit 6 a = a" using a by (simp add: word_unat_eq_iff unsigned_take_bit_eq take_bit_nat_eq_self)
  then show t: "a AND 0x3f = a" unfolding m by (simp add: take_bit_eq_mask)
  have "a AND 0xc0 = (a AND 0x3f) AND 0xc0" using t by simp
  then show "a AND 0xc0 = 0" by (simp add: and.assoc)
qed

lemma request_classified:
  assumes ty: "ty < 0x4000" and tid: "length tid = 12"
  shows "IsStunPacket (EncodeStunRequest ty tid attrs key fp)"
    "StunMessageType (EncodeStunRequest ty tid attrs key fp) = Some ty"
    "StunTransactionID (EncodeStunRequest ty tid attrs key fp) = Some tid"
    "length (EncodeStunRequest ty tid attrs key fp) = 20 + length (encode_body ty tid attrs key fp)"
proof -
  obtain a b where t: "be16 ty = [a, b]" "push_bit 8 (ucast a) OR ucast b = ty" by (rule be16_bytes)
  note bits = stun_type_bits [OF ty t]
  let ?p = "EncodeStunRequest ty tid attrs key fp"
  have p: "?p = a # b # drop 2 ?p" "20 \<le> length ?p" 
    using request_header [OF tid, of ty attrs key fp] t tid by (simp_all add: stunPseudoHeader_def)
  show "length ?p = 20 + length (encode_body ty tid attrs key fp)"
    by (subst request_header [OF tid]) (simp add: length_pseudo tid)
  have nth: "?p ! 0 = a" "?p ! 1 = b" using p(1) by (metis nth_Cons_0, metis One_nat_def nth_Cons_0 nth_Cons_Suc)
  show "IsStunPacket ?p" using p(2) bits nth by (simp add: IsStunPacket_def)
  show "StunMessageType ?p = Some ty" using p(2) nth bits t(2) by (simp add: StunMessageType_def)
  show "StunTransactionID ?p = Some tid"
    using p(2) by (simp add: StunTransactionID_def) (subst request_header [OF tid], simp add: slice_def stunPseudoHeader_def tid)
qed

text \<open>
  C32: a receiver recovers from any request the builders emit exactly what went in: the message
  type, the transaction id, and the attributes in order, followed by the integrity and the
  fingerprint attribute when they were asked for.
\<close>

theorem ParseStunAttributes_Encode:
  assumes ty: "ty < 0x4000" and tid: "length tid = 12" and as: "list_all attr_ok as"
  shows "let p = EncodeStunRequest ty tid (concat (map encode_attr as)) key fp
    in IsStunPacket p \<and> StunMessageType p = Some ty \<and> StunTransactionID p = Some tid \<and>
       (\<exists>extra. ParseStunAttributes p = map to_attr as @ extra \<and>
          map AttrType extra = (if key = None then [] else [attrMessageIntegrity]) @ (if fp then [attrFingerprint] else []))"
proof -
  let ?attrs = "concat (map encode_attr as)"
  let ?p = "EncodeStunRequest ty tid ?attrs key fp"
  let ?mi = "integrity_attrs ty tid ?attrs key"
  let ?fp = "fingerprint_attrs ty tid (?attrs @ concat (map encode_attr ?mi)) fp"
  have ok: "list_all attr_ok (as @ ?mi @ ?fp)"
    using as by (auto simp: integrity_attrs_def fingerprint_attrs_def attr_ok_def split: option.split)
  have body: "drop 20 ?p = concat (map encode_attr (as @ ?mi @ ?fp))"
    using encode_body_eq [OF tid, of ty ?attrs key fp] by (simp add: encode_body_def Let_def)
  have "ParseStunAttributes ?p = map to_attr (as @ ?mi @ ?fp)"
    using request_classified(1,4) [OF ty tid, of ?attrs key fp]
    by (simp add: ParseStunAttributes_def body parse_attr_loop_encoded [OF ok] del: map_append concat_append)
  moreover have "map AttrType (map to_attr (?mi @ ?fp)) =
      (if key = None then [] else [attrMessageIntegrity]) @ (if fp then [attrFingerprint] else [])"
    by (auto simp: integrity_attrs_def fingerprint_attrs_def split: option.split)
  ultimately show ?thesis
    using request_classified(1-3) [OF ty tid, of ?attrs key fp] by (auto simp: Let_def)
qed

theorem ParseStunAttributes_Encode_witness:
  "let p = EncodeStunRequest MsgAllocateRequest (replicate 12 7) (concat (map encode_attr [(attrRelayToken, [1, 2, 3])])) None False
   in StunMessageType p = Some MsgAllocateRequest \<and> ParseStunAttributes p = [\<lparr>AttrType = attrRelayToken, Value = [1, 2, 3]\<rparr>]"
proof -
  have h: "MsgAllocateRequest < 0x4000" "length (replicate 12 (7 :: byte)) = 12" "list_all attr_ok [(attrRelayToken, [1, 2, 3])]"
    by (simp_all add: MsgAllocateRequest_def attr_ok_def)
  show ?thesis using ParseStunAttributes_Encode [OF h, of None False] by (auto simp: Let_def)
qed

text \<open>
  Every request verifies: with a fingerprint, its last eight bytes are the fingerprint
  attribute of the CRC-32 of the packet before them; with integrity and no fingerprint, its last
  24 bytes are the integrity attribute of the HMAC-SHA1 of the packet before them. The length
  field the checks cover is the one on the wire.
\<close>

lemma EncodeStunRequest_verifies:
  "(let p = EncodeStunRequest ty tid attrs key True; n = length p - 8
    in drop n p = stunAttr attrFingerprint (be32 (crc32_ieee (take n p) XOR stunFingerprintXor))) \<and>
   (let p = EncodeStunRequest ty tid attrs (Some k) False; n = length p - 24
    in drop n p = stunAttr attrMessageIntegrity (hmac sha1 k (take n p)))"
proof

  let ?body = "case key of None \<Rightarrow> attrs | Some k \<Rightarrow> attrs @ stunAttr attrMessageIntegrity
      (hmac sha1 k (stunPseudoHeader ty (word_of_nat (length attrs + 24)) tid @ attrs))"
  let ?h = "stunPseudoHeader ty (word_of_nat (length ?body + 8)) tid"
  have l8: "length (stunAttr attrFingerprint (be32 w)) = 8" for w by (simp add: length_stunAttr pad4_def)
  have "EncodeStunRequest ty tid attrs key True = (?h @ ?body) @
      stunAttr attrFingerprint (be32 (crc32_ieee (?h @ ?body) XOR stunFingerprintXor))"
    by (cases key) (simp_all add: EncodeStunRequest_def Let_def stunPseudoHeader_def stunFingerprint_def l8)
  then show "let p = EncodeStunRequest ty tid attrs key True; n = length p - 8
   in drop n p = stunAttr attrFingerprint (be32 (crc32_ieee (take n p) XOR stunFingerprintXor))"
    by (simp add: Let_def l8)
  let ?g = "stunPseudoHeader ty (word_of_nat (length attrs + 24)) tid"
  have l24: "length (stunAttr attrMessageIntegrity (hmac sha1 k m)) = 24" for m
    by (simp add: length_stunAttr pad4_def)
  have "EncodeStunRequest ty tid attrs (Some k) False = (?g @ attrs) @
      stunAttr attrMessageIntegrity (hmac sha1 k (?g @ attrs))"
    by (simp add: EncodeStunRequest_def Let_def stunPseudoHeader_def l24)
  then show "let p = EncodeStunRequest ty tid attrs (Some k) False; n = length p - 24
   in drop n p = stunAttr attrMessageIntegrity (hmac sha1 k (take n p))"
    by (simp add: Let_def l24)
qed

section \<open>Group requests\<close>

lemma distinct_remdups_adj: "sorted xs \<Longrightarrow> distinct (remdups_adj (xs :: u32 list))"
proof (induction xs rule: remdups_adj.induct)
  case (3 x y xs)
  show ?case
  proof (cases "x = y")
    case False
    then have "x \<notin> set (y # xs)" using "3.prems" by fastforce
    then show ?thesis using 3 False by simp
  qed (use 3 in simp)
qed simp_all

lemma normalized_sorted_list: "normalizedParticipantPIDs pids = sorted_list_of_set (set pids)"
  unfolding normalizedParticipantPIDs_def
proof (rule sorted_distinct_set_unique)
  show "sorted (remdups_adj (sort pids))" by (simp add: sorted_remdups_adj)
  show "distinct (remdups_adj (sort pids))" by (simp add: distinct_remdups_adj)
qed simp_all

text \<open>
  A group allocate request depends only on the set of participants: neither the order nor
  the repetition of ids in the argument changes a byte of it, and the participant count it
  announces is the number of distinct ids.
\<close>

lemma group_request_set:
  assumes "set pids = set pids'"
  shows "BuildWasmStunAllocateRequestWithGroupSubscriptionsAndHBHFEC tid tok ep ssrcs app fec pids key =
         BuildWasmStunAllocateRequestWithGroupSubscriptionsAndHBHFEC tid tok ep ssrcs app fec pids' key \<and>
    length (normalizedParticipantPIDs pids) = card (set pids)"
  using assms
  by (simp add: BuildWasmStunAllocateRequestWithGroupSubscriptionsAndHBHFEC_def normalized_sorted_list)

section \<open>Error responses\<close>

lemma error_code_skip:
  assumes d: "drop off d = encode_attr tv @ rest" and ok: "attr_ok tv" and t: "fst tv \<noteq> attrErrorCode"
    and e: "off + 4 \<le> e" "off + 4 \<le> length d"
  shows "error_code_loop d e off = error_code_loop d e (off + length (encode_attr tv))"
proof -
  obtain a b where ab: "be16 (fst tv) = [a, b]" "push_bit 8 (ucast a) OR ucast b = fst tv" by (rule be16_bytes)
  obtain x y where xy: "be16 (word_of_nat (length (snd tv))) = [x, y]"
    "push_bit 8 (unat x) OR unat y = unat (word_of_nat (length (snd tv)) :: u16)" by (rule be16_bytes)
  have len: "push_bit 8 (unat x) OR unat y = length (snd tv)"
    using xy(2) ok by (simp add: attr_ok_def unat_len16)
  have "drop off d = a # b # x # y # snd tv @ replicate (pad4 (length (snd tv))) 0 @ rest"
    using d ab xy by (simp add: stunAttr_def)
  then have "d ! off = a" "d ! (off + 1) = b" "d ! (off + 2) = x" "d ! (off + 3) = y"
    using e(2) by (metis nth_drop nth_Cons_0 add_0_right add_leD1,
        metis nth_drop nth_Cons_0 nth_Cons_Suc One_nat_def add_leD1,
        metis nth_drop nth_Cons_0 nth_Cons_Suc numeral_2_eq_2 add_leD1,
        metis nth_drop nth_Cons_0 nth_Cons_Suc numeral_3_eq_3 add_leD1)
  then show ?thesis
    using ab(2) len t e by (subst error_code_loop.simps) (simp add: length_stunAttr add.assoc Let_def)
qed

lemma error_code_found:
  assumes pre: "list_all (\<lambda>tv. fst tv \<noteq> attrErrorCode \<and> attr_ok tv) pre"
    and v: "length (r0 # r1 # cl # num # reason) < 65536"
    and d: "d = h @ concat (map encode_attr pre) @ stunAttr attrErrorCode (r0 # r1 # cl # num # reason) @ post"
  shows "error_code_loop d (length d) (length h) = Some (ucast cl * 100 + ucast num)"
  using pre d
proof (induction pre arbitrary: h)
  case Nil
  let ?v = "r0 # r1 # cl # num # reason"
  obtain a b where ab: "be16 attrErrorCode = [a, b]" "push_bit 8 (ucast a) OR ucast b = attrErrorCode" by (rule be16_bytes)
  obtain x y where xy: "be16 (word_of_nat (length ?v)) = [x, y]"
    "push_bit 8 (unat x) OR unat y = unat (word_of_nat (length ?v) :: u16)" by (rule be16_bytes)
  have len: "push_bit 8 (unat x) OR unat y = length ?v" unfolding xy(2) by (rule unat_len16 [OF v])
  have d: "d = h @ a # b # x # y # ?v @ replicate (pad4 (length ?v)) 0 @ post"
    using Nil ab xy by (simp add: stunAttr_def)
  have nth: "d ! length h = a" "d ! (length h + 1) = b" "d ! (length h + 2) = x" "d ! (length h + 3) = y"
    "d ! (length h + 6) = cl" "d ! (length h + 7) = num" "length h + 8 \<le> length d"
    unfolding d by (simp_all add: nth_append)
  show ?case
    using nth ab(2) len by (subst error_code_loop.simps) (simp add: Let_def)
next
  case (Cons tv pre)
  have d: "d = (h @ encode_attr tv) @ concat (map encode_attr pre) @ stunAttr attrErrorCode (r0 # r1 # cl # num # reason) @ post"
    using Cons.prems(2) by simp
  have "error_code_loop d (length d) (length h) = error_code_loop d (length d) (length h + length (encode_attr tv))"
    by (rule error_code_skip) (use Cons.prems in \<open>simp_all add: length_stunAttr\<close>)
  with Cons.IH [OF _ d] Cons.prems(1) show ?case by simp
qed

text \<open>
  From an error response the parser returns the code of its error-code attribute, class
  times hundred plus number, whatever attributes stand before it and after it and whatever
  reason phrase follows the code.
\<close>

lemma ParseStunErrorCode_finds:
  fixes pre post :: "(u16 \<times> bytes) list" and r0 r1 cl num :: byte and reason :: bytes
  defines "body \<equiv> concat (map encode_attr pre) @ stunAttr attrErrorCode (r0 # r1 # cl # num # reason) @
      concat (map encode_attr post)"
  assumes ty: "ty = MsgAllocateError \<or> ty = 0x0111" and tid: "length tid = 12"
    and body: "length body < 65536" and pre: "list_all (\<lambda>tv. fst tv \<noteq> attrErrorCode) pre"
  shows "ParseStunErrorCode (stunPseudoHeader ty (word_of_nat (length body)) tid @ body) =
    Some (ucast cl * 100 + ucast num)"
proof -
  let ?h = "stunPseudoHeader ty (word_of_nat (length body)) tid"
  let ?d = "?h @ body"
  have small: "ty < 0x4000" using ty by (auto simp: MsgAllocateError_def)
  obtain a b where ab: "be16 ty = [a, b]" "push_bit 8 (ucast a) OR ucast b = ty" by (rule be16_bytes)
  obtain x y where xy: "be16 (word_of_nat (length body)) = [x, y]"
    "push_bit 8 (unat x) OR unat y = unat (word_of_nat (length body) :: u16)" by (rule be16_bytes)
  have len: "push_bit 8 (unat x) OR unat y = length body" unfolding xy(2) by (rule unat_len16 [OF body])
  have h: "?h = a # b # x # y # be32 stunMagic @ tid" using ab xy by (simp add: stunPseudoHeader_def)
  have "list_all attr_ok pre"
  proof -
    have "length (snd tv) \<le> length body" if "tv \<in> set pre" for tv
    proof -
      obtain p q where "pre = p @ tv # q" using \<open>tv \<in> set pre\<close> by (auto dest: split_list)
      then show ?thesis by (simp add: body_def length_stunAttr)
    qed
    then show ?thesis using body by (force simp: list_all_iff attr_ok_def)
  qed
  then have "list_all (\<lambda>tv. fst tv \<noteq> attrErrorCode \<and> attr_ok tv) pre" using pre by (simp add: list_all_iff)
  moreover have "length (r0 # r1 # cl # num # reason) < 65536" using body by (simp add: body_def length_stunAttr)
  ultimately have loop: "error_code_loop ?d (length ?d) (length ?h) = Some (ucast cl * 100 + ucast num)"
    by (rule error_code_found) (simp add: body_def)
  have ty': "StunMessageType ?d = Some ty"
    using stun_type_bits [OF small ab] ab by (simp add: StunMessageType_def h)
  have nth: "?d ! 2 = x" "?d ! 3 = y" by (simp_all add: h)
  have lh: "length ?h = 20" using tid by (simp add: length_pseudo)
  show ?thesis
    unfolding ParseStunErrorCode_def ty' nth len Let_def using loop lh ty by simp
qed

section \<open>Relay endpoints\<close>

definition dotted :: "byte \<Rightarrow> byte \<Rightarrow> byte \<Rightarrow> byte \<Rightarrow> string" where
  "dotted a b c d = format_uint (unat a) @ ''.'' @ format_uint (unat b) @ ''.'' @ format_uint (unat c) @ ''.'' @
     format_uint (unat d)"

lemma dot_not_in_uint: "CHR ''.'' \<notin> set (format_uint n)"
  using format_uint_digits [of "CHR ''.''" n] by (auto simp: is_digit_def)

lemma parse_octet: "parse_uint (format_uint (unat (a :: byte))) 8 = (unat a, None)"
  by (rule parse_format_uint) simp

lemma octets_dotted: "ipv4_octets (split_on CHR ''.'' (dotted a b c d)) = [a, b, c, d]"
  by (simp add: dotted_def split_on_append [OF dot_not_in_uint] split_on_notin [OF dot_not_in_uint] parse_octet)

text \<open>
  Every dotted quad and port has an endpoint encoding of six bytes, and the encoding
  determines address and port: two endpoints are encoded alike only if they are equal.
\<close>

lemma EncodeXorRelayEndpoint_inject:
  "(\<exists>e. EncodeXorRelayEndpoint (dotted a b c d) port = Some e \<and> length e = 6) \<and>
   (EncodeXorRelayEndpoint (dotted a b c d) port = EncodeXorRelayEndpoint (dotted a' b' c' d') port' \<longleftrightarrow>
      a = a' \<and> b = b' \<and> c = c' \<and> d = d' \<and> port = port')"
proof -
  have x: "x XOR k = y XOR k \<longleftrightarrow> x = y" for x y k :: byte
    by (metis xor.assoc xor.right_neutral xor_self_eq)
  have p: "port XOR k = port' XOR k \<longleftrightarrow> port = port'" for k
    by (metis xor.assoc xor.right_neutral xor_self_eq)
  show ?thesis
    by (simp add: EncodeXorRelayEndpoint_def Let_def octets_dotted stunXorAddr_def x p) auto
qed

text \<open>
  A part that is not a number does not make the address malformed, as the comment of the
  function promises, but is skipped: an address with such a part is encoded as if the part were
  absent.
\<close>

lemma EncodeXorRelayEndpoint_skips:
  "EncodeXorRelayEndpoint (''x.'' @ dotted a b c d) port = EncodeXorRelayEndpoint (dotted a b c d) port \<and>
   EncodeXorRelayEndpoint (''x.'' @ dotted a b c d) port \<noteq> None"
proof -
  have "split_on CHR ''.'' (''x.'' @ dotted a b c d) = ''x'' # split_on CHR ''.'' (dotted a b c d)"
    using split_on_append [of "CHR ''.''" "''x''" "dotted a b c d"] by simp
  moreover have "parse_uint ''x'' 8 = (0, Some ErrSyntax)" by (simp add: parse_uint_def is_digit_def)
  ultimately show ?thesis by (simp add: EncodeXorRelayEndpoint_def Let_def octets_dotted)
qed

section \<open>Consent pings\<close>

text \<open>
  A ping is a STUN packet of the ping type that carries its transaction id; a pong with
  the same id answers it, one with another id does not, and a ping is never taken for a pong.
\<close>

lemma ping_pong:
  assumes "length tid = 12" "length tid' = 12"
  shows "let pong = be16 MsgWhatsappPong @ [0, 0] @ be32 stunMagic @ tid
    in StunMessageType (BuildWhatsappPing tid) = Some MsgWhatsappPing \<and>
       StunTransactionID (BuildWhatsappPing tid) = Some tid \<and> length (BuildWhatsappPing tid) = 20 \<and>
       \<not> IsWhatsappPong (BuildWhatsappPing tid) [] \<and>
       (IsWhatsappPong pong tid' \<longleftrightarrow> tid' = tid) \<and> IsWhatsappPong pong []"
  using assms
  by (auto simp: Let_def BuildWhatsappPing_def IsWhatsappPong_def IsStunPacket_def StunMessageType_def
      StunTransactionID_def MsgWhatsappPing_def MsgWhatsappPong_def be16_def slice_def)

section \<open>Stream descriptors on the wire\<close>

text \<open>
  A reader of the protobuf wire format, for the two wire types the builders use, as the relay
  would apply it: a tag varint with the field number and the wire type, then a varint or a
  length-delimited value.
\<close>

datatype pb_field = PVarint u32 u64 | PBytes u32 bytes

definition next_field :: "bytes \<Rightarrow> (pb_field \<times> bytes) option" where
  "next_field bs =
     (case next_varint bs of
        None \<Rightarrow> None
      | Some (tag, r) \<Rightarrow>
          (case next_varint r of
             None \<Rightarrow> None
           | Some (v, r) \<Rightarrow>
               if tag AND 7 = 0 then Some (PVarint (ucast (drop_bit 3 tag)) v, r)
               else if tag AND 7 = 2 then
                 (if length r < unat v then None
                  else Some (PBytes (ucast (drop_bit 3 tag)) (take (unat v) r), drop (unat v) r))
               else None))"

fun encode_field :: "pb_field \<Rightarrow> bytes" where
  "encode_field (PVarint f v) = append_uvarint (pbTag [] f 0) v"
| "encode_field (PBytes f b) = pbLenDelim [] f b"

fun field_ok :: "pb_field \<Rightarrow> bool" where
  "field_ok (PVarint f v) = (unat f < 2 ^ 29)"
| "field_ok (PBytes f b) = (unat f < 2 ^ 29 \<and> length b < 2 ^ 64)"

lemma tag_split:
  fixes f w :: u32
  assumes "unat f < 2 ^ 29" "w < 8"
  shows "(ucast (push_bit 3 f OR w) :: u64) AND 7 = ucast w"
    "(ucast (drop_bit 3 (ucast (push_bit 3 f OR w) :: u64)) :: u32) = f"
proof -
  have m: "(7 :: u64) = mask 3" by (simp add: mask_eq_exp_minus_1)
  have w: "n < 3" if "bit w n" for n
  proof (rule ccontr)
    assume "\<not> n < 3"
    moreover have "unat w < 2 ^ 3" using assms(2) by (simp add: word_less_nat_alt)
    then have "take_bit 3 w = w" by (simp add: word_unat_eq_iff unsigned_take_bit_eq take_bit_nat_eq_self)
    ultimately show False using that by (metis bit_take_bit_iff)
  qed
  have f: "n < 29" if "bit f n" for n
  proof (rule ccontr)
    assume "\<not> n < 29"
    moreover have "take_bit 29 f = f" using assms(1) by (simp add: word_unat_eq_iff unsigned_take_bit_eq take_bit_nat_eq_self)
    ultimately show False using that by (metis bit_take_bit_iff)
  qed
  show "(ucast (push_bit 3 f OR w) :: u64) AND 7 = ucast w"
    unfolding m by (rule bit_word_eqI) (auto simp: bit_simps dest: w)
  show "(ucast (drop_bit 3 (ucast (push_bit 3 f OR w) :: u64)) :: u32) = f"
    by (rule bit_word_eqI) (auto simp: bit_simps dest: w f)
qed

interpretation pb: prefix_codec encode_field next_field field_ok
proof unfold_locales
  fix x r assume ok: "field_ok x"
  show "next_field (encode_field x @ r) = Some (x, r)"
  proof (cases x)
    case (PVarint f v)
    then show ?thesis
      using ok varint.dec_enc [of "ucast (push_bit 3 f)" "append_uvarint [] v @ r"] varint.dec_enc [of v r]
        tag_split [of f 0]
      by (simp add: next_field_def pbTag_def append_uvarint_shift [of "append_uvarint [] (ucast (push_bit 3 f))"])
  next
    case (PBytes f b)
    let ?t = "ucast (push_bit 3 f OR 2) :: u64" and ?n = "word_of_nat (length b) :: u64"
    have n: "unat ?n = length b" using ok PBytes by (simp add: unat_of_nat)
    show ?thesis
      using ok PBytes n varint.dec_enc [of ?t "append_uvarint [] ?n @ b @ r"] varint.dec_enc [of ?n "b @ r"]
        tag_split [of f 2]
      by (simp add: next_field_def pbLenDelim_def pbTag_def append_uvarint_shift [of "append_uvarint [] ?t"])
  qed
qed

definition encode_message :: "pb_field list \<Rightarrow> bytes" where
  "encode_message fs = concat (map encode_field fs)"

definition stream_fields :: "(u32 \<times> u32) \<times> u32 \<Rightarrow> pb_field list" where
  "stream_fields x = (case x of ((participant, layer), ssrc) \<Rightarrow>
     (if participant \<noteq> 0 then [PVarint 1 (ucast participant)] else []) @
     (if layer \<noteq> 0 then [PVarint 2 (ucast layer)] else []) @ [PVarint 3 (ucast ssrc)])"

definition fec_fields :: "nat \<times> u32 \<Rightarrow> pb_field list" where
  "fec_fields x = (case x of (i, ssrc) \<Rightarrow> [PVarint 1 (word_of_nat (i + 3)), PVarint 2 3, PVarint 3 (ucast ssrc)])"

definition descriptor_messages :: "u32 list \<Rightarrow> u32 list \<Rightarrow> pb_field list list" where
  "descriptor_messages ssrcs fec =
     map stream_fields (filter (\<lambda>x. snd x \<noteq> 0) (zip wasmStreamDescriptorPlan ssrcs)) @
     map fec_fields (filter (\<lambda>x. snd x \<noteq> 0) (List.enumerate 0 fec))"

lemma pb_shift:
  "append_uvarint (pbTag out f w) v = out @ append_uvarint (pbTag [] f w) v"
  "pbLenDelim out f b = out @ pbLenDelim [] f b"
  by (simp_all add: pbTag_def pbLenDelim_def append_uvarint_shift [of "append_uvarint _ _"] append_uvarint_shift [of out]
      append_uvarint_shift [of "out @ _"])

lemma stream_descriptor_append:
  "stream_descriptor out x = (if snd x = 0 then out else out @ encode_field (PBytes 1 (encode_message (stream_fields x))))"
  by (cases x) (auto simp: stream_descriptor_def stream_fields_def encode_message_def Let_def pb_shift(2) [of out]
      pb_shift(1) [of "append_uvarint _ _"] pb_shift(1) [of "_ @ _"] split: prod.split)

lemma fec_descriptor_append:
  "fec_descriptor out x = (if snd x = 0 then out else out @ encode_field (PBytes 1 (encode_message (fec_fields x))))"
  by (cases x) (auto simp: fec_descriptor_def fec_fields_def encode_message_def Let_def pb_shift(2) [of out]
      pb_shift(1) [of "append_uvarint _ _"] pb_shift(1) [of "_ @ _"])

lemma foldl_append_filter:
  assumes "\<And>out x. f out x = (if P x then out else out @ g x)"
  shows "foldl f out xs = out @ concat (map g (filter (\<lambda>x. \<not> P x) xs))"
  by (induction xs arbitrary: out) (auto simp: assms)

lemma descriptors_encoded:
  "createWasmStreamDescriptorsWithHBHFEC ssrcs fec =
     encode_message (map (\<lambda>m. PBytes 1 (encode_message m)) (descriptor_messages ssrcs fec))"
  by (simp add: createWasmStreamDescriptorsWithHBHFEC_def Let_def descriptor_messages_def o_def
      foldl_append_filter [OF stream_descriptor_append] foldl_append_filter [OF fec_descriptor_append] encode_message_def)

lemma length_encode_varint: "length (encode_field (PVarint f v)) \<le> 20"
  using length_uvarint_le [of v] length_uvarint_le [of "ucast (push_bit 3 f)"]
  by (simp add: pbTag_def append_uvarint_shift [of "append_uvarint _ _"])

lemma length_message: "list_all (\<lambda>x. \<exists>f v. x = PVarint f v) fs \<Longrightarrow> length (encode_message fs) \<le> 20 * length fs"
proof (induction fs)
  case (Cons x fs)
  then obtain f v where "x = PVarint f v" by auto
  then show ?case using Cons length_encode_varint [of f v] by (simp add: encode_message_def)
qed (simp add: encode_message_def)

text \<open>
  The stream-descriptor payload of an allocate request is valid protobuf: read with the wire
  format it is one sub-message per stream with a non-zero SSRC, in plan order and followed by the
  forward-error-correction streams, each with exactly the participant, layer and SSRC fields of
  its slot; zero fields are left out.
\<close>

lemma stream_descriptors_decode:
  "let msgs = descriptor_messages ssrcs fec
   in \<exists>parts. decode_n next_field (length msgs) (createWasmStreamDescriptorsWithHBHFEC ssrcs fec) =
         Some (map (PBytes 1) parts, []) \<and>
      list_all2 (\<lambda>part m. decode_n next_field (length m) part = Some (m, [])) parts msgs"
proof -
  let ?msgs = "descriptor_messages ssrcs fec"
  let ?parts = "map encode_message ?msgs"
  have shape: "list_all (\<lambda>x. \<exists>f v. x = PVarint f v \<and> unat f < 2 ^ 29) m \<and> length m \<le> 3" if "m \<in> set ?msgs" for m
    using that by (auto simp: descriptor_messages_def stream_fields_def fec_fields_def split: prod.splits if_splits)
  have ok: "list_all field_ok m" "length (encode_message m) < 2 ^ 64" if "m \<in> set ?msgs" for m
  proof -
    show "list_all field_ok m" using shape [OF that] by (auto simp: list_all_iff)
    have "length (encode_message m) \<le> 20 * length m"
      using shape [OF that] by (intro length_message) (auto simp: list_all_iff)
    then show "length (encode_message m) < 2 ^ 64" using shape [OF that] by simp
  qed
  have "decode_n next_field (length (map (PBytes 1) ?parts)) (concat (map encode_field (map (PBytes 1) ?parts)) @ []) =
      Some (map (PBytes 1) ?parts, [])"
    using ok(2) by (intro pb.decode_n_concat) (simp add: list_all_iff)
  then have "decode_n next_field (length ?msgs) (createWasmStreamDescriptorsWithHBHFEC ssrcs fec) = Some (map (PBytes 1) ?parts, [])"
    unfolding descriptors_encoded by (simp add: encode_message_def o_def)
  moreover have "decode_n next_field (length m) (encode_message m) = Some (m, [])" if "m \<in> set ?msgs" for m
    using pb.decode_n_concat [OF ok(1) [OF that], of "[]"] by (simp add: encode_message_def)
  then have "list_all2 (\<lambda>part m. decode_n next_field (length m) part = Some (m, [])) ?parts ?msgs"
    by (simp add: list_all2_conv_all_nth)
  ultimately show ?thesis unfolding Let_def by blast
qed

end
