(* ===== verification/MediaLoop.thy ===== *)
theory MediaLoop
  imports AppData Fanout Stun
begin

unbundle bit_operations_syntax

text \<open>
  The receive loop of the media of a call (\<^verbatim>\<open>wa-core/call_engine_media.go\<close>, from \<open>ch.Recv\<close> on) with the classification of
  relay packets (\<^verbatim>\<open>relay/relay.go\<close>, \<^verbatim>\<open>relay/group_forwarding.go\<close>): what one message from the relays does to the
  receive registry, the replay filter and the reaction receivers. What is authenticated is handed to the video assembler,
  the playout and the mixer, which have theories of their own and are no part of this state; counters and
  logging are left out.
\<close>

section \<open>Relay packets\<close>

definition groupForwardingMarker :: byte where "groupForwardingMarker = 0x09"

text \<open>The payload, whether there was a forwarding header, and whether it was valid.\<close>

definition UnwrapGroupForwardingPacket :: "bytes \<Rightarrow> bytes \<times> bool \<times> bool" where
  "UnwrapGroupForwardingPacket d =
     (if length d = 0 \<or> d ! 0 \<noteq> groupForwardingMarker then (d, False, True)
      else if length d < 2 then ([], True, False)
      else
        case (if d ! 1 = 2 then Some 8 else if d ! 1 = 4 then Some 12 else if d ! 1 = 7 then Some 18 else None) of
          None \<Rightarrow> ([], True, False)
        | Some headerBytes \<Rightarrow>
            if length d < headerBytes + 12 \<or> drop_bit 6 (d ! headerBytes) \<noteq> 2 then ([], True, False)
            else (drop headerBytes d, True, True))"

datatype RelayPacketKind = RelayPacketStun | RelayPacketRtcp | RelayPacketRtp | RelayPacketOther

definition ClassifyRelayPacket :: "bytes \<Rightarrow> RelayPacketKind" where
  "ClassifyRelayPacket d =
     (if length d < 2 then RelayPacketOther
      else
        let first = d ! 0
        in if first AND 0xc0 \<noteq> 0
           then if 192 \<le> d ! 1 \<and> d ! 1 \<le> 223 then RelayPacketRtcp
                else if drop_bit 6 first = 2 then RelayPacketRtp
                else RelayPacketOther
           else RelayPacketStun)"

section \<open>The loop\<close>

record 'd receive_loop =
  lp_audioReceivers :: "'d participantReceiveRegistry"
  lp_appDataReceivers :: "(nat \<times> appDataReceiver) list"
  lp_rtpDedup :: rtpReplayFilter
  lp_rosterGeneration :: u64
  lp_hasRosterGeneration :: bool

definition new_receive_loop :: "'d participantReceiveRegistry \<Rightarrow> 'd receive_loop" where
  "new_receive_loop r = \<lparr>lp_audioReceivers = r, lp_appDataReceivers = [], lp_rtpDedup = newRtpReplayFilter,
     lp_rosterGeneration = 0, lp_hasRosterGeneration = False\<rparr>"

definition check_roster :: "'d receive_loop \<Rightarrow> 'd receive_loop" where
  "check_roster st =
     (let (currentRosterGeneration, activeReceivers) = ActiveReceiverSnapshot (lp_audioReceivers st)
      in if \<not> lp_hasRosterGeneration st \<or> currentRosterGeneration \<noteq> lp_rosterGeneration st
         then st\<lparr>lp_appDataReceivers := forget_receivers activeReceivers (lp_appDataReceivers st),
                lp_rosterGeneration := currentRosterGeneration, lp_hasRosterGeneration := True\<rparr>
         else st)"

text \<open>A packet classified as RTP. The result is the reactions handed to the callback and the state.\<close>

definition receive_rtp :: "(bytes \<Rightarrow> 'd \<Rightarrow> 'p \<times> 'd) \<Rightarrow> protowire \<Rightarrow> reaction_call option \<Rightarrow> bytes \<Rightarrow> 'd receive_loop \<Rightarrow>
    (CallReaction list \<times> 'd receive_loop) option" where
  "receive_rtp decode pw call pkt st =
     (case ParseRtpHeader pkt of
        None \<Rightarrow> Some ([], st)
      | Some vh \<Rightarrow>
          let (dup, f) = Duplicate (Ssrc vh) (SequenceNumber vh) (lp_rtpDedup st);
              st = st\<lparr>lp_rtpDedup := f\<rparr>
          in if dup then Some ([], st)
             else case classifyMediaPayload vh of
               mediaPayloadAppData \<Rightarrow>
                 map_option (\<lambda>(reactions, r, receivers). (reactions, st\<lparr>lp_audioReceivers := r, lp_appDataReceivers := receivers\<rparr>))
                   (app_data_packet pw call pkt (lp_audioReceivers st, lp_appDataReceivers st))
             | mediaPayloadVideo \<Rightarrow> Some ([], st\<lparr>lp_audioReceivers := snd (UnprotectVideo pkt (lp_audioReceivers st))\<rparr>)
             | mediaPayloadAudio \<Rightarrow> Some ([], st\<lparr>lp_audioReceivers := snd (DecodeAudio decode pkt (lp_audioReceivers st))\<rparr>)
             | mediaPayloadUnknown \<Rightarrow> Some ([], st))"

text \<open>
  One turn of the loop on a message, of which the buffer takes 1500 bytes. \<open>answer\<close> tells whether the answer to a binding request
  is sent; the loop ends when it is not. The first component is whether the loop goes on.
\<close>

definition receive_packet :: "(bytes \<Rightarrow> 'd \<Rightarrow> 'p \<times> 'd) \<Rightarrow> protowire \<Rightarrow> (bytes \<Rightarrow> bool) \<Rightarrow> reaction_call option \<Rightarrow> bytes \<Rightarrow>
    'd receive_loop \<Rightarrow> (bool \<times> CallReaction list \<times> 'd receive_loop) option" where
  "receive_packet decode pw answer call message st =
     (let rawPkt = take 1500 message;
          st = check_roster st;
          (pkt, groupWrapped, groupValid) = UnwrapGroupForwardingPacket rawPkt
      in if \<not> groupValid then Some (True, [], st)
         else case ClassifyRelayPacket pkt of
           RelayPacketRtcp \<Rightarrow> Some (True, [], st)
         | RelayPacketStun \<Rightarrow>
             if StunMessageType pkt = Some MsgBindingRequest \<and> \<not> answer pkt then Some (False, [], st) else Some (True, [], st)
         | RelayPacketOther \<Rightarrow> Some (True, [], st)
         | RelayPacketRtp \<Rightarrow> map_option (Pair True) (receive_rtp decode pw call pkt st))"

fun receive_run :: "(bytes \<Rightarrow> 'd \<Rightarrow> 'p \<times> 'd) \<Rightarrow> protowire \<Rightarrow> (bytes \<Rightarrow> bool) \<Rightarrow> reaction_call option \<Rightarrow> bytes list \<Rightarrow>
    'd receive_loop \<Rightarrow> (CallReaction list \<times> 'd receive_loop) option" where
  "receive_run decode pw answer call [] st = Some ([], st)"
| "receive_run decode pw answer call (message # messages) st =
     Option.bind (receive_packet decode pw answer call message st) (\<lambda>(running, reactions, st).
       if \<not> running then Some (reactions, st)
       else map_option (\<lambda>(reactions', st). (reactions @ reactions', st)) (receive_run decode pw answer call messages st))"

section \<open>What reaches the receivers\<close>

text \<open>The RTP packet in a message, with its header.\<close>

definition rtp_packet :: "bytes \<Rightarrow> (bytes \<times> RtpHeader) option" where
  "rtp_packet message =
     (let (pkt, _, valid) = UnwrapGroupForwardingPacket (take 1500 message)
      in if valid \<and> ClassifyRelayPacket pkt = RelayPacketRtp then map_option (Pair pkt) (ParseRtpHeader pkt) else None)"

lemma receive_packet_other:
  assumes "rtp_packet message = None" "\<forall>b. answer b"
  shows "receive_packet decode pw answer call message st = Some (True, [], check_roster st)"
  using assms
  by (auto simp: receive_packet_def rtp_packet_def receive_rtp_def Let_def split: prod.splits if_splits RelayPacketKind.splits)

lemma receive_packet_rtp:
  assumes "rtp_packet message = Some (pkt, h)"
  shows "receive_packet decode pw answer call message st = map_option (Pair True) (receive_rtp decode pw call pkt (check_roster st))"
    and "ParseRtpHeader pkt = Some h"
  using assms by (auto simp: receive_packet_def rtp_packet_def Let_def split: prod.splits if_splits)

text \<open>A packet as an end sends it is taken as it is.\<close>

lemma rtp_packet_encoded:
  assumes "length (EncodeRtpHeader h @ x) \<le> 1500" "PayloadType h < 128" "\<not> Marker h"
  shows "rtp_packet (EncodeRtpHeader h @ x) = Some (EncodeRtpHeader h @ x, h\<lparr>ExtensionWord := None\<rparr>)"
proof -
  let ?p = "EncodeRtpHeader h @ x"
  obtain y where p: "?p = (if 12 < ByteSize h then 0x90 else 0x80) # PayloadType h # y"
    using payload_type_7bit [OF assms(2)] assms(3) by (simp add: EncodeRtpHeader_def Let_def rtpVersion_def)
  have "\<not> 192 \<le> PayloadType h" using assms(2) by (auto simp: word_le_nat_alt word_less_nat_alt)
  then have "ClassifyRelayPacket ?p = RelayPacketRtp" unfolding p by (simp add: ClassifyRelayPacket_def Let_def)
  moreover have "UnwrapGroupForwardingPacket ?p = (?p, False, True)"
    unfolding p by (simp add: UnwrapGroupForwardingPacket_def groupForwardingMarker_def)
  moreover have "take 1500 ?p = ?p" using assms(1) by (rule take_all)
  ultimately show ?thesis using encoded_header_parses [OF assms(2), of x] by (simp only: rtp_packet_def) simp
qed

text \<open>The arrivals that pass the replay filter.\<close>

fun passing :: "(nat \<Rightarrow> bytes) \<Rightarrow> rtpReplayFilter \<Rightarrow> arrival list \<Rightarrow> arrival list" where
  "passing pkt f [] = []"
| "passing pkt f (a # as) =
     (case rtp_packet (arrival_bytes pkt a) of
        None \<Rightarrow> passing pkt f as
      | Some (_, h) \<Rightarrow>
          let (dup, f) = Duplicate (Ssrc h) (SequenceNumber h) f
          in if dup then passing pkt f as else a # passing pkt f as)"

lemma passing_set: "set (passing pkt f as) \<subseteq> set as"
proof (induction as arbitrary: f)
  case (Cons a as)
  then show ?case by (auto simp: split_beta Let_def split: option.split)
qed simp

text \<open>The ring of a stream.\<close>

definition ring_of :: "rtpReplayFilter \<Rightarrow> u32 \<Rightarrow> replayRing" where
  "ring_of f ssrc = (case map_of f ssrc of Some ring \<Rightarrow> ring | None \<Rightarrow> new_ring)"

lemma Duplicate_ring:
  "fst (Duplicate ssrc q f) = fst (ring_duplicate q (ring_of f ssrc))"
  "ring_of (snd (Duplicate ssrc q f)) ssrc' = (if ssrc' = ssrc then snd (ring_duplicate q (ring_of f ssrc)) else ring_of f ssrc')"
  by (auto simp: Duplicate_def ring_of_def split_beta Let_def update_conv')

text \<open>
  Packets of a stream that arrive in order, none of them numbered 65536 or more, all pass at least once, when no other packet uses
  the stream's SSRC.
\<close>

lemma passing_in_order:
  assumes "ring_holds slots (ring_of f ssrc)" "sorted (frame_numbers as)"
    "\<forall>n \<in> set (frame_numbers as). n < 65536 \<and> (\<forall>i m. slots i = Some m \<longrightarrow> m \<le> n)"
    "\<forall>k. Frame k \<in> set as \<longrightarrow> (\<exists>p h. rtp_packet (pkt k) = Some (p, h) \<and> Ssrc h = ssrc \<and> SequenceNumber h = word_of_nat (k + 1))"
    "\<forall>b p h. Other b \<in> set as \<longrightarrow> rtp_packet b = Some (p, h) \<longrightarrow> Ssrc h \<noteq> ssrc"
  shows "sorted (frame_numbers (passing pkt f as)) \<and> set (frame_numbers (passing pkt f as)) \<subseteq> set (frame_numbers as) \<and>
    set (frame_numbers as) \<subseteq> set (frame_numbers (passing pkt f as)) \<union> {m. \<exists>i. slots i = Some m}"
  using assms
proof (induction as arbitrary: f slots)
  case (Cons a as)
  show ?case
  proof (cases a)
    case (Frame k)
    then obtain p h where h: "rtp_packet (pkt k) = Some (p, h)" "Ssrc h = ssrc" "SequenceNumber h = word_of_nat (k + 1)"
      using Cons.prems(4) by auto
    let ?j = "k + 1" and ?f = "snd (Duplicate ssrc (word_of_nat (k + 1)) f)"
    let ?slots = "slots(?j mod 1024 := Some ?j)"
    have j: "?j < 65536" "\<forall>i m. slots i = Some m \<longrightarrow> m \<le> ?j" using Cons.prems(3) Frame by auto
    then have near: "\<forall>i. slots (?j mod 1024) = Some i \<longrightarrow> i \<le> ?j \<and> ?j < i + 65536" by auto
    note spec = ring_duplicate_spec [OF Cons.prems(1) near]
    have ring: "ring_holds ?slots (ring_of ?f ssrc)" using spec(2) by (simp add: Duplicate_ring)
    have "\<forall>n \<in> set (frame_numbers as). n < 65536 \<and> (\<forall>i m. ?slots i = Some m \<longrightarrow> m \<le> n)"
      using Cons.prems(2,3) Frame by (auto split: if_splits)
    from Cons.IH [OF ring _ this] Cons.prems(2,4,5) Frame
    have IH: "sorted (frame_numbers (passing pkt ?f as))" "set (frame_numbers (passing pkt ?f as)) \<subseteq> set (frame_numbers as)"
      "set (frame_numbers as) \<subseteq> set (frame_numbers (passing pkt ?f as)) \<union> {m. \<exists>i. ?slots i = Some m}" by auto
    have slots: "{m. \<exists>i. ?slots i = Some m} \<subseteq> insert ?j {m. \<exists>i. slots i = Some m}" by auto
    have pass: "passing pkt f (a # as) = (if slots (?j mod 1024) = Some ?j then passing pkt ?f as else a # passing pkt ?f as)"
      using h spec(1) Duplicate_ring(1) [of ssrc "word_of_nat ?j" f] by (simp add: Frame split_beta Let_def del: of_nat_Suc of_nat_add)
    show ?thesis
    proof (cases "slots (?j mod 1024) = Some ?j")
      case True
      then have same: "?slots = slots" by auto
      show ?thesis unfolding pass using IH [unfolded same] True Frame by auto
    next
      case False
      have "\<forall>n \<in> set (frame_numbers (passing pkt ?f as)). ?j \<le> n" using IH(2) Cons.prems(2) Frame by auto
      moreover have "set (frame_numbers as) \<subseteq> set (frame_numbers (passing pkt ?f as)) \<union> insert ?j {m. \<exists>i. slots i = Some m}"
        using IH(3) slots by blast
      ultimately show ?thesis unfolding pass using False IH(1,2) Frame by auto
    qed
  next
    case (Other b)
    show ?thesis
    proof (cases "rtp_packet b")
      case None
      with Cons Other show ?thesis by simp
    next
      case (Some q)
      then obtain p h where h: "rtp_packet b = Some (p, h)" "Ssrc h \<noteq> ssrc" using Cons.prems(5) Other by (cases q) auto
      let ?f = "snd (Duplicate (Ssrc h) (SequenceNumber h) f)"
      have "ring_holds slots (ring_of ?f ssrc)" using Cons.prems(1) h(2) by (simp add: Duplicate_ring)
      from Cons.IH [OF this] Cons.prems h(1) Other show ?thesis by (auto simp: split_beta Let_def)
    qed
  qed
qed simp

text \<open>
  The filter learns a number before the packet is authenticated: whatever packet comes first with the SSRC and the sequence
  number of a genuine one, the genuine one is dropped.
\<close>

lemma ring_duplicate_again:
  assumes "length (seen ring) = 16" "length (ring_seq ring) = 1024"
  shows "fst (ring_duplicate q (snd (ring_duplicate q ring)))"
proof -
  have "unat q mod 1024 div 64 < 16" by (rule less_mult_imp_div_less) simp
  moreover have "(w OR push_bit b 1) AND push_bit b 1 \<noteq> 0" if "b < 64" for w :: u64 and b
    using that by (metis and_exp_eq_0_iff_not_bit push_bit_of_1 set_bit_test)
  moreover have "unat q mod 1024 mod 64 < 64" by simp
  ultimately show ?thesis using assms by (simp add: ring_duplicate_def Let_def linorder_not_le)
qed

lemma receive_rtp_dedup:
  "receive_rtp decode pw call pkt st = Some (evs, st') \<Longrightarrow> ParseRtpHeader pkt = Some h \<Longrightarrow>
     lp_rtpDedup st' = snd (Duplicate (Ssrc h) (SequenceNumber h) (lp_rtpDedup st))"
  by (auto simp: receive_rtp_def split_beta Let_def split: if_splits mediaPayloadKind.splits)

lemma check_roster_dedup [simp]: "lp_rtpDedup (check_roster st) = lp_rtpDedup st"
  "lp_audioReceivers (check_roster st) = lp_audioReceivers st"
  by (simp_all add: check_roster_def split_beta Let_def)

lemma unauthenticated_suppresses:
  assumes "rtp_packet b = Some (p, h)" "rtp_packet m = Some (q, h')" "Ssrc h' = Ssrc h" "SequenceNumber h' = SequenceNumber h"
    "lp_rtpDedup st = newRtpReplayFilter" "receive_packet decode pw answer call b st = Some (running, evs, st')"
  shows "\<exists>st''. receive_packet decode pw answer call m st' = Some (True, [], st'')"
proof -
  note b = receive_packet_rtp [OF assms(1)] and m = receive_packet_rtp [OF assms(2)]
  obtain evs' where "receive_rtp decode pw call p (check_roster st) = Some (evs', st')"
    using assms(6) b(1) [of decode pw answer call st] by auto
  from receive_rtp_dedup [OF this b(2)] have f: "lp_rtpDedup (check_roster st') = snd (Duplicate (Ssrc h) (SequenceNumber h) [])"
    using assms(5) by (simp add: newRtpReplayFilter_def)
  have "fst (Duplicate (Ssrc h) (SequenceNumber h) (lp_rtpDedup (check_roster st')))"
    unfolding f Duplicate_ring by (simp add: ring_duplicate_again ring_of_def new_ring_def)
  then have "receive_rtp decode pw call q (check_roster st') =
      Some ([], (check_roster st')\<lparr>lp_rtpDedup := snd (Duplicate (Ssrc h) (SequenceNumber h) (lp_rtpDedup (check_roster st')))\<rparr>)"
    using m(2) assms(3,4) by (simp add: receive_rtp_def split_beta Let_def del: check_roster_dedup)
  then show ?thesis using m(1) [of decode pw answer call st'] by simp
qed

end
