(* ===== verification/Reactions.thy ===== *)
theory Reactions
  imports MediaLoop
begin

text \<open>
  Reactions from one end of a call to the other: the packets a sender hands to the relay, what a receiver delivers of those that
  arrive through its receive loop, and that it is exactly the reactions that are newer than all before them.
\<close>

section \<open>What the sender hands to the relay\<close>

definition app_header :: "u32 \<Rightarrow> nat \<Rightarrow> RtpHeader" where
  "app_header ssrc i = \<lparr>Marker = False, PayloadType = RtpPayloadTypeAppData, SequenceNumber = word_of_nat i,
     Timestamp = word_of_nat (50 * i), Ssrc = ssrc, ExtensionWord = None, VideoExtension = None\<rparr>"

definition app_packet :: "E2eSrtpKeys \<Rightarrow> u32 \<Rightarrow> nat \<Rightarrow> bytes \<Rightarrow> bytes" where
  "app_packet keys ssrc i payload = wire_packet keys (app_header ssrc i) (word_of_nat (i div 65536)) payload"

text \<open>A sender after \<open>i\<close> attempts.\<close>

definition app_sender :: "E2eSrtpKeys \<Rightarrow> u32 \<Rightarrow> nat \<Rightarrow> MediaPipeline \<Rightarrow> appDataSender \<Rightarrow> bool" where
  "app_sender keys ssrc i pipe s \<longleftrightarrow> sendKeys pipe = keys \<and> warpMITagLen pipe = WarpMITagLen \<and>
     (if i = 0 then sendRoc pipe = new_RocTracker else tracks (sendRoc pipe) i) \<and>
     as_sequenceNumber s = word_of_nat i \<and> as_timestamp s = word_of_nat (50 * i) \<and> as_ssrc s = ssrc \<and> as_pipe s = Some pipe"

lemma ProtectRTP_attempt:
  assumes "wf_keys keys" "app_sender keys ssrc i pipe s"
  shows "fst (ProtectRTP (app_header ssrc (Suc i)) payload pipe) = Inr (app_packet keys ssrc (Suc i) payload)"
    and "app_sender keys ssrc (Suc i) (snd (ProtectRTP (app_header ssrc (Suc i)) payload pipe))
      (s\<lparr>as_sequenceNumber := as_sequenceNumber s + 1, as_timestamp := as_timestamp s + appDataTimestampStep,
         as_pipe := Some (snd (ProtectRTP (app_header ssrc (Suc i)) payload pipe))\<rparr>)"
proof -
  let ?h = "app_header ssrc (Suc i)"
  have adv: "fst (Advance (SequenceNumber ?h) (sendRoc pipe)) = word_of_nat (Suc i div 65536)"
    "tracks (snd (Advance (SequenceNumber ?h) (sendRoc pipe))) (Suc i)"
    using Advance_first [of 1] Advance_tracks [of "sendRoc pipe" i "Suc i"] assms(2)
    by (auto simp: app_sender_def app_header_def split: if_splits)
  have keys: "wf_keys (sendKeys pipe)" "warpMITagLen pipe = WarpMITagLen" using assms by (simp_all add: app_sender_def)
  note w = ProtectRTP_wire [OF keys, of ?h payload]
  show "fst (ProtectRTP ?h payload pipe) = Inr (app_packet keys ssrc (Suc i) payload)"
    using w(1) adv assms(2) by (simp add: app_packet_def app_sender_def)
  show "app_sender keys ssrc (Suc i) (snd (ProtectRTP ?h payload pipe))
      (s\<lparr>as_sequenceNumber := as_sequenceNumber s + 1, as_timestamp := as_timestamp s + appDataTimestampStep,
         as_pipe := Some (snd (ProtectRTP ?h payload pipe))\<rparr>)"
    using w(2-5) adv assms(2) by (simp add: app_sender_def appDataTimestampStep_def add.commute)
qed

lemma send_copies_attempts:
  assumes "wf_keys keys" "app_sender keys ssrc i pipe s" "send_copies c payload send pipe s = (err, pkts, s')"
  shows "pkts = map (\<lambda>k. app_packet keys ssrc (i + k + 1) payload) [0..<length pkts] \<and> (0 < c \<longrightarrow> pkts \<noteq> []) \<and>
    (\<exists>pipe'. app_sender keys ssrc (i + length pkts) pipe' s') \<and> as_sendPacket s' = as_sendPacket s \<and> as_transactionID s' = as_transactionID s"
  using assms(2,3)
proof (induction c arbitrary: i pipe s err pkts s')
  case (Suc c)
  note p = ProtectRTP_attempt [OF assms(1) Suc.prems(1), of payload]
  let ?pipe = "snd (ProtectRTP (app_header ssrc (Suc i)) payload pipe)" and ?pkt = "app_packet keys ssrc (Suc i) payload"
  let ?s = "s\<lparr>as_sequenceNumber := as_sequenceNumber s + 1, as_timestamp := as_timestamp s + appDataTimestampStep, as_pipe := Some ?pipe\<rparr>"
  have hd: "\<lparr>Marker = False, PayloadType = RtpPayloadTypeAppData, SequenceNumber = as_sequenceNumber s + 1,
      Timestamp = as_timestamp s + appDataTimestampStep, Ssrc = as_ssrc s, ExtensionWord = None, VideoExtension = None\<rparr> = app_header ssrc (Suc i)"
    using Suc.prems(1) by (simp add: app_sender_def app_header_def appDataTimestampStep_def add.commute)
  have step: "(if \<not> send ?pkt then (Some SendFailed, [?pkt], ?s)
      else let (err, pkts, s) = send_copies c payload send ?pipe ?s in (err, ?pkt # pkts, s)) = (err, pkts, s')"
    using Suc.prems(2) unfolding send_copies.simps Let_def by (simp add: hd p(1) split_beta)
  show ?case
  proof (cases "send ?pkt")
    case False
    with step have "pkts = [?pkt]" "s' = ?s" by auto
    with p(2) show ?thesis by auto
  next
    case True
    obtain err' ps s'' where rec: "send_copies c payload send ?pipe ?s = (err', ps, s'')" by (metis prod_cases3)
    with step True have res: "pkts = ?pkt # ps" "s' = s''" by auto
    from Suc.IH [OF p(2) rec] have IH: "ps = map (\<lambda>k. app_packet keys ssrc (Suc i + k + 1) payload) [0..<length ps]"
      "\<exists>pipe'. app_sender keys ssrc (Suc i + length ps) pipe' s''" "as_sendPacket s'' = as_sendPacket s" "as_transactionID s'' = as_transactionID s"
      by simp_all
    have "map (\<lambda>k. app_packet keys ssrc (i + k + 1) payload) [0..<Suc (length ps)] = ?pkt # map (\<lambda>k. app_packet keys ssrc (Suc i + k + 1) payload) [0..<length ps]"
      by (simp add: upt_conv_Cons map_Suc_upt [symmetric] del: upt_Suc)
    with IH res show ?thesis by simp
  qed
qed auto

text \<open>The log of a sender: every packet with the transaction and emoji it carries.\<close>

fun send_reactions :: "protowire \<Rightarrow> string list \<Rightarrow> appDataSender \<Rightarrow> ((u64 \<times> string) \<times> bytes) list \<times> appDataSender" where
  "send_reactions pw [] s = ([], s)"
| "send_reactions pw (e # es) s =
     (let (err, pkts, s) = sendReaction pw e s; (log, s') = send_reactions pw es s
      in (map (Pair (as_transactionID s, e)) pkts @ log, s'))"

abbreviation valid_text :: "string \<Rightarrow> bool" where
  "valid_text e \<equiv> utf8_valid (bytes_of_string e)"

text \<open>The reactions that are sent, with their transaction ids.\<close>

fun tagged :: "nat \<Rightarrow> string list \<Rightarrow> (u64 \<times> string) list" where
  "tagged t [] = []"
| "tagged t (e # es) = (word_of_nat (Suc t), e) # tagged (Suc t) es"

lemma tagged_ids:
  assumes "t + length es < 2 ^ 64"
  shows "sorted_wrt (\<lambda>x y. fst x < fst y) (tagged t es) \<and> (\<forall>x \<in> set (tagged t es). word_of_nat t < fst x)"
  using assms
proof (induction es arbitrary: t)
  case (Cons e es)
  have "(word_of_nat t :: u64) < word_of_nat (Suc t)" using Cons.prems by (simp add: word_less_nat_alt unat_of_nat del: of_nat_Suc)
  with Cons.IH [of "Suc t"] Cons.prems show ?case by (auto simp del: of_nat_Suc intro: order.strict_trans)
qed simp

lemma map_snd_tagged [simp]: "map snd (tagged t es) = es"
  by (induction es arbitrary: t) auto

lemma remdups_adj_block:
  assumes "xs \<noteq> []" "set xs = {x}" "ys \<noteq> [] \<longrightarrow> hd ys \<noteq> x"
  shows "remdups_adj (xs @ ys) = x # remdups_adj ys"
  using assms
proof (induction xs)
  case (Cons a xs)
  then show ?case by (cases xs; cases ys) (auto simp: subset_singleton_iff)
qed simp

lemma send_reactions_log:
  assumes "wf_keys keys" "app_sender keys ssrc i pipe s" "as_sendPacket s = Some send" "as_transactionID s = word_of_nat t"
    "t + length es < 2 ^ 64"
  shows "let log = fst (send_reactions pw es s) in
    remdups_adj (map fst log) = tagged t (filter valid_text es) \<and>
    (\<forall>k < length log. snd (log ! k) = app_packet keys ssrc (i + k + 1) (encodeAppDataReaction pw (fst (fst (log ! k))) (snd (fst (log ! k)))))"
  using assms(2-)
proof (induction es arbitrary: i pipe s t)
  case (Cons e es)
  show ?case
  proof (cases "valid_text e")
    case False
    with Cons show ?thesis by (simp add: sendReaction_def)
  next
    case True
    let ?s = "s\<lparr>as_transactionID := as_transactionID s + 1\<rparr>" and ?id = "word_of_nat (Suc t) :: u64"
    obtain err pkts s' where c: "send_copies appDataRetransmitCount (encodeAppDataReaction pw ?id e) send pipe ?s = (err, pkts, s')"
      by (metis prod_cases3)
    have at: "app_sender keys ssrc i pipe ?s" "as_pipe s = Some pipe" "as_transactionID ?s = ?id"
      using Cons.prems(1,3) by (simp_all add: app_sender_def add.commute)
    have send: "sendReaction pw e s = (err, pkts, s')"
      using c True at(2) Cons.prems(2,3) by (simp add: sendReaction_def add.commute)
    note a = send_copies_attempts [OF assms(1) at(1) c]
    then obtain pipe' where pipe': "app_sender keys ssrc (i + length pkts) pipe' s'" by blast
    obtain log s'' where rest: "send_reactions pw es s' = (log, s'')" by fastforce
    have "as_sendPacket s' = Some send" "as_transactionID s' = ?id" "pkts \<noteq> []"
      using a Cons.prems(2) at(3) by (simp_all add: appDataRetransmitCount_def)
    note s' = this
    have IH: "remdups_adj (map fst log) = tagged (Suc t) (filter valid_text es)"
      "\<forall>k < length log. snd (log ! k) = app_packet keys ssrc (i + length pkts + k + 1)
         (encodeAppDataReaction pw (fst (fst (log ! k))) (snd (fst (log ! k))))"
      using Cons.IH [OF pipe' s'(1,2)] Cons.prems(4) rest by simp_all
    have "Suc t + length (filter valid_text es) < 2 ^ 64" using Cons.prems(4) length_filter_le [of valid_text es] unfolding length_Cons by linarith
    from tagged_ids [OF this] have "\<forall>x \<in> set (map fst log). ?id < fst x" unfolding IH(1) [symmetric] remdups_adj_set by blast
    then have "map fst log \<noteq> [] \<longrightarrow> hd (map fst log) \<noteq> (?id, e)" by (metis fst_conv hd_in_set order.irrefl)
    then have tags: "remdups_adj (replicate (length pkts) (?id, e) @ map fst log) = (?id, e) # remdups_adj (map fst log)"
      by (intro remdups_adj_block) (use s'(3) in auto)
    have log: "fst (send_reactions pw (e # es) s) = map (Pair (?id, e)) pkts @ log"
      using send rest s'(2) by simp
    have pk: "pkts ! k = app_packet keys ssrc (i + k + 1) (encodeAppDataReaction pw ?id e)" if "k < length pkts" for k
      using a that by (metis (no_types, lifting) add_0 nth_map_upt diff_zero)
    show ?thesis unfolding log Let_def
    proof
      show "remdups_adj (map fst (map (Pair (?id, e)) pkts @ log)) = tagged t (filter valid_text (e # es))"
        using tags IH(1) True by (simp add: o_def map_replicate_const del: of_nat_Suc)
      show "\<forall>k < length (map (Pair (?id, e)) pkts @ log). snd ((map (Pair (?id, e)) pkts @ log) ! k) =
          app_packet keys ssrc (i + k + 1) (encodeAppDataReaction pw (fst (fst ((map (Pair (?id, e)) pkts @ log) ! k)))
            (snd (fst ((map (Pair (?id, e)) pkts @ log) ! k))))"
        using pk IH(2) by (auto simp: nth_append simp del: of_nat_Suc)
    qed
  qed
qed simp

section \<open>What the receiver delivers\<close>

text \<open>The reactions that are newer than all before them.\<close>

fun fresh :: "u64 \<Rightarrow> (u64 \<times> string) list \<Rightarrow> (u64 \<times> string) list" where
  "fresh newest [] = []"
| "fresh newest (x # xs) = (if newest < fst x then x # fresh (fst x) xs else fresh newest xs)"

lemma fresh_increasing: "sorted_wrt (\<lambda>x y. fst x < fst y) (fresh newest xs) \<and> (\<forall>x \<in> set (fresh newest xs). newest < fst x)"
proof (induction xs arbitrary: newest)
  case (Cons x xs)
  show ?case
  proof (cases "newest < fst x")
    case True
    then have "\<forall>y \<in> set (fresh (fst x) xs). newest < fst y" using Cons.IH [of "fst x"] order.strict_trans by blast
    with True Cons.IH [of "fst x"] show ?thesis by simp
  qed (use Cons.IH [of newest] in simp)
qed simp

lemma fresh_sorted:
  assumes "sorted (map fst xs)" "inj_on fst (set xs)"
  shows "set (fresh newest xs) = {x \<in> set xs. newest < fst x}"
  using assms
proof (induction xs arbitrary: newest)
  case (Cons x xs)
  show ?case
  proof (cases "newest < fst x")
    case True
    have later: "y = x \<or> fst x < fst y" if "y \<in> set xs" for y
    proof (cases "fst y = fst x")
      case True
      then show ?thesis using inj_onD [OF Cons.prems(2), of y x] that by simp
    next
      case False
      moreover have "fst x \<le> fst y" using Cons.prems(1) that by simp
      ultimately show ?thesis by (auto simp: order_less_le)
    qed
    have lt: "newest < fst y" if "fst x < fst y" for y using True that by (rule order.strict_trans)
    have "set (fresh newest (x # xs)) = insert x {y \<in> set xs. fst x < fst y}" using True Cons by simp
    also have "\<dots> = {y \<in> set (x # xs). newest < fst y}"
    proof
      show "insert x {y \<in> set xs. fst x < fst y} \<subseteq> {y \<in> set (x # xs). newest < fst y}" using True lt by auto
      show "{y \<in> set (x # xs). newest < fst y} \<subseteq> insert x {y \<in> set xs. fst x < fst y}" using later by auto
    qed
    finally show ?thesis .
  qed (use Cons in auto)
qed simp

lemma increasing_distinct: "sorted_wrt (\<lambda>x y. fst x < (fst y :: u64)) zs \<Longrightarrow> sorted (map fst zs) \<and> distinct (map fst zs)"
  by (induction zs) (auto simp: less_imp_le)

text \<open>Two lists that increase by id and hold the same entries are the same.\<close>

lemma increasing_unique:
  assumes "sorted_wrt (\<lambda>x y. fst x < (fst y :: u64)) xs" "sorted_wrt (\<lambda>x y. fst x < fst y) ys" "set xs = set ys"
  shows "xs = ys"
proof -
  note d = increasing_distinct
  have "map fst xs = map fst ys" using d [OF assms(1)] d [OF assms(2)] assms(3) by (intro sorted_distinct_set_unique) auto
  moreover have "inj_on fst (set xs \<union> set ys)" using d [OF assms(1)] assms(3) by (simp add: distinct_map)
  ultimately show ?thesis by (rule map_inj_on)
qed

text \<open>One participant, heard by a registry of one receiver: \<open>newest\<close> is the newest transaction delivered.\<close>

definition app_receiver :: "E2eSrtpKeys \<Rightarrow> u32 \<Rightarrow> string \<Rightarrow> JID \<Rightarrow> JID \<Rightarrow> nat option \<Rightarrow> u64 \<Rightarrow>
    'd participantReceiveRegistry \<times> (nat \<times> appDataReceiver) list \<Rightarrow> bool" where
  "app_receiver keys ssrc i user device s newest = (\<lambda>(r, receivers).
     rg_byAppDataSSRC r = [(ssrc, 0)] \<and> length (rg_store r) = 1 \<and>
     (let rcv = rg_store r ! 0 in pr_participantID rcv = i \<and> pr_userJID rcv = user \<and> pr_deviceJID rcv = device \<and>
        receiver_at keys s (pr_appDataPipe rcv)) \<and>
     (case map_of receivers 0 of None \<Rightarrow> 0 | Some rcv \<Rightarrow> lastTransactionID rcv) = newest)"

lemma app_receiver_pipe: "app_receiver keys ssrc i user device s newest (r, receivers) \<Longrightarrow> receiver_at keys s (pr_appDataPipe (rg_store r ! 0))"
  by (simp add: app_receiver_def Let_def)

lemma app_data_forged:
  assumes "app_receiver keys ssrc i user device s newest st" "forged keys b"
  shows "app_data_packet pw call b st = Some ([], st)"
proof -
  obtain r receivers where st: "st = (r, receivers)" by fastforce
  let ?rcv = "rg_store r ! 0"
  have p: "recvKeys (pr_appDataPipe ?rcv) = keys" "warpMITagLen (pr_appDataPipe ?rcv) = WarpMITagLen"
    using app_receiver_pipe [OF assms(1) [unfolded st]] by (simp_all add: receiver_at_def)
  have "UnprotectAudio b (pr_appDataPipe ?rcv) = (None, pr_appDataPipe ?rcv)" using UnprotectAudio_forged p assms(2) by simp
  moreover have "(rg_store r)[0 := ?rcv] = rg_store r" by simp
  ultimately show ?thesis using assms(1)
    by (simp add: st app_data_packet_def UnprotectAppData_def app_receiver_def Let_def split: option.split if_split)
qed

text \<open>What the callback is given for a reaction of the participant.\<close>

definition reaction_event :: "string \<Rightarrow> JID \<Rightarrow> JID \<Rightarrow> CallReaction \<Rightarrow> bool" where
  "reaction_event i user device v \<longleftrightarrow> cr_ParticipantID v = i \<and> cr_Sender v = user \<and> cr_Device v = device \<and> (cr_Removed v \<longleftrightarrow> cr_Emoji v = [])"

lemma app_data_received:
  assumes "protowire_laws pw" "wf_keys keys" "app_receiver keys ssrc i user device s newest st" "rc_onReaction c"
    "transactionID \<noteq> 0" "valid_text emoji" "length emoji < 2 ^ 61" "window_from s (n # ns)"
  shows "\<exists>evs st' s'. app_data_packet pw (Some c) (app_packet keys ssrc n (encodeAppDataReaction pw transactionID emoji)) st = Some (evs, st') \<and>
    app_receiver keys ssrc i user device (Some s') (max newest transactionID) st' \<and> near_max s' ns \<and>
    map cr_Emoji evs = (if newest < transactionID then [emoji] else []) \<and> (\<forall>v \<in> set evs. reaction_event i user device v)"
proof -
  obtain r receivers where st: "st = (r, receivers)" by fastforce
  let ?h = "app_header ssrc n" and ?x = "encodeAppDataReaction pw transactionID emoji" and ?rcv = "rg_store r ! 0"
  let ?pkt = "app_packet keys ssrc n ?x"
  have h: "PayloadType ?h < 128" "SequenceNumber ?h = word_of_nat n" "Ssrc ?h = ssrc" by (simp_all add: app_header_def RtpPayloadTypeAppData_def)
  have x: "?x \<noteq> []" by (rule protowire_laws.reaction_encode_decode(2) [OF assms(1,5-7)])
  note pipe = app_receiver_pipe [OF assms(3) [unfolded st]]
  note u = UnprotectAudio_numbered [OF assms(2) pipe h(1,2) x assms(8), folded app_packet_def]
  obtain pipe' where pipe': "UnprotectAudio ?pkt (pr_appDataPipe ?rcv) = (Some (?h\<lparr>ExtensionWord := None\<rparr>, ?x), pipe')"
    using u(1) by (cases "UnprotectAudio ?pkt (pr_appDataPipe ?rcv)") simp
  with u(2) obtain s' where s': "receiver_at keys (Some s') pipe'" "near_max s' ns" by auto
  let ?r = "r\<lparr>rg_store := (rg_store r)[0 := ?rcv\<lparr>pr_appDataPipe := pipe'\<rparr>]\<rparr>" and ?m = "unprotectedMedia 0 ?rcv (?h\<lparr>ExtensionWord := None\<rparr>) ?x"
  have "ParseRtpHeader ?pkt = Some (?h\<lparr>ExtensionWord := None\<rparr>)"
    using encoded_header_parses [OF h(1)] by (simp add: app_packet_def wire_packet_def AppendWarpMITag_def)
  with pipe' have open_pkt: "UnprotectAppData ?pkt r = (Some ?m, ?r)"
    using assms(3) h(3) by (simp add: st UnprotectAppData_def app_receiver_def Let_def)
  define rcv where "rcv = (case map_of receivers 0 of Some rcv \<Rightarrow> rcv | None \<Rightarrow> \<lparr>lastTransactionID = 0\<rparr>)"
  have last: "lastTransactionID rcv = newest" using assms(3) by (auto simp: st rcv_def app_receiver_def split: option.splits)
  have m: "um_Payload ?m = ?x" "um_receiver ?m = 0" by (simp_all add: unprotectedMedia_def)
  note rec = protowire_laws.receive_reaction [OF assms(1,5-7), of rcv]
  have ev: "\<exists>evs rcv'. handleGroupAppDataReaction pw (Some c) rcv ?m = Some (Inr (newest < transactionID), evs, rcv') \<and>
    lastTransactionID rcv' = max newest transactionID \<and> map cr_Emoji evs = (if newest < transactionID then [emoji] else []) \<and>
    (\<forall>v \<in> set evs. reaction_event i user device v)"
    using rec assms(3,4) last
    by (simp add: handleGroupAppDataReaction_def m handle_received_def reaction_event_def st app_receiver_def Let_def unprotectedMedia_def
        max_def less_imp_le not_less antisym)
  then obtain evs rcv' where ev: "handleGroupAppDataReaction pw (Some c) rcv ?m = Some (Inr (newest < transactionID), evs, rcv')"
    "lastTransactionID rcv' = max newest transactionID" "map cr_Emoji evs = (if newest < transactionID then [emoji] else [])"
    "\<forall>v \<in> set evs. reaction_event i user device v" by blast
  have "app_data_packet pw (Some c) ?pkt st = Some (evs, ?r, AList.update 0 rcv' receivers)"
    using open_pkt ev(1) by (simp add: st app_data_packet_def m rcv_def Let_def)
  moreover have "app_receiver keys ssrc i user device (Some s') (max newest transactionID) (?r, AList.update 0 rcv' receivers)"
    using assms(3) s'(1) ev(2) by (simp add: st app_receiver_def Let_def update_conv')
  ultimately show ?thesis using s'(2) ev(3,4) by blast
qed

text \<open>The loop: besides the receiver, which is in the roster, its state is arbitrary.\<close>

definition loop_at :: "E2eSrtpKeys \<Rightarrow> u32 \<Rightarrow> string \<Rightarrow> JID \<Rightarrow> JID \<Rightarrow> nat option \<Rightarrow> u64 \<Rightarrow> 'd receive_loop \<Rightarrow> bool" where
  "loop_at keys ssrc i user device s newest st \<longleftrightarrow>
     app_receiver keys ssrc i user device s newest (lp_audioReceivers st, lp_appDataReceivers st) \<and>
     0 \<in> snd ` set (rg_byDeviceID (lp_audioReceivers st))"

lemma map_of_forget: "a \<in> active \<Longrightarrow> map_of (forget_receivers active rs) a = map_of rs a"
  by (induction rs) (auto simp: forget_receivers_def)

lemma loop_at_roster:
  "loop_at keys ssrc i user device s newest st \<Longrightarrow> loop_at keys ssrc i user device s newest (check_roster st)"
  by (auto simp: loop_at_def app_receiver_def check_roster_def ActiveReceiverSnapshot_def map_of_forget)

lemma app_data_keeps_roster:
  "app_data_packet pw call pkt (r, receivers) = Some (evs, r', receivers') \<Longrightarrow> rg_byDeviceID r' = rg_byDeviceID r"
  by (auto simp: app_data_packet_def UnprotectAppData_def Let_def split: prod.splits option.splits)

text \<open>Packets of the other streams of the participant leave its reactions alone.\<close>

lemma app_receiver_other_streams:
  assumes "app_receiver keys ssrc i user device s newest (r, receivers)"
  shows "app_receiver keys ssrc i user device s newest (snd (UnprotectVideo pkt r), receivers) \<and>
    rg_byDeviceID (snd (UnprotectVideo pkt r)) = rg_byDeviceID r"
    and "app_receiver keys ssrc i user device s newest (snd (DecodeAudio decode pkt r), receivers) \<and>
    rg_byDeviceID (snd (DecodeAudio decode pkt r)) = rg_byDeviceID r"
proof -
  have store: "(rg_store r)[a := rcv] ! 0 = (if a = 0 then rcv else rg_store r ! 0)" for a rcv
    using assms by (auto simp: app_receiver_def nth_list_update)
  show "app_receiver keys ssrc i user device s newest (snd (UnprotectVideo pkt r), receivers) \<and>
    rg_byDeviceID (snd (UnprotectVideo pkt r)) = rg_byDeviceID r"
    using assms by (auto simp: UnprotectVideo_def app_receiver_def Let_def store split_beta split: option.split)
  show "app_receiver keys ssrc i user device s newest (snd (DecodeAudio decode pkt r), receivers) \<and>
    rg_byDeviceID (snd (DecodeAudio decode pkt r)) = rg_byDeviceID r"
    using assms by (auto simp: DecodeAudio_def app_receiver_def Let_def store split_beta split: option.split)
qed

text \<open>A packet that is no application data of the participant: nothing is delivered.\<close>

lemma receive_other:
  assumes "loop_at keys ssrc i user device s newest st" "rtp_packet b = Some (p, h)"
    "classifyMediaPayload h = mediaPayloadAppData \<longrightarrow> forged keys p"
  shows "\<exists>st'. receive_packet decode pw answer call b st = Some (True, [], st') \<and> loop_at keys ssrc i user device s newest st' \<and>
    lp_rtpDedup st' = snd (Duplicate (Ssrc h) (SequenceNumber h) (lp_rtpDedup st))"
proof -
  let ?st = "check_roster st" and ?D = "Duplicate (Ssrc h) (SequenceNumber h) (lp_rtpDedup st)"
  have at: "loop_at keys ssrc i user device s newest ?st" by (rule loop_at_roster [OF assms(1)])
  then have at': "app_receiver keys ssrc i user device s newest (lp_audioReceivers st, lp_appDataReceivers ?st)"
    "0 \<in> snd ` set (rg_byDeviceID (lp_audioReceivers st))" by (simp_all add: loop_at_def)
  note rp = receive_packet_rtp [OF assms(2)] and other = app_receiver_other_streams [OF at'(1)]
  have "\<exists>st'. receive_rtp decode pw call p ?st = Some ([], st') \<and> loop_at keys ssrc i user device s newest st' \<and> lp_rtpDedup st' = snd ?D"
  proof (cases "fst ?D")
    case False
    then show ?thesis
      using rp(2) at at' other assms(3) app_data_forged [OF at'(1), of p pw call]
      by (cases "classifyMediaPayload h") (auto simp: receive_rtp_def split_beta Let_def loop_at_def)
  qed (use rp(2) at in \<open>auto simp: receive_rtp_def split_beta Let_def loop_at_def\<close>)
  then show ?thesis using rp(1) [of decode pw answer call st] by auto
qed

lemma app_packet_received:
  assumes "protowire_laws pw" "transactionID \<noteq> 0" "valid_text emoji" "length emoji \<le> 1000"
  shows "rtp_packet (app_packet keys ssrc n (encodeAppDataReaction pw transactionID emoji)) =
    Some (app_packet keys ssrc n (encodeAppDataReaction pw transactionID emoji), app_header ssrc n)"
proof -
  let ?h = "app_header ssrc n" and ?x = "encodeAppDataReaction pw transactionID emoji"
  have h: "PayloadType ?h < 128" "\<not> Marker ?h" "?h\<lparr>ExtensionWord := None\<rparr> = ?h"
    by (simp_all add: app_header_def RtpPayloadTypeAppData_def)
  obtain y where y: "app_packet keys ssrc n ?x = EncodeRtpHeader ?h @ y" "length y = length ?x + 4"
    using length_ComputeWarpMITag by (simp add: app_packet_def wire_packet_def AppendWarpMITag_def)
  have "length ?x \<le> 1080" using protowire_laws.reaction_encode_decode(3) [OF assms(1-3)] assms(4) by fastforce
  moreover have "length (EncodeRtpHeader ?h) \<le> 20"
    using encoded_header_parses [OF h(1), of "[]"] by (simp add: app_header_def ByteSize_ext header_ext_def)
  ultimately have "length (EncodeRtpHeader ?h @ y) \<le> 1500" using y(2) by simp
  from rtp_packet_encoded [OF this h(1,2)] show ?thesis using y(1) h(3) by simp
qed

text \<open>A packet of the participant that passes the filter, and one that does not.\<close>

lemma receive_genuine:
  assumes "protowire_laws pw" "wf_keys keys" "loop_at keys ssrc i user device s newest st" "rc_onReaction c"
    "transactionID \<noteq> 0" "valid_text emoji" "length emoji \<le> 1000" "window_from s (n # ns)"
    "\<not> fst (Duplicate ssrc (word_of_nat n) (lp_rtpDedup st))"
  shows "\<exists>evs st' s'. receive_packet decode pw answer (Some c) (app_packet keys ssrc n (encodeAppDataReaction pw transactionID emoji)) st =
      Some (True, evs, st') \<and> loop_at keys ssrc i user device (Some s') (max newest transactionID) st' \<and> near_max s' ns \<and>
    lp_rtpDedup st' = snd (Duplicate ssrc (word_of_nat n) (lp_rtpDedup st)) \<and>
    map cr_Emoji evs = (if newest < transactionID then [emoji] else []) \<and> (\<forall>v \<in> set evs. reaction_event i user device v)"
proof -
  let ?st = "check_roster st" and ?pkt = "app_packet keys ssrc n (encodeAppDataReaction pw transactionID emoji)"
  let ?D = "Duplicate ssrc (word_of_nat n) (lp_rtpDedup st)"
  have at: "app_receiver keys ssrc i user device s newest (lp_audioReceivers st, lp_appDataReceivers ?st)"
    "0 \<in> snd ` set (rg_byDeviceID (lp_audioReceivers st))" using loop_at_roster [OF assms(3)] by (simp_all add: loop_at_def)
  have small: "length emoji < 2 ^ 61" using assms(7) by simp
  obtain evs st1 s' where d: "app_data_packet pw (Some c) ?pkt (lp_audioReceivers st, lp_appDataReceivers ?st) = Some (evs, st1)"
    "app_receiver keys ssrc i user device (Some s') (max newest transactionID) st1" "near_max s' ns"
    "map cr_Emoji evs = (if newest < transactionID then [emoji] else [])" "\<forall>v \<in> set evs. reaction_event i user device v"
    using app_data_received [OF assms(1,2) at(1) assms(4-6) small assms(8)] by metis
  obtain r rs where st1: "st1 = (r, rs)" by (cases st1)
  note rp = receive_packet_rtp [OF app_packet_received [OF assms(1,5-7), of keys ssrc n]]
  have h: "Ssrc (app_header ssrc n) = ssrc" "SequenceNumber (app_header ssrc n) = word_of_nat n"
    "classifyMediaPayload (app_header ssrc n) = mediaPayloadAppData"
    by (simp_all add: app_header_def classifyMediaPayload_def)
  let ?st' = "?st\<lparr>lp_rtpDedup := snd ?D, lp_audioReceivers := r, lp_appDataReceivers := rs\<rparr>"
  have "receive_rtp decode pw (Some c) ?pkt ?st = Some (evs, ?st')"
    using rp(2) d(1) assms(9) by (simp add: receive_rtp_def h st1 split_beta Let_def)
  moreover have "loop_at keys ssrc i user device (Some s') (max newest transactionID) ?st'"
    using d(2) at(2) app_data_keeps_roster [OF d(1) [unfolded st1]] by (simp add: loop_at_def st1)
  ultimately show ?thesis using rp(1) [of decode pw answer "Some c" st] d(3-5) by auto
qed

lemma receive_repeated:
  assumes "loop_at keys ssrc i user device s newest st" "rtp_packet b = Some (p, h)" "fst (Duplicate (Ssrc h) (SequenceNumber h) (lp_rtpDedup st))"
  shows "\<exists>st'. receive_packet decode pw answer call b st = Some (True, [], st') \<and> loop_at keys ssrc i user device s newest st' \<and>
    lp_rtpDedup st' = snd (Duplicate (Ssrc h) (SequenceNumber h) (lp_rtpDedup st))"
proof -
  let ?st = "(check_roster st)\<lparr>lp_rtpDedup := snd (Duplicate (Ssrc h) (SequenceNumber h) (lp_rtpDedup st))\<rparr>"
  note rp = receive_packet_rtp [OF assms(2)]
  have "receive_rtp decode pw call p (check_roster st) = Some ([], ?st)"
    using rp(2) assms(3) by (simp add: receive_rtp_def split_beta Let_def)
  then show ?thesis
    using rp(1) [of decode pw answer call st] loop_at_roster [OF assms(1)] by (auto simp: loop_at_def)
qed

text \<open>The reactions of the log that arrive, and which arrivals there may be: packets of the log, and any others but for authentic application data.\<close>

fun arrived :: "((u64 \<times> string) \<times> bytes) list \<Rightarrow> arrival list \<Rightarrow> (u64 \<times> string) list" where
  "arrived log [] = []"
| "arrived log (Frame k # as) = fst (log ! k) # arrived log as"
| "arrived log (Other b # as) = arrived log as"

fun app_arrival_ok :: "E2eSrtpKeys \<Rightarrow> ((u64 \<times> string) \<times> bytes) list \<Rightarrow> arrival \<Rightarrow> bool" where
  "app_arrival_ok keys log (Frame k) \<longleftrightarrow> k < length log"
| "app_arrival_ok keys log (Other b) \<longleftrightarrow>
     (\<forall>p h. rtp_packet b = Some (p, h) \<longrightarrow> classifyMediaPayload h = mediaPayloadAppData \<longrightarrow> forged keys p)"

lemma receive_run_delivers:
  assumes "protowire_laws pw" "wf_keys keys" "rc_onReaction c" "\<forall>b. answer b"
    "\<forall>k < length log. snd (log ! k) = app_packet keys ssrc (k + 1) (encodeAppDataReaction pw (fst (fst (log ! k))) (snd (fst (log ! k)))) \<and>
       fst (fst (log ! k)) \<noteq> 0 \<and> valid_text (snd (fst (log ! k))) \<and> length (snd (fst (log ! k))) \<le> 1000"
    "loop_at keys ssrc i user device s newest st" "\<forall>x \<in> set as. app_arrival_ok keys log x"
    "window_from s (frame_numbers (passing (\<lambda>k. snd (log ! k)) (lp_rtpDedup st) as))"
  shows "\<exists>evs st'. receive_run decode pw answer (Some c) (map (arrival_bytes (\<lambda>k. snd (log ! k))) as) st = Some (evs, st') \<and>
    map cr_Emoji evs = map snd (fresh newest (arrived log (passing (\<lambda>k. snd (log ! k)) (lp_rtpDedup st) as))) \<and>
    (\<forall>v \<in> set evs. reaction_event i user device v)"
  using assms(6-)
proof (induction as arbitrary: s newest st)
  case (Cons a as)
  let ?b = "arrival_bytes (\<lambda>k. snd (log ! k)) a" and ?pass = "passing (\<lambda>k. snd (log ! k))"
  have skip: "?case" if "receive_packet decode pw answer (Some c) ?b st = Some (True, [], st')" "loop_at keys ssrc i user device s newest st'"
    "?pass (lp_rtpDedup st) (a # as) = as' @ ?pass (lp_rtpDedup st') as" "frame_numbers as' = []" "arrived log as' = []" for st' as'
  proof -
    have "frame_numbers (as' @ xs) = frame_numbers xs" "arrived log (as' @ xs) = arrived log xs" for xs
      using that(4,5) by (induction as' rule: frame_numbers.induct) auto
    with that Cons.IH [OF that(2)] Cons.prems(2,3) show ?thesis by auto
  qed
  show ?case
  proof (cases a)
    case (Frame k)
    let ?t = "fst (fst (log ! k))" and ?e = "snd (fst (log ! k))" and ?D = "Duplicate ssrc (word_of_nat (k + 1)) (lp_rtpDedup st)"
    have k: "snd (log ! k) = app_packet keys ssrc (k + 1) (encodeAppDataReaction pw ?t ?e)" "?t \<noteq> 0" "valid_text ?e" "length ?e \<le> 1000"
      using assms(5) Cons.prems(2) Frame by simp_all
    have rp: "rtp_packet (snd (log ! k)) = Some (snd (log ! k), app_header ssrc (k + 1))"
      using app_packet_received [OF assms(1) k(2-4)] k(1) by simp
    have h: "Ssrc (app_header ssrc (k + 1)) = ssrc" "SequenceNumber (app_header ssrc (k + 1)) = word_of_nat (k + 1)"
      by (simp_all add: app_header_def)
    have pass: "?pass (lp_rtpDedup st) (a # as) = (if fst ?D then ?pass (snd ?D) as else a # ?pass (snd ?D) as)"
      using rp h by (simp add: Frame split_beta Let_def del: of_nat_Suc of_nat_add)
    show ?thesis
    proof (cases "fst ?D")
      case True
      from receive_repeated [OF Cons.prems(1) rp, of decode pw answer "Some c"] True h
      obtain st' where "receive_packet decode pw answer (Some c) ?b st = Some (True, [], st')"
        "loop_at keys ssrc i user device s newest st'" "lp_rtpDedup st' = snd ?D" by (auto simp: Frame)
      with skip [of st' "[]"] pass True show ?thesis by simp
    next
      case False
      have w: "window_from s ((k + 1) # frame_numbers (?pass (snd ?D) as))" using Cons.prems(3) pass False Frame by simp
      obtain evs st' s' where step: "receive_packet decode pw answer (Some c) (snd (log ! k)) st = Some (True, evs, st')"
        "loop_at keys ssrc i user device (Some s') (max newest ?t) st'" "near_max s' (frame_numbers (?pass (snd ?D) as))"
        "lp_rtpDedup st' = snd ?D" "map cr_Emoji evs = (if newest < ?t then [?e] else [])" "\<forall>v \<in> set evs. reaction_event i user device v"
        using receive_genuine [OF assms(1,2) Cons.prems(1) assms(3) k(2-4) w False, of decode answer] k(1) by metis
      from Cons.IH [OF step(2)] Cons.prems(2) step(3,4) obtain evs' st'' where
        "receive_run decode pw answer (Some c) (map (arrival_bytes (\<lambda>k. snd (log ! k))) as) st' = Some (evs', st'')"
        "map cr_Emoji evs' = map snd (fresh (max newest ?t) (arrived log (?pass (snd ?D) as)))" "\<forall>v \<in> set evs'. reaction_event i user device v"
        by (auto simp: window_from_def)
      with step(1,5,6) pass False Frame show ?thesis by (auto simp: max_def less_imp_le)
    qed
  next
    case (Other b)
    show ?thesis
    proof (cases "rtp_packet b")
      case None
      with skip [OF _ loop_at_roster [OF Cons.prems(1)], of "[]"] receive_packet_other [OF None assms(4), of decode pw "Some c" st] Other show ?thesis by simp
    next
      case (Some q)
      then obtain p h where rp: "rtp_packet b = Some (p, h)" by (cases q) simp
      have ok: "classifyMediaPayload h = mediaPayloadAppData \<longrightarrow> forged keys p" using Cons.prems(2) Other rp by simp
      obtain st' where st': "receive_packet decode pw answer (Some c) ?b st = Some (True, [], st')" "loop_at keys ssrc i user device s newest st'"
        "lp_rtpDedup st' = snd (Duplicate (Ssrc h) (SequenceNumber h) (lp_rtpDedup st))"
        using receive_other [OF Cons.prems(1) rp ok, of decode pw answer "Some c"] Other by auto
      have "?pass (lp_rtpDedup st) (a # as) = (if fst (Duplicate (Ssrc h) (SequenceNumber h) (lp_rtpDedup st)) then [] else [a]) @ ?pass (lp_rtpDedup st') as"
        using rp st'(3) by (simp add: Other split_beta Let_def)
      with skip [OF st'(1,2)] Other show ?thesis by (auto split: if_splits)
    qed
  qed
qed simp

section \<open>A call\<close>

lemma increasing_blocks:
  assumes "sorted_wrt (\<lambda>x y. fst x < (fst y :: u64)) (remdups_adj xs)"
  shows "sorted (map fst xs)" "inj_on fst (set xs)"
proof -
  show "sorted (map fst xs)" using assms
  proof (induction xs rule: remdups_adj.induct)
    case (3 x y xs)
    show ?case
    proof (cases "x = y")
      case False
      with 3 have IH: "sorted (map fst (y # xs))" and lt: "\<forall>z \<in> set (remdups_adj (y # xs)). fst x < fst z" by simp_all
      have "\<forall>z \<in> set (y # xs). fst x \<le> fst z" using lt unfolding remdups_adj_set by (auto intro: less_imp_le)
      with IH show ?thesis by simp
    qed (use 3 in simp)
  qed simp_all
  show "inj_on fst (set xs)" using increasing_distinct [OF assms] by (simp add: distinct_map)
qed

lemma arrived_frames: "arrived log as = map (\<lambda>n. fst (log ! (n - 1))) (frame_numbers as)"
  by (induction as rule: frame_numbers.induct) auto

lemma sorted_selection:
  assumes "sorted (map f xs)" "sorted ns" "\<forall>n \<in> set ns. n - 1 < length xs"
  shows "sorted (map (\<lambda>n. f (xs ! (n - 1))) ns)"
  using assms(2,3)
proof (induction ns)
  case (Cons n ns)
  have "f (xs ! (n - 1)) \<le> f (xs ! (m - 1))" if "m \<in> set ns" for m
    using sorted_nth_mono [OF assms(1), of "n - 1" "m - 1"] Cons.prems that by (auto simp: diff_le_mono)
  with Cons show ?case by auto
qed simp

lemma all_delivered:
  assumes "remdups_adj (map fst log) = tagged 0 es" "length es < 2 ^ 64" "sorted (frame_numbers as)"
    "\<forall>x \<in> set as. app_arrival_ok keys log x" "set (map fst log) \<subseteq> set (arrived log as)"
  shows "fresh 0 (arrived log as) = tagged 0 es"
proof -
  note t = tagged_ids [of 0 es] and ids = increasing_blocks [of "map fst log"]
  have "\<forall>n \<in> set (frame_numbers as). n - 1 < length (map fst log)"
    using assms(4) by (induction as rule: frame_numbers.induct) auto
  then have "sorted (map (\<lambda>n. fst (map fst log ! (n - 1))) (frame_numbers as))" and sub: "set (arrived log as) \<subseteq> set (map fst log)"
    using sorted_selection [OF ids(1) assms(3)] t assms(1,2) by (auto simp: arrived_frames image_iff intro!: bexI nth_mem)
  moreover have "map (\<lambda>n. fst (map fst log ! (n - 1))) (frame_numbers as) = map fst (arrived log as)"
    using \<open>\<forall>n \<in> set (frame_numbers as). n - 1 < length (map fst log)\<close> by (simp add: arrived_frames)
  ultimately have "sorted (map fst (arrived log as))" by simp
  moreover have eq: "set (arrived log as) = set (tagged 0 es)" using sub assms(5) remdups_adj_set [of "map fst log"] unfolding assms(1) by blast
  moreover have "inj_on fst (set (arrived log as))" using ids(2) t assms(1,2) eq remdups_adj_set [of "map fst log"] by simp
  ultimately have "set (fresh 0 (arrived log as)) = set (tagged 0 es)"
    using fresh_sorted [of "arrived log as" 0] t assms(2) by auto
  then show ?thesis using fresh_increasing t assms(2) by (intro increasing_unique) auto
qed

text \<open>What the log holds: transactions that are not zero and valid texts that were to be sent.\<close>

lemma log_entries:
  assumes "remdups_adj (map fst log) = tagged 0 (filter valid_text es)" "length (filter valid_text es) < 2 ^ 64" "k < length log"
  shows "fst (fst (log ! k)) \<noteq> 0" "snd (fst (log ! k)) \<in> set es" "valid_text (snd (fst (log ! k)))"
proof -
  let ?t = "tagged 0 (filter valid_text es)"
  have "fst (log ! k) \<in> set ?t"
    using assms(3) remdups_adj_set [of "map fst log"] unfolding assms(1) by (simp add: image_iff) (metis nth_mem)
  moreover have "\<forall>x \<in> set ?t. fst x \<noteq> 0" using tagged_ids [of 0 "filter valid_text es"] assms(2) by auto
  moreover have "set (map snd ?t) = set (filter valid_text es)" by (simp only: map_snd_tagged)
  then have "\<forall>x \<in> set ?t. snd x \<in> set (filter valid_text es)" unfolding set_map by blast
  ultimately show "fst (fst (log ! k)) \<noteq> 0" "snd (fst (log ! k)) \<in> set es" "valid_text (snd (fst (log ! k)))" by auto
qed

lemma registry_app_receiver:
  assumes "newParticipantReceiveRegistry d callID callKey self peer = Inr r" "ParseJID peer = (jid, None)"
    "DeriveWasmParticipantSsrc callID (FormatE2ESrtpParticipantID (String jid)) AppDataSlotWord = Inr ssrc"
    "DeriveE2eKeys callKey (FormatE2ESrtpParticipantID (String jid)) = Inr keys"
  shows "loop_at keys ssrc (FormatE2ESrtpParticipantID (String jid)) (ToNonAD jid) jid None 0 (new_receive_loop r)"
  using assms
  by (auto simp: newParticipantReceiveRegistry_def newReceiver_def NewMediaPipeline_def Let_def bindE_Inr_conv app_receiver_def receiver_at_def
      loop_at_def new_receive_loop_def)

text \<open>Frames that arrive in order on a stream nobody else uses all reach the receiver.\<close>

lemma passing_all:
  assumes "\<forall>k < length log. \<exists>p. rtp_packet (snd (log ! k)) = Some (p, app_header ssrc (k + 1))" "length log < 65536"
    "\<forall>x \<in> set as. app_arrival_ok keys log x" "sorted (frame_numbers as)"
    "\<forall>b p h. Other b \<in> set as \<longrightarrow> rtp_packet b = Some (p, h) \<longrightarrow> Ssrc h \<noteq> ssrc"
  shows "sorted (frame_numbers (passing (\<lambda>k. snd (log ! k)) newRtpReplayFilter as)) \<and>
    set (frame_numbers (passing (\<lambda>k. snd (log ! k)) newRtpReplayFilter as)) = set (frame_numbers as)"
proof -
  let ?f = "newRtpReplayFilter"
  have "\<forall>n \<in> set (frame_numbers as). n \<le> length log"
    using assms(3) by (induction as rule: frame_numbers.induct) auto
  then have n: "\<forall>n \<in> set (frame_numbers as). n < 65536" using assms(2) by fastforce
  have "ring_holds (\<lambda>_. None) (ring_of ?f ssrc)" using ring_holds_new by (simp add: ring_of_def newRtpReplayFilter_def)
  moreover have "\<forall>k. Frame k \<in> set as \<longrightarrow> (\<exists>p h. rtp_packet (snd (log ! k)) = Some (p, h) \<and> Ssrc h = ssrc \<and> SequenceNumber h = word_of_nat (k + 1))"
    using assms(1,3) by (fastforce simp: app_header_def)
  ultimately show ?thesis using passing_in_order [of "\<lambda>_. None" ?f ssrc as "\<lambda>k. snd (log ! k)"] assms(4,5) n by auto
qed

text \<open>
  C21: reactions of a call, end to end. The peer of a call sends reactions: each is protected up to ten times under consecutive
  sequence numbers, fewer when the relay refuses a packet. The receive loop gets any messages: packets of this stream, lost, repeated or
  reordered, and others, also forged ones, anything but authentic application data of the peer that is not in the log. Let those packets of the stream
  that pass the loop's replay filter be reordered within 32768 positions. Then the callback is called exactly for those reactions that
  are newer than all before them among the packets that pass the filter, hence at most once each and in the order of
  their transactions, with the emoji that was sent and attributed to the sender. If moreover the packets of the stream arrive in order, at least one copy of each
  reaction does, no other packet uses the stream's SSRC and the sender has sent fewer than 65536 packets,
  the callback is called exactly once for every valid reaction sent, in order. (A packet with a forged header can take the place of a genuine one in the
  filter, which runs before authentication; ten would suppress a reaction.)
\<close>

theorem reactions_delivered:
  assumes "protowire_laws pw" "32 \<le> length callKey"
    "newParticipantReceiveRegistry d callID callKey self peer = Inr r" "ParseJID peer = (jid, None)"
    "DeriveWasmParticipantSsrc callID (FormatE2ESrtpParticipantID (String jid)) AppDataSlotWord = Inr ssrc"
    "NewMediaPipeline callKey (String jid) self ssrc n = Inr pipe"
    "\<forall>e \<in> set es. length e \<le> 1000" "length es < 2 ^ 64" "rc_onReaction c" "\<forall>b. answer b"
    "log = fst (send_reactions pw es (newAppDataSender (Some pipe) ssrc (Some send)))"
    "\<forall>x \<in> set as. app_arrival_ok (sendKeys pipe) log x"
    "passed = passing (\<lambda>k. snd (log ! k)) newRtpReplayFilter as" "in_window (frame_numbers passed)"
  shows "\<exists>evs st. receive_run decode pw answer (Some c) (map (arrival_bytes (\<lambda>k. snd (log ! k))) as) (new_receive_loop r) = Some (evs, st) \<and>
    map cr_Emoji evs = map snd (fresh 0 (arrived log passed)) \<and>
    sorted_wrt (\<lambda>x y. fst x < fst y) (fresh 0 (arrived log passed)) \<and>
    (\<forall>v \<in> set evs. reaction_event (FormatE2ESrtpParticipantID (String jid)) (ToNonAD jid) jid v) \<and>
    (sorted (frame_numbers as) \<and> set (map fst log) \<subseteq> set (arrived log as) \<and> length log < 65536 \<and>
       (\<forall>b p h. Other b \<in> set as \<longrightarrow> rtp_packet b = Some (p, h) \<longrightarrow> Ssrc h \<noteq> ssrc) \<longrightarrow>
     map cr_Emoji evs = filter valid_text es)"
proof -
  obtain keys where k: "DeriveE2eKeys callKey (FormatE2ESrtpParticipantID (String jid)) = Inr keys" "wf_keys keys" "sender_at keys ssrc n [] pipe"
    by (rule NewMediaPipeline_total [OF assms(2), of "String jid" self ssrc n]) (use assms(6) in auto)
  let ?s = "newAppDataSender (Some pipe) ssrc (Some send)" and ?pkt = "\<lambda>k. snd (log ! k)"
  have keys: "sendKeys pipe = keys" using k(3) by (simp add: sender_at_def)
  have "app_sender keys ssrc 0 pipe ?s" using k(3) by (simp add: sender_at_def app_sender_def newAppDataSender_def)
  from send_reactions_log [OF k(2) this, of send 0 es pw] assms(8,11)
  have log: "remdups_adj (map fst log) = tagged 0 (filter valid_text es)"
    "\<forall>k < length log. ?pkt k = app_packet keys ssrc (k + 1) (encodeAppDataReaction pw (fst (fst (log ! k))) (snd (fst (log ! k))))"
    by (simp_all add: newAppDataSender_def Let_def)
  have small: "length (filter valid_text es) < 2 ^ 64" using assms(8) length_filter_le [of valid_text es] by (rule le_less_trans [rotated])
  have genuine: "\<forall>k < length log. ?pkt k = app_packet keys ssrc (k + 1) (encodeAppDataReaction pw (fst (fst (log ! k))) (snd (fst (log ! k)))) \<and>
       fst (fst (log ! k)) \<noteq> 0 \<and> valid_text (snd (fst (log ! k))) \<and> length (snd (fst (log ! k))) \<le> 1000"
    using log(2) log_entries [OF log(1) small] assms(7) by auto
  have new: "lp_rtpDedup (new_receive_loop r) = newRtpReplayFilter" by (simp add: new_receive_loop_def)
  from receive_run_delivers [OF assms(1) k(2) assms(9,10) genuine registry_app_receiver [OF assms(3-5) k(1)] assms(12) [unfolded keys],
      unfolded new, folded assms(13), of decode] assms(14)
  obtain evs st where ev: "receive_run decode pw answer (Some c) (map (arrival_bytes ?pkt) as) (new_receive_loop r) = Some (evs, st)"
    "map cr_Emoji evs = map snd (fresh 0 (arrived log passed))"
    "\<forall>v \<in> set evs. reaction_event (FormatE2ESrtpParticipantID (String jid)) (ToNonAD jid) jid v" by (auto simp: window_from_def)
  have "map cr_Emoji evs = filter valid_text es" if "sorted (frame_numbers as)" "set (map fst log) \<subseteq> set (arrived log as)" "length log < 65536"
    "\<forall>b p h. Other b \<in> set as \<longrightarrow> rtp_packet b = Some (p, h) \<longrightarrow> Ssrc h \<noteq> ssrc"
  proof -
    have "\<forall>k < length log. \<exists>p. rtp_packet (?pkt k) = Some (p, app_header ssrc (k + 1))"
      using genuine app_packet_received [OF assms(1)] by metis
    from passing_all [OF this that(3) assms(12) that(1,4)]
    have p: "sorted (frame_numbers passed)" "set (arrived log passed) = set (arrived log as)"
      unfolding assms(13) arrived_frames by simp_all
    have "\<forall>x \<in> set passed. app_arrival_ok (sendKeys pipe) log x" using assms(12) passing_set unfolding assms(13) by blast
    from all_delivered [OF log(1) small p(1) this] that(2) p(2) show ?thesis using ev(2) by simp
  qed
  with ev fresh_increasing show ?thesis by blast
qed

text \<open>Two reactions whose copies all arrive, each of them twice.\<close>

lemma near_max_low: "s < 32768 \<Longrightarrow> \<forall>n \<in> set ns. n < 32768 \<Longrightarrow> near_max s ns"
  by (induction ns arbitrary: s) auto

lemma in_window_low: "\<forall>n \<in> set ns. n < 32768 \<Longrightarrow> in_window ns"
  by (cases ns) (auto simp: in_window_def intro: near_max_low)

lemma length_send_copies: "send_copies c payload send pipe s = (err, pkts, s') \<Longrightarrow> length pkts \<le> c"
proof (induction c arbitrary: pipe s err pkts s')
  case (Suc c)
  then show ?case by (fastforce simp: Let_def split: prod.splits sum.splits if_splits)
qed simp

lemma length_log: "length (fst (send_reactions pw es s)) \<le> 10 * length es"
proof (induction es arbitrary: s)
  case (Cons e es)
  obtain err pkts s' where r: "sendReaction pw e s = (err, pkts, s')" by (metis prod_cases3)
  then have "length pkts \<le> 10"
    by (auto simp: sendReaction_def appDataRetransmitCount_def Let_def split: if_splits option.splits dest: length_send_copies)
  with r Cons [of s'] show ?case by (simp add: split_beta)
qed simp

lemma all_copies:
  "frame_numbers (map Frame ks) = map Suc ks" "arrived log (map Frame ks) = map (\<lambda>k. fst (log ! k)) ks"
  "map (arrival_bytes f) (map Frame ks) = map f ks"
  by (induction ks) auto

abbreviation twice :: "nat \<Rightarrow> nat list" where
  "twice n \<equiv> concat (map (\<lambda>k. [k, k]) [0..<n])"

lemma twice: "set (twice n) = {..<n}" "sorted (map Suc (twice n))"
  by (auto, induction n) (auto simp: sorted_append)

theorem reactions_delivered_witness:
  "\<exists>r ssrc pipe log evs st. newParticipantReceiveRegistry () ''call'' (replicate 32 7) ''1:1@lid'' ''2:1@lid'' = Inr r \<and>
     NewMediaPipeline (replicate 32 7) (String example_jid) ''1:1@lid'' ssrc 960 = Inr pipe \<and>
     log = fst (send_reactions wire_format [''a'', ''b''] (newAppDataSender (Some pipe) ssrc (Some (\<lambda>_. True)))) \<and>
     receive_run (\<lambda>_ d. ((), d)) wire_format (\<lambda>_. True) (Some \<lparr>rc_Peer = example_jid, rc_onReaction = True\<rparr>)
       (map (\<lambda>k. snd (log ! k)) (twice (length log))) (new_receive_loop r) = Some (evs, st) \<and>
     map cr_Emoji evs = [''a'', ''b'']"
proof -
  have k: "32 \<le> length (replicate 32 (7 :: byte))" by simp
  obtain r where r: "newParticipantReceiveRegistry () ''call'' (replicate 32 7) ''1:1@lid'' ''2:1@lid'' = Inr r"
    using registry_total [OF k example_peer(1), of "()" "''call''" "''1:1@lid''"] by blast
  obtain ssrc where ssrc: "DeriveWasmParticipantSsrc ''call'' (FormatE2ESrtpParticipantID (String example_jid)) AppDataSlotWord = Inr ssrc"
    using DeriveWasmParticipantSsrc_total by blast
  obtain pipe where pipe: "NewMediaPipeline (replicate 32 7) (String example_jid) ''1:1@lid'' ssrc 960 = Inr pipe"
    by (rule NewMediaPipeline_total [OF k])
  define log where "log = fst (send_reactions wire_format [''a'', ''b''] (newAppDataSender (Some pipe) ssrc (Some (\<lambda>_. True))))"
  let ?as = "map Frame (twice (length log))"
  define passed where "passed = passing (\<lambda>k. snd (log ! k)) newRtpReplayFilter ?as"
  have len: "length log \<le> 20" using length_log [of wire_format "[''a'', ''b'']"] by (simp add: log_def)
  have arrive: "\<forall>x \<in> set ?as. app_arrival_ok (sendKeys pipe) log x" by (auto simp: twice(1) simp del: set_concat)
  have "\<forall>n \<in> set (frame_numbers passed). n \<le> length log"
    using passing_set [of "\<lambda>k. snd (log ! k)" newRtpReplayFilter ?as] arrive unfolding passed_def [symmetric]
    by (induction passed rule: frame_numbers.induct) auto
  then have w: "in_window (frame_numbers passed)" using len by (intro in_window_low) auto
  have emojis: "\<forall>e \<in> set [''a'', ''b'']. length e \<le> 1000" "length [''a'', ''b''] < 2 ^ 64" by simp_all
  have "set (map fst log) = (\<lambda>k. fst (log ! k)) ` {..<length log}"
    by (auto simp: set_conv_nth image_iff) (metis nth_map)+
  then have all: "sorted (frame_numbers ?as)" "set (map fst log) \<subseteq> set (arrived log ?as)" "length log < 65536"
    using len twice by (simp_all add: all_copies del: set_concat map_concat)
  have valid: "filter valid_text [''a'', ''b''] = [''a'', ''b'']" by (simp add: bytes_of_string_def byte_of_char_def)
  have on: "rc_onReaction \<lparr>rc_Peer = example_jid, rc_onReaction = True\<rparr>" "\<forall>b :: bytes. (\<lambda>_. True) b" by simp_all
  from reactions_delivered [OF wire.protowire_laws_axioms k r example_peer(1) ssrc pipe emojis on log_def arrive passed_def w,
      of "\<lambda>_ d. ((), d)"] all valid
  obtain evs st where "receive_run (\<lambda>_ d. ((), d)) wire_format (\<lambda>_. True) (Some \<lparr>rc_Peer = example_jid, rc_onReaction = True\<rparr>)
      (map (arrival_bytes (\<lambda>k. snd (log ! k))) ?as) (new_receive_loop r) = Some (evs, st)" "map cr_Emoji evs = [''a'', ''b'']" by auto
  with r pipe log_def show ?thesis unfolding all_copies(3)
    by - (rule exI [of _ r], rule exI [of _ ssrc], rule exI [of _ pipe], rule exI [of _ log], rule exI [of _ evs], rule exI [of _ st], intro conjI)
qed

end
