(* ===== verification/Cipher.thy ===== *)
theory Cipher
  imports Crypto
begin

text \<open>
  The part of Go's standard library that the connection and the app-state sync call: AES with keys
  of every size and in both directions (FIPS 197), cipher block chaining, GCM with additional data
  and 12-byte nonces (SP 800-38D), SHA-512 (FIPS 180-4). Decryption is proved to undo encryption.
\<close>

section \<open>The block cipher\<close>

definition sub_word :: "bytes \<Rightarrow> bytes" where
  "sub_word w = map sub_byte w"

definition rcon :: "nat \<Rightarrow> byte" where
  "rcon i = (xtime ^^ (i - 1)) 1"

text \<open>\<open>ws\<close> holds the words so far, the newest first; \<open>i\<close> is the index of the word to add.\<close>

fun expand_words :: "nat \<Rightarrow> nat \<Rightarrow> nat \<Rightarrow> bytes list \<Rightarrow> bytes list" where
  "expand_words nk 0 i ws = ws"
| "expand_words nk (Suc n) i ws =
     (let temp = hd ws;
          temp = (if i mod nk = 0 then xor_bytes (sub_word (rotate1 temp)) [rcon (i div nk), 0, 0, 0]
                  else if 6 < nk \<and> i mod nk = 4 then sub_word temp
                  else temp)
      in expand_words nk n (i + 1) (xor_bytes (ws ! (nk - 1)) temp # ws))"

definition round_keys :: "bytes \<Rightarrow> bytes list" where
  "round_keys key =
     (let nk = length key div 4
      in chunks 16 (concat (rev (expand_words nk (4 * (nk + 7) - nk) nk (rev (chunks 4 key))))))"

fun enc_rounds :: "bytes list \<Rightarrow> bytes \<Rightarrow> bytes" where
  "enc_rounds [] s = s"
| "enc_rounds [k] s = add_round_key k (shift_rows (map sub_byte s))"
| "enc_rounds (k # ks) s = enc_rounds ks (add_round_key k (mix_columns (shift_rows (map sub_byte s))))"

definition aes_enc :: "bytes \<Rightarrow> bytes \<Rightarrow> bytes" where
  "aes_enc key block =
     (let ks = round_keys key in enc_rounds (tl ks) (add_round_key (hd ks) block))"

definition inv_sub_byte :: "byte \<Rightarrow> byte" where
  "inv_sub_byte b = word_of_nat (length (takeWhile (\<lambda>x. x \<noteq> b) aes_sbox))"

definition inv_shift_rows :: "bytes \<Rightarrow> bytes" where
  "inv_shift_rows s = map (\<lambda>i. s ! i) [0, 13, 10, 7, 4, 1, 14, 11, 8, 5, 2, 15, 12, 9, 6, 3]"

text \<open>The polynomial of \<open>mix_column\<close> has order four, so its inverse is its cube.\<close>

definition inv_mix_columns :: "bytes \<Rightarrow> bytes" where
  "inv_mix_columns s = mix_columns (mix_columns (mix_columns s))"

fun dec_rounds :: "bytes list \<Rightarrow> bytes \<Rightarrow> bytes" where
  "dec_rounds [] s = s"
| "dec_rounds [k] s = map inv_sub_byte (inv_shift_rows (add_round_key k s))"
| "dec_rounds (k # ks) s =
     map inv_sub_byte (inv_shift_rows (inv_mix_columns (add_round_key k (dec_rounds ks s))))"

definition aes_dec :: "bytes \<Rightarrow> bytes \<Rightarrow> bytes" where
  "aes_dec key block = (let ks = round_keys key in add_round_key (hd ks) (dec_rounds (tl ks) block))"

text \<open>\<open>aes.NewCipher\<close>.\<close>

definition NewCipher :: "bytes \<Rightarrow> crypto_error + bytes" where
  "NewCipher key = (if length key \<in> {16, 24, 32} then Inr key else Inl BadKeySize)"

section \<open>Cipher block chaining\<close>

fun cbc_enc :: "bytes \<Rightarrow> bytes \<Rightarrow> bytes list \<Rightarrow> bytes" where
  "cbc_enc key iv [] = []"
| "cbc_enc key iv (b # bs) = (let c = aes_enc key (xor_bytes b iv) in c @ cbc_enc key c bs)"

fun cbc_dec :: "bytes \<Rightarrow> bytes \<Rightarrow> bytes list \<Rightarrow> bytes" where
  "cbc_dec key iv [] = []"
| "cbc_dec key iv (c # cs) = xor_bytes (aes_dec key c) iv @ cbc_dec key c cs"

section \<open>GCM with additional data\<close>

definition gcm_hash_key :: "bytes \<Rightarrow> 128 word" where
  "gcm_hash_key key = word128 (aes_enc key (replicate 16 0))"

definition aead_tag :: "bytes \<Rightarrow> bytes \<Rightarrow> bytes \<Rightarrow> bytes \<Rightarrow> bytes" where
  "aead_tag key nonce ct ad = xor_bytes
     (bytes128 (ghash (gcm_hash_key key)
        (pad16 ad @ pad16 ct @ be64 (word_of_nat (8 * length ad)) @ be64 (word_of_nat (8 * length ct)))))
     (aes_enc key (nonce @ [0, 0, 0, 1]))"

text \<open>\<open>Seal(nil, nonce, plaintext, ad)\<close> and \<open>Open\<close> of \<open>cipher.NewGCM\<close> for its 12-byte nonces.\<close>

definition aead_seal :: "bytes \<Rightarrow> bytes \<Rightarrow> bytes \<Rightarrow> bytes \<Rightarrow> bytes" where
  "aead_seal key nonce plaintext ad =
     (let ct = stream_crypt (aes_enc key) inc32 (nonce @ [0, 0, 0, 2]) plaintext
      in ct @ aead_tag key nonce ct ad)"

definition aead_open :: "bytes \<Rightarrow> bytes \<Rightarrow> bytes \<Rightarrow> bytes \<Rightarrow> bytes option" where
  "aead_open key nonce d ad =
     (if length d < 16 then None
      else
        let ct = take (length d - 16) d
        in if drop (length d - 16) d = aead_tag key nonce ct ad
           then Some (stream_crypt (aes_enc key) inc32 (nonce @ [0, 0, 0, 2]) ct) else None)"

section \<open>SHA-512\<close>

definition rotr64 :: "nat \<Rightarrow> u64 \<Rightarrow> u64" where
  "rotr64 n x = drop_bit n x OR push_bit (64 - n) x"

definition sha512_pad :: "bytes \<Rightarrow> bytes" where
  "sha512_pad m = m @ 0x80 # replicate ((239 - length m mod 128) mod 128 + 8) 0 @ be64 (word_of_nat (8 * length m))"

definition uint64_be :: "bytes \<Rightarrow> u64" where
  "uint64_be b = foldl (\<lambda>acc x. push_bit 8 acc OR ucast x) 0 (take 8 b)"

definition words64 :: "bytes \<Rightarrow> u64 list" where
  "words64 b = map uint64_be (chunks 8 b)"

text \<open>
  The constants are the fractional parts of the cube roots of the first eighty primes and of the
  square roots of the first eight.
\<close>

definition sha512_k :: "u64 list" where
  "sha512_k = map (\<lambda>p. word_of_int (root_bits 3 (p * 2 ^ 192) 68 0)) (primes_below 410)"

definition sha512_init :: "u64 list" where
  "sha512_init = map (\<lambda>p. word_of_int (root_bits 2 (p * 2 ^ 128) 68 0)) (primes_below 20)"

fun extend_schedule64 :: "nat \<Rightarrow> u64 list \<Rightarrow> u64 list" where
  "extend_schedule64 0 ws = ws"
| "extend_schedule64 (Suc n) ws =
     (let t = length ws; x = ws ! (t - 15); y = ws ! (t - 2)
      in extend_schedule64 n (ws @
        [(rotr64 19 y XOR rotr64 61 y XOR drop_bit 6 y) + ws ! (t - 7) +
         (rotr64 1 x XOR rotr64 8 x XOR drop_bit 7 x) + ws ! (t - 16)]))"

definition sha512_round :: "u64 list \<Rightarrow> u64 \<times> u64 \<Rightarrow> u64 list" where
  "sha512_round s kw =
     (case s of [a, b, c, d, e, f, g, h] \<Rightarrow>
        let t1 = h + (rotr64 14 e XOR rotr64 18 e XOR rotr64 41 e) + ((e AND f) XOR (NOT e AND g)) +
                 fst kw + snd kw;
            t2 = (rotr64 28 a XOR rotr64 34 a XOR rotr64 39 a) +
                 ((a AND b) XOR (a AND c) XOR (b AND c))
        in [t1 + t2, a, b, c, d + t1, e, f, g]
      | _ \<Rightarrow> s)"

definition sha512_block :: "u64 list \<Rightarrow> bytes \<Rightarrow> u64 list" where
  "sha512_block s block =
     map2 (+) s (foldl sha512_round s (zip sha512_k (extend_schedule64 64 (words64 block))))"

definition sha512 :: "bytes \<Rightarrow> bytes" where
  "sha512 m = concat (map be64 (foldl sha512_block sha512_init (chunks 128 (sha512_pad m))))"

text \<open>HMAC over SHA-512, whose blocks have 128 bytes.\<close>

definition hmac_sha512 :: "bytes \<Rightarrow> bytes \<Rightarrow> bytes" where
  "hmac_sha512 key m =
     (let k = (if 128 < length key then sha512 key else key);
          k = k @ replicate (128 - length k) 0
      in sha512 (map (\<lambda>b. b XOR 0x5c) k @ sha512 (map (\<lambda>b. b XOR 0x36) k @ m)))"

section \<open>Decryption undoes encryption\<close>

lemma length_add_round_key [simp]: "length (add_round_key k s) = 16"
  by (simp add: add_round_key_def)

lemma add_round_key_twice: "length s = 16 \<Longrightarrow> add_round_key k (add_round_key k s) = s"
  by (rule nth_equalityI) (simp_all add: add_round_key_def xor.assoc)

lemma length_sbox: "length aes_sbox = 256"
  by (simp add: aes_sbox_def)

lemma sorted_sbox: "successively (<) (sort (map uint aes_sbox))"
  by code_simp

lemma distinct_sbox: "distinct aes_sbox"
proof -
  have "sorted_wrt (<) (sort (map uint aes_sbox))"
    using sorted_sbox by (simp add: successively_iff_sorted_wrt_strong transp_def)
  then have "distinct (map uint aes_sbox)" by (simp add: strict_sorted_iff)
  then show ?thesis by (simp add: distinct_map)
qed

lemmas sbox_distinct = distinct_sbox length_sbox

lemma takeWhile_neq_nth: "distinct xs \<Longrightarrow> i < length xs \<Longrightarrow> takeWhile (\<lambda>x. x \<noteq> xs ! i) xs = take i xs"
  by (rule takeWhile_eq_take_P_nth) (auto simp: nth_eq_iff_index_eq)

lemma inv_sub_sub [simp]: "inv_sub_byte (sub_byte b) = b"
proof -
  have "unat b < length aes_sbox" by (simp add: sbox_distinct)
  then show ?thesis by (simp add: inv_sub_byte_def sub_byte_def takeWhile_neq_nth sbox_distinct)
qed

lemma length_16_cases:
  assumes "length s = 16"
  obtains a b c d e f g h i j k l m n p q where "s = [a, b, c, d, e, f, g, h, i, j, k, l, m, n, p, q]"
  using assms by (auto simp: eval_nat_numeral length_Suc_conv)

lemma length_shift_rows [simp]: "length (shift_rows s) = 16"
  by (simp add: shift_rows_def)

lemma inv_shift_shift: "length s = 16 \<Longrightarrow> inv_shift_rows (shift_rows s) = s"
  by (erule length_16_cases) (simp add: shift_rows_def inv_shift_rows_def)

lemma xtime_alt: "xtime b = push_bit 1 b XOR (if bit b 7 then 0x1b else 0)"
  by (simp add: xtime_def)

lemma xtime_xor: "xtime (a XOR b) = xtime a XOR xtime b"
  by (simp add: xtime_alt push_bit_xor bit_xor_iff ac_simps)

lemma xor_left_self [simp]: "a XOR (a XOR b) = (b :: byte)"
  by (simp flip: xor.assoc)

lemma mix_column_2:
  "mix_column (mix_column [a, b, c, d]) =
    [xtime (xtime (a XOR c)) XOR a, xtime (xtime (b XOR d)) XOR b,
     xtime (xtime (a XOR c)) XOR c, xtime (xtime (b XOR d)) XOR d]"
  by (simp add: xtime_xor xor.assoc xor.left_commute xor.commute)

lemma mix_column_4: "mix_column (mix_column (mix_column (mix_column [a, b, c, d]))) = [a, b, c, d]"
  by (simp only: mix_column_2) (simp add: xtime_xor xor.assoc xor.left_commute xor.commute)

lemma mix_columns_16:
  "mix_columns [a, b, c, d, e, f, g, h, i, j, k, l, m, n, p, q] =
    mix_column [a, b, c, d] @ mix_column [e, f, g, h] @ mix_column [i, j, k, l] @ mix_column [m, n, p, q]"
  by (simp add: mix_columns_def chunks.simps)

lemma mix_columns_append:
  assumes "length x = 4" "length y = 4" "length z = 4" "length w = 4"
  shows "mix_columns (x @ y @ z @ w) = mix_column x @ mix_column y @ mix_column z @ mix_column w"
  using assms by (simp add: mix_columns_def chunks.simps)

lemma length_mix_column [simp]: "length (mix_column x) = length x"
  by (cases x rule: mix_column.cases) simp_all

lemma inv_mix_mix:
  assumes "length s = 16"
  shows "inv_mix_columns (mix_columns s) = s"
  using assms by (rule length_16_cases) (simp add: inv_mix_columns_def mix_columns_16 mix_columns_append mix_column_4 del: mix_column.simps)

lemma length_mix_columns [simp]: "length s = 16 \<Longrightarrow> length (mix_columns s) = 16"
  by (erule length_16_cases) (simp add: mix_columns_16)

lemma length_enc_rounds [simp]: "length s = 16 \<Longrightarrow> length (enc_rounds ks s) = 16"
  by (induction ks s rule: enc_rounds.induct) simp_all

lemma map_inv_sub [simp]: "map (inv_sub_byte \<circ> sub_byte) s = s"
  by (simp add: map_idI)

lemma dec_enc_rounds: "length s = 16 \<Longrightarrow> dec_rounds ks (enc_rounds ks s) = s"
  by (induction ks s rule: enc_rounds.induct)
     (simp_all add: add_round_key_twice inv_shift_shift inv_mix_mix)

lemma length_aes_enc [simp]: "length (aes_enc key block) = 16"
  by (simp add: aes_enc_def Let_def)

lemma aes_dec_enc: "length block = 16 \<Longrightarrow> aes_dec key (aes_enc key block) = block"
  by (simp add: aes_dec_def aes_enc_def Let_def dec_enc_rounds add_round_key_twice)

lemma length_cbc_enc: "length (cbc_enc key iv bs) = 16 * length bs"
  by (induction bs arbitrary: iv) (simp_all add: Let_def)

lemma chunks_append_block: "length c = n \<Longrightarrow> 0 < n \<Longrightarrow> chunks n (c @ r) = c # chunks n r"
  by (subst chunks.simps) auto

lemma chunks_Nil [simp]: "chunks n [] = []"
  by (simp add: chunks.simps)

lemma cbc_dec_enc:
  assumes "list_all (\<lambda>b. length b = 16) bs" "length iv = 16"
  shows "cbc_dec key iv (chunks 16 (cbc_enc key iv bs)) = concat bs"
  using assms
  by (induction bs arbitrary: iv) (simp_all add: Let_def chunks_append_block aes_dec_enc xor_bytes_twice)

interpretation aes_any: keystream "aes_enc key" incr for key incr
  by unfold_locales simp

section \<open>Authenticated encryption\<close>

lemma length_aead_tag [simp]: "length (aead_tag key nonce ct ad) = 16"
  by (simp add: aead_tag_def bytes128_def)

lemma length_aead_seal [simp]: "length (aead_seal key nonce p ad) = length p + 16"
  by (simp add: aead_seal_def Let_def)

lemma aead_open_seal [simp]: "aead_open key nonce (aead_seal key nonce p ad) ad = Some p"
  by (simp add: aead_open_def aead_seal_def Let_def)

lemma aead_open_iff: "aead_open key nonce d ad = Some p \<longleftrightarrow> d = aead_seal key nonce p ad"
proof
  assume opened: "aead_open key nonce d ad = Some p"
  let ?ct = "take (length d - 16) d"
  from opened have "drop (length d - 16) d = aead_tag key nonce ?ct ad"
    "p = stream_crypt (aes_enc key) inc32 (nonce @ [0, 0, 0, 2]) ?ct"
    by (auto simp: aead_open_def Let_def split: if_splits)
  then show "d = aead_seal key nonce p ad"
    by (simp add: aead_seal_def Let_def) (metis append_take_drop_id)
qed simp

lemma length_sha512_round [simp]: "length (sha512_round s kw) = length s"
  by (auto simp: sha512_round_def Let_def split: list.split)

lemma length_foldl_sha512_round [simp]: "length (foldl sha512_round s kws) = length s"
  by (induction kws arbitrary: s) auto

lemma length_foldl_sha512_block [simp]: "length (foldl sha512_block s bs) = length s"
  by (induction bs arbitrary: s) (auto simp: sha512_block_def)

lemma length_concat_be64: "length (concat (map be64 ws)) = 8 * length ws"
  by (induction ws) auto

lemma length_sha512_init: "length sha512_init = 8"
  by (simp add: sha512_init_def primes_below_def upto_rec1)

lemma length_hmac_sha512 [simp]: "length (hmac_sha512 key m) = 64"
  by (simp add: hmac_sha512_def sha512_def Let_def length_concat_be64 length_sha512_init)

end
