(* ===== verification/Cbc.thy ===== *)
theory Cbc
  imports Cipher
begin

text \<open>
  AES-CBC with padding (\<^verbatim>\<open>wa-core/util/cbcutil/cbc.go\<close>): in memory, and in chunks of 32 KiB over
  files for media uploads and downloads. The chunked routines are proved to compute what the
  in-memory ones do.
\<close>

section \<open>Definitions\<close>

datatype cbc_error = CbcKeySize | NotBlockMultiple | PaddingTooLarge | PlaintextTooLarge | WrongSize

definition liftCbc :: "crypto_error + 'a \<Rightarrow> cbc_error + 'a" where
  "liftCbc m = (case m of Inl _ \<Rightarrow> Inl CbcKeySize | Inr x \<Rightarrow> Inr x)"

text \<open>
  \<open>CryptBlocks\<close> of \<open>cipher.NewCBCEncrypter\<close> and \<open>NewCBCDecrypter\<close>: the state of a mode is the block
  chained into the next one.
\<close>

definition enc_blocks :: "bytes \<Rightarrow> bytes \<Rightarrow> bytes \<Rightarrow> bytes \<times> bytes" where
  "enc_blocks key iv src =
     (let dst = cbc_enc key iv (chunks 16 src)
      in (dst, if dst = [] then iv else drop (length dst - 16) dst))"

definition dec_blocks :: "bytes \<Rightarrow> bytes \<Rightarrow> bytes \<Rightarrow> bytes \<times> bytes" where
  "dec_blocks key iv src =
     (cbc_dec key iv (chunks 16 src), if src = [] then iv else drop (length src - 16) src)"

definition unpad :: "bytes \<Rightarrow> cbc_error + bytes" where
  "unpad src =
     (let len = length src; padLen = unat (last src)
      in if len < padLen then Inl PaddingTooLarge else Inr (take (len - padLen) src))"

definition CbcDecrypt :: "bytes \<Rightarrow> bytes \<Rightarrow> bytes \<Rightarrow> cbc_error + bytes" where
  "CbcDecrypt key iv ciphertext =
     bindE (liftCbc (NewCipher key)) (\<lambda>block.
       if length ciphertext = 0 \<or> length ciphertext mod 16 \<noteq> 0 then Inl NotBlockMultiple
       else unpad (fst (dec_blocks block iv ciphertext)))"

text \<open>Without an \<open>iv\<close> the random bytes \<open>rnd\<close> are used and precede the ciphertext.\<close>

definition CbcEncrypt :: "bytes \<Rightarrow> bytes option \<Rightarrow> bytes \<Rightarrow> bytes \<Rightarrow> cbc_error + bytes" where
  "CbcEncrypt key iv rnd plaintext =
     (if 1000000000 < length plaintext then Inl PlaintextTooLarge
      else
        let sizeOfLastBlock = length plaintext mod 16;
            paddingLen = 16 - sizeOfLastBlock;
            plaintextStart = take (length plaintext - sizeOfLastBlock) plaintext;
            lastBlock = drop (length plaintext - sizeOfLastBlock) plaintext @ replicate paddingLen (word_of_nat paddingLen)
        in if length plaintextStart mod 16 \<noteq> 0 then Inl WrongSize
           else if length lastBlock \<noteq> 16 then Inl WrongSize
           else bindE (liftCbc (NewCipher key)) (\<lambda>block.
             let v = (case iv of None \<Rightarrow> rnd | Some v \<Rightarrow> v);
                 (c1, v') = enc_blocks block v plaintextStart;
                 (c2, _) = enc_blocks block v' lastBlock
             in Inr ((if iv = None then rnd else []) @ c1 @ c2)))"

definition bufSize :: nat where "bufSize = 32 * 1024"

text \<open>
  The loop of \<open>EncryptStream\<close> over a reader that yields \<open>rest\<close>: \<open>len\<close> is the number of bytes read
  before, \<open>v\<close> the chained block. A full buffer is encrypted as it is; the short read at the end,
  also an empty one, is padded. \<open>io.ReadFull\<close> fills the buffer unless the input ends.
\<close>

function stream_loop :: "bytes \<Rightarrow> bytes \<Rightarrow> nat \<Rightarrow> bytes \<Rightarrow> bytes \<times> nat" where
  "stream_loop key v len rest =
     (let buf = take bufSize rest;
          size' = len + length buf
      in if length buf < bufSize then
           let padding = 16 - size' mod 16
           in (fst (enc_blocks key v (buf @ replicate padding (word_of_nat padding))), size' + padding)
         else
           let (c, v') = enc_blocks key v buf;
               (cs, n) = stream_loop key v' size' (drop bufSize rest)
           in (c @ cs, n))"
  by pat_completeness auto
termination by (relation "measure (\<lambda>(key, v, len, rest). length rest)") (auto simp: bufSize_def)

declare stream_loop.simps [simp del]

text \<open>The hash of the plaintext, the hash of the file, the two sizes, and the file written.\<close>

definition EncryptStream :: "bytes \<Rightarrow> bytes \<Rightarrow> bytes \<Rightarrow> bytes \<Rightarrow> cbc_error + bytes \<times> bytes \<times> nat \<times> nat \<times> bytes" where
  "EncryptStream key iv macKey plaintext =
     bindE (liftCbc (NewCipher key)) (\<lambda>block.
       let (c, n) = stream_loop block iv 0 plaintext;
           mac = take 10 (hmac sha256 macKey (iv @ c))
       in Inr (sha256 plaintext, sha256 (c @ mac), length plaintext, n + 10, c @ mac))"

function file_loop :: "bytes \<Rightarrow> bytes \<Rightarrow> bytes \<Rightarrow> bytes" where
  "file_loop key v rest =
     (if rest = [] then []
      else
        let (p, v') = dec_blocks key v (take bufSize rest)
        in p @ file_loop key v' (drop bufSize rest))"
  by pat_completeness auto
termination by (relation "measure (\<lambda>(key, v, rest). length rest)") (auto simp: bufSize_def)

declare file_loop.simps [simp del]

text \<open>The content of the file after \<open>DecryptFile\<close>; it is overwritten in place and truncated.\<close>

definition DecryptFile :: "bytes \<Rightarrow> bytes \<Rightarrow> bytes \<Rightarrow> cbc_error + bytes" where
  "DecryptFile key iv file =
     bindE (liftCbc (NewCipher key)) (\<lambda>block.
       if length file mod 16 \<noteq> 0 then Inl NotBlockMultiple
       else
         let content = file_loop block iv file;
             lastByte = (if content = [] then 0 else unat (last content))
         in if length file < lastByte then Inl PaddingTooLarge
            else Inr (take (length file - lastByte) content))"

section \<open>Chaining\<close>

lemma mod_diff: "n \<le> m \<Longrightarrow> m mod n = 0 \<Longrightarrow> (m - n) mod n = (0 :: nat)"
  by (metis le_mod_geq)

lemma mod_0_le: "m mod n = 0 \<Longrightarrow> m \<noteq> 0 \<Longrightarrow> n \<le> (m :: nat)"
  by (metis mod_less not_le)

lemma chunks_append:
  "length xs mod n = 0 \<Longrightarrow> chunks n (xs @ ys) = chunks n xs @ chunks n ys"
proof (induction n xs rule: chunks.induct)
  case (1 n xs)
  show ?case
  proof (cases "n = 0 \<or> xs = []")
    case True
    then show ?thesis by (auto simp: chunks.simps [of 0])
  next
    case False
    with 1(2) have "n \<le> length xs" by (intro mod_0_le) simp_all
    have "length (drop n xs) mod n = 0" using 1(2) \<open>n \<le> length xs\<close> by (simp add: mod_diff)
    then have "chunks n (drop n xs @ ys) = chunks n (drop n xs) @ chunks n ys" by (rule 1(1) [OF False])
    moreover have "chunks n (xs @ ys) = take n xs # chunks n (drop n xs @ ys)"
      using False \<open>n \<le> length xs\<close> by (subst chunks.simps) simp
    moreover have "chunks n xs = take n xs # chunks n (drop n xs)"
      using False by (subst chunks.simps) simp
    ultimately show ?thesis by simp
  qed
qed

lemma chunks_whole: "length xs mod n = 0 \<Longrightarrow> c \<in> set (chunks n xs) \<Longrightarrow> length c = n"
proof (induction n xs rule: chunks.induct)
  case (1 n xs)
  have "n \<noteq> 0 \<and> xs \<noteq> []" using 1(3) by (auto simp: chunks.simps split: if_splits)
  moreover from this 1(2) have "n \<le> length xs" by (intro mod_0_le) simp_all
  moreover have "length (drop n xs) mod n = 0" using 1(2) calculation by (simp add: mod_diff)
  ultimately show ?case using 1 by (subst (asm) (2) chunks.simps) auto
qed

lemma concat_chunks: "0 < n \<Longrightarrow> concat (chunks n xs) = xs"
proof (induction n xs rule: chunks.induct)
  case (1 n xs)
  then show ?case by (cases "xs = []") (simp_all add: chunks.simps [of n xs])
qed

lemma length_chunks: "length xs mod n = 0 \<Longrightarrow> n * length (chunks n xs) = length xs"
proof (cases "n = 0")
  case False
  assume m: "length xs mod n = 0"
  have "length (concat (chunks n xs)) = n * length (chunks n xs)"
    using chunks_whole [OF m] by (simp add: length_concat sum_list_triv cong: map_cong)
  with False show ?thesis by (simp add: concat_chunks)
qed (simp add: chunks.simps)

definition chain :: "bytes \<Rightarrow> bytes list \<Rightarrow> bytes" where
  "chain v cs = (if cs = [] then v else last cs)"

lemma cbc_dec_append: "cbc_dec key v (cs @ ds) = cbc_dec key v cs @ cbc_dec key (chain v cs) ds"
  by (induction cs arbitrary: v) (auto simp: chain_def)

lemma chain_chunks:
  assumes "length src mod 16 = 0"
  shows "chain v (chunks 16 src) = (if src = [] then v else drop (length src - 16) src)"
proof (cases "src = []")
  case False
  with assms have le: "16 \<le> length src" by (intro mod_0_le) simp_all
  let ?a = "take (length src - 16) src" and ?b = "drop (length src - 16) src"
  have "length ?a mod 16 = 0" using assms le by (simp add: mod_diff)
  then have "chunks 16 (?a @ ?b) = chunks 16 ?a @ chunks 16 ?b" by (rule chunks_append)
  moreover have "chunks 16 ?b = [?b]" using le by (simp add: chunks.simps)
  ultimately show ?thesis using False by (simp add: chain_def)
qed (simp add: chain_def)

lemma dec_blocks_append:
  assumes "length a mod 16 = 0"
  shows "fst (dec_blocks key v (a @ b)) = fst (dec_blocks key v a) @ fst (dec_blocks key (snd (dec_blocks key v a)) b)"
  using assms by (simp add: dec_blocks_def chunks_append cbc_dec_append chain_chunks)

lemma enc_chain:
  "cbc_enc key v (bs @ cs) = cbc_enc key v bs @
    cbc_enc key (if bs = [] then v else drop (length (cbc_enc key v bs) - 16) (cbc_enc key v bs)) cs"
proof (induction bs arbitrary: v)
  case (Cons b bs)
  let ?c = "aes_enc key (xor_bytes b v)"
  have "drop (length (?c @ cbc_enc key ?c bs) - 16) (?c @ cbc_enc key ?c bs) =
      (if bs = [] then ?c else drop (length (cbc_enc key ?c bs) - 16) (cbc_enc key ?c bs))"
    by (cases bs) (simp_all add: length_cbc_enc Let_def)
  with Cons show ?case by (simp add: Let_def del: drop_append)
qed simp

lemma cbc_enc_eq_Nil [simp]: "cbc_enc key v bs = [] \<longleftrightarrow> bs = []"
  using length_cbc_enc [of key v bs] by auto

lemma enc_blocks_append:
  assumes "length a mod 16 = 0"
  shows "fst (enc_blocks key v (a @ b)) = fst (enc_blocks key v a) @ fst (enc_blocks key (snd (enc_blocks key v a)) b)"
  using assms by (simp add: enc_blocks_def chunks_append Let_def enc_chain [of key v "chunks 16 a"])

section \<open>Padding and the round trip\<close>

definition pkcs_pad :: "bytes \<Rightarrow> bytes" where
  "pkcs_pad p = (let n = 16 - length p mod 16 in p @ replicate n (word_of_nat n))"

lemma pad_mod: "(n + (16 - n mod 16)) mod 16 = (0 :: nat)"
proof -
  define r q where "r = n mod 16" and "q = n div 16"
  have "r < 16" "n = 16 * q + r" by (simp_all add: r_def q_def)
  then have "n + (16 - r) = 16 * (q + 1)" by simp
  then show ?thesis unfolding r_def by simp
qed

lemma mod16_buf: "32768 \<le> n \<Longrightarrow> (n - 32768) mod 16 = (n :: nat) mod 16"
  using mod_mult_self3 [of 2048 16 "n - 32768"] by simp

lemma length_pkcs_pad: "length (pkcs_pad p) mod 16 = 0" "pkcs_pad p \<noteq> []"
proof -
  have len: "length (pkcs_pad p) = length p + (16 - length p mod 16)" by (simp add: pkcs_pad_def Let_def)
  then show "length (pkcs_pad p) mod 16 = 0" by (simp only: pad_mod)
  have "length p mod 16 < 16" by simp
  then have "0 < length (pkcs_pad p)" using len by linarith
  then show "pkcs_pad p \<noteq> []" by auto
qed

lemma unpad_pkcs_pad: "unpad (pkcs_pad p) = Inr p"
proof -
  define n where "n = 16 - length p mod 16"
  have n: "0 < n" "n < 256" by (simp_all add: n_def)
  then have "unat (last (pkcs_pad p)) = n"
    by (simp add: pkcs_pad_def n_def [symmetric] unat_byte_small)
  then show ?thesis by (simp add: unpad_def) (simp add: pkcs_pad_def n_def [symmetric])
qed

lemma CbcEncrypt_padded:
  assumes "length p \<le> 1000000000" "NewCipher key = Inr key"
  shows "CbcEncrypt key (Some iv) rnd p = Inr (fst (enc_blocks key iv (pkcs_pad p)))"
    and "CbcEncrypt key None rnd p = Inr (rnd @ fst (enc_blocks key rnd (pkcs_pad p)))"
proof -
  let ?m = "length p mod 16"
  let ?a = "take (length p - ?m) p" and ?b = "drop (length p - ?m) p @ replicate (16 - ?m) (word_of_nat (16 - ?m))"
  have a: "length ?a mod 16 = 0" "length ?b = 16" "?m \<le> length p"
    by (simp_all add: minus_mod_eq_mult_div)
  moreover have "pkcs_pad p = ?a @ ?b" by (simp add: pkcs_pad_def Let_def del: of_nat_diff)
  ultimately show "CbcEncrypt key (Some iv) rnd p = Inr (fst (enc_blocks key iv (pkcs_pad p)))"
    "CbcEncrypt key None rnd p = Inr (rnd @ fst (enc_blocks key rnd (pkcs_pad p)))"
    using assms enc_blocks_append [of ?a key _ ?b]
    by (simp_all add: CbcEncrypt_def Let_def liftCbc_def split: prod.split del: of_nat_diff)
qed

lemma dec_enc_blocks:
  assumes "length d mod 16 = 0" "length iv = 16"
  shows "fst (dec_blocks key iv (fst (enc_blocks key iv d))) = d"
proof -
  have "list_all (\<lambda>b. length b = 16) (chunks 16 d)"
    using chunks_whole [OF assms(1)] by (simp add: list_all_iff)
  then show ?thesis
    using cbc_dec_enc assms(2) by (simp add: dec_blocks_def enc_blocks_def Let_def concat_chunks)
qed

lemma length_enc_blocks: "length d mod 16 = 0 \<Longrightarrow> length (fst (enc_blocks key v d)) = length d"
  by (simp add: enc_blocks_def Let_def length_cbc_enc length_chunks)

lemma decrypt_padded:
  assumes "NewCipher key = Inr key" "length iv = 16"
  shows "CbcDecrypt key iv (fst (enc_blocks key iv (pkcs_pad p))) = Inr p"
  using assms length_pkcs_pad [of p] length_enc_blocks [OF length_pkcs_pad(1) [of p], of key iv]
  by (simp add: CbcDecrypt_def liftCbc_def dec_enc_blocks unpad_pkcs_pad)

section \<open>Files\<close>

lemma stream_loop_whole:
  assumes "len mod 16 = 0"
  shows "stream_loop key v len rest =
    (fst (enc_blocks key v (pkcs_pad rest)), len + length (pkcs_pad rest))"
  using assms
proof (induction "length rest" arbitrary: rest len v rule: less_induct)
  case less
  note mod16 = less.prems
  have pad: "(len + length rest) mod 16 = length rest mod 16" using mod16 by (metis add_0 mod_add_left_eq)
  show ?case
  proof (cases "length rest < bufSize")
    case True
    then show ?thesis
      by (subst stream_loop.simps) (simp add: Let_def pad pkcs_pad_def del: of_nat_diff)
  next
    case False
    let ?a = "take bufSize rest" and ?b = "drop bufSize rest"
    have a: "length ?a = bufSize" "length ?a mod 16 = 0" using False by (simp_all add: bufSize_def)
    have "length rest mod 16 = length ?b mod 16"
      using False mod16_buf [of "length rest"] by (simp add: bufSize_def)
    then have split: "pkcs_pad rest = ?a @ pkcs_pad ?b"
      by (simp add: pkcs_pad_def Let_def del: of_nat_diff)
    have "stream_loop key (snd (enc_blocks key v ?a)) (len + bufSize) ?b =
        (fst (enc_blocks key (snd (enc_blocks key v ?a)) (pkcs_pad ?b)), len + bufSize + length (pkcs_pad ?b))"
      using mod16 False by (intro less.hyps) (simp_all add: bufSize_def mod_add_eq [symmetric, of len])
    moreover have "fst (enc_blocks key v (pkcs_pad rest)) =
        fst (enc_blocks key v ?a) @ fst (enc_blocks key (snd (enc_blocks key v ?a)) (pkcs_pad ?b))"
      unfolding split by (rule enc_blocks_append [OF a(2)])
    moreover have "length (pkcs_pad rest) = bufSize + length (pkcs_pad ?b)" unfolding split using a(1) by simp
    ultimately show ?thesis
      using False by (subst stream_loop.simps) (auto simp: Let_def case_prod_beta)
  qed
qed

lemma file_loop_whole: "length rest mod 16 = 0 \<Longrightarrow> file_loop key v rest = fst (dec_blocks key v rest)"
proof (induction "length rest" arbitrary: rest v rule: less_induct)
  case less
  show ?case
  proof (cases "rest = []")
    case False
    let ?a = "take bufSize rest" and ?b = "drop bufSize rest"
    have "length ?a mod 16 = 0" "length ?b mod 16 = 0"
      using less.prems mod16_buf [of "length rest"] by (cases "bufSize \<le> length rest"; simp add: bufSize_def min_def)+
    then have "fst (dec_blocks key v (?a @ ?b)) =
        fst (dec_blocks key v ?a) @ file_loop key (snd (dec_blocks key v ?a)) ?b"
      using False less.hyps [of ?b "snd (dec_blocks key v ?a)"]
      unfolding dec_blocks_append [OF \<open>length ?a mod 16 = 0\<close>] by (simp add: bufSize_def)
    with False show ?thesis by (simp add: file_loop.simps [of _ _ rest] split: prod.split)
  qed (simp add: file_loop.simps dec_blocks_def)
qed

text \<open>
  C11: media encryption round trip. For a valid key and a 16-byte initialisation vector the streaming
  encryption writes exactly the in-memory ciphertext followed by the ten-byte authentication tag of
  vector and ciphertext, whatever the size relative to the 32 KiB buffer; the sizes and hashes it
  returns are those of the plaintext and of the file; and both decrypting the bytes in memory and
  decrypting the file in place give the plaintext back.
\<close>
theorem EncryptStream_DecryptFile:
  assumes "NewCipher key = Inr key" "length iv = 16" "length p \<le> 1000000000"
  shows "\<exists>c mac. CbcEncrypt key (Some iv) rnd p = Inr c \<and> mac = take 10 (hmac sha256 macKey (iv @ c)) \<and>
    EncryptStream key iv macKey p = Inr (sha256 p, sha256 (c @ mac), length p, length (c @ mac), c @ mac) \<and>
    length p < length c \<and> length c \<le> length p + 16 \<and>
    CbcDecrypt key iv c = Inr p \<and> DecryptFile key iv c = Inr p"
proof -
  let ?c = "fst (enc_blocks key iv (pkcs_pad p))"
  have len: "length ?c = length (pkcs_pad p)" using length_enc_blocks length_pkcs_pad(1) by simp
  have "DecryptFile key iv ?c = Inr p"
    using unpad_pkcs_pad [of p] length_pkcs_pad [of p] assms
    by (simp add: DecryptFile_def liftCbc_def len file_loop_whole dec_enc_blocks unpad_def Let_def split: if_splits)
  moreover have "length (take 10 (hmac sha256 macKey (iv @ ?c))) = 10" by simp
  moreover have "length p < length (pkcs_pad p)" "length (pkcs_pad p) \<le> length p + 16"
    by (simp_all add: pkcs_pad_def Let_def)
  ultimately show ?thesis
    using assms by (auto simp: CbcEncrypt_padded decrypt_padded EncryptStream_def liftCbc_def stream_loop_whole Let_def len)
qed

theorem EncryptStream_DecryptFile_witness:
  "\<exists>c mac. CbcEncrypt (replicate 32 1) (Some (replicate 16 2)) [] [3, 4] = Inr c \<and>
    mac = take 10 (hmac sha256 [5] (replicate 16 2 @ c)) \<and>
    EncryptStream (replicate 32 1) (replicate 16 2) [5] [3, 4] = Inr (sha256 [3, 4], sha256 (c @ mac), 2, length (c @ mac), c @ mac) \<and>
    2 < length c \<and> length c \<le> 18 \<and>
    CbcDecrypt (replicate 32 1) (replicate 16 2) c = Inr [3, 4] \<and> DecryptFile (replicate 32 1) (replicate 16 2) c = Inr [3, 4]"
  using EncryptStream_DecryptFile [of "replicate 32 1" "replicate 16 2" "[3, 4]" "[]" "[5]"]
  by (simp add: NewCipher_def numeral_2_eq_2)

end
