(* ===== verification/Lthash.thy ===== *)
theory Lthash
  imports Crypto "HOL-Library.Multiset"
begin

text \<open>
  The summation hash of the app-state sync (\<^verbatim>\<open>wa-core/appstate/lthash/lthash.go\<close>, with
  \<^verbatim>\<open>util/hkdfutil/hkdf.go\<close>): every item is expanded to a vector of 16-bit lanes and added to or
  subtracted from the base lane by lane, modulo 65536.
\<close>

section \<open>Definitions\<close>

datatype lthash_error = SliceOutOfRange | ExpandFailed crypto_error

text \<open>\<open>hkdfutil.SHA256\<close>; the length is a \<open>uint8\<close>.\<close>

definition hkdf_SHA256 :: "bytes \<Rightarrow> bytes \<Rightarrow> bytes \<Rightarrow> u8 \<Rightarrow> lthash_error + bytes" where
  "hkdf_SHA256 key slt info len =
     (case hkdf_sha256 key slt info (unat len) of Inl e \<Rightarrow> Inl (ExpandFailed e) | Inr d \<Rightarrow> Inr d)"

record LTHash =
  HKDFInfo :: bytes
  HKDFSize :: u8

definition WAPatchIntegrity :: LTHash where
  "WAPatchIntegrity = \<lparr>HKDFInfo = bytes_of_string ''WhatsApp Patch Integrity'', HKDFSize = 128\<rparr>"

definition le16 :: "u16 \<Rightarrow> bytes" where
  "le16 w = rev (be16 w)"

definition uint16_le :: "bytes \<Rightarrow> u16" where
  "uint16_le b = uint16_be (rev (take 2 b))"

fun performPointwiseWithOverflow :: "bytes \<Rightarrow> bytes \<Rightarrow> bool \<Rightarrow> lthash_error + bytes" where
  "performPointwiseWithOverflow [] input subtract = Inr []"
| "performPointwiseWithOverflow (b0 # b1 # base) (i0 # i1 # input) subtract =
     (let x = uint16_le [b0, b1];
          y = uint16_le [i0, i1];
          result = (if subtract then x - y else x + y)
      in bindE (performPointwiseWithOverflow base input subtract) (\<lambda>r. Inr (le16 result @ r)))"
| "performPointwiseWithOverflow base input subtract = Inl SliceOutOfRange"

fun multipleOp :: "LTHash \<Rightarrow> bytes \<Rightarrow> bytes list \<Rightarrow> bool \<Rightarrow> lthash_error + bytes" where
  "multipleOp lth base [] subtract = Inr base"
| "multipleOp lth base (item # input) subtract =
     bindE (hkdf_SHA256 item [] (HKDFInfo lth) (HKDFSize lth)) (\<lambda>d.
     bindE (performPointwiseWithOverflow base d subtract) (\<lambda>base. multipleOp lth base input subtract))"

definition SubtractThenAddInPlace :: "LTHash \<Rightarrow> bytes \<Rightarrow> bytes list \<Rightarrow> bytes list \<Rightarrow> lthash_error + bytes" where
  "SubtractThenAddInPlace lth base subtract add =
     bindE (multipleOp lth base subtract True) (\<lambda>base. multipleOp lth base add False)"

definition SubtractThenAdd :: "LTHash \<Rightarrow> bytes \<Rightarrow> bytes list \<Rightarrow> bytes list \<Rightarrow> lthash_error + bytes" where
  "SubtractThenAdd lth base subtract add = SubtractThenAddInPlace lth base subtract add"

section \<open>Lanes\<close>

definition lane :: "nat \<Rightarrow> bytes \<Rightarrow> u16" where
  "lane i b = uint16_le (drop (2 * i) b)"

lemma length_le16 [simp]: "length (le16 w) = 2"
  by (simp add: le16_def)

lemma uint16_le_le16 [simp]: "uint16_le (le16 w @ r) = w"
  by (simp add: uint16_le_def le16_def)

lemma lane_Suc [simp]: "lane (Suc i) (a # b # r) = lane i r"
  by (simp add: lane_def)

lemma lane_0 [simp]: "lane 0 (a # b # r) = uint16_le [a, b]"
  by (simp add: lane_def uint16_le_def)

lemma lane_le16 [simp]: "lane 0 (le16 w @ r) = w" "lane (Suc i) (le16 w @ r) = lane i r"
  by (simp_all add: lane_def)

lemma uint16_le_inject: "uint16_le [a, b] = uint16_le [c, d] \<longleftrightarrow> a = c \<and> b = d"
proof
  assume "uint16_le [a, b] = uint16_le [c, d]"
  then have "be16 (uint16_be [b, a]) = be16 (uint16_be [d, c])" by (simp add: uint16_le_def del: be16_inject)
  then show "a = c \<and> b = d" unfolding be16_uint16_be by simp
qed simp

text \<open>Lanes determine the vector.\<close>

lemma lanes_eqI:
  assumes "length xs = 2 * n" "length ys = 2 * n" "\<And>i. i < n \<Longrightarrow> lane i xs = lane i ys"
  shows "xs = ys"
  using assms
proof (induction n arbitrary: xs ys)
  case (Suc n)
  obtain a b xs' c d ys' where xs: "xs = a # b # xs'" "ys = c # d # ys'"
    using Suc.prems(1,2) by (auto simp: length_Suc_conv)
  moreover have "xs' = ys'"
  proof (rule Suc.IH)
    fix i
    assume "i < n"
    then show "lane i xs' = lane i ys'" using Suc.prems(3) [of "Suc i"] xs by simp
  qed (use Suc.prems xs in simp_all)
  moreover have "a = c \<and> b = d" using Suc.prems(3) [of 0] xs by (simp add: uint16_le_inject)
  ultimately show ?case by simp
qed simp

lemma pointwise_lanes:
  assumes "length base = 2 * n" "2 * n \<le> length input"
  shows "\<exists>r. performPointwiseWithOverflow base input sub = Inr r \<and> length r = 2 * n \<and>
    (\<forall>i<n. lane i r = (if sub then lane i base - lane i input else lane i base + lane i input))"
  using assms
proof (induction n arbitrary: base input)
  case (Suc n)
  obtain a b bs c d js where l: "base = a # b # bs" "input = c # d # js"
    using Suc.prems by (auto simp: length_Suc_conv Suc_le_length_iff numeral_2_eq_2)
  then obtain r where r: "performPointwiseWithOverflow bs js sub = Inr r" "length r = 2 * n"
    "\<forall>i<n. lane i r = (if sub then lane i bs - lane i js else lane i bs + lane i js)"
    using Suc.IH [of bs js] Suc.prems by auto
  then show ?case by (auto simp: l Let_def less_Suc_eq_0_disj)
qed simp

section \<open>Sums\<close>

text \<open>The vector an item contributes.\<close>

definition contribution :: "LTHash \<Rightarrow> bytes \<Rightarrow> bytes" where
  "contribution lth item = (case hkdf_SHA256 item [] (HKDFInfo lth) (HKDFSize lth) of Inl _ \<Rightarrow> [] | Inr d \<Rightarrow> d)"

lemma hkdf_SHA256_total:
  "hkdf_SHA256 item [] (HKDFInfo lth) (HKDFSize lth) = Inr (contribution lth item) \<and>
   length (contribution lth item) = unat (HKDFSize lth)"
proof -
  have "unat (HKDFSize lth) \<le> 8160" using unat_byte_lt [of "HKDFSize lth"] by linarith
  then obtain k where "hkdf_sha256 item [] (HKDFInfo lth) (unat (HKDFSize lth)) = Inr k"
    using hkdf_sha256_total by blast
  then show ?thesis using hkdf_sha256_length by (fastforce simp: contribution_def hkdf_SHA256_def)
qed

lemma multipleOp_lanes:
  assumes "length base = 2 * n" "2 * n \<le> unat (HKDFSize lth)"
  shows "\<exists>r. multipleOp lth base input sub = Inr r \<and> length r = 2 * n \<and>
    (\<forall>i<n. lane i r = (if sub then lane i base - (\<Sum>x\<leftarrow>input. lane i (contribution lth x))
                                  else lane i base + (\<Sum>x\<leftarrow>input. lane i (contribution lth x))))"
  using assms(1)
proof (induction input arbitrary: base)
  case (Cons x xs)
  obtain b where b: "performPointwiseWithOverflow base (contribution lth x) sub = Inr b" "length b = 2 * n"
    "\<forall>i<n. lane i b = (if sub then lane i base - lane i (contribution lth x) else lane i base + lane i (contribution lth x))"
    using pointwise_lanes [OF Cons.prems, of "contribution lth x" sub] hkdf_SHA256_total [of x lth] assms(2) by auto
  obtain r where "multipleOp lth b xs sub = Inr r" "length r = 2 * n"
    "\<forall>i<n. lane i r = (if sub then lane i b - (\<Sum>x\<leftarrow>xs. lane i (contribution lth x))
                              else lane i b + (\<Sum>x\<leftarrow>xs. lane i (contribution lth x)))"
    using Cons.IH [OF b(2)] by auto
  with b show ?case by (simp add: hkdf_SHA256_total algebra_simps)
qed simp

text \<open>The hash adds and subtracts, lane by lane and modulo 65536, what its items contribute.\<close>

lemma SubtractThenAdd_lanes:
  assumes "length base = 128" "unat (HKDFSize lth) = 128"
  shows "\<exists>r. SubtractThenAddInPlace lth base subs adds = Inr r \<and> length r = 128 \<and>
    (\<forall>i<64. lane i r = lane i base - (\<Sum>x\<leftarrow>subs. lane i (contribution lth x)) + (\<Sum>x\<leftarrow>adds. lane i (contribution lth x)))"
proof -
  obtain m where m: "multipleOp lth base subs True = Inr m" "length m = 2 * 64"
    "\<forall>i<64. lane i m = lane i base - (\<Sum>x\<leftarrow>subs. lane i (contribution lth x))"
    using multipleOp_lanes [of base 64 lth subs True] assms by auto
  obtain r where "multipleOp lth m adds False = Inr r" "length r = 2 * 64"
    "\<forall>i<64. lane i r = lane i m + (\<Sum>x\<leftarrow>adds. lane i (contribution lth x))"
    using multipleOp_lanes [OF m(2), of lth adds False] assms by auto
  with m show ?thesis by (simp add: SubtractThenAddInPlace_def)
qed

lemma sum_list_mset: "mset xs = mset ys \<Longrightarrow> (\<Sum>x\<leftarrow>xs. f x) = (\<Sum>x\<leftarrow>ys. f x :: 'a :: comm_monoid_add)"
  by (metis mset_map sum_mset_sum_list)

text \<open>
  The hash of the sync is a function of the multiset of what was added and removed. For every
  128-byte state, performing one update after another gives the same as one update with all items
  together, in any order; removing what was added restores the state; and an update never fails.
\<close>
lemma SubtractThenAdd_composes:
  assumes "length base = 128"
  shows "\<exists>m r. SubtractThenAdd WAPatchIntegrity base s1 a1 = Inr m \<and> length m = 128 \<and>
    SubtractThenAdd WAPatchIntegrity m s2 a2 = Inr r \<and>
    (mset s + mset a1 + mset a2 = mset a + mset s1 + mset s2 \<longrightarrow>
      SubtractThenAdd WAPatchIntegrity base s a = Inr r) \<and>
    SubtractThenAdd WAPatchIntegrity m a1 s1 = Inr base"
proof -
  let ?l = WAPatchIntegrity
  let ?f = "\<lambda>i x. lane i (contribution ?l x)"
  have sz: "unat (HKDFSize ?l) = 128" by (simp add: WAPatchIntegrity_def)
  note step = SubtractThenAdd_lanes [OF _ sz]
  obtain m where m: "SubtractThenAddInPlace ?l base s1 a1 = Inr m" "length m = 128"
    "\<And>i. i < 64 \<Longrightarrow> lane i m = lane i base - (\<Sum>x\<leftarrow>s1. ?f i x) + (\<Sum>x\<leftarrow>a1. ?f i x)"
    using step [OF assms] by blast
  obtain r where r: "SubtractThenAddInPlace ?l m s2 a2 = Inr r" "length r = 128"
    "\<And>i. i < 64 \<Longrightarrow> lane i r = lane i m - (\<Sum>x\<leftarrow>s2. ?f i x) + (\<Sum>x\<leftarrow>a2. ?f i x)"
    using step [OF m(2)] by blast
  obtain b where b: "SubtractThenAddInPlace ?l m a1 s1 = Inr b" "length b = 128"
    "\<And>i. i < 64 \<Longrightarrow> lane i b = lane i m - (\<Sum>x\<leftarrow>a1. ?f i x) + (\<Sum>x\<leftarrow>s1. ?f i x)"
    using step [OF m(2)] by blast
  have "b = base" by (rule lanes_eqI [where n = 64]) (simp_all add: assms b m)
  moreover have "SubtractThenAddInPlace ?l base s a = Inr r"
    if e: "mset s + mset a1 + mset a2 = mset a + mset s1 + mset s2"
  proof -
    obtain q where q: "SubtractThenAddInPlace ?l base s a = Inr q" "length q = 128"
      "\<And>i. i < 64 \<Longrightarrow> lane i q = lane i base - (\<Sum>x\<leftarrow>s. ?f i x) + (\<Sum>x\<leftarrow>a. ?f i x)"
      using step [OF assms] by blast
    have "(\<Sum>x\<leftarrow>s @ a1 @ a2. ?f i x) = (\<Sum>x\<leftarrow>a @ s1 @ s2. ?f i x)" for i
      by (rule sum_list_mset) (use e in \<open>simp add: add.assoc\<close>)
    then have "q = r"
      by (intro lanes_eqI [where n = 64]) (simp_all add: q r m algebra_simps)
    with q show ?thesis by simp
  qed
  ultimately show ?thesis using m r b by (auto simp: SubtractThenAdd_def)
qed

end
