(* ===== verification/AppstateStore.thy ===== *)
theory AppstateStore
  imports Prelude
begin

text \<open>
  The tables of the app-state sync and the queries on them
  (\<^verbatim>\<open>wa-core/store/sqlstore/store.go\<close>, schema in \<^verbatim>\<open>upgrades/00-latest-schema.sql\<close>), for one device.
  A statement that violates a constraint of the schema fails and changes nothing; failures of the
  database itself are not modelled.
\<close>

section \<open>Tables\<close>

record AppStateSyncKey =
  key_Data :: bytes
  key_Fingerprint :: bytes
  key_Timestamp :: int

record MacRow =
  row_name :: string
  row_version :: u64
  row_index :: bytes
  row_value :: bytes

text \<open>
  \<open>sync_keys\<close> has one row per key id, \<open>versions\<close> one per collection; the primary key of
  \<open>mac_rows\<close> is name, version and index.
\<close>

record app_tables =
  sync_keys :: "(bytes \<times> AppStateSyncKey) list"
  versions :: "(string \<times> u64 \<times> bytes) list"
  mac_rows :: "MacRow list"

datatype store_error = ConstraintViolation | ErrInvalidLength | InvalidVersionZero

section \<open>Keys\<close>

fun upsert :: "('v \<Rightarrow> 'v \<Rightarrow> bool) \<Rightarrow> 'k \<Rightarrow> 'v \<Rightarrow> ('k \<times> 'v) list \<Rightarrow> ('k \<times> 'v) list" where
  "upsert replaces k v [] = [(k, v)]"
| "upsert replaces k v ((k', v') # rows) =
     (if k' = k then (k, if replaces v v' then v else v') # rows
      else (k', v') # upsert replaces k v rows)"

definition PutAppStateSyncKey :: "bytes \<Rightarrow> AppStateSyncKey \<Rightarrow> app_tables \<Rightarrow> app_tables" where
  "PutAppStateSyncKey kid k st =
     st\<lparr>sync_keys := upsert (\<lambda>new old. key_Timestamp old < key_Timestamp new) kid k (sync_keys st)\<rparr>"

definition GetAppStateSyncKey :: "bytes \<Rightarrow> app_tables \<Rightarrow> AppStateSyncKey option" where
  "GetAppStateSyncKey kid st = map_of (sync_keys st) kid"

definition GetAllAppStateSyncKeys :: "app_tables \<Rightarrow> AppStateSyncKey list" where
  "GetAllAppStateSyncKeys st = sort_key (\<lambda>k. - key_Timestamp k) (map snd (sync_keys st))"

definition GetLatestAppStateSyncKeyID :: "app_tables \<Rightarrow> bytes option" where
  "GetLatestAppStateSyncKeyID st =
     (case sort_key (\<lambda>r. - key_Timestamp (snd r)) (sync_keys st) of [] \<Rightarrow> None | r # _ \<Rightarrow> Some (fst r))"

section \<open>Versions and mutation MACs\<close>

text \<open>A \<open>uint64\<close> that does not fit the signed column is refused by the driver.\<close>

definition fits_bigint :: "u64 \<Rightarrow> bool" where
  "fits_bigint v \<longleftrightarrow> unat v < 2 ^ 63"

definition PutAppStateVersion :: "string \<Rightarrow> u64 \<Rightarrow> bytes \<Rightarrow> app_tables \<Rightarrow> store_error + app_tables" where
  "PutAppStateVersion name version h st =
     (if \<not> fits_bigint version \<or> length h \<noteq> 128 then Inl ConstraintViolation
      else Inr (st\<lparr>versions := upsert (\<lambda>_ _. True) name (version, h) (versions st)\<rparr>))"

definition GetAppStateVersion :: "string \<Rightarrow> app_tables \<Rightarrow> store_error + u64 \<times> bytes" where
  "GetAppStateVersion name st =
     (case map_of (versions st) name of
        None \<Rightarrow> Inr (0, replicate 128 0)
      | Some (version, h) \<Rightarrow>
          if length h \<noteq> 128 then Inl ErrInvalidLength
          else if version = 0 then Inl InvalidVersionZero
          else Inr (version, h))"

text \<open>Deleting a version deletes the rows that reference it.\<close>

definition DeleteAppStateVersion :: "string \<Rightarrow> app_tables \<Rightarrow> app_tables" where
  "DeleteAppStateVersion name st =
     st\<lparr>versions := filter (\<lambda>r. fst r \<noteq> name) (versions st),
        mac_rows := filter (\<lambda>r. row_name r \<noteq> name) (mac_rows st)\<rparr>"

type_synonym AppStateMutationMAC = "bytes \<times> bytes"

text \<open>
  The rows are inserted in one transaction: all of them, unless one breaks a length check, the
  reference to the version or the primary key.
\<close>

definition PutAppStateMutationMACs ::
  "string \<Rightarrow> u64 \<Rightarrow> AppStateMutationMAC list \<Rightarrow> app_tables \<Rightarrow> store_error + app_tables" where
  "PutAppStateMutationMACs name version mutations st =
     (if mutations = [] then Inr st
      else if \<not> fits_bigint version \<or> map_of (versions st) name = None \<or>
              \<not> list_all (\<lambda>(i, v). length i = 32 \<and> length v = 32) mutations \<or>
              \<not> distinct (map fst mutations) \<or>
              list_ex (\<lambda>r. row_name r = name \<and> row_version r = version \<and> row_index r \<in> set (map fst mutations)) (mac_rows st)
      then Inl ConstraintViolation
      else Inr (st\<lparr>mac_rows := mac_rows st @
             map (\<lambda>(i, v). \<lparr>row_name = name, row_version = version, row_index = i, row_value = v\<rparr>) mutations\<rparr>))"

definition DeleteAppStateMutationMACs :: "string \<Rightarrow> bytes list \<Rightarrow> app_tables \<Rightarrow> app_tables" where
  "DeleteAppStateMutationMACs name indexMACs st =
     st\<lparr>mac_rows := filter (\<lambda>r. \<not> (row_name r = name \<and> row_index r \<in> set indexMACs)) (mac_rows st)\<rparr>"

text \<open>\<open>ORDER BY version DESC LIMIT 1\<close>.\<close>

fun newest :: "MacRow list \<Rightarrow> MacRow option" where
  "newest [] = None"
| "newest (r # rs) =
     (case newest rs of None \<Rightarrow> Some r | Some r' \<Rightarrow> Some (if row_version r' \<le> row_version r then r else r'))"

definition GetAppStateMutationMAC :: "string \<Rightarrow> bytes \<Rightarrow> app_tables \<Rightarrow> bytes option" where
  "GetAppStateMutationMAC name indexMAC st =
     map_option row_value (newest (filter (\<lambda>r. row_name r = name \<and> row_index r = indexMAC) (mac_rows st)))"

section \<open>Lookups after updates\<close>

lemma map_of_upsert:
  "map_of (upsert f k v rows) k' =
     (if k' = k then Some (case map_of rows k of None \<Rightarrow> v | Some v' \<Rightarrow> if f v v' then v else v') else map_of rows k')"
  by (induction rows) auto

lemma newest_None [simp]: "newest rs = None \<longleftrightarrow> rs = []"
  by (cases rs) (auto split: option.splits)

lemma newest_append_later:
  assumes "\<forall>r\<in>set rs. row_version r < row_version x"
  shows "newest (rs @ [x]) = Some x"
  using assms by (induction rs) auto

lemma Get_after_Delete:
  "GetAppStateMutationMAC name i (DeleteAppStateMutationMACs name idx st) =
     (if i \<in> set idx then None else GetAppStateMutationMAC name i st)"
proof -
  have "filter (\<lambda>r. row_name r = name \<and> row_index r = i) (mac_rows (DeleteAppStateMutationMACs name idx st)) =
      (if i \<in> set idx then [] else filter (\<lambda>r. row_name r = name \<and> row_index r = i) (mac_rows st))"
    by (auto simp: DeleteAppStateMutationMACs_def filter_empty_conv intro!: filter_cong)
  then show ?thesis by (simp add: GetAppStateMutationMAC_def)
qed

text \<open>All rows of a collection are older than a version.\<close>

definition older :: "string \<Rightarrow> u64 \<Rightarrow> app_tables \<Rightarrow> bool" where
  "older name version st \<longleftrightarrow> (\<forall>r\<in>set (mac_rows st). row_name r = name \<longrightarrow> row_version r < version)"

lemma filter_fst_distinct:
  "distinct (map fst ms) \<Longrightarrow> filter (\<lambda>m. fst m = i) ms = (case map_of ms i of None \<Rightarrow> [] | Some v \<Rightarrow> [(i, v)])"
  by (induction ms) (auto simp: filter_empty_conv image_iff split: option.splits)

lemma Get_after_Put:
  assumes put: "PutAppStateMutationMACs name version ms st = Inr st'" and old: "older name version st"
  shows "GetAppStateMutationMAC name i st' =
    (case map_of ms i of Some v \<Rightarrow> Some v | None \<Rightarrow> GetAppStateMutationMAC name i st)"
proof (cases "ms = []")
  case False
  let ?row = "\<lambda>(i, v). \<lparr>row_name = name, row_version = version, row_index = i, row_value = v\<rparr>"
  have d: "distinct (map fst ms)" and st': "mac_rows st' = mac_rows st @ map ?row ms"
    using put False by (auto simp: PutAppStateMutationMACs_def split: if_splits)
  have "filter (\<lambda>r. row_name r = name \<and> row_index r = i) (map ?row ms) = map ?row (filter (\<lambda>m. fst m = i) ms)"
    by (induction ms) auto
  then have "filter (\<lambda>r. row_name r = name \<and> row_index r = i) (mac_rows st') =
      filter (\<lambda>r. row_name r = name \<and> row_index r = i) (mac_rows st) @
      (case map_of ms i of None \<Rightarrow> [] | Some v \<Rightarrow> [?row (i, v)])"
    by (simp add: st' filter_fst_distinct [OF d] split: option.split)
  then show ?thesis
    using newest_append_later [of "filter (\<lambda>r. row_name r = name \<and> row_index r = i) (mac_rows st)"] old
    by (auto simp: GetAppStateMutationMAC_def older_def split: option.split)
qed (use put in \<open>simp add: PutAppStateMutationMACs_def\<close>)

text \<open>
  The key table keeps, per key id, the key with the largest timestamp ever put, and of equal
  ones the first.
\<close>
lemma sync_key_latest:
  "GetAppStateSyncKey kid (fold (\<lambda>(i, k). PutAppStateSyncKey i k) puts \<lparr>sync_keys = [], versions = vs, mac_rows = rs\<rparr>) =
     (case filter (\<lambda>p. fst p = kid) puts of
        [] \<Rightarrow> None
      | (_, k) # ps \<Rightarrow> Some (foldl (\<lambda>best p. if key_Timestamp best < key_Timestamp (snd p) then snd p else best) k ps))"
proof -
  let ?g = "\<lambda>best p. if key_Timestamp best < key_Timestamp (snd p) then snd p else best"
  have "GetAppStateSyncKey kid (fold (\<lambda>(i, k). PutAppStateSyncKey i k) puts st) =
      (case GetAppStateSyncKey kid st of
         Some k \<Rightarrow> Some (foldl ?g k (filter (\<lambda>p. fst p = kid) puts))
       | None \<Rightarrow> (case filter (\<lambda>p. fst p = kid) puts of [] \<Rightarrow> None | (_, k) # ps \<Rightarrow> Some (foldl ?g k ps)))" for st
    by (induction puts arbitrary: st)
       (auto simp: GetAppStateSyncKey_def PutAppStateSyncKey_def map_of_upsert split: option.split)
  from this [of "\<lparr>sync_keys = [], versions = vs, mac_rows = rs\<rparr>"] show ?thesis
    by (simp add: GetAppStateSyncKey_def)
qed

end
