(* ===== verification/Appstate.thy ===== *)
theory Appstate
  imports Cbc Lthash AppstateStore
begin

text \<open>
  The app-state sync (\<^verbatim>\<open>wa-core/appstate\<close>: \<^verbatim>\<open>hash.go\<close>, \<^verbatim>\<open>keys.go\<close>, \<^verbatim>\<open>decode.go\<close>,
  \<^verbatim>\<open>encode.go\<close>, \<^verbatim>\<open>recovery.go\<close>): devices of an account keep collections of settings in step by
  exchanging encrypted patches whose MACs cover the summation hash of the whole collection. The
  protocol-buffer and JSON codecs of the decrypted actions are the fields of a parameter record;
  \<open>'v\<close> is the generated type of an action value.
\<close>

section \<open>Messages\<close>

datatype SyncdOperation = SET | REMOVE

record SyncdRecord =
  rec_Index :: bytes
  rec_Value :: bytes
  rec_KeyID :: "bytes option"

record SyncdMutation =
  sm_Operation :: SyncdOperation
  sm_Record :: SyncdRecord

record SyncdPatch =
  patch_Version :: u64
  patch_Mutations :: "SyncdMutation list"
  patch_SnapshotMAC :: bytes
  patch_PatchMAC :: bytes
  patch_KeyID :: "bytes option"

record SyncdSnapshot =
  ss_Version :: u64
  ss_Records :: "SyncdRecord list"
  ss_Mac :: bytes
  ss_KeyID :: "bytes option"

record PatchList =
  pl_Name :: string
  pl_HasMorePatches :: bool
  pl_Patches :: "SyncdPatch list"
  pl_Snapshot :: "SyncdSnapshot option"

record 'v SyncActionData =
  sad_Index :: bytes
  sad_Value :: 'v
  sad_Version :: int

record 'v sync_lib =
  UnmarshalAction :: "bytes \<Rightarrow> 'v SyncActionData option"
  MarshalAction :: "'v SyncActionData \<Rightarrow> bytes option"
  UnmarshalIndex :: "bytes \<Rightarrow> string list option"
  MarshalIndex :: "string list \<Rightarrow> bytes option"
  SetTimestamp :: "int \<Rightarrow> 'v \<Rightarrow> 'v"

record 'v Mutation =
  mut_KeyID :: bytes
  mut_Operation :: SyncdOperation
  mut_Action :: 'v
  mut_Version :: int
  mut_Index :: "string list"
  mut_IndexMAC :: bytes
  mut_ValueMAC :: bytes
  mut_PatchVersion :: u64

datatype app_error =
    ErrMissingPreviousSetValueOperation bytes
  | ErrMismatchingLTHash
  | ErrMismatchingPatchMAC
  | ErrMismatchingContentMAC
  | ErrMismatchingIndexMAC
  | ErrKeyNotFound
  | SlicePanic
  | DecryptError cbc_error
  | HashError lthash_error
  | UnmarshalError
  | MarshalError
  | StoreFailed store_error
  | InvalidLTHashLength

definition last32 :: "bytes \<Rightarrow> app_error + bytes" where
  "last32 v = (if length v < 32 then Inl SlicePanic else Inr (drop (length v - 32) v))"

definition id_of :: "bytes option \<Rightarrow> bytes" where
  "id_of k = (case k of None \<Rightarrow> [] | Some i \<Rightarrow> i)"

section \<open>Hashes and MACs\<close>

record HashState =
  Version :: u64
  Hash :: bytes

text \<open>
  \<open>getPrevSetValueMAC\<close> is the argument of \<open>updateHash\<close> that finds the value MAC an index had before
  the mutation at a position. The loop collects added and removed value MACs and the warnings.
\<close>

fun update_loop ::
  "(bytes \<Rightarrow> nat \<Rightarrow> app_error + bytes option) \<Rightarrow> nat \<Rightarrow> SyncdMutation list \<Rightarrow> bytes list \<Rightarrow> bytes list \<Rightarrow>
   app_error list \<Rightarrow> app_error list \<times> (app_error + bytes list \<times> bytes list)" where
  "update_loop getPrev i [] added removed warnings = (warnings, Inr (added, removed))"
| "update_loop getPrev i (m # ms) added removed warnings =
     (case (if sm_Operation m = SET then bindE (last32 (rec_Value (sm_Record m))) (\<lambda>v. Inr (added @ [v])) else Inr added) of
        Inl e \<Rightarrow> (warnings, Inl e)
      | Inr added \<Rightarrow>
          let indexMAC = rec_Index (sm_Record m)
          in case getPrev indexMAC i of
               Inl e \<Rightarrow> (warnings, Inl e)
             | Inr (Some removal) \<Rightarrow> update_loop getPrev (i + 1) ms added (removed @ [removal]) warnings
             | Inr None \<Rightarrow>
                 update_loop getPrev (i + 1) ms added removed
                   (if sm_Operation m = REMOVE then warnings @ [ErrMissingPreviousSetValueOperation indexMAC]
                    else warnings))"

definition updateHash ::
  "SyncdMutation list \<Rightarrow> (bytes \<Rightarrow> nat \<Rightarrow> app_error + bytes option) \<Rightarrow> HashState \<Rightarrow>
   app_error list \<times> (app_error + HashState)" where
  "updateHash mutations getPrev hs =
     (case update_loop getPrev 0 mutations [] [] [] of
        (warnings, Inl e) \<Rightarrow> (warnings, Inl e)
      | (warnings, Inr (added, removed)) \<Rightarrow>
          (warnings,
           case SubtractThenAddInPlace WAPatchIntegrity (Hash hs) removed added of
             Inl e \<Rightarrow> Inl (HashError e)
           | Inr h \<Rightarrow> Inr (hs\<lparr>Hash := h\<rparr>)))"

definition uint64ToBytes :: "u64 \<Rightarrow> bytes" where
  "uint64ToBytes val = be64 val"

text \<open>The MAC is a keyed function of the concatenation of what is written to it.\<close>

definition concatAndHMAC :: "(bytes \<Rightarrow> bytes \<Rightarrow> bytes) \<Rightarrow> bytes \<Rightarrow> bytes list \<Rightarrow> bytes" where
  "concatAndHMAC alg key data = alg key (concat data)"

definition generateSnapshotMAC :: "HashState \<Rightarrow> string \<Rightarrow> bytes \<Rightarrow> bytes" where
  "generateSnapshotMAC hs name key =
     concatAndHMAC (hmac sha256) key [Hash hs, uint64ToBytes (Version hs), bytes_of_string name]"

fun last32s :: "SyncdMutation list \<Rightarrow> app_error + bytes list" where
  "last32s [] = Inr []"
| "last32s (m # ms) =
     bindE (last32 (rec_Value (sm_Record m))) (\<lambda>v. bindE (last32s ms) (\<lambda>vs. Inr (v # vs)))"

definition generatePatchMAC :: "SyncdPatch \<Rightarrow> string \<Rightarrow> bytes \<Rightarrow> u64 \<Rightarrow> app_error + bytes" where
  "generatePatchMAC patch name key version =
     bindE (last32s (patch_Mutations patch)) (\<lambda>vals.
       Inr (concatAndHMAC (hmac sha256) key
         (patch_SnapshotMAC patch # vals @ [uint64ToBytes version, bytes_of_string name])))"

definition operation_byte :: "SyncdOperation \<Rightarrow> byte" where
  "operation_byte operation = (case operation of SET \<Rightarrow> 0 | REMOVE \<Rightarrow> 1)"

definition generateContentMAC :: "SyncdOperation \<Rightarrow> bytes \<Rightarrow> bytes \<Rightarrow> bytes \<Rightarrow> bytes" where
  "generateContentMAC operation data keyID key =
     (let operationBytes = [operation_byte operation + 1];
          keyDataLength = uint64ToBytes (word_of_nat (length keyID + 1))
      in take 32 (concatAndHMAC hmac_sha512 key [operationBytes, keyID, data, keyDataLength]))"

section \<open>Keys\<close>

record ExpandedAppStateKeys =
  k_Index :: bytes
  k_ValueEncryption :: bytes
  k_ValueMAC :: bytes
  k_SnapshotMAC :: bytes
  k_PatchMAC :: bytes

definition expandAppStateKeys :: "bytes \<Rightarrow> app_error + ExpandedAppStateKeys" where
  "expandAppStateKeys keyData =
     (case hkdf_SHA256 keyData [] (bytes_of_string ''WhatsApp Mutation Keys'') 160 of
        Inl e \<Rightarrow> Inl (HashError e)
      | Inr x \<Rightarrow> Inr \<lparr>k_Index = slice 0 32 x, k_ValueEncryption = slice 32 64 x, k_ValueMAC = slice 64 96 x,
                      k_SnapshotMAC = slice 96 128 x, k_PatchMAC = slice 128 160 x\<rparr>)"

text \<open>\<open>base64.RawStdEncoding\<close>: groups of six bits, most significant first, without padding.\<close>

definition b64_char :: "nat \<Rightarrow> char" where
  "b64_char n = (''ABCDEFGHIJKLMNOPQRSTUVWXYZabcdefghijklmnopqrstuvwxyz0123456789+/'') ! n"

fun b64_raw :: "bytes \<Rightarrow> string" where
  "b64_raw [] = []"
| "b64_raw [a] = [b64_char (unat a div 4), b64_char (unat a mod 4 * 16)]"
| "b64_raw [a, b] =
     [b64_char (unat a div 4), b64_char (unat a mod 4 * 16 + unat b div 16), b64_char (unat b mod 16 * 4)]"
| "b64_raw (a # b # c # r) =
     b64_char (unat a div 4) # b64_char (unat a mod 4 * 16 + unat b div 16) #
     b64_char (unat b mod 16 * 4 + unat c div 64) # b64_char (unat c mod 64) # b64_raw r"

record Processor =
  keyCache :: "string \<rightharpoonup> ExpandedAppStateKeys"
  Store :: app_tables

definition NewProcessor :: "app_tables \<Rightarrow> Processor" where
  "NewProcessor st = \<lparr>keyCache = Map.empty, Store = st\<rparr>"

definition getAppStateKey :: "bytes \<Rightarrow> Processor \<Rightarrow> (app_error + ExpandedAppStateKeys) \<times> Processor" where
  "getAppStateKey keyID proc =
     (let keyCacheID = b64_raw keyID
      in case keyCache proc keyCacheID of
           Some keys \<Rightarrow> (Inr keys, proc)
         | None \<Rightarrow>
             (case GetAppStateSyncKey keyID (Store proc) of
                None \<Rightarrow> (Inl ErrKeyNotFound, proc)
              | Some keyData \<Rightarrow>
                  (case expandAppStateKeys (key_Data keyData) of
                     Inl e \<Rightarrow> (Inl e, proc)
                   | Inr keys \<Rightarrow> (Inr keys, proc\<lparr>keyCache := (keyCache proc)(keyCacheID \<mapsto> keys)\<rparr>))))"

text \<open>\<open>GetMissingKeyIDs\<close>: the ids of the snapshot, of its records and of the patches, in this order.\<close>

definition check_missing :: "Processor \<Rightarrow> bytes option \<Rightarrow> (string \<rightharpoonup> bool) \<times> bytes list \<Rightarrow> (string \<rightharpoonup> bool) \<times> bytes list" where
  "check_missing proc keyID acc =
     (case (keyID, acc) of
        (None, _) \<Rightarrow> acc
      | (Some k, (cache, missingKeys)) \<Rightarrow>
          if cache (b64_raw k) \<noteq> None then acc
          else
            let missing = (GetAppStateSyncKey k (Store proc) = None)
            in (cache(b64_raw k \<mapsto> missing), if missing then missingKeys @ [k] else missingKeys))"

definition GetMissingKeyIDs :: "Processor \<Rightarrow> PatchList \<Rightarrow> bytes list" where
  "GetMissingKeyIDs proc pl =
     snd (fold (check_missing proc)
       ((case pl_Snapshot pl of None \<Rightarrow> [] | Some ss \<Rightarrow> ss_KeyID ss # map rec_KeyID (ss_Records ss)) @
        map patch_KeyID (pl_Patches pl))
       (Map.empty, []))"

section \<open>Decoding\<close>

record 'v patchOutput =
  RemovedMACs :: "bytes list"
  AddedMACs :: "(bytes \<times> bytes) list"
  Mutations :: "'v Mutation list"

definition RemoveMAC :: "bytes \<Rightarrow> 'v patchOutput \<Rightarrow> 'v patchOutput" where
  "RemoveMAC indexMAC out = out\<lparr>RemovedMACs := RemovedMACs out @ [indexMAC],
     AddedMACs := filter (\<lambda>mac. fst mac \<noteq> indexMAC) (AddedMACs out)\<rparr>"

definition AddMAC :: "bytes \<Rightarrow> bytes \<Rightarrow> 'v patchOutput \<Rightarrow> 'v patchOutput" where
  "AddMAC indexMAC valueMAC out = out\<lparr>AddedMACs := AddedMACs out @ [(indexMAC, valueMAC)]\<rparr>"

text \<open>The result is index MAC, value MAC, index and action.\<close>

definition decodeMutation ::
  "'v sync_lib \<Rightarrow> SyncdMutation \<Rightarrow> bool \<Rightarrow> Processor \<Rightarrow>
   (app_error + bytes \<times> bytes \<times> string list \<times> 'v SyncActionData) \<times> Processor" where
  "decodeMutation lib mutation validateMACs proc =
     (let keyID = id_of (rec_KeyID (sm_Record mutation))
      in case getAppStateKey keyID proc of
           (Inl e, proc) \<Rightarrow> (Inl e, proc)
         | (Inr keys, proc) \<Rightarrow>
             (let blob = rec_Value (sm_Record mutation)
              in bindE (last32 blob) (\<lambda>valueMAC.
                 let content = take (length blob - 32) blob
                 in bindE (guardE ErrMismatchingContentMAC
                      (validateMACs \<longrightarrow> generateContentMAC (sm_Operation mutation) content keyID (k_ValueMAC keys) = valueMAC)) (\<lambda>_.
                    bindE (guardE SlicePanic (16 \<le> length content)) (\<lambda>_.
                    bindE (case CbcDecrypt (k_ValueEncryption keys) (take 16 content) (drop 16 content) of
                             Inl e \<Rightarrow> Inl (DecryptError e) | Inr p \<Rightarrow> Inr p) (\<lambda>plaintext.
                    case UnmarshalAction lib plaintext of
                      None \<Rightarrow> Inl UnmarshalError
                    | Some syncAction \<Rightarrow>
                        let indexMAC = rec_Index (sm_Record mutation)
                        in bindE (guardE ErrMismatchingIndexMAC
                             (validateMACs \<longrightarrow> concatAndHMAC (hmac sha256) (k_Index keys) [sad_Index syncAction] = indexMAC)) (\<lambda>_.
                           case UnmarshalIndex lib (sad_Index syncAction) of
                             None \<Rightarrow> Inl UnmarshalError
                           | Some index \<Rightarrow> Inr (indexMAC, valueMAC, index, syncAction)))))),
              proc))"

definition indexMACToArray :: "bytes \<Rightarrow> bytes" where
  "indexMACToArray indexMAC = (if length indexMAC \<noteq> 32 then replicate 32 0 else indexMAC)"

definition record_macs ::
  "(bytes \<rightharpoonup> bytes) \<Rightarrow> SyncdOperation \<Rightarrow> bytes \<Rightarrow> bytes \<Rightarrow> 'v patchOutput \<Rightarrow> 'v patchOutput" where
  "record_macs fakeIndexesToRemove operation indexMAC valueMAC out =
     (case operation of
        REMOVE \<Rightarrow>
          let out = RemoveMAC indexMAC out
          in (case fakeIndexesToRemove (indexMACToArray indexMAC) of
                Some altIndexMAC \<Rightarrow> if length indexMAC = 32 then RemoveMAC altIndexMAC out else out
              | None \<Rightarrow> out)
      | SET \<Rightarrow> AddMAC indexMAC valueMAC out)"

fun decodeMutations ::
  "'v sync_lib \<Rightarrow> SyncdMutation list \<Rightarrow> 'v patchOutput \<Rightarrow> bool \<Rightarrow> u64 \<Rightarrow> (bytes \<rightharpoonup> bytes) \<Rightarrow> Processor \<Rightarrow>
   (app_error + 'v patchOutput) \<times> Processor" where
  "decodeMutations lib [] out validateMACs patchVersion fake proc = (Inr out, proc)"
| "decodeMutations lib (mutation # ms) out validateMACs patchVersion fake proc =
     (case decodeMutation lib mutation validateMACs proc of
        (Inl e, proc) \<Rightarrow> (Inl e, proc)
      | (Inr (indexMAC, valueMAC, index, syncAction), proc) \<Rightarrow>
          let out = record_macs fake (sm_Operation mutation) indexMAC valueMAC out;
              out = out\<lparr>Mutations := Mutations out @
                [\<lparr>mut_KeyID = id_of (rec_KeyID (sm_Record mutation)), mut_Operation = sm_Operation mutation,
                  mut_Action = sad_Value syncAction, mut_Version = sad_Version syncAction, mut_Index = index,
                  mut_IndexMAC = indexMAC, mut_ValueMAC = valueMAC, mut_PatchVersion = patchVersion\<rparr>]\<rparr>
          in decodeMutations lib ms out validateMACs patchVersion fake proc)"

text \<open>Three statements, each effective even if a later one fails.\<close>

definition storeMACs :: "string \<Rightarrow> HashState \<Rightarrow> 'v patchOutput \<Rightarrow> Processor \<Rightarrow> (app_error + unit) \<times> Processor" where
  "storeMACs name currentState out proc =
     (case PutAppStateVersion name (Version currentState) (Hash currentState) (Store proc) of
        Inl e \<Rightarrow> (Inl (StoreFailed e), proc)
      | Inr st \<Rightarrow>
          let st = DeleteAppStateMutationMACs name (RemovedMACs out) st
          in case PutAppStateMutationMACs name (Version currentState) (AddedMACs out) st of
               Inl e \<Rightarrow> (Inl (StoreFailed e), proc\<lparr>Store := st\<rparr>)
             | Inr st \<Rightarrow> (Inr (), proc\<lparr>Store := st\<rparr>))"

definition validateSnapshotMAC ::
  "string \<Rightarrow> HashState \<Rightarrow> bytes \<Rightarrow> bytes \<Rightarrow> Processor \<Rightarrow> (app_error + ExpandedAppStateKeys) \<times> Processor" where
  "validateSnapshotMAC name currentState keyID expectedSnapshotMAC proc =
     (case getAppStateKey keyID proc of
        (Inl e, proc) \<Rightarrow> (Inl e, proc)
      | (Inr keys, proc) \<Rightarrow>
          (if generateSnapshotMAC currentState name (k_SnapshotMAC keys) = expectedSnapshotMAC then Inr keys
           else Inl ErrMismatchingLTHash, proc))"

definition empty_output :: "'v Mutation list \<Rightarrow> 'v patchOutput" where
  "empty_output ms = \<lparr>RemovedMACs = [], AddedMACs = [], Mutations = ms\<rparr>"

definition decodeSnapshot ::
  "'v sync_lib \<Rightarrow> string \<Rightarrow> SyncdSnapshot \<Rightarrow> HashState \<Rightarrow> bool \<Rightarrow> 'v Mutation list \<Rightarrow> Processor \<Rightarrow>
   (app_error + 'v Mutation list \<times> HashState) \<times> Processor" where
  "decodeSnapshot lib name ss initialState validateMACs newMutationsInput proc =
     (let currentState = initialState\<lparr>Version := ss_Version ss\<rparr>;
          encryptedMutations = map (\<lambda>r. \<lparr>sm_Operation = SET, sm_Record = r\<rparr>) (ss_Records ss)
      in case snd (updateHash encryptedMutations (\<lambda>_ _. Inr None) currentState) of
           Inl e \<Rightarrow> (Inl e, proc)
         | Inr currentState \<Rightarrow>
             (case (if validateMACs
                    then (case validateSnapshotMAC name currentState (id_of (ss_KeyID ss)) (ss_Mac ss) proc of
                            (r, proc) \<Rightarrow> (bindE r (\<lambda>_. Inr ()), proc))
                    else (Inr (), proc)) of
                (Inl e, proc) \<Rightarrow> (Inl e, proc)
              | (Inr _, proc) \<Rightarrow>
                  (case decodeMutations lib encryptedMutations (empty_output newMutationsInput) validateMACs
                          (Version currentState) Map.empty proc of
                     (Inl e, proc) \<Rightarrow> (Inl e, proc)
                   | (Inr out, proc) \<Rightarrow>
                       (case storeMACs name currentState out proc of
                          (Inl e, proc) \<Rightarrow> (Inl e, proc)
                        | (Inr _, proc) \<Rightarrow> (Inr (Mutations out, currentState), proc)))))"

text \<open>
  The lookup \<open>validatePatch\<close> passes to \<open>updateHash\<close>: the last mutation of the patch before the
  position that has the index, otherwise the database.
\<close>

definition prev_in_patch :: "SyncdMutation list \<Rightarrow> string \<Rightarrow> app_tables \<Rightarrow> bytes \<Rightarrow> nat \<Rightarrow> app_error + bytes option" where
  "prev_in_patch mutations name st indexMAC maxIndex =
     (case find (\<lambda>m. rec_Index (sm_Record m) = indexMAC) (rev (take maxIndex mutations)) of
        Some m \<Rightarrow>
          if sm_Operation m = SET then bindE (last32 (rec_Value (sm_Record m))) (\<lambda>v. Inr (Some v)) else Inr None
      | None \<Rightarrow> Inr (GetAppStateMutationMAC name indexMAC st))"

definition validatePatch ::
  "string \<Rightarrow> SyncdPatch \<Rightarrow> HashState \<Rightarrow> bool \<Rightarrow> Processor \<Rightarrow>
   app_error list \<times> (app_error + HashState) \<times> Processor" where
  "validatePatch patchName patch currentState validateMACs proc =
     (let version = patch_Version patch;
          newState = currentState\<lparr>Version := version\<rparr>
      in case updateHash (patch_Mutations patch) (prev_in_patch (patch_Mutations patch) patchName (Store proc)) newState of
           (warn, Inl e) \<Rightarrow> (warn, Inl e, proc)
         | (warn, Inr newState) \<Rightarrow>
             if \<not> validateMACs then (warn, Inr newState, proc)
             else
               (case validateSnapshotMAC patchName newState (id_of (patch_KeyID patch)) (patch_SnapshotMAC patch) proc of
                  (Inl e, proc) \<Rightarrow> (warn, Inl e, proc)
                | (Inr keys, proc) \<Rightarrow>
                    (warn,
                     bindE (generatePatchMAC patch patchName (k_PatchMAC keys) version) (\<lambda>patchMAC.
                       if patchMAC = patch_PatchMAC patch then Inr newState else Inl ErrMismatchingPatchMAC),
                     proc)))"

definition decode_patch ::
  "'v sync_lib \<Rightarrow> string \<Rightarrow> SyncdPatch \<Rightarrow> bool \<Rightarrow> 'v Mutation list \<times> HashState \<Rightarrow> Processor \<Rightarrow>
   (app_error + 'v Mutation list \<times> HashState) \<times> Processor" where
  "decode_patch lib name patch validateMACs acc proc =
     (case validatePatch name patch (snd acc) validateMACs proc of
        (_, Inl e, proc) \<Rightarrow> (Inl e, proc)
      | (_, Inr newState, proc) \<Rightarrow>
          (case decodeMutations lib (patch_Mutations patch) (empty_output (fst acc)) validateMACs (Version newState) Map.empty proc of
             (Inl e, proc) \<Rightarrow> (Inl e, proc)
           | (Inr out, proc) \<Rightarrow>
               (case storeMACs name newState out proc of
                  (Inl e, proc) \<Rightarrow> (Inl e, proc)
                | (Inr _, proc) \<Rightarrow> (Inr (Mutations out, newState), proc))))"

fun decode_patches ::
  "'v sync_lib \<Rightarrow> string \<Rightarrow> SyncdPatch list \<Rightarrow> bool \<Rightarrow> 'v Mutation list \<times> HashState \<Rightarrow> Processor \<Rightarrow>
   (app_error + 'v Mutation list \<times> HashState) \<times> Processor" where
  "decode_patches lib name [] validateMACs acc proc = (Inr acc, proc)"
| "decode_patches lib name (p # ps) validateMACs acc proc =
     (case decode_patch lib name p validateMACs acc proc of
        (Inl e, proc) \<Rightarrow> (Inl e, proc)
      | (Inr acc, proc) \<Rightarrow> decode_patches lib name ps validateMACs acc proc)"

definition DecodePatches ::
  "'v sync_lib \<Rightarrow> PatchList \<Rightarrow> HashState \<Rightarrow> bool \<Rightarrow> Processor \<Rightarrow>
   (app_error + 'v Mutation list \<times> HashState) \<times> Processor" where
  "DecodePatches lib pl initialState validateMACs proc =
     (case (case pl_Snapshot pl of
              None \<Rightarrow> (Inr ([], initialState), proc)
            | Some ss \<Rightarrow> decodeSnapshot lib (pl_Name pl) ss initialState validateMACs [] proc) of
        (Inl e, proc) \<Rightarrow> (Inl e, proc)
      | (Inr acc, proc) \<Rightarrow> decode_patches lib (pl_Name pl) (pl_Patches pl) validateMACs acc proc)"

section \<open>Encoding\<close>

record 'v MutationInfo =
  mi_Index :: "string list"
  mi_Version :: int
  mi_Value :: 'v

record 'v PatchInfo =
  pi_Timestamp :: "int option"
  pi_Type :: string
  pi_Mutations :: "'v MutationInfo list"

text \<open>\<open>rnd\<close> is the random initialisation vector, \<open>timestamp\<close> the patch's time in milliseconds.\<close>

definition encode_mutation ::
  "'v sync_lib \<Rightarrow> ExpandedAppStateKeys \<Rightarrow> bytes \<Rightarrow> int \<Rightarrow> bytes \<Rightarrow> 'v MutationInfo \<Rightarrow> app_error + SyncdMutation" where
  "encode_mutation lib keys keyID timestamp rnd mutationInfo =
     (case MarshalIndex lib (mi_Index mutationInfo) of
        None \<Rightarrow> Inl MarshalError
      | Some indexBytes \<Rightarrow>
          (case MarshalAction lib \<lparr>sad_Index = indexBytes, sad_Value = SetTimestamp lib timestamp (mi_Value mutationInfo),
                                   sad_Version = mi_Version mutationInfo\<rparr> of
             None \<Rightarrow> Inl MarshalError
           | Some content \<Rightarrow>
               (case CbcEncrypt (k_ValueEncryption keys) None rnd content of
                  Inl e \<Rightarrow> Inl (DecryptError e)
                | Inr encryptedContent \<Rightarrow>
                    let valueMac = generateContentMAC SET encryptedContent keyID (k_ValueMAC keys);
                        indexMac = concatAndHMAC (hmac sha256) (k_Index keys) [indexBytes]
                    in Inr \<lparr>sm_Operation = SET,
                            sm_Record = \<lparr>rec_Index = indexMac, rec_Value = encryptedContent @ valueMac, rec_KeyID = Some keyID\<rparr>\<rparr>)))"

fun encode_mutations ::
  "'v sync_lib \<Rightarrow> ExpandedAppStateKeys \<Rightarrow> bytes \<Rightarrow> int \<Rightarrow> (nat \<Rightarrow> bytes) \<Rightarrow> 'v MutationInfo list \<Rightarrow> app_error + SyncdMutation list" where
  "encode_mutations lib keys keyID ts rnd [] = Inr []"
| "encode_mutations lib keys keyID ts rnd (m # ms) =
     bindE (encode_mutation lib keys keyID ts (rnd 0) m) (\<lambda>x.
     bindE (encode_mutations lib keys keyID ts (\<lambda>i. rnd (Suc i)) ms) (\<lambda>xs. Inr (x # xs)))"

text \<open>
  \<open>now\<close> is the current time, used when the patch has the zero time. The result is the patch that is then
  marshalled; its version is not set, the server assigns it.
\<close>

definition EncodePatch ::
  "'v sync_lib \<Rightarrow> bytes \<Rightarrow> HashState \<Rightarrow> int \<Rightarrow> (nat \<Rightarrow> bytes) \<Rightarrow> 'v PatchInfo \<Rightarrow> Processor \<Rightarrow> (app_error + SyncdPatch) \<times> Processor" where
  "EncodePatch lib keyID state now rnd patchInfo proc =
     (case getAppStateKey keyID proc of
        (Inl e, proc) \<Rightarrow> (Inl e, proc)
      | (Inr keys, proc) \<Rightarrow>
          (let ts = (case pi_Timestamp patchInfo of None \<Rightarrow> now | Some t \<Rightarrow> t)
           in bindE (encode_mutations lib keys keyID ts rnd (pi_Mutations patchInfo)) (\<lambda>mutations.
              bindE (snd (updateHash mutations
                       (\<lambda>indexMAC _. Inr (GetAppStateMutationMAC (pi_Type patchInfo) indexMAC (Store proc))) state)) (\<lambda>state.
              let state = state\<lparr>Version := Version state + 1\<rparr>;
                  syncdPatch = \<lparr>patch_Version = 0, patch_Mutations = mutations,
                    patch_SnapshotMAC = generateSnapshotMAC state (pi_Type patchInfo) (k_SnapshotMAC keys),
                    patch_PatchMAC = [], patch_KeyID = Some keyID\<rparr>
              in bindE (generatePatchMAC syncdPatch (pi_Type patchInfo) (k_PatchMAC keys) (Version state)) (\<lambda>mac.
                 Inr (syncdPatch\<lparr>patch_PatchMAC := mac\<rparr>)))),
           proc))"

section \<open>Recovery\<close>

record 'v RecoveryRecord =
  rr_KeyID :: bytes
  rr_Data :: "'v SyncActionData"
  rr_Mac :: bytes

record 'v SyncdSnapshotRecovery =
  rcv_Name :: string
  rcv_Version :: u64
  rcv_Lthash :: bytes
  rcv_Records :: "'v RecoveryRecord list"

fun recovery_loop ::
  "'v sync_lib \<Rightarrow> u64 \<Rightarrow> 'v RecoveryRecord list \<Rightarrow> Processor \<Rightarrow>
   (app_error + (bytes \<times> bytes) list \<times> 'v Mutation list) \<times> Processor" where
  "recovery_loop lib version [] proc = (Inr ([], []), proc)"
| "recovery_loop lib version (m # ms) proc =
     (case getAppStateKey (rr_KeyID m) proc of
        (Inl e, proc) \<Rightarrow> (Inl e, proc)
      | (Inr keys, proc) \<Rightarrow>
          (case UnmarshalIndex lib (sad_Index (rr_Data m)) of
             None \<Rightarrow> (Inl UnmarshalError, proc)
           | Some parsedIndex \<Rightarrow>
               let indexMAC = concatAndHMAC (hmac sha256) (k_Index keys) [sad_Index (rr_Data m)];
                   mut = \<lparr>mut_KeyID = rr_KeyID m, mut_Operation = SET, mut_Action = sad_Value (rr_Data m),
                     mut_Version = sad_Version (rr_Data m), mut_Index = parsedIndex, mut_IndexMAC = indexMAC,
                     mut_ValueMAC = rr_Mac m, mut_PatchVersion = version\<rparr>
               in (case recovery_loop lib version ms proc of
                     (Inl e, proc) \<Rightarrow> (Inl e, proc)
                   | (Inr (macs, muts), proc) \<Rightarrow> (Inr ((indexMAC, rr_Mac m) # macs, mut # muts), proc))))"

definition ProcessRecovery ::
  "'v sync_lib \<Rightarrow> 'v SyncdSnapshotRecovery \<Rightarrow> Processor \<Rightarrow> (app_error + 'v Mutation list) \<times> Processor" where
  "ProcessRecovery lib recovery proc =
     (if length (rcv_Lthash recovery) \<noteq> 128 then (Inl InvalidLTHashLength, proc)
      else
        let name = rcv_Name recovery; version = rcv_Version recovery
        in case recovery_loop lib version (rcv_Records recovery) proc of
             (Inl e, proc) \<Rightarrow> (Inl e, proc)
           | (Inr (macs, mutations), proc) \<Rightarrow>
               let st = DeleteAppStateVersion name (Store proc)
               in case PutAppStateVersion name version (rcv_Lthash recovery) st of
                    Inl e \<Rightarrow> (Inl (StoreFailed e), proc\<lparr>Store := st\<rparr>)
                  | Inr st \<Rightarrow>
                      (case PutAppStateMutationMACs name version macs st of
                         Inl e \<Rightarrow> (Inl (StoreFailed e), proc\<lparr>Store := st\<rparr>)
                       | Inr st \<Rightarrow> (Inr mutations, proc\<lparr>Store := st\<rparr>)))"

section \<open>The key cache\<close>

lemma b64_char_inject: "m < 64 \<Longrightarrow> n < 64 \<Longrightarrow> b64_char m = b64_char n \<longleftrightarrow> m = n"
  unfolding b64_char_def by (rule nth_eq_iff_index_eq) (simp_all (no_asm))

lemma digits:
  fixes x y :: nat
  assumes "x * n + y = x' * n + y'" "y < n" "y' < n"
  shows "x = x' \<and> y = y'"
proof -
  have "(x * n + y) div n = x" "(x * n + y) mod n = y" "(x' * n + y') div n = x'" "(x' * n + y') mod n = y'"
    using assms(2,3) by simp_all
  then show ?thesis using assms(1) by simp
qed

lemma byte_eqI: "unat a div n = unat a' div n \<Longrightarrow> unat a mod n = unat a' mod n \<Longrightarrow> a = (a' :: byte)"
  by (metis div_mult_mod_eq word_unat_eq_iff)

lemma byte_div: "unat (a :: byte) div 4 < 64" "unat a div 16 < 16" "unat a div 64 < 4"
  by (rule less_mult_imp_div_less, simp)+

lemma six_bits:
  fixes a b c :: byte
  shows "unat a div 4 < 64" "unat a mod 4 * 16 < 64" "unat a mod 4 * 16 + unat b div 16 < 64"
    "unat b mod 16 * 4 < 64" "unat b mod 16 * 4 + unat c div 64 < 64" "unat c mod 64 < 64"
proof -
  have "unat a mod 4 < 4" "unat b mod 16 < 16" "unat c mod 64 < 64" by simp_all
  then show "unat a div 4 < 64" "unat a mod 4 * 16 < 64" "unat a mod 4 * 16 + unat b div 16 < 64"
    "unat b mod 16 * 4 < 64" "unat b mod 16 * 4 + unat c div 64 < 64" "unat c mod 64 < 64"
    using byte_div [of a] byte_div [of b] byte_div [of c] by linarith+
qed

lemma group_2:
  fixes a b a' b' :: byte
  assumes "unat a div 4 = unat a' div 4" "unat a mod 4 * 16 + unat b div 16 = unat a' mod 4 * 16 + unat b' div 16"
  shows "a = a'" "unat b div 16 = unat b' div 16"
proof -
  from digits [OF assms(2) byte_div(2) byte_div(2)] assms(1) show "a = a'" "unat b div 16 = unat b' div 16"
    by (auto intro: byte_eqI [of _ 4])
qed

lemma b64_raw_inject: "b64_raw xs = b64_raw ys \<Longrightarrow> xs = ys"
proof (induction xs arbitrary: ys rule: b64_raw.induct)
  case 1
  then show ?case by (cases ys rule: b64_raw.cases) simp_all
next
  case (2 a)
  then show ?case
    by (cases ys rule: b64_raw.cases) (auto simp: b64_char_inject six_bits intro: byte_eqI [of _ 4])
next
  case (3 a b)
  then obtain a' b' where ys: "ys = [a', b']" by (cases ys rule: b64_raw.cases) auto
  with 3 have "unat a div 4 = unat a' div 4" "unat a mod 4 * 16 + unat b div 16 = unat a' mod 4 * 16 + unat b' div 16"
    "unat b mod 16 = unat b' mod 16" by (simp_all add: b64_char_inject six_bits)
  then show ?case using group_2 ys byte_eqI [of b 16 b'] by blast
next
  case (4 a b c r)
  then obtain a' b' c' r' where ys: "ys = a' # b' # c' # r'" by (cases ys rule: b64_raw.cases) auto
  with 4 have e: "unat a div 4 = unat a' div 4" "unat a mod 4 * 16 + unat b div 16 = unat a' mod 4 * 16 + unat b' div 16"
    "unat b mod 16 * 4 + unat c div 64 = unat b' mod 16 * 4 + unat c' div 64" "unat c mod 64 = unat c' mod 64"
    and "r = r'" by (simp_all add: b64_char_inject six_bits)
  moreover from digits [OF e(3) byte_div(3) byte_div(3)] have "unat b mod 16 = unat b' mod 16" "unat c div 64 = unat c' div 64" by simp_all
  ultimately show ?case using group_2 [OF e(1,2)] ys byte_eqI [of b 16 b'] byte_eqI [of c 64 c'] by blast
qed

text \<open>Every cached entry is the expansion of the key its id has in the table.\<close>

definition cache_ok :: "Processor \<Rightarrow> bool" where
  "cache_ok proc \<longleftrightarrow> (\<forall>kid keys. keyCache proc (b64_raw kid) = Some keys \<longrightarrow>
     (\<exists>k. GetAppStateSyncKey kid (Store proc) = Some k \<and> expandAppStateKeys (key_Data k) = Inr keys))"

definition lookup_keys :: "app_tables \<Rightarrow> bytes \<Rightarrow> app_error + ExpandedAppStateKeys" where
  "lookup_keys st kid =
     (case GetAppStateSyncKey kid st of None \<Rightarrow> Inl ErrKeyNotFound | Some k \<Rightarrow> expandAppStateKeys (key_Data k))"

lemma getAppStateKey_spec:
  assumes "cache_ok proc"
  shows "fst (getAppStateKey kid proc) = lookup_keys (Store proc) kid \<and> cache_ok (snd (getAppStateKey kid proc)) \<and>
    Store (snd (getAppStateKey kid proc)) = Store proc"
proof (cases "keyCache proc (b64_raw kid)")
  case None
  then show ?thesis
    using assms by (auto simp: getAppStateKey_def lookup_keys_def cache_ok_def dest: b64_raw_inject split: option.split sum.split)
next
  case (Some keys)
  then obtain k where "GetAppStateSyncKey kid (Store proc) = Some k" "expandAppStateKeys (key_Data k) = Inr keys"
    using assms by (auto simp: cache_ok_def)
  with Some assms show ?thesis by (simp add: getAppStateKey_def lookup_keys_def)
qed

text \<open>
  The key cache is transparent. After any sequence of lookups on an unchanged key table, the keys
  returned for an id are those expanded from that id's own row, and an id without a row is reported
  as missing: two ids never share a cache entry.
\<close>
lemma key_cache_transparent:
  "fst (getAppStateKey kid (fold (\<lambda>i proc. snd (getAppStateKey i proc)) history (NewProcessor st))) = lookup_keys st kid"
proof -
  have "cache_ok (fold (\<lambda>i proc. snd (getAppStateKey i proc)) h proc) \<and>
      Store (fold (\<lambda>i proc. snd (getAppStateKey i proc)) h proc) = Store proc" if "cache_ok proc" for h proc
    using that by (induction h arbitrary: proc) (auto simp: getAppStateKey_spec)
  moreover have "cache_ok (NewProcessor st)" by (simp add: cache_ok_def NewProcessor_def)
  ultimately show ?thesis using getAppStateKey_spec by (metis NewProcessor_def Processor.select_convs(2))
qed

definition referenced_keys :: "PatchList \<Rightarrow> bytes option list" where
  "referenced_keys pl =
     (case pl_Snapshot pl of None \<Rightarrow> [] | Some ss \<Rightarrow> ss_KeyID ss # map rec_KeyID (ss_Records ss)) @
     map patch_KeyID (pl_Patches pl)"

lemma check_missing_fold:
  assumes "\<forall>k. cache (b64_raw k) \<noteq> None \<longleftrightarrow> k \<in> seen" "distinct acc"
    "set acc = {k \<in> seen. GetAppStateSyncKey k (Store proc) = None}"
  shows "distinct (snd (fold (check_missing proc) ks (cache, acc))) \<and>
    set (snd (fold (check_missing proc) ks (cache, acc))) =
      {k \<in> seen \<union> {k. Some k \<in> set ks}. GetAppStateSyncKey k (Store proc) = None}"
  using assms
proof (induction ks arbitrary: cache acc seen)
  case (Cons x ks)
  show ?case
  proof (cases x)
    case None
    then have "check_missing proc x (cache, acc) = (cache, acc)" by (simp add: check_missing_def)
    with None Cons.IH [OF Cons.prems] show ?thesis by simp
  next
    case (Some k)
    show ?thesis
    proof (cases "k \<in> seen")
      case True
      then have "check_missing proc x (cache, acc) = (cache, acc)" using Some Cons.prems(1) by (simp add: check_missing_def)
      moreover have "seen \<union> {j. Some j \<in> set (x # ks)} = seen \<union> {j. Some j \<in> set ks}" using Some True by auto
      ultimately show ?thesis using Cons.IH [OF Cons.prems] by simp
    next
      case False
      let ?acc = "if GetAppStateSyncKey k (Store proc) = None then acc @ [k] else acc"
      let ?cache = "cache(b64_raw k \<mapsto> GetAppStateSyncKey k (Store proc) = None)"
      have step: "check_missing proc x (cache, acc) = (?cache, ?acc)"
        using Some False Cons.prems(1) by (simp add: check_missing_def Let_def)
      have "\<forall>j. ?cache (b64_raw j) \<noteq> None \<longleftrightarrow> j \<in> insert k seen"
        using Cons.prems(1) by (auto dest: b64_raw_inject)
      moreover have "distinct ?acc" "set ?acc = {j \<in> insert k seen. GetAppStateSyncKey j (Store proc) = None}"
        using Cons.prems False by auto
      ultimately have "distinct (snd (fold (check_missing proc) ks (?cache, ?acc))) \<and>
        set (snd (fold (check_missing proc) ks (?cache, ?acc))) =
          {j \<in> insert k seen \<union> {j. Some j \<in> set ks}. GetAppStateSyncKey j (Store proc) = None}"
        by (rule Cons.IH)
      then show ?thesis using step Some by auto
    qed
  qed
qed auto

text \<open>
  The keys to request are exactly the ids the response refers to that have no row in the key table,
  each once.
\<close>

lemma GetMissingKeyIDs_exact:
  "distinct (GetMissingKeyIDs proc pl) \<and>
   set (GetMissingKeyIDs proc pl) = {k. Some k \<in> set (referenced_keys pl) \<and> GetAppStateSyncKey k (Store proc) = None}"
  using check_missing_fold [of Map.empty "{}" "[]" proc "referenced_keys pl"]
  by (simp add: GetMissingKeyIDs_def referenced_keys_def)

end
