(* ===== verification/AppstateSync.thy ===== *)
theory AppstateSync
  imports Appstate
begin

text \<open>
  What the app-state sync keeps: the summation hash of a collection is the hash of the value MACs
  that are live in the database, and decoding patches changes both alike.
\<close>

section \<open>The abstract collection\<close>

text \<open>A collection is a finite map from index MACs to value MACs; a mutation sets or removes one.\<close>

type_synonym collection = "bytes \<rightharpoonup> bytes"

definition value_mac :: "SyncdMutation \<Rightarrow> bytes" where
  "value_mac m = drop (length (rec_Value (sm_Record m)) - 32) (rec_Value (sm_Record m))"

definition apply_mutation :: "SyncdMutation \<Rightarrow> collection \<Rightarrow> collection" where
  "apply_mutation m c =
     (case sm_Operation m of
        SET \<Rightarrow> c(rec_Index (sm_Record m) \<mapsto> value_mac m)
      | REMOVE \<Rightarrow> c(rec_Index (sm_Record m) := None))"

definition live :: "string \<Rightarrow> app_tables \<Rightarrow> collection" where
  "live name st = (\<lambda>i. GetAppStateMutationMAC name i st)"

abbreviation item :: "nat \<Rightarrow> bytes \<Rightarrow> u16" where
  "item i v \<equiv> lane i (contribution WAPatchIntegrity v)"

definition total_lane :: "nat \<Rightarrow> collection \<Rightarrow> u16" where
  "total_lane i c = (\<Sum>k\<in>dom c. item i (the (c k)))"

definition tracks :: "HashState \<Rightarrow> collection \<Rightarrow> bool" where
  "tracks hs c \<longleftrightarrow> length (Hash hs) = 128 \<and> (\<forall>i<64. lane i (Hash hs) = total_lane i c)"

lemma finite_live: "finite (dom (live name st))"
proof -
  have "dom (live name st) \<subseteq> set (map row_index (mac_rows st))"
    by (auto simp: live_def GetAppStateMutationMAC_def dom_def filter_empty_conv)
  then show ?thesis by (rule finite_subset) simp
qed

lemma sum_without:
  "finite (dom c) \<Longrightarrow> (\<Sum>x\<in>dom c - {k}. item i (the (c x))) = total_lane i c - (case c k of None \<Rightarrow> 0 | Some r \<Rightarrow> item i r)"
  by (auto simp: total_lane_def sum_diff1 dom_def split: option.split)

lemma total_lane_set:
  "finite (dom c) \<Longrightarrow> total_lane i (c(k \<mapsto> v)) =
    total_lane i c - (case c k of None \<Rightarrow> 0 | Some r \<Rightarrow> item i r) + item i v"
  using sum_without [of c i k] by (simp add: total_lane_def sum.insert_remove)

lemma total_lane_remove:
  "finite (dom c) \<Longrightarrow> total_lane i (c(k := None)) = total_lane i c - (case c k of None \<Rightarrow> 0 | Some r \<Rightarrow> item i r)"
  using sum_without [of c i k] by (simp add: total_lane_def)

lemma telescope: "x = a + (q - p) \<Longrightarrow> t = s - p + q \<Longrightarrow> x + u - t = a + u - (s :: u16)"
  by simp

lemma finite_apply: "finite (dom c) \<Longrightarrow> finite (dom (apply_mutation m c))"
  by (auto simp: apply_mutation_def split: SyncdOperation.split)

lemma finite_fold_apply: "finite (dom c) \<Longrightarrow> finite (dom (fold apply_mutation ms c))"
  by (induction ms arbitrary: c) (simp_all add: finite_apply)

section \<open>The lookup within a patch\<close>

definition long_enough :: "SyncdMutation \<Rightarrow> bool" where
  "long_enough m \<longleftrightarrow> sm_Operation m = SET \<longrightarrow> 32 \<le> length (rec_Value (sm_Record m))"

lemma find_rev_apply:
  "list_all long_enough ms \<Longrightarrow>
   (case find (\<lambda>m. rec_Index (sm_Record m) = i) (rev ms) of
      Some m \<Rightarrow> if sm_Operation m = SET then bindE (last32 (rec_Value (sm_Record m))) (\<lambda>v. Inr (Some v)) else Inr None
    | None \<Rightarrow> Inr (c i)) = Inr (fold apply_mutation ms c i)"
proof (induction ms rule: rev_induct)
  case (snoc m ms)
  then show ?case
    by (auto simp: apply_mutation_def last32_def value_mac_def long_enough_def split: SyncdOperation.split)
qed simp

lemma prev_in_patch_spec:
  "list_all long_enough (take k ms) \<Longrightarrow>
   prev_in_patch ms name st i k = Inr (fold apply_mutation (take k ms) (live name st) i)"
  unfolding prev_in_patch_def live_def by (rule find_rev_apply)

text \<open>
  The lookup contract of the hash update: at every position it answers with what the mutations
  before it made of a start collection.
\<close>

locale previous_value =
  fixes ms :: "SyncdMutation list" and c :: collection and getPrev :: "bytes \<Rightarrow> nat \<Rightarrow> app_error + bytes option"
  assumes finite_start: "finite (dom c)"
    and getPrev_spec: "\<lbrakk>k < length ms; list_all long_enough (take k ms)\<rbrakk> \<Longrightarrow>
      getPrev (rec_Index (sm_Record (ms ! k))) k = Inr (fold apply_mutation (take k ms) c (rec_Index (sm_Record (ms ! k))))"
begin

lemma update_loop_sums:
  assumes "ms = xs @ ys" "list_all long_enough xs"
    "update_loop getPrev (length xs) ys added removed w = (w', Inr (added', removed'))"
  shows "list_all long_enough ys \<and>
    (\<Sum>v\<leftarrow>added'. item i v) - (\<Sum>v\<leftarrow>removed'. item i v) =
    (\<Sum>v\<leftarrow>added. item i v) - (\<Sum>v\<leftarrow>removed. item i v) +
    total_lane i (fold apply_mutation ms c) - total_lane i (fold apply_mutation xs c)"
  using assms
proof (induction ys arbitrary: xs added removed w)
  case (Cons m ys)
  let ?idx = "rec_Index (sm_Record m)" and ?cx = "fold apply_mutation xs c"
  have prev: "getPrev ?idx (length xs) = Inr (?cx ?idx)"
    using getPrev_spec [of "length xs"] Cons.prems(1,2) by simp
  have long: "long_enough m"
    using Cons.prems(3) by (auto simp: long_enough_def last32_def split: if_splits sum.splits)
  define added2 where "added2 = (if sm_Operation m = SET then added @ [value_mac m] else added)"
  define removed2 where "removed2 = (case ?cx ?idx of None \<Rightarrow> removed | Some r \<Rightarrow> removed @ [r])"
  have rest: "\<exists>w2. update_loop getPrev (length (xs @ [m])) ys added2 removed2 w2 = (w', Inr (added', removed'))"
    using Cons.prems(3) long
    by (auto simp: prev last32_def value_mac_def long_enough_def added2_def removed2_def Let_def
        split: if_splits option.splits)
  have step: "total_lane i (fold apply_mutation (xs @ [m]) c) =
      total_lane i ?cx - (case ?cx ?idx of None \<Rightarrow> 0 | Some r \<Rightarrow> item i r) +
      (if sm_Operation m = SET then item i (value_mac m) else 0)"
    using finite_fold_apply [OF finite_start, of xs]
    by (simp add: apply_mutation_def total_lane_set total_lane_remove split: SyncdOperation.split)
  have sums: "(\<Sum>v\<leftarrow>added2. item i v) - (\<Sum>v\<leftarrow>removed2. item i v) =
      (\<Sum>v\<leftarrow>added. item i v) - (\<Sum>v\<leftarrow>removed. item i v) +
      ((if sm_Operation m = SET then item i (value_mac m) else 0) - (case ?cx ?idx of None \<Rightarrow> 0 | Some r \<Rightarrow> item i r))"
    by (simp add: added2_def removed2_def algebra_simps split: option.split)
  have "list_all long_enough ys \<and>
    (\<Sum>v\<leftarrow>added'. item i v) - (\<Sum>v\<leftarrow>removed'. item i v) =
    (\<Sum>v\<leftarrow>added2. item i v) - (\<Sum>v\<leftarrow>removed2. item i v) +
    total_lane i (fold apply_mutation ms c) - total_lane i (fold apply_mutation (xs @ [m]) c)"
    using rest Cons.IH [of "xs @ [m]" added2 removed2] Cons.prems(1,2) long by auto
  then show ?case unfolding telescope [OF sums step] using long by simp
qed simp

lemma updateHash_tracks:
  assumes "updateHash ms getPrev hs = (w, Inr hs')" "tracks hs c"
  shows "tracks hs' (fold apply_mutation ms c) \<and> Version hs' = Version hs \<and> list_all long_enough ms"
proof -
  obtain added removed where loop: "update_loop getPrev 0 ms [] [] [] = (w, Inr (added, removed))"
    using assms(1) by (auto simp: updateHash_def split: prod.splits sum.splits)
  then obtain h where h: "SubtractThenAddInPlace WAPatchIntegrity (Hash hs) removed added = Inr h" "hs' = hs\<lparr>Hash := h\<rparr>"
    using assms(1) by (auto simp: updateHash_def split: sum.splits)
  have lane_h: "length h = 128 \<and> (\<forall>i<64. lane i h = lane i (Hash hs) - (\<Sum>x\<leftarrow>removed. item i x) + (\<Sum>x\<leftarrow>added. item i x))"
    using SubtractThenAdd_lanes [of "Hash hs" WAPatchIntegrity removed added] assms(2) h(1)
    by (auto simp: tracks_def WAPatchIntegrity_def)
  have sums: "list_all long_enough ms \<and> (\<Sum>v\<leftarrow>added. item i v) - (\<Sum>v\<leftarrow>removed. item i v) =
      total_lane i (fold apply_mutation ms c) - total_lane i c" for i
    using update_loop_sums [of "[]" ms "[]" "[]" "[]" w added removed i] loop by simp
  have "lane i h = total_lane i (fold apply_mutation ms c)" if "i < 64" for i
  proof -
    have "lane i h = total_lane i c + ((\<Sum>v\<leftarrow>added. item i v) - (\<Sum>v\<leftarrow>removed. item i v))"
      using lane_h assms(2) that by (simp add: tracks_def)
    then show ?thesis using sums [of i] by simp
  qed
  then show ?thesis using h(2) lane_h sums [of 0] by (simp add: tracks_def)
qed

end

interpretation patch_lookup: previous_value ms "live name st" "prev_in_patch ms name st" for ms name st
proof unfold_locales
  show "finite (dom (live name st))" by (rule finite_live)
qed (rule prev_in_patch_spec)

lemma fold_apply_other:
  "i \<notin> (\<lambda>m. rec_Index (sm_Record m)) ` set ms \<Longrightarrow> fold apply_mutation ms c i = c i"
  by (induction ms arbitrary: c) (auto simp: apply_mutation_def split: SyncdOperation.split)

lemma distinct_take_notin:
  assumes "distinct (map f ms)" "k < length ms"
  shows "f (ms ! k) \<notin> f ` set (take k ms)"
proof
  assume "f (ms ! k) \<in> f ` set (take k ms)"
  then obtain j where "j < k" "f (ms ! k) = f (ms ! j)" by (auto simp: in_set_conv_nth)
  then show False using assms nth_eq_iff_index_eq [OF assms(1), of k j] by simp
qed

text \<open>When all indexes differ, looking into the start collection alone satisfies the contract.\<close>

lemma distinct_previous:
  assumes "distinct (map (\<lambda>m. rec_Index (sm_Record m)) ms)" "finite (dom c)"
  shows "previous_value ms c (\<lambda>i _. Inr (c i))"
proof
  fix k
  assume "k < length ms"
  then show "Inr (c (rec_Index (sm_Record (ms ! k)))) =
      Inr (fold apply_mutation (take k ms) c (rec_Index (sm_Record (ms ! k))))"
    using distinct_take_notin [OF assms(1)] fold_apply_other [of "rec_Index (sm_Record (ms ! k))" "take k ms" c] by simp
qed (rule assms(2))

section \<open>What is stored\<close>

text \<open>The collection a patch output leads to when it is stored over another.\<close>

definition output_over :: "'v patchOutput \<Rightarrow> collection \<Rightarrow> collection" where
  "output_over out c = (\<lambda>i.
     case map_of (rev (AddedMACs out)) i of
       Some v \<Rightarrow> Some v
     | None \<Rightarrow> if i \<in> set (RemovedMACs out) then None else c i)"

lemma map_of_filter_neq: "map_of (filter (\<lambda>m. fst m \<noteq> k) xs) i = (if i = k then None else map_of xs i)"
  by (induction xs) auto

lemma getAppStateKey_Store: "getAppStateKey kid proc = (r, proc') \<Longrightarrow> Store proc' = Store proc"
  by (auto simp: getAppStateKey_def Let_def split: option.splits sum.splits)

lemma decodeMutation_ok:
  assumes "decodeMutation lib m val proc = (Inr (im, vm, idx, act), proc')"
  shows "im = rec_Index (sm_Record m) \<and> vm = value_mac m \<and> Store proc' = Store proc"
proof -
  obtain keys where "getAppStateKey (id_of (rec_KeyID (sm_Record m))) proc = (Inr keys, proc')"
    using assms by (auto simp: decodeMutation_def Let_def split: prod.splits sum.splits)
  with assms getAppStateKey_Store [OF this] show ?thesis
    by (auto simp: decodeMutation_def Let_def last32_def value_mac_def bindE_Inr_conv
        split: if_splits sum.splits option.splits)
qed

lemma decodeMutation_Store: "decodeMutation lib m val proc = (r, proc') \<Longrightarrow> Store proc' = Store proc"
  by (auto simp: decodeMutation_def Let_def dest: getAppStateKey_Store split: prod.splits sum.splits)

lemma record_macs_over:
  "output_over (record_macs Map.empty (sm_Operation m) (rec_Index (sm_Record m)) (value_mac m) out) c =
    apply_mutation m (output_over out c)"
  by (rule ext)
     (auto simp: output_over_def record_macs_def apply_mutation_def RemoveMAC_def AddMAC_def Let_def
       rev_filter map_of_filter_neq split: SyncdOperation.split option.split)

lemma output_over_Mutations [simp]: "output_over (out\<lparr>Mutations := x\<rparr>) c = output_over out c"
  by (simp add: output_over_def cong: option.case_cong)

abbreviation summary :: "'v Mutation \<Rightarrow> SyncdOperation \<times> bytes \<times> bytes" where
  "summary m \<equiv> (mut_Operation m, mut_IndexMAC m, mut_ValueMAC m)"

lemma record_macs_Mutations [simp]: "Mutations (record_macs fake op i v out) = Mutations out"
  by (auto simp: record_macs_def RemoveMAC_def AddMAC_def Let_def split: SyncdOperation.split option.split)

lemma decodeMutations_ok:
  assumes "decodeMutations lib ms out val ver Map.empty proc = (Inr out', proc')"
  shows "output_over out' c = fold apply_mutation ms (output_over out c) \<and> Store proc' = Store proc \<and>
    map summary (Mutations out') = map summary (Mutations out) @
      map (\<lambda>m. (sm_Operation m, rec_Index (sm_Record m), value_mac m)) ms"
  using assms
proof (induction ms arbitrary: out proc)
  case (Cons m ms)
  then obtain im vm idx act proc1 where d: "decodeMutation lib m val proc = (Inr (im, vm, idx, act), proc1)"
    by (auto split: prod.splits sum.splits)
  from decodeMutation_ok [OF d] have "im = rec_Index (sm_Record m)" "vm = value_mac m" "Store proc1 = Store proc"
    by simp_all
  with Cons d show ?case by (fastforce simp: Let_def record_macs_over)
qed simp

lemma decodeMutations_Store: "decodeMutations lib ms out val ver fake proc = (r, proc') \<Longrightarrow> Store proc' = Store proc"
proof (induction ms arbitrary: out proc)
  case (Cons m ms)
  then show ?case by (auto simp: Let_def dest!: decodeMutation_Store split: prod.splits sum.splits)
qed simp

text \<open>The rows a sequence of mutations adds.\<close>

fun added_after :: "SyncdMutation list \<Rightarrow> (bytes \<times> bytes) list \<Rightarrow> (bytes \<times> bytes) list" where
  "added_after [] acc = acc"
| "added_after (m # ms) acc =
     added_after ms (case sm_Operation m of
        SET \<Rightarrow> acc @ [(rec_Index (sm_Record m), value_mac m)]
      | REMOVE \<Rightarrow> filter (\<lambda>x. fst x \<noteq> rec_Index (sm_Record m)) acc)"

lemma decodeMutations_added:
  assumes "decodeMutations lib ms out val ver Map.empty proc = (Inr out', proc')"
  shows "AddedMACs out' = added_after ms (AddedMACs out)"
  using assms
proof (induction ms arbitrary: out proc)
  case (Cons m ms)
  then obtain im vm idx act proc1 where d: "decodeMutation lib m val proc = (Inr (im, vm, idx, act), proc1)"
    by (auto split: prod.splits sum.splits)
  with Cons decodeMutation_ok [OF d] show ?case
    by (fastforce simp: Let_def record_macs_def AddMAC_def RemoveMAC_def split: SyncdOperation.split)
qed simp

lemma added_after_sets:
  "\<forall>m\<in>set ms. sm_Operation m = SET \<Longrightarrow> added_after ms acc = acc @ map (\<lambda>m. (rec_Index (sm_Record m), value_mac m)) ms"
  by (induction ms arbitrary: acc) simp_all

lemma added_after_append: "added_after (xs @ ys) acc = added_after ys (added_after xs acc)"
  by (induction xs arbitrary: acc) simp_all

abbreviation keeps :: "bytes \<Rightarrow> SyncdMutation \<Rightarrow> bool" where
  "keeps i m \<equiv> sm_Operation m = REMOVE \<longrightarrow> rec_Index (sm_Record m) \<noteq> i"

lemma added_after_count:
  "\<forall>m\<in>set ms. keeps i m \<Longrightarrow>
    length (filter (\<lambda>x. fst x = i) acc) \<le> length (filter (\<lambda>x. fst x = i) (added_after ms acc))"
proof (induction ms arbitrary: acc)
  case (Cons m ms)
  let ?acc = "case sm_Operation m of
        SET \<Rightarrow> acc @ [(rec_Index (sm_Record m), value_mac m)]
      | REMOVE \<Rightarrow> filter (\<lambda>x. fst x \<noteq> rec_Index (sm_Record m)) acc"
  have "filter (\<lambda>x. fst x = i \<and> fst x \<noteq> rec_Index (sm_Record m)) acc = filter (\<lambda>x. fst x = i) acc"
    if "sm_Operation m = REMOVE"
    using Cons.prems that by (intro filter_cong) auto
  then have "length (filter (\<lambda>x. fst x = i) acc) \<le> length (filter (\<lambda>x. fst x = i) ?acc)"
    by (auto simp: conj_commute split: SyncdOperation.split)
  with Cons.IH [of ?acc] Cons.prems show ?case by simp
qed simp

lemma distinct_count: "distinct (map fst xs) \<Longrightarrow> length (filter (\<lambda>x. fst x = i) xs) \<le> 1"
  by (induction xs) (force simp: filter_empty_conv)+

lemma added_after_twice:
  assumes "sm_Operation m = SET" "sm_Operation n = SET" "rec_Index (sm_Record n) = rec_Index (sm_Record m)"
    "\<forall>x\<in>set (b @ c). keeps (rec_Index (sm_Record m)) x"
  shows "\<not> distinct (map fst (added_after (a @ m # b @ n # c) []))"
proof -
  let ?i = "rec_Index (sm_Record m)" and ?f = "\<lambda>xs. length (filter (\<lambda>x. fst x = rec_Index (sm_Record m)) xs)"
  define x where "x = added_after b (added_after a [] @ [(?i, value_mac m)])"
  have "1 \<le> ?f x"
    using added_after_count [of b ?i "added_after a [] @ [(?i, value_mac m)]"] assms(4) by (simp add: x_def)
  then have "2 \<le> ?f (x @ [(?i, value_mac n)])" by simp
  also have "\<dots> \<le> ?f (added_after c (x @ [(?i, value_mac n)]))"
    using added_after_count [of c ?i "x @ [(?i, value_mac n)]"] assms(4) by simp
  also have "added_after c (x @ [(?i, value_mac n)]) = added_after (a @ m # b @ n # c) []"
    using assms(1-3) by (simp add: added_after_append x_def)
  finally show ?thesis using distinct_count [of "added_after (a @ m # b @ n # c) []" ?i] by linarith
qed

lemma Put_distinct: "PutAppStateMutationMACs name v ms st = Inr st' \<Longrightarrow> distinct (map fst ms)"
  by (auto simp: PutAppStateMutationMACs_def split: if_splits)

lemma Put_rows:
  "PutAppStateMutationMACs name v ms st = Inr st' \<Longrightarrow>
    mac_rows st' = mac_rows st @ map (\<lambda>(i, x). \<lparr>row_name = name, row_version = v, row_index = i, row_value = x\<rparr>) ms"
  by (auto simp: PutAppStateMutationMACs_def split: if_splits)

lemma PutVersion_rows: "PutAppStateVersion name v h st = Inr st' \<Longrightarrow> mac_rows st' = mac_rows st"
  by (auto simp: PutAppStateVersion_def split: if_splits)

lemma Get_rows: "mac_rows st = mac_rows st' \<Longrightarrow> GetAppStateMutationMAC name i st = GetAppStateMutationMAC name i st'"
  by (simp add: GetAppStateMutationMAC_def)

lemma storeMACs_distinct:
  "storeMACs name hs out proc = (Inr u, proc') \<Longrightarrow> distinct (map fst (AddedMACs out))"
  by (auto simp: storeMACs_def Let_def dest: Put_distinct split: sum.splits)

lemma map_of_rev_distinct: "distinct (map fst xs) \<Longrightarrow> map_of (rev xs) i = map_of xs i"
proof (induction xs)
  case (Cons x xs)
  then have "map_of xs (fst x) = None" by (simp add: map_of_eq_None_iff)
  with Cons show ?case by (auto simp: map_add_def split: option.split)
qed simp

lemma storeMACs_ok:
  assumes "storeMACs name hs out proc = (Inr u, proc')" "older name (Version hs) (Store proc)"
  shows "live name (Store proc') = output_over out (live name (Store proc)) \<and>
    (\<forall>r\<in>set (mac_rows (Store proc')). row_name r = name \<longrightarrow> row_version r \<le> Version hs)"
proof -
  obtain st1 where st1: "PutAppStateVersion name (Version hs) (Hash hs) (Store proc) = Inr st1"
    using assms(1) by (auto simp: storeMACs_def split: sum.splits)
  let ?st2 = "DeleteAppStateMutationMACs name (RemovedMACs out) st1"
  obtain st3 where st3: "PutAppStateMutationMACs name (Version hs) (AddedMACs out) ?st2 = Inr st3" "Store proc' = st3"
    using assms(1) st1 by (auto simp: storeMACs_def Let_def split: sum.splits)
  have rows: "mac_rows st1 = mac_rows (Store proc)" by (rule PutVersion_rows [OF st1])
  then have old: "older name (Version hs) ?st2"
    using assms(2) by (simp add: older_def DeleteAppStateMutationMACs_def)
  have "live name st3 i = output_over out (live name (Store proc)) i" for i
    using Get_after_Put [OF st3(1) old, of i] Get_rows [OF rows, of name i] Put_distinct [OF st3(1)]
    by (simp add: live_def output_over_def Get_after_Delete map_of_rev_distinct split: option.split)
  moreover have "row_version r \<le> Version hs" if r: "r \<in> set (mac_rows st3)" "row_name r = name" for r
  proof -
    have "r \<in> set (mac_rows ?st2) \<or> row_version r = Version hs"
      using Put_rows [OF st3(1)] r(1) by auto
    with old r(2) show ?thesis by (auto simp: older_def)
  qed
  ultimately show ?thesis using st3(2) by auto
qed

section \<open>Decoding keeps hash and database in step\<close>

lemma validatePatch_ok:
  assumes "validatePatch name p hs val proc = (w, Inr hs', proc')"
  shows "Store proc' = Store proc \<and>
    updateHash (patch_Mutations p) (prev_in_patch (patch_Mutations p) name (Store proc)) (hs\<lparr>Version := patch_Version p\<rparr>) = (w, Inr hs')"
  using assms
  by (auto simp: validatePatch_def validateSnapshotMAC_def Let_def bindE_Inr_conv
      dest: getAppStateKey_Store split: prod.splits sum.splits if_splits)

lemma updateHash_shape:
  assumes "updateHash ms f hs = (w, Inr hs')" "length (Hash hs) = 128"
  shows "length (Hash hs') = 128 \<and> Version hs' = Version hs"
proof -
  obtain added removed where "update_loop f 0 ms [] [] [] = (w, Inr (added, removed))"
    using assms(1) by (auto simp: updateHash_def split: prod.splits sum.splits)
  then obtain h where "SubtractThenAddInPlace WAPatchIntegrity (Hash hs) removed added = Inr h"
    and hs': "hs' = hs\<lparr>Hash := h\<rparr>"
    using assms(1) by (auto simp: updateHash_def split: sum.splits)
  then have "length h = 128"
    using SubtractThenAdd_lanes [OF assms(2), of WAPatchIntegrity removed added] by (auto simp: WAPatchIntegrity_def)
  with hs' show ?thesis by simp
qed

lemma tracks_Version [simp]: "tracks (hs\<lparr>Version := v\<rparr>) c = tracks hs c"
  by (simp add: tracks_def)

lemma output_over_empty [simp]: "output_over (empty_output ms) c = c"
  by (simp add: output_over_def empty_output_def)

lemma Mutations_empty_output [simp]: "Mutations (empty_output ms) = ms"
  by (simp add: empty_output_def)

definition newest_at :: "string \<Rightarrow> u64 \<Rightarrow> app_tables \<Rightarrow> bool" where
  "newest_at name v st \<longleftrightarrow> (\<forall>r\<in>set (mac_rows st). row_name r = name \<longrightarrow> row_version r \<le> v)"

abbreviation sent_summary :: "SyncdMutation \<Rightarrow> SyncdOperation \<times> bytes \<times> bytes" where
  "sent_summary m \<equiv> (sm_Operation m, rec_Index (sm_Record m), value_mac m)"

lemma decode_patch_ok:
  assumes "decode_patch lib name p val (muts, hs) proc = (Inr (muts', hs'), proc')"
    "older name (patch_Version p) (Store proc)" "tracks hs (live name (Store proc))"
  shows "live name (Store proc') = fold apply_mutation (patch_Mutations p) (live name (Store proc)) \<and>
    tracks hs' (live name (Store proc')) \<and> newest_at name (patch_Version p) (Store proc') \<and>
    map summary muts' = map summary muts @ map sent_summary (patch_Mutations p)"
proof -
  obtain w proc1 where v: "validatePatch name p hs val proc = (w, Inr hs', proc1)"
    using assms(1) by (auto simp: decode_patch_def split: prod.splits sum.splits)
  then obtain out proc2 where d: "decodeMutations lib (patch_Mutations p) (empty_output muts) val (Version hs') Map.empty proc1 = (Inr out, proc2)"
    "Mutations out = muts'" and s: "storeMACs name hs' out proc2 = (Inr (), proc')"
    using assms(1) by (auto simp: decode_patch_def split: prod.splits sum.splits)
  note V = validatePatch_ok [OF v]
  have H: "tracks hs' (fold apply_mutation (patch_Mutations p) (live name (Store proc))) \<and> Version hs' = patch_Version p"
    using patch_lookup.updateHash_tracks [OF conjunct2 [OF V]] assms(3) by simp
  note D = decodeMutations_ok [OF d(1), of "live name (Store proc)"]
  have S: "live name (Store proc') = output_over out (live name (Store proc)) \<and> newest_at name (patch_Version p) (Store proc')"
    using storeMACs_ok [OF s] assms(2) V D H by (simp add: newest_at_def)
  show ?thesis using S D H d(2) by simp
qed

lemma decode_patches_ok:
  assumes "decode_patches lib name ps val (muts, hs) proc = (Inr (muts', hs'), proc')"
    "sorted_wrt (<) (map patch_Version ps)"
    "\<forall>p\<in>set ps. older name (patch_Version p) (Store proc)" "tracks hs (live name (Store proc))"
  shows "live name (Store proc') = fold apply_mutation (concat (map patch_Mutations ps)) (live name (Store proc)) \<and>
    tracks hs' (live name (Store proc')) \<and>
    map summary muts' = map summary muts @ map sent_summary (concat (map patch_Mutations ps))"
  using assms
proof (induction ps arbitrary: muts hs proc)
  case (Cons p ps)
  obtain muts1 hs1 proc1 where p: "decode_patch lib name p val (muts, hs) proc = (Inr (muts1, hs1), proc1)"
    using Cons.prems(1) by (auto split: prod.splits sum.splits)
  then have "decode_patches lib name ps val (muts1, hs1) proc1 = (Inr (muts', hs'), proc')"
    using Cons.prems(1) by simp
  moreover have old: "older name (patch_Version p) (Store proc)" using Cons.prems(3) by simp
  note ok = decode_patch_ok [OF p old Cons.prems(4)]
  moreover have "\<forall>q\<in>set ps. older name (patch_Version q) (Store proc1)"
    using ok Cons.prems by (auto simp: older_def newest_at_def dest!: bspec intro: le_less_trans)
  ultimately show ?case using Cons.IH [of muts1 hs1 proc1] Cons.prems(2) by auto
qed simp

lemma decodeSnapshot_ok:
  assumes "decodeSnapshot lib name ss hs val [] proc = (Inr (muts, hs'), proc')"
    "\<forall>r\<in>set (mac_rows (Store proc)). row_name r \<noteq> name" "tracks hs (live name (Store proc))"
  shows "live name (Store proc') = fold apply_mutation (map (SyncdMutation.make SET) (ss_Records ss)) Map.empty \<and>
    tracks hs' (live name (Store proc')) \<and> newest_at name (ss_Version ss) (Store proc') \<and>
    map summary muts = map sent_summary (map (SyncdMutation.make SET) (ss_Records ss))"
proof -
  let ?ms = "map (SyncdMutation.make SET) (ss_Records ss)"
  have ms: "map (\<lambda>r. \<lparr>sm_Operation = SET, sm_Record = r\<rparr>) (ss_Records ss) = ?ms"
    by (simp add: SyncdMutation.make_def)
  have empty: "live name (Store proc) = Map.empty"
  proof
    fix i
    have "filter (\<lambda>r. row_name r = name \<and> row_index r = i) (mac_rows (Store proc)) = []"
      using assms(2) by (auto simp: filter_empty_conv)
    then show "live name (Store proc) i = None" by (simp add: live_def GetAppStateMutationMAC_def)
  qed
  obtain w where u: "updateHash ?ms (\<lambda>_ _. Inr None) (hs\<lparr>Version := ss_Version ss\<rparr>) = (w, Inr hs')"
    using assms(1) by (cases "updateHash ?ms (\<lambda>_ _. Inr None) (hs\<lparr>Version := ss_Version ss\<rparr>)")
      (auto simp: decodeSnapshot_def Let_def ms split: prod.splits sum.splits if_splits)
  obtain proc1 out proc2 where p1: "Store proc1 = Store proc"
    and d: "decodeMutations lib ?ms (empty_output []) val (Version hs') Map.empty proc1 = (Inr out, proc2)" "Mutations out = muts"
    and s: "storeMACs name hs' out proc2 = (Inr (), proc')"
    using assms(1) u by (auto simp: decodeSnapshot_def Let_def ms validateSnapshotMAC_def
        dest!: getAppStateKey_Store split: prod.splits sum.splits if_splits)
  have distinct: "distinct (map (\<lambda>m. rec_Index (sm_Record m)) ?ms)"
    using decodeMutations_added [OF d(1)] storeMACs_distinct [OF s]
    by (simp add: added_after_sets SyncdMutation.make_def comp_def empty_output_def)
  have H: "tracks hs' (fold apply_mutation ?ms Map.empty) \<and> Version hs' = ss_Version ss"
    using previous_value.updateHash_tracks [OF distinct_previous [OF distinct, of Map.empty] u] assms(3) empty by simp
  note D = decodeMutations_ok [OF d(1), of Map.empty]
  have "older name (Version hs') (Store proc2)" using assms(2) p1 D by (simp add: older_def)
  from storeMACs_ok [OF s this] have S: "live name (Store proc') = output_over out Map.empty \<and> newest_at name (ss_Version ss) (Store proc')"
    using D H p1 empty by (simp add: newest_at_def)
  show ?thesis using S D H d(2) by simp
qed

text \<open>The mutations of a response: the records of the snapshot as settings, then those of the patches.\<close>

definition all_mutations :: "PatchList \<Rightarrow> SyncdMutation list" where
  "all_mutations pl =
     (case pl_Snapshot pl of None \<Rightarrow> [] | Some ss \<Rightarrow> map (SyncdMutation.make SET) (ss_Records ss)) @
     concat (map patch_Mutations (pl_Patches pl))"

definition all_versions :: "PatchList \<Rightarrow> u64 list" where
  "all_versions pl =
     (case pl_Snapshot pl of None \<Rightarrow> [] | Some ss \<Rightarrow> [ss_Version ss]) @ map patch_Version (pl_Patches pl)"

lemma older_if_newest: "newest_at name v st \<Longrightarrow> v < v' \<Longrightarrow> older name v' st"
  by (auto simp: newest_at_def older_def intro: le_less_trans)

end
