(* ===== verification/AppstateCodec.thy ===== *)
theory AppstateCodec
  imports AppstateSync Golib
begin

text \<open>
  What one device of an account encodes, another decodes: the patch of \<open>EncodePatch\<close>, with the version
  the server gives it, passes all MAC checks of \<open>DecodePatches\<close> and yields the mutations.
\<close>

section \<open>One mutation\<close>

definition action_of :: "'v sync_lib \<Rightarrow> int \<Rightarrow> 'v MutationInfo \<Rightarrow> bytes \<Rightarrow> 'v SyncActionData" where
  "action_of lib ts mi b = \<lparr>sad_Index = b, sad_Value = SetTimestamp lib ts (mi_Value mi), sad_Version = mi_Version mi\<rparr>"

abbreviation received :: "'v Mutation \<Rightarrow> SyncdOperation \<times> string list \<times> int \<times> 'v" where
  "received m \<equiv> (mut_Operation m, mut_Index m, mut_Version m, mut_Action m)"

text \<open>
  The laws the codecs of other packages promise: an action comes back from its protobuf encoding, and an
  index from its JSON text when its strings are valid UTF-8 (JSON replaces other bytes).
\<close>

definition utf8_index :: "string list \<Rightarrow> bool" where
  "utf8_index i \<longleftrightarrow> list_all (\<lambda>s. utf8_valid (bytes_of_string s)) i"

locale action_codec =
  fixes lib :: "'v sync_lib"
  assumes unmarshal_action: "MarshalAction lib a = Some c \<Longrightarrow> UnmarshalAction lib c = Some a"
    and unmarshal_index: "utf8_index i \<Longrightarrow> MarshalIndex lib i = Some b \<Longrightarrow> UnmarshalIndex lib b = Some i"
begin

lemma encode_mutation_ok:
  assumes "encode_mutation lib keys kid ts rnd mi = Inr m"
  obtains b c where "MarshalIndex lib (mi_Index mi) = Some b" "MarshalAction lib (action_of lib ts mi b) = Some c"
    "NewCipher (k_ValueEncryption keys) = Inr (k_ValueEncryption keys)"
    "let e = rnd @ fst (enc_blocks (k_ValueEncryption keys) rnd (pkcs_pad c))
     in m = \<lparr>sm_Operation = SET, sm_Record = \<lparr>rec_Index = hmac sha256 (k_Index keys) b,
       rec_Value = e @ generateContentMAC SET e kid (k_ValueMAC keys), rec_KeyID = Some kid\<rparr>\<rparr>"
proof -
  obtain b where b: "MarshalIndex lib (mi_Index mi) = Some b"
    using assms by (auto simp: encode_mutation_def split: option.splits)
  then obtain c where c: "MarshalAction lib (action_of lib ts mi b) = Some c"
    using assms by (auto simp: encode_mutation_def action_of_def split: option.splits)
  then obtain e where e: "CbcEncrypt (k_ValueEncryption keys) None rnd c = Inr e"
    using assms b by (auto simp: encode_mutation_def action_of_def split: sum.splits)
  then have "length c \<le> 1000000000" "NewCipher (k_ValueEncryption keys) = Inr (k_ValueEncryption keys)"
    by (auto simp: CbcEncrypt_def Let_def liftCbc_def NewCipher_def split: if_splits sum.splits)
  from that [OF b c this(2)] CbcEncrypt_padded(2) [OF this] assms b c e show ?thesis
    by (auto simp: encode_mutation_def action_of_def Let_def concatAndHMAC_def)
qed

lemma decode_encoded:
  assumes enc: "encode_mutation lib keys kid ts rnd mi = Inr m" and rnd: "length rnd = 16"
    and utf8: "utf8_index (mi_Index mi)" and k: "getAppStateKey kid proc = (Inr keys, proc')"
  shows "\<exists>b. decodeMutation lib m val proc =
    (Inr (rec_Index (sm_Record m), value_mac m, mi_Index mi, action_of lib ts mi b), proc')"
  using enc
proof (rule encode_mutation_ok)
  fix b c
  assume b: "MarshalIndex lib (mi_Index mi) = Some b" and c: "MarshalAction lib (action_of lib ts mi b) = Some c"
    and ok: "NewCipher (k_ValueEncryption keys) = Inr (k_ValueEncryption keys)"
    and m: "let e = rnd @ fst (enc_blocks (k_ValueEncryption keys) rnd (pkcs_pad c))
     in m = \<lparr>sm_Operation = SET, sm_Record = \<lparr>rec_Index = hmac sha256 (k_Index keys) b,
       rec_Value = e @ generateContentMAC SET e kid (k_ValueMAC keys), rec_KeyID = Some kid\<rparr>\<rparr>"
  define e where "e = rnd @ fst (enc_blocks (k_ValueEncryption keys) rnd (pkcs_pad c))"
  have e: "take 16 e = rnd" "drop 16 e = fst (enc_blocks (k_ValueEncryption keys) rnd (pkcs_pad c))" "16 \<le> length e"
    using rnd by (simp_all add: e_def)
  have mac: "length (generateContentMAC SET e kid (k_ValueMAC keys)) = 32"
    by (simp add: generateContentMAC_def concatAndHMAC_def Let_def)
  have m': "sm_Operation m = SET" "rec_Index (sm_Record m) = hmac sha256 (k_Index keys) b"
    "rec_Value (sm_Record m) = e @ generateContentMAC SET e kid (k_ValueMAC keys)" "rec_KeyID (sm_Record m) = Some kid"
    using m by (simp_all add: e_def Let_def)
  have "sad_Index (action_of lib ts mi b) = b" by (simp add: action_of_def)
  then show ?thesis
    using decrypt_padded [OF ok rnd, of c] unmarshal_action [OF c] unmarshal_index [OF utf8 b] mac e
    by (auto simp: decodeMutation_def Let_def m' id_of_def k last32_def value_mac_def guardE_def concatAndHMAC_def)
qed

lemma value_mac_length:
  assumes "encode_mutation lib keys kid ts rnd mi = Inr m"
  shows "long_enough m \<and> sm_Operation m = SET \<and> length (rec_Index (sm_Record m)) = 32 \<and> length (value_mac m) = 32"
  using assms by (rule encode_mutation_ok) (auto simp: Let_def value_mac_def long_enough_def generateContentMAC_def concatAndHMAC_def)

section \<open>The mutations of a patch\<close>

lemma getAppStateKey_again: "getAppStateKey kid proc = (Inr keys, proc') \<Longrightarrow> getAppStateKey kid proc' = (Inr keys, proc')"
  by (auto simp: getAppStateKey_def Let_def split: option.splits sum.splits)

lemma decode_encoded_all:
  assumes "encode_mutations lib keys kid ts rnd mis = Inr ms" "\<forall>i. length (rnd i) = 16"
    "getAppStateKey kid proc = (Inr keys, proc)" "\<forall>mi\<in>set mis. utf8_index (mi_Index mi)"
  shows "\<exists>out'. decodeMutations lib ms out val ver Map.empty proc = (Inr out', proc) \<and>
    map received (Mutations out') = map received (Mutations out) @
      map (\<lambda>i. (SET, mi_Index i, mi_Version i, SetTimestamp lib ts (mi_Value i))) mis"
  using assms
proof (induction mis arbitrary: ms rnd out)
  case (Cons mi mis)
  then obtain m ms' where m: "encode_mutation lib keys kid ts (rnd 0) mi = Inr m"
    "encode_mutations lib keys kid ts (\<lambda>i. rnd (Suc i)) mis = Inr ms'" "ms = m # ms'"
    by (auto simp: bindE_Inr_conv)
  obtain b where b: "decodeMutation lib m val proc =
      (Inr (rec_Index (sm_Record m), value_mac m, mi_Index mi, action_of lib ts mi b), proc)"
    using decode_encoded [OF m(1) _ _ Cons.prems(3), of val] Cons.prems(2,4) by auto
  define out1 where "out1 = (record_macs Map.empty (sm_Operation m) (rec_Index (sm_Record m)) (value_mac m) out)
      \<lparr>Mutations := Mutations out @ [\<lparr>mut_KeyID = id_of (rec_KeyID (sm_Record m)), mut_Operation = sm_Operation m,
        mut_Action = SetTimestamp lib ts (mi_Value mi), mut_Version = mi_Version mi, mut_Index = mi_Index mi,
        mut_IndexMAC = rec_Index (sm_Record m), mut_ValueMAC = value_mac m, mut_PatchVersion = ver\<rparr>]\<rparr>"
  obtain out' where "decodeMutations lib ms' out1 val ver Map.empty proc = (Inr out', proc)"
    "map received (Mutations out') = map received (Mutations out1) @
      map (\<lambda>i. (SET, mi_Index i, mi_Version i, SetTimestamp lib ts (mi_Value i))) mis"
    using Cons.IH [OF m(2) _ Cons.prems(3), of out1] Cons.prems(2,4) by auto
  then show ?case
    using value_mac_length [OF m(1)] by (auto simp: m(3) b Let_def action_of_def out1_def)
qed simp

lemma encode_mutations_shape:
  "encode_mutations lib keys kid ts rnd mis = Inr ms \<Longrightarrow>
   \<forall>m\<in>set ms. long_enough m \<and> sm_Operation m = SET \<and> length (rec_Index (sm_Record m)) = 32 \<and> length (value_mac m) = 32"
proof (induction mis arbitrary: ms rnd)
  case (Cons mi mis)
  then show ?case using value_mac_length by (fastforce simp: bindE_Inr_conv)
qed simp

end

section \<open>The patch\<close>

lemma update_loop_cong:
  assumes "\<And>k. k < length ms \<Longrightarrow> f (rec_Index (sm_Record (ms ! k))) (i + k) = g (rec_Index (sm_Record (ms ! k))) (i + k)"
  shows "update_loop f i ms added removed w = update_loop g i ms added removed w"
  using assms
proof (induction ms arbitrary: i added removed w)
  case (Cons m ms)
  have "f (rec_Index (sm_Record m)) i = g (rec_Index (sm_Record m)) i" using Cons.prems [of 0] by simp
  moreover have "update_loop f (Suc i) ms a r w' = update_loop g (Suc i) ms a r w'" for a r w'
    by (rule Cons.IH) (use Cons.prems [of "Suc _"] in force)
  ultimately show ?case by (simp add: Let_def cong: option.case_cong sum.case_cong)
qed simp

lemma updateHash_Version: "updateHash ms f (hs\<lparr>Version := v\<rparr>) =
    (case updateHash ms f hs of (w, Inl e) \<Rightarrow> (w, Inl e) | (w, Inr h) \<Rightarrow> (w, Inr (h\<lparr>Version := v\<rparr>)))"
  by (auto simp: updateHash_def split: prod.split sum.split)

text \<open>With distinct indexes the encoder's lookup in the database is the decoder's lookup in patch and database.\<close>

lemma updateHash_encoder:
  assumes "distinct (map (\<lambda>m. rec_Index (sm_Record m)) ms)"
  shows "updateHash ms (prev_in_patch ms name st) hs = updateHash ms (\<lambda>i _. Inr (live name st i)) hs"
proof -
  have "update_loop (prev_in_patch ms name st) 0 ms [] [] [] = update_loop (\<lambda>i _. Inr (live name st i)) 0 ms [] [] []"
  proof (rule update_loop_cong)
    fix k
    assume "k < length ms"
    then have "find (\<lambda>m. rec_Index (sm_Record m) = rec_Index (sm_Record (ms ! k))) (rev (take k ms)) = None"
      using distinct_take_notin [OF assms, of k] by (simp add: find_None_iff image_iff) metis
    then show "prev_in_patch ms name st (rec_Index (sm_Record (ms ! k))) (0 + k) = Inr (live name st (rec_Index (sm_Record (ms ! k))))"
      by (simp add: prev_in_patch_def live_def)
  qed
  then show ?thesis by (simp add: updateHash_def)
qed

lemma generatePatchMAC_version [simp]: "generatePatchMAC (p\<lparr>patch_PatchMAC := x, patch_Version := v\<rparr>) = generatePatchMAC p"
  by (intro ext) (simp add: generatePatchMAC_def)

lemma storeMACs_succeeds:
  assumes "fits_bigint (Version hs)" "length (Hash hs) = 128" "older name (Version hs) (Store proc)"
    "distinct (map fst (AddedMACs out))" "\<forall>(i, v)\<in>set (AddedMACs out). length i = 32 \<and> length v = 32"
  shows "\<exists>proc'. storeMACs name hs out proc = (Inr (), proc')"
  using assms
  by (force simp: storeMACs_def PutAppStateVersion_def PutAppStateMutationMACs_def DeleteAppStateMutationMACs_def
      Let_def map_of_upsert list_all_iff list_ex_iff older_def split: option.split)

lemma encoded_patch_decodes:
  assumes codec: "action_codec lib" and rnd: "\<forall>i. length (rnd i) = 16"
    and enc: "EncodePatch lib keyID hs now rnd info procE = (Inr p, procE')"
    and distinct: "distinct (map (\<lambda>m. rec_Index (sm_Record m)) (patch_Mutations p))"
    and key: "fst (getAppStateKey keyID procD) = fst (getAppStateKey keyID procE)"
    and same: "live (pi_Type info) (Store procD) = live (pi_Type info) (Store procE)"
    and old: "older (pi_Type info) (Version hs + 1) (Store procD)"
    and fits: "fits_bigint (Version hs + 1)" "length (Hash hs) = 128"
    and utf8: "\<forall>mi\<in>set (pi_Mutations info). utf8_index (mi_Index mi)"
  shows "\<exists>muts hs' procD'.
    DecodePatches lib \<lparr>pl_Name = pi_Type info, pl_HasMorePatches = False,
        pl_Patches = [p\<lparr>patch_Version := Version hs + 1\<rparr>], pl_Snapshot = None\<rparr> hs True procD = (Inr (muts, hs'), procD') \<and>
    Version hs' = Version hs + 1 \<and>
    map received muts = map (\<lambda>i. (SET, mi_Index i, mi_Version i,
      SetTimestamp lib (case pi_Timestamp info of None \<Rightarrow> now | Some t \<Rightarrow> t) (mi_Value i))) (pi_Mutations info)"
proof -
  let ?name = "pi_Type info" and ?v = "Version hs + 1" and ?ts = "case pi_Timestamp info of None \<Rightarrow> now | Some t \<Rightarrow> t"
  obtain keys procE1 where ke: "getAppStateKey keyID procE = (Inr keys, procE1)"
    using enc by (auto simp: EncodePatch_def split: prod.splits sum.splits)
  obtain procD1 where kd: "getAppStateKey keyID procD = (Inr keys, procD1)"
    using key ke by (cases "getAppStateKey keyID procD") auto
  have st: "Store procE1 = Store procE" "Store procD1 = Store procD" using getAppStateKey_Store ke kd by blast+
  obtain ms h mac where ms: "encode_mutations lib keys keyID ?ts rnd (pi_Mutations info) = Inr ms"
    and h: "snd (updateHash ms (\<lambda>i _. Inr (live ?name (Store procE) i)) hs) = Inr h"
    and mac: "generatePatchMAC \<lparr>patch_Version = 0, patch_Mutations = ms,
        patch_SnapshotMAC = generateSnapshotMAC (h\<lparr>Version := Version h + 1\<rparr>) ?name (k_SnapshotMAC keys), patch_PatchMAC = [], patch_KeyID = Some keyID\<rparr>
        ?name (k_PatchMAC keys) (Version h + 1) = Inr mac"
    and p: "p = \<lparr>patch_Version = 0, patch_Mutations = ms,
        patch_SnapshotMAC = generateSnapshotMAC (h\<lparr>Version := Version h + 1\<rparr>) ?name (k_SnapshotMAC keys), patch_PatchMAC = mac, patch_KeyID = Some keyID\<rparr>"
    using enc ke by (auto simp: EncodePatch_def Let_def st bindE_Inr_conv live_def)
  obtain w where u: "updateHash ms (\<lambda>i _. Inr (live ?name (Store procD) i)) hs = (w, Inr h)" using h same by (metis prod.collapse)
  have hv: "Version h = Version hs" "length (Hash h) = 128" using updateHash_shape [OF u fits(2)] by simp_all
  let ?p = "p\<lparr>patch_Version := ?v\<rparr>" and ?h = "h\<lparr>Version := ?v\<rparr>"
  have dms: "distinct (map (\<lambda>m. rec_Index (sm_Record m)) ms)" using distinct p by simp
  have again: "getAppStateKey keyID procD1 = (Inr keys, procD1)"
    using kd action_codec.getAppStateKey_again [OF codec] by blast
  have "updateHash ms (prev_in_patch ms ?name (Store procD)) (hs\<lparr>Version := ?v\<rparr>) = (w, Inr ?h)"
    by (simp add: updateHash_encoder [OF dms] updateHash_Version u)
  then have val: "validatePatch ?name ?p hs True procD = (w, Inr ?h, procD1)"
    using mac hv by (simp add: validatePatch_def Let_def p validateSnapshotMAC_def id_of_def kd generatePatchMAC_def)
  obtain out where out: "decodeMutations lib ms (empty_output []) True ?v Map.empty procD1 = (Inr out, procD1)"
    "map received (Mutations out) = map (\<lambda>i. (SET, mi_Index i, mi_Version i, SetTimestamp lib ?ts (mi_Value i))) (pi_Mutations info)"
    using action_codec.decode_encoded_all [OF codec ms rnd again utf8, of "empty_output []" True ?v] by auto
  note shape = action_codec.encode_mutations_shape [OF codec ms]
  have added: "AddedMACs out = map (\<lambda>m. (rec_Index (sm_Record m), value_mac m)) ms"
    using decodeMutations_added [OF out(1)] shape by (simp add: added_after_sets empty_output_def)
  obtain procD' where "storeMACs ?name ?h out procD1 = (Inr (), procD')"
    using storeMACs_succeeds [of ?h ?name procD1 out] fits old hv shape dms
    by (auto simp: st added comp_def)
  then show ?thesis
    using val out by (simp add: DecodePatches_def decode_patch_def p)
qed

section \<open>Encoding succeeds\<close>

lemma expandAppStateKeys_total:
  obtains keys where "expandAppStateKeys d = Inr keys" "length (k_Index keys) = 32" "length (k_ValueEncryption keys) = 32"
    "length (k_ValueMAC keys) = 32" "length (k_SnapshotMAC keys) = 32" "length (k_PatchMAC keys) = 32"
proof -
  obtain x where x: "hkdf_sha256 d [] (bytes_of_string ''WhatsApp Mutation Keys'') 160 = Inr x"
    using hkdf_sha256_total [of 160 d "[]"] by auto
  moreover have "length x = 160" by (rule hkdf_sha256_length [OF x])
  ultimately show ?thesis using that by (simp add: expandAppStateKeys_def hkdf_SHA256_def)
qed

lemma update_loop_total:
  "\<lbrakk>\<forall>i k. \<exists>r. f i k = Inr r; list_all long_enough ms\<rbrakk> \<Longrightarrow>
   \<exists>w' r. update_loop f k ms added removed w = (w', Inr r)"
proof (induction ms arbitrary: k added removed w)
  case (Cons m ms)
  obtain r where r: "f (rec_Index (sm_Record m)) k = Inr r" using Cons.prems(1) by blast
  with Cons show ?case
    by (cases r; cases "sm_Operation m") (auto simp: long_enough_def last32_def)
qed simp

lemma updateHash_total:
  assumes "\<forall>i k. \<exists>r. f i k = Inr r" "list_all long_enough ms" "length (Hash hs) = 128"
  obtains w hs' where "updateHash ms f hs = (w, Inr hs')"
proof -
  obtain w added removed where "update_loop f 0 ms [] [] [] = (w, Inr (added, removed))"
    using update_loop_total [OF assms(1,2)] by fastforce
  moreover obtain h where "SubtractThenAddInPlace WAPatchIntegrity (Hash hs) removed added = Inr h"
    using SubtractThenAdd_lanes [OF assms(3), of WAPatchIntegrity] by (fastforce simp: WAPatchIntegrity_def)
  ultimately show ?thesis using that by (simp add: updateHash_def)
qed

lemma last32s_total: "\<forall>m\<in>set ms. 32 \<le> length (rec_Value (sm_Record m)) \<Longrightarrow> \<exists>vs. last32s ms = Inr vs"
  by (induction ms) (auto simp: last32_def)

lemma encode_mutation_total:
  assumes "MarshalIndex lib (mi_Index mi) = Some b" "MarshalAction lib (action_of lib ts mi b) = Some c"
    "length c \<le> 1000000000" "length (k_ValueEncryption keys) = 32"
  shows "\<exists>m. encode_mutation lib keys kid ts rnd mi = Inr m"
proof -
  have "NewCipher (k_ValueEncryption keys) = Inr (k_ValueEncryption keys)" using assms(4) by (simp add: NewCipher_def)
  then show ?thesis
    using assms CbcEncrypt_padded(2) [of c "k_ValueEncryption keys" rnd] by (simp add: encode_mutation_def action_of_def)
qed

text \<open>A patch can be encoded when its key is known and its actions can be marshalled.\<close>

lemma EncodePatch_total:
  assumes codec: "action_codec lib"
    and keys: "getAppStateKey keyID proc = (Inr keys, proc')" "length (k_ValueEncryption keys) = 32"
    and hs: "length (Hash hs) = 128"
    and marshal: "\<forall>mi\<in>set (pi_Mutations info). \<exists>b c. MarshalIndex lib (mi_Index mi) = Some b \<and>
      MarshalAction lib (action_of lib (case pi_Timestamp info of None \<Rightarrow> now | Some t \<Rightarrow> t) mi b) = Some c \<and> length c \<le> 1000000000"
  shows "\<exists>p. EncodePatch lib keyID hs now rnd info proc = (Inr p, proc')"
proof -
  let ?ts = "case pi_Timestamp info of None \<Rightarrow> now | Some t \<Rightarrow> t"
  have "\<exists>ms. encode_mutations lib keys keyID ?ts rnd mis = Inr ms" if "set mis \<subseteq> set (pi_Mutations info)" for mis rnd
    using that
  proof (induction mis arbitrary: rnd)
    case (Cons mi mis)
    then obtain m where "encode_mutation lib keys keyID ?ts (rnd 0) mi = Inr m"
      using encode_mutation_total marshal keys(2) by (metis insert_subset list.simps(15))
    with Cons.IH [of "\<lambda>i. rnd (Suc i)"] Cons.prems show ?case by auto
  qed simp
  then obtain ms where ms: "encode_mutations lib keys keyID ?ts rnd (pi_Mutations info) = Inr ms" by blast
  note shape = action_codec.encode_mutations_shape [OF codec ms]
  obtain w h where h: "updateHash ms (\<lambda>indexMAC _. Inr (GetAppStateMutationMAC (pi_Type info) indexMAC (Store proc'))) hs = (w, Inr h)"
    by (rule updateHash_total) (use shape hs in \<open>auto simp: list_all_iff\<close>)
  obtain vs where "last32s ms = Inr vs" using last32s_total [of ms] shape by (auto simp: long_enough_def)
  with ms h show ?thesis by (simp add: EncodePatch_def keys Let_def generatePatchMAC_def)
qed

definition example_action :: "unit SyncActionData" where
  "example_action = \<lparr>sad_Index = [1], sad_Value = (), sad_Version = 2\<rparr>"

definition example_sync_lib :: "unit sync_lib" where
  "example_sync_lib =
     \<lparr>UnmarshalAction = (\<lambda>c. if c = [9] then Some example_action else None),
      MarshalAction = (\<lambda>a. if a = example_action then Some [9] else None),
      UnmarshalIndex = (\<lambda>b. if b = [1] then Some [''mute''] else None),
      MarshalIndex = (\<lambda>i. if i = [''mute''] then Some [1] else None), SetTimestamp = (\<lambda>_ v. v)\<rparr>"

interpretation example: action_codec example_sync_lib
  by unfold_locales (auto simp: example_sync_lib_def split: if_splits)

definition example_info :: "unit PatchInfo" where
  "example_info = \<lparr>pi_Timestamp = None, pi_Type = ''regular_high'',
     pi_Mutations = [\<lparr>mi_Index = [''mute''], mi_Version = 2, mi_Value = ()\<rparr>]\<rparr>"

lemma example_utf8: "utf8_index [''mute'']"
  by (simp add: utf8_index_def bytes_of_string_def byte_of_char_def)

definition example_proc :: Processor where
  "example_proc = NewProcessor \<lparr>sync_keys = [([5], \<lparr>key_Data = [6], key_Fingerprint = [], key_Timestamp = 1\<rparr>)],
     versions = [], mac_rows = []\<rparr>"

abbreviation example_state :: HashState where
  "example_state \<equiv> \<lparr>Version = 0, Hash = replicate 128 0\<rparr>"

lemma example_encodes:
  obtains p proc where "EncodePatch example_sync_lib [5] example_state 7 (\<lambda>_. replicate 16 0) example_info example_proc = (Inr p, proc)"
    "distinct (map (\<lambda>m. rec_Index (sm_Record m)) (patch_Mutations p))"
proof -
  obtain keys where k: "expandAppStateKeys [6] = Inr keys" "length (k_ValueEncryption keys) = 32"
    by (rule expandAppStateKeys_total)
  have g: "getAppStateKey [5] example_proc = (Inr keys, example_proc\<lparr>keyCache := [b64_raw [5] \<mapsto> keys]\<rparr>)"
    using k(1) by (simp add: getAppStateKey_def example_proc_def NewProcessor_def GetAppStateSyncKey_def)
  obtain p where p: "EncodePatch example_sync_lib [5] example_state 7 (\<lambda>_. replicate 16 0) example_info example_proc =
      (Inr p, example_proc\<lparr>keyCache := [b64_raw [5] \<mapsto> keys]\<rparr>)"
    using EncodePatch_total [OF example.action_codec_axioms g k(2), of example_state example_info 7]
    by (auto simp: example_info_def example_sync_lib_def action_of_def example_action_def)
  moreover have "distinct (map (\<lambda>m. rec_Index (sm_Record m)) (patch_Mutations p))"
    using p by (auto simp: EncodePatch_def g example_info_def Let_def bindE_Inr_conv)
  ultimately show ?thesis by (rule that)
qed

text \<open>
  C8: what one device encodes, another decodes. Let the encoder's patch set distinct indexes of valid
  UTF-8 strings, and let the decoding device have the same key, the same hash state and the same live MACs for the
  collection, with all stored rows older than the next version. It then
  decodes the patch under that version with all MACs checked and gets
  exactly the mutations: operation, index, version and value, with the time of the patch; its hash
  state has the next version. (The encoder does not look for an earlier mutation of the same patch on an index; of the
  codecs of other packages it is used that they round-trip.)
\<close>
theorem EncodePatch_DecodePatches:
  assumes codec: "action_codec lib" and rnd: "\<forall>i. length (rnd i) = 16"
    and enc: "EncodePatch lib keyID hs now rnd info procE = (Inr p, procE')"
    and distinct: "distinct (map (\<lambda>m. rec_Index (sm_Record m)) (patch_Mutations p))"
    and key: "fst (getAppStateKey keyID procD) = fst (getAppStateKey keyID procE)"
    and same: "live (pi_Type info) (Store procD) = live (pi_Type info) (Store procE)"
    and old: "older (pi_Type info) (Version hs + 1) (Store procD)"
    and fits: "fits_bigint (Version hs + 1)" "length (Hash hs) = 128"
    and utf8: "\<forall>mi\<in>set (pi_Mutations info). utf8_index (mi_Index mi)"
  shows "\<exists>muts hs' procD'.
    DecodePatches lib \<lparr>pl_Name = pi_Type info, pl_HasMorePatches = False,
        pl_Patches = [p\<lparr>patch_Version := Version hs + 1\<rparr>], pl_Snapshot = None\<rparr> hs True procD = (Inr (muts, hs'), procD') \<and>
    Version hs' = Version hs + 1 \<and>
    map received muts = map (\<lambda>i. (SET, mi_Index i, mi_Version i,
      SetTimestamp lib (case pi_Timestamp info of None \<Rightarrow> now | Some t \<Rightarrow> t) (mi_Value i))) (pi_Mutations info)"
  by (rule encoded_patch_decodes [OF assms])

theorem EncodePatch_DecodePatches_witness:
  "\<exists>p proc muts hs' procD'.
    EncodePatch example_sync_lib [5] example_state 7 (\<lambda>_. replicate 16 0) example_info example_proc = (Inr p, proc) \<and>
    DecodePatches example_sync_lib \<lparr>pl_Name = ''regular_high'', pl_HasMorePatches = False,
        pl_Patches = [p\<lparr>patch_Version := 1\<rparr>], pl_Snapshot = None\<rparr> example_state True example_proc = (Inr (muts, hs'), procD') \<and>
    Version hs' = 1 \<and> map received muts = [(SET, [''mute''], 2, ())]"
proof (rule example_encodes)
  fix p proc
  assume p: "EncodePatch example_sync_lib [5] example_state 7 (\<lambda>_. replicate 16 0) example_info example_proc = (Inr p, proc)"
    "distinct (map (\<lambda>m. rec_Index (sm_Record m)) (patch_Mutations p))"
  show ?thesis
    using EncodePatch_DecodePatches [OF example.action_codec_axioms _ p, of example_proc] p(1)
    by (auto simp: example_proc_def NewProcessor_def older_def fits_bigint_def example_info_def example_utf8)
qed

lemma decode_example:
  assumes "EncodePatch example_sync_lib [5] example_state 7 (\<lambda>_. replicate 16 0) example_info example_proc = (Inr p, proc)"
    "distinct (map (\<lambda>m. rec_Index (sm_Record m)) (patch_Mutations p))"
  shows "\<exists>muts hs' proc'. DecodePatches example_sync_lib \<lparr>pl_Name = ''regular_high'', pl_HasMorePatches = False,
        pl_Patches = [p\<lparr>patch_Version := 1\<rparr>], pl_Snapshot = None\<rparr> example_state True example_proc = (Inr (muts, hs'), proc')"
  using encoded_patch_decodes [OF example.action_codec_axioms _ assms, of example_proc]
  by (auto simp: example_proc_def NewProcessor_def older_def fits_bigint_def example_info_def example_utf8)

lemma lane_replicate_0: "i < 64 \<Longrightarrow> lane i (replicate 128 0) = 0"
proof -
  assume "i < 64"
  then have "\<exists>n. 128 - 2 * i = Suc (Suc n)" by (intro exI [of _ "126 - 2 * i"]) linarith
  then obtain n where "drop (2 * i) (replicate 128 0) = (0 :: byte) # 0 # replicate n 0" by auto
  then show ?thesis by (simp add: lane_def uint16_le_def)
qed

section \<open>Hash and database stay in step\<close>

text \<open>
  C9: decoding keeps the collection, the database and the hash in step. If the hash state is the
  sum over the value MACs live in the database and the versions of the response ascend from there
  (a snapshot only into an empty collection), then a successful decode leaves the database with the
  collection that results from applying the mutations one by one, the new hash state again is the
  sum over it, and the mutations returned are those sent, in order.
\<close>
theorem DecodePatches_tracks:
  assumes "DecodePatches lib pl hs val proc = (Inr (muts, hs'), proc')"
    "sorted_wrt (<) (all_versions pl)" "\<forall>v\<in>set (all_versions pl). older (pl_Name pl) v (Store proc)"
    "pl_Snapshot pl \<noteq> None \<longrightarrow> (\<forall>r\<in>set (mac_rows (Store proc)). row_name r \<noteq> pl_Name pl)"
    "tracks hs (live (pl_Name pl) (Store proc))"
  shows "live (pl_Name pl) (Store proc') = fold apply_mutation (all_mutations pl) (live (pl_Name pl) (Store proc)) \<and>
    tracks hs' (live (pl_Name pl) (Store proc')) \<and> map summary muts = map sent_summary (all_mutations pl)"
proof (cases "pl_Snapshot pl")
  case None
  then show ?thesis
    using assms decode_patches_ok [of lib "pl_Name pl" "pl_Patches pl" val "[]" hs proc muts hs' proc']
    by (auto simp: DecodePatches_def all_mutations_def all_versions_def)
next
  case (Some ss)
  then obtain muts1 hs1 proc1 where ss: "decodeSnapshot lib (pl_Name pl) ss hs val [] proc = (Inr (muts1, hs1), proc1)"
    and ps: "decode_patches lib (pl_Name pl) (pl_Patches pl) val (muts1, hs1) proc1 = (Inr (muts, hs'), proc')"
    using assms(1) by (auto simp: DecodePatches_def split: prod.splits sum.splits)
  have no_rows: "\<forall>r\<in>set (mac_rows (Store proc)). row_name r \<noteq> pl_Name pl" using assms(4) Some by simp
  note S = decodeSnapshot_ok [OF ss no_rows assms(5)]
  have empty: "live (pl_Name pl) (Store proc) = Map.empty"
    using no_rows by (intro ext) (auto simp: live_def GetAppStateMutationMAC_def filter_empty_conv)
  have "\<forall>p\<in>set (pl_Patches pl). older (pl_Name pl) (patch_Version p) (Store proc1)"
    using S assms(2) Some by (auto simp: all_versions_def intro: older_if_newest)
  moreover have "sorted_wrt (<) (map patch_Version (pl_Patches pl))"
    using assms(2) Some by (simp add: all_versions_def)
  ultimately show ?thesis
    using decode_patches_ok [OF ps] S empty Some by (auto simp: all_mutations_def)
qed

theorem DecodePatches_tracks_witness:
  "\<exists>p muts hs' proc'.
    DecodePatches example_sync_lib \<lparr>pl_Name = ''regular_high'', pl_HasMorePatches = False,
        pl_Patches = [p], pl_Snapshot = None\<rparr> example_state True example_proc = (Inr (muts, hs'), proc') \<and>
    length (patch_Mutations p) = 1 \<and> tracks hs' (live ''regular_high'' (Store proc'))"
proof (rule example_encodes)
  fix p proc
  assume p: "EncodePatch example_sync_lib [5] example_state 7 (\<lambda>_. replicate 16 0) example_info example_proc = (Inr p, proc)"
    "distinct (map (\<lambda>m. rec_Index (sm_Record m)) (patch_Mutations p))"
  let ?p = "p\<lparr>patch_Version := 1\<rparr>"
  let ?pl = "\<lparr>pl_Name = ''regular_high'', pl_HasMorePatches = False, pl_Patches = [?p], pl_Snapshot = None\<rparr>"
  have start: "tracks example_state (live ''regular_high'' (Store example_proc))"
    by (simp add: tracks_def total_lane_def live_def example_proc_def NewProcessor_def GetAppStateMutationMAC_def
        lane_replicate_0)
  obtain muts hs' proc' where d: "DecodePatches example_sync_lib ?pl example_state True example_proc = (Inr (muts, hs'), proc')"
    using decode_example [OF p] by blast
  have "length (patch_Mutations ?p) = 1"
    using p(1) by (auto simp: EncodePatch_def example_info_def Let_def bindE_Inr_conv split: prod.splits sum.splits)
  moreover have "tracks hs' (live ''regular_high'' (Store proc'))"
    using DecodePatches_tracks [OF d] start by (auto simp: all_versions_def older_def example_proc_def NewProcessor_def)
  ultimately show ?thesis using d by blast
qed

text \<open>
  C10: let a patch pass the MAC checks and all its mutations decode, and let it set one index twice with
  no removal of that index between the two or after them. Applying it fails:
  the second row breaks the primary key of the MAC table. By then the version and hash of the patch are stored and
  the removed rows deleted, while none of its values is.
\<close>
theorem double_set_fails:
  assumes "validatePatch name p hs val proc = (w, Inr hs', proc1)"
    "decodeMutations lib (patch_Mutations p) (empty_output muts) val (Version hs') Map.empty proc1 = (Inr out, proc2)"
    "patch_Mutations p = a @ m # b @ n # c" "sm_Operation m = SET" "sm_Operation n = SET"
    "rec_Index (sm_Record n) = rec_Index (sm_Record m)"
    "\<forall>x\<in>set (b @ c). sm_Operation x = REMOVE \<longrightarrow> rec_Index (sm_Record x) \<noteq> rec_Index (sm_Record m)"
    "fits_bigint (patch_Version p)" "length (Hash hs) = 128"
  shows "\<exists>proc'. decode_patch lib name p val (muts, hs) proc = (Inl (StoreFailed ConstraintViolation), proc') \<and>
    map_of (versions (Store proc')) name = Some (patch_Version p, Hash hs') \<and>
    mac_rows (Store proc') = filter (\<lambda>r. \<not> (row_name r = name \<and> row_index r \<in> set (RemovedMACs out))) (mac_rows (Store proc))"
proof -
  note u = validatePatch_ok [OF assms(1)]
  then have V: "Store proc1 = Store proc" "Version hs' = patch_Version p" "length (Hash hs') = 128"
    using updateHash_shape [OF conjunct2 [OF u]] assms(9) by simp_all
  have S: "Store proc2 = Store proc" using decodeMutations_Store [OF assms(2)] V by simp
  have added: "AddedMACs out = added_after (patch_Mutations p) []"
    using decodeMutations_added [OF assms(2)] by (simp add: empty_output_def)
  have "\<not> distinct (map fst (AddedMACs out))"
    unfolding added assms(3) by (rule added_after_twice) (use assms in auto)
  then have "storeMACs name hs' out proc2 = (Inl (StoreFailed ConstraintViolation),
      proc2\<lparr>Store := DeleteAppStateMutationMACs name (RemovedMACs out)
        (Store proc\<lparr>versions := upsert (\<lambda>_ _. True) name (patch_Version p, Hash hs') (versions (Store proc))\<rparr>)\<rparr>)"
    using V S assms(8) by (auto simp: storeMACs_def PutAppStateVersion_def PutAppStateMutationMACs_def Let_def)
  then show ?thesis
    using assms(1,2) by (auto simp: decode_patch_def DeleteAppStateMutationMACs_def map_of_upsert split: option.split)
qed

theorem double_set_fails_witness:
  "\<exists>p proc proc'. decode_patch example_sync_lib ''regular_high'' p False ([], example_state) proc =
      (Inl (StoreFailed ConstraintViolation), proc') \<and>
    map_of (versions (Store proc')) ''regular_high'' \<noteq> None \<and> mac_rows (Store proc') = []"
proof -
  obtain keys where k: "expandAppStateKeys [6] = Inr keys" "length (k_ValueEncryption keys) = 32"
    by (rule expandAppStateKeys_total)
  define proc where "proc = example_proc\<lparr>keyCache := [b64_raw [5] \<mapsto> keys]\<rparr>"
  have g: "getAppStateKey [5] proc = (Inr keys, proc)" by (simp add: getAppStateKey_def proc_def)
  obtain m where m: "encode_mutation example_sync_lib keys [5] 7 (replicate 16 0) \<lparr>mi_Index = [''mute''], mi_Version = 2, mi_Value = ()\<rparr> = Inr m"
    using encode_mutation_total [OF _ _ _ k(2), of example_sync_lib "\<lparr>mi_Index = [''mute''], mi_Version = 2, mi_Value = ()\<rparr>"]
    by (fastforce simp: example_sync_lib_def action_of_def example_action_def)
  let ?p = "\<lparr>patch_Version = 1, patch_Mutations = [m, m], patch_SnapshotMAC = [], patch_PatchMAC = [], patch_KeyID = None\<rparr>"
  note shape = example.value_mac_length [OF m]
  have prev: "\<forall>i j. \<exists>r. prev_in_patch [m, m] ''regular_high'' (Store proc) i j = Inr r"
  proof (intro allI)
    fix i j
    have "list_all long_enough (take j [m, m])" using shape by (cases j) (auto simp: take_Cons' list_all_iff dest!: in_set_takeD)
    then show "\<exists>r. prev_in_patch [m, m] ''regular_high'' (Store proc) i j = Inr r" by (simp add: prev_in_patch_spec)
  qed
  obtain w hs' where u: "updateHash [m, m] (prev_in_patch [m, m] ''regular_high'' (Store proc)) (example_state\<lparr>Version := 1\<rparr>) = (w, Inr hs')"
    using shape by (rule_tac updateHash_total [OF prev, of "[m, m]" "example_state\<lparr>Version := 1\<rparr>"]) simp_all
  then have v: "validatePatch ''regular_high'' ?p example_state False proc = (w, Inr hs', proc)"
    by (simp add: validatePatch_def Let_def)
  have "encode_mutations example_sync_lib keys [5] 7 (\<lambda>_. replicate 16 0)
      [\<lparr>mi_Index = [''mute''], mi_Version = 2, mi_Value = ()\<rparr>, \<lparr>mi_Index = [''mute''], mi_Version = 2, mi_Value = ()\<rparr>] = Inr [m, m]"
    using m by simp
  then obtain out where o': "decodeMutations example_sync_lib (patch_Mutations ?p) (empty_output []) False (Version hs') Map.empty proc = (Inr out, proc)"
    using example.decode_encoded_all [OF _ _ g, of 7 "\<lambda>_. replicate 16 0" _ "[m, m]" "empty_output []" False] example_utf8 by fastforce
  have "mac_rows (Store proc) = []" by (simp add: proc_def example_proc_def NewProcessor_def)
  with double_set_fails [OF v o', of "[]" m "[]" m "[]"] shape show ?thesis
    by (force simp: fits_bigint_def)
qed

end
