(* ===== verification/RangeCoder.thy ===== *)
theory RangeCoder
  imports Prelude
begin

text \<open>
  The range coder of the audio codec (\<^verbatim>\<open>wa-core/mlow/rangecoder.go\<close>): the decoder, the encoder with carry
  propagation, raw bits at the back of the buffer, and the flush that joins both. A field of type \<open>int32\<close> that only
  takes small values is an \<open>int\<close>; the bit counters keep their width and are read with \<open>sint\<close> where the
  code compares them as signed. An operation that may run its normalisation loop forever (on an empty range) or index outside a
  table returns an option, whose \<open>None\<close> stands for not returning normally.
\<close>

type_synonym i32 = "32 word"

definition ecSymBits :: nat where "ecSymBits = 8"
definition ecCodeBits :: nat where "ecCodeBits = 32"
definition ecSymMax :: u32 where "ecSymMax = 255"
definition ecCodeTop :: u32 where "ecCodeTop = push_bit (ecCodeBits - 1) 1"
definition ecCodeBot :: u32 where "ecCodeBot = drop_bit ecSymBits ecCodeTop"
definition ecCodeExtra :: nat where "ecCodeExtra = (ecCodeBits - 2) mod ecSymBits + 1"
definition ecWindowSize :: nat where "ecWindowSize = 32"
definition ecUintBits :: int where "ecUintBits = 8"
definition ecCodeShift :: nat where "ecCodeShift = ecCodeBits - ecSymBits - 1"

text \<open>\<open>bits.Len32\<close>, the number of bits needed to write a number.\<close>

fun bit_len :: "nat \<Rightarrow> nat" where
  "bit_len n = (if n = 0 then 0 else Suc (bit_len (n div 2)))"

definition ilog :: "u32 \<Rightarrow> int" where
  "ilog x = int (bit_len (unat x))"

definition ecMini :: "u32 \<Rightarrow> u32 \<Rightarrow> u32" where
  "ecMini a b = (if a < b then a else b)"

section \<open>The decoder\<close>

record RangeDecoder =
  d_buf :: bytes
  d_storage :: u32
  d_endOffs :: u32
  d_endWindow :: u32
  d_nendBits :: i32
  d_nbitsTotal :: i32
  d_offs :: u32
  d_rng :: u32
  d_val :: u32
  d_ext :: u32
  d_rem :: int
  d_Err :: int

definition dec_readByte :: "RangeDecoder \<Rightarrow> u32 \<times> RangeDecoder" where
  "dec_readByte d =
     (if d_offs d < d_storage d then (ucast (d_buf d ! unat (d_offs d)), d\<lparr>d_offs := d_offs d + 1\<rparr>) else (0, d))"

definition readByteFromEnd :: "RangeDecoder \<Rightarrow> u32 \<times> RangeDecoder" where
  "readByteFromEnd d =
     (if d_endOffs d < d_storage d
      then let d = d\<lparr>d_endOffs := d_endOffs d + 1\<rparr> in (ucast (d_buf d ! unat (d_storage d - d_endOffs d)), d)
      else (0, d))"

text \<open>The body of the normalisation loop, and the loop.\<close>

definition dec_shift :: "RangeDecoder \<Rightarrow> RangeDecoder" where
  "dec_shift d =
     (let d = d\<lparr>d_nbitsTotal := d_nbitsTotal d + word_of_nat ecSymBits, d_rng := push_bit ecSymBits (d_rng d)\<rparr>;
          sym0 = d_rem d;
          (b, d) = dec_readByte d;
          d = d\<lparr>d_rem := uint b\<rparr>;
          sym = drop_bit (ecSymBits - ecCodeExtra) (push_bit ecSymBits sym0 OR d_rem d)
      in d\<lparr>d_val := (push_bit ecSymBits (d_val d) + (ecSymMax AND NOT (word_of_int sym))) AND (ecCodeTop - 1)\<rparr>)"

partial_function (option) dec_normalize :: "RangeDecoder \<Rightarrow> RangeDecoder option" where
  "dec_normalize d = (if d_rng d \<le> ecCodeBot then dec_normalize (dec_shift d) else Some d)"

definition NewRangeDecoder :: "bytes \<Rightarrow> RangeDecoder option" where
  "NewRangeDecoder buf =
     (let d = \<lparr>d_buf = buf, d_storage = word_of_nat (length buf), d_endOffs = 0, d_endWindow = 0, d_nendBits = 0,
            d_nbitsTotal = word_of_nat (ecCodeBits + 1 - (ecCodeBits - ecCodeExtra) div ecSymBits * ecSymBits),
            d_offs = 0, d_rng = push_bit ecCodeExtra 1, d_val = 0, d_ext = 0, d_rem = 0, d_Err = 0\<rparr>;
          (b, d) = dec_readByte d;
          d = d\<lparr>d_rem := uint b\<rparr>;
          d = d\<lparr>d_val := d_rng d - 1 - word_of_int (drop_bit (ecSymBits - ecCodeExtra) (d_rem d))\<rparr>
      in dec_normalize d)"

definition rc_Decode :: "u32 \<Rightarrow> RangeDecoder \<Rightarrow> u32 \<times> RangeDecoder" where
  "rc_Decode ft d =
     (if ft = 0 then (0, d\<lparr>d_Err := 1, d_ext := 1\<rparr>)
      else
        let d = d\<lparr>d_ext := d_rng d div ft\<rparr>
        in if d_ext d = 0 then (0, d\<lparr>d_Err := 1, d_ext := 1\<rparr>)
           else let s = d_val d div d_ext d in (ft - ecMini (s + 1) ft, d))"

definition decodeBin :: "u32 \<Rightarrow> RangeDecoder \<Rightarrow> u32 \<times> RangeDecoder" where
  "decodeBin bitsN d =
     (let d = d\<lparr>d_ext := drop_bit (unat bitsN) (d_rng d)\<rparr>
      in if d_ext d = 0 then (0, d\<lparr>d_Err := 1, d_ext := 1\<rparr>)
         else let s = d_val d div d_ext d; ft = push_bit (unat bitsN) 1 in (ft - ecMini (s + 1) ft, d))"

definition rc_Update :: "u32 \<Rightarrow> u32 \<Rightarrow> u32 \<Rightarrow> RangeDecoder \<Rightarrow> RangeDecoder option" where
  "rc_Update fl fh ft d =
     (let s = d_ext d * (ft - fh);
          d = d\<lparr>d_val := d_val d - s\<rparr>;
          d = (if 0 < fl then d\<lparr>d_rng := d_ext d * (fh - fl)\<rparr> else d\<lparr>d_rng := d_rng d - s\<rparr>)
      in dec_normalize d)"

definition DecodeRawSymbol :: "u32 \<Rightarrow> RangeDecoder \<Rightarrow> (u32 \<times> RangeDecoder) option" where
  "DecodeRawSymbol nbits d =
     (let (sym, d) = decodeBin nbits d
      in map_option (Pair sym) (rc_Update sym (sym + 1) (push_bit (unat nbits) 1) d))"

definition dec_BitLogp :: "u32 \<Rightarrow> RangeDecoder \<Rightarrow> (int \<times> RangeDecoder) option" where
  "dec_BitLogp logp d =
     (let r = d_rng d; dv = d_val d; s = drop_bit (unat logp) r;
          ret = (if dv < s then 1 else 0);
          d = (if ret = 0 then d\<lparr>d_val := dv - s, d_rng := r - s\<rparr> else d\<lparr>d_rng := s\<rparr>)
      in map_option (Pair ret) (dec_normalize d))"

text \<open>The search loop: from the symbol before \<open>ret\<close> with bound \<open>t\<close>, over the rest of the table.\<close>

fun icdf_search :: "u32 \<Rightarrow> u32 \<Rightarrow> bytes \<Rightarrow> nat \<Rightarrow> u32 \<Rightarrow> nat \<times> u32 \<times> u32" where
  "icdf_search r dv [] ret s = (ret, s, s)"
| "icdf_search r dv (c # cs) ret s =
     (let t = s; s = r * ucast c
      in if s \<le> dv \<or> cs = [] then (ret, t, s) else icdf_search r dv cs (ret + 1) s)"

definition DecodeICDF :: "bytes \<Rightarrow> u32 \<Rightarrow> RangeDecoder \<Rightarrow> (int \<times> RangeDecoder) option" where
  "DecodeICDF icdf ftb d =
     (if length icdf = 0 then Some (0, d\<lparr>d_Err := 1\<rparr>)
      else
        let s0 = d_rng d; dv = d_val d; r = drop_bit (unat ftb) s0;
            (ret, t, s) = icdf_search r dv icdf 0 s0;
            d = d\<lparr>d_val := dv - s, d_rng := t - s\<rparr>
        in map_option (Pair (int ret)) (dec_normalize d))"

text \<open>The search loop over the cumulative table, on the entries after position \<open>k\<close>.\<close>

fun cdf_search :: "u32 \<Rightarrow> u16 list \<Rightarrow> nat \<Rightarrow> nat" where
  "cdf_search target [] k = k"
| "cdf_search target (c # cs) k = (if target < ucast c then k else cdf_search target cs (k + 1))"

definition DecodeCDF :: "u16 list \<Rightarrow> RangeDecoder \<Rightarrow> (int \<times> RangeDecoder) option" where
  "DecodeCDF cdf d =
     (let n = length cdf
      in if n < 2 then Some (0, d\<lparr>d_Err := 1\<rparr>)
         else
           let base = ucast (cdf ! 0) :: u32
           in if ucast (cdf ! (n - 1)) \<le> base then Some (0, d\<lparr>d_Err := 1\<rparr>)
              else
                let ft = ucast (cdf ! (n - 1)) - base;
                    (fs, d) = rc_Decode ft d;
                    target = base + fs;
                    k = cdf_search target (tl cdf) 0
                in if k + 1 < n
                   then map_option (Pair (int k)) (rc_Update (ucast (cdf ! k) - base) (ucast (cdf ! (k + 1)) - base) ft d)
                   else None)"

function dec_refill :: "u32 \<Rightarrow> i32 \<Rightarrow> RangeDecoder \<Rightarrow> (u32 \<times> i32) \<times> RangeDecoder" where
  "dec_refill window available d =
     (let (b, d) = readByteFromEnd d;
          window = window OR push_bit (unat available) b;
          available = available + word_of_nat ecSymBits
      in if word_of_nat (ecWindowSize - ecSymBits) < available then ((window, available), d)
         else dec_refill window available d)"
  by pat_completeness auto

lemma refill_measure:
  assumes "a + 8 \<le> (24 :: u32)"
  shows "unat (16 - a) < unat (24 - a)"
proof -
  have "unat (24 - (a + 8)) = unat (24 :: u32) - unat (a + 8)" by (rule unat_sub [OF assms])
  then have "unat (24 - (a + 8)) \<le> 24" by simp
  moreover have "24 - (a + 8) = 16 - a" by simp
  ultimately have le: "unat (16 - a) \<le> 24" by (simp only:)
  have "24 - a = (16 - a) + 8" by simp
  then have "unat (24 - a) = unat (16 - a) + 8" using le by (simp only: unat_plus_if') simp
  then show ?thesis by simp
qed

termination dec_refill
  by (relation "measure (\<lambda>(w, a, d). unat (24 - a))")
    (auto simp: ecSymBits_def ecWindowSize_def not_less intro!: refill_measure)

definition dec_BitsN :: "u32 \<Rightarrow> RangeDecoder \<Rightarrow> u32 \<times> RangeDecoder" where
  "dec_BitsN n d =
     (let ((window, available), d) =
            (if d_nendBits d < n then dec_refill (d_endWindow d) (d_nendBits d) d else ((d_endWindow d, d_nendBits d), d));
          ret = window AND (push_bit (unat n) 1 - 1)
      in (ret, d\<lparr>d_endWindow := drop_bit (unat n) window, d_nendBits := available - n,
                d_nbitsTotal := d_nbitsTotal d + n\<rparr>))"

definition DecodeUint :: "u32 \<Rightarrow> RangeDecoder \<Rightarrow> (u32 \<times> RangeDecoder) option" where
  "DecodeUint ft0 d =
     (let ft = ft0 - 1; ftb = ilog ft
      in if ecUintBits < ftb
         then
           let ftb = nat (ftb - ecUintBits);
               t = drop_bit ftb ft + 1;
               (s, d) = rc_Decode t d
           in (case rc_Update s (s + 1) t d of
                 None \<Rightarrow> None
               | Some d \<Rightarrow>
                   let (b, d) = dec_BitsN (word_of_nat ftb) d;
                       v = push_bit ftb s OR b
                   in Some (if v \<le> ft then (v, d) else (ft, d\<lparr>d_Err := 1\<rparr>)))
         else
           let ft = ft + 1; (s, d) = rc_Decode ft d
           in map_option (Pair s) (rc_Update s (s + 1) ft d))"

definition Decode64FineSym :: "RangeDecoder \<Rightarrow> (int \<times> RangeDecoder) option" where
  "Decode64FineSym d =
     (let d = d\<lparr>d_ext := drop_bit 6 (d_rng d)\<rparr>
      in if d_ext d = 0 then Some (0, d\<lparr>d_Err := 1, d_ext := 1\<rparr>)
         else
           let s = d_val d div d_ext d;
               sym = 63 - uint s;
               sym = (if sym < 0 then 0 else if 64 < sym then 64 else sym)
           in map_option (Pair sym) (rc_Update (word_of_int sym) (word_of_int sym + 1) 64 d))"

definition Tell :: "RangeDecoder \<Rightarrow> int" where
  "Tell d = sint (d_nbitsTotal d - word_of_int (ilog (d_rng d)))"

section \<open>The encoder\<close>

record RangeEncoder =
  e_buf :: bytes
  e_storage :: u32
  e_endOffs :: u32
  e_endWindow :: u32
  e_nendBits :: i32
  e_nbitsTotal :: i32
  e_offs :: u32
  e_rng :: u32
  e_val :: u32
  e_ext :: u32
  e_rem :: int
  e_err :: int

definition NewRangeEncoder :: "nat \<Rightarrow> RangeEncoder" where
  "NewRangeEncoder sz = \<lparr>e_buf = replicate sz 0, e_storage = word_of_nat sz, e_endOffs = 0, e_endWindow = 0, e_nendBits = 0,
     e_nbitsTotal = word_of_nat (ecCodeBits + 1), e_offs = 0, e_rng = ecCodeTop, e_val = 0, e_ext = 0, e_rem = - 1, e_err = 0\<rparr>"

definition enc_Err :: "RangeEncoder \<Rightarrow> int" where
  "enc_Err e = e_err e"

definition enc_writeByte :: "u32 \<Rightarrow> RangeEncoder \<Rightarrow> RangeEncoder" where
  "enc_writeByte b e =
     (if e_offs e + e_endOffs e < e_storage e
      then e\<lparr>e_buf := (e_buf e)[unat (e_offs e) := ucast b], e_offs := e_offs e + 1\<rparr>
      else e\<lparr>e_err := - 1\<rparr>)"

definition writeByteAtEnd :: "u32 \<Rightarrow> RangeEncoder \<Rightarrow> RangeEncoder" where
  "writeByteAtEnd b e =
     (if e_offs e + e_endOffs e < e_storage e
      then let e = e\<lparr>e_endOffs := e_endOffs e + 1\<rparr>
           in e\<lparr>e_buf := (e_buf e)[unat (e_storage e - e_endOffs e) := ucast b]\<rparr>
      else e\<lparr>e_err := - 1\<rparr>)"

text \<open>The loop that writes the pending symbols, \<open>n\<close> of them.\<close>

primrec write_pending :: "nat \<Rightarrow> u32 \<Rightarrow> RangeEncoder \<Rightarrow> RangeEncoder" where
  "write_pending 0 b e = e"
| "write_pending (Suc n) b e = write_pending n b ((enc_writeByte b e)\<lparr>e_ext := e_ext e - 1\<rparr>)"

definition carryOut :: "int \<Rightarrow> RangeEncoder \<Rightarrow> RangeEncoder" where
  "carryOut c e =
     (if c \<noteq> uint ecSymMax
      then
        let carry = drop_bit ecSymBits c;
            e = (if 0 \<le> e_rem e then enc_writeByte (word_of_int (e_rem e + carry)) e else e);
            e = (if 0 < e_ext e then write_pending (unat (e_ext e)) (word_of_int ((uint ecSymMax + carry) AND uint ecSymMax)) e else e)
        in e\<lparr>e_rem := c AND uint ecSymMax\<rparr>
      else e\<lparr>e_ext := e_ext e + 1\<rparr>)"

definition enc_shift :: "RangeEncoder \<Rightarrow> RangeEncoder" where
  "enc_shift e =
     (let e = carryOut (uint (drop_bit ecCodeShift (e_val e))) e
      in e\<lparr>e_val := push_bit ecSymBits (e_val e) AND (ecCodeTop - 1), e_rng := push_bit ecSymBits (e_rng e),
           e_nbitsTotal := e_nbitsTotal e + word_of_nat ecSymBits\<rparr>)"

partial_function (option) enc_normalize :: "RangeEncoder \<Rightarrow> RangeEncoder option" where
  "enc_normalize e = (if e_rng e \<le> ecCodeBot then enc_normalize (enc_shift e) else Some e)"

definition rc_Encode :: "u32 \<Rightarrow> u32 \<Rightarrow> u32 \<Rightarrow> RangeEncoder \<Rightarrow> RangeEncoder option" where
  "rc_Encode fl fh ft e =
     (if ft = 0 then Some (e\<lparr>e_err := - 1\<rparr>)
      else
        let r = e_rng e div ft;
            e = (if 0 < fl then e\<lparr>e_val := e_val e + (e_rng e - r * (ft - fl)), e_rng := r * (fh - fl)\<rparr>
                 else e\<lparr>e_rng := e_rng e - r * (ft - fh)\<rparr>)
        in enc_normalize e)"

definition enc_BitLogp :: "int \<Rightarrow> u32 \<Rightarrow> RangeEncoder \<Rightarrow> RangeEncoder option" where
  "enc_BitLogp v logp e =
     (let r = e_rng e; l = e_val e; s = drop_bit (unat logp) r; r2 = r - s;
          e = (if v \<noteq> 0 then e\<lparr>e_val := l + r2, e_rng := s\<rparr> else e\<lparr>e_rng := r2\<rparr>)
      in enc_normalize e)"

definition EncodeICDF :: "int \<Rightarrow> bytes \<Rightarrow> u32 \<Rightarrow> RangeEncoder \<Rightarrow> RangeEncoder option" where
  "EncodeICDF s icdf ftb e =
     (let r = drop_bit (unat ftb) (e_rng e)
      in if s < 0 \<or> int (length icdf) \<le> s then None
         else
           let k = nat s;
               e = (if 0 < s
                    then e\<lparr>e_val := e_val e + (e_rng e - r * ucast (icdf ! (k - 1))), e_rng := r * ucast (icdf ! (k - 1) - icdf ! k)\<rparr>
                    else e\<lparr>e_rng := e_rng e - r * ucast (icdf ! k)\<rparr>)
           in enc_normalize e)"

definition EncodeCDF :: "int \<Rightarrow> u16 list \<Rightarrow> RangeEncoder \<Rightarrow> RangeEncoder option" where
  "EncodeCDF s cdf e =
     (let n = length cdf
      in if n < 2 \<or> s < 0 \<or> int n \<le> s + 1 then Some (e\<lparr>e_err := - 1\<rparr>)
         else
           let base = ucast (cdf ! 0) :: u32
           in if ucast (cdf ! (n - 1)) \<le> base then Some (e\<lparr>e_err := - 1\<rparr>)
              else
                let ft = ucast (cdf ! (n - 1)) - base
                in rc_Encode (ucast (cdf ! nat s) - base) (ucast (cdf ! nat (s + 1)) - base) ft e)"

function enc_drain :: "u32 \<Rightarrow> i32 \<Rightarrow> RangeEncoder \<Rightarrow> (u32 \<times> i32) \<times> RangeEncoder" where
  "enc_drain window used e =
     (let e = writeByteAtEnd (window AND ecSymMax) e;
          window = drop_bit ecSymBits window;
          used = used - word_of_nat ecSymBits
      in if sint used < int ecSymBits then ((window, used), e) else enc_drain window used e)"
  by pat_completeness auto

lemma sint_unat:
  "0 \<le> sint (w :: i32) \<Longrightarrow> sint w = int (unat w)"
  "unat w < 2 ^ 31 \<Longrightarrow> sint w = int (unat w)"
proof -
  have pos: "signed_take_bit 31 (uint w) = uint w" if "\<not> bit (uint w) 31"
  proof -
    have "take_bit 31 (uint w) = uint w"
    proof (rule bit_eqI)
      fix n
      show "bit (take_bit 31 (uint w)) n = bit (uint w) n"
        using that by (cases "n = 31") (auto simp: bit_take_bit_iff bit_uint_iff)
    qed
    with that show ?thesis by (simp add: signed_take_bit_eq_if_positive)
  qed
  show "0 \<le> sint w \<Longrightarrow> sint w = int (unat w)"
    using pos by (simp add: sint_uint signed_take_bit_nonnegative_iff flip: uint_nat)
  show "sint w = int (unat w)" if "unat w < 2 ^ 31"
  proof -
    have "int (unat w) < int (2 ^ 31)" using that by (simp only: of_nat_less_iff)
    moreover have "- (2 ^ 31) \<le> uint w" by (rule order_trans [OF _ uint_ge_0]) simp
    ultimately have "signed_take_bit 31 (uint w) = uint w" by (intro signed_take_bit_int_eq_self) simp_all
    then show ?thesis by (simp add: sint_uint)
  qed
qed

lemma drain_measure:
  assumes "8 \<le> sint (used - 8 :: i32)"
  shows "unat (used - 8) < unat used"
proof (cases "8 \<le> used")
  case True
  then show ?thesis by (simp add: unat_sub word_le_nat_alt)
next
  case False
  then have "unat used < 8" by (simp add: word_le_nat_alt not_le)
  then have "used \<in> {0, 1, 2, 3, 4, 5, 6, 7}"
    by (auto simp: word_unat_eq_iff)
  with assms show ?thesis by (auto simp: )
qed

termination enc_drain
  by (relation "measure (\<lambda>(w, u, e). unat u)") (auto simp: ecSymBits_def not_less intro!: drain_measure)

definition enc_BitsN :: "u32 \<Rightarrow> u32 \<Rightarrow> RangeEncoder \<Rightarrow> RangeEncoder" where
  "enc_BitsN fl n e =
     (let ((window, used), e) =
            (if int ecWindowSize < sint (e_nendBits e + n) then enc_drain (e_endWindow e) (e_nendBits e) e
             else ((e_endWindow e, e_nendBits e), e));
          window = window OR push_bit (unat used) fl
      in e\<lparr>e_endWindow := window, e_nendBits := used + n, e_nbitsTotal := e_nbitsTotal e + n\<rparr>)"

definition EncodeUint :: "u32 \<Rightarrow> u32 \<Rightarrow> RangeEncoder \<Rightarrow> RangeEncoder option" where
  "EncodeUint fl ft0 e =
     (let ft = ft0 - 1; ftb = ilog ft
      in if ecUintBits < ftb
         then
           let shift = nat (ftb - ecUintBits);
               t = drop_bit shift ft + 1
           in map_option (enc_BitsN (fl AND (push_bit shift 1 - 1)) (word_of_nat shift))
                (rc_Encode (drop_bit shift fl) (drop_bit shift fl + 1) t e)
         else rc_Encode fl (fl + 1) (ft + 1) e)"

definition EncodeRawSymbol :: "u32 \<Rightarrow> u32 \<Rightarrow> RangeEncoder \<Rightarrow> RangeEncoder option" where
  "EncodeRawSymbol s nbits e = rc_Encode s (s + 1) (push_bit (unat nbits) 1) e"

definition Encode64FineSym :: "int \<Rightarrow> RangeEncoder \<Rightarrow> RangeEncoder option" where
  "Encode64FineSym s e = rc_Encode (word_of_int s) (word_of_int s + 1) 64 e"

text \<open>The flush: the loops over the bits of the range and over the bytes of the window, and the end of the buffer.\<close>

function done_range :: "int \<Rightarrow> u32 \<Rightarrow> RangeEncoder \<Rightarrow> RangeEncoder" where
  "done_range l end e =
     (if 0 < l
      then done_range (l - int ecSymBits) (push_bit ecSymBits end AND (ecCodeTop - 1)) (carryOut (uint (drop_bit ecCodeShift end)) e)
      else e)"
  by pat_completeness auto

termination done_range
  by (relation "measure (\<lambda>(l, _, _). nat l)") (auto simp: ecSymBits_def)

function done_window :: "u32 \<Rightarrow> i32 \<Rightarrow> RangeEncoder \<Rightarrow> (u32 \<times> i32) \<times> RangeEncoder" where
  "done_window window used e =
     (if int ecSymBits \<le> sint used
      then done_window (drop_bit ecSymBits window) (used - word_of_nat ecSymBits) (writeByteAtEnd (window AND ecSymMax) e)
      else ((window, used), e))"
  by pat_completeness auto

termination done_window
proof (relation "measure (\<lambda>(w, u, e). unat u)")
  fix window :: u32 and used :: i32 and e :: RangeEncoder
  assume "int ecSymBits \<le> sint used"
  then have "8 \<le> int (unat used)" using sint_unat(1) [of used] by (simp add: ecSymBits_def)
  then have "8 \<le> unat used" by linarith
  then show "((drop_bit ecSymBits window, used - word_of_nat ecSymBits, writeByteAtEnd (window AND ecSymMax) e), window, used, e)
      \<in> measure (\<lambda>(w, u, e). unat u)"
    by (simp add: ecSymBits_def unat_sub word_le_nat_alt)
qed simp

definition done_merge :: "u32 \<Rightarrow> i32 \<Rightarrow> RangeEncoder \<Rightarrow> RangeEncoder" where
  "done_merge window used e =
     (if e_err e = 0
      then
        let a = unat (e_offs e); b = unat (e_storage e - e_endOffs e);
            e = (if a < b then e\<lparr>e_buf := take a (e_buf e) @ replicate (b - a) 0 @ drop b (e_buf e)\<rparr> else e)
        in if 0 < sint used
           then
             if e_storage e - e_offs e \<le> e_endOffs e then e\<lparr>e_err := - 1\<rparr>
             else
               let i = unat (e_storage e - e_endOffs e - 1)
               in e\<lparr>e_buf := (e_buf e)[i := e_buf e ! i OR ucast window]\<rparr>
           else e
      else e)"

definition Done :: "RangeEncoder \<Rightarrow> RangeEncoder" where
  "Done e =
     (let l = int ecCodeBits - ilog (e_rng e);
          msk = drop_bit (nat l) (ecCodeTop - 1);
          end = (e_val e + msk) AND NOT msk;
          (l, end) =
            (if e_val e + e_rng e \<le> (end OR msk)
             then let l = l + 1; msk = drop_bit 1 msk in (l, (e_val e + msk) AND NOT msk)
             else (l, end));
          e = done_range l end e;
          e = (if 0 \<le> e_rem e \<or> 0 < e_ext e then carryOut 0 e else e);
          ((window, used), e) = done_window (e_endWindow e) (e_nendBits e) e
      in done_merge window used e)"

definition Bytes :: "RangeEncoder \<Rightarrow> bytes" where
  "Bytes e = e_buf e"

definition ConsumedLen :: "RangeEncoder \<Rightarrow> nat" where
  "ConsumedLen e = unat (e_offs e + e_endOffs e)"

declare bit_len.simps [simp del] dec_refill.simps [simp del] enc_drain.simps [simp del] done_range.simps [simp del]
  done_window.simps [simp del]

end
