(* ===== verification/RangeEncode.thy ===== *)
theory RangeEncode
  imports RangeCoder
begin

text \<open>
  What the encoder holds: the bytes written at the front with the pending carry bytes and the value register are one big
  number, and so are the raw bits at the back with their window. Every operation is arithmetic on these two numbers.
\<close>

section \<open>Bytes as numbers\<close>

definition num :: "bytes \<Rightarrow> nat" where
  "num bs = foldl (\<lambda>a b. a * 256 + unat b) 0 bs"

lemma num_foldl: "foldl (\<lambda>a b. a * 256 + unat b) a bs = a * 256 ^ length bs + num bs" for bs :: bytes
proof (induction bs arbitrary: a)
  case (Cons b bs)
  show ?case using Cons [of "a * 256 + unat b"] Cons [of "unat b"] by (simp add: num_def algebra_simps)
qed (simp add: num_def)

lemma num_simps [simp]:
  "num [] = 0"
  "num (b # bs) = unat b * 256 ^ length bs + num bs"
  "num (xs @ ys) = num xs * 256 ^ length ys + num ys"
  using num_foldl [of "unat b" bs] num_foldl [of "num xs" ys] by (simp_all add: num_def)

lemma num_less: "num bs < 256 ^ length bs"
proof (induction bs)
  case (Cons b bs)
  have "unat b \<le> 255" using unat_byte_lt [of b] by linarith
  then have "unat b * 256 ^ length bs \<le> 255 * 256 ^ length bs" by (rule mult_right_mono) simp
  with Cons have "unat b * 256 ^ length bs + num bs < 255 * 256 ^ length bs + 256 ^ length bs" by linarith
  then show ?case by simp
qed simp

lemma num_replicate [simp]:
  "num (replicate n 0) = 0"
  "num (replicate n 255) = 256 ^ n - 1"
  by (induction n) auto

section \<open>Writing bytes\<close>

definition front_bytes :: "RangeEncoder \<Rightarrow> bytes" where
  "front_bytes e = take (unat (e_offs e)) (e_buf e)"

definition tail_bytes :: "RangeEncoder \<Rightarrow> bytes" where
  "tail_bytes e = drop (unat (e_storage e) - unat (e_endOffs e)) (e_buf e)"

definition wfb :: "RangeEncoder \<Rightarrow> bool" where
  "wfb e \<longleftrightarrow> length (e_buf e) = unat (e_storage e) \<and> unat (e_offs e) + unat (e_endOffs e) \<le> unat (e_storage e)"

lemma front_back_upd [simp]:
  "front_bytes (e\<lparr>e_rem := x\<rparr>) = front_bytes e" "front_bytes (e\<lparr>e_ext := y\<rparr>) = front_bytes e" "front_bytes (e\<lparr>e_val := y\<rparr>) = front_bytes e"
  "front_bytes (e\<lparr>e_rng := y\<rparr>) = front_bytes e" "front_bytes (e\<lparr>e_nbitsTotal := z\<rparr>) = front_bytes e" "front_bytes (e\<lparr>e_err := x\<rparr>) = front_bytes e"
  "front_bytes (e\<lparr>e_endWindow := y\<rparr>) = front_bytes e" "front_bytes (e\<lparr>e_nendBits := z\<rparr>) = front_bytes e"
  "tail_bytes (e\<lparr>e_rem := x\<rparr>) = tail_bytes e" "tail_bytes (e\<lparr>e_ext := y\<rparr>) = tail_bytes e" "tail_bytes (e\<lparr>e_val := y\<rparr>) = tail_bytes e"
  "tail_bytes (e\<lparr>e_rng := y\<rparr>) = tail_bytes e" "tail_bytes (e\<lparr>e_nbitsTotal := z\<rparr>) = tail_bytes e" "tail_bytes (e\<lparr>e_err := x\<rparr>) = tail_bytes e"
  "tail_bytes (e\<lparr>e_endWindow := y\<rparr>) = tail_bytes e" "tail_bytes (e\<lparr>e_nendBits := z\<rparr>) = tail_bytes e"
  "wfb (e\<lparr>e_rem := x\<rparr>) = wfb e" "wfb (e\<lparr>e_ext := y\<rparr>) = wfb e" "wfb (e\<lparr>e_val := y\<rparr>) = wfb e"
  "wfb (e\<lparr>e_rng := y\<rparr>) = wfb e" "wfb (e\<lparr>e_nbitsTotal := z\<rparr>) = wfb e" "wfb (e\<lparr>e_err := x\<rparr>) = wfb e"
  "wfb (e\<lparr>e_endWindow := y\<rparr>) = wfb e" "wfb (e\<lparr>e_nendBits := z\<rparr>) = wfb e"
  by (simp_all add: front_bytes_def tail_bytes_def wfb_def)

lemma length_front [simp]: "wfb e \<Longrightarrow> length (front_bytes e) = unat (e_offs e)"
  by (simp add: front_bytes_def wfb_def)

lemma length_back [simp]: "wfb e \<Longrightarrow> length (tail_bytes e) = unat (e_endOffs e)"
  by (simp add: tail_bytes_def wfb_def)

lemma room_iff: "wfb e \<Longrightarrow> e_offs e + e_endOffs e < e_storage e \<longleftrightarrow> unat (e_offs e) + unat (e_endOffs e) < unat (e_storage e)"
  using unsigned_less [of "e_storage e", where ?'a = nat] by (simp add: wfb_def word_less_nat_alt unat_plus_if')

text \<open>A successful write appends at the front, or prepends at the back; a failed one leaves the error.\<close>

lemma writeByte_fields [simp]:
  "e_rng (enc_writeByte b e) = e_rng e" "e_val (enc_writeByte b e) = e_val e" "e_ext (enc_writeByte b e) = e_ext e"
  "e_rem (enc_writeByte b e) = e_rem e" "e_storage (enc_writeByte b e) = e_storage e" "e_endOffs (enc_writeByte b e) = e_endOffs e"
  "e_endWindow (enc_writeByte b e) = e_endWindow e" "e_nendBits (enc_writeByte b e) = e_nendBits e"
  by (simp_all add: enc_writeByte_def)

lemma writeByteAtEnd_fields [simp]:
  "e_rng (writeByteAtEnd b e) = e_rng e" "e_val (writeByteAtEnd b e) = e_val e" "e_ext (writeByteAtEnd b e) = e_ext e"
  "e_rem (writeByteAtEnd b e) = e_rem e" "e_storage (writeByteAtEnd b e) = e_storage e" "e_offs (writeByteAtEnd b e) = e_offs e"
  "e_endWindow (writeByteAtEnd b e) = e_endWindow e" "e_nendBits (writeByteAtEnd b e) = e_nendBits e"
  by (simp_all add: writeByteAtEnd_def Let_def)

lemma unat_Suc_room: "unat (x :: u32) + unat (y :: u32) < unat (z :: u32) \<Longrightarrow> unat (x + 1) = Suc (unat x)"
  using unsigned_less [of z, where ?'a = nat] by (simp add: unat_plus_if')

lemma writeByte_wfb [simp]: "wfb e \<Longrightarrow> wfb (enc_writeByte b e)"
  by (auto simp: enc_writeByte_def room_iff unat_Suc_room) (auto simp: wfb_def unat_Suc_room)

lemma writeByteAtEnd_wfb [simp]: "wfb e \<Longrightarrow> wfb (writeByteAtEnd b e)"
  by (auto simp: writeByteAtEnd_def room_iff Let_def)
    (auto simp: wfb_def unat_Suc_room add.commute [of "unat (e_offs e)"])

lemma writeByte_ok:
  assumes "wfb e" and "e_err (enc_writeByte b e) = 0"
  shows "e_err e = 0 \<and> front_bytes (enc_writeByte b e) = front_bytes e @ [ucast b] \<and> tail_bytes (enc_writeByte b e) = tail_bytes e"
proof -
  have room: "unat (e_offs e) + unat (e_endOffs e) < unat (e_storage e)"
    using assms by (auto simp: enc_writeByte_def room_iff split: if_splits)
  moreover have len: "length (e_buf e) = unat (e_storage e)" using assms(1) by (simp add: wfb_def)
  ultimately show ?thesis using assms
    by (auto simp: enc_writeByte_def room_iff front_bytes_def tail_bytes_def unat_Suc_room take_Suc_conv_app_nth)
qed

lemma end_index:
  assumes "unat (x :: u32) + unat n < unat (z :: u32)"
  shows "unat (n + 1 :: u32) = Suc (unat n)" and "unat (z - (n + 1)) = unat z - Suc (unat n)"
proof -
  show suc: "unat (n + 1) = Suc (unat n)" by (rule unat_Suc_room [of _ x z]) (use assms in simp)
  show "unat (z - (n + 1)) = unat z - Suc (unat n)"
    using assms suc by (subst unat_sub) (simp_all add: word_le_nat_alt)
qed

lemma writeByteAtEnd_front: "wfb e \<Longrightarrow> front_bytes (writeByteAtEnd b e) = front_bytes e"
  by (auto simp: writeByteAtEnd_def Let_def front_bytes_def room_iff end_index)

lemma writeByteAtEnd_ok:
  assumes "wfb e" and "e_err (writeByteAtEnd b e) = 0"
  shows "e_err e = 0 \<and> front_bytes (writeByteAtEnd b e) = front_bytes e \<and>
    tail_bytes (writeByteAtEnd b e) = ucast b # tail_bytes e \<and> unat (e_endOffs (writeByteAtEnd b e)) = Suc (unat (e_endOffs e))"
proof -
  have room: "unat (e_offs e) + unat (e_endOffs e) < unat (e_storage e)"
    using assms by (auto simp: writeByteAtEnd_def room_iff Let_def split: if_splits)
  moreover have len: "length (e_buf e) = unat (e_storage e)" using assms(1) by (simp add: wfb_def)
  moreover have "Suc (unat (e_storage e) - Suc (unat (e_endOffs e))) = unat (e_storage e) - unat (e_endOffs e)"
    using room by simp
  ultimately show ?thesis using assms writeByteAtEnd_front [OF assms(1)] end_index [OF room]
    by (auto simp: writeByteAtEnd_def room_iff tail_bytes_def Let_def drop_update_swap Cons_nth_drop_Suc [symmetric])
qed

lemma write_pending_fields [simp]:
  "e_rng (write_pending n b e) = e_rng e" "e_val (write_pending n b e) = e_val e" "e_storage (write_pending n b e) = e_storage e"
  "e_endOffs (write_pending n b e) = e_endOffs e" "e_rem (write_pending n b e) = e_rem e"
  "e_endWindow (write_pending n b e) = e_endWindow e" "e_nendBits (write_pending n b e) = e_nendBits e"
  "e_ext (write_pending n b e) = e_ext e - word_of_nat n"
  by (induction n arbitrary: e) simp_all

lemma write_pending_wfb [simp]: "wfb e \<Longrightarrow> wfb (write_pending n b e)"
  by (induction n arbitrary: e) simp_all

lemma write_pending_ok:
  assumes "wfb e" and "e_err (write_pending n b e) = 0"
  shows "e_err e = 0 \<and> front_bytes (write_pending n b e) = front_bytes e @ replicate n (ucast b) \<and> tail_bytes (write_pending n b e) = tail_bytes e"
  using assms
proof (induction n arbitrary: e)
  case (Suc n)
  let ?e = "(enc_writeByte b e)\<lparr>e_ext := e_ext e - 1\<rparr>"
  have ih: "e_err ?e = 0" "front_bytes (write_pending n b ?e) = front_bytes ?e @ replicate n (ucast b)" "tail_bytes (write_pending n b ?e) = tail_bytes ?e"
    using Suc.IH [of ?e] Suc.prems by simp_all
  with writeByte_ok [OF Suc.prems(1), of b] show ?case by simp
qed simp


section \<open>The carry\<close>

definition seq :: "RangeEncoder \<Rightarrow> bytes" where
  "seq e = front_bytes e @ (if 0 \<le> e_rem e then [word_of_int (e_rem e)] else []) @ replicate (unat (e_ext e)) 255"

lemma seq_upd [simp]:
  "seq (e\<lparr>e_val := y\<rparr>) = seq e" "seq (e\<lparr>e_rng := y\<rparr>) = seq e" "seq (e\<lparr>e_nbitsTotal := z\<rparr>) = seq e"
  "seq (e\<lparr>e_endWindow := y\<rparr>) = seq e" "seq (e\<lparr>e_nendBits := z\<rparr>) = seq e"
  by (simp_all add: seq_def)

lemma byte_of_u32_int: "(ucast (word_of_int x :: u32) :: byte) = word_of_int x"
  by (rule ucast_down_wi) (simp add: is_down)

lemma and_255: "c AND 255 = c mod (256 :: int)"
  using take_bit_eq_mask [of 8 c] by (simp add: take_bit_eq_mod mask_eq_exp_minus_1)

lemma carryOut_fields [simp]:
  "e_rng (carryOut c e) = e_rng e" "e_val (carryOut c e) = e_val e" "e_storage (carryOut c e) = e_storage e"
  "e_endOffs (carryOut c e) = e_endOffs e" "e_endWindow (carryOut c e) = e_endWindow e"
  "e_nendBits (carryOut c e) = e_nendBits e"
  by (simp_all add: carryOut_def Let_def)

lemma carryOut_wfb [simp]: "wfb e \<Longrightarrow> wfb (carryOut c e)"
  by (simp add: carryOut_def Let_def)

lemma carryOut_rem: "e_rem (carryOut c e) = (if c = 255 then e_rem e else c mod 256)"
  by (simp add: carryOut_def Let_def ecSymMax_def and_255)

text \<open>Away from 255 the pending bytes are written, with the carry added to the first and rippling through the others.\<close>

lemma carryOut_written:
  assumes "wfb e" and "e_err (carryOut c e) = 0" and "c \<noteq> 255"
  shows "e_err e = 0 \<and> e_ext (carryOut c e) = 0 \<and> tail_bytes (carryOut c e) = tail_bytes e \<and>
    front_bytes (carryOut c e) = front_bytes e @ (if 0 \<le> e_rem e then [word_of_int (e_rem e + c div 256)] else []) @
      replicate (unat (e_ext e)) (word_of_int ((255 + c div 256) mod 256))"
proof -
  let ?e1 = "if 0 \<le> e_rem e then enc_writeByte (word_of_int (e_rem e + c div 256)) e else e"
  let ?sym = "word_of_int ((255 + c div 256) mod 256) :: u32"
  let ?e2 = "write_pending (unat (e_ext ?e1)) ?sym ?e1"
  have eq: "carryOut c e = ?e2\<lparr>e_rem := c mod 256\<rparr>"
    using assms(3) by (simp add: carryOut_def Let_def ecSymMax_def and_255 ecSymBits_def drop_bit_eq_div)
      (metis unsigned_0 word_gt_0 write_pending.simps(1))
  have w: "wfb ?e1" using assms(1) by simp
  have err: "e_err ?e2 = 0" using assms(2) by (simp only: eq) simp
  note p = write_pending_ok [OF w err]
  have x: "e_ext ?e1 = e_ext e" by simp
  have sym: "(ucast ?sym :: byte) = word_of_int ((255 + c div 256) mod 256)"
    by (rule byte_of_u32_int)
  show ?thesis
  proof (cases "0 \<le> e_rem e")
    case True
    then have "e_err (enc_writeByte (word_of_int (e_rem e + c div 256)) e) = 0" using p by simp
    from writeByte_ok [OF assms(1) this] p True show ?thesis
      using byte_of_u32_int [of "e_rem e + c div 256"] by (simp add: eq sym)
  next
    case False
    with p show ?thesis by (simp add: eq sym)
  qed
qed


lemma carryOut_seq:
  assumes "wfb e" and "e_err (carryOut c e) = 0" and "0 \<le> c" "c \<le> 511" and "- 1 \<le> e_rem e" "e_rem e \<le> 255"
    and "length (seq e) < 2 ^ 32 - 1" and "256 \<le> c \<longrightarrow> 0 \<le> e_rem e \<and> e_rem e < 255"
  shows "e_err e = 0" and "tail_bytes (carryOut c e) = tail_bytes e"
    and "num (seq (carryOut c e)) = 256 * num (seq e) + nat c" and "length (seq (carryOut c e)) = Suc (length (seq e))"
proof -
  have small: "unat (word_of_int x :: byte) = nat x" if "0 \<le> x" "x \<le> 255" for x
    using that by (simp add: unat_eq_nat_uint uint_word_of_int_eq take_bit_int_eq_self)
  have all: "e_err e = 0 \<and> tail_bytes (carryOut c e) = tail_bytes e \<and>
    num (seq (carryOut c e)) = 256 * num (seq e) + nat c \<and> length (seq (carryOut c e)) = Suc (length (seq e))"
  proof (cases "c = 255")
    case True
    then have eq: "carryOut c e = e\<lparr>e_ext := e_ext e + 1\<rparr>" by (simp add: carryOut_def ecSymMax_def)
    have "unat (e_ext e + 1) = Suc (unat (e_ext e))"
      using assms(7) by (simp add: seq_def unat_plus_if' split: if_splits)
    then have "seq (carryOut c e) = seq e @ [255]" by (simp add: eq seq_def replicate_append_same)
    then show ?thesis using assms(2) True eq by simp
  next
    case False
    note w = carryOut_written [OF assms(1,2) False]
    show ?thesis
    proof (cases "256 \<le> c")
      case True
      then have c: "c div 256 = 1" using assms(4) by (subst div_pos_geq, simp_all)
      then have "c mod 256 = c - 256" using minus_mult_div_eq_mod [of c 256] by simp
      with c have sq: "seq (carryOut c e) = front_bytes e @ [word_of_int (e_rem e + 1)] @ replicate (unat (e_ext e)) 0 @ [word_of_int (c - 256)]"
        using w assms(8) True False by (simp add: seq_def carryOut_rem)
      have "num (seq e) + 1 = (num (front_bytes e) * 256 + nat (e_rem e) + 1) * 256 ^ unat (e_ext e)"
      proof -
        have "(256 :: nat) ^ unat (e_ext e) - 1 + 1 = 256 ^ unat (e_ext e)" by simp
        then have "num (seq e) + 1 = (num (front_bytes e) * 256 + nat (e_rem e)) * 256 ^ unat (e_ext e) + 256 ^ unat (e_ext e)"
          using assms(5,6,8) True small [of "e_rem e"] by (simp add: seq_def algebra_simps)
        then show ?thesis by (simp add: algebra_simps)
      qed
      moreover have "unat (word_of_int (e_rem e + 1) :: byte) = nat (e_rem e) + 1" "unat (word_of_int (c - 256) :: byte) = nat c - 256"
        using assms(4,8) True small [of "e_rem e + 1"] small [of "c - 256"] by (simp_all add: nat_add_distrib nat_diff_distrib)
      ultimately have "num (seq (carryOut c e)) = (num (seq e) + 1) * 256 + (nat c - 256)"
        unfolding sq by (simp add: algebra_simps)
      moreover have "(x + 1) * 256 + (y - 256) = 256 * x + y" if "256 \<le> y" for x y :: nat using that by simp
      ultimately have "num (seq (carryOut c e)) = 256 * num (seq e) + nat c" using True by (metis nat_mono nat_numeral)
      moreover have "length (seq (carryOut c e)) = Suc (length (seq e))" using assms(8) True by (simp only: sq) (simp add: seq_def)
      ultimately show ?thesis using w by simp
    next
      case nc: False
      then have "c div 256 = 0" "c mod 256 = c" using assms(3) by auto
      then have "seq (carryOut c e) = seq e @ [word_of_int c]"
        using w assms(3) nc False by (simp add: seq_def carryOut_rem)
      then show ?thesis using w nc assms(3) small [of c] by simp
    qed
  qed
  then show "e_err e = 0" and "tail_bytes (carryOut c e) = tail_bytes e"
    and "num (seq (carryOut c e)) = 256 * num (seq e) + nat c" and "length (seq (carryOut c e)) = Suc (length (seq e))" by simp_all
qed


lemma carryOut_err: "wfb e \<Longrightarrow> e_err (carryOut c e) = 0 \<Longrightarrow> e_err e = 0"
  using carryOut_written [of e c] by (cases "c = 255") (auto simp: carryOut_def ecSymMax_def)

text \<open>
  The invariant of the front: with the value register \<open>v\<close> and a range \<open>r\<close> the bytes stand for \<open>A\<close>, the range stays
  below the top, and a carry can never reach a byte that has been written: a pending byte 255 that came from a carry cannot
  receive another, and the very first bytes never receive one.
\<close>

definition fi :: "RangeEncoder \<Rightarrow> nat \<Rightarrow> nat \<Rightarrow> nat \<Rightarrow> nat \<Rightarrow> bool" where
  "fi e v r A N \<longleftrightarrow> wfb e \<and> - 1 \<le> e_rem e \<and> e_rem e \<le> 255 \<and> (e_rem e = - 1 \<longrightarrow> front_bytes e = []) \<and>
     0 < r \<and> v + r < 2 ^ 32 \<and> (e_rem e = 255 \<longrightarrow> v + r \<le> 2 ^ 31) \<and> A + r \<le> 2 ^ 31 * 256 ^ N \<and>
     (e_err e = 0 \<longrightarrow> num (seq e) * 2 ^ 31 + v = A \<and> length (seq e) = N)"

lemma fi_no_carry:
  assumes "fi e v r A N" "e_err e = 0" "2 ^ 31 \<le> v"
  shows "0 \<le> e_rem e \<and> e_rem e < 255"
proof -
  have "e_rem e \<noteq> - 1"
  proof
    assume "e_rem e = - 1"
    then have "num (seq e) = 256 ^ N - 1"
      using assms(1,2) by (auto simp: fi_def seq_def)
    then have A: "A = (256 ^ N - 1) * 2 ^ 31 + v" using assms(1,2) by (simp add: fi_def)
    have "(256 ^ N - 1) * 2 ^ 31 + 2 ^ 31 = 256 ^ N * (2 :: nat) ^ 31" by (simp add: diff_mult_distrib)
    then have "256 ^ N * (2 :: nat) ^ 31 \<le> A" using A assms(3) by linarith
    then show False using assms(1) by (simp add: fi_def mult.commute)
  qed
  moreover have "e_rem e \<noteq> 255" using assms by (auto simp: fi_def)
  ultimately show ?thesis using assms(1) by (auto simp: fi_def)
qed

lemma fi_carryOut:
  assumes "fi e (q * 2 ^ 23 + m) r A N" "m < 2 ^ 23" "r \<le> 2 ^ 23" "N < 2 ^ 32 - 1"
  shows "fi (carryOut (int q) e) (m * 256) (r * 256) (A * 256) (Suc N)"
    and "e_err (carryOut (int q) e) = 0 \<Longrightarrow> e_err e = 0 \<and> tail_bytes (carryOut (int q) e) = tail_bytes e"
proof -
  let ?e = "carryOut (int q) e"
  have wf: "wfb e" and vr: "q * 2 ^ 23 + m + r < 2 ^ 32" "0 < r" using assms(1) by (simp_all add: fi_def)
  then have q: "q \<le> 511" by simp
  have err: "e_err ?e = 0 \<Longrightarrow> e_err e = 0" by (rule carryOut_err [OF wf])
  have step: "tail_bytes ?e = tail_bytes e" "num (seq ?e) = 256 * num (seq e) + q" "length (seq ?e) = Suc N"
    if z: "e_err ?e = 0"
  proof -
    have "256 \<le> int q \<longrightarrow> 0 \<le> e_rem e \<and> e_rem e < 255"
      using fi_no_carry [OF assms(1) err [OF z]] by auto
    moreover have "length (seq e) = N" "- 1 \<le> e_rem e" "e_rem e \<le> 255" using assms(1) err [OF z] by (simp_all add: fi_def)
    ultimately show "tail_bytes ?e = tail_bytes e" "num (seq ?e) = 256 * num (seq e) + q" "length (seq ?e) = Suc N"
      using carryOut_seq [OF wf z] q assms(4) by simp_all
  qed
  show "e_err ?e = 0 \<Longrightarrow> e_err e = 0 \<and> tail_bytes ?e = tail_bytes e" using err step by blast
  have "m * 256 + r * 256 \<le> 2 ^ 31" if "e_rem ?e = 255"
  proof (cases "q = 255")
    case True
    then show ?thesis using that assms(1) by (simp add: carryOut_rem fi_def)
  next
    case False
    moreover have "int q mod 256 = 255" using that False by (simp add: carryOut_rem)
    ultimately have "q = 511" using q by presburger
    with vr show ?thesis by simp
  qed
  moreover have "front_bytes ?e = []" if "e_rem ?e = - 1"
  proof -
    have "q = 255"
    proof (rule ccontr)
      assume "q \<noteq> 255"
      then have "int q mod 256 = - 1" using that by (simp add: carryOut_rem)
      then show False by presburger
    qed
    with that assms(1) show ?thesis by (simp add: fi_def carryOut_def ecSymMax_def)
  qed
  moreover have "A * 256 + r * 256 \<le> 2 ^ 31 * 256 ^ Suc N"
    using assms(1) mult_right_mono [of "A + r" "2 ^ 31 * 256 ^ N" 256] by (simp add: fi_def algebra_simps)
  moreover have "num (seq ?e) * 2 ^ 31 + m * 256 = A * 256" if "e_err ?e = 0"
    using assms(1) err [OF that] step(2) [OF that] by (simp add: fi_def algebra_simps)
  moreover have "- 1 \<le> e_rem ?e \<and> e_rem ?e \<le> 255"
    using assms(1) pos_mod_sign [of 256 "int q"] pos_mod_bound [of 256 "int q"] by (auto simp: carryOut_rem fi_def)
  moreover have "m * 256 + r * 256 < 2 ^ 32" using assms(2,3) by simp
  ultimately show "fi ?e (m * 256) (r * 256) (A * 256) (Suc N)"
    using wf vr(2) step(3) by (simp add: fi_def)
qed


lemma fi_narrow:
  assumes "fi e v R A N" "d + r \<le> R" "0 < r"
  shows "fi e (v + d) r (A + d) N"
  using assms by (auto simp: fi_def)

section \<open>Normalisation\<close>

lemma code_consts [simp]:
  "ecCodeBot = 8388608" "ecCodeTop - 1 = 2147483647" "ecCodeTop = 2147483648" "ecCodeShift = 23" "ecCodeExtra = 7"
  "ecSymBits = 8" "ecCodeBits = 32" "ecWindowSize = 32" "ecUintBits = 8" "ecSymMax = 255"
  by (simp_all add: ecCodeBot_def ecCodeTop_def ecCodeShift_def ecCodeExtra_def ecSymBits_def ecCodeBits_def ecWindowSize_def
      ecUintBits_def ecSymMax_def drop_bit_eq_div push_bit_eq_mult)

lemma unat_shift31: "unat (push_bit 8 w AND 2147483647 :: u32) = unat w mod 2 ^ 23 * 256"
proof -
  have "push_bit 8 w AND 2147483647 = take_bit 31 (push_bit 8 w)"
    by (simp add: take_bit_eq_mask mask_eq_exp_minus_1)
  then have "unat (push_bit 8 w AND 2147483647) = take_bit 31 (push_bit 8 (unat w))"
    by (simp add: unsigned_take_bit_eq unsigned_push_bit_eq min_def)
  also have "\<dots> = push_bit 8 (take_bit 23 (unat w))" by (simp add: take_bit_push_bit)
  finally show ?thesis by (simp add: push_bit_eq_mult take_bit_eq_mod)
qed

lemma unat_shift8: "unat w \<le> 2 ^ 23 \<Longrightarrow> unat (push_bit 8 w :: u32) = unat w * 256"
  by (simp only: unsigned_push_bit_eq push_bit_nat_def) (simp add: take_bit_nat_eq_self)

lemma unat_drop: "unat (drop_bit n (w :: u32)) = unat w div 2 ^ n"
  by (simp add: unat_drop_bit_eq drop_bit_nat_def)

text \<open>The number of bytes that normalisation shifts out of a range.\<close>

definition nsh :: "nat \<Rightarrow> nat" where
  "nsh r = (if 2 ^ 23 < r then 0 else if 2 ^ 15 < r then 1 else if 2 ^ 7 < r then 2 else 3)"

lemma nsh_simps:
  "2 ^ 23 < r \<Longrightarrow> nsh r = 0"
  "0 < r \<Longrightarrow> r \<le> 2 ^ 23 \<Longrightarrow> nsh r = Suc (nsh (r * 256))"
  by (auto simp: nsh_def)

lemma nsh_le: "nsh r \<le> 3" and nsh_big: "0 < r \<Longrightarrow> 2 ^ 23 < r * 256 ^ nsh r"
  by (auto simp: nsh_def)

lemma enc_shift_fi:
  assumes "fi e (unat (e_val e)) (unat (e_rng e)) A N" "unat (e_rng e) \<le> 2 ^ 23" "N < 2 ^ 32 - 1"
  shows "fi (enc_shift e) (unat (e_val (enc_shift e))) (unat (e_rng (enc_shift e))) (A * 256) (Suc N) \<and>
    unat (e_rng (enc_shift e)) = unat (e_rng e) * 256 \<and>
    (e_err (enc_shift e) = 0 \<longrightarrow> e_err e = 0 \<and> tail_bytes (enc_shift e) = tail_bytes e) \<and>
    e_endOffs (enc_shift e) = e_endOffs e \<and> e_endWindow (enc_shift e) = e_endWindow e \<and> e_nendBits (enc_shift e) = e_nendBits e"
proof -
  let ?v = "unat (e_val e)" let ?q = "?v div 2 ^ 23" and ?m = "?v mod 2 ^ 23"
  have c: "uint (drop_bit 23 (e_val e)) = int ?q"
    by (simp only: uint_nat unat_drop)
  have "fi e (?q * 2 ^ 23 + ?m) (unat (e_rng e)) A N" using assms(1) by simp
  from fi_carryOut [OF this _ assms(2,3)]
  have "fi (carryOut (int ?q) e) (?m * 256) (unat (e_rng e) * 256) (A * 256) (Suc N)"
    and "e_err (carryOut (int ?q) e) = 0 \<Longrightarrow> e_err e = 0 \<and> tail_bytes (carryOut (int ?q) e) = tail_bytes e" by simp_all
  then show ?thesis
    using unat_shift31 [of "e_val e"] unat_shift8 [OF assms(2)] by (simp add: enc_shift_def Let_def c fi_def)
qed

lemma enc_normalize_fi:
  assumes "fi e (unat (e_val e)) (unat (e_rng e)) A N" "N + nsh (unat (e_rng e)) < 2 ^ 32"
  shows "\<exists>e'. enc_normalize e = Some e' \<and>
    fi e' (unat (e_val e')) (unat (e_rng e')) (A * 256 ^ nsh (unat (e_rng e))) (N + nsh (unat (e_rng e))) \<and>
    unat (e_rng e') = unat (e_rng e) * 256 ^ nsh (unat (e_rng e)) \<and>
    (e_err e' = 0 \<longrightarrow> e_err e = 0 \<and> tail_bytes e' = tail_bytes e) \<and>
    e_endOffs e' = e_endOffs e \<and> e_endWindow e' = e_endWindow e \<and> e_nendBits e' = e_nendBits e"
  using assms
proof (induction "nsh (unat (e_rng e))" arbitrary: e A N)
  case 0
  have "0 < unat (e_rng e)" using 0 by (simp add: fi_def)
  with 0(1) have big: "2 ^ 23 < unat (e_rng e)" using nsh_simps(2) [of "unat (e_rng e)"] by (cases "unat (e_rng e) \<le> 2 ^ 23") auto
  then have "enc_normalize e = Some e" by (subst enc_normalize.simps) (simp add: word_le_nat_alt)
  with 0 show ?case by (simp flip: 0(1))
next
  case (Suc k)
  let ?r = "unat (e_rng e)"
  have r: "0 < ?r" using Suc.prems by (simp add: fi_def)
  have small: "?r \<le> 2 ^ 23" using Suc.hyps(2) nsh_simps(1) [of ?r] by (cases "2 ^ 23 < ?r") auto
  have N: "N < 2 ^ 32 - 1" using Suc.prems(2) Suc.hyps(2) by simp
  note sh = enc_shift_fi [OF Suc.prems(1) small N]
  have k: "nsh (unat (e_rng (enc_shift e))) = k" using sh nsh_simps(2) [OF r small] Suc.hyps(2) by simp
  have eq: "enc_normalize e = enc_normalize (enc_shift e)"
    using small by (subst enc_normalize.simps) (simp add: word_le_nat_alt)
  have "\<exists>e'. enc_normalize (enc_shift e) = Some e' \<and>
    fi e' (unat (e_val e')) (unat (e_rng e')) (A * 256 * 256 ^ k) (Suc N + k) \<and>
    unat (e_rng e') = unat (e_rng (enc_shift e)) * 256 ^ k \<and>
    (e_err e' = 0 \<longrightarrow> e_err (enc_shift e) = 0 \<and> tail_bytes e' = tail_bytes (enc_shift e)) \<and>
    e_endOffs e' = e_endOffs (enc_shift e) \<and> e_endWindow e' = e_endWindow (enc_shift e) \<and> e_nendBits e' = e_nendBits (enc_shift e)"
  proof -
    have "Suc N + nsh (unat (e_rng (enc_shift e))) < 2 ^ 32" using Suc.prems(2) k by (simp flip: Suc.hyps(2))
    from Suc.hyps(1) [OF k [symmetric] conjunct1 [OF sh] this] show ?thesis unfolding k .
  qed
  then show ?case using sh by (auto simp: eq mult.assoc simp flip: Suc.hyps(2))
qed


section \<open>The state of a code\<close>

text \<open>
  The abstract state of encoder and decoder: the low end of the interval and its width at a precision of \<open>31 + 8 N\<close> bits,
  and the raw bits so far as a number of \<open>T\<close> bits. A symbol narrows the interval; raw bits are put above the others.
\<close>

record rc_state =
  st_low :: nat
  st_rng :: nat
  st_bytes :: nat
  st_raw :: nat
  st_bits :: nat

definition rc_start :: rc_state where
  "rc_start = \<lparr>st_low = 0, st_rng = 2 ^ 31, st_bytes = 0, st_raw = 0, st_bits = 0\<rparr>"

definition narrow :: "nat \<Rightarrow> nat \<Rightarrow> rc_state \<Rightarrow> rc_state" where
  "narrow d r s = s\<lparr>st_low := (st_low s + d) * 256 ^ nsh r, st_rng := r * 256 ^ nsh r, st_bytes := st_bytes s + nsh r\<rparr>"

definition add_bits :: "nat \<Rightarrow> nat \<Rightarrow> rc_state \<Rightarrow> rc_state" where
  "add_bits v n s = s\<lparr>st_raw := st_raw s + v * 2 ^ st_bits s, st_bits := st_bits s + n\<rparr>"

definition raw_inv :: "RangeEncoder \<Rightarrow> rc_state \<Rightarrow> bool" where
  "raw_inv e s \<longleftrightarrow> unat (e_nendBits e) \<le> 32 \<and> unat (e_endWindow e) < 2 ^ unat (e_nendBits e) \<and>
     (e_err e = 0 \<longrightarrow> num (tail_bytes e) + unat (e_endWindow e) * 256 ^ unat (e_endOffs e) = st_raw s \<and>
        8 * unat (e_endOffs e) + unat (e_nendBits e) = st_bits s)"

definition enc_inv :: "RangeEncoder \<Rightarrow> rc_state \<Rightarrow> bool" where
  "enc_inv e s \<longleftrightarrow> fi e (unat (e_val e)) (unat (e_rng e)) (st_low s) (st_bytes s) \<and> unat (e_rng e) = st_rng s \<and>
     2 ^ 23 < st_rng s \<and> raw_inv e s"

lemma enc_inv_start:
  assumes "n < 2 ^ 32"
  shows "enc_inv (NewRangeEncoder n) rc_start"
  using assms
  by (simp add: enc_inv_def fi_def raw_inv_def wfb_def NewRangeEncoder_def rc_start_def front_bytes_def tail_bytes_def seq_def
      unat_of_nat)

text \<open>Every symbol of the range code is a narrowing of the interval followed by normalisation.\<close>

lemma enc_inv_narrow:
  assumes "enc_inv e s" "unat x = unat (e_val e) + d" "unat y = r" "0 < r" "d + r \<le> st_rng s" "st_bytes s + 3 < 2 ^ 32"
  shows "\<exists>e'. enc_normalize (e\<lparr>e_val := x, e_rng := y\<rparr>) = Some e' \<and> enc_inv e' (narrow d r s)"
proof -
  let ?e = "e\<lparr>e_val := x, e_rng := y\<rparr>"
  have "fi e (unat (e_val e)) (st_rng s) (st_low s) (st_bytes s)" using assms(1) unfolding enc_inv_def by metis
  from fi_narrow [OF this assms(5,4)] have "fi ?e (unat (e_val ?e)) (unat (e_rng ?e)) (st_low s + d) (st_bytes s)"
    using assms(2,3) by (simp add: fi_def)
  moreover have "st_bytes s + nsh (unat (e_rng ?e)) < 2 ^ 32" using assms(6) nsh_le [of "unat (e_rng ?e)"] by linarith
  ultimately obtain e' where "enc_normalize ?e = Some e'"
    "fi e' (unat (e_val e')) (unat (e_rng e')) ((st_low s + d) * 256 ^ nsh r) (st_bytes s + nsh r)" "unat (e_rng e') = r * 256 ^ nsh r"
    "e_err e' = 0 \<longrightarrow> e_err ?e = 0 \<and> tail_bytes e' = tail_bytes ?e"
    "e_endOffs e' = e_endOffs e" "e_endWindow e' = e_endWindow e" "e_nendBits e' = e_nendBits e"
    using enc_normalize_fi [of ?e "st_low s + d" "st_bytes s"] assms(3) by auto
  then show ?thesis using assms(1) nsh_big [OF assms(4)] by (auto simp: enc_inv_def narrow_def raw_inv_def)
qed


section \<open>Raw bits\<close>

definition raw_at :: "RangeEncoder \<Rightarrow> u32 \<Rightarrow> i32 \<Rightarrow> rc_state \<Rightarrow> bool" where
  "raw_at e w u s \<longleftrightarrow> unat u \<le> 32 \<and> unat w < 2 ^ unat u \<and>
     (e_err e = 0 \<longrightarrow> num (tail_bytes e) + unat w * 256 ^ unat (e_endOffs e) = st_raw s \<and>
        8 * unat (e_endOffs e) + unat u = st_bits s)"

lemma raw_inv_at: "raw_inv e s \<longleftrightarrow> raw_at e (e_endWindow e) (e_nendBits e) s"
  by (simp add: raw_inv_def raw_at_def)

lemma writeByteAtEnd_keeps:
  assumes "fi e v r A N"
  shows "fi (writeByteAtEnd b e) v r A N"
proof -
  have wf: "wfb e" using assms by (simp add: fi_def)
  have "seq (writeByteAtEnd b e) = seq e" using writeByteAtEnd_front [OF wf] by (simp add: seq_def)
  with assms writeByteAtEnd_ok [OF wf, of b] writeByteAtEnd_front [OF wf] show ?thesis
    unfolding fi_def by auto
qed

lemma unat_and_255: "unat (w AND 255 :: u32) = unat w mod 256"
proof -
  have "w AND 255 = take_bit 8 w" by (simp add: take_bit_eq_mask mask_eq_exp_minus_1)
  then have "unat (w AND 255) = take_bit 8 (unat w)" by (simp only: unsigned_take_bit_eq)
  then show ?thesis by (simp add: take_bit_eq_mod)
qed

lemma raw_at_write:
  assumes "wfb e" "raw_at e w u s" "8 \<le> unat u"
  shows "raw_at (writeByteAtEnd (w AND 255) e) (drop_bit 8 w) (u - 8) s"
proof -
  let ?e = "writeByteAtEnd (w AND 255) e"
  have u: "unat (u - 8) = unat u - 8" using assms(3) by (simp add: unat_sub word_le_nat_alt)
  have "(2 :: nat) ^ unat u = 2 ^ (unat u - 8 + 8)" using assms(3) by simp
  then have "unat w < 2 ^ (unat u - 8) * 256" using assms(2) by (simp add: raw_at_def power_add)
  then have "unat w div 256 < 2 ^ (unat u - 8)" by (simp add: less_mult_imp_div_less)
  moreover have "num (tail_bytes ?e) + unat w div 256 * 256 ^ unat (e_endOffs ?e) = st_raw s \<and>
    8 * unat (e_endOffs ?e) + (unat u - 8) = st_bits s" if z: "e_err ?e = 0"
  proof -
    note ok = writeByteAtEnd_ok [OF assms(1) z]
    have b: "unat (ucast (w AND 255) :: byte) = unat w mod 256"
      by (simp add: unsigned_ucast_eq unat_and_255 take_bit_eq_mod)
    have "unat w mod 256 * 256 ^ k + unat w div 256 * 256 ^ Suc k = unat w * 256 ^ k" for k
      by (metis (no_types, opaque_lifting) add.commute distrib_right div_mult_mod_eq mult.assoc power_Suc)
    from this [of "unat (e_endOffs e)"] show ?thesis using ok b assms by (simp add: raw_at_def)
  qed
  moreover have "unat u - 8 \<le> 32" using assms(2) by (auto simp: raw_at_def)
  ultimately show ?thesis using u by (simp add: raw_at_def unat_drop)
qed

lemma enc_drain_raw:
  assumes "fi e v r A N" "raw_at e w u s" "8 \<le> unat u" "enc_drain w u e = ((w', u'), e')"
  shows "fi e' v r A N \<and> raw_at e' w' u' s \<and> unat u' < 8 \<and> e_val e' = e_val e \<and> e_rng e' = e_rng e"
  using assms
proof (induction w u e rule: enc_drain.induct)
  case (1 w u e)
  let ?e = "writeByteAtEnd (w AND 255) e"
  have u: "unat (u - 8) = unat u - 8" using 1(4) by (simp add: unat_sub word_le_nat_alt)
  have "unat (u - 8) < 2 ^ 31" using u 1(3) by (auto simp: raw_at_def)
  then have "sint (u - 8) = int (unat u - 8)" using sint_unat(2) [of "u - 8"] by (simp only: u)
  then have si: "sint (u - 8) < 8 \<longleftrightarrow> unat u - 8 < 8" by linarith
  have f: "fi ?e v r A N" by (rule writeByteAtEnd_keeps [OF 1(2)])
  have ra: "raw_at ?e (drop_bit 8 w) (u - 8) s" by (rule raw_at_write) (use 1 in \<open>simp_all add: fi_def\<close>)
  show ?case
  proof (cases "unat u - 8 < 8")
    case True
    then have "enc_drain w u e = ((drop_bit 8 w, u - 8), ?e)" using si by (subst enc_drain.simps) (simp add: Let_def)
    with 1(5) f ra u True show ?thesis by auto
  next
    case False
    then have eq: "enc_drain w u e = enc_drain (drop_bit 8 w) (u - 8) ?e" using si by (subst enc_drain.simps) (simp add: Let_def)
    from 1(1) [of ?e "drop_bit 8 w" "u - 8"] f ra u False 1(5) eq si show ?thesis by simp
  qed
qed

lemma nat_or_shifted:
  fixes a b u :: nat
  assumes "a < 2 ^ u"
  shows "a OR b * 2 ^ u = a + b * 2 ^ u"
proof -
  have "a + push_bit u b = a OR push_bit u b"
  proof (rule disjunctive_add)
    fix n
    have "take_bit u a = a" using assms by (simp add: take_bit_nat_eq_self_iff)
    then have "bit a n \<Longrightarrow> n < u" by (metis bit_take_bit_iff)
    then show "\<not> bit a n \<or> \<not> bit (push_bit u b) n" by (auto simp: bit_push_bit_iff)
  qed
  then show ?thesis by (simp add: push_bit_eq_mult)
qed

lemma unat_or_shift:
  assumes "unat w < 2 ^ u" "unat b < 2 ^ n" "u + n \<le> 32"
  shows "unat (w OR push_bit u b :: u32) = unat w + unat b * 2 ^ u \<and> unat w + unat b * 2 ^ u < 2 ^ (u + n)"
proof -
  have "Suc (unat b) * 2 ^ u \<le> 2 ^ n * 2 ^ u" using assms(2) by (intro mult_right_mono) simp_all
  then have lt: "unat w + unat b * 2 ^ u < 2 ^ (u + n)" using assms(1) by (simp add: power_add mult.commute)
  moreover have "(2 :: nat) ^ (u + n) \<le> 2 ^ 32" using assms(3) by (intro power_increasing) simp_all
  ultimately have "unat b * 2 ^ u < 2 ^ 32" by linarith
  then have "unat (push_bit u b) = unat b * 2 ^ u"
    by (simp only: unsigned_push_bit_eq push_bit_nat_def) (simp add: take_bit_nat_eq_self)
  then show ?thesis using nat_or_shifted [OF assms(1), of "unat b"] lt by (simp add: unsigned_or_eq)
qed

lemma enc_BitsN_inv:
  assumes "enc_inv e s" "unat n \<le> 25" "unat fl < 2 ^ unat n"
  shows "enc_inv (enc_BitsN fl n e) (add_bits (unat fl) (unat n) s)"
proof -
  let ?p = "if 32 < sint (e_nendBits e + n) then enc_drain (e_endWindow e) (e_nendBits e) e else ((e_endWindow e, e_nendBits e), e)"
  obtain w u e' where p: "?p = ((w, u), e')" by (metis prod.exhaust)
  have fi: "fi e (unat (e_val e)) (unat (e_rng e)) (st_low s) (st_bytes s)" and ra: "raw_at e (e_endWindow e) (e_nendBits e) s"
    using assms(1) unfolding enc_inv_def raw_inv_at by blast+
  have un: "unat (e_nendBits e + n) = unat (e_nendBits e) + unat n"
    using ra assms(2) by (simp add: raw_at_def unat_plus_if')
  have "unat (e_nendBits e + n) < 2 ^ 31" using un ra assms(2) by (simp add: raw_at_def)
  then have "sint (e_nendBits e + n) = int (unat (e_nendBits e) + unat n)"
    using sint_unat(2) [of "e_nendBits e + n"] by (simp only: un)
  then have si: "32 < sint (e_nendBits e + n) \<longleftrightarrow> 32 < unat (e_nendBits e) + unat n" by linarith
  have e': "fi e' (unat (e_val e)) (unat (e_rng e)) (st_low s) (st_bytes s)" "raw_at e' w u s" "unat u + unat n \<le> 32"
    "e_val e' = e_val e" "e_rng e' = e_rng e"
  proof -
    have "fi e' (unat (e_val e)) (unat (e_rng e)) (st_low s) (st_bytes s) \<and> raw_at e' w u s \<and> unat u + unat n \<le> 32 \<and>
      e_val e' = e_val e \<and> e_rng e' = e_rng e"
    proof (cases "32 < unat (e_nendBits e) + unat n")
      case True
      then have "enc_drain (e_endWindow e) (e_nendBits e) e = ((w, u), e')" using p si by simp
      from enc_drain_raw [OF fi ra _ this] True assms(2) show ?thesis by simp
    next
      case False
      then show ?thesis using p si fi ra by auto
    qed
    then show "fi e' (unat (e_val e)) (unat (e_rng e)) (st_low s) (st_bytes s)" "raw_at e' w u s" "unat u + unat n \<le> 32"
      "e_val e' = e_val e" "e_rng e' = e_rng e" by simp_all
  qed
  have w: "unat (w OR push_bit (unat u) fl) = unat w + unat fl * 2 ^ unat u" "unat w + unat fl * 2 ^ unat u < 2 ^ (unat u + unat n)"
    using unat_or_shift [of w "unat u" fl "unat n"] e'(2,3) assms(3) by (simp_all add: raw_at_def)
  have "unat (u + n) = unat u + unat n" using e'(3) by (simp add: unat_plus_if')
  moreover have "num (tail_bytes e') + (unat w + unat fl * 2 ^ unat u) * 256 ^ unat (e_endOffs e') = st_raw s + unat fl * 2 ^ st_bits s \<and>
      8 * unat (e_endOffs e') + (unat u + unat n) = st_bits s + unat n" if "e_err e' = 0"
  proof -
    have r: "num (tail_bytes e') + unat w * 256 ^ unat (e_endOffs e') = st_raw s" "8 * unat (e_endOffs e') + unat u = st_bits s"
      using e'(2) that by (simp_all add: raw_at_def)
    have "(256 :: nat) ^ unat (e_endOffs e') = 2 ^ (8 * unat (e_endOffs e'))" by (simp add: power_mult)
    then have "(2 :: nat) ^ unat u * 256 ^ unat (e_endOffs e') = 2 ^ st_bits s" by (simp add: r(2) [symmetric] power_add)
    then show ?thesis using r by (simp add: distrib_right mult.assoc)
  qed
  ultimately have "raw_at e' (w OR push_bit (unat u) fl) (u + n) (add_bits (unat fl) (unat n) s)"
    using w e'(3) by (simp add: raw_at_def add_bits_def)
  then show ?thesis using assms(1) p e'
    by (auto simp: enc_BitsN_def enc_inv_def raw_inv_at raw_at_def add_bits_def fi_def)
qed

end
