(* ===== verification/RangeDone.thy ===== *)
theory RangeDone
  imports RangeEncode
begin

text \<open>
  The flush of the range encoder: which value it picks in the last interval, that its bytes are written out, and that the
  finished buffer, read from the front, lies in the interval whatever follows, and, read from the back, holds the raw bits.
\<close>

section \<open>The value that is flushed\<close>

lemma bit_len_bounds: "0 < n \<Longrightarrow> 2 ^ (bit_len n - 1) \<le> n \<and> n < 2 ^ bit_len n \<and> 0 < bit_len n"
proof (induction n rule: bit_len.induct)
  case (1 n)
  show ?case
  proof (cases "n div 2 = 0")
    case True
    then have "n = 1" using 1(2) by simp
    then show ?thesis by (simp add: bit_len.simps)
  next
    case False
    then have ih: "2 ^ (bit_len (n div 2) - 1) \<le> n div 2" "n div 2 < 2 ^ bit_len (n div 2)" "0 < bit_len (n div 2)"
      using 1 by auto
    obtain k where k: "bit_len (n div 2) = Suc k" using ih(3) by (cases "bit_len (n div 2)") auto
    have "bit_len n = Suc (Suc k)" using 1(2) k by (subst bit_len.simps) simp
    moreover have "n = 2 * (n div 2) + n mod 2" "n mod 2 < 2" by simp_all
    ultimately show ?thesis using ih k by simp linarith
  qed
qed

lemma unat_and_not_mask: "unat (a AND NOT (mask k) :: u32) = unat a - unat a mod 2 ^ k"
proof -
  have "(a AND NOT (mask k)) + take_bit k a = (a AND NOT (mask k)) OR take_bit k a"
    by (rule disjunctive_add) (auto simp: bit_simps)
  also have "\<dots> = a" by (rule bit_eqI) (auto simp: bit_simps)
  finally have "a AND NOT (mask k) = a - take_bit k a" by (simp add: algebra_simps)
  moreover have "unat (take_bit k a) = unat a mod 2 ^ k" by (simp only: unsigned_take_bit_eq) (simp add: take_bit_eq_mod)
  ultimately show ?thesis by (simp add: unat_sub word_le_nat_alt)
qed

text \<open>Rounding a word up to a multiple of \<open>2 ^ k\<close>, and setting its low bits.\<close>

lemma round_up:
  assumes "unat v + 2 ^ k \<le> 2 ^ 32" "k \<le> 31"
  defines "endv \<equiv> (v + mask k) AND NOT (mask k :: u32)"
  shows "unat v \<le> unat endv" and "unat endv < unat v + 2 ^ k" and "2 ^ k dvd unat endv" and "unat (endv OR mask k) = unat endv + (2 ^ k - 1)"
proof -
  have m: "unat (mask k :: u32) = 2 ^ k - 1"
  proof -
    have "min 32 k = k" using assms(2) by simp
    then have "uint (mask k :: u32) = 2 ^ k - 1" using uint_mask_eq [of k, where ?'a = 32] by (simp add: mask_eq_exp_minus_1)
    then have "int (unat (mask k :: u32)) = int (2 ^ k - 1)" by (simp add: of_nat_diff)
    then show ?thesis by (simp only: of_nat_eq_iff)
  qed
  have "unat (v + mask k) = unat v + (2 ^ k - 1)" using assms(1) m by (simp add: unat_plus_if')
  then have e: "unat endv = unat v + (2 ^ k - 1) - (unat v + (2 ^ k - 1)) mod 2 ^ k"
    by (simp only: endv_def unat_and_not_mask)
  have pos: "0 < (2 :: nat) ^ k" by simp
  show "unat v \<le> unat endv" using e mod_less_divisor [OF pos, of "unat v + (2 ^ k - 1)"] by linarith
  show "unat endv < unat v + 2 ^ k" using e pos by linarith
  show d: "2 ^ k dvd unat endv" using dvd_minus_mod [of "2 ^ k" "unat v + (2 ^ k - 1)"] by (simp only: e)
  then obtain q where q: "unat endv = q * 2 ^ k" by (auto simp: dvd_def mult.commute)
  have "unat (endv OR mask k) = (2 ^ k - 1) OR q * 2 ^ k" by (simp add: unsigned_or_eq q m or.commute)
  then show "unat (endv OR mask k) = unat endv + (2 ^ k - 1)" using nat_or_shifted [of "2 ^ k - 1" k q] q by simp
qed

lemma drop_mask: "n \<le> 32 \<Longrightarrow> drop_bit m (mask n :: u32) = mask (n - m)"
  by (rule bit_eqI) (auto simp: bit_simps)

lemma drop_mask31: "drop_bit k (2147483647 :: u32) = mask (31 - k)"
proof -
  have "(2147483647 :: u32) = mask 31" by (simp add: mask_eq_exp_minus_1)
  then show ?thesis using drop_mask [of 31 k] by simp
qed

definition flush_value :: "RangeEncoder \<Rightarrow> int \<times> u32" where
  "flush_value e =
     (let l = 32 - ilog (e_rng e);
          msk = drop_bit (nat l) 2147483647;
          endv = (e_val e + msk) AND NOT msk
      in if e_val e + e_rng e \<le> (endv OR msk)
         then let l = l + 1; msk = drop_bit 1 msk in (l, (e_val e + msk) AND NOT msk)
         else (l, endv))"

lemma flush_value_spec:
  assumes "2 ^ 23 < unat (e_rng e)" "unat (e_val e) + unat (e_rng e) < 2 ^ 32" "flush_value e = (l, endv)"
  shows "\<exists>k. l = 31 - int k \<and> 22 \<le> k \<and> k \<le> 31 \<and> unat (e_val e) \<le> unat endv \<and>
    unat endv + 2 ^ k \<le> unat (e_val e) + unat (e_rng e) \<and> 2 ^ k dvd unat endv"
proof -
  let ?r = "unat (e_rng e)" and ?v = "unat (e_val e)" and ?b = "bit_len (unat (e_rng e))"
  have r: "2 ^ (?b - 1) \<le> ?r" "?r < 2 ^ ?b" "0 < ?b" using bit_len_bounds [of ?r] assms(1) by auto
  have "(2 :: nat) ^ 23 < 2 ^ ?b" using assms(1) r(2) by linarith
  then have b24: "24 \<le> ?b" using power_less_imp_less_exp [of "2 :: nat" 23 ?b] by simp
  have "(2 :: nat) ^ (?b - 1) < 2 ^ 32" using assms(2) r(1) by linarith
  then have b32: "?b \<le> 32" using power_less_imp_less_exp [of "2 :: nat" "?b - 1" 32] by simp
  define k where "k = ?b - 1"
  have k: "23 \<le> k" "k \<le> 31" "?b = Suc k" using b24 b32 by (auto simp: k_def)
  have l: "32 - ilog (e_rng e) = 31 - int k" using k(3) by (simp add: ilog_def)
  have nl: "nat (31 - int k) = 31 - k" using k(2) by simp
  have msk: "drop_bit (nat (31 - int k)) (2147483647 :: u32) = mask k" using k(2) by (simp add: nl drop_mask31)
  have kr: "2 ^ k \<le> ?r" using r(1) by (simp add: k_def)
  have pre: "?v + 2 ^ k \<le> 2 ^ 32" using kr assms(2) by linarith
  have vr: "unat (e_val e + e_rng e) = ?v + ?r" using assms(2) by (simp add: unat_plus_if')
  note up = round_up [OF pre k(2)]
  let ?endv = "(e_val e + mask k) AND NOT (mask k)"
  show ?thesis
  proof (cases "?v + ?r \<le> unat ?endv + (2 ^ k - 1)")
    case False
    then have "flush_value e = (31 - int k, ?endv)"
      by (simp add: flush_value_def Let_def l msk word_le_nat_alt vr up(4))
    with assms(3) up k False show ?thesis by (intro exI [of _ k]) auto
  next
    case True
    let ?endv' = "(e_val e + mask (k - 1)) AND NOT (mask (k - 1))"
    have dm: "drop_bit 1 (mask k :: u32) = mask (k - 1)" using k(2) by (intro drop_mask) simp
    from True have eq: "flush_value e = (32 - int k, ?endv')"
      by (simp add: flush_value_def Let_def l msk word_le_nat_alt vr up(4) dm [simplified])
    obtain j where j: "k = Suc j" using k(1) by (cases k) auto
    have "?v + 2 ^ j \<le> 2 ^ 32" "j \<le> 31" using pre k j by auto
    note up' = round_up [OF this]
    have "unat ((e_val e + mask j) AND NOT (mask j)) + 2 ^ j \<le> ?v + ?r" using up'(2) kr j by simp
    with assms(3) eq up' k j show ?thesis by (intro exI [of _ j]) auto
  qed
qed


section \<open>The bytes of the flush\<close>

text \<open>What the flush of the range leaves alone.\<close>

definition same_tail :: "RangeEncoder \<Rightarrow> RangeEncoder \<Rightarrow> bool" where
  "same_tail e e' \<longleftrightarrow> (e_err e' = 0 \<longrightarrow> e_err e = 0 \<and> tail_bytes e' = tail_bytes e) \<and>
     e_endOffs e' = e_endOffs e \<and> e_endWindow e' = e_endWindow e \<and> e_nendBits e' = e_nendBits e"

lemma same_tail_refl: "same_tail e e" and same_tail_trans: "same_tail e e' \<Longrightarrow> same_tail e' e'' \<Longrightarrow> same_tail e e''"
  by (auto simp: same_tail_def)

lemma same_tail_raw: "same_tail e e' \<Longrightarrow> raw_inv e s \<Longrightarrow> raw_inv e' s"
  by (auto simp: same_tail_def raw_inv_def)

lemma flush_byte:
  assumes "fi e (unat endv) r A N" "r \<le> 2 ^ 23" "N < 2 ^ 32 - 1" "0 < l"
  shows "\<exists>e'. done_range l endv e = done_range (l - 8) (push_bit 8 endv AND 2147483647) e' \<and>
    fi e' (unat (push_bit 8 endv AND 2147483647)) (r * 256) (A * 256) (Suc N) \<and> same_tail e e'"
proof -
  let ?q = "unat endv div 2 ^ 23" and ?m = "unat endv mod 2 ^ 23"
  have c: "uint (drop_bit 23 endv) = int ?q" by (simp only: uint_nat unat_drop)
  have "fi e (?q * 2 ^ 23 + ?m) r A N" using assms(1) by simp
  from fi_carryOut [OF this _ assms(2,3)]
  have "fi (carryOut (int ?q) e) (unat (push_bit 8 endv AND 2147483647)) (r * 256) (A * 256) (Suc N) \<and> same_tail e (carryOut (int ?q) e)"
    by (simp add: same_tail_def unat_shift31)
  moreover have "done_range l endv e = done_range (l - 8) (push_bit 8 endv AND 2147483647) (carryOut (int ?q) e)"
    using assms(4) by (subst done_range.simps) (simp add: c)
  ultimately show ?thesis by blast
qed

lemma done_range_stop: "l \<le> 0 \<Longrightarrow> done_range l endv e = e"
  by (subst done_range.simps) simp

lemma done_range_fi:
  assumes "fi e (unat endv) 1 A N" "l = 31 - int k" "22 \<le> k" "k \<le> 31" "2 ^ k dvd unat endv" "unat endv + 2 ^ k < 2 ^ 32" "N + 2 < 2 ^ 32"
  shows "\<exists>j \<le> 2. 31 \<le> 8 * j + k \<and> fi (done_range l endv e) 0 (256 ^ j) (A * 256 ^ j) (N + j) \<and> same_tail e (done_range l endv e)"
proof -
  let ?endv = "push_bit 8 endv AND 2147483647"
  obtain q where q: "unat endv = q * 2 ^ k" using assms(5) by (auto simp: dvd_def mult.commute)
  have N: "N < 2 ^ 32 - 1" "Suc N < 2 ^ 32 - 1" using assms(7) by auto
  consider "k = 31" | "23 \<le> k" "k \<le> 30" | "k = 22" using assms(3,4) by linarith
  then show ?thesis
  proof cases
    case 1
    have "q = 0" using assms(6) q 1 by (cases q) auto
    then have "unat endv = 0" using q by simp
    with assms(1,2) 1 show ?thesis by (intro exI [of _ 0]) (simp add: done_range_stop same_tail_refl)
  next
    case 2
    then have l: "0 < l" "l - 8 \<le> 0" using assms(2) by auto
    obtain e' where e': "done_range l endv e = done_range (l - 8) ?endv e'" "fi e' (unat ?endv) (1 * 256) (A * 256) (Suc N)" "same_tail e e'"
      using flush_byte [OF assms(1) _ N(1) l(1)] by auto
    have "(2 :: nat) ^ 23 dvd 2 ^ k" using 2 by (simp only: le_imp_power_dvd)
    then have "unat endv mod 2 ^ 23 = 0" using assms(5) by (metis dvd_trans dvd_imp_mod_0)
    then have "unat ?endv = 0" by (simp add: unat_shift31)
    with e' 2 l show ?thesis by (intro exI [of _ 1]) (simp add: done_range_stop)
  next
    case 3
    then have l: "0 < l" "0 < l - 8" "l - 8 - 8 \<le> 0" using assms(2) by auto
    let ?endv' = "push_bit 8 ?endv AND 2147483647"
    obtain e' where e': "done_range l endv e = done_range (l - 8) ?endv e'" "fi e' (unat ?endv) 256 (A * 256) (Suc N)" "same_tail e e'"
      using flush_byte [OF assms(1) _ N(1) l(1)] by auto
    obtain e'' where e'': "done_range (l - 8) ?endv e' = done_range (l - 8 - 8) ?endv' e''"
      "fi e'' (unat ?endv') (256 * 256) (A * 256 * 256) (Suc (Suc N))" "same_tail e' e''"
      using flush_byte [OF e'(2) _ N(2) l(2)] by auto
    have "unat endv mod 2 ^ 23 = q mod 2 * 2 ^ 22" using mod_mult_mult2 [of q "2 ^ 22" 2] by (simp add: q 3)
    then have "unat ?endv = q mod 2 * 128 * 2 ^ 23" by (simp add: unat_shift31)
    then have "unat ?endv' = 0" using unat_shift31 [of ?endv] by simp
    with e' e'' 3 l same_tail_trans [OF e'(3) e''(3)] show ?thesis
      by (intro exI [of _ 2]) (simp add: done_range_stop mult.assoc)
  qed
qed

text \<open>The pending bytes are written last.\<close>

definition flush_pending :: "RangeEncoder \<Rightarrow> RangeEncoder" where
  "flush_pending e = (if 0 \<le> e_rem e \<or> 0 < e_ext e then carryOut 0 e else e)"

lemma flush_pending_ok:
  assumes "wfb e"
  shows "wfb (flush_pending e) \<and> same_tail e (flush_pending e) \<and> (e_err (flush_pending e) = 0 \<longrightarrow> front_bytes (flush_pending e) = seq e)"
proof (cases "0 \<le> e_rem e \<or> 0 < e_ext e")
  case True
  have "(word_of_int 255 :: byte) = 255" by simp
  with True assms carryOut_written [OF assms, of 0] show ?thesis
    by (auto simp: flush_pending_def same_tail_def seq_def)
next
  case False
  with assms show ?thesis by (simp add: flush_pending_def same_tail_refl seq_def word_gt_0)
qed

text \<open>The whole bytes of the window.\<close>

lemma done_window_raw:
  assumes "wfb e" "raw_at e w u s" "done_window w u e = ((w', u'), e')"
  shows "wfb e' \<and> raw_at e' w' u' s \<and> unat u' < 8 \<and> (e_err e' = 0 \<longrightarrow> e_err e = 0) \<and> front_bytes e' = front_bytes e"
  using assms
proof (induction w u e rule: done_window.induct)
  case (1 w u e)
  have "unat u < 2 ^ 31" using 1(3) by (auto simp: raw_at_def)
  then have si: "8 \<le> sint u \<longleftrightarrow> 8 \<le> unat u" using sint_unat(2) [of u] by linarith
  show ?case
  proof (cases "8 \<le> unat u")
    case True
    let ?e = "writeByteAtEnd (w AND 255) e"
    have eq: "done_window w u e = done_window (drop_bit 8 w) (u - 8) ?e" using True si by (subst done_window.simps) simp
    have ra: "raw_at ?e (drop_bit 8 w) (u - 8) s" by (rule raw_at_write [OF 1(2,3) True])
    from 1(1) 1(2,4) True si eq ra writeByteAtEnd_front [OF 1(2)] writeByteAtEnd_ok [OF 1(2)] show ?thesis by fastforce
  next
    case False
    then have "done_window w u e = ((w, u), e)" using si by (subst done_window.simps) simp
    with 1 False show ?thesis by auto
  qed
qed


section \<open>The finished buffer\<close>

lemma done_merge_buf:
  assumes "wfb e" "raw_at e w u s" "unat u < 8" "e_err (done_merge w u e) = 0"
  shows "e_err e = 0 \<and> (\<exists>mid. e_buf (done_merge w u e) = front_bytes e @ mid @ tail_bytes e \<and> num mid = unat w \<and> (0 < unat u \<longrightarrow> mid \<noteq> []))"
proof -
  let ?a = "unat (e_offs e)" and ?b = "unat (e_storage e) - unat (e_endOffs e)"
  have err: "e_err e = 0" using assms(4) by (auto simp: done_merge_def split: if_splits)
  have le: "unat (e_endOffs e) \<le> unat (e_storage e)" "?a \<le> ?b" "unat (e_offs e) \<le> unat (e_storage e)"
    using assms(1) by (auto simp: wfb_def)
  have b: "unat (e_storage e - e_endOffs e) = ?b" and so: "unat (e_storage e - e_offs e) = unat (e_storage e) - ?a"
    using le by (simp_all add: unat_sub word_le_nat_alt)
  let ?buf = "front_bytes e @ replicate (?b - ?a) 0 @ tail_bytes e"
  have buf: "(if ?a < ?b then e\<lparr>e_buf := take ?a (e_buf e) @ replicate (?b - ?a) 0 @ drop ?b (e_buf e)\<rparr> else e) = e\<lparr>e_buf := ?buf\<rparr>"
    using le by (auto simp: front_bytes_def tail_bytes_def)
  have "unat u < 2 ^ 31" using assms(3) by simp
  then have si: "0 < sint u \<longleftrightarrow> 0 < unat u" using sint_unat(2) [of u] by linarith
  have eq: "done_merge w u e =
    (if 0 < unat u then
       if e_storage e - e_offs e \<le> e_endOffs e then e\<lparr>e_buf := ?buf, e_err := - 1\<rparr>
       else let i = unat (e_storage e - e_endOffs e - 1) in e\<lparr>e_buf := ?buf[i := ?buf ! i OR ucast w]\<rparr>
     else e\<lparr>e_buf := ?buf\<rparr>)"
    using err buf by (simp add: done_merge_def Let_def b si)
  show ?thesis
  proof (cases "0 < unat u")
    case False
    then have "unat w = 0" using assms(2) by (simp add: raw_at_def)
    then show ?thesis using err eq False by (intro conjI exI [of _ "replicate (?b - ?a) 0"]) auto
  next
    case True
    then have "\<not> e_storage e - e_offs e \<le> e_endOffs e" using assms(4) eq by (auto split: if_splits)
    then have lt: "?a < ?b" using so le by (simp add: word_le_nat_alt)
    have i: "unat (e_storage e - e_endOffs e - 1) = ?b - 1"
      using lt b by (subst unat_sub) (simp_all add: word_le_nat_alt)
    obtain n where n: "?b - ?a = Suc n" using lt by (metis Suc_diff_Suc)
    have bn: "?b - 1 = ?a + n" using n by simp
    have "replicate (?b - ?a) (0 :: byte) = replicate n 0 @ [0]" unfolding n by (simp add: replicate_append_same)
    then have "?buf = (front_bytes e @ replicate n 0) @ 0 # tail_bytes e" by (simp only: append_assoc append.simps)
    moreover have "length (front_bytes e @ replicate n 0) = ?b - 1" using assms(1) bn by simp
    ultimately have upd: "?buf[?b - 1 := ?buf ! (?b - 1) OR ucast w] = (front_bytes e @ replicate n 0) @ ucast w # tail_bytes e"
      by (metis list_update_length nth_append_length or.left_neutral)
    have "(2 :: nat) ^ unat u \<le> 2 ^ 8" using assms(3) by (intro power_increasing) simp_all
    then have "unat w < 256" using assms(2) by (simp add: raw_at_def)
    then have "unat (ucast w :: byte) = unat w" by (simp add: unsigned_ucast_eq take_bit_nat_eq_self)
    then show ?thesis using err eq True assms(4) upd
      by (intro conjI exI [of _ "replicate n 0 @ [ucast w]"]) (auto simp: Let_def i split: if_splits)
  qed
qed

lemma done_merge_length: "wfb e \<Longrightarrow> length (e_buf (done_merge w u e)) = length (e_buf e)"
  by (auto simp: done_merge_def Let_def wfb_def unat_sub word_le_nat_alt)

text \<open>
  A buffer holds a state of the code when the bits read from its front lie in the interval, at the precision of the state, and
  its last bits are the raw bits. Reading past the end of the buffer gives zeros.
\<close>

definition cnum :: "bytes \<Rightarrow> nat \<Rightarrow> nat" where
  "cnum bs m = num (take m (bs @ replicate m 0))"

definition holds_code :: "bytes \<Rightarrow> rc_state \<Rightarrow> bool" where
  "holds_code bs s \<longleftrightarrow> st_low s \<le> cnum bs (st_bytes s + 4) div 2 \<and> cnum bs (st_bytes s + 4) div 2 < st_low s + st_rng s \<and>
     num bs mod 2 ^ st_bits s = st_raw s"

lemma cnum_prefix: "\<exists>x < 256 ^ n. cnum (xs @ ys) (length xs + n) = num xs * 256 ^ n + x"
proof -
  let ?zs = "take n (ys @ replicate (length xs + n) 0) :: bytes"
  have "take (length xs + n) ((xs @ ys) @ replicate (length xs + n) 0) = xs @ ?zs" by simp
  moreover have "length ?zs = n" by simp
  ultimately show ?thesis using num_less [of ?zs] unfolding cnum_def by (intro exI [of _ "num ?zs"]) simp
qed

lemma raw_part:
  assumes "num mid = w" "w < 2 ^ u" "u < 8" "0 < u \<longrightarrow> mid \<noteq> []"
  shows "num (xs @ mid @ ys) mod 2 ^ (8 * length ys + u) = num ys + w * 256 ^ length ys"
proof -
  let ?T = "8 * length ys + u"
  have T: "(2 :: nat) ^ ?T = 2 ^ u * 256 ^ length ys" by (simp add: power_add power_mult)
  have "Suc w * 256 ^ length ys \<le> 2 ^ u * 256 ^ length ys" using assms(2) by (intro mult_right_mono) simp_all
  then have lt: "num ys + w * 256 ^ length ys < 2 ^ ?T" using num_less [of ys] T by simp
  have "(2 :: nat) ^ u dvd 2 ^ (8 * length mid)" using assms(3,4) by (intro le_imp_power_dvd) (cases mid; simp)
  then have "(2 :: nat) ^ ?T dvd 256 ^ length mid * 256 ^ length ys" by (simp add: T power_mult)
  then have "2 ^ ?T dvd num xs * (256 ^ length mid * 256 ^ length ys)" by (rule dvd_mult)
  then obtain c where c: "num xs * (256 ^ length mid * 256 ^ length ys) = 2 ^ ?T * c" by (elim dvdE)
  have "num (xs @ mid @ ys) = num xs * (256 ^ length mid * 256 ^ length ys) + (num ys + w * 256 ^ length ys)"
    using assms(1) by (simp add: algebra_simps power_add)
  then have "num (xs @ mid @ ys) mod 2 ^ ?T = (num ys + w * 256 ^ length ys) mod 2 ^ ?T" by (simp only: c mod_mult_self4)
  then show ?thesis using lt by (simp only: mod_less)
qed

lemma flush_interval:
  fixes F X c x k :: nat
  assumes "F * 2 ^ 31 = X * 256 ^ j" "j \<le> 2" "c = F * 256 ^ (4 - j) + x" "x < 256 ^ (4 - j)" "31 \<le> 8 * j + k"
  shows "X \<le> c div 2 \<and> c div 2 < X + 2 ^ k"
proof -
  consider "j = 0" "31 \<le> k" | "j = 1" "23 \<le> k" | "j = 2" "15 \<le> k" using assms(2,5) by linarith
  then have "c = 2 * X + x \<and> x < 2 * 2 ^ k"
  proof cases
    case 1
    then have "(2 :: nat) ^ 31 \<le> 2 ^ k" by (intro power_increasing) simp_all
    with assms 1 show ?thesis by simp
  next
    case 2
    then have "(2 :: nat) ^ 23 \<le> 2 ^ k" by (intro power_increasing) simp_all
    with assms 2 show ?thesis by simp
  next
    case 3
    then have "(2 :: nat) ^ 15 \<le> 2 ^ k" by (intro power_increasing) simp_all
    with assms 3 show ?thesis by simp
  qed
  then show ?thesis by auto
qed

lemma Done_alt:
  "Done e = (let (l, endv) = flush_value e; e = flush_pending (done_range l endv e);
     ((window, used), e) = done_window (e_endWindow e) (e_nendBits e) e in done_merge window used e)"
  by (simp add: Done_def flush_value_def flush_pending_def Let_def case_prod_beta)

lemma enc_invD:
  assumes "enc_inv e s"
  shows "fi e (unat (e_val e)) (unat (e_rng e)) (st_low s) (st_bytes s)" "unat (e_rng e) = st_rng s" "2 ^ 23 < unat (e_rng e)" "raw_inv e s"
  using assms unfolding enc_inv_def by auto

lemma Done_holds:
  assumes "enc_inv e s" "st_bytes s + 3 < 2 ^ 32" "e_err (Done e) = 0"
  shows "holds_code (Bytes (Done e)) s \<and> length (Bytes (Done e)) < 2 ^ 32"
proof -
  let ?v = "unat (e_val e)" and ?r = "unat (e_rng e)" and ?A = "st_low s" and ?N = "st_bytes s"
  note fi = enc_invD(1) [OF assms(1)] and R = enc_invD(2,3) [OF assms(1)] and raw = enc_invD(4) [OF assms(1)]
  obtain l fin where fv: "flush_value e = (l, fin)" by fastforce
  obtain k where k: "l = 31 - int k" "22 \<le> k" "k \<le> 31" "?v \<le> unat fin" "unat fin + 2 ^ k \<le> ?v + ?r" "2 ^ k dvd unat fin"
    using flush_value_spec [OF R(2) _ fv] fi by (auto simp: fi_def)
  define X where "X = ?A + (unat fin - ?v)"
  have "1 \<le> (2 :: nat) ^ k" by simp
  then have "(unat fin - ?v) + 1 \<le> ?r" and top: "(unat fin - ?v) + 2 ^ k \<le> ?r" using k(4,5) by linarith+
  then have "fi e (?v + (unat fin - ?v)) 1 X ?N" unfolding X_def by (intro fi_narrow [OF fi]) auto
  then have fi1: "fi e (unat fin) 1 X ?N" using k(4) by simp
  have "unat fin + 2 ^ k < 2 ^ 32" using k(5) fi by (simp add: fi_def)
  then obtain j where j: "j \<le> 2" "31 \<le> 8 * j + k" "fi (done_range l fin e) 0 (256 ^ j) (X * 256 ^ j) (?N + j)"
    "same_tail e (done_range l fin e)"
    using done_range_fi [OF fi1 k(1-3) k(6)] assms(2) by auto
  let ?e1 = "done_range l fin e" let ?e2 = "flush_pending ?e1"
  have "wfb ?e1" using j(3) by (simp add: fi_def)
  note fp = flush_pending_ok [OF this]
  have st: "same_tail e ?e2" using same_tail_trans [OF j(4)] fp by blast
  obtain w u e3 where dw: "done_window (e_endWindow ?e2) (e_nendBits ?e2) ?e2 = ((w, u), e3)" by (metis prod.exhaust)
  have dwr: "wfb e3" "raw_at e3 w u s" "unat u < 8" "e_err e3 = 0 \<longrightarrow> e_err ?e2 = 0" "front_bytes e3 = front_bytes ?e2"
    using done_window_raw [OF _ _ dw, of s] fp same_tail_raw [OF st raw] by (auto simp: raw_inv_at)
  have eq: "Done e = done_merge w u e3" by (simp add: Done_alt fv dw)
  obtain mid where m: "e_err e3 = 0" "e_buf (Done e) = front_bytes e3 @ mid @ tail_bytes e3" "num mid = unat w" "0 < unat u \<longrightarrow> mid \<noteq> []"
    using done_merge_buf [OF dwr(1-3)] assms(3) eq by auto
  have err: "e_err ?e2 = 0" "e_err ?e1 = 0" "e_err e = 0" using m(1) dwr(4) fp st j(4) by (auto simp: same_tail_def)
  have F: "front_bytes e3 = seq ?e1" "num (seq ?e1) * 2 ^ 31 = X * 256 ^ j" "length (seq ?e1) = ?N + j"
    using dwr(5) fp err j(3) by (simp_all add: fi_def)
  obtain x where "x < 256 ^ (4 - j)" "cnum (e_buf (Done e)) (length (seq ?e1) + (4 - j)) = num (seq ?e1) * 256 ^ (4 - j) + x"
    using cnum_prefix [of "4 - j" "seq ?e1" "mid @ tail_bytes e3"] by (auto simp: m(2) F(1))
  moreover have "length (seq ?e1) + (4 - j) = ?N + 4" using F(3) j(1) by simp
  ultimately have "X \<le> cnum (e_buf (Done e)) (?N + 4) div 2 \<and> cnum (e_buf (Done e)) (?N + 4) div 2 < X + 2 ^ k"
    using flush_interval [OF F(2) j(1) _ _ j(2)] by simp
  moreover have "num (e_buf (Done e)) mod 2 ^ st_bits s = st_raw s"
    using raw_part [OF m(3) _ dwr(3) m(4), of "front_bytes e3" "tail_bytes e3"] dwr(1,2) m(1,2) by (simp add: raw_at_def)
  moreover have "length (e_buf (Done e)) < 2 ^ 32"
    using done_merge_length [OF dwr(1), of w u] dwr(1) unsigned_less [of "e_storage e3", where ?'a = nat] by (simp add: eq wfb_def)
  ultimately show ?thesis using top R(1) by (auto simp: holds_code_def Bytes_def X_def)
qed

end
