(* ===== verification/RangeDecode.thy ===== *)
theory RangeDecode
  imports RangeDone
begin

text \<open>
  The decoder follows the same states of the code as the encoder: at a state that the buffer holds, the value register is the
  distance of the code from the top of the interval, and narrowing by the symbol that was encoded leads to the next state.
\<close>

section \<open>Reading bytes\<close>

definition byte_at :: "bytes \<Rightarrow> nat \<Rightarrow> nat" where
  "byte_at bs m = (if m < length bs then unat (bs ! m) else 0)"

lemma cnum_take: "cnum bs m = num (take m bs @ replicate (m - length bs) 0)"
  by (simp add: cnum_def)

lemma cnum_Suc: "cnum bs (Suc m) = cnum bs m * 256 + byte_at bs m"
proof (cases "m < length bs")
  case True
  then show ?thesis by (simp add: cnum_take byte_at_def take_Suc_conv_app_nth)
next
  case False
  then have "Suc m - length bs = Suc (m - length bs)" by simp
  then show ?thesis using False by (simp add: cnum_take byte_at_def mult.commute)
qed

lemma byte_at_less: "byte_at bs m < 256"
  by (simp add: byte_at_def)

lemma cnum_div: "cnum bs (m + k) div 256 ^ k = cnum bs m"
proof (induction k)
  case (Suc k)
  have "cnum bs (m + Suc k) div 256 = cnum bs (m + k)" using byte_at_less [of bs "m + k"] by (simp add: cnum_Suc)
  then have "cnum bs (m + Suc k) div (256 * 256 ^ k) = cnum bs m" using Suc by (simp only: div_mult2_eq)
  then show ?case by simp
qed simp

lemma half_step:
  fixes c b :: nat
  assumes "b < 256"
  shows "(c * 256 + b) div 2 = 256 * (c div 2) + (c mod 256 * 256 + b) div 2 mod 256"
proof -
  have half: "(x * 256 + b) div 2 = 256 * (x div 2) + (128 * (x mod 2) + b div 2)" for x
  proof -
    define q where "q = x div 2"
    define p where "p = x mod 2"
    have "x = 2 * q + p" by (simp add: q_def p_def)
    then have "x * 256 + b = 2 * (256 * q + 128 * p) + b" by simp
    then have "(x * 256 + b) div 2 = (256 * q + 128 * p) + b div 2" by (simp only: div_mult_self4)
    then show ?thesis by (simp add: q_def p_def)
  qed
  have "128 * (c mod 2) + b div 2 < 256" using assms by (cases "even c") (auto simp: even_iff_mod_2_eq_zero odd_iff_mod_2_eq_one)
  moreover have "c mod 256 mod 2 = c mod 2" by (rule mod_mod_cancel) simp
  ultimately have "(c mod 256 * 256 + b) div 2 mod 256 = 128 * (c mod 2) + b div 2"
    using half [of "c mod 256"] by simp
  then show ?thesis using half [of c] by simp
qed

section \<open>The decoder at a position\<close>

definition dec_at :: "bytes \<Rightarrow> RangeDecoder \<Rightarrow> nat \<Rightarrow> nat \<Rightarrow> nat \<Rightarrow> bool" where
  "dec_at bs d A R m \<longleftrightarrow> d_buf d = bs \<and> length bs < 2 ^ 32 \<and> unat (d_storage d) = length bs \<and> unat (d_offs d) = min m (length bs) \<and>
     d_rem d = int (cnum bs m mod 256) \<and> unat (d_rng d) = R \<and> A \<le> cnum bs m div 2 \<and> cnum bs m div 2 + unat (d_val d) + 1 = A + R"

lemma dec_readByte_at:
  assumes "d_buf d = bs" "length bs < 2 ^ 32" "unat (d_storage d) = length bs" "unat (d_offs d) = min m (length bs)"
  shows "\<exists>o'. dec_readByte d = (word_of_nat (byte_at bs m), d\<lparr>d_offs := o'\<rparr>) \<and> unat o' = min (Suc m) (length bs)"
proof (cases "m < length bs")
  case True
  then have "unat (d_offs d + 1) = min (Suc m) (length bs)" using assms by (simp add: unat_plus_if')
  moreover have "(ucast (bs ! m) :: u32) = word_of_nat (unat (bs ! m))" by (simp only: word_unat_eq_iff unat_of_nat) (simp add: unsigned_ucast_eq take_bit_eq_mod)
  ultimately show ?thesis using True assms
    by (intro exI [of _ "d_offs d + 1"]) (simp add: dec_readByte_def word_less_nat_alt byte_at_def)
next
  case False
  then show ?thesis using assms by (intro exI [of _ "d_offs d"]) (simp add: dec_readByte_def word_less_nat_alt byte_at_def)
qed

lemma unat_255_not: "unat (255 AND NOT w :: u32) = 255 - unat w mod 256"
proof -
  have "(mask 8 AND NOT w) + take_bit 8 w = (mask 8 AND NOT w) OR take_bit 8 w"
    by (rule disjunctive_add) (auto simp: bit_simps)
  also have "\<dots> = mask 8" by (rule bit_eqI) (auto simp: bit_simps)
  finally have "(255 AND NOT w :: u32) = 255 - take_bit 8 w" by (simp add: mask_eq_exp_minus_1 algebra_simps)
  moreover have "unat (take_bit 8 w) = unat w mod 256" by (simp only: unsigned_take_bit_eq) (simp add: take_bit_eq_mod)
  ultimately show ?thesis by (simp add: unat_sub word_le_nat_alt)
qed

lemma int_or_byte: "b < 256 \<Longrightarrow> push_bit 8 (int r) OR int b = int (r * 256 + b)"
proof -
  assume "b < 256"
  then have "int (b OR r * 256) = int (b + r * 256)" using nat_or_shifted [of b 8 r] by simp
  then show ?thesis by (simp add: of_nat_or_eq push_bit_eq_mult or.commute add.commute)
qed

lemma dec_shift_at:
  assumes "dec_at bs d A R m" "R \<le> 2 ^ 23"
  shows "dec_at bs (dec_shift d) (A * 256) (R * 256) (Suc m) \<and> d_Err (dec_shift d) = d_Err d \<and> d_endOffs (dec_shift d) = d_endOffs d \<and>
    d_endWindow (dec_shift d) = d_endWindow d \<and> d_nendBits (dec_shift d) = d_nendBits d"
proof -
  let ?c = "cnum bs m" and ?b = "byte_at bs m"
  let ?d = "d\<lparr>d_nbitsTotal := d_nbitsTotal d + 8, d_rng := push_bit 8 (d_rng d)\<rparr>"
  have b: "?b < 256" by (rule byte_at_less)
  obtain o' where o': "dec_readByte ?d = (word_of_nat ?b, ?d\<lparr>d_offs := o'\<rparr>)" "unat o' = min (Suc m) (length bs)"
    using dec_readByte_at [of ?d bs m] assms(1) by (auto simp: dec_at_def)
  have ub: "uint (word_of_nat ?b :: u32) = int ?b" using b by (simp add: uint_nat unat_of_nat del: of_nat_unat)
  define sy where "sy = (?c mod 256 * 256 + ?b) div 2"
  have sym: "drop_bit 1 (push_bit 8 (d_rem d) OR int ?b) = int sy"
    using assms(1) int_or_byte [OF b, of "?c mod 256"] by (simp add: dec_at_def sy_def drop_bit_eq_div zdiv_int)
  have "sy < 2 ^ 32" using b by (simp add: sy_def) 
  then have usy: "unat (word_of_int (int sy) :: u32) = sy" by (simp only: of_int_of_nat_eq unat_of_nat) simp
  let ?v = "unat (d_val d)"
  have v: "?c div 2 + ?v + 1 = A + R" "A \<le> ?c div 2" "unat (d_rng d) = R" using assms(1) by (simp_all add: dec_at_def)
  have vlt: "?v < 2 ^ 23" using v assms(2) by linarith
  have "unat (push_bit 8 (d_val d) + (255 AND NOT (word_of_int (int sy)))) = ?v * 256 + (255 - sy mod 256)"
  proof -
    have "unat (push_bit 8 (d_val d)) = ?v * 256" using vlt unat_shift8 [of "d_val d"] by simp
    moreover have "unat (255 AND NOT (word_of_int (int sy)) :: u32) = 255 - sy mod 256" by (simp only: unat_255_not usy)
    ultimately show ?thesis using vlt by (simp only: unat_plus_if') simp
  qed
  moreover have "?v * 256 + (255 - sy mod 256) < 2 ^ 31" using vlt by simp
  moreover have "w AND 2147483647 = take_bit 31 w" for w :: u32 by (simp add: take_bit_eq_mask mask_eq_exp_minus_1)
  ultimately have val: "unat ((push_bit 8 (d_val d) + (255 AND NOT (word_of_int (int sy)))) AND 2147483647) = ?v * 256 + (255 - sy mod 256)"
    by (simp only: unsigned_take_bit_eq take_bit_nat_eq_self)
  have c': "cnum bs (Suc m) = ?c * 256 + ?b" "cnum bs (Suc m) div 2 = 256 * (?c div 2) + sy mod 256"
    using half_step [OF b, of ?c] by (simp_all add: cnum_Suc sy_def)
  have "256 * (?c div 2) + sy mod 256 + (?v * 256 + (255 - sy mod 256)) + 1 = A * 256 + R * 256"
  proof -
    have "sy mod 256 + (255 - sy mod 256) = 255" by (simp add: less_Suc_eq_le flip: less_Suc_eq_le)
    then show ?thesis using v(1) by linarith
  qed
  moreover have "unat (push_bit 8 (d_rng d)) = R * 256" using unat_shift8 [of "d_rng d"] v(3) assms(2) by simp
  moreover have "dec_shift d = ?d\<lparr>d_offs := o', d_rem := int ?b,
      d_val := (push_bit 8 (d_val d) + (255 AND NOT (word_of_int (int sy)))) AND 2147483647\<rparr>"
    using o'(1) sym by (simp add: dec_shift_def Let_def ub del: drop_bit_or)
  ultimately show ?thesis using assms(1) o'(2) val c' b v(2) by (simp add: dec_at_def)
qed


definition same_raw :: "RangeDecoder \<Rightarrow> RangeDecoder \<Rightarrow> bool" where
  "same_raw d d' \<longleftrightarrow> d_Err d' = d_Err d \<and> d_endOffs d' = d_endOffs d \<and> d_endWindow d' = d_endWindow d \<and> d_nendBits d' = d_nendBits d"

lemma dec_normalize_at:
  assumes "dec_at bs d A R m" "0 < R"
  shows "\<exists>d'. dec_normalize d = Some d' \<and> dec_at bs d' (A * 256 ^ nsh R) (R * 256 ^ nsh R) (m + nsh R) \<and> same_raw d d'"
  using assms
proof (induction "nsh R" arbitrary: d A R m)
  case 0
  have "2 ^ 23 < R" using 0(1,3) nsh_simps(2) [of R] by (cases "R \<le> 2 ^ 23") auto
  then have "dec_normalize d = Some d" using 0(2) by (subst dec_normalize.simps) (simp add: word_le_nat_alt dec_at_def)
  with 0(2) show ?case by (simp add: same_raw_def flip: 0(1))
next
  case (Suc k)
  have small: "R \<le> 2 ^ 23" using Suc.hyps(2) nsh_simps(1) [of R] by (cases "2 ^ 23 < R") auto
  note sh = dec_shift_at [OF Suc.prems(1) small]
  have k: "k = nsh (R * 256)" using nsh_simps(2) [OF Suc.prems(2) small] Suc.hyps(2) by simp
  have eq: "dec_normalize d = dec_normalize (dec_shift d)"
    using small Suc.prems(1) by (subst dec_normalize.simps) (simp add: word_le_nat_alt dec_at_def)
  have "0 < R * 256" using Suc.prems(2) by simp
  from Suc.hyps(1) [OF k conjunct1 [OF sh] this] obtain d' where
    "dec_normalize (dec_shift d) = Some d'" "dec_at bs d' (A * 256 * 256 ^ k) (R * 256 * 256 ^ k) (Suc m + k)" "same_raw (dec_shift d) d'"
    unfolding k [symmetric] by blast
  then show ?case using sh by (intro exI [of _ d']) (simp add: eq same_raw_def mult.assoc flip: Suc.hyps(2))
qed

section \<open>Raw bits\<close>

text \<open>The window holds the next bits of the buffer, read from its end as a number.\<close>

definition raw_win :: "bytes \<Rightarrow> nat \<Rightarrow> u32 \<Rightarrow> i32 \<Rightarrow> RangeDecoder \<Rightarrow> bool" where
  "raw_win bs p w a d \<longleftrightarrow> d_buf d = bs \<and> length bs < 2 ^ 32 \<and> unat (d_storage d) = length bs \<and> unat a \<le> 32 \<and>
     unat w = take_bit (unat a) (drop_bit p (num bs)) \<and>
     (\<exists>K. unat a + p = 8 * K \<and> unat (d_endOffs d) = min K (length bs))"

lemma num_digit: "drop_bit (8 * K) (num bs) mod 256 = (if K < length bs then unat (bs ! (length bs - Suc K)) else 0)"
proof (cases "K < length bs")
  case True
  let ?n = "length bs - Suc K"
  have bs: "bs = take ?n bs @ bs ! ?n # drop (Suc ?n) bs" using True by (intro id_take_nth_drop) simp
  obtain xs ys where xy: "bs = xs @ bs ! ?n # ys" "length ys = K"
    using that [OF bs] True by simp
  from arg_cong [OF xy(1), of num] have "num bs = (num xs * 256 + unat (bs ! ?n)) * 256 ^ K + num ys"
    using xy(2) by (simp only: num_simps list.size) (simp add: algebra_simps)
  moreover have "num ys < 256 ^ K" using num_less [of ys] xy(2) by simp
  moreover have "(2 :: nat) ^ (8 * K) = 256 ^ K" by (simp add: power_mult)
  ultimately have "drop_bit (8 * K) (num bs) = num xs * 256 + unat (bs ! ?n)" by (simp add: drop_bit_eq_div)
  then show ?thesis using True by simp
next
  case False
  have "num bs < 256 ^ length bs" by (rule num_less)
  also have "\<dots> \<le> 256 ^ K" using False by (intro power_increasing) simp_all
  finally show ?thesis using False by (simp add: drop_bit_eq_div power_mult)
qed

lemma readByteFromEnd_at:
  assumes "raw_win bs p w a d" "unat a + p = 8 * K"
  shows "\<exists>o'. readByteFromEnd d = (word_of_nat (drop_bit (8 * K) (num bs) mod 256), d\<lparr>d_endOffs := o'\<rparr>) \<and> unat o' = min (Suc K) (length bs)"
proof -
  have off: "unat (d_endOffs d) = min K (length bs)" "unat (d_storage d) = length bs" "length bs < 2 ^ 32" "d_buf d = bs"
    using assms by (auto simp: raw_win_def)
  show ?thesis
  proof (cases "K < length bs")
    case True
    then have suc: "unat (d_endOffs d + 1) = Suc K" using off by (simp add: unat_plus_if')
    then have idx: "unat (d_storage d - (d_endOffs d + 1)) = length bs - Suc K"
      using off True by (subst unat_sub) (simp_all add: word_le_nat_alt)
    have "(ucast x :: u32) = word_of_nat (unat x)" for x :: byte
      by (simp only: word_unat_eq_iff unat_of_nat) (simp add: unsigned_ucast_eq take_bit_eq_mod)
    then show ?thesis using True off suc idx num_digit [of K bs]
      by (intro exI [of _ "d_endOffs d + 1"]) (simp add: readByteFromEnd_def Let_def word_less_nat_alt)
  next
    case False
    then show ?thesis using off num_digit [of K bs]
      by (intro exI [of _ "d_endOffs d"]) (simp add: readByteFromEnd_def word_less_nat_alt)
  qed
qed

lemma take_bit_extend:
  fixes x :: nat
  shows "take_bit (a + 8) x = take_bit a x + drop_bit a x mod 256 * 2 ^ a"
proof -
  have "x mod (2 ^ a * 256) = 2 ^ a * (x div 2 ^ a mod 256) + x mod 2 ^ a" by (rule mod_mult2_eq)
  then show ?thesis by (simp add: take_bit_eq_mod drop_bit_eq_div power_add mult.commute)
qed

lemma dec_refill_raw:
  assumes "raw_win bs p w a d" "unat a \<le> 24" "dec_refill w a d = ((w', a'), d')"
  shows "raw_win bs p w' a' d' \<and> 24 < unat a' \<and> (\<exists>o'. d' = d\<lparr>d_endOffs := o'\<rparr>)"
  using assms
proof (induction w a d rule: dec_refill.induct)
  case (1 w a d)
  obtain K where K: "unat a + p = 8 * K" using 1(2) by (auto simp: raw_win_def)
  let ?b = "drop_bit (8 * K) (num bs) mod 256"
  obtain o' where o': "readByteFromEnd d = (word_of_nat ?b, d\<lparr>d_endOffs := o'\<rparr>)" "unat o' = min (Suc K) (length bs)"
    using readByteFromEnd_at [OF 1(2) K] by blast
  let ?w = "w OR push_bit (unat a) (word_of_nat ?b)" and ?d = "d\<lparr>d_endOffs := o'\<rparr>"
  have ub: "unat (word_of_nat ?b :: u32) = ?b" by (simp add: unat_of_nat)
  have a8: "unat (a + 8) = unat a + 8" using 1(3) by (simp add: unat_plus_if')
  have "unat w < 2 ^ unat a" using 1(2) by (simp add: raw_win_def take_bit_nat_less_exp)
  then have "unat ?w = unat w + ?b * 2 ^ unat a"
    using unat_or_shift [of w "unat a" "word_of_nat ?b" 8] 1(3) by (simp add: ub)
  also have "\<dots> = take_bit (unat a + 8) (drop_bit p (num bs))"
    using 1(2) K by (simp add: raw_win_def take_bit_extend drop_bit_drop_bit)
  finally have win: "raw_win bs p ?w (a + 8) ?d"
    using 1(2,3) o'(2) K a8 by (auto simp: raw_win_def intro!: exI [of _ "Suc K"])
  show ?case
  proof (cases "24 < unat (a + 8)")
    case True
    then have "dec_refill w a d = ((?w, a + 8), ?d)" by (subst dec_refill.simps) (simp add: o' word_less_nat_alt)
    with 1(4) win True show ?thesis by auto
  next
    case False
    then have eq: "dec_refill w a d = dec_refill ?w (a + 8) ?d" by (subst dec_refill.simps) (simp add: o' word_less_nat_alt)
    have "raw_win bs p w' a' d' \<and> 24 < unat a' \<and> (\<exists>o'. d' = ?d\<lparr>d_endOffs := o'\<rparr>)"
      using 1(1) [of "(word_of_nat ?b, ?d)" "word_of_nat ?b" ?d ?w "a + 8"] o'(1) False win 1(4) eq
      by (simp add: word_less_nat_alt)
    then show ?thesis by auto
  qed
qed


section \<open>The decoder at a state of the code\<close>

definition dec_inv :: "bytes \<Rightarrow> RangeDecoder \<Rightarrow> rc_state \<Rightarrow> bool" where
  "dec_inv bs d s \<longleftrightarrow> dec_at bs d (st_low s) (st_rng s) (st_bytes s + 4) \<and> 2 ^ 23 < st_rng s \<and> st_raw s < 2 ^ st_bits s \<and>
     raw_win bs (st_bits s) (d_endWindow d) (d_nendBits d) d"

lemma dec_inv_ext [simp]: "dec_inv bs (d\<lparr>d_ext := x\<rparr>) s = dec_inv bs d s"
  by (simp add: dec_inv_def dec_at_def raw_win_def)

lemma raw_win_same: "raw_win bs p w a d \<Longrightarrow> d_buf d' = bs \<Longrightarrow> unat (d_storage d') = length bs \<Longrightarrow> d_endOffs d' = d_endOffs d \<Longrightarrow> raw_win bs p w a d'"
  by (simp add: raw_win_def)

lemma dec_inv_start:
  assumes "length bs < 2 ^ 32"
  shows "\<exists>d. NewRangeDecoder bs = Some d \<and> dec_inv bs d rc_start \<and> d_Err d = 0"
proof -
  let ?d0 = "\<lparr>d_buf = bs, d_storage = word_of_nat (length bs), d_endOffs = 0, d_endWindow = 0, d_nendBits = 0,
    d_nbitsTotal = 9, d_offs = 0, d_rng = 128, d_val = 0, d_ext = 0, d_rem = 0, d_Err = 0\<rparr> :: RangeDecoder"
  obtain o' where o': "dec_readByte ?d0 = (word_of_nat (byte_at bs 0), ?d0\<lparr>d_offs := o'\<rparr>)" "unat o' = min 1 (length bs)"
    using dec_readByte_at [of ?d0 bs 0] assms by (auto simp: unat_of_nat)
  let ?b = "byte_at bs 0"
  have b: "?b < 256" by (rule byte_at_less)
  have ub: "uint (word_of_nat ?b :: u32) = int ?b" using b by (simp add: uint_nat unat_of_nat del: of_nat_unat)
  let ?d = "?d0\<lparr>d_offs := o', d_rem := int ?b, d_val := 127 - word_of_nat (?b div 2)\<rparr>"
  have nd: "NewRangeDecoder bs = dec_normalize ?d"
  proof -
    have "(word_of_int (int ?b div 2) :: u32) = word_of_nat (?b div 2)" by (metis of_int_of_nat_eq of_nat_numeral zdiv_int)
    then show ?thesis using o' by (simp add: NewRangeDecoder_def Let_def ub drop_bit_eq_div push_bit_eq_mult)
  qed
  have "unat (word_of_nat (?b div 2) :: u32) = ?b div 2" using b by (simp add: unat_of_nat)
  then have "unat (127 - word_of_nat (?b div 2) :: u32) = 127 - ?b div 2" using b by (simp add: unat_sub word_le_nat_alt)
  moreover have "cnum bs 1 = ?b" using cnum_Suc [of bs 0] by (simp add: cnum_def)
  ultimately have at: "dec_at bs ?d 0 128 1" using assms o'(2) b by (simp add: dec_at_def unat_of_nat)
  obtain d' where d': "dec_normalize ?d = Some d'" "dec_at bs d' (0 * 256 ^ nsh 128) (128 * 256 ^ nsh 128) (1 + nsh 128)" "same_raw ?d d'"
    using dec_normalize_at [OF at] by auto
  have n3: "nsh 128 = 3" by (simp add: nsh_def)
  have "dec_inv bs d' rc_start"
    using d'(2,3) by (auto simp: dec_inv_def rc_start_def n3 dec_at_def same_raw_def raw_win_def)
  then show ?thesis using d' nd by (simp add: same_raw_def)
qed

text \<open>A buffer that holds the state after a symbol holds the state before it, in the part of the interval the symbol took.\<close>

lemma holds_narrow:
  assumes "holds_code bs (narrow d r s)"
  shows "st_low s + d \<le> cnum bs (st_bytes s + 4) div 2" and "cnum bs (st_bytes s + 4) div 2 < st_low s + d + r"
    and "num bs mod 2 ^ st_bits s = st_raw s"
proof -
  let ?k = "nsh r" and ?C = "cnum bs (st_bytes s + 4) div 2" and ?C' = "cnum bs (st_bytes s + nsh r + 4) div 2"
  have "?C' div 256 ^ ?k = cnum bs (st_bytes s + 4 + ?k) div 256 ^ ?k div 2"
    by (simp add: ac_simps flip: div_mult2_eq)
  then have C: "?C' div 256 ^ ?k = ?C" by (simp only: cnum_div)
  have h: "(st_low s + d) * 256 ^ ?k \<le> ?C'" "?C' < (st_low s + d) * 256 ^ ?k + r * 256 ^ ?k"
    using assms by (simp_all add: holds_code_def narrow_def)
  then have "?C' < (st_low s + d + r) * 256 ^ ?k" by (simp add: distrib_right)
  then show "?C < st_low s + d + r" unfolding C [symmetric] by (rule less_mult_imp_div_less)
  show "st_low s + d \<le> ?C" unfolding C [symmetric] using h(1) by (simp add: less_eq_div_iff_mult_less_eq)
  show "num bs mod 2 ^ st_bits s = st_raw s" using assms by (simp add: holds_code_def narrow_def)
qed

lemma holds_before:
  assumes "holds_code bs (narrow d r s)" "d + r \<le> st_rng s"
  shows "holds_code bs s"
  using holds_narrow [OF assms(1)] assms(2) by (simp add: holds_code_def)

text \<open>The value register lies in the part of the range that belongs to the symbol, counted from the top.\<close>

lemma dec_val_range:
  assumes "dec_inv bs d s" "holds_code bs (narrow l r s)" "l + r \<le> st_rng s"
  shows "st_rng s - l - r \<le> unat (d_val d)" and "unat (d_val d) < st_rng s - l" and "unat (d_rng d) = st_rng s" and "2 ^ 23 < st_rng s"
proof -
  have "cnum bs (st_bytes s + 4) div 2 + unat (d_val d) + 1 = st_low s + st_rng s" using assms(1) by (simp add: dec_inv_def dec_at_def)
  with holds_narrow [OF assms(2)] assms(3)
  show "st_rng s - l - r \<le> unat (d_val d)" and "unat (d_val d) < st_rng s - l" by linarith+
  show "unat (d_rng d) = st_rng s" "2 ^ 23 < st_rng s" using assms(1) by (auto simp: dec_inv_def dec_at_def)
qed

lemma dec_inv_narrow:
  assumes "dec_inv bs d s" "holds_code bs (narrow l r s)" "l + r \<le> st_rng s" "0 < r"
    and "unat x + (st_rng s - l - r) = unat (d_val d)" and "unat y = r"
  shows "\<exists>d'. dec_normalize (d\<lparr>d_val := x, d_rng := y\<rparr>) = Some d' \<and> dec_inv bs d' (narrow l r s) \<and> d_Err d' = d_Err d"
proof -
  let ?d = "d\<lparr>d_val := x, d_rng := y\<rparr>" and ?C = "cnum bs (st_bytes s + 4) div 2"
  have "?C + unat (d_val d) + 1 = st_low s + st_rng s" using assms(1) by (simp add: dec_inv_def dec_at_def)
  with holds_narrow [OF assms(2)] assms(3,5) have "?C + unat x + 1 = st_low s + l + r" by linarith
  then have "dec_at bs ?d (st_low s + l) r (st_bytes s + 4)"
    using assms(1,6) holds_narrow(1) [OF assms(2)] by (simp add: dec_inv_def dec_at_def)
  from dec_normalize_at [OF this assms(4)] obtain d' where d': "dec_normalize ?d = Some d'"
    "dec_at bs d' ((st_low s + l) * 256 ^ nsh r) (r * 256 ^ nsh r) (st_bytes s + 4 + nsh r)" "same_raw ?d d'" by blast
  have "raw_win bs (st_bits s) (d_endWindow d) (d_nendBits d) d'"
    by (rule raw_win_same [of _ _ _ _ d]) (use assms(1) d' in \<open>auto simp: dec_inv_def dec_at_def same_raw_def\<close>)
  then show ?thesis using d' assms(1) nsh_big [OF assms(4)]
    by (auto simp: dec_inv_def narrow_def same_raw_def ac_simps)
qed

lemma holds_raw:
  assumes "holds_code bs (add_bits v n s)" "st_raw s < 2 ^ st_bits s"
  shows "holds_code bs s" and "take_bit n (drop_bit (st_bits s) (num bs)) = v"
proof -
  let ?E = "num bs" and ?p = "st_bits s"
  have "?E mod (2 ^ ?p * 2 ^ n) = st_raw s + v * 2 ^ ?p" using assms(1) by (simp add: holds_code_def add_bits_def power_add)
  then have eq: "2 ^ ?p * (?E div 2 ^ ?p mod 2 ^ n) + ?E mod 2 ^ ?p = st_raw s + v * 2 ^ ?p" by (simp only: mod_mult2_eq)
  have "?E mod 2 ^ ?p = (2 ^ ?p * (?E div 2 ^ ?p mod 2 ^ n) + ?E mod 2 ^ ?p) mod 2 ^ ?p" by simp
  also have "\<dots> = st_raw s" unfolding eq using assms(2) by simp
  finally have raw: "?E mod 2 ^ ?p = st_raw s" .
  then show "holds_code bs s" using assms(1) by (simp add: holds_code_def add_bits_def)
  from eq raw have "?E div 2 ^ ?p mod 2 ^ n = v" by simp
  then show "take_bit n (drop_bit ?p ?E) = v" by (simp add: take_bit_eq_mod drop_bit_eq_div)
qed

lemma unat_and_exp: "k < 32 \<Longrightarrow> unat (w AND (push_bit k 1 - 1) :: u32) = take_bit k (unat w)"
proof -
  have "w AND (push_bit k 1 - 1) = take_bit k w" by (simp add: take_bit_eq_mask mask_eq_exp_minus_1 push_bit_of_1)
  then show ?thesis by (simp only: unsigned_take_bit_eq)
qed

lemma dec_BitsN_inv:
  assumes "dec_inv bs d s" "holds_code bs (add_bits v (unat n) s)" "unat n \<le> 25" "v < 2 ^ unat n"
  shows "\<exists>d'. dec_BitsN n d = (word_of_nat v, d') \<and> dec_inv bs d' (add_bits v (unat n) s) \<and> d_Err d' = d_Err d"
proof -
  let ?p = "st_bits s" and ?E = "num bs"
  let ?q = "if d_nendBits d < n then dec_refill (d_endWindow d) (d_nendBits d) d else ((d_endWindow d, d_nendBits d), d)"
  have rw: "raw_win bs ?p (d_endWindow d) (d_nendBits d) d" and raw: "st_raw s < 2 ^ ?p" using assms(1) by (auto simp: dec_inv_def)
  obtain w a d1 where q: "?q = ((w, a), d1)" by (metis prod.exhaust)
  have d1: "raw_win bs ?p w a d1 \<and> unat n \<le> unat a \<and> (\<exists>o'. d1 = d\<lparr>d_endOffs := o'\<rparr>)"
  proof (cases "d_nendBits d < n")
    case True
    with q have "dec_refill (d_endWindow d) (d_nendBits d) d = ((w, a), d1)" by simp
    from dec_refill_raw [OF rw _ this] True assms(3) show ?thesis by (simp add: word_less_nat_alt)
  next
    case False
    with q rw show ?thesis by (auto simp: word_less_nat_alt intro!: exI [of _ "d_endOffs d"])
  qed
  then obtain o' where o': "d1 = d\<lparr>d_endOffs := o'\<rparr>" by blast
  have w: "unat w = take_bit (unat a) (drop_bit ?p ?E)" using d1 by (simp add: raw_win_def)
  have "unat (w AND (push_bit (unat n) 1 - 1)) = take_bit (unat n) (drop_bit ?p ?E)"
    using d1 assms(3) unat_and_exp [of "unat n" w] by (simp only: w take_bit_take_bit) (simp add: min_def)
  then have "unat (w AND (push_bit (unat n) 1 - 1)) = v" using holds_raw(2) [OF assms(2) raw] by simp
  then have ret: "w AND (push_bit (unat n) 1 - 1) = word_of_nat v" by (metis of_nat_unat ucast_id)
  have "unat (drop_bit (unat n) w) = take_bit (unat a - unat n) (drop_bit (?p + unat n) ?E)"
    by (simp only: unat_drop_bit_eq w drop_bit_take_bit drop_bit_drop_bit) (simp add: add.commute)
  moreover have an: "unat (a - n) = unat a - unat n" using d1 by (simp add: unat_sub word_le_nat_alt)
  ultimately have rw': "raw_win bs (?p + unat n) (drop_bit (unat n) w) (a - n) d1"
    using d1 by (auto simp: raw_win_def)
  let ?d = "d1\<lparr>d_endWindow := drop_bit (unat n) w, d_nendBits := a - n, d_nbitsTotal := d_nbitsTotal d1 + n\<rparr>"
  have "dec_BitsN n d = (word_of_nat v, ?d)" using q ret by (simp add: dec_BitsN_def Let_def)
  moreover have "st_raw s + v * 2 ^ ?p < 2 ^ (?p + unat n)"
  proof -
    have "Suc v * 2 ^ ?p \<le> 2 ^ unat n * 2 ^ ?p" using assms(4) by (intro mult_right_mono) simp_all
    then show ?thesis using raw by (simp add: power_add mult.commute)
  qed
  ultimately show ?thesis using assms(1) rw' o'
    by (simp add: dec_inv_def add_bits_def dec_at_def raw_win_def)
qed

end
