(* ===== verification/RangeCodec.thy ===== *)
theory RangeCodec
  imports RangeDecode
begin

text \<open>
  What the encoder writes the decoder reads: any sequence of symbols of any kind, mixed with raw bits.
\<close>

section \<open>Symbols with a cumulative range\<close>

definition range_lo :: "nat \<Rightarrow> nat \<Rightarrow> nat \<Rightarrow> nat" where
  "range_lo fl ft R = (if fl = 0 then 0 else R - R div ft * (ft - fl))"

definition range_wid :: "nat \<Rightarrow> nat \<Rightarrow> nat \<Rightarrow> nat \<Rightarrow> nat" where
  "range_wid fl fh ft R = (if fl = 0 then R - R div ft * (ft - fh) else R div ft * (fh - fl))"

definition range_step :: "nat \<Rightarrow> nat \<Rightarrow> nat \<Rightarrow> rc_state \<Rightarrow> rc_state" where
  "range_step fl fh ft s = narrow (range_lo fl ft (st_rng s)) (range_wid fl fh ft (st_rng s)) s"

lemma range_parts:
  assumes "fl < fh" "fh \<le> ft" "ft \<le> 2 ^ 16" "2 ^ 23 < R"
  shows "0 < R div ft" and "R div ft * (ft - fl) \<le> R" and "R div ft * (ft - fh) \<le> R" and "0 < range_wid fl fh ft R"
    and "range_lo fl ft R + range_wid fl fh ft R \<le> R" and "R - range_lo fl ft R - range_wid fl fh ft R = R div ft * (ft - fh)"
    and "R - range_lo fl ft R = (if fl = 0 then R else R div ft * (ft - fl))"
proof -
  let ?r = "R div ft"
  have ft: "0 < ft" "ft \<le> R" using assms by auto
  show r: "0 < ?r" using ft by (simp add: div_greater_zero_iff)
  have top: "?r * ft \<le> R" by (rule div_times_less_eq_dividend)
  have mono: "?r * (ft - x) \<le> R" for x by (rule order_trans [OF mult_left_mono top]) simp_all
  show a: "?r * (ft - fl) \<le> R" and b: "?r * (ft - fh) \<le> R" by (rule mono)+
  have "?r * (ft - fl) = ?r * (fh - fl) + ?r * (ft - fh)" using assms(1,2) by (simp flip: distrib_left)
  moreover have "?r * (ft - fh) < ?r * ft" using r assms(1,2) by (intro mult_strict_left_mono) auto
  moreover from this have "?r * (ft - fh) < R" using top by linarith
  ultimately show "0 < range_wid fl fh ft R" "range_lo fl ft R + range_wid fl fh ft R \<le> R"
      "R - range_lo fl ft R - range_wid fl fh ft R = ?r * (ft - fh)" "R - range_lo fl ft R = (if fl = 0 then R else ?r * (ft - fl))"
    using a b r assms(1) top by (auto simp: range_lo_def range_wid_def)
qed

lemma unat_times: "unat x * unat y < 2 ^ 32 \<Longrightarrow> unat (x * y :: u32) = unat x * unat y"
  using unat_mult_lem [of x y] by simp

lemma e_val_same [simp]: "e\<lparr>e_val := e_val e, e_rng := y\<rparr> = e\<lparr>e_rng := y\<rparr>"
  by (cases e) simp

lemma unat_minus: "unat y \<le> unat x \<Longrightarrow> unat (x - y :: u32) = unat x - unat y"
  by (simp add: unat_sub word_le_nat_alt)

lemma unat_plus: "unat x + unat y < 2 ^ 32 \<Longrightarrow> unat (x + y :: u32) = unat x + unat y"
  by (simp add: unat_plus_if')

lemma rc_Encode_inv:
  assumes "enc_inv e s" "unat fl < unat fh" "unat fh \<le> unat ft" "unat ft \<le> 2 ^ 16" "st_bytes s + 3 < 2 ^ 32"
  shows "\<exists>e'. rc_Encode fl fh ft e = Some e' \<and> enc_inv e' (range_step (unat fl) (unat fh) (unat ft) s)"
proof -
  let ?R = "st_rng s" and ?r = "e_rng e div ft"
  have fi: "fi e (unat (e_val e)) (unat (e_rng e)) (st_low s) (st_bytes s)" and R: "unat (e_rng e) = ?R" "2 ^ 23 < ?R"
    using enc_invD [OF assms(1)] by auto
  note p = range_parts [OF assms(2-4) R(2)]
  have lt: "?R < 2 ^ 32" "unat (e_val e) + ?R < 2 ^ 32" using fi R(1) by (auto simp: fi_def)
  have r: "unat ?r = ?R div unat ft" by (simp add: unat_div R(1))
  have m: "unat (?r * (ft - x)) = ?R div unat ft * (unat ft - unat x)" if "unat x \<le> unat ft" "?R div unat ft * (unat ft - unat x) \<le> ?R" for x
    using that lt by (simp add: unat_times unat_minus r)
  have ft: "ft \<noteq> 0" using assms(2,3) by auto
  show ?thesis
  proof (cases "0 < fl")
    case True
    then have fl: "unat fl \<noteq> 0" by (simp add: word_gt_0 unat_eq_0)
    have m1: "unat (?r * (ft - fl)) = ?R div unat ft * (unat ft - unat fl)" by (rule m) (use assms(2,3) p(2) in auto)
    then have d: "unat (e_rng e - ?r * (ft - fl)) = range_lo (unat fl) (unat ft) ?R"
      using p(2) R(1) fl by (simp add: unat_minus range_lo_def)
    have "unat (e_val e + (e_rng e - ?r * (ft - fl))) = unat (e_val e) + range_lo (unat fl) (unat ft) ?R"
      using d lt(2) by (simp add: unat_plus range_lo_def)
    moreover have "unat (?r * (fh - fl)) = range_wid (unat fl) (unat fh) (unat ft) ?R"
    proof -
      have "?R div unat ft * (unat fh - unat fl) < 2 ^ 32" using p(5) lt(1) fl by (simp add: range_wid_def)
      then show ?thesis using assms(2) fl by (simp add: unat_times unat_minus r range_wid_def)
    qed
    ultimately show ?thesis
      using enc_inv_narrow [OF assms(1) _ _ p(4,5) assms(5)] True ft by (simp add: rc_Encode_def range_step_def Let_def)
  next
    case False
    then have fl: "unat fl = 0" by (simp add: word_gt_0)
    have "unat (?r * (ft - fh)) = ?R div unat ft * (unat ft - unat fh)" by (rule m) (use assms(3) p(3) in auto)
    then have w: "unat (e_rng e - ?r * (ft - fh)) = range_wid (unat fl) (unat fh) (unat ft) ?R"
      using p(3) R(1) fl by (simp add: unat_minus range_wid_def)
    have v: "unat (e_val e) = unat (e_val e) + range_lo (unat fl) (unat ft) ?R" using fl by (simp add: range_lo_def)
    from enc_inv_narrow [OF assms(1) v w p(4,5) assms(5)] False ft show ?thesis
      by (simp add: rc_Encode_def range_step_def)
  qed
qed

lemma rc_Decode_inv:
  assumes "dec_inv bs d s" "holds_code bs (range_step fl fh (unat ft) s)" "fl < fh" "fh \<le> unat ft" "unat ft \<le> 2 ^ 16"
  shows "\<exists>fs. rc_Decode ft d = (fs, d\<lparr>d_ext := d_rng d div ft\<rparr>) \<and> fl \<le> unat fs \<and> unat fs < fh"
proof -
  let ?R = "st_rng s" and ?v = "unat (d_val d)" and ?ft = "unat ft"
  have R2: "2 ^ 23 < ?R" using assms(1) by (simp add: dec_inv_def)
  note p = range_parts [OF assms(3-5) R2]
  note v = dec_val_range [OF assms(1) assms(2) [unfolded range_step_def] p(5)]
  let ?r = "?R div ?ft"
  have r: "unat (d_rng d div ft) = ?r" by (simp add: unat_div v(3))
  have ft: "ft \<noteq> 0" using assms(3,4) by auto
  have ext: "d_rng d div ft \<noteq> 0" using p(1) r by (metis less_irrefl unat_0)
  let ?q = "?v div ?r"
  have lo: "?ft - fh \<le> ?q" using v(1) p(1,6) by (simp add: less_eq_div_iff_mult_less_eq mult.commute)
  have hi: "?q < ?ft - fl" if "fl \<noteq> 0" using v(2) p(7) that by (simp add: less_mult_imp_div_less mult.commute)
  have "?q \<le> ?v" by (rule div_le_dividend)
  also have "?v < 2 ^ 32 - 1" using v(2) v(3) unsigned_less [of "d_rng d", where ?'a = nat] by simp
  finally have q1: "unat (d_val d div (d_rng d div ft) + 1) = Suc ?q"
    by (subst unat_plus) (simp_all add: unat_div r v(3))
  have mini: "unat (ecMini (d_val d div (d_rng d div ft) + 1) ft) = min (Suc ?q) ?ft"
    using q1 by (simp add: ecMini_def word_less_nat_alt)
  have fs: "unat (ft - ecMini (d_val d div (d_rng d div ft) + 1) ft) = ?ft - min (Suc ?q) ?ft"
    by (subst unat_minus) (simp_all add: mini)
  show ?thesis
  proof (intro exI conjI)
    show "rc_Decode ft d = (ft - ecMini (d_val d div (d_rng d div ft) + 1) ft, d\<lparr>d_ext := d_rng d div ft\<rparr>)"
      using ft ext by (simp add: rc_Decode_def Let_def)
    show "fl \<le> unat (ft - ecMini (d_val d div (d_rng d div ft) + 1) ft)"
      unfolding fs using hi by (cases "fl = 0") (simp, linarith)
    show "unat (ft - ecMini (d_val d div (d_rng d div ft) + 1) ft) < fh"
      unfolding fs using lo assms(3,4) by linarith
  qed
qed

lemma rc_Update_inv:
  assumes "dec_inv bs d s" "holds_code bs (range_step (unat fl) (unat fh) (unat ft) s)" "unat fl < unat fh" "unat fh \<le> unat ft"
    "unat ft \<le> 2 ^ 16"
  shows "\<exists>d'. rc_Update fl fh ft (d\<lparr>d_ext := d_rng d div ft\<rparr>) = Some d' \<and>
    dec_inv bs d' (range_step (unat fl) (unat fh) (unat ft) s) \<and> d_Err d' = d_Err d"
proof -
  let ?R = "st_rng s" and ?v = "unat (d_val d)"
  have R2: "2 ^ 23 < ?R" using assms(1) by (simp add: dec_inv_def)
  note p = range_parts [OF assms(3-5) R2]
  note v = dec_val_range [OF assms(1) assms(2) [unfolded range_step_def] p(5)]
  let ?e = "d_rng d div ft" let ?r = "?R div unat ft"
  have r: "unat ?e = ?r" by (simp add: unat_div v(3))
  have lt: "?R < 2 ^ 32" using v(3) unsigned_less [of "d_rng d", where ?'a = nat] by simp
  have s: "unat (?e * (ft - fh)) = ?r * (unat ft - unat fh)"
    using p(3) lt assms(4) by (simp add: unat_times unat_minus r)
  then have val: "unat (d_val d - ?e * (ft - fh)) + (?R - range_lo (unat fl) (unat ft) ?R - range_wid (unat fl) (unat fh) (unat ft) ?R) = ?v"
    using v(1) p(6) by (simp add: unat_minus)
  let ?d = "d\<lparr>d_ext := ?e\<rparr>"
  have "dec_inv bs ?d s" using assms(1) by simp
  note step = dec_inv_narrow [OF this assms(2) [unfolded range_step_def] p(5,4), unfolded range_step_def [symmetric]]
  have "\<exists>d'. dec_normalize (?d\<lparr>d_val := d_val d - ?e * (ft - fh), d_rng := (if 0 < fl then ?e * (fh - fl) else d_rng d - ?e * (ft - fh))\<rparr>) = Some d' \<and>
    dec_inv bs d' (range_step (unat fl) (unat fh) (unat ft) s) \<and> d_Err d' = d_Err ?d"
  proof (rule step)
    show "unat (d_val d - ?e * (ft - fh)) + (?R - range_lo (unat fl) (unat ft) ?R - range_wid (unat fl) (unat fh) (unat ft) ?R) = unat (d_val ?d)"
      using val by simp
    show "unat (if 0 < fl then ?e * (fh - fl) else d_rng d - ?e * (ft - fh)) = range_wid (unat fl) (unat fh) (unat ft) ?R"
    proof (cases "0 < fl")
      case True
      then have fl: "unat fl \<noteq> 0" by (simp add: word_gt_0 unat_eq_0)
      then have "?r * (unat fh - unat fl) < 2 ^ 32" using p(5) lt by (simp add: range_wid_def)
      then show ?thesis using True fl assms(3) by (simp add: unat_times unat_minus r range_wid_def)
    next
      case False
      then have "unat fl = 0" by (simp add: word_gt_0)
      then show ?thesis using False s p(3) v(3) by (simp add: unat_minus range_wid_def)
    qed
  qed
  then show ?thesis by (cases "0 < fl") (simp_all add: rc_Update_def Let_def)
qed


section \<open>The kinds of symbols\<close>

text \<open>A symbol is a kind, which both sides know, and its value.\<close>

datatype rc_kind = KCdf "u16 list" | KIcdf bytes u32 | KLogp u32 | KRaw u32 | KFine | KUint u32 | KBits u32

fun encode_symbol :: "rc_kind \<Rightarrow> nat \<Rightarrow> RangeEncoder \<Rightarrow> RangeEncoder option" where
  "encode_symbol (KCdf cdf) v e = EncodeCDF (int v) cdf e"
| "encode_symbol (KIcdf icdf ftb) v e = EncodeICDF (int v) icdf ftb e"
| "encode_symbol (KLogp logp) v e = enc_BitLogp (int v) logp e"
| "encode_symbol (KRaw nbits) v e = EncodeRawSymbol (word_of_nat v) nbits e"
| "encode_symbol KFine v e = Encode64FineSym (int v) e"
| "encode_symbol (KUint ft) v e = EncodeUint (word_of_nat v) ft e"
| "encode_symbol (KBits n) v e = Some (enc_BitsN (word_of_nat v) n e)"

fun decode_symbol :: "rc_kind \<Rightarrow> RangeDecoder \<Rightarrow> (nat \<times> RangeDecoder) option" where
  "decode_symbol (KCdf cdf) d = map_option (map_prod nat id) (DecodeCDF cdf d)"
| "decode_symbol (KIcdf icdf ftb) d = map_option (map_prod nat id) (DecodeICDF icdf ftb d)"
| "decode_symbol (KLogp logp) d = map_option (map_prod nat id) (dec_BitLogp logp d)"
| "decode_symbol (KRaw nbits) d = map_option (map_prod unat id) (DecodeRawSymbol nbits d)"
| "decode_symbol KFine d = map_option (map_prod nat id) (Decode64FineSym d)"
| "decode_symbol (KUint ft) d = map_option (map_prod unat id) (DecodeUint ft d)"
| "decode_symbol (KBits n) d = Some (map_prod unat id (dec_BitsN n d))"

text \<open>
  The tables and values the coder is made for: a table of cumulative counts does not decrease and gives the symbol a share of it; an
  inverse table does not increase, starts below \<open>2 ^ ftb\<close> and gives the symbol a share; the others are limits on the
  sizes.
\<close>

fun valid_symbol :: "rc_kind \<Rightarrow> nat \<Rightarrow> bool" where
  "valid_symbol (KCdf cdf) v \<longleftrightarrow> v + 1 < length cdf \<and> sorted cdf \<and> cdf ! v < cdf ! (v + 1)"
| "valid_symbol (KIcdf icdf ftb) v \<longleftrightarrow> v < length icdf \<and> sorted (rev icdf) \<and> unat ftb \<le> 16 \<and> unat (hd icdf) < 2 ^ unat ftb \<and>
     (0 < v \<longrightarrow> icdf ! v < icdf ! (v - 1))"
| "valid_symbol (KLogp logp) v \<longleftrightarrow> v < 2 \<and> 1 \<le> unat logp \<and> unat logp \<le> 16"
| "valid_symbol (KRaw nbits) v \<longleftrightarrow> unat nbits \<le> 16 \<and> v < 2 ^ unat nbits"
| "valid_symbol KFine v \<longleftrightarrow> v < 64"
| "valid_symbol (KUint ft) v \<longleftrightarrow> 2 \<le> unat ft \<and> v < unat ft"
| "valid_symbol (KBits n) v \<longleftrightarrow> unat n \<le> 25 \<and> v < 2 ^ unat n"

definition uint_shift :: "u32 \<Rightarrow> nat" where
  "uint_shift ft = bit_len (unat ft - 1) - 8"

definition icdf_lo :: "bytes \<Rightarrow> nat \<Rightarrow> nat \<Rightarrow> nat \<Rightarrow> nat" where
  "icdf_lo icdf b v R = (if v = 0 then 0 else R - R div 2 ^ b * unat (icdf ! (v - 1)))"

definition icdf_wid :: "bytes \<Rightarrow> nat \<Rightarrow> nat \<Rightarrow> nat \<Rightarrow> nat" where
  "icdf_wid icdf b v R = (if v = 0 then R - R div 2 ^ b * unat (icdf ! 0) else R div 2 ^ b * (unat (icdf ! (v - 1)) - unat (icdf ! v)))"

fun step_symbol :: "rc_kind \<Rightarrow> nat \<Rightarrow> rc_state \<Rightarrow> rc_state" where
  "step_symbol (KCdf cdf) v s = range_step (unat (cdf ! v) - unat (cdf ! 0)) (unat (cdf ! (v + 1)) - unat (cdf ! 0))
     (unat (last cdf) - unat (cdf ! 0)) s"
| "step_symbol (KIcdf icdf ftb) v s = narrow (icdf_lo icdf (unat ftb) v (st_rng s)) (icdf_wid icdf (unat ftb) v (st_rng s)) s"
| "step_symbol (KLogp logp) v s = (let t = st_rng s div 2 ^ unat logp in
     if v = 0 then narrow 0 (st_rng s - t) s else narrow (st_rng s - t) t s)"
| "step_symbol (KRaw nbits) v s = range_step v (v + 1) (2 ^ unat nbits) s"
| "step_symbol KFine v s = range_step v (v + 1) 64 s"
| "step_symbol (KUint ft) v s = (let k = uint_shift ft in
     if k = 0 then range_step v (v + 1) (unat ft) s
     else add_bits (v mod 2 ^ k) k (range_step (v div 2 ^ k) (v div 2 ^ k + 1) ((unat ft - 1) div 2 ^ k + 1) s))"
| "step_symbol (KBits n) v s = add_bits v (unat n) s"

lemma range_step_simps [simp]:
  "st_raw (range_step fl fh ft s) = st_raw s" "st_bits (range_step fl fh ft s) = st_bits s"
  by (simp_all add: range_step_def narrow_def)

lemma unat_u32_of_u16 [simp]: "unat (ucast (w :: u16) :: u32) = unat w"
  by (rule unat_ucast_up) simp

lemma unat_u16_less: "unat (w :: u16) < 2 ^ 16"
  using unsigned_less [of w, where ?'a = nat] by simp

text \<open>The cumulative table.\<close>

lemma cdf_facts:
  assumes "valid_symbol (KCdf cdf) v"
  shows "unat (cdf ! 0) \<le> unat (cdf ! v)" "unat (cdf ! v) < unat (cdf ! (v + 1))" "unat (cdf ! (v + 1)) \<le> unat (last cdf)"
    "cdf ! (length cdf - 1) = last cdf" "2 \<le> length cdf" "v + 1 < length cdf" "unat (last cdf) < 2 ^ 16"
proof -
  have v: "v + 1 < length cdf" "sorted cdf" using assms by simp_all
  then have "cdf \<noteq> []" by auto
  then show l: "cdf ! (length cdf - 1) = last cdf" by (rule last_conv_nth [symmetric])
  have "cdf ! (v + 1) \<le> cdf ! (length cdf - 1)" using v by (intro sorted_nth_mono) auto
  then show "unat (cdf ! (v + 1)) \<le> unat (last cdf)" by (simp only: l word_le_nat_alt)
  have "cdf ! 0 \<le> cdf ! v" using v by (intro sorted_nth_mono) auto
  then show "unat (cdf ! 0) \<le> unat (cdf ! v)" by (simp only: word_le_nat_alt)
  show "unat (cdf ! v) < unat (cdf ! (v + 1))" using assms by (simp add: word_less_nat_alt)
  show "2 \<le> length cdf" "v + 1 < length cdf" "unat (last cdf) < 2 ^ 16" using v unat_u16_less by auto
qed

text \<open>The ranges of a symbol in the table, as the words the code computes.\<close>

lemma cdf_words:
  assumes "valid_symbol (KCdf cdf) v"
  obtains fl fh ft base :: u32 where "ucast (cdf ! v) - ucast (cdf ! 0) = fl" "ucast (cdf ! (v + 1)) - ucast (cdf ! 0) = fh"
    "ucast (last cdf) - ucast (cdf ! 0) = ft" "ucast (cdf ! 0) = base" "\<not> ucast (last cdf) \<le> base"
    "unat fl = unat (cdf ! v) - unat base" "unat fh = unat (cdf ! (v + 1)) - unat base" "unat ft = unat (last cdf) - unat base"
    "unat base = unat (cdf ! 0)" "unat fl < unat fh" "unat fh \<le> unat ft" "unat ft \<le> 2 ^ 16" "unat base < 2 ^ 16"
proof -
  note c = cdf_facts [OF assms]
  have u: "unat (ucast x - ucast (cdf ! 0) :: u32) = unat x - unat (cdf ! 0)" if "unat (cdf ! 0) \<le> unat x" for x :: u16
    using that by (simp add: unat_minus)
  have "unat (cdf ! 0) \<le> unat (cdf ! (v + 1))" "unat (cdf ! 0) \<le> unat (last cdf)" using c by linarith+
  with c show thesis
    by (intro that [OF refl refl refl refl]) (auto simp: u word_le_nat_alt)
qed

lemma cdf_search_find:
  assumes "\<forall>j < k. \<not> target < ucast (cs ! j)" "k < length cs" "target < ucast (cs ! k)"
  shows "cdf_search target cs n = n + k"
  using assms
proof (induction cs arbitrary: k n)
  case (Cons c cs)
  show ?case
  proof (cases k)
    case (Suc j)
    then have "\<not> target < ucast c" using Cons.prems(1) by force
    moreover have "cdf_search target cs (n + 1) = n + 1 + j" using Cons.prems Suc by (intro Cons.IH) auto
    ultimately show ?thesis by (simp add: Suc)
  qed (use Cons.prems in simp)
qed simp

lemma EncodeCDF_inv:
  assumes "enc_inv e s" "valid_symbol (KCdf cdf) v" "st_bytes s + 3 < 2 ^ 32"
  shows "\<exists>e'. encode_symbol (KCdf cdf) v e = Some e' \<and> enc_inv e' (step_symbol (KCdf cdf) v s)"
proof -
  obtain fl fh ft base :: u32 where w: "ucast (cdf ! v) - ucast (cdf ! 0) = fl" "ucast (cdf ! (v + 1)) - ucast (cdf ! 0) = fh"
    "ucast (last cdf) - ucast (cdf ! 0) = ft" "ucast (cdf ! 0) = base" "\<not> ucast (last cdf) \<le> base"
    and u: "unat fl = unat (cdf ! v) - unat base" "unat fh = unat (cdf ! (v + 1)) - unat base" "unat ft = unat (last cdf) - unat base"
    "unat base = unat (cdf ! 0)" and lt: "unat fl < unat fh" "unat fh \<le> unat ft" "unat ft \<le> 2 ^ 16"
    by (rule cdf_words [OF assms(2)])
  note c = cdf_facts(4-6) [OF assms(2)]
  have "nat (int v + 1) = v + 1" by simp
  then have "encode_symbol (KCdf cdf) v e = rc_Encode fl fh ft e"
    using w c unfolding encode_symbol.simps EncodeCDF_def Let_def by simp
  then show ?thesis using rc_Encode_inv [OF assms(1) lt assms(3)] u by simp
qed

lemma DecodeCDF_inv:
  assumes "dec_inv bs d s" "valid_symbol (KCdf cdf) v" "holds_code bs (step_symbol (KCdf cdf) v s)"
  shows "\<exists>d'. decode_symbol (KCdf cdf) d = Some (v, d') \<and> dec_inv bs d' (step_symbol (KCdf cdf) v s) \<and> d_Err d' = d_Err d"
proof -
  obtain fl fh ft base :: u32 where w: "ucast (cdf ! v) - ucast (cdf ! 0) = fl" "ucast (cdf ! (v + 1)) - ucast (cdf ! 0) = fh"
    "ucast (last cdf) - ucast (cdf ! 0) = ft" "ucast (cdf ! 0) = base" "\<not> ucast (last cdf) \<le> base"
    and u: "unat fl = unat (cdf ! v) - unat base" "unat fh = unat (cdf ! (v + 1)) - unat base" "unat ft = unat (last cdf) - unat base"
    "unat base = unat (cdf ! 0)" and lt: "unat fl < unat fh" "unat fh \<le> unat ft" "unat ft \<le> 2 ^ 16" "unat base < 2 ^ 16"
    by (rule cdf_words [OF assms(2)])
  note c = cdf_facts [OF assms(2)]
  have holds: "holds_code bs (range_step (unat fl) (unat fh) (unat ft) s)" using assms(3) u by simp
  obtain fs where fs: "rc_Decode ft d = (fs, d\<lparr>d_ext := d_rng d div ft\<rparr>)" "unat fl \<le> unat fs" "unat fs < unat fh"
    using rc_Decode_inv [OF assms(1) holds lt(1-3)] by blast
  have target: "unat (base + fs) = unat base + unat fs" using fs(3) lt by (subst unat_plus) auto
  have "cdf_search (base + fs) (tl cdf) 0 = 0 + v"
  proof (rule cdf_search_find)
    show "v < length (tl cdf)" using c by simp
    show "base + fs < ucast (tl cdf ! v)" using c u fs(3) by (simp add: word_less_nat_alt target nth_tl)
    show "\<forall>j < v. \<not> base + fs < ucast (tl cdf ! j)"
    proof (intro allI impI)
      fix j assume j: "j < v"
      then have "cdf ! (j + 1) \<le> cdf ! v" using assms(2) by (intro sorted_nth_mono) auto
      then have "unat (cdf ! (j + 1)) \<le> unat base + unat fs" using fs(2) u c(1) by (simp add: word_le_nat_alt)
      then show "\<not> base + fs < ucast (tl cdf ! j)" using j c by (simp add: word_less_nat_alt target nth_tl)
    qed
  qed
  then have k: "cdf_search (base + fs) (tl cdf) 0 = v" by simp
  obtain d' where d': "rc_Update fl fh ft (d\<lparr>d_ext := d_rng d div ft\<rparr>) = Some d'"
      "dec_inv bs d' (range_step (unat fl) (unat fh) (unat ft) s)" "d_Err d' = d_Err d"
    using rc_Update_inv [OF assms(1) holds lt(1-3)] by blast
  have "DecodeCDF cdf d = Some (int v, d')"
    using c(4-6) w fs(1) k d'(1) unfolding DecodeCDF_def Let_def by simp
  then show ?thesis using d'(2,3) u by simp
qed


text \<open>The inverse table.\<close>

lemma icdf_search_find:
  assumes "\<forall>j < k. \<not> r * ucast (cs ! j) \<le> dv" "k < length cs" "r * ucast (cs ! k) \<le> dv"
  shows "icdf_search r dv cs n t = (n + k, if k = 0 then t else r * ucast (cs ! (k - 1)), r * ucast (cs ! k))"
  using assms
proof (induction cs arbitrary: k n t)
  case (Cons c cs)
  show ?case
  proof (cases k)
    case (Suc j)
    then have "\<not> r * ucast c \<le> dv" "cs \<noteq> []" using Cons.prems by force+
    moreover have "icdf_search r dv cs (n + 1) (r * ucast c) = (n + 1 + j, if j = 0 then r * ucast c else r * ucast (cs ! (j - 1)), r * ucast (cs ! j))"
      using Cons.prems Suc by (intro Cons.IH) auto
    ultimately show ?thesis by (cases j) (simp_all add: Suc Let_def)
  qed (use Cons.prems in \<open>simp add: Let_def\<close>)
qed simp

lemma icdf_parts:
  assumes "valid_symbol (KIcdf icdf ftb) v" "2 ^ 23 < R"
  defines "r \<equiv> R div 2 ^ unat ftb"
  shows "0 < r" and "\<And>j. j < length icdf \<Longrightarrow> r * unat (icdf ! j) < R" and "0 < icdf_wid icdf (unat ftb) v R"
    and "icdf_lo icdf (unat ftb) v R + icdf_wid icdf (unat ftb) v R \<le> R"
    and "R - icdf_lo icdf (unat ftb) v R - icdf_wid icdf (unat ftb) v R = r * unat (icdf ! v)"
    and "R - icdf_lo icdf (unat ftb) v R = (if v = 0 then R else r * unat (icdf ! (v - 1)))"
    and "\<And>j. j < v \<Longrightarrow> unat (icdf ! (v - 1)) \<le> unat (icdf ! j)" and "0 < v \<Longrightarrow> unat (icdf ! v) < unat (icdf ! (v - 1))"
proof -
  let ?b = "unat ftb"
  have v: "v < length icdf" "sorted (rev icdf)" "?b \<le> 16" "unat (hd icdf) < 2 ^ ?b" using assms(1) by simp_all
  have "(2 :: nat) ^ ?b \<le> 2 ^ 16" using v(3) by (intro power_increasing) simp_all
  then have "2 ^ ?b \<le> R" using assms(2) by simp
  then show r: "0 < r" by (simp add: r_def div_greater_zero_iff)
  have dec: "icdf ! j \<le> icdf ! i" if "i \<le> j" "j < length icdf" for i j
    using v(2) that sorted_rev_nth_mono by blast
  have hd: "hd icdf = icdf ! 0" using v(1) by (intro hd_conv_nth) auto
  have top: "r * 2 ^ ?b \<le> R" unfolding r_def by (rule div_times_less_eq_dividend)
  show lt: "r * unat (icdf ! j) < R" if "j < length icdf" for j
  proof -
    have "unat (icdf ! j) < 2 ^ ?b" using dec [of 0 j] that v(4) hd by (simp add: word_le_nat_alt)
    then have "r * unat (icdf ! j) < r * 2 ^ ?b" using r by simp
    then show ?thesis using top by linarith
  qed
  show "unat (icdf ! (v - 1)) \<le> unat (icdf ! j)" if "j < v" for j using dec [of j "v - 1"] that v(1) by (simp add: word_le_nat_alt)
  show less: "unat (icdf ! v) < unat (icdf ! (v - 1))" if "0 < v" using assms(1) that by (simp add: word_less_nat_alt)
  have "icdf_wid icdf ?b v R + r * unat (icdf ! v) = r * unat (icdf ! (v - 1))" if "0 < v"
    using less [OF that] that by (simp add: icdf_wid_def r_def flip: distrib_left)
  moreover have "r * unat (icdf ! v) < r * unat (icdf ! (v - 1))" if "0 < v" using less [OF that] r by simp
  ultimately show "0 < icdf_wid icdf ?b v R" "icdf_lo icdf ?b v R + icdf_wid icdf ?b v R \<le> R"
    "R - icdf_lo icdf ?b v R - icdf_wid icdf ?b v R = r * unat (icdf ! v)" "R - icdf_lo icdf ?b v R = (if v = 0 then R else r * unat (icdf ! (v - 1)))"
    using lt [of v] lt [of "v - 1"] v(1)
    by (cases "v = 0"; force simp: icdf_lo_def icdf_wid_def r_def)+
qed

lemma unat_byte_diff: "unat y \<le> unat x \<Longrightarrow> unat (ucast (x - y :: byte) :: u32) = unat x - unat y"
  by (simp add: unat_sub word_le_nat_alt)

lemma EncodeICDF_inv:
  assumes "enc_inv e s" "valid_symbol (KIcdf icdf ftb) v" "st_bytes s + 3 < 2 ^ 32"
  shows "\<exists>e'. encode_symbol (KIcdf icdf ftb) v e = Some e' \<and> enc_inv e' (step_symbol (KIcdf icdf ftb) v s)"
proof -
  let ?R = "st_rng s" and ?r = "drop_bit (unat ftb) (e_rng e)"
  have fi: "fi e (unat (e_val e)) (unat (e_rng e)) (st_low s) (st_bytes s)" and R: "unat (e_rng e) = ?R" "2 ^ 23 < ?R"
    using enc_invD [OF assms(1)] by auto
  note p = icdf_parts [OF assms(2) R(2)]
  have lt: "unat (e_val e) + ?R < 2 ^ 32" using fi R(1) by (auto simp: fi_def)
  have r: "unat ?r = ?R div 2 ^ unat ftb" by (simp only: unat_drop R(1))
  have m: "unat (?r * ucast (icdf ! j)) = ?R div 2 ^ unat ftb * unat (icdf ! j)" if "j < length icdf" for j
    using p(2) [OF that] lt by (subst unat_times) (simp_all add: r)
  have v: "v < length icdf" using assms(2) by simp
  show ?thesis
  proof (cases "v = 0")
    case True
    have x: "unat (e_val e) = unat (e_val e) + icdf_lo icdf (unat ftb) v ?R" using True by (simp add: icdf_lo_def)
    have y: "unat (e_rng e - ?r * ucast (icdf ! v)) = icdf_wid icdf (unat ftb) v ?R"
      using m [OF v] p(2) [OF v] R(1) True by (simp add: unat_minus icdf_wid_def)
    from enc_inv_narrow [OF assms(1) x y p(3,4) assms(3)] True v show ?thesis by (simp add: EncodeICDF_def Let_def)
  next
    case False
    then have v1: "v - 1 < length icdf" "0 < v" using v by simp_all
    have "unat (e_rng e - ?r * ucast (icdf ! (v - 1))) = icdf_lo icdf (unat ftb) v ?R"
      using m [OF v1(1)] p(2) [OF v1(1)] R(1) False by (simp add: unat_minus icdf_lo_def)
    then have x: "unat (e_val e + (e_rng e - ?r * ucast (icdf ! (v - 1)))) = unat (e_val e) + icdf_lo icdf (unat ftb) v ?R"
      using p(4) lt by (subst unat_plus) simp_all
    have bd: "unat (ucast (icdf ! (v - 1) - icdf ! v) :: u32) = unat (icdf ! (v - 1)) - unat (icdf ! v)"
      by (rule unat_byte_diff) (use p(8) [OF v1(2)] in simp)
    have w: "icdf_wid icdf (unat ftb) v ?R = ?R div 2 ^ unat ftb * (unat (icdf ! (v - 1)) - unat (icdf ! v))"
      using False by (simp add: icdf_wid_def)
    have "icdf_wid icdf (unat ftb) v ?R < 2 ^ 32" using p(4) lt by linarith
    then have y: "unat (?r * ucast (icdf ! (v - 1) - icdf ! v)) = icdf_wid icdf (unat ftb) v ?R"
      by (subst unat_times) (simp_all only: bd r w)
    from enc_inv_narrow [OF assms(1) x y p(3,4) assms(3)] v v1 show ?thesis
      by (simp add: EncodeICDF_def Let_def)
  qed
qed

lemma DecodeICDF_inv:
  assumes "dec_inv bs d s" "valid_symbol (KIcdf icdf ftb) v" "holds_code bs (step_symbol (KIcdf icdf ftb) v s)"
  shows "\<exists>d'. decode_symbol (KIcdf icdf ftb) d = Some (v, d') \<and> dec_inv bs d' (step_symbol (KIcdf icdf ftb) v s) \<and> d_Err d' = d_Err d"
proof -
  let ?R = "st_rng s" and ?r = "drop_bit (unat ftb) (d_rng d)" and ?b = "unat ftb"
  have R2: "2 ^ 23 < ?R" using assms(1) by (simp add: dec_inv_def)
  note p = icdf_parts [OF assms(2) R2]
  note holds = assms(3) [unfolded step_symbol.simps]
  note vr = dec_val_range [OF assms(1) holds p(4)]
  have lt: "?R < 2 ^ 32" using vr(3) unsigned_less [of "d_rng d", where ?'a = nat] by simp
  have r: "unat ?r = ?R div 2 ^ ?b" by (simp only: unat_drop vr(3))
  have m: "unat (?r * ucast (icdf ! j)) = ?R div 2 ^ ?b * unat (icdf ! j)" if "j < length icdf" for j
    using p(2) [OF that] lt by (subst unat_times) (simp_all add: r)
  have v: "v < length icdf" "icdf \<noteq> []" using assms(2) by auto
  have "icdf_search ?r (d_val d) icdf 0 (d_rng d) = (0 + v, if v = 0 then d_rng d else ?r * ucast (icdf ! (v - 1)), ?r * ucast (icdf ! v))"
  proof (rule icdf_search_find [OF _ v(1)])
    show "?r * ucast (icdf ! v) \<le> d_val d" using vr(1) p(5) m [OF v(1)] by (simp add: word_le_nat_alt)
    show "\<forall>j < v. \<not> ?r * ucast (icdf ! j) \<le> d_val d"
    proof (intro allI impI)
      fix j assume j: "j < v"
      then have "unat (d_val d) < ?R div 2 ^ ?b * unat (icdf ! (v - 1))" using vr(2) p(6) by simp
      also have "\<dots> \<le> ?R div 2 ^ ?b * unat (icdf ! j)" using p(7) [OF j] by (rule mult_le_mono2)
      finally show "\<not> ?r * ucast (icdf ! j) \<le> d_val d" using m [of j] j v(1) by (simp add: word_le_nat_alt)
    qed
  qed
  moreover have "\<exists>d'. dec_normalize (d\<lparr>d_val := d_val d - ?r * ucast (icdf ! v),
      d_rng := (if v = 0 then d_rng d else ?r * ucast (icdf ! (v - 1))) - ?r * ucast (icdf ! v)\<rparr>) = Some d' \<and>
    dec_inv bs d' (step_symbol (KIcdf icdf ftb) v s) \<and> d_Err d' = d_Err d"
    unfolding step_symbol.simps
  proof (rule dec_inv_narrow [OF assms(1) holds p(4,3)])
    show "unat (d_val d - ?r * ucast (icdf ! v)) + (?R - icdf_lo icdf ?b v ?R - icdf_wid icdf ?b v ?R) = unat (d_val d)"
      using vr(1) p(5) m [OF v(1)] by (simp add: unat_minus)
    show "unat ((if v = 0 then d_rng d else ?r * ucast (icdf ! (v - 1))) - ?r * ucast (icdf ! v)) = icdf_wid icdf ?b v ?R"
    proof (cases "v = 0")
      case True
      then show ?thesis using m [OF v(1)] p(2) [OF v(1)] vr(3) by (simp add: unat_minus icdf_wid_def)
    next
      case False
      then have "v - 1 < length icdf" "unat (icdf ! v) < unat (icdf ! (v - 1))" using v p(8) by auto
      then show ?thesis using False m [OF v(1)] m [of "v - 1"] by (simp add: unat_minus icdf_wid_def diff_mult_distrib2)
    qed
  qed
  ultimately show ?thesis using v(2) by (auto simp: DecodeICDF_def Let_def simp del: step_symbol.simps)
qed


text \<open>The other kinds.\<close>

lemma BitLogp_parts:
  fixes R :: nat
  assumes "valid_symbol (KLogp logp) v" "2 ^ 23 < R"
  shows "0 < R div 2 ^ unat logp" "R div 2 ^ unat logp < R"
proof -
  have "(2 :: nat) ^ unat logp \<le> 2 ^ 16" using assms(1) by (intro power_increasing) simp_all
  then show "0 < R div 2 ^ unat logp" using assms(2) by (simp add: div_greater_zero_iff)
  have "0 < unat logp" using assms(1) by simp
  then have "1 < (2 :: nat) ^ unat logp" by (intro one_less_power) simp_all
  then show "R div 2 ^ unat logp < R" using assms(2) by (intro div_less_dividend) simp_all
qed

lemma enc_BitLogp_inv:
  assumes "enc_inv e s" "valid_symbol (KLogp logp) v" "st_bytes s + 3 < 2 ^ 32"
  shows "\<exists>e'. encode_symbol (KLogp logp) v e = Some e' \<and> enc_inv e' (step_symbol (KLogp logp) v s)"
proof -
  let ?R = "st_rng s" and ?t = "drop_bit (unat logp) (e_rng e)"
  have fi: "fi e (unat (e_val e)) (unat (e_rng e)) (st_low s) (st_bytes s)" and R: "unat (e_rng e) = ?R" "2 ^ 23 < ?R"
    using enc_invD [OF assms(1)] by auto
  note p = BitLogp_parts [OF assms(2) R(2)]
  have lt: "unat (e_val e) + ?R < 2 ^ 32" using fi R(1) by (auto simp: fi_def)
  have t: "unat ?t = ?R div 2 ^ unat logp" by (simp only: unat_drop R(1))
  have rt: "unat (e_rng e - ?t) = ?R - ?R div 2 ^ unat logp" using p t R(1) by (simp add: unat_minus)
  show ?thesis
  proof (cases "v = 0")
    case True
    from enc_inv_narrow [OF assms(1) _ rt _ _ assms(3), of "e_val e" 0] p True show ?thesis
      by (simp add: enc_BitLogp_def Let_def)
  next
    case False
    have x: "unat (e_val e + (e_rng e - ?t)) = unat (e_val e) + (?R - ?R div 2 ^ unat logp)"
      using rt lt by (subst unat_plus) simp_all
    from enc_inv_narrow [OF assms(1) x t p(1) _ assms(3)] p False show ?thesis
      by (simp add: enc_BitLogp_def Let_def)
  qed
qed

lemma dec_BitLogp_inv:
  assumes "dec_inv bs d s" "valid_symbol (KLogp logp) v" "holds_code bs (step_symbol (KLogp logp) v s)"
  shows "\<exists>d'. decode_symbol (KLogp logp) d = Some (v, d') \<and> dec_inv bs d' (step_symbol (KLogp logp) v s) \<and> d_Err d' = d_Err d"
proof -
  let ?R = "st_rng s" and ?t = "drop_bit (unat logp) (d_rng d)" let ?T = "?R div 2 ^ unat logp"
  have R2: "2 ^ 23 < ?R" "unat (d_rng d) = ?R" using assms(1) by (auto simp: dec_inv_def dec_at_def)
  note p = BitLogp_parts [OF assms(2) R2(1)]
  have t: "unat ?t = ?T" by (simp only: unat_drop R2(2))
  show ?thesis
  proof (cases "v = 0")
    case True
    have holds: "holds_code bs (narrow 0 (?R - ?T) s)" using assms(3) True by (simp add: Let_def)
    have le: "?T \<le> unat (d_val d)" using dec_val_range(1) [OF assms(1) holds] p by simp
    then have no: "\<not> d_val d < ?t" using t by (simp add: word_less_nat_alt)
    obtain d' where "dec_normalize (d\<lparr>d_val := d_val d - ?t, d_rng := d_rng d - ?t\<rparr>) = Some d'" "dec_inv bs d' (narrow 0 (?R - ?T) s)" "d_Err d' = d_Err d"
      using dec_inv_narrow [OF assms(1) holds, of "d_val d - ?t" "d_rng d - ?t"] p le t R2(2) by (auto simp: unat_minus)
    then show ?thesis using True no by (simp add: dec_BitLogp_def Let_def)
  next
    case False
    then have v: "v = 1" using assms(2) by simp
    have holds: "holds_code bs (narrow (?R - ?T) ?T s)" using assms(3) v by (simp add: Let_def)
    have "unat (d_val d) < ?T" using dec_val_range(2) [OF assms(1) holds] p by simp
    then have yes: "d_val d < ?t" using t by (simp add: word_less_nat_alt)
    obtain d' where "dec_normalize (d\<lparr>d_val := d_val d, d_rng := ?t\<rparr>) = Some d'" "dec_inv bs d' (narrow (?R - ?T) ?T s)" "d_Err d' = d_Err d"
      using dec_inv_narrow [OF assms(1) holds, of "d_val d" ?t] p t by auto
    moreover have "d\<lparr>d_val := d_val d, d_rng := ?t\<rparr> = d\<lparr>d_rng := ?t\<rparr>" by (cases d) simp
    ultimately show ?thesis using v yes by (simp add: dec_BitLogp_def Let_def)
  qed
qed

text \<open>A uniform symbol out of \<open>ft\<close>.\<close>

lemma uniform_words:
  assumes "v < unat (ft :: u32)" "unat ft \<le> 2 ^ 16"
  shows "unat (word_of_nat v :: u32) = v" "unat (word_of_nat v + 1 :: u32) = v + 1"
  using assms by (simp_all add: unat_of_nat unat_plus_if')

lemma encode_uniform:
  assumes "enc_inv e s" "v < unat ft" "unat ft \<le> 2 ^ 16" "st_bytes s + 3 < 2 ^ 32"
  shows "\<exists>e'. rc_Encode (word_of_nat v) (word_of_nat v + 1) ft e = Some e' \<and> enc_inv e' (range_step v (v + 1) (unat ft) s)"
  using rc_Encode_inv [OF assms(1), of "word_of_nat v" "word_of_nat v + 1" ft] uniform_words [OF assms(2,3)] assms(2-4) by simp

lemma decode_uniform:
  assumes "dec_inv bs d s" "holds_code bs (range_step v (v + 1) (unat ft) s)" "v < unat ft" "unat ft \<le> 2 ^ 16"
  shows "\<exists>d'. rc_Decode ft d = (word_of_nat v, d\<lparr>d_ext := d_rng d div ft\<rparr>) \<and>
    rc_Update (word_of_nat v) (word_of_nat v + 1) ft (d\<lparr>d_ext := d_rng d div ft\<rparr>) = Some d' \<and>
    dec_inv bs d' (range_step v (v + 1) (unat ft) s) \<and> d_Err d' = d_Err d"
proof -
  note u = uniform_words [OF assms(3,4)]
  obtain fs where "rc_Decode ft d = (fs, d\<lparr>d_ext := d_rng d div ft\<rparr>)" "v \<le> unat fs" "unat fs < v + 1"
    using rc_Decode_inv [OF assms(1,2)] assms(3,4) by auto
  moreover from this have "fs = word_of_nat v" by (metis of_nat_unat ucast_id less_Suc_eq_le Suc_eq_plus1 le_antisym)
  ultimately show ?thesis
    using rc_Update_inv [OF assms(1), of "word_of_nat v" "word_of_nat v + 1" ft] assms(2-4) u by auto
qed


lemma unat_exp: "k \<le> 16 \<Longrightarrow> unat (push_bit k 1 :: u32) = 2 ^ k \<and> (2 :: nat) ^ k \<le> 2 ^ 16"
proof -
  assume k: "k \<le> 16"
  then have "(2 :: nat) ^ k \<le> 2 ^ 16" by (intro power_increasing) simp_all
  then show ?thesis using k by (simp only: unsigned_push_bit_eq push_bit_nat_def) (simp add: take_bit_nat_eq_self)
qed

lemma EncodeRaw_inv:
  assumes "enc_inv e s" "valid_symbol (KRaw n) v" "st_bytes s + 3 < 2 ^ 32"
  shows "\<exists>e'. encode_symbol (KRaw n) v e = Some e' \<and> enc_inv e' (step_symbol (KRaw n) v s)"
  using encode_uniform [OF assms(1), of v "push_bit (unat n) 1"] unat_exp [of "unat n"] assms(2,3)
  by (simp add: EncodeRawSymbol_def del: push_bit_of_1)

lemma DecodeRaw_inv:
  assumes "dec_inv bs d s" "valid_symbol (KRaw n) v" "holds_code bs (step_symbol (KRaw n) v s)"
  shows "\<exists>d'. decode_symbol (KRaw n) d = Some (v, d') \<and> dec_inv bs d' (step_symbol (KRaw n) v s) \<and> d_Err d' = d_Err d"
proof -
  let ?ft = "push_bit (unat n) 1 :: u32"
  have n: "unat n \<le> 16" "v < 2 ^ unat n" using assms(2) by simp_all
  note ft = unat_exp [OF n(1)]
  have "holds_code bs (range_step v (v + 1) (unat ?ft) s)" using assms(3) ft by simp
  from decode_uniform [OF assms(1) this] n(2) ft obtain d' where d': "rc_Decode ?ft d = (word_of_nat v, d\<lparr>d_ext := d_rng d div ?ft\<rparr>)"
    "rc_Update (word_of_nat v) (word_of_nat v + 1) ?ft (d\<lparr>d_ext := d_rng d div ?ft\<rparr>) = Some d'"
    "dec_inv bs d' (range_step v (v + 1) (2 ^ unat n) s)" "d_Err d' = d_Err d" by auto
  have "drop_bit (unat n) (d_rng d) = d_rng d div ?ft"
    by (simp only: word_unat_eq_iff unat_drop unat_div ft)
  moreover have "?ft \<noteq> 0" using ft by (metis unat_0 power_not_zero zero_neq_numeral)
  ultimately have "decodeBin n d = rc_Decode ?ft d" by (simp only: decodeBin_def rc_Decode_def Let_def if_False)
  then have "DecodeRawSymbol n d = Some (word_of_nat v, d')" using d'(1,2) by (simp add: DecodeRawSymbol_def)
  moreover have "unat (word_of_nat v :: u32) = v" using uniform_words(1) [of v ?ft] n(2) ft by simp
  ultimately show ?thesis using d'(3,4) by simp
qed

lemma EncodeFine_inv:
  assumes "enc_inv e s" "valid_symbol KFine v" "st_bytes s + 3 < 2 ^ 32"
  shows "\<exists>e'. encode_symbol KFine v e = Some e' \<and> enc_inv e' (step_symbol KFine v s)"
  using encode_uniform [OF assms(1), of v 64] assms(2,3) by (simp add: Encode64FineSym_def)

lemma DecodeFine_inv:
  assumes "dec_inv bs d s" "valid_symbol KFine v" "holds_code bs (step_symbol KFine v s)"
  shows "\<exists>d'. decode_symbol KFine d = Some (v, d') \<and> dec_inv bs d' (step_symbol KFine v s) \<and> d_Err d' = d_Err d"
proof -
  have v: "v < 64" using assms(2) by simp
  have ft: "v < unat (64 :: u32)" "unat (64 :: u32) \<le> 2 ^ 16" using v by simp_all
  have holds: "holds_code bs (range_step v (v + 1) (unat (64 :: u32)) s)" using assms(3) by simp
  from decode_uniform [OF assms(1) holds ft] obtain d' where d': "rc_Decode 64 d = (word_of_nat v, d\<lparr>d_ext := d_rng d div 64\<rparr>)"
    "rc_Update (word_of_nat v) (word_of_nat v + 1) 64 (d\<lparr>d_ext := d_rng d div 64\<rparr>) = Some d'"
    "dec_inv bs d' (range_step v (v + 1) 64 s)" "d_Err d' = d_Err d" by auto
  have R2: "2 ^ 23 < st_rng s" "unat (d_rng d) = st_rng s" using assms(1) by (auto simp: dec_inv_def dec_at_def)
  let ?e = "d_rng d div 64" let ?q = "d_val d div ?e"
  have e: "drop_bit 6 (d_rng d) = ?e" by (simp add: drop_bit_eq_div)
  have "unat ?e = st_rng s div 64" by (simp add: unat_div R2(2))
  then have "unat ?e \<noteq> 0" using R2(1) by simp
  then have e0: "?e \<noteq> 0" by auto
  have uv: "unat (word_of_nat v :: u32) = v" using uniform_words(1) [OF ft] .
  from d'(1) have "(64 :: u32) - ecMini (?q + 1) 64 = word_of_nat v" using e0 by (simp add: rc_Decode_def Let_def)
  then have "unat (64 - ecMini (?q + 1) 64 :: u32) = v" using uv by simp
  moreover have "unat (ecMini (?q + 1) 64 :: u32) \<le> 64" by (auto simp: ecMini_def word_less_nat_alt)
  ultimately have em: "64 - unat (ecMini (?q + 1) 64) = v" by (simp add: unat_minus)
  have "unat ?q \<le> unat (d_val d)" by (simp add: unat_div)
  also have "unat (d_val d) < 2 ^ 32 - 1"
    using assms(1) unsigned_less [of "d_rng d", where ?'a = nat] by (simp add: dec_inv_def dec_at_def)
  finally have "unat (?q + 1) = Suc (unat ?q)" by (subst unat_plus) simp_all
  then have "v = 64 - min (Suc (unat ?q)) 64" using em by (simp add: ecMini_def word_less_nat_alt split: if_splits)
  moreover have "63 - uint ?q = 63 - int (unat ?q)" by simp
  ultimately have sym: "(if 63 - uint ?q < 0 then 0 else if 64 < 63 - uint ?q then 64 else 63 - uint ?q) = int v"
    by (auto simp del: of_nat_unat)
  have "Decode64FineSym d = Some (int v, d')"
    using e0 d'(2) sym by (simp add: Decode64FineSym_def Let_def e)
  then show ?thesis using d'(3,4) by simp
qed


text \<open>Integers of any size: the upper eight bits as a symbol, the others raw.\<close>

lemma uint_small:
  assumes "valid_symbol (KUint ft) v" "uint_shift ft = 0"
  shows "unat ft \<le> 256" "\<not> ecUintBits < ilog (ft - 1)" "ft - 1 + 1 = ft"
proof -
  have u: "unat (ft - 1) = unat ft - 1" using assms(1) by (subst unat_minus) simp_all
  have b: "bit_len (unat ft - 1) \<le> 8" using assms(2) by (simp add: uint_shift_def)
  have "0 < unat ft - 1" using assms(1) by simp
  from bit_len_bounds [OF this] have "unat ft - 1 < 2 ^ bit_len (unat ft - 1)" by simp
  also have "(2 :: nat) ^ bit_len (unat ft - 1) \<le> 2 ^ 8" using b by (intro power_increasing) simp_all
  finally show "unat ft \<le> 256" by simp
  show "\<not> ecUintBits < ilog (ft - 1)" using b by (simp add: ilog_def u)
  show "ft - 1 + 1 = ft" by simp
qed

lemma uint_large:
  assumes "valid_symbol (KUint ft) v" "uint_shift ft = k" "k \<noteq> 0"
  shows "ecUintBits < ilog (ft - 1)" "nat (ilog (ft - 1) - ecUintBits) = k" "k \<le> 24"
    and "unat (drop_bit k (ft - 1) + 1) = (unat ft - 1) div 2 ^ k + 1" "(unat ft - 1) div 2 ^ k < 256" "v div 2 ^ k \<le> (unat ft - 1) div 2 ^ k"
    and "unat (word_of_nat v :: u32) = v" "v \<le> unat (ft - 1)"
proof -
  have u: "unat (ft - 1) = unat ft - 1" using assms(1) by (subst unat_minus) simp_all
  have k: "bit_len (unat ft - 1) = k + 8" using assms(2,3) by (auto simp: uint_shift_def)
  have "0 < unat ft - 1" using assms(1) by simp
  note b = bit_len_bounds [OF this, unfolded k]
  have ft: "unat ft < 2 ^ 32" using unsigned_less [of ft, where ?'a = nat] by simp
  have "k + 8 - 1 = k + 7" by simp
  then have "(2 :: nat) ^ (k + 7) < 2 ^ 32" using b ft by (simp only:) linarith
  then show "k \<le> 24" using power_less_imp_less_exp [of "2 :: nat" "k + 7" 32] by simp
  show "ecUintBits < ilog (ft - 1)" "nat (ilog (ft - 1) - ecUintBits) = k" using assms(3) by (simp_all add: ilog_def u k [simplified])
  have "unat ft - 1 < 256 * 2 ^ k" using b by (simp add: power_add)
  then show t: "(unat ft - 1) div 2 ^ k < 256" by (rule less_mult_imp_div_less)
  then show "unat (drop_bit k (ft - 1) + 1) = (unat ft - 1) div 2 ^ k + 1" by (subst unat_plus) (simp_all add: unat_drop u)
  show "v div 2 ^ k \<le> (unat ft - 1) div 2 ^ k" using assms(1) by (intro div_le_mono) auto
  show "unat (word_of_nat v :: u32) = v" using assms(1) ft by (simp add: unat_of_nat)
  show "v \<le> unat (ft - 1)" using assms(1) unfolding u by auto
qed

lemma EncodeUint_inv:
  assumes "enc_inv e s" "valid_symbol (KUint ft) v" "st_bytes s + 3 < 2 ^ 32"
  shows "\<exists>e'. encode_symbol (KUint ft) v e = Some e' \<and> enc_inv e' (step_symbol (KUint ft) v s)"
proof (cases "uint_shift ft = 0")
  case True
  note sm = uint_small [OF assms(2) True]
  have "\<exists>e'. rc_Encode (word_of_nat v) (word_of_nat v + 1) ft e = Some e' \<and> enc_inv e' (range_step v (v + 1) (unat ft) s)"
    by (rule encode_uniform [OF assms(1)]) (use assms(2,3) sm(1) in simp_all)
  then show ?thesis using True sm(2) by (simp add: EncodeUint_def Let_def)
next
  case False
  define k where "k = uint_shift ft"
  have k0: "k \<noteq> 0" using False by (simp add: k_def)
  note l = uint_large [OF assms(2) k_def [symmetric] k0]
  let ?t = "drop_bit k (ft - 1) + 1" and ?w = "word_of_nat v :: u32"
  have dv: "drop_bit k ?w = word_of_nat (v div 2 ^ k)"
  proof -
    have "unat (word_of_nat (v div 2 ^ k) :: u32) = v div 2 ^ k" using uniform_words(1) [of "v div 2 ^ k" ?t] l by simp
    then show ?thesis by (simp only: word_unat_eq_iff unat_drop l(7))
  qed
  obtain e1 where e1: "rc_Encode (drop_bit k ?w) (drop_bit k ?w + 1) ?t e = Some e1"
    "enc_inv e1 (range_step (v div 2 ^ k) (v div 2 ^ k + 1) ((unat ft - 1) div 2 ^ k + 1) s)"
    using encode_uniform [OF assms(1), of "v div 2 ^ k" ?t] l assms(3) dv by auto
  have m: "unat (?w AND (push_bit k 1 - 1)) = v mod 2 ^ k" using unat_and_exp [of k ?w] l(3,7) by (simp add: take_bit_eq_mod del: push_bit_of_1)
  have n: "unat (word_of_nat k :: u32) = k" using l(3) by (simp add: unat_of_nat)
  have "enc_inv (enc_BitsN (?w AND (push_bit k 1 - 1)) (word_of_nat k) e1)
    (add_bits (v mod 2 ^ k) k (range_step (v div 2 ^ k) (v div 2 ^ k + 1) ((unat ft - 1) div 2 ^ k + 1) s))"
    using enc_BitsN_inv [OF e1(2), of "word_of_nat k" "?w AND (push_bit k 1 - 1)"] l(3) by (simp only: m n) simp
  moreover have "EncodeUint ?w ft e = Some (enc_BitsN (?w AND (push_bit k 1 - 1)) (word_of_nat k) e1)"
    using l(1,2) e1(1) unfolding EncodeUint_def Let_def by (simp only: if_True option.map)
  ultimately show ?thesis using k0 by (simp add: Let_def flip: k_def)
qed

lemma DecodeUint_inv:
  assumes "dec_inv bs d s" "valid_symbol (KUint ft) v" "holds_code bs (step_symbol (KUint ft) v s)"
  shows "\<exists>d'. decode_symbol (KUint ft) d = Some (v, d') \<and> dec_inv bs d' (step_symbol (KUint ft) v s) \<and> d_Err d' = d_Err d"
proof (cases "uint_shift ft = 0")
  case True
  note sm = uint_small [OF assms(2) True]
  have v: "v < unat ft" "unat ft \<le> 2 ^ 16" using assms(2) sm(1) by simp_all
  have holds: "holds_code bs (range_step v (v + 1) (unat ft) s)" using assms(3) True by simp
  from decode_uniform [OF assms(1) holds v] obtain d' where d': "rc_Decode ft d = (word_of_nat v, d\<lparr>d_ext := d_rng d div ft\<rparr>)"
    "rc_Update (word_of_nat v) (word_of_nat v + 1) ft (d\<lparr>d_ext := d_rng d div ft\<rparr>) = Some d'"
    "dec_inv bs d' (range_step v (v + 1) (unat ft) s)" "d_Err d' = d_Err d" by blast
  then have "DecodeUint ft d = Some (word_of_nat v, d')"
    using sm(2) by (simp add: DecodeUint_def Let_def)
  then show ?thesis using d'(3,4) True uniform_words(1) [OF v] by simp
next
  case False
  define k where "k = uint_shift ft"
  have k0: "k \<noteq> 0" using False by (simp add: k_def)
  note l = uint_large [OF assms(2) k_def [symmetric] k0]
  let ?t = "drop_bit k (ft - 1) + 1" and ?q = "v div 2 ^ k" and ?m = "v mod 2 ^ k"
  let ?s = "range_step ?q (?q + 1) (unat ?t) s"
  have t: "?q < unat ?t" "unat ?t \<le> 2 ^ 16" using l by simp_all
  have holds2: "holds_code bs (add_bits ?m k ?s)" using assms(3) k0 l(4) by (simp add: Let_def flip: k_def)
  have "st_raw ?s < 2 ^ st_bits ?s" using assms(1) by (simp add: dec_inv_def)
  note holds1 = holds_raw(1) [OF holds2 this]
  from decode_uniform [OF assms(1) holds1 t] obtain d1 where d1: "rc_Decode ?t d = (word_of_nat ?q, d\<lparr>d_ext := d_rng d div ?t\<rparr>)"
    "rc_Update (word_of_nat ?q) (word_of_nat ?q + 1) ?t (d\<lparr>d_ext := d_rng d div ?t\<rparr>) = Some d1" "dec_inv bs d1 ?s" "d_Err d1 = d_Err d" by blast
  have n: "unat (word_of_nat k :: u32) = k" using l(3) by (simp add: unat_of_nat)
  obtain d2 where d2: "dec_BitsN (word_of_nat k) d1 = (word_of_nat ?m, d2)" "dec_inv bs d2 (add_bits ?m k ?s)" "d_Err d2 = d_Err d1"
    using dec_BitsN_inv [OF d1(3), of ?m "word_of_nat k"] holds2 l(3) by (auto simp: n)
  have uq: "unat (word_of_nat ?q :: u32) = ?q" by (rule uniform_words(1) [OF t])
  have lt: "?m < 2 ^ k" by simp
  have "(2 :: nat) ^ k < 2 ^ 32" using l(3) by (intro power_strict_increasing) simp_all
  then have "?m < 2 ^ 32" using lt by linarith
  then have um: "unat (word_of_nat ?m :: u32) = ?m" by (simp only: unat_of_nat) simp
  have "unat (word_of_nat ?m OR push_bit k (word_of_nat ?q) :: u32) = ?m + ?q * 2 ^ k"
    using unat_or_shift [of "word_of_nat ?m" k "word_of_nat ?q" 8] l lt by (simp only: um uq) simp
  then have v: "unat (push_bit k (word_of_nat ?q) OR word_of_nat ?m :: u32) = v" by (simp only: or.commute mod_div_mult_eq)
  have "DecodeUint ft d = Some (push_bit k (word_of_nat ?q) OR word_of_nat ?m, d2)"
    using l(1,2,8) d1(1,2) d2(1) v unfolding DecodeUint_def Let_def by (simp add: word_le_nat_alt)
  then show ?thesis using d2(2,3) d1(4) v k0 l(4) by (simp add: Let_def flip: k_def)
qed

lemma BitsN_inv:
  assumes "valid_symbol (KBits n) v"
  shows "enc_inv e s \<Longrightarrow> \<exists>e'. encode_symbol (KBits n) v e = Some e' \<and> enc_inv e' (step_symbol (KBits n) v s)"
    and "dec_inv bs d s \<Longrightarrow> holds_code bs (step_symbol (KBits n) v s) \<Longrightarrow>
      \<exists>d'. decode_symbol (KBits n) d = Some (v, d') \<and> dec_inv bs d' (step_symbol (KBits n) v s) \<and> d_Err d' = d_Err d"
proof -
  have v: "unat n \<le> 25" "v < 2 ^ unat n" using assms by simp_all
  have "(2 :: nat) ^ unat n < 2 ^ 32" using v(1) by (intro power_strict_increasing) simp_all
  then have "v < 2 ^ 32" using v(2) by linarith
  then have u: "unat (word_of_nat v :: u32) = v" by (simp only: unat_of_nat) simp
  show "\<exists>e'. encode_symbol (KBits n) v e = Some e' \<and> enc_inv e' (step_symbol (KBits n) v s)" if "enc_inv e s"
    using enc_BitsN_inv [OF that v(1), of "word_of_nat v"] v(2) by (simp add: u)
  show "\<exists>d'. decode_symbol (KBits n) d = Some (v, d') \<and> dec_inv bs d' (step_symbol (KBits n) v s) \<and> d_Err d' = d_Err d"
    if "dec_inv bs d s" "holds_code bs (step_symbol (KBits n) v s)"
    using dec_BitsN_inv [OF that(1) _ v] that(2) by (auto simp: u)
qed


section \<open>States of the code\<close>

lemma narrow_back:
  assumes "0 < r" "d + r \<le> st_rng s"
  shows "2 ^ 23 < st_rng (narrow d r s)" and "holds_code bs (narrow d r s) \<Longrightarrow> holds_code bs s"
    and "st_raw (narrow d r s) = st_raw s" and "st_bits (narrow d r s) = st_bits s"
  using nsh_big [OF assms(1)] holds_before [OF _ assms(2)] by (simp_all add: narrow_def)

lemma range_back:
  assumes "fl < fh" "fh \<le> ft" "ft \<le> 2 ^ 16" "2 ^ 23 < st_rng s"
  shows "2 ^ 23 < st_rng (range_step fl fh ft s)" and "holds_code bs (range_step fl fh ft s) \<Longrightarrow> holds_code bs s"
  using narrow_back [OF range_parts(4,5) [OF assms]] by (simp_all only: range_step_def)

lemma add_bits_back:
  assumes "v < 2 ^ n" "st_raw s < 2 ^ st_bits s"
  shows "st_raw (add_bits v n s) < 2 ^ st_bits (add_bits v n s)"
proof -
  have "Suc v * 2 ^ st_bits s \<le> 2 ^ n * 2 ^ st_bits s" using assms(1) by (intro mult_right_mono) simp_all
  then show ?thesis using assms(2) by (simp add: add_bits_def power_add mult.commute)
qed

lemma symbol_back:
  assumes "valid_symbol k v" "st_raw s < 2 ^ st_bits s" "2 ^ 23 < st_rng s"
  shows "st_raw (step_symbol k v s) < 2 ^ st_bits (step_symbol k v s) \<and> 2 ^ 23 < st_rng (step_symbol k v s) \<and>
    (holds_code bs (step_symbol k v s) \<longrightarrow> holds_code bs s)"
proof (cases k)
  case (KCdf cdf)
  from assms(1) have "valid_symbol (KCdf cdf) v" by (simp only: KCdf)
  note c = cdf_facts [OF this]
  have "unat (cdf ! v) - unat (cdf ! 0) < unat (cdf ! (v + 1)) - unat (cdf ! 0)"
    "unat (cdf ! (v + 1)) - unat (cdf ! 0) \<le> unat (last cdf) - unat (cdf ! 0)" "unat (last cdf) - unat (cdf ! 0) \<le> 2 ^ 16"
    using c by auto
  from range_back [OF this assms(3)] assms(2) show ?thesis by (simp add: KCdf)
next
  case (KIcdf icdf ftb)
  from assms(1) have "valid_symbol (KIcdf icdf ftb) v" by (simp only: KIcdf)
  from narrow_back [OF icdf_parts(3,4) [OF this assms(3)]] assms(2) show ?thesis by (simp add: KIcdf)
next
  case (KLogp logp)
  from assms(1) have "valid_symbol (KLogp logp) v" by (simp only: KLogp)
  note p = BitLogp_parts [OF this assms(3)]
  show ?thesis
    using narrow_back [of "st_rng s - st_rng s div 2 ^ unat logp" 0 s] narrow_back [of "st_rng s div 2 ^ unat logp" "st_rng s - st_rng s div 2 ^ unat logp" s] p assms(2)
    by (auto simp: KLogp Let_def)
next
  case (KRaw n)
  have "v < v + 1" "v + 1 \<le> 2 ^ unat n" "(2 :: nat) ^ unat n \<le> 2 ^ 16" using assms(1) unat_exp [of "unat n"] by (simp_all add: KRaw)
  from range_back [OF this assms(3)] assms(2) show ?thesis by (simp add: KRaw)
next
  case KFine
  have "v < v + 1" "v + 1 \<le> 64" "(64 :: nat) \<le> 2 ^ 16" using assms(1) by (simp_all add: KFine)
  from range_back [OF this assms(3)] assms(2) show ?thesis by (simp add: KFine)
next
  case (KUint ft)
  from assms(1) have valid: "valid_symbol (KUint ft) v" by (simp only: KUint)
  show ?thesis
  proof (cases "uint_shift ft = 0")
    case True
    have "v < v + 1" "v + 1 \<le> unat ft" "unat ft \<le> 2 ^ 16" using valid uint_small(1) [OF valid True] by simp_all
    from range_back [OF this assms(3)] assms(2) True show ?thesis by (simp add: KUint)
  next
    case False
    define k where "k = uint_shift ft"
    have k0: "k \<noteq> 0" using False by (simp add: k_def)
    note l = uint_large [OF valid k_def [symmetric] k0]
    let ?s = "range_step (v div 2 ^ k) (v div 2 ^ k + 1) ((unat ft - 1) div 2 ^ k + 1) s"
    have "v div 2 ^ k < v div 2 ^ k + 1" "v div 2 ^ k + 1 \<le> (unat ft - 1) div 2 ^ k + 1" "(unat ft - 1) div 2 ^ k + 1 \<le> 2 ^ 16" using l by simp_all
    note b = range_back [OF this assms(3)]
    have raw: "st_raw ?s < 2 ^ st_bits ?s" using assms(2) by simp
    have eq: "step_symbol (KUint ft) v s = add_bits (v mod 2 ^ k) k ?s" using k0 by (simp add: Let_def flip: k_def)
    have "st_rng (add_bits (v mod 2 ^ k) k ?s) = st_rng ?s" by (simp add: add_bits_def)
    then show ?thesis unfolding KUint eq
      using add_bits_back [OF _ raw, of "v mod 2 ^ k" k] holds_raw(1) [OF _ raw, of bs "v mod 2 ^ k" k] b by simp
  qed
next
  case (KBits n)
  have "v < 2 ^ unat n" using assms(1) by (simp add: KBits)
  from add_bits_back [OF this assms(2)] holds_raw(1) [OF _ assms(2), of bs v "unat n"] assms(3) show ?thesis
    by (simp add: KBits) (simp add: add_bits_def)
qed

lemma symbol_bytes: "st_bytes (step_symbol k v s) \<le> st_bytes s + 3"
  using nsh_le by (cases k) (auto simp: narrow_def range_step_def add_bits_def Let_def)

section \<open>Sequences of symbols\<close>

fun encode_all :: "('k \<Rightarrow> nat \<Rightarrow> RangeEncoder \<Rightarrow> RangeEncoder option) \<Rightarrow> ('k \<times> nat) list \<Rightarrow> RangeEncoder \<Rightarrow> RangeEncoder option" where
  "encode_all enc [] e = Some e"
| "encode_all enc ((k, v) # xs) e = (case enc k v e of None \<Rightarrow> None | Some e \<Rightarrow> encode_all enc xs e)"

fun decode_all :: "('k \<Rightarrow> RangeDecoder \<Rightarrow> (nat \<times> RangeDecoder) option) \<Rightarrow> 'k list \<Rightarrow> RangeDecoder \<Rightarrow> (nat list \<times> RangeDecoder) option" where
  "decode_all dec [] d = Some ([], d)"
| "decode_all dec (k # ks) d =
     (case dec k d of None \<Rightarrow> None | Some (v, d) \<Rightarrow> map_option (\<lambda>(vs, d). (v # vs, d)) (decode_all dec ks d))"

text \<open>
  What a code owes its clients: encoding a valid symbol takes a state to the next, by at most three bytes; a buffer that holds the
  next state holds the state before, and there the decoder reads the symbol.
\<close>

locale symbol_code =
  fixes enc :: "'k \<Rightarrow> nat \<Rightarrow> RangeEncoder \<Rightarrow> RangeEncoder option" and dec :: "'k \<Rightarrow> RangeDecoder \<Rightarrow> (nat \<times> RangeDecoder) option"
    and valid :: "'k \<Rightarrow> nat \<Rightarrow> bool" and step :: "'k \<Rightarrow> nat \<Rightarrow> rc_state \<Rightarrow> rc_state"
  assumes enc_step: "valid k v \<Longrightarrow> enc_inv e s \<Longrightarrow> st_bytes s + 3 < 2 ^ 32 \<Longrightarrow> \<exists>e'. enc k v e = Some e' \<and> enc_inv e' (step k v s)"
    and step_bytes: "st_bytes (step k v s) \<le> st_bytes s + 3"
    and step_raw: "valid k v \<Longrightarrow> st_raw s < 2 ^ st_bits s \<Longrightarrow> 2 ^ 23 < st_rng s \<Longrightarrow>
      st_raw (step k v s) < 2 ^ st_bits (step k v s) \<and> 2 ^ 23 < st_rng (step k v s)"
    and step_holds: "valid k v \<Longrightarrow> st_raw s < 2 ^ st_bits s \<Longrightarrow> 2 ^ 23 < st_rng s \<Longrightarrow> holds_code bs (step k v s) \<Longrightarrow> holds_code bs s"
    and dec_step: "valid k v \<Longrightarrow> dec_inv bs d s \<Longrightarrow> holds_code bs (step k v s) \<Longrightarrow>
      \<exists>d'. dec k d = Some (v, d') \<and> dec_inv bs d' (step k v s) \<and> d_Err d' = d_Err d"
begin

definition steps :: "('k \<times> nat) list \<Rightarrow> rc_state \<Rightarrow> rc_state" where
  "steps xs s = fold (\<lambda>(k, v). step k v) xs s"

lemma steps_bytes: "st_bytes (steps xs s) \<le> st_bytes s + 3 * length xs"
proof (induction xs arbitrary: s)
  case (Cons x xs)
  obtain k v where x: "x = (k, v)" by fastforce
  show ?case using Cons [of "step k v s"] step_bytes [of k v s] by (simp add: x steps_def)
qed (simp add: steps_def)

lemma encode_steps:
  assumes "\<forall>(k, v) \<in> set xs. valid k v" "enc_inv e s" "st_bytes s + 3 * length xs < 2 ^ 32"
  shows "\<exists>e'. encode_all enc xs e = Some e' \<and> enc_inv e' (steps xs s)"
  using assms
proof (induction xs arbitrary: e s)
  case (Cons x xs)
  obtain k v where x: "x = (k, v)" by fastforce
  obtain e1 where e1: "enc k v e = Some e1" "enc_inv e1 (step k v s)"
    using enc_step [of k v e s] Cons.prems by (auto simp: x)
  moreover have "\<exists>e'. encode_all enc xs e1 = Some e' \<and> enc_inv e' (steps xs (step k v s))"
    using Cons.prems(1,3) step_bytes [of k v s] by (intro Cons.IH e1(2)) (auto simp: x)
  ultimately show ?case by (simp add: x steps_def)
qed (simp add: steps_def)

lemma decode_steps:
  assumes "\<forall>(k, v) \<in> set xs. valid k v" "dec_inv bs d s" "holds_code bs (steps xs s)"
  shows "\<exists>d'. decode_all dec (map fst xs) d = Some (map snd xs, d') \<and> d_Err d' = d_Err d"
  using assms
proof (induction xs arbitrary: d s)
  case (Cons x xs)
  obtain k v where x: "x = (k, v)" by fastforce
  have before: "holds_code bs s" if "\<forall>(k, v) \<in> set ys. valid k v" "st_raw s < 2 ^ st_bits s" "2 ^ 23 < st_rng s" "holds_code bs (steps ys s)" for ys s
    using that
  proof (induction ys arbitrary: s)
    case (Cons y ys)
    then show ?case using step_raw [of "fst y" "snd y" s] step_holds [of "fst y" "snd y" s bs] by (auto simp: steps_def split_beta)
  qed (simp add: steps_def)
  have v: "valid k v" "st_raw s < 2 ^ st_bits s" "2 ^ 23 < st_rng s" using Cons.prems by (auto simp: x dec_inv_def)
  have "holds_code bs (step k v s)"
    using before [of xs "step k v s"] step_raw [OF v] Cons.prems by (simp add: x steps_def)
  from dec_step [OF v(1) Cons.prems(2) this] obtain d1 where d1: "dec k d = Some (v, d1)" "dec_inv bs d1 (step k v s)" "d_Err d1 = d_Err d" by blast
  moreover obtain d' where "decode_all dec (map fst xs) d1 = Some (map snd xs, d')" "d_Err d' = d_Err d1"
    using Cons.IH [OF _ d1(2)] Cons.prems by (auto simp: x steps_def)
  ultimately show ?case by (simp add: x)
qed simp

text \<open>The round trip through a buffer that was large enough.\<close>

lemma round_trip:
  assumes "\<forall>(k, v) \<in> set xs. valid k v" "length xs < 2 ^ 30" "n < 2 ^ 32"
  shows "\<exists>e. encode_all enc xs (NewRangeEncoder n) = Some e \<and>
    (e_err (Done e) = 0 \<longrightarrow>
      (\<exists>d d'. NewRangeDecoder (Bytes (Done e)) = Some d \<and> decode_all dec (map fst xs) d = Some (map snd xs, d') \<and> d_Err d' = 0))"
proof -
  have N: "st_bytes rc_start + 3 * length xs < 2 ^ 32 - 3" using assms(2) by (simp add: rc_start_def)
  then have "st_bytes rc_start + 3 * length xs < 2 ^ 32" by simp
  from encode_steps [OF assms(1) enc_inv_start [OF assms(3)] this]
  obtain e where e: "encode_all enc xs (NewRangeEncoder n) = Some e" "enc_inv e (steps xs rc_start)" by blast
  have "\<exists>d d'. NewRangeDecoder (Bytes (Done e)) = Some d \<and> decode_all dec (map fst xs) d = Some (map snd xs, d') \<and> d_Err d' = 0"
    if "e_err (Done e) = 0"
  proof -
    have "st_bytes (steps xs rc_start) + 3 < 2 ^ 32" using steps_bytes [of xs rc_start] N by linarith
    from Done_holds [OF e(2) this that]
    have holds: "holds_code (Bytes (Done e)) (steps xs rc_start)" and len: "length (Bytes (Done e)) < 2 ^ 32" by simp_all
    from dec_inv_start [OF len] obtain d where "NewRangeDecoder (Bytes (Done e)) = Some d" "dec_inv (Bytes (Done e)) d rc_start" "d_Err d = 0" by blast
    then show ?thesis using decode_steps [OF assms(1) _ holds] by fastforce
  qed
  then show ?thesis using e(1) by blast
qed

end


interpretation rc: symbol_code encode_symbol decode_symbol valid_symbol step_symbol
proof unfold_locales
  fix k v e s bs d
  show "st_bytes (step_symbol k v s) \<le> st_bytes s + 3" by (rule symbol_bytes)
  assume valid: "valid_symbol k v"
  show "\<exists>e'. encode_symbol k v e = Some e' \<and> enc_inv e' (step_symbol k v s)" if "enc_inv e s" "st_bytes s + 3 < 2 ^ 32"
    using valid that EncodeCDF_inv EncodeICDF_inv enc_BitLogp_inv EncodeRaw_inv EncodeFine_inv EncodeUint_inv BitsN_inv(1)
    by (cases k) (simp_all only:)
  show "\<exists>d'. decode_symbol k d = Some (v, d') \<and> dec_inv bs d' (step_symbol k v s) \<and> d_Err d' = d_Err d"
    if "dec_inv bs d s" "holds_code bs (step_symbol k v s)"
    using valid that DecodeCDF_inv DecodeICDF_inv dec_BitLogp_inv DecodeRaw_inv DecodeFine_inv DecodeUint_inv BitsN_inv(2)
    by (cases k) (simp_all only:)
  show "st_raw (step_symbol k v s) < 2 ^ st_bits (step_symbol k v s) \<and> 2 ^ 23 < st_rng (step_symbol k v s)"
    if "st_raw s < 2 ^ st_bits s" "2 ^ 23 < st_rng s"
    using symbol_back [OF valid that] by blast
  show "holds_code bs s" if "st_raw s < 2 ^ st_bits s" "2 ^ 23 < st_rng s" "holds_code bs (step_symbol k v s)"
    using symbol_back [OF valid that(1,2)] that(3) by blast
qed

section \<open>Evaluation of the encoder\<close>

lemma enc_normalize_eval:
  "ecCodeBot < e_rng e \<Longrightarrow> enc_normalize e = Some e"
  "e_rng e \<le> ecCodeBot \<Longrightarrow> enc_normalize e = enc_normalize (enc_shift e)"
  using enc_normalize.simps [of e] by (auto dest: leD)

lemma done_range_eval:
  "l \<le> 0 \<Longrightarrow> done_range l x e = e"
  "0 < l \<Longrightarrow> done_range l x e = done_range (l - 8) (push_bit 8 x AND (ecCodeTop - 1)) (carryOut (uint (drop_bit ecCodeShift x)) e)"
  using done_range.simps [of l x e] by (simp_all add: ecSymBits_def)

lemma done_window_eval:
  "sint used < 8 \<Longrightarrow> done_window w used e = ((w, used), e)"
  "8 \<le> sint used \<Longrightarrow> done_window w used e = done_window (drop_bit 8 w) (used - 8) (writeByteAtEnd (w AND ecSymMax) e)"
  using done_window.simps [of w used e] by (simp_all add: ecSymBits_def)

lemma bit_len_eval: "bit_len 0 = 0" "bit_len (numeral n) = Suc (bit_len (numeral n div 2))" "bit_len (Suc 0) = 1"
  by (subst bit_len.simps; simp add: bit_len.simps [of 0])+

lemma replicate_8: "replicate 8 x = [x, x, x, x, x, x, x, x]"
  by (simp add: numeral_eq_Suc)

lemmas rc_consts = ecSymBits_def ecCodeBits_def ecSymMax_def ecCodeTop_def ecCodeBot_def ecCodeExtra_def ecWindowSize_def ecUintBits_def ecCodeShift_def
lemmas rc_eval = enc_normalize_eval done_range_eval done_window_eval bit_len_eval ilog_def Let_def

text \<open>
  C23: the decoder is the inverse of the encoder: for every sequence of fewer than \<open>2 ^ 30\<close> symbols of any
  kinds (cumulative tables, inverse tables, weighted bits, raw symbols, fine lags, integers of any range, raw bits at the back of
  the buffer), the encoder returns, and when the buffer was large enough, which its error flag tells, the decoder set up
  on the finished buffer returns exactly the values that were encoded and reports no error, across every carry and every
  overlap of the two streams.
\<close>

theorem range_code_round_trip:
  assumes "\<forall>(k, v) \<in> set xs. valid_symbol k v" "length xs < 2 ^ 30" "n < 2 ^ 32"
  shows "\<exists>e. encode_all encode_symbol xs (NewRangeEncoder n) = Some e \<and>
    (enc_Err (Done e) = 0 \<longrightarrow>
      (\<exists>d d'. NewRangeDecoder (Bytes (Done e)) = Some d \<and> decode_all decode_symbol (map fst xs) d = Some (map snd xs, d') \<and> d_Err d' = 0))"
  using rc.round_trip [OF assms] by (simp add: enc_Err_def)

theorem range_code_round_trip_witness:
  "\<exists>e d d'. encode_all encode_symbol [(KLogp 1, 1), (KCdf [0, 3, 8, 16], 2), (KBits 3, 5), (KUint 1000, 777)] (NewRangeEncoder 8) = Some e \<and>
    enc_Err (Done e) = 0 \<and> NewRangeDecoder (Bytes (Done e)) = Some d \<and>
    decode_all decode_symbol [KLogp 1, KCdf [0, 3, 8, 16], KBits 3, KUint 1000] d = Some ([1, 2, 5, 777], d') \<and> d_Err d' = 0"
proof -
  let ?xs = "[(KLogp 1, 1), (KCdf [0, 3, 8, 16], 2), (KBits 3, 5), (KUint 1000, 777)]"
  let ?e1 = "\<lparr>e_buf = replicate 8 0, e_storage = 8, e_endOffs = 0, e_endWindow = 0, e_nendBits = 0, e_nbitsTotal = 33, e_offs = 0,
    e_rng = 1073741824, e_val = 1073741824, e_ext = 0, e_rem = - 1, e_err = 0\<rparr>"
  let ?e2 = "\<lparr>e_buf = replicate 8 0, e_storage = 8, e_endOffs = 0, e_endWindow = 0, e_nendBits = 0, e_nbitsTotal = 33, e_offs = 0,
    e_rng = 536870912, e_val = 1610612736, e_ext = 0, e_rem = - 1, e_err = 0\<rparr>"
  let ?e3 = "\<lparr>e_buf = replicate 8 0, e_storage = 8, e_endOffs = 0, e_endWindow = 5, e_nendBits = 3, e_nbitsTotal = 36, e_offs = 0,
    e_rng = 536870912, e_val = 1610612736, e_ext = 0, e_rem = - 1, e_err = 0\<rparr>"
  let ?e4 = "\<lparr>e_buf = replicate 8 0, e_storage = 8, e_endOffs = 0, e_endWindow = 13, e_nendBits = 5, e_nbitsTotal = 46, e_offs = 0,
    e_rng = 549755648, e_val = 1425938432, e_ext = 0, e_rem = 241, e_err = 0\<rparr>"
  have "enc_BitLogp 1 1 (NewRangeEncoder 8) = Some ?e1"
    by (simp add: NewRangeEncoder_def enc_BitLogp_def rc_consts rc_eval)
  moreover have "EncodeCDF 2 [0, 3, 8, 16] ?e1 = Some ?e2"
    by (simp add: EncodeCDF_def rc_Encode_def rc_consts rc_eval)
  moreover have "enc_BitsN 5 3 ?e2 = ?e3"
    by (simp add: enc_BitsN_def rc_consts rc_eval)
  moreover have "EncodeUint 777 1000 ?e3 = Some ?e4"
    by (simp add: EncodeUint_def rc_Encode_def enc_shift_def carryOut_def enc_BitsN_def rc_consts rc_eval)
  moreover have "enc_Err (Done ?e4) = 0"
    by (simp add: Done_def carryOut_def done_merge_def enc_writeByte_def writeByteAtEnd_def enc_Err_def rc_consts rc_eval)
  ultimately have "encode_all encode_symbol ?xs (NewRangeEncoder 8) = Some ?e4" "enc_Err (Done ?e4) = 0" by simp_all
  moreover have "\<forall>(k, v) \<in> set ?xs. valid_symbol k v" by simp
  note range_code_round_trip [OF this, of 8]
  ultimately show ?thesis by auto
qed

end
