(* ===== verification/CallLink.thy ===== *)
theory CallLink
  imports GroupCall
begin

text \<open>
  Call links and their waiting rooms (\<^verbatim>\<open>wa-core/signaling/call_link.go\<close>): the service requests that
  create, preview and join a link, the moderation of the waiting room, and the parsers of the
  acknowledgements and updates.
\<close>

section \<open>Data\<close>

type_synonym CallLinkMedia = string

definition CallLinkMediaAudio :: CallLinkMedia where "CallLinkMediaAudio = ''audio''"
definition CallLinkMediaVideo :: CallLinkMedia where "CallLinkMediaVideo = ''video''"

record CallLink =
  cl_Token :: string
  cl_Media :: CallLinkMedia

record CallLinkPreview =
  cp_Token :: string
  cp_Media :: CallLinkMedia
  cp_Creator :: JID
  cp_CreatorPN :: JID
  cp_WaitingRoomEnabled :: bool
  cp_IsAdmin :: bool

record CallLinkJoin =
  cj_Token :: string
  cj_Media :: CallLinkMedia
  cj_CallID :: string
  cj_CallCreator :: JID
  cj_WaitingRoomEnabled :: bool
  cj_InWaitingRoom :: bool
  cj_IsAdmin :: bool
  cj_Group :: "GroupCallUpdate option"

record WaitingRoomUser =
  wu_JID :: JID
  wu_PN :: JID
  wu_State :: string

record WaitingRoom =
  wr_CallID :: string
  wr_CallCreator :: JID
  wr_LinkToken :: string
  wr_Media :: CallLinkMedia
  wr_Enabled :: bool
  wr_IsAdmin :: bool
  wr_TransactionID :: u32
  wr_Users :: "WaitingRoomUser list"

section \<open>Requests\<close>

text \<open>
  \<open>strings.TrimSpace(s) == ""\<close>: every rune of \<open>s\<close> is a space of \<open>unicode.IsSpace\<close>, in UTF-8.
\<close>

definition ascii_space :: "char \<Rightarrow> bool" where
  "ascii_space c \<longleftrightarrow> c \<in> {CHR 0x09, CHR 0x0a, CHR 0x0b, CHR 0x0c, CHR 0x0d, CHR 0x20}"

fun blank :: "string \<Rightarrow> bool" where
  "blank [] = True"
| "blank (a # s) =
     (if ascii_space a then blank s
      else case s of
        b # t \<Rightarrow>
          if a = CHR 0xc2 \<and> (b = CHR 0x85 \<or> b = CHR 0xa0) then blank t
          else (case t of
            c # u \<Rightarrow>
              (a = CHR 0xe1 \<and> b = CHR 0x9a \<and> c = CHR 0x80 \<or>
               a = CHR 0xe2 \<and> b = CHR 0x80 \<and>
                 ((0x80 :: nat) \<le> of_char c \<and> of_char c \<le> (0x8a :: nat) \<or> c = CHR 0xa8 \<or> c = CHR 0xa9 \<or> c = CHR 0xaf) \<or>
               a = CHR 0xe2 \<and> b = CHR 0x81 \<and> c = CHR 0x9f \<or>
               a = CHR 0xe3 \<and> b = CHR 0x80 \<and> c = CHR 0x80) \<and> blank u
          | [] \<Rightarrow> False)
      | [] \<Rightarrow> False)"

definition validateCallLinkMedia :: "CallLinkMedia \<Rightarrow> sig_error + unit" where
  "validateCallLinkMedia media =
     (if media \<noteq> CallLinkMediaAudio \<and> media \<noteq> CallLinkMediaVideo then Inl (InvalidValue ''media'') else Inr ())"

definition buildCallServiceRequest :: "string \<Rightarrow> node \<Rightarrow> sig_error + node" where
  "buildCallServiceRequest requestID action =
     (if requestID = [] then Inl (InvalidIdentity ''request ID'')
      else Inr (Node ''call'' [(''to'', VJID (NewJID [] ''call'')), (''id'', VString requestID)] (VNodes [action])))"

definition BuildCallLinkCreate :: "CallLinkMedia \<Rightarrow> string \<Rightarrow> sig_error + node" where
  "BuildCallLinkCreate media requestID =
     bindE (validateCallLinkMedia media) (\<lambda>_.
       buildCallServiceRequest requestID (Node ''link_create'' [(''media'', VString media)] VNil))"

definition BuildCallLinkQuery :: "string \<Rightarrow> CallLinkMedia \<Rightarrow> string \<Rightarrow> sig_error + node" where
  "BuildCallLinkQuery token media requestID =
     (if blank token then Inl (InvalidIdentity ''token'')
      else bindE (validateCallLinkMedia media) (\<lambda>_.
        buildCallServiceRequest requestID
          (Node ''link_query'' [(''token'', VString token), (''media'', VString media)] VNil)))"

definition BuildCallLinkJoin :: "string \<Rightarrow> CallLinkMedia \<Rightarrow> string \<Rightarrow> sig_error + node" where
  "BuildCallLinkJoin token media requestID =
     (if blank token then Inl (InvalidIdentity ''token'')
      else bindE (validateCallLinkMedia media) (\<lambda>_.
        let children = [audioOpus ''16000''] @
              (if media = CallLinkMediaVideo
               then [Node ''video'' [(''dec'', VString ''H264''), (''device_orientation'', VString ''0'')] VNil] else []) @
              [Node ''net'' [(''medium'', VString ''2'')] VNil,
               Node ''capability'' [(''ver'', VString ''1'')] (VBytes CapabilityOffer)]
        in buildCallServiceRequest requestID
             (Node ''link_join'' [(''token'', VString token), (''media'', VString media)] (VNodes children))))"

definition buildWaitingRoomRequest ::
  "string \<Rightarrow> string \<Rightarrow> JID \<Rightarrow> string \<Rightarrow> attrs \<Rightarrow> node list \<Rightarrow> node" where
  "buildWaitingRoomRequest tag callID creator requestID extraAttrs children =
     (let as = fold (\<lambda>(k, v). set_attr k v) extraAttrs
                 [(''call-id'', VString callID), (''call-creator'', VJID creator)]
      in Node ''call'' [(''to'', VJID (NewJID callID ''call'')), (''id'', VString requestID)]
           (VNodes [Node tag as (VNodes children)]))"

definition BuildWaitingRoomToggle :: "string \<Rightarrow> JID \<Rightarrow> bool \<Rightarrow> string \<Rightarrow> node" where
  "BuildWaitingRoomToggle callID creator enabled requestID =
     buildWaitingRoomRequest ''waiting_room_toggle'' callID creator requestID
       [(''enabled'', VString (if enabled then ''1'' else ''0''))] []"

definition BuildWaitingRoomHeartbeat :: "string \<Rightarrow> JID \<Rightarrow> string \<Rightarrow> node" where
  "BuildWaitingRoomHeartbeat callID creator requestID =
     buildWaitingRoomRequest ''heartbeat'' callID creator requestID [(''type'', VString ''waiting_room'')] []"

definition BuildWaitingRoomAdmit :: "string \<Rightarrow> JID \<Rightarrow> JID \<Rightarrow> string \<Rightarrow> node" where
  "BuildWaitingRoomAdmit callID creator user requestID =
     buildWaitingRoomRequest ''waiting_room_admit'' callID creator requestID [] [Node ''user'' [(''jid'', VJID user)] VNil]"

definition BuildWaitingRoomDeny :: "string \<Rightarrow> JID \<Rightarrow> JID \<Rightarrow> string \<Rightarrow> node" where
  "BuildWaitingRoomDeny callID creator user requestID =
     buildWaitingRoomRequest ''waiting_room_deny'' callID creator requestID [] [Node ''user'' [(''jid'', VJID user)] VNil]"

section \<open>Acknowledgements\<close>

definition parseCallLinkMedia :: "string \<Rightarrow> sig_error + CallLinkMedia" where
  "parseCallLinkMedia v = bindE (validateCallLinkMedia v) (\<lambda>_. Inr v)"

definition validateCallLinkAckEnvelope :: "node option \<Rightarrow> string \<Rightarrow> sig_error + node" where
  "validateCallLinkAckEnvelope no expectedType =
     (case no of None \<Rightarrow> Inl (UnexpectedNode expectedType)
      | Some n \<Rightarrow>
        (let (cls, as) = attr_String ''class'' (AttrGetter n);
             (ty, as) = attr_String ''type'' as
         in if Tag n \<noteq> ''ack'' \<or> cls \<noteq> ''call'' \<or> ty \<noteq> expectedType then Inl (UnexpectedNode expectedType)
            else Inr n))"

definition validateCallLinkAck :: "node option \<Rightarrow> string \<Rightarrow> sig_error + node" where
  "validateCallLinkAck no expectedType =
     bindE (validateCallLinkAckEnvelope no expectedType) (\<lambda>n.
       case GetOptionalChildByTag n [expectedType] of
         (_, False) \<Rightarrow> Inl (MissingChild expectedType)
       | (child, True) \<Rightarrow> Inr child)"

definition ParseCallLinkCreateAck :: "node option \<Rightarrow> sig_error + CallLink" where
  "ParseCallLinkCreateAck no =
     bindE (validateCallLinkAck no ''link_create'') (\<lambda>child.
       let (rawMedia, as) = attr_String ''media'' (AttrGetter child)
       in bindE (parseCallLinkMedia rawMedia) (\<lambda>media.
          let (token, as) = attr_String ''token'' as
          in bindE (check_attrs ''link_create ACK'' as) (\<lambda>_.
             if token = [] then Inl (MissingChild ''token'') else Inr \<lparr>cl_Token = token, cl_Media = media\<rparr>)))"

definition ParseCallLinkQueryAck :: "node option \<Rightarrow> sig_error + CallLinkPreview" where
  "ParseCallLinkQueryAck no =
     bindE (validateCallLinkAck no ''link_query'') (\<lambda>child.
       let (rawMedia, as) = attr_String ''media'' (AttrGetter child)
       in bindE (parseCallLinkMedia rawMedia) (\<lambda>media.
          let (token, as) = attr_String ''token'' as;
              (creator, as) = attr_JID ''link_creator'' as;
              (creatorPN, as) = OptionalJIDOrEmpty ''link_creator_pn'' as
          in bindE (check_attrs ''link_query ACK'' as) (\<lambda>_.
             case GetOptionalChildByTag child [''waiting_room''] of
               (_, False) \<Rightarrow> Inl (MissingChild ''waiting_room'')
             | (waitingRoom, True) \<Rightarrow>
                 (let (enabled, wrAttrs) = OptionalString ''enabled'' (AttrGetter waitingRoom);
                      (isAdmin, wrAttrs) = OptionalString ''is_admin'' wrAttrs
                  in Inr \<lparr>cp_Token = token, cp_Media = media, cp_Creator = creator, cp_CreatorPN = creatorPN,
                          cp_WaitingRoomEnabled = (enabled = ''1''), cp_IsAdmin = (isAdmin = ''1'')\<rparr>))))"

definition parse_waiting_user :: "node \<Rightarrow> sig_error + WaitingRoomUser" where
  "parse_waiting_user child =
     (let (jid, as) = attr_JID ''jid'' (AttrGetter child);
          (pn, as) = OptionalJIDOrEmpty ''user_pn'' as;
          (state, as) = attr_String ''state'' as
      in bindE (check_attrs ''waiting room user'' as) (\<lambda>_. Inr \<lparr>wu_JID = jid, wu_PN = pn, wu_State = state\<rparr>))"

definition parseWaitingRoomNode :: "node option \<Rightarrow> sig_error + WaitingRoom" where
  "parseWaitingRoomNode no =
     (case no of None \<Rightarrow> Inl (UnexpectedNode ''waiting room'')
      | Some n \<Rightarrow>
        if Tag n \<noteq> ''waiting_room'' then Inl (UnexpectedNode ''waiting room'')
        else
          let (rawMedia, as) = attr_String ''media'' (AttrGetter n)
          in bindE (parseCallLinkMedia rawMedia) (\<lambda>media.
             let (callID, as) = attr_String ''call-id'' as;
                 (creator, as) = attr_JID ''call-creator'' as;
                 (linkToken, as) = attr_String ''link-token'' as;
                 (enabled, as) = OptionalString ''enabled'' as;
                 (isAdmin, as) = OptionalString ''is_admin'' as;
                 (raw, as) = OptionalString ''transaction-id'' as
             in bindE (if raw \<noteq> [] then parse_u32 ''transaction-id'' raw else Inr 0) (\<lambda>transactionID.
                bindE (check_attrs ''waiting room'' as) (\<lambda>_.
                bindE (parse_tagged ''user'' parse_waiting_user (GetChildren n)) (\<lambda>users.
                  Inr \<lparr>wr_CallID = callID, wr_CallCreator = creator, wr_LinkToken = linkToken, wr_Media = media,
                    wr_Enabled = (enabled = ''1''), wr_IsAdmin = (isAdmin = ''1''), wr_TransactionID = transactionID,
                    wr_Users = users\<rparr>)))))"

definition empty_join :: CallLinkJoin where
  "empty_join = \<lparr>cj_Token = [], cj_Media = [], cj_CallID = [], cj_CallCreator = EmptyJID, cj_WaitingRoomEnabled = False,
     cj_InWaitingRoom = False, cj_IsAdmin = False, cj_Group = None\<rparr>"

definition ParseCallLinkJoinAck :: "node option \<Rightarrow> sig_error + CallLinkJoin" where
  "ParseCallLinkJoinAck no =
     bindE (validateCallLinkAckEnvelope no ''link_join'') (\<lambda>n.
       let (waitingNode, hasWaiting) = GetOptionalChildByTag n [''waiting_room'']
       in bindE (if hasWaiting
                 then bindE (parseWaitingRoomNode (Some waitingNode)) (\<lambda>waiting.
                   Inr (empty_join\<lparr>cj_Token := wr_LinkToken waiting, cj_Media := wr_Media waiting,
                     cj_CallID := wr_CallID waiting, cj_CallCreator := wr_CallCreator waiting,
                     cj_WaitingRoomEnabled := wr_Enabled waiting, cj_IsAdmin := wr_IsAdmin waiting\<rparr>))
                 else Inr empty_join) (\<lambda>result.
          let (parsed, hasGroup) = ParseInitialGroupCallAck (Some n)
          in bindE parsed (\<lambda>group.
             bindE (case group of
                 Some g \<Rightarrow>
                   (let result = result\<lparr>cj_Group := Some g\<rparr>
                    in if cj_CallID result = []
                       then Inr (result\<lparr>cj_CallID := gu_CallID g, cj_CallCreator := gu_CallCreator g, cj_Media := gu_Media g\<rparr>)
                       else if cj_CallID result \<noteq> gu_CallID g \<or> cj_CallCreator result \<noteq> gu_CallCreator g
                       then Inl (Mismatch ''link_join ACK'')
                       else Inr result)
               | None \<Rightarrow> Inr result) (\<lambda>result.
             if \<not> hasWaiting \<and> \<not> hasGroup then Inl (MissingChild ''group_info and waiting_room'')
             else Inr (result\<lparr>cj_InWaitingRoom := hasWaiting \<and> cj_WaitingRoomEnabled result \<and> \<not> hasGroup\<rparr>)))))"

definition ParseWaitingRoomUpdate :: "node option \<Rightarrow> sig_error + WaitingRoom" where
  "ParseWaitingRoomUpdate no =
     (case no of None \<Rightarrow> Inl (UnexpectedNode ''waiting room update'')
      | Some n \<Rightarrow>
        if Tag n \<noteq> ''waiting_room_update'' then Inl (UnexpectedNode ''waiting room update'')
        else
          let (callID, as) = attr_String ''call-id'' (AttrGetter n);
              (creator, as) = attr_JID ''call-creator'' as
          in bindE (check_attrs ''waiting room update identity'' as) (\<lambda>_.
             case GetOptionalChildByTag n [''waiting_room''] of
               (_, False) \<Rightarrow> Inl (MissingChild ''waiting_room'')
             | (child, True) \<Rightarrow>
                 bindE (parseWaitingRoomNode (Some child)) (\<lambda>room.
                   if wr_CallID room \<noteq> callID \<or> wr_CallCreator room \<noteq> creator
                   then Inl (Mismatch ''waiting room update'') else Inr room)))"

definition BuildWaitingRoomUpdateAck :: "node option \<Rightarrow> sig_error + node" where
  "BuildWaitingRoomUpdateAck no =
     (case no of None \<Rightarrow> Inl (UnexpectedNode ''waiting room ACK'')
      | Some n \<Rightarrow>
        if Tag n \<noteq> ''call'' then Inl (UnexpectedNode ''waiting room ACK'')
        else case GetChildren n of
            [child] \<Rightarrow>
              if Tag child \<noteq> ''waiting_room_update'' then Inl (MissingChild ''update'')
              else
                (let (to, as) = attr_JID ''from'' (AttrGetter n);
                     (ident, as) = attr_String ''id'' as
                 in bindE (check_attrs ''waiting room ACK'' as) (\<lambda>_.
                    Inr (Node ''ack'' [(''to'', VJID to), (''id'', VString ident), (''class'', VString ''call''),
                      (''type'', VString ''waiting_room_update'')] VNil)))
          | _ \<Rightarrow> Inl (MissingChild ''update''))"

section \<open>Joining a link\<close>

lemma parseWaitingRoomNode_media:
  "parseWaitingRoomNode (Some n) = Inr w \<Longrightarrow> wr_Media w = ''audio'' \<or> wr_Media w = ''video''"
  by (auto simp: parseWaitingRoomNode_def parseCallLinkMedia_def validateCallLinkMedia_def CallLinkMediaAudio_def
      CallLinkMediaVideo_def bindE_Inr_conv Let_def split: if_splits prod.splits)

lemma validateCallLinkAckEnvelope_same: "validateCallLinkAckEnvelope (Some n) t = Inr n' \<Longrightarrow> n' = n"
  by (auto simp: validateCallLinkAckEnvelope_def Let_def split: prod.splits if_splits)

lemma ParseInitialGroupCallAck_flag:
  "ParseInitialGroupCallAck (Some n) = (Inr g, ok) \<Longrightarrow>
     (ok \<longleftrightarrow> g \<noteq> None) \<and> (g \<noteq> None \<longleftrightarrow> snd (GetOptionalChildByTag n [''group_info'']))"
  by (auto simp: ParseInitialGroupCallAck_def bindE_Inr_conv Let_def split: if_splits prod.splits option.splits)

text \<open>
  Whatever acknowledgement of a join is accepted, the outcome is consistent: the caller is
  admitted with a group snapshot of exactly the call the result names, or it is held in the
  waiting room of an enabled room, or the room lets it through without a snapshot; it is never in the waiting
  room and admitted at the same time, and a waiting room that names another call than the
  snapshot is refused.
\<close>

lemma join_ack_consistent:
  assumes "ParseCallLinkJoinAck (Some n) = Inr j"
  shows "(\<forall>g. cj_Group j = Some g \<longrightarrow> gu_CallID g = cj_CallID j \<and> gu_CallCreator g = cj_CallCreator j \<and> \<not> cj_InWaitingRoom j) \<and>
    (cj_InWaitingRoom j \<longleftrightarrow> cj_WaitingRoomEnabled j \<and> cj_Group j = None) \<and>
    (cj_Group j = None \<longrightarrow> snd (GetOptionalChildByTag n [''waiting_room''])) \<and>
    (cj_Group j \<noteq> None \<longleftrightarrow> snd (GetOptionalChildByTag n [''group_info'']))"
proof -
  obtain w hasW where w: "GetOptionalChildByTag n [''waiting_room''] = (w, hasW)" by fastforce
  obtain parsed hasG where g: "ParseInitialGroupCallAck (Some n) = (parsed, hasG)" by fastforce
  obtain n' where "validateCallLinkAckEnvelope (Some n) ''link_join'' = Inr n'"
    using assms by (cases "validateCallLinkAckEnvelope (Some n) ''link_join''") (simp_all add: ParseCallLinkJoinAck_def)
  then have "validateCallLinkAckEnvelope (Some n) ''link_join'' = Inr n"
    using validateCallLinkAckEnvelope_same by metis
  note j = assms [unfolded ParseCallLinkJoinAck_def, simplified this bindE_simps w g Let_def prod.case]
  obtain grp where grp: "parsed = Inr grp"
    using j by (auto simp: bindE_Inr_conv)
  have flag: "hasG \<longleftrightarrow> grp \<noteq> None" "grp \<noteq> None \<longleftrightarrow> snd (GetOptionalChildByTag n [''group_info''])"
    using ParseInitialGroupCallAck_flag [of n grp hasG] g grp by simp_all
  show ?thesis
    using j flag w g grp
    by (cases grp) (auto simp del: GetOptionalChildByTag.simps simp: bindE_Inr_conv empty_join_def split: if_splits)
qed


definition sample_join_ack :: node where
  "sample_join_ack = Node ''ack'' [(''class'', VString ''call''), (''type'', VString ''link_join'')]
     (VNodes [Node ''waiting_room'' [(''media'', VString ''video''), (''call-id'', VString ''c1''),
        (''call-creator'', VJID sample_jid), (''link-token'', VString ''tok''), (''enabled'', VString ''1'')]
        (VNodes [Node ''user'' [(''jid'', VJID sample_jid), (''state'', VString ''pending'')] VNil])])"

text \<open>Which link requests are refused, and what a sent request says.\<close>

lemma BuildCallLinkJoin_iff:
  "(\<exists>n. BuildCallLinkJoin token media requestID = Inr n) \<longleftrightarrow>
     \<not> blank token \<and> media \<in> {''audio'', ''video''} \<and> requestID \<noteq> []"
  by (auto simp: BuildCallLinkJoin_def validateCallLinkMedia_def buildCallServiceRequest_def CallLinkMediaAudio_def
      CallLinkMediaVideo_def Let_def)

lemma BuildCallLinkJoin_received:
  assumes "BuildCallLinkJoin token media requestID = Inr n" "short token" "short requestID"
  shows "wf_node n \<and> (\<exists>action. GetChildren (norm_node n) = [action] \<and> Tag action = ''link_join'' \<and>
    string_attr action ''token'' = token \<and> string_attr action ''media'' = media \<and>
    (OfferHasVideo (Some action) \<longleftrightarrow> media = ''video''))"
proof -
  have "\<not> blank token" "token \<noteq> []" "media = ''audio'' \<or> media = ''video''" "requestID \<noteq> []"
    using assms(1) BuildCallLinkJoin_iff [of token media requestID] by auto
  then show ?thesis using assms
    by (auto simp: BuildCallLinkJoin_def validateCallLinkMedia_def buildCallServiceRequest_def CallLinkMediaAudio_def
        CallLinkMediaVideo_def Let_def audioOpus_def MaxInt32_def CapabilityOffer_def wf_jid_def NewJID_def GetChildren_def
        string_attr_def skipped_attr_def OfferHasVideo_def)
qed

text \<open>The moderation requests carry the identity of the call like every other stanza.\<close>

lemma waiting_room_requests_received:
  assumes "wf_call callID (NewJID callID ''call'') creator" "wf_jid user" "short requestID" "callID \<noteq> []"
    "n \<in> {BuildWaitingRoomToggle callID creator b requestID, BuildWaitingRoomHeartbeat callID creator requestID,
       BuildWaitingRoomAdmit callID creator user requestID, BuildWaitingRoomDeny callID creator user requestID}"
  shows "wf_node n \<and> (\<exists>action. GetChildren (norm_node n) = [action] \<and>
    action_identity action = ((callID, norm_jid creator), AttrGetter action))"
  using assms
  by (auto simp: BuildWaitingRoomToggle_def BuildWaitingRoomHeartbeat_def BuildWaitingRoomAdmit_def
      BuildWaitingRoomDeny_def buildWaitingRoomRequest_def attr_writes MaxInt32_def wf_call_def GetChildren_def
      action_identity_def attr_reads skipped_attr_def)

end
