(* ===== verification/CallSession.thy ===== *)
theory CallSession
  imports Jid "HOL-Library.AList" "HOL-Library.Multiset"
begin

text \<open>
  The lifecycle of calls: the phase machine of a call session (\<^verbatim>\<open>wa-core/call_crypto_session.go\<close>) and the
  registry of active calls with the cancel handles of their media tasks
  (\<^verbatim>\<open>wa-core/call_registry.go\<close>). Logging is left out. Every method of the registry holds its lock while it
  touches the map, so a method is one step.
\<close>

section \<open>Sessions\<close>

datatype CallDirection = CallDirectionOutgoing | CallDirectionIncoming

datatype CallPhase = CallPhaseIdle | CallPhaseCalling | CallPhaseRinging | CallPhaseConnecting | CallPhaseActive
  | CallPhaseEnded | CallPhaseWaitingRoom

record CallSession =
  cs_CallID :: string
  cs_PeerJID :: JID
  cs_CallCreator :: JID
  cs_Direction :: CallDirection
  cs_IsVideo :: bool
  cs_phase :: CallPhase

definition NewOutgoingSession :: "string \<Rightarrow> JID \<Rightarrow> JID \<Rightarrow> CallSession" where
  "NewOutgoingSession callID peerJID callCreator =
     \<lparr>cs_CallID = callID, cs_PeerJID = peerJID, cs_CallCreator = callCreator, cs_Direction = CallDirectionOutgoing,
      cs_IsVideo = False, cs_phase = CallPhaseIdle\<rparr>"

definition NewIncomingSession :: "string \<Rightarrow> JID \<Rightarrow> JID \<Rightarrow> CallSession" where
  "NewIncomingSession callID peerJID callCreator =
     \<lparr>cs_CallID = callID, cs_PeerJID = peerJID, cs_CallCreator = callCreator, cs_Direction = CallDirectionIncoming,
      cs_IsVideo = False, cs_phase = CallPhaseRinging\<rparr>"

definition IsActive :: "CallSession \<Rightarrow> bool" where
  "IsActive s \<longleftrightarrow> cs_phase s = CallPhaseActive"

definition IsEnded :: "CallSession \<Rightarrow> bool" where
  "IsEnded s \<longleftrightarrow> cs_phase s = CallPhaseEnded"

text \<open>The cases of the switch in their order.\<close>

definition TransitionTo :: "CallPhase \<Rightarrow> CallSession \<Rightarrow> bool \<times> CallSession" where
  "TransitionTo nxt s =
     (let ok =
        (if cs_phase s = CallPhaseEnded then False
         else if nxt = CallPhaseEnded then True
         else if cs_phase s = CallPhaseIdle \<and> nxt = CallPhaseCalling then cs_Direction s = CallDirectionOutgoing
         else if cs_phase s = CallPhaseCalling \<and> nxt = CallPhaseRinging then True
         else if cs_phase s = CallPhaseRinging \<and> nxt = CallPhaseConnecting then True
         else if (cs_phase s = CallPhaseCalling \<or> cs_phase s = CallPhaseConnecting) \<and> nxt = CallPhaseWaitingRoom then True
         else if cs_phase s = CallPhaseWaitingRoom \<and> nxt = CallPhaseConnecting then True
         else if cs_phase s = CallPhaseConnecting \<and> nxt = CallPhaseActive then True
         else if cs_phase s = nxt then True
         else False)
      in (ok, if ok then s\<lparr>cs_phase := nxt\<rparr> else s))"

definition phaseName :: "CallPhase \<Rightarrow> string" where
  "phaseName p = (case p of CallPhaseIdle \<Rightarrow> ''idle'' | CallPhaseCalling \<Rightarrow> ''calling'' | CallPhaseRinging \<Rightarrow> ''ringing''
     | CallPhaseConnecting \<Rightarrow> ''connecting'' | CallPhaseActive \<Rightarrow> ''active'' | CallPhaseEnded \<Rightarrow> ''ended''
     | CallPhaseWaitingRoom \<Rightarrow> ''waiting_room'')"

section \<open>The phase machine\<close>

text \<open>The legal moves of a call, as a step relation.\<close>

inductive phase_step :: "CallDirection \<Rightarrow> CallPhase \<Rightarrow> CallPhase \<Rightarrow> bool" for dir where
  dial: "dir = CallDirectionOutgoing \<Longrightarrow> phase_step dir CallPhaseIdle CallPhaseCalling"
| ring: "phase_step dir CallPhaseCalling CallPhaseRinging"
| answer: "phase_step dir CallPhaseRinging CallPhaseConnecting"
| hold_calling: "phase_step dir CallPhaseCalling CallPhaseWaitingRoom"
| hold_connecting: "phase_step dir CallPhaseConnecting CallPhaseWaitingRoom"
| admit: "phase_step dir CallPhaseWaitingRoom CallPhaseConnecting"
| media: "phase_step dir CallPhaseConnecting CallPhaseActive"
| hangup: "p \<noteq> CallPhaseEnded \<Longrightarrow> phase_step dir p CallPhaseEnded"

inductive_simps phase_step_from [simp]:
  "phase_step dir CallPhaseIdle q" "phase_step dir CallPhaseCalling q" "phase_step dir CallPhaseRinging q"
  "phase_step dir CallPhaseConnecting q" "phase_step dir CallPhaseActive q" "phase_step dir CallPhaseEnded q"
  "phase_step dir CallPhaseWaitingRoom q"

lemma TransitionTo_step:
  "fst (TransitionTo q s) \<longleftrightarrow> phase_step (cs_Direction s) (cs_phase s) q \<or> (cs_phase s = q \<and> q \<noteq> CallPhaseEnded)"
  by (cases "cs_phase s"; cases q) (simp_all add: TransitionTo_def Let_def)

lemma TransitionTo_effect:
  "snd (TransitionTo q s) = (if fst (TransitionTo q s) then s\<lparr>cs_phase := q\<rparr> else s)"
  by (simp add: TransitionTo_def Let_def)

text \<open>A run of attempted transitions, with the phases passed through.\<close>

fun run_phases :: "CallPhase list \<Rightarrow> CallSession \<Rightarrow> CallSession" where
  "run_phases [] s = s"
| "run_phases (q # qs) s = run_phases qs (snd (TransitionTo q s))"

fun visited :: "CallPhase list \<Rightarrow> CallSession \<Rightarrow> CallPhase list" where
  "visited [] s = [cs_phase s]"
| "visited (q # qs) s = cs_phase s # visited qs (snd (TransitionTo q s))"

lemma TransitionTo_keeps [simp]:
  "cs_Direction (snd (TransitionTo q s)) = cs_Direction s" "cs_CallID (snd (TransitionTo q s)) = cs_CallID s"
  by (simp_all add: TransitionTo_def Let_def)

lemma run_phases_keeps [simp]:
  "cs_Direction (run_phases qs s) = cs_Direction s" "cs_CallID (run_phases qs s) = cs_CallID s"
  by (induction qs arbitrary: s) simp_all

lemma TransitionTo_phase:
  "cs_phase (snd (TransitionTo q s)) = cs_phase s \<or> phase_step (cs_Direction s) (cs_phase s) (cs_phase (snd (TransitionTo q s)))"
  using TransitionTo_step [of q s] by (auto simp: TransitionTo_effect)

lemma run_phases_reachable: "(phase_step (cs_Direction s))\<^sup>*\<^sup>* (cs_phase s) (cs_phase (run_phases qs s))"
proof (induction qs arbitrary: s)
  case (Cons q qs)
  have "(phase_step (cs_Direction s))\<^sup>*\<^sup>* (cs_phase (snd (TransitionTo q s))) (cs_phase (run_phases (q # qs) s))"
    using Cons.IH [of "snd (TransitionTo q s)"] by simp
  moreover have "(phase_step (cs_Direction s))\<^sup>*\<^sup>* (cs_phase s) (cs_phase (snd (TransitionTo q s)))"
    using TransitionTo_phase [of q s] by (elim disjE) (simp, rule r_into_rtranclp)
  ultimately show ?case by (meson rtranclp_trans)
qed simp

text \<open>How far a call has come; a step never goes back, except between connecting and the waiting room.\<close>

fun progress :: "CallPhase \<Rightarrow> nat" where
  "progress CallPhaseIdle = 0"
| "progress CallPhaseCalling = 1"
| "progress CallPhaseRinging = 2"
| "progress CallPhaseConnecting = 3"
| "progress CallPhaseWaitingRoom = 3"
| "progress CallPhaseActive = 4"
| "progress CallPhaseEnded = 5"

lemma phase_step_progress: "phase_step dir p q \<Longrightarrow> progress p \<le> progress q"
  by (cases rule: phase_step.cases) (assumption, simp_all, cases p, simp_all)

lemma reachable_progress: "(phase_step dir)\<^sup>*\<^sup>* p q \<Longrightarrow> progress p \<le> progress q"
  by (induction rule: rtranclp_induct) (auto dest: phase_step_progress intro: order_trans)

text \<open>A call is active only after it has been connecting: one step before the first active phase.\<close>

lemma active_via_connecting:
  assumes "cs_phase s \<noteq> CallPhaseActive" "CallPhaseActive \<in> set (visited qs s)"
  shows "CallPhaseConnecting \<in> set (visited qs s)"
  using assms
proof (induction qs arbitrary: s)
  case (Cons q qs)
  let ?s' = "snd (TransitionTo q s)"
  show ?case
  proof (cases "cs_phase ?s' = CallPhaseActive")
    case True
    then have "phase_step (cs_Direction s) (cs_phase s) CallPhaseActive"
      using TransitionTo_phase [of q s] Cons.prems(1) by auto
    then have "cs_phase s = CallPhaseConnecting" by (cases "cs_phase s") auto
    then show ?thesis by simp
  next
    case False
    with Cons.prems Cons.IH [of ?s'] show ?thesis by auto
  qed
qed simp


lemma visited_progress: "sorted (map progress (visited qs s)) \<and> (\<forall>p\<in>set (visited qs s). progress (cs_phase s) \<le> progress p)"
proof (induction qs arbitrary: s)
  case (Cons q qs)
  have "progress (cs_phase s) \<le> progress (cs_phase (snd (TransitionTo q s)))"
    using TransitionTo_phase [of q s] phase_step_progress by auto
  with Cons.IH [of "snd (TransitionTo q s)"] show ?case by (auto intro: order_trans)
qed simp

lemma last_visited: "visited qs s \<noteq> [] \<and> last (visited qs s) = cs_phase (run_phases qs s)"
  by (induction qs arbitrary: s) auto

lemma visited_ended:
  assumes "CallPhaseEnded \<in> set (visited qs s)"
  shows "IsEnded (run_phases qs s)"
proof -
  obtain ys zs where v: "visited qs s = ys @ CallPhaseEnded # zs" using assms by (auto simp: in_set_conv_decomp)
  have "progress CallPhaseEnded \<le> progress (last (visited qs s))"
    using visited_progress [of qs s] last_in_set [of zs] unfolding v by (auto simp: sorted_append)
  then show ?thesis using last_visited [of qs s] by (cases "cs_phase (run_phases qs s)") (auto simp: IsEnded_def)
qed

text \<open>
  C16: a call, whatever transitions are attempted on it, only moves forward: the phases it
  passes through never go back except between connecting and the waiting room, an ended call
  stays ended, it is active only after connecting, an incoming call is never calling, and an
  attempted transition is accepted exactly when it is a legal move or no move.
\<close>

theorem call_lifecycle:
  assumes "s = NewOutgoingSession callID peer creator \<or> s = NewIncomingSession callID peer creator"
  shows "sorted (map progress (visited qs s)) \<and>
    (CallPhaseEnded \<in> set (visited qs s) \<longrightarrow> IsEnded (run_phases qs s)) \<and>
    (CallPhaseActive \<in> set (visited qs s) \<longrightarrow> CallPhaseConnecting \<in> set (visited qs s)) \<and>
    (cs_Direction s = CallDirectionIncoming \<longrightarrow> CallPhaseCalling \<notin> set (visited qs s)) \<and>
    (fst (TransitionTo q (run_phases qs s)) \<longleftrightarrow>
      phase_step (cs_Direction s) (cs_phase (run_phases qs s)) q \<or> cs_phase (run_phases qs s) = q \<and> q \<noteq> CallPhaseEnded)"
proof (intro conjI impI)
  show "sorted (map progress (visited qs s))" using visited_progress by blast
  show "IsEnded (run_phases qs s)" if "CallPhaseEnded \<in> set (visited qs s)" by (rule visited_ended [OF that])
  show "CallPhaseConnecting \<in> set (visited qs s)" if "CallPhaseActive \<in> set (visited qs s)"
    using assms that active_via_connecting [of s qs] by (auto simp: NewOutgoingSession_def NewIncomingSession_def)
  show "CallPhaseCalling \<notin> set (visited qs s)" if "cs_Direction s = CallDirectionIncoming"
    using assms that visited_progress [of qs s] by (auto simp: NewOutgoingSession_def NewIncomingSession_def)
  show "fst (TransitionTo q (run_phases qs s)) \<longleftrightarrow>
      phase_step (cs_Direction s) (cs_phase (run_phases qs s)) q \<or> cs_phase (run_phases qs s) = q \<and> q \<noteq> CallPhaseEnded"
    by (simp add: TransitionTo_step)
qed

theorem call_lifecycle_witness:
  "let s = NewIncomingSession ''c1'' EmptyJID EmptyJID; qs = [CallPhaseActive, CallPhaseConnecting, CallPhaseActive]
   in visited qs s = [CallPhaseRinging, CallPhaseRinging, CallPhaseConnecting, CallPhaseActive] \<and>
      sorted (map progress (visited qs s)) \<and> CallPhaseCalling \<notin> set (visited qs s)"
proof -
  let ?s = "NewIncomingSession ''c1'' EmptyJID EmptyJID" and ?qs = "[CallPhaseActive, CallPhaseConnecting, CallPhaseActive]"
  have "visited ?qs ?s = [CallPhaseRinging, CallPhaseRinging, CallPhaseConnecting, CallPhaseActive]"
    by (simp add: NewIncomingSession_def TransitionTo_def)
  moreover have "cs_Direction ?s = CallDirectionIncoming" by (simp add: NewIncomingSession_def)
  moreover have "?s = NewOutgoingSession ''c1'' EmptyJID EmptyJID \<or> ?s = NewIncomingSession ''c1'' EmptyJID EmptyJID" by simp
  ultimately show ?thesis using call_lifecycle [of ?s "''c1''" EmptyJID EmptyJID ?qs] by (simp add: Let_def)
qed

section \<open>The registry\<close>

text \<open>
  A cancel handle is a number; cancelling it appends it to the log of cancelled handles. The map is an
  association list with distinct keys, in the unspecified order of Go's iteration.
\<close>

record callEntry =
  ce_session :: CallSession
  ce_mediaTask :: "nat option"

record CallRegistry =
  calls :: "(string \<times> callEntry) list"
  cancelled :: "nat list"

definition NewCallRegistry :: CallRegistry where
  "NewCallRegistry = \<lparr>calls = [], cancelled = []\<rparr>"

definition cancel_task :: "nat option \<Rightarrow> CallRegistry \<Rightarrow> CallRegistry" where
  "cancel_task t r = (case t of None \<Rightarrow> r | Some h \<Rightarrow> r\<lparr>cancelled := cancelled r @ [h]\<rparr>)"

definition Insert :: "CallSession \<Rightarrow> CallRegistry \<Rightarrow> bool \<times> CallRegistry" where
  "Insert session r =
     (if map_of (calls r) (cs_CallID session) \<noteq> None then (False, r)
      else (True, r\<lparr>calls := AList.update (cs_CallID session) \<lparr>ce_session = session, ce_mediaTask = None\<rparr> (calls r)\<rparr>))"

definition SetMediaTask :: "string \<Rightarrow> nat \<Rightarrow> CallRegistry \<Rightarrow> CallRegistry" where
  "SetMediaTask callID cancel r =
     (case map_of (calls r) callID of
        None \<Rightarrow> cancel_task (Some cancel) r
      | Some entry \<Rightarrow>
          cancel_task (ce_mediaTask entry)
            (r\<lparr>calls := AList.update callID (entry\<lparr>ce_mediaTask := Some cancel\<rparr>) (calls r)\<rparr>))"

definition reg_Phase :: "string \<Rightarrow> CallRegistry \<Rightarrow> CallPhase \<times> bool" where
  "reg_Phase callID r = (case map_of (calls r) callID of Some entry \<Rightarrow> (cs_phase (ce_session entry), True)
     | None \<Rightarrow> (CallPhaseIdle, False))"

definition Transition :: "string \<Rightarrow> CallPhase \<Rightarrow> CallRegistry \<Rightarrow> bool \<times> CallRegistry" where
  "Transition callID nxt r =
     (case map_of (calls r) callID of
        None \<Rightarrow> (False, r)
      | Some entry \<Rightarrow>
          (let (ok, session) = TransitionTo nxt (ce_session entry)
           in (ok, r\<lparr>calls := AList.update callID (entry\<lparr>ce_session := session\<rparr>) (calls r)\<rparr>)))"

definition Snapshot :: "string \<Rightarrow> CallRegistry \<Rightarrow> CallSession option" where
  "Snapshot callID r = map_option ce_session (map_of (calls r) callID)"

definition ActiveCount :: "CallRegistry \<Rightarrow> nat" where
  "ActiveCount r = length (calls r)"

definition Remove :: "string \<Rightarrow> CallRegistry \<Rightarrow> bool \<times> CallRegistry" where
  "Remove callID r =
     (case map_of (calls r) callID of
        None \<Rightarrow> (False, r)
      | Some entry \<Rightarrow> (True, cancel_task (ce_mediaTask entry) (r\<lparr>calls := AList.delete callID (calls r)\<rparr>)))"

definition AbortAll :: "CallRegistry \<Rightarrow> nat \<times> CallRegistry" where
  "AbortAll r = (length (calls r), fold (\<lambda>(_, entry). cancel_task (ce_mediaTask entry)) (calls r) (r\<lparr>calls := []\<rparr>))"

section \<open>No task outlives its call\<close>

datatype reg_op = OInsert CallSession | OSetMediaTask string nat | OTransition string CallPhase | ORemove string | OAbortAll

fun reg_step :: "reg_op \<Rightarrow> CallRegistry \<Rightarrow> CallRegistry" where
  "reg_step (OInsert s) r = snd (Insert s r)"
| "reg_step (OSetMediaTask c h) r = SetMediaTask c h r"
| "reg_step (OTransition c p) r = snd (Transition c p r)"
| "reg_step (ORemove c) r = snd (Remove c r)"
| "reg_step OAbortAll r = snd (AbortAll r)"

fun given_handle :: "reg_op \<Rightarrow> nat multiset" where
  "given_handle (OSetMediaTask c h) = {#h#}"
| "given_handle _ = {#}"

definition given_handles :: "reg_op list \<Rightarrow> nat multiset" where
  "given_handles ops = sum_list (map given_handle ops)"

text \<open>The handles attached to registered calls.\<close>

definition attached :: "CallRegistry \<Rightarrow> nat multiset" where
  "attached r = mset (List.map_filter (\<lambda>(_, e). ce_mediaTask e) (calls r))"

definition wf_registry :: "CallRegistry \<Rightarrow> bool" where
  "wf_registry r \<longleftrightarrow> distinct (map fst (calls r)) \<and> list_all (\<lambda>(c, e). cs_CallID (ce_session e) = c) (calls r)"


abbreviation tasks :: "(string \<times> callEntry) list \<Rightarrow> nat list" where
  "tasks al \<equiv> List.map_filter (\<lambda>(_, e). ce_mediaTask e) al"

abbreviation opt_mset :: "'a option \<Rightarrow> 'a multiset" where
  "opt_mset x \<equiv> (case x of None \<Rightarrow> {#} | Some a \<Rightarrow> {#a#})"

lemma tasks_update:
  assumes "distinct (map fst al)"
  shows "mset (tasks (AList.update c e al)) + opt_mset (Option.bind (map_of al c) ce_mediaTask) =
    mset (tasks al) + opt_mset (ce_mediaTask e)"
  using assms
proof (induction al)
  case Nil
  then show ?case by (simp add: map_filter_simps split: option.split)
next
  case (Cons a al)
  obtain c' e' where a: "a = (c', e')" by fastforce
  show ?case
  proof (cases "c' = c")
    case True
    then show ?thesis using a by (simp add: ac_simps split: option.split)
  next
    case False
    then show ?thesis using a Cons by (auto simp: ac_simps split: option.split)
  qed
qed

lemma tasks_delete:
  assumes "distinct (map fst al)"
  shows "mset (tasks (AList.delete c al)) + opt_mset (Option.bind (map_of al c) ce_mediaTask) = mset (tasks al)"
  using assms
proof (induction al)
  case (Cons a al)
  obtain c' e' where a: "a = (c', e')" by fastforce
  have "AList.delete c al = al" if "c \<notin> fst ` set al" using that by (simp add: AList.delete_eq filter_id_conv image_iff) force
  with Cons a show ?case by (cases "c' = c") (auto simp: ac_simps split: option.splits)
qed simp

lemma cancel_task_simps [simp]:
  "calls (cancel_task t r) = calls r" "mset (cancelled (cancel_task t r)) = mset (cancelled r) + opt_mset t"
  by (simp_all add: cancel_task_def split: option.split)

lemma cancel_all:
  "calls (fold (\<lambda>(_, e). cancel_task (ce_mediaTask e)) al r) = calls r \<and>
   mset (cancelled (fold (\<lambda>(_, e). cancel_task (ce_mediaTask e)) al r)) = mset (cancelled r) + mset (tasks al)"
  by (induction al arbitrary: r) (auto simp: ac_simps split: option.split)

lemma AList_update_set: "set (AList.update k v al) \<subseteq> insert (k, v) (set al)"
  by (induction al) auto

lemma wf_update:
  assumes "wf_registry r" "cs_CallID (ce_session e) = c"
  shows "wf_registry (r\<lparr>calls := AList.update c e (calls r)\<rparr>)"
  using assms AList_update_set [of c e "calls r"]
  by (fastforce simp: wf_registry_def list_all_iff distinct_update)

lemma wf_lookup: "wf_registry r \<Longrightarrow> map_of (calls r) c = Some e \<Longrightarrow> cs_CallID (ce_session e) = c"
  by (fastforce simp: wf_registry_def list_all_iff dest: map_of_SomeD)

lemma wf_cancel [simp]: "wf_registry (cancel_task t r) = wf_registry r"
  by (simp add: wf_registry_def)

lemma reg_step_wf:
  assumes "wf_registry r"
  shows "wf_registry (reg_step op r)"
proof (cases op)
  case (OSetMediaTask c h)
  then show ?thesis using assms wf_lookup [OF assms, of c]
    by (auto simp: SetMediaTask_def intro!: wf_update split: option.split)
next
  case (OTransition c p)
  then show ?thesis using assms wf_lookup [OF assms, of c]
    by (auto simp: Transition_def split_beta intro!: wf_update split: option.split)
next
  case (ORemove c)
  have "wf_registry (r\<lparr>calls := AList.delete c (calls r)\<rparr>)"
    using assms by (auto simp: wf_registry_def list_all_iff AList.delete_eq distinct_map inj_on_def)
  with ORemove assms show ?thesis by (simp add: Remove_def split: option.split)
next
  case OAbortAll
  then show ?thesis using cancel_all [of "calls r" "r\<lparr>calls := []\<rparr>"] by (simp add: AbortAll_def wf_registry_def)
qed (use assms in \<open>auto simp: Insert_def intro!: wf_update\<close>)

lemma reg_step_conserves:
  assumes "wf_registry r"
  shows "mset (cancelled (reg_step op r)) + attached (reg_step op r) = mset (cancelled r) + attached r + given_handle op"
proof -
  have d: "distinct (map fst (calls r))" using assms by (simp add: wf_registry_def)
  show ?thesis
  proof (cases op)
    case (OInsert s)
    then show ?thesis using tasks_update [OF d, of "cs_CallID s" "\<lparr>ce_session = s, ce_mediaTask = None\<rparr>"]
      by (auto simp: Insert_def attached_def)
  next
    case (OSetMediaTask c h)
    show ?thesis
    proof (cases "map_of (calls r) c")
      case (Some e)
      with OSetMediaTask tasks_update [OF d, of c "e\<lparr>ce_mediaTask := Some h\<rparr>"] show ?thesis
        by (simp add: SetMediaTask_def attached_def ac_simps)
    qed (use OSetMediaTask in \<open>simp add: SetMediaTask_def attached_def ac_simps\<close>)
  next
    case (OTransition c p)
    show ?thesis
    proof (cases "map_of (calls r) c")
      case (Some e)
      with OTransition tasks_update [OF d, of c "e\<lparr>ce_session := snd (TransitionTo p (ce_session e))\<rparr>"] show ?thesis
        by (simp add: Transition_def attached_def split_beta)
    qed (use OTransition in \<open>simp add: Transition_def\<close>)
  next
    case (ORemove c)
    then show ?thesis using tasks_delete [OF d, of c]
      by (auto simp: Remove_def attached_def ac_simps split: option.splits)
  next
    case OAbortAll
    then show ?thesis using cancel_all [of "calls r" "r\<lparr>calls := []\<rparr>"] by (simp add: AbortAll_def attached_def)
  qed
qed

lemma registry_run:
  assumes "wf_registry r"
  shows "wf_registry (fold reg_step ops r) \<and>
    mset (cancelled (fold reg_step ops r)) + attached (fold reg_step ops r) =
      mset (cancelled r) + attached r + sum_list (map given_handle ops)"
  using assms
proof (induction ops arbitrary: r)
  case (Cons op ops)
  then show ?case using reg_step_wf [of r op] reg_step_conserves [of r op] by (simp add: ac_simps)
qed simp

text \<open>
  C17: under any sequence of registry operations no media task is lost and none is cancelled
  twice: the cancel handles given to \<open>SetMediaTask\<close> are, counted with multiplicity, those cancelled
  so far together with those attached to calls that are still registered; after \<open>AbortAll\<close> every handle has
  been cancelled and no call is left, and removing a call cancels the task attached to it.
\<close>

theorem no_task_outlives_its_call:
  "mset (cancelled (fold reg_step ops NewCallRegistry)) + attached (fold reg_step ops NewCallRegistry) = given_handles ops \<and>
    mset (cancelled (fold reg_step (ops @ [OAbortAll]) NewCallRegistry)) = given_handles ops \<and>
    ActiveCount (fold reg_step (ops @ [OAbortAll]) NewCallRegistry) = 0 \<and>
    Snapshot c (fold reg_step (ops @ [ORemove c]) NewCallRegistry) = None"
proof -
  let ?r = "fold reg_step ops NewCallRegistry"
  have wf: "wf_registry NewCallRegistry" by (simp add: wf_registry_def NewCallRegistry_def)
  have 1: "mset (cancelled ?r) + attached ?r = given_handles ops" "wf_registry ?r"
    using registry_run [OF wf, of ops] by (simp_all add: given_handles_def NewCallRegistry_def attached_def)
  have 2: "calls (reg_step OAbortAll ?r) = []"
    using cancel_all [of "calls ?r" "?r\<lparr>calls := []\<rparr>"] by (simp add: AbortAll_def)
  have 3: "mset (cancelled (reg_step OAbortAll ?r)) = given_handles ops"
    using reg_step_conserves [OF 1(2), of OAbortAll] 1(1) 2 by (simp add: attached_def)
  have 4: "map_of (calls (reg_step (ORemove c) ?r)) c = None"
    by (auto simp: Remove_def delete_conv' split: option.split)
  show ?thesis using 1(1) 2 3 4 by (simp add: ActiveCount_def Snapshot_def)
qed

end
