(* ===== verification/Socket.thy ===== *)
theory Socket
  imports Golib Cipher
begin

text \<open>
  The connection (\<^verbatim>\<open>wa-core/socket\<close>): frames with a three-byte length over websocket messages
  (\<^verbatim>\<open>framesocket.go\<close>), and the encrypted channel on top of them (\<^verbatim>\<open>noisesocket.go\<close>).
\<close>

section \<open>Frames\<close>

datatype socket_error = ErrFrameTooLarge | ErrSocketClosed | ErrSocketAlreadyOpen | ErrDialFailed |
  ContextCancelled | SlicePanic

definition WAMagicValue :: byte where "WAMagicValue = 6"
definition DictVersion :: byte where "DictVersion = 3"

definition WAConnHeader :: bytes where
  "WAConnHeader = [byte_of_char CHR ''W'', byte_of_char CHR ''A'', WAMagicValue, DictVersion]"

definition FrameMaxSize :: nat where "FrameMaxSize = 2 ^ 24"
definition FrameLengthSize :: nat where "FrameLengthSize = 3"

text \<open>
  \<open>conn\<close> tells whether a connection is stored, \<open>Frames\<close> is what has been sent to the channel of
  complete frames, oldest first. A nil slice is \<^const>\<open>None\<close>. \<open>readLimit\<close> is the limit set on
  the connection for a single message.
\<close>

record FrameSocket =
  conn :: bool
  readLimit :: nat
  Frames :: "bytes list"
  Header :: "bytes option"
  closed :: bool
  incomingLength :: nat
  receivedLength :: nat
  incoming :: "bytes option"
  partialHeader :: "bytes option"

definition NewFrameSocket :: FrameSocket where
  "NewFrameSocket = \<lparr>conn = False, readLimit = 0, Frames = [], Header = Some WAConnHeader, closed = False,
     incomingLength = 0, receivedLength = 0, incoming = None, partialHeader = None\<rparr>"

definition IsConnected :: "FrameSocket \<Rightarrow> bool" where
  "IsConnected fs = conn fs"

text \<open>The argument is the outcome of dialling.\<close>

definition Connect :: "bool \<Rightarrow> FrameSocket \<Rightarrow> (socket_error + unit) \<times> FrameSocket" where
  "Connect dialled fs =
     (if conn fs then (Inl ErrSocketAlreadyOpen, fs)
      else if \<not> dialled then (Inl ErrDialFailed, fs)
      else (Inr (), fs\<lparr>readLimit := FrameMaxSize, conn := True\<rparr>))"

definition Close :: "FrameSocket \<Rightarrow> FrameSocket" where
  "Close fs = (if \<not> conn fs then fs else fs\<lparr>conn := False, closed := True\<rparr>)"

text \<open>The result is the message handed to the websocket.\<close>

definition SendFrame :: "bytes \<Rightarrow> FrameSocket \<Rightarrow> (socket_error + bytes) \<times> FrameSocket" where
  "SendFrame data fs =
     (if \<not> conn fs then (Inl ErrSocketClosed, fs)
      else
        let dataLength = length data
        in if FrameMaxSize \<le> dataLength then (Inl ErrFrameTooLarge, fs)
           else
             let headerLength = (case Header fs of None \<Rightarrow> 0 | Some h \<Rightarrow> length h)
             in if 1024 < headerLength then (Inl ErrFrameTooLarge, fs)
                else
                  let maxAllowedTotal = headerLength + FrameLengthSize + FrameMaxSize;
                      totalLength = headerLength + FrameLengthSize + dataLength
                  in if maxAllowedTotal < totalLength then (Inl ErrFrameTooLarge, fs)
                     else (Inr ((case Header fs of None \<Rightarrow> [] | Some h \<Rightarrow> h) @
                             [word_of_nat (dataLength div 2 ^ 16), word_of_nat (dataLength div 2 ^ 8),
                              word_of_nat dataLength] @ data),
                           fs\<lparr>Header := None\<rparr>))"

definition frameComplete :: "bytes \<Rightarrow> FrameSocket \<Rightarrow> FrameSocket" where
  "frameComplete data fs = fs\<lparr>incoming := None, partialHeader := None, incomingLength := 0,
     receivedLength := 0, Frames := Frames fs @ [data]\<rparr>"

text \<open>\<open>copy(dst[off:], src)\<close> for an offset within \<open>dst\<close>.\<close>

definition copy_at :: "nat \<Rightarrow> bytes \<Rightarrow> bytes \<Rightarrow> bytes" where
  "copy_at off src dst =
     (let n = min (length src) (length dst - off) in take off dst @ take n src @ drop (off + n) dst)"

definition socket_measure :: "bytes \<times> FrameSocket \<Rightarrow> nat" where
  "socket_measure = (\<lambda>(msg, fs).
     2 * (length msg + (case partialHeader fs of None \<Rightarrow> 0 | Some p \<Rightarrow> length p)) +
     (if incoming fs = None then 0 else 1))"

function processData :: "bytes \<Rightarrow> FrameSocket \<Rightarrow> socket_error + FrameSocket" where
  "processData msg fs =
     (if msg = [] then Inr fs
      else
        let m = (case partialHeader fs of Some p \<Rightarrow> p @ msg | None \<Rightarrow> msg);
            fs = fs\<lparr>partialHeader := None\<rparr>
        in case incoming fs of
             None \<Rightarrow>
               (if FrameLengthSize \<le> length m then
                  let len = unat (m ! 0) * 2 ^ 16 + unat (m ! 1) * 2 ^ 8 + unat (m ! 2);
                      fs = fs\<lparr>incomingLength := len, receivedLength := length m\<rparr>;
                      m = drop FrameLengthSize m
                  in if len \<le> length m then processData (drop len m) (frameComplete (take len m) fs)
                     else Inr (fs\<lparr>incoming := Some (copy_at 0 m (replicate len 0))\<rparr>)
                else Inr (fs\<lparr>partialHeader := Some m\<rparr>))
           | Some buf \<Rightarrow>
               (if incomingLength fs \<le> receivedLength fs + length m then
                  (if incomingLength fs < receivedLength fs then Inl SlicePanic
                   else
                     let need = incomingLength fs - receivedLength fs
                     in processData (drop need m)
                          (frameComplete (copy_at (receivedLength fs) (take need m) buf) fs))
                else Inr (fs\<lparr>incoming := Some (copy_at (receivedLength fs) m buf),
                             receivedLength := receivedLength fs + length m\<rparr>)))"
  by pat_completeness auto
termination
  by (relation "measure socket_measure")
     (auto simp: socket_measure_def frameComplete_def FrameLengthSize_def Let_def split: option.splits)

declare processData.simps [simp del]

text \<open>What the read loop gets from the websocket.\<close>

datatype ws_read = WsBinary bytes | WsOther | WsError

fun readPump :: "ws_read list \<Rightarrow> FrameSocket \<Rightarrow> socket_error + FrameSocket" where
  "readPump [] fs = Inr fs"
| "readPump (WsError # evs) fs = Inr (Close fs)"
| "readPump (WsOther # evs) fs = readPump evs fs"
| "readPump (WsBinary msg # evs) fs = bindE (processData msg fs) (readPump evs)"

section \<open>The framing as a codec\<close>

text \<open>
  The specification of the stream: a frame is its length in three bytes and its data; a receiver
  cuts the stream into frames and keeps what is not a whole frame yet.
\<close>

definition frame :: "bytes \<Rightarrow> bytes" where
  "frame d = [word_of_nat (length d div 2 ^ 16), word_of_nat (length d div 2 ^ 8), word_of_nat (length d)] @ d"

definition frame_len :: "bytes \<Rightarrow> nat" where
  "frame_len s = unat (s ! 0) * 2 ^ 16 + unat (s ! 1) * 2 ^ 8 + unat (s ! 2)"

definition next_frame :: "bytes \<Rightarrow> (bytes \<times> bytes) option" where
  "next_frame s =
     (if length s < 3 \<or> length s < 3 + frame_len s then None
      else Some (take (frame_len s) (drop 3 s), drop (3 + frame_len s) s))"

lemma next_frame_shorter: "next_frame s = Some (d, r) \<Longrightarrow> length r < length s"
  by (auto simp: next_frame_def split: if_splits)

function deframe :: "bytes \<Rightarrow> bytes list \<times> bytes" where
  "deframe s = (case next_frame s of None \<Rightarrow> ([], s) | Some (d, r) \<Rightarrow> (let (ds, t) = deframe r in (d # ds, t)))"
  by pat_completeness auto
termination by (relation "measure length") (auto dest: next_frame_shorter)

declare deframe.simps [simp del]

lemma deframe_None: "next_frame s = None \<Longrightarrow> deframe s = ([], s)"
  by (simp add: deframe.simps [of s])

lemma deframe_Some: "next_frame s = Some (d, r) \<Longrightarrow> deframe s = (d # fst (deframe r), snd (deframe r))"
  by (simp add: deframe.simps [of s] split: prod.split)

abbreviation frame_ok :: "bytes \<Rightarrow> bool" where
  "frame_ok d \<equiv> length d < FrameMaxSize"

lemma three_digits: "n < 2 ^ 24 \<Longrightarrow> n div 65536 mod 256 * 65536 + n div 256 mod 256 * 256 + n mod 256 = (n :: nat)"
proof -
  assume n: "n < 2 ^ 24"
  define q where "q = n div 256"
  have "n div 65536 = q div 256" by (simp add: q_def div_mult2_eq [symmetric])
  moreover have "q div 256 mod 256 = q div 256" using n by (simp add: q_def)
  ultimately have "n div 65536 mod 256 = q div 256" by simp
  moreover have "n = 256 * q + n mod 256" "q = 256 * (q div 256) + q mod 256" by (simp_all add: q_def)
  ultimately show ?thesis unfolding q_def [symmetric] by linarith
qed

lemma frame_len_frame: "frame_ok d \<Longrightarrow> frame_len (frame d @ r) = length d"
  using three_digits [of "length d"] by (simp add: frame_len_def frame_def FrameMaxSize_def unat_of_nat)

lemma length_frame [simp]: "length (frame d) = 3 + length d"
  by (simp add: frame_def)

lemma drop_frame_3 [simp]: "drop 3 (frame d @ r) = d @ r"
  by (simp add: frame_def)

interpretation frames: prefix_codec frame next_frame frame_ok
proof unfold_locales
  fix x r
  assume "frame_ok x"
  moreover have "drop 3 (frame x) = x" using drop_frame_3 [of x "[]"] by simp
  ultimately show "next_frame (frame x @ r) = Some (x, r)"
    by (simp add: next_frame_def frame_len_frame)
qed

lemma deframe_frame: "frame_ok d \<Longrightarrow> deframe (frame d @ r) = (d # fst (deframe r), snd (deframe r))"
  by (simp add: deframe_Some frames.dec_enc)

lemma deframe_Nil [simp]: "deframe [] = ([], [])"
  by (simp add: deframe.simps next_frame_def)

lemma deframe_frames: "list_all frame_ok ds \<Longrightarrow> deframe (concat (map frame ds)) = (ds, [])"
  by (induction ds) (simp_all add: deframe_frame)

lemma next_frame_append: "next_frame s = Some (d, r) \<Longrightarrow> next_frame (s @ t) = Some (d, r @ t)"
  by (auto simp: next_frame_def frame_len_def nth_append split: if_splits)

lemma deframe_append:
  "deframe (s @ t) = (fst (deframe s) @ fst (deframe (snd (deframe s) @ t)), snd (deframe (snd (deframe s) @ t)))"
proof (induction s rule: deframe.induct)
  case (1 s)
  show ?case
  proof (cases "next_frame s")
    case None
    then show ?thesis by (simp add: deframe_None)
  next
    case (Some p)
    then obtain d r where n: "next_frame s = Some (d, r)" by (cases p) auto
    show ?thesis
      using 1 [OF n refl] by (simp add: deframe_Some [OF n] deframe_Some [OF next_frame_append [OF n]])
  qed
qed

section \<open>The receiver implements the framing\<close>

definition pending :: "FrameSocket \<Rightarrow> bytes" where
  "pending fs = (case partialHeader fs of None \<Rightarrow> [] | Some p \<Rightarrow> p)"

definition hold :: "bytes \<Rightarrow> bytes option" where
  "hold r = (if r = [] then None else Some r)"

text \<open>Between two frames nothing but a piece of a length field is held back.\<close>

definition between_frames :: "FrameSocket \<Rightarrow> bool" where
  "between_frames fs \<longleftrightarrow> incoming fs = None \<and> incomingLength fs = 0 \<and> receivedLength fs = 0"

lemma processData_between:
  assumes "between_frames fs" "msg \<noteq> []" "deframe (pending fs @ msg) = (ds, r)" "length r < 3"
  shows "processData msg fs = Inr (fs\<lparr>Frames := Frames fs @ ds, partialHeader := hold r\<rparr>)"
  using assms
proof (induction "length (pending fs @ msg)" arbitrary: fs msg ds rule: less_induct)
  case less
  let ?m = "pending fs @ msg"
  note inv = less.prems(1) [unfolded between_frames_def]
  have m: "(case partialHeader fs of Some p \<Rightarrow> p @ msg | None \<Rightarrow> msg) = ?m"
    by (simp add: pending_def split: option.split)
  show ?case
  proof (cases "length ?m < 3")
    case True
    then have "ds = [] \<and> r = ?m"
      using less.prems(3) by (simp add: deframe.simps [of ?m] next_frame_def)
    with True inv less.prems(2) show ?thesis
      by (subst processData.simps) (simp add: m Let_def FrameLengthSize_def hold_def)
  next
    case False
    have n: "next_frame ?m \<noteq> None"
    proof
      assume "next_frame ?m = None"
      then show False using less.prems(3,4) False by (simp add: deframe.simps [of ?m])
    qed
    then have fit: "frame_len ?m \<le> length (drop 3 ?m)" by (auto simp: next_frame_def split: if_splits)
    let ?d = "take (frame_len ?m) (drop 3 ?m)" and ?rest = "drop (frame_len ?m) (drop 3 ?m)"
    let ?fs = "frameComplete ?d (fs\<lparr>partialHeader := None, incomingLength := frame_len ?m, receivedLength := length ?m\<rparr>)"
    have step: "processData msg fs = processData ?rest ?fs"
      using less.prems(2) inv False fit
      by (subst processData.simps) (simp add: m Let_def FrameLengthSize_def frame_len_def del: drop_append take_append drop_drop)
    have "next_frame ?m = Some (?d, ?rest)"
      using n by (auto simp: next_frame_def add.commute simp del: drop_append take_append length_append split: if_splits)
    then have ds: "ds = ?d # fst (deframe ?rest)" "snd (deframe ?rest) = r"
      using less.prems(3) by (simp_all only: deframe_Some prod.inject)
    show ?thesis
    proof (cases "?rest = []")
      case True
      with ds have "ds = [?d] \<and> r = []" by simp
      with True inv show ?thesis unfolding step True by (simp add: processData.simps frameComplete_def hold_def)
    next
      case False
      have "between_frames ?fs" "pending ?fs = []"
        using inv by (simp_all add: between_frames_def frameComplete_def pending_def)
      moreover have "length ?rest < length ?m" using \<open>\<not> length ?m < 3\<close> by simp
      ultimately have "processData ?rest ?fs = Inr (?fs\<lparr>Frames := Frames ?fs @ (fst (deframe ?rest)), partialHeader := hold r\<rparr>)"
        using less.hyps [of ?fs ?rest "fst (deframe ?rest)"] False ds(2) less.prems(4) by (simp add: prod_eq_iff)
      then show ?thesis unfolding step ds(1) using inv by (simp add: frameComplete_def)
    qed
  qed
qed

lemma processData_Nil [simp]: "processData [] fs = Inr fs"
  by (simp add: processData.simps)

definition binary_parts :: "ws_read list \<Rightarrow> bytes list" where
  "binary_parts evs = concat (map (\<lambda>e. case e of WsBinary m \<Rightarrow> [m] | _ \<Rightarrow> []) evs)"

text \<open>
  Every message ends between two frames or within a length field, given what was left of the
  messages before it.
\<close>

fun cut_well :: "bytes \<Rightarrow> bytes list \<Rightarrow> bool" where
  "cut_well r [] = (length r < 3)"
| "cut_well r (m # ms) = (length r < 3 \<and> cut_well (snd (deframe (r @ m))) ms)"

lemma deframe_short: "length r < 3 \<Longrightarrow> deframe r = ([], r)"
  by (simp add: deframe_None next_frame_def)

lemma cut_well_short: "cut_well r ms \<Longrightarrow> length r < 3"
  by (cases ms) simp_all

lemma readPump_between:
  assumes "between_frames fs" "cut_well (pending fs) (binary_parts evs)" "WsError \<notin> set evs"
    "partialHeader fs = hold (pending fs)"
  shows "readPump evs fs = Inr (fs\<lparr>Frames := Frames fs @ fst (deframe (pending fs @ concat (binary_parts evs))),
    partialHeader := hold (snd (deframe (pending fs @ concat (binary_parts evs))))\<rparr>)"
  using assms
proof (induction evs arbitrary: fs)
  case Nil
  then show ?case by (simp add: binary_parts_def deframe_short)
next
  case (Cons e evs)
  show ?case
  proof (cases e)
    case (WsBinary m)
    let ?p = "pending fs" and ?r = "snd (deframe (pending fs @ m))"
    let ?fs = "fs\<lparr>Frames := Frames fs @ fst (deframe (?p @ m)), partialHeader := hold ?r\<rparr>"
    have cut: "length ?p < 3" "cut_well ?r (binary_parts evs)"
      using Cons.prems(2) by (simp_all add: WsBinary binary_parts_def)
    have pend: "pending ?fs = ?r" by (simp add: pending_def hold_def)
    have "processData m fs = Inr ?fs"
    proof (cases "m = []")
      case True
      with cut(1) Cons.prems(4) show ?thesis by (simp add: deframe_short)
    next
      case False
      show ?thesis
        by (rule processData_between [OF Cons.prems(1) False]) (simp_all add: cut_well_short [OF cut(2)])
    qed
    moreover have "readPump evs ?fs = Inr (?fs\<lparr>Frames := Frames ?fs @ fst (deframe (?r @ concat (binary_parts evs))),
        partialHeader := hold (snd (deframe (?r @ concat (binary_parts evs))))\<rparr>)"
      using Cons.IH [of ?fs] Cons.prems cut(2) unfolding pend by (simp add: between_frames_def)
    moreover have "concat (binary_parts (e # evs)) = m @ concat (binary_parts evs)"
      by (simp add: WsBinary binary_parts_def)
    ultimately show ?thesis using deframe_append [of "?p @ m" "concat (binary_parts evs)"] by (simp add: WsBinary)
  qed (use Cons in \<open>auto simp: binary_parts_def\<close>)
qed

text \<open>
  C6: the receiving socket implements the framing. Whatever websocket messages arrive, as long as
  each ends between frames or inside a length field, the frames delivered are those of the
  concatenated stream, in order, and the socket holds back exactly the incomplete length field;
  messages of another type are skipped.
\<close>
theorem frames_received:
  assumes "cut_well [] (binary_parts evs)" "WsError \<notin> set evs"
  shows "readPump evs NewFrameSocket = Inr (NewFrameSocket
    \<lparr>Frames := fst (deframe (concat (binary_parts evs))),
     partialHeader := hold (snd (deframe (concat (binary_parts evs))))\<rparr>)"
  using readPump_between [of NewFrameSocket evs] assms
  by (simp add: between_frames_def NewFrameSocket_def pending_def hold_def)

theorem frames_received_witness:
  "readPump [WsBinary [0, 0, 1, 7, 0], WsOther, WsBinary [0, 2, 8, 9]] NewFrameSocket =
     Inr (NewFrameSocket\<lparr>Frames := [[7], [8, 9]]\<rparr>)"
proof -
  have "deframe [0, 0, 1, 7, 0] = ([[7]], [0])" "deframe [0, 0, 2, 8, 9] = ([[8, 9]], [])"
    "deframe [0, 0, 1, 7, 0, 0, 2, 8, 9] = ([[7], [8, 9]], [])"
    by (simp_all add: deframe.simps next_frame_def frame_len_def)
  then show ?thesis
    using frames_received [of "[WsBinary [0, 0, 1, 7, 0], WsOther, WsBinary [0, 2, 8, 9]]"]
    by (simp add: binary_parts_def hold_def NewFrameSocket_def)
qed

section \<open>The sender\<close>

fun send_all :: "bytes list \<Rightarrow> FrameSocket \<Rightarrow> (socket_error + bytes) list \<times> FrameSocket" where
  "send_all [] fs = ([], fs)"
| "send_all (d # ds) fs =
     (let (r, fs) = SendFrame d fs; (rs, fs) = send_all ds fs in (r # rs, fs))"

lemma SendFrame_ok:
  assumes "conn fs" "frame_ok d" "case Header fs of None \<Rightarrow> True | Some h \<Rightarrow> length h \<le> 1024"
  shows "SendFrame d fs = (Inr ((case Header fs of None \<Rightarrow> [] | Some h \<Rightarrow> h) @ frame d), fs\<lparr>Header := None\<rparr>)"
  using assms by (simp add: SendFrame_def Let_def frame_def split: option.splits)

lemma send_all_later:
  "\<lbrakk>conn fs; Header fs = None; list_all frame_ok ds\<rbrakk> \<Longrightarrow> send_all ds fs = (map (Inr \<circ> frame) ds, fs)"
proof (induction ds arbitrary: fs)
  case (Cons d ds)
  then have "fs\<lparr>Header := None\<rparr> = fs" by (cases fs) simp
  with Cons show ?case by (simp add: SendFrame_ok)
qed simp

lemma cut_well_frames: "list_all frame_ok ds \<Longrightarrow> cut_well [] (map frame ds)"
proof (induction ds)
  case (Cons d ds)
  then show ?case using deframe_frame [of d "[]"] by simp
qed simp

lemma binary_parts_frames: "binary_parts (map (WsBinary \<circ> frame) xs) = map frame xs"
  by (induction xs) (simp_all add: binary_parts_def)

lemma readPump_frames:
  assumes "list_all frame_ok ds" "between_frames fs" "partialHeader fs = None"
  shows "readPump (map (WsBinary \<circ> frame) ds) fs = Inr (fs\<lparr>Frames := Frames fs @ ds\<rparr>)"
proof -
  have "fs\<lparr>Frames := Frames fs @ ds, partialHeader := None\<rparr> = fs\<lparr>Frames := Frames fs @ ds\<rparr>"
    using assms(3) by (cases fs) simp
  moreover have "WsError \<notin> set (map (WsBinary \<circ> frame) ds)" by auto
  ultimately show ?thesis
    using assms readPump_between [of fs "map (WsBinary \<circ> frame) ds"] deframe_frames [of ds] cut_well_frames [of ds]
    by (simp add: pending_def hold_def binary_parts_frames)
qed

abbreviation connected :: FrameSocket where
  "connected \<equiv> snd (Connect True NewFrameSocket)"

lemma connected_simps [simp]:
  "conn connected" "Header connected = Some WAConnHeader" "readLimit connected = FrameMaxSize"
  "between_frames connected" "partialHeader connected = None" "Frames connected = []"
  by (simp_all add: Connect_def NewFrameSocket_def between_frames_def)

text \<open>
  Frames below sixteen mebibytes sent on a fresh connection are written as one message each,
  the connection header precedes the first of them and only it. A larger frame is refused and changes nothing.
\<close>
lemma sent_frames:
  assumes "list_all frame_ok (d # ds)" "\<not> frame_ok big"
  shows "send_all (d # ds) connected =
      (Inr (WAConnHeader @ frame d) # map (Inr \<circ> frame) ds, connected\<lparr>Header := None\<rparr>) \<and>
    SendFrame big connected = (Inl ErrFrameTooLarge, connected)"
  using assms by (simp add: SendFrame_ok send_all_later SendFrame_def [of big] WAConnHeader_def)

text \<open>
  What the websocket does with a message depends on the limit set on the connection: \<open>rd n m\<close> is the outcome of
  reading message \<open>m\<close> under limit \<open>n\<close>. A message of at most \<open>n\<close> bytes is read whole.
\<close>

definition reads_within :: "(nat \<Rightarrow> bytes \<Rightarrow> ws_read) \<Rightarrow> bool" where
  "reads_within rd \<longleftrightarrow> (\<forall>n m. length m \<le> n \<longrightarrow> rd n m = WsBinary m)"

definition fails_beyond :: "(nat \<Rightarrow> bytes \<Rightarrow> ws_read) \<Rightarrow> bool" where
  "fails_beyond rd \<longleftrightarrow> (\<forall>n m. n < length m \<longrightarrow> rd n m = WsError)"

definition limited_read :: "nat \<Rightarrow> bytes \<Rightarrow> ws_read" where
  "limited_read n m = (if length m \<le> n then WsBinary m else WsError)"

lemma limited_read [simp]: "reads_within limited_read" "fails_beyond limited_read"
  by (simp_all add: reads_within_def fails_beyond_def limited_read_def)

lemma readPump_limited:
  assumes "reads_within rd" "list_all (\<lambda>d. length d + FrameLengthSize \<le> FrameMaxSize) ds"
  shows "readPump (map (rd (readLimit connected) \<circ> frame) ds) connected = Inr (connected\<lparr>Frames := ds\<rparr>)"
proof -
  have "map (rd (readLimit connected) \<circ> frame) ds = map (WsBinary \<circ> frame) ds"
    using assms by (auto simp: reads_within_def FrameLengthSize_def list_all_iff)
  moreover have "list_all frame_ok ds"
    using assms(2) by (auto simp: FrameLengthSize_def list_all_iff)
  ultimately show ?thesis using readPump_frames [of ds connected] by (simp only: connected_simps append_Nil)
qed

text \<open>
  The limit of the sender and that of the receiver differ by the length field: a frame of 2^24 - 2 or
  2^24 - 1 bytes is accepted and written by the sender, and makes the receiver close its connection.
\<close>
lemma largest_frames_close:
  assumes "fails_beyond rd" "FrameMaxSize - 2 \<le> length d" "frame_ok d" "Header fs = None" "conn fs"
  shows "SendFrame d fs = (Inr (frame d), fs) \<and>
    readPump [rd (readLimit connected) (frame d)] connected = Inr (connected\<lparr>conn := False, closed := True\<rparr>)"
proof -
  have "fs\<lparr>Header := None\<rparr> = fs" using assms(4) by (cases fs) simp
  moreover have "rd (readLimit connected) (frame d) = WsError"
    using assms(1,2) by (simp add: fails_beyond_def FrameMaxSize_def)
  ultimately show ?thesis using assms by (simp add: SendFrame_ok Close_def)
qed

section \<open>A frame split over two messages\<close>

lemma copy_at_0: "length m \<le> n \<Longrightarrow> copy_at 0 m (replicate n 0) = m @ replicate (n - length m) 0"
  by (simp add: copy_at_def Let_def min_def)

lemma processData_start:
  assumes "incoming fs = None" "partialHeader fs = None" "3 \<le> length m" "length m < 3 + frame_len m"
  shows "processData m fs = Inr (fs\<lparr>incomingLength := frame_len m, receivedLength := length m,
    incoming := Some (copy_at 0 (drop 3 m) (replicate (frame_len m) 0))\<rparr>)"
proof -
  have "m \<noteq> []" using assms(3) by auto
  moreover have "fs\<lparr>partialHeader := None\<rparr> = fs" using assms(2) by (cases fs) simp
  ultimately show ?thesis
    using assms by (subst processData.simps) (simp add: Let_def FrameLengthSize_def frame_len_def [symmetric, simplified])
qed

lemma processData_half:
  assumes "frame_ok d" "k < length d" "between_frames fs" "partialHeader fs = None"
  shows "processData (take (3 + k) (frame d)) fs =
    Inr (fs\<lparr>incoming := Some (take k d @ replicate (length d - k) 0), incomingLength := length d,
      receivedLength := k + 3\<rparr>)"
proof -
  let ?m = "take (3 + k) (frame d)"
  have m: "length ?m = k + 3" "drop 3 ?m = take k d" "?m \<noteq> []"
    using assms(2) by (simp_all add: drop_take frame_def)
  have "frame_len ?m = length d"
    using frame_len_frame [OF assms(1), of "[]"] by (simp add: frame_len_def frame_def)
  then show ?thesis
    using assms m by (subst processData_start) (simp_all add: between_frames_def copy_at_0)
qed

lemma copy_at_past:
  assumes "k + 3 \<le> length d"
  shows "copy_at (k + 3) (take (length d - (k + 3)) (drop k d)) (take k d @ replicate (length d - k) 0) =
    take k d @ replicate 3 0 @ take (length d - k - 3) (drop k d)"
proof -
  have "take (k + 3) (take k d @ replicate (length d - k) 0) = take k d @ replicate 3 0"
    using assms by (simp add: min_def)
  then show ?thesis using assms by (simp add: copy_at_def Let_def min_def)
qed

text \<open>Shifting a tail by three zero bytes changes it unless it is all zero.\<close>

lemma shifted_zero:
  assumes "3 \<le> length xs" "replicate 3 0 @ take (length xs - 3) xs = (xs :: bytes)"
  shows "list_all (\<lambda>b. b = 0) xs"
proof -
  have nth: "xs ! i = (if i < 3 then 0 else xs ! (i - 3))" if "i < length xs" for i
  proof -
    have "xs ! i = (replicate 3 0 @ take (length xs - 3) xs) ! i" using assms(2) by simp
    also have "\<dots> = (if i < 3 then 0 else xs ! (i - 3))"
      using that unfolding nth_append by simp
    finally show ?thesis .
  qed
  have "xs ! i = 0" if "i < length xs" for i
    using that
  proof (induction i rule: less_induct)
    case (less i)
    show ?case using nth [OF less.prems] less.IH [of "i - 3"] less.prems by (cases "i < 3") simp_all
  qed
  then show ?thesis by (simp add: list_all_length)
qed

lemma zeros_replicate: "list_all (\<lambda>b. b = 0) xs \<Longrightarrow> xs = replicate (length xs) 0"
  by (induction xs) simp_all

lemma shifted_same:
  assumes "k + 3 \<le> length (d :: bytes)"
  shows "take k d @ [0, 0, 0] @ take (length d - k - 3) (drop k d) = d \<longleftrightarrow> list_all (\<lambda>b. b = 0) (drop k d)"
proof -
  have zeros: "[0, 0, 0] = replicate 3 (0 :: byte)" by (simp add: numeral_3_eq_3)
  have "take k d @ [0, 0, 0] @ take (length d - k - 3) (drop k d) = d \<longleftrightarrow>
      replicate 3 0 @ take (length (drop k d) - 3) (drop k d) = drop k d"
    unfolding zeros using append_take_drop_id [of k d] by (metis length_drop same_append_eq)
  moreover have "replicate 3 0 @ take (length (drop k d) - 3) (drop k d) = drop k d" if "list_all (\<lambda>b. b = 0) (drop k d)"
  proof -
    have z: "drop k d = replicate (length d - k) 0" using zeros_replicate [OF that] by simp
    show ?thesis unfolding z using assms by (simp add: replicate_add [symmetric] min_def)
  qed
  moreover have "list_all (\<lambda>b. b = 0) (drop k d)" if "replicate 3 0 @ take (length (drop k d) - 3) (drop k d) = drop k d"
    by (rule shifted_zero [OF _ that]) (use assms in simp)
  ultimately show ?thesis by blast
qed

text \<open>
  C7: what becomes of a frame whose payload is split over two websocket messages. The length field is
  counted as received payload. When fewer than three bytes of payload are missing, the receiving loop panics on a negative
  slice bound. Otherwise the frame is completed three bytes early, with three zero bytes put between the two
  parts, and the last three bytes of the payload are read as the length field of a next frame; what is
  handed on is the frame sent only if all of the second part is zero.
\<close>
theorem split_frame_lost:
  assumes "frame_ok d" "k < length d"
  shows "readPump [WsBinary (take (3 + k) (frame d)), WsBinary (drop (3 + k) (frame d))] NewFrameSocket =
      (if length d < k + 3 then Inl SlicePanic
       else processData (drop (length d - 3) d)
         (NewFrameSocket\<lparr>Frames := [take k d @ [0, 0, 0] @ take (length d - k - 3) (drop k d)]\<rparr>)) \<and>
    (k + 3 \<le> length d \<longrightarrow>
      (take k d @ [0, 0, 0] @ take (length d - k - 3) (drop k d) = d \<longleftrightarrow> list_all (\<lambda>b. b = 0) (drop k d)))"
proof
  let ?n = NewFrameSocket and ?b = "take k d @ replicate (length d - k) 0"
  let ?fs = "?n\<lparr>incoming := Some ?b, incomingLength := length d, receivedLength := k + 3\<rparr>"
  let ?m = "drop (3 + k) (frame d)"
  have m: "?m = drop k d"
    using drop_drop [of k 3 "frame d", symmetric] drop_frame_3 [of d "[]"] by (simp only: add.commute append_Nil2)
  have "?m \<noteq> []" using assms(2) by simp
  have half: "processData (take (3 + k) (frame d)) ?n = Inr ?fs"
    using assms by (intro processData_half) (simp_all add: between_frames_def NewFrameSocket_def)
  have zeros: "[0, 0, 0] = replicate 3 (0 :: byte)" by (simp add: numeral_3_eq_3)
  have "?fs\<lparr>partialHeader := None\<rparr> = ?fs" by (simp add: NewFrameSocket_def)
  then have second: "processData ?m ?fs =
      (if length d < k + 3 then Inl SlicePanic
       else processData (drop (length d - (k + 3)) (drop k d))
         (frameComplete (copy_at (k + 3) (take (length d - (k + 3)) (drop k d)) ?b) ?fs))"
    using assms m \<open>?m \<noteq> []\<close> by (subst processData.simps) (simp add: NewFrameSocket_def Let_def)
  have "processData ?m ?fs = (if length d < k + 3 then Inl SlicePanic
       else processData (drop (length d - 3) d)
         (?n\<lparr>Frames := [take k d @ [0, 0, 0] @ take (length d - k - 3) (drop k d)]\<rparr>))"
    unfolding second zeros by (simp add: copy_at_past frameComplete_def NewFrameSocket_def)
  moreover have "bindE x (readPump []) = x" for x by (cases x) simp_all
  ultimately show "readPump [WsBinary (take (3 + k) (frame d)), WsBinary ?m] ?n =
      (if length d < k + 3 then Inl SlicePanic
       else processData (drop (length d - 3) d)
         (?n\<lparr>Frames := [take k d @ [0, 0, 0] @ take (length d - k - 3) (drop k d)]\<rparr>))"
    unfolding readPump.simps half bindE_simps by simp
  show "k + 3 \<le> length d \<longrightarrow>
      (take k d @ [0, 0, 0] @ take (length d - k - 3) (drop k d) = d \<longleftrightarrow> list_all (\<lambda>b. b = 0) (drop k d))"
    using shifted_same by blast
qed

theorem split_frame_lost_witness:
  "readPump [WsBinary [0, 0, 2, 1], WsBinary [2]] NewFrameSocket = Inl SlicePanic \<and>
   readPump [WsBinary [0, 0, 5, 1], WsBinary [2, 3, 0, 4]] NewFrameSocket =
     processData [3, 0, 4] (NewFrameSocket\<lparr>Frames := [[1, 0, 0, 0, 2]]\<rparr>)"
  using split_frame_lost [of "[1, 2]" 1] split_frame_lost [of "[1, 2, 3, 0, 4]" 1]
  by (simp add: FrameMaxSize_def frame_def)

end
