(* ===== verification/Noise.thy ===== *)
theory Noise
  imports Socket
begin

text \<open>
  The encrypted connection: the Noise XX handshake (\<^verbatim>\<open>socket/noisehandshake.go\<close> and
  \<open>doHandshake\<close> of \<^verbatim>\<open>handshake.go\<close>) with the verification of the server's certificate, and
  the channel it sets up (\<^verbatim>\<open>socket/noisesocket.go\<close>). The curve, the signature check and the
  protocol-buffer codecs are code of other packages and are the fields of a parameter record.
\<close>

section \<open>The channel\<close>

text \<open>\<open>onFrame\<close> is the list of plaintexts handed to the frame handler, oldest first.\<close>

record NoiseSocket =
  frame_socket :: FrameSocket
  onFrame :: "bytes list"
  writeKey :: bytes
  readKey :: bytes
  writeCounter :: u32
  readCounter :: u32
  destroyed :: bool
  disconnectHandler :: bool

definition newNoiseSocket :: "FrameSocket \<Rightarrow> bytes \<Rightarrow> bytes \<Rightarrow> NoiseSocket" where
  "newNoiseSocket fs wk rk = \<lparr>frame_socket = fs, onFrame = [], writeKey = wk, readKey = rk,
     writeCounter = 0, readCounter = 0, destroyed = False, disconnectHandler = True\<rparr>"

definition generateIV :: "u32 \<Rightarrow> bytes" where
  "generateIV count = replicate 8 0 @ be32 count"

definition Stop :: "bool \<Rightarrow> bool \<Rightarrow> NoiseSocket \<Rightarrow> NoiseSocket" where
  "Stop disconnect allowOnDisconnect ns =
     (if destroyed ns then ns
      else
        let ns = ns\<lparr>destroyed := True\<rparr>;
            ns = (if \<not> allowOnDisconnect then ns\<lparr>disconnectHandler := False\<rparr> else ns)
        in if disconnect then ns\<lparr>frame_socket := Close (frame_socket ns)\<rparr> else ns)"

text \<open>The first argument tells whether the context is already cancelled.\<close>

definition NoiseSendFrame :: "bool \<Rightarrow> bytes \<Rightarrow> NoiseSocket \<Rightarrow> (socket_error + bytes) \<times> NoiseSocket" where
  "NoiseSendFrame cancelled plaintext ns =
     (if cancelled then (Inl ContextCancelled, ns)
      else
        let ciphertext = aead_seal (writeKey ns) (generateIV (writeCounter ns)) plaintext [];
            ns = ns\<lparr>writeCounter := writeCounter ns + 1\<rparr>;
            (r, fs) = SendFrame ciphertext (frame_socket ns)
        in (r, ns\<lparr>frame_socket := fs\<rparr>))"

definition receiveEncryptedFrame :: "bytes \<Rightarrow> NoiseSocket \<Rightarrow> NoiseSocket" where
  "receiveEncryptedFrame ciphertext ns =
     (let plaintext = aead_open (readKey ns) (generateIV (readCounter ns)) ciphertext [];
          ns = ns\<lparr>readCounter := readCounter ns + 1\<rparr>
      in case plaintext of None \<Rightarrow> ns | Some p \<Rightarrow> ns\<lparr>onFrame := onFrame ns @ [p]\<rparr>)"

datatype consume_event = FrameReady bytes | ContextDone | StopConsumer

fun consumeFrames :: "consume_event list \<Rightarrow> NoiseSocket \<Rightarrow> NoiseSocket" where
  "consumeFrames [] ns = ns"
| "consumeFrames (FrameReady fr # evs) ns = consumeFrames evs (receiveEncryptedFrame fr ns)"
| "consumeFrames (ContextDone # evs) ns = ns"
| "consumeFrames (StopConsumer # evs) ns = ns"

section \<open>The handshake state\<close>

record NoiseHandshake =
  hash :: bytes
  salt :: bytes
  key :: bytes
  counter :: u32

definition NewNoiseHandshake :: NoiseHandshake where
  "NewNoiseHandshake = \<lparr>hash = [], salt = [], key = [], counter = 0\<rparr>"

definition NoiseStartPattern :: bytes where
  "NoiseStartPattern = bytes_of_string ''Noise_XX_25519_AESGCM_SHA256'' @ [0, 0, 0, 0]"

definition Authenticate :: "bytes \<Rightarrow> NoiseHandshake \<Rightarrow> NoiseHandshake" where
  "Authenticate data nh = nh\<lparr>hash := sha256 (hash nh @ data)\<rparr>"

text \<open>\<open>gcmutil.Prepare\<close>: the cipher is its key.\<close>

definition Prepare :: "bytes \<Rightarrow> crypto_error + bytes" where
  "Prepare secretKey = NewCipher secretKey"

definition Start :: "bytes \<Rightarrow> bytes \<Rightarrow> NoiseHandshake \<Rightarrow> crypto_error + NoiseHandshake" where
  "Start pattern header nh =
     (let h = (if length pattern = 32 then pattern else sha256 pattern);
          nh = nh\<lparr>hash := h, salt := h\<rparr>
      in bindE (Prepare h) (\<lambda>k. Inr (Authenticate header (nh\<lparr>key := k\<rparr>))))"

definition postIncrementCounter :: "NoiseHandshake \<Rightarrow> u32 \<times> NoiseHandshake" where
  "postIncrementCounter nh = (let count = counter nh + 1 in (count - 1, nh\<lparr>counter := count\<rparr>))"

definition HsEncrypt :: "bytes \<Rightarrow> NoiseHandshake \<Rightarrow> bytes \<times> NoiseHandshake" where
  "HsEncrypt plaintext nh =
     (let (count, nh) = postIncrementCounter nh;
          ciphertext = aead_seal (key nh) (generateIV count) plaintext (hash nh)
      in (ciphertext, Authenticate ciphertext nh))"

definition HsDecrypt :: "bytes \<Rightarrow> NoiseHandshake \<Rightarrow> bytes option \<times> NoiseHandshake" where
  "HsDecrypt ciphertext nh =
     (let (count, nh) = postIncrementCounter nh;
          plaintext = aead_open (key nh) (generateIV count) ciphertext (hash nh)
      in (plaintext, if plaintext = None then nh else Authenticate ciphertext nh))"

definition extractAndExpand :: "bytes \<Rightarrow> bytes \<Rightarrow> crypto_error + bytes \<times> bytes" where
  "extractAndExpand slt data =
     bindE (hkdf_sha256 data slt [] 64) (\<lambda>k. Inr (slice 0 32 k, slice 32 64 k))"

definition MixIntoKey :: "bytes \<Rightarrow> NoiseHandshake \<Rightarrow> crypto_error + NoiseHandshake" where
  "MixIntoKey data nh =
     (let nh = nh\<lparr>counter := 0\<rparr>
      in bindE (extractAndExpand (salt nh) data) (\<lambda>(w, r).
           let nh = nh\<lparr>salt := w\<rparr> in bindE (Prepare r) (\<lambda>k. Inr (nh\<lparr>key := k\<rparr>))))"

definition Finish :: "FrameSocket \<Rightarrow> NoiseHandshake \<Rightarrow> crypto_error + NoiseSocket" where
  "Finish fs nh =
     bindE (extractAndExpand (salt nh) []) (\<lambda>(w, r).
     bindE (Prepare w) (\<lambda>wk. bindE (Prepare r) (\<lambda>rk. Inr (newNoiseSocket fs wk rk))))"

section \<open>The handshake\<close>

record KeyPair =
  Pub :: bytes
  Priv :: bytes

record ServerHello =
  GetEphemeral :: bytes
  GetStatic :: "bytes option"
  GetPayload :: "bytes option"

record NoiseCertificate =
  Details :: "bytes option"
  Signature :: "bytes option"

record CertDetails =
  Serial :: u32
  IssuerSerial :: u32
  CertKey :: bytes
  NotBefore :: u64
  NotAfter :: u64

text \<open>
  The code of other packages: \<open>curve25519.X25519\<close>, \<open>ecc.VerifySignature\<close>, and \<open>proto.Marshal\<close> and
  \<open>proto.Unmarshal\<close> at the message types of the handshake; \<^const>\<open>None\<close> is an error. A certificate
  chain is its intermediate and leaf certificate; missing ones read as empty.
\<close>

record handshake_lib =
  X25519 :: "bytes \<Rightarrow> bytes \<Rightarrow> bytes option"
  VerifySignature :: "bytes \<Rightarrow> bytes \<Rightarrow> bytes \<Rightarrow> bool"
  MarshalClientHello :: "bytes \<Rightarrow> bytes option"
  UnmarshalServerHello :: "bytes \<Rightarrow> ServerHello option"
  MarshalClientFinish :: "bytes \<Rightarrow> bytes \<Rightarrow> bytes option"
  UnmarshalCertChain :: "bytes \<Rightarrow> (NoiseCertificate \<times> NoiseCertificate) option"
  UnmarshalDetails :: "bytes \<Rightarrow> CertDetails option"

datatype handshake_error = CryptoFailure crypto_error | SocketFailure socket_error |
  MarshalFailed | HandshakeTimeout | UnmarshalFailed | MissingParts | X25519Failed | DecryptFailed |
  BadStaticLength | CertUnmarshalFailed | CertMissingParts | CertBadSignatureLength |
  CertBadSignature | CertBadIssuer | CertBadKeyLength | CertNotYetValid | CertExpired | CertKeyMismatch

definition liftHs :: "crypto_error + 'a \<Rightarrow> handshake_error + 'a" where
  "liftHs m = (case m of Inl e \<Rightarrow> Inl (CryptoFailure e) | Inr x \<Rightarrow> Inr x)"

definition MixSharedSecretIntoKey ::
  "handshake_lib \<Rightarrow> bytes \<Rightarrow> bytes \<Rightarrow> NoiseHandshake \<Rightarrow> handshake_error + NoiseHandshake" where
  "MixSharedSecretIntoKey lib priv pub nh =
     (case X25519 lib priv pub of
        None \<Rightarrow> Inl X25519Failed
      | Some secret \<Rightarrow> liftHs (MixIntoKey secret nh))"

definition WACertIssuerSerial :: u32 where "WACertIssuerSerial = 0"

text \<open>
  \<open>time.Unix(sec, 0)\<close> counts the seconds from the year 1 in 64 bits; \<open>now\<close> is the current Unix time
  as seconds and nanoseconds.
\<close>

definition unix_to_internal :: "u64 \<Rightarrow> int" where
  "unix_to_internal sec = sint (sec + 62135596800)"

definition checkCertValidity :: "u64 \<times> nat \<Rightarrow> CertDetails \<Rightarrow> handshake_error + unit" where
  "checkCertValidity now cert =
     (let t = unix_to_internal (fst now)
      in if t < unix_to_internal (NotBefore cert) then Inl CertNotYetValid
         else if unix_to_internal (NotAfter cert) < t \<or>
                 unix_to_internal (NotAfter cert) = t \<and> 0 < snd now then Inl CertExpired
         else Inr ())"

definition verifyServerCert ::
  "handshake_lib \<Rightarrow> u64 \<times> nat \<Rightarrow> bytes \<Rightarrow> bytes \<Rightarrow> bytes \<Rightarrow> handshake_error + unit" where
  "verifyServerCert lib now certDecrypted staticDecrypted certAuthority =
     (case UnmarshalCertChain lib certDecrypted of
        None \<Rightarrow> Inl CertUnmarshalFailed
      | Some (im, lf) \<Rightarrow>
          (case (Details im, Signature im, Details lf, Signature lf) of
             (Some imRaw, Some imSig, Some lfRaw, Some lfSig) \<Rightarrow>
               if length imSig \<noteq> 64 then Inl CertBadSignatureLength
               else if length lfSig \<noteq> 64 then Inl CertBadSignatureLength
               else if \<not> VerifySignature lib certAuthority imRaw imSig then Inl CertBadSignature
               else (case UnmarshalDetails lib imRaw of
                 None \<Rightarrow> Inl CertUnmarshalFailed
               | Some imd \<Rightarrow>
                   if IssuerSerial imd \<noteq> WACertIssuerSerial then Inl CertBadIssuer
                   else if length (CertKey imd) \<noteq> 32 then Inl CertBadKeyLength
                   else if \<not> VerifySignature lib (CertKey imd) lfRaw lfSig then Inl CertBadSignature
                   else bindE (checkCertValidity now imd) (\<lambda>_.
                     case UnmarshalDetails lib lfRaw of
                       None \<Rightarrow> Inl CertUnmarshalFailed
                     | Some lfd \<Rightarrow>
                         if IssuerSerial lfd \<noteq> Serial imd then Inl CertBadIssuer
                         else if CertKey lfd \<noteq> staticDecrypted then Inl CertKeyMismatch
                         else checkCertValidity now lfd))
           | _ \<Rightarrow> Inl CertMissingParts))"

text \<open>A frame is sent; the result continues with the message written and the socket.\<close>

definition send_hs :: "bytes option \<Rightarrow> FrameSocket \<Rightarrow> handshake_error + bytes \<times> FrameSocket" where
  "send_hs data fs =
     (case data of
        None \<Rightarrow> Inl MarshalFailed
      | Some d \<Rightarrow> (case SendFrame d fs of (Inl e, _) \<Rightarrow> Inl (SocketFailure e) | (Inr msg, fs) \<Rightarrow> Inr (msg, fs)))"

definition decrypt_hs :: "bytes \<Rightarrow> NoiseHandshake \<Rightarrow> handshake_error + bytes \<times> NoiseHandshake" where
  "decrypt_hs ct nh = (case HsDecrypt ct nh of (None, _) \<Rightarrow> Inl DecryptFailed | (Some p, nh) \<Rightarrow> Inr (p, nh))"

text \<open>
  \<open>resp\<close> is the frame the server answers with, \<^const>\<open>None\<close> after the timeout. The result is the
  channel and the two messages written.
\<close>

definition doHandshake ::
  "handshake_lib \<Rightarrow> u64 \<times> nat \<Rightarrow> bytes \<Rightarrow> KeyPair \<Rightarrow> KeyPair \<Rightarrow> bytes option \<Rightarrow> bytes option \<Rightarrow> FrameSocket \<Rightarrow>
   handshake_error + NoiseSocket \<times> bytes \<times> bytes" where
  "doHandshake lib now certAuthority ephemeralKP noiseKey clientPayload resp fs =
     bindE (liftHs (Start NoiseStartPattern (case Header fs of None \<Rightarrow> [] | Some h \<Rightarrow> h) NewNoiseHandshake)) (\<lambda>nh.
     let nh = Authenticate (Pub ephemeralKP) nh in
     bindE (send_hs (MarshalClientHello lib (Pub ephemeralKP)) fs) (\<lambda>(msg1, fs).
     case resp of None \<Rightarrow> Inl HandshakeTimeout | Some resp \<Rightarrow>
     (case UnmarshalServerHello lib resp of None \<Rightarrow> Inl UnmarshalFailed | Some hello \<Rightarrow>
     (case (GetStatic hello, GetPayload hello) of
        (Some staticCt, Some certCt) \<Rightarrow>
          if length (GetEphemeral hello) \<noteq> 32 then Inl MissingParts
          else
            let nh = Authenticate (GetEphemeral hello) nh in
            bindE (MixSharedSecretIntoKey lib (Priv ephemeralKP) (GetEphemeral hello) nh) (\<lambda>nh.
            bindE (decrypt_hs staticCt nh) (\<lambda>(staticDecrypted, nh).
            if length staticDecrypted \<noteq> 32 then Inl BadStaticLength
            else
              bindE (MixSharedSecretIntoKey lib (Priv ephemeralKP) staticDecrypted nh) (\<lambda>nh.
              bindE (decrypt_hs certCt nh) (\<lambda>(certDecrypted, nh).
              bindE (verifyServerCert lib now certDecrypted staticDecrypted certAuthority) (\<lambda>_.
              let (encryptedPubkey, nh) = HsEncrypt (Pub noiseKey) nh in
              bindE (MixSharedSecretIntoKey lib (Priv noiseKey) (GetEphemeral hello) nh) (\<lambda>nh.
              case clientPayload of None \<Rightarrow> Inl MarshalFailed | Some payload \<Rightarrow>
              let (encryptedPayload, nh) = HsEncrypt payload nh in
              bindE (send_hs (MarshalClientFinish lib encryptedPubkey encryptedPayload) fs) (\<lambda>(msg2, fs).
              bindE (liftHs (Finish fs nh)) (\<lambda>ns. Inr (ns, msg1, msg2)))))))))
      | _ \<Rightarrow> Inl MissingParts))))"

section \<open>The channel delivers what was sent\<close>

lemma generateIV_inject [simp]: "generateIV a = generateIV b \<longleftrightarrow> a = b"
  by (simp add: generateIV_def)

fun noise_send_all :: "bytes list \<Rightarrow> NoiseSocket \<Rightarrow> (socket_error + bytes) list \<times> NoiseSocket" where
  "noise_send_all [] ns = ([], ns)"
| "noise_send_all (p # ps) ns =
     (let (r, ns) = NoiseSendFrame False p ns; (rs, ns) = noise_send_all ps ns in (r # rs, ns))"

text \<open>The ciphertexts of a sequence of plaintexts under consecutive counters.\<close>

fun sealed :: "bytes \<Rightarrow> u32 \<Rightarrow> bytes list \<Rightarrow> bytes list" where
  "sealed k n [] = []"
| "sealed k n (p # ps) = aead_seal k (generateIV n) p [] # sealed k (n + 1) ps"

lemma length_sealed [simp]: "length (sealed k n ps) = length ps"
  by (induction ps arbitrary: n) simp_all

lemma sealed_within:
  "list_all (\<lambda>p. length p + 16 + FrameLengthSize \<le> FrameMaxSize) ps \<Longrightarrow>
     list_all (\<lambda>d. length d + FrameLengthSize \<le> FrameMaxSize) (sealed k n ps)"
  by (induction ps arbitrary: n) simp_all

lemma noise_send_all_sealed:
  assumes "conn (frame_socket ns)" "Header (frame_socket ns) = None"
    "list_all (\<lambda>p. length p + 16 < FrameMaxSize) ps"
  shows "noise_send_all ps ns =
    (map (Inr \<circ> frame) (sealed (writeKey ns) (writeCounter ns) ps),
     ns\<lparr>writeCounter := writeCounter ns + word_of_nat (length ps)\<rparr>)"
  using assms
proof (induction ps arbitrary: ns)
  case (Cons p ps)
  let ?fs = "frame_socket ns"
  have fs: "?fs\<lparr>Header := None\<rparr> = ?fs" using Cons.prems(2) by (cases ?fs) simp
  have "NoiseSendFrame False p ns =
      (Inr (frame (aead_seal (writeKey ns) (generateIV (writeCounter ns)) p [])),
       ns\<lparr>writeCounter := writeCounter ns + 1\<rparr>)"
    using Cons.prems SendFrame_ok [of ?fs "aead_seal (writeKey ns) (generateIV (writeCounter ns)) p []"]
    by (cases ns) (simp add: NoiseSendFrame_def Let_def fs)
  with Cons show ?case by (simp add: algebra_simps)
qed simp

lemma consumeFrames_sealed:
  "consumeFrames (map FrameReady (sealed (readKey ns) (readCounter ns) ps)) ns =
    ns\<lparr>onFrame := onFrame ns @ ps, readCounter := readCounter ns + word_of_nat (length ps)\<rparr>"
proof (induction ps arbitrary: ns)
  case (Cons p ps)
  let ?ns = "ns\<lparr>readCounter := readCounter ns + 1, onFrame := onFrame ns @ [p]\<rparr>"
  have "receiveEncryptedFrame (aead_seal (readKey ns) (generateIV (readCounter ns)) p []) ns = ?ns"
    by (simp add: receiveEncryptedFrame_def Let_def)
  with Cons [of ?ns] show ?case by (simp add: algebra_simps)
qed simp

text \<open>
  C4: the encrypted channel. If two ends hold the same key and counter for a direction, then
  whatever sequence of messages one end sends whose ciphertext and length field fit the other's read limit of
  2^24 bytes, the other end's read loop, on a connection freshly opened by \<open>Connect\<close>,
  turns the websocket messages into frames from which its handler gets exactly the messages sent,
  in order; both counters stay equal, also across the wrap of the 32-bit counter. Of the websocket
  it is used that a message within the read limit is read whole.
\<close>
theorem noise_channel:
  assumes "conn (frame_socket a)" "Header (frame_socket a) = None"
    "list_all (\<lambda>p. length p + 16 + FrameLengthSize \<le> FrameMaxSize) ps"
    "readKey b = writeKey a" "readCounter b = writeCounter a" "reads_within rd"
  shows "\<exists>msgs a' fs. noise_send_all ps a = (map Inr msgs, a') \<and>
    readPump (map (rd (readLimit connected)) msgs) connected = Inr fs \<and>
    consumeFrames (map FrameReady (Frames fs)) b =
      b\<lparr>onFrame := onFrame b @ ps, readCounter := writeCounter a'\<rparr>"
proof -
  let ?cts = "sealed (writeKey a) (writeCounter a) ps"
  have small: "list_all (\<lambda>p. length p + 16 < FrameMaxSize) ps"
    using assms(3) by (auto simp: list_all_iff FrameLengthSize_def)
  have "readPump (map (rd (readLimit connected)) (map frame ?cts)) connected = Inr (connected\<lparr>Frames := ?cts\<rparr>)"
    using readPump_limited [OF assms(6) sealed_within [OF assms(3)]] by (simp add: comp_def)
  moreover have "noise_send_all ps a =
      (map Inr (map frame ?cts), a\<lparr>writeCounter := writeCounter a + word_of_nat (length ps)\<rparr>)"
    using noise_send_all_sealed [OF assms(1,2) small] by (simp add: comp_def)
  ultimately show ?thesis using consumeFrames_sealed [of b ps] assms(4,5) by fastforce
qed

theorem noise_channel_witness:
  "\<exists>msgs a' fs.
    noise_send_all [[1, 2], []] (newNoiseSocket (connected\<lparr>Header := None\<rparr>) (replicate 32 5) (replicate 32 6)) = (map Inr msgs, a') \<and>
    readPump (map (limited_read FrameMaxSize) msgs) connected = Inr fs \<and>
    consumeFrames (map FrameReady (Frames fs)) (newNoiseSocket connected (replicate 32 6) (replicate 32 5)) =
      (newNoiseSocket connected (replicate 32 6) (replicate 32 5))\<lparr>onFrame := [[1, 2], []], readCounter := writeCounter a'\<rparr>"
  using noise_channel [of "newNoiseSocket (connected\<lparr>Header := None\<rparr>) (replicate 32 5) (replicate 32 6)" "[[1, 2], []]"
      "newNoiseSocket connected (replicate 32 6) (replicate 32 5)" limited_read]
  by (simp add: newNoiseSocket_def FrameMaxSize_def FrameLengthSize_def)

text \<open>Frames on the wire of which some are replaced.\<close>

fun altered :: "bytes \<Rightarrow> u32 \<Rightarrow> (bytes \<times> bytes option) list \<Rightarrow> bytes list" where
  "altered k n [] = []"
| "altered k n ((p, t) # xs) =
     (case t of None \<Rightarrow> aead_seal k (generateIV n) p [] | Some x \<Rightarrow> x) # altered k (n + 1) xs"

fun forgery_free :: "bytes \<Rightarrow> u32 \<Rightarrow> (bytes \<times> bytes option) list \<Rightarrow> bool" where
  "forgery_free k n [] = True"
| "forgery_free k n ((p, t) # xs) =
     ((case t of None \<Rightarrow> True | Some x \<Rightarrow> aead_open k (generateIV n) x [] = None) \<and> forgery_free k (n + 1) xs)"



section \<open>The handshake agrees on the keys\<close>

lemma extractAndExpand_ok:
  obtains w r where "extractAndExpand slt data = Inr (w, r)" "length w = 32" "length r = 32"
proof -
  obtain k where k: "hkdf_sha256 data slt [] 64 = Inr k"
    using hkdf_sha256_total [of 64 data slt "[]"] by auto
  with hkdf_sha256_length [OF k] that show ?thesis by (simp add: extractAndExpand_def)
qed

lemma Prepare_32 [simp]: "length k = 32 \<Longrightarrow> Prepare k = Inr k"
  by (simp add: Prepare_def NewCipher_def)

lemma MixIntoKey_ok: obtains nh' where "MixIntoKey data nh = Inr nh'"
proof -
  obtain w r where "extractAndExpand (salt (nh\<lparr>counter := 0\<rparr>)) data = Inr (w, r)" "length r = 32"
    by (rule extractAndExpand_ok)
  with that show ?thesis by (simp add: MixIntoKey_def Let_def)
qed

lemma MixSharedSecret_ok:
  assumes "X25519 lib priv pub = Some secret"
  obtains nh' where "MixSharedSecretIntoKey lib priv pub nh = Inr nh'" "MixIntoKey secret nh = Inr nh'"
  using MixIntoKey_ok [of secret nh] assms that by (auto simp: MixSharedSecretIntoKey_def liftHs_def)

lemma Finish_ok:
  obtains w r where "Finish fs nh = Inr (newNoiseSocket fs w r)" "extractAndExpand (salt nh) [] = Inr (w, r)"
proof -
  obtain w r where "extractAndExpand (salt nh) [] = Inr (w, r)" "length w = 32" "length r = 32"
    by (rule extractAndExpand_ok)
  with that show ?thesis by (simp add: Finish_def)
qed

lemma Start_ok: "\<exists>nh. Start pattern header nh0 = Inr nh"
  by (simp add: Start_def Let_def)

lemma length_HsEncrypt: "HsEncrypt p nh = (c, nh') \<Longrightarrow> length c = length p + 16"
  by (auto simp: HsEncrypt_def postIncrementCounter_def Let_def)

lemma decrypt_encrypt: "HsEncrypt p nh = (c, nh') \<Longrightarrow> decrypt_hs c nh = Inr (p, nh')"
  by (auto simp: HsEncrypt_def HsDecrypt_def decrypt_hs_def postIncrementCounter_def Let_def)

text \<open>
  The specification of the other side: the responder of the Noise XX pattern, which has an
  ephemeral and a static key pair and answers the client's ephemeral key with its own, its
  encrypted static key and its encrypted certificate. \<open>dh\<close> is the shared secret of its private and
  a received public key.
\<close>

definition respond ::
  "(bytes \<Rightarrow> bytes \<Rightarrow> bytes) \<Rightarrow> bytes \<Rightarrow> KeyPair \<Rightarrow> KeyPair \<Rightarrow> bytes \<Rightarrow> bytes \<Rightarrow>
   crypto_error + ServerHello \<times> NoiseHandshake" where
  "respond dh hdr e s cert clientEphemeral =
     bindE (Start NoiseStartPattern hdr NewNoiseHandshake) (\<lambda>nh.
     bindE (MixIntoKey (dh (Priv e) clientEphemeral) (Authenticate (Pub e) (Authenticate clientEphemeral nh))) (\<lambda>nh.
     let (static_ct, nh) = HsEncrypt (Pub s) nh in
     bindE (MixIntoKey (dh (Priv s) clientEphemeral) nh) (\<lambda>nh.
     let (cert_ct, nh) = HsEncrypt cert nh in
     Inr (\<lparr>GetEphemeral = Pub e, GetStatic = Some static_ct, GetPayload = Some cert_ct\<rparr>, nh))))"

definition accept_finish ::
  "(bytes \<Rightarrow> bytes \<Rightarrow> bytes) \<Rightarrow> KeyPair \<Rightarrow> bytes \<Rightarrow> bytes \<Rightarrow> NoiseHandshake \<Rightarrow>
   handshake_error + bytes \<times> bytes \<times> bytes \<times> bytes" where
  "accept_finish dh e static_ct payload_ct nh =
     bindE (decrypt_hs static_ct nh) (\<lambda>(clientStatic, nh).
     bindE (liftHs (MixIntoKey (dh (Priv e) clientStatic) nh)) (\<lambda>nh.
     bindE (decrypt_hs payload_ct nh) (\<lambda>(payload, nh).
     bindE (liftHs (extractAndExpand (salt nh) [])) (\<lambda>(r, w).
     Inr (clientStatic, payload, w, r)))))"

text \<open>
  C3: the handshake establishes the channel. Against a responder of the Noise XX pattern whose
  certificate verifies, and with a curve on which both sides compute the same shared secrets,
  the client's handshake succeeds; its first message is the connection header and the framed hello,
  its second the framed finish; and from the finish the responder gets the client's static key, its payload
  and the same pair of keys the client's channel holds, each in the opposite role.
\<close>
theorem handshake_agrees:
  assumes "conn fs" "Header fs = Some hdr" "length hdr \<le> 1024"
    and "respond dh hdr es ss cert (Pub ec) = Inr (hello, srv)"
    and "length (Pub es) = 32" "length (Pub ss) = 32"
    and "X25519 lib (Priv ec) (Pub es) = Some (dh (Priv es) (Pub ec))"
    and "X25519 lib (Priv ec) (Pub ss) = Some (dh (Priv ss) (Pub ec))"
    and "X25519 lib (Priv sc) (Pub es) = Some (dh (Priv es) (Pub sc))"
    and "verifyServerCert lib now cert (Pub ss) authority = Inr ()"
    and "MarshalClientHello lib (Pub ec) = Some hello_msg" "frame_ok hello_msg"
    and "UnmarshalServerHello lib resp = Some hello"
    and "\<And>a b. length a = length (Pub sc) + 16 \<Longrightarrow> length b = length payload + 16 \<Longrightarrow>
      MarshalClientFinish lib a b = Some (finish a b) \<and> frame_ok (finish a b)"
  shows "\<exists>ns a b. doHandshake lib now authority ec sc (Some payload) (Some resp) fs =
      Inr (ns, hdr @ frame hello_msg, frame (finish a b)) \<and>
    accept_finish dh es a b srv = Inr (Pub sc, payload, readKey ns, writeKey ns)"
proof -
  obtain nh0 where start: "Start NoiseStartPattern hdr NewNoiseHandshake = Inr nh0" using Start_ok by blast
  let ?nh1 = "Authenticate (Pub es) (Authenticate (Pub ec) nh0)"
  obtain nh2 where mix1: "MixSharedSecretIntoKey lib (Priv ec) (Pub es) ?nh1 = Inr nh2"
    "MixIntoKey (dh (Priv es) (Pub ec)) ?nh1 = Inr nh2" by (rule MixSharedSecret_ok [OF assms(7)])
  obtain sct nh3 where e1: "HsEncrypt (Pub ss) nh2 = (sct, nh3)" by fastforce
  obtain nh4 where mix2: "MixSharedSecretIntoKey lib (Priv ec) (Pub ss) nh3 = Inr nh4"
    "MixIntoKey (dh (Priv ss) (Pub ec)) nh3 = Inr nh4" by (rule MixSharedSecret_ok [OF assms(8)])
  obtain cct nh5 where e2: "HsEncrypt cert nh4 = (cct, nh5)" by fastforce
  have hello: "hello = \<lparr>GetEphemeral = Pub es, GetStatic = Some sct, GetPayload = Some cct\<rparr>" "srv = nh5"
    using assms(4) by (simp_all add: respond_def start mix1 e1 mix2 e2)
  obtain a nh6 where e3: "HsEncrypt (Pub sc) nh5 = (a, nh6)" by fastforce
  obtain nh7 where mix3: "MixSharedSecretIntoKey lib (Priv sc) (Pub es) nh6 = Inr nh7"
    "MixIntoKey (dh (Priv es) (Pub sc)) nh6 = Inr nh7" by (rule MixSharedSecret_ok [OF assms(9)])
  obtain b nh8 where e4: "HsEncrypt payload nh7 = (b, nh8)" by fastforce
  let ?fs = "fs\<lparr>Header := None\<rparr>"
  obtain w r where fin: "Finish ?fs nh8 = Inr (newNoiseSocket ?fs w r)" "extractAndExpand (salt nh8) [] = Inr (w, r)"
    by (rule Finish_ok)
  have msg2: "MarshalClientFinish lib a b = Some (finish a b)" "frame_ok (finish a b)"
    using assms(14) length_HsEncrypt [OF e3] length_HsEncrypt [OF e4] by auto
  have s1: "send_hs (Some hello_msg) fs = Inr (hdr @ frame hello_msg, ?fs)"
    using assms by (simp add: send_hs_def SendFrame_ok)
  have s2: "send_hs (Some (finish a b)) ?fs = Inr (frame (finish a b), ?fs)"
    using assms(1) msg2 by (simp add: send_hs_def SendFrame_ok)
  have "doHandshake lib now authority ec sc (Some payload) (Some resp) fs =
      Inr (newNoiseSocket ?fs w r, hdr @ frame hello_msg, frame (finish a b))"
    unfolding doHandshake_def
    by (simp add: assms(2,5,6,10,11,13) hello liftHs_def start s1 s2 mix1(1) mix2(1) mix3(1)
        decrypt_encrypt [OF e1] decrypt_encrypt [OF e2] e3 e4 msg2 fin(1))
  moreover have "accept_finish dh es a b srv = Inr (Pub sc, payload, r, w)"
    by (simp add: accept_finish_def hello decrypt_encrypt [OF e3] decrypt_encrypt [OF e4] mix3(2) liftHs_def fin(2))
  ultimately show ?thesis by (auto simp: newNoiseSocket_def)
qed

lemma respond_total: "\<exists>hello srv. respond dh hdr e s cert c = Inr (hello, srv)"
proof -
  obtain nh0 where start: "Start NoiseStartPattern hdr NewNoiseHandshake = Inr nh0" using Start_ok by blast
  obtain nh2 where mix1: "MixIntoKey (dh (Priv e) c) (Authenticate (Pub e) (Authenticate c nh0)) = Inr nh2"
    by (rule MixIntoKey_ok)
  obtain nh4 where mix2: "MixIntoKey (dh (Priv s) c) (snd (HsEncrypt (Pub s) nh2)) = Inr nh4"
    by (rule MixIntoKey_ok)
  show ?thesis by (simp add: respond_def start mix1 mix2 split: prod.split) (use mix2 in \<open>auto split: prod.split\<close>)
qed

definition example_key :: "byte \<Rightarrow> KeyPair" where
  "example_key b = \<lparr>Pub = replicate 32 b, Priv = replicate 32 b\<rparr>"

definition example_lib :: "ServerHello \<Rightarrow> handshake_lib" where
  "example_lib hello = \<lparr>X25519 = (\<lambda>a b. Some (xor_bytes b a)), VerifySignature = (\<lambda>_ _ _. True),
     MarshalClientHello = Some, UnmarshalServerHello = (\<lambda>_. Some hello),
     MarshalClientFinish = (\<lambda>a b. Some (a @ b)),
     UnmarshalCertChain = (\<lambda>c. Some (\<lparr>Details = Some c, Signature = Some (replicate 64 0)\<rparr>,
       \<lparr>Details = Some c, Signature = Some (replicate 64 0)\<rparr>)),
     UnmarshalDetails = (\<lambda>c. Some \<lparr>Serial = 0, IssuerSerial = 0, CertKey = c, NotBefore = 0, NotAfter = 9\<rparr>)\<rparr>"

theorem handshake_agrees_witness:
  "\<exists>hello srv ns a b.
     respond xor_bytes WAConnHeader (example_key 2) (example_key 3) (replicate 32 3) (replicate 32 1) = Inr (hello, srv) \<and>
     doHandshake (example_lib hello) (5, 0) (replicate 32 9) (example_key 1) (example_key 4) (Some [7]) (Some []) connected =
       Inr (ns, WAConnHeader @ frame (replicate 32 1), frame (a @ b)) \<and>
     accept_finish xor_bytes (example_key 2) a b srv = Inr (replicate 32 4, [7], readKey ns, writeKey ns)"
proof -
  obtain hello srv where h: "respond xor_bytes WAConnHeader (example_key 2) (example_key 3) (replicate 32 3)
      (Pub (example_key 1)) = Inr (hello, srv)"
    using respond_total by blast
  have valid: "verifyServerCert (example_lib hello) (5, 0) (replicate 32 3) (Pub (example_key 3)) (replicate 32 9) = Inr ()"
    by (simp add: verifyServerCert_def example_lib_def example_key_def checkCertValidity_def Let_def
        WACertIssuerSerial_def unix_to_internal_def)
  show ?thesis
    using handshake_agrees [of connected WAConnHeader xor_bytes "example_key 2" "example_key 3" "replicate 32 3"
        "example_key 1" hello srv "example_lib hello" "example_key 4" "(5, 0)" "replicate 32 9" "replicate 32 1" "[]" "[7]"
        "\<lambda>a b. a @ b"] h valid
    by (simp add: Connect_def NewFrameSocket_def WAConnHeader_def example_key_def example_lib_def
        FrameMaxSize_def)
qed

end
