(* ===== verification/Framing.thy ===== *)
theory Framing
  imports Codec
begin

text \<open>
  Frame boundaries: a decoder that succeeds on an input succeeds in the same way on every
  extension of it. Hence no frame the decoder accepts is a proper prefix of another, and a
  truncated frame is rejected.
\<close>

section \<open>Reading from an extended input\<close>

definition ext :: "bytes \<Rightarrow> binaryDecoder \<Rightarrow> binaryDecoder" where
  "ext m r = r\<lparr>ddata := ddata r @ m\<rparr>"

lemma ext_simps [simp]:
  "ddata (ext m r) = ddata r @ m" "index (ext m r) = index r"
  "(ext m r)\<lparr>index := i\<rparr> = ext m (r\<lparr>index := i\<rparr>)"
  by (simp_all add: ext_def)

definition extends :: "bytes \<Rightarrow> 'a read_result \<Rightarrow> 'a read_result \<Rightarrow> bool" where
  "extends m x y \<longleftrightarrow> (\<forall>v r. x = Inr (v, r) \<longrightarrow> y = Inr (v, ext m r))"

named_theorems extends_intros

lemma extends_Inl [extends_intros]: "extends m (Inl e) y"
  by (simp add: extends_def)

lemma extends_Inr [extends_intros]: "extends m (Inr (v, r)) (Inr (v, ext m r))"
  by (simp add: extends_def)

lemma extends_bind [extends_intros]:
  assumes "extends m x y" "\<And>v r. extends m (f v r) (f v (ext m r))"
  shows "extends m (bindE x (\<lambda>(v, r). f v r)) (bindE y (\<lambda>(v, r). f v r))"
  using assms by (cases x) (auto simp: extends_def)

lemma extends_bind_other [extends_intros]:
  assumes "\<And>v. extends m (f v) (g v)"
  shows "extends m (bindE x f) (bindE x g)"
  using assms by (cases x) (auto simp: extends_def)

lemma extends_if [extends_intros]:
  "\<lbrakk>c \<Longrightarrow> extends m a a'; \<not> c \<Longrightarrow> extends m b b'\<rbrakk> \<Longrightarrow> extends m (if c then a else b) (if c then a' else b')"
  by simp

lemma extends_option_case [extends_intros]:
  "\<lbrakk>\<And>x. extends m (f x) (f' x); extends m a a'\<rbrakk> \<Longrightarrow>
     extends m (case opt of Some x \<Rightarrow> f x | None \<Rightarrow> a) (case opt of Some x \<Rightarrow> f' x | None \<Rightarrow> a')"
  by (cases opt) simp_all

lemma extends_gval_case [extends_intros]:
  assumes "\<And>s. extends m (f s) (f' s)"
  shows "extends m (case v of VString s \<Rightarrow> f s | _ \<Rightarrow> Inl e) (case v of VString s \<Rightarrow> f' s | _ \<Rightarrow> Inl e')"
  using assms by (cases v) (auto intro: extends_Inl)

lemma extends_checkEOS:
  assumes "index r + n \<le> length (ddata r) \<Longrightarrow> extends m (f ()) (g ())"
  shows "extends m (bindE (checkEOS r n) f) (bindE (checkEOS (ext m r) n) g)"
  using assms by (auto simp: checkEOS_def extends_def)

lemma readByte_extends [extends_intros]: "extends m (readByte r) (readByte (ext m r))"
  unfolding readByte_def by (rule extends_checkEOS) (simp add: extends_def nth_append)

lemma readIntN_extends: "extends m (readIntN r n le) (readIntN (ext m r) n le)"
  unfolding readIntN_def
proof (rule extends_checkEOS)
  assume le: "index r + n \<le> length (ddata r)"
  have "foldl (\<lambda>ret i. ret OR push_bit ((if le then i else n - i - 1) * 8) (unat ((ddata r @ m) ! (index r + i)))) 0 [0..<n] =
        foldl (\<lambda>ret i. ret OR push_bit ((if le then i else n - i - 1) * 8) (unat (ddata r ! (index r + i)))) 0 [0..<n]"
    by (rule foldl_cong) (use le in \<open>auto simp: nth_append\<close>)
  then show "extends m
     (let ret = foldl (\<lambda>ret i. let curShift = if le then i else n - i - 1
             in ret OR push_bit (curShift * 8) (unat (ddata r ! (index r + i)))) 0 [0..<n]
      in Inr (ret, r\<lparr>index := index r + n\<rparr>))
     (let ret = foldl (\<lambda>ret i. let curShift = if le then i else n - i - 1
             in ret OR push_bit (curShift * 8) (unat (ddata (ext m r) ! (index (ext m r) + i)))) 0 [0..<n]
      in Inr (ret, (ext m r)\<lparr>index := index (ext m r) + n\<rparr>))"
    by (simp add: extends_def)
qed

lemma readInt_extends [extends_intros]:
  "extends m (readInt8 r le) (readInt8 (ext m r) le)"
  "extends m (readInt16 r le) (readInt16 (ext m r) le)"
  "extends m (readInt32 r le) (readInt32 (ext m r) le)"
  by (simp_all add: readInt8_def readInt16_def readInt32_def readIntN_extends)

lemma readInt20_extends [extends_intros]: "extends m (readInt20 r) (readInt20 (ext m r))"
  unfolding readInt20_def by (rule extends_checkEOS) (simp add: extends_def nth_append)

lemma readRaw_extends [extends_intros]: "extends m (readRaw n r) (readRaw n (ext m r))"
  unfolding readRaw_def by (rule extends_checkEOS) (simp add: extends_def slice_def)

lemma readBytesOrString_extends [extends_intros]:
  "extends m (readBytesOrString n s r) (readBytesOrString n s (ext m r))"
  unfolding readBytesOrString_def by (intro extends_intros)

lemma unpack_loop_extends [extends_intros]:
  "extends m (unpack_loop tag n r b) (unpack_loop tag n (ext m r) b)"
  by (induction n arbitrary: r b) (auto intro!: extends_intros)

lemma readPacked8_extends [extends_intros]: "extends m (readPacked8 tag r) (readPacked8 tag (ext m r))"
  unfolding readPacked8_def by (intro extends_intros)

lemma readListSize_extends [extends_intros]: "extends m (readListSize tag r) (readListSize tag (ext m r))"
  unfolding readListSize_def by (intro extends_intros)

text \<open>What a method needs of the reader it recurses through.\<close>

locale extensible_reader =
  fixes rd :: reader and m :: bytes
  assumes rd_extends: "extends m (rd s r) (rd s (ext m r))"
begin

lemma readJIDPair_extends: "extends m (readJIDPair rd r) (readJIDPair rd (ext m r))"
  unfolding readJIDPair_def
  by (intro extends_intros rd_extends) (auto split: gval.split intro: extends_intros)

lemma readInteropJID_extends: "extends m (readInteropJID rd r) (readInteropJID rd (ext m r))"
  unfolding readInteropJID_def by (intro extends_intros rd_extends)

lemma readFBJID_extends: "extends m (readFBJID rd r) (readFBJID rd (ext m r))"
  unfolding readFBJID_def by (intro extends_intros rd_extends)

lemma readADJID_extends: "extends m (readADJID rd r) (readADJID rd (ext m r))"
  unfolding readADJID_def by (intro extends_intros rd_extends)

lemma readAttributes_extends: "extends m (readAttributes rd n r a) (readAttributes rd n (ext m r) a)"
  by (induction n arbitrary: r a) (auto intro!: extends_intros rd_extends)

lemma readNode_extends: "extends m (readNode rd r) (readNode rd (ext m r))"
  unfolding readNode_def by (intro extends_intros rd_extends readAttributes_extends)

lemma readNodes_extends: "extends m (readNodes rd n r) (readNodes rd n (ext m r))"
  by (induction n arbitrary: r) (auto intro!: extends_intros readNode_extends)

lemma readList_extends: "extends m (readList rd tag r) (readList rd tag (ext m r))"
  unfolding readList_def by (intro extends_intros readNodes_extends)

lemma read_dispatch_extends: "extends m (read_dispatch rd s r) (read_dispatch rd s (ext m r))"
  unfolding read_dispatch_def Let_def
  by (intro extends_intros readList_extends readFBJID_extends readInteropJID_extends
      readJIDPair_extends readADJID_extends)

end

lemma read_any_extensible: "extensible_reader (read_any d) m"
proof (induction d)
  case 0
  show ?case by unfold_locales (simp add: extends_Inl)
next
  case (Suc d)
  show ?case by unfold_locales (simp add: extensible_reader.read_dispatch_extends [OF Suc.IH])
qed

interpretation any: extensible_reader "read_any d" m for d m
  by (rule read_any_extensible)

section \<open>Accepted frames are prefix-free\<close>

lemma Unmarshal_append:
  assumes "Unmarshal d = Inr n"
  shows "Unmarshal (d @ m) = (if m = [] then Inr n else Inl (LeftoverBytes n (length m)))"
proof -
  let ?k = "length (d @ m) + 1"
  obtain r where r: "readNode (read_any (length d + 1)) (newDecoder d) = Inr (n, r)" "index r = length (ddata r)"
    using assms by (auto simp: Unmarshal_def Let_def result_simps split: if_splits)
  then have "readNode (read_any ?k) (newDecoder d) = Inr (n, r)"
    using readNode_depth(1) [of "newDecoder d" "length d + 1" ?k] by (simp add: unread_def newDecoder_def)
  then have "readNode (read_any ?k) (ext m (newDecoder d)) = Inr (n, ext m r)"
    using any.readNode_extends [of m ?k "newDecoder d"] by (simp add: extends_def)
  moreover have "ext m (newDecoder d) = newDecoder (d @ m)" by (simp add: ext_def newDecoder_def)
  ultimately show ?thesis using r(2) by (simp add: Unmarshal_def Let_def)
qed

text \<open>
  The decoder accepts a frame only whole: what it accepts, followed by anything, is the
  leftover-bytes error with the exact number of extra bytes, and every proper prefix of what it
  accepts is an error.
\<close>

lemma Unmarshal_whole_frames:
  assumes "Unmarshal d = Inr n"
  shows "Unmarshal (d @ m) = (if m = [] then Inr n else Inl (LeftoverBytes n (length m))) \<and>
    (\<forall>k < length d. \<exists>e. Unmarshal (take k d) = Inl e)"
proof (intro conjI allI impI)
  fix k assume k: "k < length d"
  show "\<exists>e. Unmarshal (take k d) = Inl e"
  proof (cases "Unmarshal (take k d)")
    case (Inr n')
    from Unmarshal_append [OF this, of "drop k d"] k assms show ?thesis by simp
  qed simp
qed (rule Unmarshal_append [OF assms])

end
