(* ===== verification/Sframe.thy ===== *)
theory Sframe
  imports E2e
begin

text \<open>
  Frame encryption (\<^verbatim>\<open>wa-core/srtp/sframe.go\<close>): per-participant keys, AES-128-GCM with a 16-byte
  nonce built from a send counter, and a trailing header that carries the counter as a varint.
  What one end of a call encrypts, the other end decrypts, in any order and whatever was lost.
\<close>

section \<open>Definitions\<close>

definition KDFLabelE2ESframe :: string where "KDFLabelE2ESframe = ''e2e sframe key''"
definition KDFLabelWarpAuth :: string where "KDFLabelWarpAuth = ''warp auth key''"
definition gcmTagLen :: nat where "gcmTagLen = 16"
definition aesKeyLen :: nat where "aesKeyLen = 16"

definition FormatSframeParticipantID :: "string \<Rightarrow> string" where
  "FormatSframeParticipantID jid = FormatParticipantID jid"

definition SframeInfoLabel :: "string \<Rightarrow> string" where
  "SframeInfoLabel participantID = KDFLabelE2ESframe @ participantID"

definition splitCallKey :: "bytes \<Rightarrow> srtp_error + bytes \<times> bytes" where
  "splitCallKey callKey =
     (if length callKey \<noteq> 32 then Inl ErrBadCallKeyLen else Inr (slice 0 16 callKey, slice 16 32 callKey))"

definition DeriveE2eSframeKeyForParticipant :: "bytes \<Rightarrow> string \<Rightarrow> srtp_error + bytes" where
  "DeriveE2eSframeKeyForParticipant callKey participantID =
     bindE (splitCallKey callKey) (\<lambda>(salt, ikm).
       liftCrypto (HKDFSHA256 salt ikm (bytes_of_string (SframeInfoLabel participantID)) 32))"

definition DeriveWarpAuthKey :: "bytes \<Rightarrow> srtp_error + bytes" where
  "DeriveWarpAuthKey callKey =
     (if length callKey \<noteq> 32 then Inl ErrBadCallKeyLen
      else liftCrypto (HKDFSHA256 [] callKey (bytes_of_string KDFLabelWarpAuth) 32))"

definition counterToIV :: "u64 \<Rightarrow> bytes" where
  "counterToIV counter = replicate 8 0 @ le64 counter"

definition buildSframeHeader :: "u64 \<Rightarrow> u64 \<Rightarrow> bytes" where
  "buildSframeHeader counter keyID =
     (let h = append_uvarint [] counter; h = append_uvarint h keyID
      in h @ [word_of_nat (length h + 1)])"

definition parseSframeHeader :: "bytes \<Rightarrow> (u64 \<times> u64) option" where
  "parseSframeHeader header =
     (if length header < 2 then None
      else if unat (last header) \<noteq> length header then None
      else
        let body = butlast header; (counter, n) = uvarint body
        in if n \<le> 0 then None
           else
             let (keyID, n2) = uvarint (drop (nat n) body)
             in if n2 \<le> 0 then None else Some (counter, keyID))"

definition newSframeGCM :: "bytes \<Rightarrow> srtp_error + bytes" where
  "newSframeGCM key = aes_NewCipher (take aesKeyLen key)"

definition gcmEncrypt :: "bytes \<Rightarrow> bytes \<Rightarrow> bytes \<Rightarrow> srtp_error + bytes" where
  "gcmEncrypt key nonce16 plaintext = bindE (newSframeGCM key) (\<lambda>k. Inr (gcm_seal k nonce16 plaintext))"

definition gcmDecrypt :: "bytes \<Rightarrow> bytes \<Rightarrow> bytes \<Rightarrow> bytes option" where
  "gcmDecrypt key nonce16 ciphertextWithTag =
     (case newSframeGCM key of
        Inl _ \<Rightarrow> None
      | Inr k \<Rightarrow> gcm_open k nonce16 ciphertextWithTag)"

record SframeSession =
  SelfParticipantID :: string
  PeerParticipantID :: string
  encryptKey :: bytes
  decryptKey :: bytes
  txCounter :: u64

definition NewSframeSession :: "bytes \<Rightarrow> string \<Rightarrow> string \<Rightarrow> srtp_error + SframeSession" where
  "NewSframeSession callKey selfJID peerJID =
     (let selfID = FormatSframeParticipantID selfJID;
          peerID = FormatSframeParticipantID peerJID
      in bindE (DeriveE2eSframeKeyForParticipant callKey peerID) (\<lambda>sendKey.
         bindE (DeriveE2eSframeKeyForParticipant callKey selfID) (\<lambda>recvKey.
           Inr \<lparr>SelfParticipantID = selfID, PeerParticipantID = peerID, encryptKey = take aesKeyLen sendKey,
                decryptKey = take aesKeyLen recvKey, txCounter = 0\<rparr>)))"

definition Encrypt :: "bytes \<Rightarrow> SframeSession \<Rightarrow> (srtp_error + bytes) \<times> SframeSession" where
  "Encrypt plaintext s =
     (let counter = txCounter s;
          s = s\<lparr>txCounter := counter + 1\<rparr>;
          header = buildSframeHeader counter 0;
          iv = counterToIV counter
      in (bindE (gcmEncrypt (encryptKey s) iv plaintext) (\<lambda>encrypted. Inr (encrypted @ header)), s))"

definition Decrypt :: "bytes \<Rightarrow> SframeSession \<Rightarrow> bytes option" where
  "Decrypt frame s =
     (if length frame < gcmTagLen + 3 then None
      else
        let headerLen = unat (last frame)
        in if headerLen < 3 \<or> length frame < headerLen then None
           else
             let headerStart = length frame - headerLen;
                 header = drop headerStart frame;
                 ciphertext = take headerStart frame
             in if length ciphertext < gcmTagLen + 1 then None
                else (case parseSframeHeader header of
                        None \<Rightarrow> None
                      | Some (counter, _) \<Rightarrow> gcmDecrypt (decryptKey s) (counterToIV counter) ciphertext))"

section \<open>The header\<close>

lemma buildSframeHeader_obtain:
  obtains b where "buildSframeHeader c k = (append_uvarint [] c @ append_uvarint [] k) @ [b]"
    "unat b = length (append_uvarint [] c @ append_uvarint [] k) + 1"
proof (rule that)
  let ?h = "append_uvarint [] c @ append_uvarint [] k"
  show "buildSframeHeader c k = ?h @ [word_of_nat (length ?h + 1)]"
    by (simp add: buildSframeHeader_def Let_def append_uvarint_shift [of "append_uvarint [] c"])
  show "unat (word_of_nat (length ?h + 1) :: byte) = length ?h + 1"
    by (rule unat_byte_small) (use length_uvarint_le [of c] length_uvarint_le [of k] in simp)
qed

lemma uvarint_not_empty: "0 < length (append_uvarint [] c)"
  by simp

lemma parse_buildSframeHeader: "parseSframeHeader (buildSframeHeader c k) = Some (c, k)"
proof -
  obtain b where b: "buildSframeHeader c k = (append_uvarint [] c @ append_uvarint [] k) @ [b]"
    "unat b = length (append_uvarint [] c @ append_uvarint [] k) + 1" by (rule buildSframeHeader_obtain)
  have u: "uvarint (append_uvarint [] k) = (k, int (length (append_uvarint [] k)))"
    using uvarint_append_uvarint [of k "[]"] by simp
  show ?thesis
    unfolding parseSframeHeader_def b(1) butlast_snoc last_snoc b(2) Let_def
    using uvarint_not_empty [of c] uvarint_not_empty [of k] u by simp
qed

lemma header_facts:
  "3 \<le> length (buildSframeHeader c k)" "unat (last (buildSframeHeader c k)) = length (buildSframeHeader c k)"
  "buildSframeHeader c k \<noteq> []" "length (buildSframeHeader c k) \<le> 21"
proof -
  obtain b where b: "buildSframeHeader c k = (append_uvarint [] c @ append_uvarint [] k) @ [b]"
    "unat b = length (append_uvarint [] c @ append_uvarint [] k) + 1" by (rule buildSframeHeader_obtain)
  note len = uvarint_not_empty [of c] uvarint_not_empty [of k] length_uvarint_le [of c] length_uvarint_le [of k]
  show "3 \<le> length (buildSframeHeader c k)" "length (buildSframeHeader c k) \<le> 21"
    unfolding b(1) length_append list.size using len by linarith+
  show "unat (last (buildSframeHeader c k)) = length (buildSframeHeader c k)" "buildSframeHeader c k \<noteq> []"
    unfolding b(1) last_snoc b(2) by simp_all
qed

text \<open>
  The trailing header determines counter and key id: it parses back to what it was built
  from, its last byte is its own length, and it is between 3 and 21 bytes long.
\<close>

lemma sframe_header_round_trip:
  "parseSframeHeader (buildSframeHeader counter keyID) = Some (counter, keyID) \<and>
   unat (last (buildSframeHeader counter keyID)) = length (buildSframeHeader counter keyID) \<and>
   3 \<le> length (buildSframeHeader counter keyID) \<and> length (buildSframeHeader counter keyID) \<le> 21"
  using parse_buildSframeHeader [of counter keyID] header_facts [of counter keyID] by blast

section \<open>Frames\<close>

lemma Encrypt_frame:
  assumes "length (encryptKey s) = 16"
  shows "Encrypt p s = (Inr (gcm_seal (encryptKey s) (counterToIV (txCounter s)) p @ buildSframeHeader (txCounter s) 0),
    s\<lparr>txCounter := txCounter s + 1\<rparr>)"
  using assms by (simp add: Encrypt_def Let_def gcmEncrypt_def newSframeGCM_def aes_NewCipher_def aesKeyLen_def)

lemma Decrypt_sealed:
  assumes k: "length (decryptKey s) = 16" and p: "p \<noteq> []"
  shows "Decrypt (gcm_seal (decryptKey s) (counterToIV c) p @ buildSframeHeader c 0) s = Some p"
proof -
  let ?h = "buildSframeHeader c 0" and ?ct = "gcm_seal (decryptKey s) (counterToIV c) p"
  have l: "0 < length p" using p by simp
  show ?thesis
    using header_facts [of c 0] l k parse_buildSframeHeader [of c 0]
    by (simp add: Decrypt_def Let_def gcmTagLen_def gcmDecrypt_def newSframeGCM_def aes_NewCipher_def
        aesKeyLen_def gcm_open_seal)
qed

fun encrypt_all :: "bytes list \<Rightarrow> SframeSession \<Rightarrow> (srtp_error + bytes) list" where
  "encrypt_all [] s = []"
| "encrypt_all (p # ps) s = (let (f, s) = Encrypt p s in f # encrypt_all ps s)"

lemma encrypt_all_decrypt:
  assumes "length (encryptKey a) = 16" "decryptKey b = encryptKey a" "list_all (\<lambda>p. p \<noteq> []) ps"
  shows "list_all2 (\<lambda>f p. \<exists>frame. f = Inr frame \<and> Decrypt frame b = Some p) (encrypt_all ps a) ps"
  using assms
proof (induction ps arbitrary: a)
  case (Cons p ps)
  from Cons.IH [of "a\<lparr>txCounter := txCounter a + 1\<rparr>"] Cons.prems
  show ?case using Decrypt_sealed [of b p "txCounter a"] by (simp add: Encrypt_frame)
qed simp

lemma sframe_key_total:
  assumes "length callKey = 32"
  shows "\<exists>k. DeriveE2eSframeKeyForParticipant callKey pid = Inr k \<and> length k = 32"
proof -
  obtain k where "HKDFSHA256 (slice 0 16 callKey) (slice 16 32 callKey) (bytes_of_string (SframeInfoLabel pid)) 32 = Inr k"
    "length k = 32" by (rule HKDFSHA256_obtain [of 32 "slice 0 16 callKey" "slice 16 32 callKey"
        "bytes_of_string (SframeInfoLabel pid)"]) simp_all
  then show ?thesis
    using assms by (simp add: DeriveE2eSframeKeyForParticipant_def splitCallKey_def liftCrypto_def)
qed

text \<open>
  C31: two participants that set up their sessions from the same 32-byte call key, each naming
  itself and the other, agree: every non-empty frame in any sequence the first one encrypts is
  decrypted by the second to its plaintext, independently of the frames before it.
\<close>

theorem sframe_sessions_agree:
  assumes "length callKey = 32" "list_all (\<lambda>p. p \<noteq> []) ps"
  shows "\<exists>a b. NewSframeSession callKey alice bob = Inr a \<and> NewSframeSession callKey bob alice = Inr b \<and>
    list_all2 (\<lambda>f p. \<exists>frame. f = Inr frame \<and> Decrypt frame b = Some p) (encrypt_all ps a) ps"
proof -
  obtain ka where ka: "DeriveE2eSframeKeyForParticipant callKey (FormatSframeParticipantID alice) = Inr ka" "length ka = 32"
    using sframe_key_total [OF assms(1)] by blast
  obtain kb where kb: "DeriveE2eSframeKeyForParticipant callKey (FormatSframeParticipantID bob) = Inr kb" "length kb = 32"
    using sframe_key_total [OF assms(1)] by blast
  have "NewSframeSession callKey alice bob = Inr \<lparr>SelfParticipantID = FormatSframeParticipantID alice,
      PeerParticipantID = FormatSframeParticipantID bob, encryptKey = take 16 kb, decryptKey = take 16 ka, txCounter = 0\<rparr>"
    "NewSframeSession callKey bob alice = Inr \<lparr>SelfParticipantID = FormatSframeParticipantID bob,
      PeerParticipantID = FormatSframeParticipantID alice, encryptKey = take 16 ka, decryptKey = take 16 kb, txCounter = 0\<rparr>"
    using ka kb by (simp_all add: NewSframeSession_def Let_def aesKeyLen_def)
  then show ?thesis using kb(2) assms(2) by (simp add: encrypt_all_decrypt)
qed

theorem sframe_sessions_agree_witness:
  "\<exists>a b. NewSframeSession (replicate 32 7) ''1@lid'' ''2@lid'' = Inr a \<and>
     NewSframeSession (replicate 32 7) ''2@lid'' ''1@lid'' = Inr b \<and>
     list_all2 (\<lambda>f p. \<exists>frame. f = Inr frame \<and> Decrypt frame b = Some p) (encrypt_all [[1, 2], [3]] a) [[1, 2], [3]]"
proof -
  have k: "length (replicate 32 (7 :: byte)) = 32" by simp
  have p: "list_all (\<lambda>p. p \<noteq> []) [[1, 2], [3 :: byte]]" by simp
  show ?thesis by (rule sframe_sessions_agree [OF k p])
qed

lemma le64_inject: "le64 a = le64 b \<longleftrightarrow> a = b"
proof
  assume "le64 a = le64 b"
  then have e: "be64 a = be64 b" by (simp add: le64_def)
  show "a = b"
  proof (rule bit_word_eqI)
    fix n assume n: "n < LENGTH(64)"
    have byte: "(ucast (drop_bit (8 * k) a) :: byte) = ucast (drop_bit (8 * k) b)" if "k < 8" for k
      using e that by (auto simp: be64_def less_Suc_eq numeral_eq_Suc)
    have k: "n div 8 < 8" using n by simp
    have "bit (ucast (drop_bit (8 * (n div 8)) x) :: byte) (n mod 8) = bit x n" for x :: u64
      by (simp add: bit_simps)
    then show "bit a n = bit b n" using byte [OF k] by metis
  qed
qed simp

text \<open>
  No two of the first \<open>2^64\<close> frames of a session are encrypted under the same nonce, and an
  empty frame, which the code does encrypt, is never recognised by the peer: its ciphertext is
  the bare tag, below the minimum that \<open>Decrypt\<close> accepts.
\<close>

lemma sframe_nonces:
  "inj counterToIV \<and> txCounter (snd (Encrypt p s)) = txCounter s + 1 \<and>
   (case fst (Encrypt [] s) of Inl _ \<Rightarrow> True | Inr f \<Rightarrow> Decrypt f t = None)"
proof (intro conjI)
  show "inj counterToIV" by (rule injI) (simp add: counterToIV_def le64_inject)
  show "txCounter (snd (Encrypt p s)) = txCounter s + 1" by (simp add: Encrypt_def Let_def)
  show "case fst (Encrypt [] s) of Inl _ \<Rightarrow> True | Inr f \<Rightarrow> Decrypt f t = None"
  proof (cases "fst (Encrypt [] s)")
    case (Inr f)
    then obtain k where "f = gcm_seal k (counterToIV (txCounter s)) [] @ buildSframeHeader (txCounter s) 0"
      by (auto simp: Encrypt_def gcmEncrypt_def Let_def result_simps)
    then show ?thesis
      using Inr header_facts [of "txCounter s" 0] by (simp add: Decrypt_def Let_def gcmTagLen_def)
  qed simp
qed

end
