(* ===== verification/H264.thy ===== *)
theory H264
  imports Prelude
begin

text \<open>
  H.264 over RTP (\<^verbatim>\<open>wa-core/rtp/h264.go\<close>): splitting NAL units into single, aggregated and
  fragmented payloads, reassembling them, and assembling access units with recovery after loss.
  What the packetizer emits the depacketizer restores, within the payload budget; a frame sent
  without loss comes out whole, and after a loss nothing is delivered before a frame with an IDR.
\<close>

section \<open>Packetization\<close>

definition h264StapAType :: byte where "h264StapAType = 24"
definition h264FuaType :: byte where "h264FuaType = 28"
definition mtuPayloadMax :: nat where "mtuPayloadMax = 800"
definition maxFuReassemblyBytes :: nat where "maxFuReassemblyBytes = 4 * 2 ^ 20"
definition maxAccessUnitBytes :: nat where "maxAccessUnitBytes = 8 * 2 ^ 20"

definition annexBStartCodeLen :: "bytes \<Rightarrow> nat \<Rightarrow> nat" where
  "annexBStartCodeLen d offset =
     (if offset + 3 < length d \<and> d ! offset = 0 \<and> d ! (offset + 1) = 0 \<and> d ! (offset + 2) = 0 \<and>
         d ! (offset + 3) = 1 then 4
      else if offset + 2 < length d \<and> d ! offset = 0 \<and> d ! (offset + 1) = 0 \<and> d ! (offset + 2) = 1 then 3
      else 0)"

text \<open>The inner loop of \<open>SplitAnnexB\<close>: zero bytes are trimmed from the end.\<close>

definition trim_zeros :: "bytes \<Rightarrow> bytes" where
  "trim_zeros xs = rev (dropWhile (\<lambda>b. b = 0) (rev xs))"

function split_loop :: "bytes \<Rightarrow> nat \<Rightarrow> nat option \<Rightarrow> bytes list \<Rightarrow> bytes list" where
  "split_loop d i start nalus =
     (if i < length d then
        (let sc = annexBStartCodeLen d i
         in if 0 < sc then
              (let nalus = (case start of
                   None \<Rightarrow> nalus
                 | Some s \<Rightarrow> let n = trim_zeros (slice s i d) in if n \<noteq> [] then nalus @ [n] else nalus)
               in split_loop d (i + sc) (Some (i + sc)) nalus)
            else split_loop d (i + 1) start nalus)
      else
        (case start of
           None \<Rightarrow> nalus
         | Some s \<Rightarrow> if s < length d then nalus @ [drop s d] else nalus))"
  by pat_completeness auto
termination by (relation "measure (\<lambda>(d, i, start, nalus). length d - i)") auto

declare split_loop.simps [simp del]

definition SplitAnnexB :: "bytes \<Rightarrow> bytes list" where
  "SplitAnnexB d = split_loop d 0 None []"

definition AUHasIDR :: "bytes \<Rightarrow> bool" where
  "AUHasIDR au \<longleftrightarrow> list_ex (\<lambda>nalu. 0 < length nalu \<and> nalu ! 0 AND 0x1f = 5) (SplitAnnexB au)"

text \<open>The fragmentation loop, on what is left of the body; \<open>first\<close> is \<open>offset == 0\<close>.\<close>

function fragment :: "byte \<Rightarrow> byte \<Rightarrow> bool \<Rightarrow> bytes \<Rightarrow> bytes list" where
  "fragment fuIndicator originalType first body =
     (if body = [] then []
      else
        let fragSize = mtuPayloadMax - 2;
            chunk = take fragSize body;
            rest = drop fragSize body;
            fuHeader = (if first then originalType OR 0x80 else originalType);
            fuHeader = (if rest = [] then fuHeader OR 0x40 else fuHeader)
        in (fuIndicator # fuHeader # chunk) # fragment fuIndicator originalType False rest)"
  by pat_completeness auto
termination by (relation "measure (\<lambda>(_, _, _, body). length body)") (auto simp: mtuPayloadMax_def)

declare fragment.simps [simp del]

definition PackageH264NALU :: "bytes \<Rightarrow> bytes list" where
  "PackageH264NALU nalu =
     (if length nalu = 0 then []
      else if length nalu \<le> mtuPayloadMax then [nalu]
      else
        let naluHeader = nalu ! 0;
            fbitAndNri = naluHeader AND 0xE0;
            originalType = naluHeader AND 0x1F;
            fuIndicator = fbitAndNri OR h264FuaType
        in fragment fuIndicator originalType True (drop 1 nalu))"

fun stap_scan :: "bytes list \<Rightarrow> nat \<Rightarrow> byte \<Rightarrow> (nat \<times> byte) option" where
  "stap_scan [] sz maxNri = Some (sz, maxNri)"
| "stap_scan (n # ns) sz maxNri =
     (if length n = 0 \<or> 0xFFFF < length n then None
      else
        let sz = sz + 2 + length n
        in if mtuPayloadMax < sz then None
           else
             let nri = n ! 0 AND 0x60
             in stap_scan ns sz (if maxNri < nri then nri else maxNri))"

definition PackageH264STAPA :: "bytes list \<Rightarrow> bytes option" where
  "PackageH264STAPA nalus =
     (if length nalus < 2 then None
      else case stap_scan nalus 1 0 of
             None \<Rightarrow> None
           | Some (_, maxNri) \<Rightarrow>
               Some ((maxNri OR h264StapAType) #
                 concat (map (\<lambda>n. [word_of_nat (drop_bit 8 (length n)), word_of_nat (length n)] @ n) nalus)))"

section \<open>Depacketization\<close>

record H264Depacketizer =
  fuBuf :: bytes
  fuType :: byte
  fuNriF :: byte
  fuActive :: bool
  overflow :: bool

definition new_depacketizer :: H264Depacketizer where
  "new_depacketizer = \<lparr>fuBuf = [], fuType = 0, fuNriF = 0, fuActive = False, overflow = False\<rparr>"

function stap_loop :: "bytes \<Rightarrow> bytes list" where
  "stap_loop (a # b # body) =
     (let size = push_bit 8 (unat a) OR unat b
      in if size = 0 \<or> length body < size then [] else take size body # stap_loop (drop size body))"
| "stap_loop [] = []"
| "stap_loop [a] = []"
  by pat_completeness auto
termination by (relation "measure length") auto

definition depacketize_fua :: "bytes \<Rightarrow> H264Depacketizer \<Rightarrow> bytes list \<times> H264Depacketizer" where
  "depacketize_fua payload d =
     (if length payload < 2 then ([], d\<lparr>fuActive := False\<rparr>)
      else
        let fbitAndNri = payload ! 0 AND 0xE0;
            fuHeader = payload ! 1;
            startBit = fuHeader AND 0x80;
            endBit = fuHeader AND 0x40;
            origType = fuHeader AND 0x1F;
            body = drop 2 payload;
            finish = (\<lambda>d. if endBit \<noteq> 0 \<and> fuActive d
                          then ([fuBuf d], d\<lparr>fuActive := False, fuBuf := []\<rparr>) else ([], d))
        in if startBit \<noteq> 0 then
             (if maxFuReassemblyBytes < 1 + length body
              then ([], d\<lparr>fuActive := False, fuBuf := [], overflow := True\<rparr>)
              else finish (d\<lparr>fuActive := True, fuType := origType, fuNriF := fbitAndNri,
                             fuBuf := (fbitAndNri OR origType) # body\<rparr>))
           else if fuActive d then
             (if maxFuReassemblyBytes < length (fuBuf d) + length body
              then ([], d\<lparr>fuActive := False, fuBuf := [], overflow := True\<rparr>)
              else finish (d\<lparr>fuBuf := fuBuf d @ body\<rparr>))
           else ([], d))"

definition Depacketize :: "bytes \<Rightarrow> H264Depacketizer \<Rightarrow> bytes list \<times> H264Depacketizer" where
  "Depacketize payload d =
     (if length payload < 1 then ([], d)
      else
        let naluType = payload ! 0 AND 0x1F
        in if 1 \<le> naluType \<and> naluType \<le> 23 then ([payload], d\<lparr>fuActive := False\<rparr>)
           else if naluType = h264StapAType then (stap_loop (drop 1 payload), d\<lparr>fuActive := False\<rparr>)
           else if naluType = h264FuaType then depacketize_fua payload d
           else ([], d\<lparr>fuActive := False\<rparr>))"

record H264AccessUnitAssembler =
  depacketizer :: H264Depacketizer
  accessUnit :: bytes
  expectedSeq :: u16
  hasSequence :: bool
  keyframeNeeded :: bool

definition new_assembler :: H264AccessUnitAssembler where
  "new_assembler = \<lparr>depacketizer = new_depacketizer, accessUnit = [], expectedSeq = 0,
     hasSequence = False, keyframeNeeded = False\<rparr>"

text \<open>The reset the assembler performs on a gap and on the two overflows.\<close>

definition drop_frame :: "H264AccessUnitAssembler \<Rightarrow> H264AccessUnitAssembler" where
  "drop_frame a = a\<lparr>depacketizer := new_depacketizer, accessUnit := [], keyframeNeeded := True\<rparr>"

fun append_nalus :: "bytes list \<Rightarrow> H264AccessUnitAssembler \<Rightarrow> bool \<Rightarrow> H264AccessUnitAssembler \<times> bool" where
  "append_nalus [] a recoveryNeeded = (a, recoveryNeeded)"
| "append_nalus (nalu # nalus) a recoveryNeeded =
     (if maxAccessUnitBytes < length (accessUnit a) + 4 + length nalu
      then (drop_frame a, recoveryNeeded \<or> \<not> keyframeNeeded a)
      else append_nalus nalus (a\<lparr>accessUnit := accessUnit a @ [0x00, 0x00, 0x00, 0x01] @ nalu\<rparr>) recoveryNeeded)"

definition Push :: "u16 \<Rightarrow> bool \<Rightarrow> bytes \<Rightarrow> H264AccessUnitAssembler \<Rightarrow>
    (bytes \<times> bool \<times> bool) \<times> H264AccessUnitAssembler" where
  "Push sequence marker payload a =
     (let gap = hasSequence a \<and> sequence \<noteq> expectedSeq a;
          recoveryNeeded = (gap \<and> \<not> keyframeNeeded a);
          a = (if gap then drop_frame a else a);
          a = a\<lparr>hasSequence := True, expectedSeq := sequence + 1\<rparr>;
          (nalus, dp) = Depacketize payload (depacketizer a);
          a = a\<lparr>depacketizer := dp\<rparr>;
          (a, recoveryNeeded) = append_nalus nalus a recoveryNeeded;
          (a, recoveryNeeded) = (if overflow (depacketizer a)
             then (drop_frame a, recoveryNeeded \<or> \<not> keyframeNeeded a) else (a, recoveryNeeded))
      in if \<not> marker then (([], False, recoveryNeeded), a)
         else
           let au = accessUnit a;
               a = a\<lparr>accessUnit := [], depacketizer := new_depacketizer\<rparr>
           in if length au = 0 then (([], False, recoveryNeeded), a)
              else if keyframeNeeded a then
                (if \<not> AUHasIDR au then (([], False, recoveryNeeded), a)
                 else ((au, True, recoveryNeeded), a\<lparr>keyframeNeeded := False\<rparr>))
              else ((au, True, recoveryNeeded), a))"

section \<open>NAL units through the depacketizer\<close>

fun depacketize_all :: "bytes list \<Rightarrow> H264Depacketizer \<Rightarrow> bytes list \<times> H264Depacketizer" where
  "depacketize_all [] d = ([], d)"
| "depacketize_all (p # ps) d =
     (let (ns, d) = Depacketize p d; (ms, d) = depacketize_all ps d in (ns @ ms, d))"

text \<open>A NAL unit of a type that is sent as is: 1 to 23.\<close>

definition nal_ok :: "bytes \<Rightarrow> bool" where
  "nal_ok n \<longleftrightarrow> n \<noteq> [] \<and> 1 \<le> hd n AND 0x1F \<and> hd n AND 0x1F \<le> 23 \<and> length n \<le> maxFuReassemblyBytes"

text \<open>The header bytes of a fragment.\<close>

lemma byte_and_255: "(h :: byte) AND 255 = h"
proof -
  have "(255 :: byte) = mask 8" by (simp add: mask_eq_exp_minus_1)
  then have "h AND 255 = take_bit 8 h" by (simp add: take_bit_eq_mask)
  then show ?thesis by (simp add: take_bit_word_eq_self)
qed

lemma fua_header:
  fixes h :: byte
  defines "i \<equiv> (h AND 0xE0) OR h264FuaType" and "t \<equiv> h AND 0x1F"
  shows "i AND 0x1F = h264FuaType" "(i AND 0xE0) OR t = h"
    "t AND 0x1F = t" "(t OR 0x80) AND 0x1F = t" "(t OR 0x40) AND 0x1F = t"
    "t AND 0x80 = 0" "t AND 0x40 = 0" "(t OR 0x40) AND 0x80 = 0" "(t OR 0x40) AND 0x40 \<noteq> 0"
    "(t OR 0x80) AND 0x80 \<noteq> 0" "(t OR 0x80) AND 0x40 = 0"
proof -
  have "(i AND 0xE0) OR t = h AND (0xE0 OR 0x1F)"
    unfolding bit.conj_disj_distrib by (simp add: i_def t_def h264FuaType_def bit.conj_disj_distrib2 and.assoc)
  then show "(i AND 0xE0) OR t = h" by (simp add: byte_and_255)
qed (simp_all add: i_def t_def h264FuaType_def bit.conj_disj_distrib2 and.assoc)

abbreviation fua_ind :: "byte \<Rightarrow> byte" where "fua_ind h \<equiv> (h AND 0xE0) OR h264FuaType"
abbreviation fua_typ :: "byte \<Rightarrow> byte" where "fua_typ h \<equiv> h AND 0x1F"

lemma Depacketize_fua: "Depacketize (fua_ind h # hdr # chunk) d = depacketize_fua (fua_ind h # hdr # chunk) d"
  using fua_header(1) [of h] by (simp add: Depacketize_def Let_def h264FuaType_def h264StapAType_def)

lemma fua_start:
  assumes "1 + length chunk \<le> maxFuReassemblyBytes"
  shows "\<exists>d'. Depacketize (fua_ind h # (fua_typ h OR 0x80) # chunk) d = ([], d') \<and>
    fuActive d' \<and> fuBuf d' = h # chunk \<and> overflow d' = overflow d"
  unfolding Depacketize_fua using assms fua_header [of h]
  by (simp add: depacketize_fua_def Let_def not_less)

lemma fua_middle:
  assumes "fuActive d" "length (fuBuf d) + length chunk \<le> maxFuReassemblyBytes"
  shows "Depacketize (fua_ind h # fua_typ h # chunk) d = ([], d\<lparr>fuBuf := fuBuf d @ chunk\<rparr>)"
    "Depacketize (fua_ind h # (fua_typ h OR 0x40) # chunk) d =
       ([fuBuf d @ chunk], d\<lparr>fuActive := False, fuBuf := []\<rparr>)"
  unfolding Depacketize_fua using assms fua_header [of h]
  by (simp_all add: depacketize_fua_def Let_def not_less)

lemma depacketize_fragments:
  assumes "body \<noteq> []" "fuActive d" "length (fuBuf d) + length body \<le> maxFuReassemblyBytes"
  shows "depacketize_all (fragment (fua_ind h) (fua_typ h) False body) d =
    ([fuBuf d @ body], d\<lparr>fuActive := False, fuBuf := []\<rparr>)"
  using assms
proof (induction body arbitrary: d rule: length_induct)
  case (1 body)
  let ?c = "take (mtuPayloadMax - 2) body" and ?r = "drop (mtuPayloadMax - 2) body"
  have c: "length (fuBuf d) + length ?c \<le> maxFuReassemblyBytes" using 1(4) by (simp add: min_def)
  show ?case
  proof (cases "?r = []")
    case True
    then have "?c = body" by simp
    then show ?thesis
      using 1(2) True fua_middle(2) [OF 1(3) c, of h]
      by (subst fragment.simps) (simp add: fragment.simps [of _ _ _ "[]"])
  next
    case False
    let ?d = "d\<lparr>fuBuf := fuBuf d @ ?c\<rparr>"
    have "length ?r < length body" using 1(2) by (cases body) (auto simp: mtuPayloadMax_def)
    moreover have "length (fuBuf d) + length ?c + length ?r = length (fuBuf d) + length body" by simp
    ultimately have "depacketize_all (fragment (fua_ind h) (fua_typ h) False ?r) ?d =
        ([fuBuf ?d @ ?r], ?d\<lparr>fuActive := False, fuBuf := []\<rparr>)"
      using 1(1) [rule_format, of ?r ?d] False 1(3,4) by (simp add: min_def)
    then show ?thesis
      using 1(2) False fua_middle(1) [OF 1(3) c, of h] by (subst fragment.simps) (simp add: Let_def)
  qed
qed

lemma PackageH264NALU_depacketize:
  assumes "nal_ok n"
  shows "\<exists>d'. depacketize_all (PackageH264NALU n) d = ([n], d') \<and> overflow d' = overflow d"
proof -
  obtain h body where n: "n = h # body" using assms by (cases n) (auto simp: nal_ok_def)
  show ?thesis
  proof (cases "length n \<le> mtuPayloadMax")
    case True
    then show ?thesis
      using assms n by (simp add: PackageH264NALU_def Depacketize_def Let_def nal_ok_def)
  next
    case False
    let ?c = "take (mtuPayloadMax - 2) body" and ?r = "drop (mtuPayloadMax - 2) body"
    have r: "?r \<noteq> []" "body \<noteq> []" using False n by (auto simp: mtuPayloadMax_def)
    have len: "1 + length body \<le> maxFuReassemblyBytes" using assms n by (simp add: nal_ok_def)
    then have "1 + length ?c \<le> maxFuReassemblyBytes" by (simp add: min_def)
    from fua_start [OF this, of h d] obtain d1 where
      d1: "Depacketize (fua_ind h # (fua_typ h OR 0x80) # ?c) d = ([], d1)" "fuActive d1"
      "fuBuf d1 = h # ?c" "overflow d1 = overflow d" by blast
    have "length (fuBuf d1) + length ?r \<le> maxFuReassemblyBytes" using len d1(3) by simp
    from depacketize_fragments [OF r(1) d1(2) this, of h]
    have "depacketize_all (fragment (fua_ind h) (fua_typ h) False ?r) d1 =
        ([n], d1\<lparr>fuActive := False, fuBuf := []\<rparr>)" using d1(3) n by simp
    moreover have "PackageH264NALU n = (fua_ind h # (fua_typ h OR 0x80) # ?c) # fragment (fua_ind h) (fua_typ h) False ?r"
      using False n r by (simp add: PackageH264NALU_def Let_def fragment.simps [of _ _ True])
    ultimately show ?thesis using d1(1,4) by simp
  qed
qed

lemma fragment_bound: "p \<in> set (fragment i t f body) \<Longrightarrow> length p \<le> mtuPayloadMax \<and> p \<noteq> []"
proof (induction body arbitrary: f rule: length_induct)
  case (1 body)
  show ?case
  proof (cases "body = []")
    case True
    with 1(2) show ?thesis by (simp add: fragment.simps)
  next
    case False
    let ?r = "drop (mtuPayloadMax - 2) body"
    have "length ?r < length body" using False by (cases body) (auto simp: mtuPayloadMax_def)
    then have "p \<in> set (fragment i t False ?r) \<Longrightarrow> length p \<le> mtuPayloadMax \<and> p \<noteq> []" using 1(1) by blast
    with 1(2) False show ?thesis
      by (subst (asm) fragment.simps) (auto simp: Let_def mtuPayloadMax_def)
  qed
qed

text \<open>
  A NAL unit of a sendable type, however large up to the four-mebibyte reassembly limit, is
  cut into payloads of at most 800 bytes from which any depacketizer, whatever fragment it was
  in the middle of, restores exactly that unit.
\<close>

lemma PackageH264NALU_round_trip:
  assumes "nal_ok n"
  shows "fst (depacketize_all (PackageH264NALU n) d) = [n] \<and>
    list_all (\<lambda>p. length p \<le> 800 \<and> p \<noteq> []) (PackageH264NALU n)"
proof
  show "fst (depacketize_all (PackageH264NALU n) d) = [n]"
    using PackageH264NALU_depacketize [OF assms, of d] by auto
  show "list_all (\<lambda>p. length p \<le> 800 \<and> p \<noteq> []) (PackageH264NALU n)"
    using fragment_bound by (auto simp: PackageH264NALU_def list_all_iff Let_def mtuPayloadMax_def)
qed

section \<open>Aggregation\<close>

definition stap_entry :: "bytes \<Rightarrow> bytes" where
  "stap_entry n = [word_of_nat (drop_bit 8 (length n)), word_of_nat (length n)] @ n"

lemma stap_entry_eq: "(\<lambda>n. [word_of_nat (drop_bit 8 (length n)), word_of_nat (length n)] @ n) = stap_entry"
  by (rule ext) (simp add: stap_entry_def)

lemma stap_scan_units:
  "stap_scan ns sz m = Some r \<Longrightarrow> list_all (\<lambda>n. n \<noteq> [] \<and> length n < 65536) ns"
  by (induction ns arbitrary: sz m) (auto simp: Let_def split: if_splits)

lemma stap_scan_size:
  "stap_scan ns sz m = Some (s, m') \<Longrightarrow>
     s = sz + length (concat (map stap_entry ns)) \<and> (sz \<le> mtuPayloadMax \<longrightarrow> s \<le> mtuPayloadMax)"
proof (induction ns arbitrary: sz m)
  case (Cons n ns)
  let ?nri = "n ! 0 AND 0x60"
  from Cons.prems have le: "sz + 2 + length n \<le> mtuPayloadMax"
    and rest: "stap_scan ns (sz + 2 + length n) (if m < ?nri then ?nri else m) = Some (s, m')"
    by (auto simp: Let_def split: if_splits)
  from Cons.IH [OF rest] le show ?case by (simp add: stap_entry_def)
qed simp

lemma stap_scan_nri: "stap_scan ns sz m = Some (s, m') \<Longrightarrow> m AND 0x1F = 0 \<Longrightarrow> m' AND 0x1F = 0"
proof (induction ns arbitrary: sz m)
  case (Cons n ns)
  have "(n ! 0 AND 0x60) AND 0x1F = 0" by (simp add: and.assoc)
  with Cons show ?case by (auto simp: Let_def split: if_splits)
qed simp

lemma stap_loop_entries:
  "list_all (\<lambda>n. n \<noteq> [] \<and> length n < 65536) ns \<Longrightarrow> stap_loop (concat (map stap_entry ns)) = ns"
proof (induction ns)
  case (Cons n ns)
  then have n: "length n < 2 ^ 16" "n \<noteq> []" by simp_all
  have "push_bit 8 (unat (word_of_nat (drop_bit 8 (length n)) :: byte)) OR unat (word_of_nat (length n) :: byte) = length n"
    unfolding unat_word_of_nat_byte by (rule join16 [OF n(1)])
  then show ?case using Cons n(2) by (simp add: stap_entry_def Let_def)
qed simp

text \<open>
  When small NAL units are aggregated, the payload fits the 800-byte budget and every
  depacketizer takes it apart into the same units in the same order.
\<close>

lemma PackageH264STAPA_round_trip:
  assumes "PackageH264STAPA nalus = Some p"
  shows "fst (Depacketize p d) = nalus \<and> length p \<le> 800"
proof -
  obtain s m where sm: "stap_scan nalus 1 0 = Some (s, m)" "2 \<le> length nalus"
    "p = (m OR h264StapAType) # concat (map stap_entry nalus)"
    using assms unfolding PackageH264STAPA_def stap_entry_eq
    by (auto simp: not_less split: if_splits option.splits prod.splits)
  have "m AND 0x1F = 0" using stap_scan_nri [OF sm(1)] by simp
  then have t: "(m OR h264StapAType) AND 0x1F = h264StapAType"
    by (simp add: h264StapAType_def bit.conj_disj_distrib2)
  have "fst (Depacketize p d) = nalus"
    using t stap_loop_entries [OF stap_scan_units [OF sm(1)]]
    by (simp add: Depacketize_def sm(3) Let_def h264StapAType_def)
  moreover have "length p \<le> 800"
    using stap_scan_size [OF sm(1)] sm(3) by (simp add: mtuPayloadMax_def)
  ultimately show ?thesis ..
qed

section \<open>Access units\<close>

definition annexb :: "bytes list \<Rightarrow> bytes" where
  "annexb ns = concat (map (\<lambda>n. [0, 0, 0, 1] @ n) ns)"

lemma annexb_simps [simp]: "annexb [] = []" "annexb (n # ns) = [0, 0, 0, 1] @ n @ annexb ns"
  "annexb (ms @ ns) = annexb ms @ annexb ns"
  by (simp_all add: annexb_def)

lemma append_nalus_fit:
  "length (accessUnit a) + length (annexb ns) \<le> maxAccessUnitBytes \<Longrightarrow>
     append_nalus ns a r = (a\<lparr>accessUnit := accessUnit a @ annexb ns\<rparr>, r)"
  by (induction ns arbitrary: a) auto

lemma Depacketize_overflow: "overflow d \<Longrightarrow> overflow (snd (Depacketize p d))"
  by (auto simp: Depacketize_def depacketize_fua_def Let_def)

lemma depacketize_all_overflow: "overflow d \<Longrightarrow> overflow (snd (depacketize_all ps d))"
proof (induction ps arbitrary: d)
  case (Cons p ps)
  then show ?case using Depacketize_overflow [of d p] by (simp add: split_beta)
qed simp

definition in_step :: "H264AccessUnitAssembler \<Rightarrow> u16 \<Rightarrow> bool" where
  "in_step a seq \<longleftrightarrow> \<not> hasSequence a \<or> expectedSeq a = seq"

definition closed_frame :: "bytes \<Rightarrow> H264AccessUnitAssembler \<Rightarrow> (bytes \<times> bool \<times> bool) \<times> H264AccessUnitAssembler" where
  "closed_frame au a = (let a = a\<lparr>accessUnit := [], depacketizer := new_depacketizer\<rparr> in
     if au = [] then (([], False, False), a)
     else if keyframeNeeded a then
       (if \<not> AUHasIDR au then (([], False, False), a) else ((au, True, False), a\<lparr>keyframeNeeded := False\<rparr>))
     else ((au, True, False), a))"

lemma Push_in_step:
  assumes "in_step a seq" "Depacketize p (depacketizer a) = (ns, d)" "\<not> overflow d"
    "length (accessUnit a) + length (annexb ns) \<le> maxAccessUnitBytes"
  defines "a' \<equiv> a\<lparr>hasSequence := True, expectedSeq := seq + 1, depacketizer := d, accessUnit := accessUnit a @ annexb ns\<rparr>"
  shows "Push seq False p a = (([], False, False), a')" "Push seq True p a = closed_frame (accessUnit a') a'"
proof -
  have gap: "(hasSequence a \<and> seq \<noteq> expectedSeq a) = False" using assms(1) by (auto simp: in_step_def)
  have fit: "append_nalus ns (a\<lparr>hasSequence := True, expectedSeq := seq + 1, depacketizer := d\<rparr>) False = (a', False)"
    using assms(4) by (subst append_nalus_fit) (simp_all add: a'_def)
  have ov: "\<not> overflow (depacketizer a')" using assms(3) by (simp add: a'_def)
  show "Push seq False p a = (([], False, False), a')" "Push seq True p a = closed_frame (accessUnit a') a'"
    unfolding Push_def gap Let_def by (simp_all add: assms(2) fit ov closed_frame_def Let_def)
qed

text \<open>A sequence of received packets: sequence number, marker bit and payload.\<close>

type_synonym packet = "u16 \<times> bool \<times> bytes"

fun push_all :: "packet list \<Rightarrow> H264AccessUnitAssembler \<Rightarrow> (bytes \<times> bool \<times> bool) list \<times> H264AccessUnitAssembler" where
  "push_all [] a = ([], a)"
| "push_all ((seq, marker, p) # ps) a =
     (let (r, a) = Push seq marker p a; (rs, a) = push_all ps a in (r # rs, a))"

definition delivered :: "(bytes \<times> bool \<times> bool) list \<Rightarrow> bytes list" where
  "delivered rs = map fst (filter (\<lambda>(au, ok, _). ok) rs)"

definition recovery_requests :: "(bytes \<times> bool \<times> bool) list \<Rightarrow> nat" where
  "recovery_requests rs = length (filter (\<lambda>(au, ok, recovery). recovery) rs)"

text \<open>How a sender numbers the payloads of a frame (the marker is on the last) and a stream of frames.\<close>

fun number :: "u16 \<Rightarrow> bytes list \<Rightarrow> packet list" where
  "number seq [] = []"
| "number seq (p # ps) = (seq, ps = [], p) # number (seq + 1) ps"

text \<open>A sender that hands each NAL unit of a frame to the packetizer.\<close>

definition frame_payloads :: "bytes list \<Rightarrow> bytes list" where
  "frame_payloads nalus = concat (map PackageH264NALU nalus)"

fun send_frames :: "u16 \<Rightarrow> bytes list list \<Rightarrow> packet list" where
  "send_frames seq [] = []"
| "send_frames seq (f # fs) = number seq (frame_payloads f) @ send_frames (seq + word_of_nat (length (frame_payloads f))) fs"

text \<open>
  The sender of \<^verbatim>\<open>call_engine_media.go\<close> packs the units of an access unit, without empty ones and access-unit delimiters,
  into one with start codes between them, and hands that to the packetizer.
\<close>

definition packAccessUnit :: "bytes \<Rightarrow> bytes" where
  "packAccessUnit au =
     foldl (\<lambda>packedAccessUnit n.
         if length n = 0 \<or> n ! 0 AND 0x1f = 9 then packedAccessUnit
         else (if 0 < length packedAccessUnit then packedAccessUnit @ [0, 0, 0, 1] else packedAccessUnit) @ n)
       [] (SplitAnnexB au)"

definition access_unit_payloads :: "bytes \<Rightarrow> bytes list" where
  "access_unit_payloads au =
     (let packedAccessUnit = packAccessUnit au
      in if length packedAccessUnit = 0 then [] else PackageH264NALU packedAccessUnit)"

fun send_access_units :: "u16 \<Rightarrow> bytes list \<Rightarrow> packet list" where
  "send_access_units seq [] = []"
| "send_access_units seq (au # aus) =
     number seq (access_unit_payloads au) @ send_access_units (seq + word_of_nat (length (access_unit_payloads au))) aus"

lemma send_access_units_frames: "send_access_units seq aus = send_frames seq (map (\<lambda>au. [packAccessUnit au]) aus)"
proof (induction aus arbitrary: seq)
  case (Cons au aus)
  have "access_unit_payloads au = frame_payloads [packAccessUnit au]"
    by (simp add: access_unit_payloads_def frame_payloads_def PackageH264NALU_def Let_def)
  with Cons show ?case by simp
qed simp

lemma delivered_simps [simp]:
  "delivered [] = []" "delivered ((au, ok, r) # rs) = (if ok then au # delivered rs else delivered rs)"
  "delivered (xs @ ys) = delivered xs @ delivered ys"
  by (simp_all add: delivered_def)

lemma recovery_simps [simp]:
  "recovery_requests [] = 0" "recovery_requests ((au, ok, r) # rs) = of_bool r + recovery_requests rs"
  "recovery_requests (xs @ ys) = recovery_requests xs + recovery_requests ys"
  by (simp_all add: recovery_requests_def)

lemma quiet_results [simp]:
  "delivered (replicate n ([], False, False)) = []" "recovery_requests (replicate n ([], False, False)) = 0"
  by (induction n) simp_all

lemma push_all_append:
  "push_all (ps @ qs) a = (let (rs, a) = push_all ps a; (ts, a) = push_all qs a in (rs @ ts, a))"
  by (induction ps arbitrary: a) (auto simp: split_beta Let_def)

lemma depacketize_all_append:
  "depacketize_all (ps @ qs) d =
     (let (ns, d) = depacketize_all ps d; (ms, d) = depacketize_all qs d in (ns @ ms, d))"
  by (induction ps arbitrary: d) (auto simp: split_beta Let_def)

lemma push_number:
  assumes "ps \<noteq> []" "in_step a seq" "depacketize_all ps (depacketizer a) = (ns, d)" "\<not> overflow d"
    "length (accessUnit a) + length (annexb ns) \<le> maxAccessUnitBytes"
  shows "push_all (number seq ps) a =
    (let (r, b) = closed_frame (accessUnit a @ annexb ns)
                    (a\<lparr>hasSequence := True, expectedSeq := seq + word_of_nat (length ps)\<rparr>)
     in (replicate (length ps - 1) ([], False, False) @ [r], b))"
  using assms
proof (induction ps arbitrary: seq a ns)
  case (Cons p ps)
  obtain n1 d1 where p: "Depacketize p (depacketizer a) = (n1, d1)" by fastforce
  obtain n2 d2 where "depacketize_all ps d1 = (n2, d2)" by fastforce
  with Cons.prems(3) p have q: "depacketize_all ps d1 = (n2, d)" "ns = n1 @ n2" by simp_all
  have d1: "\<not> overflow d1" using depacketize_all_overflow [of d1 ps] q(1) Cons.prems(4) by auto
  have fit: "length (accessUnit a) + length (annexb n1) \<le> maxAccessUnitBytes" using Cons.prems(5) q(2) by simp
  note step = Push_in_step [OF Cons.prems(2) p d1 fit]
  show ?case
  proof (cases "ps = []")
    case True
    then show ?thesis using step(2) q by (simp add: split_beta closed_frame_def Let_def)
  next
    case False
    let ?a = "a\<lparr>hasSequence := True, expectedSeq := seq + 1, depacketizer := d1, accessUnit := accessUnit a @ annexb n1\<rparr>"
    have "push_all (number (seq + 1) ps) ?a =
      (let (r, b) = closed_frame (accessUnit ?a @ annexb n2)
                      (?a\<lparr>hasSequence := True, expectedSeq := seq + 1 + word_of_nat (length ps)\<rparr>)
       in (replicate (length ps - 1) ([], False, False) @ [r], b))"
      by (rule Cons.IH) (use False q Cons.prems(4,5) in \<open>simp_all add: in_step_def\<close>)
    then show ?thesis
      using False step(1) q(2) by (cases ps) (simp_all add: split_beta closed_frame_def Let_def add.assoc)
  qed
qed simp

definition frame_ok :: "bytes list \<Rightarrow> bool" where
  "frame_ok nalus \<longleftrightarrow> nalus \<noteq> [] \<and> list_all nal_ok nalus \<and> length (annexb nalus) \<le> maxAccessUnitBytes"

lemma depacketize_frame:
  "list_all nal_ok nalus \<Longrightarrow> \<exists>d'. depacketize_all (frame_payloads nalus) d = (nalus, d') \<and> overflow d' = overflow d"
proof (induction nalus arbitrary: d)
  case (Cons n nalus)
  then obtain d1 where d1: "depacketize_all (PackageH264NALU n) d = ([n], d1)" "overflow d1 = overflow d"
    using PackageH264NALU_depacketize by fastforce
  from Cons obtain d2 where "depacketize_all (frame_payloads nalus) d1 = (nalus, d2)" "overflow d2 = overflow d1"
    by fastforce
  with d1 show ?case by (simp add: frame_payloads_def depacketize_all_append)
qed (simp add: frame_payloads_def)

lemma frame_payloads_Nil: "frame_ok nalus \<Longrightarrow> frame_payloads nalus \<noteq> []"
  using depacketize_frame [of nalus new_depacketizer] by (auto simp: frame_ok_def)

text \<open>Between frames: nothing is buffered, the depacketizer is fresh.\<close>

definition between_frames :: "H264AccessUnitAssembler \<Rightarrow> bool" where
  "between_frames a \<longleftrightarrow> accessUnit a = [] \<and> depacketizer a = new_depacketizer"

lemma annexb_Nil: "annexb ns = [] \<longleftrightarrow> ns = []" by (cases ns) simp_all

lemma push_frame:
  assumes "frame_ok f" "between_frames a" "in_step a seq"
  defines "n \<equiv> length (frame_payloads f)"
  shows "push_all (number seq (frame_payloads f)) a =
    (let (r, b) = closed_frame (annexb f) (a\<lparr>hasSequence := True, expectedSeq := seq + word_of_nat n\<rparr>)
     in (replicate (n - 1) ([], False, False) @ [r], b))"
proof -
  obtain d where d: "depacketize_all (frame_payloads f) (depacketizer a) = (f, d)" "\<not> overflow d"
    using depacketize_frame [of f "depacketizer a"] assms(1,2)
    by (auto simp: frame_ok_def between_frames_def new_depacketizer_def)
  show ?thesis
    using push_number [OF frame_payloads_Nil [OF assms(1)] assms(3) d] assms(1,2)
    by (simp add: n_def frame_ok_def between_frames_def)
qed

section \<open>Start codes\<close>

text \<open>A NAL unit as an encoder ends and escapes it: no start code inside, no zero byte at the end.\<close>

fun no_code :: "bytes \<Rightarrow> bool" where
  "no_code (a # b # c # r) \<longleftrightarrow> \<not> (a = 0 \<and> b = 0 \<and> c = 1) \<and> no_code (b # c # r)"
| "no_code _ \<longleftrightarrow> True"

definition nal_clean :: "bytes \<Rightarrow> bool" where
  "nal_clean n \<longleftrightarrow> n \<noteq> [] \<and> last n \<noteq> 0 \<and> no_code n"

lemma nal_clean_tl: "nal_clean (x # m) \<Longrightarrow> m \<noteq> [] \<Longrightarrow> nal_clean m"
  by (cases m rule: no_code.cases) (auto simp: nal_clean_def)

lemma startcode_at: "annexBStartCodeLen (pre @ xs) (length pre) = annexBStartCodeLen xs 0"
proof -
  have n: "(pre @ xs) ! (length pre + k) = xs ! k" for k by (rule nth_append_length_plus)
  have z: "(pre @ xs) ! length pre = xs ! 0" using n [of 0] by simp
  show ?thesis unfolding annexBStartCodeLen_def z n by (simp del: add_2_eq_Suc add_2_eq_Suc')
qed

lemma startcode_inside: "nal_clean m \<Longrightarrow> annexBStartCodeLen (m @ rest) 0 = 0"
proof (cases m rule: no_code.cases)
  case (1 a b c r)
  moreover assume "nal_clean m"
  ultimately show ?thesis
    by (cases r) (auto simp: nal_clean_def annexBStartCodeLen_def eval_nat_numeral)
qed (auto simp: nal_clean_def annexBStartCodeLen_def)

lemma startcode_boundary: "annexBStartCodeLen ([0, 0, 0, 1] @ rest) 0 = 4"
  by (simp add: annexBStartCodeLen_def eval_nat_numeral)

lemma split_skip:
  "nal_clean m \<Longrightarrow>
     split_loop (pre @ m @ rest) (length pre) start acc = split_loop (pre @ m @ rest) (length pre + length m) start acc"
proof (induction m arbitrary: pre)
  case (Cons x m)
  have "annexBStartCodeLen (pre @ (x # m) @ rest) (length pre) = 0"
    using startcode_inside [OF Cons.prems, of rest] startcode_at [of pre "(x # m) @ rest"] by simp
  then have step: "split_loop (pre @ (x # m) @ rest) (length pre) start acc =
      split_loop (pre @ (x # m) @ rest) (length pre + 1) start acc"
    by (subst split_loop.simps) simp
  show ?case
  proof (cases "m = []")
    case False
    from Cons.IH [OF nal_clean_tl [OF Cons.prems False], of "pre @ [x]"] step show ?thesis by simp
  qed (use step in simp)
qed (simp add: nal_clean_def)

lemma trim_zeros_clean: "nal_clean n \<Longrightarrow> trim_zeros n = n"
  by (cases n rule: rev_cases) (simp_all add: nal_clean_def trim_zeros_def)

lemma split_rest:
  assumes "list_all nal_clean ns" "nal_clean n"
  shows "split_loop ((pre @ n) @ annexb ns) (length (pre @ n)) (Some (length pre)) acc = acc @ n # ns"
  using assms
proof (induction ns arbitrary: pre n acc)
  case Nil
  then show ?case by (subst split_loop.simps) (simp add: nal_clean_def)
next
  case (Cons m ns)
  let ?d = "(pre @ n) @ annexb (m # ns)" and ?p = "(pre @ n) @ [0, 0, 0, 1]"
  have d: "?d = ?p @ m @ annexb ns" by simp
  have "annexBStartCodeLen ?d (length (pre @ n)) = 4"
    using startcode_at [of "pre @ n"] startcode_boundary by simp
  moreover have "slice (length pre) (length (pre @ n)) ?d = n" by (simp add: slice_def)
  ultimately have "split_loop ?d (length (pre @ n)) (Some (length pre)) acc =
      split_loop ?d (length ?p) (Some (length ?p)) (acc @ [n])"
    using Cons.prems by (subst split_loop.simps) (simp add: trim_zeros_clean nal_clean_def eval_nat_numeral)
  also have "\<dots> = split_loop ((?p @ m) @ annexb ns) (length (?p @ m)) (Some (length ?p)) (acc @ [n])"
    using split_skip [of m ?p "annexb ns"] Cons.prems by (simp add: add.assoc)
  also have "\<dots> = (acc @ [n]) @ m # ns" using Cons.prems by (intro Cons.IH) simp_all
  finally show ?case by simp
qed

lemma SplitAnnexB_clean: "list_all nal_clean ns \<Longrightarrow> SplitAnnexB (annexb ns) = ns"
proof (cases ns)
  case Nil
  then show ?thesis by (simp add: SplitAnnexB_def split_loop.simps)
next
  case (Cons n ms)
  assume ok: "list_all nal_clean ns"
  let ?p = "[0, 0, 0, 1] :: bytes"
  have "split_loop (annexb (n # ms)) 0 None [] = split_loop (annexb (n # ms)) 4 (Some 4) []"
    using startcode_boundary [of "n @ annexb ms"] by (subst split_loop.simps) simp
  also have "\<dots> = split_loop ((?p @ n) @ annexb ms) (length (?p @ n)) (Some (length ?p)) []"
    using split_skip [of n ?p "annexb ms" "Some 4" "[]"] ok Cons by (simp add: eval_nat_numeral)
  also have "\<dots> = [] @ n # ms" using ok Cons by (intro split_rest) simp_all
  finally show ?thesis using Cons by (simp add: SplitAnnexB_def)
qed

text \<open>
  Cutting an Annex B access unit at its start codes undoes joining its NAL units, for any
  units that hold no start code and do not end in a zero byte, as the H.264 byte-stream format
  requires of every unit.
\<close>

lemma SplitAnnexB_annexb:
  assumes "list_all nal_clean ns"
  shows "SplitAnnexB (annexb ns) = ns"
  by (rule SplitAnnexB_clean [OF assms])

definition has_idr :: "bytes list \<Rightarrow> bool" where
  "has_idr nalus \<longleftrightarrow> list_ex (\<lambda>n. n ! 0 AND 0x1f = 5) nalus"

lemma AUHasIDR_annexb: "list_all nal_clean ns \<Longrightarrow> AUHasIDR (annexb ns) = has_idr ns"
  unfolding AUHasIDR_def has_idr_def SplitAnnexB_clean
  by (induction ns) (auto simp: nal_clean_def)

section \<open>Loss and recovery\<close>

lemma append_nalus_flag:
  "append_nalus ns a r = (fst (append_nalus ns a False), r \<or> snd (append_nalus ns a False))"
  by (induction ns arbitrary: a) auto

text \<open>A packet out of sequence acts on a cleared assembler; the request is made once.\<close>

lemma Push_gap:
  assumes "hasSequence a" "seq \<noteq> expectedSeq a"
  shows "Push seq marker p a =
    (let ((au, ok, r), b) = Push seq marker p (drop_frame a\<lparr>hasSequence := False\<rparr>)
     in ((au, ok, r \<or> \<not> keyframeNeeded a), b))"
proof -
  have gap: "(hasSequence a \<and> seq \<noteq> expectedSeq a) = True" using assms by simp
  let ?a = "(drop_frame a)\<lparr>hasSequence := True, expectedSeq := seq + 1\<rparr>"
  obtain ns d where d: "Depacketize p new_depacketizer = (ns, d)" by fastforce
  obtain b r where b: "append_nalus ns (?a\<lparr>depacketizer := d\<rparr>) False = (b, r)" by fastforce
  have b2: "append_nalus ns (?a\<lparr>depacketizer := d\<rparr>) (\<not> keyframeNeeded a) = (b, \<not> keyframeNeeded a \<or> r)"
    by (subst append_nalus_flag) (simp add: b)
  show ?thesis
    using d b b2 unfolding Push_def gap Let_def
    by (auto simp: drop_frame_def split_beta)
qed

lemma closed_frame_annexb:
  assumes "f \<noteq> []"
  shows "closed_frame (annexb f) a =
    (if keyframeNeeded a \<and> \<not> AUHasIDR (annexb f)
     then (([], False, False), a\<lparr>accessUnit := [], depacketizer := new_depacketizer\<rparr>)
     else ((annexb f, True, False), a\<lparr>accessUnit := [], depacketizer := new_depacketizer, keyframeNeeded := False\<rparr>))"
  using assms by (auto simp: closed_frame_def annexb_Nil Let_def)

lemma push_send_frames:
  assumes "list_all frame_ok frames" "between_frames a" "in_step a seq"
  shows "delivered (fst (push_all (send_frames seq frames) a)) =
      map annexb (if keyframeNeeded a then dropWhile (\<lambda>f. \<not> AUHasIDR (annexb f)) frames else frames) \<and>
    recovery_requests (fst (push_all (send_frames seq frames) a)) = 0"
  using assms
proof (induction frames arbitrary: seq a)
  case (Cons f fs)
  let ?seq = "seq + word_of_nat (length (frame_payloads f))"
  define b where "b = a\<lparr>hasSequence := True, expectedSeq := ?seq, accessUnit := [], depacketizer := new_depacketizer,
    keyframeNeeded := keyframeNeeded a \<and> \<not> AUHasIDR (annexb f)\<rparr>"
  let ?r = "if keyframeNeeded a \<and> \<not> AUHasIDR (annexb f) then ([], False, False) else (annexb f, True, False)"
  have f: "frame_ok f" "f \<noteq> []"
    using Cons.prems by (auto simp: frame_ok_def)
  have "push_all (number seq (frame_payloads f)) a =
      (replicate (length (frame_payloads f) - 1) ([], False, False) @ [?r], b)"
    unfolding push_frame [OF f(1) Cons.prems(2,3)]
    using closed_frame_annexb [OF f(2), of "a\<lparr>hasSequence := True, expectedSeq := ?seq\<rparr>"]
    by (auto simp: b_def)
  moreover have "delivered (fst (push_all (send_frames ?seq fs) b)) =
      map annexb (if keyframeNeeded b then dropWhile (\<lambda>f. \<not> AUHasIDR (annexb f)) fs else fs) \<and>
    recovery_requests (fst (push_all (send_frames ?seq fs) b)) = 0"
    by (rule Cons.IH) (use Cons.prems in \<open>auto simp: b_def between_frames_def in_step_def\<close>)
  moreover have "keyframeNeeded b \<longleftrightarrow> keyframeNeeded a \<and> \<not> AUHasIDR (annexb f)" by (simp add: b_def)
  ultimately show ?case by (simp add: push_all_append split_beta)
qed simp

text \<open>
  C33: a stream of frames that all arrive in order, from any first sequence number and across
  its wrap-around, comes out of a new assembler as exactly the frames' access units, one for one
  and in order, and no keyframe is requested.
\<close>

theorem send_frames_received:
  assumes "list_all frame_ok frames"
  shows "delivered (fst (push_all (send_frames seq frames) new_assembler)) = map annexb frames \<and>
    recovery_requests (fst (push_all (send_frames seq frames) new_assembler)) = 0"
  using push_send_frames [OF assms, of new_assembler seq]
  by (simp add: new_assembler_def between_frames_def in_step_def)

theorem send_frames_received_witness:
  "list_all frame_ok [[[0x67, 1], [0x65, 7]], [[0x41, 9]]] \<and>
   delivered (fst (push_all (send_frames 65535 [[[0x67, 1], [0x65, 7]], [[0x41, 9]]]) new_assembler)) =
     [[0, 0, 0, 1, 0x67, 1, 0, 0, 0, 1, 0x65, 7], [0, 0, 0, 1, 0x41, 9]]"
proof -
  have ok: "list_all frame_ok [[[0x67, 1], [0x65, 7]], [[0x41, 9]]]"
    by (simp add: frame_ok_def nal_ok_def maxFuReassemblyBytes_def maxAccessUnitBytes_def)
  show ?thesis using send_frames_received [OF ok, of 65535] ok by simp
qed

lemma number_Nil: "number seq ps = [] \<longleftrightarrow> ps = []"
  by (cases ps) simp_all

lemma hd_number: "ps \<noteq> [] \<Longrightarrow> fst (hd (number seq ps)) = seq \<and> number seq ps \<noteq> []"
  by (cases ps) simp_all

text \<open>What the sender keeps of an access unit, and the access units it sends: their first kept unit is of a sendable type.\<close>

definition kept :: "bytes list \<Rightarrow> bytes list" where
  "kept nalus = filter (\<lambda>n. n ! 0 AND 0x1f \<noteq> 9) nalus"

definition sendable :: "bytes list \<Rightarrow> bool" where
  "sendable nalus \<longleftrightarrow> list_all nal_clean nalus \<and> kept nalus \<noteq> [] \<and>
     1 \<le> hd (hd (kept nalus)) AND 0x1F \<and> hd (hd (kept nalus)) AND 0x1F \<le> 23 \<and> length (annexb nalus) \<le> maxFuReassemblyBytes"

lemma kept_simps [simp]: "kept [] = []" "kept (n # ns) = (if n ! 0 AND 0x1f = 9 then kept ns else n # kept ns)"
  by (simp_all add: kept_def)

lemma pack_fold:
  assumes "list_all (\<lambda>n. n \<noteq> []) ns" "packed \<noteq> []"
  shows "foldl (\<lambda>packed n. if length n = 0 \<or> n ! 0 AND 0x1f = 9 then packed
      else (if 0 < length packed then packed @ [0, 0, 0, 1] else packed) @ n) packed ns = packed @ annexb (kept ns)"
  using assms by (induction ns arbitrary: packed) auto

lemma pack_annexb:
  assumes "list_all nal_clean nalus" "kept nalus = k # ks"
  shows "packAccessUnit (annexb nalus) = k @ annexb ks"
proof -
  have ne: "list_all (\<lambda>n. n \<noteq> []) nalus" using assms(1) by (auto simp: list_all_iff nal_clean_def)
  then have "foldl (\<lambda>packed n. if length n = 0 \<or> n ! 0 AND 0x1f = 9 then packed
      else (if 0 < length packed then packed @ [0, 0, 0, 1] else packed) @ n) [] nalus = k @ annexb ks"
    using assms(2)
  proof (induction nalus)
    case (Cons n ns)
    then show ?case using pack_fold [of ns n] by (cases "n ! 0 AND 0x1f = 9") auto
  qed simp
  then show ?thesis by (simp add: packAccessUnit_def SplitAnnexB_clean [OF assms(1)])
qed

lemma length_kept: "length (annexb (kept ns)) \<le> length (annexb ns)"
  by (induction ns) auto

lemma sendable_frame:
  assumes "sendable nalus"
  shows "frame_ok [packAccessUnit (annexb nalus)]" "annexb [packAccessUnit (annexb nalus)] = annexb (kept nalus)"
    "AUHasIDR (annexb (kept nalus)) = has_idr nalus"
proof -
  obtain k ks where k: "kept nalus = k # ks" using assms by (cases "kept nalus") (simp_all add: sendable_def)
  have clean: "list_all nal_clean nalus" using assms by (simp add: sendable_def)
  then have kc: "list_all nal_clean (kept nalus)" by (auto simp: kept_def list_all_iff)
  then have "k \<noteq> []" using k by (simp add: nal_clean_def)
  note p = pack_annexb [OF clean k]
  show a: "annexb [packAccessUnit (annexb nalus)] = annexb (kept nalus)" by (simp add: p k)
  have "length (annexb (kept nalus)) \<le> maxFuReassemblyBytes" using assms length_kept [of nalus] by (simp add: sendable_def)
  then show "frame_ok [packAccessUnit (annexb nalus)]"
    using assms \<open>k \<noteq> []\<close>
    by (simp add: frame_ok_def nal_ok_def sendable_def p k maxFuReassemblyBytes_def maxAccessUnitBytes_def)
  have "has_idr (kept nalus) = has_idr nalus" by (induction nalus) (auto simp: has_idr_def)
  with AUHasIDR_annexb [OF kc] show "AUHasIDR (annexb (kept nalus)) = has_idr nalus" by simp
qed

text \<open>The last fragments of a unit whose first ones are lost: nothing comes of them.\<close>

lemma fragment_later:
  assumes "p \<in> set (fragment (fua_ind h) (fua_typ h) False body)"
  shows "Depacketize p new_depacketizer = ([], new_depacketizer)"
  using assms
proof (induction body rule: length_induct)
  case (1 body)
  have inactive: "\<not> fuActive new_depacketizer" by (simp add: new_depacketizer_def)
  let ?r = "drop (mtuPayloadMax - 2) body"
  have "body \<noteq> []" using 1(2) by (auto simp: fragment.simps)
  then have "length ?r < length body" by (cases body) (auto simp: mtuPayloadMax_def)
  then have later: "p \<in> set (fragment (fua_ind h) (fua_typ h) False ?r) \<Longrightarrow> ?case" using 1(1) by blast
  have "Depacketize (fua_ind h # fua_typ h # c) new_depacketizer = ([], new_depacketizer)"
    "Depacketize (fua_ind h # (fua_typ h OR 0x40) # c) new_depacketizer = ([], new_depacketizer)" for c
    unfolding Depacketize_fua using fua_header [of h] inactive by (simp_all add: depacketize_fua_def Let_def)
  moreover obtain c e where "p = fua_ind h # (if e then fua_typ h OR 0x40 else fua_typ h) # c \<or> p \<in> set (fragment (fua_ind h) (fua_typ h) False ?r)"
    using 1(2) \<open>body \<noteq> []\<close> by (subst (asm) fragment.simps) (auto simp: Let_def split: if_splits)
  ultimately show ?case using later by (cases e) auto
qed

lemma fragments_later: "set qs \<subseteq> set (fragment (fua_ind h) (fua_typ h) False body) \<Longrightarrow> depacketize_all qs new_depacketizer = ([], new_depacketizer)"
proof (induction qs)
  case (Cons q qs)
  then have "Depacketize q new_depacketizer = ([], new_depacketizer)" by (intro fragment_later [of q h body]) simp
  with Cons show ?case by simp
qed simp

lemma tail_empty:
  assumes "0 < j"
  shows "depacketize_all (drop j (PackageH264NALU n)) new_depacketizer = ([], new_depacketizer)"
proof (cases "length n \<le> mtuPayloadMax")
  case True
  with assms show ?thesis by (auto simp: PackageH264NALU_def)
next
  case False
  then obtain h body where n: "n = h # body" "body \<noteq> []" by (cases n) (fastforce simp: mtuPayloadMax_def)+
  obtain p where p: "PackageH264NALU n = p # fragment (fua_ind h) (fua_typ h) False (drop (mtuPayloadMax - 2) body)"
    using False n by (simp add: PackageH264NALU_def Let_def fragment.simps [of _ _ True])
  obtain i where j: "j = Suc i" using assms by (cases j) simp_all
  show ?thesis unfolding p j drop_Suc_Cons by (rule fragments_later) (rule set_drop_subset)
qed

text \<open>Packets after a gap act on a cleared assembler.\<close>

lemma push_all_gap:
  assumes "hasSequence a" "seq \<noteq> expectedSeq a" "ps = (seq, m, p) # qs"
  defines "b \<equiv> drop_frame a\<lparr>hasSequence := False\<rparr>"
  shows "delivered (fst (push_all ps a)) = delivered (fst (push_all ps b)) \<and>
    (recovery_requests (fst (push_all ps b)) = 0 \<longrightarrow>
       recovery_requests (fst (push_all ps a)) = (if keyframeNeeded a then 0 else 1))"
proof -
  obtain au ok r c where "Push seq m p b = ((au, ok, r), c)" by (metis prod_cases3 surj_pair)
  then show ?thesis using Push_gap [OF assms(1,2), of m p] by (simp add: assms(3) b_def split_beta)
qed

lemma push_tail:
  assumes "between_frames b" "in_step b seq" "depacketize_all qs new_depacketizer = ([], new_depacketizer)" "qs \<noteq> []"
  shows "push_all (number seq qs) b =
    (replicate (length qs) ([], False, False), b\<lparr>hasSequence := True, expectedSeq := seq + word_of_nat (length qs)\<rparr>)"
proof -
  have "depacketize_all qs (depacketizer b) = ([], new_depacketizer)" using assms(1,3) by (simp add: between_frames_def)
  moreover have "\<not> overflow new_depacketizer" by (simp add: new_depacketizer_def)
  moreover have "replicate (length qs - 1) x @ [x] = replicate (length qs) x" for x :: "bytes \<times> bool \<times> bool"
    using assms(4) by (cases qs) (simp_all add: replicate_append_same)
  moreover have "b\<lparr>hasSequence := True, expectedSeq := t, accessUnit := [], depacketizer := new_depacketizer\<rparr> =
      b\<lparr>hasSequence := True, expectedSeq := t\<rparr>" for t using assms(1) by (cases b) (simp add: between_frames_def)
  ultimately show ?thesis
    using push_number [OF assms(4,2), of "[]" new_depacketizer] assms(1)
    by (simp add: between_frames_def closed_frame_def Let_def maxAccessUnitBytes_def)
qed

text \<open>
  C34: whatever the assembler holds, let packets be lost, so that the next one is not the expected one, and let there
  follow the last fragments of a unit the loss has damaged, if any, and then access units as the program sends them, each packed
  with its parameter sets into one unit. Nothing comes of the damaged unit; the access units are withheld up to the first
  one with an IDR unit and delivered from there on, without their delimiters; and a keyframe is requested exactly once, or not at all when one
  was already awaited.
\<close>

theorem recovery_after_loss:
  assumes "hasSequence a" "seq \<noteq> expectedSeq a" "0 < j" "rest = drop j (PackageH264NALU n)" "rest \<noteq> [] \<or> aus \<noteq> []"
    "list_all sendable aus"
    "ps = number seq rest @ send_access_units (seq + word_of_nat (length rest)) (map annexb aus)"
  shows "delivered (fst (push_all ps a)) = map (\<lambda>au. annexb (kept au)) (dropWhile (\<lambda>au. \<not> has_idr au) aus) \<and>
    recovery_requests (fst (push_all ps a)) = (if keyframeNeeded a then 0 else 1)"
proof -
  let ?b = "drop_frame a\<lparr>hasSequence := False\<rparr>" and ?frames = "map (\<lambda>au. [packAccessUnit (annexb au)]) aus"
  let ?c = "if rest = [] then ?b else ?b\<lparr>hasSequence := True, expectedSeq := seq + word_of_nat (length rest)\<rparr>"
  let ?seq = "seq + word_of_nat (length rest)"
  have b: "between_frames ?b" "in_step ?b seq" "keyframeNeeded ?b"
    by (simp_all add: between_frames_def in_step_def drop_frame_def)
  have tail: "push_all (number seq rest) ?b = (replicate (length rest) ([], False, False), ?c)"
    using push_tail [OF b(1,2) tail_empty [OF assms(3), of n, folded assms(4)]] by (cases "rest = []") simp_all
  have frames: "list_all frame_ok ?frames" using assms(6) sendable_frame(1) by (auto simp: list_all_iff)
  have c: "between_frames ?c" "in_step ?c ?seq" "keyframeNeeded ?c"
    using b by (auto simp: between_frames_def in_step_def)
  have idr: "dropWhile (\<lambda>f. \<not> AUHasIDR (annexb f)) ?frames = map (\<lambda>au. [packAccessUnit (annexb au)]) (dropWhile (\<lambda>au. \<not> has_idr au) aus)"
    using assms(6) by (induction aus) (auto simp: sendable_frame simp del: annexb_simps)
  have "map annexb (map (\<lambda>au. [packAccessUnit (annexb au)]) aus') = map (\<lambda>au. annexb (kept au)) aus'" if "list_all sendable aus'" for aus'
    using that by (induction aus') (simp_all add: sendable_frame del: annexb_simps)
  moreover have "list_all sendable (dropWhile (\<lambda>au. \<not> has_idr au) aus)"
    using assms(6) by (auto simp: list_all_iff dest: set_dropWhileD)
  ultimately have run: "delivered (fst (push_all ps ?b)) = map (\<lambda>au. annexb (kept au)) (dropWhile (\<lambda>au. \<not> has_idr au) aus)"
    "recovery_requests (fst (push_all ps ?b)) = 0"
    using push_send_frames [OF frames c(1,2)] c(3) idr
    by (simp_all add: assms(7) push_all_append tail send_access_units_frames split_beta comp_def del: annexb_simps)
  have "ps \<noteq> []" using assms(5,7) frames frame_payloads_Nil by (cases rest; cases aus) (auto simp: send_access_units_frames number_Nil)
  moreover have "fst (hd ps) = seq" if "ps \<noteq> []"
    using that assms(5,7) frames frame_payloads_Nil hd_number by (cases rest; cases aus) (auto simp: send_access_units_frames)
  ultimately obtain m p qs where "ps = (seq, m, p) # qs" by (cases ps) auto
  from push_all_gap [OF assms(1,2) this] run show ?thesis by simp
qed

text \<open>
  The tail of a damaged unit of 1000 bytes, a frame without an IDR unit, a frame of delimiter, parameter sets and IDR, and a frame after it.
\<close>

theorem recovery_after_loss_witness:
  "let rest = drop 1 (PackageH264NALU (0x41 # replicate 1000 7)) in rest \<noteq> [] \<and>
   delivered (fst (push_all (number 7 rest @ send_access_units (7 + word_of_nat (length rest))
       (map annexb [[[0x41, 9]], [[0x09, 0xF0], [0x67, 1], [0x68, 2], [0x65, 7]], [[0x41, 8]]]))
     (new_assembler\<lparr>hasSequence := True, expectedSeq := 5\<rparr>))) =
     [[0, 0, 0, 1, 0x67, 1, 0, 0, 0, 1, 0x68, 2, 0, 0, 0, 1, 0x65, 7], [0, 0, 0, 1, 0x41, 8]]"
proof -
  let ?aus = "[[[0x41, 9]], [[0x09, 0xF0], [0x67, 1], [0x68, 2], [0x65, 7]], [[0x41, 8]]] :: bytes list list"
  let ?n = "0x41 # replicate 1000 7 :: bytes"
  have ok: "list_all sendable ?aus"
    by (simp add: sendable_def nal_clean_def maxFuReassemblyBytes_def)
  have "drop 1 (PackageH264NALU ?n) \<noteq> []"
    by (simp add: PackageH264NALU_def mtuPayloadMax_def fragment.simps Let_def)
  then show ?thesis
    using recovery_after_loss [OF _ _ _ refl _ ok refl, of "new_assembler\<lparr>hasSequence := True, expectedSeq := 5\<rparr>" 7 1 ?n]
    by (simp add: has_idr_def Let_def)
qed

section \<open>Bounded memory\<close>

definition assembler_inv :: "H264AccessUnitAssembler \<Rightarrow> bool" where
  "assembler_inv a \<longleftrightarrow> length (accessUnit a) \<le> maxAccessUnitBytes \<and>
     length (fuBuf (depacketizer a)) \<le> maxFuReassemblyBytes \<and> \<not> overflow (depacketizer a)"

lemma new_depacketizer_simps [simp]: "fuBuf new_depacketizer = []" "overflow new_depacketizer = False"
  by (simp_all add: new_depacketizer_def)

lemma Depacketize_bound:
  "length (fuBuf d) \<le> maxFuReassemblyBytes \<Longrightarrow> length (fuBuf (snd (Depacketize p d))) \<le> maxFuReassemblyBytes"
  by (auto simp: Depacketize_def depacketize_fua_def Let_def not_less)

lemma append_nalus_bound:
  assumes "length (accessUnit a) \<le> maxAccessUnitBytes" "length (fuBuf (depacketizer a)) \<le> maxFuReassemblyBytes"
  shows "length (accessUnit (fst (append_nalus ns a r))) \<le> maxAccessUnitBytes \<and>
    length (fuBuf (depacketizer (fst (append_nalus ns a r)))) \<le> maxFuReassemblyBytes"
  using assms by (induction ns a r rule: append_nalus.induct) (auto simp: drop_frame_def)

lemma Push_inv:
  assumes "assembler_inv a"
  shows "assembler_inv (snd (Push seq marker p a))"
proof -
  define b where "b = (if hasSequence a \<and> seq \<noteq> expectedSeq a then drop_frame a else a)\<lparr>hasSequence := True, expectedSeq := seq + 1\<rparr>"
  define r where "r \<longleftrightarrow> (hasSequence a \<and> seq \<noteq> expectedSeq a) \<and> \<not> keyframeNeeded a"
  obtain ns d where d: "Depacketize p (depacketizer b) = (ns, d)" by fastforce
  obtain c s where c: "append_nalus ns (b\<lparr>depacketizer := d\<rparr>) r = (c, s)" by fastforce
  have "length (accessUnit b) \<le> maxAccessUnitBytes" "length (fuBuf (depacketizer b)) \<le> maxFuReassemblyBytes"
    using assms by (auto simp: b_def assembler_inv_def drop_frame_def)
  then have "length (accessUnit c) \<le> maxAccessUnitBytes" "length (fuBuf (depacketizer c)) \<le> maxFuReassemblyBytes"
    using append_nalus_bound [of "b\<lparr>depacketizer := d\<rparr>" ns r] Depacketize_bound [of "depacketizer b" p] c d by auto
  then show ?thesis
    unfolding Push_def b_def [symmetric] r_def [symmetric] Let_def
    using d c by (auto simp: assembler_inv_def drop_frame_def)
qed

text \<open>
  C35: for any packets whatsoever, in any order, the assembler never holds more than eight
  mebibytes of access unit and four of fragments, and no overflow is left pending between packets.
\<close>

theorem push_all_bounded:
  "let a = snd (push_all ps new_assembler)
   in length (accessUnit a) \<le> 8388608 \<and> length (fuBuf (depacketizer a)) \<le> 4194304 \<and> \<not> overflow (depacketizer a)"
proof -
  have "assembler_inv a \<Longrightarrow> assembler_inv (snd (push_all ps a))" for a
    by (induction ps arbitrary: a) (auto simp: split_beta Push_inv)
  moreover have "assembler_inv new_assembler" by (simp add: assembler_inv_def new_assembler_def)
  ultimately show ?thesis by (fastforce simp: assembler_inv_def maxAccessUnitBytes_def maxFuReassemblyBytes_def Let_def)
qed

end
