(* ===== verification/ReceptionSet.thy ===== *)
theory ReceptionSet
  imports Rtcp "HOL-Library.AList"
begin

text \<open>
  Reception statistics of all inbound streams (\<^verbatim>\<open>wa-core/rtp/rtcp_reception_set.go\<close>): a map from
  SSRC to the statistics of one stream, an optional authoritative roster, and the sorted list of
  reports. The Go map is an association list with distinct keys. A method is one step; the source
  releases the set's lock before it updates the stream it looked up, so the interleaving of two
  methods on the same stream is the one of the streams' own lock. The set refines one independent
  machine per SSRC.
\<close>

section \<open>The set\<close>

record RtcpReceptionStatsSet =
  streams :: "(u32 \<times> RtcpReceptionStats) list"
  allowedSSRCs :: "u32 list"
  authoritative :: bool

definition new_set :: RtcpReceptionStatsSet where
  "new_set = \<lparr>streams = [], allowedSSRCs = [], authoritative = False\<rparr>"

definition SetObserve :: "u32 \<Rightarrow> u16 \<Rightarrow> u32 \<Rightarrow> u64 \<Rightarrow> u32 \<Rightarrow> RtcpReceptionStatsSet \<Rightarrow> RtcpReceptionStatsSet" where
  "SetObserve ssrc sequence rtpTimestamp arrivalMs clockRate s =
     (if authoritative s \<and> ssrc \<notin> set (allowedSSRCs s) then s
      else
        let stream = (case map_of (streams s) ssrc of None \<Rightarrow> new_stats | Some st \<Rightarrow> st)
        in s\<lparr>streams := AList.update ssrc (Observe ssrc sequence rtpTimestamp arrivalMs clockRate stream) (streams s)\<rparr>)"

definition SetObserveSenderReport :: "u32 \<Rightarrow> u32 \<Rightarrow> u32 \<Rightarrow> u64 \<Rightarrow> RtcpReceptionStatsSet \<Rightarrow> RtcpReceptionStatsSet" where
  "SetObserveSenderReport senderSSRC ntpSeconds ntpFraction arrivalMs s =
     (case map_of (streams s) senderSSRC of
        None \<Rightarrow> s
      | Some st \<Rightarrow> s\<lparr>streams := AList.update senderSSRC (ObserveSenderReport senderSSRC ntpSeconds ntpFraction arrivalMs st) (streams s)\<rparr>)"

definition Retain :: "u32 list \<Rightarrow> RtcpReceptionStatsSet \<Rightarrow> RtcpReceptionStatsSet" where
  "Retain ssrcs s = s\<lparr>allowedSSRCs := ssrcs, authoritative := True,
     streams := filter (\<lambda>(ssrc, _). ssrc \<in> set ssrcs) (streams s)\<rparr>"

text \<open>The loop of \<open>Reports\<close> over the sorted keys; \<open>Report\<close> advances the interval of each stream.\<close>

fun report_loop :: "u64 \<Rightarrow> u32 list \<Rightarrow> (u32 \<times> RtcpReceptionStats) list \<Rightarrow>
    RtcpReceptionReport list \<times> (u32 \<times> RtcpReceptionStats) list" where
  "report_loop nowMs [] m = ([], m)"
| "report_loop nowMs (ssrc # ssrcs) m =
     (case map_of m ssrc of
        None \<Rightarrow> report_loop nowMs ssrcs m
      | Some st \<Rightarrow>
          let (report, st) = Report nowMs st;
              (reports, m) = report_loop nowMs ssrcs (AList.update ssrc st m)
          in (case report of None \<Rightarrow> reports | Some r \<Rightarrow> r # reports, m))"

definition Reports :: "u64 \<Rightarrow> RtcpReceptionStatsSet \<Rightarrow> RtcpReceptionReport list \<times> RtcpReceptionStatsSet" where
  "Reports nowMs s =
     (let (reports, m) = report_loop nowMs (sort (map fst (streams s))) (streams s) in (reports, s\<lparr>streams := m\<rparr>))"

section \<open>Keyed stores\<close>

text \<open>
  What the set needs of a map: a value put under a key is found there and changes no other key,
  keys can be dropped, and the keys can be listed without repetition. From this alone, visiting
  the listed keys one by one applies a function to every entry exactly once.
\<close>

locale keyed_store =
  fixes find :: "'s \<Rightarrow> 'k \<Rightarrow> 'v option" and put :: "'k \<Rightarrow> 'v \<Rightarrow> 's \<Rightarrow> 's"
    and keep :: "'k list \<Rightarrow> 's \<Rightarrow> 's" and keys :: "'s \<Rightarrow> 'k list" and ok :: "'s \<Rightarrow> bool"
  assumes find_put: "ok s \<Longrightarrow> find (put k v s) j = (if j = k then Some v else find s j)"
    and find_keep: "ok s \<Longrightarrow> find (keep ks s) j = (if j \<in> set ks then find s j else None)"
    and ok_put: "ok s \<Longrightarrow> ok (put k v s)" and ok_keep: "ok s \<Longrightarrow> ok (keep ks s)"
    and keys_find: "ok s \<Longrightarrow> k \<in> set (keys s) \<longleftrightarrow> find s k \<noteq> None"
    and distinct_keys: "ok s \<Longrightarrow> distinct (keys s)"
begin

definition visit :: "('v \<Rightarrow> 'v) \<Rightarrow> 'k \<Rightarrow> 's \<Rightarrow> 's" where
  "visit f k s = (case find s k of None \<Rightarrow> s | Some v \<Rightarrow> put k (f v) s)"

lemma find_visit: "ok s \<Longrightarrow> find (visit f k s) j = (if j = k then map_option f (find s j) else find s j)"
  by (auto simp: visit_def find_put split: option.split)

lemma ok_visit: "ok s \<Longrightarrow> ok (visit f k s)"
  by (auto simp: visit_def ok_put split: option.split)

lemma find_visits:
  assumes "ok s" "distinct ks"
  shows "find (fold (visit f) ks s) j = (if j \<in> set ks then map_option f (find s j) else find s j)"
  using assms by (induction ks arbitrary: s) (auto simp: find_visit ok_visit)

lemma ok_visits: "ok s \<Longrightarrow> ok (fold (visit f) ks s)"
  by (induction ks arbitrary: s) (auto simp: ok_visit)

end

lemma distinct_filter_fst: "distinct (map fst m) \<Longrightarrow> distinct (map fst (filter P m))"
  by (induction m) auto

lemma map_of_filter_key: "map_of (filter (\<lambda>(k, _). k \<in> set ks) m) j = (if j \<in> set ks then map_of m j else None)"
  by (induction m) auto

interpretation alist: keyed_store map_of "AList.update" "\<lambda>ks. filter (\<lambda>(k, _). k \<in> set ks)" "map fst" "\<lambda>m. distinct (map fst m)"
proof (unfold_locales, goal_cases)
  case (1 s k v j)
  then show ?case by (simp add: AList.update_conv')
next
  case (2 s ks j)
  show ?case by (rule map_of_filter_key)
next
  case (3 s k v)
  then show ?case by (rule AList.distinct_update)
next
  case (4 s ks)
  then show ?case by (rule distinct_filter_fst)
next
  case (5 s k)
  then show ?case by (simp add: map_of_eq_None_iff)
next
  case (6 s)
  then show ?case .
qed

section \<open>Independence of the streams\<close>

datatype rtcp_event =
    EObserve u32 u16 u32 u64 u32
  | ESender u32 u32 u32 u64
  | ERetain "u32 list"
  | EReports u64

fun set_step :: "rtcp_event \<Rightarrow> RtcpReceptionStatsSet \<Rightarrow> RtcpReceptionStatsSet" where
  "set_step (EObserve ssrc q ts ms rate) s = SetObserve ssrc q ts ms rate s"
| "set_step (ESender ssrc sec frac ms) s = SetObserveSenderReport ssrc sec frac ms s"
| "set_step (ERetain ssrcs) s = Retain ssrcs s"
| "set_step (EReports now) s = snd (Reports now s)"

text \<open>The machine of a single SSRC: its statistics, if it is tracked, and whether it may be.\<close>

fun one_step :: "u32 \<Rightarrow> rtcp_event \<Rightarrow> RtcpReceptionStats option \<times> bool \<Rightarrow> RtcpReceptionStats option \<times> bool" where
  "one_step x (EObserve ssrc q ts ms rate) (st, may) =
     (if ssrc = x \<and> may then Some (Observe x q ts ms rate (case st of None \<Rightarrow> new_stats | Some s \<Rightarrow> s)) else st, may)"
| "one_step x (ESender ssrc sec frac ms) (st, may) =
     (if ssrc = x then map_option (ObserveSenderReport x sec frac ms) st else st, may)"
| "one_step x (ERetain ssrcs) (st, may) = (if x \<in> set ssrcs then st else None, x \<in> set ssrcs)"
| "one_step x (EReports now) (st, may) = (map_option (\<lambda>s. snd (Report now s)) st, may)"

definition view :: "u32 \<Rightarrow> RtcpReceptionStatsSet \<Rightarrow> RtcpReceptionStats option \<times> bool" where
  "view x s = (map_of (streams s) x, \<not> authoritative s \<or> x \<in> set (allowedSSRCs s))"

lemma report_loop_state: "snd (report_loop now ks m) = fold (alist.visit (\<lambda>s. snd (Report now s))) ks m"
  by (induction ks arbitrary: m) (auto simp: alist.visit_def split_beta Let_def split: option.split)

abbreviation set_ok :: "RtcpReceptionStatsSet \<Rightarrow> bool" where
  "set_ok s \<equiv> distinct (map fst (streams s))"

lemma set_step_ok: "set_ok s \<Longrightarrow> set_ok (set_step e s)"
proof (cases e)
  case (EReports now)
  moreover assume "set_ok s"
  ultimately show ?thesis
    using alist.ok_visits report_loop_state [of now "sort (map fst (streams s))" "streams s"]
    by (simp add: Reports_def split_beta)
qed (auto simp: SetObserve_def SetObserveSenderReport_def Retain_def Let_def AList.distinct_update distinct_filter_fst split: option.split)

lemma set_step_view:
  assumes "set_ok s"
  shows "view x (set_step e s) = one_step x e (view x s)"
proof (cases e)
  case (EReports now)
  have "map_of (snd (report_loop now (sort (map fst (streams s))) (streams s))) x =
      map_option (\<lambda>s. snd (Report now s)) (map_of (streams s) x)"
    unfolding report_loop_state using assms alist.find_visits [OF assms, of "sort (map fst (streams s))"]
    by (cases "x \<in> fst ` set (streams s)") (simp_all add: map_of_eq_None_iff [THEN iffD2])
  then show ?thesis by (simp add: EReports Reports_def split_beta view_def)
qed (use assms in \<open>auto simp: view_def SetObserve_def SetObserveSenderReport_def Retain_def Let_def
    AList.update_conv' map_of_filter_key split: option.split\<close>)

lemma run_view:
  "set_ok (fold set_step es new_set) \<and> view x (fold set_step es new_set) = fold (one_step x) es (None, True)"
proof -
  have "set_ok s \<Longrightarrow> set_ok (fold set_step es s) \<and> view x (fold set_step es s) = fold (one_step x) es (view x s)" for s
    by (induction es arbitrary: s) (simp_all add: set_step_ok set_step_view)
  from this [of new_set] show ?thesis by (simp add: new_set_def view_def)
qed

text \<open>
  C40: the set behaves as one independent machine per SSRC: after any sequence of packets, sender
  reports, roster changes and report requests, what it holds for an SSRC, and whether it accepts
  packets of it, is what the machine of that SSRC alone has computed; packets of other streams
  never show, and a stream dropped from the roster starts afresh if it returns.
\<close>

theorem reception_set_refines:
  "view x (fold set_step es new_set) = fold (one_step x) es (None, True)"
  using run_view by blast

section \<open>Reports\<close>

definition own_stats :: "u32 \<Rightarrow> RtcpReceptionStats option \<Rightarrow> bool" where
  "own_stats x st \<longleftrightarrow> (case st of None \<Rightarrow> True | Some s \<Rightarrow> hasSsrc s \<and> rs_ssrc s = x)"

lemma one_step_own: "own_stats x (fst p) \<Longrightarrow> own_stats x (fst (one_step x e p))"
proof (cases p)
  case (Pair st may)
  assume "own_stats x (fst p)"
  moreover have "hasSsrc (Observe x q ts ms rate s) \<and> rs_ssrc (Observe x q ts ms rate s) = x" for q ts ms rate s
    by (simp add: Observe_def observe_sequence_def Let_def)
  moreover have "hasSsrc s \<Longrightarrow> hasSsrc (snd (Report now s)) \<and> rs_ssrc (snd (Report now s)) = rs_ssrc s" for now s
    using Report_shape [of s now] by auto
  ultimately show ?thesis
    using Pair by (cases e) (auto simp: own_stats_def ObserveSenderReport_def split: option.splits)
qed

lemma run_own: "own_stats x (map_of (streams (fold set_step es new_set)) x)"
proof -
  have "own_stats x (fst p) \<Longrightarrow> own_stats x (fst (fold (one_step x) es p))" for p
    by (induction es arbitrary: p) (simp_all add: one_step_own)
  from this [of "(None, True)"] run_view [of es x] show ?thesis by (metis fst_conv own_stats_def option.simps(4) view_def)
qed

lemma report_loop_keys:
  assumes "distinct ks" "\<And>k. k \<in> set ks \<Longrightarrow> own_stats k (map_of m k) \<and> map_of m k \<noteq> None"
  shows "map ReportSsrc (fst (report_loop now ks m)) = ks \<and>
    map Some (fst (report_loop now ks m)) = map (\<lambda>k. fst (Report now (the (map_of m k)))) ks"
  using assms
proof (induction ks arbitrary: m)
  case (Cons k ks)
  obtain st where st: "map_of m k = Some st" "hasSsrc st" "rs_ssrc st = k"
    using Cons.prems(2) [of k] by (auto simp: own_stats_def)
  obtain r st' where r: "Report now st = (Some r, st')" "ReportSsrc r = k" using Report_shape [OF st(2), of now] st(3) by auto
  let ?m = "AList.update k st' m"
  have same: "map_of ?m j = map_of m j" if "j \<in> set ks" for j
    using that Cons.prems(1) by (auto simp: AList.update_conv')
  then have "map ReportSsrc (fst (report_loop now ks ?m)) = ks \<and>
      map Some (fst (report_loop now ks ?m)) = map (\<lambda>k. fst (Report now (the (map_of ?m k)))) ks"
    using Cons.prems by (intro Cons.IH) simp_all
  with same st(1) r show ?case by (simp add: split_beta cong: map_cong)
qed simp

text \<open>
  After any history, the reports come in strictly ascending order of SSRC, one for each
  tracked stream, and each is the report that stream makes by itself.
\<close>

lemma Reports_sorted:
  "let s = fold set_step es new_set; reports = fst (Reports now s); ssrcs = map ReportSsrc reports
   in sorted_wrt (<) ssrcs \<and> set ssrcs = dom (map_of (streams s)) \<and>
      map Some reports = map (\<lambda>x. fst (Report now (the (map_of (streams s) x)))) ssrcs"
proof -
  let ?s = "fold set_step es new_set"
  let ?ks = "sort (map fst (streams ?s))"
  have ok: "set_ok ?s" using run_view by blast
  have "map_of (streams ?s) k \<noteq> None" if "k \<in> set ?ks" for k using that by (simp add: map_of_eq_None_iff)
  with ok run_own have k: "map ReportSsrc (fst (report_loop now ?ks (streams ?s))) = ?ks \<and>
      map Some (fst (report_loop now ?ks (streams ?s))) = map (\<lambda>k. fst (Report now (the (map_of (streams ?s) k)))) ?ks"
    by (intro report_loop_keys) simp_all
  have "fst (Reports now ?s) = fst (report_loop now ?ks (streams ?s))" by (simp add: Reports_def split_beta)
  moreover have "sorted_wrt (<) ?ks" using ok by (simp add: strict_sorted_iff)
  ultimately show ?thesis
    unfolding Let_def by (simp only: k [THEN conjunct1] k [THEN conjunct2] set_sort set_map dom_map_of_conv_image_fst simp_thms)
qed

end
