(* ===== verification/Spec2Isabelle.thy ===== *)
theory Spec2Isabelle
  imports Reactions AppstateCodec RangeCodec CallLink CallSession Pipeline Fanout AudioPath Noise Codec Framing AttrUtil Callutil E2e Hbh Sframe Stun H264 Rtp Rtcp ReceptionSet Ssrc
begin

text \<open>
  Verification of the protocol core of whatsrook, a WhatsApp client library in Go with a command
  line around it (sources under \<^verbatim>\<open>src/\<close>, package paths below relative to \<^verbatim>\<open>src/wa-core/\<close>).

  \<^bold>\<open>The program.\<close> A client exchanges binary XML elements with the server: \<^verbatim>\<open>binary/\<close> encodes and
  decodes them over the token dictionaries of \<^verbatim>\<open>binary/token\<close> and the identifiers of
  \<^verbatim>\<open>types/jid.go\<close>. A call exchanges media with relays: \<^verbatim>\<open>stun/\<close> builds the allocate
  requests and reads the answers, \<^verbatim>\<open>rtp/\<close> cuts audio and video into RTP packets and puts them
  together again, counts what arrives and builds the RTCP reports, \<^verbatim>\<open>srtp/\<close> derives the keys
  and encrypts packets and frames. The elements travel in frames over a websocket, encrypted after a Noise
  handshake (\<^verbatim>\<open>socket/\<close>). \<^verbatim>\<open>signaling/\<close> builds and parses the elements that set up calls, group calls and
  call links; \<^verbatim>\<open>call_*.go\<close> holds the call sessions, the pipeline every media packet passes, the relays, the
  registry of the participants of a group call with their keys, and the audio path; \<^verbatim>\<open>mlow/rangecoder.go\<close> is the entropy coder of
  the audio codec. \<^verbatim>\<open>appstate/\<close> keeps the settings of the devices of an account in step.

  \<^bold>\<open>The theories.\<close>
  \<^item> \<open>Prelude\<close>: machine integers, the result monad for \<open>(value, error)\<close> pairs and panics, slices,
    big- and little-endian layouts, sequence-number arithmetic, the locales \<open>prefix_codec\<close> and
    \<open>text_codec\<close> that state what a codec promises. \<open>Golib\<close>: the parts of \<open>strconv\<close>, \<open>strings\<close> and
    \<open>encoding/binary\<close> the sources call. \<open>Crypto\<close>: SHA-1, SHA-256, HMAC, HKDF, AES-128, counter
    mode, GCM and CRC-32 as executable functions; the locale \<open>keystream\<close> gives length and
    involution of every counter mode.
  \<^item> \<open>Token\<close>, \<open>Jid\<close>, \<open>Node\<close>, \<open>Encoder\<close>, \<open>Decoder\<close> model \<^verbatim>\<open>binary/token/token.go\<close>,
    \<^verbatim>\<open>types/jid.go\<close>, \<^verbatim>\<open>binary/node.go\<close>, \<^verbatim>\<open>encoder.go\<close>, \<^verbatim>\<open>decoder.go\<close> and
    \<^verbatim>\<open>unpack.go\<close> method by method; panics and errors are values. \<open>Codec\<close> proves that decoding
    inverts encoding for elements of any shape, \<open>Framing\<close> that a frame is accepted only whole.
    \<open>AttrUtil\<close> models the typed getters of \<^verbatim>\<open>binary/attrs.go\<close> and what reaches them from a
    peer's attribute.
  \<^item> \<open>Callutil\<close> (\<^verbatim>\<open>callutil/\<close>), \<open>E2e\<close>, \<open>Hbh\<close>, \<open>Sframe\<close> (\<^verbatim>\<open>srtp/e2e.go\<close>, \<^verbatim>\<open>hbh.go\<close> with
    \<^verbatim>\<open>warp.go\<close>, \<^verbatim>\<open>sframe.go\<close>): key schedules, initialisation vectors that never repeat,
    packet and frame protection with its inverse, rollover counters that follow the true packet
    counter. \<open>Ssrc\<close> (\<^verbatim>\<open>rtp/ssrc.go\<close>): stream identifiers.
  \<^item> \<open>Stun\<close> (\<^verbatim>\<open>stun/stun.go\<close>): request builders and response parsers, round trips of the
    attributes and of the protobuf payloads, integrity and fingerprint.
  \<^item> \<open>H264\<close> (\<^verbatim>\<open>rtp/h264.go\<close>): fragmentation, reassembly, the access-unit assembler under loss, fed
    by access units packed as the video sender of \<^verbatim>\<open>call_engine_media.go\<close> packs them.
    \<open>Rtp\<close> (\<^verbatim>\<open>rtp/rtp.go\<close>): header codec and the audio and video sequencers against index-based
    specifications. \<open>Rtcp\<close> (\<^verbatim>\<open>rtp/rtcp.go\<close>): reception statistics, report builders, and the
    compound scanners as interpretations of the locale \<open>compound_scanner\<close>. \<open>ReceptionSet\<close>
    (\<^verbatim>\<open>rtp/rtcp_reception_set.go\<close>): the map of statistics refines one independent machine per
    stream, through the locale \<open>keyed_store\<close>.
  \<^item> \<open>Cipher\<close>: AES of every key size, CBC, GCM with additional data, SHA-512. \<open>Socket\<close> and \<open>Noise\<close> (\<^verbatim>\<open>socket/\<close>,
    \<^verbatim>\<open>handshake.go\<close>): framing, the handshake as a state machine and the channel; both ends agree on the keys, messages
    within the read limit arrive in order, a forged frame is dropped alone, and a frame cut over two websocket messages is completed wrongly or
    makes the reader panic.
    \<open>Cbc\<close> (\<^verbatim>\<open>util/cbcutil\<close>): the chunked media routines equal the in-memory ones.
  \<^item> \<open>Lthash\<close>, \<open>AppstateStore\<close>, \<open>Appstate\<close> (\<^verbatim>\<open>appstate/\<close> and its queries in \<^verbatim>\<open>store/sqlstore/store.go\<close>): the summation
    hash, the tables with their constraints, encoding and decoding of patches and snapshots. \<open>AppstateSync\<close>
    shows that the hash of a collection stays the sum over its live values (locale \<open>previous_value\<close>), \<open>AppstateCodec\<close> that a patch
    encoded by one device is decoded by another (locale \<open>action_codec\<close>).
  \<^item> \<open>Stanza\<close>, \<open>GroupCall\<close>, \<open>CallLink\<close> (\<^verbatim>\<open>signaling/\<close>): builders and parsers; what is built, encoded, decoded and parsed
    is what was meant, and a group invite is accepted only with a whole roster and one identity. \<open>CallSession\<close> (\<^verbatim>\<open>call_crypto_session.go\<close>, \<^verbatim>\<open>call_registry.go\<close>): the phases of a call as a step relation
    and the registry with its media tasks.
  \<^item> \<open>Pipeline\<close> (\<^verbatim>\<open>call_crypto_session.go\<close>): numbering, protection and opening of media packets under loss, repetition,
    reordering and forgery. \<open>Fanout\<close> (\<^verbatim>\<open>call_engine_relay_fanout.go\<close>): broadcast and merge over several relays as a
    step relation, and the duplicate filter against a specification by sets. \<open>AudioPath\<close> (\<^verbatim>\<open>call_audio_playout.go\<close>,
    \<^verbatim>\<open>call_group_audio_mixer.go\<close>): playout buffer and mixer over any type of samples, of which
    nothing is assumed but comparisons of constants, so that a NaN is covered.
  \<^item> \<open>GroupReceive\<close> (\<^verbatim>\<open>call_group_media_receive.go\<close>, \<^verbatim>\<open>call_group_control_types.go\<close>, the SRTCP ends of
    \<^verbatim>\<open>call_engine_media.go\<close>): receivers in a store shared by six indexes, rosters and key epochs. \<open>GroupMedia\<close> proves the
    invariant of the registry for every operation, \<open>GroupEpochs\<close> that it refines ``the newest epoch received that the roster
    has reached'', in whatever order rosters and keys arrive, and that audio is attributed to its sender only.
    \<open>AppData\<close> (\<^verbatim>\<open>call_appdata.go\<close>) models the reactions of a call over the protobuf wire library (locale \<open>protowire_laws\<close>) and
    shows that no payload makes the decoder hang or panic. \<open>MediaLoop\<close> (the receive loop of \<^verbatim>\<open>call_engine_media.go\<close>, with \<^verbatim>\<open>relay/\<close>'s
    classification of packets) puts the roster check, the unwrapping of group packets and the replay filter before them; what the loop hands to
    the video assembler and to the playout is not part of its state. \<open>Reactions\<close> follows reactions from one end of a call through that loop to the callback of the other.
  \<^item> \<open>RangeCoder\<close> (\<^verbatim>\<open>mlow/rangecoder.go\<close>): encoder and decoder. \<open>RangeEncode\<close>, \<open>RangeDone\<close> and \<open>RangeDecode\<close> relate
    them to arithmetic on the interval of the code, \<open>RangeCodec\<close> proves the round trip for any sequence of symbols and raw bits
    (locale \<open>symbol_code\<close>).

  \<^bold>\<open>Conventions.\<close> Go structs are records, \<open>uintN\<close> values are words of that width, \<open>int\<close> is \<open>nat\<close>
  or \<open>int\<close> where the code keeps it in range, byte slices are lists of 8-bit words, strings are HOL
  strings (eight-bit characters, as Go strings are byte sequences). Go maps are association lists
  in an arbitrary order, which is the unspecified iteration order. A method under a lock is one
  step of its state. Code outside the repository is a parameter: the zlib inflater, the curve and signature of the
  handshake, the protocol-buffer and JSON codecs of the sync actions, the wire library of the reactions, the audio decoder, the websocket; what is needed of it is a locale or a hypothesis with an instance
  (of the JSON codec only on valid UTF-8, of the websocket that it reads messages within the limit whole).
  The NTP fraction of a sender report, which the code computes in floating point, is an argument of the builders.

  \<^bold>\<open>Bounds and fuel.\<close> The recursion of the element decoder carries a depth; the length of the
  input plus one is proved to be enough and larger depths to give the same result. The normalisation loops of the range coder
  are options whose \<open>None\<close> is not returning; they are proved to return on the states a code reaches, for buffers of fewer
  than \<open>2 ^ 30\<close> symbols, beyond which the code's 32-bit bit counters would wrap. The decoding loops of the reactions are
  options too and proved to return on every payload. The merge of the relays is proved never to be stuck. Every other
  loop is a total recursive function. The known-answer vectors of the repository (SFrame, end-to-end
  and hop-by-hop keys, STUN requests) evaluate to the expected bytes on these definitions.

  \<^bold>\<open>Not modelled.\<close> The floating-point signal processing of the speech codec (the rest of \<^verbatim>\<open>mlow/\<close>), generated protocol
  buffers, the JSON of the voip settings, the SQL stores beside the app-state tables, the command line and its plugins, and the
  orchestration of client and call engine: network connections, timers, and the scheduling of goroutines beyond the step relations above.
\<close>

end
